(* ===== verification/Prelude.thy ===== *)
theory Prelude
  imports Main "HOL-Library.Char_ord" "HOL-Library.List_Lexorder"
    "HOL-Library.Product_Lexorder" "HOL-Library.Sublist"
begin

text \<open>
  Shared vocabulary of the development.

  A Python \<^verbatim>\<open>str\<close> and a Python \<^verbatim>\<open>bytes\<close> are both values of type \<^typ>\<open>string\<close>: bytes as they
  are, text as its UTF-8 encoding. Descriptor strings reach the program in that form, equality,
  concatenation, prefixes and substring tests mean the same on both sides, and UTF-8 orders
  strings as their code points do, so \<^verbatim>\<open>sorted\<close> agrees too. Where the source counts or
  classifies code points (\<open>str.strip\<close>, \<open>isalpha\<close>, \<open>len\<close> of text) the model works on
  \<open>utf8_chars\<close>, the list of encoded characters.

  An exception is a left value of a sum; \<open>rbind\<close> stops at it, \<open>rfold\<close> and \<open>each\<close> are
  loops over a list whose body may raise.
\<close>

named_theorems str_simps \<open>evaluation rules of the string operations\<close>

section \<open>Results and loops that may raise\<close>

fun rbind :: "'e + 'a \<Rightarrow> ('a \<Rightarrow> 'e + 'b) \<Rightarrow> 'e + 'b" where
  "rbind (Inl e) f = Inl e"
| "rbind (Inr x) f = f x"

lemma rbind_Inr_iff [simp]:
  "rbind m f = Inr y \<longleftrightarrow> (\<exists>x. m = Inr x \<and> f x = Inr y)"
  by (cases m) auto

lemma rbind_Inl_iff:
  "rbind m f = Inl e \<longleftrightarrow> m = Inl e \<or> (\<exists>x. m = Inr x \<and> f x = Inl e)"
  by (cases m) auto

lemma rbind_assoc: "rbind (rbind m f) g = rbind m (\<lambda>x. rbind (f x) g)"
  by (cases m) auto

lemma rbind_cong [fundef_cong]:
  "m = m' \<Longrightarrow> (\<And>x. m' = Inr x \<Longrightarrow> f x = f' x) \<Longrightarrow> rbind m f = rbind m' f'"
  by (cases m') auto

fun rfold :: "('a \<Rightarrow> 's \<Rightarrow> 'e + 's) \<Rightarrow> 'a list \<Rightarrow> 's \<Rightarrow> 'e + 's" where
  "rfold f [] s = Inr s"
| "rfold f (x # xs) s = rbind (f x s) (rfold f xs)"

lemma rfold_append: "rfold f (xs @ ys) s = rbind (rfold f xs s) (rfold f ys)"
proof (induction xs arbitrary: s)
  case (Cons x xs)
  then show ?case by (cases "f x s") auto
qed simp

lemma rfold_invariant:
  assumes "rfold f xs s = Inr t" and "I s"
    and "\<And>x s t. x \<in> set xs \<Longrightarrow> I s \<Longrightarrow> f x s = Inr t \<Longrightarrow> I t"
  shows "I t"
  using assms by (induction xs arbitrary: s) auto

fun each :: "('a \<Rightarrow> 'e + unit) \<Rightarrow> 'a list \<Rightarrow> 'e + unit" where
  "each f [] = Inr ()"
| "each f (x # xs) = rbind (f x) (\<lambda>_. each f xs)"

lemma each_ok [simp]: "each f xs = Inr u \<longleftrightarrow> (\<forall>x\<in>set xs. f x = Inr ())"
  by (induction xs) auto

lemma each_append: "each f (xs @ ys) = rbind (each f xs) (\<lambda>_. each f ys)"
  by (induction xs) (auto simp: rbind_assoc)

lemma each_cong [fundef_cong]:
  "xs = ys \<Longrightarrow> (\<And>x. x \<in> set ys \<Longrightarrow> f x = g x) \<Longrightarrow> each f xs = each g ys"
proof -
  assume "xs = ys" and eq: "\<And>x. x \<in> set ys \<Longrightarrow> f x = g x"
  have "(\<And>x. x \<in> set zs \<Longrightarrow> f x = g x) \<Longrightarrow> each f zs = each g zs" for zs
    by (induction zs) auto
  with \<open>xs = ys\<close> eq show ?thesis by blast
qed

lemma rfold_cong [fundef_cong]:
  "xs = ys \<Longrightarrow> s = t \<Longrightarrow> (\<And>x s. x \<in> set ys \<Longrightarrow> f x s = g x s) \<Longrightarrow> rfold f xs s = rfold g ys t"
proof -
  assume "xs = ys" "s = t" and eq: "\<And>x s. x \<in> set ys \<Longrightarrow> f x s = g x s"
  have "(\<And>x s. x \<in> set zs \<Longrightarrow> f x s = g x s) \<Longrightarrow> rfold f zs s = rfold g zs s" for zs s
    by (induction zs arbitrary: s) (auto intro: rbind_cong)
  with \<open>xs = ys\<close> \<open>s = t\<close> eq show ?thesis by blast
qed

fun rmap :: "('a \<Rightarrow> 'e + 'b) \<Rightarrow> 'a list \<Rightarrow> 'e + 'b list" where
  "rmap f [] = Inr []"
| "rmap f (x # xs) = rbind (f x) (\<lambda>y. rbind (rmap f xs) (\<lambda>ys. Inr (y # ys)))"

lemma rmap_Inr_iff: "rmap f xs = Inr ys \<longleftrightarrow> list_all2 (\<lambda>x y. f x = Inr y) xs ys"
  by (induction xs arbitrary: ys) (auto simp: list_all2_Cons1)

lemma rmap_total: "\<forall>x\<in>set xs. \<exists>y. f x = Inr y \<Longrightarrow> \<exists>ys. rmap f xs = Inr ys"
  by (induction xs) auto

fun lift_error :: "('e \<Rightarrow> 'f) \<Rightarrow> 'e + 'a \<Rightarrow> 'f + 'a" where
  "lift_error g (Inl e) = Inl (g e)"
| "lift_error g (Inr x) = Inr x"

lemma lift_error_Inr [simp]: "lift_error g m = Inr x \<longleftrightarrow> m = Inr x"
  by (cases m) auto

definition raise_if :: "bool \<Rightarrow> 'e \<Rightarrow> 'e + unit" where
  "raise_if b e = (if b then Inl e else Inr ())"

lemma raise_if_ok [simp]: "raise_if b e = Inr u \<longleftrightarrow> \<not> b"
  by (simp add: raise_if_def)

lemma raise_if_Inl [simp]: "raise_if b e = Inl e' \<longleftrightarrow> b \<and> e' = e"
  by (auto simp: raise_if_def)

section \<open>String operations\<close>

definition startswith :: "'a list \<Rightarrow> 'a list \<Rightarrow> bool" where
  "startswith s p = (take (length p) s = p)"

definition endswith :: "'a list \<Rightarrow> 'a list \<Rightarrow> bool" where
  "endswith s p = startswith (rev s) (rev p)"

lemma startswith_iff: "startswith s p \<longleftrightarrow> (\<exists>r. s = p @ r)"
  unfolding startswith_def by (metis append_eq_conv_conj append_take_drop_id)

lemma endswith_iff: "endswith s p \<longleftrightarrow> (\<exists>r. s = r @ p)"
  unfolding endswith_def startswith_iff by (metis rev_append rev_rev_ident)

lemma startswith_append [simp]: "startswith (p @ s) p"
  by (auto simp: startswith_iff)

fun occurs_in :: "'a list \<Rightarrow> 'a list \<Rightarrow> bool" where
  "occurs_in p [] = (p = [])"
| "occurs_in p (c # s) = (startswith (c # s) p \<or> occurs_in p s)"

lemma occurs_in_iff: "occurs_in p s \<longleftrightarrow> (\<exists>a b. s = a @ p @ b)"
proof (induction s)
  case (Cons c s)
  show ?case
  proof
    assume "occurs_in p (c # s)"
    then consider "startswith (c # s) p" | "occurs_in p s" by auto
    then show "\<exists>a b. c # s = a @ p @ b"
    proof cases
      case 1
      then show ?thesis unfolding startswith_iff by (metis append_Nil)
    next
      case 2
      with Cons.IH obtain a b where "s = a @ p @ b" by blast
      then have "c # s = (c # a) @ p @ b" by simp
      then show ?thesis by blast
    qed
  next
    assume "\<exists>a b. c # s = a @ p @ b"
    then obtain a b where ab: "c # s = a @ p @ b" by blast
    show "occurs_in p (c # s)"
    proof (cases a)
      case Nil
      with ab have "startswith (c # s) p" by (auto simp: startswith_iff)
      then show ?thesis by simp
    next
      case (Cons x a')
      with ab have "s = a' @ p @ b" by simp
      with Cons.IH have "occurs_in p s" by blast
      then show ?thesis by simp
    qed
  qed
qed auto

fun split_on :: "'a \<Rightarrow> 'a list \<Rightarrow> 'a list list" where
  "split_on c [] = [[]]"
| "split_on c (x # xs) =
     (if x = c then [] # split_on c xs
      else (case split_on c xs of [] \<Rightarrow> [[x]] | w # ws \<Rightarrow> (x # w) # ws))"

fun join :: "'a list \<Rightarrow> 'a list list \<Rightarrow> 'a list" where
  "join s [] = []"
| "join s [w] = w"
| "join s (w # ws) = w @ s @ join s ws"

lemma split_on_nonempty [simp]: "split_on c xs \<noteq> []"
  by (induction xs) (auto split: list.splits)

lemma join_Cons: "ws \<noteq> [] \<Longrightarrow> join s (w # ws) = w @ s @ join s ws"
  by (cases ws) auto

lemma join_split_on [simp]: "join [c] (split_on c xs) = xs"
proof (induction xs)
  case (Cons x xs)
  show ?case
  proof (cases "split_on c xs")
    case Nil
    then show ?thesis by simp
  next
    case w: (Cons w ws)
    show ?thesis
    proof (cases ws)
      case Nil
      with w Cons show ?thesis by auto
    next
      case (Cons v vs)
      with w \<open>join [c] (split_on c xs) = xs\<close> show ?thesis by auto
    qed
  qed
qed simp

lemma split_on_no_sep: "w \<in> set (split_on c xs) \<Longrightarrow> c \<notin> set w"
  by (induction xs arbitrary: w) (auto split: if_splits list.splits)

lemma split_on_no_occ: "c \<notin> set xs \<Longrightarrow> split_on c xs = [xs]"
  by (induction xs) auto

lemma split_on_append_sep:
  "c \<notin> set w \<Longrightarrow> split_on c (w @ c # xs) = w # split_on c xs"
  by (induction w) auto

lemma split_on_join:
  "ws \<noteq> [] \<Longrightarrow> \<forall>w\<in>set ws. c \<notin> set w \<Longrightarrow> split_on c (join [c] ws) = ws"
  by (induction ws rule: induct_list012)
    (auto simp: split_on_no_occ split_on_append_sep)

lemma split_on_set: "w \<in> set (split_on c xs) \<Longrightarrow> set w \<subseteq> set xs"
  by (induction xs arbitrary: w) (fastforce split: if_splits list.splits)+

definition first_part :: "'a \<Rightarrow> 'a list \<Rightarrow> 'a list" where
  "first_part c xs = takeWhile (\<lambda>x. x \<noteq> c) xs"

definition removeprefix :: "'a list \<Rightarrow> 'a list \<Rightarrow> 'a list" where
  "removeprefix p s = (if startswith s p then drop (length p) s else s)"

definition removesuffix :: "'a list \<Rightarrow> 'a list \<Rightarrow> 'a list" where
  "removesuffix p s = (if p \<noteq> [] \<and> endswith s p then take (length s - length p) s else s)"

definition rstrip_char :: "'a \<Rightarrow> 'a list \<Rightarrow> 'a list" where
  "rstrip_char c s = rev (dropWhile (\<lambda>x. x = c) (rev s))"

lemma rstrip_char_last: "rstrip_char c s \<noteq> [] \<Longrightarrow> last (rstrip_char c s) \<noteq> c"
  unfolding rstrip_char_def
  by (metis (mono_tags, lifting) hd_dropWhile last_rev rev.simps(1))

lemma rstrip_char_prefix: "\<exists>n. s = rstrip_char c s @ replicate n c"
proof -
  let ?d = "takeWhile (\<lambda>x. x = c) (rev s)"
  have "rev s = ?d @ dropWhile (\<lambda>x. x = c) (rev s)" by simp
  then have "s = rstrip_char c s @ rev ?d"
    unfolding rstrip_char_def by (metis rev_append rev_rev_ident)
  moreover have "?d = replicate (length ?d) c"
    by (metis (mono_tags, lifting) replicate_eqI set_takeWhileD)
  ultimately show ?thesis by (metis rev_replicate)
qed

section \<open>Characters and hexadecimal\<close>

definition byte_of :: "char \<Rightarrow> nat" where
  "byte_of c = of_char c"

lemma byte_of_less [simp]: "byte_of c < 256"
  by (simp add: byte_of_def)

lemma byte_of_inj: "byte_of a = byte_of b \<longleftrightarrow> a = b"
  by (simp add: byte_of_def)

definition is_upper_ascii :: "char \<Rightarrow> bool" where
  "is_upper_ascii c = (CHR ''A'' \<le> c \<and> c \<le> CHR ''Z'')"

definition is_lower_ascii :: "char \<Rightarrow> bool" where
  "is_lower_ascii c = (CHR ''a'' \<le> c \<and> c \<le> CHR ''z'')"

definition is_digit_ascii :: "char \<Rightarrow> bool" where
  "is_digit_ascii c = (CHR ''0'' \<le> c \<and> c \<le> CHR ''9'')"

definition is_alpha_ascii :: "char \<Rightarrow> bool" where
  "is_alpha_ascii c = (is_upper_ascii c \<or> is_lower_ascii c)"

definition upper_ascii :: "char \<Rightarrow> char" where
  "upper_ascii c = (if is_lower_ascii c then char_of (byte_of c - 32) else c)"

definition hex_lower :: "nat \<Rightarrow> char" where
  "hex_lower n = (''0123456789abcdef'' ! n)"

definition hex_upper :: "nat \<Rightarrow> char" where
  "hex_upper n = (''0123456789ABCDEF'' ! n)"

definition hex_byte :: "(nat \<Rightarrow> char) \<Rightarrow> char \<Rightarrow> string" where
  "hex_byte d c = [d (byte_of c div 16), d (byte_of c mod 16)]"

definition hex_of :: "string \<Rightarrow> string" where
  "hex_of s = concat (map (hex_byte hex_lower) s)"

lemma hex_lower_inj: "m < 16 \<Longrightarrow> n < 16 \<Longrightarrow> hex_lower m = hex_lower n \<Longrightarrow> m = n"
  unfolding hex_lower_def
  by (rule nth_eq_iff_index_eq [THEN iffD1, of "''0123456789abcdef''"]) simp_all

lemma hex_upper_inj: "m < 16 \<Longrightarrow> n < 16 \<Longrightarrow> hex_upper m = hex_upper n \<Longrightarrow> m = n"
  unfolding hex_upper_def
  by (rule nth_eq_iff_index_eq [THEN iffD1, of "''0123456789ABCDEF''"]) simp_all

lemma hex_lower_set: "n < 16 \<Longrightarrow> hex_lower n \<in> set ''0123456789abcdef''"
  unfolding hex_lower_def by (rule nth_mem) simp

lemma hex_upper_set: "n < 16 \<Longrightarrow> hex_upper n \<in> set ''0123456789ABCDEF''"
  unfolding hex_upper_def by (rule nth_mem) simp

lemma byte_div16 [simp]: "byte_of c div 16 < 16"
proof -
  have "byte_of c < 16 * 16" using byte_of_less [of c] by simp
  then show ?thesis by (rule less_mult_imp_div_less)
qed

lemma hex_byte_inj:
  assumes "\<And>m n. m < 16 \<Longrightarrow> n < 16 \<Longrightarrow> d m = d n \<Longrightarrow> m = n" and "hex_byte d a = hex_byte d b"
  shows "a = b"
proof -
  have "byte_of a div 16 = byte_of b div 16" and "byte_of a mod 16 = byte_of b mod 16"
    using assms by (auto simp: hex_byte_def)
  then have "byte_of a = byte_of b" by (metis div_mult_mod_eq)
  then show ?thesis by (simp add: byte_of_inj)
qed

lemma hex_of_Nil [simp]: "hex_of [] = []"
  by (simp add: hex_of_def)

lemma hex_of_Cons: "hex_of (c # s) = hex_byte hex_lower c @ hex_of s"
  by (simp add: hex_of_def)

lemma length_hex_byte [simp]: "length (hex_byte d c) = 2"
  by (simp add: hex_byte_def)

lemma length_hex_of [simp]: "length (hex_of s) = 2 * length s"
  by (induction s) (auto simp: hex_of_Cons)

lemma hex_of_inj: "hex_of s = hex_of t \<Longrightarrow> s = t"
proof (induction s arbitrary: t)
  case Nil
  then show ?case by (cases t) (auto simp: hex_of_Cons hex_byte_def)
next
  case (Cons c s)
  then obtain d u where t: "t = d # u" by (cases t) (auto simp: hex_of_Cons hex_byte_def)
  with Cons.prems have "hex_byte hex_lower c = hex_byte hex_lower d" and "hex_of s = hex_of u"
    by (auto simp: hex_of_Cons hex_byte_def)
  then have "c = d" using hex_byte_inj hex_lower_inj by blast
  with Cons.IH \<open>hex_of s = hex_of u\<close> t show ?case by blast
qed

lemma hex_of_set: "set (hex_of s) \<subseteq> set ''0123456789abcdef''"
proof (induction s)
  case (Cons c s)
  have *: "set [a, b] \<subseteq> H \<longleftrightarrow> a \<in> H \<and> b \<in> H" for a b :: char and H by simp
  have "set (hex_byte hex_lower c) \<subseteq> set ''0123456789abcdef''"
    unfolding hex_byte_def * by (simp add: hex_lower_set del: set_simps)
  with Cons show ?case by (simp add: hex_of_Cons del: set_simps)
qed simp

section \<open>Decimal numerals\<close>

definition digit_char :: "nat \<Rightarrow> char" where
  "digit_char d = (''0123456789'' ! d)"

fun dec_of_nat :: "nat \<Rightarrow> string" where
  "dec_of_nat n = (if n < 10 then [digit_char n] else dec_of_nat (n div 10) @ [digit_char (n mod 10)])"

declare dec_of_nat.simps [simp del]

definition dec_of_int :: "int \<Rightarrow> string" where
  "dec_of_int i = (if i < 0 then ''-'' @ dec_of_nat (nat (- i)) else dec_of_nat (nat i))"

lemma digit_char_inj: "m < 10 \<Longrightarrow> n < 10 \<Longrightarrow> digit_char m = digit_char n \<Longrightarrow> m = n"
  unfolding digit_char_def
  by (rule nth_eq_iff_index_eq [THEN iffD1, of "''0123456789''"]) simp_all

lemma digit_char_set: "n < 10 \<Longrightarrow> digit_char n \<in> set ''0123456789''"
  unfolding digit_char_def by (rule nth_mem) simp

lemma dec_of_nat_nonempty [simp]: "dec_of_nat n \<noteq> []"
  by (subst dec_of_nat.simps) simp

lemma Nil_neq_dec_of_nat [simp]: "[] \<noteq> dec_of_nat n"
  by (metis dec_of_nat_nonempty)

lemma dec_of_nat_inj: "dec_of_nat m = dec_of_nat n \<Longrightarrow> m = n"
proof (induction m arbitrary: n rule: dec_of_nat.induct)
  case (1 m)
  show ?case
  proof (cases "m < 10"; cases "n < 10")
    assume "m < 10" "n < 10"
    with "1.prems" show ?thesis
      by (simp add: dec_of_nat.simps [of m] dec_of_nat.simps [of n] digit_char_inj)
  next
    assume "\<not> m < 10" "\<not> n < 10"
    with "1.prems" have "dec_of_nat (m div 10) = dec_of_nat (n div 10)"
      and "digit_char (m mod 10) = digit_char (n mod 10)"
      by (simp_all add: dec_of_nat.simps [of m] dec_of_nat.simps [of n])
    with "1.IH" \<open>\<not> m < 10\<close> have "m div 10 = n div 10" and "m mod 10 = n mod 10"
      by (auto simp: digit_char_inj)
    then show ?thesis by (metis div_mult_mod_eq)
  qed (use "1.prems" in \<open>simp_all add: dec_of_nat.simps [of m] dec_of_nat.simps [of n]\<close>)
qed

lemma dec_of_nat_set: "set (dec_of_nat n) \<subseteq> set ''0123456789''"
proof (induction n rule: dec_of_nat.induct)
  case (1 n)
  show ?case
  proof (cases "n < 10")
    case True
    then show ?thesis
      using digit_char_set [of n] by (simp add: dec_of_nat.simps [of n] del: set_simps) simp
  next
    case False
    with "1.IH" show ?thesis
      using digit_char_set [of "n mod 10"] by (simp add: dec_of_nat.simps [of n])
  qed
qed

section \<open>Slices\<close>

definition slice_to :: "'a list \<Rightarrow> int \<Rightarrow> 'a list" where
  \<comment> \<open>\<^verbatim>\<open>xs[:n]\<close>; a negative end counts from the right\<close>
  "slice_to xs n = (if 0 \<le> n then take (nat n) xs else take (nat (int (length xs) + n)) xs)"

lemma slice_to_nonneg [simp]: "0 \<le> n \<Longrightarrow> slice_to xs n = take (nat n) xs"
  by (simp add: slice_to_def)

definition before_last :: "'a \<Rightarrow> 'a list \<Rightarrow> 'a list" where
  \<comment> \<open>\<^verbatim>\<open>s.rpartition(c)[0]\<close>\<close>
  "before_last c s = (case dropWhile (\<lambda>x. x \<noteq> c) (rev s) of [] \<Rightarrow> [] | _ # r \<Rightarrow> rev r)"

lemma before_last_none: "c \<notin> set s \<Longrightarrow> before_last c s = []"
proof -
  assume "c \<notin> set s"
  then have "dropWhile (\<lambda>x. x \<noteq> c) (rev s) = []" by auto
  then show ?thesis unfolding before_last_def by (metis list.simps(4))
qed

section \<open>Characters of a text\<close>

definition is_continuation :: "char \<Rightarrow> bool" where
  "is_continuation c = (128 \<le> byte_of c \<and> byte_of c < 192)"

function utf8_chars :: "string \<Rightarrow> string list" where
  \<comment> \<open>the encoded characters of a UTF-8 text: a lead byte with its continuation bytes\<close>
  "utf8_chars [] = []"
| "utf8_chars (c # s) = (c # takeWhile is_continuation s) # utf8_chars (dropWhile is_continuation s)"
  by pat_completeness auto
termination
  by (relation "measure length") (auto simp: le_imp_less_Suc length_dropWhile_le)

lemma concat_utf8_chars [simp]: "concat (utf8_chars s) = s"
  by (induction s rule: utf8_chars.induct) auto

lemma utf8_chars_nonempty: "c \<in> set (utf8_chars s) \<Longrightarrow> c \<noteq> []"
  by (induction s rule: utf8_chars.induct) auto

section \<open>Filtering maps\<close>

lemma map_filter_set: "set (List.map_filter f xs) = {y. \<exists>x\<in>set xs. f x = Some y}"
  by (induction xs) (auto simp: List.map_filter_simps split: option.split)

end
