(* ===== verification/Sha256.thy ===== *)
theory Sha256
  imports Prelude "HOL-Library.Word"
begin

text \<open>
  The library digest the generator calls, \<^verbatim>\<open>hashlib.sha256(b).hexdigest()\<close>, as FIPS 180-4 defines
  it: padding to 64-byte blocks, the message schedule, 64 compression rounds on eight 32-bit
  words. The generator relies on it only through the laws of the locale \<open>hex_digest\<close> (a fixed
  length and a hexadecimal alphabet), which is interpreted on this definition.
\<close>

unbundle bit_operations_syntax

type_synonym u32 = "32 word"

definition rotr :: "nat \<Rightarrow> u32 \<Rightarrow> u32" where
  "rotr n x = drop_bit n x OR push_bit (32 - n) x"

definition sha_k :: "u32 list" where
  "sha_k = [
     1116352408, 1899447441, 3049323471, 3921009573,
     961987163, 1508970993, 2453635748, 2870763221,
     3624381080, 310598401, 607225278, 1426881987,
     1925078388, 2162078206, 2614888103, 3248222580,
     3835390401, 4022224774, 264347078, 604807628,
     770255983, 1249150122, 1555081692, 1996064986,
     2554220882, 2821834349, 2952996808, 3210313671,
     3336571891, 3584528711, 113926993, 338241895,
     666307205, 773529912, 1294757372, 1396182291,
     1695183700, 1986661051, 2177026350, 2456956037,
     2730485921, 2820302411, 3259730800, 3345764771,
     3516065817, 3600352804, 4094571909, 275423344,
     430227734, 506948616, 659060556, 883997877,
     958139571, 1322822218, 1537002063, 1747873779,
     1955562222, 2024104815, 2227730452, 2361852424,
     2428436474, 2756734187, 3204031479, 3329325298]"

definition sha_h0 :: "u32 list" where
  "sha_h0 = [
     1779033703, 3144134277, 1013904242, 2773480762,
     1359893119, 2600822924, 528734635, 1541459225]"

definition be_word :: "string \<Rightarrow> u32" where
  "be_word bs = fold (\<lambda>b w. push_bit 8 w OR of_nat (byte_of b)) bs 0"

fun words_of :: "string \<Rightarrow> u32 list" where
  "words_of (a # b # c # d # r) = be_word [a, b, c, d] # words_of r"
| "words_of _ = []"

definition be_bytes64 :: "int \<Rightarrow> string" where
  "be_bytes64 n = map (\<lambda>i. char_of (drop_bit (8 * i) n mod 256)) [7, 6, 5, 4, 3, 2, 1, 0]"

definition sha_pad :: "string \<Rightarrow> string" where
  "sha_pad m = m @ [char_of (128::nat)] @
     replicate ((119 - length m mod 64) mod 64) (char_of (0::nat)) @ be_bytes64 (8 * int (length m))"

definition next_w :: "u32 list \<Rightarrow> u32" where
  \<comment> \<open>the schedule, most recent word first\<close>
  "next_w ws =
     (let w2 = ws ! 1; w7 = ws ! 6; w15 = ws ! 14; w16 = ws ! 15;
          s0 = rotr 7 w15 XOR rotr 18 w15 XOR drop_bit 3 w15;
          s1 = rotr 17 w2 XOR rotr 19 w2 XOR drop_bit 10 w2
      in w16 + s0 + w7 + s1)"

fun extend_w :: "nat \<Rightarrow> u32 list \<Rightarrow> u32 list" where
  "extend_w 0 ws = ws"
| "extend_w (Suc n) ws = extend_w n (next_w ws # ws)"

definition schedule :: "string \<Rightarrow> u32 list" where
  "schedule block = rev (extend_w 48 (rev (words_of block)))"

fun sha_round :: "u32 \<times> u32 \<Rightarrow> u32 list \<Rightarrow> u32 list" where
  "sha_round (k, w) [a, b, c, d, e, f, g, h] =
     (let s1 = rotr 6 e XOR rotr 11 e XOR rotr 25 e;
          ch = (e AND f) XOR (NOT e AND g);
          t1 = h + s1 + ch + k + w;
          s0 = rotr 2 a XOR rotr 13 a XOR rotr 22 a;
          maj = (a AND b) XOR (a AND c) XOR (b AND c);
          t2 = s0 + maj
      in [t1 + t2, a, b, c, d + t1, e, f, g])"
| "sha_round _ s = s"

definition compress :: "u32 list \<Rightarrow> string \<Rightarrow> u32 list" where
  "compress hs block = map2 (+) hs (fold sha_round (zip sha_k (schedule block)) hs)"

function sha_blocks :: "string \<Rightarrow> u32 list \<Rightarrow> u32 list" where
  "sha_blocks m hs = (if length m < 64 then hs else sha_blocks (drop 64 m) (compress hs (take 64 m)))"
  by pat_completeness auto
termination
  by (relation "measure (\<lambda>(m, hs). length m)") auto

declare sha_blocks.simps [simp del]

definition word_bytes :: "u32 \<Rightarrow> string" where
  "word_bytes w = map (\<lambda>i. char_of (drop_bit (8 * i) (uint w) mod 256)) [3, 2, 1, 0]"

definition sha256 :: "string \<Rightarrow> string" where
  "sha256 m = concat (map word_bytes (sha_blocks (sha_pad m) sha_h0))"

definition sha256_hex :: "string \<Rightarrow> string" where
  "sha256_hex m = hex_of (sha256 m)"

definition hex_upper_of :: "string \<Rightarrow> string" where
  "hex_upper_of s = map upper_ascii s"

section \<open>The digest has 32 bytes\<close>

lemma sha_round_length: "length s = 8 \<Longrightarrow> length (sha_round p s) = 8"
  by (cases "(p, s)" rule: sha_round.cases) (auto simp: Let_def)

lemma fold_sha_round_length: "length s = 8 \<Longrightarrow> length (fold sha_round ps s) = 8"
  by (induction ps arbitrary: s) (auto simp: sha_round_length)

lemma compress_length: "length hs = 8 \<Longrightarrow> length (compress hs b) = 8"
  by (simp add: compress_def fold_sha_round_length)

lemma sha_blocks_length: "length hs = 8 \<Longrightarrow> length (sha_blocks m hs) = 8"
proof (induction m hs rule: sha_blocks.induct)
  case (1 m hs)
  then show ?case by (subst sha_blocks.simps) (auto simp: compress_length)
qed

lemma length_concat_word_bytes: "length (concat (map word_bytes ws)) = 4 * length ws"
  by (induction ws) (auto simp: word_bytes_def)

lemma sha256_length: "length (sha256 m) = 32"
  by (simp add: sha256_def length_concat_word_bytes sha_blocks_length sha_h0_def)

section \<open>The interface the generator uses\<close>

locale hex_digest =
  fixes digest :: "string \<Rightarrow> string" and size :: nat and alphabet :: string
  assumes digest_length: "length (digest m) = size"
    and digest_alphabet: "set (digest m) \<subseteq> set alphabet"
begin

lemma digest_nonempty: "0 < size \<Longrightarrow> digest m \<noteq> []"
  using digest_length [of m] by auto

lemma take_digest_length: "n \<le> size \<Longrightarrow> length (take n (digest m)) = n"
  by (simp add: digest_length)

lemma take_digest_alphabet: "c \<in> set (take n (digest m)) \<Longrightarrow> c \<in> set alphabet"
  using digest_alphabet in_set_takeD by fast

lemma digest_char: "c \<in> set (digest m) \<Longrightarrow> c \<in> set alphabet"
  using digest_alphabet by fast

end

interpretation sha_hex: hex_digest sha256_hex 64 "''0123456789abcdef''"
proof
  show "length (sha256_hex m) = 64" for m
    by (simp add: sha256_hex_def sha256_length)
  show "set (sha256_hex m) \<subseteq> set ''0123456789abcdef''" for m
    unfolding sha256_hex_def by (rule hex_of_set)
qed

lemma upper_hex_set: "c \<in> set ''0123456789abcdef'' \<Longrightarrow> upper_ascii c \<in> set ''0123456789ABCDEF''"
proof -
  have "list_all (\<lambda>c. List.member ''0123456789ABCDEF'' (upper_ascii c)) ''0123456789abcdef''"
    by code_simp
  then show "c \<in> set ''0123456789abcdef'' \<Longrightarrow> upper_ascii c \<in> set ''0123456789ABCDEF''"
    unfolding list_all_iff by (simp del: set_simps)
qed

definition sha256_HEX :: "string \<Rightarrow> string" where
  "sha256_HEX m = hex_upper_of (sha256_hex m)"

interpretation sha_HEX: hex_digest sha256_HEX 64 "''0123456789ABCDEF''"
proof
  show "length (sha256_HEX m) = 64" for m
    by (simp add: sha256_HEX_def hex_upper_of_def sha_hex.digest_length)
  show "set (sha256_HEX m) \<subseteq> set ''0123456789ABCDEF''" for m
    using upper_hex_set sha_hex.digest_char unfolding sha256_HEX_def hex_upper_of_def
    by (auto simp del: set_simps)
qed

end
