(* ===== verification/Names.thy ===== *)
theory Names
  imports Sha256
begin

text \<open>
  The first half of \<^verbatim>\<open>src/protocyte/names.py\<close>: the escaping of schema names to C++ identifiers,
  with the proof that it is injective and always yields a portable identifier, the two laws of
  the locale \<open>identifier_escape\<close> that the package scopes of the generator rest on.
\<close>

section \<open>Identifiers\<close>

definition CPP_KEYWORDS :: "string list" where
  "CPP_KEYWORDS = [
     ''alignas'', ''alignof'', ''and'', ''and_eq'', ''asm'', ''atomic_cancel'',
     ''atomic_commit'', ''atomic_noexcept'', ''auto'', ''bitand'', ''bitor'', ''bool'',
     ''break'', ''case'', ''catch'', ''char'', ''char8_t'', ''char16_t'', ''char32_t'',
     ''class'', ''compl'', ''concept'', ''const'', ''consteval'', ''constexpr'', ''constinit'',
     ''const_cast'', ''continue'', ''co_await'', ''co_return'', ''co_yield'', ''decltype'',
     ''default'', ''delete'', ''do'', ''double'', ''dynamic_cast'', ''else'', ''enum'',
     ''explicit'', ''export'', ''extern'', ''false'', ''float'', ''for'', ''friend'', ''goto'',
     ''if'', ''inline'', ''int'', ''long'', ''mutable'', ''namespace'', ''new'', ''noexcept'',
     ''not'', ''not_eq'', ''nullptr'', ''operator'', ''or'', ''or_eq'', ''private'',
     ''protected'', ''public'', ''reflexpr'', ''register'', ''reinterpret_cast'', ''requires'',
     ''return'', ''short'', ''signed'', ''sizeof'', ''static'', ''static_assert'',
     ''static_cast'', ''struct'', ''switch'', ''synchronized'', ''template'', ''this'',
     ''thread_local'', ''throw'', ''true'', ''try'', ''typedef'', ''typeid'', ''typename'',
     ''union'', ''unsigned'', ''using'', ''virtual'', ''void'', ''volatile'', ''wchar_t'',
     ''while'', ''xor'', ''xor_eq'']"

definition CPP_RESERVED_IDENTIFIER_PREFIX :: string where
  "CPP_RESERVED_IDENTIFIER_PREFIX = ''protocyte_escaped_''"

definition CPP_DERIVABLE_IDENTIFIER_SUFFIX :: string where
  "CPP_DERIVABLE_IDENTIFIER_SUFFIX = ''protocyte''"

definition ident_start :: "char \<Rightarrow> bool" where
  "ident_start c = (is_alpha_ascii c \<or> c = CHR ''_'')"

definition ident_char :: "char \<Rightarrow> bool" where
  "ident_char c = (is_alpha_ascii c \<or> is_digit_ascii c \<or> c = CHR ''_'')"

definition is_cpp_identifier :: "string \<Rightarrow> bool" where
  \<comment> \<open>the regular expression of \<^verbatim>\<open>_CPP_IDENTIFIER\<close>, matched in full\<close>
  "is_cpp_identifier s = (case s of [] \<Rightarrow> False | c # r \<Rightarrow> ident_start c \<and> list_all ident_char r)"

definition KEYWORD_ESCAPED_IDENTIFIERS :: "string list" where
  "KEYWORD_ESCAPED_IDENTIFIERS = map (\<lambda>k. k @ ''_'') CPP_KEYWORDS"

definition encoded_identifier :: "string \<Rightarrow> string" where
  "encoded_identifier name = CPP_RESERVED_IDENTIFIER_PREFIX @ hex_of name"

definition cpp_identifier :: "string \<Rightarrow> string" where
  "cpp_identifier name =
     (if \<not> is_cpp_identifier name then encoded_identifier name
      else if List.member CPP_KEYWORDS name then name @ ''_''
      else if startswith name ''_'' \<or> occurs_in ''__'' name
           \<or> startswith name CPP_RESERVED_IDENTIFIER_PREFIX
           \<or> List.member KEYWORD_ESCAPED_IDENTIFIERS name
        then encoded_identifier name
      else name)"

definition cpp_emitted_derivable_identifier :: "string \<Rightarrow> string" where
  "cpp_emitted_derivable_identifier name =
     (if endswith name ''_'' then name @ CPP_DERIVABLE_IDENTIFIER_SUFFIX else name)"

definition cpp_derivable_identifier :: "string \<Rightarrow> string" where
  "cpp_derivable_identifier name = cpp_emitted_derivable_identifier (cpp_identifier name)"

definition cpp_pascal_identifier :: "string \<Rightarrow> string" where
  "cpp_pascal_identifier name =
     (let ident = cpp_identifier name in map upper_ascii (take 1 ident) @ drop 1 ident)"

definition is_portable_identifier :: "string \<Rightarrow> bool" where
  "is_portable_identifier name =
     (is_cpp_identifier name \<and> \<not> List.member CPP_KEYWORDS name
      \<and> \<not> startswith name ''_'' \<and> \<not> occurs_in ''__'' name)"

definition PROTOCYTE_RUNTIME_CPP_SYMBOLS :: "string list" where
  "PROTOCYTE_RUNTIME_CPP_SYMBOLS = [
     ''Allocator'', ''AlwaysFalse'', ''Array'', ''Box'', ''BulkFixedWidthPackedScalar'',
     ''ByteArray'', ''ByteAssignableCopyConstructible'', ''ByteSpanSource'', ''Bytes'',
     ''CheckedSpanSource'', ''CheckedSpanSourceElement'', ''CheckedSpanSourceView'',
     ''ContainerCompatibleSpanSource'', ''CopyFromConstructible'', ''CopyValueCompatible'',
     ''DataSizeSpanSource'', ''DecodedUnknownField'', ''DefaultConfig'',
     ''DefaultConstructible'', ''Error'', ''ErrorCode'', ''FixedByteArray'', ''HashMap'',
     ''InvokeResult'', ''LimitedReader'', ''Limits'', ''MessageParseAccess'',
     ''MutableUnknownFieldSet'', ''NestedMessageReader'', ''Optional'', ''OptionalType'',
     ''ParseBudgetReader'', ''PointerContextConstructible'', ''PointerSpanSource'',
     ''RangeElementCompatible'', ''ReaderLike'', ''ReaderRef'',
     ''ReferenceContextConstructible'', ''ReflectionEnumInfo'', ''ReflectionEnumValueInfo'',
     ''ReflectionFieldInfo'', ''ReflectionFieldLabel'', ''Result'', ''ResultErrorTag'',
     ''ResultType'', ''ResultValueTag'', ''ReverseIterator'', ''SliceReader'', ''SliceWriter'',
     ''Span'', ''SpanBeginPointer'', ''SpanDataPointer'', ''SpanEndPointer'', ''SpanSource'',
     ''StagedReader'', ''Status'', ''String'', ''StringView'', ''Tag'', ''TextArray'',
     ''TextChar'', ''TextPointer'', ''TextSource'', ''TransformErrorType'',
     ''TransformObjectValueType'', ''TransformReferenceValueType'', ''TransformValueType'',
     ''Unexpected'', ''UnexpectedType'', ''UnknownFieldRange'', ''UnknownFieldStorage'',
     ''UnknownFieldView'', ''UnknownFieldWriter'', ''ValueContext'', ''ValueContextStorage'',
     ''Vector'', ''WireType'', ''WrapperValue'', ''WrapperValueT'', ''WriterLike'',
     ''add_size'', ''as_bytes'', ''as_writable_bytes'', ''byte_span_of'', ''byte_span_size'',
     ''bytes_equal'', ''bytes_zero'', ''checked_add'', ''checked_mul'', ''checked_span_count'',
     ''checked_span_of'', ''config_preserves_unknown_fields'', ''copy_bytes'', ''copy_value'',
     ''cstring_byte_span_of'', ''cstring_size'', ''declval'', ''decode_tag'',
     ''decode_unknown_field_at'', ''decode_zigzag32'', ''decode_zigzag64'', ''dynamic_extent'',
     ''encode_zigzag32'', ''encode_zigzag64'', ''expect_wire_type'', ''f32'', ''f64'',
     ''fnv1a'', ''format_as'', ''forward'', ''hosted_allocate'', ''hosted_allocator'',
     ''hosted_deallocate'', ''i16'', ''i32'', ''i64'', ''i8'', ''invoke'', ''invoke_member'',
     ''iptr'', ''is_optional'', ''is_result'', ''is_span'', ''is_text_char_array'',
     ''is_unexpected'', ''isize'', ''length_delimited_field_size'', ''message_field_size'',
     ''move'', ''open_nested_message'', ''open_nested_message_sized'', ''pop_recursion'',
     ''prepare_unknown_field_merge'', ''preserve_unknown_fields_v'', ''ptr'',
     ''push_recursion'', ''read_bool'', ''read_bool_field'', ''read_bytes'',
     ''read_bytes_field'', ''read_bytes_sized'', ''read_double'', ''read_double_field'',
     ''read_enum'', ''read_enum_field'', ''read_fixed_width_packed_value'',
     ''read_fixed_width_packed_values'', ''read_fixed32'', ''read_fixed32_scalar'',
     ''read_fixed32_value'', ''read_fixed32_value_field'', ''read_fixed64'',
     ''read_fixed64_scalar'', ''read_fixed64_value'', ''read_fixed64_value_field'',
     ''read_float'', ''read_float_field'', ''read_int32'', ''read_int32_field'',
     ''read_int64'', ''read_int64_field'', ''read_length_delimited_size'', ''read_message'',
     ''read_message_partial'', ''read_sfixed32'', ''read_sfixed32_field'', ''read_sfixed64'',
     ''read_sfixed64_field'', ''read_sint32'', ''read_sint32_field'', ''read_sint64'',
     ''read_sint64_field'', ''read_string'', ''read_string_field'', ''read_string_sized'',
     ''read_tag'', ''read_uint32'', ''read_uint32_field'', ''read_uint64'',
     ''read_uint64_field'', ''read_unknown_field'', ''read_varint'', ''read_varint_scalar'',
     ''read_zigzag32_scalar'', ''read_zigzag64_scalar'', ''serialize'', ''skip_field'',
     ''skip_group'', ''span_of'', ''span_storage_size'', ''string_view_equal'', ''tag_size'',
     ''text_byte_span_of'', ''u16'', ''u32'', ''u64'', ''u8'', ''unexpected'', ''uptr'',
     ''usize'', ''validate_unknown_field_bytes'', ''varint_size'', ''with_field'',
     ''write_bool'', ''write_bool_field'', ''write_bytes'', ''write_bytes_field'',
     ''write_canonical_unknown_fields'', ''write_double'', ''write_double_field'',
     ''write_enum'', ''write_enum_field'', ''write_fixed_width_packed_value'',
     ''write_fixed_width_packed_values'', ''write_fixed32'', ''write_fixed32_value'',
     ''write_fixed32_value_field'', ''write_fixed64'', ''write_fixed64_value'',
     ''write_fixed64_value_field'', ''write_float'', ''write_float_field'', ''write_int32'',
     ''write_int32_field'', ''write_int64'', ''write_int64_field'', ''write_message_field'',
     ''write_sfixed32'', ''write_sfixed32_field'', ''write_sfixed64'',
     ''write_sfixed64_field'', ''write_sint32'', ''write_sint32_field'', ''write_sint64'',
     ''write_sint64_field'', ''write_string_field'', ''write_tag'', ''write_uint32'',
     ''write_uint32_field'', ''write_uint64'', ''write_uint64_field'', ''write_varint'',
     ''write_varint_scalar'']"

section \<open>Identifiers: the escaping is injective and portable\<close>

lemma hex_alphabet_ident:
  assumes "c \<in> set ''0123456789abcdef''"
  shows "ident_char c" and "c \<noteq> CHR ''_''" and "is_alpha_ascii c \<or> is_digit_ascii c"
proof -
  have "list_all (\<lambda>c. ident_char c \<and> c \<noteq> CHR ''_'' \<and> (is_alpha_ascii c \<or> is_digit_ascii c))
     ''0123456789abcdef''" by code_simp
  with assms show "ident_char c" and "c \<noteq> CHR ''_''" and "is_alpha_ascii c \<or> is_digit_ascii c"
    unfolding list_all_iff by blast+
qed

lemma underscore_not_alnum: "is_alpha_ascii c \<or> is_digit_ascii c \<Longrightarrow> c \<noteq> CHR ''_''"
proof -
  have "\<not> is_alpha_ascii (CHR ''_'') \<and> \<not> is_digit_ascii (CHR ''_'')" by code_simp
  then show "is_alpha_ascii c \<or> is_digit_ascii c \<Longrightarrow> c \<noteq> CHR ''_''" by auto
qed

definition no_double :: "string \<Rightarrow> bool" where
  "no_double s \<longleftrightarrow> \<not> occurs_in ''__'' s"

lemma no_double_Cons:
  "no_double (c # s) \<longleftrightarrow> no_double s \<and> (c = CHR ''_'' \<longrightarrow> s = [] \<or> hd s \<noteq> CHR ''_'')"
  by (cases s) (auto simp: no_double_def startswith_def)

lemma no_double_append:
  "no_double (s @ t) \<longleftrightarrow>
     no_double s \<and> no_double t \<and>
     (s = [] \<or> t = [] \<or> last s \<noteq> CHR ''_'' \<or> hd t \<noteq> CHR ''_'')"
proof (induction s)
  case Nil
  show ?case by (simp add: no_double_def)
next
  case (Cons c s)
  then show ?case by (cases s) (auto simp: no_double_Cons)
qed

lemma no_double_alnum: "CHR ''_'' \<notin> set s \<Longrightarrow> no_double s"
  by (induction s) (auto simp: no_double_Cons, simp add: no_double_def)

lemma is_cpp_identifier_append:
  "is_cpp_identifier s \<Longrightarrow> list_all ident_char t \<Longrightarrow> is_cpp_identifier (s @ t)"
  by (auto simp: is_cpp_identifier_def split: list.splits)

definition portable_text :: "string \<Rightarrow> bool" where
  \<comment> \<open>everything a portable identifier asks for except not being a keyword\<close>
  "portable_text s \<longleftrightarrow> is_cpp_identifier s \<and> \<not> startswith s ''_'' \<and> no_double s"

lemma is_portable_identifier_alt:
  "is_portable_identifier s \<longleftrightarrow> portable_text s \<and> s \<notin> set CPP_KEYWORDS"
  by (auto simp: is_portable_identifier_def portable_text_def no_double_def)

lemma startswith_underscore_append [simp]:
  "s \<noteq> [] \<Longrightarrow> startswith (s @ t) ''_'' = startswith s ''_''"
  by (cases s) (auto simp: startswith_def)

lemma portable_text_append:
  assumes "portable_text s" and "list_all ident_char t" and "no_double t"
    and "t = [] \<or> last s \<noteq> CHR ''_'' \<or> hd t \<noteq> CHR ''_''"
  shows "portable_text (s @ t)"
proof -
  from assms(1) have "s \<noteq> []" by (auto simp: portable_text_def is_cpp_identifier_def)
  with assms show ?thesis
    unfolding portable_text_def by (auto simp: is_cpp_identifier_append no_double_append)
qed

lemma keyword_facts:
  assumes "k \<in> set CPP_KEYWORDS"
  shows "portable_text k" and "last k \<noteq> CHR ''_''" and "k \<noteq> []" and "length k \<le> 16"
    and "\<not> startswith k CPP_RESERVED_IDENTIFIER_PREFIX"
    and "\<not> startswith (k @ ''_'') CPP_RESERVED_IDENTIFIER_PREFIX"
proof -
  have "list_all (\<lambda>k. (is_cpp_identifier k \<and> \<not> startswith k ''_'' \<and> \<not> occurs_in ''__'' k) \<and>
      last k \<noteq> CHR ''_'' \<and> k \<noteq> [] \<and> length k \<le> 16 \<and>
      \<not> startswith k CPP_RESERVED_IDENTIFIER_PREFIX \<and>
      \<not> startswith (k @ ''_'') CPP_RESERVED_IDENTIFIER_PREFIX) CPP_KEYWORDS"
    by code_simp
  with assms show "portable_text k" and "last k \<noteq> CHR ''_''" and "k \<noteq> []" and "length k \<le> 16"
    and "\<not> startswith k CPP_RESERVED_IDENTIFIER_PREFIX"
    and "\<not> startswith (k @ ''_'') CPP_RESERVED_IDENTIFIER_PREFIX"
    unfolding list_all_iff portable_text_def no_double_def by (auto simp del: set_simps)
qed

lemma ends_underscore_not_keyword: "k @ ''_'' \<notin> set CPP_KEYWORDS"
  using keyword_facts(2) [of "k @ ''_''"] by auto

lemma keyword_escaped_iff: "k @ ''_'' \<in> set KEYWORD_ESCAPED_IDENTIFIERS \<longleftrightarrow> k \<in> set CPP_KEYWORDS"
  by (auto simp: KEYWORD_ESCAPED_IDENTIFIERS_def)

lemma underscore_ident [simp]: "ident_char (CHR ''_'')" "ident_start (CHR ''_'')"
  by (simp_all add: ident_char_def ident_start_def)

lemma reserved_prefix_text: "portable_text CPP_RESERVED_IDENTIFIER_PREFIX"
  unfolding portable_text_def no_double_def by code_simp

lemma hex_of_text:
  "list_all ident_char (hex_of s)" "no_double (hex_of s)" "CHR ''_'' \<notin> set (hex_of s)"
proof -
  show u: "CHR ''_'' \<notin> set (hex_of s)" using hex_of_set hex_alphabet_ident(2) by fast
  show "list_all ident_char (hex_of s)"
    unfolding list_all_iff using hex_of_set hex_alphabet_ident(1) by fast
  show "no_double (hex_of s)" using u by (rule no_double_alnum)
qed

lemma encoded_text: "portable_text (encoded_identifier s)"
  unfolding encoded_identifier_def
proof (rule portable_text_append [OF reserved_prefix_text])
  show "list_all ident_char (hex_of s)" "no_double (hex_of s)" by (rule hex_of_text)+
  show "hex_of s = [] \<or> last CPP_RESERVED_IDENTIFIER_PREFIX \<noteq> CHR ''_'' \<or> hd (hex_of s) \<noteq> CHR ''_''"
    using hex_of_text(3) [of s] by (cases "hex_of s") auto
qed

lemma encoded_not_keyword: "encoded_identifier s \<notin> set CPP_KEYWORDS"
  by (auto simp: encoded_identifier_def dest: keyword_facts(5))

lemma cpp_identifier_cases:
  obtains (encoded) "cpp_identifier n = encoded_identifier n"
  | (keyword) "cpp_identifier n = n @ ''_''" "n \<in> set CPP_KEYWORDS"
  | (same) "cpp_identifier n = n" "portable_text n" "n \<notin> set CPP_KEYWORDS"
      "\<not> startswith n CPP_RESERVED_IDENTIFIER_PREFIX" "n \<notin> set KEYWORD_ESCAPED_IDENTIFIERS"
proof -
  have "cpp_identifier n = encoded_identifier n \<or> (cpp_identifier n = n @ ''_'' \<and> n \<in> set CPP_KEYWORDS)
     \<or> (cpp_identifier n = n \<and> portable_text n \<and> n \<notin> set CPP_KEYWORDS
        \<and> \<not> startswith n CPP_RESERVED_IDENTIFIER_PREFIX \<and> n \<notin> set KEYWORD_ESCAPED_IDENTIFIERS)"
    unfolding cpp_identifier_def portable_text_def no_double_def by simp
  with that show thesis by blast
qed

lemma cpp_identifier_portable: "is_portable_identifier (cpp_identifier n)"
proof (cases rule: cpp_identifier_cases [of n])
  case encoded
  then show ?thesis by (simp add: is_portable_identifier_alt encoded_text encoded_not_keyword)
next
  case keyword
  have "portable_text (n @ ''_'')"
    by (rule portable_text_append [OF keyword_facts(1)])
      (use keyword keyword_facts(2) in \<open>auto simp: no_double_Cons no_double_def startswith_def\<close>)
  with keyword ends_underscore_not_keyword show ?thesis by (simp add: is_portable_identifier_alt)
next
  case same
  then show ?thesis by (simp add: is_portable_identifier_alt)
qed

lemma encoded_startswith: "startswith (encoded_identifier s) CPP_RESERVED_IDENTIFIER_PREFIX"
  by (simp add: encoded_identifier_def)

lemma cpp_identifier_inj:
  assumes "cpp_identifier m = cpp_identifier n"
  shows "m = n"
proof (cases rule: cpp_identifier_cases [of m])
  case m: encoded
  show ?thesis
  proof (cases rule: cpp_identifier_cases [of n])
    case encoded
    with m assms have "hex_of m = hex_of n" by (simp add: encoded_identifier_def)
    then show ?thesis by (rule hex_of_inj)
  next
    case keyword
    with m assms keyword_facts(6) encoded_startswith [of m] show ?thesis by force
  next
    case same
    with m assms encoded_startswith [of m] show ?thesis by simp
  qed
next
  case m: keyword
  show ?thesis
  proof (cases rule: cpp_identifier_cases [of n])
    case encoded
    with m assms keyword_facts(6) [of m] encoded_startswith [of n] show ?thesis by simp
  next
    case keyword
    with m assms show ?thesis by simp
  next
    case same
    with m assms keyword_escaped_iff [of m] show ?thesis by simp
  qed
next
  case m: same
  show ?thesis
  proof (cases rule: cpp_identifier_cases [of n])
    case encoded
    with m assms encoded_startswith [of n] show ?thesis by simp
  next
    case keyword
    with m assms keyword_escaped_iff [of n] show ?thesis by simp
  next
    case same
    with m assms show ?thesis by simp
  qed
qed

section \<open>The escaping as an interface\<close>

locale identifier_escape =
  fixes esc :: "string \<Rightarrow> string" and good :: "string \<Rightarrow> bool"
  assumes esc_inj: "esc m = esc n \<Longrightarrow> m = n"
    and esc_good: "good (esc n)"
begin

lemma esc_eq_iff: "esc m = esc n \<longleftrightarrow> m = n"
  using esc_inj by auto

lemma esc_path_inj: "map esc (split_on c p) = map esc (split_on c q) \<Longrightarrow> p = q"
  by (metis esc_inj inj_onI join_split_on map_inj_on)

lemma esc_path_good: "list_all good (map esc ps)"
  by (simp add: list_all_iff esc_good)

end

interpretation cpp_escape: identifier_escape cpp_identifier is_portable_identifier
  by unfold_locales (rule cpp_identifier_inj, assumption, rule cpp_identifier_portable)

section \<open>Property\<close>

text \<open>
  C1: the C++ spelling of a schema name is portable (a C++ identifier, no keyword, no leading
  underscore, no double underscore) whatever the name is, and two names have the same spelling
  only when they are the same name.
\<close>

theorem escape_injective_and_portable:
  "is_portable_identifier (cpp_identifier n) \<and> (cpp_identifier m = cpp_identifier n \<longleftrightarrow> m = n)"
  by (simp add: cpp_escape.esc_good cpp_escape.esc_eq_iff)

end
