(* ===== verification/NameScopes.thy ===== *)
theory NameScopes
  imports Names "HOL-Library.Multiset"
begin

text \<open>
  The second half of \<^verbatim>\<open>src/protocyte/names.py\<close>: scopes of emitted C++ names. A scope maps each
  emitted name to its uses; \<open>reserve\<close> adds a fixed name, \<open>allocate\<close> picks for every request
  the first candidate spelling whose rendered members all fit. The candidate stream of
  \<^verbatim>\<open>_allocation_candidates\<close> is infinite, so the search is a partial function: \<^const>\<open>None\<close> is a
  search that never returns, and \<open>allocate_returns\<close> says when there is none.
\<close>

section \<open>Requests, uses and scopes\<close>

datatype CppNameKind =
  NAMESPACE | TYPE | TYPE_ALIAS | FIELD_ACCESSOR | CONSTANT | ENUM_VALUE | ONEOF_CASE_TYPE
  | ONEOF_CASE_VALUE | PUBLIC_FUNCTION | PRIVATE_STORAGE | IMPLEMENTATION

record EmittedNameMember =
  template :: string
  mkind :: CppNameKind
  msignature :: "string option"
  suffix :: "string option"

definition plain_member :: EmittedNameMember where
  \<comment> \<open>the dataclass defaults\<close>
  "plain_member = \<lparr>template = ''{name}'', mkind = IMPLEMENTATION, msignature = None, suffix = None\<rparr>"

datatype name_error =
  SuffixWithTemplate
  | NameConflict string string string string \<comment> \<open>label, name, owner, owner of the existing use\<close>
  | NameKeyError string \<comment> \<open>the \<^verbatim>\<open>KeyError\<close> of \<^verbatim>\<open>self.uses[name]\<close>\<close>

fun format_name :: "string \<Rightarrow> string \<Rightarrow> string" where
  \<comment> \<open>\<^verbatim>\<open>template.format(name=stem)\<close> for templates whose only braces are \<^verbatim>\<open>{name}\<close>\<close>
  "format_name (c # t) stem =
     (if startswith (c # t) ''{name}'' then stem @ format_name (drop 5 t) stem
      else c # format_name t stem)"
| "format_name [] stem = []"

definition render :: "EmittedNameMember \<Rightarrow> string \<Rightarrow> name_error + string" where
  "render m stem =
     (case suffix m of
        Some sfx \<Rightarrow>
          if template m \<noteq> ''{name}'' then Inl SuffixWithTemplate
          else if endswith stem ''_'' then Inr (stem @ sfx @ ''_'')
          else Inr (stem @ ''_'' @ sfx)
      | None \<Rightarrow> Inr (format_name (template m) stem))"

record EmittedNameRequest =
  rowner :: string
  preferred :: string
  members :: "EmittedNameMember list"
  hash_fallback :: bool
  priority :: int

record EmittedNameUse =
  uowner :: string
  ukind :: CppNameKind
  usignature :: "string option"

record EmittedNameScope =
  label :: string
  uses :: "string \<Rightarrow> EmittedNameUse list" \<comment> \<open>a missing key is the empty list\<close>

definition new_scope :: "string \<Rightarrow> EmittedNameScope" where
  "new_scope l = \<lparr>label = l, uses = (\<lambda>_. [])\<rparr>"

definition add_use :: "string \<Rightarrow> EmittedNameUse \<Rightarrow> EmittedNameScope \<Rightarrow> EmittedNameScope" where
  "add_use name u sc = sc\<lparr>uses := (uses sc)(name := uses sc name @ [u])\<rparr>"

definition can_add :: "EmittedNameScope \<Rightarrow> string \<Rightarrow> EmittedNameUse \<Rightarrow> EmittedNameUse list \<Rightarrow> bool" where
  "can_add sc name u staged =
     (if \<not> is_portable_identifier name then False
      else let existing = uses sc name @ staged in
        if existing = [] then True
        else if usignature u = None then False
        else list_all (\<lambda>i. usignature i \<noteq> None \<and> usignature i \<noteq> usignature u) existing)"

fun can_add_all ::
  "EmittedNameScope \<Rightarrow> (string \<times> EmittedNameUse) list \<Rightarrow> (string \<Rightarrow> EmittedNameUse list) \<Rightarrow> bool" where
  "can_add_all sc [] staged = True"
| "can_add_all sc ((name, u) # r) staged =
     (can_add sc name u (staged name) \<and>
      can_add_all sc r (staged(name := staged name @ [u])))"

definition reserve ::
  "EmittedNameScope \<Rightarrow> string \<Rightarrow> EmittedNameUse \<Rightarrow> name_error + EmittedNameScope" where
  "reserve sc name u =
     (if u \<in> set (uses sc name) then Inr sc
      else if \<not> can_add sc name u [] then
        (case uses sc name of
           [] \<Rightarrow> Inl (NameKeyError name)
         | e # _ \<Rightarrow> Inl (NameConflict (label sc) name (uowner u) (uowner e)))
      else Inr (add_use name u sc))"

section \<open>Allocation\<close>

definition allocation_base :: "string \<Rightarrow> string" where
  "allocation_base pref =
     (let b = rstrip_char (CHR ''_'') pref in if b = [] then ''protocyte_name'' else b)"

definition hashed_candidate :: "string \<Rightarrow> string \<Rightarrow> string" where
  "hashed_candidate pref owner =
     allocation_base pref @ ''_protocyte_'' @ take 12 (sha256_hex owner)"

definition first_candidates :: "string \<Rightarrow> string \<Rightarrow> bool \<Rightarrow> string list" where
  "first_candidates pref owner hf =
     (if hf then [pref, hashed_candidate pref owner]
      else if endswith pref ''_''
        then [pref, pref @ CPP_DERIVABLE_IDENTIFIER_SUFFIX, hashed_candidate pref owner]
      else [pref, pref @ ''_'', hashed_candidate pref owner])"

definition allocation_candidate :: "string \<Rightarrow> string \<Rightarrow> bool \<Rightarrow> nat \<Rightarrow> string" where
  \<comment> \<open>the k-th value the generator yields\<close>
  "allocation_candidate pref owner hf k =
     (let cs = first_candidates pref owner hf in
      if k < length cs then cs ! k
      else hashed_candidate pref owner @ ''_'' @ dec_of_nat (k - length cs + 2))"

definition member_use :: "string \<Rightarrow> EmittedNameMember \<Rightarrow> EmittedNameUse" where
  "member_use owner m = \<lparr>uowner = owner, ukind = mkind m, usignature = msignature m\<rparr>"

definition render_request ::
  "EmittedNameRequest \<Rightarrow> string \<Rightarrow> name_error + (string \<times> EmittedNameUse) list" where
  "render_request r cand =
     rmap (\<lambda>m. rbind (render m cand) (\<lambda>n. Inr (n, member_use (rowner r) m))) (members r)"

definition register_all ::
  "(string \<times> EmittedNameUse) list \<Rightarrow> EmittedNameScope \<Rightarrow> EmittedNameScope" where
  "register_all rendered sc = fold (\<lambda>(n, u). add_use n u) rendered sc"

partial_function (option) find_candidate ::
  "EmittedNameScope \<Rightarrow> EmittedNameRequest \<Rightarrow> nat \<Rightarrow>
   (name_error + string \<times> (string \<times> EmittedNameUse) list) option" where
  "find_candidate sc r k =
     (let cand = allocation_candidate (preferred r) (rowner r) (hash_fallback r) k in
      case render_request r cand of
        Inl e \<Rightarrow> Some (Inl e)
      | Inr rendered \<Rightarrow>
          if can_add_all sc rendered (\<lambda>_. []) then Some (Inr (cand, rendered))
          else find_candidate sc r (Suc k))"

fun allocate_loop ::
  "EmittedNameRequest list \<Rightarrow> EmittedNameScope \<Rightarrow> (string \<rightharpoonup> string) \<Rightarrow>
   (name_error + EmittedNameScope \<times> (string \<rightharpoonup> string)) option" where
  "allocate_loop [] sc allocated = Some (Inr (sc, allocated))"
| "allocate_loop (r # rs) sc allocated =
     (case find_candidate sc r 0 of
        None \<Rightarrow> None
      | Some (Inl e) \<Rightarrow> Some (Inl e)
      | Some (Inr (cand, rendered)) \<Rightarrow>
          allocate_loop rs (register_all rendered sc) (allocated(rowner r \<mapsto> cand)))"

definition request_key :: "EmittedNameRequest \<Rightarrow> int \<times> string \<times> string" where
  "request_key r = (priority r, preferred r, rowner r)"

definition allocate ::
  "EmittedNameScope \<Rightarrow> EmittedNameRequest list \<Rightarrow>
   (name_error + EmittedNameScope \<times> (string \<rightharpoonup> string)) option" where
  "allocate sc requests = allocate_loop (sort_key request_key requests) sc Map.empty"

record EmittedNameAllocator =
  scopes :: "string \<rightharpoonup> EmittedNameScope"

definition scope_of :: "EmittedNameAllocator \<Rightarrow> string \<Rightarrow> EmittedNameAllocator \<times> EmittedNameScope" where
  \<comment> \<open>\<^verbatim>\<open>setdefault\<close>: the scope of the label, created on its first use\<close>
  "scope_of a l =
     (case scopes a l of
        Some sc \<Rightarrow> (a, sc)
      | None \<Rightarrow> (a\<lparr>scopes := (scopes a)(l \<mapsto> new_scope l)\<rparr>, new_scope l))"

section \<open>Declarations that may share a name\<close>

definition overloads :: "EmittedNameUse \<Rightarrow> EmittedNameUse \<Rightarrow> bool" where
  \<comment> \<open>two C++ functions of different signatures\<close>
  "overloads u v \<longleftrightarrow>
     usignature u \<noteq> None \<and> usignature v \<noteq> None \<and> usignature u \<noteq> usignature v"

definition compatible :: "EmittedNameUse list \<Rightarrow> bool" where
  "compatible us \<longleftrightarrow> sorted_wrt overloads us"

lemma overloads_sym: "overloads u v \<longleftrightarrow> overloads v u"
  by (auto simp: overloads_def)

lemma compatible_snoc: "compatible (us @ [u]) \<longleftrightarrow> compatible us \<and> (\<forall>v\<in>set us. overloads v u)"
  by (auto simp: compatible_def sorted_wrt_append)

lemma compatible_pair:
  assumes "compatible us" and "i < length us" and "j < length us" and "i \<noteq> j"
  shows "overloads (us ! i) (us ! j)"
  using assms overloads_sym unfolding compatible_def sorted_wrt_iff_nth_less
  by (metis linorder_neqE_nat)

definition scope_ok :: "EmittedNameScope \<Rightarrow> bool" where
  "scope_ok sc \<longleftrightarrow>
     finite {n. uses sc n \<noteq> []} \<and>
     (\<forall>n. compatible (uses sc n)) \<and>
     (\<forall>n. uses sc n \<noteq> [] \<longrightarrow> is_portable_identifier n)"

lemma new_scope_ok: "scope_ok (new_scope l)"
  by (simp add: scope_ok_def new_scope_def compatible_def)

lemma can_add_iff:
  "can_add sc n u staged \<longleftrightarrow>
     is_portable_identifier n \<and> (\<forall>v\<in>set (uses sc n @ staged). overloads v u)"
  by (cases "uses sc n @ staged") (auto simp: can_add_def Let_def list_all_iff overloads_def)

lemma add_use_ok:
  assumes "scope_ok sc" and "can_add sc n u []"
  shows "scope_ok (add_use n u sc)"
proof -
  have "{m. uses (add_use n u sc) m \<noteq> []} = insert n {m. uses sc m \<noteq> []}"
    by (auto simp: add_use_def)
  with assms show ?thesis
    by (auto simp: scope_ok_def can_add_iff add_use_def compatible_snoc)
qed

lemma reserve_ok: "scope_ok sc \<Longrightarrow> reserve sc n u = Inr sc' \<Longrightarrow> scope_ok sc'"
  by (auto simp: reserve_def add_use_ok split: if_splits list.splits)

lemma uses_add_use: "uses (add_use n u sc) m = (if m = n then uses sc m @ [u] else uses sc m)"
  by (simp add: add_use_def)

lemma uses_register_all:
  "uses (register_all ren sc) n = uses sc n @ map snd (filter (\<lambda>p. fst p = n) ren)"
proof (induction ren arbitrary: sc)
  case (Cons p ren)
  obtain m u where p: "p = (m, u)" by (cases p)
  have "register_all (p # ren) sc = register_all ren (add_use m u sc)"
    by (simp add: register_all_def p)
  with Cons show ?case by (simp add: p uses_add_use)
qed (simp add: register_all_def)

lemma can_add_all_register:
  assumes "can_add_all sc ren st" and "\<And>n. uses sc' n = uses sc n @ st n" and "scope_ok sc'"
  shows "scope_ok (register_all ren sc')"
  using assms
proof (induction ren arbitrary: st sc')
  case Nil
  then show ?case by (simp add: register_all_def)
next
  case (Cons p ren)
  obtain n u where p: "p = (n, u)" by (cases p)
  from Cons.prems(1) have add: "can_add sc n u (st n)"
    and rest: "can_add_all sc ren (st(n := st n @ [u]))" by (auto simp: p)
  from add Cons.prems(2) have "can_add sc' n u []" by (simp add: can_add_iff)
  with Cons.prems(3) have "scope_ok (add_use n u sc')" by (rule add_use_ok)
  then have "scope_ok (register_all ren (add_use n u sc'))"
    using Cons.IH [OF rest] Cons.prems(2) by (simp add: uses_add_use)
  then show ?case by (simp add: register_all_def p)
qed

lemma register_ok:
  "scope_ok sc \<Longrightarrow> can_add_all sc ren (\<lambda>_. []) \<Longrightarrow> scope_ok (register_all ren sc)"
  by (rule can_add_all_register [where st = "\<lambda>_. []" and sc = sc]) auto

section \<open>What the candidate search returns\<close>

lemma find_candidate_Some:
  assumes "find_candidate sc r k = Some (Inr (cand, ren))"
  shows "\<exists>j\<ge>k. cand = allocation_candidate (preferred r) (rowner r) (hash_fallback r) j"
    and "render_request r cand = Inr ren" and "can_add_all sc ren (\<lambda>_. [])"
proof -
  have "\<forall>cand ren. res = Inr (cand, ren) \<longrightarrow>
      (\<exists>j\<ge>k. cand = allocation_candidate (preferred r) (rowner r) (hash_fallback r) j) \<and>
      render_request r cand = Inr ren \<and> can_add_all sc ren (\<lambda>_. [])"
    if "find_candidate sc r k = Some res" for res
  proof (rule find_candidate.raw_induct [where P = "\<lambda>sc r k res. \<forall>cand ren. res = Inr (cand, ren) \<longrightarrow>
      (\<exists>j\<ge>k. cand = allocation_candidate (preferred r) (rowner r) (hash_fallback r) j) \<and>
      render_request r cand = Inr ren \<and> can_add_all sc ren (\<lambda>_. [])", OF _ that])
    fix f sc k res and r :: EmittedNameRequest
    assume IH: "\<And>sc r k res. f sc r k = Some res \<Longrightarrow> \<forall>cand ren. res = Inr (cand, ren) \<longrightarrow>
      (\<exists>j\<ge>k. cand = allocation_candidate (preferred r) (rowner r) (hash_fallback r) j) \<and>
      render_request r cand = Inr ren \<and> can_add_all sc ren (\<lambda>_. [])"
      and eq: "(let cand = allocation_candidate (preferred r) (rowner r) (hash_fallback r) k in
      case render_request r cand of
        Inl e \<Rightarrow> Some (Inl e)
      | Inr rendered \<Rightarrow>
          if can_add_all sc rendered (\<lambda>_. []) then Some (Inr (cand, rendered))
          else f sc r (Suc k)) = Some res"
    then show "\<forall>cand ren. res = Inr (cand, ren) \<longrightarrow>
      (\<exists>j\<ge>k. cand = allocation_candidate (preferred r) (rowner r) (hash_fallback r) j) \<and>
      render_request r cand = Inr ren \<and> can_add_all sc ren (\<lambda>_. [])"
      by (auto simp: Let_def split: sum.splits if_splits dest!: IH) (use Suc_leD in blast)
  qed
  with assms show "\<exists>j\<ge>k. cand = allocation_candidate (preferred r) (rowner r) (hash_fallback r) j"
    and "render_request r cand = Inr ren" and "can_add_all sc ren (\<lambda>_. [])" by blast+
qed

lemma allocate_loop_ok:
  "allocate_loop rs sc al = Some (Inr (sc', al')) \<Longrightarrow> scope_ok sc \<Longrightarrow> scope_ok sc'"
proof (induction rs arbitrary: sc al)
  case (Cons r rs)
  from Cons.prems(1) obtain cand ren where
    f: "find_candidate sc r 0 = Some (Inr (cand, ren))"
    and rest: "allocate_loop rs (register_all ren sc) (al(rowner r \<mapsto> cand)) = Some (Inr (sc', al'))"
    by (auto split: option.splits sum.splits)
  from f Cons.prems(2) have "scope_ok (register_all ren sc)"
    by (intro register_ok find_candidate_Some(3))
  with rest show ?case by (rule Cons.IH)
qed simp

lemma allocate_loop_grows:
  "allocate_loop rs sc al = Some (Inr (sc', al')) \<Longrightarrow> \<exists>us. uses sc' n = uses sc n @ us"
proof (induction rs arbitrary: sc al)
  case (Cons r rs)
  then obtain ren cand where
    "allocate_loop rs (register_all ren sc) (al(rowner r \<mapsto> cand)) = Some (Inr (sc', al'))"
    by (auto split: option.splits sum.splits)
  with Cons.IH show ?case by (fastforce simp: uses_register_all)
qed simp

lemma allocate_loop_other:
  "allocate_loop rs sc al = Some (Inr (sc', al')) \<Longrightarrow> ow \<notin> rowner ` set rs \<Longrightarrow> al' ow = al ow"
  by (induction rs arbitrary: sc al) (auto split: option.splits sum.splits)

lemma allocate_loop_owner:
  assumes "allocate_loop rs sc al = Some (Inr (sc', al'))" and "r \<in> set rs"
    and "distinct (map rowner rs)"
  shows "\<exists>cand ren k. al' (rowner r) = Some cand \<and> render_request r cand = Inr ren \<and>
     cand = allocation_candidate (preferred r) (rowner r) (hash_fallback r) k \<and>
     (\<forall>(n, u)\<in>set ren. u \<in> set (uses sc' n))"
  using assms
proof (induction rs arbitrary: sc al)
  case (Cons q rs)
  from Cons.prems(1) obtain cand ren where
    f: "find_candidate sc q 0 = Some (Inr (cand, ren))"
    and rest: "allocate_loop rs (register_all ren sc) (al(rowner q \<mapsto> cand)) = Some (Inr (sc', al'))"
    by (auto split: option.splits sum.splits)
  show ?case
  proof (cases "r = q")
    case True
    with Cons.prems(3) have "al' (rowner r) = Some cand"
      using allocate_loop_other [OF rest, of "rowner q"] by simp
    moreover have "\<forall>(n, u)\<in>set ren. u \<in> set (uses sc' n)"
    proof clarify
      fix n u assume "(n, u) \<in> set ren"
      then have "u \<in> set (uses (register_all ren sc) n)"
        by (force simp: uses_register_all)
      with allocate_loop_grows [OF rest, of n] show "u \<in> set (uses sc' n)" by auto
    qed
    ultimately show ?thesis using find_candidate_Some(1,2) [OF f] True by blast
  next
    case False
    with Cons.prems rest Cons.IH show ?thesis by simp
  qed
qed simp

section \<open>The search returns\<close>

fun split_template :: "string \<Rightarrow> (string \<times> string) option" where
  \<comment> \<open>what stands before and after the one \<^verbatim>\<open>{name}\<close>\<close>
  "split_template [] = None"
| "split_template (c # t) =
     (if startswith (c # t) ''{name}'' then (if CHR ''{'' \<in> set (drop 5 t) then None else Some ([], drop 5 t))
      else map_option (\<lambda>(a, b). (c # a, b)) (split_template t))"

definition shape :: "EmittedNameMember \<Rightarrow> (string \<times> string) option" where
  "shape m = (case suffix m of
     Some sfx \<Rightarrow> if template m = ''{name}'' then Some ([], ''_'' @ sfx) else None
   | None \<Rightarrow> split_template (template m))"

lemma format_name_no_brace: "CHR ''{'' \<notin> set t \<Longrightarrow> format_name t s = t"
  by (induction t) (auto simp: startswith_def)

lemma split_template_format: "split_template t = Some (a, b) \<Longrightarrow> format_name t s = a @ s @ b"
  by (induction t arbitrary: a) (auto simp: format_name_no_brace split: if_splits)

lemma render_shape:
  assumes "shape m = Some (a, b)" and "\<not> endswith s ''_''"
  shows "render m s = Inr (a @ s @ b)"
  using assms by (auto simp: shape_def render_def split_template_format split: option.splits if_splits)

definition shape_ok :: "string \<times> string \<Rightarrow> bool" where
  "shape_ok ab \<longleftrightarrow>
     (fst ab = [] \<or> portable_text (fst ab)) \<and> list_all ident_char (snd ab) \<and> no_double (snd ab)"

definition separable :: "EmittedNameMember \<Rightarrow> EmittedNameMember \<Rightarrow> bool" where
  "separable m n \<longleftrightarrow>
     (case (shape m, shape n) of
        (Some (a, b), Some (c, d)) \<Rightarrow> mset (a @ b) \<noteq> mset (c @ d)
      | _ \<Rightarrow> False) \<or>
     overloads (member_use [] m) (member_use [] n)"

definition request_ok :: "EmittedNameRequest \<Rightarrow> bool" where
  "request_ok r \<longleftrightarrow>
     portable_text (allocation_base (preferred r)) \<and>
     list_all (\<lambda>m. case shape m of None \<Rightarrow> False | Some ab \<Rightarrow> shape_ok ab) (members r) \<and>
     sorted_wrt separable (members r)"

definition late_stem :: "EmittedNameRequest \<Rightarrow> nat \<Rightarrow> string" where
  "late_stem r k = allocation_candidate (preferred r) (rowner r) (hash_fallback r) (k + 3)"

lemma late_stem_eq:
  "late_stem r k = hashed_candidate (preferred r) (rowner r) @ ''_'' @
     dec_of_nat (k + 5 - length (first_candidates (preferred r) (rowner r) (hash_fallback r)))"
  by (auto simp: late_stem_def allocation_candidate_def Let_def first_candidates_def
      numeral_eq_Suc)

lemma late_stem_inj: "late_stem r i = late_stem r j \<Longrightarrow> i = j"
proof -
  have "length (first_candidates (preferred r) (rowner r) (hash_fallback r)) \<le> 3"
    by (auto simp: first_candidates_def)
  then show "late_stem r i = late_stem r j \<Longrightarrow> i = j"
    by (auto simp: late_stem_eq dest!: dec_of_nat_inj)
qed

lemma dec_of_nat_text:
  "list_all ident_char (dec_of_nat n)" "CHR ''_'' \<notin> set (dec_of_nat n)" "last (dec_of_nat n) \<noteq> CHR ''_''"
proof -
  have d: "list_all (\<lambda>c. ident_char c \<and> c \<noteq> CHR ''_'') ''0123456789''" by code_simp
  then show "list_all ident_char (dec_of_nat n)" and u: "CHR ''_'' \<notin> set (dec_of_nat n)"
    unfolding list_all_iff using dec_of_nat_set by blast+
  show "last (dec_of_nat n) \<noteq> CHR ''_''" using u last_in_set [OF dec_of_nat_nonempty] by metis
qed

lemma digest_text:
  "list_all ident_char (take n (sha256_hex m))" "CHR ''_'' \<notin> set (take n (sha256_hex m))"
  using sha_hex.take_digest_alphabet hex_alphabet_ident(1,2) unfolding list_all_iff by blast+

lemma late_stem_text:
  assumes "portable_text (allocation_base (preferred r))"
  shows "portable_text (late_stem r k)" and "\<not> endswith (late_stem r k) ''_''"
    and "16 < length (late_stem r k)"
proof -
  let ?b = "allocation_base (preferred r)" and ?d = "take 12 (sha256_hex (rowner r))"
  obtain n where n: "late_stem r k = ?b @ ''_protocyte_'' @ ?d @ ''_'' @ dec_of_nat n"
    unfolding late_stem_eq hashed_candidate_def by auto
  have base_last: "last ?b \<noteq> CHR ''_''"
    using rstrip_char_last [of "CHR ''_''" "preferred r"] by (auto simp: allocation_base_def Let_def)
  have "length ?d = 12" by (rule sha_hex.take_digest_length) simp
  then have dn: "?d \<noteq> []" by (metis list.size(3) zero_neq_numeral)
  then have d: "?d \<noteq> []" "hd ?d \<noteq> CHR ''_''" "last ?d \<noteq> CHR ''_''"
    using digest_text(2) [of 12 "rowner r"] hd_in_set [OF dn] last_in_set [OF dn] by metis+
  have p: "list_all ident_char ''_protocyte_''" "no_double ''_protocyte_''"
    unfolding no_double_def by code_simp+
  have "portable_text (?b @ ''_protocyte_'')"
    by (rule portable_text_append [OF assms p]) (simp add: base_last)
  then have "portable_text ((?b @ ''_protocyte_'') @ ?d)"
    by (rule portable_text_append [OF _ digest_text(1) no_double_alnum [OF digest_text(2)]])
      (use d in simp)
  then have "portable_text (((?b @ ''_protocyte_'') @ ?d) @ ''_'')"
    by (rule portable_text_append) (use d in \<open>auto simp: no_double_Cons no_double_def startswith_def\<close>)
  then have "portable_text ((((?b @ ''_protocyte_'') @ ?d) @ ''_'') @ dec_of_nat n)"
    by (rule portable_text_append [OF _ dec_of_nat_text(1) no_double_alnum [OF dec_of_nat_text(2)]])
      (metis dec_of_nat_nonempty dec_of_nat_text(2) hd_in_set)
  then show "portable_text (late_stem r k)" by (simp add: n)
  show "\<not> endswith (late_stem r k) ''_''"
    using dec_of_nat_text(3) [of n] unfolding endswith_iff n
    by (metis append.assoc dec_of_nat_nonempty last_appendR last_snoc)
  show "16 < length (late_stem r k)"
    by (simp add: n sha_hex.digest_length)
qed

lemma shaped_portable:
  assumes "shape_ok (a, b)" and "portable_text s" and "\<not> endswith s ''_''" and "16 < length s"
  shows "is_portable_identifier (a @ s @ b)"
proof -
  from assms(2) have s: "s \<noteq> []" "list_all ident_char s" "no_double s" "hd s \<noteq> CHR ''_''"
    by (auto simp: portable_text_def is_cpp_identifier_def ident_char_def ident_start_def
        startswith_def split: list.splits)
  from assms(3) s(1) have l: "last s \<noteq> CHR ''_''"
    unfolding endswith_iff by (metis append_butlast_last_id)
  have "portable_text (a @ s)"
    using assms(1,2) s by (cases "a = []") (auto simp: shape_ok_def intro: portable_text_append)
  then have "portable_text ((a @ s) @ b)"
    by (rule portable_text_append) (use assms(1) s l in \<open>auto simp: shape_ok_def\<close>)
  moreover have "length (a @ s @ b) > 16" using assms(4) by simp
  ultimately show ?thesis
    using keyword_facts(4) by (auto simp: is_portable_identifier_alt) force
qed

lemma can_add_all_fresh:
  assumes "\<forall>(n, u)\<in>set ren. is_portable_identifier n \<and> uses sc n = [] \<and> (\<forall>v\<in>set (st n). overloads v u)"
    and "sorted_wrt (\<lambda>p q. fst p \<noteq> fst q \<or> overloads (snd p) (snd q)) ren"
  shows "can_add_all sc ren st"
  using assms
proof (induction ren arbitrary: st)
  case (Cons p ren)
  obtain n u where p: "p = (n, u)" by (cases p)
  have "can_add sc n u (st n)" using Cons.prems(1) by (simp add: p can_add_iff)
  moreover have "can_add_all sc ren (st(n := st n @ [u]))"
    by (rule Cons.IH) (use Cons.prems in \<open>fastforce simp: p split: if_splits\<close>)+
  ultimately show ?case by (simp add: p)
qed simp

lemma render_late:
  assumes ok: "request_ok r" and late: "\<not> endswith s ''_''"
  shows "render_request r s =
     Inr (map (\<lambda>m. (fst (the (shape m)) @ s @ snd (the (shape m)), member_use (rowner r) m)) (members r))"
proof -
  have "rbind (render m s) (\<lambda>n. Inr (n, member_use (rowner r) m)) =
      Inr (fst (the (shape m)) @ s @ snd (the (shape m)), member_use (rowner r) m)"
    if "m \<in> set (members r)" for m
  proof -
    from ok that obtain a b where "shape m = Some (a, b)"
      by (auto simp: request_ok_def list_all_iff split: option.splits)
    with late show ?thesis by (simp add: render_shape)
  qed
  then show ?thesis
    unfolding render_request_def rmap_Inr_iff list.rel_map by (auto intro!: list.rel_refl_strong)
qed

lemma fresh_stem_exists:
  assumes "scope_ok sc"
  shows "\<exists>k. \<forall>m\<in>set ms. uses sc (a m @ late_stem r k @ b m) = []"
proof -
  let ?bad = "\<lambda>m. {k. uses sc (a m @ late_stem r k @ b m) \<noteq> []}"
  have "finite (?bad m)" for m
  proof -
    have "?bad m = (\<lambda>k. a m @ late_stem r k @ b m) -` {n. uses sc n \<noteq> []}" by auto
    moreover have "inj (\<lambda>k. a m @ late_stem r k @ b m)"
      by (auto intro!: injI dest: late_stem_inj)
    ultimately show ?thesis
      using assms finite_vimageI by (metis scope_ok_def)
  qed
  then have "finite (\<Union>m\<in>set ms. ?bad m)" by simp
  then obtain k where "k \<notin> (\<Union>m\<in>set ms. ?bad m)"
    using ex_new_if_finite infinite_UNIV_nat by blast
  then show ?thesis by auto
qed

lemma late_candidate_fits:
  assumes "scope_ok sc" and "request_ok r"
  shows "\<exists>k ren. render_request r (late_stem r k) = Inr ren \<and> can_add_all sc ren (\<lambda>_. [])"
proof -
  let ?n = "\<lambda>s m. fst (the (shape m)) @ s @ snd (the (shape m))"
  let ?ren = "\<lambda>s. map (\<lambda>m. (?n s m, member_use (rowner r) m)) (members r)"
  obtain k where k: "\<forall>m\<in>set (members r). uses sc (?n (late_stem r k) m) = []"
    using fresh_stem_exists [OF assms(1), where a = "\<lambda>m. fst (the (shape m))"
        and b = "\<lambda>m. snd (the (shape m))" and ms = "members r" and r = r] by blast
  let ?s = "late_stem r k"
  have ls: "portable_text ?s" "\<not> endswith ?s ''_''" "16 < length ?s"
    using late_stem_text assms(2) by (simp_all add: request_ok_def)
  have port: "is_portable_identifier (?n ?s m)" if "m \<in> set (members r)" for m
  proof -
    from assms(2) that obtain ab where "shape m = Some ab" "shape_ok ab"
      by (auto simp: request_ok_def list_all_iff split: option.splits)
    with ls show ?thesis by (cases ab) (simp add: shaped_portable)
  qed
  have "sorted_wrt separable (members r)" using assms(2) by (simp add: request_ok_def)
  then have "sorted_wrt (\<lambda>m m'. ?n ?s m \<noteq> ?n ?s m' \<or>
      overloads (member_use (rowner r) m) (member_use (rowner r) m')) (members r)"
  proof (rule sorted_wrt_mono_rel [rotated])
    fix m m' assume "separable m m'"
    then show "?n ?s m \<noteq> ?n ?s m' \<or> overloads (member_use (rowner r) m) (member_use (rowner r) m')"
      by (auto simp: separable_def overloads_def member_use_def split: option.splits
          dest!: arg_cong [where f = mset])
  qed
  then have "can_add_all sc (?ren ?s) (\<lambda>_. [])"
    by (intro can_add_all_fresh) (use k port in \<open>auto simp: sorted_wrt_map\<close>)
  with render_late [OF assms(2) ls(2)] show ?thesis by blast
qed

lemma find_candidate_reaches:
  assumes "render_request r (allocation_candidate (preferred r) (rowner r) (hash_fallback r) j) = Inr ren"
    and "can_add_all sc ren (\<lambda>_. [])" and "k \<le> j"
  shows "\<exists>res. find_candidate sc r k = Some res"
  using assms(3)
proof (induction "j - k" arbitrary: k)
  case 0
  with assms show ?case by (subst find_candidate.simps) (simp add: Let_def)
next
  case (Suc d)
  then have "\<exists>res. find_candidate sc r (Suc k) = Some res" by simp
  then show ?case
    by (subst find_candidate.simps) (auto simp: Let_def split: sum.splits)
qed

lemma find_candidate_returns:
  "scope_ok sc \<Longrightarrow> request_ok r \<Longrightarrow> \<exists>res. find_candidate sc r 0 = Some res"
  using late_candidate_fits find_candidate_reaches unfolding late_stem_def by (metis le0)

lemma render_ok_no_error:
  assumes "request_ok r"
  shows "\<exists>ren. render_request r s = Inr ren"
proof -
  have "\<exists>y. rbind (render m s) (\<lambda>n. Inr (n, member_use (rowner r) m)) = Inr y"
    if "m \<in> set (members r)" for m
  proof -
    from assms that have "shape m \<noteq> None"
      by (auto simp: request_ok_def list_all_iff split: option.splits)
    then show ?thesis
      by (auto simp: render_def shape_def split: option.splits if_splits)
  qed
  then show ?thesis
    unfolding render_request_def by (intro rmap_total) blast
qed

lemma find_candidate_no_error:
  assumes "find_candidate sc r k = Some res" and "request_ok r"
  shows "\<exists>y. res = Inr y"
proof -
  have "request_ok r \<longrightarrow> (\<exists>y. res = Inr y)"
  proof (rule find_candidate.raw_induct
      [where P = "\<lambda>sc r k res. request_ok r \<longrightarrow> (\<exists>y. res = Inr y)", OF _ assms(1)])
    fix f sc k res and r :: EmittedNameRequest
    assume "\<And>sc r k res. f sc r k = Some res \<Longrightarrow> request_ok r \<longrightarrow> (\<exists>y. res = Inr y)"
      and "(let cand = allocation_candidate (preferred r) (rowner r) (hash_fallback r) k in
      case render_request r cand of
        Inl e \<Rightarrow> Some (Inl e)
      | Inr rendered \<Rightarrow>
          if can_add_all sc rendered (\<lambda>_. []) then Some (Inr (cand, rendered))
          else f sc r (Suc k)) = Some res"
    then show "request_ok r \<longrightarrow> (\<exists>y. res = Inr y)"
      using render_ok_no_error
      by (auto simp: Let_def split: sum.splits if_splits) (metis Inl_Inr_False)+
  qed
  with assms(2) show ?thesis by blast
qed

lemma allocate_loop_returns:
  "scope_ok sc \<Longrightarrow> \<forall>r\<in>set rs. request_ok r \<Longrightarrow> \<exists>sc' al'. allocate_loop rs sc al = Some (Inr (sc', al'))"
proof (induction rs arbitrary: sc al)
  case (Cons r rs)
  then obtain cand ren where f: "find_candidate sc r 0 = Some (Inr (cand, ren))"
    using find_candidate_returns find_candidate_no_error
    by (metis list.set_intros(1) surj_pair)
  have "scope_ok (register_all ren sc)"
    using Cons.prems(1) find_candidate_Some(3) [OF f] by (rule register_ok)
  with Cons f show ?case by simp
qed simp

section \<open>Scopes the generator can build\<close>

inductive scope_reachable :: "EmittedNameScope \<Rightarrow> bool" where
  start: "scope_reachable (new_scope l)"
| reserved: "scope_reachable sc \<Longrightarrow> reserve sc n u = Inr sc' \<Longrightarrow> scope_reachable sc'"
| allocated: "scope_reachable sc \<Longrightarrow> allocate sc rs = Some (Inr (sc', al)) \<Longrightarrow> scope_reachable sc'"

lemma reachable_scope_ok: "scope_reachable sc \<Longrightarrow> scope_ok sc"
  by (induction rule: scope_reachable.induct)
    (auto simp: new_scope_ok allocate_def intro: reserve_ok allocate_loop_ok)

definition example_requests :: "EmittedNameRequest list" where
  "example_requests =
     [\<lparr>rowner = ''field:M.count'', preferred = ''count'',
        members = [plain_member\<lparr>msignature := Some ''fn/0/const''\<rparr>,
          plain_member\<lparr>template := ''set_{name}'', msignature := Some ''fn/1''\<rparr>],
        hash_fallback = False, priority = 10\<rparr>]"

lemma example_requests_ok: "\<forall>r\<in>set example_requests. request_ok r"
proof -
  have "portable_text (allocation_base ''count'')"
    unfolding portable_text_def no_double_def by code_simp
  moreover have "shape_ok ([], [])" "shape_ok (''set_'', [])"
    unfolding shape_ok_def portable_text_def no_double_def by code_simp+
  ultimately show ?thesis
    by (simp add: example_requests_def request_ok_def plain_member_def shape_def startswith_def
        separable_def overloads_def member_use_def)
qed

text \<open>
  C2: in every scope that reservations and allocations can build, the names are portable C++
  identifiers and two declarations that share a name are overloads: both are functions, and
  their signatures differ.
\<close>

theorem scopes_have_no_collisions:
  assumes "scope_reachable sc"
  shows "(uses sc n \<noteq> [] \<longrightarrow> is_portable_identifier n) \<and>
    (\<forall>i j. i < length (uses sc n) \<longrightarrow> j < length (uses sc n) \<longrightarrow> i \<noteq> j \<longrightarrow>
       overloads (uses sc n ! i) (uses sc n ! j))"
  using reachable_scope_ok [OF assms] compatible_pair by (auto simp: scope_ok_def)

lemma scopes_have_no_collisions_witness:
  "\<exists>sc. scope_reachable sc \<and> length (uses sc ''create'') = 2 \<and>
     overloads (uses sc ''create'' ! 0) (uses sc ''create'' ! 1)"
proof -
  let ?u = "\<lparr>uowner = ''a'', ukind = PUBLIC_FUNCTION, usignature = Some ''fn/1''\<rparr>"
  let ?v = "\<lparr>uowner = ''b'', ukind = PUBLIC_FUNCTION, usignature = Some ''fn/0''\<rparr>"
  let ?s1 = "add_use ''create'' ?u (new_scope ''m'')"
  let ?s2 = "add_use ''create'' ?v ?s1"
  have p: "is_portable_identifier ''create''" by code_simp
  have "reserve (new_scope ''m'') ''create'' ?u = Inr ?s1"
    by (simp add: reserve_def can_add_iff p new_scope_def)
  then have "scope_reachable ?s1" by (rule scope_reachable.reserved [OF scope_reachable.start])
  moreover have "reserve ?s1 ''create'' ?v = Inr ?s2"
    by (simp add: reserve_def can_add_iff p new_scope_def add_use_def overloads_def)
  ultimately have r: "scope_reachable ?s2" by (rule scope_reachable.reserved)
  have "length (uses ?s2 ''create'') = 2" by (simp add: add_use_def new_scope_def)
  with r scopes_have_no_collisions [OF r, of "''create''"] show ?thesis by force
qed

text \<open>
  C3: allocation answers every request. With distinct owners, each owner is mapped to one of
  its candidate spellings, and every name the request renders from that spelling is recorded in
  the scope as a use of that owner; nothing that was in the scope before is lost.
\<close>

theorem allocate_answers_every_request:
  assumes "allocate sc rs = Some (Inr (sc', al))" and "distinct (map rowner rs)"
  shows "(\<forall>r\<in>set rs. \<exists>cand ren k. al (rowner r) = Some cand \<and>
      cand = allocation_candidate (preferred r) (rowner r) (hash_fallback r) k \<and>
      render_request r cand = Inr ren \<and> (\<forall>(n, u)\<in>set ren. u \<in> set (uses sc' n))) \<and>
    (\<forall>n. \<exists>us. uses sc' n = uses sc n @ us)"
proof
  let ?s = "sort_key request_key rs"
  have loop: "allocate_loop ?s sc Map.empty = Some (Inr (sc', al))"
    using assms(1) by (simp add: allocate_def)
  have "mset (map rowner ?s) = mset (map rowner rs)" by simp
  with assms(2) have d: "distinct (map rowner ?s)" by (metis mset_eq_imp_distinct_iff)
  show "\<forall>r\<in>set rs. \<exists>cand ren k. al (rowner r) = Some cand \<and>
      cand = allocation_candidate (preferred r) (rowner r) (hash_fallback r) k \<and>
      render_request r cand = Inr ren \<and> (\<forall>(n, u)\<in>set ren. u \<in> set (uses sc' n))"
  proof
    fix r assume "r \<in> set rs"
    then have "r \<in> set ?s" by simp
    from allocate_loop_owner [OF loop this d] show "\<exists>cand ren k. al (rowner r) = Some cand \<and>
      cand = allocation_candidate (preferred r) (rowner r) (hash_fallback r) k \<and>
      render_request r cand = Inr ren \<and> (\<forall>(n, u)\<in>set ren. u \<in> set (uses sc' n))"
      by (elim exE conjE) (intro exI conjI; assumption)
  qed
  show "\<forall>n. \<exists>us. uses sc' n = uses sc n @ us"
    using allocate_loop_grows [OF loop] by blast
qed

text \<open>
  C4: the search of the allocator ends. On every scope the generator can build, requests whose
  stem is portable up to trailing underscores and whose members render apart from each other
  (or as overloads) are all answered, with no exception raised, although the stream of
  candidate spellings is infinite.
\<close>

theorem allocate_terminates:
  assumes "scope_reachable sc" and "\<forall>r\<in>set rs. request_ok r"
  shows "\<exists>sc' al. allocate sc rs = Some (Inr (sc', al))"
  unfolding allocate_def
  by (rule allocate_loop_returns) (use reachable_scope_ok assms in auto)

lemma allocate_terminates_witness:
  "\<exists>sc al. allocate (new_scope ''message:M'') example_requests = Some (Inr (sc, al))"
  by (rule allocate_terminates [OF scope_reachable.start example_requests_ok])

lemma allocate_answers_every_request_witness:
  "\<exists>sc al. allocate (new_scope ''message:M'') example_requests = Some (Inr (sc, al)) \<and>
     (\<exists>cand. al ''field:M.count'' = Some cand)"
proof -
  have "\<exists>sc al. allocate_loop (sort_key request_key example_requests) (new_scope ''message:M'') Map.empty
      = Some (Inr (sc, al))"
    by (rule allocate_loop_returns) (simp_all add: new_scope_ok example_requests_ok)
  then obtain sc al where a: "allocate (new_scope ''message:M'') example_requests = Some (Inr (sc, al))"
    unfolding allocate_def by blast
  have "distinct (map rowner example_requests)" by (simp add: example_requests_def)
  note all = allocate_answers_every_request [OF a this, THEN conjunct1]
  have "\<forall>r\<in>set example_requests. \<exists>cand. al (rowner r) = Some cand"
  proof
    fix r assume "r \<in> set example_requests"
    with all show "\<exists>cand. al (rowner r) = Some cand" by (meson)
  qed
  then have "\<exists>cand. al ''field:M.count'' = Some cand" by (simp add: example_requests_def)
  with a show ?thesis by blast
qed

end
