(* ===== verification/Paths.thy ===== *)
theory Paths
  imports Sha256
begin

text \<open>
  \<^verbatim>\<open>src/protocyte/paths.py\<close>: protobuf virtual file names mapped to portable generated paths.
  \<open>normalize_generated_segment\<close> escapes one path component and cuts it to its byte limit,
  \<open>generated_file_base\<close> folds a path that exceeds the output budgets into a digest. The
  upper-casing of device names is ASCII: no character outside ASCII has an upper case that
  is one of the letters or digits of a reserved device name.
\<close>

section \<open>Definitions\<close>

definition SAFE_GENERATED_PATH_BYTES :: string where
  "SAFE_GENERATED_PATH_BYTES =
     ''ABCDEFGHIJKLMNOPQRSTUVWXYZabcdefghijklmnopqrstuvwxyz0123456789._-''"

definition MAX_GENERATED_PATH_COMPONENT_BYTES :: int where
  "MAX_GENERATED_PATH_COMPONENT_BYTES = 255"

definition GENERATED_FILE_SUFFIX :: string where
  "GENERATED_FILE_SUFFIX = ''.protocyte.hpp''"

definition GENERATED_PATH_DIGEST_BYTES :: int where
  "GENERATED_PATH_DIGEST_BYTES = 64"

definition GENERATED_PATH_DIGEST_SEPARATOR_BYTES :: int where
  "GENERATED_PATH_DIGEST_SEPARATOR_BYTES = 1"

definition MAX_GENERATED_FILE_STEM_BYTES :: int where
  "MAX_GENERATED_FILE_STEM_BYTES =
     MAX_GENERATED_PATH_COMPONENT_BYTES - int (length GENERATED_FILE_SUFFIX)"

definition MIN_HASHED_GENERATED_FILE_PATH_BYTES :: int where
  "MIN_HASHED_GENERATED_FILE_PATH_BYTES =
     GENERATED_PATH_DIGEST_SEPARATOR_BYTES + GENERATED_PATH_DIGEST_BYTES
       + int (length GENERATED_FILE_SUFFIX)"

definition STABLE_BUDGETED_GENERATED_DIRECTORY_BYTES :: int where
  "STABLE_BUDGETED_GENERATED_DIRECTORY_BYTES = MIN_HASHED_GENERATED_FILE_PATH_BYTES - 12"

definition WINDOWS_RESERVED_PATH_NAMES :: "string list" where
  "WINDOWS_RESERVED_PATH_NAMES =
     [''CON'', ''PRN'', ''AUX'', ''NUL'']
     @ map (\<lambda>i. ''COM'' @ dec_of_nat i) [1..<10]
     @ map (\<lambda>i. ''LPT'' @ dec_of_nat i) [1..<10]"

definition escape_byte :: "char \<Rightarrow> string" where
  "escape_byte b = CHR ''~'' # hex_byte hex_upper b"

fun escape_bytes :: "bool \<Rightarrow> bool \<Rightarrow> string \<Rightarrow> string" where
  \<comment> \<open>the loop over the encoded segment: is this the first byte and must it be escaped; must
      the last byte\<close>
  "escape_bytes ef el [] = []"
| "escape_bytes ef el (b # bs) =
     (let safe = b \<in> set SAFE_GENERATED_PATH_BYTES;
          safe = (if ef then False else safe);
          safe = (if bs = [] \<and> el then False else safe)
      in (if safe then [b] else escape_byte b) @ escape_bytes False el bs)"

definition device_stem :: "string \<Rightarrow> string" where
  "device_stem segment = map upper_ascii (first_part CHR ''.'' segment)"

definition normalized_segment :: "string \<Rightarrow> string" where
  \<comment> \<open>the value of \<^verbatim>\<open>normalized\<close>, before the length check\<close>
  "normalized_segment segment =
     (let escape_first = device_stem segment \<in> set WINDOWS_RESERVED_PATH_NAMES;
          escape_last_dot = endswith segment ''.''
      in escape_bytes escape_first escape_last_dot segment)"

definition normalize_generated_segment :: "string \<Rightarrow> int \<Rightarrow> string" where
  "normalize_generated_segment segment max_bytes =
     (let normalized = normalized_segment segment in
      if int (length normalized) \<le> max_bytes then normalized
      else let digest = sha256_HEX segment;
               prefix_bytes = max_bytes - int (length digest) - 1
           in slice_to normalized prefix_bytes @ ''~'' @ digest)"

fun normalize_segments :: "string list \<Rightarrow> string list" where
  "normalize_segments [] = []"
| "normalize_segments [s] = [normalize_generated_segment s MAX_GENERATED_FILE_STEM_BYTES]"
| "normalize_segments (s # ss) =
     normalize_generated_segment s MAX_GENERATED_PATH_COMPONENT_BYTES # normalize_segments ss"

definition normalize_generated_path :: "string \<Rightarrow> string" where
  "normalize_generated_path path = join ''/'' (normalize_segments (split_on CHR ''/'' path))"

datatype path_error = PathBudgetTooSmall

definition budget_min :: "int \<Rightarrow> int option \<Rightarrow> int" where
  "budget_min c b = (case b of None \<Rightarrow> c | Some v \<Rightarrow> min c v)"

definition generated_file_base :: "string \<Rightarrow> int option \<Rightarrow> int option \<Rightarrow> path_error + string" where
  "generated_file_base proto_name max_path max_dir =
     (let normalized = normalize_generated_path (removesuffix ''.proto'' proto_name);
          generated_base = normalized @ ''.protocyte'';
          generated_directory = before_last CHR ''/'' generated_base;
          budgeted = (max_path \<noteq> None \<or> max_dir \<noteq> None)
      in if \<not> budgeted then Inr generated_base
      else
        let effective_path = budget_min MIN_HASHED_GENERATED_FILE_PATH_BYTES max_path;
            effective_dir = budget_min STABLE_BUDGETED_GENERATED_DIRECTORY_BYTES max_dir;
            path_fits = int (length (generated_base @ ''.hpp'')) \<le> effective_path;
            directory_fits =
              generated_directory = [] \<or> int (length generated_directory) \<le> effective_dir
        in if path_fits \<and> directory_fits then Inr generated_base
        else if (case max_path of None \<Rightarrow> False | Some p \<Rightarrow> p < MIN_HASHED_GENERATED_FILE_PATH_BYTES)
          then Inl PathBudgetTooSmall
        else
          let digest = sha256_HEX proto_name;
              readable = map (\<lambda>c. if c = CHR ''/'' then CHR ''_'' else c) normalized;
              prefix_bytes = effective_path - int (length GENERATED_FILE_SUFFIX)
                - GENERATED_PATH_DIGEST_SEPARATOR_BYTES - int (length digest)
          in Inr (slice_to readable prefix_bytes @ ''~'' @ digest @ ''.protocyte''))"

section \<open>Escaping one component\<close>

definition portable_path_char :: "char \<Rightarrow> bool" where
  "portable_path_char c \<longleftrightarrow> c \<in> set SAFE_GENERATED_PATH_BYTES \<or> c = CHR ''~''"

lemma HEX_alphabet_safe: "set ''0123456789ABCDEF'' \<subseteq> set SAFE_GENERATED_PATH_BYTES"
  unfolding SAFE_GENERATED_PATH_BYTES_def by simp

lemma digest_portable: "c \<in> set (sha256_HEX m) \<Longrightarrow> portable_path_char c"
  using sha_HEX.digest_char HEX_alphabet_safe unfolding portable_path_char_def by blast

lemma escape_byte_portable: "c \<in> set (escape_byte b) \<Longrightarrow> portable_path_char c"
proof -
  have "hex_upper (byte_of b div 16) \<in> set SAFE_GENERATED_PATH_BYTES"
    and "hex_upper (byte_of b mod 16) \<in> set SAFE_GENERATED_PATH_BYTES"
    using hex_upper_set HEX_alphabet_safe by (meson byte_div16 mod_less_divisor subsetD zero_less_numeral)+
  then show "c \<in> set (escape_byte b) \<Longrightarrow> portable_path_char c"
    by (auto simp: escape_byte_def hex_byte_def portable_path_char_def)
qed

definition keeps :: "bool \<Rightarrow> bool \<Rightarrow> char \<Rightarrow> string \<Rightarrow> bool" where
  "keeps ef el b bs \<longleftrightarrow> b \<in> set SAFE_GENERATED_PATH_BYTES \<and> \<not> ef \<and> \<not> (bs = [] \<and> el)"

lemma escape_bytes_Cons:
  "escape_bytes ef el (b # bs) =
     (if keeps ef el b bs then [b] else escape_byte b) @ escape_bytes False el bs"
  by (auto simp: keeps_def Let_def)

declare escape_bytes.simps(2) [simp del]

lemma escape_bytes_portable: "c \<in> set (escape_bytes ef el s) \<Longrightarrow> portable_path_char c"
proof (induction s arbitrary: ef)
  case (Cons b s)
  then show ?case
    by (auto simp: escape_bytes_Cons escape_byte_portable split: if_splits)
      (simp add: keeps_def portable_path_char_def)
qed simp

lemma tilde_slash_unsafe: "CHR ''~'' \<notin> set SAFE_GENERATED_PATH_BYTES" "CHR ''/'' \<notin> set SAFE_GENERATED_PATH_BYTES"
  unfolding SAFE_GENERATED_PATH_BYTES_def by simp_all

lemma slash_not_portable: "\<not> portable_path_char CHR ''/''"
  by (simp add: portable_path_char_def tilde_slash_unsafe)

lemma keeps_not_tilde: "keeps ef el b bs \<Longrightarrow> b \<noteq> CHR ''~''"
  using tilde_slash_unsafe(1) by (auto simp: keeps_def)

lemma escape_bytes_inj:
  "escape_bytes ef el s = escape_bytes ef' el' t \<Longrightarrow> s = t"
proof (induction s arbitrary: ef ef' t)
  case Nil
  then show ?case by (cases t) (auto simp: escape_bytes_Cons escape_byte_def split: if_splits)
next
  case (Cons b s)
  then obtain c u where t: "t = c # u"
    by (cases t) (auto simp: escape_bytes_Cons escape_byte_def split: if_splits)
  note eq = Cons.prems [unfolded t escape_bytes_Cons]
  have "b = c \<and> escape_bytes False el s = escape_bytes False el' u"
  proof (cases "keeps ef el b s"; cases "keeps ef' el' c u")
    assume "\<not> keeps ef el b s" "\<not> keeps ef' el' c u"
    with eq have "hex_byte hex_upper b = hex_byte hex_upper c"
      and e: "escape_bytes False el s = escape_bytes False el' u"
      by (simp_all add: escape_byte_def hex_byte_def)
    then show ?thesis using hex_byte_inj hex_upper_inj by blast
  qed (use eq keeps_not_tilde in \<open>auto simp: escape_byte_def\<close>)
  with Cons.IH t show ?case by blast
qed

lemma normalized_segment_inj: "normalized_segment s = normalized_segment t \<Longrightarrow> s = t"
  unfolding normalized_segment_def Let_def by (rule escape_bytes_inj)

lemma digest_length_int: "int (length (sha256_HEX m)) = 64"
  by (simp add: sha_HEX.digest_length)

lemma normalize_segment_length:
  assumes "65 \<le> m"
  shows "int (length (normalize_generated_segment s m)) \<le> m"
  using assms by (auto simp: normalize_generated_segment_def Let_def digest_length_int sha_HEX.digest_length)

lemma normalize_segment_portable:
  assumes "65 \<le> m" and "c \<in> set (normalize_generated_segment s m)"
  shows "portable_path_char c"
proof -
  have n: "portable_path_char d" if "d \<in> set (normalized_segment s)" for d
    using that escape_bytes_portable unfolding normalized_segment_def Let_def by blast
  have "portable_path_char (CHR ''~'')" by (simp add: portable_path_char_def)
  with assms n digest_portable show ?thesis
    by (auto simp: normalize_generated_segment_def Let_def digest_length_int split: if_splits
        dest: in_set_takeD)
qed

section \<open>Device names\<close>

lemma device_name_chars:
  "n \<in> set WINDOWS_RESERVED_PATH_NAMES \<Longrightarrow> CHR ''~'' \<notin> set n"
proof -
  have "list_all (\<lambda>n. \<not> List.member n CHR ''~'') WINDOWS_RESERVED_PATH_NAMES"
    by (simp add: WINDOWS_RESERVED_PATH_NAMES_def upt_rec dec_of_nat.simps digit_char_def)
  then show "n \<in> set WINDOWS_RESERVED_PATH_NAMES \<Longrightarrow> CHR ''~'' \<notin> set n"
    unfolding list_all_iff by simp
qed

lemma upper_tilde: "upper_ascii (CHR ''~'') = CHR ''~''"
  by code_simp

lemma stem_with_tilde: "CHR ''~'' \<in> set (first_part CHR ''.'' s) \<Longrightarrow> device_stem s \<notin> set WINDOWS_RESERVED_PATH_NAMES"
  using device_name_chars unfolding device_stem_def
  by (metis image_eqI list.set_map upper_tilde)

lemma first_part_Cons: "first_part c (x # xs) = (if x = c then [] else x # first_part c xs)"
  by (simp add: first_part_def)

lemma escape_bytes_stem:
  "CHR ''~'' \<in> set (first_part CHR ''.'' (escape_bytes ef el s)) \<or>
   first_part CHR ''.'' (escape_bytes ef el s) = first_part CHR ''.'' s"
proof (induction s arbitrary: ef)
  case (Cons b s)
  then show ?case by (auto simp: escape_bytes_Cons first_part_Cons escape_byte_def keeps_def)
qed simp

lemma escape_first_stem:
  "s \<noteq> [] \<Longrightarrow> CHR ''~'' \<in> set (first_part CHR ''.'' (escape_bytes True el s))"
  by (cases s) (auto simp: escape_bytes_Cons keeps_def escape_byte_def first_part_def)

lemma empty_not_device: "[] \<notin> set WINDOWS_RESERVED_PATH_NAMES"
  by (auto simp: WINDOWS_RESERVED_PATH_NAMES_def)

lemma normalized_segment_device:
  "CHR ''~'' \<in> set (first_part CHR ''.'' (normalized_segment s)) \<or>
   (first_part CHR ''.'' (normalized_segment s) = first_part CHR ''.'' s \<and>
    device_stem s \<notin> set WINDOWS_RESERVED_PATH_NAMES)"
proof (cases "device_stem s \<in> set WINDOWS_RESERVED_PATH_NAMES")
  case True
  then have "s \<noteq> []" using empty_not_device by (auto simp: device_stem_def first_part_def)
  with True escape_first_stem show ?thesis by (simp add: normalized_segment_def)
next
  case False
  with escape_bytes_stem show ?thesis by (simp add: normalized_segment_def)
qed

lemma first_part_take_append:
  "first_part c (take n s @ t) = first_part c s \<or>
   (\<exists>u. first_part c (take n s @ t) = u @ first_part c t)"
  unfolding first_part_def
  by (induction s arbitrary: n) (auto simp: take_Cons split: nat.splits, metis Cons_eq_append_conv)

lemma normalize_segment_device:
  assumes "65 \<le> m"
  shows "device_stem (normalize_generated_segment s m) \<notin> set WINDOWS_RESERVED_PATH_NAMES"
proof -
  let ?n = "normalized_segment s"
  have n: "CHR ''~'' \<in> set (first_part CHR ''.'' ?n) \<or> device_stem ?n \<notin> set WINDOWS_RESERVED_PATH_NAMES"
    using normalized_segment_device [of s] by (auto simp: device_stem_def)
  show ?thesis
  proof (cases "int (length ?n) \<le> m")
    case True
    with n stem_with_tilde show ?thesis by (auto simp: normalize_generated_segment_def)
  next
    case False
    let ?r = "take (nat (m - 65)) ?n @ ''~'' @ sha256_HEX s"
    have r: "normalize_generated_segment s m = ?r"
      using False assms by (simp add: normalize_generated_segment_def digest_length_int)
    have "first_part CHR ''.'' ?r = first_part CHR ''.'' ?n \<or> CHR ''~'' \<in> set (first_part CHR ''.'' ?r)"
      using first_part_take_append [of "CHR ''.''" "nat (m - 65)" ?n "''~'' @ sha256_HEX s"]
      by (auto simp: first_part_Cons)
    with n stem_with_tilde [of ?r] stem_with_tilde [of ?n] show ?thesis
      unfolding r device_stem_def by metis
  qed
qed

lemma HEX_not_dot: "c \<in> set ''0123456789ABCDEF'' \<Longrightarrow> c \<noteq> CHR ''.''"
  by auto

lemma escape_byte_last: "last (escape_byte b) \<noteq> CHR ''.''"
  using HEX_not_dot hex_upper_set [of "byte_of b mod 16"] by (auto simp: escape_byte_def hex_byte_def)

lemma escape_bytes_nonempty: "s \<noteq> [] \<Longrightarrow> escape_bytes ef el s \<noteq> []"
  by (cases s) (auto simp: escape_bytes_Cons escape_byte_def)

lemma escape_bytes_last:
  "s \<noteq> [] \<Longrightarrow> el \<or> last s \<noteq> CHR ''.'' \<Longrightarrow> last (escape_bytes ef el s) \<noteq> CHR ''.''"
proof (induction s arbitrary: ef)
  case (Cons b s)
  then show ?case
    by (cases "s = []") (auto simp: escape_bytes_Cons escape_byte_last keeps_def escape_bytes_nonempty)
qed simp

lemma normalized_segment_last: "s \<noteq> [] \<Longrightarrow> last (normalized_segment s) \<noteq> CHR ''.''"
  unfolding normalized_segment_def Let_def
  by (rule escape_bytes_last) (auto simp: endswith_iff, metis append_butlast_last_id)

lemma normalize_segment_no_dot: "\<not> endswith (normalize_generated_segment s m) ''.''"
proof (cases "int (length (normalized_segment s)) \<le> m")
  case True
  show ?thesis
  proof (cases "s = []")
    case False
    then show ?thesis
      using True normalized_segment_last [of s] by (auto simp: normalize_generated_segment_def endswith_iff)
  qed (use True in \<open>simp add: normalize_generated_segment_def normalized_segment_def endswith_iff\<close>)
next
  case False
  let ?d = "sha256_HEX s"
  have d: "?d \<noteq> []" by (rule sha_HEX.digest_nonempty) simp
  then have "last ?d \<noteq> CHR ''.''" using HEX_not_dot sha_HEX.digest_char last_in_set by blast
  moreover have "\<exists>u. normalize_generated_segment s m = u @ ?d"
    using False by (simp add: normalize_generated_segment_def Let_def)
  ultimately show ?thesis
    using d by (auto simp: endswith_iff) (metis last_appendR last_snoc)
qed

section \<open>Whole paths\<close>

lemma limits: "65 \<le> MAX_GENERATED_FILE_STEM_BYTES" "65 \<le> MAX_GENERATED_PATH_COMPONENT_BYTES"
  "MAX_GENERATED_FILE_STEM_BYTES = 241" "MAX_GENERATED_PATH_COMPONENT_BYTES = 255"
  by (simp_all add: MAX_GENERATED_FILE_STEM_BYTES_def MAX_GENERATED_PATH_COMPONENT_BYTES_def
      GENERATED_FILE_SUFFIX_def)

lemma budget_constants:
  "MIN_HASHED_GENERATED_FILE_PATH_BYTES = 79" "STABLE_BUDGETED_GENERATED_DIRECTORY_BYTES = 67"
  "int (length GENERATED_FILE_SUFFIX) = 14"
  by (simp_all add: MIN_HASHED_GENERATED_FILE_PATH_BYTES_def STABLE_BUDGETED_GENERATED_DIRECTORY_BYTES_def
      GENERATED_PATH_DIGEST_SEPARATOR_BYTES_def GENERATED_PATH_DIGEST_BYTES_def GENERATED_FILE_SUFFIX_def)

definition segment_limit :: "string list \<Rightarrow> int" where
  "segment_limit rest = (if rest = [] then MAX_GENERATED_FILE_STEM_BYTES else MAX_GENERATED_PATH_COMPONENT_BYTES)"

lemma normalize_segments_Cons:
  "normalize_segments (s # ss) = normalize_generated_segment s (segment_limit ss) # normalize_segments ss"
  by (cases ss) (auto simp: segment_limit_def)

declare normalize_segments.simps(2,3) [simp del]

lemma segment_limit_ge: "65 \<le> segment_limit r" "segment_limit r \<le> 255" "segment_limit [] = 241"
  by (simp_all add: segment_limit_def limits)

lemma normalize_segments_in:
  "x \<in> set (normalize_segments ss) \<Longrightarrow> \<exists>s r. x = normalize_generated_segment s (segment_limit r)"
  by (induction ss) (auto simp: normalize_segments_Cons)

lemma normalize_segments_Nil_iff: "normalize_segments ss = [] \<longleftrightarrow> ss = []"
  by (cases ss) (auto simp: normalize_segments_Cons)

lemma normalized_segment_no_slash: "CHR ''/'' \<notin> set (normalize_generated_segment s (segment_limit r))"
  using normalize_segment_portable segment_limit_ge(1) slash_not_portable by blast

lemma split_normalized_path:
  "split_on CHR ''/'' (normalize_generated_path p) = normalize_segments (split_on CHR ''/'' p)"
  unfolding normalize_generated_path_def
  by (rule split_on_join)
    (auto simp: normalize_segments_Nil_iff normalized_segment_no_slash dest!: normalize_segments_in)

lemma last_normalize_segments:
  "ss \<noteq> [] \<Longrightarrow> last (normalize_segments ss) = normalize_generated_segment (last ss) 241"
  by (induction ss) (auto simp: normalize_segments_Cons normalize_segments_Nil_iff segment_limit_ge)

fun uncut :: "string list \<Rightarrow> bool" where
  "uncut [] = True"
| "uncut (s # ss) = (int (length (normalized_segment s)) \<le> segment_limit ss \<and> uncut ss)"

lemma normalize_segments_inj:
  "normalize_segments ss = normalize_segments ts \<Longrightarrow> uncut ss \<Longrightarrow> uncut ts \<Longrightarrow> ss = ts"
proof (induction ss arbitrary: ts)
  case Nil
  then show ?case by (metis normalize_segments_Nil_iff)
next
  case (Cons s ss)
  then obtain t ts' where t: "ts = t # ts'" by (cases ts) (auto simp: normalize_segments_Cons)
  with Cons have "normalized_segment s = normalized_segment t" and "ss = ts'"
    by (auto simp: normalize_segments_Cons normalize_generated_segment_def)
  with t normalized_segment_inj show ?case by blast
qed

section \<open>Budgets\<close>

definition within :: "int \<Rightarrow> int option \<Rightarrow> bool" where
  \<comment> \<open>the budget is absent or at least \<open>c\<close>\<close>
  "within c b \<longleftrightarrow> (case b of None \<Rightarrow> True | Some v \<Rightarrow> c \<le> v)"

lemma budget_min_within: "within c b \<Longrightarrow> budget_min c b = c"
  by (auto simp: within_def budget_min_def split: option.splits)

definition folded_base :: "string \<Rightarrow> string" where
  "folded_base name = ''~'' @ sha256_HEX name @ ''.protocyte''"

definition base_fits :: "string \<Rightarrow> int \<Rightarrow> int \<Rightarrow> bool" where
  "base_fits b ep ed \<longleftrightarrow> int (length (b @ ''.hpp'')) \<le> ep \<and>
     (before_last CHR ''/'' b = [] \<or> int (length (before_last CHR ''/'' b)) \<le> ed)"

definition plain_base :: "string \<Rightarrow> string" where
  "plain_base n = normalize_generated_path (removesuffix ''.proto'' n) @ ''.protocyte''"

lemma generated_file_base_eq:
  "generated_file_base n mp md =
     (if mp = None \<and> md = None then Inr (plain_base n)
      else if base_fits (plain_base n) (budget_min 79 mp) (budget_min 67 md) then Inr (plain_base n)
      else if within 79 mp then Inr (folded_base n) else Inl PathBudgetTooSmall)"
proof -
  have fold: "slice_to r (budget_min 79 mp - 14 - 1 - 64) = []" if "within 79 mp" for r :: string
    using budget_min_within [OF that] by simp
  have err: "(case mp of None \<Rightarrow> False | Some p \<Rightarrow> p < 79) \<longleftrightarrow> \<not> within 79 mp"
    by (auto simp: within_def split: option.splits)
  show ?thesis
    unfolding generated_file_base_def Let_def plain_base_def [symmetric] base_fits_def [symmetric]
      budget_constants GENERATED_PATH_DIGEST_SEPARATOR_BYTES_def digest_length_int err folded_base_def
    using fold by simp
qed

lemma folded_base_facts:
  "length (folded_base n) = 75" "before_last CHR ''/'' (folded_base n) = []"
proof -
  show "length (folded_base n) = 75" by (simp add: folded_base_def sha_HEX.digest_length)
  have "CHR ''/'' \<notin> set (sha256_HEX n)"
    using digest_portable slash_not_portable by blast
  then have "CHR ''/'' \<notin> set (folded_base n)" by (simp add: folded_base_def)
  then show "before_last CHR ''/'' (folded_base n) = []" by (rule before_last_none)
qed

section \<open>Properties\<close>

text \<open>
  C5: every component of a generated path is portable: at most 255 bytes (241 for the last
  one, which leaves room for the 14 bytes of \<^verbatim>\<open>.protocyte.hpp\<close>), written with letters, digits
  and \<^verbatim>\<open>._-~\<close> only, not ending in a dot, and not a Windows device name.
\<close>

theorem generated_path_portable:
  "(\<forall>seg\<in>set (split_on CHR ''/'' (normalize_generated_path p)).
      length seg \<le> 255 \<and> list_all portable_path_char seg \<and> \<not> endswith seg ''.'' \<and>
      device_stem seg \<notin> set WINDOWS_RESERVED_PATH_NAMES) \<and>
   length (last (split_on CHR ''/'' (normalize_generated_path p))) \<le> 241"
proof -
  let ?ss = "normalize_segments (split_on CHR ''/'' p)"
  have seg: "length x \<le> 255 \<and> list_all portable_path_char x \<and> \<not> endswith x ''.'' \<and>
      device_stem x \<notin> set WINDOWS_RESERVED_PATH_NAMES" if x: "x \<in> set ?ss" for x
  proof -
    obtain s r where e: "x = normalize_generated_segment s (segment_limit r)"
      using normalize_segments_in [OF x] by blast
    have "int (length x) \<le> 255"
      unfolding e by (rule order_trans [OF normalize_segment_length]) (simp_all add: segment_limit_ge)
    moreover have "list_all portable_path_char x"
      unfolding e list_all_iff using normalize_segment_portable segment_limit_ge(1) by blast
    ultimately show ?thesis
      using normalize_segment_no_dot normalize_segment_device segment_limit_ge(1) unfolding e by simp
  qed
  have "int (length (normalize_generated_segment (last (split_on CHR ''/'' p)) 241)) \<le> 241"
    by (rule normalize_segment_length) simp
  then have "length (last ?ss) \<le> 241" by (simp add: last_normalize_segments)
  with seg show ?thesis by (simp add: split_normalized_path)
qed

lemma generated_path_portable_witness:
  "length (last (split_on CHR ''/'' (normalize_generated_path ''api/aux.v1''))) \<le> 241 \<and>
   normalize_generated_path ''api/aux.v1'' = ''api/~61ux.v1''"
proof
  show "length (last (split_on CHR ''/'' (normalize_generated_path ''api/aux.v1''))) \<le> 241"
    using generated_path_portable [of "''api/aux.v1''"] by blast
  show "normalize_generated_path ''api/aux.v1'' = ''api/~61ux.v1''" by code_simp
qed

text \<open>
  C6: the escaping loses nothing: two virtual paths whose components all fit their limits
  have the same generated path only when they are the same path.
\<close>

theorem generated_path_injective:
  assumes "uncut (split_on CHR ''/'' p)" and "uncut (split_on CHR ''/'' q)"
    and "normalize_generated_path p = normalize_generated_path q"
  shows "p = q"
proof -
  have "normalize_segments (split_on CHR ''/'' p) = normalize_segments (split_on CHR ''/'' q)"
    using assms(3) split_normalized_path by metis
  then have "split_on CHR ''/'' p = split_on CHR ''/'' q"
    using assms(1,2) by (rule normalize_segments_inj)
  then show ?thesis by (metis join_split_on)
qed

lemma generated_path_injective_witness:
  "uncut (split_on CHR ''/'' ''a/con.x'') \<and> uncut (split_on CHR ''/'' ''a/Con.x'') \<and>
   normalize_generated_path ''a/con.x'' \<noteq> normalize_generated_path ''a/Con.x''"
proof -
  have u: "uncut (split_on CHR ''/'' ''a/con.x'')" "uncut (split_on CHR ''/'' ''a/Con.x'')"
    by (simp_all add: segment_limit_def limits normalized_segment_def device_stem_def first_part_def
      endswith_def startswith_def escape_bytes_Cons escape_byte_def hex_byte_def)
  with generated_path_injective [OF u] show ?thesis by auto
qed

text \<open>
  C7: a generated base respects the budgets it was asked for: with the header suffix it fits
  the path budget, and its directory part fits a non-negative directory budget. The only
  failure is a path budget below 79 bytes that the plain spelling exceeds.
\<close>

theorem generated_base_within_budgets:
  "(\<forall>b p. generated_file_base n (Some p) md = Inr b \<longrightarrow> int (length (b @ ''.hpp'')) \<le> p) \<and>
   (\<forall>b d. generated_file_base n mp (Some d) = Inr b \<longrightarrow> 0 \<le> d \<longrightarrow>
      int (length (before_last CHR ''/'' b)) \<le> d) \<and>
   (generated_file_base n mp md = Inl e \<longrightarrow> (\<exists>p. mp = Some p \<and> p < 79))"
  by (auto simp: generated_file_base_eq base_fits_def budget_min_def within_def folded_base_facts
      split: if_splits option.splits)

lemma generated_base_within_budgets_witness:
  "generated_file_base ''api/x.proto'' (Some 90) (Some 3) = Inr ''api/x.protocyte'' \<and>
   int (length (''api/x.protocyte'' @ ''.hpp'')) \<le> 90"
proof -
  have "generated_file_base ''api/x.proto'' (Some 90) (Some 3) = Inr ''api/x.protocyte''" by code_simp
  with generated_base_within_budgets [of "''api/x.proto''" "Some 3"] show ?thesis by blast
qed

text \<open>
  C8: budgets above the canonical ones do not change a name: whenever some budget is given and
  every given path budget is at least 79 and every given directory budget at least 67, the base
  is the one of exactly (79, 67), so separately generated dependencies agree on header names.
\<close>

theorem generated_base_stable:
  assumes "within 79 mp" and "within 67 md" and "mp \<noteq> None \<or> md \<noteq> None"
  shows "generated_file_base n mp md = generated_file_base n (Some 79) (Some 67) \<and>
    (\<exists>b. generated_file_base n mp md = Inr b)"
proof -
  have "budget_min 79 mp = 79" and "budget_min 67 md = 67"
    using assms budget_min_within by blast+
  with assms show ?thesis by (auto simp: generated_file_base_eq budget_min_def within_def)
qed

lemma generated_base_stable_witness:
  "generated_file_base ''api/v1/x.proto'' None (Some 200) =
     generated_file_base ''api/v1/x.proto'' (Some 79) (Some 67)"
  using generated_base_stable [of None "Some 200" "''api/v1/x.proto''"] by (simp add: within_def)

end
