(* ===== verification/Graph.thy ===== *)
theory Graph
  imports Prelude
begin

text \<open>
  What the generator's graph searches share. A graph is a dictionary from nodes to successor
  lists, so it has finitely many keys and a node without an entry has no successor: the two laws
  of the locale \<open>finite_successors\<close>. Its lemmas are the termination order of a worklist search
  and the closure argument that a finished search has found exactly the reachable nodes.
\<close>

type_synonym ('k, 'v) dict = "('k \<times> 'v) list"

definition dict_get :: "('k, 'v list) dict \<Rightarrow> 'k \<Rightarrow> 'v list" where
  \<comment> \<open>\<^verbatim>\<open>d.get(k, ())\<close>\<close>
  "dict_get d k = (case map_of d k of None \<Rightarrow> [] | Some vs \<Rightarrow> vs)"

fun dict_set :: "('k, 'v) dict \<Rightarrow> 'k \<Rightarrow> 'v \<Rightarrow> ('k, 'v) dict" where
  \<comment> \<open>\<^verbatim>\<open>d[k] = v\<close>: a present key keeps its position\<close>
  "dict_set [] k v = [(k, v)]"
| "dict_set ((j, w) # d) k v = (if j = k then (k, v) # d else (j, w) # dict_set d k v)"

lemma map_of_dict_set [simp]: "map_of (dict_set d k v) = (map_of d)(k \<mapsto> v)"
  by (induction d) auto

lemma dom_dict_set: "fst ` set (dict_set d k v) = insert k (fst ` set d)"
proof (induction d)
  case (Cons p d)
  obtain j w where "p = (j, w)" by (cases p)
  with Cons show ?case by (cases "j = k") (simp_all add: insert_commute)
qed simp

lemma set_dict_set: "set (dict_set d k v) \<subseteq> insert (k, v) (set d)"
  by (induction d k v rule: dict_set.induct) auto

lemma distinct_dict_set: "distinct (map fst d) \<Longrightarrow> distinct (map fst (dict_set d k v))"
proof (induction d)
  case (Cons p d)
  obtain j w where p: "p = (j, w)" by (cases p)
  have "fst ` set (dict_set d k v) = insert k (fst ` set d)" by (rule dom_dict_set)
  with Cons show ?case by (auto simp: p)
qed simp

lemma dict_set_fresh: "k \<notin> fst ` set d \<Longrightarrow> dict_set d k v = d @ [(k, v)]"
  by (induction d) auto

section \<open>Reachability over a finite dictionary\<close>

definition edge_set :: "('a \<Rightarrow> 'a list) \<Rightarrow> ('a \<times> 'a) set" where
  "edge_set succ = {(a, b). b \<in> set (succ a)}"

definition reach :: "('a \<Rightarrow> 'a list) \<Rightarrow> 'a set \<Rightarrow> 'a set" where
  "reach succ R = (edge_set succ)\<^sup>* `` R"

lemma reach_base: "R \<subseteq> reach succ R"
  by (auto simp: reach_def)

lemma reach_step: "a \<in> reach succ R \<Longrightarrow> b \<in> set (succ a) \<Longrightarrow> b \<in> reach succ R"
proof -
  assume "a \<in> reach succ R" and b: "b \<in> set (succ a)"
  then obtain r where "r \<in> R" and "(r, a) \<in> (edge_set succ)\<^sup>*" by (auto simp: reach_def)
  moreover have "(a, b) \<in> edge_set succ" using b by (simp add: edge_set_def)
  ultimately show ?thesis unfolding reach_def by (blast intro: rtrancl_into_rtrancl)
qed

lemma reach_least:
  assumes "R \<subseteq> S" and "\<And>a. a \<in> S \<Longrightarrow> set (succ a) \<subseteq> S"
  shows "reach succ R \<subseteq> S"
proof
  fix b assume "b \<in> reach succ R"
  then obtain a where "a \<in> R" and "(a, b) \<in> (edge_set succ)\<^sup>*" by (auto simp: reach_def)
  from this(2) show "b \<in> S"
    by (induction rule: rtrancl_induct) (use assms \<open>a \<in> R\<close> in \<open>auto simp: edge_set_def\<close>)
qed

lemma reach_eqI:
  assumes "R \<subseteq> S" and "\<And>a. a \<in> S \<Longrightarrow> set (succ a) \<subseteq> S" and "S \<subseteq> reach succ R"
  shows "S = reach succ R"
  using reach_least [of R S succ] assms by blast

lemma reach_mono: "R \<subseteq> R' \<Longrightarrow> reach succ R \<subseteq> reach succ R'"
  by (auto simp: reach_def)

locale finite_successors =
  fixes keys :: "'a set" and succ :: "'a \<Rightarrow> 'a list"
  assumes finite_keys: "finite keys"
    and succ_outside: "x \<notin> keys \<Longrightarrow> succ x = []"
begin

definition work_order :: "('a list \<times> 'a set) rel" where
  \<comment> \<open>a search either meets a new key or shortens its worklist\<close>
  "work_order = inv_image (less_than <*lex*> less_than)
     (\<lambda>(work, seen). (card (keys - seen), length work))"

lemma wf_work_order: "wf work_order"
  unfolding work_order_def by (intro wf_inv_image wf_lex_prod wf_less_than)

lemma work_order_skip: "((work, seen), (x # work, seen)) \<in> work_order"
  by (simp add: work_order_def)

lemma visit_progress:
  assumes "x \<notin> seen"
  shows "card (keys - insert x seen) < card (keys - seen) \<or>
    (card (keys - insert x seen) = card (keys - seen) \<and> succ x = [])"
proof (cases "x \<in> keys")
  case True
  with assms have "keys - insert x seen \<subset> keys - seen" by auto
  then show ?thesis using finite_keys by (simp add: psubset_card_mono)
next
  case False
  then have "keys - insert x seen = keys - seen" by blast
  with False show ?thesis using succ_outside by simp
qed

lemma work_order_visit:
  assumes "x \<notin> seen"
  shows "((rev (succ x) @ work, insert x seen), (x # work, seen)) \<in> work_order"
    and "((work @ succ x, insert x seen), (x # work, seen)) \<in> work_order"
  using visit_progress [OF assms] by (elim disjE conjE; simp add: work_order_def)+

lemma finite_reach: "finite R \<Longrightarrow> finite (reach succ R)"
proof -
  assume "finite R"
  let ?S = "R \<union> (\<Union>x\<in>keys. set (succ x))"
  have "reach succ R \<subseteq> ?S"
  proof (rule reach_least)
    show "set (succ a) \<subseteq> ?S" for a by (cases "a \<in> keys") (auto simp: succ_outside)
  qed simp
  moreover have "finite ?S" using \<open>finite R\<close> finite_keys by auto
  ultimately show ?thesis by (rule finite_subset)
qed

end

lemma dict_get_outside: "k \<notin> fst ` set d \<Longrightarrow> dict_get d k = []"
  by (simp add: dict_get_def map_of_eq_None_iff [THEN iffD2])

text \<open>Every dictionary of lists is such a graph.\<close>

interpretation dict_graph: finite_successors "fst ` set d" "dict_get d" for d :: "('a, 'a list) dict"
  by unfold_locales (simp_all add: dict_get_outside)

end
