(* ===== verification/Descriptors.thy ===== *)
theory Descriptors
  imports Graph
begin

text \<open>
  The input of the generator: protobuf descriptors as the messages of \<^verbatim>\<open>descriptor.proto\<close> that the
  source reads. A field on which the source asks \<^verbatim>\<open>HasField\<close> is an option, every other field holds
  its value (with protobuf's default when it is unset). Messages nest, so \<open>DescriptorProto\<close> is a
  datatype over its own fields and its nested types. The numbers of labels and types are those of
  \<^verbatim>\<open>FieldDescriptorProto\<close>.
\<close>

record FieldDescriptorProto =
  fname :: string
  fnumber :: int
  flabel :: "int option"
  ftype :: "int option"
  ftype_name :: string
  fextendee :: string
  foneof_index :: "int option"
  fproto3_optional :: bool
  fdefault_value :: "string option"
  fpacked :: "bool option"
  fdeprecated :: bool

definition field_label :: "FieldDescriptorProto \<Rightarrow> int" where
  \<comment> \<open>\<^verbatim>\<open>field.label\<close>: the first enum value when unset\<close>
  "field_label f = (case flabel f of None \<Rightarrow> 1 | Some l \<Rightarrow> l)"

definition field_type :: "FieldDescriptorProto \<Rightarrow> int" where
  "field_type f = (case ftype f of None \<Rightarrow> 1 | Some t \<Rightarrow> t)"

record EnumValueDescriptorProto =
  evname :: string
  evnumber :: "int option"
  evdeprecated :: bool

definition value_number :: "EnumValueDescriptorProto \<Rightarrow> int" where
  "value_number v = (case evnumber v of None \<Rightarrow> 0 | Some n \<Rightarrow> n)"

record EnumReservedRange =
  range_start :: "int option"
  range_end :: "int option"

record EnumDescriptorProto =
  ename :: string
  evalues :: "EnumValueDescriptorProto list"
  ereserved_name :: "string list"
  ereserved_range :: "EnumReservedRange list"
  eallow_alias :: bool
  edeprecated :: bool

record message_data =
  mname :: string
  mfields :: "FieldDescriptorProto list"
  menums :: "EnumDescriptorProto list"
  mextensions :: "FieldDescriptorProto list"
  moneofs :: "string list"
  mextension_range :: "(int \<times> int) list"
  mreserved_range :: "(int \<times> int) list"
  mreserved_name :: "string list"
  mmap_entry :: bool
  mdeprecated :: bool

datatype DescriptorProto = Message (msg_data: message_data) (nested_type: "DescriptorProto list")

abbreviation msg_name :: "DescriptorProto \<Rightarrow> string" where
  "msg_name m \<equiv> mname (msg_data m)"

record ServiceDescriptorProto =
  sname :: string
  smethods :: "string list"

record FileDescriptorProto =
  file_name :: string
  package :: string
  dependency :: "string list"
  public_dependency :: "int list"
  weak_dependency :: "int list"
  message_type :: "DescriptorProto list"
  enum_type :: "EnumDescriptorProto list"
  service :: "ServiceDescriptorProto list"
  extension :: "FieldDescriptorProto list"
  fsyntax :: string
  edition :: int

type_synonym files = "(string, FileDescriptorProto) dict"

definition LABEL_OPTIONAL :: int where "LABEL_OPTIONAL = 1"
definition LABEL_REQUIRED :: int where "LABEL_REQUIRED = 2"
definition LABEL_REPEATED :: int where "LABEL_REPEATED = 3"
definition TYPE_DOUBLE :: int where "TYPE_DOUBLE = 1"
definition TYPE_FLOAT :: int where "TYPE_FLOAT = 2"
definition TYPE_INT64 :: int where "TYPE_INT64 = 3"
definition TYPE_UINT64 :: int where "TYPE_UINT64 = 4"
definition TYPE_INT32 :: int where "TYPE_INT32 = 5"
definition TYPE_FIXED64 :: int where "TYPE_FIXED64 = 6"
definition TYPE_FIXED32 :: int where "TYPE_FIXED32 = 7"
definition TYPE_BOOL :: int where "TYPE_BOOL = 8"
definition TYPE_STRING :: int where "TYPE_STRING = 9"
definition TYPE_GROUP :: int where "TYPE_GROUP = 10"
definition TYPE_MESSAGE :: int where "TYPE_MESSAGE = 11"
definition TYPE_BYTES :: int where "TYPE_BYTES = 12"
definition TYPE_UINT32 :: int where "TYPE_UINT32 = 13"
definition TYPE_ENUM :: int where "TYPE_ENUM = 14"
definition TYPE_SFIXED32 :: int where "TYPE_SFIXED32 = 15"
definition TYPE_SFIXED64 :: int where "TYPE_SFIXED64 = 16"
definition TYPE_SINT32 :: int where "TYPE_SINT32 = 17"
definition TYPE_SINT64 :: int where "TYPE_SINT64 = 18"

lemmas label_defs = LABEL_OPTIONAL_def LABEL_REQUIRED_def LABEL_REPEATED_def
lemmas type_defs = TYPE_DOUBLE_def TYPE_FLOAT_def TYPE_INT64_def TYPE_UINT64_def TYPE_INT32_def
  TYPE_FIXED64_def TYPE_FIXED32_def TYPE_BOOL_def TYPE_STRING_def TYPE_GROUP_def TYPE_MESSAGE_def
  TYPE_BYTES_def TYPE_UINT32_def TYPE_ENUM_def TYPE_SFIXED32_def TYPE_SFIXED64_def TYPE_SINT32_def
  TYPE_SINT64_def

definition DESCRIPTOR_NAME :: string where
  "DESCRIPTOR_NAME = ''google/protobuf/descriptor.proto''"

lemma size_nested_less [termination_simp]: "n \<in> set ns \<Longrightarrow> size n < Suc (size_list size ns)"
  by (induction ns) auto

text \<open>Small descriptors the witnesses start from.\<close>

definition plain_field :: "string \<Rightarrow> int \<Rightarrow> int \<Rightarrow> FieldDescriptorProto" where
  "plain_field n k t = \<lparr>fname = n, fnumber = k, flabel = Some LABEL_OPTIONAL, ftype = Some t,
     ftype_name = [], fextendee = [], foneof_index = None, fproto3_optional = False,
     fdefault_value = None, fpacked = None, fdeprecated = False\<rparr>"

definition plain_message :: "string \<Rightarrow> FieldDescriptorProto list \<Rightarrow> DescriptorProto" where
  "plain_message n fs = Message \<lparr>mname = n, mfields = fs, menums = [], mextensions = [],
     moneofs = [], mextension_range = [], mreserved_range = [], mreserved_name = [],
     mmap_entry = False, mdeprecated = False\<rparr> []"

definition plain_file :: "string \<Rightarrow> string list \<Rightarrow> DescriptorProto list \<Rightarrow> FileDescriptorProto" where
  "plain_file n deps ms = \<lparr>file_name = n, package = ''p'', dependency = deps,
     public_dependency = [], weak_dependency = [], message_type = ms, enum_type = [],
     service = [], extension = [], fsyntax = ''proto3'', edition = 0\<rparr>"

end
