(* ===== verification/TypeNames.thy ===== *)
theory TypeNames
  imports Descriptors
begin

text \<open>
  The part of \<^verbatim>\<open>src/protocyte/descriptor_set.py\<close> that walks descriptors: virtual file names, the
  fully qualified names a file declares and refers to, its extension declarations and the first
  reason a file cannot be generated. A path is the list of the name's parts.
\<close>

section \<open>Errors\<close>

datatype blocker =
  InternalDescriptor
  | Editions
  | Proto3Extension string string \<comment> \<open>extension name, extended type\<close>
  | NestedExtension string
  | GroupField string

record TypeReference =
  type_name :: string
  field_path :: string

record FileTypeDependency =
  source_file :: string
  target_file :: string
  reference :: TypeReference

datatype descriptor_error =
  EmptyFileName
  | OptionFileName string
  | NullInFileName string
  | BackslashInFileName string
  | AbsoluteFileName string
  | UnsafeSegment string
  | DuplicateFile string
  | SelectedMissing string
  | ImportMissing string string
  | TargetBlocked string blocker
  | TargetReserved string
  | NonGeneratableReference string TypeReference string blocker
  | ImportBlocked string string "string list" nat blocker
  | TypeCycle "FileTypeDependency list" nat
  | MissingKey string \<comment> \<open>the \<^verbatim>\<open>KeyError\<close> of \<^verbatim>\<open>files[name]\<close>\<close>
  | NoImportRoot \<comment> \<open>the \<^verbatim>\<open>AssertionError\<close> of \<^verbatim>\<open>_import_root\<close>\<close>

section \<open>Virtual file names\<close>

definition windows_root :: "string \<Rightarrow> bool" where
  \<comment> \<open>\<^verbatim>\<open>PureWindowsPath(name).root\<close> for a name without backslashes\<close>
  "windows_root name =
     (startswith name ''/''
      \<or> (case utf8_chars name of _ # b # c # _ \<Rightarrow> b = '':'' \<and> c = ''/'' | _ \<Rightarrow> False))"

definition validate_virtual_file_name :: "string \<Rightarrow> descriptor_error + unit" where
  "validate_virtual_file_name name =
     (if name = [] then Inl EmptyFileName
      else if startswith name ''-'' then Inl (OptionFileName name)
      else if CHR 0x00 \<in> set name then Inl (NullInFileName name)
      else if CHR 0x5C \<in> set name then Inl (BackslashInFileName name)
      else if startswith name ''/'' \<or> windows_root name then Inl (AbsoluteFileName name)
      else if list_ex (\<lambda>part. part \<in> {[], ''.'', ''..''}) (split_on CHR ''/'' name)
        then Inl (UnsafeSegment name)
      else Inr ())"

lemma virtual_file_name_ok:
  "validate_virtual_file_name name = Inr u \<longleftrightarrow>
     name \<noteq> [] \<and> hd name \<noteq> CHR ''-'' \<and> CHR 0x00 \<notin> set name \<and> CHR 0x5C \<notin> set name
     \<and> \<not> windows_root name
     \<and> (\<forall>part\<in>set (split_on CHR ''/'' name). part \<notin> {[], ''.'', ''..''})"
proof (cases name)
  case (Cons c s)
  have "startswith name ''/'' \<Longrightarrow> windows_root name" by (simp add: windows_root_def)
  moreover have "startswith name ''-'' \<longleftrightarrow> hd name = CHR ''-''"
    using Cons by (auto simp: startswith_def)
  ultimately show ?thesis
    using Cons by (auto simp: validate_virtual_file_name_def list_ex_iff)
qed (simp add: validate_virtual_file_name_def)

section \<open>Names\<close>

definition fully_qualified_name :: "string list \<Rightarrow> string" where
  "fully_qualified_name parts = ''.'' @ join ''.'' (filter (\<lambda>p. p \<noteq> []) parts)"

definition normalize_type_name :: "string \<Rightarrow> string" where
  "normalize_type_name n = (if startswith n ''.'' then n else ''.'' @ n)"

definition package_parts :: "FileDescriptorProto \<Rightarrow> string list" where
  "package_parts file = filter (\<lambda>p. p \<noteq> []) (split_on CHR ''.'' (package file))"

lemma package_parts_nonempty [simp]: "p \<in> set (package_parts file) \<Longrightarrow> p \<noteq> []"
  by (simp add: package_parts_def)

lemma normalize_type_name_idem [simp]:
  "normalize_type_name (normalize_type_name n) = normalize_type_name n"
  by (simp add: normalize_type_name_def startswith_def)

lemma normalize_fully_qualified [simp]:
  "normalize_type_name (fully_qualified_name parts) = fully_qualified_name parts"
  by (simp add: normalize_type_name_def fully_qualified_name_def startswith_def)

lemma fully_qualified_inj:
  assumes "\<forall>p\<in>set ps. p \<noteq> [] \<and> CHR ''.'' \<notin> set p" "\<forall>q\<in>set qs. q \<noteq> [] \<and> CHR ''.'' \<notin> set q"
    and "fully_qualified_name ps = fully_qualified_name qs"
  shows "ps = qs"
proof -
  have f: "filter (\<lambda>p. p \<noteq> []) ps = ps" "filter (\<lambda>p. p \<noteq> []) qs = qs"
    using assms by (auto intro: filter_True)
  then have j: "join ''.'' ps = join ''.'' qs" using assms(3) by (simp add: fully_qualified_name_def)
  have empty: "rs = []" if "join ''.'' rs = []" and "\<forall>r\<in>set rs. r \<noteq> []" for rs :: "string list"
    using that by (cases rs; cases "tl rs") auto
  show ?thesis
  proof (cases "ps = [] \<or> qs = []")
    case True
    then show ?thesis using j assms(1,2) empty [of ps] empty [of qs] by auto
  next
    case False
    then have "split_on CHR ''.'' (join ''.'' ps) = ps" "split_on CHR ''.'' (join ''.'' qs) = qs"
      using assms(1,2) by (auto intro: split_on_join)
    with j show ?thesis by metis
  qed
qed

section \<open>Declared and referenced types\<close>

fun message_type_names :: "string list \<Rightarrow> DescriptorProto \<Rightarrow> string list" where
  "message_type_names pre (Message m nested) =
     fully_qualified_name (pre @ [mname m])
     # concat (map (message_type_names (pre @ [mname m])) nested)
     @ map (\<lambda>e. fully_qualified_name (pre @ [mname m] @ [ename e])) (menums m)"

definition declared_type_names :: "FileDescriptorProto \<Rightarrow> string list" where
  "declared_type_names file =
     concat (map (message_type_names (package_parts file)) (message_type file))
     @ map (\<lambda>e. fully_qualified_name (package_parts file @ [ename e])) (enum_type file)"

definition index_declared_types :: "FileDescriptorProto list \<Rightarrow> (string, string) dict" where
  "index_declared_types fs =
     fold (\<lambda>file. fold (\<lambda>t d. dict_set d t (file_name file)) (declared_type_names file)) fs []"

fun message_referenced_types :: "string list \<Rightarrow> DescriptorProto \<Rightarrow> TypeReference list" where
  "message_referenced_types path (Message m nested) =
     map (\<lambda>f. \<lparr>type_name = ftype_name f, field_path = join ''.'' (path @ [fname f])\<rparr>)
       (filter (\<lambda>f. ftype_name f \<noteq> []) (mfields m))
     @ concat (map (\<lambda>n. message_referenced_types (path @ [msg_name n]) n) nested)"

definition referenced_types :: "FileDescriptorProto \<Rightarrow> TypeReference list" where
  "referenced_types file =
     concat (map (\<lambda>m. message_referenced_types (package_parts file @ [msg_name m]) m)
       (message_type file))"

lemma fold_dict_set_map_of:
  "map_of (fold (\<lambda>t d. dict_set d t v) ts d) k = (if k \<in> set ts then Some v else map_of d k)"
  by (induction ts arbitrary: d) auto

lemma index_declared_types_sound:
  assumes "map_of (index_declared_types fs) t = Some name"
  shows "\<exists>file\<in>set fs. file_name file = name \<and> t \<in> set (declared_type_names file)"
proof -
  define step where
    "step = (\<lambda>file. fold (\<lambda>t d. dict_set d t (file_name file)) (declared_type_names file))"
  have "map_of (fold step gs d) t = Some name \<Longrightarrow>
      (\<exists>file\<in>set gs. file_name file = name \<and> t \<in> set (declared_type_names file))
      \<or> map_of d t = Some name" for gs d
  proof (induction gs arbitrary: d)
    case (Cons g gs)
    have "map_of (fold step gs (step g d)) t = Some name" using Cons.prems by simp
    from Cons.IH [OF this] show ?case
    proof
      assume "map_of (step g d) t = Some name"
      then show ?thesis by (auto simp: step_def fold_dict_set_map_of split: if_splits)
    qed auto
  qed simp
  from this [of fs "[]"] show ?thesis
    using assms by (simp add: index_declared_types_def step_def)
qed

lemma index_declared_types_total:
  assumes "file \<in> set fs" "t \<in> set (declared_type_names file)"
  shows "\<exists>name. map_of (index_declared_types fs) t = Some name"
proof -
  define step where
    "step = (\<lambda>file. fold (\<lambda>t d. dict_set d t (file_name file)) (declared_type_names file))"
  have keep: "map_of d t \<noteq> None \<Longrightarrow> map_of (fold step gs d) t \<noteq> None" for gs d
    by (induction gs arbitrary: d) (auto simp: step_def fold_dict_set_map_of)
  have "file \<in> set gs \<Longrightarrow> map_of (fold step gs d) t \<noteq> None" for gs d
  proof (induction gs arbitrary: d)
    case (Cons g gs)
    show ?case
    proof (cases "file = g")
      case True
      then have "map_of (step g d) t \<noteq> None"
        using assms by (simp add: step_def fold_dict_set_map_of)
      then show ?thesis using keep by simp
    qed (use Cons in auto)
  qed simp
  from this [of fs "[]"] show ?thesis
    using assms by (auto simp: index_declared_types_def step_def)
qed

section \<open>Extensions and groups\<close>

definition CUSTOM_OPTION_EXTENDEES :: "string list" where
  "CUSTOM_OPTION_EXTENDEES = map (\<lambda>n. ''.google.protobuf.'' @ n)
     [''FileOptions'', ''MessageOptions'', ''FieldOptions'', ''OneofOptions'', ''EnumOptions'',
      ''EnumValueOptions'', ''ExtensionRangeOptions'', ''ServiceOptions'', ''MethodOptions'']"

definition is_custom_option_extension :: "FieldDescriptorProto \<Rightarrow> bool" where
  "is_custom_option_extension field = (fextendee field \<in> set CUSTOM_OPTION_EXTENDEES)"

fun message_extension_declarations ::
  "DescriptorProto \<Rightarrow> string list \<Rightarrow> (FieldDescriptorProto \<times> string option) list" where
  "message_extension_declarations (Message m nested) path =
     map (\<lambda>x. (x, Some (fully_qualified_name path))) (mextensions m)
     @ concat (map (\<lambda>n. message_extension_declarations n (path @ [msg_name n])) nested)"

definition extension_declarations ::
  "FileDescriptorProto \<Rightarrow> (FieldDescriptorProto \<times> string option) list" where
  "extension_declarations file =
     map (\<lambda>x. (x, None)) (extension file)
     @ concat (map (\<lambda>m. message_extension_declarations m (package_parts file @ [msg_name m]))
         (message_type file))"

definition extension_name ::
  "FileDescriptorProto \<Rightarrow> FieldDescriptorProto \<Rightarrow> string option \<Rightarrow> string" where
  "extension_name file x scope =
     (case scope of
        Some s \<Rightarrow> removeprefix ''.'' s @ ''.'' @ fname x
      | None \<Rightarrow> removeprefix ''.'' (fully_qualified_name (package_parts file @ [fname x])))"

fun first_some :: "'a option list \<Rightarrow> 'a option" where
  "first_some [] = None"
| "first_some (None # xs) = first_some xs"
| "first_some (Some x # xs) = Some x"

lemma first_some_None [simp]: "first_some xs = None \<longleftrightarrow> set xs \<subseteq> {None}"
  by (induction xs rule: first_some.induct) auto

lemma first_some_Some: "first_some xs = Some x \<Longrightarrow> Some x \<in> set xs"
  by (induction xs rule: first_some.induct) auto

fun message_group_blocker :: "DescriptorProto \<Rightarrow> string list \<Rightarrow> blocker option" where
  "message_group_blocker (Message m nested) path =
     (case find (\<lambda>f. field_type f = TYPE_GROUP) (mfields m) of
        Some f \<Rightarrow> Some (GroupField (join ''.'' (path @ [fname f])))
      | None \<Rightarrow> first_some (map (\<lambda>n. message_group_blocker n (path @ [msg_name n])) nested))"

definition group_field_blocker :: "FileDescriptorProto \<Rightarrow> blocker option" where
  "group_field_blocker file =
     first_some (map (\<lambda>m. message_group_blocker m (package_parts file @ [msg_name m]))
       (message_type file))"

definition extension_blocker ::
  "FileDescriptorProto \<Rightarrow> bool \<Rightarrow> FieldDescriptorProto \<times> string option \<Rightarrow> blocker option" where
  "extension_blocker file selected = (\<lambda>(x, scope).
     if is_custom_option_extension x then None
     else if fsyntax file = ''proto3''
       then Some (Proto3Extension (extension_name file x scope) (fextendee x))
     else (case scope of
             Some s \<Rightarrow> if selected then Some (NestedExtension (removeprefix ''.'' s)) else None
           | None \<Rightarrow> None))"

definition capability_blocker :: "FileDescriptorProto \<Rightarrow> bool \<Rightarrow> blocker option" where
  "capability_blocker file selected =
     (if fsyntax file = ''editions'' \<or> edition file \<noteq> 0 then Some Editions
      else case first_some (map (extension_blocker file selected) (extension_declarations file)) of
        Some b \<Rightarrow> Some b
      | None \<Rightarrow> group_field_blocker file)"

definition INTERNAL_DESCRIPTOR_FILES :: "string list" where
  "INTERNAL_DESCRIPTOR_FILES = [''protocyte/options.proto'']"

definition generated_header_blocker :: "FileDescriptorProto \<Rightarrow> blocker option" where
  "generated_header_blocker file =
     (if file_name file \<in> set INTERNAL_DESCRIPTOR_FILES then Some InternalDescriptor
      else capability_blocker file True)"

fun message_has_group :: "DescriptorProto \<Rightarrow> bool" where
  "message_has_group (Message m nested) =
     (list_ex (\<lambda>f. field_type f = TYPE_GROUP) (mfields m) \<or> list_ex message_has_group nested)"

lemma message_group_blocker_None [simp]:
  "message_group_blocker m path = None \<longleftrightarrow> \<not> message_has_group m"
proof (induction m arbitrary: path)
  case (Message m nested)
  have "first_some (map (\<lambda>n. message_group_blocker n (path @ [msg_name n])) nested) = None
      \<longleftrightarrow> \<not> list_ex message_has_group nested"
    using Message by (auto simp: list_ex_iff image_subset_iff)
  moreover have "find (\<lambda>f. field_type f = TYPE_GROUP) (mfields m) = None
      \<longleftrightarrow> \<not> list_ex (\<lambda>f. field_type f = TYPE_GROUP) (mfields m)"
    by (auto simp: find_None_iff list_ex_iff)
  ultimately show ?case
    by (cases "find (\<lambda>f. field_type f = TYPE_GROUP) (mfields m)") simp_all
qed

lemma capability_blocker_selected:
  "capability_blocker file True = None \<Longrightarrow> capability_blocker file False = None"
proof -
  assume a: "capability_blocker file True = None"
  have "extension_blocker file True d = None \<Longrightarrow> extension_blocker file False d = None" for d
    by (cases d) (auto simp: extension_blocker_def split: if_splits option.splits)
  then show ?thesis
    using a by (simp add: capability_blocker_def image_subset_iff split: if_splits option.splits)
qed

end
