(* ===== verification/ImportGraph.thy ===== *)
theory ImportGraph
  imports TypeNames
begin

text \<open>
  Searches over the imports of a descriptor set (\<^verbatim>\<open>src/protocyte/descriptor_set.py\<close>): the index of
  its files, the check that every reachable import is present and well named, and the
  breadth-first search that records one predecessor per reachable file. A worklist is kept with
  its next element first, so the end a Python list pops from is the head here.
\<close>

section \<open>The file index\<close>

definition index_file :: "FileDescriptorProto \<Rightarrow> files \<Rightarrow> descriptor_error + files" where
  "index_file file files =
     rbind (validate_virtual_file_name (file_name file)) (\<lambda>_.
       if map_of files (file_name file) \<noteq> None then Inl (DuplicateFile (file_name file))
       else Inr (dict_set files (file_name file) file))"

definition index_files :: "FileDescriptorProto list \<Rightarrow> descriptor_error + files" where
  "index_files fs = rfold index_file fs []"

definition imports_of :: "files \<Rightarrow> string \<Rightarrow> string list" where
  "imports_of files name = (case map_of files name of None \<Rightarrow> [] | Some file \<Rightarrow> dependency file)"

definition present_imports :: "files \<Rightarrow> string \<Rightarrow> string list" where
  \<comment> \<open>the imports a search follows: those the set contains\<close>
  "present_imports files name = filter (\<lambda>d. map_of files d \<noteq> None) (imports_of files name)"

text \<open>The import graph is finite: only the files of the set have imports.\<close>

interpretation import_graph: finite_successors "fst ` set files" "imports_of files" for files :: files
  by unfold_locales (simp_all add: imports_of_def map_of_eq_None_iff [THEN iffD2])

interpretation present_graph: finite_successors "fst ` set files" "present_imports files" for files :: files
  by unfold_locales
    (simp_all add: present_imports_def imports_of_def map_of_eq_None_iff [THEN iffD2])

lemma index_file_Inr:
  "index_file f d = Inr d' \<longleftrightarrow>
     validate_virtual_file_name (file_name f) = Inr () \<and> file_name f \<notin> fst ` set d
     \<and> d' = d @ [(file_name f, f)]"
proof (cases "file_name f \<in> fst ` set d")
  case True
  then have "map_of d (file_name f) \<noteq> None" by (simp add: map_of_eq_None_iff)
  with True show ?thesis by (auto simp: index_file_def)
next
  case False
  then have "map_of d (file_name f) = None" by (simp add: map_of_eq_None_iff)
  with False show ?thesis by (auto simp: index_file_def dict_set_fresh)
qed

lemma index_files_Inr:
  "index_files fs = Inr d \<longleftrightarrow>
     d = map (\<lambda>f. (file_name f, f)) fs \<and> distinct (map file_name fs)
     \<and> (\<forall>f\<in>set fs. validate_virtual_file_name (file_name f) = Inr ())"
proof -
  have "rfold index_file fs d0 = Inr d \<longleftrightarrow>
      d = d0 @ map (\<lambda>f. (file_name f, f)) fs \<and> distinct (map file_name fs)
      \<and> file_name ` set fs \<inter> fst ` set d0 = {}
      \<and> (\<forall>f\<in>set fs. validate_virtual_file_name (file_name f) = Inr ())" for d0
  proof (induction fs arbitrary: d0)
    case (Cons f fs)
    show ?case by (auto simp: index_file_Inr Cons.IH)
  qed auto
  then show ?thesis by (simp add: index_files_def)
qed

section \<open>Every reachable import is present\<close>

definition validate_import :: "files \<Rightarrow> string \<Rightarrow> string \<Rightarrow> descriptor_error + unit" where
  "validate_import files name dep =
     rbind (validate_virtual_file_name dep) (\<lambda>_.
       raise_if (map_of files dep = None) (ImportMissing name dep))"

function import_loop :: "files \<Rightarrow> string list \<Rightarrow> string set \<Rightarrow> descriptor_error + unit" where
  "import_loop files [] seen = Inr ()"
| "import_loop files (name # stack) seen =
     (if name \<in> seen then import_loop files stack seen
      else case map_of files name of
        None \<Rightarrow> Inl (MissingKey name)
      | Some file \<Rightarrow>
          rbind (each (validate_import files name) (dependency file)) (\<lambda>_.
            import_loop files (rev (dependency file) @ stack) (insert name seen)))"
  by pat_completeness auto
termination
proof (relation "{((f', s', v'), (f, s, v)). f' = f \<and> ((s', v'), (s, v)) \<in> import_graph.work_order f}")
  show "wf {((f' :: files, s', v'), (f, s, v)). f' = f \<and> ((s', v'), (s, v)) \<in> import_graph.work_order f}"
    unfolding import_graph.work_order_def
    by (rule wf_subset [OF wf_measures
        [of "[\<lambda>(f, s, v). card (fst ` set f - v), \<lambda>(f, s, v). length s]"]]) auto
next
  fix files :: files and name stack seen fd x
  assume "name \<notin> seen" "map_of files name = Some fd"
  then show "((files, rev (dependency fd) @ stack, insert name seen), (files, name # stack, seen))
      \<in> {((f', s', v'), (f, s, v)). f' = f \<and> ((s', v'), (s, v)) \<in> import_graph.work_order f}"
    using import_graph.work_order_visit(1) [of name seen files stack] by (simp add: imports_of_def)
qed (simp add: import_graph.work_order_skip)

definition validate_import_graph :: "files \<Rightarrow> string list \<Rightarrow> descriptor_error + unit" where
  "validate_import_graph files roots = import_loop files (rev roots) {}"

definition imports_valid :: "files \<Rightarrow> string \<Rightarrow> bool" where
  "imports_valid files name =
     (map_of files name \<noteq> None
      \<and> (\<forall>d\<in>set (imports_of files name).
           validate_virtual_file_name d = Inr () \<and> map_of files d \<noteq> None))"

lemma validate_import_ok [simp]:
  "validate_import files name d = Inr () \<longleftrightarrow>
     validate_virtual_file_name d = Inr () \<and> map_of files d \<noteq> None"
  by (auto simp: validate_import_def)

lemma import_loop_visit:
  "name \<notin> seen \<Longrightarrow> import_loop files (name # stack) seen = Inr () \<longleftrightarrow>
     imports_valid files name
     \<and> import_loop files (rev (imports_of files name) @ stack) (insert name seen) = Inr ()"
  by (auto simp: imports_valid_def imports_of_def split: option.split)

lemma import_loop_iff:
  assumes "\<forall>n\<in>seen. imports_valid files n \<and> set (imports_of files n) \<subseteq> seen \<union> set stack"
  shows "import_loop files stack seen = Inr () \<longleftrightarrow>
    (\<forall>n\<in>reach (imports_of files) (set stack). imports_valid files n)"
  using assms
proof (induction files stack seen rule: import_loop.induct)
  case (1 files seen)
  then show ?case by (simp add: reach_def)
next
  case (2 files name stack seen)
  show ?case
  proof (cases "name \<in> seen")
    case True
    have "reach (imports_of files) (set (name # stack)) \<subseteq> seen \<union> reach (imports_of files) (set stack)"
    proof (rule reach_least)
      fix a assume "a \<in> seen \<union> reach (imports_of files) (set stack)"
      then show "set (imports_of files a) \<subseteq> seen \<union> reach (imports_of files) (set stack)"
        using "2.prems" True reach_base [of "set stack" "imports_of files"] reach_step by fastforce
    qed (use True reach_base [of "set stack" "imports_of files"] in auto)
    moreover have "reach (imports_of files) (set stack) \<subseteq> reach (imports_of files) (set (name # stack))"
      by (rule reach_mono) auto
    moreover have "import_loop files stack seen = Inr () \<longleftrightarrow>
        (\<forall>n\<in>reach (imports_of files) (set stack). imports_valid files n)"
      by (rule "2.IH"(1) [OF True]) (use "2.prems" True in auto)
    ultimately show ?thesis using True "2.prems" by auto
  next
    case False
    let ?s = "rev (imports_of files name) @ stack"
    have "reach (imports_of files) (set (name # stack)) =
        insert name (reach (imports_of files) (set ?s))" (is "?l = ?r")
    proof
      show "?l \<subseteq> ?r"
      proof (rule reach_least)
        fix a assume "a \<in> ?r"
        then show "set (imports_of files a) \<subseteq> ?r"
          using reach_base [of "set ?s" "imports_of files"] reach_step [of a "imports_of files" "set ?s"]
          by auto
      qed (use reach_base [of "set ?s" "imports_of files"] in auto)
      have "set ?s \<subseteq> ?l"
        using reach_base [of "set (name # stack)" "imports_of files"]
          reach_step [of name "imports_of files" "set (name # stack)"] by auto
      then have "reach (imports_of files) (set ?s) \<subseteq> ?l"
        by (rule reach_least) (use reach_step in fast)
      then show "?r \<subseteq> ?l" using reach_base [of "set (name # stack)" "imports_of files"] by auto
    qed
    moreover have "import_loop files ?s (insert name seen) = Inr () \<longleftrightarrow>
        (\<forall>n\<in>reach (imports_of files) (set ?s). imports_valid files n)"
      if valid: "imports_valid files name"
    proof -
      obtain fd where f: "map_of files name = Some fd"
        using valid unfolding imports_valid_def by blast
      then have d: "imports_of files name = dependency fd" by (simp add: imports_of_def)
      have "each (validate_import files name) (dependency fd) = Inr ()"
        using that d by (simp add: imports_valid_def)
      from "2.IH"(2) [OF False f this] show ?thesis
        using "2.prems" that d by auto
    qed
    ultimately show ?thesis using import_loop_visit [OF False] by auto
  qed
qed

lemma import_loop_error:
  assumes "set stack \<subseteq> fst ` set files"
  shows "import_loop files stack seen \<noteq> Inl (MissingKey name)"
  using assms
proof (induction files stack seen rule: import_loop.induct)
  case (2 files x stack seen)
  obtain fd where f: "map_of files x = Some fd"
    using "2.prems" by (cases "map_of files x") (auto simp: map_of_eq_None_iff)
  have no: "validate_import files x d \<noteq> Inl (MissingKey name)" for d
    by (auto simp: validate_import_def rbind_Inl_iff validate_virtual_file_name_def)
  have e: "each (validate_import files x) ds \<noteq> Inl (MissingKey name)" for ds
    by (induction ds) (auto simp: rbind_Inl_iff no)
  show ?case
  proof (cases "x \<in> seen")
    case False
    have "import_loop files (rev (dependency fd) @ stack) (insert x seen) \<noteq> Inl (MissingKey name)"
      if "each (validate_import files x) (dependency fd) = Inr ()"
    proof (rule "2.IH"(2) [OF False f that])
      show "set (rev (dependency fd) @ stack) \<subseteq> fst ` set files"
        using that "2.prems" by (auto simp: map_of_eq_None_iff)
    qed
    then show ?thesis using False f e by (auto simp: rbind_Inl_iff)
  qed (use 2 in auto)
qed simp


definition import_file :: "string \<Rightarrow> string list \<Rightarrow> FileDescriptorProto" where
  "import_file n deps = plain_file n deps []"

definition chain_files :: files where
  \<comment> \<open>two files that import each other, and one that imports nothing\<close>
  "chain_files = map (\<lambda>f. (file_name f, f))
     [import_file ''a'' [''b''], import_file ''b'' [''a''], import_file ''c'' []]"

text \<open>
  C17: The import check of a descriptor set accepts a selection exactly when every file reachable
  from it through imports is present and each of its imports has a valid virtual name and is
  present too; import cycles are no error and do not make the search run on. For a selection of
  files of the set it never fails with a missing key.
\<close>
theorem import_graph_valid_iff:
  assumes "set roots \<subseteq> fst ` set files"
  shows "(validate_import_graph files roots = Inr () \<longleftrightarrow>
      (\<forall>n\<in>reach (imports_of files) (set roots). imports_valid files n))
    \<and> validate_import_graph files roots \<noteq> Inl (MissingKey name)"
proof -
  have "import_loop files (rev roots) {} = Inr () \<longleftrightarrow>
      (\<forall>n\<in>reach (imports_of files) (set (rev roots)). imports_valid files n)"
    by (rule import_loop_iff) simp
  moreover have "import_loop files (rev roots) {} \<noteq> Inl (MissingKey name)"
    by (rule import_loop_error) (use assms in simp)
  ultimately show ?thesis unfolding validate_import_graph_def by simp
qed

theorem import_graph_valid_iff_witness:
  "set [''a''] \<subseteq> fst ` set chain_files \<and> validate_import_graph chain_files [''a''] = Inr ()
   \<and> imports_valid chain_files ''a''
   \<and> validate_import_graph chain_files [''a''] \<noteq> Inl (MissingKey ''a'')"
proof -
  have 1: "set [''a''] \<subseteq> fst ` set chain_files" by (simp add: chain_files_def import_file_def plain_file_def)
  have 2: "validate_import_graph chain_files [''a''] = Inr ()" by code_simp
  have "''a'' \<in> reach (imports_of chain_files) (set [''a''])"
    using reach_base [of "set [''a'']"] by auto
  with import_graph_valid_iff [OF 1, of "''a''"] 1 2 show ?thesis by blast
qed

section \<open>One predecessor per reachable import\<close>

type_synonym predecessors = "(string, string option) dict"

definition visit_dependency ::
  "files \<Rightarrow> string \<Rightarrow> string \<Rightarrow> predecessors \<times> string list \<Rightarrow> predecessors \<times> string list" where
  "visit_dependency files name dep = (\<lambda>(preds, queue).
     if map_of files dep = None \<or> map_of preds dep \<noteq> None then (preds, queue)
     else (dict_set preds dep (Some name), queue @ [dep]))"

lemma visit_dependencies:
  "fold (visit_dependency files name) deps (preds, queue) = (preds', queue') \<Longrightarrow>
   \<exists>new. preds' = preds @ map (\<lambda>d. (d, Some name)) new \<and> queue' = queue @ new \<and> distinct new
     \<and> set new = {d \<in> set deps. map_of files d \<noteq> None} - fst ` set preds"
proof (induction deps arbitrary: preds queue)
  case (Cons d deps)
  show ?case
  proof (cases "map_of files d = None \<or> map_of preds d \<noteq> None")
    case True
    then have "fold (visit_dependency files name) deps (preds, queue) = (preds', queue')"
      using Cons.prems by (simp only: fold_simps comp_apply) (simp add: visit_dependency_def [of files name d])
    from Cons.IH [OF this] obtain new where n:
      "preds' = preds @ map (\<lambda>d. (d, Some name)) new" "queue' = queue @ new" "distinct new"
      "set new = {d \<in> set deps. map_of files d \<noteq> None} - fst ` set preds" by blast
    have "map_of files d = None \<or> d \<in> fst ` set preds"
      using True by (auto simp: map_of_eq_None_iff)
    then have "set new = {x \<in> set (d # deps). map_of files x \<noteq> None} - fst ` set preds"
      using n(4) by auto
    with n(1,2,3) show ?thesis by blast
  next
    case False
    then have new: "map_of files d \<noteq> None" "map_of preds d = None" by simp_all
    then have fresh: "d \<notin> fst ` set preds" by (simp add: map_of_eq_None_iff)
    then have "fold (visit_dependency files name) deps (preds @ [(d, Some name)], queue @ [d]) = (preds', queue')"
      using Cons.prems by (simp add: visit_dependency_def [of files name d] dict_set_fresh new fresh)
    from Cons.IH [OF this] obtain new where n:
      "preds' = (preds @ [(d, Some name)]) @ map (\<lambda>d. (d, Some name)) new"
      "queue' = (queue @ [d]) @ new" "distinct new"
      "set new = {d \<in> set deps. map_of files d \<noteq> None} - fst ` set (preds @ [(d, Some name)])"
      by blast
    have "set (d # new) = {x \<in> set (d # deps). map_of files x \<noteq> None} - fst ` set preds"
      using n(4) fresh new(1) by auto
    moreover have "distinct (d # new)" using n(3,4) by auto
    ultimately show ?thesis using n(1,2) by (intro exI [of _ "d # new"]) simp
  qed
qed simp

function predecessor_loop ::
  "files \<Rightarrow> predecessors \<Rightarrow> string list \<Rightarrow> descriptor_error + predecessors" where
  "predecessor_loop files preds [] = Inr preds"
| "predecessor_loop files preds (name # queue) =
     (case map_of files name of
        None \<Rightarrow> Inl (MissingKey name)
      | Some fd \<Rightarrow>
          (case fold (visit_dependency files name) (dependency fd) (preds, queue) of
             (preds', queue') \<Rightarrow> predecessor_loop files preds' queue'))"
  by pat_completeness auto
termination
proof (relation "measures [\<lambda>(f, p, q). card (fst ` set f - fst ` set p), \<lambda>(f, p, q). length q]")
  fix files :: files and name preds queue fd preds' queue'
  assume "map_of files name = Some fd"
    and "(preds', queue') = fold (visit_dependency files name) (dependency fd) (preds, queue)"
  then obtain new where n: "preds' = preds @ map (\<lambda>d. (d, Some name)) new" "queue' = queue @ new"
    "set new = {d \<in> set (dependency fd). map_of files d \<noteq> None} - fst ` set preds"
    using visit_dependencies [of files name "dependency fd" preds queue preds' queue'] by auto
  show "((files, preds', queue'), (files, preds, name # queue))
      \<in> measures [\<lambda>(f, p, q). card (fst ` set f - fst ` set p), \<lambda>(f, p, q). length q]"
  proof (cases "new = []")
    case True
    then show ?thesis using n by simp
  next
    case False
    then obtain d where d: "d \<in> set new" by (cases new) auto
    have "fst ` set preds' = fst ` set preds \<union> set new" using n(1) by (simp add: image_Un image_image)
    moreover have "d \<in> fst ` set files - fst ` set preds"
      using d n(3) by (auto simp: map_of_eq_None_iff)
    ultimately have "fst ` set files - fst ` set preds' \<subset> fst ` set files - fst ` set preds"
      using d by (intro psubsetI) auto
    then show ?thesis by (simp add: psubset_card_mono)
  qed
qed simp

definition import_closure_predecessors ::
  "files \<Rightarrow> string list \<Rightarrow> descriptor_error + predecessors" where
  "import_closure_predecessors files roots =
     (let preds = fold (\<lambda>n d. dict_set d n None) roots []
      in predecessor_loop files preds (map fst preds))"


partial_function (option) import_root ::
  "predecessors \<Rightarrow> string \<Rightarrow> (descriptor_error + string) option" where
  "import_root preds current =
     (case map_of preds current of
        None \<Rightarrow> Some (Inl (MissingKey current))
      | Some None \<Rightarrow> Some (Inr current)
      | Some (Some parent) \<Rightarrow> import_root preds parent)"

definition MAX_DIAGNOSTIC_CHAIN_ENTRIES :: nat where
  "MAX_DIAGNOSTIC_CHAIN_ENTRIES = 32"

partial_function (option) import_path ::
  "predecessors \<Rightarrow> string \<Rightarrow> string list \<Rightarrow> nat \<Rightarrow> (descriptor_error + string list \<times> nat) option" where
  "import_path preds current sfx omitted =
     (let (sfx', omitted') =
        (if length sfx < MAX_DIAGNOSTIC_CHAIN_ENTRIES then (sfx @ [current], omitted)
         else (sfx, omitted + 1))
      in case map_of preds current of
           None \<Rightarrow> Some (Inl (MissingKey current))
         | Some None \<Rightarrow> Some (Inr (rev sfx', omitted'))
         | Some (Some parent) \<Rightarrow> import_path preds parent sfx' omitted')"

definition format_import_path ::
  "string \<Rightarrow> predecessors \<Rightarrow> (descriptor_error + string list \<times> nat) option" where
  \<comment> \<open>the rendered entries and the number of omitted ones\<close>
  "format_import_path name preds = import_path preds name [] 0"

fun linked :: "string set \<Rightarrow> predecessors \<Rightarrow> bool" where
  \<comment> \<open>every predecessor is an earlier key\<close>
  "linked S [] = True"
| "linked S ((n, p) # ps) = ((case p of None \<Rightarrow> True | Some q \<Rightarrow> q \<in> S) \<and> linked (insert n S) ps)"

lemma linked_append: "linked S (ps @ qs) = (linked S ps \<and> linked (S \<union> fst ` set ps) qs)"
  by (induction S ps rule: linked.induct) (auto simp: insert_commute)

lemma linked_same: "q \<in> S \<Longrightarrow> linked S (map (\<lambda>d. (d, Some q)) ds)"
  by (induction ds arbitrary: S) auto

lemma linked_roots: "linked S (map (\<lambda>d. (d, None)) ds)"
  by (induction ds arbitrary: S) auto

lemma linked_nth:
  "linked S ps \<Longrightarrow> i < length ps \<Longrightarrow> ps ! i = (n, Some q) \<Longrightarrow> q \<in> S \<or> (\<exists>j<i. fst (ps ! j) = q)"
proof (induction S ps arbitrary: i rule: linked.induct)
  case (2 S m p ps)
  show ?case
  proof (cases i)
    case (Suc k)
    with 2 have "q \<in> insert m S \<or> (\<exists>j<k. fst (ps ! j) = q)" by simp
    then show ?thesis
    proof (elim disjE exE conjE)
      assume "q \<in> insert m S"
      then show ?thesis using Suc by auto
    next
      fix j assume "j < k" "fst (ps ! j) = q"
      then show ?thesis using Suc by (intro disjI2 exI [of _ "Suc j"]) simp
    qed
  qed (use 2 in simp)
qed simp

lemma linked_returns:
  assumes "linked {} preds" "distinct (map fst preds)" "n \<in> fst ` set preds"
  shows "\<exists>r. import_root preds n = Some (Inr r) \<and> map_of preds r = Some None"
    and "\<exists>out. import_path preds n sfx k = Some (Inr out)"
proof -
  have "i < length preds \<Longrightarrow> fst (preds ! i) = n \<Longrightarrow>
      (\<exists>r. import_root preds n = Some (Inr r) \<and> map_of preds r = Some None)
      \<and> (\<forall>sfx k. \<exists>out. import_path preds n sfx k = Some (Inr out))" for i
  proof (induction i arbitrary: n rule: less_induct)
    case (less i)
    obtain p where p: "preds ! i = (n, p)" using less.prems(2) by (cases "preds ! i") simp
    then have mem: "(n, p) \<in> set preds" using less.prems(1) by (metis nth_mem)
    have m: "map_of preds n = Some p" by (rule map_of_is_SomeI [OF assms(2) mem])
    show ?case
    proof (cases p)
      case None
      then show ?thesis using m by (simp add: import_root.simps [of preds n] import_path.simps [of preds n])
    next
      case (Some q)
      then obtain j where "j < i" "fst (preds ! j) = q"
        using linked_nth [OF assms(1) less.prems(1), of n q] p by auto
      then have "(\<exists>r. import_root preds q = Some (Inr r) \<and> map_of preds r = Some None)
          \<and> (\<forall>sfx k. \<exists>out. import_path preds q sfx k = Some (Inr out))"
        using less.IH [of j q] less.prems(1) by simp
      then show ?thesis
        using m Some by (simp add: import_root.simps [of preds n] import_path.simps [of preds n])
    qed
  qed
  moreover obtain i where "i < length preds" "fst (preds ! i) = n"
    using assms(3) by (auto simp: in_set_conv_nth)
  ultimately show "\<exists>r. import_root preds n = Some (Inr r) \<and> map_of preds r = Some None"
    and "\<exists>out. import_path preds n sfx k = Some (Inr out)" by blast+
qed


definition closure_state :: "files \<Rightarrow> string list \<Rightarrow> predecessors \<Rightarrow> string list \<Rightarrow> bool" where
  \<comment> \<open>what the search keeps: the queue is the end of the keys, the keys before it are expanded\<close>
  "closure_state files roots preds queue \<longleftrightarrow>
     distinct (map fst preds) \<and> linked {} preds \<and> set roots \<subseteq> fst ` set preds
     \<and> fst ` set preds \<subseteq> reach (present_imports files) (set roots)
     \<and> (\<forall>(n, p)\<in>set preds. case p of None \<Rightarrow> n \<in> set roots | Some q \<Rightarrow> n \<in> set (present_imports files q))
     \<and> (\<exists>done. map fst preds = done @ queue
          \<and> (\<forall>n\<in>set done. set (present_imports files n) \<subseteq> fst ` set preds))"

lemma closure_state_start:
  "\<exists>preds. fold (\<lambda>n d. dict_set d n None) roots [] = preds \<and> closure_state files roots preds (map fst preds)"
proof -
  define preds where "preds = fold (\<lambda>n d. dict_set d n (None :: string option)) roots []"
  have shape: "\<exists>ks. fold (\<lambda>n d. dict_set d n None) rs (map (\<lambda>n. (n, None :: string option)) ds)
        = map (\<lambda>n. (n, None)) ks \<and> distinct ks \<and> set ks = set ds \<union> set rs"
    if "distinct ds" for rs ds :: "string list"
    using that
  proof (induction rs arbitrary: ds)
    case (Cons r rs)
    show ?case
    proof (cases "r \<in> set ds")
      case True
      have "dict_set (map (\<lambda>n. (n, None :: string option)) ds) r None = map (\<lambda>n. (n, None)) ds"
        using True by (induction ds) auto
      then show ?thesis using Cons.IH [OF Cons.prems] True by (auto simp: insert_absorb)
    next
      case False
      then have "dict_set (map (\<lambda>n. (n, None :: string option)) ds) r None
          = map (\<lambda>n. (n, None)) (ds @ [r])"
        by (subst dict_set_fresh) auto
      moreover have "distinct (ds @ [r])" using Cons.prems False by simp
      ultimately show ?thesis using Cons.IH [of "ds @ [r]"] by auto
    qed
  qed auto
  from shape [of "[]" roots] obtain ks where
    "preds = map (\<lambda>n. (n, None)) ks" "distinct ks" "set ks = set roots"
    by (auto simp: preds_def)
  then have "closure_state files roots preds (map fst preds)"
    using reach_base [of "set roots" "present_imports files"]
    by (auto simp: closure_state_def linked_roots image_image comp_def)
  then show ?thesis using preds_def by blast
qed

lemma closure_state_step:
  assumes "closure_state files roots preds (name # queue)" "map_of files name = Some fd"
    and "fold (visit_dependency files name) (dependency fd) (preds, queue) = (preds', queue')"
  shows "closure_state files roots preds' queue'"
proof -
  from visit_dependencies [OF assms(3)] obtain new where n:
    "preds' = preds @ map (\<lambda>d. (d, Some name)) new" "queue' = queue @ new" "distinct new"
    "set new = {d \<in> set (dependency fd). map_of files d \<noteq> None} - fst ` set preds" by blast
  have imp: "set (present_imports files name) = {d \<in> set (dependency fd). map_of files d \<noteq> None}"
    using assms(2) by (simp add: present_imports_def imports_of_def)
  have new: "set new = set (present_imports files name) - fst ` set preds" using n(4) imp by simp
  have keys: "fst ` set preds' = fst ` set preds \<union> set new" using n(1) by (simp add: image_Un image_image)
  from assms(1) obtain prefix where st: "distinct (map fst preds)" "linked {} preds"
    "set roots \<subseteq> fst ` set preds" "fst ` set preds \<subseteq> reach (present_imports files) (set roots)"
    "\<forall>(n, p)\<in>set preds. case p of None \<Rightarrow> n \<in> set roots | Some q \<Rightarrow> n \<in> set (present_imports files q)"
    "map fst preds = prefix @ name # queue"
    "\<forall>n\<in>set prefix. set (present_imports files n) \<subseteq> fst ` set preds"
    unfolding closure_state_def by blast
  have name: "name \<in> fst ` set preds" using arg_cong [OF st(6), of set] by auto
  show ?thesis unfolding closure_state_def
  proof (intro conjI exI [of _ "prefix @ [name]"])
    show "distinct (map fst preds')" using st(1) n(1,3) new by (auto simp: comp_def)
    show "linked {} preds'" using st(2) n(1) name by (simp add: linked_append linked_same)
    show "set roots \<subseteq> fst ` set preds'" using st(3) keys by blast
    have "set new \<subseteq> reach (present_imports files) (set roots)"
      using new name st(4) reach_step [of name "present_imports files" "set roots"] by blast
    then show "fst ` set preds' \<subseteq> reach (present_imports files) (set roots)" using st(4) keys by simp
    show "\<forall>(n, p)\<in>set preds'. case p of None \<Rightarrow> n \<in> set roots | Some q \<Rightarrow> n \<in> set (present_imports files q)"
      using st(5) n(1) new by auto
    show "map fst preds' = (prefix @ [name]) @ queue'" using st(6) n(1,2) by (simp add: comp_def)
    show "\<forall>n\<in>set (prefix @ [name]). set (present_imports files n) \<subseteq> fst ` set preds'"
      using st(7) keys new by auto
  qed
qed

lemma predecessor_loop_result:
  assumes "closure_state files roots preds queue" "set roots \<subseteq> fst ` set files"
  shows "\<exists>out. predecessor_loop files preds queue = Inr out \<and> closure_state files roots out []"
  using assms
proof (induction files preds queue rule: predecessor_loop.induct)
  case (2 files preds name queue)
  have "fst ` set preds \<subseteq> reach (present_imports files) (set roots)"
    using "2.prems" by (simp add: closure_state_def)
  moreover have "reach (present_imports files) (set roots) \<subseteq> fst ` set files"
    by (rule reach_least [OF "2.prems"(2)]) (auto simp: present_imports_def map_of_eq_None_iff)
  moreover have "name \<in> fst ` set preds"
  proof -
    from "2.prems"(1) obtain prefix where "map fst preds = prefix @ name # queue"
      unfolding closure_state_def by blast
    from arg_cong [OF this, of set] show ?thesis by auto
  qed
  ultimately have "name \<in> fst ` set files" by blast
  then obtain fd where fd: "map_of files name = Some fd"
    by (cases "map_of files name") (auto simp: map_of_eq_None_iff)
  obtain preds' queue' where step:
    "fold (visit_dependency files name) (dependency fd) (preds, queue) = (preds', queue')"
    by (cases "fold (visit_dependency files name) (dependency fd) (preds, queue)")
  from "2.IH" [OF fd step [symmetric]] closure_state_step [OF "2.prems"(1) fd step] "2.prems"(2)
  show ?case using fd step by simp
qed simp

lemma predecessors_of_closure:
  assumes "set roots \<subseteq> fst ` set files"
  shows "\<exists>preds. import_closure_predecessors files roots = Inr preds \<and> distinct (map fst preds)
    \<and> fst ` set preds = reach (present_imports files) (set roots)
    \<and> (\<forall>(n, p)\<in>set preds. case p of None \<Rightarrow> n \<in> set roots | Some q \<Rightarrow> n \<in> set (present_imports files q))
    \<and> (\<forall>n\<in>fst ` set preds.
         (\<exists>r\<in>set roots. import_root preds n = Some (Inr r))
         \<and> (\<exists>path omitted. format_import_path n preds = Some (Inr (path, omitted))))"
proof -
  obtain start where s: "fold (\<lambda>n d. dict_set d n None) roots [] = start"
    "closure_state files roots start (map fst start)" using closure_state_start by blast
  from predecessor_loop_result [OF s(2) assms] obtain preds where p:
    "import_closure_predecessors files roots = Inr preds" "closure_state files roots preds []"
    using s(1) by (auto simp: import_closure_predecessors_def Let_def)
  then have d: "distinct (map fst preds)" and l: "linked {} preds"
    and sub: "set roots \<subseteq> fst ` set preds" "fst ` set preds \<subseteq> reach (present_imports files) (set roots)"
    and closed: "\<forall>n\<in>fst ` set preds. set (present_imports files n) \<subseteq> fst ` set preds"
    and e: "\<forall>(n, p)\<in>set preds. case p of None \<Rightarrow> n \<in> set roots | Some q \<Rightarrow> n \<in> set (present_imports files q)"
    by (auto simp: closure_state_def)
  have k: "fst ` set preds = reach (present_imports files) (set roots)"
    using sub closed by (intro reach_eqI) blast+
  have "(\<exists>r\<in>set roots. import_root preds n = Some (Inr r))
      \<and> (\<exists>path omitted. format_import_path n preds = Some (Inr (path, omitted)))"
    if n: "n \<in> fst ` set preds" for n
  proof -
    obtain r where r: "import_root preds n = Some (Inr r)" "map_of preds r = Some None"
      using linked_returns(1) [OF l d n] by blast
    from map_of_SomeD [OF r(2)] e have "r \<in> set roots" by auto
    moreover obtain out where "format_import_path n preds = Some (Inr out)"
      using linked_returns(2) [OF l d n, of "[]" 0] by (auto simp: format_import_path_def)
    ultimately show ?thesis using r(1) by (cases out) blast
  qed
  then show ?thesis using p(1) d k e by blast
qed

text \<open>
  C16: For a selection of files of the set, the breadth-first search over imports returns a
  dictionary whose keys are exactly the files reachable through present imports, each once; a
  root may have no predecessor, every other file is an import of its predecessor. Following
  predecessors from any reachable file always ends, at one of the roots, and so does formatting
  the import path for a diagnostic.
\<close>
theorem import_predecessors_correct:
  assumes "set roots \<subseteq> fst ` set files"
  shows "\<exists>preds. import_closure_predecessors files roots = Inr preds \<and> distinct (map fst preds)
    \<and> fst ` set preds = reach (present_imports files) (set roots)
    \<and> (\<forall>(n, p)\<in>set preds. case p of None \<Rightarrow> n \<in> set roots | Some q \<Rightarrow> n \<in> set (present_imports files q))
    \<and> (\<forall>n\<in>fst ` set preds.
         (\<exists>r\<in>set roots. import_root preds n = Some (Inr r))
         \<and> (\<exists>path omitted. format_import_path n preds = Some (Inr (path, omitted))))"
  using predecessors_of_closure [OF assms] .

theorem import_predecessors_correct_witness:
  "\<exists>preds. import_closure_predecessors chain_files [''a''] = Inr preds
    \<and> fst ` set preds = reach (present_imports chain_files) (set [''a''])
    \<and> preds = [(''a'', None), (''b'', Some ''a'')] \<and> import_root preds ''b'' = Some (Inr ''a'')"
proof -
  have 1: "set [''a''] \<subseteq> fst ` set chain_files" by (simp add: chain_files_def import_file_def plain_file_def)
  have 2: "import_closure_predecessors chain_files [''a''] = Inr [(''a'', None), (''b'', Some ''a'')]"
    by code_simp
  have 3: "import_root [(''a'', None), (''b'', Some ''a'')] ''b'' = Some (Inr ''a'')"
    by (simp add: import_root.simps)
  from import_predecessors_correct [OF 1] 2 3 show ?thesis by auto
qed

end
