(* ===== verification/TypeCycles.thy ===== *)
theory TypeCycles
  imports ImportGraph
begin

text \<open>
  Generated headers include one another along type references, so references between files must
  not form a cycle: \<^verbatim>\<open>_file_type_dependencies\<close> and \<^verbatim>\<open>_validate_no_cross_file_type_cycles\<close> of
  \<^verbatim>\<open>src/protocyte/descriptor_set.py\<close>. The search keeps its own stack of frames (a file and the index
  of its next edge, the top of the stack first), the position of every active file, and the edges of
  the current path.
\<close>

section \<open>Dependencies between files\<close>

type_synonym dependencies = "(string, FileTypeDependency list) dict"

definition file_edges :: "(string, string) dict \<Rightarrow> string \<Rightarrow> FileDescriptorProto \<Rightarrow> FileTypeDependency list" where
  "file_edges type_files name file =
     List.map_filter (\<lambda>r.
       case map_of type_files (normalize_type_name (type_name r)) of
         None \<Rightarrow> None
       | Some target \<Rightarrow>
           if target = name then None
           else Some \<lparr>source_file = name, target_file = target, reference = r\<rparr>)
       (referenced_types file)"

definition edge_key :: "FileTypeDependency \<Rightarrow> string \<times> string \<times> string" where
  "edge_key e = (target_file e, field_path (reference e), type_name (reference e))"

definition file_type_dependencies :: "files \<Rightarrow> dependencies" where
  "file_type_dependencies files =
     (let type_files = index_declared_types (map snd files);
          found = map (\<lambda>(name, file). (name, file_edges type_files name file)) files
      in map (\<lambda>(name, edges). (name, sort_key edge_key edges)) (filter (\<lambda>(_, es). es \<noteq> []) found))"

definition targets :: "dependencies \<Rightarrow> string \<Rightarrow> string list" where
  "targets deps name = map target_file (dict_get deps name)"

interpretation type_graph: finite_successors "fst ` set deps" "targets deps" for deps :: dependencies
  by unfold_locales (simp_all add: targets_def dict_get_outside)

section \<open>The search for a cycle\<close>

definition cross_file_type_cycle ::
  "FileTypeDependency list \<Rightarrow> nat \<Rightarrow> FileTypeDependency \<Rightarrow> descriptor_error" where
  \<comment> \<open>the edges shown and the number of omitted ones\<close>
  "cross_file_type_cycle path_edges cycle_start closing_edge =
     (let cycle_edge_count = length path_edges - cycle_start + 1;
          visible_path_count = min (cycle_edge_count - 1) (MAX_DIAGNOSTIC_CHAIN_ENTRIES - 1);
          edges = take visible_path_count (drop cycle_start path_edges) @ [closing_edge]
      in TypeCycle edges (cycle_edge_count - length edges))"

type_synonym frames = "(string \<times> nat) list"

definition active_after :: "(string, nat) dict \<Rightarrow> string \<Rightarrow> (string, nat) dict" where
  \<comment> \<open>\<^verbatim>\<open>active_indices.pop(name)\<close>\<close>
  "active_after active name = filter (\<lambda>(n, _). n \<noteq> name) active"

definition frame_weight :: "dependencies \<Rightarrow> string \<times> nat \<Rightarrow> nat" where
  "frame_weight deps = (\<lambda>(name, i). Suc (2 * (length (dict_get deps name) - i)))"

function cycle_loop ::
  "dependencies \<Rightarrow> string set \<Rightarrow> (string, nat) dict \<Rightarrow> FileTypeDependency list \<Rightarrow> frames
   \<Rightarrow> descriptor_error + string set" where
  "cycle_loop deps visited active path_edges [] = Inr visited"
| "cycle_loop deps visited active path_edges ((name, edge_index) # stack) =
     (let edges = dict_get deps name
      in if edge_index \<ge> length edges then
           cycle_loop deps (insert name visited) (active_after active name) (butlast path_edges) stack
         else
           let edge = edges ! edge_index;
               stack' = (name, edge_index + 1) # stack
           in case map_of active (target_file edge) of
                Some cycle_start \<Rightarrow> Inl (cross_file_type_cycle path_edges cycle_start edge)
              | None \<Rightarrow>
                  if target_file edge \<in> visited
                  then cycle_loop deps visited active path_edges stack'
                  else cycle_loop deps visited
                         (dict_set active (target_file edge) (length stack'))
                         (path_edges @ [edge]) ((target_file edge, 0) # stack'))"
  by pat_completeness auto
termination
proof (relation "measures
    [\<lambda>(deps, visited, active, path, stack). card (fst ` set deps - (visited \<union> fst ` set active)),
     \<lambda>(deps, visited, active, path, stack). sum_list (map (frame_weight deps) stack)]")
  fix deps :: dependencies and visited and active :: "(string, nat) dict"
    and path_edges name i stack edges
  assume "edges = dict_get deps name" "length edges \<le> i"
  have "visited \<union> fst ` set active \<subseteq> insert name visited \<union> fst ` set (active_after active name)"
    by (auto simp: active_after_def image_iff)
  then have "card (fst ` set deps - (insert name visited \<union> fst ` set (active_after active name)))
      \<le> card (fst ` set deps - (visited \<union> fst ` set active))"
    by (intro card_mono) auto
  then show "((deps, insert name visited, active_after active name, butlast path_edges, stack),
      deps, visited, active, path_edges, (name, i) # stack) \<in> measures
    [\<lambda>(deps, visited, active, path, stack). card (fst ` set deps - (visited \<union> fst ` set active)),
     \<lambda>(deps, visited, active, path, stack). sum_list (map (frame_weight deps) stack)]"
    by (auto simp: frame_weight_def)
next
  fix deps :: dependencies and visited and active :: "(string, nat) dict"
    and path_edges name i stack edges and edge :: FileTypeDependency
    and stack' :: frames
  assume e: "edges = dict_get deps name" "\<not> length edges \<le> i" "edge = edges ! i"
    "stack' = (name, i + 1) # stack"
  then show "((deps, visited, active, path_edges, stack'),
      deps, visited, active, path_edges, (name, i) # stack) \<in> measures
    [\<lambda>(deps, visited, active, path, stack). card (fst ` set deps - (visited \<union> fst ` set active)),
     \<lambda>(deps, visited, active, path, stack). sum_list (map (frame_weight deps) stack)]"
    by (simp add: frame_weight_def)
next
  fix deps :: dependencies and visited and active :: "(string, nat) dict"
    and path_edges name i stack edges and edge :: FileTypeDependency
    and stack' :: frames
  let ?t = "target_file edge"
  assume e: "edges = dict_get deps name" "\<not> length edges \<le> i" "edge = edges ! i"
    "stack' = (name, i + 1) # stack" "map_of active ?t = None" "?t \<notin> visited"
  have "?t \<notin> visited \<union> fst ` set active" using e by (simp add: map_of_eq_None_iff)
  from type_graph.visit_progress [OF this, of deps]
  show "((deps, visited, dict_set active ?t (length stack'), path_edges @ [edge], (?t, 0) # stack'),
      deps, visited, active, path_edges, (name, i) # stack) \<in> measures
    [\<lambda>(deps, visited, active, path, stack). card (fst ` set deps - (visited \<union> fst ` set active)),
     \<lambda>(deps, visited, active, path, stack). sum_list (map (frame_weight deps) stack)]"
    using e by (auto simp: dom_dict_set frame_weight_def targets_def)
qed simp

fun cycle_roots :: "dependencies \<Rightarrow> string list \<Rightarrow> string set \<Rightarrow> descriptor_error + string set" where
  "cycle_roots deps [] visited = Inr visited"
| "cycle_roots deps (root # roots) visited =
     (if root \<in> visited then cycle_roots deps roots visited
      else rbind (cycle_loop deps visited [(root, 0)] [] [(root, 0)]) (cycle_roots deps roots))"

definition validate_no_cross_file_type_cycles ::
  "files \<Rightarrow> string list \<Rightarrow> descriptor_error + unit" where
  "validate_no_cross_file_type_cycles files roots =
     rbind (cycle_roots (file_type_dependencies files) roots {}) (\<lambda>_. Inr ())"


section \<open>What the stack of frames means\<close>

definition edges_from :: "dependencies \<Rightarrow> bool" where
  "edges_from deps \<longleftrightarrow> (\<forall>n. \<forall>e\<in>set (dict_get deps n). source_file e = n)"

fun frames_ok ::
  "dependencies \<Rightarrow> string set \<Rightarrow> string option \<Rightarrow> frames \<Rightarrow> FileTypeDependency list \<Rightarrow> bool" where
  \<comment> \<open>an examined edge leads to a finished file or to the frame above, along the path's edge\<close>
  "frames_ok deps visited nxt [] path \<longleftrightarrow> path = []"
| "frames_ok deps visited nxt ((n, i) # stack) path \<longleftrightarrow>
     n \<notin> visited \<and> n \<notin> fst ` set stack
     \<and> (\<forall>k<i. k < length (dict_get deps n) \<longrightarrow>
          target_file (dict_get deps n ! k) \<in> visited \<or> nxt = Some (target_file (dict_get deps n ! k)))
     \<and> (if stack = [] then path = []
        else path \<noteq> [] \<and> last path \<in> set (dict_get deps (fst (hd stack)))
          \<and> target_file (last path) = n \<and> frames_ok deps visited (Some n) stack (butlast path))"

definition active_ok :: "(string, nat) dict \<Rightarrow> frames \<Rightarrow> bool" where
  "active_ok active stack \<longleftrightarrow>
     (\<forall>x k. map_of active x = Some k \<longleftrightarrow> k < length stack \<and> rev (map fst stack) ! k = x)"

definition finished :: "dependencies \<Rightarrow> string set \<Rightarrow> bool" where
  "finished deps visited \<longleftrightarrow>
     (\<forall>v\<in>visited. set (targets deps v) \<subseteq> visited \<and> (v, v) \<notin> (edge_set (targets deps))\<^sup>+)"

lemma finished_closed:
  "(v, w) \<in> (edge_set (targets deps))\<^sup>+ \<Longrightarrow> v \<in> visited \<Longrightarrow> finished deps visited \<Longrightarrow> w \<in> visited"
  by (induction rule: trancl_induct) (auto simp: finished_def edge_set_def)

lemma finished_insert:
  assumes f: "finished deps visited" and t: "set (targets deps n) \<subseteq> visited" and n: "n \<notin> visited"
  shows "finished deps (insert n visited)"
proof -
  have "(n, n) \<notin> (edge_set (targets deps))\<^sup>+"
  proof
    assume "(n, n) \<in> (edge_set (targets deps))\<^sup>+"
    then obtain m where m: "(n, m) \<in> edge_set (targets deps)"
      and "m = n \<or> (m, n) \<in> (edge_set (targets deps))\<^sup>+"
      by (metis tranclD rtrancl_eq_or_trancl)
    then have "m \<in> visited" using t by (auto simp: edge_set_def)
    then show False
      using \<open>m = n \<or> _\<close> n finished_closed [OF _ _ f] by blast
  qed
  then show ?thesis using f t by (auto simp: finished_def)
qed

lemma active_after_ok:
  assumes "active_ok active ((n, i) # stack)" "n \<notin> fst ` set stack"
  shows "active_ok (active_after active n) stack"
proof -
  have m: "map_of (active_after active n) x = (if x = n then None else map_of active x)" for x
    unfolding active_after_def by (induction active) auto
  have "n \<noteq> rev (map fst stack) ! k" if "k < length stack" for k
  proof -
    have "rev (map fst stack) ! k \<in> set (rev (map fst stack))" using that by (intro nth_mem) simp
    then show ?thesis using assms(2) by auto
  qed
  moreover have "map_of active x = Some k \<longleftrightarrow> k < Suc (length stack) \<and> (rev (map fst stack) @ [n]) ! k = x" for x k
    using assms(1) by (simp add: active_ok_def)
  ultimately show ?thesis unfolding active_ok_def m
    by (auto simp: nth_append less_Suc_eq)
qed

lemma active_push_ok:
  assumes "active_ok active stack" "map_of active t = None"
  shows "active_ok (dict_set active t (length stack)) ((t, 0) # stack)"
proof -
  have "\<not> (k < length stack \<and> rev (map fst stack) ! k = t)" for k
    using assms by (simp add: active_ok_def) (metis option.distinct(1))
  then show ?thesis
    using assms(1) by (auto simp: active_ok_def nth_append less_Suc_eq)
qed

lemma active_fresh: "active_ok active stack \<Longrightarrow> map_of active t = None \<Longrightarrow> t \<notin> fst ` set stack"
proof
  assume a: "active_ok active stack" "map_of active t = None" "t \<in> fst ` set stack"
  then have "t \<in> set (rev (map fst stack))" by simp
  then obtain k where "k < length stack" "rev (map fst stack) ! k = t"
    by (metis in_set_conv_nth length_map length_rev)
  with a(1,2) show False by (simp add: active_ok_def) (metis option.distinct(1))
qed

lemma frames_ok_visit:
  "frames_ok deps visited nxt stack path \<Longrightarrow> x \<notin> fst ` set stack \<Longrightarrow>
   frames_ok deps (insert x visited) nxt stack path"
  by (induction deps visited nxt stack path rule: frames_ok.induct) auto

lemma frames_ok_above:
  "frames_ok deps visited (Some x) stack path \<Longrightarrow> x \<in> visited \<Longrightarrow> frames_ok deps visited None stack path"
  by (cases "(deps, visited, Some x, stack, path)" rule: frames_ok.cases) auto

lemma frames_ok_advance:
  assumes "frames_ok deps visited None ((n, i) # stack) path" "i < length (dict_get deps n)"
    and "target_file (dict_get deps n ! i) \<in> visited \<or> nxt = Some (target_file (dict_get deps n ! i))"
  shows "frames_ok deps visited nxt ((n, i + 1) # stack) path"
  using assms by (auto simp: less_Suc_eq)

lemma frames_path:
  "frames_ok deps visited nxt stack path \<Longrightarrow> stack \<noteq> [] \<Longrightarrow>
     length path = length stack - 1
     \<and> (\<forall>j<length path. path ! j \<in> set (dict_get deps (rev (map fst stack) ! j))
          \<and> target_file (path ! j) = rev (map fst stack) ! Suc j)"
proof (induction deps visited nxt stack path rule: frames_ok.induct)
  case (2 deps visited nxt n i stack path)
  show ?case
  proof (cases "stack = []")
    case False
    then have p: "path = butlast path @ [last path]" "last path \<in> set (dict_get deps (fst (hd stack)))"
      "target_file (last path) = n" and f: "frames_ok deps visited (Some n) stack (butlast path)"
      using "2.prems" by auto
    from "2.IH" [OF False f False] have l: "length (butlast path) = length stack - 1"
      and e: "\<forall>j<length (butlast path). butlast path ! j \<in> set (dict_get deps (rev (map fst stack) ! j))
        \<and> target_file (butlast path ! j) = rev (map fst stack) ! Suc j" by blast+
    have len: "length path = length stack" using p(1) l False by (metis Suc_pred' length_append_singleton length_greater_0_conv)
    have "rev (map fst stack) ! (length stack - 1) = fst (hd stack)"
      using False by (simp add: rev_nth hd_conv_nth)
    moreover have "last path = path ! (length stack - 1)"
    proof -
      have "path \<noteq> []" using False len by auto
      then show ?thesis using len by (simp add: last_conv_nth)
    qed
    ultimately have "path ! j \<in> set (dict_get deps (rev (map fst stack) ! j))
        \<and> target_file (path ! j) = (rev (map fst stack) @ [n]) ! Suc j" if "j < length stack" for j
      using that e p(2,3) l
      by (cases "j = length stack - 1") (auto simp: nth_append nth_butlast)
    then show ?thesis using len by (simp add: nth_append)
  qed (use 2 in simp)
qed simp


section \<open>Cycles are found exactly when there are any\<close>

definition is_type_cycle :: "dependencies \<Rightarrow> FileTypeDependency list \<Rightarrow> bool" where
  "is_type_cycle deps es \<longleftrightarrow> es \<noteq> []
     \<and> (\<forall>j<length es. es ! j \<in> set (dict_get deps (source_file (es ! j)))
          \<and> target_file (es ! j) = source_file (es ! (Suc j mod length es)))"

definition shown_cycle :: "FileTypeDependency list \<Rightarrow> descriptor_error" where
  "shown_cycle es = TypeCycle (take 31 (butlast es) @ [last es]) (length es - 32)"

lemma cross_file_type_cycle_shown:
  "c \<le> length path \<Longrightarrow> cross_file_type_cycle path c e = shown_cycle (drop c path @ [e])"
proof -
  have "take (min (length path - c) 31) (drop c path) = take 31 (drop c path)"
    by (metis length_drop min.commute take_all_iff take_take order_refl)
  then show "c \<le> length path \<Longrightarrow> ?thesis"
    by (auto simp: cross_file_type_cycle_def shown_cycle_def Let_def MAX_DIAGNOSTIC_CHAIN_ENTRIES_def)
qed

lemma path_closes_cycle:
  assumes e: "edges_from deps" and f: "frames_ok deps visited nxt stack path" and s: "stack \<noteq> []"
    and a: "edge \<in> set (dict_get deps (fst (hd stack)))"
    and c: "c < length stack" "rev (map fst stack) ! c = target_file edge"
  shows "is_type_cycle deps (drop c path @ [edge])"
proof -
  let ?n = "rev (map fst stack)"
  let ?es = "path @ [edge]"
  from frames_path [OF f s] have len: "length path = length stack - 1"
    and p: "\<And>j. j < length path \<Longrightarrow> path ! j \<in> set (dict_get deps (?n ! j)) \<and> target_file (path ! j) = ?n ! Suc j"
    by blast+
  have top: "?n ! length path = fst (hd stack)"
    using s len by (simp add: rev_nth hd_conv_nth)
  have src: "?es ! j \<in> set (dict_get deps (?n ! j)) \<and> source_file (?es ! j) = ?n ! j" if "j \<le> length path" for j
  proof -
    have "?es ! j \<in> set (dict_get deps (?n ! j))"
      using p [of j] a top that by (cases "j = length path") (auto simp: nth_append)
    then show ?thesis using e by (auto simp: edges_from_def)
  qed
  have tgt: "target_file (?es ! j) = (if j = length path then ?n ! c else ?n ! Suc j)" if "j \<le> length path" for j
    using p [of j] c that by (auto simp: nth_append)
  have cl: "c \<le> length path" using c len by simp
  have nth: "(drop c path @ [edge]) ! j = ?es ! (c + j)" if "j \<le> length path - c" for j
    using that cl by (auto simp: nth_append)
  show ?thesis unfolding is_type_cycle_def
  proof (intro conjI allI impI)
    fix j assume "j < length (drop c path @ [edge])"
    then have j: "j \<le> length path - c" "c + j \<le> length path" using cl by auto
    show "(drop c path @ [edge]) ! j \<in> set (dict_get deps (source_file ((drop c path @ [edge]) ! j)))"
      using src [OF j(2)] nth [OF j(1)] by simp
    show "target_file ((drop c path @ [edge]) ! j)
        = source_file ((drop c path @ [edge]) ! (Suc j mod length (drop c path @ [edge])))"
    proof (cases "j = length path - c")
      case True
      then show ?thesis using tgt [OF j(2)] nth [OF j(1)] nth [of 0] src [OF cl] cl by simp
    next
      case False
      then have "Suc j \<le> length path - c" using j by simp
      then show ?thesis
        using tgt [OF j(2)] nth [OF j(1)] nth [of "Suc j"] src [of "c + Suc j"] False cl by auto
    qed
  qed simp
qed

lemma cycle_loop_result:
  assumes "edges_from deps" and "frames_ok deps visited None stack path"
    and "active_ok active stack" and "finished deps visited"
    and "fst ` set stack \<subseteq> reach (targets deps) R"
  shows "(\<exists>V. cycle_loop deps visited active path stack = Inr V \<and> finished deps V
      \<and> visited \<union> fst ` set stack \<subseteq> V)
    \<or> (\<exists>es. cycle_loop deps visited active path stack = Inl (shown_cycle es)
      \<and> is_type_cycle deps es \<and> source_file (hd es) \<in> reach (targets deps) R)"
  using assms
proof (induction deps visited active path stack rule: cycle_loop.induct)
  case (2 deps visited active path n i stack)
  note frames = "2.prems"(2) and active = "2.prems"(3) and fin = "2.prems"(4) and R = "2.prems"(5)
  have n: "n \<notin> visited" "n \<notin> fst ` set stack" using frames by auto
  show ?case
  proof (cases "length (dict_get deps n) \<le> i")
    case True
    have t: "set (targets deps n) \<subseteq> visited"
      using frames True by (auto simp: targets_def in_set_conv_nth)
    have "frames_ok deps (insert n visited) None stack (butlast path)"
    proof (cases "stack = []")
      case False
      with frames have "frames_ok deps visited (Some n) stack (butlast path)" by simp
      from frames_ok_above [OF frames_ok_visit [OF this n(2)]] show ?thesis by simp
    qed (use frames in simp)
    from "2.IH"(1) [OF refl True "2.prems"(1) this active_after_ok [OF active n(2)]
        finished_insert [OF fin t n(1)]] R
    show ?thesis using True by (auto simp: Let_def)
  next
    case False
    define edge where "edge = dict_get deps n ! i"
    have mem: "edge \<in> set (dict_get deps n)" using False by (simp add: edge_def)
    have step: "cycle_loop deps visited active path ((n, i) # stack) =
        (case map_of active (target_file edge) of
           Some c \<Rightarrow> Inl (cross_file_type_cycle path c edge)
         | None \<Rightarrow> if target_file edge \<in> visited
             then cycle_loop deps visited active path ((n, i + 1) # stack)
             else cycle_loop deps visited
                (dict_set active (target_file edge) (length ((n, i + 1) # stack)))
                (path @ [edge]) ((target_file edge, 0) # (n, i + 1) # stack))"
      by (subst cycle_loop.simps(2)) (simp only: Let_def edge_def False if_False)
    have act: "active_ok active ((n, i + 1) # stack)" using active by (simp add: active_ok_def)
    show ?thesis
    proof (cases "map_of active (target_file edge)")
      case (Some c)
      then have c: "c < length ((n, i) # stack)" "rev (map fst ((n, i) # stack)) ! c = target_file edge"
        using active by (simp_all add: active_ok_def)
      have len: "length path = length stack" using frames_path [OF frames] by simp
      let ?es = "drop c path @ [edge]"
      have cyc: "is_type_cycle deps ?es"
        using path_closes_cycle [OF "2.prems"(1) frames _ _ c] mem by simp
      have "target_file (last ?es) = source_file (hd ?es)"
      proof -
        have "target_file (?es ! (length ?es - 1)) = source_file (?es ! 0)"
          using cyc unfolding is_type_cycle_def by (metis Suc_pred' diff_less length_greater_0_conv less_numeral_extra(1) mod_self)
        moreover have "?es ! (length ?es - 1) = last ?es" "?es ! 0 = hd ?es"
          using c(1) len by (simp_all add: nth_append hd_conv_nth)
        ultimately show ?thesis by metis
      qed
      moreover have "target_file edge \<in> fst ` set ((n, i) # stack)"
        using nth_mem [of c "rev (map fst ((n, i) # stack))"] c by auto
      ultimately have "source_file (hd ?es) \<in> reach (targets deps) R"
        using R by (metis last_snoc subsetD)
      moreover have "cross_file_type_cycle path c edge = shown_cycle ?es"
        using c(1) len by (intro cross_file_type_cycle_shown) simp
      ultimately show ?thesis using step Some cyc by auto
    next
      case None
      show ?thesis
      proof (cases "target_file edge \<in> visited")
        case True
        have "frames_ok deps visited None ((n, i + 1) # stack) path"
          by (rule frames_ok_advance [OF frames]) (use False True in \<open>simp_all add: edge_def\<close>)
        from "2.IH"(2) [OF refl False edge_def refl None True "2.prems"(1) this act fin] R
        show ?thesis using step None True by simp
      next
        case new: False
        let ?t = "target_file edge"
        have fr: "frames_ok deps visited (Some ?t) ((n, i + 1) # stack) path"
          by (rule frames_ok_advance [OF frames]) (use False in \<open>simp_all add: edge_def\<close>)
        have "?t \<notin> fst ` set ((n, i + 1) # stack)" by (rule active_fresh [OF act None])
        then have fr': "frames_ok deps visited None ((?t, 0) # (n, i + 1) # stack) (path @ [edge])"
          using fr new mem by simp
        have "?t \<in> reach (targets deps) R"
        proof (rule reach_step)
          show "n \<in> reach (targets deps) R" using R by simp
          show "?t \<in> set (targets deps n)" using mem by (simp add: targets_def)
        qed
        then have R': "fst ` set ((?t, 0) # (n, i + 1) # stack) \<subseteq> reach (targets deps) R" using R by auto
        from "2.IH"(3) [OF refl False edge_def refl None new "2.prems"(1) fr' active_push_ok [OF act None] fin R']
        show ?thesis using step None new by auto
      qed
    qed
  qed
qed simp


declare cycle_loop.simps [simp del]

lemma cycle_roots_result:
  assumes "edges_from deps" "finished deps visited" "set roots \<subseteq> R"
  shows "(\<exists>V. cycle_roots deps roots visited = Inr V \<and> finished deps V \<and> visited \<union> set roots \<subseteq> V)
    \<or> (\<exists>es. cycle_roots deps roots visited = Inl (shown_cycle es)
      \<and> is_type_cycle deps es \<and> source_file (hd es) \<in> reach (targets deps) R)"
  using assms
proof (induction deps roots visited rule: cycle_roots.induct)
  case (2 deps root roots visited)
  show ?case
  proof (cases "root \<in> visited")
    case True
    from "2.IH"(1) [OF True "2.prems"(1,2)] "2.prems"(3) True show ?thesis by auto
  next
    case False
    have a: "active_ok [(root, 0)] [(root, 0)]" by (auto simp: active_ok_def)
    have "(\<exists>V. cycle_loop deps visited [(root, 0)] [] [(root, 0)] = Inr V \<and> finished deps V
        \<and> visited \<union> fst ` set [(root, 0::nat)] \<subseteq> V)
      \<or> (\<exists>es. cycle_loop deps visited [(root, 0)] [] [(root, 0)] = Inl (shown_cycle es)
        \<and> is_type_cycle deps es \<and> source_file (hd es) \<in> reach (targets deps) R)"
      by (rule cycle_loop_result [OF "2.prems"(1) _ a "2.prems"(2)])
        (use False "2.prems"(3) reach_base [of R "targets deps"] in auto)
    then show ?thesis
    proof (elim disjE exE conjE)
      fix V assume V: "cycle_loop deps visited [(root, 0)] [] [(root, 0)] = Inr V" "finished deps V"
        "visited \<union> fst ` set [(root, 0::nat)] \<subseteq> V"
      have step: "cycle_roots deps (root # roots) visited = cycle_roots deps roots V"
        using False V(1) by simp
      from "2.IH"(2) [OF False V(1) "2.prems"(1) V(2)] "2.prems"(3)
      have "(\<exists>W. cycle_roots deps roots V = Inr W \<and> finished deps W \<and> V \<union> set roots \<subseteq> W)
        \<or> (\<exists>es. cycle_roots deps roots V = Inl (shown_cycle es)
          \<and> is_type_cycle deps es \<and> source_file (hd es) \<in> reach (targets deps) R)" by simp
      moreover have "visited \<union> set (root # roots) \<subseteq> W" if "V \<union> set roots \<subseteq> W" for W
        using that V(3) by auto
      ultimately show ?thesis unfolding step by blast
    next
      fix es assume "cycle_loop deps visited [(root, 0)] [] [(root, 0)] = Inl (shown_cycle es)"
        "is_type_cycle deps es" "source_file (hd es) \<in> reach (targets deps) R"
      then show ?thesis using False by auto
    qed
  qed
qed simp

lemma type_cycle_trancl:
  assumes "is_type_cycle deps es"
  shows "(source_file (hd es), source_file (hd es)) \<in> (edge_set (targets deps))\<^sup>+"
proof -
  have ne: "es \<noteq> []"
    and step: "\<And>j. j < length es \<Longrightarrow>
      (source_file (es ! j), source_file (es ! (Suc j mod length es))) \<in> edge_set (targets deps)"
    using assms by (force simp: is_type_cycle_def edge_set_def targets_def)+
  have path: "j < length es \<Longrightarrow> (source_file (es ! 0), source_file (es ! j)) \<in> (edge_set (targets deps))\<^sup>*" for j
  proof (induction j)
    case (Suc j)
    then show ?case using step [of j] by (auto intro: rtrancl_into_rtrancl)
  qed simp
  have "(source_file (es ! (length es - 1)), source_file (es ! 0)) \<in> edge_set (targets deps)"
    using step [of "length es - 1"] ne by simp
  with path [of "length es - 1"] ne show ?thesis
    by (simp add: hd_conv_nth rtrancl_into_trancl1)
qed

section \<open>The dependencies of a set of files\<close>

definition depends_on :: "files \<Rightarrow> string \<Rightarrow> string \<Rightarrow> bool" where
  \<comment> \<open>a field of a message of the first file has a type the second one declares\<close>
  "depends_on files a b \<longleftrightarrow> a \<noteq> b
     \<and> (\<exists>r\<in>set (case map_of files a of None \<Rightarrow> [] | Some file \<Rightarrow> referenced_types file).
          map_of (index_declared_types (map snd files)) (normalize_type_name (type_name r)) = Some b)"

lemma file_edges_in:
  "e \<in> set (file_edges d n file) \<longleftrightarrow>
     source_file e = n \<and> target_file e \<noteq> n \<and> reference e \<in> set (referenced_types file)
     \<and> map_of d (normalize_type_name (type_name (reference e))) = Some (target_file e)"
proof -
  have mf: "y \<in> set (List.map_filter f xs) \<longleftrightarrow> (\<exists>x\<in>set xs. f x = Some y)"
    for y :: FileTypeDependency and f and xs :: "TypeReference list"
    by (induction xs) (auto simp: List.map_filter_simps split: option.split)
  show ?thesis unfolding file_edges_def mf
    by (cases e) (auto split: option.splits if_splits)
qed

lemma map_of_filter_pairs:
  "distinct (map fst xs) \<Longrightarrow>
     map_of (map (\<lambda>(n, x). (n, g x)) (filter (\<lambda>(_, x). P x) (map (\<lambda>(n, x). (n, f n x)) xs))) a =
       (case map_of xs a of None \<Rightarrow> None | Some x \<Rightarrow> if P (f a x) then Some (g (f a x)) else None)"
proof (induction xs)
  case (Cons p xs)
  obtain n x where p: "p = (n, x)" by (cases p)
  have "n = a \<Longrightarrow> map_of xs a = None" using Cons.prems p by (simp add: map_of_eq_None_iff)
  then show ?case using Cons p by auto
qed simp

lemma dependencies_get:
  assumes "distinct (map fst files)"
  shows "set (dict_get (file_type_dependencies files) a) =
    (case map_of files a of None \<Rightarrow> {}
     | Some file \<Rightarrow> set (file_edges (index_declared_types (map snd files)) a file))"
proof -
  define d where "d = index_declared_types (map snd files)"
  have "file_type_dependencies files =
      map (\<lambda>(n, es). (n, sort_key edge_key es))
        (filter (\<lambda>(_, es). es \<noteq> []) (map (\<lambda>(n, file). (n, file_edges d n file)) files))"
    by (simp add: file_type_dependencies_def Let_def d_def)
  then have "map_of (file_type_dependencies files) a =
      (case map_of files a of None \<Rightarrow> None
       | Some file \<Rightarrow> if file_edges d a file \<noteq> [] then Some (sort_key edge_key (file_edges d a file)) else None)"
    using map_of_filter_pairs [OF assms, of "sort_key edge_key" "\<lambda>es. es \<noteq> []" "file_edges d" a] by simp
  then show ?thesis by (simp add: dict_get_def d_def split: option.split)
qed

lemma edge_set_dependencies:
  assumes "distinct (map fst files)"
  shows "edge_set (targets (file_type_dependencies files)) = {(a, b). depends_on files a b}"
proof -
  have "b \<in> set (targets (file_type_dependencies files) a) \<longleftrightarrow> depends_on files a b" for a b
  proof (cases "map_of files a")
    case (Some fd)
    have "b \<in> target_file ` set (file_edges d a fd) \<longleftrightarrow>
        a \<noteq> b \<and> (\<exists>r\<in>set (referenced_types fd). map_of d (normalize_type_name (type_name r)) = Some b)" for d
    proof
      assume "a \<noteq> b \<and> (\<exists>r\<in>set (referenced_types fd). map_of d (normalize_type_name (type_name r)) = Some b)"
      then obtain r where "a \<noteq> b" "r \<in> set (referenced_types fd)"
        "map_of d (normalize_type_name (type_name r)) = Some b" by blast
      then have "\<lparr>source_file = a, target_file = b, reference = r\<rparr> \<in> set (file_edges d a fd)"
        by (simp add: file_edges_in)
      then show "b \<in> target_file ` set (file_edges d a fd)" by (force intro: rev_image_eqI)
    qed (auto simp: file_edges_in)
    then show ?thesis using Some dependencies_get [OF assms, of a]
      by (simp add: targets_def depends_on_def)
  qed (use dependencies_get [OF assms, of a] in \<open>simp add: targets_def depends_on_def\<close>)
  then show ?thesis by (auto simp: edge_set_def)
qed

lemma edges_from_dependencies:
  "distinct (map fst files) \<Longrightarrow> edges_from (file_type_dependencies files)"
  by (auto simp: edges_from_def dependencies_get file_edges_in split: option.splits)

text \<open>Two files whose messages refer to each other, and one that refers to itself.\<close>

definition ref_field :: "string \<Rightarrow> string \<Rightarrow> FieldDescriptorProto" where
  "ref_field n t = (plain_field n 1 TYPE_MESSAGE)\<lparr>ftype_name := t\<rparr>"

definition cyclic_files :: files where
  "cyclic_files = map (\<lambda>f. (file_name f, f))
     [plain_file ''a'' [''b''] [plain_message ''A'' [ref_field ''b'' ''.p.B'']],
      plain_file ''b'' [] [plain_message ''B'' [ref_field ''a'' ''.p.A'']],
      plain_file ''c'' [] [plain_message ''C'' [ref_field ''c'' ''.p.C'']]]"

lemma type_cycles_iff:
  assumes "distinct (map fst files)"
  shows "(validate_no_cross_file_type_cycles files roots = Inr () \<longleftrightarrow>
      (\<forall>r\<in>set roots. \<forall>a. (r, a) \<in> {(a, b). depends_on files a b}\<^sup>* \<longrightarrow>
         (a, a) \<notin> {(a, b). depends_on files a b}\<^sup>+))
    \<and> (\<forall>e. validate_no_cross_file_type_cycles files roots = Inl e \<longrightarrow>
        (\<exists>es. e = shown_cycle es \<and> is_type_cycle (file_type_dependencies files) es
          \<and> (\<exists>r\<in>set roots. (r, source_file (hd es)) \<in> {(a, b). depends_on files a b}\<^sup>*)))"
proof -
  let ?d = "file_type_dependencies files"
  let ?E = "{(a, b). depends_on files a b}"
  have E: "edge_set (targets ?d) = ?E" by (rule edge_set_dependencies [OF assms])
  have in_reach: "x \<in> reach (targets ?d) (set roots) \<longleftrightarrow> (\<exists>r\<in>set roots. (r, x) \<in> ?E\<^sup>*)" for x
    by (auto simp: reach_def E)
  have "finished ?d {}" by (simp add: finished_def)
  from cycle_roots_result [OF edges_from_dependencies [OF assms] this subset_refl, of roots]
  show ?thesis
  proof (elim disjE exE conjE)
    fix V assume V: "cycle_roots ?d roots {} = Inr V" "finished ?d V" "{} \<union> set roots \<subseteq> V"
    have "reach (targets ?d) (set roots) \<subseteq> V"
      using V(2,3) by (intro reach_least) (auto simp: finished_def)
    then have "\<forall>r\<in>set roots. \<forall>a. (r, a) \<in> ?E\<^sup>* \<longrightarrow> (a, a) \<notin> ?E\<^sup>+"
      using V(2) in_reach unfolding finished_def E by blast
    then show ?thesis using V(1) by (simp add: validate_no_cross_file_type_cycles_def)
  next
    fix es assume es: "cycle_roots ?d roots {} = Inl (shown_cycle es)" "is_type_cycle ?d es"
      "source_file (hd es) \<in> reach (targets ?d) (set roots)"
    then show ?thesis
      using type_cycle_trancl [OF es(2)] in_reach [of "source_file (hd es)"]
      by (auto simp: validate_no_cross_file_type_cycles_def E)
  qed
qed

text \<open>
  C10: The header cycle check accepts a selection exactly when no file reachable from it along type
  references between different files lies on a cycle of such references, and every rejection
  reports a real cycle: its edges are type references of the files, each leads to the file the
  next one starts from, the last one back to the first, and the first file is reachable from the
  selection. Of a cycle longer than 32 the first 31 edges and the closing one are shown.
\<close>
theorem type_cycles_found:
  assumes "distinct (map fst files)"
  shows "(validate_no_cross_file_type_cycles files roots = Inr () \<longleftrightarrow>
      (\<forall>r\<in>set roots. \<forall>a. (r, a) \<in> {(a, b). depends_on files a b}\<^sup>* \<longrightarrow>
         (a, a) \<notin> {(a, b). depends_on files a b}\<^sup>+))
    \<and> (\<forall>e. validate_no_cross_file_type_cycles files roots = Inl e \<longrightarrow>
        (\<exists>es. e = shown_cycle es \<and> is_type_cycle (file_type_dependencies files) es
          \<and> (\<exists>r\<in>set roots. (r, source_file (hd es)) \<in> {(a, b). depends_on files a b}\<^sup>*)))"
  using type_cycles_iff [OF assms] .

theorem type_cycles_found_witness:
  "distinct (map fst cyclic_files)
   \<and> validate_no_cross_file_type_cycles cyclic_files [''c''] = Inr ()
   \<and> (\<exists>r\<in>set [''a'']. \<exists>a. (r, a) \<in> {(a, b). depends_on cyclic_files a b}\<^sup>*
         \<and> (a, a) \<in> {(a, b). depends_on cyclic_files a b}\<^sup>+)"
proof -
  have d: "distinct (map fst cyclic_files)" by code_simp
  have ok: "validate_no_cross_file_type_cycles cyclic_files [''c''] = Inr ()" by code_simp
  have "validate_no_cross_file_type_cycles cyclic_files [''a''] \<noteq> Inr ()" by code_simp
  with type_cycles_found [OF d, of "[''a'']"] d ok show ?thesis by blast
qed

end
