(* ===== verification/CustomOptions.thy ===== *)
theory CustomOptions
  imports ImportGraph
begin

text \<open>
  Files that only define custom options need no generated header
  (\<^verbatim>\<open>_is_pure_custom_option_definition\<close> of \<^verbatim>\<open>src/protocyte/descriptor_set.py\<close> and its helpers).
  A type is a helper of the options when one of a set of root names covers it. The roots grow from
  the types of the extensions to the declared types those refer to; the order in which the source
  lists its set of roots is the order of the list the model starts from.
\<close>

section \<open>Helper roots\<close>

definition is_extension_helper_type :: "string \<Rightarrow> string set \<Rightarrow> bool" where
  "is_extension_helper_type t roots = (\<exists>root\<in>roots. t = root \<or> startswith t (root @ ''.''))"

type_synonym message_index = "(string, DescriptorProto) dict"

fun index_message_type :: "string list \<Rightarrow> DescriptorProto \<Rightarrow> message_index \<Rightarrow> message_index" where
  "index_message_type pre (Message m nested) declared =
     fold (index_message_type (pre @ [mname m])) nested
       (dict_set declared (fully_qualified_name (pre @ [mname m])) (Message m nested))"

definition index_declared_message_types :: "FileDescriptorProto \<Rightarrow> message_index" where
  "index_declared_message_types file =
     fold (index_message_type (package_parts file)) (message_type file) []"

definition message_direct_referenced_type_names :: "DescriptorProto \<Rightarrow> string list" where
  "message_direct_referenced_type_names m =
     filter (\<lambda>t. t \<noteq> []) (map ftype_name (mfields (msg_data m)))"

definition referenced_below :: "message_index \<Rightarrow> string \<Rightarrow> string list" where
  \<comment> \<open>the type names the messages covered by one root refer to, in the order of the loops\<close>
  "referenced_below messages root =
     concat (map (\<lambda>(t, m).
       if is_extension_helper_type t {root}
       then map normalize_type_name (message_direct_referenced_type_names m) else []) messages)"

definition add_helper_root ::
  "string set \<Rightarrow> string \<Rightarrow> string list \<times> string set \<Rightarrow> string list \<times> string set" where
  "add_helper_root declared t = (\<lambda>(stack, roots).
     if t \<in> declared \<and> \<not> is_extension_helper_type t roots
     then (t # stack, insert t roots) else (stack, roots))"

definition add_helper_roots ::
  "message_index \<Rightarrow> string set \<Rightarrow> string \<Rightarrow> string list \<times> string set \<Rightarrow> string list \<times> string set" where
  "add_helper_roots messages declared root =
     fold (add_helper_root declared) (referenced_below messages root)"

lemma helper_self: "t \<in> roots \<Longrightarrow> is_extension_helper_type t roots"
  by (auto simp: is_extension_helper_type_def)

lemma helper_mono: "is_extension_helper_type t roots \<Longrightarrow> roots \<subseteq> roots' \<Longrightarrow> is_extension_helper_type t roots'"
  by (auto simp: is_extension_helper_type_def)

lemma helper_trans:
  assumes "is_extension_helper_type t roots" "\<forall>r\<in>roots. is_extension_helper_type r roots'"
  shows "is_extension_helper_type t roots'"
proof -
  from assms(1) obtain r where r: "r \<in> roots" "t = r \<or> startswith t (r @ ''.'')"
    by (auto simp: is_extension_helper_type_def)
  with assms(2) obtain s where s: "s \<in> roots'" "r = s \<or> startswith r (s @ ''.'')"
    by (auto simp: is_extension_helper_type_def)
  have "t = s \<or> startswith t (s @ ''.'')" using r(2) s(2) by (auto simp: startswith_iff)
  with s(1) show ?thesis by (auto simp: is_extension_helper_type_def)
qed

lemma add_helper_roots_fold:
  assumes "fold (add_helper_root declared) ts (stack, roots) = (stack', roots')"
  shows "roots \<subseteq> roots'" and "set stack' = set stack \<union> (roots' - roots)"
    and "length stack' = length stack + card (roots' - roots)"
    and "finite (roots' - roots)" and "roots' - roots \<subseteq> declared \<inter> set ts"
    and "\<forall>t\<in>set ts \<inter> declared. is_extension_helper_type t roots'"
proof -
  have "roots \<subseteq> roots' \<and> set stack' = set stack \<union> (roots' - roots)
      \<and> length stack' = length stack + card (roots' - roots) \<and> finite (roots' - roots)
      \<and> roots' - roots \<subseteq> declared \<inter> set ts
      \<and> (\<forall>t\<in>set ts \<inter> declared. is_extension_helper_type t roots')"
    using assms
  proof (induction ts arbitrary: stack roots)
    case (Cons t ts)
    show ?case
    proof (cases "t \<in> declared \<and> \<not> is_extension_helper_type t roots")
      case True
      then have t: "t \<notin> roots" "t \<in> declared" using helper_self by blast+
      have "fold (add_helper_root declared) ts (t # stack, insert t roots) = (stack', roots')"
        using Cons.prems True by (simp add: add_helper_root_def [of declared t])
      from Cons.IH [OF this] have ih: "insert t roots \<subseteq> roots'"
        "set stack' = set (t # stack) \<union> (roots' - insert t roots)"
        "length stack' = length (t # stack) + card (roots' - insert t roots)"
        "finite (roots' - insert t roots)" "roots' - insert t roots \<subseteq> declared \<inter> set ts"
        "\<forall>t\<in>set ts \<inter> declared. is_extension_helper_type t roots'" by - (elim conjE, assumption)+
      have diff: "roots' - roots = insert t (roots' - insert t roots)" using ih(1) t by auto
      have "card (insert t (roots' - insert t roots)) = Suc (card (roots' - insert t roots))"
        by (rule card_insert_disjoint [OF ih(4)]) simp
      then have "card (roots' - roots) = Suc (card (roots' - insert t roots))" by (simp only: diff)
      then have "length stack' = length stack + card (roots' - roots)" using ih(3) by simp
      moreover have "is_extension_helper_type t roots'" using ih(1) helper_self by blast
      then have "\<forall>t\<in>set (t # ts) \<inter> declared. is_extension_helper_type t roots'" using ih(6) by auto
      moreover have "set stack' = set stack \<union> (roots' - roots)" using ih(2) unfolding diff by auto
      moreover have "roots \<subseteq> roots'" "finite (roots' - roots)" "roots' - roots \<subseteq> declared \<inter> set (t # ts)"
        using ih(1,4,5) t(2) unfolding diff by auto
      ultimately show ?thesis by blast
    next
      case False
      have "fold (add_helper_root declared) ts (stack, roots) = (stack', roots')"
        using Cons.prems False by (simp add: add_helper_root_def [of declared t] del: not_not)
      from Cons.IH [OF this] have ih: "roots \<subseteq> roots'" "set stack' = set stack \<union> (roots' - roots)"
        "length stack' = length stack + card (roots' - roots)" "finite (roots' - roots)"
        "roots' - roots \<subseteq> declared \<inter> set ts"
        "\<forall>t\<in>set ts \<inter> declared. is_extension_helper_type t roots'" by - (elim conjE, assumption)+
      have "t \<in> declared \<Longrightarrow> is_extension_helper_type t roots'" using False helper_mono ih(1) by blast
      then have "\<forall>t\<in>set (t # ts) \<inter> declared. is_extension_helper_type t roots'" using ih(6) by auto
      moreover have "roots' - roots \<subseteq> declared \<inter> set (t # ts)" using ih(5) by auto
      ultimately show ?thesis using ih(1-4) by blast
    qed
  qed simp
  then show "roots \<subseteq> roots'" "set stack' = set stack \<union> (roots' - roots)"
    "length stack' = length stack + card (roots' - roots)" "finite (roots' - roots)"
    "roots' - roots \<subseteq> declared \<inter> set ts"
    "\<forall>t\<in>set ts \<inter> declared. is_extension_helper_type t roots'" by - (elim conjE, assumption)+
qed

function expand_helper_roots ::
  "message_index \<Rightarrow> string list \<Rightarrow> string list \<Rightarrow> string set \<Rightarrow> string set" where
  "expand_helper_roots messages declared [] roots = roots"
| "expand_helper_roots messages declared (root # stack) roots =
     (case add_helper_roots messages (set declared) root (stack, roots) of
        (stack', roots') \<Rightarrow> expand_helper_roots messages declared stack' roots')"
  by pat_completeness auto
termination
proof (relation "measures [\<lambda>(_, d, _, r). card (set d - r), \<lambda>(_, _, s, _). length s]")
  fix messages :: message_index and declared root stack roots stack' roots'
  assume "(stack', roots') = add_helper_roots messages (set declared) root (stack, roots)"
  then have f: "fold (add_helper_root (set declared)) (referenced_below messages root) (stack, roots)
      = (stack', roots')" by (simp add: add_helper_roots_def)
  note facts = add_helper_roots_fold [OF f]
  show "((messages, declared, stack', roots'), (messages, declared, root # stack, roots))
      \<in> measures [\<lambda>(_, d, _, r). card (set d - r), \<lambda>(_, _, s, _). length s]"
  proof (cases "roots' = roots")
    case True
    then show ?thesis using facts(3) by simp
  next
    case False
    then obtain t where "t \<in> roots' - roots" using facts(1) by auto
    then have "set declared - roots' \<subset> set declared - roots" using facts(1,5) by auto
    then show ?thesis by (simp add: psubset_card_mono)
  qed
qed simp

section \<open>Namespaces\<close>

definition is_namespace_only_custom_option_scope ::
  "string \<Rightarrow> DescriptorProto \<Rightarrow> string set \<Rightarrow> string set \<Rightarrow> bool" where
  "is_namespace_only_custom_option_scope t message roots namespaces =
     (let m = msg_data message;
          children = map (\<lambda>n. t @ ''.'' @ msg_name n) (nested_type message)
                     @ map (\<lambda>e. t @ ''.'' @ ename e) (menums m)
      in if mfields m \<noteq> [] \<or> moneofs m \<noteq> [] \<or> mextension_range m \<noteq> []
            \<or> mreserved_range m \<noteq> [] \<or> mreserved_name m \<noteq> [] then False
         else if list_ex (\<lambda>c. \<not> is_extension_helper_type c roots \<and> c \<notin> namespaces) children then False
         else mextensions m \<noteq> [] \<or> children \<noteq> [])"

definition namespace_visit ::
  "string set \<Rightarrow> string \<times> DescriptorProto \<Rightarrow> string set \<times> bool \<Rightarrow> string set \<times> bool" where
  "namespace_visit roots = (\<lambda>(t, m) (namespaces, changed).
     if t \<in> namespaces \<or> is_extension_helper_type t roots then (namespaces, changed)
     else if is_namespace_only_custom_option_scope t m roots namespaces
       then (insert t namespaces, True)
     else (namespaces, changed))"

definition namespace_pass :: "message_index \<Rightarrow> string set \<Rightarrow> string set \<Rightarrow> string set \<times> bool" where
  "namespace_pass messages roots namespaces = fold (namespace_visit roots) messages (namespaces, False)"

lemma namespace_pass_fold:
  assumes "fold (namespace_visit roots) ms (ns, c) = (ns', c')"
  shows "ns \<subseteq> ns' \<and> ns' \<subseteq> ns \<union> fst ` set ms \<and> (c \<longrightarrow> c') \<and> (c' \<longrightarrow> c \<or> ns' \<noteq> ns) \<and> (ns' \<noteq> ns \<longrightarrow> c')"
  using assms
proof (induction ms arbitrary: ns c)
  case (Cons p ms)
  obtain t m where p: "p = (t, m)" by (cases p)
  let ?new = "\<not> (t \<in> ns \<or> is_extension_helper_type t roots)
    \<and> is_namespace_only_custom_option_scope t m roots ns"
  show ?case
  proof (cases ?new)
    case True
    have "fold (namespace_visit roots) ms (insert t ns, True) = (ns', c')"
      using Cons.prems True by (simp add: p namespace_visit_def [of roots])
    from Cons.IH [OF this] show ?thesis using True by (auto simp: p)
  next
    case False
    then have "namespace_visit roots (t, m) (ns, c) = (ns, c)" by (auto simp: namespace_visit_def)
    then have "fold (namespace_visit roots) ms (ns, c) = (ns', c')" using Cons.prems by (simp add: p)
    from Cons.IH [OF this] show ?thesis by (auto simp: p)
  qed
qed simp

function namespace_loop :: "message_index \<Rightarrow> string set \<Rightarrow> string set \<Rightarrow> string set" where
  "namespace_loop messages roots namespaces =
     (case namespace_pass messages roots namespaces of
        (namespaces', changed) \<Rightarrow>
          if changed then namespace_loop messages roots namespaces' else namespaces')"
  by pat_completeness auto
termination
proof (relation "measure (\<lambda>(messages, roots, ns). card (fst ` set messages - ns))")
  fix messages :: message_index and roots ns ns' and changed :: bool
  assume "(ns', changed) = namespace_pass messages roots ns" changed
  then have "fold (namespace_visit roots) messages (ns, False) = (ns', changed)"
    by (simp add: namespace_pass_def)
  from namespace_pass_fold [OF this] \<open>changed\<close>
  have "ns \<subseteq> ns'" "ns' \<subseteq> ns \<union> fst ` set messages" "ns' \<noteq> ns" by auto
  then have "fst ` set messages - ns' \<subset> fst ` set messages - ns" by blast
  then show "((messages, roots, ns'), (messages, roots, ns))
      \<in> measure (\<lambda>(messages, roots, ns). card (fst ` set messages - ns))"
    by (simp add: psubset_card_mono)
qed simp

declare namespace_loop.simps [simp del]

definition add_namespace_container_roots :: "message_index \<Rightarrow> string set \<Rightarrow> string set" where
  "add_namespace_container_roots messages roots = roots \<union> namespace_loop messages roots {}"

section \<open>Pure custom option files\<close>

definition extension_roots :: "FieldDescriptorProto list \<Rightarrow> string list" where
  "extension_roots xs = map (\<lambda>x. normalize_type_name (ftype_name x)) (filter (\<lambda>x. ftype_name x \<noteq> []) xs)"

definition custom_option_helper_roots ::
  "(string set \<Rightarrow> string list) \<Rightarrow> FileDescriptorProto \<Rightarrow> FieldDescriptorProto list \<Rightarrow> string list \<Rightarrow> string set" where
  \<comment> \<open>the first argument is the order in which a set is listed\<close>
  "custom_option_helper_roots listing file xs declared =
     (let roots = set (extension_roots xs);
          messages = index_declared_message_types file
      in add_namespace_container_roots messages
           (expand_helper_roots messages declared (listing roots) roots))"

definition is_pure_custom_option_definition ::
  "(string set \<Rightarrow> string list) \<Rightarrow> FileDescriptorProto \<Rightarrow> bool" where
  "is_pure_custom_option_definition listing file =
     (let xs = map fst (extension_declarations file)
      in if xs = [] \<or> list_ex (\<lambda>x. \<not> is_custom_option_extension x) xs \<or> service file \<noteq> [] then False
         else let declared = declared_type_names file;
                  roots = custom_option_helper_roots listing file xs declared
              in list_all (\<lambda>t. is_extension_helper_type t roots) declared)"


section \<open>The order of the roots does not matter\<close>

definition closed_below :: "message_index \<Rightarrow> string set \<Rightarrow> string set \<Rightarrow> bool" where
  \<comment> \<open>a covered message refers, among the declared types, to covered ones only\<close>
  "closed_below messages declared roots \<longleftrightarrow>
     (\<forall>(t, m)\<in>set messages. is_extension_helper_type t roots \<longrightarrow>
        (\<forall>n\<in>set (message_direct_referenced_type_names m).
           normalize_type_name n \<in> declared \<longrightarrow> is_extension_helper_type (normalize_type_name n) roots))"

lemma in_referenced_below:
  "x \<in> set (referenced_below messages root) \<longleftrightarrow>
     (\<exists>(t, m)\<in>set messages. is_extension_helper_type t {root}
        \<and> (\<exists>n\<in>set (message_direct_referenced_type_names m). x = normalize_type_name n))"
  by (auto simp: referenced_below_def)

lemma closed_below_iff:
  "closed_below messages declared roots \<longleftrightarrow>
     (\<forall>root\<in>roots. \<forall>x\<in>set (referenced_below messages root) \<inter> declared. is_extension_helper_type x roots)"
proof -
  have split: "is_extension_helper_type t roots \<longleftrightarrow> (\<exists>root\<in>roots. is_extension_helper_type t {root})" for t
    by (auto simp: is_extension_helper_type_def)
  show ?thesis unfolding closed_below_def by (subst split) (fastforce simp: in_referenced_below)
qed

lemma referenced_below_covered:
  assumes "closed_below messages declared S" "is_extension_helper_type root S"
    and "x \<in> set (referenced_below messages root)" "x \<in> declared"
  shows "is_extension_helper_type x S"
proof -
  from assms(3) obtain t m n where tm: "(t, m) \<in> set messages" "is_extension_helper_type t {root}"
    "n \<in> set (message_direct_referenced_type_names m)" "x = normalize_type_name n"
    by (auto simp: in_referenced_below)
  have "is_extension_helper_type t S" by (rule helper_trans [OF tm(2)]) (use assms(2) in simp)
  then show ?thesis using assms(1,4) tm by (auto simp: closed_below_def)
qed

lemma expand_helper_roots_result:
  assumes "set stack \<subseteq> roots"
    and "\<forall>root\<in>roots - set stack. \<forall>x\<in>set (referenced_below messages root) \<inter> set declared.
      is_extension_helper_type x roots"
  shows "roots \<subseteq> expand_helper_roots messages declared stack roots
    \<and> closed_below messages (set declared) (expand_helper_roots messages declared stack roots)
    \<and> (\<forall>S. closed_below messages (set declared) S \<and> (\<forall>r\<in>roots. is_extension_helper_type r S) \<longrightarrow>
         (\<forall>r\<in>expand_helper_roots messages declared stack roots. is_extension_helper_type r S))"
  using assms
proof (induction messages declared stack roots rule: expand_helper_roots.induct)
  case (1 messages declared roots)
  then show ?case by (simp add: closed_below_iff)
next
  case (2 messages declared root stack roots)
  obtain stack' roots' where st: "add_helper_roots messages (set declared) root (stack, roots) = (stack', roots')"
    by (cases "add_helper_roots messages (set declared) root (stack, roots)")
  then have f: "fold (add_helper_root (set declared)) (referenced_below messages root) (stack, roots)
      = (stack', roots')" by (simp add: add_helper_roots_def)
  note facts = add_helper_roots_fold [OF f]
  have 1: "set stack' \<subseteq> roots'" using facts(1,2) "2.prems"(1) by auto
  have 2: "\<forall>r\<in>roots' - set stack'. \<forall>x\<in>set (referenced_below messages r) \<inter> set declared.
      is_extension_helper_type x roots'"
  proof (intro ballI)
    fix r x assume r: "r \<in> roots' - set stack'" and x: "x \<in> set (referenced_below messages r) \<inter> set declared"
    show "is_extension_helper_type x roots'"
    proof (cases "r = root")
      case True
      with x facts(6) show ?thesis by blast
    next
      case False
      with r facts(1,2) have "r \<in> roots - set (root # stack)" by auto
      with "2.prems"(2) x have "is_extension_helper_type x roots" by blast
      with facts(1) show ?thesis by (rule helper_mono [rotated])
    qed
  qed
  have least: "\<forall>r\<in>roots'. is_extension_helper_type r S"
    if S: "closed_below messages (set declared) S" "\<forall>r\<in>roots. is_extension_helper_type r S" for S
  proof
    fix r assume "r \<in> roots'"
    then consider "r \<in> roots" | "r \<in> set (referenced_below messages root)" "r \<in> set declared"
      using facts(5) by blast
    then show "is_extension_helper_type r S"
    proof cases
      case 2
      have "is_extension_helper_type root S" using S(2) "2.prems"(1) by auto
      from referenced_below_covered [OF S(1) this 2] show ?thesis .
    qed (use S(2) in blast)
  qed
  have step: "expand_helper_roots messages declared (root # stack) roots
      = expand_helper_roots messages declared stack' roots'" by (simp add: st)
  from "2.IH" [OF st [symmetric] 1 2] facts(1) least show ?case unfolding step by blast
qed

definition same_coverage :: "string set \<Rightarrow> string set \<Rightarrow> bool" where
  "same_coverage R S \<longleftrightarrow> (\<forall>t. is_extension_helper_type t R \<longleftrightarrow> is_extension_helper_type t S)"

lemma expand_same_coverage:
  assumes "set xs = roots" "set ys = roots"
  shows "same_coverage (expand_helper_roots messages declared xs roots)
    (expand_helper_roots messages declared ys roots)"
proof -
  have half: "is_extension_helper_type t (expand_helper_roots messages declared ys roots)"
    if "set xs = roots" "set ys = roots"
      and t: "is_extension_helper_type t (expand_helper_roots messages declared xs roots)" for xs ys t
  proof -
    have x: "set xs \<subseteq> roots" "\<forall>root\<in>roots - set xs. \<forall>x\<in>set (referenced_below messages root) \<inter> set declared.
        is_extension_helper_type x roots" using that by auto
    have y: "set ys \<subseteq> roots" "\<forall>root\<in>roots - set ys. \<forall>x\<in>set (referenced_below messages root) \<inter> set declared.
        is_extension_helper_type x roots" using that by auto
    note ry = expand_helper_roots_result [OF y]
    have "\<forall>r\<in>roots. is_extension_helper_type r (expand_helper_roots messages declared ys roots)"
      using ry helper_self by blast
    then have "\<forall>r\<in>expand_helper_roots messages declared xs roots.
        is_extension_helper_type r (expand_helper_roots messages declared ys roots)"
      using expand_helper_roots_result [OF x] ry by blast
    then show ?thesis by (rule helper_trans [OF t])
  qed
  show ?thesis using half [of xs ys] half [of ys xs] assms by (auto simp: same_coverage_def)
qed

lemma namespace_pass_same_coverage:
  assumes "same_coverage R S"
  shows "namespace_pass messages R ns = namespace_pass messages S ns"
proof -
  have "namespace_visit R = namespace_visit S"
    using assms by (auto simp: fun_eq_iff namespace_visit_def is_namespace_only_custom_option_scope_def
        same_coverage_def Let_def)
  then show ?thesis by (simp add: namespace_pass_def)
qed

lemma namespace_same_coverage:
  "same_coverage R S \<Longrightarrow> namespace_loop messages R ns = namespace_loop messages S ns"
proof (induction messages R ns rule: namespace_loop.induct)
  case (1 messages R ns)
  obtain ns' changed where p: "namespace_pass messages R ns = (ns', changed)"
    by (cases "namespace_pass messages R ns")
  then have "namespace_pass messages S ns = (ns', changed)"
    using namespace_pass_same_coverage [OF "1.prems"] by simp
  then show ?case
    using "1.IH" [OF p [symmetric]] "1.prems" p
    by (simp add: namespace_loop.simps [of messages R ns] namespace_loop.simps [of messages S ns])
qed

lemma same_coverage_Un:
  "same_coverage R S \<Longrightarrow> same_coverage (R \<union> N) (S \<union> N)"
  by (auto simp: same_coverage_def is_extension_helper_type_def)

text \<open>
  C19: Whether a file only defines custom options does not depend on the order in which the set of
  extension types is listed: Python's order of a set of strings changes from run to run, and for
  any two orders the helper roots cover the same types, so the same files are discovered.
\<close>
theorem pure_custom_options_order_independent:
  assumes "\<And>S. finite S \<Longrightarrow> set (l S) = S" and "\<And>S. finite S \<Longrightarrow> set (k S) = S"
  shows "is_pure_custom_option_definition l file = is_pure_custom_option_definition k file"
proof -
  let ?xs = "map fst (extension_declarations file)"
  let ?r = "set (extension_roots ?xs)"
  let ?d = "declared_type_names file"
  have "same_coverage (custom_option_helper_roots l file ?xs ?d) (custom_option_helper_roots k file ?xs ?d)"
  proof -
    have "same_coverage (expand_helper_roots (index_declared_message_types file) ?d (l ?r) ?r)
        (expand_helper_roots (index_declared_message_types file) ?d (k ?r) ?r)"
      by (rule expand_same_coverage) (use assms in simp_all)
    note same = this
    show ?thesis
      unfolding custom_option_helper_roots_def add_namespace_container_roots_def Let_def
        namespace_same_coverage [OF same] by (rule same_coverage_Un [OF same])
  qed
  then show ?thesis
    by (simp add: is_pure_custom_option_definition_def Let_def same_coverage_def)
qed

text \<open>A file with an extension of the field options whose type is a message of the file.\<close>

definition option_file :: FileDescriptorProto where
  "option_file = (plain_file ''o'' [] [plain_message ''Opt'' [plain_field ''x'' 1 TYPE_INT32]])
     \<lparr>extension := [(plain_field ''opt'' 50000 TYPE_MESSAGE)
        \<lparr>ftype_name := ''.p.Opt'', fextendee := ''.google.protobuf.FieldOptions''\<rparr>]\<rparr>"

theorem pure_custom_options_order_independent_witness:
  "is_pure_custom_option_definition sorted_list_of_set option_file
   \<and> is_pure_custom_option_definition (rev \<circ> sorted_list_of_set) option_file"
proof -
  have "is_pure_custom_option_definition sorted_list_of_set option_file
      = is_pure_custom_option_definition (rev \<circ> sorted_list_of_set) option_file"
    by (rule pure_custom_options_order_independent) simp_all
  moreover have "is_pure_custom_option_definition sorted_list_of_set option_file" by code_simp
  ultimately show ?thesis by simp
qed

end
