(* ===== verification/Capabilities.thy ===== *)
theory Capabilities
  imports TypeCycles CustomOptions
begin

text \<open>
  The entry points of \<^verbatim>\<open>src/protocyte/descriptor_set.py\<close>: \<open>validate_descriptor_set\<close>,
  \<open>validate_generation_capabilities\<close> and \<open>discover_files\<close>. An outcome is an option of a
  result because the diagnostic of an unsupported import walks predecessors in a loop;
  \<open>generation_capabilities_checked\<close> shows that the loop always ends.
\<close>

section \<open>Validation of a selection\<close>

definition select_file :: "files \<Rightarrow> string \<Rightarrow> descriptor_error + unit" where
  "select_file files name =
     rbind (validate_virtual_file_name name) (\<lambda>_.
       raise_if (map_of files name = None) (SelectedMissing name))"

definition validate_descriptor_set ::
  "FileDescriptorProto list \<Rightarrow> string list \<Rightarrow> descriptor_error + string list" where
  "validate_descriptor_set fs selected =
     rbind (index_files fs) (\<lambda>files.
     rbind (each (select_file files) selected) (\<lambda>_.
     rbind (validate_import_graph files selected) (\<lambda>_. Inr selected)))"

section \<open>Generation capabilities\<close>

definition lookup_file :: "files \<Rightarrow> string \<Rightarrow> descriptor_error + FileDescriptorProto" where
  "lookup_file files name =
     (case map_of files name of None \<Rightarrow> Inl (MissingKey name) | Some file \<Rightarrow> Inr file)"

definition check_target :: "files \<Rightarrow> string \<Rightarrow> descriptor_error + unit" where
  "check_target files name =
     rbind (lookup_file files name) (\<lambda>file.
       case capability_blocker file True of
         None \<Rightarrow> Inr ()
       | Some b \<Rightarrow> Inl (TargetBlocked name b))"

definition check_reserved :: "string \<Rightarrow> descriptor_error + unit" where
  "check_reserved name = raise_if (name \<in> set INTERNAL_DESCRIPTOR_FILES) (TargetReserved name)"

definition check_reference ::
  "files \<Rightarrow> (string, string) dict \<Rightarrow> string set \<Rightarrow> string \<Rightarrow> TypeReference \<Rightarrow> descriptor_error + unit" where
  "check_reference files type_files selected source r =
     (case map_of type_files (normalize_type_name (type_name r)) of
        None \<Rightarrow> Inr ()
      | Some target \<Rightarrow>
          if target \<in> selected then Inr ()
          else rbind (lookup_file files target) (\<lambda>file.
            case generated_header_blocker file of
              None \<Rightarrow> Inr ()
            | Some b \<Rightarrow> Inl (NonGeneratableReference source r target b)))"

definition check_references ::
  "files \<Rightarrow> (string, string) dict \<Rightarrow> string set \<Rightarrow> string \<Rightarrow> descriptor_error + unit" where
  "check_references files type_files selected name =
     rbind (lookup_file files name) (\<lambda>file.
       each (check_reference files type_files selected (file_name file)) (referenced_types file))"

fun check_imports ::
  "files \<Rightarrow> string set \<Rightarrow> predecessors \<Rightarrow> string list \<Rightarrow> (descriptor_error + unit) option" where
  "check_imports files selected preds [] = Some (Inr ())"
| "check_imports files selected preds (name # names) =
     (if name \<in> selected then check_imports files selected preds names
      else case lookup_file files name of
        Inl e \<Rightarrow> Some (Inl e)
      | Inr file \<Rightarrow>
          (case capability_blocker file False of
             None \<Rightarrow> check_imports files selected preds names
           | Some b \<Rightarrow>
               Option.bind (format_import_path name preds) (\<lambda>formatted.
               Option.bind (import_root preds name) (\<lambda>root.
                 Some (rbind formatted (\<lambda>(path, omitted).
                   rbind root (\<lambda>r. Inl (ImportBlocked r name path omitted b))))))))"

definition validate_generation_capabilities ::
  "files \<Rightarrow> string list \<Rightarrow> (descriptor_error + unit) option" where
  "validate_generation_capabilities files selected =
     (let type_files = index_declared_types (map snd files)
      in case import_closure_predecessors files selected of
           Inl e \<Rightarrow> Some (Inl e)
         | Inr preds \<Rightarrow>
             (case rbind (each (check_target files) selected) (\<lambda>_.
                   rbind (each check_reserved selected) (\<lambda>_.
                     each (check_references files type_files (set selected)) selected)) of
                Inl e \<Rightarrow> Some (Inl e)
              | Inr _ \<Rightarrow>
                  Option.bind (check_imports files (set selected) preds (map fst preds)) (\<lambda>out.
                    Some (rbind out (\<lambda>_. validate_no_cross_file_type_cycles files selected)))))"

section \<open>Discovery\<close>

definition RUNTIME_PREFIX :: string where
  "RUNTIME_PREFIX = ''google/protobuf/''"

definition is_referenced_type_discoverable :: "FileDescriptorProto \<Rightarrow> bool" where
  "is_referenced_type_discoverable file =
     (if file_name file \<in> set INTERNAL_DESCRIPTOR_FILES then False
      else list_all (\<lambda>(x, scope). \<not> (scope \<noteq> None \<and> \<not> is_custom_option_extension x))
             (extension_declarations file))"

definition is_initial_discoverable_target ::
  "(string set \<Rightarrow> string list) \<Rightarrow> FileDescriptorProto \<Rightarrow> bool" where
  "is_initial_discoverable_target listing file =
     (is_referenced_type_discoverable file \<and> \<not> is_pure_custom_option_definition listing file)"

definition discover_reference ::
  "files \<Rightarrow> (string, string) dict \<Rightarrow> string \<Rightarrow> TypeReference
   \<Rightarrow> string list \<times> string set \<Rightarrow> descriptor_error + string list \<times> string set" where
  "discover_reference files type_files source r = (\<lambda>(stack, selected).
     case map_of type_files (normalize_type_name (type_name r)) of
       None \<Rightarrow> Inr (stack, selected)
     | Some target \<Rightarrow>
         if target \<in> selected then Inr (stack, selected)
         else rbind (lookup_file files target) (\<lambda>file.
           case generated_header_blocker file of
             Some b \<Rightarrow> Inl (NonGeneratableReference source r target b)
           | None \<Rightarrow> Inr (target # stack, insert target selected)))"

lemma discover_reference_Inr:
  "discover_reference files d source r (stack, selected) = Inr (stack', selected') \<Longrightarrow>
     (stack' = stack \<and> selected' = selected
      \<and> (\<forall>t. map_of d (normalize_type_name (type_name r)) = Some t \<longrightarrow> t \<in> selected))
     \<or> (\<exists>t file. map_of d (normalize_type_name (type_name r)) = Some t \<and> t \<notin> selected
        \<and> map_of files t = Some file \<and> generated_header_blocker file = None
        \<and> stack' = t # stack \<and> selected' = insert t selected)"
  by (auto simp: discover_reference_def lookup_file_def split: option.splits if_splits)

lemma discover_references_Inr:
  assumes "rfold (discover_reference files d source) rs (stack, selected) = Inr (stack', selected')"
  shows "selected \<subseteq> selected' \<and> set stack' = set stack \<union> (selected' - selected)
    \<and> (selected' = selected \<longrightarrow> stack' = stack)
    \<and> selected' - selected \<subseteq> fst ` set files
    \<and> selected' - selected \<subseteq> {t. \<exists>r\<in>set rs. map_of d (normalize_type_name (type_name r)) = Some t}
    \<and> (\<forall>r\<in>set rs. \<forall>t. map_of d (normalize_type_name (type_name r)) = Some t \<longrightarrow> t \<in> selected')"
  using assms
proof (induction rs arbitrary: stack selected)
  case (Cons r rs)
  obtain st se where first: "discover_reference files d source r (stack, selected) = Inr (st, se)"
    and rest: "rfold (discover_reference files d source) rs (st, se) = Inr (stack', selected')"
    using Cons.prems by auto
  note ih = Cons.IH [OF rest]
  from discover_reference_Inr [OF first] show ?case
  proof (elim disjE exE conjE)
    assume "st = stack" "se = selected"
      "\<forall>t. map_of d (normalize_type_name (type_name r)) = Some t \<longrightarrow> t \<in> selected"
    then show ?thesis using ih by auto
  next
    fix t fd assume t: "map_of d (normalize_type_name (type_name r)) = Some t" "t \<notin> selected"
      "map_of files t = Some fd" "st = t # stack" "se = insert t selected"
    then have "t \<in> fst ` set files" by (force dest: map_of_SomeD)
    then show ?thesis using ih t by auto
  qed
qed simp

function discover_loop ::
  "files \<Rightarrow> (string, string) dict \<Rightarrow> string list \<Rightarrow> string set \<Rightarrow> descriptor_error + string set" where
  "discover_loop files type_files [] selected = Inr selected"
| "discover_loop files type_files (name # stack) selected =
     rbind (lookup_file files name) (\<lambda>file.
     rbind (rfold (discover_reference files type_files (file_name file)) (referenced_types file)
              (stack, selected))
       (\<lambda>(stack', selected'). discover_loop files type_files stack' selected'))"
  by pat_completeness auto
termination
proof (relation "measures [\<lambda>(f, _, _, sel). card (fst ` set f - sel), \<lambda>(_, _, st, _). length st]")
  fix files :: files and d name stack selected fd x stack' selected'
  assume "lookup_file files name = Inr fd"
    and x: "rfold (discover_reference files d (file_name fd)) (referenced_types fd) (stack, selected) = Inr x"
    and "(stack', selected') = x"
  then have "rfold (discover_reference files d (file_name fd)) (referenced_types fd) (stack, selected)
      = Inr (stack', selected')" by simp
  note facts = discover_references_Inr [OF this]
  show "((files, d, stack', selected'), (files, d, name # stack, selected))
      \<in> measures [\<lambda>(f, _, _, sel). card (fst ` set f - sel), \<lambda>(_, _, st, _). length st]"
  proof (cases "selected' = selected")
    case True
    then show ?thesis using facts by simp
  next
    case False
    then have "fst ` set files - selected' \<subset> fst ` set files - selected" using facts by auto
    then show ?thesis by (simp add: psubset_card_mono)
  qed
qed simp

definition discover_files ::
  "(string set \<Rightarrow> string list) \<Rightarrow> FileDescriptorProto list \<Rightarrow> (descriptor_error + string list) option" where
  "discover_files listing fs =
     (case index_files fs of
        Inl e \<Rightarrow> Some (Inl e)
      | Inr files \<Rightarrow>
          let initial = map fst (filter (\<lambda>(name, file).
                \<not> startswith name RUNTIME_PREFIX \<and> is_initial_discoverable_target listing file) files);
              type_files = index_declared_types (map snd files)
          in (case discover_loop files type_files (sorted_list_of_set (set initial)) (set initial) of
                Inl e \<Rightarrow> Some (Inl e)
              | Inr selected \<Rightarrow>
                  let selected_list = sorted_list_of_set selected
                  in (case validate_import_graph files selected_list of
                        Inl e \<Rightarrow> Some (Inl e)
                      | Inr _ \<Rightarrow>
                          Option.bind (validate_generation_capabilities files selected_list)
                            (\<lambda>out. Some (rbind out (\<lambda>_. Inr selected_list))))))"


section \<open>What a passed check means\<close>

lemma indexed_files:
  assumes "index_files fs = Inr files"
  shows "distinct (map fst files)" and "map snd files = fs"
    and "fst ` set files = file_name ` set fs"
    and "map_of files n = Some file \<Longrightarrow> file_name file = n"
  using assms by (auto simp: index_files_Inr comp_def image_image dest!: map_of_SomeD)

lemma indexed_present: "n \<in> fst ` set files \<Longrightarrow> \<exists>file. map_of files n = Some file"
  by (cases "map_of files n") (auto simp: map_of_eq_None_iff)

lemma type_target_present:
  assumes "index_files fs = Inr files"
    and "map_of (index_declared_types (map snd files)) t = Some target"
  shows "target \<in> fst ` set files"
  using index_declared_types_sound [OF assms(2)] indexed_files(2,3) [OF assms(1)] by auto

lemma check_imports_result:
  assumes "set names \<subseteq> fst ` set files"
    and "\<forall>n\<in>set names. (\<exists>r. import_root preds n = Some (Inr r))
      \<and> (\<exists>path omitted. format_import_path n preds = Some (Inr (path, omitted)))"
  shows "\<exists>out. check_imports files selected preds names = Some out
    \<and> (out = Inr () \<longleftrightarrow> (\<forall>n\<in>set names. n \<notin> selected \<longrightarrow>
         (\<forall>file. map_of files n = Some file \<longrightarrow> capability_blocker file False = None)))"
  using assms
proof (induction names)
  case (Cons n names)
  obtain fd where fd: "map_of files n = Some fd" using Cons.prems(1) indexed_present by fastforce
  obtain r path omitted where d: "import_root preds n = Some (Inr r)"
    "format_import_path n preds = Some (Inr (path, omitted))"
    using Cons.prems(2) by auto
  have ih: "\<exists>out. check_imports files selected preds names = Some out
    \<and> (out = Inr () \<longleftrightarrow> (\<forall>n\<in>set names. n \<notin> selected \<longrightarrow>
         (\<forall>file. map_of files n = Some file \<longrightarrow> capability_blocker file False = None)))"
    by (rule Cons.IH) (use Cons.prems in auto)
  show ?case
  proof (cases "n \<in> selected")
    case False
    then show ?thesis
      using ih fd d by (cases "capability_blocker fd False") (auto simp: lookup_file_def)
  qed (use ih in simp)
qed simp

lemma check_target_ok [simp]:
  "check_target files n = Inr () \<longleftrightarrow>
     (\<exists>file. map_of files n = Some file \<and> capability_blocker file True = None)"
  by (auto simp: check_target_def lookup_file_def split: option.splits)

lemma check_reference_ok:
  "check_reference files d selected source r = Inr () \<longleftrightarrow>
     (\<forall>t. map_of d (normalize_type_name (type_name r)) = Some t \<longrightarrow> t \<in> selected
        \<or> (\<exists>file. map_of files t = Some file \<and> generated_header_blocker file = None))"
  by (auto simp: check_reference_def lookup_file_def split: option.splits)

definition type_refs :: "files \<Rightarrow> string \<Rightarrow> string list" where
  \<comment> \<open>the files that declare the types a file refers to\<close>
  "type_refs files name =
     (case map_of files name of None \<Rightarrow> []
      | Some file \<Rightarrow> List.map_filter (\<lambda>r. map_of (index_declared_types (map snd files))
          (normalize_type_name (type_name r))) (referenced_types file))"

lemma check_references_ok:
  "check_references files (index_declared_types (map snd files)) selected n = Inr () \<longleftrightarrow>
     (\<exists>file. map_of files n = Some file)
     \<and> (\<forall>t\<in>set (type_refs files n). t \<in> selected
          \<or> (\<exists>file. map_of files t = Some file \<and> generated_header_blocker file = None))"
  by (cases "map_of files n")
    (auto simp: check_references_def lookup_file_def check_reference_ok type_refs_def map_filter_set)

definition capable :: "files \<Rightarrow> string list \<Rightarrow> bool" where
  \<comment> \<open>what generation needs of a selection\<close>
  "capable files selected \<longleftrightarrow>
     (\<forall>n\<in>set selected. n \<notin> set INTERNAL_DESCRIPTOR_FILES
        \<and> (\<forall>file. map_of files n = Some file \<longrightarrow> capability_blocker file True = None)
        \<and> (\<forall>t\<in>set (type_refs files n). t \<in> set selected
             \<or> (\<exists>file. map_of files t = Some file \<and> generated_header_blocker file = None)))
     \<and> (\<forall>n\<in>reach (present_imports files) (set selected) - set selected.
          \<forall>file. map_of files n = Some file \<longrightarrow> capability_blocker file False = None)
     \<and> (\<forall>r\<in>set selected. \<forall>a. (r, a) \<in> {(a, b). depends_on files a b}\<^sup>* \<longrightarrow>
          (a, a) \<notin> {(a, b). depends_on files a b}\<^sup>+)"

lemma capabilities_iff:
  assumes "index_files fs = Inr files" and "set selected \<subseteq> fst ` set files"
  shows "\<exists>out. validate_generation_capabilities files selected = Some out
    \<and> (out = Inr () \<longleftrightarrow> capable files selected)"
proof -
  let ?d = "index_declared_types (map snd files)"
  from predecessors_of_closure [OF assms(2)] obtain preds where
    p: "import_closure_predecessors files selected = Inr preds"
    and keys: "fst ` set preds = reach (present_imports files) (set selected)"
    and ends: "\<forall>n\<in>fst ` set preds. (\<exists>r\<in>set selected. import_root preds n = Some (Inr r))
      \<and> (\<exists>path omitted. format_import_path n preds = Some (Inr (path, omitted)))"
    by blast
  have sub: "reach (present_imports files) (set selected) \<subseteq> fst ` set files"
    by (rule reach_least [OF assms(2)]) (auto simp: present_imports_def map_of_eq_None_iff)
  obtain out where out: "check_imports files (set selected) preds (map fst preds) = Some out"
    and ok: "out = Inr () \<longleftrightarrow> (\<forall>n\<in>set (map fst preds). n \<notin> set selected \<longrightarrow>
       (\<forall>file. map_of files n = Some file \<longrightarrow> capability_blocker file False = None))"
  proof -
    have "\<exists>out. check_imports files (set selected) preds (map fst preds) = Some out
      \<and> (out = Inr () \<longleftrightarrow> (\<forall>n\<in>set (map fst preds). n \<notin> set selected \<longrightarrow>
           (\<forall>file. map_of files n = Some file \<longrightarrow> capability_blocker file False = None)))"
    proof (rule check_imports_result)
      show "set (map fst preds) \<subseteq> fst ` set files" using keys sub by simp
      show "\<forall>n\<in>set (map fst preds). (\<exists>r. import_root preds n = Some (Inr r))
          \<and> (\<exists>path omitted. format_import_path n preds = Some (Inr (path, omitted)))"
        using ends unfolding set_map by blast
    qed
    then show ?thesis using that by blast
  qed
  define first where "first = rbind (each (check_target files) selected) (\<lambda>_.
      rbind (each check_reserved selected) (\<lambda>_.
        each (check_references files ?d (set selected)) selected))"
  have first_ok: "first = Inr () \<longleftrightarrow> (\<forall>n\<in>set selected. n \<notin> set INTERNAL_DESCRIPTOR_FILES
      \<and> (\<forall>file. map_of files n = Some file \<longrightarrow> capability_blocker file True = None)
      \<and> (\<forall>t\<in>set (type_refs files n). t \<in> set selected
           \<or> (\<exists>file. map_of files t = Some file \<and> generated_header_blocker file = None)))"
  proof -
    have parts: "first = Inr () \<longleftrightarrow> (\<forall>n\<in>set selected. check_reserved n = Inr ()
        \<and> check_target files n = Inr () \<and> check_references files ?d (set selected) n = Inr ())"
      by (auto simp: first_def simp del: check_target_ok)
    have each_name: "(check_reserved n = Inr () \<and> check_target files n = Inr ()
          \<and> check_references files ?d (set selected) n = Inr ()) \<longleftrightarrow>
        (n \<notin> set INTERNAL_DESCRIPTOR_FILES
         \<and> (\<forall>file. map_of files n = Some file \<longrightarrow> capability_blocker file True = None)
         \<and> (\<forall>t\<in>set (type_refs files n). t \<in> set selected
              \<or> (\<exists>file. map_of files t = Some file \<and> generated_header_blocker file = None)))"
      if n: "n \<in> set selected" for n
    proof -
      obtain fd where "map_of files n = Some fd" using indexed_present [OF subsetD [OF assms(2) n]] by blast
      then show ?thesis by (simp add: check_references_ok check_reserved_def)
    qed
    show ?thesis unfolding parts by (rule ball_cong [OF refl each_name])
  qed
  have cyc: "validate_no_cross_file_type_cycles files selected = Inr () \<longleftrightarrow>
      (\<forall>r\<in>set selected. \<forall>a. (r, a) \<in> {(a, b). depends_on files a b}\<^sup>* \<longrightarrow>
         (a, a) \<notin> {(a, b). depends_on files a b}\<^sup>+)"
    using type_cycles_iff [OF indexed_files(1) [OF assms(1)]] by blast
  have run: "validate_generation_capabilities files selected =
      (case first of Inl e \<Rightarrow> Some (Inl e)
       | Inr _ \<Rightarrow> Some (rbind out (\<lambda>_. validate_no_cross_file_type_cycles files selected)))"
    by (simp only: validate_generation_capabilities_def p Let_def first_def [symmetric] out
        sum.case Option.bind.bind_lunit)
  show ?thesis
  proof (cases first)
    case (Inl e)
    then show ?thesis using run first_ok by (auto simp: capable_def)
  next
    case (Inr u)
    then have f: "first = Inr ()" by simp
    have run': "validate_generation_capabilities files selected
        = Some (rbind out (\<lambda>_. validate_no_cross_file_type_cycles files selected))"
      using run f by simp
    have k: "set (map fst preds) = reach (present_imports files) (set selected)" using keys by simp
    have "rbind out (\<lambda>_. validate_no_cross_file_type_cycles files selected) = Inr () \<longleftrightarrow>
        out = Inr () \<and> validate_no_cross_file_type_cycles files selected = Inr ()"
      by (cases out) auto
    moreover have "out = Inr () \<longleftrightarrow> (\<forall>n\<in>reach (present_imports files) (set selected) - set selected.
        \<forall>file. map_of files n = Some file \<longrightarrow> capability_blocker file False = None)"
      using ok unfolding k by blast
    ultimately have "rbind out (\<lambda>_. validate_no_cross_file_type_cycles files selected) = Inr ()
        \<longleftrightarrow> capable files selected"
      using iffD1 [OF first_ok f] cyc unfolding capable_def by satx
    with run' show ?thesis by blast
  qed
qed

text \<open>
  C9: For an indexed descriptor set and a selection of its files the capability check always
  returns, and it passes exactly when: no selected file is internal or has a blocker; every type a
  selected file refers to is declared in a selected file or in one that could have a generated
  header; no file reachable through imports has a blocker of its own; and no file reachable along
  type references lies on a cycle of files.
\<close>
theorem generation_capabilities_checked:
  assumes "index_files fs = Inr files" and "set selected \<subseteq> fst ` set files"
  shows "\<exists>out. validate_generation_capabilities files selected = Some out
    \<and> (out = Inr () \<longleftrightarrow> capable files selected)"
  using capabilities_iff [OF assms] .


lemma discover_loop_result:
  assumes "index_files fs = Inr files" and "d = index_declared_types (map snd files)"
    and "initial \<subseteq> selected" "set stack \<subseteq> selected" "selected \<subseteq> fst ` set files"
    and "selected \<subseteq> reach (type_refs files) initial"
    and "\<forall>n\<in>selected - set stack. set (type_refs files n) \<subseteq> selected"
  shows "(\<exists>e. discover_loop files d stack selected = Inl e)
    \<or> discover_loop files d stack selected = Inr (reach (type_refs files) initial)"
  using assms
proof (induction files d stack selected rule: discover_loop.induct)
  case (1 files d selected)
  then have "selected = reach (type_refs files) initial" by (intro reach_eqI) auto
  then show ?case by simp
next
  case (2 files d name stack selected)
  obtain fd where fd: "map_of files name = Some fd"
    using "2.prems"(4,5) indexed_present [of name files] by auto
  then have look: "lookup_file files name = Inr fd" by (simp add: lookup_file_def)
  show ?case
  proof (cases "rfold (discover_reference files d (file_name fd)) (referenced_types fd) (stack, selected)")
    case (Inl e)
    then show ?thesis by (simp add: look)
  next
    case (Inr x)
    obtain stack' selected' where x: "x = (stack', selected')" by (cases x)
    from discover_references_Inr [OF Inr [unfolded x]]
    have grown: "selected \<subseteq> selected'"
      and st: "set stack' = set stack \<union> (selected' - selected)"
      and keys: "selected' - selected \<subseteq> fst ` set files"
      and src: "selected' - selected
        \<subseteq> {t. \<exists>r\<in>set (referenced_types fd). map_of d (normalize_type_name (type_name r)) = Some t}"
      and all: "\<forall>r\<in>set (referenced_types fd). \<forall>t.
        map_of d (normalize_type_name (type_name r)) = Some t \<longrightarrow> t \<in> selected'"
      by - (elim conjE, assumption)+
    have refs: "set (type_refs files name)
        = {t. \<exists>r\<in>set (referenced_types fd). map_of d (normalize_type_name (type_name r)) = Some t}"
      using fd "2.prems"(2) by (simp add: type_refs_def map_filter_set)
    have new: "selected' - selected \<subseteq> set (type_refs files name)" using src refs by simp
    have "(\<exists>e. discover_loop files d stack' selected' = Inl e)
        \<or> discover_loop files d stack' selected' = Inr (reach (type_refs files) initial)"
    proof (rule "2.IH" [OF look Inr x [symmetric] "2.prems"(1,2)])
      show "initial \<subseteq> selected'" using grown "2.prems"(3) by blast
      show "set stack' \<subseteq> selected'" using st grown "2.prems"(4) by auto
      show "selected' \<subseteq> fst ` set files" using keys "2.prems"(5) by blast
      have "name \<in> reach (type_refs files) initial" using "2.prems"(4,6) by auto
      then have "set (type_refs files name) \<subseteq> reach (type_refs files) initial"
        using reach_step [of name "type_refs files" initial] by blast
      then show "selected' \<subseteq> reach (type_refs files) initial" using new "2.prems"(6) by blast
      show "\<forall>n\<in>selected' - set stack'. set (type_refs files n) \<subseteq> selected'"
      proof
        fix n assume n: "n \<in> selected' - set stack'"
        show "set (type_refs files n) \<subseteq> selected'"
        proof (cases "n = name")
          case True
          then show ?thesis using all refs by blast
        next
          case False
          then have "n \<in> selected - set (name # stack)" using n st grown by auto
          then have "set (type_refs files n) \<subseteq> selected" using "2.prems"(7) by blast
          then show ?thesis using grown by blast
        qed
      qed
    qed
    then show ?thesis by (simp add: look Inr x)
  qed
qed

definition initial_targets :: "(string set \<Rightarrow> string list) \<Rightarrow> files \<Rightarrow> string set" where
  "initial_targets listing files =
     {name. \<exists>file. (name, file) \<in> set files \<and> \<not> startswith name RUNTIME_PREFIX
        \<and> is_initial_discoverable_target listing file}"

text \<open>
  C11: Discovery always returns. The list it returns is sorted and without repetition; it holds
  exactly the files that are reached from the initial targets along references to declared types;
  and generation accepts it, so no type a generated header needs is left without its header.
\<close>
theorem discovered_files_closed:
  assumes "index_files fs = Inr files"
  shows "\<exists>out. discover_files listing fs = Some out
    \<and> (\<forall>sel. out = Inr sel \<longrightarrow> sorted sel \<and> distinct sel
         \<and> set sel = reach (type_refs files) (initial_targets listing files)
         \<and> capable files sel \<and> validate_import_graph files sel = Inr ())"
proof -
  let ?i = "map fst (filter (\<lambda>(name, file).
      \<not> startswith name RUNTIME_PREFIX \<and> is_initial_discoverable_target listing file) files)"
  let ?d = "index_declared_types (map snd files)"
  let ?R = "reach (type_refs files) (initial_targets listing files)"
  have i: "set ?i = initial_targets listing files" by (auto simp: initial_targets_def image_iff)
  have sub: "initial_targets listing files \<subseteq> fst ` set files"
    by (auto simp: initial_targets_def intro: rev_image_eqI)
  have fin_i: "finite (initial_targets listing files)" by (rule finite_subset [OF sub]) simp
  have present: "?R \<subseteq> fst ` set files"
  proof (rule reach_least [OF sub])
    fix a show "set (type_refs files a) \<subseteq> fst ` set files"
      using type_target_present [OF assms]
      by (cases "map_of files a") (auto simp: type_refs_def map_filter_set)
  qed
  have fin: "finite ?R" using present by (rule finite_subset) simp
  have "(\<exists>e. discover_loop files ?d (sorted_list_of_set (set ?i)) (set ?i) = Inl e)
      \<or> discover_loop files ?d (sorted_list_of_set (set ?i)) (set ?i) = Inr ?R"
    by (rule discover_loop_result [OF assms refl])
      (use i sub fin_i reach_base [of "initial_targets listing files" "type_refs files"] in \<open>simp_all del: set_map\<close>)
  then consider e where "discover_loop files ?d (sorted_list_of_set (set ?i)) (set ?i) = Inl e"
    | "discover_loop files ?d (sorted_list_of_set (set ?i)) (set ?i) = Inr ?R" by blast
  then show ?thesis
  proof cases
    case 1
    then show ?thesis by (simp add: discover_files_def assms Let_def)
  next
    case 2
    let ?sel = "sorted_list_of_set ?R"
    have sel: "set ?sel = ?R" using fin by simp
    have sub_sel: "set ?sel \<subseteq> fst ` set files" using present sel by simp
    obtain out where out: "validate_generation_capabilities files ?sel = Some out"
      "out = Inr () \<longleftrightarrow> capable files ?sel"
      using capabilities_iff [OF assms sub_sel] by blast
    show ?thesis
    proof (cases "validate_import_graph files ?sel")
      case (Inl e)
      then show ?thesis using 2 by (simp add: discover_files_def assms Let_def)
    next
      case (Inr u)
      then show ?thesis
        using 2 out sel by (auto simp: discover_files_def assms Let_def)
    qed
  qed
qed

definition sample_files :: "FileDescriptorProto list" where
  "sample_files =
     [plain_file ''b'' [''a''] [plain_message ''B'' [ref_field ''x'' ''.p.A'']],
      plain_file ''a'' [] [plain_message ''A'' [plain_field ''y'' 1 TYPE_INT32]]]"

definition sample_index :: files where
  "sample_index = map (\<lambda>f. (file_name f, f)) sample_files"

theorem generation_capabilities_checked_witness:
  "index_files sample_files = Inr sample_index
   \<and> validate_generation_capabilities sample_index [''b''] = Some (Inr ())
   \<and> capable sample_index [''b'']"
proof -
  have i: "index_files sample_files = Inr sample_index" by code_simp
  have s: "set [''b''] \<subseteq> fst ` set sample_index" by code_simp
  have r: "validate_generation_capabilities sample_index [''b''] = Some (Inr ())" by code_simp
  from generation_capabilities_checked [OF i s] r i show ?thesis by auto
qed

theorem discovered_files_closed_witness:
  "index_files sample_files = Inr sample_index
   \<and> discover_files sorted_list_of_set sample_files = Some (Inr [''a'', ''b''])
   \<and> capable sample_index [''a'', ''b'']"
proof -
  have i: "index_files sample_files = Inr sample_index" by code_simp
  have r: "discover_files sorted_list_of_set sample_files = Some (Inr [''a'', ''b''])" by code_simp
  from discovered_files_closed [OF i, of sorted_list_of_set] r i show ?thesis by auto
qed

end
