(* ===== verification/Policy.thy ===== *)
theory Policy
  imports Descriptors
begin

text \<open>
  The operator's limits on a request (\<^verbatim>\<open>src/protocyte/plugin.py\<close>): \<open>GeneratorPolicy\<close> and the checks
  made before anything else looks at the descriptors. The serialized size of a request is computed
  by the protobuf runtime, so it is a parameter.
\<close>

record GeneratorPolicy =
  max_request_bytes :: "int option"
  max_files_to_generate :: "int option"
  max_proto_files :: "int option"
  max_descriptor_nodes :: "int option"
  max_descriptor_metadata_bytes :: "int option"
  max_nesting_depth :: "int option"
  max_generated_bytes :: "int option"

record CodeGeneratorRequest =
  file_to_generate :: "string list"
  parameter :: string
  proto_file :: "FileDescriptorProto list"

datatype policy_error = LimitExceeded string int int \<comment> \<open>label, actual value, limit\<close>

definition check_limit :: "string \<Rightarrow> int \<Rightarrow> int option \<Rightarrow> policy_error + unit" where
  "check_limit label actual limit =
     (case limit of None \<Rightarrow> Inr ()
      | Some l \<Rightarrow> if l < actual then Inl (LimitExceeded label actual l) else Inr ())"

definition within :: "int \<Rightarrow> int option \<Rightarrow> bool" where
  "within n limit = (case limit of None \<Rightarrow> True | Some l \<Rightarrow> n \<le> l)"

lemma check_limit_ok [simp]: "check_limit label n limit = Inr u \<longleftrightarrow> within n limit"
  by (auto simp: check_limit_def within_def split: option.split)

lemma within_mono: "within n limit \<Longrightarrow> m \<le> n \<Longrightarrow> within m limit"
  by (auto simp: within_def split: option.splits)

definition add_descriptor_nodes :: "int \<Rightarrow> int \<Rightarrow> int option \<Rightarrow> policy_error + int" where
  "add_descriptor_nodes nodes count limit =
     rbind (check_limit ''descriptor nodes'' (nodes + count) limit) (\<lambda>_. Inr (nodes + count))"

definition enum_node_count :: "EnumDescriptorProto \<Rightarrow> int" where
  "enum_node_count e =
     1 + int (length (evalues e)) + int (length (ereserved_name e)) + int (length (ereserved_range e))"

definition message_node_count :: "message_data \<Rightarrow> int" where
  "message_node_count m =
     1 + int (length (mfields m)) + int (length (mextensions m)) + int (length (moneofs m))
     + int (length (mextension_range m)) + int (length (mreserved_range m))
     + int (length (mreserved_name m))"

section \<open>The traversal\<close>

definition add_enums :: "int option \<Rightarrow> EnumDescriptorProto list \<Rightarrow> int \<Rightarrow> policy_error + int" where
  "add_enums limit = rfold (\<lambda>e nodes. add_descriptor_nodes nodes (enum_node_count e) limit)"

function complexity_loop ::
  "int option \<Rightarrow> int option \<Rightarrow> (DescriptorProto \<times> int) list \<Rightarrow> int \<Rightarrow> int \<Rightarrow> policy_error + int \<times> int" where
  "complexity_loop max_nodes max_depth [] nodes deepest = Inr (nodes, deepest)"
| "complexity_loop max_nodes max_depth ((Message m nested, depth) # stack) nodes deepest =
     rbind (check_limit ''message nesting depth'' depth max_depth) (\<lambda>_.
     rbind (add_descriptor_nodes nodes (message_node_count m) max_nodes) (\<lambda>nodes1.
     rbind (add_enums max_nodes (menums m) nodes1) (\<lambda>nodes2.
     rbind (check_limit ''descriptor nodes'' (nodes2 + int (length nested)) max_nodes) (\<lambda>_.
       complexity_loop max_nodes max_depth
         (rev (map (\<lambda>n. (n, depth + 1)) nested) @ stack) nodes2 (max deepest depth)))))"
  by pat_completeness auto
termination
proof (relation "measure (\<lambda>(_, _, stack, _, _). \<Sum>p\<leftarrow>stack. size (fst p))")
  fix max_nodes max_depth m nested depth and stack :: "(DescriptorProto \<times> int) list"
    and nodes deepest x nodes1 nodes2 y
  have less: "(\<Sum>n\<leftarrow>ns. size n) < Suc (size_list size ns)" for ns :: "DescriptorProto list"
    by (induction ns) auto
  have "(\<Sum>p\<leftarrow>rev (map (\<lambda>n. (n, d)) ns). size (fst p)) = (\<Sum>n\<leftarrow>ns. size n)"
    for ns :: "DescriptorProto list" and d :: int
    by (induction ns) auto
  with less [of nested] show "((max_nodes, max_depth, rev (map (\<lambda>n. (n, depth + 1)) nested) @ stack, nodes2,
        max deepest depth), (max_nodes, max_depth, (Message m nested, depth) # stack, nodes, deepest))
      \<in> measure (\<lambda>(_, _, stack, _, _). \<Sum>p\<leftarrow>stack. size (fst p))"
    by (simp del: rev_map)
qed simp

definition file_complexity ::
  "int option \<Rightarrow> int option \<Rightarrow> FileDescriptorProto \<Rightarrow> int \<times> int \<Rightarrow> policy_error + int \<times> int" where
  "file_complexity max_nodes max_depth file = (\<lambda>(nodes, deepest).
     rbind (add_descriptor_nodes nodes (1 + int (length (extension file))) max_nodes) (\<lambda>nodes1.
     rbind (add_enums max_nodes (enum_type file) nodes1) (\<lambda>nodes2.
     rbind (rfold (\<lambda>s n. add_descriptor_nodes n (1 + int (length (smethods s))) max_nodes)
              (service file) nodes2) (\<lambda>nodes3.
     rbind (check_limit ''descriptor nodes'' (nodes3 + int (length (message_type file))) max_nodes) (\<lambda>_.
       complexity_loop max_nodes max_depth (rev (map (\<lambda>m. (m, 1)) (message_type file))) nodes3 deepest)))))"

definition request_descriptor_complexity ::
  "FileDescriptorProto list \<Rightarrow> int option \<Rightarrow> int option \<Rightarrow> policy_error + int \<times> int" where
  "request_descriptor_complexity files max_nodes max_depth =
     rfold (file_complexity max_nodes max_depth) files (0, 0)"

definition descriptor_metadata_limit :: "GeneratorPolicy \<Rightarrow> int option" where
  "descriptor_metadata_limit p =
     (if max_descriptor_metadata_bytes p \<noteq> None then max_descriptor_metadata_bytes p
      else max_descriptor_nodes p)"

definition validate_request_policy ::
  "(CodeGeneratorRequest \<Rightarrow> int) \<Rightarrow> CodeGeneratorRequest \<Rightarrow> GeneratorPolicy \<Rightarrow> policy_error + unit" where
  "validate_request_policy byte_size request p =
     (let metadata_limit = descriptor_metadata_limit p in
      rbind (if max_request_bytes p \<noteq> None \<or> metadata_limit \<noteq> None
             then check_limit ''serialized request bytes'' (byte_size request) (max_request_bytes p)
             else Inr ()) (\<lambda>_.
      rbind (check_limit ''files to generate'' (int (length (file_to_generate request)))
               (max_files_to_generate p)) (\<lambda>_.
      rbind (check_limit ''proto files'' (int (length (proto_file request))) (max_proto_files p)) (\<lambda>_.
      rbind (if metadata_limit \<noteq> None
             then check_limit ''descriptor metadata bytes'' (byte_size request) metadata_limit
             else Inr ()) (\<lambda>_.
      if max_descriptor_nodes p \<noteq> None \<or> max_nesting_depth p \<noteq> None
      then rbind (request_descriptor_complexity (proto_file request)
                    (max_descriptor_nodes p) (max_nesting_depth p)) (\<lambda>_. Inr ())
      else Inr ())))))"

section \<open>What is counted\<close>

fun message_total :: "DescriptorProto \<Rightarrow> int" where
  "message_total (Message m nested) =
     message_node_count m + (\<Sum>e\<leftarrow>menums m. enum_node_count e) + (\<Sum>n\<leftarrow>nested. message_total n)"

fun message_depth :: "DescriptorProto \<Rightarrow> int" where
  "message_depth (Message m nested) = 1 + Max (insert 0 (set (map message_depth nested)))"

definition file_total :: "FileDescriptorProto \<Rightarrow> int" where
  "file_total file =
     1 + int (length (extension file)) + (\<Sum>e\<leftarrow>enum_type file. enum_node_count e)
     + (\<Sum>s\<leftarrow>service file. 1 + int (length (smethods s))) + (\<Sum>m\<leftarrow>message_type file. message_total m)"

definition request_total :: "FileDescriptorProto list \<Rightarrow> int" where
  "request_total files = (\<Sum>file\<leftarrow>files. file_total file)"

definition request_depth :: "FileDescriptorProto list \<Rightarrow> int" where
  "request_depth files =
     Max (insert 0 (set (concat (map (\<lambda>f. map message_depth (message_type f)) files))))"


section \<open>The traversal counts everything\<close>

lemma add_nodes_Inr [simp]:
  "add_descriptor_nodes n c limit = Inr k \<longleftrightarrow> within (n + c) limit \<and> k = n + c"
  by (auto simp: add_descriptor_nodes_def)

lemma add_all_Inr:
  assumes "within n limit" "\<And>x. 0 \<le> c x"
  shows "rfold (\<lambda>x n. add_descriptor_nodes n (c x) limit) xs n = Inr k \<longleftrightarrow>
    within (n + (\<Sum>x\<leftarrow>xs. c x)) limit \<and> k = n + (\<Sum>x\<leftarrow>xs. c x)"
  using assms(1)
proof (induction xs arbitrary: n)
  case (Cons x xs)
  have pos: "0 \<le> (\<Sum>x\<leftarrow>xs. c x)" using assms(2) by (intro sum_list_nonneg) auto
  show ?case
  proof (cases "within (n + c x) limit")
    case True
    then show ?thesis using Cons.IH [OF True] by (simp add: add.assoc)
  next
    case False
    then have "\<not> within (n + (c x + (\<Sum>x\<leftarrow>xs. c x))) limit" using within_mono pos by force
    then show ?thesis using False by simp
  qed
qed auto

lemma enum_node_count_pos: "0 \<le> enum_node_count e"
  by (simp add: enum_node_count_def)

lemma message_node_count_pos: "1 \<le> message_node_count m"
  by (simp add: message_node_count_def)

lemma sum_enum_pos: "0 \<le> (\<Sum>e\<leftarrow>es. enum_node_count e)"
  using enum_node_count_pos by (intro sum_list_nonneg) auto

lemma message_total_pos: "1 \<le> message_total m"
proof (induction m)
  case (Message m nested)
  have "0 \<le> (\<Sum>n\<leftarrow>nested. message_total n)" using Message by (intro sum_list_nonneg) fastforce
  then show ?case using message_node_count_pos [of m] sum_enum_pos [of "menums m"] by simp
qed

lemma length_le_totals: "int (length ns) \<le> (\<Sum>n\<leftarrow>ns. message_total n)"
proof (induction ns)
  case (Cons n ns)
  then show ?case using message_total_pos [of n] by simp
qed simp

definition stack_total :: "(DescriptorProto \<times> int) list \<Rightarrow> int" where
  "stack_total stack = (\<Sum>p\<leftarrow>stack. message_total (fst p))"

definition stack_depths :: "(DescriptorProto \<times> int) list \<Rightarrow> int set" where
  \<comment> \<open>how deep each message of the stack reaches\<close>
  "stack_depths stack = (\<lambda>p. snd p + message_depth (fst p) - 1) ` set stack"

lemma depths_finite [simp]: "finite (stack_depths stack)"
  by (simp add: stack_depths_def)

lemma stack_total_pos: "0 \<le> stack_total stack"
  unfolding stack_total_def by (intro sum_list_nonneg) (auto intro: order_trans [OF zero_le_one message_total_pos])

lemma stack_total_nested:
  "stack_total (rev (map (\<lambda>n. (n, d)) nested) @ stack) = (\<Sum>n\<leftarrow>nested. message_total n) + stack_total stack"
  by (induction nested) (auto simp: stack_total_def)

lemma message_depth_max:
  "d + message_depth (Message m nested) - 1
     = Max (insert d (stack_depths (rev (map (\<lambda>n. (n, d + 1)) nested))))"
proof -
  let ?M = "insert 0 (set (map message_depth nested))"
  have "d + Max ?M = Max ((\<lambda>x. d + x) ` ?M)" by (simp add: mono_Max_commute monoI)
  also have "(\<lambda>x. d + x) ` ?M = insert d (stack_depths (rev (map (\<lambda>n. (n, d + 1)) nested)))"
    by (simp add: stack_depths_def image_image algebra_simps)
  finally show ?thesis by simp
qed

lemma stack_depths_append: "stack_depths (xs @ ys) = stack_depths xs \<union> stack_depths ys"
  by (simp add: stack_depths_def image_Un)

lemma Max_of_Max:
  fixes d :: int
  assumes "finite A" "finite B"
  shows "Max (insert (Max (insert d A)) B) = Max (insert d (A \<union> B))"
proof (cases "B = {}")
  case False
  then have "Max (insert d A \<union> B) = max (Max (insert d A)) (Max B)"
    using assms by (intro Max_Un) auto
  then show ?thesis using False assms by (simp del: Max_insert add: Max_insert [of B])
qed simp

lemma Max_insert_Max:
  fixes a b :: int
  assumes "finite A" "finite B"
  shows "Max (insert b (insert (Max (insert d A)) B)) = Max (insert (max b d) (A \<union> B))"
proof (rule antisym)
  have "Max (insert d A) \<le> Max (insert (max b d) (A \<union> B))"
    using assms by (subst Max_le_iff) (auto intro: Max_ge le_max_iff_disj [THEN iffD2] simp: Max_ge_iff)
  then show "Max (insert b (insert (Max (insert d A)) B)) \<le> Max (insert (max b d) (A \<union> B))"
    using assms by (subst Max_le_iff) (auto simp: Max_ge_iff)
  let ?M = "Max (insert d A)" and ?N = "Max (insert b (insert (Max (insert d A)) B))"
  have "?M \<le> ?N" "b \<le> ?N" "\<And>x. x \<in> B \<Longrightarrow> x \<le> ?N" using assms by (auto intro!: Max_ge simp del: Max_insert)
  moreover have "d \<le> ?M" "\<And>x. x \<in> A \<Longrightarrow> x \<le> ?M" using assms by (auto intro!: Max_ge simp del: Max_insert)
  ultimately have "\<forall>x\<in>insert (max b d) (A \<union> B). x \<le> ?N"
    by (auto simp del: Max_insert intro: order_trans)
  then show "Max (insert (max b d) (A \<union> B)) \<le> ?N" using assms by (subst Max_le_iff) auto
qed

lemma within_Max: "finite A \<Longrightarrow> A \<noteq> {} \<Longrightarrow> within (Max A) limit \<longleftrightarrow> (\<forall>x\<in>A. within x limit)"
  by (cases limit) (auto simp: within_def)

lemma complexity_loop_result:
  assumes "within nodes max_nodes"
  shows "complexity_loop max_nodes max_depth stack nodes deepest = Inr r \<longleftrightarrow>
    within (nodes + stack_total stack) max_nodes \<and> (\<forall>d\<in>stack_depths stack. within d max_depth)
    \<and> r = (nodes + stack_total stack, Max (insert deepest (stack_depths stack)))"
  using assms
proof (induction max_nodes max_depth stack nodes deepest rule: complexity_loop.induct)
  case (1 max_nodes max_depth nodes deepest)
  then show ?case by (auto simp: stack_total_def stack_depths_def)
next
  case (2 max_nodes max_depth m nested depth stack nodes deepest)
  let ?c = "message_node_count m" and ?e = "\<Sum>e\<leftarrow>menums m. enum_node_count e"
    and ?n = "\<Sum>n\<leftarrow>nested. message_total n"
  let ?kids = "rev (map (\<lambda>n. (n, depth + 1)) nested)"
  have total: "stack_total ((Message m nested, depth) # stack) = ?c + ?e + ?n + stack_total stack"
    by (simp add: stack_total_def)
  have depths: "stack_depths ((Message m nested, depth) # stack)
      = insert (Max (insert depth (stack_depths ?kids))) (stack_depths stack)"
    unfolding message_depth_max [symmetric, where d = depth and m = m and nested = nested] by (simp add: stack_depths_def)
  have deep: "(\<forall>d\<in>stack_depths ((Message m nested, depth) # stack). within d max_depth) \<longleftrightarrow>
      within depth max_depth \<and> (\<forall>d\<in>stack_depths (?kids @ stack). within d max_depth)"
    unfolding depths stack_depths_append by (auto simp: within_Max simp del: Max_insert)
  have best: "Max (insert deepest (stack_depths ((Message m nested, depth) # stack)))
      = Max (insert (max deepest depth) (stack_depths (?kids @ stack)))"
    unfolding depths stack_depths_append by (rule Max_insert_Max) simp_all
  show ?case
  proof (cases "within (nodes + ?c) max_nodes \<and> within (nodes + ?c + ?e) max_nodes
      \<and> within (nodes + ?c + ?e + int (length nested)) max_nodes \<and> within depth max_depth")
    case True
    have enums: "add_enums max_nodes (menums m) (nodes + ?c) = Inr (nodes + ?c + ?e)"
      unfolding add_enums_def using add_all_Inr [of "nodes + ?c" max_nodes enum_node_count "menums m"]
        True enum_node_count_pos by blast
    have "complexity_loop max_nodes max_depth ((Message m nested, depth) # stack) nodes deepest
        = complexity_loop max_nodes max_depth (?kids @ stack) (nodes + ?c + ?e) (max deepest depth)"
    proof -
      have "check_limit ''message nesting depth'' depth max_depth = Inr ()"
        "add_descriptor_nodes nodes ?c max_nodes = Inr (nodes + ?c)"
        "check_limit ''descriptor nodes'' (nodes + ?c + ?e + int (length nested)) max_nodes = Inr ()"
        using True by simp_all
      then show ?thesis by (simp only: complexity_loop.simps rbind.simps enums)
    qed
    moreover have "complexity_loop max_nodes max_depth (?kids @ stack) (nodes + ?c + ?e) (max deepest depth) = Inr r
        \<longleftrightarrow> within (nodes + ?c + ?e + stack_total (?kids @ stack)) max_nodes
          \<and> (\<forall>d\<in>stack_depths (?kids @ stack). within d max_depth)
          \<and> r = (nodes + ?c + ?e + stack_total (?kids @ stack),
              Max (insert (max deepest depth) (stack_depths (?kids @ stack))))"
      by (rule "2.IH") (use True enums in simp_all)
    ultimately show ?thesis
      unfolding deep best total stack_total_nested using True by (simp add: algebra_simps)
  next
    case False
    have no: "complexity_loop max_nodes max_depth ((Message m nested, depth) # stack) nodes deepest \<noteq> Inr r"
    proof
      assume "complexity_loop max_nodes max_depth ((Message m nested, depth) # stack) nodes deepest = Inr r"
      then obtain k where a: "within depth max_depth" "within (nodes + ?c) max_nodes"
        "add_enums max_nodes (menums m) (nodes + ?c) = Inr k" "within (k + int (length nested)) max_nodes"
        by auto
      moreover have "within (nodes + ?c + ?e) max_nodes \<and> k = nodes + ?c + ?e"
        using a(3) unfolding add_enums_def
        using add_all_Inr [of _ _ enum_node_count, OF a(2) enum_node_count_pos] by blast
      ultimately show False using False by auto
    qed
    have "\<not> (within (nodes + ?c + ?e + ?n + stack_total stack) max_nodes \<and> within depth max_depth)"
    proof
      assume w: "within (nodes + ?c + ?e + ?n + stack_total stack) max_nodes \<and> within depth max_depth"
      have "0 \<le> ?e" "int (length nested) \<le> ?n" "0 \<le> stack_total stack"
        by (rule sum_enum_pos, rule length_le_totals, rule stack_total_pos)
      then show False using w False by (auto elim!: notE within_mono)
    qed
    then show ?thesis using no unfolding deep total by (auto simp: algebra_simps)
  qed
qed


lemma file_complexity_result:
  assumes "within nodes max_nodes"
  shows "file_complexity max_nodes max_depth file (nodes, deepest) = Inr r \<longleftrightarrow>
    within (nodes + file_total file) max_nodes
    \<and> (\<forall>d\<in>message_depth ` set (message_type file). within d max_depth)
    \<and> r = (nodes + file_total file, Max (insert deepest (message_depth ` set (message_type file))))"
proof -
  let ?x = "1 + int (length (extension file))"
    and ?e = "\<Sum>e\<leftarrow>enum_type file. enum_node_count e"
    and ?s = "\<Sum>s\<leftarrow>service file. 1 + int (length (smethods s))"
    and ?m = "\<Sum>m\<leftarrow>message_type file. message_total m"
  let ?stack = "rev (map (\<lambda>m. (m, 1)) (message_type file))"
  have stack: "stack_total ?stack = ?m" "stack_depths ?stack = message_depth ` set (message_type file)"
    using stack_total_nested [of 1 "message_type file" "[]"]
    by (simp_all add: stack_depths_def stack_total_def image_image)
  have svc: "within n max_nodes \<Longrightarrow>
      rfold (\<lambda>s n. add_descriptor_nodes n (1 + int (length (smethods s))) max_nodes) (service file) n = Inr k
      \<longleftrightarrow> within (n + ?s) max_nodes \<and> k = n + ?s" for n k
    by (rule add_all_Inr) simp_all
  have en: "within n max_nodes \<Longrightarrow> add_enums max_nodes (enum_type file) n = Inr k
      \<longleftrightarrow> within (n + ?e) max_nodes \<and> k = n + ?e" for n k
    unfolding add_enums_def by (rule add_all_Inr) (simp_all add: enum_node_count_pos)
  have pos: "0 \<le> ?e" "0 \<le> ?s" "int (length (message_type file)) \<le> ?m"
    by (rule sum_enum_pos, intro sum_list_nonneg, auto simp: length_le_totals)
  let ?all = "within (nodes + ?x) max_nodes \<and> within (nodes + ?x + ?e) max_nodes
    \<and> within (nodes + ?x + ?e + ?s) max_nodes
    \<and> within (nodes + ?x + ?e + ?s + int (length (message_type file))) max_nodes"
  have "file_complexity max_nodes max_depth file (nodes, deepest) = Inr r \<longleftrightarrow>
      ?all \<and> complexity_loop max_nodes max_depth ?stack (nodes + ?x + ?e + ?s) deepest = Inr r"
    unfolding file_complexity_def by (auto simp: en svc)
  also have "\<dots> \<longleftrightarrow> ?all \<and> within (nodes + ?x + ?e + ?s + ?m) max_nodes
      \<and> (\<forall>d\<in>message_depth ` set (message_type file). within d max_depth)
      \<and> r = (nodes + ?x + ?e + ?s + ?m, Max (insert deepest (message_depth ` set (message_type file))))"
    using complexity_loop_result [of "nodes + ?x + ?e + ?s" max_nodes max_depth ?stack deepest r]
    unfolding stack by blast
  finally have res: "file_complexity max_nodes max_depth file (nodes, deepest) = Inr r \<longleftrightarrow>
      ?all \<and> within (nodes + ?x + ?e + ?s + ?m) max_nodes
      \<and> (\<forall>d\<in>message_depth ` set (message_type file). within d max_depth)
      \<and> r = (nodes + ?x + ?e + ?s + ?m, Max (insert deepest (message_depth ` set (message_type file))))" .
  have "within (nodes + ?x + ?e + ?s + ?m) max_nodes \<Longrightarrow> ?all"
    by (intro conjI; erule within_mono) (use pos in simp_all)
  with res have "file_complexity max_nodes max_depth file (nodes, deepest) = Inr r \<longleftrightarrow>
      within (nodes + ?x + ?e + ?s + ?m) max_nodes
      \<and> (\<forall>d\<in>message_depth ` set (message_type file). within d max_depth)
      \<and> r = (nodes + ?x + ?e + ?s + ?m, Max (insert deepest (message_depth ` set (message_type file))))"
    by satx
  then show ?thesis by (simp only: file_total_def add.assoc)
qed


lemma file_total_pos: "1 \<le> file_total file"
proof -
  have "0 \<le> (\<Sum>s\<leftarrow>service file. 1 + int (length (smethods s)))" by (intro sum_list_nonneg) auto
  moreover have "0 \<le> (\<Sum>m\<leftarrow>message_type file. message_total m)"
    using length_le_totals [of "message_type file"] by simp
  ultimately show ?thesis using sum_enum_pos [of "enum_type file"] by (simp add: file_total_def)
qed

definition all_depths :: "FileDescriptorProto list \<Rightarrow> int set" where
  "all_depths files = (\<Union>f\<in>set files. message_depth ` set (message_type f))"

lemma complexity_result:
  assumes "within nodes max_nodes"
  shows "rfold (file_complexity max_nodes max_depth) files (nodes, deepest) = Inr r \<longleftrightarrow>
    within (nodes + request_total files) max_nodes \<and> (\<forall>d\<in>all_depths files. within d max_depth)
    \<and> r = (nodes + request_total files, Max (insert deepest (all_depths files)))"
  using assms
proof (induction files arbitrary: nodes deepest)
  case (Cons f fs)
  let ?d = "message_depth ` set (message_type f)"
  have nonneg: "0 \<le> request_total fs"
    unfolding request_total_def by (intro sum_list_nonneg) (auto intro: order_trans [OF zero_le_one file_total_pos])
  have fin: "finite (all_depths fs)" by (simp add: all_depths_def)
  have best: "Max (insert (Max (insert deepest ?d)) (all_depths fs))
      = Max (insert deepest (all_depths (f # fs)))"
    using Max_of_Max [of ?d "all_depths fs" deepest] fin by (simp add: all_depths_def)
  show ?case
  proof (cases "within (nodes + file_total f) max_nodes \<and> (\<forall>d\<in>?d. within d max_depth)")
    case True
    then have n: "within (nodes + file_total f) max_nodes" by blast
    have step: "rfold (file_complexity max_nodes max_depth) (f # fs) (nodes, deepest)
        = rfold (file_complexity max_nodes max_depth) fs (nodes + file_total f, Max (insert deepest ?d))"
    proof -
      have "file_complexity max_nodes max_depth f (nodes, deepest)
          = Inr (nodes + file_total f, Max (insert deepest ?d))"
        using file_complexity_result [OF Cons.prems, of max_depth f deepest] True by blast
      then show ?thesis by simp
    qed
    have total: "nodes + file_total f + request_total fs = nodes + request_total (f # fs)"
      by (simp add: request_total_def)
    have "(\<forall>d\<in>all_depths fs. within d max_depth) \<longleftrightarrow> (\<forall>d\<in>all_depths (f # fs). within d max_depth)"
    proof -
      have "all_depths (f # fs) = ?d \<union> all_depths fs" by (simp add: all_depths_def)
      then show ?thesis using True by blast
    qed
    then show ?thesis unfolding step Cons.IH [OF n] best total by blast
  next
    case False
    then have "\<not> (within (nodes + request_total (f # fs)) max_nodes
        \<and> (\<forall>d\<in>all_depths (f # fs). within d max_depth))"
    proof -
      have "all_depths (f # fs) = ?d \<union> all_depths fs" by (simp add: all_depths_def)
      moreover have "within (nodes + request_total (f # fs)) max_nodes \<Longrightarrow> within (nodes + file_total f) max_nodes"
        by (erule within_mono) (use nonneg in \<open>simp add: request_total_def\<close>)
      ultimately show ?thesis using False by blast
    qed
    moreover have "rfold (file_complexity max_nodes max_depth) (f # fs) (nodes, deepest) \<noteq> Inr r"
      using False file_complexity_result [OF Cons.prems, of max_depth f deepest] by auto
    ultimately show ?thesis by blast
  qed
qed (auto simp: request_total_def all_depths_def)

lemma request_depth_within:
  assumes "within 0 limit"
  shows "within (request_depth files) limit \<longleftrightarrow> (\<forall>d\<in>all_depths files. within d limit)"
proof -
  have "request_depth files = Max (insert 0 (all_depths files))"
    by (simp add: request_depth_def all_depths_def)
  moreover have "finite (all_depths files)" by (simp add: all_depths_def)
  ultimately show ?thesis using assms by (simp add: within_Max del: Max_insert)
qed

definition policy_ok :: "GeneratorPolicy \<Rightarrow> bool" where
  \<comment> \<open>what \<^verbatim>\<open>__post_init__\<close> enforces: no limit is negative\<close>
  "policy_ok p \<longleftrightarrow> (\<forall>l\<in>{max_request_bytes p, max_files_to_generate p, max_proto_files p,
     max_descriptor_nodes p, max_descriptor_metadata_bytes p, max_nesting_depth p, max_generated_bytes p}.
     within 0 l)"

text \<open>
  C15: With limits that are not negative, the policy check passes exactly when every limit holds:
  the serialized request, its numbers of files, the metadata limit, and, counted recursively over
  all nested messages, the total of declaration nodes and the deepest message nesting. So stopping
  early at a partial count never rejects a request within its limits, nor lets one above them pass.
\<close>
theorem policy_enforced_exactly:
  assumes "policy_ok p"
  shows "validate_request_policy byte_size request p = Inr () \<longleftrightarrow>
    within (byte_size request) (max_request_bytes p)
    \<and> within (int (length (file_to_generate request))) (max_files_to_generate p)
    \<and> within (int (length (proto_file request))) (max_proto_files p)
    \<and> within (byte_size request) (descriptor_metadata_limit p)
    \<and> within (request_total (proto_file request)) (max_descriptor_nodes p)
    \<and> within (request_depth (proto_file request)) (max_nesting_depth p)"
proof -
  have nodes: "within 0 (max_descriptor_nodes p)" and depth: "within 0 (max_nesting_depth p)"
    using assms by (simp_all add: policy_ok_def)
  have none: "within n None" for n by (simp add: within_def)
  have "(\<exists>r. request_descriptor_complexity (proto_file request) (max_descriptor_nodes p) (max_nesting_depth p) = Inr r)
      \<longleftrightarrow> within (request_total (proto_file request)) (max_descriptor_nodes p)
        \<and> within (request_depth (proto_file request)) (max_nesting_depth p)"
    unfolding request_descriptor_complexity_def request_depth_within [OF depth]
    using complexity_result [OF nodes, of "max_nesting_depth p" "proto_file request" 0] by auto
  then show ?thesis
    by (auto simp: validate_request_policy_def Let_def none)
qed

definition sample_request :: CodeGeneratorRequest where
  "sample_request = \<lparr>file_to_generate = [''a''], parameter = [],
     proto_file = [plain_file ''a'' [] [plain_message ''A'' [plain_field ''x'' 1 TYPE_INT32]]]\<rparr>"

definition sample_policy :: GeneratorPolicy where
  "sample_policy = \<lparr>max_request_bytes = Some 100, max_files_to_generate = Some 1, max_proto_files = None,
     max_descriptor_nodes = Some 3, max_descriptor_metadata_bytes = Some 100, max_nesting_depth = Some 1,
     max_generated_bytes = None\<rparr>"

theorem policy_enforced_exactly_witness:
  "policy_ok sample_policy
   \<and> validate_request_policy (\<lambda>_. 40) sample_request sample_policy = Inr ()
   \<and> within (request_total (proto_file sample_request)) (max_descriptor_nodes sample_policy)"
proof -
  have p: "policy_ok sample_policy" by (simp add: policy_ok_def sample_policy_def within_def)
  have v: "validate_request_policy (\<lambda>_. 40) sample_request sample_policy = Inr ()" by code_simp
  from policy_enforced_exactly [OF p] v p show ?thesis by blast
qed

end
