(* ===== verification/Ranges.thy ===== *)
theory Ranges
  imports Prelude
begin

text \<open>
  The range searches the descriptor validators of \<^verbatim>\<open>src/protocyte/model.py\<close> share: sorting reserved
  ranges, finding the first overlap, and finding the range that holds a number by bisection. A
  range is a pair; a flag says whether its end belongs to it (enum ranges) or not (field ranges).
\<close>

type_synonym range = "int \<times> int"

section \<open>Overlaps\<close>

definition range_set :: "bool \<Rightarrow> range \<Rightarrow> int set" where
  \<comment> \<open>the numbers a range stands for\<close>
  "range_set end_inclusive r = (if end_inclusive then {fst r..snd r} else {fst r..<snd r})"

fun first_overlap :: "bool \<Rightarrow> range \<Rightarrow> range list \<Rightarrow> (range \<times> range) option" where
  "first_overlap end_inclusive previous [] = None"
| "first_overlap end_inclusive previous (current # rest) =
     (if (if end_inclusive then fst current \<le> snd previous else fst current < snd previous)
      then Some (previous, current)
      else first_overlap end_inclusive current rest)"

definition sort_ranges_and_find_overlap :: "range list \<Rightarrow> bool \<Rightarrow> range list \<times> (range \<times> range) option" where
  "sort_ranges_and_find_overlap ranges end_inclusive =
     (let ordered = sort ranges
      in case ordered of
           [] \<Rightarrow> (ordered, None)
         | previous # rest \<Rightarrow> (ordered, first_overlap end_inclusive previous rest))"

section \<open>Bisection\<close>

function bisect_loop :: "int list \<Rightarrow> int \<Rightarrow> nat \<Rightarrow> nat \<Rightarrow> nat" where
  "bisect_loop a x lo hi =
     (if lo < hi then
        let mid = (lo + hi) div 2
        in if x < a ! mid then bisect_loop a x lo mid else bisect_loop a x (mid + 1) hi
      else lo)"
  by pat_completeness auto
termination
  by (relation "measure (\<lambda>(_, _, lo, hi). hi - lo)") auto

declare bisect_loop.simps [simp del]

definition bisect_right :: "int list \<Rightarrow> int \<Rightarrow> nat" where
  "bisect_right a x = bisect_loop a x 0 (length a)"

definition find_containing_range :: "range list \<Rightarrow> int list \<Rightarrow> int \<Rightarrow> bool \<Rightarrow> range option" where
  "find_containing_range ranges range_starts num end_inclusive =
     (let range_index = int (bisect_right range_starts num) - 1
      in if range_index < 0 then None
         else let (start, stop) = ranges ! nat range_index
              in if num < stop \<or> (end_inclusive \<and> num = stop) then Some (start, stop) else None)"

lemma bisect_loop_sorted:
  assumes "sorted a" "hi \<le> length a" "lo \<le> hi"
    and "\<forall>i<lo. a ! i \<le> x" "\<forall>i. hi \<le> i \<and> i < length a \<longrightarrow> x < a ! i"
  shows "bisect_loop a x lo hi \<le> length a
    \<and> (\<forall>i<bisect_loop a x lo hi. a ! i \<le> x)
    \<and> (\<forall>i. bisect_loop a x lo hi \<le> i \<and> i < length a \<longrightarrow> x < a ! i)"
  using assms
proof (induction a x lo hi rule: bisect_loop.induct)
  case (1 a x lo hi)
  show ?case
  proof (cases "lo < hi")
    case True
    define mid where "mid = (lo + hi) div 2"
    have mid: "lo \<le> mid" "mid < hi" "mid < length a" using True "1.prems"(2) by (auto simp: mid_def)
    show ?thesis
    proof (cases "x < a ! mid")
      case less: True
      have "\<forall>i. mid \<le> i \<and> i < length a \<longrightarrow> x < a ! i"
        using less "1.prems"(1) mid by (auto intro: less_le_trans sorted_nth_mono)
      with "1.IH"(1) [OF True mid_def less "1.prems"(1)] "1.prems"(4) mid
      show ?thesis using True less by (simp add: bisect_loop.simps [of a x lo hi] mid_def)
    next
      case ge: False
      have "\<forall>i<mid + 1. a ! i \<le> x"
        using ge "1.prems"(1) mid by (auto simp: less_Suc_eq_le not_less intro: order_trans sorted_nth_mono)
      with "1.IH"(2) [OF True mid_def ge "1.prems"(1,2)] "1.prems"(5) mid
      show ?thesis using True ge by (simp add: bisect_loop.simps [of a x lo hi] mid_def)
    qed
  next
    case False
    then have "bisect_loop a x lo hi = lo" by (subst bisect_loop.simps) simp
    then show ?thesis using "1.prems" False by auto
  qed
qed

lemma bisect_right_sorted:
  assumes "sorted a"
  shows "bisect_right a x \<le> length a" and "i < bisect_right a x \<Longrightarrow> a ! i \<le> x"
    and "bisect_right a x \<le> i \<Longrightarrow> i < length a \<Longrightarrow> x < a ! i"
  using bisect_loop_sorted [OF assms, of "length a" 0 x] by (auto simp: bisect_right_def)

section \<open>Sorted disjoint ranges\<close>

definition valid_range :: "bool \<Rightarrow> range \<Rightarrow> bool" where
  "valid_range end_inclusive r = (if end_inclusive then fst r \<le> snd r else fst r < snd r)"

fun separated :: "bool \<Rightarrow> range list \<Rightarrow> bool" where
  \<comment> \<open>every range ends before each later one starts\<close>
  "separated incl [] = True"
| "separated incl (r # rs) =
     ((\<forall>q\<in>set rs. if incl then snd r < fst q else snd r \<le> fst q) \<and> separated incl rs)"

lemma first_overlap_None:
  assumes "sorted (p # rs)" "\<forall>r\<in>set (p # rs). valid_range incl r"
  shows "first_overlap incl p rs = None \<longleftrightarrow> separated incl (p # rs)"
  using assms
proof (induction rs arbitrary: p)
  case (Cons r rs)
  have ih: "first_overlap incl r rs = None \<longleftrightarrow> separated incl (r # rs)"
    using Cons by simp
  have later: "fst r \<le> fst q" if "q \<in> set rs" for q
    using Cons.prems(1) that by (cases r; cases q) (auto simp: less_eq_prod_def)
  show ?case
  proof
    assume none: "first_overlap incl p (r # rs) = None"
    then have gap: "if incl then snd p < fst r else snd p \<le> fst r" and s: "separated incl (r # rs)"
      using ih by (auto split: if_splits)
    have "if incl then snd p < fst q else snd p \<le> fst q" if "q \<in> set (r # rs)" for q
      using gap later [of q] that by (cases incl) auto
    then show "separated incl (p # r # rs)" using s by simp
  next
    assume "separated incl (p # r # rs)"
    then show "first_overlap incl p (r # rs) = None" using ih by (auto split: if_splits)
  qed
qed simp

lemma first_overlap_Some:
  assumes "first_overlap incl p rs = Some (a, b)" "sorted (p # rs)" "\<forall>r\<in>set (p # rs). valid_range incl r"
  shows "\<exists>us vs. p # rs = us @ a # b # vs \<and> range_set incl a \<inter> range_set incl b \<noteq> {}"
  using assms
proof (induction rs arbitrary: p)
  case (Cons r rs)
  show ?case
  proof (cases "if incl then fst r \<le> snd p else fst r < snd p")
    case True
    then have ab: "a = p" "b = r" using Cons.prems(1) by (auto split: if_splits)
    have "fst p \<le> fst r" using Cons.prems(2) by (cases p; cases r) (auto simp: less_eq_prod_def)
    then have "fst r \<in> range_set incl p \<inter> range_set incl r"
      using True Cons.prems(3) by (auto simp: range_set_def valid_range_def split: if_splits)
    then show ?thesis using ab by (intro exI [of _ "[]"] exI [of _ rs]) auto
  next
    case False
    then have "first_overlap incl r rs = Some (a, b)" using Cons.prems(1) by (auto split: if_splits)
    from Cons.IH [OF this] Cons.prems(2,3) obtain us vs where
      "r # rs = us @ a # b # vs" "range_set incl a \<inter> range_set incl b \<noteq> {}" by auto
    then show ?thesis by (intro exI [of _ "p # us"] exI [of _ vs]) simp
  qed
qed simp

definition disjoint_ranges :: "bool \<Rightarrow> range list \<Rightarrow> bool" where
  \<comment> \<open>no two positions of the list hold ranges with a number in common\<close>
  "disjoint_ranges incl rs \<longleftrightarrow>
     (\<forall>i<length rs. \<forall>j<length rs. i \<noteq> j \<longrightarrow> range_set incl (rs ! i) \<inter> range_set incl (rs ! j) = {})"

lemma disjoint_ranges_Cons:
  "disjoint_ranges incl (r # rs) \<longleftrightarrow>
     (\<forall>q\<in>set rs. range_set incl r \<inter> range_set incl q = {}) \<and> disjoint_ranges incl rs"
proof
  assume d: "disjoint_ranges incl (r # rs)"
  have "range_set incl r \<inter> range_set incl q = {}" if "q \<in> set rs" for q
  proof -
    from that obtain j where "j < length rs" "rs ! j = q" by (auto simp: in_set_conv_nth)
    then show ?thesis using d [unfolded disjoint_ranges_def, rule_format, of 0 "Suc j"] by simp
  qed
  moreover have "disjoint_ranges incl rs"
    unfolding disjoint_ranges_def
  proof (intro allI impI)
    fix i j assume "i < length rs" "j < length rs" "i \<noteq> j"
    then show "range_set incl (rs ! i) \<inter> range_set incl (rs ! j) = {}"
      using d [unfolded disjoint_ranges_def, rule_format, of "Suc i" "Suc j"] by simp
  qed
  ultimately show "(\<forall>q\<in>set rs. range_set incl r \<inter> range_set incl q = {}) \<and> disjoint_ranges incl rs" by blast
next
  assume h: "(\<forall>q\<in>set rs. range_set incl r \<inter> range_set incl q = {}) \<and> disjoint_ranges incl rs"
  show "disjoint_ranges incl (r # rs)" unfolding disjoint_ranges_def
  proof (intro allI impI)
    fix i j assume "i < length (r # rs)" "j < length (r # rs)" "i \<noteq> j"
    then show "range_set incl ((r # rs) ! i) \<inter> range_set incl ((r # rs) ! j) = {}"
      using h by (cases i; cases j) (auto simp: disjoint_ranges_def Int_commute)
  qed
qed

lemma disjoint_ranges_insort:
  "disjoint_ranges incl (insort r rs) \<longleftrightarrow> disjoint_ranges incl (r # rs)"
  by (induction rs) (auto simp: disjoint_ranges_Cons set_insort_key Int_commute)

lemma disjoint_ranges_sort: "disjoint_ranges incl (sort rs) \<longleftrightarrow> disjoint_ranges incl rs"
  by (induction rs) (simp_all add: disjoint_ranges_insort disjoint_ranges_Cons)

lemma separated_disjoint:
  assumes "sorted rs" "\<forall>r\<in>set rs. valid_range incl r"
  shows "separated incl rs \<longleftrightarrow> disjoint_ranges incl rs"
  using assms
proof (induction rs)
  case (Cons r rs)
  have "(if incl then snd r < fst q else snd r \<le> fst q) \<longleftrightarrow> range_set incl r \<inter> range_set incl q = {}"
    if q: "q \<in> set rs" for q
  proof -
    have "fst r \<le> fst q" using Cons.prems(1) q by (cases r; cases q) (auto simp: less_eq_prod_def)
    moreover have "valid_range incl r" "valid_range incl q" using Cons.prems(2) q by auto
    moreover have "range_set incl r \<inter> range_set incl q \<noteq> {}" if "fst q \<in> range_set incl r"
      using that \<open>valid_range incl q\<close> by (auto simp: range_set_def valid_range_def split: if_splits)
    ultimately show ?thesis
      by (cases incl) (auto simp: range_set_def valid_range_def)
  qed
  moreover have "separated incl rs \<longleftrightarrow> disjoint_ranges incl rs" using Cons by simp
  ultimately show ?case unfolding separated.simps disjoint_ranges_Cons by blast
qed (simp add: disjoint_ranges_def)

lemma sort_ranges_result:
  assumes "\<forall>r\<in>set ranges. valid_range incl r"
  shows "fst (sort_ranges_and_find_overlap ranges incl) = sort ranges"
    and "snd (sort_ranges_and_find_overlap ranges incl) = None \<longleftrightarrow> disjoint_ranges incl ranges"
proof -
  show "fst (sort_ranges_and_find_overlap ranges incl) = sort ranges"
    by (simp add: sort_ranges_and_find_overlap_def Let_def split: list.split)
  have v: "\<forall>r\<in>set (sort ranges). valid_range incl r" using assms by simp
  show "snd (sort_ranges_and_find_overlap ranges incl) = None \<longleftrightarrow> disjoint_ranges incl ranges"
  proof (cases "sort ranges")
    case Nil
    then have "ranges = []" by (metis set_empty set_sort)
    then show ?thesis by (simp add: sort_ranges_and_find_overlap_def disjoint_ranges_def)
  next
    case (Cons p rs)
    have "first_overlap incl p rs = None \<longleftrightarrow> separated incl (p # rs)"
      by (rule first_overlap_None) (use v Cons sorted_sort [of ranges] in simp_all)
    also have "\<dots> \<longleftrightarrow> disjoint_ranges incl (p # rs)"
      by (rule separated_disjoint) (use v Cons sorted_sort [of ranges] in simp_all)
    also have "\<dots> \<longleftrightarrow> disjoint_ranges incl ranges"
      using disjoint_ranges_sort [of incl ranges] Cons by simp
    finally show ?thesis by (simp add: sort_ranges_and_find_overlap_def Let_def Cons)
  qed
qed

lemma sort_ranges_overlap:
  assumes "\<forall>r\<in>set ranges. valid_range incl r"
    and "snd (sort_ranges_and_find_overlap ranges incl) = Some (a, b)"
  shows "{a, b} \<subseteq> set ranges \<and> range_set incl a \<inter> range_set incl b \<noteq> {}"
proof (cases "sort ranges")
  case Nil
  then show ?thesis using assms(2) by (simp add: sort_ranges_and_find_overlap_def)
next
  case (Cons p rs)
  then have "first_overlap incl p rs = Some (a, b)"
    using assms(2) by (simp add: sort_ranges_and_find_overlap_def Let_def)
  moreover have "sorted (p # rs)" using Cons sorted_sort [of ranges] by simp
  moreover have eq: "set (p # rs) = set ranges" by (metis Cons set_sort)
  ultimately obtain us vs where uv: "p # rs = us @ a # b # vs"
    "range_set incl a \<inter> range_set incl b \<noteq> {}"
    using first_overlap_Some [of incl p rs a b] assms(1) unfolding eq by blast
  have "{a, b} \<subseteq> set (p # rs)" unfolding uv(1) by simp
  then show ?thesis using uv(2) unfolding eq by blast
qed

lemma find_containing_range_iff:
  assumes s: "sorted rs" and v: "\<forall>r\<in>set rs. valid_range incl r" and d: "disjoint_ranges incl rs"
  shows "find_containing_range rs (map fst rs) num incl = Some r \<longleftrightarrow>
    r \<in> set rs \<and> num \<in> range_set incl r"
proof -
  let ?b = "bisect_right (map fst rs) num"
  have starts: "sorted (map fst rs)"
  proof (rule sorted_map_mono [OF s])
    show "mono_on (set rs) fst" by (auto intro!: mono_onI simp: less_eq_prod_def)
  qed
  note b = bisect_right_sorted [OF starts, where x = num, simplified]
  have inside: "(num < snd q \<or> incl \<and> num = snd q) \<and> fst q \<le> num \<longleftrightarrow> num \<in> range_set incl q" for q
    by (auto simp: range_set_def)
  show ?thesis
  proof (cases "?b = 0")
    case True
    have "num \<notin> range_set incl q" if "q \<in> set rs" for q
    proof -
      from that obtain i where "i < length rs" "rs ! i = q" by (auto simp: in_set_conv_nth)
      then have "num < fst q" using b(3) [of i] True by simp
      then show ?thesis by (auto simp: range_set_def)
    qed
    then show ?thesis using True by (auto simp: find_containing_range_def Let_def)
  next
    case False
    define k where "k = ?b - 1"
    have k: "k < length rs" "fst (rs ! k) \<le> num" using False b(1) b(2) [of k] by (auto simp: k_def)
    have run: "find_containing_range rs (map fst rs) num incl
        = (if num \<in> range_set incl (rs ! k) then Some (rs ! k) else None)"
      using False k inside [of "rs ! k"]
      by (cases "rs ! k") (auto simp: find_containing_range_def Let_def k_def nat_diff_distrib)
    have only: "rs ! k = q" if q: "q \<in> set rs" "num \<in> range_set incl q" for q
    proof -
      from q(1) obtain i where i: "i < length rs" "rs ! i = q" by (auto simp: in_set_conv_nth)
      have "i < ?b" using b(3) [of i] i q(2) by (force simp: range_set_def split: if_splits)
      then consider "i = k" | "i < k" using False by (fastforce simp: k_def)
      then show ?thesis
      proof cases
        case 2
        have "separated incl rs" using separated_disjoint [OF s v] d by simp
        then have "sorted_wrt (\<lambda>p q. if incl then snd p < fst q else snd p \<le> fst q) rs"
          by (induction rs) simp_all
        then have "if incl then snd q < fst (rs ! k) else snd q \<le> fst (rs ! k)"
          using sorted_wrt_nth_less [of _ rs i k] 2 k(1) i(2) by blast
        then show ?thesis using k(2) q(2) by (auto simp: range_set_def split: if_splits)
      qed (use i in simp)
    qed
    show ?thesis unfolding run using only [of r] k(1) nth_mem [OF k(1)] by (auto split: if_splits)
  qed
qed

text \<open>
  C18: For valid ranges in any order, the overlap search reports nothing exactly when no two of them
  share a number, and otherwise two of the given ranges that do; when nothing is reported, the
  bisection over the sorted ranges finds, for every number, exactly the range that holds it.
\<close>
theorem range_searches_correct:
  assumes "\<forall>r\<in>set ranges. valid_range incl r"
  shows "case sort_ranges_and_find_overlap ranges incl of
      (ordered, None) \<Rightarrow> disjoint_ranges incl ranges
        \<and> (\<forall>num r. find_containing_range ordered (map fst ordered) num incl = Some r \<longleftrightarrow>
             r \<in> set ranges \<and> num \<in> range_set incl r)
    | (ordered, Some (a, b)) \<Rightarrow> \<not> disjoint_ranges incl ranges
        \<and> {a, b} \<subseteq> set ranges \<and> range_set incl a \<inter> range_set incl b \<noteq> {}"
proof -
  obtain ordered overlap where run: "sort_ranges_and_find_overlap ranges incl = (ordered, overlap)"
    by (cases "sort_ranges_and_find_overlap ranges incl")
  have ordered: "ordered = sort ranges" using sort_ranges_result(1) [OF assms] run by simp
  show ?thesis
  proof (cases overlap)
    case None
    then have d: "disjoint_ranges incl ranges" using sort_ranges_result(2) [OF assms] run by simp
    have "find_containing_range ordered (map fst ordered) num incl = Some r \<longleftrightarrow>
        r \<in> set ranges \<and> num \<in> range_set incl r" for num r
      using find_containing_range_iff [of ordered incl num r] assms d
      by (simp add: ordered disjoint_ranges_sort)
    then show ?thesis using run None d by simp
  next
    case (Some p)
    obtain a b where p: "p = (a, b)" by (cases p)
    then show ?thesis
      using run Some sort_ranges_overlap [OF assms] sort_ranges_result(2) [OF assms] by simp
  qed
qed

theorem range_searches_correct_witness:
  "valid_range False (5, 9) \<and> valid_range False (1, 4)
   \<and> sort_ranges_and_find_overlap [(5, 9), (1, 4)] False = ([(1, 4), (5, 9)], None)
   \<and> find_containing_range [(1, 4), (5, 9)] [1, 5] 3 False = Some (1, 4)"
proof -
  have v: "\<forall>r\<in>set [(5, 9), (1, 4)]. valid_range False r" by (simp add: valid_range_def)
  have s: "sort_ranges_and_find_overlap [(5, 9), (1, 4)] False = ([(1, 4), (5, 9)], None)" by code_simp
  have "find_containing_range [(1, 4), (5, 9)] (map fst [(1, 4), (5, 9)]) 3 False = Some (1, 4)"
    using range_searches_correct [OF v] unfolding s by (simp add: range_set_def)
  then show ?thesis using v s by simp
qed

end
