(* ===== verification/Validation.thy ===== *)
theory Validation
  imports ImportGraph Ranges
begin

text \<open>
  The descriptor validators of \<^verbatim>\<open>src/protocyte/model.py\<close>: enums, fields, messages with their oneofs
  and reserved ranges, and map entries. Each stops at the first offence; the error value carries
  the label of the offender and what is wrong with it.
\<close>

section \<open>Errors\<close>

datatype enum_issue =
  EmptyEnumName | NoEnumValues | UnnamedEnumValue nat | MissingEnumNumber
  | DuplicateEnumValueName | EnumNumberUsed int string | FirstEnumValueNotZero | IncompleteEnumRange

datatype reserved_issue =
  EmptyReservedName | DuplicateReservedName string | NameIsReserved
  | InvalidRange int int | OverlappingRanges range range | NumberIsReserved int

datatype field_issue =
  UnnamedField nat | NullInFieldName nat | DuplicateFieldName | FieldNumberUsed int string
  | FieldNumberRange int | FieldNumberReservedByProtobuf int | InvalidFieldLabel | InvalidFieldType
  | RequiredInProto3 | MissingTypeName | TypeNameOnScalar

datatype oneof_issue =
  EmptyOneofName | DuplicateOneofName string | OneofIndexOutside int nat | OneofFieldNotOptional
  | Proto3OptionalOutsideProto3 | Proto3OptionalWithoutOneof | SyntheticOneofMembers
  | SyntheticBeforeRegular

datatype map_issue =
  MapEntryFieldCount | MapEntryDeclarations | MapEntryKey | MapEntryKeyType int | MapEntryValue
  | MapEntryOneof | MapEntryDefault | MapEntryNotNested | ForeignMapEntry string string
  | MapFieldNotRepeated

datatype issue =
  EnumIssue enum_issue | ReservedIssue reserved_issue | FieldIssue field_issue
  | OneofIssue oneof_issue | MapIssue map_issue | EditionsUnsupported | UnsupportedSyntax string

datatype validation_error = Invalid string issue

definition require :: "bool \<Rightarrow> string \<Rightarrow> issue \<Rightarrow> validation_error + unit" where
  "require b label i = (if b then Inr () else Inl (Invalid label i))"

lemma require_ok [simp]: "require b label i = Inr u \<longleftrightarrow> b"
  by (simp add: require_def)

section \<open>Names and paths\<close>

definition proto_full_name :: "FileDescriptorProto \<Rightarrow> string \<Rightarrow> string" where
  "proto_full_name file path = (if package file \<noteq> [] then package file @ ''.'' @ path else path)"

definition strip_type_name :: "string \<Rightarrow> string" where
  "strip_type_name n = (if startswith n ''.'' then tl n else n)"

definition file_syntax :: "FileDescriptorProto \<Rightarrow> string" where
  "file_syntax file = (if fsyntax file \<noteq> [] then fsyntax file else ''proto2'')"

fun walk_message ::
  "FileDescriptorProto \<Rightarrow> string \<Rightarrow> string option \<Rightarrow> DescriptorProto
   \<Rightarrow> (DescriptorProto \<times> string \<times> string option) list" where
  "walk_message file path parent (Message m nested) =
     (Message m nested, path, parent)
     # concat (map (\<lambda>n. walk_message file (path @ ''.'' @ msg_name n)
         (Some (proto_full_name file path)) n) nested)"

definition walk_descriptor_messages ::
  "FileDescriptorProto \<Rightarrow> (DescriptorProto \<times> string \<times> string option) list" where
  "walk_descriptor_messages file =
     concat (map (\<lambda>m. walk_message file (msg_name m) None m) (message_type file))"

definition walk_descriptor_enums :: "FileDescriptorProto \<Rightarrow> (EnumDescriptorProto \<times> string) list" where
  "walk_descriptor_enums file =
     map (\<lambda>e. (e, ename e)) (enum_type file)
     @ concat (map (\<lambda>(m, path, _). map (\<lambda>e. (e, if ename e \<noteq> [] then path @ ''.'' @ ename e else path))
         (menums (msg_data m))) (walk_descriptor_messages file))"

section \<open>Reserved names and ranges\<close>

definition setdefault :: "('k, 'v) dict \<Rightarrow> 'k \<Rightarrow> 'v \<Rightarrow> ('k, 'v) dict" where
  "setdefault d k v = (if map_of d k = None then dict_set d k v else d)"

definition reserve_name ::
  "string \<Rightarrow> string set \<Rightarrow> string \<Rightarrow> string set \<Rightarrow> validation_error + string set" where
  "reserve_name owner used name reserved =
     rbind (require (name \<noteq> []) owner (ReservedIssue EmptyReservedName)) (\<lambda>_.
     rbind (require (name \<notin> reserved) owner (ReservedIssue (DuplicateReservedName name))) (\<lambda>_.
     rbind (require (name \<notin> used) (owner @ ''.'' @ name) (ReservedIssue NameIsReserved)) (\<lambda>_.
       Inr (insert name reserved))))"

definition check_ranges ::
  "string \<Rightarrow> bool \<Rightarrow> range list \<Rightarrow> (int, string) dict \<Rightarrow> validation_error + unit" where
  \<comment> \<open>the overlap search, then the bisection for every number in use\<close>
  "check_ranges owner end_inclusive ranges numbers =
     (case sort_ranges_and_find_overlap ranges end_inclusive of
        (ordered, Some (a, b)) \<Rightarrow> Inl (Invalid owner (ReservedIssue (OverlappingRanges a b)))
      | (ordered, None) \<Rightarrow>
          each (\<lambda>(number, name).
            require (find_containing_range ordered (map fst ordered) number end_inclusive = None)
              (owner @ ''.'' @ name) (ReservedIssue (NumberIsReserved number))) numbers)"

section \<open>Enums\<close>

definition enum_value_step ::
  "string \<Rightarrow> bool \<Rightarrow> nat \<times> EnumValueDescriptorProto \<Rightarrow> string set \<times> (int, string) dict
   \<Rightarrow> validation_error + string set \<times> (int, string) dict" where
  "enum_value_step owner allow_alias = (\<lambda>(index, v) (names, numbers).
     let label = owner @ ''.'' @ evname v in
     rbind (require (evname v \<noteq> []) owner (EnumIssue (UnnamedEnumValue index))) (\<lambda>_.
     rbind (require (evnumber v \<noteq> None) label (EnumIssue MissingEnumNumber)) (\<lambda>_.
     rbind (require (evname v \<notin> names) label (EnumIssue DuplicateEnumValueName)) (\<lambda>_.
     case map_of numbers (value_number v) of
       Some first_value \<Rightarrow>
         if \<not> allow_alias then Inl (Invalid label (EnumIssue (EnumNumberUsed (value_number v) first_value)))
         else Inr (insert (evname v) names, setdefault numbers (value_number v) (evname v))
     | None \<Rightarrow> Inr (insert (evname v) names, setdefault numbers (value_number v) (evname v))))))"

definition enum_range :: "string \<Rightarrow> EnumReservedRange \<Rightarrow> validation_error + range" where
  "enum_range owner r =
     (case (range_start r, range_end r) of
        (Some start, Some stop) \<Rightarrow>
          if stop < start then Inl (Invalid owner (ReservedIssue (InvalidRange start stop))) else Inr (start, stop)
      | _ \<Rightarrow> Inl (Invalid owner (EnumIssue IncompleteEnumRange)))"

definition validate_enum_descriptor ::
  "FileDescriptorProto \<Rightarrow> EnumDescriptorProto \<Rightarrow> string \<Rightarrow> validation_error + unit" where
  "validate_enum_descriptor file e path =
     (let owner = proto_full_name file path in
      rbind (require (ename e \<noteq> []) (if path \<noteq> [] then owner else file_name file) (EnumIssue EmptyEnumName)) (\<lambda>_.
      rbind (require (evalues e \<noteq> []) owner (EnumIssue NoEnumValues)) (\<lambda>_.
      rbind (rfold (enum_value_step owner (eallow_alias e)) (List.enumerate 0 (evalues e)) ({}, []))
        (\<lambda>(names, numbers).
      rbind (require (\<not> (file_syntax file = ''proto3'' \<and> value_number (hd (evalues e)) \<noteq> 0))
               (owner @ ''.'' @ evname (hd (evalues e))) (EnumIssue FirstEnumValueNotZero)) (\<lambda>_.
      rbind (rfold (reserve_name owner names) (ereserved_name e) {}) (\<lambda>_.
      rbind (rmap (enum_range owner) (ereserved_range e)) (\<lambda>ranges.
        check_ranges owner True ranges numbers)))))))"

section \<open>Fields\<close>

definition MAX_FIELD_NUMBER :: int where
  "MAX_FIELD_NUMBER = 2 ^ 29 - 1"

definition FIRST_RESERVED_FIELD_NUMBER :: int where
  "FIRST_RESERVED_FIELD_NUMBER = 19000"

definition LAST_RESERVED_FIELD_NUMBER :: int where
  "LAST_RESERVED_FIELD_NUMBER = 19999"

definition VALID_FIELD_LABELS :: "int list" where
  "VALID_FIELD_LABELS = [LABEL_OPTIONAL, LABEL_REQUIRED, LABEL_REPEATED]"

definition VALID_FIELD_TYPES :: "int list" where
  "VALID_FIELD_TYPES = [1..TYPE_SINT64]"

definition MAP_KEY_TYPES :: "int list" where
  "MAP_KEY_TYPES = [TYPE_INT32, TYPE_INT64, TYPE_UINT32, TYPE_UINT64, TYPE_SINT32, TYPE_SINT64,
     TYPE_FIXED32, TYPE_FIXED64, TYPE_SFIXED32, TYPE_SFIXED64, TYPE_BOOL, TYPE_STRING]"

definition validate_field_descriptor ::
  "string \<Rightarrow> FieldDescriptorProto \<Rightarrow> string \<Rightarrow> validation_error + unit" where
  "validate_field_descriptor label f syn =
     rbind (require (\<not> (fnumber f < 1 \<or> MAX_FIELD_NUMBER < fnumber f)) label
              (FieldIssue (FieldNumberRange (fnumber f)))) (\<lambda>_.
     rbind (require (\<not> (FIRST_RESERVED_FIELD_NUMBER \<le> fnumber f \<and> fnumber f \<le> LAST_RESERVED_FIELD_NUMBER))
              label (FieldIssue (FieldNumberReservedByProtobuf (fnumber f)))) (\<lambda>_.
     rbind (require (flabel f \<noteq> None \<and> field_label f \<in> set VALID_FIELD_LABELS) label (FieldIssue InvalidFieldLabel)) (\<lambda>_.
     rbind (require (ftype f \<noteq> None \<and> field_type f \<in> set VALID_FIELD_TYPES) label (FieldIssue InvalidFieldType)) (\<lambda>_.
     rbind (require (\<not> (syn = ''proto3'' \<and> field_label f = LABEL_REQUIRED)) label (FieldIssue RequiredInProto3)) (\<lambda>_.
     let typed_reference = field_type f = TYPE_ENUM \<or> field_type f = TYPE_MESSAGE in
     rbind (require (\<not> (typed_reference \<and> ftype_name f = [])) label (FieldIssue MissingTypeName)) (\<lambda>_.
       require (\<not> (\<not> typed_reference \<and> field_type f \<noteq> TYPE_GROUP \<and> ftype_name f \<noteq> []))
         label (FieldIssue TypeNameOnScalar)))))))"

section \<open>Messages\<close>

definition oneof_step :: "string \<Rightarrow> string \<Rightarrow> string set \<Rightarrow> validation_error + string set" where
  "oneof_step owner name names =
     rbind (require (name \<noteq> []) owner (OneofIssue EmptyOneofName)) (\<lambda>_.
     rbind (require (name \<notin> names) owner (OneofIssue (DuplicateOneofName name))) (\<lambda>_. Inr (insert name names)))"

record message_state =
  field_names :: "string set"
  field_numbers :: "(int, string) dict"
  oneof_members :: "FieldDescriptorProto list list"

definition add_oneof_member ::
  "string \<Rightarrow> nat \<Rightarrow> FieldDescriptorProto \<Rightarrow> FieldDescriptorProto list list
   \<Rightarrow> validation_error + FieldDescriptorProto list list" where
  "add_oneof_member label count f ms =
     (case foneof_index f of
        None \<Rightarrow> Inr ms
      | Some i \<Rightarrow>
          rbind (require (\<not> (i < 0 \<or> int count \<le> i)) label (OneofIssue (OneofIndexOutside i count))) (\<lambda>_.
          rbind (require (field_label f = LABEL_OPTIONAL) label (OneofIssue OneofFieldNotOptional)) (\<lambda>_.
            Inr (ms[nat i := ms ! nat i @ [f]]))))"

definition field_step ::
  "string \<Rightarrow> string \<Rightarrow> nat \<Rightarrow> nat \<times> FieldDescriptorProto \<Rightarrow> message_state \<Rightarrow> validation_error + message_state" where
  "field_step owner syn oneof_count = (\<lambda>(index, f) s.
     let label = owner @ ''.'' @ fname f in
     rbind (require (fname f \<noteq> []) owner (FieldIssue (UnnamedField index))) (\<lambda>_.
     rbind (require (CHR 0x00 \<notin> set (fname f)) owner (FieldIssue (NullInFieldName index))) (\<lambda>_.
     rbind (require (fname f \<notin> field_names s) label (FieldIssue DuplicateFieldName)) (\<lambda>_.
     rbind (validate_field_descriptor label f syn) (\<lambda>_.
     rbind (case map_of (field_numbers s) (fnumber f) of
              None \<Rightarrow> Inr ()
            | Some first_field \<Rightarrow> Inl (Invalid label (FieldIssue (FieldNumberUsed (fnumber f) first_field)))) (\<lambda>_.
     rbind (add_oneof_member label oneof_count f (oneof_members s)) (\<lambda>ms.
     rbind (if fproto3_optional f
            then rbind (require (syn = ''proto3'') label (OneofIssue Proto3OptionalOutsideProto3)) (\<lambda>_.
                   require (foneof_index f \<noteq> None) label (OneofIssue Proto3OptionalWithoutOneof))
            else Inr ()) (\<lambda>_.
       Inr \<lparr>field_names = insert (fname f) (field_names s),
            field_numbers = dict_set (field_numbers s) (fnumber f) (fname f),
            oneof_members = ms\<rparr>))))))))"

definition field_range :: "string \<Rightarrow> range \<Rightarrow> validation_error + range" where
  "field_range owner = (\<lambda>(start, stop).
     if start < 1 \<or> MAX_FIELD_NUMBER + 1 < stop \<or> stop \<le> start
     then Inl (Invalid owner (ReservedIssue (InvalidRange start stop))) else Inr (start, stop))"

definition validate_reserved_fields ::
  "string \<Rightarrow> message_data \<Rightarrow> string set \<Rightarrow> (int, string) dict \<Rightarrow> validation_error + unit" where
  "validate_reserved_fields owner m names numbers =
     rbind (rfold (reserve_name owner names) (mreserved_name m) {}) (\<lambda>_.
     rbind (rmap (field_range owner) (mreserved_range m)) (\<lambda>ranges.
       check_ranges owner False ranges numbers))"

definition synthetic :: "FieldDescriptorProto list \<Rightarrow> bool" where
  \<comment> \<open>the oneof has a member declared \<^verbatim>\<open>optional\<close> in proto3\<close>
  "synthetic ms = list_ex fproto3_optional ms"

definition check_synthetic_oneofs ::
  "string \<Rightarrow> string list \<Rightarrow> FieldDescriptorProto list list \<Rightarrow> validation_error + unit" where
  "check_synthetic_oneofs owner oneofs ms =
     rbind (each (\<lambda>(i, fs).
              require (synthetic fs \<longrightarrow> length fs = 1) (owner @ ''.'' @ oneofs ! i) (OneofIssue SyntheticOneofMembers))
            (List.enumerate 0 ms)) (\<lambda>_.
     let synthetic_oneofs = map fst (filter (\<lambda>(i, fs). synthetic fs) (List.enumerate 0 ms))
     in case synthetic_oneofs of
          [] \<Rightarrow> Inr ()
        | first_synthetic # _ \<Rightarrow>
            require (list_all (\<lambda>i. i \<in> set synthetic_oneofs) [first_synthetic..<length oneofs])
              owner (OneofIssue SyntheticBeforeRegular))"

definition validate_message_descriptor ::
  "FileDescriptorProto \<Rightarrow> DescriptorProto \<Rightarrow> string \<Rightarrow> validation_error + unit" where
  "validate_message_descriptor file message path =
     (let owner = proto_full_name file path; m = msg_data message in
      rbind (rfold (oneof_step owner) (moneofs m) {}) (\<lambda>_.
      rbind (rfold (field_step owner (file_syntax file) (length (moneofs m)))
               (List.enumerate 0 (mfields m))
               \<lparr>field_names = {}, field_numbers = [],
                oneof_members = replicate (length (moneofs m)) []\<rparr>) (\<lambda>s.
      rbind (validate_reserved_fields owner m (field_names s) (field_numbers s)) (\<lambda>_.
        check_synthetic_oneofs owner (moneofs m) (oneof_members s)))))"

section \<open>Map entries\<close>

definition validate_map_entry_descriptor ::
  "string \<Rightarrow> DescriptorProto \<Rightarrow> validation_error + unit" where
  "validate_map_entry_descriptor full_name message =
     (let m = msg_data message in
      case mfields m of
        [key, val] \<Rightarrow>
          rbind (require (\<not> (moneofs m \<noteq> [] \<or> mextensions m \<noteq> [] \<or> mextension_range m \<noteq> []
                    \<or> nested_type message \<noteq> [] \<or> menums m \<noteq> [])) full_name (MapIssue MapEntryDeclarations)) (\<lambda>_.
          rbind (require (fname key = ''key'' \<and> fnumber key = 1 \<and> field_label key = LABEL_OPTIONAL)
                   full_name (MapIssue MapEntryKey)) (\<lambda>_.
          rbind (require (field_type key \<in> set MAP_KEY_TYPES) (full_name @ ''.key'')
                   (MapIssue (MapEntryKeyType (field_type key)))) (\<lambda>_.
          rbind (require (fname val = ''value'' \<and> fnumber val = 2 \<and> field_label val = LABEL_OPTIONAL)
                   full_name (MapIssue MapEntryValue)) (\<lambda>_.
            each (\<lambda>f.
              rbind (require (\<not> (foneof_index f \<noteq> None \<or> fproto3_optional f))
                       (full_name @ ''.'' @ fname f) (MapIssue MapEntryOneof)) (\<lambda>_.
                require (fdefault_value f = None) (full_name @ ''.'' @ fname f) (MapIssue MapEntryDefault)))
              [key, val]))))
      | _ \<Rightarrow> Inl (Invalid full_name (MapIssue MapEntryFieldCount)))"

section \<open>All descriptors\<close>

type_synonym owners = "(string, string) dict"

definition validate_walked ::
  "FileDescriptorProto \<Rightarrow> DescriptorProto \<times> string \<times> string option \<Rightarrow> owners \<Rightarrow> validation_error + owners" where
  "validate_walked file = (\<lambda>(message, path, parent) owners.
     rbind (validate_message_descriptor file message path) (\<lambda>_.
       if mmap_entry (msg_data message) then
         (let full_name = proto_full_name file path in
          case parent of
            None \<Rightarrow> Inl (Invalid full_name (MapIssue MapEntryNotNested))
          | Some p \<Rightarrow>
              rbind (validate_map_entry_descriptor full_name message) (\<lambda>_.
                Inr (dict_set owners full_name p)))
       else Inr owners))"

definition validate_file_descriptors :: "FileDescriptorProto \<Rightarrow> owners \<Rightarrow> validation_error + owners" where
  "validate_file_descriptors file owners =
     rbind (require (fsyntax file \<noteq> ''editions'') (file_name file) EditionsUnsupported) (\<lambda>_.
     rbind (require (fsyntax file \<in> {[], ''proto2'', ''proto3''}) (file_name file)
              (UnsupportedSyntax (fsyntax file))) (\<lambda>_.
     rbind (each (\<lambda>(e, path). validate_enum_descriptor file e path) (walk_descriptor_enums file)) (\<lambda>_.
       rfold (validate_walked file) (walk_descriptor_messages file) owners)))"

definition validate_map_field ::
  "owners \<Rightarrow> string \<Rightarrow> FieldDescriptorProto \<Rightarrow> validation_error + unit" where
  "validate_map_field owners owner f =
     (if field_type f \<noteq> TYPE_MESSAGE then Inr ()
      else case map_of owners (strip_type_name (ftype_name f)) of
        None \<Rightarrow> Inr ()
      | Some map_owner \<Rightarrow>
          rbind (require (owner = map_owner) (owner @ ''.'' @ fname f)
                   (MapIssue (ForeignMapEntry (ftype_name f) map_owner))) (\<lambda>_.
            require (field_label f = LABEL_REPEATED) (owner @ ''.'' @ fname f) (MapIssue MapFieldNotRepeated)))"

definition validate_map_fields :: "owners \<Rightarrow> FileDescriptorProto \<Rightarrow> validation_error + unit" where
  "validate_map_fields owners file =
     each (\<lambda>(message, path, _).
         each (validate_map_field owners (proto_full_name file path)) (mfields (msg_data message)))
       (walk_descriptor_messages file)"

definition validate_descriptor_invariants :: "FileDescriptorProto list \<Rightarrow> validation_error + unit" where
  "validate_descriptor_invariants files =
     rbind (rfold validate_file_descriptors files []) (\<lambda>owners. each (validate_map_fields owners) files)"

end
