(* ===== verification/ValidationSpec.thy ===== *)
theory ValidationSpec
  imports Validation
begin

text \<open>
  What the validators of \<open>Validation\<close> accept, stated without loops: a schema is accepted exactly
  when names and numbers are present, distinct and not reserved, ranges are disjoint, and oneofs
  are well formed.
\<close>

section \<open>The shared loops\<close>

lemma reserve_names_iff:
  "rfold (reserve_name owner used) ns R = Inr R' \<longleftrightarrow>
     [] \<notin> set ns \<and> set ns \<inter> used = {} \<and> distinct ns \<and> set ns \<inter> R = {} \<and> R' = R \<union> set ns"
  by (induction ns arbitrary: R) (auto simp: reserve_name_def)

lemma oneof_names_iff:
  "rfold (oneof_step owner) ns R = Inr R' \<longleftrightarrow>
     [] \<notin> set ns \<and> distinct ns \<and> set ns \<inter> R = {} \<and> R' = R \<union> set ns"
  by (induction ns arbitrary: R) (auto simp: oneof_step_def)

lemma rmap_iff:
  assumes "\<And>x y. f x = Inr y \<longleftrightarrow> P x \<and> y = g x"
  shows "rmap f xs = Inr ys \<longleftrightarrow> (\<forall>x\<in>set xs. P x) \<and> ys = map g xs"
  by (induction xs arbitrary: ys) (auto simp: assms)

definition complete_range :: "EnumReservedRange \<Rightarrow> bool" where
  "complete_range r \<longleftrightarrow>
     (case (range_start r, range_end r) of (Some s, Some t) \<Rightarrow> s \<le> t | _ \<Rightarrow> False)"

definition range_of :: "EnumReservedRange \<Rightarrow> range" where
  "range_of r = (the (range_start r), the (range_end r))"

lemma enum_range_iff: "enum_range owner r = Inr q \<longleftrightarrow> complete_range r \<and> q = range_of r"
  by (auto simp: enum_range_def complete_range_def range_of_def split: option.splits)

definition field_range_ok :: "range \<Rightarrow> bool" where
  "field_range_ok r \<longleftrightarrow> 1 \<le> fst r \<and> snd r \<le> MAX_FIELD_NUMBER + 1 \<and> fst r < snd r"

lemma field_range_iff: "field_range owner r = Inr q \<longleftrightarrow> field_range_ok r \<and> q = r"
  by (cases r) (auto simp: field_range_def field_range_ok_def)

definition unreserved :: "bool \<Rightarrow> range list \<Rightarrow> int set \<Rightarrow> bool" where
  \<comment> \<open>the ranges are disjoint and none holds a number in use\<close>
  "unreserved incl ranges numbers \<longleftrightarrow>
     disjoint_ranges incl ranges \<and> (\<forall>n\<in>numbers. \<forall>r\<in>set ranges. n \<notin> range_set incl r)"

lemma check_ranges_iff:
  assumes "\<forall>r\<in>set ranges. valid_range incl r"
  shows "check_ranges owner incl ranges numbers = Inr u \<longleftrightarrow> unreserved incl ranges (fst ` set numbers)"
proof -
  obtain ordered overlap where run: "sort_ranges_and_find_overlap ranges incl = (ordered, overlap)"
    by (cases "sort_ranges_and_find_overlap ranges incl")
  have ordered: "ordered = sort ranges" using sort_ranges_result(1) [OF assms] run by simp
  have none: "overlap = None \<longleftrightarrow> disjoint_ranges incl ranges"
    using sort_ranges_result(2) [OF assms] run by simp
  show ?thesis
  proof (cases overlap)
    case None
    then have d: "disjoint_ranges incl ranges" using none by simp
    have "find_containing_range ordered (map fst ordered) n incl = None \<longleftrightarrow>
        (\<forall>r\<in>set ranges. n \<notin> range_set incl r)" for n
    proof -
      have "find_containing_range ordered (map fst ordered) n incl = Some r \<longleftrightarrow>
          r \<in> set ranges \<and> n \<in> range_set incl r" for r
        using find_containing_range_iff [of ordered incl n r] assms d
        by (simp add: ordered disjoint_ranges_sort)
      then show ?thesis by (cases "find_containing_range ordered (map fst ordered) n incl") auto
    qed
    then show ?thesis using d by (auto simp: check_ranges_def run None unreserved_def)
  next
    case (Some p)
    then show ?thesis using none by (cases p) (simp add: check_ranges_def run unreserved_def)
  qed
qed

section \<open>Enums\<close>

lemma dom_setdefault: "fst ` set (setdefault d k v) = insert k (fst ` set d)"
proof (cases "map_of d k")
  case (Some w)
  then have "k \<in> fst ` set d" by (force dest: map_of_SomeD)
  with Some show ?thesis by (auto simp: setdefault_def)
qed (simp add: setdefault_def dom_dict_set)

lemma enum_value_step_iff:
  "enum_value_step owner alias (k, v) (names, numbers) = Inr r \<longleftrightarrow>
     evname v \<noteq> [] \<and> evnumber v \<noteq> None \<and> evname v \<notin> names
     \<and> (alias \<or> value_number v \<notin> fst ` set numbers)
     \<and> r = (insert (evname v) names, setdefault numbers (value_number v) (evname v))"
proof (cases "map_of numbers (value_number v)")
  case None
  then have "value_number v \<notin> fst ` set numbers" by (simp add: map_of_eq_None_iff)
  with None show ?thesis by (auto simp: enum_value_step_def Let_def)
next
  case (Some w)
  then have "value_number v \<in> fst ` set numbers" by (force dest: map_of_SomeD)
  with Some show ?thesis by (auto simp: enum_value_step_def Let_def)
qed

lemma enum_values_iff:
  "(\<exists>numbers'. rfold (enum_value_step owner alias) (List.enumerate k vs) (names, numbers) = Inr (names', numbers'))
   \<longleftrightarrow> [] \<notin> set (map evname vs) \<and> None \<notin> set (map evnumber vs)
     \<and> distinct (map evname vs) \<and> set (map evname vs) \<inter> names = {}
     \<and> (alias \<or> distinct (map value_number vs) \<and> set (map value_number vs) \<inter> fst ` set numbers = {})
     \<and> names' = names \<union> set (map evname vs)"
proof (induction vs arbitrary: k names numbers)
  case (Cons v vs)
  let ?step = "evname v \<noteq> [] \<and> evnumber v \<noteq> None \<and> evname v \<notin> names
    \<and> (alias \<or> value_number v \<notin> fst ` set numbers)"
  have "(\<exists>numbers'. rfold (enum_value_step owner alias) (List.enumerate k (v # vs)) (names, numbers)
        = Inr (names', numbers')) \<longleftrightarrow>
      ?step \<and> (\<exists>numbers'. rfold (enum_value_step owner alias) (List.enumerate (Suc k) vs)
        (insert (evname v) names, setdefault numbers (value_number v) (evname v)) = Inr (names', numbers'))"
    by (auto simp: enum_value_step_iff)
  also have "\<dots> \<longleftrightarrow> ?step \<and> ([] \<notin> set (map evname vs) \<and> None \<notin> set (map evnumber vs)
     \<and> distinct (map evname vs) \<and> set (map evname vs) \<inter> insert (evname v) names = {}
     \<and> (alias \<or> distinct (map value_number vs)
          \<and> set (map value_number vs) \<inter> insert (value_number v) (fst ` set numbers) = {})
     \<and> names' = insert (evname v) names \<union> set (map evname vs))"
    unfolding Cons.IH dom_setdefault ..
  finally show ?case by (auto simp del: image_insert)
qed auto

lemma enum_values_numbers:
  "rfold (enum_value_step owner alias) (List.enumerate k vs) (names, numbers) = Inr (names', numbers') \<Longrightarrow>
     fst ` set numbers' = fst ` set numbers \<union> set (map value_number vs)"
proof (induction vs arbitrary: k names numbers)
  case (Cons v vs)
  then have "rfold (enum_value_step owner alias) (List.enumerate (Suc k) vs)
      (insert (evname v) names, setdefault numbers (value_number v) (evname v)) = Inr (names', numbers')"
    by (auto simp: enum_value_step_iff)
  from Cons.IH [OF this] show ?case by (auto simp: dom_setdefault)
qed simp

definition enum_ok :: "string \<Rightarrow> EnumDescriptorProto \<Rightarrow> bool" where
  "enum_ok syn e \<longleftrightarrow>
     ename e \<noteq> [] \<and> evalues e \<noteq> []
     \<and> [] \<notin> set (map evname (evalues e)) \<and> distinct (map evname (evalues e))
     \<and> None \<notin> set (map evnumber (evalues e))
     \<and> (eallow_alias e \<or> distinct (map value_number (evalues e)))
     \<and> (syn = ''proto3'' \<longrightarrow> value_number (hd (evalues e)) = 0)
     \<and> [] \<notin> set (ereserved_name e) \<and> distinct (ereserved_name e)
     \<and> set (ereserved_name e) \<inter> set (map evname (evalues e)) = {}
     \<and> (\<forall>r\<in>set (ereserved_range e). complete_range r)
     \<and> unreserved True (map range_of (ereserved_range e)) (set (map value_number (evalues e)))"

lemma enum_descriptor_iff:
  "validate_enum_descriptor file e path = Inr () \<longleftrightarrow> enum_ok (file_syntax file) e"
proof -
  let ?owner = "proto_full_name file path"
  let ?names = "set (map evname (evalues e))"
  have ranges: "rmap (enum_range ?owner) (ereserved_range e) = Inr rs \<longleftrightarrow>
      (\<forall>r\<in>set (ereserved_range e). complete_range r) \<and> rs = map range_of (ereserved_range e)" for rs
    by (rule rmap_iff) (rule enum_range_iff)
  have valid: "\<forall>r\<in>set (ereserved_range e). complete_range r \<Longrightarrow>
      \<forall>r\<in>set (map range_of (ereserved_range e)). valid_range True r"
    by (fastforce simp: complete_range_def range_of_def valid_range_def split: option.splits)
  have tail: "rbind (rmap (enum_range ?owner) (ereserved_range e))
        (\<lambda>rs. check_ranges ?owner True rs numbers) = Inr () \<longleftrightarrow>
      (\<forall>r\<in>set (ereserved_range e). complete_range r)
      \<and> unreserved True (map range_of (ereserved_range e)) (fst ` set numbers)" for numbers
    using check_ranges_iff [OF valid, of ?owner numbers "()"] by (auto simp: ranges)
  show ?thesis
  proof (cases "\<exists>names numbers. rfold (enum_value_step ?owner (eallow_alias e))
      (List.enumerate 0 (evalues e)) ({}, []) = Inr (names, numbers)")
    case True
    then obtain names numbers where run: "rfold (enum_value_step ?owner (eallow_alias e))
        (List.enumerate 0 (evalues e)) ({}, []) = Inr (names, numbers)" by blast
    then have c: "[] \<notin> ?names" "None \<notin> set (map evnumber (evalues e))" "distinct (map evname (evalues e))"
      "eallow_alias e \<or> distinct (map value_number (evalues e))" "names = ?names"
      using enum_values_iff [of ?owner "eallow_alias e" 0 "evalues e" "{}" "[]" names] by auto
    have n: "fst ` set numbers = set (map value_number (evalues e))"
      using enum_values_numbers [OF run] by simp
    have "validate_enum_descriptor file e path = Inr () \<longleftrightarrow>
        ename e \<noteq> [] \<and> evalues e \<noteq> []
        \<and> \<not> (file_syntax file = ''proto3'' \<and> value_number (hd (evalues e)) \<noteq> 0)
        \<and> (\<exists>R. rfold (reserve_name ?owner names) (ereserved_name e) {} = Inr R)
        \<and> rbind (rmap (enum_range ?owner) (ereserved_range e))
            (\<lambda>rs. check_ranges ?owner True rs numbers) = Inr ()"
      by (simp add: validate_enum_descriptor_def Let_def run)
    then show ?thesis
      unfolding tail n enum_ok_def reserve_names_iff c(5) using c by auto
  next
    case False
    then have "validate_enum_descriptor file e path \<noteq> Inr ()"
      by (auto simp: validate_enum_descriptor_def Let_def)
    moreover have "\<not> enum_ok (file_syntax file) e"
    proof
      assume "enum_ok (file_syntax file) e"
      then have "\<exists>numbers'. rfold (enum_value_step ?owner (eallow_alias e))
          (List.enumerate 0 (evalues e)) ({}, []) = Inr ({} \<union> ?names, numbers')"
        unfolding enum_values_iff by (auto simp: enum_ok_def)
      with False show False by blast
    qed
    ultimately show ?thesis by simp
  qed
qed


definition one_value_enum :: EnumDescriptorProto where
  "one_value_enum = \<lparr>ename = ''E'', evalues = [\<lparr>evname = ''ZERO'', evnumber = Some 0, evdeprecated = False\<rparr>],
     ereserved_name = [''OLD''], ereserved_range = [\<lparr>range_start = Some 5, range_end = Some 9\<rparr>],
     eallow_alias = False, edeprecated = False\<rparr>"

text \<open>
  C13: An enum descriptor is accepted exactly when it and all its values are named, the value names
  are distinct, every value has a number and the numbers are distinct unless aliases are allowed, a
  proto3 enum starts at zero, reserved names are non-empty, distinct and unused, and the reserved
  ranges are complete, pairwise disjoint and free of value numbers.
\<close>
theorem enum_descriptor_accepted_iff:
  "validate_enum_descriptor file e path = Inr () \<longleftrightarrow> enum_ok (file_syntax file) e"
  by (rule enum_descriptor_iff)

section \<open>Messages\<close>

definition field_ok :: "string \<Rightarrow> nat \<Rightarrow> FieldDescriptorProto \<Rightarrow> bool" where
  "field_ok syn oneof_count f \<longleftrightarrow>
     fname f \<noteq> [] \<and> CHR 0x00 \<notin> set (fname f)
     \<and> 1 \<le> fnumber f \<and> fnumber f \<le> MAX_FIELD_NUMBER
     \<and> fnumber f \<notin> {FIRST_RESERVED_FIELD_NUMBER..LAST_RESERVED_FIELD_NUMBER}
     \<and> flabel f \<noteq> None \<and> field_label f \<in> set VALID_FIELD_LABELS
     \<and> ftype f \<noteq> None \<and> field_type f \<in> set VALID_FIELD_TYPES
     \<and> (syn = ''proto3'' \<longrightarrow> field_label f \<noteq> LABEL_REQUIRED)
     \<and> (field_type f \<in> {TYPE_ENUM, TYPE_MESSAGE} \<longrightarrow> ftype_name f \<noteq> [])
     \<and> (ftype_name f \<noteq> [] \<longrightarrow> field_type f \<in> {TYPE_ENUM, TYPE_MESSAGE, TYPE_GROUP})
     \<and> (\<forall>i. foneof_index f = Some i \<longrightarrow> 0 \<le> i \<and> i < int oneof_count \<and> field_label f = LABEL_OPTIONAL)
     \<and> (fproto3_optional f \<longrightarrow> syn = ''proto3'' \<and> foneof_index f \<noteq> None)"

definition members_of :: "nat \<Rightarrow> FieldDescriptorProto list \<Rightarrow> FieldDescriptorProto list" where
  "members_of i fs = filter (\<lambda>f. foneof_index f = Some (int i)) fs"

lemma field_descriptor_iff:
  "validate_field_descriptor label f syn = Inr () \<longleftrightarrow>
     1 \<le> fnumber f \<and> fnumber f \<le> MAX_FIELD_NUMBER
     \<and> fnumber f \<notin> {FIRST_RESERVED_FIELD_NUMBER..LAST_RESERVED_FIELD_NUMBER}
     \<and> flabel f \<noteq> None \<and> field_label f \<in> set VALID_FIELD_LABELS
     \<and> ftype f \<noteq> None \<and> field_type f \<in> set VALID_FIELD_TYPES
     \<and> (syn = ''proto3'' \<longrightarrow> field_label f \<noteq> LABEL_REQUIRED)
     \<and> (field_type f \<in> {TYPE_ENUM, TYPE_MESSAGE} \<longrightarrow> ftype_name f \<noteq> [])
     \<and> (ftype_name f \<noteq> [] \<longrightarrow> field_type f \<in> {TYPE_ENUM, TYPE_MESSAGE, TYPE_GROUP})"
  by (simp add: validate_field_descriptor_def Let_def) (auto simp del: not_None_eq)

lemma add_oneof_member_iff:
  "add_oneof_member label count f ms = Inr ms' \<longleftrightarrow>
     (\<forall>i. foneof_index f = Some i \<longrightarrow> 0 \<le> i \<and> i < int count \<and> field_label f = LABEL_OPTIONAL)
     \<and> ms' = (case foneof_index f of None \<Rightarrow> ms | Some i \<Rightarrow> ms[nat i := ms ! nat i @ [f]])"
  by (auto simp: add_oneof_member_def split: option.split)

lemma field_step_iff:
  "field_step owner syn count (k, f) s = Inr s' \<longleftrightarrow>
     field_ok syn count f \<and> fname f \<notin> field_names s \<and> fnumber f \<notin> fst ` set (field_numbers s)
     \<and> s' = \<lparr>field_names = insert (fname f) (field_names s),
             field_numbers = dict_set (field_numbers s) (fnumber f) (fname f),
             oneof_members = (case foneof_index f of None \<Rightarrow> oneof_members s
               | Some i \<Rightarrow> (oneof_members s)[nat i := oneof_members s ! nat i @ [f]])\<rparr>"
proof -
  have number: "(case map_of (field_numbers s) (fnumber f) of
        None \<Rightarrow> Inr () | Some first_field \<Rightarrow> Inl (e first_field)) = Inr () \<longleftrightarrow>
      fnumber f \<notin> fst ` set (field_numbers s)" for e :: "string \<Rightarrow> validation_error"
  proof (cases "map_of (field_numbers s) (fnumber f)")
    case None
    then have "fnumber f \<notin> fst ` set (field_numbers s)" by (simp add: map_of_eq_None_iff)
    with None show ?thesis by simp
  next
    case (Some w)
    then have "fnumber f \<in> fst ` set (field_numbers s)" by (force dest: map_of_SomeD)
    with Some show ?thesis by simp
  qed
  show ?thesis
    unfolding field_step_def field_ok_def
    by (simp add: Let_def field_descriptor_iff add_oneof_member_iff number del: not_None_eq) blast
qed

lemma fields_numbers:
  "rfold (field_step owner syn count) (List.enumerate k fs) s = Inr s' \<Longrightarrow>
     field_names s' = field_names s \<union> set (map fname fs)
     \<and> fst ` set (field_numbers s') = fst ` set (field_numbers s) \<union> set (map fnumber fs)"
proof (induction fs arbitrary: k s)
  case (Cons f fs)
  then obtain t where t: "field_step owner syn count (k, f) s = Inr t"
    "rfold (field_step owner syn count) (List.enumerate (Suc k) fs) t = Inr s'" by auto
  from Cons.IH [OF t(2)] t(1) show ?case by (auto simp: field_step_iff dom_dict_set)
qed simp

lemma fields_members:
  "rfold (field_step owner syn count) (List.enumerate k fs) s = Inr s' \<Longrightarrow>
     length (oneof_members s) = count \<Longrightarrow>
     length (oneof_members s') = count
     \<and> (\<forall>i<count. oneof_members s' ! i = oneof_members s ! i @ members_of i fs)"
proof (induction fs arbitrary: k s)
  case (Cons f fs)
  then obtain t where t: "field_step owner syn count (k, f) s = Inr t"
    "rfold (field_step owner syn count) (List.enumerate (Suc k) fs) t = Inr s'" by auto
  have t_len: "length (oneof_members t) = count"
    using t(1) Cons.prems(2) by (auto simp: field_step_iff split: option.split)
  have "oneof_members t ! i = oneof_members s ! i @ members_of i [f]" if "i < count" for i
    using t(1) Cons.prems(2) that
    by (auto simp: field_step_iff field_ok_def members_of_def nth_list_update split: option.split)
  then show ?case using Cons.IH [OF t(2) t_len] by (simp add: members_of_def)
qed (simp add: members_of_def)

lemma fields_iff:
  "(\<exists>s'. rfold (field_step owner syn count) (List.enumerate k fs) s = Inr s') \<longleftrightarrow>
     (\<forall>f\<in>set fs. field_ok syn count f)
     \<and> distinct (map fname fs) \<and> set (map fname fs) \<inter> field_names s = {}
     \<and> distinct (map fnumber fs) \<and> set (map fnumber fs) \<inter> fst ` set (field_numbers s) = {}"
proof (induction fs arbitrary: k s)
  case (Cons f fs)
  let ?t = "\<lparr>field_names = insert (fname f) (field_names s),
      field_numbers = dict_set (field_numbers s) (fnumber f) (fname f),
      oneof_members = (case foneof_index f of None \<Rightarrow> oneof_members s
        | Some i \<Rightarrow> (oneof_members s)[nat i := oneof_members s ! nat i @ [f]])\<rparr>"
  let ?step = "field_ok syn count f \<and> fname f \<notin> field_names s \<and> fnumber f \<notin> fst ` set (field_numbers s)"
  have "(\<exists>s'. rfold (field_step owner syn count) (List.enumerate k (f # fs)) s = Inr s') \<longleftrightarrow>
      ?step \<and> (\<exists>s'. rfold (field_step owner syn count) (List.enumerate (Suc k) fs) ?t = Inr s')"
    by (auto simp: field_step_iff)
  also have "\<dots> \<longleftrightarrow> ?step \<and> (\<forall>f\<in>set fs. field_ok syn count f)
     \<and> distinct (map fname fs) \<and> set (map fname fs) \<inter> insert (fname f) (field_names s) = {}
     \<and> distinct (map fnumber fs)
     \<and> set (map fnumber fs) \<inter> insert (fnumber f) (fst ` set (field_numbers s)) = {}"
    unfolding Cons.IH by (simp add: dom_dict_set)
  finally show ?case by auto
qed simp


lemma first_of_filter:
  assumes "filter P [0..<n] = k # ks"
  shows "P k" "k < n" "i < n \<Longrightarrow> P i \<Longrightarrow> k \<le> i"
proof -
  have "k \<in> set (filter P [0..<n])" unfolding assms by simp
  then show "P k" "k < n" by auto
  have s: "sorted (k # ks)" unfolding assms [symmetric] by (rule sorted_wrt_filter) simp
  assume "i < n" "P i"
  then have "i \<in> set (filter P [0..<n])" by simp
  then have "i \<in> set (k # ks)" unfolding assms .
  then show "k \<le> i" using s by auto
qed

lemma synthetic_oneofs_iff:
  assumes "length ms = length oneofs"
  shows "check_synthetic_oneofs owner oneofs ms = Inr () \<longleftrightarrow>
    (\<forall>i<length ms. synthetic (ms ! i) \<longrightarrow> length (ms ! i) = 1)
    \<and> (\<forall>i j. i \<le> j \<and> j < length ms \<and> synthetic (ms ! i) \<longrightarrow> synthetic (ms ! j))"
proof -
  let ?P = "\<lambda>i. synthetic (ms ! i)"
  let ?list = "filter ?P [0..<length ms]"
  have enum: "List.enumerate 0 ms = map (\<lambda>i. (i, ms ! i)) [0..<length ms]"
    by (rule nth_equalityI) (simp_all add: nth_enumerate_eq)
  have list: "map fst (filter (\<lambda>(i, fs). synthetic fs) (List.enumerate 0 ms)) = ?list"
    unfolding enum by (simp add: filter_map comp_def)
  have first: "each (\<lambda>(i, fs). require (synthetic fs \<longrightarrow> length fs = 1) (owner @ ''.'' @ oneofs ! i)
        (OneofIssue SyntheticOneofMembers)) (List.enumerate 0 ms) = Inr () \<longleftrightarrow>
      (\<forall>i<length ms. ?P i \<longrightarrow> length (ms ! i) = 1)"
    unfolding enum by auto
  have second: "(case ?list of [] \<Rightarrow> Inr () | k # _ \<Rightarrow>
        require (list_all (\<lambda>i. i \<in> set ?list) [k..<length oneofs]) owner (OneofIssue SyntheticBeforeRegular))
        = Inr () \<longleftrightarrow> (\<forall>i j. i \<le> j \<and> j < length ms \<and> ?P i \<longrightarrow> ?P j)"
  proof (cases ?list)
    case Nil
    then have "\<not> ?P i" if "i < length ms" for i using that by (simp add: filter_empty_conv)
    then show ?thesis using Nil by (auto dest: order_le_less_trans)
  next
    case (Cons k ks)
    note k = first_of_filter [OF Cons]
    have "list_all (\<lambda>i. i \<in> set ?list) [k..<length oneofs] \<longleftrightarrow> (\<forall>j. k \<le> j \<and> j < length ms \<longrightarrow> ?P j)"
      unfolding list_all_iff using assms by auto
    also have "\<dots> \<longleftrightarrow> (\<forall>i j. i \<le> j \<and> j < length ms \<and> ?P i \<longrightarrow> ?P j)"
    proof
      assume all: "\<forall>j. k \<le> j \<and> j < length ms \<longrightarrow> ?P j"
      show "\<forall>i j. i \<le> j \<and> j < length ms \<and> ?P i \<longrightarrow> ?P j"
      proof (intro allI impI; elim conjE)
        fix i j assume ij: "i \<le> j" "j < length ms" "?P i"
        then have "k \<le> i" using k(3) [of i] by simp
        then show "?P j" using all ij by simp
      qed
    qed (use k in blast)
    finally show ?thesis unfolding Cons by simp
  qed
  show ?thesis
    unfolding check_synthetic_oneofs_def Let_def list second [symmetric] first [symmetric] by auto
qed

definition message_ok :: "string \<Rightarrow> message_data \<Rightarrow> bool" where
  "message_ok syn m \<longleftrightarrow>
     [] \<notin> set (moneofs m) \<and> distinct (moneofs m)
     \<and> (\<forall>f\<in>set (mfields m). field_ok syn (length (moneofs m)) f)
     \<and> distinct (map fname (mfields m)) \<and> distinct (map fnumber (mfields m))
     \<and> [] \<notin> set (mreserved_name m) \<and> distinct (mreserved_name m)
     \<and> set (mreserved_name m) \<inter> set (map fname (mfields m)) = {}
     \<and> (\<forall>r\<in>set (mreserved_range m). field_range_ok r)
     \<and> unreserved False (mreserved_range m) (set (map fnumber (mfields m)))
     \<and> (\<forall>i<length (moneofs m). synthetic (members_of i (mfields m)) \<longrightarrow> length (members_of i (mfields m)) = 1)
     \<and> (\<forall>i j. i \<le> j \<and> j < length (moneofs m) \<and> synthetic (members_of i (mfields m))
           \<longrightarrow> synthetic (members_of j (mfields m)))"

lemma reserved_fields_iff:
  "validate_reserved_fields owner m names numbers = Inr () \<longleftrightarrow>
     [] \<notin> set (mreserved_name m) \<and> distinct (mreserved_name m) \<and> set (mreserved_name m) \<inter> names = {}
     \<and> (\<forall>r\<in>set (mreserved_range m). field_range_ok r)
     \<and> unreserved False (mreserved_range m) (fst ` set numbers)"
proof -
  have "rmap (field_range owner) (mreserved_range m) = Inr rs \<longleftrightarrow>
      (\<forall>r\<in>set (mreserved_range m). field_range_ok r) \<and> rs = map (\<lambda>r. r) (mreserved_range m)" for rs
    by (rule rmap_iff) (simp add: field_range_iff)
  moreover have "\<forall>r\<in>set (mreserved_range m). field_range_ok r \<Longrightarrow>
      \<forall>r\<in>set (mreserved_range m). valid_range False r"
    by (simp add: field_range_ok_def valid_range_def)
  ultimately show ?thesis
    unfolding validate_reserved_fields_def
    using check_ranges_iff [of "mreserved_range m" False owner numbers "()"]
    by (auto simp: reserve_names_iff)
qed

lemma message_descriptor_iff:
  "validate_message_descriptor file message path = Inr () \<longleftrightarrow>
     message_ok (file_syntax file) (msg_data message)"
proof -
  let ?owner = "proto_full_name file path" and ?m = "msg_data message" and ?syn = "file_syntax file"
  let ?n = "length (moneofs ?m)" and ?fs = "mfields ?m"
  let ?s0 = "\<lparr>field_names = {}, field_numbers = [], oneof_members = replicate ?n []\<rparr>"
  have run: "validate_message_descriptor file message path = Inr () \<longleftrightarrow>
      ([] \<notin> set (moneofs ?m) \<and> distinct (moneofs ?m))
      \<and> (\<exists>s. rfold (field_step ?owner ?syn ?n) (List.enumerate 0 ?fs) ?s0 = Inr s
          \<and> validate_reserved_fields ?owner ?m (field_names s) (field_numbers s) = Inr ()
          \<and> check_synthetic_oneofs ?owner (moneofs ?m) (oneof_members s) = Inr ())"
    by (auto simp: validate_message_descriptor_def Let_def oneof_names_iff)
  have fields: "(\<exists>s. rfold (field_step ?owner ?syn ?n) (List.enumerate 0 ?fs) ?s0 = Inr s) \<longleftrightarrow>
      (\<forall>f\<in>set ?fs. field_ok ?syn ?n f) \<and> distinct (map fname ?fs) \<and> distinct (map fnumber ?fs)"
    unfolding fields_iff by simp
  show ?thesis
  proof (cases "\<exists>s. rfold (field_step ?owner ?syn ?n) (List.enumerate 0 ?fs) ?s0 = Inr s")
    case True
    then obtain s where s: "rfold (field_step ?owner ?syn ?n) (List.enumerate 0 ?fs) ?s0 = Inr s" by blast
    have names: "field_names s = set (map fname ?fs)" "fst ` set (field_numbers s) = set (map fnumber ?fs)"
      using fields_numbers [OF s] by simp_all
    have members: "length (oneof_members s) = ?n" "\<And>i. i < ?n \<Longrightarrow> oneof_members s ! i = members_of i ?fs"
      using fields_members [OF s] by simp_all
    have syn: "check_synthetic_oneofs ?owner (moneofs ?m) (oneof_members s) = Inr () \<longleftrightarrow>
        (\<forall>i<?n. synthetic (members_of i ?fs) \<longrightarrow> length (members_of i ?fs) = 1)
        \<and> (\<forall>i j. i \<le> j \<and> j < ?n \<and> synthetic (members_of i ?fs) \<longrightarrow> synthetic (members_of j ?fs))"
    proof -
      let ?S = "\<lambda>i. synthetic (oneof_members s ! i)" and ?T = "\<lambda>i. synthetic (members_of i ?fs)"
      have "(i \<le> j \<and> j < ?n \<and> ?S i \<longrightarrow> ?S j) \<longleftrightarrow> (i \<le> j \<and> j < ?n \<and> ?T i \<longrightarrow> ?T j)" for i j
        using members(2) [of i] members(2) [of j] by (cases "i \<le> j \<and> j < ?n") auto
      moreover have "(i < ?n \<longrightarrow> ?S i \<longrightarrow> length (oneof_members s ! i) = 1) \<longleftrightarrow>
          (i < ?n \<longrightarrow> ?T i \<longrightarrow> length (members_of i ?fs) = 1)" for i
        using members(2) [of i] by auto
      ultimately show ?thesis
        using synthetic_oneofs_iff [of "oneof_members s" "moneofs ?m" ?owner] members(1) by simp
    qed
    have one: "(\<exists>t. rfold (field_step ?owner ?syn ?n) (List.enumerate 0 ?fs) ?s0 = Inr t \<and> Q t) \<longleftrightarrow> Q s" for Q
      using s by auto
    show ?thesis
      unfolding run one reserved_fields_iff names syn message_ok_def
      using fields [THEN iffD1, OF True] by satx
  next
    case False
    then show ?thesis using fields unfolding run message_ok_def by blast
  qed
qed

definition optional_message :: DescriptorProto where
  \<comment> \<open>one proto3 \<^verbatim>\<open>optional\<close> field with its synthetic oneof\<close>
  "optional_message = Message ((msg_data (plain_message ''M''
     [(plain_field ''x'' 1 TYPE_INT32)\<lparr>foneof_index := Some 0, fproto3_optional := True\<rparr>]))
     \<lparr>moneofs := [''_x''], mreserved_range := [(2, 5)]\<rparr>) []"

text \<open>
  C12: A message descriptor is accepted exactly when its oneofs are named and distinct; every field
  is well formed (name, number outside the protocol's reserved block, label, type, type name, a
  oneof index in range, \<^verbatim>\<open>proto3_optional\<close> only in proto3 and in a oneof); names and numbers are
  distinct and not reserved; the reserved ranges are valid and disjoint; a synthetic oneof has
  exactly one member; and no regular oneof follows a synthetic one.
\<close>
theorem message_descriptor_accepted_iff:
  "validate_message_descriptor file message path = Inr () \<longleftrightarrow>
     message_ok (file_syntax file) (msg_data message)"
  by (rule message_descriptor_iff)

section \<open>Map entries and whole requests\<close>

definition map_entry_ok :: "DescriptorProto \<Rightarrow> bool" where
  "map_entry_ok message \<longleftrightarrow>
     (let m = msg_data message in
      moneofs m = [] \<and> mextensions m = [] \<and> mextension_range m = [] \<and> nested_type message = []
      \<and> menums m = []
      \<and> (\<exists>key val. mfields m = [key, val]
          \<and> fname key = ''key'' \<and> fnumber key = 1 \<and> field_type key \<in> set MAP_KEY_TYPES
          \<and> fname val = ''value'' \<and> fnumber val = 2
          \<and> (\<forall>f\<in>{key, val}. field_label f = LABEL_OPTIONAL \<and> foneof_index f = None
               \<and> \<not> fproto3_optional f \<and> fdefault_value f = None)))"

lemma map_entry_iff:
  "validate_map_entry_descriptor name message = Inr () \<longleftrightarrow> map_entry_ok message"
proof (cases "\<exists>key val. mfields (msg_data message) = [key, val]")
  case True
  then obtain key val where "mfields (msg_data message) = [key, val]" by blast
  then show ?thesis
    by (auto simp: validate_map_entry_descriptor_def map_entry_ok_def Let_def)
next
  case False
  then have "validate_map_entry_descriptor name message \<noteq> Inr ()"
    by (auto simp: validate_map_entry_descriptor_def Let_def split: list.splits)
  then show ?thesis using False by (auto simp: map_entry_ok_def Let_def)
qed


definition walked_ok :: "FileDescriptorProto \<Rightarrow> DescriptorProto \<times> string \<times> string option \<Rightarrow> bool" where
  "walked_ok file = (\<lambda>(message, path, parent).
     message_ok (file_syntax file) (msg_data message)
     \<and> (mmap_entry (msg_data message) \<longrightarrow> parent \<noteq> None \<and> map_entry_ok message))"

definition add_owner ::
  "FileDescriptorProto \<Rightarrow> DescriptorProto \<times> string \<times> string option \<Rightarrow> owners \<Rightarrow> owners" where
  "add_owner file = (\<lambda>(message, path, parent) owners.
     if mmap_entry (msg_data message) then dict_set owners (proto_full_name file path) (the parent)
     else owners)"

definition map_owners :: "FileDescriptorProto list \<Rightarrow> owners" where
  \<comment> \<open>the enclosing message of every map entry\<close>
  "map_owners files = fold (\<lambda>file. fold (add_owner file) (walk_descriptor_messages file)) files []"

definition map_field_ok :: "owners \<Rightarrow> string \<Rightarrow> FieldDescriptorProto \<Rightarrow> bool" where
  "map_field_ok owners owner f \<longleftrightarrow>
     (\<forall>map_owner. field_type f = TYPE_MESSAGE
        \<and> map_of owners (strip_type_name (ftype_name f)) = Some map_owner \<longrightarrow>
        owner = map_owner \<and> field_label f = LABEL_REPEATED)"

definition file_descriptors_ok :: "FileDescriptorProto \<Rightarrow> bool" where
  "file_descriptors_ok file \<longleftrightarrow>
     fsyntax file \<in> {[], ''proto2'', ''proto3''}
     \<and> (\<forall>(e, path)\<in>set (walk_descriptor_enums file). enum_ok (file_syntax file) e)
     \<and> (\<forall>w\<in>set (walk_descriptor_messages file). walked_ok file w)"

lemma walked_iff:
  "validate_walked file w owners = Inr owners' \<longleftrightarrow> walked_ok file w \<and> owners' = add_owner file w owners"
proof -
  obtain message path parent where w: "w = (message, path, parent)" by (cases w)
  show ?thesis
    unfolding w validate_walked_def walked_ok_def add_owner_def
    by (cases parent) (auto simp: message_descriptor_iff map_entry_iff Let_def)
qed

lemma rfold_iff:
  assumes "\<And>x s t. f x s = Inr t \<longleftrightarrow> P x \<and> t = g x s"
  shows "rfold f xs s = Inr t \<longleftrightarrow> (\<forall>x\<in>set xs. P x) \<and> t = fold g xs s"
  by (induction xs arbitrary: s) (auto simp: assms)

lemma file_descriptors_iff:
  "validate_file_descriptors file owners = Inr owners' \<longleftrightarrow>
     file_descriptors_ok file \<and> owners' = fold (add_owner file) (walk_descriptor_messages file) owners"
proof -
  have enums: "each (\<lambda>(e, path). validate_enum_descriptor file e path) (walk_descriptor_enums file) = Inr u \<longleftrightarrow>
      (\<forall>(e, path)\<in>set (walk_descriptor_enums file). enum_ok (file_syntax file) e)" for u
    by (auto simp: enum_descriptor_iff)
  have walked: "rfold (validate_walked file) (walk_descriptor_messages file) owners = Inr owners' \<longleftrightarrow>
      (\<forall>w\<in>set (walk_descriptor_messages file). walked_ok file w)
      \<and> owners' = fold (add_owner file) (walk_descriptor_messages file) owners"
    by (rule rfold_iff) (rule walked_iff)
  have "validate_file_descriptors file owners = Inr owners' \<longleftrightarrow>
      fsyntax file \<noteq> ''editions'' \<and> fsyntax file \<in> {[], ''proto2'', ''proto3''}
      \<and> each (\<lambda>(e, path). validate_enum_descriptor file e path) (walk_descriptor_enums file) = Inr ()
      \<and> rfold (validate_walked file) (walk_descriptor_messages file) owners = Inr owners'"
    by (simp add: validate_file_descriptors_def del: each_ok) 
  then show ?thesis unfolding enums walked file_descriptors_ok_def by auto
qed

lemma map_field_iff [simp]: "validate_map_field owners owner f = Inr () \<longleftrightarrow> map_field_ok owners owner f"
  by (auto simp: validate_map_field_def map_field_ok_def split: option.split)

lemma map_fields_iff:
  "validate_map_fields owners file = Inr () \<longleftrightarrow>
     (\<forall>(message, path, parent)\<in>set (walk_descriptor_messages file).
        \<forall>f\<in>set (mfields (msg_data message)). map_field_ok owners (proto_full_name file path) f)"
  by (auto simp: validate_map_fields_def)

definition map_request :: "FileDescriptorProto list" where
  \<comment> \<open>a message with a map field and its entry type\<close>
  "map_request = [plain_file ''m'' []
     [Message ((msg_data (plain_message ''M''
         [(plain_field ''f'' 1 TYPE_MESSAGE)\<lparr>flabel := Some LABEL_REPEATED, ftype_name := ''.p.M.FEntry''\<rparr>])))
       [Message ((msg_data (plain_message ''FEntry''
         [plain_field ''key'' 1 TYPE_STRING, plain_field ''value'' 2 TYPE_INT32]))\<lparr>mmap_entry := True\<rparr>) []]]]"

lemma descriptor_invariants_iff:
  "validate_descriptor_invariants files = Inr () \<longleftrightarrow>
     (\<forall>file\<in>set files. file_descriptors_ok file)
     \<and> (\<forall>file\<in>set files. \<forall>(message, path, parent)\<in>set (walk_descriptor_messages file).
          \<forall>f\<in>set (mfields (msg_data message)).
            map_field_ok (map_owners files) (proto_full_name file path) f)"
proof -
  have "rfold validate_file_descriptors files [] = Inr owners \<longleftrightarrow>
      (\<forall>file\<in>set files. file_descriptors_ok file) \<and> owners = map_owners files" for owners
    unfolding map_owners_def by (rule rfold_iff) (rule file_descriptors_iff)
  then show ?thesis
    by (auto simp: validate_descriptor_invariants_def map_fields_iff)
qed

text \<open>
  C14: The descriptors of a request are accepted exactly when every file has a known syntax, all its
  enums and messages, at every nesting depth, satisfy their rules, every map entry is nested and
  well formed, and every field whose type is a map entry is repeated and belongs to the message
  that declares the entry.
\<close>
theorem request_descriptors_accepted_iff:
  "validate_descriptor_invariants files = Inr () \<longleftrightarrow>
     (\<forall>file\<in>set files. file_descriptors_ok file)
     \<and> (\<forall>file\<in>set files. \<forall>(message, path, parent)\<in>set (walk_descriptor_messages file).
          \<forall>f\<in>set (mfields (msg_data message)).
            map_field_ok (map_owners files) (proto_full_name file path) f)"
  by (rule descriptor_invariants_iff)

theorem enum_descriptor_accepted_iff_witness:
  "validate_enum_descriptor (plain_file ''m'' [] []) one_value_enum ''E'' = Inr ()
   \<and> enum_ok ''proto3'' one_value_enum"
proof -
  have "validate_enum_descriptor (plain_file ''m'' [] []) one_value_enum ''E'' = Inr ()" by code_simp
  moreover have "file_syntax (plain_file ''m'' [] []) = ''proto3''" by code_simp
  ultimately show ?thesis using enum_descriptor_accepted_iff by metis
qed

theorem message_descriptor_accepted_iff_witness:
  "validate_message_descriptor (plain_file ''m'' [] []) optional_message ''M'' = Inr ()
   \<and> message_ok ''proto3'' (msg_data optional_message)"
proof -
  have "validate_message_descriptor (plain_file ''m'' [] []) optional_message ''M'' = Inr ()" by code_simp
  moreover have "file_syntax (plain_file ''m'' [] []) = ''proto3''" by code_simp
  ultimately show ?thesis using message_descriptor_accepted_iff by metis
qed

theorem request_descriptors_accepted_iff_witness:
  "validate_descriptor_invariants map_request = Inr () \<and> file_descriptors_ok (hd map_request)"
proof -
  have "validate_descriptor_invariants map_request = Inr ()" by code_simp
  moreover have "hd map_request \<in> set map_request" by (simp add: map_request_def)
  ultimately show ?thesis using request_descriptors_accepted_iff by blast
qed

end
