(* ===== verification/OptionsSchema.thy ===== *)
theory OptionsSchema
  imports Validation
begin

text \<open>
  The option vocabulary of \<^verbatim>\<open>protocyte/options.proto\<close> as \<^verbatim>\<open>src/protocyte/model.py\<close> knows it: the
  kinds of constants, the table of the value fields of \<^verbatim>\<open>protocyte.Constant\<close>, the schema an
  \<^verbatim>\<open>options.proto\<close> must have, its check, and the reading of a decoded \<^verbatim>\<open>Constant\<close> or
  \<^verbatim>\<open>ArrayOptions\<close> payload. The decoding of the payload bytes is protobuf's; a decoded message is
  the record below, its oneof the name of the field that is set together with its value.
\<close>

section \<open>Kinds of constants\<close>

datatype kind = KBool | KInt32 | KInt64 | KUInt32 | KUInt64 | KFloat | KDouble | KString

definition CONSTANT_OPTION_VALUE_FIELDS :: "(string, kind \<times> bool) dict" where
  "CONSTANT_OPTION_VALUE_FIELDS =
     [(''boolean'', KBool, False), (''boolean_expr'', KBool, True),
      (''i32'', KInt32, False), (''i32_expr'', KInt32, True),
      (''u32'', KUInt32, False), (''u32_expr'', KUInt32, True),
      (''i64'', KInt64, False), (''i64_expr'', KInt64, True),
      (''u64'', KUInt64, False), (''u64_expr'', KUInt64, True),
      (''f32'', KFloat, False), (''f32_expr'', KFloat, True),
      (''f64'', KDouble, False), (''f64_expr'', KDouble, True),
      (''str'', KString, False), (''str_expr'', KString, True)]"

section \<open>The schema of the options file\<close>

type_synonym field_schema = "string \<times> int \<times> int \<times> int \<times> string \<times> int option"
type_synonym message_schema = "string \<times> string list \<times> field_schema list"
type_synonym extension_schema = "string \<times> int \<times> int \<times> int \<times> string \<times> string"

definition CONSTANT_SCHEMA :: message_schema where
  "CONSTANT_SCHEMA = (''Constant'', [''value''],
     [(''name'', 1, LABEL_OPTIONAL, TYPE_STRING, [], None),
      (''boolean'', 2, LABEL_OPTIONAL, TYPE_BOOL, [], Some 0),
      (''boolean_expr'', 3, LABEL_OPTIONAL, TYPE_STRING, [], Some 0),
      (''i32'', 4, LABEL_OPTIONAL, TYPE_INT32, [], Some 0),
      (''i32_expr'', 5, LABEL_OPTIONAL, TYPE_STRING, [], Some 0),
      (''u32'', 6, LABEL_OPTIONAL, TYPE_UINT32, [], Some 0),
      (''u32_expr'', 7, LABEL_OPTIONAL, TYPE_STRING, [], Some 0),
      (''i64'', 8, LABEL_OPTIONAL, TYPE_INT64, [], Some 0),
      (''i64_expr'', 9, LABEL_OPTIONAL, TYPE_STRING, [], Some 0),
      (''u64'', 10, LABEL_OPTIONAL, TYPE_UINT64, [], Some 0),
      (''u64_expr'', 11, LABEL_OPTIONAL, TYPE_STRING, [], Some 0),
      (''f32'', 12, LABEL_OPTIONAL, TYPE_FLOAT, [], Some 0),
      (''f32_expr'', 13, LABEL_OPTIONAL, TYPE_STRING, [], Some 0),
      (''f64'', 14, LABEL_OPTIONAL, TYPE_DOUBLE, [], Some 0),
      (''f64_expr'', 15, LABEL_OPTIONAL, TYPE_STRING, [], Some 0),
      (''str'', 16, LABEL_OPTIONAL, TYPE_STRING, [], Some 0),
      (''str_expr'', 17, LABEL_OPTIONAL, TYPE_STRING, [], Some 0)])"

definition ARRAY_OPTIONS_SCHEMA :: message_schema where
  "ARRAY_OPTIONS_SCHEMA = (''ArrayOptions'', [''bound''],
     [(''max'', 1, LABEL_OPTIONAL, TYPE_UINT32, [], Some 0),
      (''expr'', 2, LABEL_OPTIONAL, TYPE_STRING, [], Some 0),
      (''fixed'', 3, LABEL_OPTIONAL, TYPE_BOOL, [], None)])"

definition PROTOCYTE_OPTION_MESSAGE_SCHEMA :: "message_schema list" where
  "PROTOCYTE_OPTION_MESSAGE_SCHEMA = [CONSTANT_SCHEMA, ARRAY_OPTIONS_SCHEMA]"

definition PROTOCYTE_OPTION_EXTENSION_SCHEMA :: "extension_schema list" where
  "PROTOCYTE_OPTION_EXTENSION_SCHEMA =
     [(''constant'', 50000, LABEL_REPEATED, TYPE_MESSAGE, ''.protocyte.Constant'',
       ''.google.protobuf.MessageOptions''),
      (''package_constant'', 50002, LABEL_REPEATED, TYPE_MESSAGE, ''.protocyte.Constant'',
       ''.google.protobuf.FileOptions''),
      (''array'', 50000, LABEL_OPTIONAL, TYPE_MESSAGE, ''.protocyte.ArrayOptions'',
       ''.google.protobuf.FieldOptions'')]"

definition ARRAY_OPTION_NAME :: string where "ARRAY_OPTION_NAME = ''protocyte.array''"
definition CONSTANT_OPTION_NAME :: string where "CONSTANT_OPTION_NAME = ''protocyte.constant''"
definition PACKAGE_CONSTANT_OPTION_NAME :: string where
  "PACKAGE_CONSTANT_OPTION_NAME = ''protocyte.package_constant''"
definition PROTOCYTE_OPTIONS_FILE_NAME :: string where
  "PROTOCYTE_OPTIONS_FILE_NAME = ''protocyte/options.proto''"

definition PROTOCYTE_OPTION_NAMES :: "string list" where
  "PROTOCYTE_OPTION_NAMES = [ARRAY_OPTION_NAME, CONSTANT_OPTION_NAME, PACKAGE_CONSTANT_OPTION_NAME]"

datatype option_error =
  ForeignOptionExtension string string | ObsoleteOptionsSchema
| MalformedPayload string string string | UnsupportedValueField string

definition option_field_schema :: "FieldDescriptorProto \<Rightarrow> field_schema" where
  "option_field_schema f =
     (fname f, fnumber f, field_label f, field_type f, ftype_name f, foneof_index f)"

definition option_extension_schema :: "FieldDescriptorProto \<Rightarrow> extension_schema" where
  "option_extension_schema f =
     (fname f, fnumber f, field_label f, field_type f, ftype_name f, fextendee f)"

definition extension_full_name ::
  "FileDescriptorProto \<Rightarrow> string option \<Rightarrow> FieldDescriptorProto \<Rightarrow> string" where
  "extension_full_name file path ext = proto_full_name file
     (case path of Some p \<Rightarrow> p @ ''.'' @ fname ext | None \<Rightarrow> fname ext)"

definition validate_protocyte_option_extension_sources ::
  "FileDescriptorProto list \<Rightarrow> option_error + unit" where
  "validate_protocyte_option_extension_sources proto_files = each (\<lambda>file. each (\<lambda>ext.
       let extension_name = extension_full_name file None ext in
       raise_if (List.member PROTOCYTE_OPTION_NAMES extension_name
           \<and> file_name file \<noteq> PROTOCYTE_OPTIONS_FILE_NAME)
         (ForeignOptionExtension (file_name file) extension_name))
     (extension file)) proto_files"

definition declared_message_schema :: "DescriptorProto \<Rightarrow> message_schema" where
  "declared_message_schema m =
     (msg_name m, moneofs (msg_data m), map option_field_schema (mfields (msg_data m)))"

definition has_unexpected_members :: "DescriptorProto \<Rightarrow> bool" where
  "has_unexpected_members m = (nested_type m \<noteq> [] \<or> menums (msg_data m) \<noteq> []
     \<or> mextensions (msg_data m) \<noteq> [] \<or> mextension_range (msg_data m) \<noteq> []
     \<or> mreserved_range (msg_data m) \<noteq> [] \<or> mreserved_name (msg_data m) \<noteq> [])"

definition validate_protocyte_options_schema :: "FileDescriptorProto \<Rightarrow> option_error + unit" where
  "validate_protocyte_options_schema file =
     raise_if (package file \<noteq> ''protocyte'' \<or> fsyntax file \<noteq> ''proto3''
         \<or> dependency file \<noteq> [DESCRIPTOR_NAME] \<or> public_dependency file \<noteq> []
         \<or> weak_dependency file \<noteq> []
         \<or> map declared_message_schema (message_type file) \<noteq> PROTOCYTE_OPTION_MESSAGE_SCHEMA
         \<or> map option_extension_schema (extension file) \<noteq> PROTOCYTE_OPTION_EXTENSION_SCHEMA
         \<or> enum_type file \<noteq> [] \<or> service file \<noteq> []
         \<or> list_ex has_unexpected_members (message_type file))
       ObsoleteOptionsSchema"

section \<open>Reading decoded options\<close>

record 'v ConstantPayload =
  cname :: string
  cvalue :: "(string \<times> 'v) option" \<comment> \<open>\<^verbatim>\<open>WhichOneof("value")\<close> with the value it names\<close>

record 'v RawConstantOption =
  raw_name :: string
  raw_kind :: "kind option"
  raw_literal :: "'v option"
  raw_expr :: "string option"

definition constant_option ::
  "('v \<Rightarrow> string) \<Rightarrow> 'v ConstantPayload \<Rightarrow> option_error + 'v RawConstantOption" where
  \<comment> \<open>\<open>str_of\<close> is Python's \<^verbatim>\<open>str\<close>, applied to the value of an expression field\<close>
  "constant_option str_of item =
     (case cvalue item of
        None \<Rightarrow> Inr \<lparr>raw_name = cname item, raw_kind = None, raw_literal = None, raw_expr = None\<rparr>
      | Some (value_field, v) \<Rightarrow>
          (case map_of CONSTANT_OPTION_VALUE_FIELDS value_field of
             None \<Rightarrow> Inl (UnsupportedValueField value_field)
           | Some (k, is_expr) \<Rightarrow>
               Inr \<lparr>raw_name = cname item, raw_kind = Some k,
                    raw_literal = (if is_expr then None else Some v),
                    raw_expr = (if is_expr then Some (str_of v) else None)\<rparr>))"

definition constant_options ::
  "('v \<Rightarrow> string) \<Rightarrow> (string + 'v ConstantPayload list) option \<Rightarrow> string \<Rightarrow> string
   \<Rightarrow> option_error + 'v RawConstantOption list" where
  \<comment> \<open>the decoded extension: \<open>None\<close> when the pool does not know it, \<open>Inl\<close> a decoding error\<close>
  "constant_options str_of parsed label option_name =
     (case parsed of
        None \<Rightarrow> Inr []
      | Some (Inl err) \<Rightarrow> Inl (MalformedPayload label option_name err)
      | Some (Inr items) \<Rightarrow> rmap (constant_option str_of) items)"

record ArrayPayload =
  pmax :: "int option"
  pexpr :: "string option"
  pfixed :: bool

definition field_array ::
  "(string + ArrayPayload option) option \<Rightarrow> string \<Rightarrow> option_error + int option \<times> string option \<times> bool" where
  "field_array parsed label =
     (case parsed of
        None \<Rightarrow> Inr (None, None, False)
      | Some (Inl err) \<Rightarrow> Inl (MalformedPayload label ARRAY_OPTION_NAME err)
      | Some (Inr None) \<Rightarrow> Inr (None, None, False)
      | Some (Inr (Some a)) \<Rightarrow> Inr (pmax a, pexpr a, pfixed a))"

section \<open>The accepted schema and the reader agree\<close>

fun kind_type :: "kind \<Rightarrow> int" where
  \<comment> \<open>the protobuf type that holds a literal of a kind\<close>
  "kind_type KBool = TYPE_BOOL"
| "kind_type KInt32 = TYPE_INT32"
| "kind_type KInt64 = TYPE_INT64"
| "kind_type KUInt32 = TYPE_UINT32"
| "kind_type KUInt64 = TYPE_UINT64"
| "kind_type KFloat = TYPE_FLOAT"
| "kind_type KDouble = TYPE_DOUBLE"
| "kind_type KString = TYPE_STRING"

definition reader_table :: "(string \<times> int) list" where
  \<comment> \<open>what the reader expects: the value fields with the protobuf type of their value\<close>
  "reader_table = map (\<lambda>(n, k, e). (n, if e then TYPE_STRING else kind_type k)) CONSTANT_OPTION_VALUE_FIELDS"

definition declared_table :: "FileDescriptorProto \<Rightarrow> (string \<times> int) list" where
  \<comment> \<open>what a file declares: the oneof members of its message \<open>Constant\<close> with their types\<close>
  "declared_table file = concat (map (\<lambda>m.
     map (\<lambda>f. (fname f, field_type f)) (filter (\<lambda>f. foneof_index f = Some 0) (mfields (msg_data m))))
     (filter (\<lambda>m. msg_name m = ''Constant'') (message_type file)))"

definition schema_table :: "message_schema list \<Rightarrow> (string \<times> int) list" where
  "schema_table ms = concat (map (\<lambda>(_, _, fs).
     map (\<lambda>(n, _, _, t, _, _). (n, t)) (filter (\<lambda>(_, _, _, _, _, i). i = Some 0) fs))
     (filter (\<lambda>(n, _, _). n = ''Constant'') ms))"

lemma declared_table_schema:
  "declared_table file = schema_table (map declared_message_schema (message_type file))"
  by (simp add: declared_table_def schema_table_def filter_map comp_def declared_message_schema_def
      option_field_schema_def)

lemma schema_table_fixed: "schema_table PROTOCYTE_OPTION_MESSAGE_SCHEMA = reader_table"
  unfolding schema_table_def PROTOCYTE_OPTION_MESSAGE_SCHEMA_def CONSTANT_SCHEMA_def
    ARRAY_OPTIONS_SCHEMA_def reader_table_def CONSTANT_OPTION_VALUE_FIELDS_def
  by (simp add: type_defs)

lemma accepted_table:
  "validate_protocyte_options_schema file = Inr () \<Longrightarrow> declared_table file = reader_table"
  by (simp add: validate_protocyte_options_schema_def declared_table_schema schema_table_fixed)

lemma distinct_value_fields: "distinct (map fst CONSTANT_OPTION_VALUE_FIELDS)"
  unfolding CONSTANT_OPTION_VALUE_FIELDS_def by simp

lemma reader_table_lookup:
  assumes "(n, t) \<in> set reader_table"
  obtains k e where "map_of CONSTANT_OPTION_VALUE_FIELDS n = Some (k, e)"
    and "t = (if e then TYPE_STRING else kind_type k)"
proof -
  from assms obtain k e where "(n, k, e) \<in> set CONSTANT_OPTION_VALUE_FIELDS"
    and t: "t = (if e then TYPE_STRING else kind_type k)"
    unfolding reader_table_def by auto
  then have "map_of CONSTANT_OPTION_VALUE_FIELDS n = Some (k, e)"
    by (simp add: map_of_eq_Some_iff distinct_value_fields)
  with t show thesis by (rule that [rotated])
qed

lemma value_fields_paired:
  "list_all (\<lambda>(n, k, e). e = endswith n ''_expr''
     \<and> (if e then map_of reader_table (removesuffix ''_expr'' n) = Some (kind_type k) else True)) CONSTANT_OPTION_VALUE_FIELDS"
  by code_simp

lemma value_field_twin:
  assumes "map_of CONSTANT_OPTION_VALUE_FIELDS n = Some (k, e)"
  shows "e = endswith n ''_expr''" and "e \<Longrightarrow> (removesuffix ''_expr'' n, kind_type k) \<in> set reader_table"
  using value_fields_paired map_of_SomeD [OF assms] by (auto simp: list_all_iff dest!: map_of_SomeD)

definition options_proto :: FileDescriptorProto where
  \<comment> \<open>the descriptor of the file the repository ships\<close>
  "options_proto = (let
     fld = (\<lambda>(n, k, l, t, tn, i). (plain_field n k t)\<lparr>flabel := Some l, ftype_name := tn, foneof_index := i\<rparr>);
     ext = (\<lambda>(n, k, l, t, tn, x). (plain_field n k t)\<lparr>flabel := Some l, ftype_name := tn, fextendee := x\<rparr>);
     msg = (\<lambda>(n, os, fs). Message ((msg_data (plain_message n (map fld fs)))\<lparr>moneofs := os\<rparr>) [])
   in (plain_file PROTOCYTE_OPTIONS_FILE_NAME [DESCRIPTOR_NAME] (map msg PROTOCYTE_OPTION_MESSAGE_SCHEMA))
        \<lparr>package := ''protocyte'', extension := map ext PROTOCYTE_OPTION_EXTENSION_SCHEMA\<rparr>)"

lemma options_proto_accepted: "validate_protocyte_options_schema options_proto = Inr ()"
  unfolding validate_protocyte_options_schema_def options_proto_def Let_def
    PROTOCYTE_OPTION_MESSAGE_SCHEMA_def CONSTANT_SCHEMA_def ARRAY_OPTIONS_SCHEMA_def
    PROTOCYTE_OPTION_EXTENSION_SCHEMA_def
  by (simp add: plain_file_def plain_message_def plain_field_def declared_message_schema_def
      option_field_schema_def option_extension_schema_def field_label_def field_type_def
      has_unexpected_members_def raise_if_def)

section \<open>Properties\<close>

text \<open>
  C20: once an options file has passed the schema check, a decoded \<open>Constant\<close> is always read as the
  file declares it, whichever of the declared oneof members is set. A member whose name ends in
  \<^verbatim>\<open>_expr\<close> holds text, and the reader takes it as an expression of the kind of its literal twin: the
  member without the suffix, which the file declares with the protobuf type of that kind. Any other
  member is taken as a literal of the kind whose protobuf type it is declared with. No payload of an
  accepted schema reaches the reader's error branch.
\<close>

theorem accepted_options_readable:
  assumes "validate_protocyte_options_schema file = Inr ()"
    and "(n, t) \<in> set (declared_table file)" and "cvalue item = Some (n, v)"
  shows "if endswith n ''_expr''
    then t = TYPE_STRING \<and> (\<exists>k. (removesuffix ''_expr'' n, kind_type k) \<in> set (declared_table file)
      \<and> constant_option str_of item =
        Inr \<lparr>raw_name = cname item, raw_kind = Some k, raw_literal = None, raw_expr = Some (str_of v)\<rparr>)
    else (\<exists>k. t = kind_type k \<and> constant_option str_of item =
        Inr \<lparr>raw_name = cname item, raw_kind = Some k, raw_literal = Some v, raw_expr = None\<rparr>)"
proof -
  note table = accepted_table [OF assms(1)]
  from assms(2) have "(n, t) \<in> set reader_table" unfolding table .
  then obtain k e where f: "map_of CONSTANT_OPTION_VALUE_FIELDS n = Some (k, e)"
    and t: "t = (if e then TYPE_STRING else kind_type k)" by (rule reader_table_lookup)
  note twin = value_field_twin [OF f]
  show ?thesis
  proof (cases e)
    case True
    then have "endswith n ''_expr''" using twin(1) by simp
    then show ?thesis unfolding if_P [OF \<open>endswith n ''_expr''\<close>] table
      using twin(2) True t assms(3) f by (intro conjI exI [of _ k]) (simp_all add: constant_option_def)
  next
    case False
    then have "\<not> endswith n ''_expr''" using twin(1) by simp
    then show ?thesis unfolding if_not_P [OF \<open>\<not> endswith n ''_expr''\<close>]
      using False t assms(3) f by (intro exI [of _ k]) (simp add: constant_option_def)
  qed
qed

lemma accepted_options_readable_witness:
  "\<exists>k. (''u32'', kind_type k) \<in> set (declared_table options_proto)
     \<and> constant_option id \<lparr>cname = ''N'', cvalue = Some (''u32_expr'', ''A + 1'')\<rparr> =
        Inr \<lparr>raw_name = ''N'', raw_kind = Some k, raw_literal = None, raw_expr = Some ''A + 1''\<rparr>"
proof -
  have "(''u32_expr'', TYPE_STRING) \<in> set (declared_table options_proto)"
    unfolding accepted_table [OF options_proto_accepted] reader_table_def CONSTANT_OPTION_VALUE_FIELDS_def
    by (simp add: type_defs)
  note readable = accepted_options_readable [OF options_proto_accepted this, of
      "\<lparr>cname = ''N'', cvalue = Some (''u32_expr'', ''A + 1'')\<rparr>" "''A + 1''" id]
  have expr: "endswith ''u32_expr'' ''_expr''" and stem: "removesuffix ''_expr'' ''u32_expr'' = ''u32''" by code_simp+
  from readable show ?thesis unfolding if_P [OF expr] stem by simp
qed

end
