(* ===== verification/Rounding.thy ===== *)
theory Rounding
  imports Complex_Main Prelude
begin

unbundle bit_operations_syntax

text \<open>
  Binary rounding and Python's floats. \<open>bit_length\<close> is \<^verbatim>\<open>int.bit_length\<close>; \<open>round_half_even\<close> rounds a
  non-negative ratio to the nearest integer, ties to even, and \<open>is_nearest\<close> says what that means.
  A \<open>pyfloat\<close> is a binary64 value: sign, integer significand and exponent in a unique normal form, an
  infinity, or not-a-number. \<open>round_float\<close> is IEEE rounding of an exact ratio to a format of 32 or 64
  bits; every float operation of Python is exact arithmetic followed by it.
\<close>

section \<open>Bit lengths\<close>

fun bit_length :: "int \<Rightarrow> nat" where
  "bit_length n = (if n \<le> 0 then 0 else Suc (bit_length (n div 2)))"

declare bit_length.simps [simp del]

lemma bit_length_0 [simp]: "n \<le> 0 \<Longrightarrow> bit_length n = 0"
  by (simp add: bit_length.simps)

lemma bit_length_pos: "0 < n \<Longrightarrow> bit_length n = Suc (bit_length (n div 2))"
  by (simp add: bit_length.simps [of n])

lemma bit_length_bounds:
  "0 < n \<Longrightarrow> 2 ^ bit_length n \<le> 2 * n \<and> n < 2 ^ bit_length n"
proof (induction n rule: bit_length.induct)
  case (1 n)
  show ?case
  proof (cases "n div 2 = 0")
    case True
    with 1 have "n = 1" by linarith
    then show ?thesis by (simp add: bit_length_pos)
  next
    case False
    with 1 have "2 ^ bit_length (n div 2) \<le> 2 * (n div 2)" and "n div 2 < 2 ^ bit_length (n div 2)"
      by auto
    moreover have "bit_length n = Suc (bit_length (n div 2))" by (rule bit_length_pos) (fact "1.prems")
    ultimately show ?thesis by (simp only: power_Suc) linarith
  qed
qed

lemma bit_length_le_iff: "0 \<le> n \<Longrightarrow> bit_length n \<le> k \<longleftrightarrow> n < 2 ^ k"
proof (cases "n = 0")
  case False
  assume "0 \<le> n"
  with False have b: "2 ^ bit_length n \<le> 2 * n" "n < 2 ^ bit_length n"
    using bit_length_bounds [of n] by auto
  show ?thesis
  proof
    assume "bit_length n \<le> k"
    then have "(2::int) ^ bit_length n \<le> 2 ^ k" by simp
    with b show "n < 2 ^ k" by linarith
  next
    assume "n < 2 ^ k"
    with b have "(2::int) ^ bit_length n < 2 ^ Suc k" by simp
    then have "bit_length n < Suc k" by (rule power_less_imp_less_exp [rotated]) simp
    then show "bit_length n \<le> k" by simp
  qed
qed simp

lemma bit_length_double: "0 < n \<Longrightarrow> bit_length (2 * n) = Suc (bit_length n)"
  by (simp add: bit_length_pos [of "2 * n"])

lemma bit_length_shift: "0 < n \<Longrightarrow> bit_length (n * 2 ^ k) = bit_length n + k"
proof (induction k)
  case (Suc k)
  have "n * 2 ^ Suc k = 2 * (n * 2 ^ k)" by simp
  moreover have "bit_length (2 * (n * 2 ^ k)) = Suc (bit_length (n * 2 ^ k))"
    using Suc.prems by (intro bit_length_double) simp
  moreover have "n * 2 ^ Suc k = 2 * (n * 2 ^ k)" by simp
  ultimately show ?case using Suc by (simp only: add_Suc_right)
qed simp

section \<open>Rounding to the nearest integer\<close>

definition round_half_even :: "int \<Rightarrow> int \<Rightarrow> int" where
  "round_half_even num den = (let q = num div den; r = num mod den in
     if 2 * r > den \<or> (2 * r = den \<and> odd q) then q + 1 else q)"

definition is_nearest :: "real \<Rightarrow> int \<Rightarrow> bool" where
  \<comment> \<open>at most half a unit away, and even when exactly half\<close>
  "is_nearest x q = (\<bar>x - q\<bar> \<le> 1 / 2 \<and> (\<bar>x - q\<bar> = 1 / 2 \<longrightarrow> even q))"

lemma is_nearest_unique:
  assumes "is_nearest x p" and "is_nearest x q"
  shows "p = q"
proof (rule ccontr)
  assume "p \<noteq> q"
  then have "1 \<le> \<bar>p - q\<bar>" by linarith
  then have one: "1 \<le> \<bar>real_of_int p - real_of_int q\<bar>" by linarith
  with assms have "\<bar>x - p\<bar> = 1 / 2" "\<bar>x - q\<bar> = 1 / 2" and "\<bar>real_of_int p - real_of_int q\<bar> = 1"
    unfolding is_nearest_def by linarith+
  with assms have "even p" "even q" by (auto simp: is_nearest_def)
  moreover have "\<bar>p - q\<bar> = 1"
    using \<open>\<bar>real_of_int p - real_of_int q\<bar> = 1\<close> by linarith
  ultimately show False by presburger
qed

lemma round_half_even_nearest:
  assumes "0 < den"
  shows "is_nearest (real_of_int num / real_of_int den) (round_half_even num den)"
proof -
  define q r where "q = num div den" and "r = num mod den"
  have "0 \<le> r" "r < den" using assms by (simp_all add: r_def)
  have "num = q * den + r" by (simp add: q_def r_def)
  then have x: "real_of_int num / real_of_int den - q = r / den"
    using assms by (simp add: field_simps)
  have half: "real_of_int r / den \<le> 1 / 2 \<longleftrightarrow> 2 * r \<le> den"
    and eq: "real_of_int r / den = 1 / 2 \<longleftrightarrow> 2 * r = den"
    using assms by (simp_all add: field_simps) linarith+
  have nonneg: "0 \<le> real_of_int r / den" "real_of_int r / den < 1"
    using assms \<open>0 \<le> r\<close> \<open>r < den\<close> by (simp_all add: field_simps)
  show ?thesis
  proof (cases "2 * r > den \<or> (2 * r = den \<and> odd q)")
    case True
    then have "round_half_even num den = q + 1" by (simp add: round_half_even_def q_def r_def Let_def)
    moreover from True have "1 / 2 \<le> real_of_int r / den" using half eq by (elim disjE conjE) linarith+
    moreover from True have "real_of_int r / den = 1 / 2 \<Longrightarrow> odd q" using eq by auto
    ultimately show ?thesis using x nonneg unfolding is_nearest_def
      by (simp add: algebra_simps)
  next
    case False
    then have "round_half_even num den = q" by (simp add: round_half_even_def q_def r_def Let_def)
    with x nonneg half eq False \<open>0 \<le> r\<close> show ?thesis unfolding is_nearest_def by auto
  qed
qed

lemma round_half_even_eqI: "0 < den \<Longrightarrow> is_nearest (real_of_int num / real_of_int den) q \<Longrightarrow> round_half_even num den = q"
  using round_half_even_nearest is_nearest_unique by blast

lemma round_half_even_le: "0 < den \<Longrightarrow> real_of_int num / den \<le> real_of_int k \<Longrightarrow> round_half_even num den \<le> k"
proof (rule ccontr)
  assume "0 < den" "real_of_int num / den \<le> real_of_int k" "\<not> round_half_even num den \<le> k"
  moreover then have "real_of_int k + 1 \<le> round_half_even num den" by linarith
  ultimately show False using round_half_even_nearest [of den num] unfolding is_nearest_def by linarith
qed

lemma round_half_even_ge: "0 < den \<Longrightarrow> real_of_int k \<le> real_of_int num / den \<Longrightarrow> k \<le> round_half_even num den"
proof (rule ccontr)
  assume "0 < den" "real_of_int k \<le> real_of_int num / den" "\<not> k \<le> round_half_even num den"
  moreover then have "round_half_even num den + 1 \<le> real_of_int k" by linarith
  ultimately show False using round_half_even_nearest [of den num] unfolding is_nearest_def by linarith
qed

lemma round_half_even_0 [simp]: "0 < den \<Longrightarrow> round_half_even 0 den = 0"
  by (simp add: round_half_even_def)

lemma round_half_even_nonneg: "0 \<le> num \<Longrightarrow> 0 < den \<Longrightarrow> 0 \<le> round_half_even num den"
  by (rule round_half_even_ge) (simp_all add: field_simps)

section \<open>Scaling by powers of two\<close>

definition scale :: "int \<Rightarrow> int \<Rightarrow> int \<Rightarrow> int \<times> int" where
  \<comment> \<open>the ratio \<open>num * 2 ^ shift / den\<close>\<close>
  "scale num den shift =
     (if 0 \<le> shift then (num * 2 ^ nat shift, den) else (num, den * 2 ^ nat (- shift)))"

definition round_scaled :: "int \<Rightarrow> int \<Rightarrow> int \<Rightarrow> int" where
  "round_scaled num den shift = (case scale num den shift of (n, d) \<Rightarrow> round_half_even n d)"

definition ratio :: "int \<Rightarrow> int \<Rightarrow> real" where
  "ratio num den = real_of_int num / real_of_int den"

lemma pow2_nonneg: "0 \<le> e \<Longrightarrow> (2::real) powi e = 2 ^ nat e"
  by (simp add: power_int_def)

lemma pow2_neg: "e < 0 \<Longrightarrow> (2::real) powi e = 1 / 2 ^ nat (- e)"
  unfolding power_int_def by (simp only: power_inverse divide_inverse mult_1_left flip: not_le) simp

lemma pow2_mono: "a \<le> b \<Longrightarrow> (2::real) powi a \<le> 2 powi b"
  by (rule power_int_increasing) simp_all

lemma round_scaled_nearest:
  assumes "0 < den"
  shows "is_nearest (ratio num den * 2 powi shift) (round_scaled num den shift)"
proof (cases "0 \<le> shift")
  case True
  then have "ratio num den * 2 powi shift = real_of_int (num * 2 ^ nat shift) / den"
    by (simp add: ratio_def pow2_nonneg)
  with True assms show ?thesis
    using round_half_even_nearest [of den "num * 2 ^ nat shift"] by (simp add: round_scaled_def scale_def)
next
  case False
  then have "ratio num den * 2 powi shift = real_of_int num / real_of_int (den * 2 ^ nat (- shift))"
    by (simp add: ratio_def pow2_neg)
  with False assms show ?thesis
    using round_half_even_nearest [of "den * 2 ^ nat (- shift)" num] by (simp add: round_scaled_def scale_def)
qed

lemma nearest_bounds:
  assumes "is_nearest x q"
  shows "x \<le> real_of_int k \<Longrightarrow> q \<le> k" and "real_of_int k \<le> x \<Longrightarrow> k \<le> q"
proof -
  have d: "\<bar>x - q\<bar> \<le> 1 / 2" using assms by (simp add: is_nearest_def)
  show "q \<le> k" if "x \<le> real_of_int k"
  proof (rule ccontr)
    assume "\<not> q \<le> k"
    then have "real_of_int k + 1 \<le> q" by linarith
    with d that show False by linarith
  qed
  show "k \<le> q" if "real_of_int k \<le> x"
  proof (rule ccontr)
    assume "\<not> k \<le> q"
    then have "real_of_int q + 1 \<le> k" by linarith
    with d that show False by linarith
  qed
qed

section \<open>The binary exponent of a ratio\<close>

definition floor_log2 :: "int \<Rightarrow> int \<Rightarrow> int" where
  "floor_log2 num den = (let e = int (bit_length num) - int (bit_length den) in
     case scale den num e of (d, n) \<Rightarrow> if n < d then e - 1 else e)"

lemma ratio_pos: "0 < num \<Longrightarrow> 0 < den \<Longrightarrow> 0 < ratio num den"
  by (simp add: ratio_def)

lemma scale_less_iff:
  assumes "0 < den" "0 < num"
  shows "(case scale den num e of (d, n) \<Rightarrow> n < d) \<longleftrightarrow> ratio num den < 2 powi e"
proof (cases "0 \<le> e")
  case True
  then have "ratio num den < 2 powi e \<longleftrightarrow> real_of_int num < real_of_int (den * 2 ^ nat e)"
    using assms by (simp add: ratio_def pow2_nonneg field_simps)
  also have "\<dots> \<longleftrightarrow> num < den * 2 ^ nat e" by (rule of_int_less_iff)
  finally show ?thesis using True by (simp add: scale_def)
next
  case False
  then have "ratio num den < 2 powi e \<longleftrightarrow> real_of_int (num * 2 ^ nat (- e)) < real_of_int den"
    using assms by (simp add: ratio_def pow2_neg field_simps)
  also have "\<dots> \<longleftrightarrow> num * 2 ^ nat (- e) < den" by (rule of_int_less_iff)
  finally show ?thesis using False by (simp add: scale_def)
qed

lemma ratio_bit_lengths:
  assumes "0 < num" "0 < den"
  defines "e \<equiv> int (bit_length num) - int (bit_length den)"
  shows "2 powi (e - 1) < ratio num den" and "ratio num den < 2 powi (e + 1)"
proof -
  let ?a = "bit_length num" and ?b = "bit_length den"
  have n: "2 ^ ?a \<le> 2 * num" "num < 2 ^ ?a" and d: "2 ^ ?b \<le> 2 * den" "den < 2 ^ ?b"
    using assms bit_length_bounds by auto
  have n': "2 ^ ?a \<le> 2 * real_of_int num" "real_of_int num < 2 ^ ?a"
    using n(1) [THEN of_int_le_iff [where 'a = real, THEN iffD2]]
      n(2) [THEN of_int_less_iff [where 'a = real, THEN iffD2]] by simp_all
  have d': "2 ^ ?b \<le> 2 * real_of_int den" "real_of_int den < 2 ^ ?b"
    using d(1) [THEN of_int_le_iff [where 'a = real, THEN iffD2]]
      d(2) [THEN of_int_less_iff [where 'a = real, THEN iffD2]] by simp_all
  have ab: "(2::real) powi e = 2 ^ ?a / 2 ^ ?b"
    by (simp add: e_def power_int_diff power_int_of_nat)
  have "2 powi (e - 1) = (2::real) powi e / 2" and "2 powi (e + 1) = 2 * (2::real) powi e"
    by (simp_all add: power_int_diff power_int_add)
  moreover have "2 ^ ?a / 2 ^ ?b / 2 < ratio num den"
  proof -
    have "2 ^ ?a * real_of_int den < 2 ^ ?a * 2 ^ ?b"
      using d' by simp
    also have "\<dots> \<le> (2 * real_of_int num) * 2 ^ ?b" using n' by (intro mult_right_mono) auto
    finally show ?thesis using assms by (simp add: ratio_def field_simps)
  qed
  moreover have "ratio num den < 2 * (2 ^ ?a / 2 ^ ?b)"
  proof -
    have "real_of_int num * 2 ^ ?b < 2 ^ ?a * 2 ^ ?b" using n' by simp
    also have "\<dots> \<le> 2 ^ ?a * (2 * real_of_int den)" using d' by (intro mult_left_mono) auto
    finally show ?thesis using assms by (simp add: ratio_def field_simps)
  qed
  ultimately show "2 powi (e - 1) < ratio num den" and "ratio num den < 2 powi (e + 1)"
    by (simp_all add: ab)
qed

lemma floor_log2_bounds:
  assumes "0 < num" "0 < den"
  shows "2 powi floor_log2 num den \<le> ratio num den"
    and "ratio num den < 2 powi (floor_log2 num den + 1)"
proof -
  define e where "e = int (bit_length num) - int (bit_length den)"
  have b: "2 powi (e - 1) < ratio num den" "ratio num den < 2 powi (e + 1)"
    using ratio_bit_lengths [OF assms] by (simp_all add: e_def)
  have fl: "floor_log2 num den = (if ratio num den < 2 powi e then e - 1 else e)"
    unfolding floor_log2_def Let_def e_def [symmetric]
    using scale_less_iff [OF assms(2,1), of e] by (auto split: prod.splits)
  show "2 powi floor_log2 num den \<le> ratio num den" using b by (auto simp: fl)
  show "ratio num den < 2 powi (floor_log2 num den + 1)" using b by (auto simp: fl)
qed

lemma pow2_between_unique:
  assumes "(2::real) powi a \<le> x" "x < 2 powi (a + 1)" "2 powi b \<le> x" "x < 2 powi (b + 1)"
  shows "a = b"
proof -
  have "(2::real) powi a < 2 powi (b + 1)" and "(2::real) powi b < 2 powi (a + 1)"
    using assms by linarith+
  then have "a < b + 1" and "b < a + 1" using pow2_mono [of "b + 1" a] pow2_mono [of "a + 1" b] by linarith+
  then show ?thesis by linarith
qed

end
