(* ===== verification/PyFloat.thy ===== *)
theory PyFloat
  imports Rounding
begin

text \<open>
  Python's floats: binary64 values in a normal form (significand below \<open>2 ^ 53\<close>, at least \<open>2 ^ 52\<close>
  unless the exponent is the least one), infinities and not-a-number. \<open>round_float\<close> rounds an exact
  ratio to the nearest value of a binary format; \<open>round_float_nearest\<close> shows that no value of the
  format is nearer. The operations the source applies to floats are exact arithmetic on
  significands followed by that rounding.
\<close>

datatype pyfloat = FFin bool int int | FInf bool | FNan

section \<open>The normal form\<close>

definition shift_int :: "int \<Rightarrow> int \<Rightarrow> int" where
  "shift_int m k = (if 0 \<le> k then m * 2 ^ nat k else m div 2 ^ nat (- k))"

definition normalize :: "bool \<Rightarrow> int \<Rightarrow> int \<Rightarrow> pyfloat" where
  \<comment> \<open>the float of the magnitude \<open>m * 2 ^ e\<close>\<close>
  "normalize neg m e =
     (if m \<le> 0 then FFin neg 0 (-1074)
      else let k = min (53 - int (bit_length m)) (e + 1074) in FFin neg (shift_int m k) (e - k))"

fun wf_float :: "pyfloat \<Rightarrow> bool" where
  "wf_float (FFin neg m e) =
     (0 \<le> m \<and> m < 2 ^ 53 \<and> -1074 \<le> e \<and> e \<le> 971 \<and> (m < 2 ^ 52 \<longrightarrow> e = -1074))"
| "wf_float _ = True"

fun is_finite :: "pyfloat \<Rightarrow> bool" where
  "is_finite (FFin _ _ _) = True"
| "is_finite _ = False"

fun magnitude :: "pyfloat \<Rightarrow> real" where
  "magnitude (FFin neg m e) = real_of_int m * 2 powi e"
| "magnitude _ = 0"

fun negative :: "pyfloat \<Rightarrow> bool" where
  "negative (FFin neg m e) = neg"
| "negative (FInf neg) = neg"
| "negative FNan = False"

definition float_value :: "pyfloat \<Rightarrow> real" where
  "float_value x = (if negative x then - magnitude x else magnitude x)"

lemma powi_add2: "(2::real) powi (a + b) = 2 powi a * 2 powi b"
  by (simp add: power_int_add)

lemma shift_int_value:
  assumes "k < 0 \<Longrightarrow> 2 ^ nat (- k) dvd m"
  shows "real_of_int (shift_int m k) = real_of_int m * 2 powi k"
proof (cases "0 \<le> k")
  case False
  with assms have "m div 2 ^ nat (- k) * 2 ^ nat (- k) = m" by simp
  then have "real_of_int (m div 2 ^ nat (- k)) * 2 ^ nat (- k) = real_of_int m"
    by (metis of_int_mult of_int_power of_int_numeral)
  with False show ?thesis by (simp add: shift_int_def pow2_neg field_simps)
qed (simp add: shift_int_def pow2_nonneg)

lemma shift_int_double: "shift_int (2 * m) k = shift_int m (k + 1)"
proof -
  consider "0 \<le> k" | "k = -1" | "k < -1" by linarith
  then show ?thesis
  proof cases
    case 1
    then have "nat (k + 1) = Suc (nat k)" by simp
    with 1 show ?thesis by (simp add: shift_int_def)
  next
    case 2
    then show ?thesis by (simp add: shift_int_def)
  next
    case 3
    then have "nat (- k) = Suc (nat (- (k + 1)))" by simp
    with 3 show ?thesis by (simp add: shift_int_def)
  qed
qed

lemma normalize_double: "0 < m \<Longrightarrow> normalize neg (2 * m) e = normalize neg m (e + 1)"
proof -
  assume "0 < m"
  let ?k = "min (53 - int (bit_length (2 * m))) (e + 1074)"
  have "min (53 - int (bit_length m)) (e + 1 + 1074) = ?k + 1"
    using \<open>0 < m\<close> by (simp add: bit_length_double min_def)
  with \<open>0 < m\<close> show ?thesis by (simp add: normalize_def Let_def shift_int_double)
qed

lemma normalize_scale: "0 < m \<Longrightarrow> normalize neg (m * 2 ^ k) e = normalize neg m (e + int k)"
proof (induction k arbitrary: e)
  case (Suc k)
  have "normalize neg (m * 2 ^ Suc k) e = normalize neg (2 * (m * 2 ^ k)) e" by (simp add: ac_simps)
  also have "\<dots> = normalize neg (m * 2 ^ k) (e + 1)" using Suc.prems by (intro normalize_double) simp
  also have "\<dots> = normalize neg m (e + 1 + int k)" using Suc by simp
  finally show ?case by (simp add: ac_simps)
qed simp

lemma normalize_small:
  assumes "0 < m" "m < 2 ^ 53" "-1074 \<le> e" "int (bit_length m) + e \<le> 1024"
  shows "wf_float (normalize neg m e)" and "magnitude (normalize neg m e) = real_of_int m * 2 powi e"
    and "negative (normalize neg m e) = neg" and "is_finite (normalize neg m e)"
proof -
  define k where "k = min (53 - int (bit_length m)) (e + 1074)"
  have bl: "bit_length m \<le> 53" using assms bit_length_le_iff [of m 53] by simp
  have k: "0 \<le> k" using bl assms by (simp add: k_def)
  define s where "s = m * 2 ^ nat k"
  have norm: "normalize neg m e = FFin neg s (e - k)"
    using assms(1) k by (simp add: normalize_def k_def [symmetric] Let_def shift_int_def s_def)
  have sbl: "int (bit_length s) = int (bit_length m) + k"
    using bit_length_shift [OF assms(1), of "nat k"] k by (simp add: s_def)
  have "0 < s" using assms(1) by (simp add: s_def)
  have up: "s < 2 ^ 53"
  proof -
    have "k \<le> 53 - int (bit_length m)" unfolding k_def by (rule min.cobounded1)
    with sbl have "bit_length s \<le> 53" by linarith
    with bit_length_le_iff [of s 53] \<open>0 < s\<close> show ?thesis by simp
  qed
  have low: "e - k = -1074" if "s < 2 ^ 52"
  proof -
    have "int (bit_length s) \<le> 52" using that bit_length_le_iff [of s 52] \<open>0 < s\<close> by simp
    then show ?thesis using sbl by (simp add: k_def min_def split: if_splits)
  qed
  have "-1074 \<le> e - k" by (simp add: k_def)
  moreover have "e - k \<le> 971" using assms(4) by (simp add: k_def min_def)
  ultimately show "wf_float (normalize neg m e)" using up low \<open>0 < s\<close> by (simp add: norm)
  have "(2::real) powi k * 2 powi (e - k) = 2 powi e" by (simp flip: powi_add2)
  then show "magnitude (normalize neg m e) = real_of_int m * 2 powi e"
    using k by (simp add: norm s_def pow2_nonneg)
  show "negative (normalize neg m e) = neg" "is_finite (normalize neg m e)" by (simp_all add: norm)
qed

lemma normalize_bounded:
  \<comment> \<open>a rounded significand may be a full \<open>2 ^ p\<close>\<close>
  assumes "0 < m" "m \<le> 2 ^ p" "p \<le> 53" "-1074 \<le> e" "int (bit_length m) + e \<le> 1024" "0 < p"
  shows "wf_float (normalize neg m e)" and "magnitude (normalize neg m e) = real_of_int m * 2 powi e"
    and "negative (normalize neg m e) = neg" and "is_finite (normalize neg m e)"
proof -
  have "wf_float (normalize neg m e) \<and> magnitude (normalize neg m e) = real_of_int m * 2 powi e
    \<and> negative (normalize neg m e) = neg \<and> is_finite (normalize neg m e)"
  proof (cases "m < 2 ^ 53")
    case True
    with assms normalize_small [of m e neg] show ?thesis by simp
  next
    case False
    have "(2::int) ^ p \<le> 2 ^ 53" using assms(3) by (rule power_increasing) simp
    with False assms(2) have m: "m = 2 * 2 ^ 52" by simp
    have "bit_length m = Suc (bit_length (2 ^ 52))" unfolding m by (rule bit_length_double) simp
    with assms(5) have "int (bit_length (2 ^ 52)) + (e + 1) \<le> 1024" by simp
    moreover have "normalize neg m e = normalize neg (2 ^ 52) (e + 1)"
      unfolding m by (rule normalize_double) simp
    moreover have "(2::real) powi (e + 1) = 2 * 2 powi e" by (simp add: powi_add2)
    ultimately show ?thesis
      using normalize_small [of "2 ^ 52" "e + 1" neg] assms(4) by (simp add: m)
  qed
  then show "wf_float (normalize neg m e)" "magnitude (normalize neg m e) = real_of_int m * 2 powi e"
    "negative (normalize neg m e) = neg" "is_finite (normalize neg m e)" by simp_all
qed

lemma normalize_zero [simp]: "normalize neg 0 e = FFin neg 0 (-1074)"
  by (simp add: normalize_def)

section \<open>Rounding to a format\<close>

definition format_precision :: "int \<Rightarrow> nat" where
  "format_precision width = (if width = 32 then 24 else 53)"

definition format_min :: "int \<Rightarrow> int" where
  "format_min width = (if width = 32 then -126 else -1022)"

definition format_max :: "int \<Rightarrow> int" where
  "format_max width = (if width = 32 then 127 else 1023)"

definition quantum :: "int \<Rightarrow> int \<Rightarrow> int \<Rightarrow> int" where
  \<comment> \<open>the exponent of the last place of the format at a ratio\<close>
  "quantum width num den =
     max (floor_log2 num den) (format_min width) - (int (format_precision width) - 1)"

definition overflows :: "int \<Rightarrow> int \<Rightarrow> int \<Rightarrow> bool" where
  "overflows width m e = (int (bit_length m) + e > format_max width + 1)"

definition round_float :: "int \<Rightarrow> bool \<Rightarrow> int \<Rightarrow> int \<Rightarrow> pyfloat" where
  "round_float width neg num den =
     (if num = 0 then normalize neg 0 0
      else let e = quantum width num den; m = round_scaled num den (- e) in
        if overflows width m e then FInf neg else normalize neg m e)"

definition representable :: "int \<Rightarrow> real \<Rightarrow> bool" where
  "representable width y \<longleftrightarrow> (\<exists>m e. \<bar>m\<bar> < 2 ^ format_precision width
     \<and> format_min width - (int (format_precision width) - 1) \<le> e \<and> y = real_of_int m * 2 powi e)"

lemmas format_defs = format_precision_def format_min_def format_max_def

lemma precision_bounds: "0 < format_precision width" "format_precision width \<le> 53"
  by (simp_all add: format_precision_def)

lemma quantum_least:
  "format_min width - (int (format_precision width) - 1) \<le> quantum width num den"
  "-1074 \<le> quantum width num den"
  by (simp_all add: quantum_def format_defs max_def)

lemma round_scaled_upper:
  assumes "0 < num" "0 < den"
  shows "round_scaled num den (- quantum width num den) \<le> 2 ^ format_precision width"
    and "0 \<le> round_scaled num den (- quantum width num den)"
proof -
  let ?e = "quantum width num den" and ?p = "format_precision width"
  have near: "is_nearest (ratio num den * 2 powi (- ?e)) (round_scaled num den (- ?e))"
    using assms(2) by (rule round_scaled_nearest)
  have "floor_log2 num den + 1 \<le> ?e + int ?p" by (simp add: quantum_def)
  then have "(2::real) powi (floor_log2 num den + 1) \<le> 2 powi (?e + int ?p)" by (rule pow2_mono)
  with floor_log2_bounds(2) [OF assms] have "ratio num den < 2 powi (?e + int ?p)" by linarith
  then have "ratio num den * 2 powi (- ?e) < 2 powi (?e + int ?p) * 2 powi (- ?e)" by simp
  also have "\<dots> = 2 powi int ?p" by (simp flip: powi_add2)
  finally have "ratio num den * 2 powi (- ?e) \<le> real_of_int (2 ^ ?p)" by (simp add: power_int_of_nat)
  then show "round_scaled num den (- ?e) \<le> 2 ^ ?p" by (rule nearest_bounds(1) [OF near])
  show "0 \<le> round_scaled num den (- ?e)"
    by (rule nearest_bounds(2) [OF near]) (use ratio_pos [OF assms] in simp)
qed

lemma round_float_value:
  fixes width num den :: int
  assumes "0 < num" "0 < den"
  defines "e \<equiv> quantum width num den" and "m \<equiv> round_scaled num den (- quantum width num den)"
  assumes "\<not> overflows width m e"
  shows "magnitude (round_float width neg num den) = real_of_int m * 2 powi e"
    and "wf_float (round_float width neg num den)"
    and "negative (round_float width neg num den) = neg"
    and "is_finite (round_float width neg num den)"
proof -
  have r: "round_float width neg num den = normalize neg m e"
    using assms by (simp add: round_float_def Let_def e_def m_def)
  have mb: "0 \<le> m" "m \<le> 2 ^ format_precision width"
    using round_scaled_upper [OF assms(1,2)] by (simp_all add: m_def)
  have "magnitude (normalize neg m e) = real_of_int m * 2 powi e \<and> wf_float (normalize neg m e)
    \<and> negative (normalize neg m e) = neg \<and> is_finite (normalize neg m e)"
  proof (cases "m = 0")
    case False
    have "int (bit_length m) + e \<le> 1024"
      using assms(5) by (simp add: overflows_def format_defs split: if_splits)
    with False mb normalize_bounded [of m "format_precision width" e neg] precision_bounds
      quantum_least(2) show ?thesis by (simp add: e_def)
  qed simp
  then show "magnitude (round_float width neg num den) = real_of_int m * 2 powi e"
    "wf_float (round_float width neg num den)" "negative (round_float width neg num den) = neg"
    "is_finite (round_float width neg num den)" by (simp_all add: r)
qed

text \<open>No value of the format is nearer: values on the grid of the last place are compared by
  \<open>is_nearest\<close>, and the values off that grid lie below the binade of the ratio.\<close>

lemma nearest_closest:
  assumes "is_nearest x q"
  shows "\<bar>x - real_of_int q\<bar> \<le> \<bar>x - real_of_int k\<bar>"
proof (cases "q = k")
  case False
  then have "1 \<le> \<bar>q - k\<bar>" by linarith
  then have "1 \<le> \<bar>real_of_int q - real_of_int k\<bar>" by linarith
  with assms show ?thesis unfolding is_nearest_def by linarith
qed simp

lemma closest_on_grid:
  assumes near: "is_nearest (x * 2 powi (- e)) q" and y: "y = real_of_int m * 2 powi e"
  shows "\<bar>x - real_of_int q * 2 powi e\<bar> \<le> \<bar>x - y\<bar>"
proof -
  have scale: "\<bar>x - real_of_int k * 2 powi e\<bar> = \<bar>x * 2 powi (- e) - real_of_int k\<bar> * 2 powi e" for k
  proof -
    have "x - real_of_int k * 2 powi e = (x * 2 powi (- e) - real_of_int k) * 2 powi e"
      by (simp add: left_diff_distrib mult.assoc flip: powi_add2)
    then show ?thesis by (simp add: abs_mult)
  qed
  show ?thesis unfolding y scale by (intro mult_right_mono nearest_closest near) simp
qed

lemma round_float_nearest:
  assumes "0 < num" "0 < den" "representable width y"
    and fin: "is_finite (round_float width neg num den)"
  shows "\<bar>ratio num den - magnitude (round_float width neg num den)\<bar> \<le> \<bar>ratio num den - y\<bar>"
proof -
  let ?x = "ratio num den" and ?e = "quantum width num den" and ?p = "format_precision width"
  let ?m = "round_scaled num den (- ?e)"
  have no: "\<not> overflows width ?m ?e"
    using fin assms(1) by (auto simp: round_float_def Let_def split: if_splits)
  have near: "is_nearest (?x * 2 powi (- ?e)) ?m" using assms(2) by (rule round_scaled_nearest)
  from assms(3) obtain m e where y: "y = real_of_int m * 2 powi e" and m: "\<bar>m\<bar> < 2 ^ ?p"
    and e: "format_min width - (int ?p - 1) \<le> e" unfolding representable_def by blast
  have "\<bar>?x - real_of_int ?m * 2 powi ?e\<bar> \<le> \<bar>?x - y\<bar>"
  proof (cases "?e \<le> e")
    case True
    have "(2::real) powi e = 2 ^ nat (e - ?e) * 2 powi ?e"
      using True by (simp flip: powi_add2 pow2_nonneg)
    then have "y = real_of_int (m * 2 ^ nat (e - ?e)) * 2 powi ?e" by (simp add: y)
    with near show ?thesis by (rule closest_on_grid)
  next
    case False
    let ?f = "floor_log2 num den"
    have f: "?e = ?f - (int ?p - 1)" using False e by (simp add: quantum_def max_def split: if_splits)
    have "real_of_int m \<le> 2 ^ ?p"
      using m by (metis abs_le_D1 of_int_le_iff of_int_power of_int_numeral order_less_imp_le)
    then have "y \<le> 2 ^ ?p * 2 powi e" unfolding y by (rule mult_right_mono) simp
    also have "\<dots> = 2 powi (int ?p + e)" by (simp add: powi_add2 power_int_of_nat)
    also have "\<dots> \<le> 2 powi ?f" using False f by (intro pow2_mono) linarith
    finally have "y \<le> 2 powi ?f" .
    moreover have "2 powi ?f \<le> ?x" using floor_log2_bounds(1) [OF assms(1,2)] .
    moreover have "(2::real) powi ?f = real_of_int (2 ^ (?p - 1)) * 2 powi ?e"
      using precision_bounds(1) [of width] unfolding f
      by (simp add: of_nat_diff flip: power_int_of_nat powi_add2)
    then have "\<bar>?x - real_of_int ?m * 2 powi ?e\<bar> \<le> \<bar>?x - 2 powi ?f\<bar>"
      by (rule closest_on_grid [OF near])
    ultimately show ?thesis by linarith
  qed
  then show ?thesis using round_float_value(1) [OF assms(1,2) no] by simp
qed

lemma floor_log2_cong:
  assumes "0 < num" "0 < den" "0 < num'" "0 < den'" "ratio num den = ratio num' den'"
  shows "floor_log2 num den = floor_log2 num' den'"
  using floor_log2_bounds [OF assms(1,2)] floor_log2_bounds [OF assms(3,4)] assms(5)
  by (intro pow2_between_unique) simp_all

lemma round_scaled_cong:
  assumes "0 < den" "0 < den'" "ratio num den = ratio num' den'"
  shows "round_scaled num den s = round_scaled num' den' s"
  using round_scaled_nearest [OF assms(1), of num s] round_scaled_nearest [OF assms(2), of num' s] assms(3)
  by (intro is_nearest_unique) simp_all

lemma round_float_cong:
  assumes "0 < num" "0 < den" "0 < num'" "0 < den'" "ratio num den = ratio num' den'"
  shows "round_float width neg num den = round_float width neg num' den'"
  using assms floor_log2_cong [OF assms] round_scaled_cong [OF assms(2,4,5)]
  by (simp add: round_float_def quantum_def Let_def)

section \<open>Numbers\<close>

datatype number = PInt int | PFloat pyfloat

definition lowest :: "int \<Rightarrow> int \<Rightarrow> int \<times> int" where
  "lowest n d = (let g = gcd n d in (n div g, d div g))"

definition dyadic :: "int \<Rightarrow> int \<Rightarrow> int \<times> int" where
  \<comment> \<open>\<open>m * 2 ^ e\<close> as a ratio in lowest terms, \<^verbatim>\<open>float.as_integer_ratio\<close> of the magnitude\<close>
  "dyadic m e = (if 0 \<le> e then (m * 2 ^ nat e, 1) else lowest m (2 ^ nat (- e)))"

lemma lowest_ratio:
  assumes "0 < d"
  shows "ratio (fst (lowest n d)) (snd (lowest n d)) = ratio n d"
    and "0 < snd (lowest n d)" and "0 < n \<Longrightarrow> 0 < fst (lowest n d)"
    and "0 \<le> n \<Longrightarrow> 0 \<le> fst (lowest n d)" and "coprime (fst (lowest n d)) (snd (lowest n d))"
proof -
  let ?g = "gcd n d"
  have g: "0 < ?g" using assms by simp
  have n: "n = n div ?g * ?g" and d: "d = d div ?g * ?g" by simp_all
  have "ratio n d = ratio (n div ?g * ?g) (d div ?g * ?g)" using n d by simp
  also have "\<dots> = ratio (n div ?g) (d div ?g)" using g unfolding ratio_def by (simp only: of_int_mult) simp
  finally show "ratio (fst (lowest n d)) (snd (lowest n d)) = ratio n d"
    by (simp add: lowest_def Let_def)
  show "0 < snd (lowest n d)"
    using assms g by (simp add: lowest_def Let_def pos_imp_zdiv_pos_iff zdvd_imp_le)
  show "0 < n \<Longrightarrow> 0 < fst (lowest n d)"
    using g by (simp add: lowest_def Let_def pos_imp_zdiv_pos_iff zdvd_imp_le)
  show "0 \<le> n \<Longrightarrow> 0 \<le> fst (lowest n d)"
    using g by (simp add: lowest_def Let_def pos_imp_zdiv_nonneg_iff)
  show "coprime (fst (lowest n d)) (snd (lowest n d))"
    using assms by (simp add: lowest_def Let_def div_gcd_coprime)
qed

lemma dyadic_ratio:
  shows "ratio (fst (dyadic m e)) (snd (dyadic m e)) = real_of_int m * 2 powi e"
    and "0 < snd (dyadic m e)" and "0 < m \<Longrightarrow> 0 < fst (dyadic m e)"
    and "0 \<le> m \<Longrightarrow> 0 \<le> fst (dyadic m e)"
  using lowest_ratio [of "2 ^ nat (- e)" m]
  by (cases "0 \<le> e"; simp add: dyadic_def pow2_nonneg pow2_neg ratio_def)+

section \<open>Python's arithmetic on floats and numbers\<close>

definition round_dyadic :: "int \<Rightarrow> bool \<Rightarrow> int \<Rightarrow> int \<Rightarrow> pyfloat" where
  "round_dyadic width neg m e = (case dyadic m e of (n, d) \<Rightarrow> round_float width neg n d)"

definition float_of_int :: "int \<Rightarrow> pyfloat" where
  "float_of_int i = round_float 64 (i < 0) \<bar>i\<bar> 1"

fun float_of :: "number \<Rightarrow> pyfloat" where
  "float_of (PInt i) = float_of_int i"
| "float_of (PFloat x) = x"

definition signed :: "bool \<Rightarrow> int \<Rightarrow> int" where
  "signed neg m = (if neg then - m else m)"

fun float_neg :: "pyfloat \<Rightarrow> pyfloat" where
  "float_neg (FFin s m e) = FFin (\<not> s) m e"
| "float_neg (FInf s) = FInf (\<not> s)"
| "float_neg FNan = FNan"

fun float_abs :: "pyfloat \<Rightarrow> pyfloat" where
  "float_abs (FFin s m e) = FFin False m e"
| "float_abs (FInf s) = FInf False"
| "float_abs FNan = FNan"

fun float_add :: "pyfloat \<Rightarrow> pyfloat \<Rightarrow> pyfloat" where
  "float_add (FFin s m e) (FFin t n f) =
     (let g = min e f; total = signed s m * 2 ^ nat (e - g) + signed t n * 2 ^ nat (f - g) in
      if total = 0 then FFin (s \<and> t) 0 (-1074) else round_dyadic 64 (total < 0) \<bar>total\<bar> g)"
| "float_add (FInf s) (FInf t) = (if s = t then FInf s else FNan)"
| "float_add (FInf s) (FFin _ _ _) = FInf s"
| "float_add (FFin _ _ _) (FInf t) = FInf t"
| "float_add _ _ = FNan"

definition float_sub :: "pyfloat \<Rightarrow> pyfloat \<Rightarrow> pyfloat" where
  "float_sub x y = float_add x (float_neg y)"

fun float_mul :: "pyfloat \<Rightarrow> pyfloat \<Rightarrow> pyfloat" where
  "float_mul (FFin s m e) (FFin t n f) = round_dyadic 64 (s \<noteq> t) (m * n) (e + f)"
| "float_mul (FInf s) (FInf t) = FInf (s \<noteq> t)"
| "float_mul (FInf s) (FFin t n _) = (if n = 0 then FNan else FInf (s \<noteq> t))"
| "float_mul (FFin s m _) (FInf t) = (if m = 0 then FNan else FInf (s \<noteq> t))"
| "float_mul _ _ = FNan"

fun float_div :: "pyfloat \<Rightarrow> pyfloat \<Rightarrow> pyfloat" where
  \<comment> \<open>for a divisor that is not zero\<close>
  "float_div (FFin s m e) (FFin t n f) =
     (if e \<ge> f then round_float 64 (s \<noteq> t) (m * 2 ^ nat (e - f)) n
      else round_float 64 (s \<noteq> t) m (n * 2 ^ nat (f - e)))"
| "float_div (FInf s) (FFin t _ _) = FInf (s \<noteq> t)"
| "float_div (FFin s _ _) (FInf t) = FFin (s \<noteq> t) 0 (-1074)"
| "float_div _ _ = FNan"

fun number_ratio :: "number \<Rightarrow> (int \<times> int) option" where
  \<comment> \<open>the exact value of a finite number\<close>
  "number_ratio (PInt i) = Some (i, 1)"
| "number_ratio (PFloat (FFin s m e)) = (case dyadic m e of (n, d) \<Rightarrow> Some (signed s n, d))"
| "number_ratio _ = None"

definition number_less :: "number \<Rightarrow> number \<Rightarrow> bool" where
  "number_less x y =
     (case (number_ratio x, number_ratio y) of
        (Some (a, b), Some (c, d)) \<Rightarrow> a * d < c * b
      | (Some _, None) \<Rightarrow> y = PFloat (FInf False)
      | (None, Some _) \<Rightarrow> x = PFloat (FInf True)
      | (None, None) \<Rightarrow> x = PFloat (FInf True) \<and> y = PFloat (FInf False))"

definition number_eq :: "number \<Rightarrow> number \<Rightarrow> bool" where
  "number_eq x y =
     (case (number_ratio x, number_ratio y) of
        (Some (a, b), Some (c, d)) \<Rightarrow> a * d = c * b
      | (None, None) \<Rightarrow> x = y \<and> x \<noteq> PFloat FNan
      | _ \<Rightarrow> False)"

definition number_le :: "number \<Rightarrow> number \<Rightarrow> bool" where
  "number_le x y = (number_less x y \<or> number_eq x y)"

definition number_is_zero :: "number \<Rightarrow> bool" where
  "number_is_zero x = number_eq x (PInt 0)"

definition lift_number :: "(int \<Rightarrow> int \<Rightarrow> int) \<Rightarrow> (pyfloat \<Rightarrow> pyfloat \<Rightarrow> pyfloat) \<Rightarrow> number \<Rightarrow> number \<Rightarrow> number" where
  "lift_number f g x y =
     (case (x, y) of (PInt a, PInt b) \<Rightarrow> PInt (f a b) | _ \<Rightarrow> PFloat (g (float_of x) (float_of y)))"

fun finite_number :: "number \<Rightarrow> bool" where
  "finite_number (PInt _) = True"
| "finite_number (PFloat x) = is_finite x"

fun float_trunc :: "pyfloat \<Rightarrow> int" where
  \<comment> \<open>\<^verbatim>\<open>math.trunc\<close> of a finite float\<close>
  "float_trunc (FFin s m e) = signed s (shift_int m e)"
| "float_trunc _ = 0"

fun float_floor :: "pyfloat \<Rightarrow> int" where
  "float_floor (FFin s m e) = (if 0 \<le> e then signed s m * 2 ^ nat e else signed s m div 2 ^ nat (- e))"
| "float_floor _ = 0"

definition float_ceil :: "pyfloat \<Rightarrow> int" where
  "float_ceil x = - float_floor (float_neg x)"

definition float_is_integer :: "pyfloat \<Rightarrow> bool" where
  "float_is_integer x = (is_finite x \<and> float_floor x = float_ceil x)"

fun pack_f32 :: "pyfloat \<Rightarrow> pyfloat option" where
  \<comment> \<open>\<^verbatim>\<open>struct.pack("<f", x)\<close> read back; \<open>None\<close> for \<^verbatim>\<open>OverflowError\<close>\<close>
  "pack_f32 (FFin s m e) = (let r = round_dyadic 32 s m e in if is_finite r then Some r else None)"
| "pack_f32 x = Some x"

section \<open>Exact roundings\<close>

lemma round_float_exact:
  assumes m: "0 < m" "m < 2 ^ format_precision width"
    and e: "format_min width - (int (format_precision width) - 1) \<le> e"
    and top: "int (bit_length m) + e \<le> format_max width + 1"
    and pos: "0 < num" "0 < den" and v: "ratio num den = real_of_int m * 2 powi e"
  shows "round_float width neg num den = normalize neg m e"
proof -
  let ?q = "quantum width num den" and ?p = "format_precision width"
  have b: "2 ^ bit_length m \<le> 2 * m" "m < 2 ^ bit_length m" using bit_length_bounds [OF m(1)] by simp_all
  have up: "real_of_int m < 2 ^ bit_length m"
    using b(2) [THEN of_int_less_iff [where 'a = real, THEN iffD2]] by simp
  have "2 powi floor_log2 num den \<le> real_of_int m * 2 powi e" using floor_log2_bounds(1) [OF pos] v by simp
  also have "\<dots> < 2 powi (int (bit_length m) + e)" using up by (simp add: powi_add2 power_int_of_nat)
  finally have "floor_log2 num den < int (bit_length m) + e"
    using pow2_mono [of "int (bit_length m) + e" "floor_log2 num den"] by linarith
  moreover have "bit_length m \<le> ?p" using m by (simp add: bit_length_le_iff)
  ultimately have le: "?q \<le> e" using e by (simp add: quantum_def)
  have "ratio num den * 2 powi (- ?q) = real_of_int (m * 2 ^ nat (e - ?q))"
    using le by (simp add: v mult.assoc pow2_nonneg [symmetric] flip: powi_add2)
  then have "is_nearest (ratio num den * 2 powi (- ?q)) (m * 2 ^ nat (e - ?q))"
    by (simp only: is_nearest_def) simp
  with round_scaled_nearest [OF pos(2)] have s: "round_scaled num den (- ?q) = m * 2 ^ nat (e - ?q)"
    by (rule is_nearest_unique)
  have "\<not> overflows width (m * 2 ^ nat (e - ?q)) ?q"
    using top le bit_length_shift [OF m(1), of "nat (e - ?q)"] by (simp add: overflows_def)
  moreover have "normalize neg (m * 2 ^ nat (e - ?q)) ?q = normalize neg m e"
    using normalize_scale [OF m(1), of neg "nat (e - ?q)" ?q] le by simp
  ultimately show ?thesis using pos by (simp add: round_float_def Let_def s)
qed

lemma round_dyadic_exact:
  assumes "0 < m" "m < 2 ^ format_precision width"
    and "format_min width - (int (format_precision width) - 1) \<le> e"
    and "int (bit_length m) + e \<le> format_max width + 1" and "m * 2 powi e = real_of_int n * 2 powi f" and "0 < n"
  shows "round_dyadic width neg n f = normalize neg m e"
proof -
  have "round_float width neg (fst (dyadic n f)) (snd (dyadic n f)) = normalize neg m e"
    using assms dyadic_ratio [of n f] by (intro round_float_exact) simp_all
  then show ?thesis by (simp add: round_dyadic_def case_prod_beta)
qed

end
