(* ===== verification/DetMath.thy ===== *)
theory DetMath
  imports PyFloat
begin

text \<open>
  \<^verbatim>\<open>src/protocyte/_deterministic_math.py\<close>: the rounding of exact ratios to IEEE bit patterns, exact
  powers, and the dispatch of the real functions. A Decimal is an exact signed ratio, an infinity or
  not-a-number; the operations of the 160-digit decimal context (square root, exponential,
  logarithms, product, quotient) are a parameter \<open>decimal_context\<close>, their \<open>None\<close> a trapped
  \<^verbatim>\<open>DecimalException\<close>.
\<close>

section \<open>Bit patterns\<close>

definition BINARY_FORMATS :: "int \<Rightarrow> int \<times> int \<times> int \<times> int \<times> nat \<times> nat" where
  "BINARY_FORMATS width =
     (if width = 32 then (24, -126, 127, 127, 8, 23) else (53, -1022, 1023, 1023, 11, 52))"

definition decode_parts :: "int \<Rightarrow> bool \<Rightarrow> int \<Rightarrow> int \<Rightarrow> pyfloat" where
  \<comment> \<open>the value of the sign, exponent field and fraction of an IEEE pattern\<close>
  "decode_parts width neg field fraction =
     (let (_, min_exponent, _, bias, exponent_bits, fraction_bits) = BINARY_FORMATS width in
      if field = 2 ^ exponent_bits - 1 then (if fraction = 0 then FInf neg else FNan)
      else if field = 0 then normalize neg fraction (min_exponent - int fraction_bits)
      else normalize neg (2 ^ fraction_bits + fraction) (field - bias - int fraction_bits))"

definition binary_float_from_bits :: "int \<Rightarrow> int \<Rightarrow> pyfloat" where
  \<comment> \<open>\<^verbatim>\<open>struct.unpack\<close> of the little-endian bytes of the pattern\<close>
  "binary_float_from_bits bits width =
     (let (_, _, _, _, exponent_bits, fraction_bits) = BINARY_FORMATS width in
      decode_parts width (odd (drop_bit (nat (width - 1)) bits))
        (take_bit exponent_bits (drop_bit fraction_bits bits)) (take_bit fraction_bits bits))"

definition round_scaled_ratio :: "int \<Rightarrow> int \<Rightarrow> int \<Rightarrow> int" where
  "round_scaled_ratio numerator denominator shift =
     (let (numerator, denominator) =
        (if 0 \<le> shift then (push_bit (nat shift) numerator, denominator)
         else (numerator, push_bit (nat (- shift)) denominator));
        quotient = numerator div denominator; remainder = numerator mod denominator;
        doubled_remainder = push_bit 1 remainder in
      if doubled_remainder > denominator \<or> (doubled_remainder = denominator \<and> quotient AND 1 \<noteq> 0)
      then quotient + 1 else quotient)"

definition ratio_exponent :: "int \<Rightarrow> int \<Rightarrow> int" where
  "ratio_exponent numerator denominator =
     (let exponent = int (bit_length numerator) - int (bit_length denominator) in
      if 0 \<le> exponent then
        (if numerator < push_bit (nat exponent) denominator then exponent - 1 else exponent)
      else if push_bit (nat (- exponent)) numerator < denominator then exponent - 1 else exponent)"

definition ratio_to_binary_bits :: "int \<Rightarrow> int \<Rightarrow> bool \<Rightarrow> int \<Rightarrow> int" where
  "ratio_to_binary_bits numerator denominator neg width =
     (let (precision, min_exponent, max_exponent, bias, exponent_bits, fraction_bits) = BINARY_FORMATS width;
        sign_bits = push_bit (nat (width - 1)) (if neg then 1 else 0);
        exponent = ratio_exponent numerator denominator in
      if numerator = 0 then sign_bits
      else if exponent < min_exponent then
        let significand = round_scaled_ratio numerator denominator ((precision - 1) - min_exponent) in
        if significand = 0 then sign_bits
        else if significand < push_bit (nat (precision - 1)) 1
        then sign_bits OR push_bit fraction_bits 0 OR significand
        else sign_bits OR push_bit fraction_bits 1 OR 0
      else
        let rounded = round_scaled_ratio numerator denominator ((precision - 1) - exponent);
            carry = (rounded = push_bit (nat precision) 1);
            significand = (if carry then drop_bit 1 rounded else rounded);
            exponent = (if carry then exponent + 1 else exponent) in
        if exponent > max_exponent
        then sign_bits OR push_bit fraction_bits (push_bit exponent_bits 1 - 1)
        else sign_bits OR push_bit fraction_bits (exponent + bias)
               OR (significand - push_bit (nat (precision - 1)) 1))"

section \<open>The patterns are those of IEEE rounding\<close>

lemma or_shift:
  assumes "0 \<le> y" "y < 2 ^ k"
  shows "push_bit k x OR y = x * 2 ^ k + (y :: int)"
proof -
  have y: "take_bit k y = y" using assms by (simp add: take_bit_int_eq_self)
  have "push_bit k x + y = push_bit k x OR y"
  proof (rule disjunctive_add)
    fix n
    show "\<not> bit (push_bit k x) n \<or> \<not> bit y n"
    proof (cases "n < k")
      case False
      then have "\<not> bit (take_bit k y) n" by (simp add: bit_take_bit_iff)
      then show ?thesis by (simp add: y)
    qed (simp add: bit_push_bit_iff)
  qed
  then show ?thesis by (simp add: push_bit_eq_mult)
qed

lemma round_scaled_ratio_eq: "round_scaled_ratio n d s = round_scaled n d s"
  by (simp add: round_scaled_ratio_def round_scaled_def round_half_even_def scale_def push_bit_eq_mult
      Let_def and_one_eq odd_iff_mod_2_eq_one mult.commute)

lemma ratio_exponent_eq: "ratio_exponent n d = floor_log2 n d"
  by (simp add: ratio_exponent_def floor_log2_def scale_def push_bit_eq_mult Let_def)

lemma decode_pattern:
  assumes "width = 32 \<or> width = 64" and "BINARY_FORMATS width = (p, emin, emax, bias, eb, fb)"
    and "0 \<le> field" "field < 2 ^ eb" "0 \<le> fraction" "fraction < 2 ^ fb"
  shows "binary_float_from_bits
      (push_bit (nat (width - 1)) (if neg then 1 else 0) OR push_bit fb field OR fraction) width
    = decode_parts width neg field fraction"
proof -
  have w: "nat (width - 1) = eb + fb"
    using assms(1,2) by (auto simp: BINARY_FORMATS_def)
  have low: "push_bit fb field OR fraction = field * 2 ^ fb + fraction" using assms by (intro or_shift)
  have "field * 2 ^ fb + fraction < (field + 1) * 2 ^ fb" using assms by (simp add: algebra_simps)
  also have "\<dots> \<le> 2 ^ eb * 2 ^ fb" using assms(4) by (intro mult_right_mono) auto
  finally have up: "field * 2 ^ fb + fraction < 2 ^ (eb + fb)" by (simp add: power_add)
  let ?s = "if neg then 1 else 0 :: int"
  let ?b = "push_bit (nat (width - 1)) ?s OR push_bit fb field OR fraction"
  have "?b = push_bit (eb + fb) ?s OR (push_bit fb field OR fraction)" by (simp only: w or.assoc)
  also have "\<dots> = ?s * 2 ^ (eb + fb) + (field * 2 ^ fb + fraction)"
    unfolding low using assms up by (intro or_shift) simp_all
  finally have b: "?b = ?s * 2 ^ (eb + fb) + (field * 2 ^ fb + fraction)" .
  have top: "drop_bit (eb + fb) ?b = ?s"
    unfolding b drop_bit_eq_div using assms up by simp
  have b': "?b = (?s * 2 ^ eb + field) * 2 ^ fb + fraction" unfolding b by (simp add: power_add algebra_simps)
  have fraction: "take_bit fb ?b = fraction"
    unfolding b' take_bit_eq_mod using assms by simp
  have mid: "drop_bit fb ?b = ?s * 2 ^ eb + field"
    unfolding b' drop_bit_eq_div using assms by simp
  have field: "take_bit eb (drop_bit fb ?b) = field"
    unfolding mid take_bit_eq_mod using assms by simp
  show ?thesis
    unfolding binary_float_from_bits_def assms(2) Let_def prod.case fraction field w [symmetric]
    using top by (simp add: w)
qed

lemma decode_normal:
  assumes "BINARY_FORMATS width = (p, emin, emax, bias, eb, fb)" and "0 < field" "field < 2 ^ eb - 1"
  shows "decode_parts width neg field fraction = normalize neg (2 ^ fb + fraction) (field - bias - int fb)"
  using assms by (simp add: decode_parts_def)

lemma decode_sign:
  assumes "width = 32 \<or> width = 64"
  shows "binary_float_from_bits (push_bit (nat (width - 1)) (if neg then 1 else 0)) width
    = normalize neg 0 0"
proof -
  obtain p emin emax bias eb fb where f: "BINARY_FORMATS width = (p, emin, emax, bias, eb, fb)"
    by (metis prod_cases6)
  from assms f have "eb = 8 \<or> eb = 11" by (auto simp: BINARY_FORMATS_def)
  then have "decode_parts width neg 0 0 = normalize neg 0 0"
    using f by (auto simp: decode_parts_def)
  with decode_pattern [OF assms f, of 0 0 neg] show ?thesis by simp
qed

lemma format_of_width:
  assumes "width = 32 \<or> width = 64"
  obtains p eb where "BINARY_FORMATS width =
      (int p, format_min width, format_max width, format_max width, eb, p - 1)"
    and "p = format_precision width" and "1 < p" and "2 ^ eb = 2 * format_max width + 2"
    and "format_min width = 1 - format_max width" and "int p \<le> format_max width"
proof (cases "width = 32")
  case True
  then show thesis by (intro that [of 24 8]) (simp_all add: BINARY_FORMATS_def format_defs)
next
  case False
  then show thesis by (intro that [of 53 11]) (simp_all add: BINARY_FORMATS_def format_defs)
qed

lemma bit_length_pow2: "bit_length (2 ^ k) = Suc k"
proof -
  have "bit_length (1 * 2 ^ k) = bit_length 1 + k" by (rule bit_length_shift) simp
  moreover have "bit_length 1 = 1" by (simp add: bit_length_pos)
  ultimately show ?thesis by simp
qed

lemma bit_length_between: "2 ^ k \<le> m \<Longrightarrow> m < 2 ^ Suc k \<Longrightarrow> bit_length m = Suc k"
proof -
  assume a: "2 ^ k \<le> m" "m < 2 ^ Suc k"
  then have "0 \<le> m" using zero_le_power [of "2 :: int" k] by linarith
  with a have "bit_length m \<le> Suc k" and "\<not> bit_length m \<le> k" by (simp_all add: bit_length_le_iff)
  then show ?thesis by simp
qed

lemma subnormal_significand:
  assumes "0 < num" "0 < den" "floor_log2 num den < format_min width" "0 < format_precision width"
  shows "round_scaled num den (- quantum width num den) \<le> 2 ^ (format_precision width - 1)"
    and "quantum width num den = format_min width - int (format_precision width - 1)"
proof -
  let ?p = "format_precision width"
  show e: "quantum width num den = format_min width - int (?p - 1)"
    using assms by (simp add: quantum_def max_def of_nat_diff)
  have near: "is_nearest (ratio num den * 2 powi (- quantum width num den))
      (round_scaled num den (- quantum width num den))"
    using assms(2) by (rule round_scaled_nearest)
  have "(2::real) powi (floor_log2 num den + 1) \<le> 2 powi format_min width"
    using assms(3) by (intro pow2_mono) simp
  with floor_log2_bounds(2) [OF assms(1,2)] have "ratio num den \<le> 2 powi format_min width" by linarith
  then have "ratio num den * 2 powi (- quantum width num den)
      \<le> 2 powi format_min width * 2 powi (- quantum width num den)"
    by (rule mult_right_mono) simp
  also have "\<dots> = 2 powi int (?p - 1)" by (simp add: e flip: powi_add2)
  finally show "round_scaled num den (- quantum width num den) \<le> 2 ^ (?p - 1)"
    by (intro nearest_bounds(1) [OF near]) (simp add: power_int_of_nat)
qed

lemma normal_significand:
  assumes "0 < num" "0 < den" "format_min width \<le> floor_log2 num den" "0 < format_precision width"
  shows "2 ^ (format_precision width - 1) \<le> round_scaled num den (- quantum width num den)"
    and "quantum width num den = floor_log2 num den - int (format_precision width - 1)"
proof -
  let ?p = "format_precision width"
  show e: "quantum width num den = floor_log2 num den - int (?p - 1)"
    using assms by (simp add: quantum_def max_def of_nat_diff)
  have near: "is_nearest (ratio num den * 2 powi (- quantum width num den))
      (round_scaled num den (- quantum width num den))"
    using assms(2) by (rule round_scaled_nearest)
  have "2 powi floor_log2 num den * 2 powi (- quantum width num den)
      \<le> ratio num den * 2 powi (- quantum width num den)"
    by (rule mult_right_mono [OF floor_log2_bounds(1) [OF assms(1,2)]]) simp
  moreover have "2 powi floor_log2 num den * 2 powi (- quantum width num den) = (2::real) powi int (?p - 1)"
    by (simp add: e flip: powi_add2)
  ultimately show "2 ^ (?p - 1) \<le> round_scaled num den (- quantum width num den)"
    by (intro nearest_bounds(2) [OF near]) (simp add: power_int_of_nat)
qed

lemma subnormal_bits:
  assumes w: "width = 32 \<or> width = 64" and pos: "0 < num" "0 < den"
    and sub: "floor_log2 num den < format_min width"
  shows "binary_float_from_bits (ratio_to_binary_bits num den neg width) width = round_float width neg num den"
proof -
  obtain p eb where f: "BINARY_FORMATS width =
      (int p, format_min width, format_max width, format_max width, eb, p - 1)"
    and p: "p = format_precision width" "1 < p" and eb: "2 ^ eb = 2 * format_max width + 2"
    and mm: "format_min width = 1 - format_max width" "int p \<le> format_max width"
    using format_of_width [OF w] by metis
  let ?m = "round_scaled num den (- quantum width num den)" and ?e = "quantum width num den"
  have m: "?m \<le> 2 ^ (p - 1)" and e: "?e = format_min width - int (p - 1)"
    using subnormal_significand [OF pos sub] p by simp_all
  have m0: "0 \<le> ?m" using round_scaled_upper(2) [OF pos] .
  have pre: "bit_length ?m \<le> p"
  proof -
    have "(2::int) ^ (p - 1) < 2 ^ p" using p(2) by simp
    with m have "?m < 2 ^ p" by linarith
    then show ?thesis using bit_length_le_iff [OF m0] by simp
  qed
  have shift: "int p - 1 - format_min width = - ?e" using e p(2) by (simp add: of_nat_diff)
  have "\<not> overflows width ?m ?e"
    using pre mm e p(2) by (simp add: overflows_def of_nat_diff)
  then have r: "round_float width neg num den = normalize neg ?m ?e"
    using pos by (simp add: round_float_def Let_def)
  have sub': "ratio_exponent num den < format_min width" using sub by (simp add: ratio_exponent_eq)
  have np: "nat (int p - 1) = p - Suc 0" using p(2) by simp
  have bits: "ratio_to_binary_bits num den neg width =
     (let s = push_bit (nat (width - 1)) (if neg then 1 else 0) in
      if ?m = 0 then s
      else if ?m < 2 ^ (p - 1) then s OR push_bit (p - 1) 0 OR ?m else s OR push_bit (p - 1) 1 OR 0)"
    using pos sub' by (simp add: ratio_to_binary_bits_def f Let_def round_scaled_ratio_eq shift
        push_bit_eq_mult np)
  consider "?m = 0" | "0 < ?m" "?m < 2 ^ (p - 1)" | "?m = 2 ^ (p - 1)" using m m0 by linarith
  then show ?thesis
  proof cases
    case 1
    then show ?thesis using decode_sign [OF w] by (simp add: bits r)
  next
    case 2
    have "decode_parts width neg 0 ?m = normalize neg ?m ?e"
      using eb mm p(2) by (simp add: decode_parts_def f e)
    then show ?thesis
      using 2 decode_pattern [OF w f, of 0 ?m neg] by (simp add: bits r Let_def)
  next
    case 3
    have "(1::int) < 2 ^ eb" "(1::int) \<noteq> 2 ^ eb - 1" using eb mm p(2) by linarith+
    then have "decode_parts width neg 1 0 = normalize neg ?m ?e"
      using mm unfolding 3 by (simp add: decode_parts_def f e)
    then show ?thesis
      using 3 decode_pattern [OF w f, of 1 0 neg] \<open>1 < 2 ^ eb\<close> by (simp add: bits r Let_def)
  qed
qed

lemma normal_bits:
  assumes w: "width = 32 \<or> width = 64" and pos: "0 < num" "0 < den"
    and norm: "format_min width \<le> floor_log2 num den"
  shows "binary_float_from_bits (ratio_to_binary_bits num den neg width) width = round_float width neg num den"
proof -
  obtain p eb where f: "BINARY_FORMATS width =
      (int p, format_min width, format_max width, format_max width, eb, p - 1)"
    and p: "p = format_precision width" "1 < p" and eb: "2 ^ eb = 2 * format_max width + 2"
    and mm: "format_min width = 1 - format_max width" "int p \<le> format_max width"
    using format_of_width [OF w] by metis
  let ?m = "round_scaled num den (- quantum width num den)" and ?e = "quantum width num den"
  let ?E = "floor_log2 num den" and ?s = "push_bit (nat (width - 1)) (if neg then 1 else 0) :: int"
  have m: "2 ^ (p - 1) \<le> ?m" and e: "?e = ?E - int (p - 1)"
    using normal_significand [OF pos norm] p by simp_all
  have up: "?m \<le> 2 ^ p" using round_scaled_upper(1) [OF pos] p by simp
  have m0: "?m \<noteq> 0" using m zero_less_power [of "2 :: int" "p - 1"] by linarith
  have double: "(2::int) ^ p = 2 * 2 ^ (p - 1)"
    using p(2) by (metis Suc_diff_1 less_trans power_Suc zero_less_one)
  have shift: "int p - 1 - ?E = - ?e" using e p(2) by (simp add: of_nat_diff)
  have np: "nat (int p - 1) = p - Suc 0" using p(2) by simp
  let ?c = "?m = 2 ^ p"
  let ?sig = "if ?c then 2 ^ (p - 1) else ?m" and ?x = "if ?c then ?E + 1 else ?E"
  have half: "(2::int) ^ p div 2 = 2 ^ (p - Suc 0)" by (simp add: double)
  have norm': "\<not> ratio_exponent num den < format_min width" using norm by (simp add: ratio_exponent_eq)
  have bits: "ratio_to_binary_bits num den neg width =
     (if ?x > format_max width then ?s OR push_bit (p - 1) (2 ^ eb - 1)
      else ?s OR push_bit (p - 1) (?x + format_max width) OR (?sig - 2 ^ (p - 1)))"
    using pos norm' half by (simp add: ratio_to_binary_bits_def f Let_def round_scaled_ratio_eq shift
        push_bit_eq_mult np ratio_exponent_eq drop_bit_eq_div)
  have sig: "2 ^ (p - 1) \<le> ?sig" "?sig < 2 ^ p" using m up by (auto simp: double)
  have over: "overflows width ?m ?e \<longleftrightarrow> ?x > format_max width"
  proof (cases ?c)
    case True
    then show ?thesis using e p(2) by (simp add: overflows_def bit_length_pow2 of_nat_diff) linarith
  next
    case False
    have "bit_length ?m = Suc (p - 1)" using m up False p(2) by (intro bit_length_between) simp_all
    with False show ?thesis using e p(2) by (simp add: overflows_def of_nat_diff) linarith
  qed
  have r: "round_float width neg num den =
      (if ?x > format_max width then FInf neg else normalize neg ?sig (?x - int (p - 1)))"
  proof -
    have "normalize neg ?m ?e = normalize neg ?sig (?x - int (p - 1))"
    proof (cases ?c)
      case True
      have "normalize neg (2 * 2 ^ (p - 1)) ?e = normalize neg (2 ^ (p - 1)) (?e + 1)"
        by (rule normalize_double) simp
      with True show ?thesis by (simp add: e double algebra_simps)
    qed (simp add: e)
    then show ?thesis using pos over by (simp add: round_float_def Let_def)
  qed
  show ?thesis
  proof (cases "?x > format_max width")
    case True
    have top: "(2::int) ^ eb - 1 < 2 ^ eb" "0 \<le> (2::int) ^ eb - 1" using eb mm p(2) by linarith+
    have "decode_parts width neg (2 ^ eb - 1) 0 = FInf neg" by (simp add: decode_parts_def f)
    then show ?thesis
      using True decode_pattern [OF w f, of "2 ^ eb - 1" 0 neg] top by (simp add: bits r)
  next
    case False
    let ?field = "?x + format_max width" and ?fr = "?sig - 2 ^ (p - 1)"
    have field: "0 < ?field" "?field < 2 ^ eb - 1" using False norm mm eb by (auto split: if_splits)
    have fr: "0 \<le> ?fr" "?fr < 2 ^ (p - 1)" using sig double by auto
    have "2 ^ (p - 1) + ?fr = ?sig" and "?field - format_max width - int (p - 1) = ?x - int (p - 1)"
      by (rule add_diff_cancel_left' [THEN trans] | simp)+
    with decode_normal [OF f field, of neg ?fr]
    have "decode_parts width neg ?field ?fr = normalize neg ?sig (?x - int (p - 1))" by (simp only:)
    moreover have "binary_float_from_bits (?s OR push_bit (p - 1) ?field OR ?fr) width
        = decode_parts width neg ?field ?fr"
      using field fr by (intro decode_pattern [OF w f]) linarith+
    ultimately show ?thesis unfolding bits r using False by (simp only: if_False)
  qed
qed

lemma bits_are_rounding:
  assumes "width = 32 \<or> width = 64" and "0 \<le> num" "0 < den"
  shows "binary_float_from_bits (ratio_to_binary_bits num den neg width) width = round_float width neg num den"
proof (cases "num = 0")
  case True
  then show ?thesis using decode_sign [OF assms(1)]
    by (simp add: ratio_to_binary_bits_def round_float_def Let_def split: prod.splits)
next
  case False
  with assms subnormal_bits [OF assms(1), of num den neg] normal_bits [OF assms(1), of num den neg]
  show ?thesis by linarith
qed

section \<open>Decimals\<close>

datatype decimal = DFin bool int int | DInf bool | DNan

datatype math_error =
  MathDomain | MathNonFinite
| UncaughtOverflow \<comment> \<open>Python's own exception for operands the callers exclude\<close>

record decimal_context =
  dsqrt :: "decimal \<Rightarrow> decimal option"
  dexp :: "decimal \<Rightarrow> decimal option"
  dln :: "decimal \<Rightarrow> decimal option"
  dlog10 :: "decimal \<Rightarrow> decimal option"
  dmul :: "decimal \<Rightarrow> decimal \<Rightarrow> decimal option"
  ddiv :: "decimal \<Rightarrow> decimal \<Rightarrow> decimal option"

fun decimal_value :: "number \<Rightarrow> decimal" where
  "decimal_value (PInt i) = DFin (i < 0) \<bar>i\<bar> 1"
| "decimal_value (PFloat (FFin neg m e)) = (case dyadic m e of (n, d) \<Rightarrow> DFin neg n d)"
| "decimal_value (PFloat (FInf neg)) = DInf neg"
| "decimal_value (PFloat FNan) = DNan"

fun decimal_is_zero :: "decimal \<Rightarrow> bool" where
  "decimal_is_zero (DFin _ n _) = (n = 0)"
| "decimal_is_zero _ = False"

fun decimal_signed :: "decimal \<Rightarrow> bool" where
  "decimal_signed (DFin neg _ _) = neg"
| "decimal_signed (DInf neg) = neg"
| "decimal_signed DNan = False"

definition decimal_negative :: "decimal \<Rightarrow> bool" where
  \<comment> \<open>\<^verbatim>\<open>value < 0\<close>\<close>
  "decimal_negative x = (decimal_signed x \<and> \<not> decimal_is_zero x)"

fun decimal_above :: "decimal \<Rightarrow> int \<Rightarrow> bool" where
  \<comment> \<open>\<^verbatim>\<open>value > limit\<close> for a limit of at least zero\<close>
  "decimal_above (DFin neg n d) limit = (\<not> neg \<and> n > limit * d)"
| "decimal_above (DInf neg) _ = (\<not> neg)"
| "decimal_above DNan _ = False"

fun decimal_abs :: "decimal \<Rightarrow> decimal" where
  "decimal_abs (DFin _ n d) = DFin False n d"
| "decimal_abs (DInf _) = DInf False"
| "decimal_abs DNan = DNan"

fun decimal_neg :: "decimal \<Rightarrow> decimal" where
  "decimal_neg (DFin neg n d) = DFin (\<not> neg) n d"
| "decimal_neg (DInf neg) = DInf (\<not> neg)"
| "decimal_neg DNan = DNan"

fun integer_ratio :: "decimal \<Rightarrow> math_error + int \<times> int" where
  \<comment> \<open>\<^verbatim>\<open>Decimal.as_integer_ratio\<close>\<close>
  "integer_ratio (DFin neg n d) = (case lowest n d of (n', d') \<Rightarrow> Inr (if neg then - n' else n', d'))"
| "integer_ratio _ = Inl UncaughtOverflow"

definition DECIMAL_EXPONENT_LIMIT :: int where "DECIMAL_EXPONENT_LIMIT = 10000"
definition MAX_EXACT_POWER_BITS :: int where "MAX_EXACT_POWER_BITS = 4096"

section \<open>Rounding to a float\<close>

definition decimal_to_binary_bits :: "decimal \<Rightarrow> int \<Rightarrow> math_error + int" where
  "decimal_to_binary_bits d width =
     (let (_, _, _, _, exponent_bits, fraction_bits) = BINARY_FORMATS width;
        neg = decimal_signed d;
        sign_bits = push_bit (nat (width - 1)) (if neg then 1 else 0) in
      case d of
        DInf _ \<Rightarrow> Inr (sign_bits OR push_bit fraction_bits (push_bit exponent_bits 1 - 1))
      | DNan \<Rightarrow> Inl MathDomain
      | DFin _ _ _ \<Rightarrow> rbind (integer_ratio (decimal_abs d)) (\<lambda>(numerator, denominator).
          Inr (ratio_to_binary_bits numerator denominator neg width)))"

definition finite_binary_float_from_bits :: "int \<Rightarrow> int \<Rightarrow> math_error + pyfloat" where
  "finite_binary_float_from_bits bits width =
     (let (_, _, _, _, exponent_bits, fraction_bits) = BINARY_FORMATS width;
        exponent_mask = push_bit fraction_bits (push_bit exponent_bits 1 - 1) in
      if bits AND exponent_mask = exponent_mask then Inl MathNonFinite
      else Inr (binary_float_from_bits bits width))"

definition round_decimal :: "decimal \<Rightarrow> int \<Rightarrow> math_error + pyfloat" where
  "round_decimal d width =
     rbind (decimal_to_binary_bits d width) (\<lambda>bits. finite_binary_float_from_bits bits width)"

definition round_ratio :: "int \<Rightarrow> int \<Rightarrow> bool \<Rightarrow> int \<Rightarrow> math_error + pyfloat" where
  "round_ratio numerator denominator neg width =
     finite_binary_float_from_bits (ratio_to_binary_bits numerator denominator neg width) width"

section \<open>Exact powers\<close>

definition is_power_of_two :: "int \<Rightarrow> bool" where
  "is_power_of_two n = (n > 0 \<and> n AND (n - 1) = 0)"

definition binary_power_of_two :: "int \<Rightarrow> bool \<Rightarrow> int \<Rightarrow> math_error + pyfloat" where
  "binary_power_of_two exponent neg width =
     (let (precision, min_exponent, max_exponent, bias, _, fraction_bits) = BINARY_FORMATS width;
        sign_bits = push_bit (nat (width - 1)) (if neg then 1 else 0);
        min_subnormal_exponent = min_exponent - (precision - 1) in
      if exponent > max_exponent then Inl MathNonFinite
      else Inr (binary_float_from_bits
        (if exponent \<ge> min_exponent then sign_bits OR push_bit fraction_bits (exponent + bias)
         else if exponent \<ge> min_subnormal_exponent
         then sign_bits OR push_bit (nat (exponent - min_subnormal_exponent)) 1
         else sign_bits) width))"

definition exact_power_of_two_result ::
  "decimal \<Rightarrow> decimal \<Rightarrow> bool \<Rightarrow> int \<Rightarrow> math_error + pyfloat option" where
  "exact_power_of_two_result base exponent neg width =
     rbind (integer_ratio base) (\<lambda>(base_numerator, base_denominator).
       if \<not> (is_power_of_two base_numerator \<and> is_power_of_two base_denominator) then Inr None
       else
         let base_exponent = int (bit_length base_numerator) - int (bit_length base_denominator) in
         rbind (integer_ratio exponent) (\<lambda>(exponent_numerator, exponent_denominator).
           let result_numerator = base_exponent * exponent_numerator;
               result_exponent = result_numerator div exponent_denominator;
               remainder = result_numerator mod exponent_denominator in
           if remainder \<noteq> 0 then Inr None
           else rbind (binary_power_of_two result_exponent neg width) (\<lambda>r. Inr (Some r))))"

definition exact_power_operand_fits :: "int \<Rightarrow> int \<Rightarrow> bool" where
  "exact_power_operand_fits v exponent =
     (v = 1 \<or> exponent \<le> MAX_EXACT_POWER_BITS div int (bit_length v))"

definition exact_integral_power_result ::
  "decimal \<Rightarrow> int \<Rightarrow> bool \<Rightarrow> int \<Rightarrow> math_error + pyfloat option" where
  "exact_integral_power_result base exponent neg width =
     rbind (integer_ratio base) (\<lambda>(n, d).
       let magnitude = \<bar>exponent\<bar>;
           (numerator, denominator) = (if exponent < 0 then (d, n) else (n, d)) in
       if \<not> (exact_power_operand_fits numerator magnitude
             \<and> exact_power_operand_fits denominator magnitude) then Inr None
       else rbind (round_ratio (numerator ^ nat magnitude) (denominator ^ nat magnitude) neg width)
         (\<lambda>r. Inr (Some r)))"

section \<open>The real functions\<close>

definition float_zero :: "bool \<Rightarrow> pyfloat" where "float_zero neg = FFin neg 0 (-1074)"
definition float_one :: "bool \<Rightarrow> pyfloat" where "float_one neg = FFin neg (2 ^ 52) (-52)"

definition unary_decimal :: "decimal_context \<Rightarrow> string \<Rightarrow> decimal \<Rightarrow> decimal option" where
  "unary_decimal ctx name operand =
     (if name = ''sqrt'' then dsqrt ctx operand
      else if name = ''exp'' then dexp ctx operand
      else if name = ''log'' then dln ctx operand
      else if name = ''log2'' then
        Option.bind (dln ctx operand) (\<lambda>x. Option.bind (dln ctx (DFin False 2 1)) (\<lambda>y. ddiv ctx x y))
      else dlog10 ctx operand)"

definition evaluate_unary :: "decimal_context \<Rightarrow> string \<Rightarrow> number \<Rightarrow> int \<Rightarrow> math_error + pyfloat" where
  "evaluate_unary ctx name v width =
     (let operand = decimal_value v in
      if name = ''sqrt'' \<and> decimal_negative operand then Inl MathDomain
      else if name \<in> {''log'', ''log2'', ''log10''}
          \<and> (decimal_negative operand \<or> decimal_is_zero operand) then Inl MathDomain
      else if name = ''exp'' \<and> decimal_above operand DECIMAL_EXPONENT_LIMIT then Inl MathNonFinite
      else if name = ''exp'' \<and> decimal_above (decimal_neg operand) DECIMAL_EXPONENT_LIMIT
        then Inr (float_zero False)
      else (case unary_decimal ctx name operand of
          None \<Rightarrow> Inl MathNonFinite
        | Some result \<Rightarrow> round_decimal result width))"

definition transcendental_pow ::
  "decimal_context \<Rightarrow> decimal \<Rightarrow> decimal \<Rightarrow> bool \<Rightarrow> math_error + pyfloat" where
  "transcendental_pow ctx base exponent neg =
     (case Option.bind (dln ctx base) (dmul ctx exponent) of
        None \<Rightarrow> Inl MathNonFinite
      | Some transformed \<Rightarrow>
          if decimal_above transformed DECIMAL_EXPONENT_LIMIT then Inl MathNonFinite
          else if decimal_above (decimal_neg transformed) DECIMAL_EXPONENT_LIMIT
            then Inr (float_zero neg)
          else (case dexp ctx transformed of
              None \<Rightarrow> Inl MathNonFinite
            | Some result \<Rightarrow> round_decimal (if neg then decimal_neg result else result) 64))"

definition positive_pow ::
  "decimal_context \<Rightarrow> decimal \<Rightarrow> decimal \<Rightarrow> int option \<Rightarrow> bool \<Rightarrow> math_error + pyfloat" where
  \<comment> \<open>the steps of \<^verbatim>\<open>evaluate_pow\<close> from the power-of-two test on\<close>
  "positive_pow ctx base exponent integral_exponent neg =
     rbind (exact_power_of_two_result base exponent neg 64) (\<lambda>exact.
       case exact of Some r \<Rightarrow> Inr r
       | None \<Rightarrow>
         rbind (case integral_exponent of None \<Rightarrow> Inr None
                | Some k \<Rightarrow> exact_integral_power_result base k neg 64) (\<lambda>exact.
           case exact of Some r \<Rightarrow> Inr r | None \<Rightarrow> transcendental_pow ctx base exponent neg))"

definition evaluate_pow :: "decimal_context \<Rightarrow> pyfloat \<Rightarrow> pyfloat \<Rightarrow> math_error + pyfloat" where
  "evaluate_pow ctx base exponent =
     (let decimal_base = decimal_value (PFloat base); decimal_exponent = decimal_value (PFloat exponent) in
      if decimal_is_zero decimal_exponent then Inr (float_one False)
      else rbind (integer_ratio decimal_exponent) (\<lambda>(exponent_numerator, exponent_denominator).
        let integral_exponent = (if exponent_denominator = 1 then Some exponent_numerator else None) in
        if decimal_is_zero decimal_base then
          (if decimal_negative decimal_exponent then Inl MathDomain
           else Inr (float_zero (decimal_signed decimal_base
             \<and> (case integral_exponent of None \<Rightarrow> False | Some k \<Rightarrow> odd k))))
        else if decimal_negative decimal_base \<and> integral_exponent = None then Inl MathDomain
        else
          let negative_result = (decimal_negative decimal_base
                \<and> (case integral_exponent of None \<Rightarrow> False | Some k \<Rightarrow> odd k));
              decimal_base = (if decimal_negative decimal_base then decimal_abs decimal_base else decimal_base) in
          if decimal_base = DFin False 1 1 then Inr (float_one negative_result)
          else positive_pow ctx decimal_base decimal_exponent integral_exponent negative_result))"

section \<open>Rounding raises exactly on overflow\<close>

lemma mask_iff:
  fixes bits :: int
  shows "bits AND push_bit fb (push_bit eb 1 - 1) = push_bit fb (push_bit eb 1 - 1)
    \<longleftrightarrow> take_bit eb (drop_bit fb bits) = 2 ^ eb - 1"
proof -
  have m: "push_bit eb 1 - 1 = (mask eb :: int)" by (simp add: mask_eq_exp_minus_1 push_bit_eq_mult)
  have "bits AND push_bit fb (mask eb) = push_bit fb (take_bit eb (drop_bit fb bits))"
    by (rule bit_eqI) (auto simp: bit_simps)
  moreover have "push_bit fb x = push_bit fb (mask eb) \<longleftrightarrow> x = mask eb" for x :: int
    by (simp add: push_bit_eq_mult)
  ultimately show ?thesis by (simp add: m mask_eq_exp_minus_1)
qed

lemma normalize_finite: "is_finite (normalize neg m e)"
  by (simp add: normalize_def Let_def)

lemma finite_from_bits:
  "finite_binary_float_from_bits bits width =
     (if is_finite (binary_float_from_bits bits width) then Inr (binary_float_from_bits bits width)
      else Inl MathNonFinite)"
proof -
  obtain p emin emax bias eb fb where f: "BINARY_FORMATS width = (p, emin, emax, bias, eb, fb)"
    by (metis prod_cases6)
  show ?thesis
    unfolding finite_binary_float_from_bits_def f Let_def prod.case mask_iff
    by (auto simp: binary_float_from_bits_def decode_parts_def f normalize_finite)
qed

lemma round_ratio_eq:
  assumes "width = 32 \<or> width = 64" and "0 \<le> num" "0 < den"
  shows "round_ratio num den neg width =
    (let r = round_float width neg num den in if is_finite r then Inr r else Inl MathNonFinite)"
  by (simp add: round_ratio_def finite_from_bits bits_are_rounding [OF assms] Let_def)

lemma round_float_finite_iff:
  assumes "0 < num" "0 < den"
  shows "is_finite (round_float width neg num den)
    \<longleftrightarrow> \<not> overflows width (round_scaled num den (- quantum width num den)) (quantum width num den)"
  using assms by (simp add: round_float_def Let_def normalize_finite)

lemma overflows_iff_value:
  assumes "0 < m"
  shows "overflows width m e \<longleftrightarrow> 2 powi (format_max width + 1) \<le> real_of_int m * 2 powi e"
proof -
  have b: "(2::int) ^ bit_length m \<le> 2 * m" "m < 2 ^ bit_length m" using bit_length_bounds [OF assms] by simp_all
  let ?b = "int (bit_length m)"
  have up: "real_of_int m < 2 powi ?b"
    using b(2) [THEN of_int_less_iff [where 'a = real, THEN iffD2]] by (simp add: power_int_of_nat)
  have "2 * (2::real) powi (?b - 1) = 2 powi ?b" by (simp add: power_int_diff)
  moreover have "2 powi ?b \<le> 2 * real_of_int m"
    using b(1) [THEN of_int_le_iff [where 'a = real, THEN iffD2]] by (simp add: power_int_of_nat)
  ultimately have low: "2 powi (?b - 1) \<le> real_of_int m" by linarith
  show ?thesis
  proof (cases "?b + e > format_max width + 1")
    case True
    then have "(2::real) powi (format_max width + 1) \<le> 2 powi (?b - 1 + e)" by (intro pow2_mono) simp
    also have "\<dots> \<le> real_of_int m * 2 powi e" using low by (simp add: powi_add2 mult_right_mono)
    finally show ?thesis using True by (simp add: overflows_def)
  next
    case False
    have "real_of_int m * 2 powi e < 2 powi (?b + e)" using up by (simp add: powi_add2)
    also have "\<dots> \<le> 2 powi (format_max width + 1)" using False by (intro pow2_mono) simp
    finally show ?thesis using False by (simp add: overflows_def)
  qed
qed

definition overflow_threshold :: "int \<Rightarrow> real" where
  \<comment> \<open>the largest finite value and half a unit of its last place\<close>
  "overflow_threshold width =
     2 powi (format_max width + 1) - 2 powi (format_max width - int (format_precision width))"

lemma threshold_bounds:
  "2 powi format_max width < overflow_threshold width"
  "overflow_threshold width < 2 powi (format_max width + 1)"
proof -
  have "(2::real) powi (format_max width - int (format_precision width)) < 2 powi format_max width"
    using precision_bounds(1) [of width] by (intro power_int_strict_increasing) simp_all
  then show "2 powi format_max width < overflow_threshold width"
    by (simp add: overflow_threshold_def powi_add2)
  show "overflow_threshold width < 2 powi (format_max width + 1)" by (simp add: overflow_threshold_def)
qed

lemma overflow_low:
  assumes w: "width = 32 \<or> width = 64" and pos: "0 < num" "0 < den"
    and low: "floor_log2 num den < format_max width"
  shows "\<not> overflows width (round_scaled num den (- quantum width num den)) (quantum width num den)"
    and "ratio num den < overflow_threshold width"
proof -
  obtain p eb where p: "p = format_precision width" "1 < p" and mm: "format_min width = 1 - format_max width"
    "int p \<le> format_max width" using format_of_width [OF w] by metis
  let ?e = "quantum width num den" and ?M = "format_max width"
  have "?e \<le> ?M - (int p - 1)" using low mm p by (simp add: quantum_def)
  then have e: "?e \<le> ?M" using p(2) by linarith
  have x: "ratio num den \<le> 2 powi ?M"
    using floor_log2_bounds(2) [OF pos] pow2_mono [of "floor_log2 num den + 1" ?M] low by linarith
  then show "ratio num den < overflow_threshold width" using threshold_bounds(1) [of width] by linarith
  have "ratio num den * 2 powi (- ?e) \<le> 2 powi ?M * 2 powi (- ?e)" using x by (rule mult_right_mono) simp
  also have "\<dots> = real_of_int (2 ^ nat (?M - ?e))" using e by (simp flip: powi_add2 pow2_nonneg)
  finally have m: "round_scaled num den (- ?e) \<le> 2 ^ nat (?M - ?e)"
    by (rule nearest_bounds(1) [OF round_scaled_nearest [OF pos(2)]])
  have "bit_length (round_scaled num den (- ?e)) \<le> Suc (nat (?M - ?e))"
    unfolding bit_length_le_iff [OF round_scaled_upper(2) [OF pos, of width]] power_Suc
    using m zero_less_power [of "2 :: int" "nat (?M - ?e)"] by linarith
  then show "\<not> overflows width (round_scaled num den (- ?e)) ?e" using e by (simp add: overflows_def)
qed

lemma overflow_high:
  assumes w: "width = 32 \<or> width = 64" and pos: "0 < num" "0 < den"
    and high: "format_max width < floor_log2 num den"
  shows "overflows width (round_scaled num den (- quantum width num den)) (quantum width num den)"
    and "overflow_threshold width < ratio num den"
proof -
  obtain p eb where p: "p = format_precision width" "1 < p" and mm: "format_min width = 1 - format_max width"
    "int p \<le> format_max width" using format_of_width [OF w] by metis
  let ?e = "quantum width num den" and ?M = "format_max width" and ?m = "round_scaled num den (- quantum width num den)"
  have n: "format_min width \<le> floor_log2 num den" using high mm p by linarith
  have m: "2 ^ (p - 1) \<le> ?m" and e: "?e = floor_log2 num den - int (p - 1)"
    using normal_significand [OF pos n] p by simp_all
  have top: "(2::real) powi (?M + 1) \<le> 2 powi floor_log2 num den" using high by (intro pow2_mono) simp
  then show "overflow_threshold width < ratio num den"
    using threshold_bounds(2) [of width] floor_log2_bounds(1) [OF pos] by linarith
  have "(2::real) powi floor_log2 num den = 2 powi int (p - 1) * 2 powi ?e"
    by (simp add: e del: power_int_of_nat flip: powi_add2)
  also have "\<dots> \<le> real_of_int ?m * 2 powi ?e"
    using m [THEN of_int_le_iff [where 'a = real, THEN iffD2]]
    by (intro mult_right_mono) (simp_all add: power_int_of_nat)
  finally have "2 powi (?M + 1) \<le> real_of_int ?m * 2 powi ?e" using top by linarith
  moreover have "0 < ?m" using m zero_less_power [of "2 :: int" "p - 1"] by linarith
  ultimately show "overflows width ?m ?e" by (simp add: overflows_iff_value)
qed

lemma overflow_edge:
  assumes w: "width = 32 \<or> width = 64" and pos: "0 < num" "0 < den"
    and edge: "floor_log2 num den = format_max width"
  shows "overflows width (round_scaled num den (- quantum width num den)) (quantum width num den)
    \<longleftrightarrow> overflow_threshold width \<le> ratio num den"
proof -
  obtain p eb where p: "p = format_precision width" "1 < p" and mm: "format_min width = 1 - format_max width"
    "int p \<le> format_max width" using format_of_width [OF w] by metis
  let ?e = "quantum width num den" and ?M = "format_max width" and ?m = "round_scaled num den (- quantum width num den)"
  have n: "format_min width \<le> floor_log2 num den" using edge mm p by linarith
  have m: "2 ^ (p - 1) \<le> ?m" and e: "?e = ?M - int (p - 1)"
    using normal_significand [OF pos n] p edge by simp_all
  have "0 < ?m" using m zero_less_power [of "2 :: int" "p - 1"] by linarith
  have sc: "(2::real) powi (?M + 1) = 2 ^ p * 2 powi ?e"
    using p(2) by (simp add: e of_nat_diff flip: power_int_of_nat powi_add2)
  have half: "(2::real) powi (?M - int p) = 1 / 2 * 2 powi ?e"
    using p(2) by (simp add: e of_nat_diff power_int_diff power_int_add)
  have T: "overflow_threshold width = (2 ^ p - 1 / 2) * 2 powi ?e"
    unfolding overflow_threshold_def using sc half p by (simp add: left_diff_distrib)
  have x: "ratio num den = ratio num den * 2 powi (- ?e) * 2 powi ?e"
    by (simp add: mult.assoc flip: powi_add2)
  have near: "is_nearest (ratio num den * 2 powi (- ?e)) ?m" using pos(2) by (rule round_scaled_nearest)
  have "overflow_threshold width \<le> ratio num den \<longleftrightarrow> 2 ^ p - 1 / 2 \<le> ratio num den * 2 powi (- ?e)"
  proof -
    have "(2 ^ p - 1 / 2) * 2 powi ?e \<le> ratio num den * 2 powi (- ?e) * 2 powi ?e
        \<longleftrightarrow> 2 ^ p - 1 / 2 \<le> ratio num den * 2 powi (- ?e)"
      by (rule mult_le_cancel_right_pos) simp
    then show ?thesis by (simp only: T x [symmetric])
  qed
  also have "\<dots> \<longleftrightarrow> 2 ^ p \<le> ?m"
  proof
    assume a: "2 ^ p - 1 / 2 \<le> ratio num den * 2 powi (- ?e)"
    show "2 ^ p \<le> ?m"
    proof (rule ccontr)
      assume "\<not> 2 ^ p \<le> ?m"
      then have "?m + 1 \<le> 2 ^ p" by simp
      then have "real_of_int (?m + 1) \<le> real_of_int (2 ^ p)" by (rule of_int_le_iff [THEN iffD2])
      then have "real_of_int ?m + 1 \<le> 2 ^ p" by simp
      with a near have "\<bar>ratio num den * 2 powi (- ?e) - ?m\<bar> = 1 / 2" and eq: "real_of_int ?m + 1 = 2 ^ p"
        unfolding is_nearest_def by linarith+
      with near have "even ?m" by (simp add: is_nearest_def)
      moreover have "real_of_int (?m + 1) = real_of_int (2 ^ p)" using eq by simp
      then have "?m + 1 = 2 ^ p" by (rule of_int_eq_iff [THEN iffD1])
      then have "even (?m + 1)" using p(2) by simp
      ultimately show False by simp
    qed
  next
    assume "2 ^ p \<le> ?m"
    then have "real_of_int (2 ^ p) \<le> real_of_int ?m" by (rule of_int_le_iff [THEN iffD2])
    then have "2 ^ p \<le> real_of_int ?m" by simp
    with near show "2 ^ p - 1 / 2 \<le> ratio num den * 2 powi (- ?e)" unfolding is_nearest_def by linarith
  qed
  also have "\<dots> \<longleftrightarrow> 2 powi (?M + 1) \<le> real_of_int ?m * 2 powi ?e"
  proof -
    have "2 ^ p * 2 powi ?e \<le> real_of_int ?m * 2 powi ?e \<longleftrightarrow> real_of_int (2 ^ p) \<le> real_of_int ?m"
      by simp
    also have "\<dots> \<longleftrightarrow> 2 ^ p \<le> ?m" by (rule of_int_le_iff)
    finally show ?thesis by (simp only: sc)
  qed
  finally show ?thesis using \<open>0 < ?m\<close> by (simp add: overflows_iff_value)
qed

lemma overflow_iff:
  assumes "width = 32 \<or> width = 64" and "0 < num" "0 < den"
  shows "overflows width (round_scaled num den (- quantum width num den)) (quantum width num den)
    \<longleftrightarrow> overflow_threshold width \<le> ratio num den"
proof -
  consider "floor_log2 num den < format_max width" | "floor_log2 num den = format_max width"
    | "format_max width < floor_log2 num den" by linarith
  then show ?thesis
  proof cases
    case 1
    with overflow_low [OF assms 1] show ?thesis by simp
  next
    case 2
    then show ?thesis by (rule overflow_edge [OF assms])
  next
    case 3
    with overflow_high [OF assms 3] show ?thesis by simp
  qed
qed

end
