(* ===== verification/ExprValues.thy ===== *)
theory ExprValues
  imports OptionsSchema DetMath
begin

text \<open>
  The values of constant expressions in \<^verbatim>\<open>src/protocyte/model.py\<close>: typed values, the arithmetic
  conversions between kinds, comparisons, division, bitwise operators and shifts, and the coercion
  of results to the kind a constant declares. A typed value is a bool, a string, or a number with
  its kind; the C++ text the source also carries with a value is written but never read for output
  and is left out. Messages keep the label they start with; a few have none.
\<close>

section \<open>Errors\<close>

datatype value_issue =
  OperandOutOfRange int kind | ResultOutOfRange int kind | DivisionOutOfRange kind
| ExpectedBool | ExpectedNumeric | OutsideSupportedRange | NotFinite
| NotFromIntegerKind | NotToIntegerKind | BitwiseOperands | BitwiseOutsideRange
| NegativeShift | ShiftTooLarge int nat | EqualityTypes | DivisionByZero | ModuloByZero
| ModuloNotInteger | PlusOperands

datatype coerce_issue =
  InvalidLiteral kind | LiteralNotFinite | MustBeString | MustBeBool | MustBeNumeric
| OutOfRangeFor int kind

datatype function_issue =
  WrongArguments | NotNumericArgument | ArgumentOutsideRange | ArgumentOutOfRange kind
| ResultNotFinite | DomainError | FunctionResultOutOfRange kind | UnsupportedFunction

datatype parse_issue =
  UnterminatedString | InvalidNumber string | UnexpectedCharacter string | InfiniteNumber
| InvalidString | InvalidUtf8 | UnexpectedToken string | ExpectedToken string string
| TooDeep | LiteralOutsideRange string

datatype constant_issue =
  ConstantCycle | DependencyTooDeep | InvalidReference string | UnknownScope string
| UnknownConstant string | UnknownPackageConstant string | ArrayNotPositive
| DefaultSizeMismatch | DefaultSizeExceeds

datatype expr_issue =
  ValueIssue value_issue | CoerceIssue coerce_issue | FunctionIssue string function_issue
| ParseIssue parse_issue | ConstantIssue constant_issue

datatype expr_error =
  Labelled string expr_issue
| Unlabelled expr_issue
| OutOfFuel \<comment> \<open>not an error of the program: a bound of the model was too small\<close>
| Uncaught \<comment> \<open>an exception of the library that no handler turns into a message\<close>

abbreviation value_error :: "string \<Rightarrow> value_issue \<Rightarrow> expr_error" where
  "value_error label i \<equiv> Labelled label (ValueIssue i)"

section \<open>Kinds\<close>

definition INTEGER_EXPRESSION_KINDS :: "kind list" where
  "INTEGER_EXPRESSION_KINDS = [KInt32, KUInt32, KInt64, KUInt64]"

fun INTEGER_KIND_INFO :: "kind \<Rightarrow> nat \<times> bool" where
  \<comment> \<open>width and signedness; the table has the integer kinds only and is read for no other\<close>
  "INTEGER_KIND_INFO KInt32 = (32, True)"
| "INTEGER_KIND_INFO KUInt32 = (32, False)"
| "INTEGER_KIND_INFO KInt64 = (64, True)"
| "INTEGER_KIND_INFO KUInt64 = (64, False)"
| "INTEGER_KIND_INFO _ = (0, False)"

definition is_integer_kind :: "kind \<Rightarrow> bool" where
  "is_integer_kind k = List.member INTEGER_EXPRESSION_KINDS k"

definition is_float_kind :: "kind \<Rightarrow> bool" where
  "is_float_kind k = (k = KFloat \<or> k = KDouble)"

definition is_numeric_kind :: "kind \<Rightarrow> bool" where
  \<comment> \<open>\<^verbatim>\<open>_NUMERIC_EXPRESSION_KINDS\<close>\<close>
  "is_numeric_kind k = (is_integer_kind k \<or> is_float_kind k)"

datatype family = FamBool | FamString | FamNumeric

definition constant_family :: "kind \<Rightarrow> family" where
  "constant_family k = (if k = KBool then FamBool else if k = KString then FamString else FamNumeric)"

definition constant_numeric_kind :: "kind \<Rightarrow> kind option" where
  "constant_numeric_kind k = (if is_numeric_kind k then Some k else None)"

definition literal_integer_kind :: "int \<Rightarrow> bool \<Rightarrow> kind option" where
  "literal_integer_kind v hexadecimal =
     (if hexadecimal then
        (if 0 \<le> v \<and> v \<le> 2 ^ 31 - 1 then Some KInt32
         else if v \<le> 2 ^ 32 - 1 then Some KUInt32
         else if v \<le> 2 ^ 63 - 1 then Some KInt64
         else if v \<le> 2 ^ 64 - 1 then Some KUInt64 else None)
      else if - (2 ^ 31) \<le> v \<and> v \<le> 2 ^ 31 - 1 then Some KInt32
      else if - (2 ^ 63) \<le> v \<and> v \<le> 2 ^ 63 - 1 then Some KInt64 else None)"

definition integer_kind :: "nat \<Rightarrow> bool \<Rightarrow> kind" where
  "integer_kind bits is_signed =
     (if bits = 32 then (if is_signed then KInt32 else KUInt32)
      else (if is_signed then KInt64 else KUInt64))"

definition integer_range :: "kind \<Rightarrow> int \<times> int" where
  "integer_range k = (let (bits, is_signed) = INTEGER_KIND_INFO k in
     if is_signed then (- (2 ^ (bits - 1)), 2 ^ (bits - 1) - 1) else (0, 2 ^ bits - 1))"

definition common_integer_kind :: "kind \<Rightarrow> kind \<Rightarrow> kind" where
  "common_integer_kind lhs rhs =
     (let (lhs_bits, lhs_signed) = INTEGER_KIND_INFO lhs; (rhs_bits, rhs_signed) = INTEGER_KIND_INFO rhs in
      if lhs = rhs then lhs
      else if lhs_signed = rhs_signed then integer_kind (max lhs_bits rhs_bits) lhs_signed
      else
        let unsigned_kind = (if \<not> lhs_signed then lhs else rhs);
            signed_kind = (if \<not> lhs_signed then rhs else lhs);
            (unsigned_bits, _) = INTEGER_KIND_INFO unsigned_kind;
            (signed_bits, _) = INTEGER_KIND_INFO signed_kind in
        if unsigned_bits \<ge> signed_bits then integer_kind unsigned_bits False
        else integer_kind signed_bits True)"

definition common_numeric_kind :: "kind list \<Rightarrow> kind" where
  "common_numeric_kind ks =
     (if List.member ks KDouble then KDouble
      else if List.member ks KFloat then KFloat
      else foldl common_integer_kind (hd ks) (tl ks))"

section \<open>Typed values\<close>

datatype typed_value = BoolV bool | StringV string | NumV number "kind option"

definition round_integer_to_f32_input :: "int \<Rightarrow> pyfloat" where
  "round_integer_to_f32_input v =
     (let magnitude = \<bar>v\<bar>; shift = int (bit_length magnitude) - 24 in
      if shift \<le> 0 then float_of_int v
      else
        let truncated = drop_bit (nat shift) magnitude;
            remainder = magnitude AND (2 ^ nat shift - 1);
            halfway = 2 ^ nat (shift - 1);
            truncated = (if remainder > halfway \<or> (remainder = halfway \<and> truncated AND 1 \<noteq> 0)
                         then truncated + 1 else truncated);
            (truncated, shift) = (if truncated = 2 ^ 24 then (drop_bit 1 truncated, shift + 1)
                                  else (truncated, shift));
            rounded = push_bit (nat shift) truncated in
        if v < 0 then float_neg (float_of_int rounded) else float_of_int rounded)"

definition round_f32 :: "expr_error \<Rightarrow> number \<Rightarrow> expr_error + pyfloat" where
  "round_f32 err v =
     (let numeric = (case v of PInt i \<Rightarrow> round_integer_to_f32_input i | PFloat x \<Rightarrow> x) in
      if \<not> is_finite numeric then Inl err
      else case pack_f32 numeric of None \<Rightarrow> Inl err
         | Some rounded \<Rightarrow> if is_finite rounded then Inr rounded else Inl err)"

abbreviation must_be_finite :: expr_error where
  "must_be_finite \<equiv> Unlabelled (ValueIssue NotFinite)"

definition numeric_value :: "number \<Rightarrow> kind option \<Rightarrow> expr_error + typed_value" where
  "numeric_value v numeric_kind =
     (let k = (case numeric_kind of Some k \<Rightarrow> Some k
               | None \<Rightarrow> (case v of PFloat _ \<Rightarrow> Some KDouble | PInt i \<Rightarrow> literal_integer_kind i False)) in
      rbind (if k = Some KFloat then rbind (round_f32 must_be_finite v) (\<lambda>x. Inr (PFloat x)) else Inr v)
        (\<lambda>v. if finite_number v then Inr (NumV v k) else Inl must_be_finite))"

definition zero_of :: "kind \<Rightarrow> number" where
  \<comment> \<open>the placeholder of a kind that is not evaluated\<close>
  "zero_of k = (if is_float_kind k then PFloat (float_zero False) else PInt 0)"

fun type_only_value :: "typed_value \<Rightarrow> expr_error + typed_value" where
  "type_only_value (BoolV _) = Inr (BoolV False)"
| "type_only_value (StringV _) = Inr (StringV [])"
| "type_only_value (NumV v k) = numeric_value (case k of None \<Rightarrow> v | Some k \<Rightarrow> zero_of k) k"

section \<open>Conversions\<close>

definition convert_numeric_value :: "number \<Rightarrow> kind \<Rightarrow> kind \<Rightarrow> string \<Rightarrow> expr_error + number" where
  "convert_numeric_value v source_kind target_kind label =
     rbind (if is_integer_kind source_kind then
         (case v of
            PFloat _ \<Rightarrow> Inl (Unlabelled (ValueIssue NotFromIntegerKind))
          | PInt i \<Rightarrow>
              let (source_bits, source_signed) = INTEGER_KIND_INFO source_kind;
                  (lower, upper) = integer_range source_kind in
              if source_signed then
                (if i < lower \<or> i > upper then Inl (value_error label (OperandOutOfRange i source_kind))
                 else Inr (PInt i))
              else Inr (PInt (i AND (2 ^ source_bits - 1))))
       else Inr v) (\<lambda>v.
     if target_kind = KDouble then Inr (PFloat (float_of v))
     else if target_kind = KFloat then rbind (round_f32 must_be_finite v) (\<lambda>x. Inr (PFloat x))
     else case v of
       PFloat _ \<Rightarrow> Inl (Unlabelled (ValueIssue NotToIntegerKind))
     | PInt i \<Rightarrow>
         if \<not> is_integer_kind source_kind then Inl (Unlabelled (ValueIssue NotToIntegerKind))
         else
           let (bits, is_signed) = INTEGER_KIND_INFO target_kind; (lower, upper) = integer_range target_kind in
           if \<not> is_signed then Inr (PInt (i AND (2 ^ bits - 1)))
           else if i < lower \<or> i > upper then Inl (value_error label (OperandOutOfRange i target_kind))
           else Inr (PInt i))"

definition normalize_numeric_result :: "number \<Rightarrow> kind \<Rightarrow> string \<Rightarrow> expr_error + number" where
  "normalize_numeric_result v k label =
     (case v of
        PFloat _ \<Rightarrow> Inr v
      | PInt i \<Rightarrow>
          if \<not> is_integer_kind k then Inr v
          else
            let (bits, is_signed) = INTEGER_KIND_INFO k; (lower, upper) = integer_range k in
            if \<not> is_signed then Inr (PInt (i AND (2 ^ bits - 1)))
            else if i < lower \<or> i > upper then Inl (value_error label (ResultOutOfRange i k))
            else Inr v)"

definition typed_numeric_kind :: "typed_value \<Rightarrow> string \<Rightarrow> expr_error + kind" where
  "typed_numeric_kind v label =
     (case v of
        BoolV _ \<Rightarrow> Inr KInt32
      | StringV _ \<Rightarrow> Inl (value_error label ExpectedNumeric)
      | NumV n k \<Rightarrow>
          (case (k, n) of
             (Some k, _) \<Rightarrow> if is_numeric_kind k then Inr k else
               (case n of PInt i \<Rightarrow> (case literal_integer_kind i False of Some k \<Rightarrow> Inr k
                    | None \<Rightarrow> Inl (value_error label OutsideSupportedRange))
                | PFloat _ \<Rightarrow> Inl (value_error label OutsideSupportedRange))
           | (None, PInt i) \<Rightarrow> (case literal_integer_kind i False of Some k \<Rightarrow> Inr k
                | None \<Rightarrow> Inl (value_error label OutsideSupportedRange))
           | (None, PFloat _) \<Rightarrow> Inl (value_error label OutsideSupportedRange)))"

definition expect_bool :: "typed_value \<Rightarrow> string \<Rightarrow> expr_error + bool" where
  "expect_bool v label =
     (case v of
        BoolV b \<Rightarrow> Inr b
      | NumV n _ \<Rightarrow>
          rbind (typed_numeric_kind v label) (\<lambda>k.
          rbind (convert_numeric_value n k k label) (\<lambda>normalized. Inr (\<not> number_is_zero normalized)))
      | StringV _ \<Rightarrow> Inl (value_error label ExpectedBool))"

definition expect_numeric :: "typed_value \<Rightarrow> string \<Rightarrow> expr_error + number" where
  "expect_numeric v label =
     (case v of
        BoolV b \<Rightarrow> Inr (PInt (if b then 1 else 0))
      | NumV n _ \<Rightarrow> Inr n
      | StringV _ \<Rightarrow> Inl (value_error label ExpectedNumeric))"

definition common_value_numeric_kind :: "typed_value \<Rightarrow> typed_value \<Rightarrow> expr_error + kind" where
  "common_value_numeric_kind lhs rhs =
     rbind (typed_numeric_kind lhs ''numeric expression'') (\<lambda>l.
     rbind (typed_numeric_kind rhs ''numeric expression'') (\<lambda>r. Inr (common_numeric_kind [l, r])))"

definition numeric_operands ::
  "typed_value \<Rightarrow> typed_value \<Rightarrow> string \<Rightarrow> expr_error + number \<times> number \<times> kind" where
  "numeric_operands lhs rhs label =
     rbind (expect_numeric lhs label) (\<lambda>left.
     rbind (expect_numeric rhs label) (\<lambda>right.
     rbind (common_value_numeric_kind lhs rhs) (\<lambda>result_kind.
     rbind (typed_numeric_kind lhs label) (\<lambda>lk.
     rbind (convert_numeric_value left lk result_kind label) (\<lambda>left.
     rbind (typed_numeric_kind rhs label) (\<lambda>rk.
     rbind (convert_numeric_value right rk result_kind label) (\<lambda>right.
       Inr (left, right, result_kind))))))))"

definition numeric_binary ::
  "typed_value \<Rightarrow> typed_value \<Rightarrow> string \<Rightarrow> (number \<Rightarrow> number \<Rightarrow> number) \<Rightarrow> expr_error + typed_value" where
  "numeric_binary lhs rhs label f =
     rbind (numeric_operands lhs rhs label) (\<lambda>(left, right, result_kind).
     rbind (normalize_numeric_result (f left right) result_kind label) (\<lambda>result.
       numeric_value result (Some result_kind)))"

definition numeric_compare ::
  "typed_value \<Rightarrow> typed_value \<Rightarrow> string \<Rightarrow> (number \<Rightarrow> number \<Rightarrow> bool) \<Rightarrow> expr_error + bool" where
  "numeric_compare lhs rhs label f =
     rbind (numeric_operands lhs rhs label) (\<lambda>(left, right, _). Inr (f left right))"

definition compare_equal :: "typed_value \<Rightarrow> typed_value \<Rightarrow> string \<Rightarrow> expr_error + bool" where
  "compare_equal lhs rhs label =
     (case (lhs, rhs) of
        (StringV a, StringV b) \<Rightarrow> Inr (a = b)
      | (StringV _, _) \<Rightarrow> Inl (value_error label EqualityTypes)
      | (_, StringV _) \<Rightarrow> Inl (value_error label EqualityTypes)
      | _ \<Rightarrow> rbind (numeric_operands lhs rhs label) (\<lambda>(left, right, _). Inr (number_eq left right)))"

section \<open>Division\<close>

definition truncating_integer_divide :: "int \<Rightarrow> int \<Rightarrow> int" where
  "truncating_integer_divide lhs rhs =
     (let quotient = \<bar>lhs\<bar> div \<bar>rhs\<bar> in if (lhs < 0) \<noteq> (rhs < 0) then - quotient else quotient)"

definition signed_division_overflows :: "int \<Rightarrow> int \<Rightarrow> kind \<Rightarrow> bool" where
  "signed_division_overflows lhs rhs k = (lhs = fst (integer_range k) \<and> rhs = -1)"

fun int_of :: "number \<Rightarrow> int" where
  \<comment> \<open>\<^verbatim>\<open>int(x)\<close>\<close>
  "int_of (PInt i) = i"
| "int_of (PFloat x) = float_trunc x"

definition divide_values :: "bool \<Rightarrow> typed_value \<Rightarrow> typed_value \<Rightarrow> string \<Rightarrow> expr_error + typed_value" where
  "divide_values evaluate lhs rhs label =
     rbind (numeric_operands lhs rhs label) (\<lambda>(lhs_value, rhs_value, result_kind).
     if \<not> evaluate then numeric_value (zero_of result_kind) (Some result_kind)
     else if number_is_zero rhs_value then Inl (value_error label DivisionByZero)
     else if is_float_kind result_kind then
       numeric_value (PFloat (float_div (float_of lhs_value) (float_of rhs_value))) (Some result_kind)
     else
       let left_integer = int_of lhs_value; right_integer = int_of rhs_value;
           (_, is_signed) = INTEGER_KIND_INFO result_kind in
       if is_signed \<and> signed_division_overflows left_integer right_integer result_kind
       then Inl (value_error label (DivisionOutOfRange result_kind))
       else
         let result = (if is_signed then truncating_integer_divide left_integer right_integer
                       else left_integer div right_integer) in
         rbind (normalize_numeric_result (PInt result) result_kind label) (\<lambda>v.
           numeric_value v (Some result_kind)))"

definition modulo_values :: "bool \<Rightarrow> typed_value \<Rightarrow> typed_value \<Rightarrow> string \<Rightarrow> expr_error + typed_value" where
  "modulo_values evaluate lhs rhs label =
     rbind (numeric_operands lhs rhs label) (\<lambda>(lhs_value, rhs_value, result_kind).
     if is_float_kind result_kind then Inl (value_error label ModuloNotInteger)
     else if \<not> evaluate then numeric_value (PInt 0) (Some result_kind)
     else if number_is_zero rhs_value then Inl (value_error label ModuloByZero)
     else
       let left_integer = int_of lhs_value; right_integer = int_of rhs_value;
           (_, is_signed) = INTEGER_KIND_INFO result_kind in
       if is_signed \<and> signed_division_overflows left_integer right_integer result_kind
       then Inl (value_error label (DivisionOutOfRange result_kind))
       else
         let result = (if is_signed
               then left_integer - truncating_integer_divide left_integer right_integer * right_integer
               else left_integer mod right_integer) in
         rbind (normalize_numeric_result (PInt result) result_kind label) (\<lambda>v.
           numeric_value v (Some result_kind)))"

section \<open>Bitwise operators and shifts\<close>

definition expect_integral :: "typed_value \<Rightarrow> string \<Rightarrow> expr_error + int \<times> kind" where
  "expect_integral v label =
     (case v of
        BoolV b \<Rightarrow> Inr (if b then 1 else 0, KInt32)
      | NumV (PInt i) k \<Rightarrow>
          (case (case k of Some k \<Rightarrow> Some k | None \<Rightarrow> literal_integer_kind i False) of
             None \<Rightarrow> Inl (value_error label BitwiseOutsideRange)
           | Some k \<Rightarrow> Inr (i, k))
      | _ \<Rightarrow> Inl (value_error label BitwiseOperands))"

definition integer_bits :: "int \<Rightarrow> kind \<Rightarrow> string \<Rightarrow> expr_error + int" where
  "integer_bits v k label =
     (let (bits, is_signed) = INTEGER_KIND_INFO k; (lower, upper) = integer_range k in
      if is_signed \<and> (v < lower \<or> v > upper) then Inl (value_error label (OperandOutOfRange v k))
      else Inr (v AND (2 ^ bits - 1)))"

definition integer_from_bits :: "int \<Rightarrow> kind \<Rightarrow> int" where
  "integer_from_bits v k =
     (let (bits, is_signed) = INTEGER_KIND_INFO k; v = v AND (2 ^ bits - 1) in
      if is_signed \<and> v \<ge> 2 ^ (bits - 1) then v - 2 ^ bits else v)"

definition bitwise_binary ::
  "typed_value \<Rightarrow> typed_value \<Rightarrow> string \<Rightarrow> (int \<Rightarrow> int \<Rightarrow> int) \<Rightarrow> expr_error + typed_value" where
  "bitwise_binary lhs rhs label f =
     rbind (expect_integral lhs label) (\<lambda>(lhs_value, lhs_kind).
     rbind (expect_integral rhs label) (\<lambda>(rhs_value, rhs_kind).
     let result_kind = common_integer_kind lhs_kind rhs_kind in
     rbind (convert_numeric_value (PInt lhs_value) lhs_kind result_kind label) (\<lambda>l.
     rbind (convert_numeric_value (PInt rhs_value) rhs_kind result_kind label) (\<lambda>r.
     let (bits, _) = INTEGER_KIND_INFO result_kind in
     rbind (integer_bits (int_of l) result_kind label) (\<lambda>lb.
     rbind (integer_bits (int_of r) result_kind label) (\<lambda>rb.
       numeric_value (PInt (integer_from_bits (f lb rb AND (2 ^ bits - 1)) result_kind))
         (Some result_kind)))))))"

definition bitwise_complement :: "typed_value \<Rightarrow> string \<Rightarrow> expr_error + typed_value" where
  "bitwise_complement v label =
     rbind (expect_integral v label) (\<lambda>(operand, k).
     let (bits, _) = INTEGER_KIND_INFO k in
     rbind (integer_bits operand k label) (\<lambda>b.
       numeric_value (PInt (integer_from_bits (NOT b AND (2 ^ bits - 1)) k)) (Some k)))"

definition shift_value :: "typed_value \<Rightarrow> typed_value \<Rightarrow> string \<Rightarrow> bool \<Rightarrow> expr_error + typed_value" where
  "shift_value lhs rhs label left =
     rbind (expect_integral lhs label) (\<lambda>(lhs_value, lhs_kind).
     rbind (expect_integral rhs label) (\<lambda>(rhs_value, rhs_kind).
     rbind (convert_numeric_value (PInt lhs_value) lhs_kind lhs_kind label) (\<lambda>l.
     rbind (convert_numeric_value (PInt rhs_value) rhs_kind rhs_kind label) (\<lambda>r.
     let (bits, is_signed) = INTEGER_KIND_INFO lhs_kind; lhs_value = int_of l; rhs_value = int_of r;
         mask = 2 ^ bits - 1 in
     if rhs_value < 0 then Inl (value_error label NegativeShift)
     else if rhs_value \<ge> int bits then Inl (value_error label (ShiftTooLarge rhs_value bits))
     else
       let result = (if left then integer_from_bits (push_bit (nat rhs_value) (lhs_value AND mask)) lhs_kind
             else if is_signed then drop_bit (nat rhs_value) lhs_value
             else drop_bit (nat rhs_value) (lhs_value AND mask)) in
       numeric_value (PInt result) (Some lhs_kind)))))"

end
