(* ===== verification/ExprFunctions.thy ===== *)
theory ExprFunctions
  imports ExprValues
begin

text \<open>
  The functions of constant expressions (casts, \<open>len\<close>, \<open>substr\<close>, \<open>starts_with\<close>, \<open>pow\<close>, \<open>abs\<close>,
  \<open>min\<close>, \<open>max\<close>, real and rounding functions), their type-only variants for operands that a logical
  operator skips, and the coercion of literals and results, from \<^verbatim>\<open>src/protocyte/model.py\<close>.
\<close>

section \<open>Text of numbers\<close>

fun digits_of :: "int \<Rightarrow> string" where
  "digits_of n = (if n < 10 then [digit_char (nat n)] else digits_of (n div 10) @ [digit_char (nat (n mod 10))])"

declare digits_of.simps [simp del]

definition int_text :: "int \<Rightarrow> string" where
  \<comment> \<open>\<^verbatim>\<open>str\<close> of an integer\<close>
  "int_text i = (if i < 0 then CHR ''-'' # digits_of (- i) else digits_of i)"

lemma digits_of_nat: "0 \<le> n \<Longrightarrow> digits_of n = dec_of_nat (nat n)"
proof (induction n rule: digits_of.induct)
  case (1 n)
  then show ?case
    by (simp add: digits_of.simps [of n] dec_of_nat.simps [of "nat n"] nat_div_distrib nat_mod_distrib nat_less_iff)
qed

lemma int_text_dec: "int_text i = dec_of_int i"
  by (simp add: int_text_def dec_of_int_def digits_of_nat)

function ratio_digits :: "int \<Rightarrow> int \<Rightarrow> int" where
  \<comment> \<open>the decimal exponent of a positive ratio\<close>
  "ratio_digits n d =
     (if n \<le> 0 \<or> d \<le> 0 then 0
      else if n < d then ratio_digits (10 * n) d - 1
      else if n \<ge> 10 * d then ratio_digits n (10 * d) + 1 else 0)"
  by pat_completeness auto
termination
  by (relation "measure (\<lambda>(n, d). if n < d then nat (d - n) + 1
       else if n \<ge> 10 * d then nat (n - d) + 1 else 0)") auto

declare ratio_digits.simps [simp del]

definition rounded_digits :: "nat \<Rightarrow> int \<Rightarrow> int \<Rightarrow> int \<times> int" where
  \<comment> \<open>\<open>precision\<close> significant digits, correctly rounded, and the decimal exponent\<close>
  "rounded_digits precision n d =
     (let x = ratio_digits n d; k = int precision - 1 - x;
        r = (if 0 \<le> k then round_half_even (n * 10 ^ nat k) d else round_half_even n (d * 10 ^ nat (- k))) in
      if r = 10 ^ precision then (10 ^ (precision - 1), x + 1) else (r, x))"

definition fraction_text :: "string \<Rightarrow> string" where
  \<comment> \<open>\<^verbatim>\<open>%g\<close> drops trailing zeros and a bare point\<close>
  "fraction_text digits =
     (let r = rstrip_char CHR ''0'' digits in if r = [] then [] else CHR ''.'' # r)"

definition format_g :: "nat \<Rightarrow> pyfloat \<Rightarrow> string" where
  \<comment> \<open>\<^verbatim>\<open>format(x, ".<precision>g")\<close>\<close>
  "format_g precision x =
     (case x of
        FNan \<Rightarrow> ''nan''
      | FInf neg \<Rightarrow> (if neg then ''-inf'' else ''inf'')
      | FFin neg m e \<Rightarrow> (if neg then ''-'' else []) @
         (if m = 0 then ''0''
          else
            let (n, d) = dyadic m e; (r, x) = rounded_digits precision n d; digits = int_text r in
            if x < -4 \<or> x \<ge> int precision then
              take 1 digits @ fraction_text (drop 1 digits) @ ''e'' @ (if x < 0 then ''-'' else ''+'')
              @ (if \<bar>x\<bar> < 10 then ''0'' else []) @ int_text \<bar>x\<bar>
            else if 0 \<le> x then take (nat x + 1) digits @ fraction_text (drop (nat x + 1) digits)
            else ''0'' @ fraction_text (replicate (nat (- x) - 1) CHR ''0'' @ digits)))"

definition float_text :: "nat \<Rightarrow> pyfloat \<Rightarrow> string" where
  "float_text precision x =
     (let text_of = format_g precision x in
      if \<not> List.member text_of CHR ''e'' \<and> \<not> List.member text_of CHR ''E''
         \<and> \<not> List.member text_of CHR ''.'' then text_of @ ''.0'' else text_of)"

section \<open>Literals and coercion\<close>

datatype pyvalue = PyBool bool | PyNum number | PyStr string

definition in_bytes :: "nat \<Rightarrow> char \<Rightarrow> nat \<Rightarrow> bool" where
  "in_bytes lo c hi = (lo \<le> byte_of c \<and> byte_of c \<le> hi)"

fun valid_utf8_char :: "string \<Rightarrow> bool" where
  "valid_utf8_char [a] = (byte_of a < 128)"
| "valid_utf8_char [a, b] = (in_bytes 194 a 223 \<and> in_bytes 128 b 191)"
| "valid_utf8_char [a, b, c] =
     (in_bytes 128 c 191 \<and>
      (if byte_of a = 224 then in_bytes 160 b 191
       else if byte_of a = 237 then in_bytes 128 b 159
       else in_bytes 225 a 239 \<and> in_bytes 128 b 191))"
| "valid_utf8_char [a, b, c, d] =
     (in_bytes 128 c 191 \<and> in_bytes 128 d 191 \<and>
      (if byte_of a = 240 then in_bytes 144 b 191
       else if byte_of a = 244 then in_bytes 128 b 143
       else in_bytes 241 a 243 \<and> in_bytes 128 b 191))"
| "valid_utf8_char _ = False"

definition validate_utf8_string :: "string \<Rightarrow> string \<Rightarrow> expr_error + unit" where
  \<comment> \<open>text that came from a surrogate escape is not encodable\<close>
  "validate_utf8_string v label =
     raise_if (\<not> list_all valid_utf8_char (utf8_chars v)) (Labelled label (ParseIssue InvalidUtf8))"

abbreviation coerce_error :: "string \<Rightarrow> coerce_issue \<Rightarrow> expr_error" where
  "coerce_error label i \<equiv> Labelled label (CoerceIssue i)"

abbreviation function_error :: "string \<Rightarrow> string \<Rightarrow> function_issue \<Rightarrow> expr_error" where
  "function_error label name i \<equiv> Labelled label (FunctionIssue name i)"

definition coerce_integer :: "kind \<Rightarrow> int \<Rightarrow> string \<Rightarrow> expr_error + int" where
  "coerce_integer k v label =
     (let (lower, upper) =
        (if k = KInt32 then (- (2 ^ 31), 2 ^ 31 - 1)
         else if k = KInt64 then (- (2 ^ 63), 2 ^ 63 - 1)
         else if k = KUInt32 then (0, 2 ^ 32 - 1)
         else (0, 2 ^ 64 - 1)) in
      if v < lower \<or> v > upper then Inl (coerce_error label (OutOfRangeFor v k)) else Inr v)"

definition coerce_literal :: "kind \<Rightarrow> pyvalue \<Rightarrow> string \<Rightarrow> expr_error + pyvalue" where
  "coerce_literal k literal label =
     (case constant_family k of
        FamString \<Rightarrow>
          (case literal of PyStr s \<Rightarrow> rbind (validate_utf8_string s label) (\<lambda>_. Inr literal)
           | _ \<Rightarrow> Inl (coerce_error label (InvalidLiteral k)))
      | FamBool \<Rightarrow> (case literal of PyBool _ \<Rightarrow> Inr literal | _ \<Rightarrow> Inl (coerce_error label (InvalidLiteral k)))
      | FamNumeric \<Rightarrow>
          if is_float_kind k then
            (case literal of
               PyNum v \<Rightarrow>
                 if k = KFloat then
                   rbind (round_f32 (coerce_error label LiteralNotFinite) v) (\<lambda>x. Inr (PyNum (PFloat x)))
                 else if \<not> is_finite (float_of v) then Inl (coerce_error label LiteralNotFinite)
                 else Inr (PyNum (PFloat (float_of v)))
             | _ \<Rightarrow> Inl (coerce_error label (InvalidLiteral k)))
          else
            (case literal of
               PyNum (PInt i) \<Rightarrow> rbind (coerce_integer k i label) (\<lambda>i. Inr (PyNum (PInt i)))
             | _ \<Rightarrow> Inl (coerce_error label (InvalidLiteral k))))"

definition coerce_expression_value :: "kind \<Rightarrow> typed_value \<Rightarrow> string \<Rightarrow> expr_error + pyvalue" where
  "coerce_expression_value k v label =
     (case constant_family k of
        FamString \<Rightarrow>
          (case v of StringV s \<Rightarrow> rbind (validate_utf8_string s label) (\<lambda>_. Inr (PyStr s))
           | _ \<Rightarrow> Inl (coerce_error label MustBeString))
      | FamBool \<Rightarrow>
          (case v of
             BoolV b \<Rightarrow> Inr (PyBool b)
           | NumV (PInt i) _ \<Rightarrow>
               rbind (typed_numeric_kind v label) (\<lambda>source_kind.
               rbind (convert_numeric_value (PInt i) source_kind source_kind label) (\<lambda>normalized.
                 Inr (PyBool (\<not> number_is_zero normalized))))
           | _ \<Rightarrow> Inl (coerce_error label MustBeBool))
      | FamNumeric \<Rightarrow>
          (case v of
             NumV n _ \<Rightarrow>
               rbind (typed_numeric_kind v label) (\<lambda>source_kind.
               if is_float_kind k then
                 rbind (convert_numeric_value n source_kind k label) (\<lambda>out.
                   if \<not> is_finite (float_of out) then Inl (value_error label NotFinite)
                   else Inr (PyNum (PFloat (float_of out))))
               else
                 rbind (case n of
                     PFloat x \<Rightarrow> Inr (float_trunc x)
                   | PInt i \<Rightarrow> rbind (convert_numeric_value n source_kind source_kind label)
                                (\<lambda>v. Inr (int_of v))) (\<lambda>i.
                 rbind (coerce_integer k i label) (\<lambda>i. Inr (PyNum (PInt i)))))
           | _ \<Rightarrow> Inl (coerce_error label MustBeNumeric)))"

section \<open>Arguments and results of functions\<close>

definition function_numeric_argument ::
  "string \<Rightarrow> typed_value \<Rightarrow> string \<Rightarrow> expr_error + number \<times> kind" where
  "function_numeric_argument name v label =
     (case v of
        BoolV b \<Rightarrow> Inr (PInt (if b then 1 else 0), KInt32)
      | StringV _ \<Rightarrow> Inl (function_error label name NotNumericArgument)
      | NumV n k \<Rightarrow>
          (case (case k of
                   Some k' \<Rightarrow> if is_numeric_kind k' then k
                     else (case n of PInt i \<Rightarrow> literal_integer_kind i False | _ \<Rightarrow> k)
                 | None \<Rightarrow> (case n of PInt i \<Rightarrow> literal_integer_kind i False | _ \<Rightarrow> k)) of
             None \<Rightarrow> Inl (function_error label name ArgumentOutsideRange)
           | Some k \<Rightarrow>
               if \<not> is_numeric_kind k then Inl (function_error label name ArgumentOutsideRange)
               else if is_integer_kind k then
                 (case n of
                    PFloat _ \<Rightarrow> Inl Uncaught
                  | PInt i \<Rightarrow>
                      let (bits, is_signed) = INTEGER_KIND_INFO k; (lower, upper) = integer_range k in
                      if is_signed then
                        (if i < lower \<or> i > upper then Inl (function_error label name (ArgumentOutOfRange k))
                         else Inr (n, k))
                      else Inr (PInt (i AND (2 ^ bits - 1)), k))
               else Inr (n, k)))"

definition function_numeric_result ::
  "string \<Rightarrow> number \<Rightarrow> kind \<Rightarrow> string \<Rightarrow> expr_error + typed_value" where
  "function_numeric_result name v k label =
     rbind (if k = KFloat then rbind (round_f32 (function_error label name ResultNotFinite) v) (\<lambda>x. Inr (PFloat x))
            else if \<not> finite_number v then Inl (function_error label name ResultNotFinite)
            else Inr v) (\<lambda>v. numeric_value v (Some k))"

fun math_result :: "string \<Rightarrow> string \<Rightarrow> math_error + pyfloat \<Rightarrow> expr_error + pyfloat" where
  \<comment> \<open>the handlers around the deterministic math\<close>
  "math_result name label (Inr x) = Inr x"
| "math_result name label (Inl MathDomain) = Inl (function_error label name DomainError)"
| "math_result name label (Inl MathNonFinite) = Inl (function_error label name ResultNotFinite)"
| "math_result name label (Inl UncaughtOverflow) = Inl Uncaught"

definition real_result_kind :: "kind \<Rightarrow> kind" where
  "real_result_kind source_kind = (if source_kind = KFloat then KFloat else KDouble)"

definition evaluate_real_function ::
  "decimal_context \<Rightarrow> string \<Rightarrow> number \<Rightarrow> kind \<Rightarrow> string \<Rightarrow> expr_error + typed_value" where
  "evaluate_real_function ctx name v source_kind label =
     (let result_kind = real_result_kind source_kind in
      rbind (convert_numeric_value v source_kind result_kind ''numeric expression'') (\<lambda>operand.
      rbind (math_result name label
          (evaluate_unary ctx name operand (if result_kind = KFloat then 32 else 64))) (\<lambda>result.
        function_numeric_result name (PFloat result) result_kind label)))"

fun copysign :: "pyfloat \<Rightarrow> pyfloat \<Rightarrow> pyfloat" where
  "copysign (FFin _ m e) y = FFin (negative y) m e"
| "copysign (FInf _) y = FInf (negative y)"
| "copysign FNan y = FNan"

fun modf :: "pyfloat \<Rightarrow> pyfloat \<times> pyfloat" where
  \<comment> \<open>fractional and integral part of a finite float\<close>
  "modf (FFin s m e) =
     (if 0 \<le> e then (float_zero s, FFin s m e)
      else (round_dyadic 64 s (m mod 2 ^ nat (- e)) e, copysign (float_of_int (m div 2 ^ nat (- e))) (FFin s m e)))"
| "modf x = (x, x)"

definition round_float_to_integer :: "string \<Rightarrow> pyfloat \<Rightarrow> pyfloat" where
  \<comment> \<open>the value \<^verbatim>\<open>result\<close> of \<^verbatim>\<open>_evaluate_rounding_function\<close>\<close>
  "round_float_to_integer name operand =
     (let result =
        (if name = ''ceil'' then float_of_int (float_ceil operand)
         else if name = ''floor'' then float_of_int (float_floor operand)
         else if name = ''trunc'' then float_of_int (float_trunc operand)
         else if float_is_integer operand then operand
         else
           let (fractional, integral) = modf (float_abs operand);
             magnitude = float_add integral
               (if number_le (PFloat (FFin False (2 ^ 52) (-53))) (PFloat fractional)
                then float_one False else float_zero False) in
           copysign magnitude operand) in
      if number_is_zero (PFloat result) then copysign (float_zero False) operand else result)"

definition evaluate_rounding_function ::
  "string \<Rightarrow> number \<Rightarrow> kind \<Rightarrow> string \<Rightarrow> expr_error + typed_value" where
  "evaluate_rounding_function name v source_kind label =
     (let result_kind = real_result_kind source_kind in
      rbind (convert_numeric_value v source_kind result_kind ''numeric expression'') (\<lambda>operand.
        function_numeric_result name (PFloat (round_float_to_integer name (float_of operand)))
          result_kind label))"

definition evaluate_pow_function ::
  "decimal_context \<Rightarrow> typed_value list \<Rightarrow> string \<Rightarrow> expr_error + typed_value" where
  "evaluate_pow_function ctx args label =
     (case args of
        [a, b] \<Rightarrow>
          rbind (function_numeric_argument ''pow'' a label) (\<lambda>(base, base_kind).
          rbind (function_numeric_argument ''pow'' b label) (\<lambda>(exponent, exponent_kind).
          rbind (convert_numeric_value base base_kind KDouble label) (\<lambda>base.
          rbind (convert_numeric_value exponent exponent_kind KDouble label) (\<lambda>exponent.
          rbind (math_result ''pow'' label (evaluate_pow ctx (float_of base) (float_of exponent))) (\<lambda>result.
            function_numeric_result ''pow'' (PFloat result) KDouble label)))))
      | _ \<Rightarrow> Inl (function_error label ''pow'' WrongArguments))"

fun number_abs :: "number \<Rightarrow> number" where
  "number_abs (PInt i) = PInt \<bar>i\<bar>"
| "number_abs (PFloat x) = PFloat (float_abs x)"

definition evaluate_abs :: "typed_value list \<Rightarrow> string \<Rightarrow> expr_error + typed_value" where
  "evaluate_abs args label =
     (case args of
        [a] \<Rightarrow>
          rbind (function_numeric_argument ''abs'' a label) (\<lambda>(v, k).
          if is_integer_kind k \<and> snd (INTEGER_KIND_INFO k) \<and> v = PInt (fst (integer_range k))
          then Inl (function_error label ''abs'' (FunctionResultOutOfRange k))
          else function_numeric_result ''abs'' (number_abs v) k label)
      | _ \<Rightarrow> Inl (function_error label ''abs'' WrongArguments))"

definition select_number :: "string \<Rightarrow> number list \<Rightarrow> number" where
  "select_number name converted =
     foldl (\<lambda>result candidate.
       if (name = ''min'' \<and> number_less candidate result) \<or> (name = ''max'' \<and> number_less result candidate)
       then candidate else result) (hd converted) (tl converted)"

definition evaluate_min_max :: "string \<Rightarrow> typed_value list \<Rightarrow> string \<Rightarrow> expr_error + typed_value" where
  "evaluate_min_max name args label =
     (if length args < 2 then Inl (function_error label name WrongArguments)
      else
        rbind (rmap (\<lambda>arg. function_numeric_argument name arg label) args) (\<lambda>vs.
        let result_kind = common_numeric_kind (map snd vs) in
        rbind (rmap (\<lambda>(v, k). convert_numeric_value v k result_kind ''numeric expression'') vs) (\<lambda>converted.
          function_numeric_result name (select_number name converted) result_kind label)))"

section \<open>Casts\<close>

definition SCALAR_CAST_KINDS :: "(string, kind) dict" where
  "SCALAR_CAST_KINDS =
     [(''bool'', KBool), (''i32'', KInt32), (''u32'', KUInt32), (''i64'', KInt64), (''u64'', KUInt64),
      (''f32'', KFloat), (''f64'', KDouble), (''str'', KString)]"

definition cast_string_value :: "typed_value \<Rightarrow> string \<Rightarrow> expr_error + string" where
  "cast_string_value v label =
     (case v of
        StringV s \<Rightarrow> Inr s
      | BoolV b \<Rightarrow> Inr (if b then ''true'' else ''false'')
      | NumV n _ \<Rightarrow>
          rbind (typed_numeric_kind v label) (\<lambda>k.
          rbind (convert_numeric_value n k k label) (\<lambda>numeric.
            Inr (if is_integer_kind k then int_text (int_of numeric)
                 else float_text (if k = KFloat then 9 else 17) (float_of numeric)))))"

definition evaluate_scalar_cast :: "string \<Rightarrow> kind \<Rightarrow> typed_value list \<Rightarrow> string \<Rightarrow> expr_error + typed_value" where
  \<comment> \<open>\<open>target_kind\<close> is the entry of \<open>SCALAR_CAST_KINDS\<close> for \<open>name\<close>\<close>
  "evaluate_scalar_cast name target_kind args label =
     (case args of
        [v] \<Rightarrow>
          if target_kind = KString then rbind (cast_string_value v label) (\<lambda>s. Inr (StringV s))
          else (case v of
             StringV _ \<Rightarrow> Inl (function_error label name NotNumericArgument)
           | _ \<Rightarrow>
             if target_kind = KBool then
               (case v of
                  BoolV b \<Rightarrow> Inr (BoolV b)
                | NumV n _ \<Rightarrow>
                    rbind (typed_numeric_kind v label) (\<lambda>source_kind.
                    rbind (convert_numeric_value n source_kind source_kind label) (\<lambda>normalized.
                      Inr (BoolV (\<not> number_is_zero normalized))))
                | StringV _ \<Rightarrow> Inl (function_error label name NotNumericArgument))
             else
               rbind (case v of
                   BoolV b \<Rightarrow> Inr (KInt32, PInt (if b then 1 else 0))
                 | NumV n _ \<Rightarrow> rbind (typed_numeric_kind v label) (\<lambda>k. Inr (k, n))
                 | StringV _ \<Rightarrow> Inl (function_error label name NotNumericArgument)) (\<lambda>(source_kind, numeric).
               rbind (convert_numeric_value numeric source_kind source_kind label) (\<lambda>normalized.
               if is_float_kind target_kind then
                 rbind (if target_kind = KFloat then round_f32 (function_error label name ResultNotFinite) normalized
                        else Inr (float_of normalized)) (\<lambda>result.
                   function_numeric_result name (PFloat result) target_kind label)
               else if is_float_kind source_kind then
                 let result = float_trunc (float_of normalized); (lower, upper) = integer_range target_kind in
                 if result < lower \<or> result > upper
                 then Inl (function_error label name (FunctionResultOutOfRange target_kind))
                 else function_numeric_result name (PInt result) target_kind label
               else function_numeric_result name (PInt (integer_from_bits (int_of normalized) target_kind))
                      target_kind label)))
      | _ \<Rightarrow> Inl (function_error label name WrongArguments))"

section \<open>The dispatch\<close>

definition REAL_FUNCTIONS :: "string list" where
  "REAL_FUNCTIONS = [''sqrt'', ''exp'', ''log'', ''log2'', ''log10'']"

definition ROUNDING_FUNCTIONS :: "string list" where
  "ROUNDING_FUNCTIONS = [''ceil'', ''floor'', ''trunc'', ''round'']"

definition evaluate_function_type :: "string \<Rightarrow> typed_value list \<Rightarrow> string \<Rightarrow> expr_error + typed_value" where
  "evaluate_function_type name args label =
     (case map_of SCALAR_CAST_KINDS name of
        Some target_kind \<Rightarrow> rbind (evaluate_scalar_cast name target_kind args label) type_only_value
      | None \<Rightarrow>
     if name = ''len'' then
       (case args of [StringV _] \<Rightarrow> numeric_value (PInt 0) (Some KUInt32)
        | _ \<Rightarrow> Inl (function_error label name WrongArguments))
     else if name = ''substr'' then
       (case args of
          [StringV _, a, b] \<Rightarrow>
            rbind (coerce_expression_value KUInt32 a label) (\<lambda>_.
            rbind (coerce_expression_value KUInt32 b label) (\<lambda>_. Inr (StringV [])))
        | _ \<Rightarrow> Inl (function_error label name WrongArguments))
     else if name = ''starts_with'' then
       (case args of [StringV _, StringV _] \<Rightarrow> Inr (BoolV False)
        | _ \<Rightarrow> Inl (function_error label name WrongArguments))
     else if name = ''pow'' then
       (if length args \<noteq> 2 then Inl (function_error label name WrongArguments)
        else rbind (rmap (\<lambda>arg. function_numeric_argument name arg label) args) (\<lambda>_.
          numeric_value (PFloat (float_zero False)) (Some KDouble)))
     else if name = ''abs'' then
       (case args of
          [a] \<Rightarrow> rbind (function_numeric_argument name a label) (\<lambda>(_, result_kind).
            numeric_value (zero_of result_kind) (Some result_kind))
        | _ \<Rightarrow> Inl (function_error label name WrongArguments))
     else if name = ''min'' \<or> name = ''max'' then
       (if length args < 2 then Inl (function_error label name WrongArguments)
        else rbind (rmap (\<lambda>arg. function_numeric_argument name arg label) args) (\<lambda>vs.
          let result_kind = common_numeric_kind (map snd vs) in
          numeric_value (zero_of result_kind) (Some result_kind)))
     else if List.member (REAL_FUNCTIONS @ ROUNDING_FUNCTIONS) name then
       (case args of
          [a] \<Rightarrow> rbind (function_numeric_argument name a label) (\<lambda>(_, source_kind).
            numeric_value (PFloat (float_zero False)) (Some (real_result_kind source_kind)))
        | _ \<Rightarrow> Inl (function_error label name WrongArguments))
     else Inl (function_error label name UnsupportedFunction))"

definition evaluate_function ::
  "decimal_context \<Rightarrow> string \<Rightarrow> typed_value list \<Rightarrow> string \<Rightarrow> bool \<Rightarrow> expr_error + typed_value" where
  "evaluate_function ctx name args label evaluate =
     (if \<not> evaluate then evaluate_function_type name args label
      else case map_of SCALAR_CAST_KINDS name of
        Some target_kind \<Rightarrow> evaluate_scalar_cast name target_kind args label
      | None \<Rightarrow>
     if name = ''len'' then
       (case args of [StringV s] \<Rightarrow> numeric_value (PInt (int (length (utf8_chars s)))) (Some KUInt32)
        | _ \<Rightarrow> Inl (function_error label name WrongArguments))
     else if name = ''substr'' then
       (case args of
          [StringV s, a, b] \<Rightarrow>
            rbind (coerce_expression_value KUInt32 a label) (\<lambda>start.
            rbind (coerce_expression_value KUInt32 b label) (\<lambda>count_of.
              (case (start, count_of) of
                 (PyNum i, PyNum n) \<Rightarrow>
                   Inr (StringV (concat (take (nat (int_of n)) (drop (nat (int_of i)) (utf8_chars s)))))
               | _ \<Rightarrow> Inl Uncaught)))
        | _ \<Rightarrow> Inl (function_error label name WrongArguments))
     else if name = ''starts_with'' then
       (case args of [StringV s, StringV p] \<Rightarrow> Inr (BoolV (startswith s p))
        | _ \<Rightarrow> Inl (function_error label name WrongArguments))
     else if name = ''pow'' then evaluate_pow_function ctx args label
     else if name = ''abs'' then evaluate_abs args label
     else if name = ''min'' \<or> name = ''max'' then evaluate_min_max name args label
     else if List.member REAL_FUNCTIONS name then
       (case args of
          [a] \<Rightarrow> rbind (function_numeric_argument name a label) (\<lambda>(v, k).
            evaluate_real_function ctx name v k label)
        | _ \<Rightarrow> Inl (function_error label name WrongArguments))
     else if List.member ROUNDING_FUNCTIONS name then
       (case args of
          [a] \<Rightarrow> rbind (function_numeric_argument name a label) (\<lambda>(v, k).
            evaluate_rounding_function name v k label)
        | _ \<Rightarrow> Inl (function_error label name WrongArguments))
     else Inl (function_error label name UnsupportedFunction))"

end
