(* ===== verification/ExprTokens.thy ===== *)
theory ExprTokens
  imports ExprFunctions
begin

text \<open>
  The tokens of constant expressions and their literals, from \<^verbatim>\<open>_tokenize\<close>,
  \<^verbatim>\<open>_parse_number_token\<close> and \<^verbatim>\<open>_parse_string_token\<close> of \<^verbatim>\<open>src/protocyte/model.py\<close>. A text is
  the list of its encoded characters. What Python's Unicode tables say of characters outside ASCII
  (classes, numeric value of a token that has such digits, names for \<^verbatim>\<open>\N{...}\<close>) is a parameter.
\<close>

record unicode_data =
  uspace :: "string \<Rightarrow> bool"
  udigit :: "string \<Rightarrow> bool"
  ualpha :: "string \<Rightarrow> bool"
  ualnum :: "string \<Rightarrow> bool"
  unumber :: "string \<Rightarrow> number option"
  uname :: "string \<Rightarrow> string option"

section \<open>Character classes\<close>

definition ascii_char :: "(char \<Rightarrow> bool) \<Rightarrow> (string \<Rightarrow> bool) \<Rightarrow> string \<Rightarrow> bool" where
  "ascii_char p q c = (case c of [b] \<Rightarrow> (if byte_of b < 128 then p b else q c) | _ \<Rightarrow> q c)"

definition isspace :: "unicode_data \<Rightarrow> string \<Rightarrow> bool" where
  "isspace u = ascii_char (\<lambda>b. in_bytes 9 b 13 \<or> in_bytes 28 b 32) (uspace u)"

definition isdigit :: "unicode_data \<Rightarrow> string \<Rightarrow> bool" where
  "isdigit u = ascii_char is_digit_ascii (udigit u)"

definition isalpha :: "unicode_data \<Rightarrow> string \<Rightarrow> bool" where
  "isalpha u = ascii_char is_alpha_ascii (ualpha u)"

definition isalnum :: "unicode_data \<Rightarrow> string \<Rightarrow> bool" where
  "isalnum u = ascii_char (\<lambda>b. is_alpha_ascii b \<or> is_digit_ascii b) (ualnum u)"

definition is_hex_letter :: "string \<Rightarrow> bool" where
  \<comment> \<open>\<^verbatim>\<open>c.lower()\<close> is one of a to f\<close>
  "is_hex_letter c = (case c of [b] \<Rightarrow> List.member ''abcdefABCDEF'' b | _ \<Rightarrow> False)"

section \<open>Tokens\<close>

datatype token_type = OP | STRING | NUMBER | IDENT | EOF

type_synonym token = "token_type \<times> string"

definition multi_ops :: "string list" where
  "multi_ops = [''&&'', ''||'', ''=='', ''!='', ''<='', ''>='', ''<<'', ''>>'']"

definition single_ops :: string where
  "single_ops = ''+-*/%()!,<>&|^~''"

definition BACKSLASH :: string where "BACKSLASH = [char_of (92 :: nat)]"
definition DQUOTE :: string where "DQUOTE = [char_of (34 :: nat)]"
definition SQUOTE :: string where "SQUOTE = [char_of (39 :: nat)]"

fun scan_string :: "string \<Rightarrow> bool \<Rightarrow> string list \<Rightarrow> (string list \<times> string list) option" where
  \<comment> \<open>the characters up to and including the closing quote\<close>
  "scan_string quote escaped [] = None"
| "scan_string quote escaped (c # cs) =
     (if \<not> escaped \<and> c = quote then Some ([c], cs)
      else map_option (\<lambda>(body, rest). (c # body, rest))
             (scan_string quote (\<not> escaped \<and> c = BACKSLASH) cs))"

definition scan_exponent :: "unicode_data \<Rightarrow> string list \<Rightarrow> string list \<times> string list" where
  \<comment> \<open>the optional exponent of a decimal literal\<close>
  "scan_exponent u cs =
     (case cs of
        c # cs' \<Rightarrow>
          if c = ''e'' \<or> c = ''E'' then
            (let (sign, ds) = (case cs' of s # ds \<Rightarrow> if s = ''+'' \<or> s = ''-'' then ([s], ds) else ([], cs')
                               | [] \<Rightarrow> ([], [])) in
             (c # sign @ takeWhile (isdigit u) ds, dropWhile (isdigit u) ds))
          else ([], cs)
      | [] \<Rightarrow> ([], []))"

definition scan_point :: "unicode_data \<Rightarrow> string list \<Rightarrow> string list \<times> string list" where
  \<comment> \<open>the optional point and the digits after it\<close>
  "scan_point u cs =
     (case cs of
        c # cs' \<Rightarrow> if c = ''.'' then (c # takeWhile (isdigit u) cs', dropWhile (isdigit u) cs') else ([], cs)
      | [] \<Rightarrow> ([], []))"

definition scan_decimal :: "unicode_data \<Rightarrow> string list \<Rightarrow> string list \<times> string list" where
  "scan_decimal u cs =
     (let digits = takeWhile (isdigit u) cs;
        (point, rest) = scan_point u (dropWhile (isdigit u) cs);
        (exponent, rest) = scan_exponent u rest in
      (digits @ point @ exponent, rest))"

definition is_hex_start :: "string list \<Rightarrow> bool" where
  "is_hex_start cs = (case cs of a # b # _ \<Rightarrow> a = ''0'' \<and> (b = ''x'' \<or> b = ''X'') | _ \<Rightarrow> False)"

definition scan_number :: "unicode_data \<Rightarrow> string \<Rightarrow> string list \<Rightarrow> expr_error + string list \<times> string list" where
  "scan_number u label cs =
     (if is_hex_start cs then
        let ok = (\<lambda>c. isdigit u c \<or> is_hex_letter c); digits = takeWhile ok (drop 2 cs) in
        if digits = [] then Inl (Labelled label (ParseIssue (InvalidNumber (concat (take 2 cs)))))
        else Inr (take 2 cs @ digits, dropWhile ok (drop 2 cs))
      else Inr (scan_decimal u cs))"

definition next_token ::
  "unicode_data \<Rightarrow> string \<Rightarrow> string list \<Rightarrow> expr_error + token option \<times> string list" where
  \<comment> \<open>one round of the loop of \<^verbatim>\<open>_tokenize\<close> on a text that is not empty\<close>
  "next_token u label cs =
     (let c = hd cs in
      if isspace u c then Inr (None, tl cs)
      else if List.member multi_ops (concat (take 2 cs)) then Inr (Some (OP, concat (take 2 cs)), drop 2 cs)
      else if length c = 1 \<and> List.member single_ops (hd c) then Inr (Some (OP, c), tl cs)
      else if c = DQUOTE \<or> c = SQUOTE then
        (case scan_string c False (tl cs) of
           None \<Rightarrow> Inl (Labelled label (ParseIssue UnterminatedString))
         | Some (body, rest) \<Rightarrow> Inr (Some (STRING, concat (c # body)), rest))
      else if isdigit u c then
        rbind (scan_number u label cs) (\<lambda>(digits, rest). Inr (Some (NUMBER, concat digits), rest))
      else if isalpha u c \<or> c = ''_'' then
        (let ok = (\<lambda>c. isalnum u c \<or> c = ''_'' \<or> c = ''.'') in
         Inr (Some (IDENT, concat (c # takeWhile ok (tl cs))), dropWhile ok (tl cs)))
      else Inl (Labelled label (ParseIssue (UnexpectedCharacter c))))"

lemma scan_string_shorter: "scan_string q b cs = Some (body, rest) \<Longrightarrow> length rest < length cs"
  by (induction q b cs arbitrary: body rest rule: scan_string.induct) (auto split: if_splits)

lemma length_dropWhile_less: "xs \<noteq> [] \<Longrightarrow> p (hd xs) \<Longrightarrow> length (dropWhile p xs) < length xs"
  by (cases xs) (auto simp: le_imp_less_Suc length_dropWhile_le)

lemma scan_exponent_shorter: "scan_exponent u cs = (e, rest) \<Longrightarrow> length rest \<le> length cs"
  by (auto simp: scan_exponent_def length_dropWhile_le le_SucI le_Suc_eq split: list.splits if_splits)

lemma scan_point_shorter: "scan_point u cs = (p, rest) \<Longrightarrow> length rest \<le> length cs"
  by (auto simp: scan_point_def length_dropWhile_le le_SucI split: list.splits if_splits)

lemma scan_decimal_shorter:
  assumes "cs \<noteq> []" "isdigit u (hd cs)" "scan_decimal u cs = (t, rest)"
  shows "length rest < length cs"
proof -
  let ?r = "dropWhile (isdigit u) cs"
  have r: "length ?r < length cs" using assms(1,2) by (rule length_dropWhile_less)
  obtain p r' where p: "scan_point u ?r = (p, r')" by fastforce
  obtain e r'' where e: "scan_exponent u r' = (e, r'')" by fastforce
  have rest: "rest = r''" using assms(3) p e by (simp add: scan_decimal_def)
  show ?thesis unfolding rest using scan_point_shorter [OF p] scan_exponent_shorter [OF e] r by linarith
qed

lemma next_token_shorter:
  assumes "cs \<noteq> []" "next_token u label cs = Inr (t, rest)"
  shows "length rest < length cs"
proof -
  have "length rest < length cs" if "scan_number u label cs = Inr (d, rest)" "isdigit u (hd cs)" for d
  proof (cases "is_hex_start cs")
    case True
    with that have "rest = dropWhile (\<lambda>c. isdigit u c \<or> is_hex_letter c) (drop 2 cs)"
      by (simp add: scan_number_def Let_def split: if_splits)
    then have "length rest \<le> length (drop 2 cs)" by (simp only: length_dropWhile_le)
    with True assms(1) show ?thesis by (auto simp: is_hex_start_def split: list.splits)
  next
    case False
    with that have "scan_decimal u cs = (d, rest)" by (simp add: scan_number_def)
    with assms(1) that(2) show ?thesis by (rule scan_decimal_shorter)
  qed
  moreover have "length (dropWhile p (tl cs)) < length cs" for p
    using assms(1) length_dropWhile_le [of p "tl cs"] by (cases cs) auto
  moreover have "length r < length cs" if "scan_string q False (tl cs) = Some (b, r)" for q b r
    using scan_string_shorter [OF that] by simp
  ultimately show ?thesis using assms
    by (auto simp: next_token_def Let_def split: if_splits option.splits prod.splits)
qed

function tokenize_chars :: "unicode_data \<Rightarrow> string \<Rightarrow> string list \<Rightarrow> expr_error + token list" where
  "tokenize_chars u label cs =
     (if cs = [] then Inr [(EOF, ''EOF'')]
      else rbind (next_token u label cs) (\<lambda>(t, rest).
        rbind (tokenize_chars u label rest) (\<lambda>ts.
          Inr (case t of None \<Rightarrow> ts | Some t \<Rightarrow> t # ts))))"
  by pat_completeness auto
termination
  by (relation "measure (\<lambda>(_, _, cs). length cs)") (auto dest: next_token_shorter)

declare tokenize_chars.simps [simp del]

definition tokenize :: "unicode_data \<Rightarrow> string \<Rightarrow> string \<Rightarrow> expr_error + token list" where
  "tokenize u label s = tokenize_chars u label (utf8_chars s)"

section \<open>Number literals\<close>

definition digit_value :: "char \<Rightarrow> int" where
  "digit_value c = (if is_digit_ascii c then int (byte_of c) - 48
     else if is_lower_ascii c then int (byte_of c) - 87
     else if is_upper_ascii c then int (byte_of c) - 55 else 0)"

definition digits_value :: "int \<Rightarrow> string \<Rightarrow> int" where
  "digits_value base s = foldl (\<lambda>a c. base * a + digit_value c) 0 s"

definition starts_hex :: "string \<Rightarrow> bool" where
  \<comment> \<open>\<^verbatim>\<open>token.lower().startswith("0x")\<close>\<close>
  "starts_hex token = (startswith token ''0x'' \<or> startswith token ''0X'')"

definition number_token_is_floating :: "string \<Rightarrow> bool" where
  "number_token_is_floating token =
     (\<not> starts_hex token \<and> (List.member token CHR ''.'' \<or> List.member token CHR ''e'' \<or> List.member token CHR ''E''))"

definition decimal_float :: "string \<Rightarrow> string \<Rightarrow> int \<Rightarrow> pyfloat" where
  \<comment> \<open>the float nearest to \<open>whole.fraction * 10 ^ exponent\<close>\<close>
  "decimal_float whole frac_digits exponent =
     (let n = digits_value 10 (whole @ frac_digits); k = exponent - int (length frac_digits) in
      if 0 \<le> k then round_float 64 False (n * 10 ^ nat k) 1 else round_float 64 False n (10 ^ nat (- k)))"

definition float_of_text :: "string \<Rightarrow> pyfloat option" where
  \<comment> \<open>\<^verbatim>\<open>float(token)\<close> for a token of ASCII digits with point and exponent; \<open>None\<close> for \<^verbatim>\<open>ValueError\<close>\<close>
  "float_of_text token =
     (let not_exp = (\<lambda>c. c \<noteq> CHR ''e'' \<and> c \<noteq> CHR ''E'');
        mantissa = takeWhile not_exp token; exponent = dropWhile not_exp token;
        whole = takeWhile is_digit_ascii mantissa; frac_digits = tl (dropWhile is_digit_ascii mantissa) in
      if exponent = [] then Some (decimal_float whole frac_digits 0)
      else
        let signed_digits = tl exponent; neg = startswith signed_digits ''-'';
            digits = (if neg \<or> startswith signed_digits ''+'' then tl signed_digits else signed_digits) in
        if digits = [] then None
        else Some (decimal_float whole frac_digits
               (if neg then - digits_value 10 digits else digits_value 10 digits)))"

definition int_of_text :: "string \<Rightarrow> int option" where
  \<comment> \<open>\<^verbatim>\<open>int(token, 0)\<close>: leading zeros are only allowed in zero itself\<close>
  "int_of_text token =
     (if starts_hex token then Some (digits_value 16 (drop 2 token))
      else if hd token = CHR ''0'' \<and> digits_value 10 token \<noteq> 0 then None
      else Some (digits_value 10 token))"

definition parse_number_token :: "unicode_data \<Rightarrow> string \<Rightarrow> string \<Rightarrow> expr_error + number" where
  "parse_number_token u token label =
     (let invalid = Labelled label (ParseIssue (InvalidNumber token));
        parsed = (if list_ex (\<lambda>c. byte_of c \<ge> 128) token then unumber u token
          else if number_token_is_floating token then map_option PFloat (float_of_text token)
          else map_option PInt (int_of_text token)) in
      case parsed of
        None \<Rightarrow> Inl invalid
      | Some v \<Rightarrow> if finite_number v then Inr v else Inl (Labelled label (ParseIssue InfiniteNumber)))"

section \<open>String literals\<close>

definition utf8_encode :: "int \<Rightarrow> string" where
  \<comment> \<open>a code point, surrogates included (in three bytes, which \<open>validate_utf8_string\<close> refuses)\<close>
  "utf8_encode n =
     (let c = (\<lambda>k. char_of (nat k)) in
      if n < 128 then [c n]
      else if n < 2048 then [c (192 + n div 64), c (128 + n mod 64)]
      else if n < 65536 then [c (224 + n div 4096), c (128 + n div 64 mod 64), c (128 + n mod 64)]
      else [c (240 + n div 262144), c (128 + n div 4096 mod 64), c (128 + n div 64 mod 64), c (128 + n mod 64)])"

definition hex_text :: "nat \<Rightarrow> string list \<Rightarrow> int option" where
  \<comment> \<open>exactly \<open>k\<close> hexadecimal digits at the front\<close>
  "hex_text k cs =
     (let ds = take k cs in
      if length ds = k \<and> list_all (\<lambda>c. (length c = 1 \<and> is_digit_ascii (hd c)) \<or> is_hex_letter c) ds
      then Some (digits_value 16 (concat ds)) else None)"

definition is_octal :: "string \<Rightarrow> bool" where
  "is_octal c = (length c = 1 \<and> is_digit_ascii (hd c) \<and> digit_value (hd c) < 8)"

definition simple_escapes :: "(char \<times> string) list" where
  "simple_escapes =
     [(char_of (92 :: nat), BACKSLASH), (char_of (39 :: nat), SQUOTE), (char_of (34 :: nat), DQUOTE),
      (CHR ''a'', [char_of (7 :: nat)]), (CHR ''b'', [char_of (8 :: nat)]), (CHR ''f'', [char_of (12 :: nat)]),
      (CHR ''n'', [char_of (10 :: nat)]), (CHR ''r'', [char_of (13 :: nat)]), (CHR ''t'', [char_of (9 :: nat)]),
      (CHR ''v'', [char_of (11 :: nat)]), (char_of (10 :: nat), [])]"

definition escape_value :: "unicode_data \<Rightarrow> string list \<Rightarrow> (string \<times> nat) option" where
  \<comment> \<open>the value of an escape after its backslash and the number of characters it takes;
     an unknown or out-of-range escape is a \<^verbatim>\<open>SyntaxWarning\<close>, raised as an error\<close>
  "escape_value u cs =
     (case cs of
        [] \<Rightarrow> None
      | c # rest \<Rightarrow>
          if length c \<noteq> 1 then None
          else case map_of simple_escapes (hd c) of
            Some v \<Rightarrow> Some (v, 1)
          | None \<Rightarrow>
              if c = [char_of (13 :: nat)] then Some ([], if take 1 rest = [[char_of (10 :: nat)]] then 2 else 1)
              else if is_octal c then
                (let ds = takeWhile is_octal (take 3 cs); n = digits_value 8 (concat ds) in
                 if n > 255 then None else Some (utf8_encode n, length ds))
              else if c = ''x'' then map_option (\<lambda>n. (utf8_encode n, 3)) (hex_text 2 rest)
              else if c = ''u'' then map_option (\<lambda>n. (utf8_encode n, 5)) (hex_text 4 rest)
              else if c = ''U'' then
                (case hex_text 8 rest of
                   Some n \<Rightarrow> if n > 1114111 then None else Some (utf8_encode n, 9)
                 | None \<Rightarrow> None)
              else if c = ''N'' \<and> take 1 rest = [''{''] then
                (let name = takeWhile (\<lambda>c. c \<noteq> ''}'') (tl rest) in
                 if length name + 1 < length rest
                 then map_option (\<lambda>v. (v, length name + 3)) (uname u (concat name)) else None)
              else None)"

function literal_body :: "unicode_data \<Rightarrow> string list \<Rightarrow> string option" where
  \<comment> \<open>the value of the characters between the quotes\<close>
  "literal_body u [] = Some []"
| "literal_body u (c # cs) =
     (if c = BACKSLASH then
        (case escape_value u cs of
           None \<Rightarrow> None
         | Some (v, k) \<Rightarrow> map_option (\<lambda>s. v @ s) (literal_body u (drop k cs)))
      else if c = [char_of (10 :: nat)] \<or> c = [char_of (13 :: nat)] \<or> c = [char_of (0 :: nat)] then None
      else map_option (\<lambda>s. c @ s) (literal_body u cs))"
  by pat_completeness auto
termination
  by (relation "measure (\<lambda>(_, cs). length cs)") auto

definition parse_string_token :: "unicode_data \<Rightarrow> string \<Rightarrow> string \<Rightarrow> expr_error + string" where
  \<comment> \<open>\<^verbatim>\<open>ast.literal_eval\<close> of a token that starts and ends with its quote\<close>
  "parse_string_token u token label =
     (case literal_body u (butlast (tl (utf8_chars token))) of
        None \<Rightarrow> Inl (Labelled label (ParseIssue InvalidString))
      | Some v \<Rightarrow> rbind (validate_utf8_string v label) (\<lambda>_. Inr v))"

end
