(* ===== verification/ExprParser.thy ===== *)
theory ExprParser
  imports ExprTokens
begin

text \<open>
  The recursive-descent evaluator \<^verbatim>\<open>_ExprParser\<close> of \<^verbatim>\<open>src/protocyte/model.py\<close>. A parser takes the
  flag \<^verbatim>\<open>_evaluate_values\<close>, the remaining tokens and the state of the name resolver, which resolving
  a constant may change. The ten binary levels share one loop, \<open>binary_loop\<close>: a level is given by
  its \<open>select\<close>, which recognises an operator and says how its right operand is evaluated and
  combined. The loop takes fuel, as many rounds as there are tokens; \<open>ExprTotal\<close> shows that it is
  enough. The nesting depth of the code, at most 32, is the argument of \<open>unary_at\<close>.
\<close>

record 's parser_env =
  pdecimal :: decimal_context
  punicode :: unicode_data
  plabel :: string
  presolve :: "string \<Rightarrow> 's \<Rightarrow> expr_error + typed_value \<times> 's"

type_synonym 's parser = "bool \<Rightarrow> token list \<Rightarrow> 's \<Rightarrow> expr_error + typed_value \<times> token list \<times> 's"

type_synonym selector = "string \<Rightarrow> typed_value \<Rightarrow> bool
  \<Rightarrow> (expr_error + bool \<times> (typed_value \<Rightarrow> expr_error + typed_value)) option"

definition MAX_EXPRESSION_NESTING :: nat where "MAX_EXPRESSION_NESTING = 32"

definition peek :: "token list \<Rightarrow> token" where
  "peek ts = (case ts of [] \<Rightarrow> (EOF, ''EOF'') | t # _ \<Rightarrow> t)"

definition matches :: "string \<Rightarrow> token list \<Rightarrow> bool" where
  "matches text_of ts = (snd (peek ts) = text_of)"

definition expect_token :: "string \<Rightarrow> string \<Rightarrow> token list \<Rightarrow> expr_error + token list" where
  "expect_token label text_of ts =
     (if matches text_of ts then Inr (tl ts)
      else Inl (Labelled label (ParseIssue (ExpectedToken text_of (snd (peek ts))))))"

section \<open>The binary levels\<close>

fun binary_loop :: "'s parser \<Rightarrow> selector \<Rightarrow> nat \<Rightarrow> typed_value \<Rightarrow> 's parser" where
  "binary_loop next_level select 0 v evaluate ts s = Inl OutOfFuel"
| "binary_loop next_level select (Suc n) v evaluate ts s =
     (case select (snd (peek ts)) v evaluate of
        None \<Rightarrow> Inr (v, ts, s)
      | Some r \<Rightarrow>
          rbind r (\<lambda>(evaluate_rhs, combine).
          rbind (next_level evaluate_rhs (tl ts) s) (\<lambda>(rhs, ts, s).
          rbind (combine rhs) (\<lambda>v. binary_loop next_level select n v evaluate ts s))))"

definition parse_level :: "'s parser \<Rightarrow> selector \<Rightarrow> 's parser" where
  "parse_level next_level select evaluate ts s =
     rbind (next_level evaluate ts s) (\<lambda>(v, ts, s).
       binary_loop next_level select (Suc (length ts)) v evaluate ts s)"

definition or_select :: "string \<Rightarrow> selector" where
  "or_select label op v evaluate =
     (if op = ''||'' then Some
        (rbind (expect_bool v label) (\<lambda>lhs_bool.
           Inr (evaluate \<and> \<not> lhs_bool, \<lambda>rhs.
             rbind (expect_bool rhs label) (\<lambda>rhs_bool.
               Inr (BoolV (if \<not> evaluate then False else lhs_bool \<or> rhs_bool))))))
      else None)"

definition and_select :: "string \<Rightarrow> selector" where
  "and_select label op v evaluate =
     (if op = ''&&'' then Some
        (rbind (expect_bool v label) (\<lambda>lhs_bool.
           Inr (evaluate \<and> lhs_bool, \<lambda>rhs.
             rbind (expect_bool rhs label) (\<lambda>rhs_bool.
               Inr (BoolV (if \<not> evaluate then False else lhs_bool \<and> rhs_bool))))))
      else None)"

definition bitwise_or_select :: "string \<Rightarrow> selector" where
  "bitwise_or_select label op v evaluate =
     (if op = ''|'' then Some (Inr (evaluate, \<lambda>rhs. bitwise_binary v rhs label (\<lambda>a b. a OR b))) else None)"

definition bitwise_xor_select :: "string \<Rightarrow> selector" where
  "bitwise_xor_select label op v evaluate =
     (if op = ''^'' then Some (Inr (evaluate, \<lambda>rhs. bitwise_binary v rhs label (\<lambda>a b. a XOR b))) else None)"

definition bitwise_and_select :: "string \<Rightarrow> selector" where
  "bitwise_and_select label op v evaluate =
     (if op = ''&'' then Some (Inr (evaluate, \<lambda>rhs. bitwise_binary v rhs label (\<lambda>a b. a AND b))) else None)"

definition bool_result :: "(bool \<Rightarrow> bool) \<Rightarrow> expr_error + bool \<Rightarrow> expr_error + typed_value" where
  "bool_result f r = rbind r (\<lambda>b. Inr (BoolV (f b)))"

definition equality_select :: "string \<Rightarrow> selector" where
  "equality_select label op v evaluate =
     (if op = ''=='' then Some (Inr (evaluate, \<lambda>rhs. bool_result id (compare_equal v rhs label)))
      else if op = ''!='' then Some (Inr (evaluate, \<lambda>rhs. bool_result Not (compare_equal v rhs label)))
      else None)"

definition compare_select :: "string \<Rightarrow> selector" where
  "compare_select label op v evaluate =
     (if op = ''<'' then Some (Inr (evaluate, \<lambda>rhs. bool_result id (numeric_compare v rhs label number_less)))
      else if op = ''<='' then Some (Inr (evaluate, \<lambda>rhs. bool_result id (numeric_compare v rhs label number_le)))
      else if op = ''>'' then Some (Inr (evaluate, \<lambda>rhs.
        bool_result id (numeric_compare v rhs label (\<lambda>a b. number_less b a))))
      else if op = ''>='' then Some (Inr (evaluate, \<lambda>rhs.
        bool_result id (numeric_compare v rhs label (\<lambda>a b. number_le b a))))
      else None)"

definition shift_select :: "string \<Rightarrow> selector" where
  "shift_select label op v evaluate =
     (if op = ''<<'' then Some (Inr (evaluate, \<lambda>rhs. shift_value v rhs label True))
      else if op = ''>>'' then Some (Inr (evaluate, \<lambda>rhs. shift_value v rhs label False))
      else None)"

definition add_values :: "typed_value \<Rightarrow> typed_value \<Rightarrow> string \<Rightarrow> expr_error + typed_value" where
  "add_values lhs rhs label =
     (case (lhs, rhs) of
        (StringV a, StringV b) \<Rightarrow> Inr (StringV (a @ b))
      | (StringV _, _) \<Rightarrow> Inl (value_error label PlusOperands)
      | (_, StringV _) \<Rightarrow> Inl (value_error label PlusOperands)
      | _ \<Rightarrow> numeric_binary lhs rhs label (lift_number (+) float_add))"

definition add_select :: "string \<Rightarrow> selector" where
  "add_select label op v evaluate =
     (if op = ''+'' then Some (Inr (evaluate, \<lambda>rhs. add_values v rhs label))
      else if op = ''-'' then Some (Inr (evaluate, \<lambda>rhs. numeric_binary v rhs label (lift_number (-) float_sub)))
      else None)"

definition mul_select :: "string \<Rightarrow> selector" where
  "mul_select label op v evaluate =
     (if op = ''*'' then Some (Inr (evaluate, \<lambda>rhs. numeric_binary v rhs label (lift_number (*) float_mul)))
      else if op = ''/'' then Some (Inr (evaluate, \<lambda>rhs. divide_values evaluate v rhs label))
      else if op = ''%'' then Some (Inr (evaluate, \<lambda>rhs. modulo_values evaluate v rhs label))
      else None)"

definition parse_mul :: "'s parser_env \<Rightarrow> 's parser \<Rightarrow> 's parser" where
  "parse_mul env unary = parse_level unary (mul_select (plabel env))"

definition parse_add :: "'s parser_env \<Rightarrow> 's parser \<Rightarrow> 's parser" where
  "parse_add env unary = parse_level (parse_mul env unary) (add_select (plabel env))"

definition parse_shift :: "'s parser_env \<Rightarrow> 's parser \<Rightarrow> 's parser" where
  "parse_shift env unary = parse_level (parse_add env unary) (shift_select (plabel env))"

definition parse_compare :: "'s parser_env \<Rightarrow> 's parser \<Rightarrow> 's parser" where
  "parse_compare env unary = parse_level (parse_shift env unary) (compare_select (plabel env))"

definition parse_equality :: "'s parser_env \<Rightarrow> 's parser \<Rightarrow> 's parser" where
  "parse_equality env unary = parse_level (parse_compare env unary) (equality_select (plabel env))"

definition parse_bitwise_and :: "'s parser_env \<Rightarrow> 's parser \<Rightarrow> 's parser" where
  "parse_bitwise_and env unary = parse_level (parse_equality env unary) (bitwise_and_select (plabel env))"

definition parse_bitwise_xor :: "'s parser_env \<Rightarrow> 's parser \<Rightarrow> 's parser" where
  "parse_bitwise_xor env unary = parse_level (parse_bitwise_and env unary) (bitwise_xor_select (plabel env))"

definition parse_bitwise_or :: "'s parser_env \<Rightarrow> 's parser \<Rightarrow> 's parser" where
  "parse_bitwise_or env unary = parse_level (parse_bitwise_xor env unary) (bitwise_or_select (plabel env))"

definition parse_and :: "'s parser_env \<Rightarrow> 's parser \<Rightarrow> 's parser" where
  "parse_and env unary = parse_level (parse_bitwise_or env unary) (and_select (plabel env))"

definition parse_or :: "'s parser_env \<Rightarrow> 's parser \<Rightarrow> 's parser" where
  "parse_or env unary = parse_level (parse_and env unary) (or_select (plabel env))"

section \<open>Primary and unary expressions\<close>

fun number_neg :: "number \<Rightarrow> number" where
  "number_neg (PInt i) = PInt (- i)"
| "number_neg (PFloat x) = PFloat (float_neg x)"

definition unary_number :: "(number \<Rightarrow> number) \<Rightarrow> typed_value \<Rightarrow> string \<Rightarrow> expr_error + typed_value" where
  "unary_number f v label =
     rbind (expect_numeric v label) (\<lambda>operand.
     rbind (typed_numeric_kind v label) (\<lambda>numeric_kind.
     rbind (normalize_numeric_result (f operand) numeric_kind label) (\<lambda>result.
       numeric_value result (Some numeric_kind))))"

definition number_literal :: "unicode_data \<Rightarrow> string \<Rightarrow> string \<Rightarrow> expr_error + typed_value" where
  "number_literal u token label =
     rbind (parse_number_token u token label) (\<lambda>numeric.
       let numeric_kind = (case numeric of PInt i \<Rightarrow> literal_integer_kind i (starts_hex token)
             | PFloat _ \<Rightarrow> Some KDouble) in
       if numeric_kind = None then Inl (Labelled label (ParseIssue (LiteralOutsideRange token)))
       else numeric_value numeric numeric_kind)"

definition if_evaluated :: "bool \<Rightarrow> typed_value \<Rightarrow> expr_error + typed_value" where
  "if_evaluated evaluate v = (if evaluate then Inr v else type_only_value v)"

fun parse_args :: "string \<Rightarrow> 's parser \<Rightarrow> nat \<Rightarrow> bool \<Rightarrow> token list \<Rightarrow> 's
    \<Rightarrow> expr_error + typed_value list \<times> token list \<times> 's" where
  "parse_args label nested_or 0 evaluate ts s = Inl OutOfFuel"
| "parse_args label nested_or (Suc n) evaluate ts s =
     rbind (nested_or evaluate ts s) (\<lambda>(arg, ts, s).
       if matches '')'' ts then Inr ([arg], tl ts, s)
       else rbind (expect_token label '','' ts) (\<lambda>ts.
         rbind (parse_args label nested_or n evaluate ts s) (\<lambda>(args, ts, s). Inr (arg # args, ts, s))))"

definition parse_primary :: "'s parser_env \<Rightarrow> 's parser \<Rightarrow> 's parser" where
  "parse_primary env nested_or evaluate ts s =
     (let (token_type, token_value) = peek ts; label = plabel env in
      case token_type of
        NUMBER \<Rightarrow>
          rbind (number_literal (punicode env) token_value label) (\<lambda>v.
          rbind (if_evaluated evaluate v) (\<lambda>v. Inr (v, tl ts, s)))
      | STRING \<Rightarrow>
          rbind (parse_string_token (punicode env) token_value label) (\<lambda>v.
          rbind (if_evaluated evaluate (StringV v)) (\<lambda>v. Inr (v, tl ts, s)))
      | IDENT \<Rightarrow>
          if token_value = ''true'' then
            rbind (if_evaluated evaluate (BoolV True)) (\<lambda>v. Inr (v, tl ts, s))
          else if token_value = ''false'' then Inr (BoolV False, tl ts, s)
          else if matches ''('' (tl ts) then
            rbind (if matches '')'' (tl (tl ts)) then Inr ([], tl (tl (tl ts)), s)
                   else parse_args label nested_or (Suc (length ts)) evaluate (tl (tl ts)) s) (\<lambda>(args, ts, s).
            rbind (evaluate_function (pdecimal env) token_value args label evaluate) (\<lambda>v. Inr (v, ts, s)))
          else
            rbind (presolve env token_value s) (\<lambda>(v, s).
            rbind (if_evaluated evaluate v) (\<lambda>v. Inr (v, tl ts, s)))
      | _ \<Rightarrow>
          if matches ''('' ts then
            rbind (nested_or evaluate (tl ts) s) (\<lambda>(v, ts, s).
            rbind (expect_token label '')'' ts) (\<lambda>ts. Inr (v, ts, s)))
          else Inl (Labelled label (ParseIssue (UnexpectedToken token_value))))"

definition map_value ::
  "(typed_value \<Rightarrow> expr_error + typed_value) \<Rightarrow> expr_error + typed_value \<times> token list \<times> 's
   \<Rightarrow> expr_error + typed_value \<times> token list \<times> 's" where
  "map_value f r = rbind r (\<lambda>(v, ts, s). rbind (f v) (\<lambda>v. Inr (v, ts, s)))"

definition parse_unary :: "'s parser_env \<Rightarrow> 's parser \<Rightarrow> 's parser \<Rightarrow> 's parser" where
  "parse_unary env nested_unary nested_or evaluate ts s =
     (let label = plabel env in
      if matches ''!'' ts then
        map_value (\<lambda>v. bool_result Not (expect_bool v label)) (nested_unary evaluate (tl ts) s)
      else if matches ''~'' ts then
        map_value (\<lambda>v. bitwise_complement v label) (nested_unary evaluate (tl ts) s)
      else if matches ''+'' ts then
        map_value (\<lambda>v. unary_number id v label) (nested_unary evaluate (tl ts) s)
      else if matches ''-'' ts then
        map_value (\<lambda>v. unary_number number_neg v label) (nested_unary evaluate (tl ts) s)
      else parse_primary env nested_or evaluate ts s)"

definition too_deep :: "'s parser_env \<Rightarrow> 's parser" where
  \<comment> \<open>\<^verbatim>\<open>_parse_nested\<close> at the maximum depth\<close>
  "too_deep env evaluate ts s = Inl (Labelled (plabel env) (ParseIssue TooDeep))"

fun unary_at :: "'s parser_env \<Rightarrow> nat \<Rightarrow> 's parser" where
  \<comment> \<open>\<^verbatim>\<open>_parse_unary\<close> with the number of levels \<^verbatim>\<open>_parse_nested\<close> may still open\<close>
  "unary_at env 0 evaluate ts s = parse_unary env (too_deep env) (too_deep env) evaluate ts s"
| "unary_at env (Suc n) evaluate ts s =
     parse_unary env (unary_at env n) (parse_or env (unary_at env n)) evaluate ts s"

definition parse_tokens :: "'s parser_env \<Rightarrow> token list \<Rightarrow> 's \<Rightarrow> expr_error + typed_value \<times> 's" where
  "parse_tokens env ts s =
     rbind (parse_or env (unary_at env MAX_EXPRESSION_NESTING) True ts s) (\<lambda>(v, ts, s).
       if fst (peek ts) \<noteq> EOF then Inl (Labelled (plabel env) (ParseIssue (UnexpectedToken (snd (peek ts)))))
       else Inr (v, s))"

definition evaluate_expression :: "'s parser_env \<Rightarrow> string \<Rightarrow> 's \<Rightarrow> expr_error + typed_value \<times> 's" where
  \<comment> \<open>\<^verbatim>\<open>_ExprParser(text, resolve_name, label).parse()\<close>\<close>
  "evaluate_expression env text_of s =
     rbind (tokenize (punicode env) (plabel env) text_of) (\<lambda>ts. parse_tokens env ts s)"

end
