(* ===== verification/ExprTyping.thy ===== *)
theory ExprTyping
  imports ExprParser
begin

text \<open>
  Type safety of constant expressions. \<open>has_kind\<close> is what a number of a kind is: an integer in the
  range of the kind, a finite float, a finite float that binary32 holds exactly. An expression may
  carry an unsigned number that is not yet reduced (\<open>read_kind\<close>: the length of a text is never
  checked against 32 bits); every reader reduces it first. \<open>ensures P r\<close> says
  that a result is a value with \<open>P\<close> or one of the program's own errors. Each operation is shown to
  take well-typed values to well-typed values.
\<close>

section \<open>Results\<close>

definition ensures :: "('a \<Rightarrow> bool) \<Rightarrow> expr_error + 'a \<Rightarrow> bool" where
  "ensures P r = (case r of Inl e \<Rightarrow> e \<noteq> OutOfFuel \<and> e \<noteq> Uncaught | Inr x \<Rightarrow> P x)"

lemma ensures_simps [simp]:
  "ensures P (Inr x) \<longleftrightarrow> P x" "ensures P (Inl e) \<longleftrightarrow> e \<noteq> OutOfFuel \<and> e \<noteq> Uncaught"
  by (simp_all add: ensures_def)

lemma ensures_rbind:
  "ensures Q m \<Longrightarrow> (\<And>x. m = Inr x \<Longrightarrow> Q x \<Longrightarrow> ensures P (f x)) \<Longrightarrow> ensures P (rbind m f)"
  by (cases m) auto

lemma ensures_mono: "ensures Q r \<Longrightarrow> (\<And>x. Q x \<Longrightarrow> P x) \<Longrightarrow> ensures P r"
  by (cases r) auto

lemma ensures_InrD: "ensures P r \<Longrightarrow> r = Inr x \<Longrightarrow> P x"
  by simp

lemma ensures_rmap:
  "(\<And>x. x \<in> set xs \<Longrightarrow> ensures P (f x)) \<Longrightarrow> ensures (\<lambda>ys. length ys = length xs \<and> (\<forall>y\<in>set ys. P y)) (rmap f xs)"
proof (induction xs)
  case (Cons x xs)
  then have "ensures P (f x)" and IH: "ensures (\<lambda>ys. length ys = length xs \<and> (\<forall>y\<in>set ys. P y)) (rmap f xs)"
    by auto
  then show ?case by (auto intro!: ensures_rbind [OF _] elim: ensures_mono)
qed simp

section \<open>Floats stay in normal form\<close>

lemma round_float_wf: "0 \<le> num \<Longrightarrow> 0 < den \<Longrightarrow> wf_float (round_float width neg num den)"
proof (cases "num = 0")
  case False
  assume "0 \<le> num" "0 < den"
  with False round_float_value(2) [of num den width neg] show ?thesis
    by (cases "overflows width (round_scaled num den (- quantum width num den)) (quantum width num den)")
      (simp_all add: round_float_def Let_def)
qed (simp add: round_float_def)

lemma round_dyadic_wf: "0 \<le> m \<Longrightarrow> wf_float (round_dyadic width neg m e)"
  using dyadic_ratio [of m e] by (auto simp: round_dyadic_def intro: round_float_wf split: prod.splits)

lemma float_of_int_wf: "wf_float (float_of_int i)"
  by (simp add: float_of_int_def round_float_wf)

lemma float_zero_wf [simp]: "wf_float (float_zero b)" "is_finite (float_zero b)"
  by (simp_all add: float_zero_def)

lemma float_one_wf [simp]: "wf_float (float_one b)" "is_finite (float_one b)"
  by (simp_all add: float_one_def)

lemma float_neg_wf [simp]: "wf_float (float_neg x) = wf_float x" "is_finite (float_neg x) = is_finite x"
  by (cases x; simp)+

lemma float_abs_wf [simp]: "wf_float (float_abs x) = wf_float x" "is_finite (float_abs x) = is_finite x"
  by (cases x; simp)+

lemma copysign_wf [simp]: "wf_float (copysign x y) = wf_float x" "is_finite (copysign x y) = is_finite x"
  by (cases x; simp)+

lemma float_add_wf: "wf_float (float_add x y)"
  by (cases "(x, y)" rule: float_add.cases) (simp_all add: Let_def round_dyadic_wf)

lemma float_sub_wf: "wf_float (float_sub x y)"
  by (simp add: float_sub_def float_add_wf)

lemma float_mul_wf: "wf_float x \<Longrightarrow> wf_float y \<Longrightarrow> wf_float (float_mul x y)"
  by (cases "(x, y)" rule: float_mul.cases) (simp_all add: round_dyadic_wf)

lemma dyadic_zero_iff: "fst (dyadic m e) = 0 \<longleftrightarrow> m = 0"
  by (simp add: dyadic_def lowest_def Let_def dvd_div_eq_0_iff)

lemma float_is_zero: "number_is_zero (PFloat (FFin s m e)) \<longleftrightarrow> m = 0"
  using dyadic_zero_iff [of m e]
  by (cases "dyadic m e") (simp add: number_is_zero_def number_eq_def signed_def)

lemma int_is_zero [simp]: "number_is_zero (PInt i) \<longleftrightarrow> i = 0"
  by (simp add: number_is_zero_def number_eq_def)

lemma float_div_wf:
  assumes "wf_float x" "wf_float y" "\<not> number_is_zero (PFloat y)"
  shows "wf_float (float_div x y)"
proof (cases "(x, y)" rule: float_div.cases)
  case (1 s m e t n f)
  have "n \<noteq> 0"
    using assms(3) 1 by (simp add: float_is_zero)
  with assms 1 show ?thesis by (simp add: round_float_wf)
qed simp_all

lemma round_float_idem:
  assumes pos: "0 < num" "0 < den" and fin: "is_finite (round_float 32 neg num den)"
  shows "pack_f32 (round_float 32 neg num den) = Some (round_float 32 neg num den)"
proof -
  let ?e = "quantum 32 num den"
  let ?m = "round_scaled num den (- ?e)" and ?r = "round_float 32 neg num den"
  have no: "\<not> overflows 32 ?m ?e" using fin round_float_finite_iff [OF pos] by simp
  note v = round_float_value [OF pos no, of neg]
  have r: "?r = normalize neg ?m ?e" using pos no by (simp add: round_float_def Let_def)
  have mb: "0 \<le> ?m" "?m \<le> 2 ^ 24" using round_scaled_upper [OF pos, of 32] by (simp_all add: format_precision_def)
  have e: "-149 \<le> ?e" using quantum_least(1) [of 32 num den] by (simp add: format_defs)
  have top: "int (bit_length ?m) + ?e \<le> 128" using no by (simp add: overflows_def format_defs)
  obtain s n f where sf: "?r = FFin s n f" using v(4) by (cases ?r) auto
  have s: "s = neg" using v(3) sf by simp
  have val: "real_of_int n * 2 powi f = real_of_int ?m * 2 powi ?e" using v(1) sf by simp
  have n0: "0 \<le> n" using v(2) sf by simp
  show ?thesis
  proof (cases "?m = 0")
    case True
    with r show ?thesis by (simp add: round_dyadic_def dyadic_def lowest_def round_float_def Let_def)
  next
    case False
    have "0 < real_of_int ?m * 2 powi ?e" using False mb by simp
    then have "n \<noteq> 0" using val by auto
    with n0 have npos: "0 < n" by simp
    have "round_dyadic 32 neg n f = ?r"
    proof (cases "?m < 2 ^ 24")
      case True
      have "round_dyadic 32 neg n f = normalize neg ?m ?e"
        using False mb(1) True e top npos val by (intro round_dyadic_exact) (simp_all add: format_defs)
      with r show ?thesis by simp
    next
      case full: False
      with mb have m: "?m = 2 * 2 ^ 23" by simp
      have bl: "bit_length ?m = Suc (bit_length (2 ^ 23))" unfolding m by (rule bit_length_double) simp
      have "real_of_int ?m * 2 powi ?e = (2 ^ 23) * 2 powi (?e + 1)" unfolding m by (simp add: powi_add2)
      then have "(2 ^ 23 :: int) * 2 powi (?e + 1) = real_of_int n * 2 powi f" using val by simp
      then have "round_dyadic 32 neg n f = normalize neg (2 ^ 23) (?e + 1)"
        using e top bl npos by (intro round_dyadic_exact) (simp_all add: format_defs)
      also have "\<dots> = normalize neg ?m ?e" unfolding m by (rule normalize_double [symmetric]) simp
      finally show ?thesis by (simp only: r)
    qed
    with fin sf s show ?thesis by (simp add: Let_def)
  qed
qed

section \<open>Typed values\<close>

fun has_kind :: "number \<Rightarrow> kind \<Rightarrow> bool" where
  "has_kind (PInt i) k = (is_integer_kind k \<and> fst (integer_range k) \<le> i \<and> i \<le> snd (integer_range k))"
| "has_kind (PFloat x) k =
     ((k = KDouble \<or> k = KFloat) \<and> is_finite x \<and> wf_float x \<and> (k = KFloat \<longrightarrow> pack_f32 x = Some x))"

fun read_kind :: "number \<Rightarrow> kind \<Rightarrow> bool" where
  \<comment> \<open>what an expression carries: readers reduce unsigned numbers\<close>
  "read_kind (PInt i) k = (is_integer_kind k
     \<and> (snd (INTEGER_KIND_INFO k) \<longrightarrow> fst (integer_range k) \<le> i \<and> i \<le> snd (integer_range k)))"
| "read_kind (PFloat x) k = has_kind (PFloat x) k"

fun well_typed :: "typed_value \<Rightarrow> bool" where
  "well_typed (BoolV _) = True"
| "well_typed (StringV _) = True"
| "well_typed (NumV n k) = (case k of None \<Rightarrow> False | Some k \<Rightarrow> read_kind n k)"

fun kind_of :: "typed_value \<Rightarrow> kind option" where
  "kind_of (BoolV _) = Some KInt32"
| "kind_of (NumV _ k) = k"
| "kind_of (StringV _) = None"

fun number_of :: "typed_value \<Rightarrow> number" where
  "number_of (BoolV b) = PInt (if b then 1 else 0)"
| "number_of (NumV n _) = n"
| "number_of (StringV _) = PInt 0"

lemma integer_kind_cases:
  "is_integer_kind k \<Longrightarrow> k = KInt32 \<or> k = KUInt32 \<or> k = KInt64 \<or> k = KUInt64"
  by (auto simp: is_integer_kind_def INTEGER_EXPRESSION_KINDS_def)

lemma kind_simps [simp]:
  "is_integer_kind KInt32" "is_integer_kind KUInt32" "is_integer_kind KInt64" "is_integer_kind KUInt64"
  "\<not> is_integer_kind KFloat" "\<not> is_integer_kind KDouble" "\<not> is_integer_kind KBool" "\<not> is_integer_kind KString"
  by (simp_all add: is_integer_kind_def INTEGER_EXPRESSION_KINDS_def)

lemma float_kind_simps [simp]:
  "is_float_kind KFloat" "is_float_kind KDouble" "\<not> is_float_kind KInt32" "\<not> is_float_kind KUInt32"
  "\<not> is_float_kind KInt64" "\<not> is_float_kind KUInt64"
  by (simp_all add: is_float_kind_def)

lemma range_simps [simp]:
  "integer_range KInt32 = (- 2147483648, 2147483647)" "integer_range KUInt32 = (0, 4294967295)"
  "integer_range KInt64 = (- 9223372036854775808, 9223372036854775807)"
  "integer_range KUInt64 = (0, 18446744073709551615)"
  by (simp_all add: integer_range_def)

lemma has_kind_numeric: "has_kind n k \<Longrightarrow> is_numeric_kind k"
  by (cases n) (auto simp: is_numeric_kind_def is_float_kind_def)

lemma has_kind_read: "has_kind n k \<Longrightarrow> read_kind n k"
  by (cases n) simp_all

lemma read_kind_numeric: "read_kind n k \<Longrightarrow> is_numeric_kind k"
  by (cases n) (auto simp: is_numeric_kind_def is_float_kind_def)

lemma not_both: "is_integer_kind k \<Longrightarrow> \<not> is_float_kind k"
  by (auto simp: is_float_kind_def)

lemma has_kind_int: "has_kind n k \<Longrightarrow> is_integer_kind k \<Longrightarrow> \<exists>i. n = PInt i"
  by (cases n) auto

lemma has_kind_float: "has_kind n k \<Longrightarrow> is_float_kind k \<Longrightarrow> \<exists>x. n = PFloat x \<and> is_finite x \<and> wf_float x"
  by (cases n) (auto simp: is_float_kind_def)

lemma mask_mod: "i AND (2 ^ n - 1) = i mod 2 ^ n" for i :: int
  by (metis mask_eq_exp_minus_1 take_bit_eq_mask take_bit_eq_mod)

lemma mask_id32: "0 \<le> i \<Longrightarrow> i \<le> 4294967295 \<Longrightarrow> i AND 4294967295 = i" for i :: int
  using mask_mod [of i 32] by simp

lemma mask_id64: "0 \<le> i \<Longrightarrow> i \<le> 18446744073709551615 \<Longrightarrow> i AND 18446744073709551615 = i" for i :: int
  using mask_mod [of i 64] by simp

lemma unsigned_in_range:
  "is_integer_kind k \<Longrightarrow> \<not> snd (INTEGER_KIND_INFO k) \<Longrightarrow> has_kind (PInt (i AND (2 ^ fst (INTEGER_KIND_INFO k) - 1))) k"
  unfolding mask_mod by (drule integer_kind_cases) auto

lemma float_of_int_finite:
  assumes "\<bar>i\<bar> \<le> 2 ^ 64"
  shows "is_finite (float_of_int i)"
proof (cases "i = 0")
  case True
  then show ?thesis by (simp add: float_of_int_def round_float_def)
next
  case False
  let ?n = "\<bar>i\<bar>"
  have "floor_log2 ?n 1 < 1023"
  proof (rule ccontr)
    assume "\<not> floor_log2 ?n 1 < 1023"
    then have "(2::real) powi 1023 \<le> 2 powi floor_log2 ?n 1" by (intro pow2_mono) simp
    also have "\<dots> \<le> ratio ?n 1" using False by (intro floor_log2_bounds(1)) simp_all
    also have "\<dots> \<le> real_of_int (2 ^ 64)" using assms by (simp only: ratio_def of_int_1 div_by_1 of_int_le_iff)
    also have "\<dots> < 2 powi 1023" by (simp add: power_int_def)
    finally show False by simp
  qed
  with overflow_low(1) [of 64 ?n 1] False have "is_finite (round_float 64 (i < 0) ?n 1)"
    by (simp add: round_float_finite_iff format_max_def)
  then show ?thesis by (simp add: float_of_int_def)
qed

lemma int_kind_bound: "has_kind (PInt i) k \<Longrightarrow> \<bar>i\<bar> \<le> 2 ^ 64"
  by (auto dest!: integer_kind_cases)

lemma pack_f32_typed:
  assumes "wf_float x" "is_finite x" "pack_f32 x = Some y" "is_finite y"
  shows "has_kind (PFloat y) KFloat"
proof -
  obtain s m e where x: "x = FFin s m e" using assms(2) by (cases x) auto
  let ?n = "fst (dyadic m e)" and ?d = "snd (dyadic m e)"
  have y: "y = round_float 32 s ?n ?d"
    using assms(3) by (simp add: x Let_def round_dyadic_def case_prod_beta split: if_splits)
  have m: "0 \<le> m" using assms(1) x by simp
  have pos: "0 \<le> ?n" "0 < ?d" using dyadic_ratio(2,4) m by auto
  have "pack_f32 y = Some y"
  proof (cases "?n = 0")
    case True
    then show ?thesis by (simp add: y round_float_def round_dyadic_def dyadic_def lowest_def Let_def)
  next
    case False
    with pos assms(4) show ?thesis unfolding y by (intro round_float_idem) simp_all
  qed
  with assms(4) round_float_wf [OF pos, of 32 s] show ?thesis by (simp add: y [symmetric])
qed

lemma round_f32_ensures:
  assumes "err \<noteq> OutOfFuel" "err \<noteq> Uncaught"
    and "case v of PInt i \<Rightarrow> True | PFloat x \<Rightarrow> wf_float x"
  shows "ensures (\<lambda>x. has_kind (PFloat x) KFloat) (round_f32 err v)"
proof -
  have "wf_float (case v of PInt i \<Rightarrow> round_integer_to_f32_input i | PFloat x \<Rightarrow> x)"
    using assms(3) by (cases v) (simp_all add: round_integer_to_f32_input_def Let_def float_of_int_wf
        split: prod.splits)
  with assms(1,2) show ?thesis
    by (auto simp: round_f32_def Let_def simp del: has_kind.simps intro: pack_f32_typed split: option.splits)
qed

definition result_like :: "number \<Rightarrow> kind \<Rightarrow> bool" where
  \<comment> \<open>what an operation hands to \<open>numeric_value\<close>: still to be rounded and checked\<close>
  "result_like n k = (case n of
      PInt i \<Rightarrow> k = KFloat \<or> has_kind n k
    | PFloat x \<Rightarrow> is_float_kind k \<and> wf_float x)"

lemma has_kind_result_like: "has_kind n k \<Longrightarrow> result_like n k"
  by (cases n) (auto simp: result_like_def is_float_kind_def)

lemma numeric_value_ensures:
  assumes "result_like n k"
  shows "ensures (\<lambda>v. \<exists>m. v = NumV m (Some k) \<and> has_kind m k) (numeric_value n (Some k))"
proof (cases "k = KFloat")
  case True
  have "ensures (\<lambda>x. has_kind (PFloat x) KFloat) (round_f32 must_be_finite n)"
    using assms True by (intro round_f32_ensures) (auto simp: result_like_def split: number.splits)
  then show ?thesis
    by (cases "round_f32 must_be_finite n") (auto simp: numeric_value_def True)
next
  case False
  then show ?thesis using assms
    by (cases n) (auto simp: numeric_value_def result_like_def is_float_kind_def)
qed

lemma numeric_value_wt: "result_like n k \<Longrightarrow> ensures well_typed (numeric_value n (Some k))"
  by (rule ensures_mono [OF numeric_value_ensures]) (auto intro: has_kind_read)

lemma zero_of_kind: "is_numeric_kind k \<Longrightarrow> has_kind (zero_of k) k"
proof -
  assume "is_numeric_kind k"
  moreover have "pack_f32 (float_zero False) = Some (float_zero False)"
    by (simp add: float_zero_def round_dyadic_def dyadic_def lowest_def round_float_def Let_def)
  ultimately show ?thesis
    by (auto simp: zero_of_def is_numeric_kind_def is_float_kind_def dest!: integer_kind_cases)
qed

lemma zero_result_like: "is_numeric_kind k \<Longrightarrow> result_like (zero_of k) k"
  by (intro has_kind_result_like zero_of_kind)

lemma type_only_ensures: "well_typed v \<Longrightarrow> ensures well_typed (type_only_value v)"
  by (cases v rule: type_only_value.cases)
    (auto intro!: numeric_value_wt zero_result_like read_kind_numeric split: option.splits)

section \<open>Conversions\<close>

lemma typed_numeric_kind_ensures:
  "well_typed v \<Longrightarrow> ensures (\<lambda>k. kind_of v = Some k \<and> read_kind (number_of v) k) (typed_numeric_kind v label)"
  by (cases v) (auto simp: typed_numeric_kind_def dest: read_kind_numeric split: option.splits)

lemma typed_numeric_kind_value:
  "well_typed v \<Longrightarrow> typed_numeric_kind v label =
     (case kind_of v of Some k \<Rightarrow> Inr k | None \<Rightarrow> Inl (value_error label ExpectedNumeric))"
  by (cases v) (auto simp: typed_numeric_kind_def dest: read_kind_numeric split: option.splits)

lemma expect_numeric_ensures:
  "well_typed v \<Longrightarrow> ensures (\<lambda>n. n = number_of v) (expect_numeric v label)"
  by (cases v) (auto simp: expect_numeric_def)

lemma convert_ensures:
  assumes "read_kind n src" "is_numeric_kind tgt"
  shows "ensures (\<lambda>m. has_kind m tgt) (convert_numeric_value n src tgt label)"
proof -
  have first: "ensures (\<lambda>m. has_kind m src)
     (if is_integer_kind src then
         (case n of
            PFloat _ \<Rightarrow> Inl (Unlabelled (ValueIssue NotFromIntegerKind))
          | PInt i \<Rightarrow>
              let (source_bits, source_signed) = INTEGER_KIND_INFO src; (lower, upper) = integer_range src in
              if source_signed then
                (if i < lower \<or> i > upper then Inl (value_error label (OperandOutOfRange i src))
                 else Inr (PInt i))
              else Inr (PInt (i AND (2 ^ source_bits - 1))))
       else Inr n)"
  proof (cases n)
    case (PInt i)
    then have int: "is_integer_kind src" using assms(1) by simp
    obtain b sg where info: "INTEGER_KIND_INFO src = (b, sg)" by (cases "INTEGER_KIND_INFO src")
    obtain lo hi where rg: "integer_range src = (lo, hi)" by (cases "integer_range src")
    have "\<not> sg \<Longrightarrow> has_kind (PInt (i AND (2 ^ b - 1))) src" using unsigned_in_range [OF int, of i] info by simp
    with int show ?thesis by (auto simp: PInt info rg)
  next
    case (PFloat x)
    then have "\<not> is_integer_kind src" using assms(1) by auto
    with PFloat assms(1) show ?thesis by simp
  qed
  show ?thesis unfolding convert_numeric_value_def
  proof (rule ensures_rbind [OF first], goal_cases)
    case (1 m)
    then have src: "has_kind m src" by simp
    show ?case
    proof (cases m)
      case (PInt i)
      have f: "is_finite (float_of_int i)" "wf_float (float_of_int i)"
        using src PInt int_kind_bound by (auto intro: float_of_int_finite float_of_int_wf)
      consider "tgt = KDouble" | "tgt = KFloat" | "is_integer_kind tgt"
        using assms(2) by (auto simp: is_numeric_kind_def is_float_kind_def)
      then show ?thesis
      proof cases
        case 1
        with f show ?thesis by (simp add: PInt)
      next
        case 2
        have "ensures (\<lambda>x. has_kind (PFloat x) KFloat) (round_f32 must_be_finite (PInt i))"
          by (rule round_f32_ensures) simp_all
        then show ?thesis unfolding PInt 2
          by (cases "round_f32 must_be_finite (PInt i)") auto
      next
        case 3
        then have nf: "tgt \<noteq> KDouble" "tgt \<noteq> KFloat" by auto
        obtain b sg where info: "INTEGER_KIND_INFO tgt = (b, sg)" by (cases "INTEGER_KIND_INFO tgt")
        obtain lo hi where rg: "integer_range tgt = (lo, hi)" by (cases "integer_range tgt")
        have "\<not> sg \<Longrightarrow> has_kind (PInt (i AND (2 ^ b - 1))) tgt"
          using unsigned_in_range [OF 3, of i] info by simp
        moreover have "is_integer_kind src" using src PInt by simp
        ultimately show ?thesis using 3 nf unfolding PInt by (simp add: info rg)
      qed
    next
      case (PFloat x)
      have "ensures (\<lambda>x. has_kind (PFloat x) KFloat) (round_f32 must_be_finite (PFloat x))"
        using src PFloat by (intro round_f32_ensures) simp_all
      then have "ensures (\<lambda>m. has_kind m KFloat)
          (rbind (round_f32 must_be_finite (PFloat x)) (\<lambda>x. Inr (PFloat x)))"
        by (cases "round_f32 must_be_finite (PFloat x)") auto
      with src PFloat show ?thesis unfolding PFloat by (simp del: has_kind.simps) simp
    qed
  qed
qed

lemmas convert_strong = convert_ensures [OF has_kind_read]

lemma common_integer_kind_integer:
  "is_integer_kind a \<Longrightarrow> is_integer_kind b \<Longrightarrow> is_integer_kind (common_integer_kind a b)"
  by (elim integer_kind_cases [THEN disjE]; (elim disjE)?; simp add: common_integer_kind_def integer_kind_def)

end
