(* ===== verification/ExprSafety.thy ===== *)
theory ExprSafety
  imports ExprTyping
begin

text \<open>
  Every operation and every function of constant expressions keeps values well typed, the step from
  single values (\<open>ExprTyping\<close>) to whole expressions (\<open>ExprTotal\<close>).
\<close>

section \<open>Arithmetic\<close>

lemma common_numeric_kind_numeric:
  assumes "ks \<noteq> []" "\<forall>k\<in>set ks. is_numeric_kind k"
  shows "is_numeric_kind (common_numeric_kind ks)"
    and "is_float_kind (common_numeric_kind ks) \<longleftrightarrow> (\<exists>k\<in>set ks. is_float_kind k)"
proof -
  have fold: "is_integer_kind a \<Longrightarrow> \<forall>k\<in>set bs. is_integer_kind k \<Longrightarrow> is_integer_kind (foldl common_integer_kind a bs)" for a bs
    by (induction bs arbitrary: a) (auto intro: common_integer_kind_integer)
  show "is_numeric_kind (common_numeric_kind ks)"
    and "is_float_kind (common_numeric_kind ks) \<longleftrightarrow> (\<exists>k\<in>set ks. is_float_kind k)"
  proof -
    have "is_numeric_kind (common_numeric_kind ks) \<and>
      (is_float_kind (common_numeric_kind ks) \<longleftrightarrow> (\<exists>k\<in>set ks. is_float_kind k))"
    proof (cases "KDouble \<in> set ks \<or> KFloat \<in> set ks")
      case True
      then show ?thesis
        by (auto simp: common_numeric_kind_def is_numeric_kind_def is_float_kind_def)
    next
      case False
      with assms(2) have ints: "\<forall>k\<in>set ks. is_integer_kind k"
        by (auto simp: is_numeric_kind_def is_float_kind_def)
      with assms(1) fold [of "hd ks" "tl ks"] have "is_integer_kind (foldl common_integer_kind (hd ks) (tl ks))"
        by (cases ks) auto
      with False ints show ?thesis
        by (auto simp: common_numeric_kind_def is_numeric_kind_def dest: not_both)
    qed
    then show "is_numeric_kind (common_numeric_kind ks)"
      and "is_float_kind (common_numeric_kind ks) \<longleftrightarrow> (\<exists>k\<in>set ks. is_float_kind k)" by simp_all
  qed
qed

lemma common_value_ensures:
  assumes "well_typed a" "well_typed b"
  shows "ensures is_numeric_kind (common_value_numeric_kind a b)"
  unfolding common_value_numeric_kind_def
proof (rule ensures_rbind [OF typed_numeric_kind_ensures [OF assms(1)]],
    rule ensures_rbind [OF typed_numeric_kind_ensures [OF assms(2)]])
  fix l r
  assume "kind_of a = Some l \<and> read_kind (number_of a) l" and "kind_of b = Some r \<and> read_kind (number_of b) r"
  then show "ensures is_numeric_kind (Inr (common_numeric_kind [l, r]))"
    using common_numeric_kind_numeric(1) [of "[l, r]"] by (auto dest: read_kind_numeric)
qed

lemma numeric_operands_ensures:
  assumes "well_typed a" "well_typed b"
  shows "ensures (\<lambda>(l, r, k). has_kind l k \<and> has_kind r k \<and> is_numeric_kind k) (numeric_operands a b label)"
proof -
  note kinds = typed_numeric_kind_ensures [OF assms(1)] typed_numeric_kind_ensures [OF assms(2)]
  have right: "ensures (\<lambda>(l, r, k). has_kind l k \<and> has_kind r k \<and> is_numeric_kind k)
      (rbind (typed_numeric_kind b label) (\<lambda>rk.
        rbind (convert_numeric_value (number_of b) rk k label) (\<lambda>right. Inr (l, right, k))))"
    if "has_kind l k" "is_numeric_kind k" for l k
    by (rule ensures_rbind [OF kinds(2)], rule ensures_rbind [OF convert_ensures]) (use that in auto)
  have left: "ensures (\<lambda>(l, r, k). has_kind l k \<and> has_kind r k \<and> is_numeric_kind k)
      (rbind (typed_numeric_kind a label) (\<lambda>lk.
        rbind (convert_numeric_value (number_of a) lk k label) (\<lambda>left.
        rbind (typed_numeric_kind b label) (\<lambda>rk.
        rbind (convert_numeric_value (number_of b) rk k label) (\<lambda>right. Inr (left, right, k))))))"
    if "is_numeric_kind k" for k
    by (rule ensures_rbind [OF kinds(1)], rule ensures_rbind [OF convert_ensures]) (use that right in auto)
  show ?thesis unfolding numeric_operands_def
    by (rule ensures_rbind [OF expect_numeric_ensures [OF assms(1)]],
        rule ensures_rbind [OF expect_numeric_ensures [OF assms(2)]],
        rule ensures_rbind [OF common_value_ensures [OF assms]]) (simp add: left)
qed

lemma operand_cases:
  assumes "has_kind l k" "has_kind r k" "is_numeric_kind k"
  obtains (ints) i j where "l = PInt i" "r = PInt j" "is_integer_kind k" "\<not> is_float_kind k"
      "fst (integer_range k) \<le> i" "i \<le> snd (integer_range k)"
      "fst (integer_range k) \<le> j" "j \<le> snd (integer_range k)"
  | (floats) x y where "l = PFloat x" "r = PFloat y" "is_float_kind k" "\<not> is_integer_kind k" "wf_float x" "wf_float y"
proof (cases "is_integer_kind k")
  case True
  then obtain i j where "l = PInt i" "r = PInt j" using has_kind_int [OF assms(1)] has_kind_int [OF assms(2)] by auto
  with True assms not_both [OF True] show thesis by (intro ints) auto
next
  case False
  then have f: "is_float_kind k" using assms(3) by (simp add: is_numeric_kind_def)
  obtain x where "l = PFloat x" "wf_float x" using has_kind_float [OF assms(1) f] by auto
  moreover obtain y where "r = PFloat y" "wf_float y" using has_kind_float [OF assms(2) f] by auto
  ultimately show thesis using f False by (intro floats)
qed

lemma normalize_ensures:
  assumes "is_numeric_kind k" and "case n of PInt _ \<Rightarrow> is_integer_kind k | PFloat x \<Rightarrow> is_float_kind k \<and> wf_float x"
  shows "ensures (\<lambda>m. result_like m k) (normalize_numeric_result n k label)"
proof (cases n)
  case (PInt i)
  then have k: "is_integer_kind k" using assms(2) by simp
  obtain b sg where info: "INTEGER_KIND_INFO k = (b, sg)" by (cases "INTEGER_KIND_INFO k")
  obtain lo hi where rg: "integer_range k = (lo, hi)" by (cases "integer_range k")
  have "\<not> sg \<Longrightarrow> has_kind (PInt (i AND (2 ^ b - 1))) k" using unsigned_in_range [OF k, of i] info by simp
  with k show ?thesis by (auto simp: normalize_numeric_result_def PInt info rg result_like_def)
next
  case (PFloat x)
  with assms(2) show ?thesis by (simp add: normalize_numeric_result_def result_like_def)
qed

definition closed_op :: "(number \<Rightarrow> number \<Rightarrow> number) \<Rightarrow> bool" where
  "closed_op f \<longleftrightarrow> (\<forall>a b. \<exists>c. f (PInt a) (PInt b) = PInt c)
     \<and> (\<forall>x y. wf_float x \<longrightarrow> wf_float y \<longrightarrow> (\<exists>z. f (PFloat x) (PFloat y) = PFloat z \<and> wf_float z))"

lemma lift_number_closed: "(\<And>x y. wf_float x \<Longrightarrow> wf_float y \<Longrightarrow> wf_float (g x y)) \<Longrightarrow> closed_op (lift_number f g)"
  by (simp add: closed_op_def lift_number_def)

lemma numeric_binary_ensures:
  assumes "well_typed a" "well_typed b" "closed_op f"
  shows "ensures well_typed (numeric_binary a b label f)"
  unfolding numeric_binary_def
proof (rule ensures_rbind [OF numeric_operands_ensures [OF assms(1,2)]], clarsimp)
  fix l r k
  assume k: "has_kind l k" "has_kind r k" "is_numeric_kind k"
  have "case f l r of PInt _ \<Rightarrow> is_integer_kind k | PFloat x \<Rightarrow> is_float_kind k \<and> wf_float x"
    using k
  proof (cases rule: operand_cases)
    case (ints i j)
    have "\<exists>c. f (PInt i) (PInt j) = PInt c" using assms(3) unfolding closed_op_def by (elim conjE allE)
    with ints show ?thesis by auto
  next
    case (floats x y)
    have "\<exists>z. f (PFloat x) (PFloat y) = PFloat z \<and> wf_float z"
      using assms(3) floats(5,6) unfolding closed_op_def by simp
    with floats show ?thesis by auto
  qed
  with k(3) have n: "ensures (\<lambda>m. result_like m k) (normalize_numeric_result (f l r) k label)"
    by (rule normalize_ensures)
  show "ensures well_typed (rbind (normalize_numeric_result (f l r) k label) (\<lambda>result. numeric_value result (Some k)))"
    by (rule ensures_rbind [OF n]) (rule numeric_value_wt)
qed

lemma numeric_compare_ensures:
  "well_typed a \<Longrightarrow> well_typed b \<Longrightarrow> ensures (\<lambda>_. True) (numeric_compare a b label f)"
  unfolding numeric_compare_def
  by (rule ensures_rbind [OF numeric_operands_ensures]) auto

lemma compare_equal_ensures:
  assumes "well_typed a" "well_typed b"
  shows "ensures (\<lambda>_. True) (compare_equal a b label)"
proof -
  have "ensures (\<lambda>_. True) (rbind (numeric_operands a b label) (\<lambda>(left, right, _). Inr (number_eq left right)))"
    by (rule ensures_rbind [OF numeric_operands_ensures [OF assms]]) auto
  then show ?thesis by (cases a; cases b) (simp_all add: compare_equal_def)
qed

lemma expect_bool_ensures:
  assumes "well_typed v"
  shows "ensures (\<lambda>_. True) (expect_bool v label)"
proof (cases v)
  case (NumV n k)
  have "ensures (\<lambda>_. True) (rbind (typed_numeric_kind v label) (\<lambda>k.
      rbind (convert_numeric_value n k k label) (\<lambda>normalized. Inr (\<not> number_is_zero normalized))))"
    apply (rule ensures_rbind [OF typed_numeric_kind_ensures [OF assms]])
    apply (rule ensures_rbind [OF convert_ensures])
      apply (auto simp: NumV dest: read_kind_numeric)
    done
  then show ?thesis by (simp add: expect_bool_def NumV)
qed (simp_all add: expect_bool_def)

section \<open>Division\<close>

lemma result_like_int: "is_integer_kind k \<Longrightarrow> fst (integer_range k) \<le> i \<Longrightarrow> i \<le> snd (integer_range k)
    \<Longrightarrow> result_like (PInt i) k"
  by (simp add: result_like_def)

lemma normalized_value_ensures:
  "is_integer_kind k \<Longrightarrow> ensures well_typed
     (rbind (normalize_numeric_result (PInt i) k label) (\<lambda>v. numeric_value v (Some k)))"
  by (rule ensures_rbind [OF normalize_ensures]) (auto simp: is_numeric_kind_def intro: numeric_value_wt)

lemma divide_ensures:
  assumes "well_typed a" "well_typed b"
  shows "ensures well_typed (divide_values e a b label)"
  unfolding divide_values_def
proof (rule ensures_rbind [OF numeric_operands_ensures [OF assms]], clarsimp simp only: prod.case)
  fix l r k
  assume k: "has_kind l k" "has_kind r k" "is_numeric_kind k"
  have zero: "ensures well_typed (numeric_value (zero_of k) (Some k))"
    by (intro numeric_value_wt zero_result_like k)
  from k show "ensures well_typed
    (if \<not> e then numeric_value (zero_of k) (Some k)
     else if number_is_zero r then Inl (value_error label DivisionByZero)
     else if is_float_kind k then numeric_value (PFloat (float_div (float_of l) (float_of r))) (Some k)
     else let left_integer = int_of l; right_integer = int_of r; (_, is_signed) = INTEGER_KIND_INFO k in
       if is_signed \<and> signed_division_overflows left_integer right_integer k
       then Inl (value_error label (DivisionOutOfRange k))
       else let result = if is_signed then truncating_integer_divide left_integer right_integer
                         else left_integer div right_integer in
         rbind (normalize_numeric_result (PInt result) k label) (\<lambda>v. numeric_value v (Some k)))"
  proof (cases rule: operand_cases)
    case (ints i j)
    then show ?thesis using zero
      by (auto simp: Let_def split: prod.splits intro: normalized_value_ensures)
  next
    case (floats x y)
    have "result_like (PFloat (float_div x y)) k" if "\<not> number_is_zero (PFloat y)"
      using floats that by (simp add: result_like_def float_div_wf)
    with floats zero show ?thesis by (auto intro: numeric_value_wt)
  qed
qed

lemma modulo_ensures:
  assumes "well_typed a" "well_typed b"
  shows "ensures well_typed (modulo_values e a b label)"
  unfolding modulo_values_def
proof (rule ensures_rbind [OF numeric_operands_ensures [OF assms]], clarsimp simp only: prod.case)
  fix l r k
  assume k: "has_kind l k" "has_kind r k" "is_numeric_kind k"
  have zero: "ensures well_typed (numeric_value (PInt 0) (Some k))" if "\<not> is_float_kind k"
    using zero_result_like [OF k(3)] that by (intro numeric_value_wt) (simp add: zero_of_def)
  from k show "ensures well_typed
    (if is_float_kind k then Inl (value_error label ModuloNotInteger)
     else if \<not> e then numeric_value (PInt 0) (Some k)
     else if number_is_zero r then Inl (value_error label ModuloByZero)
     else let left_integer = int_of l; right_integer = int_of r; (_, is_signed) = INTEGER_KIND_INFO k in
       if is_signed \<and> signed_division_overflows left_integer right_integer k
       then Inl (value_error label (DivisionOutOfRange k))
       else let result = if is_signed
                         then left_integer - truncating_integer_divide left_integer right_integer * right_integer
                         else left_integer mod right_integer in
         rbind (normalize_numeric_result (PInt result) k label) (\<lambda>v. numeric_value v (Some k)))"
  proof (cases rule: operand_cases)
    case (ints i j)
    then show ?thesis using zero
      by (auto simp: Let_def split: prod.splits intro: normalized_value_ensures)
  next
    case (floats x y)
    then show ?thesis by simp
  qed
qed

section \<open>Bitwise operators and shifts\<close>

lemma expect_integral_ensures:
  "well_typed v \<Longrightarrow> ensures (\<lambda>(i, k). number_of v = PInt i \<and> kind_of v = Some k \<and> read_kind (PInt i) k) (expect_integral v label)"
  by (cases v) (auto simp: expect_integral_def split: number.splits option.splits)

lemma integer_from_bits_kind: "is_integer_kind k \<Longrightarrow> has_kind (PInt (integer_from_bits v k)) k"
  unfolding integer_from_bits_def mask_mod by (drule integer_kind_cases) (auto simp: Let_def)

lemma integer_bits_ensures: "ensures (\<lambda>_. True) (integer_bits v k label)"
  by (simp add: integer_bits_def Let_def split: prod.splits)

lemma integer_value_ensures:
  "is_integer_kind k \<Longrightarrow> ensures well_typed (numeric_value (PInt (integer_from_bits v k)) (Some k))"
  by (intro numeric_value_wt has_kind_result_like integer_from_bits_kind)

lemma bitwise_binary_ensures:
  assumes "well_typed a" "well_typed b"
  shows "ensures well_typed (bitwise_binary a b label f)"
  unfolding bitwise_binary_def
proof (rule ensures_rbind [OF expect_integral_ensures [OF assms(1)]], clarsimp simp only: prod.case,
    rule ensures_rbind [OF expect_integral_ensures [OF assms(2)]], clarsimp simp only: prod.case Let_def)
  fix i ki j kj
  assume k: "read_kind (PInt i) ki" "read_kind (PInt j) kj"
  define k where "k = common_integer_kind ki kj"
  have int: "is_integer_kind k" using k by (simp add: k_def common_integer_kind_integer)
  then have num: "is_numeric_kind k" by (simp add: is_numeric_kind_def)
  show "ensures well_typed
     (rbind (convert_numeric_value (PInt i) ki (common_integer_kind ki kj) label) (\<lambda>l.
      rbind (convert_numeric_value (PInt j) kj (common_integer_kind ki kj) label) (\<lambda>r.
      case INTEGER_KIND_INFO (common_integer_kind ki kj) of (bits, _) \<Rightarrow>
      rbind (integer_bits (int_of l) (common_integer_kind ki kj) label) (\<lambda>lb.
      rbind (integer_bits (int_of r) (common_integer_kind ki kj) label) (\<lambda>rb.
        numeric_value (PInt (integer_from_bits (f lb rb AND 2 ^ bits - 1) (common_integer_kind ki kj)))
          (Some (common_integer_kind ki kj)))))))"
    unfolding k_def [symmetric]
    by (rule ensures_rbind [OF convert_ensures [OF k(1) num]], rule ensures_rbind [OF convert_ensures [OF k(2) num]])
      (simp split: prod.splits, intro allI impI ensures_rbind [OF integer_bits_ensures] integer_value_ensures int)
qed

lemma bitwise_complement_ensures:
  assumes "well_typed v"
  shows "ensures well_typed (bitwise_complement v label)"
  unfolding bitwise_complement_def
  by (rule ensures_rbind [OF expect_integral_ensures [OF assms]])
    (auto simp: Let_def split: prod.splits intro!: ensures_rbind [OF integer_bits_ensures] integer_value_ensures)

lemma drop_bit_bounds:
  fixes i :: int
  shows "0 \<le> i \<Longrightarrow> 0 \<le> drop_bit n i \<and> drop_bit n i \<le> i"
    and "i < 0 \<Longrightarrow> i \<le> drop_bit n i \<and> drop_bit n i < 0"
proof -
  have p: "(1::int) \<le> 2 ^ n" by simp
  show "0 \<le> i \<Longrightarrow> 0 \<le> drop_bit n i \<and> drop_bit n i \<le> i"
    using p zdiv_mono2 [of i 1 "2 ^ n"] by (simp add: drop_bit_eq_div pos_imp_zdiv_nonneg_iff)
  assume "i < 0"
  have "i div 1 \<le> i div 2 ^ n" if "i < 0" using that p by (intro zdiv_mono2_neg) simp_all
  with \<open>i < 0\<close> show "i \<le> drop_bit n i \<and> drop_bit n i < 0"
    by (simp add: drop_bit_eq_div pos_imp_zdiv_neg_iff)
qed

lemma shift_right_kind:
  assumes "has_kind (PInt i) k"
  shows "has_kind (PInt (drop_bit n i)) k" and "has_kind (PInt (drop_bit n (i AND (2 ^ fst (INTEGER_KIND_INFO k) - 1)))) k
    \<or> snd (INTEGER_KIND_INFO k)"
proof -
  have small: "has_kind (PInt (drop_bit n j)) k" if "has_kind (PInt j) k" for j
  proof -
    define d where "d = drop_bit n j"
    have "(0 \<le> j \<and> 0 \<le> d \<and> d \<le> j) \<or> (j < 0 \<and> j \<le> d \<and> d < 0)"
      using drop_bit_bounds [where i = j and n = n] by (cases "0 \<le> j") (simp_all only: d_def not_le simp_thms)
    with that have "has_kind (PInt d) k" by (auto dest!: integer_kind_cases)
    then show ?thesis by (simp only: d_def)
  qed
  show "has_kind (PInt (drop_bit n i)) k" using assms by (rule small)
  show "has_kind (PInt (drop_bit n (i AND (2 ^ fst (INTEGER_KIND_INFO k) - 1)))) k \<or> snd (INTEGER_KIND_INFO k)"
    using small [OF unsigned_in_range] assms by auto
qed

lemma shift_ensures:
  assumes "well_typed a" "well_typed b"
  shows "ensures well_typed (shift_value a b label left)"
  unfolding shift_value_def
proof (rule ensures_rbind [OF expect_integral_ensures [OF assms(1)]], clarsimp simp only: prod.case,
    rule ensures_rbind [OF expect_integral_ensures [OF assms(2)]], clarsimp simp only: prod.case Let_def)
  fix i ki j kj
  assume k: "read_kind (PInt i) ki" "read_kind (PInt j) kj"
  then have num: "is_numeric_kind ki" "is_numeric_kind kj" by (auto simp: is_numeric_kind_def)
  have int: "is_integer_kind ki" using k by simp
  obtain bits sg where info: "INTEGER_KIND_INFO ki = (bits, sg)" by (cases "INTEGER_KIND_INFO ki")
  show "ensures well_typed
     (rbind (convert_numeric_value (PInt i) ki ki label) (\<lambda>l.
      rbind (convert_numeric_value (PInt j) kj kj label) (\<lambda>r.
      case INTEGER_KIND_INFO ki of (bits, is_signed) \<Rightarrow>
      if int_of r < 0 then Inl (value_error label NegativeShift)
      else if int_of r \<ge> int bits then Inl (value_error label (ShiftTooLarge (int_of r) bits))
      else numeric_value (PInt
        (if left then integer_from_bits (push_bit (nat (int_of r)) (int_of l AND (2 ^ bits - 1))) ki
         else if is_signed then drop_bit (nat (int_of r)) (int_of l)
         else drop_bit (nat (int_of r)) (int_of l AND (2 ^ bits - 1)))) (Some ki))))"
  proof (rule ensures_rbind [OF convert_ensures [OF k(1) num(1)]], rule ensures_rbind [OF convert_ensures [OF k(2) num(2)]])
    fix l r
    assume "has_kind l ki" and "has_kind r kj"
    then obtain x where l: "l = PInt x" "has_kind (PInt x) ki" using has_kind_int [OF _ int] by blast
    let ?res = "if left then integer_from_bits (push_bit (nat (int_of r)) (x AND (2 ^ bits - 1))) ki
         else if sg then drop_bit (nat (int_of r)) x else drop_bit (nat (int_of r)) (x AND (2 ^ bits - 1))"
    have "has_kind (PInt ?res) ki"
      using integer_from_bits_kind [OF int] shift_right_kind [OF l(2)] info by auto
    then have "ensures well_typed (numeric_value (PInt ?res) (Some ki))"
      by (intro numeric_value_wt has_kind_result_like)
    then show "ensures well_typed (case INTEGER_KIND_INFO ki of (bits, is_signed) \<Rightarrow>
      if int_of r < 0 then Inl (value_error label NegativeShift)
      else if int_of r \<ge> int bits then Inl (value_error label (ShiftTooLarge (int_of r) bits))
      else numeric_value (PInt
        (if left then integer_from_bits (push_bit (nat (int_of r)) (int_of l AND (2 ^ bits - 1))) ki
         else if is_signed then drop_bit (nat (int_of r)) (int_of l)
         else drop_bit (nat (int_of r)) (int_of l AND (2 ^ bits - 1)))) (Some ki))"
      unfolding info l(1) prod.case int_of.simps by (simp del: well_typed.simps)
  qed
qed

section \<open>Operators of the parser\<close>

lemma add_values_ensures:
  assumes "well_typed a" "well_typed b"
  shows "ensures well_typed (add_values a b label)"
proof -
  have "ensures well_typed (numeric_binary a b label (lift_number (+) float_add))"
    by (intro numeric_binary_ensures assms lift_number_closed float_add_wf)
  then show ?thesis by (cases a; cases b) (simp_all add: add_values_def)
qed

lemma unary_number_ensures:
  assumes "well_typed v" and "\<And>i. \<exists>j. f (PInt i) = PInt j"
    and "\<And>x. wf_float x \<Longrightarrow> \<exists>y. f (PFloat x) = PFloat y \<and> wf_float y"
  shows "ensures well_typed (unary_number f v label)"
  unfolding unary_number_def
proof (rule ensures_rbind [OF expect_numeric_ensures [OF assms(1)]],
    rule ensures_rbind [OF typed_numeric_kind_ensures [OF assms(1)]], clarsimp)
  fix k
  assume k: "read_kind (number_of v) k"
  have "case f (number_of v) of PInt _ \<Rightarrow> is_integer_kind k | PFloat x \<Rightarrow> is_float_kind k \<and> wf_float x"
  proof (cases "number_of v")
    case (PInt i)
    with assms(2) [of i] k show ?thesis by auto
  next
    case (PFloat x)
    with assms(3) [of x] k show ?thesis by (auto simp: is_float_kind_def)
  qed
  then have n: "ensures (\<lambda>m. result_like m k) (normalize_numeric_result (f (number_of v)) k label)"
    using k by (intro normalize_ensures) (rule read_kind_numeric)
  show "ensures well_typed (rbind (normalize_numeric_result (f (number_of v)) k label)
      (\<lambda>result. numeric_value result (Some k)))"
    by (rule ensures_rbind [OF n]) (rule numeric_value_wt)
qed

lemma number_neg_ensures: "well_typed v \<Longrightarrow> ensures well_typed (unary_number number_neg v label)"
  by (rule unary_number_ensures) simp_all

lemma number_id_ensures: "well_typed v \<Longrightarrow> ensures well_typed (unary_number id v label)"
  by (rule unary_number_ensures) simp_all

section \<open>Coercion\<close>

fun value_of_kind :: "kind \<Rightarrow> pyvalue \<Rightarrow> bool" where
  "value_of_kind k (PyBool _) = (k = KBool)"
| "value_of_kind k (PyStr _) = (k = KString)"
| "value_of_kind k (PyNum n) = has_kind n k"

lemma coerce_integer_ensures:
  "is_integer_kind k \<Longrightarrow> ensures (\<lambda>i. has_kind (PInt i) k) (coerce_integer k i label)"
  by (drule integer_kind_cases) (auto simp: coerce_integer_def)

lemma validate_utf8_ensures: "ensures (\<lambda>_. True) (validate_utf8_string s label)"
  by (simp add: validate_utf8_string_def raise_if_def)

lemma family_simps [simp]: "constant_family KBool = FamBool" "constant_family KString = FamString"
  by (simp_all add: constant_family_def)

lemma family_cases:
  obtains "k = KBool" "constant_family k = FamBool" | "k = KString" "constant_family k = FamString"
  | "constant_family k = FamNumeric" "is_float_kind k" "\<not> is_integer_kind k" "is_numeric_kind k"
  | "constant_family k = FamNumeric" "\<not> is_float_kind k" "is_integer_kind k" "is_numeric_kind k"
  by (cases k) (auto simp: constant_family_def is_numeric_kind_def is_float_kind_def)

lemma coerce_expression_ensures:
  assumes "well_typed v"
  shows "ensures (value_of_kind k) (coerce_expression_value k v label)"
proof (cases k rule: family_cases)
  case 1
  show ?thesis
  proof (cases v)
    case (NumV n nk)
    show ?thesis
    proof (cases n)
      case (PInt i)
      have "ensures (value_of_kind k)
        (rbind (typed_numeric_kind v label) (\<lambda>source_kind.
         rbind (convert_numeric_value (PInt i) source_kind source_kind label) (\<lambda>normalized.
           Inr (PyBool (\<not> number_is_zero normalized)))))"
        apply (rule ensures_rbind [OF typed_numeric_kind_ensures [OF assms]])
        apply (rule ensures_rbind [OF convert_ensures])
          apply (auto simp: NumV PInt 1 intro: read_kind_numeric)
        apply (auto simp: is_numeric_kind_def)
        done
      then show ?thesis by (simp add: coerce_expression_value_def 1 NumV PInt)
    qed (simp add: coerce_expression_value_def 1 NumV)
  qed (simp_all add: coerce_expression_value_def 1)
next
  case 2
  then show ?thesis
    by (cases v) (auto simp: coerce_expression_value_def intro!: ensures_rbind [OF validate_utf8_ensures])
next
  case 3
  show ?thesis
  proof (cases v)
    case (NumV n nk)
    have step: "ensures (value_of_kind k) (rbind (convert_numeric_value n s k label) (\<lambda>out.
          if \<not> is_finite (float_of out) then Inl (value_error label NotFinite)
          else Inr (PyNum (PFloat (float_of out)))))" if "read_kind n s" for s
    proof -
      from that have c: "ensures (\<lambda>m. has_kind m k) (convert_numeric_value n s k label)"
        using 3(4) by (rule convert_ensures)
      show ?thesis
      proof (rule ensures_rbind [OF c])
        fix m assume "has_kind m k"
        then obtain x where "m = PFloat x" "has_kind (PFloat x) k" using has_kind_float [OF _ 3(2)] by blast
        then show "ensures (value_of_kind k) (if \<not> is_finite (float_of m) then Inl (value_error label NotFinite)
          else Inr (PyNum (PFloat (float_of m))))" by auto
      qed
    qed
    have "ensures (value_of_kind k)
       (rbind (typed_numeric_kind v label) (\<lambda>source_kind.
        rbind (convert_numeric_value n source_kind k label) (\<lambda>out.
          if \<not> is_finite (float_of out) then Inl (value_error label NotFinite)
          else Inr (PyNum (PFloat (float_of out))))))"
      by (rule ensures_rbind [OF typed_numeric_kind_ensures [OF assms]], rule step) (simp add: NumV)
    then show ?thesis by (simp add: coerce_expression_value_def 3 NumV)
  qed (simp_all add: coerce_expression_value_def 3)
next
  case 4
  show ?thesis
  proof (cases v)
    case (NumV n nk)
    have fin: "ensures (value_of_kind k) (rbind (coerce_integer k i label) (\<lambda>i. Inr (PyNum (PInt i))))" for i
      by (rule ensures_rbind [OF coerce_integer_ensures [OF 4(3)]]) simp
    have step: "ensures (value_of_kind k)
        (rbind (case n of PFloat x \<Rightarrow> Inr (float_trunc x)
             | PInt i \<Rightarrow> rbind (convert_numeric_value n s s label) (\<lambda>v. Inr (int_of v))) (\<lambda>i.
         rbind (coerce_integer k i label) (\<lambda>i. Inr (PyNum (PInt i)))))" if s: "read_kind n s" for s
    proof -
      have c: "ensures (\<lambda>m. has_kind m s) (convert_numeric_value n s s label)"
        using s read_kind_numeric [OF s] by (rule convert_ensures)
      have "ensures (\<lambda>_. True) (case n of PFloat x \<Rightarrow> Inr (float_trunc x)
             | PInt i \<Rightarrow> rbind (convert_numeric_value n s s label) (\<lambda>v. Inr (int_of v)))"
      proof (cases n)
        case (PInt i)
        show ?thesis unfolding PInt number.case using c [unfolded PInt] by (rule ensures_rbind) simp
      qed simp
      then show ?thesis by (rule ensures_rbind) (rule fin)
    qed
    have "ensures (value_of_kind k)
       (rbind (typed_numeric_kind v label) (\<lambda>source_kind.
         rbind (case n of PFloat x \<Rightarrow> Inr (float_trunc x)
             | PInt i \<Rightarrow> rbind (convert_numeric_value n source_kind source_kind label) (\<lambda>v. Inr (int_of v))) (\<lambda>i.
         rbind (coerce_integer k i label) (\<lambda>i. Inr (PyNum (PInt i))))))"
      by (rule ensures_rbind [OF typed_numeric_kind_ensures [OF assms]], rule step) (simp add: NumV)
    then show ?thesis by (simp add: coerce_expression_value_def 4 NumV)
  qed (simp_all add: coerce_expression_value_def 4)
qed

lemma coerce_literal_ensures:
  assumes "\<And>x. literal = PyNum (PFloat x) \<Longrightarrow> wf_float x"
  shows "ensures (value_of_kind k) (coerce_literal k literal label)"
proof (cases k rule: family_cases)
  case 1
  then show ?thesis by (auto simp: coerce_literal_def split: pyvalue.splits)
next
  case 2
  then show ?thesis
    by (auto simp: coerce_literal_def split: pyvalue.splits intro!: ensures_rbind [OF validate_utf8_ensures])
next
  case 3
  show ?thesis
  proof (cases literal)
    case (PyNum v)
    have "ensures (\<lambda>x. has_kind (PFloat x) KFloat) (round_f32 (coerce_error label LiteralNotFinite) v)"
      using assms PyNum by (intro round_f32_ensures) (auto split: number.splits)
    then have "ensures (value_of_kind KFloat)
        (rbind (round_f32 (coerce_error label LiteralNotFinite) v) (\<lambda>x. Inr (PyNum (PFloat x))))"
      by (rule ensures_rbind) simp
    moreover have "wf_float (float_of v)" using assms PyNum by (cases v) (auto simp: float_of_int_wf)
    ultimately show ?thesis using 3 by (auto simp: coerce_literal_def PyNum is_float_kind_def)
  qed (simp_all add: coerce_literal_def 3)
next
  case 4
  show ?thesis
  proof (cases literal)
    case (PyNum v)
    show ?thesis
    proof (cases v)
      case (PInt i)
      then show ?thesis using 4
        by (auto simp: coerce_literal_def PyNum intro!: ensures_rbind [OF coerce_integer_ensures])
    qed (simp add: coerce_literal_def 4 PyNum)
  qed (simp_all add: coerce_literal_def 4)
qed

end
