(* ===== verification/DetMathSpec.thy ===== *)
theory DetMathSpec
  imports DetMath
begin

text \<open>
  What \<^verbatim>\<open>_deterministic_math.py\<close> promises: ratios are rounded to a nearest value of the format with
  ties to even, the error for a non-finite result is raised exactly from the overflow threshold
  on, and integral powers within the exact budget are correctly rounded whichever of the three
  paths (base one, power of two, exact power) computes them.
\<close>

section \<open>Powers of two\<close>

lemma is_nearest_of_int: "is_nearest (real_of_int k) k"
  by (simp add: is_nearest_def)

lemma bit_top: "2 ^ j \<le> n \<Longrightarrow> n < 2 ^ Suc j \<Longrightarrow> bit (n :: int) j"
proof -
  assume a: "2 ^ j \<le> n" "n < 2 ^ Suc j"
  have "n div 2 ^ j = 1"
    by (rule div_pos_geq [THEN trans]) (use a in \<open>simp_all add: div_pos_pos_trivial\<close>)
  then show ?thesis by (simp add: bit_iff_odd)
qed

lemma power_of_two_value:
  assumes "is_power_of_two n"
  shows "n = 2 ^ (bit_length n - 1)" and "0 < n" and "0 < bit_length n"
proof -
  show n: "0 < n" using assms by (simp add: is_power_of_two_def)
  show bl: "0 < bit_length n" using bit_length_pos [OF n] by simp
  let ?j = "bit_length n - 1"
  have j: "Suc ?j = bit_length n" using bl by simp
  have b: "2 ^ Suc ?j \<le> 2 * n" "n < 2 ^ Suc ?j" using bit_length_bounds [OF n] unfolding j by simp_all
  then have low: "2 ^ ?j \<le> n" by simp
  show "n = 2 ^ ?j"
  proof (rule ccontr)
    assume "n \<noteq> 2 ^ ?j"
    with low have "2 ^ ?j \<le> n - 1" by simp
    then have "bit n ?j" and "bit (n - 1) ?j" using low b by (auto intro!: bit_top)
    then have "bit (n AND (n - 1)) ?j" by (simp add: bit_and_iff)
    with assms show False by (simp add: is_power_of_two_def)
  qed
qed

definition rounded :: "int \<Rightarrow> bool \<Rightarrow> int \<Rightarrow> int \<Rightarrow> math_error + pyfloat" where
  \<comment> \<open>the IEEE result of an exact ratio, an error when it is not finite\<close>
  "rounded width neg num den =
     (let r = round_float width neg num den in if is_finite r then Inr r else Inl MathNonFinite)"

lemma rounded_cong:
  assumes "0 < num" "0 < den" "0 < num'" "0 < den'" "ratio num den = ratio num' den'"
  shows "rounded width neg num den = rounded width neg num' den'"
  by (simp add: rounded_def round_float_cong [OF assms])

lemma pow2_quantum_significand:
  assumes pos: "0 < num" "0 < den" and E: "ratio num den = 2 powi E" and e: "quantum width num den \<le> E"
  shows "round_scaled num den (- quantum width num den) = 2 ^ nat (E - quantum width num den)"
proof -
  let ?e = "quantum width num den"
  have "ratio num den * 2 powi (- ?e) = real_of_int (2 ^ nat (E - ?e))"
    using e by (simp add: E flip: powi_add2 pow2_nonneg)
  with round_scaled_nearest [OF pos(2), of num "- ?e"] is_nearest_of_int [of "2 ^ nat (E - ?e)"]
  show ?thesis by (metis is_nearest_unique)
qed

lemma pow2_rounded:
  assumes w: "width = 32 \<or> width = 64" and pos: "0 < num" "0 < den" and E: "ratio num den = 2 powi E"
  shows "binary_power_of_two E neg width = rounded width neg num den"
proof -
  obtain p eb where f: "BINARY_FORMATS width =
      (int p, format_min width, format_max width, format_max width, eb, p - 1)"
    and p: "p = format_precision width" "1 < p" and eb: "2 ^ eb = 2 * format_max width + 2"
    and mm: "format_min width = 1 - format_max width" "int p \<le> format_max width"
    using format_of_width [OF w] by metis
  let ?s = "push_bit (nat (width - 1)) (if neg then 1 else 0) :: int" and ?M = "format_max width"
  let ?e = "quantum width num den"
  let ?m = "round_scaled num den (- ?e)"
  have fl: "floor_log2 num den = E"
    using floor_log2_bounds [OF pos] unfolding E
    by (intro pow2_between_unique [of _ "2 powi E"]) (simp_all add: powi_add2)
  have over: "overflows width ?m ?e \<longleftrightarrow> ?M < E"
  proof (cases "E = ?M")
    case True
    then show ?thesis using overflow_edge [OF w pos] threshold_bounds(1) [of width] by (simp add: fl E)
  next
    case False
    then show ?thesis using overflow_low [OF w pos] overflow_high [OF w pos] fl by (cases "E < ?M") auto
  qed
  have r: "rounded width neg num den = (if ?M < E then Inl MathNonFinite else Inr (normalize neg ?m ?e))"
    using pos over by (simp add: rounded_def round_float_def Let_def normalize_finite)
  have e: "?e = max E (format_min width) - (int p - 1)" by (simp add: quantum_def fl p)
  have b: "binary_power_of_two E neg width =
     (if E > ?M then Inl MathNonFinite
      else Inr (binary_float_from_bits
        (if E \<ge> format_min width then ?s OR push_bit (p - 1) (E + ?M)
         else if E \<ge> format_min width - (int p - 1)
         then ?s OR push_bit (nat (E - (format_min width - (int p - 1)))) 1 else ?s) width))"
    by (simp add: binary_power_of_two_def f Let_def)
  consider "E > ?M" | "E \<le> ?M" "format_min width \<le> E" | "E < format_min width" "format_min width - (int p - 1) \<le> E"
    | "E < format_min width - (int p - 1)" by linarith
  then show ?thesis
  proof cases
    case 1
    then show ?thesis by (simp add: b r)
  next
    case 2
    have em: "?e = E - (int p - 1)" using 2 e by simp
    have "?m = 2 ^ nat (E - ?e)" using p(2) em by (intro pow2_quantum_significand [OF pos E]) linarith
    moreover have "nat (E - ?e) = p - 1" using em by simp
    ultimately have m: "?m = 2 ^ (p - 1)" by simp
    have field: "0 < E + ?M" "E + ?M < 2 ^ eb - 1" using 2 mm eb by linarith+
    have "binary_float_from_bits (?s OR push_bit (p - 1) (E + ?M) OR 0) width = decode_parts width neg (E + ?M) 0"
      using field by (intro decode_pattern [OF w f]) simp_all
    also have "\<dots> = normalize neg (2 ^ (p - 1)) (E - (int p - 1))"
      unfolding decode_normal [OF f field] using p(2) by (simp add: of_nat_diff)
    finally have "binary_float_from_bits (?s OR push_bit (p - 1) (E + ?M) OR 0) width = normalize neg ?m ?e"
      unfolding m unfolding em .
    then show ?thesis using 2 by (simp add: b r)
  next
    case 3
    have em: "?e = format_min width - (int p - 1)" using 3 e by simp
    then have m: "?m = 2 ^ nat (E - ?e)" using 3 by (intro pow2_quantum_significand [OF pos E]) linarith
    have "nat (E - ?e) < p - 1" using 3 em by linarith
    then have lt: "?m < 2 ^ (p - 1)" unfolding m by (rule power_strict_increasing) simp
    have bias: "(0::int) \<noteq> 2 ^ eb - 1" "(0::int) < 2 ^ eb" using eb mm p(2) by linarith+
    have "binary_float_from_bits (?s OR push_bit (p - 1) 0 OR ?m) width = decode_parts width neg 0 ?m"
      using lt bias m by (intro decode_pattern [OF w f]) simp_all
    also have "\<dots> = normalize neg ?m ?e"
      using bias em p(2) by (simp add: decode_parts_def f of_nat_diff)
    finally have "binary_float_from_bits (?s OR ?m) width = normalize neg ?m ?e" by simp
    moreover have "push_bit (nat (E - (format_min width - (int p - 1)))) 1 = ?m"
      unfolding m unfolding em by (simp add: push_bit_eq_mult)
    ultimately show ?thesis using 3 mm p by (simp add: b r)
  next
    case 4
    have em: "?e = format_min width - (int p - 1)" using 4 e p(2) by simp
    have "(2::real) powi (E - ?e) \<le> 2 powi (-1)" using 4 em by (intro pow2_mono) simp
    then have "(2::real) powi (E - ?e) \<le> 1 / 2" by (simp add: power_int_minus)
    moreover have "ratio num den * 2 powi (- ?e) = 2 powi (E - ?e)" by (simp add: E flip: powi_add2)
    ultimately have "is_nearest (ratio num den * 2 powi (- ?e)) 0" by (simp add: is_nearest_def)
    with round_scaled_nearest [OF pos(2)] have "?m = 0" by (metis is_nearest_unique)
    with 4 mm p decode_sign [OF w, of neg] show ?thesis by (simp add: b r)
  qed
qed

section \<open>Exact powers\<close>

lemma lowest_coprime: "coprime n d \<Longrightarrow> 0 < d \<Longrightarrow> lowest n d = (n, d)"
  by (simp add: lowest_def coprime_iff_gcd_eq_1)

lemma dyadic_coprime: "coprime (fst (dyadic m e)) (snd (dyadic m e))"
  using lowest_ratio(5) [of "2 ^ nat (- e)" m] by (simp add: dyadic_def)

lemma integer_ratio_dyadic: "integer_ratio (DFin False (fst (dyadic m e)) (snd (dyadic m e))) = Inr (dyadic m e)"
  using lowest_coprime [OF dyadic_coprime [of m e] dyadic_ratio(2) [of m e]] by (simp split: prod.splits)

definition power_fraction :: "int \<Rightarrow> int \<Rightarrow> int \<Rightarrow> int \<times> int" where
  \<comment> \<open>numerator and denominator of the \<open>k\<close>-th power of a ratio\<close>
  "power_fraction n d k = (if k < 0 then (d ^ nat (- k), n ^ nat (- k)) else (n ^ nat k, d ^ nat k))"

lemma power_fraction_ratio:
  assumes "0 < n" "0 < d"
  shows "0 < fst (power_fraction n d k)" "0 < snd (power_fraction n d k)"
    and "ratio (fst (power_fraction n d k)) (snd (power_fraction n d k)) = ratio n d powi k"
  using assms by (simp_all add: power_fraction_def ratio_def power_int_def power_divide field_simps)

lemma power_of_two_branch:
  assumes "0 < n" "0 < d" "coprime n d" and "integer_ratio x = Inr (k, 1)"
    and "exact_power_of_two_result (DFin False n d) x neg 64 = r" and "r \<noteq> Inr None"
  shows "r = rbind (rounded 64 neg (fst (power_fraction n d k)) (snd (power_fraction n d k))) (\<lambda>v. Inr (Some v))"
proof -
  let ?b = "int (bit_length n) - int (bit_length d)"
  have two: "is_power_of_two n" "is_power_of_two d"
    and r: "r = rbind (binary_power_of_two (?b * k) neg 64) (\<lambda>r. Inr (Some r))"
    using assms(4-6) lowest_coprime [OF assms(3,2)]
    by (auto simp: exact_power_of_two_result_def Let_def split: if_splits)
  define i j where "i = bit_length n - 1" and "j = bit_length d - 1"
  have n: "n = 2 ^ i" and d: "d = 2 ^ j" and b: "?b = int i - int j"
    using power_of_two_value [OF two(1)] power_of_two_value [OF two(2)] by (simp_all add: i_def j_def)
  have "ratio n d = 2 powi ?b" unfolding b by (simp add: n d ratio_def power_int_diff power_int_of_nat)
  then have "ratio n d powi k = 2 powi (?b * k)" by (simp add: power_int_mult)
  with power_fraction_ratio [OF assms(1,2), of k] have "binary_power_of_two (?b * k) neg 64
      = rounded 64 neg (fst (power_fraction n d k)) (snd (power_fraction n d k))"
    by (intro pow2_rounded) simp_all
  then show ?thesis by (simp add: r)
qed

lemma integral_branch:
  assumes "0 < n" "0 < d" "coprime n d"
    and "exact_power_operand_fits n \<bar>k\<bar>" "exact_power_operand_fits d \<bar>k\<bar>"
  shows "exact_integral_power_result (DFin False n d) k neg 64
    = rbind (rounded 64 neg (fst (power_fraction n d k)) (snd (power_fraction n d k))) (\<lambda>v. Inr (Some v))"
proof -
  let ?f = "power_fraction n d k"
  have "exact_integral_power_result (DFin False n d) k neg 64
      = rbind (round_ratio (fst ?f) (snd ?f) neg 64) (\<lambda>v. Inr (Some v))"
    using assms(4,5) lowest_coprime [OF assms(3,2)]
    by (cases "k < 0") (simp_all add: exact_integral_power_result_def Let_def power_fraction_def)
  also have "round_ratio (fst ?f) (snd ?f) neg 64 = rounded 64 neg (fst ?f) (snd ?f)"
    using power_fraction_ratio [OF assms(1,2), of k] by (simp add: round_ratio_eq rounded_def)
  finally show ?thesis .
qed

lemma positive_pow_exact:
  assumes "0 < n" "0 < d" "coprime n d" and "integer_ratio x = Inr (k, 1)"
    and "exact_power_operand_fits n \<bar>k\<bar>" "exact_power_operand_fits d \<bar>k\<bar>"
  shows "positive_pow ctx (DFin False n d) x (Some k) neg
    = rounded 64 neg (fst (power_fraction n d k)) (snd (power_fraction n d k))"
proof -
  let ?q = "rounded 64 neg (fst (power_fraction n d k)) (snd (power_fraction n d k))"
  let ?r = "exact_power_of_two_result (DFin False n d) x neg 64"
  show ?thesis
  proof (cases "?r = Inr None")
    case True
    then show ?thesis
      using integral_branch [OF assms(1-3,5,6), of neg] by (cases ?q) (simp_all add: positive_pow_def)
  next
    case False
    from power_of_two_branch [OF assms(1-4) refl False]
    show ?thesis by (cases ?q) (simp_all add: positive_pow_def)
  qed
qed

lemma rounded_one: "rounded 64 neg 1 1 = Inr (float_one neg)"
proof -
  have "binary_power_of_two 0 neg 64 = rounded 64 neg 1 1"
    by (rule pow2_rounded) (simp_all add: ratio_def)
  moreover have "binary_power_of_two 0 True 64 = Inr (float_one True)"
    "binary_power_of_two 0 False 64 = Inr (float_one False)" by code_simp+
  then have "binary_power_of_two 0 neg 64 = Inr (float_one neg)" by (cases neg) simp_all
  ultimately show ?thesis by simp
qed

lemma power_fraction_one: "power_fraction 1 1 k = (1, 1)"
  by (simp add: power_fraction_def)

section \<open>Properties\<close>

text \<open>
  C21: an exact ratio is rounded as IEEE 754 prescribes, for both formats: the result has the
  requested sign and is a normal-form float whose magnitude is a multiple of the unit in the last
  place, nearest with ties to even, and no value of the format is nearer; the error is raised
  exactly when the ratio reaches half a unit above the largest finite value.
\<close>

theorem ratio_rounded_to_nearest:
  assumes "width = 32 \<or> width = 64" and "0 < num" "0 < den"
  shows "(round_ratio num den neg width = Inl MathNonFinite \<and> overflow_threshold width \<le> ratio num den)
    \<or> (\<exists>r m. round_ratio num den neg width = Inr r \<and> ratio num den < overflow_threshold width
        \<and> wf_float r \<and> negative r = neg
        \<and> magnitude r = real_of_int m * 2 powi quantum width num den
        \<and> is_nearest (ratio num den * 2 powi (- quantum width num den)) m
        \<and> (\<forall>y. representable width y \<longrightarrow> \<bar>ratio num den - magnitude r\<bar> \<le> \<bar>ratio num den - y\<bar>))"
proof -
  let ?e = "quantum width num den" and ?r = "round_float width neg num den"
  let ?m = "round_scaled num den (- ?e)"
  have rr: "round_ratio num den neg width = (if is_finite ?r then Inr ?r else Inl MathNonFinite)"
    using round_ratio_eq [OF assms(1), of num den neg] assms by (simp add: Let_def)
  have fin: "is_finite ?r \<longleftrightarrow> ratio num den < overflow_threshold width"
    using round_float_finite_iff [OF assms(2,3), of width neg] overflow_iff [OF assms] by (simp add: not_le)
  show ?thesis
  proof (cases "is_finite ?r")
    case True
    then have no: "\<not> overflows width ?m ?e" using round_float_finite_iff [OF assms(2,3)] by simp
    have "is_nearest (ratio num den * 2 powi (- ?e)) ?m" using assms(3) by (rule round_scaled_nearest)
    with True fin rr round_float_value [OF assms(2,3) no, of neg]
      round_float_nearest [OF assms(2,3) _ True] show ?thesis by (intro disjI2 exI [of _ ?r] exI [of _ ?m]) simp
  qed (use fin rr in simp)
qed

lemma ratio_rounded_to_nearest_witness:
  "round_ratio 1 10 True 32 = Inr (FFin True 7205759511166976 (-56))
   \<and> (\<exists>r m. round_ratio 1 10 True 32 = Inr r \<and> ratio 1 10 < overflow_threshold 32
        \<and> wf_float r \<and> negative r = True
        \<and> magnitude r = real_of_int m * 2 powi quantum 32 1 10
        \<and> is_nearest (ratio 1 10 * 2 powi (- quantum 32 1 10)) m
        \<and> (\<forall>y. representable 32 y \<longrightarrow> \<bar>ratio 1 10 - magnitude r\<bar> \<le> \<bar>ratio 1 10 - y\<bar>))"
proof -
  have v: "round_ratio 1 10 True 32 = Inr (FFin True 7205759511166976 (-56))" by code_simp
  with ratio_rounded_to_nearest [of 32 1 10 True] show ?thesis by simp
qed

text \<open>
  C22: an integral power within the exact budget is the correctly rounded power, its sign that of
  an odd power of a negative base, and non-finite results are reported as such. The three ways
  the code takes (base one, powers of two by their exponent, exact integer powers) agree, and no
  decimal approximation is involved: the result does not depend on the decimal context.
\<close>

theorem integral_powers_correctly_rounded:
  assumes "0 < m" and "integer_ratio (decimal_value (PFloat exponent)) = Inr (k, 1)" and "k \<noteq> 0"
    and "exact_power_operand_fits (fst (dyadic m e)) \<bar>k\<bar>"
    and "exact_power_operand_fits (snd (dyadic m e)) \<bar>k\<bar>"
  shows "evaluate_pow ctx (FFin neg m e) exponent =
    (let (n, d) = power_fraction (fst (dyadic m e)) (snd (dyadic m e)) k;
         r = round_float 64 (neg \<and> odd k) n d in
     if is_finite r then Inr r else Inl MathNonFinite)"
proof -
  let ?n = "fst (dyadic m e)" and ?d = "snd (dyadic m e)"
  have pos: "0 < ?n" "0 < ?d" using dyadic_ratio(2,3) assms(1) by auto
  have base: "decimal_value (PFloat (FFin neg m e)) = DFin neg ?n ?d" by (cases "dyadic m e") simp
  have nz: "\<not> decimal_is_zero (decimal_value (PFloat exponent))"
    using assms(2,3) by (cases "decimal_value (PFloat exponent)") (auto simp: lowest_def Let_def split: if_splits)
  let ?r = "rounded 64 (neg \<and> odd k) (fst (power_fraction ?n ?d k)) (snd (power_fraction ?n ?d k))"
  have "evaluate_pow ctx (FFin neg m e) exponent =
     (if DFin False ?n ?d = DFin False 1 1 then Inr (float_one (neg \<and> odd k))
      else positive_pow ctx (DFin False ?n ?d) (decimal_value (PFloat exponent)) (Some k) (neg \<and> odd k))"
    using nz assms(2) pos unfolding evaluate_pow_def base by (simp add: Let_def decimal_negative_def) auto
  also have "\<dots> = ?r"
    using positive_pow_exact [OF pos dyadic_coprime assms(2,4,5)] rounded_one
    by (simp add: power_fraction_one)
  finally show ?thesis by (simp add: rounded_def Let_def case_prod_beta)
qed

lemma integral_powers_correctly_rounded_witness:
  \<comment> \<open>the cube of minus three halves\<close>
  "\<forall>ctx. evaluate_pow ctx (FFin True 3 (-1)) (FFin False 3 0) = Inr (FFin True 7599824371187712 (-51))"
proof
  fix ctx
  have k: "integer_ratio (decimal_value (PFloat (FFin False 3 0))) = Inr (3, 1)" by code_simp
  have fits: "exact_power_operand_fits (fst (dyadic 3 (-1))) \<bar>3\<bar>"
    "exact_power_operand_fits (snd (dyadic 3 (-1))) \<bar>3\<bar>" by code_simp+
  have r: "(let (n, d) = power_fraction (fst (dyadic 3 (-1))) (snd (dyadic 3 (-1))) 3;
        r = round_float 64 (True \<and> odd (3::int)) n d in
      if is_finite r then Inr r else Inl MathNonFinite) = Inr (FFin True 7599824371187712 (-51))"
    by code_simp
  show "evaluate_pow ctx (FFin True 3 (-1)) (FFin False 3 0) = Inr (FFin True 7599824371187712 (-51))"
    using integral_powers_correctly_rounded [of 3 "FFin False 3 0" 3 "-1" ctx True] k fits r by simp
qed

end
