(* ===== verification/ExprTotal.thy ===== *)
theory ExprTotal
  imports ExprSafety DetMathSpec
begin

text \<open>
  Every function of constant expressions takes well-typed arguments to a well-typed result or an
  error of the program. Nothing is needed of the decimal context: the deterministic math returns
  floats in normal form and raises none but its own errors on finite operands.
\<close>

section \<open>Deterministic math\<close>

fun math_ok :: "math_error + pyfloat \<Rightarrow> bool" where
  "math_ok (Inr x) = wf_float x"
| "math_ok (Inl e) = (e \<noteq> UncaughtOverflow)"

lemma decode_wf:
  assumes "width = 32 \<or> width = 64"
  shows "wf_float (binary_float_from_bits bits width)"
proof -
  obtain p eb where f: "BINARY_FORMATS width =
      (int p, format_min width, format_max width, format_max width, eb, p - 1)"
    and p: "p = format_precision width" "1 < p" and eb: "2 ^ eb = 2 * format_max width + 2"
    and mm: "format_min width = 1 - format_max width" "int p \<le> format_max width"
    using format_of_width [OF assms] by metis
  let ?fr = "take_bit (p - 1) bits" and ?fi = "take_bit eb (drop_bit (p - 1) bits)"
  have fr: "0 \<le> ?fr" "?fr < 2 ^ (p - 1)" and fi: "0 \<le> ?fi" "?fi < 2 ^ eb" by simp_all
  have lim: "format_max width \<le> 1023" "p \<le> 53" "-1074 \<le> format_min width - int (p - 1)"
    using p by (simp_all add: format_defs of_nat_diff split: if_splits)
  have le53: "(2::int) ^ p \<le> 2 ^ 53" "(2::int) ^ (p - 1) \<le> 2 ^ p"
    using lim(2) by (intro power_increasing; simp)+
  have norm: "wf_float (normalize neg m e)" if "0 \<le> m" "m < 2 ^ p" "-1074 \<le> e" "e + int p \<le> 1024" for m e neg
  proof (cases "m = 0")
    case False
    have "bit_length m \<le> p" using that by (simp add: bit_length_le_iff)
    with False that le53 show ?thesis by (intro normalize_small(1)) linarith+
  qed simp
  have "wf_float (decode_parts width b ?fi ?fr)" for b
  proof -
    have 0: "wf_float (normalize b ?fr (format_min width - int (p - 1)))"
      using fr le53 lim mm p(2) by (intro norm) linarith+
    have 1: "wf_float (normalize b (2 ^ (p - 1) + ?fr) (?fi - format_max width - int (p - 1)))"
      if "?fi \<noteq> 2 ^ eb - 1" "?fi \<noteq> 0"
    proof -
      have "2 ^ (p - 1) + ?fr < 2 ^ p" using fr p(2)
        by (metis add_strict_left_mono mult_2 power_eq_if less_numeral_extra(3) not_one_less_zero)
      moreover have "0 < ?fi" "?fi < 2 ^ eb - 1" using fi that by linarith+
      ultimately show ?thesis using fr lim mm eb p(2) by (intro norm) (simp_all add: of_nat_diff)
    qed
    show ?thesis using 0 1 unfolding decode_parts_def f Let_def prod.case by simp
  qed
  then show ?thesis unfolding binary_float_from_bits_def f Let_def prod.case .
qed

lemma finite_bits_ok: "width = 32 \<or> width = 64 \<Longrightarrow> math_ok (finite_binary_float_from_bits bits width)"
  by (simp add: finite_from_bits decode_wf)

lemma round_ratio_ok: "width = 32 \<or> width = 64 \<Longrightarrow> math_ok (round_ratio n d neg width)"
  by (simp add: round_ratio_def finite_bits_ok)

lemma math_ok_rbind:
  "(case m of Inr x \<Rightarrow> math_ok (f x) | Inl e \<Rightarrow> e \<noteq> UncaughtOverflow) \<Longrightarrow> math_ok (rbind m f)"
  by (cases m) auto

lemma round_decimal_ok: "width = 32 \<or> width = 64 \<Longrightarrow> math_ok (round_decimal d width)"
  using finite_bits_ok [of width]
  by (cases d) (auto simp: round_decimal_def decimal_to_binary_bits_def Let_def
      intro!: math_ok_rbind split: prod.splits sum.splits)

lemma evaluate_unary_ok: "width = 32 \<or> width = 64 \<Longrightarrow> math_ok (evaluate_unary ctx name v width)"
  using round_decimal_ok [of width] by (auto simp: evaluate_unary_def Let_def split: option.splits)

lemma integer_ratio_ok: "x \<noteq> DNan \<Longrightarrow> \<forall>b. x \<noteq> DInf b \<Longrightarrow> \<exists>r. integer_ratio x = Inr r"
  by (cases x) (auto split: prod.splits)

fun option_ok :: "math_error + pyfloat option \<Rightarrow> bool" where
  "option_ok (Inr (Some x)) = wf_float x"
| "option_ok (Inr None) = True"
| "option_ok (Inl e) = (e \<noteq> UncaughtOverflow)"

lemma some_ok: "math_ok m \<Longrightarrow> option_ok (rbind m (\<lambda>r. Inr (Some r)))"
  by (cases m) auto

lemma binary_power_ok: "width = 32 \<or> width = 64 \<Longrightarrow> math_ok (binary_power_of_two e neg width)"
  using decode_wf [of width] by (simp add: binary_power_of_two_def Let_def split: prod.splits)

lemma power_of_two_ok:
  "width = 32 \<or> width = 64 \<Longrightarrow> integer_ratio x = Inr r \<Longrightarrow> option_ok (exact_power_of_two_result (DFin b n d) x neg width)"
  using some_ok [OF binary_power_ok [of width]]
  by (auto simp: exact_power_of_two_result_def Let_def split: prod.splits)

lemma integral_power_ok:
  "width = 32 \<or> width = 64 \<Longrightarrow> option_ok (exact_integral_power_result (DFin b n d) k neg width)"
  using some_ok [OF round_ratio_ok [of width]]
  by (auto simp: exact_integral_power_result_def Let_def split: prod.splits)

lemma transcendental_ok: "math_ok (transcendental_pow ctx b e neg)"
  using round_decimal_ok [of 64] by (auto simp: transcendental_pow_def split: option.splits)

lemma positive_pow_ok:
  assumes "integer_ratio x = Inr r"
  shows "math_ok (positive_pow ctx (DFin b n d) x k neg)"
proof -
  have p: "option_ok (exact_power_of_two_result (DFin b n d) x neg 64)" using assms by (intro power_of_two_ok) simp_all
  have i: "option_ok (case k of None \<Rightarrow> Inr None | Some k \<Rightarrow> exact_integral_power_result (DFin b n d) k neg 64)"
    using integral_power_ok [of 64] by (auto split: option.splits)
  show ?thesis using p i transcendental_ok [of ctx "DFin b n d" x neg]
    unfolding positive_pow_def
    by (cases "exact_power_of_two_result (DFin b n d) x neg 64" rule: option_ok.cases;
        cases "case k of None \<Rightarrow> Inr None | Some k \<Rightarrow> exact_integral_power_result (DFin b n d) k neg 64" rule: option_ok.cases)
      simp_all
qed

lemma evaluate_pow_ok:
  assumes "is_finite x" "is_finite y"
  shows "math_ok (evaluate_pow ctx x y)"
proof -
  obtain s m e where x: "x = FFin s m e" using assms(1) by (cases x) auto
  obtain t n f where y: "y = FFin t n f" using assms(2) by (cases y) auto
  obtain xb xd where dx: "decimal_value (PFloat x) = DFin s xb xd" by (cases "dyadic m e") (simp add: x)
  obtain yb yd where dy: "decimal_value (PFloat y) = DFin t yb yd" by (cases "dyadic n f") (simp add: y)
  have "\<exists>r. integer_ratio (DFin t yb yd) = Inr r" by (rule integer_ratio_ok) simp_all
  then obtain r where r: "integer_ratio (DFin t yb yd) = Inr r" by (elim exE)
  show ?thesis
    unfolding evaluate_pow_def dx dy Let_def
    using positive_pow_ok [OF r, of ctx]
    by (auto simp: r simp del: integer_ratio.simps split: prod.splits)
qed

section \<open>Functions\<close>

lemma math_result_ensures: "math_ok r \<Longrightarrow> ensures wf_float (math_result name label r)"
  by (cases "(name, label, r)" rule: math_result.cases) auto

lemma argument_ensures:
  assumes "well_typed v"
  shows "ensures (\<lambda>(n, k). has_kind n k) (function_numeric_argument name v label)"
proof (cases v)
  case (NumV n nk)
  with assms obtain k where k: "nk = Some k" "read_kind n k" by (auto split: option.splits)
  have num: "is_numeric_kind k" using k(2) by (rule read_kind_numeric)
  obtain b sg where info: "INTEGER_KIND_INFO k = (b, sg)" by (cases "INTEGER_KIND_INFO k")
  show ?thesis
  proof (cases n)
    case (PInt i)
    with k have int: "is_integer_kind k" by simp
    have "\<not> sg \<Longrightarrow> has_kind (PInt (i AND (2 ^ b - 1))) k" using unsigned_in_range [OF int, of i] info by simp
    with k int num show ?thesis
      by (auto simp: function_numeric_argument_def NumV PInt info Let_def split: prod.splits)
  next
    case (PFloat x)
    with k num show ?thesis by (auto simp: function_numeric_argument_def NumV)
  qed
qed (simp_all add: function_numeric_argument_def)

lemma result_ensures:
  assumes "result_like n k"
  shows "ensures well_typed (function_numeric_result name n k label)"
proof -
  have "ensures (\<lambda>m. result_like m k)
     (if k = KFloat then rbind (round_f32 (function_error label name ResultNotFinite) n) (\<lambda>x. Inr (PFloat x))
      else if \<not> finite_number n then Inl (function_error label name ResultNotFinite) else Inr n)"
  proof (cases "k = KFloat")
    case True
    have "ensures (\<lambda>x. has_kind (PFloat x) KFloat) (round_f32 (function_error label name ResultNotFinite) n)"
      using assms by (intro round_f32_ensures) (auto simp: result_like_def split: number.splits)
    then show ?thesis unfolding True
      by (cases "round_f32 (function_error label name ResultNotFinite) n") (auto simp: result_like_def)
  qed (use assms in simp)
  then show ?thesis unfolding function_numeric_result_def
    by (rule ensures_rbind) (rule numeric_value_wt)
qed

lemma real_kind_simps [simp]: "is_numeric_kind (real_result_kind k)" "is_float_kind (real_result_kind k)"
  by (simp_all add: real_result_kind_def is_numeric_kind_def)

lemma real_function_ensures:
  assumes "has_kind v k"
  shows "ensures well_typed (evaluate_real_function ctx name v k label)"
  unfolding evaluate_real_function_def Let_def
proof (rule ensures_rbind [OF convert_strong [OF assms]], simp)
  fix operand
  let ?w = "if real_result_kind k = KFloat then 32 else 64 :: int"
  have m: "ensures wf_float (math_result name label (evaluate_unary ctx name operand ?w))"
    by (intro math_result_ensures evaluate_unary_ok) simp
  show "ensures well_typed (rbind (math_result name label (evaluate_unary ctx name operand ?w))
      (\<lambda>result. function_numeric_result name (PFloat result) (real_result_kind k) label))"
    by (rule ensures_rbind [OF m]) (simp add: result_ensures result_like_def)
qed

lemma round_to_integer_wf:
  assumes "wf_float x"
  shows "wf_float (round_float_to_integer name x)"
  using assms by (simp add: round_float_to_integer_def Let_def float_of_int_wf float_add_wf split: prod.splits)

lemma rounding_function_ensures:
  assumes "has_kind v k"
  shows "ensures well_typed (evaluate_rounding_function name v k label)"
  unfolding evaluate_rounding_function_def Let_def
proof (rule ensures_rbind [OF convert_strong [OF assms]], simp)
  fix operand assume "has_kind operand (real_result_kind k)"
  then obtain x where "operand = PFloat x" "wf_float x" using has_kind_float [OF _ real_kind_simps(2)] by blast
  then show "ensures well_typed (function_numeric_result name
      (PFloat (round_float_to_integer name (float_of operand))) (real_result_kind k) label)"
    by (intro result_ensures) (simp add: result_like_def round_to_integer_wf)
qed

lemma pow_function_ensures:
  assumes "\<forall>a\<in>set args. well_typed a"
  shows "ensures well_typed (evaluate_pow_function ctx args label)"
proof (cases "\<exists>a b. args = [a, b]")
  case True
  then obtain a b where args: "args = [a, b]" by blast
  have d: "is_numeric_kind KDouble" by (simp add: is_numeric_kind_def)
  have fl: "\<exists>x. m = PFloat x \<and> is_finite x" if "has_kind m KDouble" for m
    using has_kind_float [OF that] by auto
  have core: "ensures well_typed (rbind (convert_numeric_value n1 k1 KDouble label) (\<lambda>base.
      rbind (convert_numeric_value n2 k2 KDouble label) (\<lambda>exponent.
      rbind (math_result ''pow'' label (evaluate_pow ctx (float_of base) (float_of exponent))) (\<lambda>result.
        function_numeric_result ''pow'' (PFloat result) KDouble label))))"
    if "has_kind n1 k1" "has_kind n2 k2" for n1 k1 n2 k2
  proof (rule ensures_rbind [OF convert_strong [OF that(1) d]], rule ensures_rbind [OF convert_strong [OF that(2) d]])
    fix x y assume "has_kind x KDouble" "has_kind y KDouble"
    then have "is_finite (float_of x)" "is_finite (float_of y)" using fl by force+
    then have m: "ensures wf_float (math_result ''pow'' label (evaluate_pow ctx (float_of x) (float_of y)))"
      by (intro math_result_ensures evaluate_pow_ok)
    show "ensures well_typed (rbind (math_result ''pow'' label (evaluate_pow ctx (float_of x) (float_of y)))
      (\<lambda>result. function_numeric_result ''pow'' (PFloat result) KDouble label))"
      by (rule ensures_rbind [OF m]) (simp add: result_ensures result_like_def)
  qed
  have wa: "well_typed a" "well_typed b" using assms by (simp_all add: args)
  show ?thesis unfolding evaluate_pow_function_def args list.case
    by (rule ensures_rbind [OF argument_ensures [OF wa(1)]], clarsimp simp only: prod.case,
        rule ensures_rbind [OF argument_ensures [OF wa(2)]], clarsimp simp only: prod.case) (rule core)
next
  case False
  then show ?thesis by (auto simp: evaluate_pow_function_def split: list.splits)
qed

lemma abs_ensures:
  assumes "\<forall>a\<in>set args. well_typed a"
  shows "ensures well_typed (evaluate_abs args label)"
proof (cases "\<exists>a. args = [a]")
  case True
  then obtain a where args: "args = [a]" by blast
  have core: "ensures well_typed (if is_integer_kind k \<and> snd (INTEGER_KIND_INFO k) \<and> v = PInt (fst (integer_range k))
      then Inl (function_error label ''abs'' (FunctionResultOutOfRange k))
      else function_numeric_result ''abs'' (number_abs v) k label)" if "has_kind v k" for v k
  proof -
    have "result_like (number_abs v) k"
      if no: "\<not> (is_integer_kind k \<and> snd (INTEGER_KIND_INFO k) \<and> v = PInt (fst (integer_range k)))"
    proof (cases v)
      case (PInt i)
      then have "is_integer_kind k" using \<open>has_kind v k\<close> by simp
      then have "has_kind (PInt \<bar>i\<bar>) k" using \<open>has_kind v k\<close> no PInt by (auto dest!: integer_kind_cases)
      then show ?thesis using PInt by (simp add: result_like_def)
    next
      case (PFloat x)
      then show ?thesis using \<open>has_kind v k\<close> by (auto simp: result_like_def is_float_kind_def)
    qed
    then show ?thesis by (auto intro: result_ensures)
  qed
  have wa: "well_typed a" using assms by (simp add: args)
  show ?thesis unfolding evaluate_abs_def args list.case
    by (rule ensures_rbind [OF argument_ensures [OF wa]], clarsimp simp only: prod.case) (rule core)
next
  case False
  then show ?thesis by (auto simp: evaluate_abs_def split: list.splits)
qed

lemma arguments_ensures:
  assumes "\<forall>a\<in>set args. well_typed a"
  shows "ensures (\<lambda>vs. length vs = length args \<and> (\<forall>v\<in>set vs. case v of (n, k) \<Rightarrow> has_kind n k))
    (rmap (\<lambda>arg. function_numeric_argument name arg label) args)"
  by (rule ensures_rmap) (use assms argument_ensures in blast)

lemma select_number_mem: "ns \<noteq> [] \<Longrightarrow> select_number name ns \<in> set ns"
proof -
  have "foldl (\<lambda>r c. if p c r then c else r) a bs \<in> insert a (set bs)" for p and a :: number and bs
    by (induction bs arbitrary: a) auto
  from this [of _ "hd ns" "tl ns"] show "ns \<noteq> [] \<Longrightarrow> select_number name ns \<in> set ns"
    unfolding select_number_def by (cases ns) simp_all
qed

lemma common_of_pairs:
  assumes "vs \<noteq> []" "\<forall>v\<in>set vs. case v of (n, k) \<Rightarrow> has_kind n k"
  shows "is_numeric_kind (common_numeric_kind (map snd vs))"
proof (rule common_numeric_kind_numeric(1))
  show "map snd vs \<noteq> []" using assms(1) by simp
  show "\<forall>k\<in>set (map snd vs). is_numeric_kind k"
  proof
    fix k assume "k \<in> set (map snd vs)"
    then obtain n where "(n, k) \<in> set vs" by auto
    with assms(2) have "has_kind n k" by auto
    then show "is_numeric_kind k" by (rule has_kind_numeric)
  qed
qed

lemma min_max_ensures:
  assumes "\<forall>a\<in>set args. well_typed a"
  shows "ensures well_typed (evaluate_min_max name args label)"
proof (cases "length args < 2")
  case False
  have core: "ensures well_typed (let result_kind = common_numeric_kind (map snd vs) in
     rbind (rmap (\<lambda>(v, k). convert_numeric_value v k result_kind ''numeric expression'') vs) (\<lambda>converted.
       function_numeric_result name (select_number name converted) result_kind label))"
    if vs: "length vs = length args \<and> (\<forall>v\<in>set vs. case v of (n, k) \<Rightarrow> has_kind n k)" for vs
  proof -
    let ?k = "common_numeric_kind (map snd vs)"
    have ne: "vs \<noteq> []" using vs False by auto
    have num: "is_numeric_kind ?k" using common_of_pairs [OF ne] vs by simp
    have c: "ensures (\<lambda>ms. length ms = length vs \<and> (\<forall>m\<in>set ms. has_kind m ?k))
       (rmap (\<lambda>(v, k). convert_numeric_value v k ?k ''numeric expression'') vs)"
      by (rule ensures_rmap) (use vs num convert_strong in auto)
    show ?thesis unfolding Let_def
    proof (rule ensures_rbind [OF c])
      fix ms assume ms: "length ms = length vs \<and> (\<forall>m\<in>set ms. has_kind m ?k)"
      then have "ms \<noteq> []" using ne by auto
      then have "select_number name ms \<in> set ms" by (rule select_number_mem)
      with ms show "ensures well_typed (function_numeric_result name (select_number name ms) ?k label)"
        by (intro result_ensures has_kind_result_like) simp
    qed
  qed
  have "ensures well_typed (rbind (rmap (\<lambda>arg. function_numeric_argument name arg label) args) (\<lambda>vs.
     let result_kind = common_numeric_kind (map snd vs) in
     rbind (rmap (\<lambda>(v, k). convert_numeric_value v k result_kind ''numeric expression'') vs) (\<lambda>converted.
       function_numeric_result name (select_number name converted) result_kind label)))"
    by (rule ensures_rbind [OF arguments_ensures [OF assms]]) (rule core)
  with False show ?thesis by (simp add: evaluate_min_max_def)
qed (simp add: evaluate_min_max_def)

section \<open>Casts\<close>

lemma cast_string_ensures: "well_typed v \<Longrightarrow> ensures (\<lambda>_. True) (cast_string_value v label)"
proof (cases v)
  case (NumV n k)
  assume w: "well_typed v"
  have "ensures (\<lambda>_. True) (rbind (typed_numeric_kind v label) (\<lambda>k.
       rbind (convert_numeric_value n k k label) (\<lambda>numeric.
         Inr (if is_integer_kind k then int_text (int_of numeric)
              else float_text (if k = KFloat then 9 else 17) (float_of numeric)))))"
    by (rule ensures_rbind [OF typed_numeric_kind_ensures [OF w]], rule ensures_rbind [OF convert_ensures])
      (auto simp: NumV intro: read_kind_numeric)
  then show ?thesis by (simp add: cast_string_value_def NumV)
qed (simp_all add: cast_string_value_def)

definition cast_number :: "string \<Rightarrow> kind \<Rightarrow> kind \<Rightarrow> number \<Rightarrow> string \<Rightarrow> expr_error + typed_value" where
  \<comment> \<open>the numeric part of \<open>evaluate_scalar_cast\<close>\<close>
  "cast_number name target_kind source_kind normalized label =
     (if is_float_kind target_kind then
        rbind (if target_kind = KFloat then round_f32 (function_error label name ResultNotFinite) normalized
               else Inr (float_of normalized)) (\<lambda>result.
          function_numeric_result name (PFloat result) target_kind label)
      else if is_float_kind source_kind then
        let result = float_trunc (float_of normalized); (lower, upper) = integer_range target_kind in
        if result < lower \<or> result > upper
        then Inl (function_error label name (FunctionResultOutOfRange target_kind))
        else function_numeric_result name (PInt result) target_kind label
      else function_numeric_result name (PInt (integer_from_bits (int_of normalized) target_kind))
             target_kind label)"

lemma cast_number_ensures:
  assumes "has_kind n s" "is_numeric_kind t"
  shows "ensures well_typed (cast_number name t s n label)"
proof (cases "is_float_kind t")
  case True
  have wf: "wf_float (float_of n)" using assms(1) by (cases n) (simp_all add: float_of_int_wf)
  have "ensures (\<lambda>x. result_like (PFloat x) t)
      (if t = KFloat then round_f32 (function_error label name ResultNotFinite) n else Inr (float_of n))"
  proof (cases "t = KFloat")
    case True
    have "ensures (\<lambda>x. has_kind (PFloat x) KFloat) (round_f32 (function_error label name ResultNotFinite) n)"
      using assms(1) by (intro round_f32_ensures) (auto split: number.splits)
    with True show ?thesis by (auto elim!: ensures_mono simp: result_like_def)
  next
    case False
    with wf \<open>is_float_kind t\<close> show ?thesis by (simp add: result_like_def)
  qed
  then have "ensures well_typed (rbind (if t = KFloat then round_f32 (function_error label name ResultNotFinite) n
      else Inr (float_of n)) (\<lambda>result. function_numeric_result name (PFloat result) t label))"
    by (rule ensures_rbind) (rule result_ensures)
  with True show ?thesis by (simp add: cast_number_def)
next
  case False
  then have int: "is_integer_kind t" using assms(2) by (simp add: is_numeric_kind_def)
  have r: "ensures well_typed (function_numeric_result name (PInt i) t label)"
    if "fst (integer_range t) \<le> i" "i \<le> snd (integer_range t)" for i
    using int that by (intro result_ensures result_like_int)
  have b: "ensures well_typed (function_numeric_result name (PInt (integer_from_bits i t)) t label)" for i
    by (intro result_ensures has_kind_result_like integer_from_bits_kind int)
  show ?thesis using False r b by (auto simp: cast_number_def Let_def split: prod.splits)
qed

lemma scalar_cast_ensures:
  assumes "\<forall>a\<in>set args. well_typed a"
  shows "ensures well_typed (evaluate_scalar_cast name t args label)"
proof (cases "\<exists>v. args = [v]")
  case True
  then obtain v where args: "args = [v]" by blast
  have w: "well_typed v" using assms args by simp
  consider "t = KString" | "t = KBool" | "is_numeric_kind t" "t \<noteq> KString" "t \<noteq> KBool"
    by (cases t) (auto simp: is_numeric_kind_def)
  then show ?thesis
  proof cases
    case 1
    have "ensures well_typed (rbind (cast_string_value v label) (\<lambda>s. Inr (StringV s)))"
      by (rule ensures_rbind [OF cast_string_ensures [OF w]]) simp
    with 1 show ?thesis by (simp add: evaluate_scalar_cast_def args)
  next
    case 2
    have "ensures well_typed (rbind (typed_numeric_kind v label) (\<lambda>source_kind.
        rbind (convert_numeric_value (number_of v) source_kind source_kind label) (\<lambda>normalized.
          Inr (BoolV (\<not> number_is_zero normalized)))))"
      by (rule ensures_rbind [OF typed_numeric_kind_ensures [OF w]], rule ensures_rbind [OF convert_ensures])
        (auto intro: read_kind_numeric)
    then show ?thesis by (cases v) (simp_all add: evaluate_scalar_cast_def args 2)
  next
    case 3
    have core: "ensures well_typed (rbind (convert_numeric_value n s s label) (\<lambda>m. cast_number name t s m label))"
      if "read_kind n s" for n s
      by (rule ensures_rbind [OF convert_ensures [OF that read_kind_numeric [OF that]]])
        (rule cast_number_ensures, assumption, rule 3(1))
    have num: "ensures well_typed (rbind (rbind (typed_numeric_kind v label) (\<lambda>k. Inr (k, number_of v)))
        (\<lambda>(s, n). rbind (convert_numeric_value n s s label) (\<lambda>m. cast_number name t s m label)))"
      unfolding rbind_assoc by (rule ensures_rbind [OF typed_numeric_kind_ensures [OF w]]) (simp add: core)
    have bool: "ensures well_typed (rbind (convert_numeric_value (PInt (if b then 1 else 0)) KInt32 KInt32 label)
        (\<lambda>m. cast_number name t KInt32 m label))" for b
      by (rule core) simp
    show ?thesis using num bool 3(2,3)
      by (cases v) (simp_all add: evaluate_scalar_cast_def args cast_number_def)
  qed
next
  case False
  then show ?thesis by (auto simp: evaluate_scalar_cast_def split: list.splits)
qed

end
