(* ===== verification/ExprSound.thy ===== *)
theory ExprSound
  imports ExprTotal
begin

text \<open>
  Whole expressions. The parser is total: its loops never run out of rounds, no exception of Python
  escapes, and what it returns is well typed, for every resolver that keeps the law of the locale
  \<open>name_resolver\<close>. Of the Unicode tables only \<open>sane_unicode\<close> is used, that a numeral denotes no
  negative number.
\<close>

section \<open>Dispatch\<close>

lemma substr_ensures:
  assumes "well_typed a" "well_typed b"
    and "\<And>x y. ensures well_typed (f (PyNum x) (PyNum y))"
  shows "ensures well_typed (rbind (coerce_expression_value KUInt32 a label) (\<lambda>x.
     rbind (coerce_expression_value KUInt32 b label) (\<lambda>y. f x y)))"
proof (rule ensures_rbind [OF coerce_expression_ensures [OF assms(1)]],
    rule ensures_rbind [OF coerce_expression_ensures [OF assms(2)]])
  fix x y assume "value_of_kind KUInt32 x" "value_of_kind KUInt32 y"
  then show "ensures well_typed (f x y)" using assms(3) by (cases x; cases y) simp_all
qed

lemma zero_value_ensures: "is_numeric_kind k \<Longrightarrow> ensures well_typed (numeric_value (zero_of k) (Some k))"
  by (intro numeric_value_wt zero_result_like)

lemma float_zero_value: "is_float_kind k \<Longrightarrow> ensures well_typed (numeric_value (PFloat (float_zero False)) (Some k))"
  by (rule numeric_value_wt) (simp add: result_like_def)

lemma one_argument_ensures:
  assumes "\<forall>a\<in>set args. well_typed a" and "\<And>n k. has_kind n k \<Longrightarrow> ensures well_typed (f n k)"
    and "e \<noteq> OutOfFuel" "e \<noteq> Uncaught"
  shows "ensures well_typed (case args of
     [a] \<Rightarrow> rbind (function_numeric_argument name a label) (\<lambda>(n, k). f n k) | _ \<Rightarrow> Inl e)"
proof (cases "\<exists>a. args = [a]")
  case True
  then obtain a where args: "args = [a]" by blast
  then have w: "well_typed a" using assms(1) by simp
  show ?thesis unfolding args list.case
    by (rule ensures_rbind [OF argument_ensures [OF w]]) (use assms(2) in auto)
next
  case False
  then show ?thesis using assms(3,4) by (auto split: list.splits)
qed

lemma len_ensures: "0 \<le> i \<Longrightarrow> ensures well_typed (numeric_value (PInt i) (Some KUInt32))"
  by (simp add: numeric_value_def)

lemma ensures_if:
  "(b \<Longrightarrow> ensures P x) \<Longrightarrow> (\<not> b \<Longrightarrow> ensures P y) \<Longrightarrow> ensures P (if b then x else y)"
  by simp

lemma substr_arguments_ensures:
  assumes "\<forall>a\<in>set args. well_typed a"
    and "\<And>s x y. ensures well_typed (f s (PyNum x) (PyNum y))"
  shows "ensures well_typed (case args of
        [StringV s, a, b] \<Rightarrow> rbind (coerce_expression_value KUInt32 a label) (\<lambda>x.
          rbind (coerce_expression_value KUInt32 b label) (\<lambda>y. f s x y))
      | _ \<Rightarrow> Inl (function_error label n WrongArguments))"
proof (cases "\<exists>s a b. args = [StringV s, a, b]")
  case True
  then obtain s a b where args: "args = [StringV s, a, b]" by blast
  then have "well_typed a" "well_typed b" using assms(1) by simp_all
  then show ?thesis unfolding args list.case typed_value.case
    by (rule substr_ensures) (rule assms(2))
qed (auto split: list.split typed_value.split)

lemma function_type_ensures:
  assumes "\<forall>a\<in>set args. well_typed a"
  shows "ensures well_typed (evaluate_function_type name args label)"
proof (cases "map_of SCALAR_CAST_KINDS name")
  case (Some t)
  have "ensures well_typed (rbind (evaluate_scalar_cast name t args label) type_only_value)"
    by (rule ensures_rbind [OF scalar_cast_ensures [OF assms]]) (rule type_only_ensures)
  with Some show ?thesis by (simp add: evaluate_function_type_def)
next
  case None
  have sub: "ensures well_typed (case args of
        [StringV _, a, b] \<Rightarrow> rbind (coerce_expression_value KUInt32 a label) (\<lambda>_.
          rbind (coerce_expression_value KUInt32 b label) (\<lambda>_. Inr (StringV [])))
      | _ \<Rightarrow> Inl (function_error label n WrongArguments))" for n
    by (rule substr_arguments_ensures [OF assms]) simp
  have args2: "ensures well_typed (rbind (rmap (\<lambda>arg. function_numeric_argument n arg label) args) f)"
    if "\<And>vs. length vs = length args \<and> (\<forall>v\<in>set vs. case v of (n, k) \<Rightarrow> has_kind n k) \<Longrightarrow> ensures well_typed (f vs)" for n f
    by (rule ensures_rbind [OF arguments_ensures [OF assms]]) (rule that)
  have pow: "ensures well_typed (rbind (rmap (\<lambda>arg. function_numeric_argument n arg label) args) (\<lambda>_.
      numeric_value (PFloat (float_zero False)) (Some KDouble)))" for n
    by (rule args2) (rule float_zero_value, simp)
  have minmax: "ensures well_typed (rbind (rmap (\<lambda>arg. function_numeric_argument n arg label) args) (\<lambda>vs.
      let result_kind = common_numeric_kind (map snd vs) in numeric_value (zero_of result_kind) (Some result_kind)))"
    if "\<not> length args < 2" for n
  proof (rule args2)
    fix vs :: "(number \<times> kind) list"
    assume vs: "length vs = length args \<and> (\<forall>v\<in>set vs. case v of (n, k) \<Rightarrow> has_kind n k)"
    with that have "vs \<noteq> []" by auto
    with vs have "is_numeric_kind (common_numeric_kind (map snd vs))" by (intro common_of_pairs) simp_all
    then show "ensures well_typed (let result_kind = common_numeric_kind (map snd vs) in
        numeric_value (zero_of result_kind) (Some result_kind))" unfolding Let_def by (rule zero_value_ensures)
  qed
  have abs: "ensures well_typed (case args of
      [a] \<Rightarrow> rbind (function_numeric_argument n a label) (\<lambda>(_, k). numeric_value (zero_of k) (Some k))
    | _ \<Rightarrow> Inl (function_error label n WrongArguments))" for n
    by (rule one_argument_ensures [OF assms]) (auto intro: zero_value_ensures has_kind_numeric)
  have real: "ensures well_typed (case args of
      [a] \<Rightarrow> rbind (function_numeric_argument n a label) (\<lambda>(_, k).
        numeric_value (PFloat (float_zero False)) (Some (real_result_kind k)))
    | _ \<Rightarrow> Inl (function_error label n WrongArguments))" for n
    by (rule one_argument_ensures [OF assms]) (auto intro: float_zero_value)
  have len: "ensures well_typed (case args of [StringV _] \<Rightarrow> numeric_value (PInt 0) (Some KUInt32)
      | _ \<Rightarrow> Inl (function_error label n WrongArguments))" for n
    by (auto split: list.split typed_value.split intro: len_ensures)
  have starts: "ensures well_typed (case args of [StringV _, StringV _] \<Rightarrow> Inr (BoolV False)
      | _ \<Rightarrow> Inl (function_error label n WrongArguments))" for n
    by (auto split: list.split typed_value.split)
  have err: "ensures well_typed (Inl (function_error label n i))" for n i by simp
  show ?thesis unfolding evaluate_function_type_def None option.case
    by (intro ensures_if sub pow minmax abs real len starts err)
qed

lemma function_ensures:
  assumes "\<forall>a\<in>set args. well_typed a"
  shows "ensures well_typed (evaluate_function ctx name args label evaluate)"
proof (cases "evaluate")
  case False
  then show ?thesis using function_type_ensures [OF assms] by (simp add: evaluate_function_def)
next
  case ev: True
  show ?thesis
  proof (cases "map_of SCALAR_CAST_KINDS name")
    case (Some t)
    with ev scalar_cast_ensures [OF assms] show ?thesis by (simp add: evaluate_function_def)
  next
    case None
    have sub: "ensures well_typed (case args of
        [StringV s, a, b] \<Rightarrow> rbind (coerce_expression_value KUInt32 a label) (\<lambda>start.
          rbind (coerce_expression_value KUInt32 b label) (\<lambda>count_of.
            (case (start, count_of) of
               (PyNum i, PyNum n) \<Rightarrow>
                 Inr (StringV (concat (take (nat (int_of n)) (drop (nat (int_of i)) (utf8_chars s)))))
             | _ \<Rightarrow> Inl Uncaught)))
      | _ \<Rightarrow> Inl (function_error label n WrongArguments))" for n
      by (rule substr_arguments_ensures [OF assms]) simp
    have real: "ensures well_typed (case args of
        [a] \<Rightarrow> rbind (function_numeric_argument n a label) (\<lambda>(v, k). evaluate_real_function ctx n v k label)
      | _ \<Rightarrow> Inl (function_error label n WrongArguments))" for n
      by (rule one_argument_ensures [OF assms]) (auto intro: real_function_ensures)
    have rounding: "ensures well_typed (case args of
        [a] \<Rightarrow> rbind (function_numeric_argument n a label) (\<lambda>(v, k). evaluate_rounding_function n v k label)
      | _ \<Rightarrow> Inl (function_error label n WrongArguments))" for n
      by (rule one_argument_ensures [OF assms]) (auto intro: rounding_function_ensures)
    have len: "ensures well_typed (case args of
        [StringV s] \<Rightarrow> numeric_value (PInt (int (length (utf8_chars s)))) (Some KUInt32)
      | _ \<Rightarrow> Inl (function_error label n WrongArguments))" for n
      by (auto split: list.split typed_value.split intro: len_ensures)
    have starts: "ensures well_typed (case args of [StringV s, StringV p] \<Rightarrow> Inr (BoolV (startswith s p))
        | _ \<Rightarrow> Inl (function_error label n WrongArguments))" for n
      by (auto split: list.split typed_value.split)
    have err: "ensures well_typed (Inl (function_error label n i))" for n i by simp
    show ?thesis unfolding evaluate_function_def None option.case if_P [OF ev] if_not_P [of "\<not> evaluate"]
      by (rule ensures_if, use ev in simp)
        (intro ensures_if sub real rounding len starts err pow_function_ensures [OF assms] abs_ensures [OF assms]
          min_max_ensures [OF assms])
  qed
qed

section \<open>Literals\<close>

definition sane_unicode :: "unicode_data \<Rightarrow> bool" where
  "sane_unicode u \<longleftrightarrow> (\<forall>t. case unumber u t of
     None \<Rightarrow> True | Some (PInt i) \<Rightarrow> 0 \<le> i | Some (PFloat x) \<Rightarrow> wf_float x)"

lemma digit_value_nonneg: "0 \<le> digit_value c"
proof -
  have "48 \<le> byte_of c" if "is_digit_ascii c" using that
    by (simp add: is_digit_ascii_def less_eq_char_def byte_of_def)
  moreover have "97 \<le> byte_of c" if "is_lower_ascii c" using that
    by (simp add: is_lower_ascii_def less_eq_char_def byte_of_def)
  moreover have "65 \<le> byte_of c" if "is_upper_ascii c" using that
    by (simp add: is_upper_ascii_def less_eq_char_def byte_of_def)
  ultimately show ?thesis unfolding digit_value_def by (simp only: split: if_split) linarith
qed

lemma digits_value_nonneg: "0 \<le> b \<Longrightarrow> 0 \<le> digits_value b s"
proof -
  assume "0 \<le> b"
  have "0 \<le> a \<Longrightarrow> 0 \<le> foldl (\<lambda>a c. b * a + digit_value c) a s" for a
    by (induction s arbitrary: a) (auto simp: \<open>0 \<le> b\<close> digit_value_nonneg)
  then show ?thesis by (simp add: digits_value_def)
qed

lemma decimal_float_wf: "wf_float (decimal_float w f e)"
  by (auto simp: decimal_float_def Let_def digits_value_nonneg intro!: round_float_wf)

lemma parse_number_ensures:
  assumes "sane_unicode u"
  shows "ensures (\<lambda>n. case n of PInt i \<Rightarrow> 0 \<le> i | PFloat x \<Rightarrow> is_finite x \<and> wf_float x) (parse_number_token u t label)"
proof -
  have if_some: "pred_option P a \<Longrightarrow> pred_option P b \<Longrightarrow> pred_option P (if c then a else b)"
    for P and a b :: "'x option" and c by simp
  have f: "wf_float x" if "float_of_text t = Some x" for x
  proof -
    have "pred_option wf_float (float_of_text t)" unfolding float_of_text_def Let_def
      by (intro if_some option.pred_inject(2) [THEN iffD2] decimal_float_wf option.pred_inject(1))
    with that show ?thesis by simp
  qed
  have i: "0 \<le> i" if "int_of_text t = Some i" for i
    using that by (auto simp: int_of_text_def digits_value_nonneg split: if_splits)
  have n: "case n of PInt i \<Rightarrow> 0 \<le> i | PFloat x \<Rightarrow> wf_float x" if "unumber u t = Some n" for n
    using assms [unfolded sane_unicode_def, THEN spec, of t] that by simp
  have p: "case n of PInt i \<Rightarrow> 0 \<le> i | PFloat x \<Rightarrow> wf_float x"
    if "(if list_ex (\<lambda>c. byte_of c \<ge> 128) t then unumber u t
         else if number_token_is_floating t then map_option PFloat (float_of_text t)
         else map_option PInt (int_of_text t)) = Some n" for n
  proof (cases "list_ex (\<lambda>c. byte_of c \<ge> 128) t")
    case True
    with that n show ?thesis by simp
  next
    case False
    then show ?thesis using that f i by (cases "number_token_is_floating t") auto
  qed
  define parsed where "parsed = (if list_ex (\<lambda>c. byte_of c \<ge> 128) t then unumber u t
         else if number_token_is_floating t then map_option PFloat (float_of_text t)
         else map_option PInt (int_of_text t))"
  show ?thesis
  proof (cases parsed)
    case (Some n)
    have "case n of PInt i \<Rightarrow> 0 \<le> i | PFloat x \<Rightarrow> wf_float x" using Some unfolding parsed_def by (rule p)
    then show ?thesis unfolding parse_number_token_def Let_def parsed_def [symmetric] Some
      by (cases n) simp_all
  qed (simp add: parse_number_token_def Let_def parsed_def [symmetric])
qed

lemma number_literal_ensures:
  assumes "sane_unicode u"
  shows "ensures well_typed (number_literal u t label)"
  unfolding number_literal_def
proof (rule ensures_rbind [OF parse_number_ensures [OF assms]])
  fix n assume n: "case n of PInt i \<Rightarrow> 0 \<le> i | PFloat x \<Rightarrow> is_finite x \<and> wf_float x"
  show "ensures well_typed
      (let numeric_kind = case n of PInt i \<Rightarrow> literal_integer_kind i (starts_hex t) | PFloat _ \<Rightarrow> Some KDouble in
       if numeric_kind = None then Inl (Labelled label (ParseIssue (LiteralOutsideRange t)))
       else numeric_value n numeric_kind)"
  proof (cases n)
    case (PInt i)
    have rl: "result_like (PInt i) k" if "literal_integer_kind i h = Some k" for k h
      using that n PInt by (auto simp: literal_integer_kind_def result_like_def split: if_splits)
    show ?thesis
    proof (cases "literal_integer_kind i (starts_hex t)")
      case (Some k)
      show ?thesis using numeric_value_wt [OF rl [OF Some]] by (simp add: PInt Some)
    qed (simp add: PInt)
  next
    case (PFloat x)
    with n show ?thesis by (auto simp: result_like_def intro: numeric_value_wt)
  qed
qed

lemma parse_string_ensures: "ensures (\<lambda>_. True) (parse_string_token u t label)"
  by (auto simp: parse_string_token_def split: option.split intro!: ensures_rbind [OF validate_utf8_ensures])

lemma if_evaluated_ensures: "well_typed v \<Longrightarrow> ensures well_typed (if_evaluated e v)"
  by (simp add: if_evaluated_def type_only_ensures)

lemma tokenize_ensures: "ensures (\<lambda>_. True) (tokenize u label t)"
proof -
  have number: "ensures (\<lambda>_. True) (scan_number u label cs)" for u label cs
    by (simp add: scan_number_def Let_def)
  have next_ok: "ensures (\<lambda>_. True) (next_token u label cs)" for u label cs
    unfolding next_token_def Let_def
    by (intro ensures_if ensures_rbind [OF number]) (auto split: option.split)
  have "ensures (\<lambda>_. True) (tokenize_chars u label cs)" for cs
  proof (induction u label cs rule: tokenize_chars.induct)
    case (1 u label cs)
    show ?case
    proof (cases "next_token u label cs")
      case (Inl e)
      with next_ok [of u label cs] show ?thesis by (subst tokenize_chars.simps) auto
    next
      case (Inr p)
      obtain t rest where p: "p = (t, rest)" by (cases p)
      show ?thesis
      proof (cases "cs = []")
        case False
        have "ensures (\<lambda>_. True) (tokenize_chars u label rest)" using 1 [OF False Inr p [symmetric]] by simp
        with False Inr p show ?thesis
          by (subst tokenize_chars.simps) (auto intro: ensures_rbind)
      qed (simp add: tokenize_chars.simps)
    qed
  qed
  then show ?thesis by (simp add: tokenize_def)
qed

section \<open>Levels\<close>

definition consumes :: "('s \<Rightarrow> bool) \<Rightarrow> 's parser \<Rightarrow> bool" where
  \<comment> \<open>a parser that takes at least one token and returns a well-typed value\<close>
  "consumes ok p \<longleftrightarrow> (\<forall>ev ts s. ok s \<longrightarrow>
     ensures (\<lambda>(v, ts', t). well_typed v \<and> ok t \<and> length ts' < length ts) (p ev ts s))"

definition good_select :: "selector \<Rightarrow> bool" where
  "good_select sel \<longleftrightarrow> (\<forall>op v ev r. well_typed v \<longrightarrow> sel op v ev = Some r \<longrightarrow>
     op \<noteq> ''EOF'' \<and> ensures (\<lambda>(e, combine). \<forall>rhs. well_typed rhs \<longrightarrow> ensures well_typed (combine rhs)) r)"

lemma consumesD:
  "consumes ok p \<Longrightarrow> ok s \<Longrightarrow>
     ensures (\<lambda>(v, ts', t). well_typed v \<and> ok t \<and> length ts' < length ts) (p ev ts s)"
  by (simp add: consumes_def)

lemma peek_some: "snd (peek ts) \<noteq> ''EOF'' \<Longrightarrow> length (tl ts) < length ts"
  by (cases ts) (simp_all add: peek_def)

lemma matches_some: "matches x ts \<Longrightarrow> x \<noteq> ''EOF'' \<Longrightarrow> length (tl ts) < length ts"
  by (rule peek_some) (simp add: matches_def)

lemma good_selectI:
  assumes "\<And>op v ev r. well_typed v \<Longrightarrow> sel op v ev = Some r \<Longrightarrow> op \<noteq> ''EOF''"
    and "\<And>op v ev r. well_typed v \<Longrightarrow> sel op v ev = Some r \<Longrightarrow>
       ensures (\<lambda>(e, combine). \<forall>rhs. well_typed rhs \<longrightarrow> ensures well_typed (combine rhs)) r"
  shows "good_select sel"
  using assms unfolding good_select_def by blast

lemma bool_result_ensures: "ensures (\<lambda>_. True) r \<Longrightarrow> ensures well_typed (bool_result f r)"
  unfolding bool_result_def by (erule ensures_rbind) simp

lemma or_select_good: "good_select (or_select label)"
proof (rule good_selectI)
  fix op v ev r
  assume v: "well_typed v" and r: "or_select label op v ev = Some r"
  show "op \<noteq> ''EOF''" using r by (auto simp: or_select_def)
  have r': "r = rbind (expect_bool v label) (\<lambda>lhs_bool.
           Inr (ev \<and> \<not> lhs_bool, \<lambda>rhs. rbind (expect_bool rhs label) (\<lambda>rhs_bool.
               Inr (BoolV (if \<not> ev then False else lhs_bool \<or> rhs_bool)))))"
    using r by (simp add: or_select_def split: if_splits)
  show "ensures (\<lambda>(e, combine). \<forall>rhs. well_typed rhs \<longrightarrow> ensures well_typed (combine rhs)) r"
    unfolding r' by (rule ensures_rbind [OF expect_bool_ensures [OF v]])
      (auto intro: ensures_rbind [OF expect_bool_ensures])
qed

lemma and_select_good: "good_select (and_select label)"
proof (rule good_selectI)
  fix op v ev r
  assume v: "well_typed v" and r: "and_select label op v ev = Some r"
  show "op \<noteq> ''EOF''" using r by (auto simp: and_select_def)
  have r': "r = rbind (expect_bool v label) (\<lambda>lhs_bool.
           Inr (ev \<and> lhs_bool, \<lambda>rhs. rbind (expect_bool rhs label) (\<lambda>rhs_bool.
               Inr (BoolV (if \<not> ev then False else lhs_bool \<and> rhs_bool)))))"
    using r by (simp add: and_select_def split: if_splits)
  show "ensures (\<lambda>(e, combine). \<forall>rhs. well_typed rhs \<longrightarrow> ensures well_typed (combine rhs)) r"
    unfolding r' by (rule ensures_rbind [OF expect_bool_ensures [OF v]])
      (auto intro: ensures_rbind [OF expect_bool_ensures])
qed

lemma plain_select_good:
  assumes "\<And>op v ev r. well_typed v \<Longrightarrow> sel op v ev = Some r \<Longrightarrow> op \<noteq> ''EOF'' \<and>
     (\<exists>combine. r = Inr (ev, combine) \<and> (\<forall>rhs. well_typed rhs \<longrightarrow> ensures well_typed (combine rhs)))"
  shows "good_select sel"
  unfolding good_select_def using assms by fastforce

lemma bitwise_select_good:
  "good_select (bitwise_or_select label)" "good_select (bitwise_xor_select label)"
  "good_select (bitwise_and_select label)"
  by (rule plain_select_good, auto simp: bitwise_or_select_def bitwise_xor_select_def bitwise_and_select_def
      intro: bitwise_binary_ensures split: if_splits)+

lemma equality_select_good: "good_select (equality_select label)"
  by (rule plain_select_good) (auto simp: equality_select_def
      intro!: bool_result_ensures compare_equal_ensures split: if_splits)

lemma compare_select_good: "good_select (compare_select label)"
  by (rule plain_select_good) (auto simp: compare_select_def
      intro!: bool_result_ensures numeric_compare_ensures split: if_splits)

lemma shift_select_good: "good_select (shift_select label)"
  by (rule plain_select_good) (auto simp: shift_select_def intro!: shift_ensures split: if_splits)

lemma add_select_good: "good_select (add_select label)"
  by (rule plain_select_good) (auto simp: add_select_def
      intro!: add_values_ensures numeric_binary_ensures lift_number_closed float_sub_wf split: if_splits)

lemma mul_select_good: "good_select (mul_select label)"
  by (rule plain_select_good) (auto simp: mul_select_def
      intro!: numeric_binary_ensures lift_number_closed float_mul_wf divide_ensures modulo_ensures split: if_splits)

lemma binary_loop_ensures:
  assumes next_ok: "consumes ok next_level" and sel: "good_select sel"
  shows "length ts < fuel \<Longrightarrow> well_typed v \<Longrightarrow> ok s \<Longrightarrow>
     ensures (\<lambda>(v, ts', t). well_typed v \<and> ok t \<and> length ts' \<le> length ts)
       (binary_loop next_level sel fuel v ev ts s)"
proof (induction fuel arbitrary: v ts s)
  case (Suc n)
  show ?case
  proof (cases "sel (snd (peek ts)) v ev")
    case (Some r)
    note good = sel [unfolded good_select_def, rule_format, OF Suc.prems(2) Some]
    have shorter: "length (tl ts) < length ts" using good by (intro peek_some) simp
    have "ensures (\<lambda>(v, ts', t). well_typed v \<and> ok t \<and> length ts' \<le> length ts)
       (rbind r (\<lambda>(evaluate_rhs, combine).
          rbind (next_level evaluate_rhs (tl ts) s) (\<lambda>(rhs, ts, s).
          rbind (combine rhs) (\<lambda>v. binary_loop next_level sel n v ev ts s))))"
    proof (rule ensures_rbind [OF conjunct2 [OF good]], clarify)
      fix e combine
      assume comb: "\<forall>rhs. well_typed rhs \<longrightarrow> ensures well_typed (combine rhs)"
      show "ensures (\<lambda>(v, ts', t). well_typed v \<and> ok t \<and> length ts' \<le> length ts)
          (rbind (next_level e (tl ts) s) (\<lambda>(rhs, ts, s).
          rbind (combine rhs) (\<lambda>v. binary_loop next_level sel n v ev ts s)))"
      proof (rule ensures_rbind [OF consumesD [OF next_ok Suc.prems(3)]], clarify)
        fix rhs t and ts' :: "token list"
        assume t: "well_typed rhs" "ok t" "length ts' < length (tl ts)"
        show "ensures (\<lambda>(v, ts', t). well_typed v \<and> ok t \<and> length ts' \<le> length ts)
            (rbind (combine rhs) (\<lambda>v. binary_loop next_level sel n v ev ts' t))"
        proof (rule ensures_rbind [OF comb [rule_format, OF t(1)]])
          fix w assume "well_typed w"
          moreover have "length ts' < n" using t(3) shorter Suc.prems(1) by linarith
          ultimately show "ensures (\<lambda>(v, ts', t). well_typed v \<and> ok t \<and> length ts' \<le> length ts)
              (binary_loop next_level sel n w ev ts' t)"
            using t shorter by (intro ensures_mono [OF Suc.IH]) auto
        qed
      qed
    qed
    with Some show ?thesis by simp
  qed (use Suc.prems in simp)
qed simp

lemma parse_level_consumes:
  assumes "consumes ok next_level" "good_select sel"
  shows "consumes ok (parse_level next_level sel)"
  unfolding consumes_def parse_level_def
proof (intro allI impI, rule ensures_rbind [OF consumesD [OF assms(1)]], assumption, clarify)
  fix ev and ts ts' :: "token list" and s v t
  assume "well_typed v" "ok t" "length ts' < length ts"
  then show "ensures (\<lambda>(v, ts', t). well_typed v \<and> ok t \<and> length ts' < length ts)
      (binary_loop next_level sel (Suc (length ts')) v ev ts' t)"
    by (intro ensures_mono [OF binary_loop_ensures [OF assms]]) auto
qed

lemma parse_or_consumes: "consumes ok unary \<Longrightarrow> consumes ok (parse_or env unary)"
  unfolding parse_or_def parse_and_def parse_bitwise_or_def parse_bitwise_xor_def parse_bitwise_and_def
    parse_equality_def parse_compare_def parse_shift_def parse_add_def parse_mul_def
  by (intro parse_level_consumes or_select_good and_select_good bitwise_select_good equality_select_good
      compare_select_good shift_select_good add_select_good mul_select_good)

section \<open>Primary and unary expressions\<close>

lemma parse_args_ensures:
  assumes nested: "consumes ok nested_or"
  shows "length ts < fuel \<Longrightarrow> ok s \<Longrightarrow>
     ensures (\<lambda>(args, ts', t). (\<forall>a\<in>set args. well_typed a) \<and> ok t \<and> length ts' < length ts)
       (parse_args label nested_or fuel ev ts s)"
proof (induction fuel arbitrary: ts s)
  case (Suc n)
  show ?case unfolding parse_args.simps
  proof (rule ensures_rbind [OF consumesD [OF nested Suc.prems(2)]], clarify)
    fix v t and ts' :: "token list"
    assume t: "well_typed v" "ok t" "length ts' < length ts"
    show "ensures (\<lambda>(args, ts', t). (\<forall>a\<in>set args. well_typed a) \<and> ok t \<and> length ts' < length ts)
       (if matches '')'' ts' then Inr ([v], tl ts', t)
        else rbind (expect_token label '','' ts') (\<lambda>ts.
         rbind (parse_args label nested_or n ev ts t) (\<lambda>(args, ts, s). Inr (v # args, ts, s))))"
    proof (cases "matches '','' ts'")
      case True
      then have "length (tl ts') < length ts'" by (rule matches_some) simp
      then have "length (tl ts') < n" "length (tl ts') < length ts" using t(3) Suc.prems(1) by linarith+
      then have "ensures (\<lambda>(args, ts', t). (\<forall>a\<in>set args. well_typed a) \<and> ok t \<and> length ts' < length ts)
          (rbind (parse_args label nested_or n ev (tl ts') t) (\<lambda>(args, ts, s). Inr (v # args, ts, s)))"
        using t by (intro ensures_rbind [OF Suc.IH]) auto
      moreover have "length ts' - Suc 0 < length ts" using t(3) by linarith
      ultimately show ?thesis using True t by (simp add: expect_token_def)
    qed (use t in \<open>auto simp: expect_token_def\<close>)
  qed
qed simp

locale name_resolver =
  fixes env :: "'s parser_env" and ok :: "'s \<Rightarrow> bool"
  assumes resolve_ok: "ok s \<Longrightarrow> ensures (\<lambda>(v, t). well_typed v \<and> ok t) (presolve env n s)"
    and unicode_ok: "ok s \<Longrightarrow> sane_unicode (punicode env)"
begin

lemma value_ensures:
  assumes "ensures well_typed r" "ok s" "length ts' < length ts"
  shows "ensures (\<lambda>(v, ts', t). well_typed v \<and> ok t \<and> length ts' < length ts)
     (rbind r (\<lambda>v. Inr (v, ts', s)))"
  using assms(2,3) by (intro ensures_rbind [OF assms(1)]) simp

lemma atom_ensures:
  assumes "ensures well_typed r" "ok s" "length ts' < length ts"
  shows "ensures (\<lambda>(v, ts', t). well_typed v \<and> ok t \<and> length ts' < length ts)
     (rbind r (\<lambda>v. rbind (if_evaluated ev v) (\<lambda>v. Inr (v, ts', s))))"
  by (rule ensures_rbind [OF assms(1)]) (intro value_ensures if_evaluated_ensures assms(2,3))

lemma call_ensures:
  assumes "consumes ok nested_or" "ok s" "length ts' < length ts"
  shows "ensures (\<lambda>(v, ts', t). well_typed v \<and> ok t \<and> length ts' < length ts)
     (rbind (if matches '')'' ts' then Inr ([], tl ts', s)
             else parse_args label nested_or (Suc (length ts)) ev ts' s) (\<lambda>(args, ts, s).
        rbind (evaluate_function ctx name args label ev) (\<lambda>v. Inr (v, ts, s))))"
proof (rule ensures_rbind)
  show "ensures (\<lambda>(args, ts', t). (\<forall>a\<in>set args. well_typed a) \<and> ok t \<and> length ts' < length ts)
     (if matches '')'' ts' then Inr ([], tl ts', s) else parse_args label nested_or (Suc (length ts)) ev ts' s)"
    using assms(2,3) by (intro ensures_if ensures_mono [OF parse_args_ensures [OF assms(1)]]) auto
qed (clarify, rule value_ensures, rule function_ensures)

lemma primary_consumes:
  assumes nested: "consumes ok nested_or"
  shows "consumes ok (parse_primary env nested_or)"
  unfolding consumes_def
proof (intro allI impI)
  fix ev and ts :: "token list" and s
  assume s: "ok s"
  let ?P = "\<lambda>(v, ts', t). well_typed v \<and> ok t \<and> length ts' < length ts"
  obtain ty tok where p: "peek ts = (ty, tok)" by (cases "peek ts")
  note unf = parse_primary_def p Let_def prod.case
  have less: "length (tl ts) < length ts" if "ty \<noteq> EOF" using p that by (cases ts) (auto simp: peek_def)
  have paren: "ensures ?P
      (if matches ''('' ts then rbind (nested_or ev (tl ts) s) (\<lambda>(v, ts, s).
            rbind (expect_token (plabel env) '')'' ts) (\<lambda>ts. Inr (v, ts, s)))
       else Inl (Labelled (plabel env) (ParseIssue (UnexpectedToken tok))))"
  proof (rule ensures_if)
    assume "matches ''('' ts"
    then have "length (tl ts) < length ts" by (rule matches_some) simp
    then show "ensures ?P (rbind (nested_or ev (tl ts) s) (\<lambda>(v, ts, s).
            rbind (expect_token (plabel env) '')'' ts) (\<lambda>ts. Inr (v, ts, s))))"
      by (intro ensures_rbind [OF consumesD [OF nested s]]) (auto simp: expect_token_def)
  qed simp
  show "ensures ?P (parse_primary env nested_or ev ts s)"
  proof (cases ty)
    case NUMBER
    then show ?thesis unfolding unf token_type.case
      by (simp only: token_type.case) (intro atom_ensures number_literal_ensures unicode_ok [OF s] s less, simp)
  next
    case STRING
    show ?thesis unfolding unf STRING token_type.case
      by (rule ensures_rbind [OF parse_string_ensures]) (intro value_ensures if_evaluated_ensures s less; simp add: STRING)
  next
    case IDENT
    then have l: "length (tl ts) < length ts" using less by simp
    then have l2: "length (tl (tl ts)) < length ts" by (cases ts) auto
    have ident: "ensures ?P (rbind (presolve env tok s) (\<lambda>(v, s). rbind (if_evaluated ev v) (\<lambda>v. Inr (v, tl ts, s))))"
      by (rule ensures_rbind [OF resolve_ok [OF s]], clarify) (intro value_ensures if_evaluated_ensures l)
    have bool: "ensures ?P (rbind (if_evaluated ev (BoolV True)) (\<lambda>v. Inr (v, tl ts, s)))"
      by (intro value_ensures if_evaluated_ensures s l) simp
    have false: "ensures ?P (Inr (BoolV False, tl ts, s))" using s l by simp
    show ?thesis unfolding unf IDENT token_type.case
      by (intro ensures_if ident bool false call_ensures [OF nested s l2])
  qed (use paren in \<open>simp_all add: unf\<close>)
qed

lemma map_value_ensures:
  assumes "consumes ok p" "ok s" "\<And>v. well_typed v \<Longrightarrow> ensures well_typed (f v)"
    and "matches x ts" "x \<noteq> ''EOF''"
  shows "ensures (\<lambda>(v, ts', t). well_typed v \<and> ok t \<and> length ts' < length ts)
     (map_value f (p ev (tl ts) s))"
proof -
  have "length (tl ts) < length ts" using assms(4,5) by (rule matches_some)
  then show ?thesis unfolding map_value_def
    by (intro ensures_rbind [OF consumesD [OF assms(1,2)]]) (clarify, intro value_ensures assms(3), simp_all)
qed

lemma unary_consumes:
  assumes "consumes ok nested_unary" "consumes ok nested_or"
  shows "consumes ok (parse_unary env nested_unary nested_or)"
  unfolding consumes_def parse_unary_def Let_def
  by (intro allI impI ensures_if map_value_ensures [OF assms(1)] consumesD [OF primary_consumes [OF assms(2)]]
      bool_result_ensures expect_bool_ensures bitwise_complement_ensures number_id_ensures number_neg_ensures)
    (assumption | simp)+

lemma unary_at_consumes: "consumes ok (unary_at env n)"
proof (induction n)
  case 0
  have deep: "consumes ok (too_deep env)" by (simp add: consumes_def too_deep_def)
  have "unary_at env 0 = parse_unary env (too_deep env) (too_deep env)" by (intro ext) simp
  then show ?case using unary_consumes [OF deep deep] by simp
next
  case (Suc n)
  have "unary_at env (Suc n) = parse_unary env (unary_at env n) (parse_or env (unary_at env n))" by (intro ext) simp
  then show ?case using unary_consumes [OF Suc parse_or_consumes [OF Suc]] by simp
qed

lemma evaluate_ensures:
  assumes "ok s"
  shows "ensures (\<lambda>(v, t). well_typed v \<and> ok t) (evaluate_expression env t s)"
  unfolding evaluate_expression_def parse_tokens_def
proof (rule ensures_rbind [OF tokenize_ensures],
    rule ensures_rbind [OF consumesD [OF parse_or_consumes [OF unary_at_consumes] assms]], clarify)
  fix v ts' s' assume "well_typed v" "ok s'"
  then show "ensures (\<lambda>(v, t). well_typed v \<and> ok t)
     (if fst (peek ts') \<noteq> EOF then Inl (Labelled (plabel env) (ParseIssue (UnexpectedToken (snd (peek ts')))))
      else Inr (v, s'))" by simp
qed

end

end
