(* ===== verification/ExprSpec.thy ===== *)
theory ExprSpec
  imports ExprSound "HOL-Library.Signed_Division" "HOL-Library.Word"
begin

text \<open>
  What the operators of constant expressions compute on integers, against machine words: the value
  of a kind is the signed or unsigned reading of a word of its width (\<open>word_value\<close>), operands are
  converted by the usual arithmetic conversions (\<open>conversion_rank\<close>), unsigned arithmetic wraps,
  signed overflow is an error, division truncates. Integers become binary32 by one correct rounding.
\<close>

section \<open>Words\<close>

fun word_value :: "kind \<Rightarrow> int \<Rightarrow> int" where
  "word_value KInt32 i = sint (word_of_int i :: 32 word)"
| "word_value KInt64 i = sint (word_of_int i :: 64 word)"
| "word_value KUInt32 i = uint (word_of_int i :: 32 word)"
| "word_value KUInt64 i = uint (word_of_int i :: 64 word)"
| "word_value _ i = i"

definition kind_bits :: "kind \<Rightarrow> nat" where
  "kind_bits k = fst (INTEGER_KIND_INFO k)"

definition kind_signed :: "kind \<Rightarrow> bool" where
  "kind_signed k = snd (INTEGER_KIND_INFO k)"

lemma kind_info_simps [simp]:
  "kind_bits KInt32 = 32" "kind_bits KUInt32 = 32" "kind_bits KInt64 = 64" "kind_bits KUInt64 = 64"
  "kind_signed KInt32" "\<not> kind_signed KUInt32" "kind_signed KInt64" "\<not> kind_signed KUInt64"
  by (simp_all add: kind_bits_def kind_signed_def)

lemma kind_info: "INTEGER_KIND_INFO k = (kind_bits k, kind_signed k)"
  by (simp add: kind_bits_def kind_signed_def)

lemma kind_bits_pos: "is_integer_kind k \<Longrightarrow> 0 < kind_bits k"
  by (drule integer_kind_cases) auto

lemma word_value_unsigned: "is_integer_kind k \<Longrightarrow> \<not> kind_signed k \<Longrightarrow> word_value k i = i mod 2 ^ kind_bits k"
  by (drule integer_kind_cases) (auto simp: uint_word_of_int)

lemma word_value_signed:
  "is_integer_kind k \<Longrightarrow> kind_signed k \<Longrightarrow> word_value k i = signed_take_bit (kind_bits k - 1) i"
  by (drule integer_kind_cases) (auto simp: signed_of_int)

lemma signed_take_bit_if:
  "signed_take_bit n i = (let v = i mod 2 ^ Suc n in if v \<ge> 2 ^ n then v - 2 ^ Suc n else v)" for i :: int
proof -
  define v where "v = i mod 2 ^ Suc n"
  have v: "0 \<le> v" "v < 2 ^ Suc n" by (simp_all add: v_def)
  have "(i + 2 ^ n) mod 2 ^ Suc n = (v + 2 ^ n) mod 2 ^ Suc n" by (simp add: v_def mod_add_left_eq)
  also have "\<dots> = (if v \<ge> 2 ^ n then v - 2 ^ n else v + 2 ^ n)"
  proof (cases "2 ^ n \<le> v")
    case True
    have "(v + 2 ^ n) mod 2 ^ Suc n = (v + 2 ^ n - 2 ^ Suc n) mod 2 ^ Suc n"
      by (rule minus_mod_self2 [symmetric])
    also have "\<dots> = v + 2 ^ n - 2 ^ Suc n" using True v by (intro mod_pos_pos_trivial) simp_all
    finally show ?thesis using True by simp
  next
    case False
    then show ?thesis using v by (simp add: mod_pos_pos_trivial)
  qed
  finally show ?thesis
    by (simp add: signed_take_bit_eq_take_bit_shift take_bit_eq_mod v_def [symmetric] Let_def del: power_Suc) simp
qed

lemma from_bits_word: "is_integer_kind k \<Longrightarrow> integer_from_bits i k = word_value k i"
proof (cases "kind_signed k")
  case True
  assume k: "is_integer_kind k"
  have "Suc (kind_bits k - 1) = kind_bits k" using kind_bits_pos [OF k] by simp
  with k True show ?thesis
    unfolding integer_from_bits_def kind_info mask_mod
    by (simp add: word_value_signed signed_take_bit_if Let_def del: power_Suc)
qed (simp add: integer_from_bits_def kind_info mask_mod word_value_unsigned)

lemma word_value_take_bit: "is_integer_kind k \<Longrightarrow> word_value k (take_bit (kind_bits k) i) = word_value k i"
  using kind_bits_pos [of k] Suc_pred [of "kind_bits k"]
  by (cases "kind_signed k") (auto simp: word_value_signed word_value_unsigned signed_take_bit_take_bit
      take_bit_eq_mod [symmetric])

lemma word_value_cong:
  "is_integer_kind k \<Longrightarrow> take_bit (kind_bits k) i = take_bit (kind_bits k) j \<Longrightarrow> word_value k i = word_value k j"
  by (metis word_value_take_bit)

lemma word_value_id: "has_kind (PInt i) k \<Longrightarrow> word_value k i = i"
  by (auto simp: uint_word_of_int signed_of_int signed_take_bit_eq_take_bit_shift take_bit_eq_mod
      mod_pos_pos_trivial dest!: integer_kind_cases)

lemma word_value_kind: "is_integer_kind k \<Longrightarrow> has_kind (PInt (word_value k i)) k"
  using integer_from_bits_kind [of k i] by (simp add: from_bits_word)

lemma mask_word: "i AND (2 ^ n - 1) = take_bit n i" for i :: int
  by (simp add: mask_mod take_bit_eq_mod)

lemma take_bit_word_value: "is_integer_kind k \<Longrightarrow> take_bit (kind_bits k) (word_value k i) = take_bit (kind_bits k) i"
  by (cases "kind_signed k") (simp_all add: word_value_signed word_value_unsigned take_bit_signed_take_bit
      take_bit_eq_mod [symmetric])

section \<open>Operands\<close>

lemma common_signed_range:
  assumes "has_kind (PInt i) a" "is_integer_kind b" "kind_signed (common_integer_kind a b)"
  shows "has_kind (PInt i) (common_integer_kind a b)" and "has_kind (PInt i) (common_integer_kind b a)"
  using assms by (auto dest!: integer_kind_cases simp: common_integer_kind_def integer_kind_def)

lemma common_comm: "is_integer_kind a \<Longrightarrow> is_integer_kind b \<Longrightarrow> common_integer_kind a b = common_integer_kind b a"
  by (auto dest!: integer_kind_cases simp: common_integer_kind_def integer_kind_def)

lemma in_range_iff: "is_integer_kind k \<Longrightarrow>
    (i < fst (integer_range k) \<or> i > snd (integer_range k)) \<longleftrightarrow> \<not> has_kind (PInt i) k"
  by auto

lemma convert_word:
  assumes "has_kind (PInt i) a" "is_integer_kind k" "kind_signed k \<Longrightarrow> has_kind (PInt i) k"
  shows "convert_numeric_value (PInt i) a k label = Inr (PInt (word_value k i))"
proof -
  have a: "is_integer_kind a" using assms(1) by simp
  have first: "take_bit (kind_bits a) i = i" if "\<not> kind_signed a"
    using word_value_id [OF assms(1)] a that by (simp add: word_value_unsigned take_bit_eq_mod)
  have k: "k \<noteq> KDouble" "k \<noteq> KFloat" using assms(2) by auto
  obtain lo hi where r: "integer_range k = (lo, hi)" by (cases "integer_range k")
  obtain lo' hi' where r': "integer_range a = (lo', hi')" by (cases "integer_range a")
  have i: "lo' \<le> i" "i \<le> hi'" using assms(1) r' by simp_all
  have sg: "lo \<le> i \<and> i \<le> hi \<and> word_value k i = i" if "kind_signed k"
    using assms(3) [OF that] word_value_id [of i k] r by simp
  show ?thesis
    using a k i sg first assms(2)
    by (cases "kind_signed k") (simp_all add: convert_numeric_value_def kind_info r r' mask_word word_value_unsigned take_bit_eq_mod)
qed

lemma convert_common:
  assumes "has_kind (PInt i) a" "has_kind (PInt j) b"
  defines "k \<equiv> common_integer_kind a b"
  shows "convert_numeric_value (PInt i) a k label = Inr (PInt (word_value k i))"
    and "convert_numeric_value (PInt j) b k label = Inr (PInt (word_value k j))"
proof -
  have ab: "is_integer_kind a" "is_integer_kind b" using assms(1,2) by simp_all
  then have k: "is_integer_kind k" by (simp add: k_def common_integer_kind_integer)
  show "convert_numeric_value (PInt i) a k label = Inr (PInt (word_value k i))"
    using common_signed_range(1) [OF assms(1) ab(2)] by (intro convert_word assms(1) k) (simp add: k_def)
  show "convert_numeric_value (PInt j) b k label = Inr (PInt (word_value k j))"
    using common_signed_range(2) [OF assms(2) ab(1)] common_comm [OF ab]
    by (intro convert_word assms(2) k) (simp add: k_def)
qed

lemma operands_word:
  assumes "has_kind (PInt i) a" "has_kind (PInt j) b"
  defines "k \<equiv> common_integer_kind a b"
  shows "numeric_operands (NumV (PInt i) (Some a)) (NumV (PInt j) (Some b)) label =
    Inr (PInt (word_value k i), PInt (word_value k j), k)"
proof -
  have ab: "is_integer_kind a" "is_integer_kind b" using assms(1,2) by simp_all
  then have "common_numeric_kind [a, b] = k" by (auto simp: common_numeric_kind_def k_def)
  with ab convert_common [OF assms(1,2)] show ?thesis
    by (simp add: numeric_operands_def expect_numeric_def common_value_numeric_kind_def
        typed_numeric_kind_def is_numeric_kind_def k_def)
qed

lemma integer_value: "is_integer_kind k \<Longrightarrow> numeric_value (PInt i) (Some k) = Inr (NumV (PInt i) (Some k))"
  by (auto simp: numeric_value_def)

lemma bits_word: "has_kind (PInt i) k \<Longrightarrow> integer_bits i k label = Inr (take_bit (kind_bits k) i)"
  by (cases "integer_range k") (auto simp: integer_bits_def kind_info mask_word)

section \<open>Bitwise operators and shifts\<close>

lemma bitwise_word:
  assumes "has_kind (PInt i) a" "has_kind (PInt j) b"
    and f: "\<And>n x y. take_bit n (f x y) = f (take_bit n x) (take_bit n y)"
  defines "k \<equiv> common_integer_kind a b"
  shows "bitwise_binary (NumV (PInt i) (Some a)) (NumV (PInt j) (Some b)) label f =
    Inr (NumV (PInt (word_value k (f i j))) (Some k))"
proof -
  have ab: "is_integer_kind a" "is_integer_kind b" using assms(1,2) by simp_all
  then have k: "is_integer_kind k" by (simp add: k_def common_integer_kind_integer)
  have bits: "integer_bits (word_value k x) k label = Inr (take_bit (kind_bits k) x)" for x
    using bits_word [OF word_value_kind [OF k]] k by (simp add: take_bit_word_value)
  have "word_value k (f (take_bit (kind_bits k) i) (take_bit (kind_bits k) j)) = word_value k (f i j)"
    using k by (intro word_value_cong) (simp_all add: f)
  then show ?thesis using k
    by (simp add: bitwise_binary_def expect_integral_def convert_common [OF assms(1,2), folded k_def] k_def [symmetric]
        Let_def bits kind_info mask_word from_bits_word word_value_take_bit integer_value)
qed

lemma complement_word:
  assumes "has_kind (PInt i) a"
  shows "bitwise_complement (NumV (PInt i) (Some a)) label = Inr (NumV (PInt (word_value a (NOT i))) (Some a))"
proof -
  have a: "is_integer_kind a" using assms by simp
  have "word_value a (NOT (take_bit (kind_bits a) i)) = word_value a (NOT i)"
    using a by (intro word_value_cong) (simp_all add: take_bit_not_take_bit)
  then show ?thesis using a
    by (simp add: bitwise_complement_def expect_integral_def bits_word [OF assms] Let_def kind_info mask_word
        from_bits_word word_value_take_bit integer_value)
qed

text \<open>
  C28: the bitwise operators are those of machine words: the operands, of any two integer kinds, are
  combined in the kind the usual arithmetic conversions choose, and the result is the value of the
  combined word in that kind; the complement keeps the kind of its operand. None of them fails.
\<close>

theorem bitwise_operators_on_words:
  assumes "has_kind (PInt i) a" "has_kind (PInt j) b"
  shows "let lhs = NumV (PInt i) (Some a); rhs = NumV (PInt j) (Some b); k = common_integer_kind a b;
      word = (\<lambda>x. Inr (NumV (PInt (word_value k x)) (Some k))) in
    bitwise_binary lhs rhs label (\<lambda>x y. x OR y) = word (i OR j) \<and>
    bitwise_binary lhs rhs label (\<lambda>x y. x AND y) = word (i AND j) \<and>
    bitwise_binary lhs rhs label (\<lambda>x y. x XOR y) = word (i XOR j) \<and>
    bitwise_complement lhs label = Inr (NumV (PInt (word_value a (NOT i))) (Some a))"
  unfolding Let_def by (intro conjI bitwise_word assms complement_word) simp_all

lemma bitwise_operators_on_words_witness:
  "bitwise_binary (NumV (PInt (-1)) (Some KInt32)) (NumV (PInt 4294901760) (Some KUInt32)) ''c'' (\<lambda>x y. x XOR y)
     = Inr (NumV (PInt 65535) (Some KUInt32))"
proof -
  have "has_kind (PInt (-1)) KInt32" "has_kind (PInt 4294901760) KUInt32" by simp_all
  from bitwise_operators_on_words [OF this, of "''c''"]
  have "bitwise_binary (NumV (PInt (-1)) (Some KInt32)) (NumV (PInt 4294901760) (Some KUInt32)) ''c'' (\<lambda>x y. x XOR y)
     = Inr (NumV (PInt (word_value KUInt32 (-1 XOR 4294901760))) (Some KUInt32))"
    by (simp add: Let_def common_integer_kind_def integer_kind_def)
  then show ?thesis by (simp add: uint_word_of_int)
qed

text \<open>
  C29: shifts are those of machine words: the count, of any integer kind, is refused when it is
  negative or not less than the width of the left operand; a left shift keeps the low bits of the
  word, a right shift is arithmetic for signed and logical for unsigned kinds, that is, division by a
  power of two rounded down. The result has the kind of the left operand, which is not promoted.
\<close>

theorem shifts_on_words:
  assumes "has_kind (PInt i) a" "has_kind (PInt j) b"
  shows "shift_value (NumV (PInt i) (Some a)) (NumV (PInt j) (Some b)) label left =
    (if j < 0 then Inl (value_error label NegativeShift)
     else if j \<ge> int (kind_bits a) then Inl (value_error label (ShiftTooLarge j (kind_bits a)))
     else Inr (NumV (PInt (if left then word_value a (i * 2 ^ nat j) else i div 2 ^ nat j)) (Some a)))"
proof -
  have ab: "is_integer_kind a" "is_integer_kind b" using assms(1,2) by simp_all
  have conv: "convert_numeric_value (PInt i) a a label = Inr (PInt i)"
    "convert_numeric_value (PInt j) b b label = Inr (PInt j)"
    using convert_word [OF assms(1) ab(1) assms(1)] convert_word [OF assms(2) ab(2) assms(2)]
      word_value_id [OF assms(1)] word_value_id [OF assms(2)] by simp_all
  have low: "word_value a (push_bit n (take_bit (kind_bits a) i)) = word_value a (i * 2 ^ n)" for n
    using ab(1) by (intro word_value_cong) (simp_all add: push_bit_eq_mult take_bit_eq_mod mod_mult_left_eq)
  have un: "take_bit (kind_bits a) i = i" if "\<not> kind_signed a"
    using word_value_id [OF assms(1)] ab(1) that by (simp add: word_value_unsigned take_bit_eq_mod)
  show ?thesis using ab un
    by (simp add: shift_value_def expect_integral_def conv Let_def kind_info mask_word from_bits_word low
        integer_value drop_bit_eq_div)
qed

lemma shifts_on_words_witness:
  "shift_value (NumV (PInt 1) (Some KInt32)) (NumV (PInt 31) (Some KInt32)) ''c'' True
     = Inr (NumV (PInt (-2147483648)) (Some KInt32)) \<and>
   shift_value (NumV (PInt (-5)) (Some KInt32)) (NumV (PInt 1) (Some KUInt64)) ''c'' False
     = Inr (NumV (PInt (-3)) (Some KInt32))"
proof -
  have "has_kind (PInt 1) KInt32" "has_kind (PInt 31) KInt32" "has_kind (PInt (-5)) KInt32" "has_kind (PInt 1) KUInt64"
    by simp_all
  from shifts_on_words [OF this(1,2), of "''c''" True] shifts_on_words [OF this(3,4), of "''c''" False]
  show ?thesis by (simp add: signed_of_int signed_take_bit_eq_take_bit_shift take_bit_eq_mod)
qed

section \<open>Arithmetic\<close>

definition integer_result :: "string \<Rightarrow> kind \<Rightarrow> int \<Rightarrow> expr_error + typed_value" where
  \<comment> \<open>the exact result of an operation, at a kind: unsigned wraps, signed overflow is an error\<close>
  "integer_result label k x =
     (if kind_signed k \<and> \<not> has_kind (PInt x) k then Inl (value_error label (ResultOutOfRange x k))
      else Inr (NumV (PInt (word_value k x)) (Some k)))"

lemma normalized_word:
  assumes "is_integer_kind k"
  shows "rbind (normalize_numeric_result (PInt x) k label) (\<lambda>v. numeric_value v (Some k)) = integer_result label k x"
proof -
  obtain lo hi where r: "integer_range k = (lo, hi)" by (cases "integer_range k")
  have "word_value k x = x" if "lo \<le> x" "x \<le> hi"
    using assms that r by (intro word_value_id) simp
  then show ?thesis using assms r
    by (simp add: normalize_numeric_result_def kind_info Let_def mask_word integer_result_def integer_value
        word_value_unsigned take_bit_eq_mod not_le)
qed

text \<open>
  C26: addition, subtraction and multiplication of integers (any \<open>f\<close> of the binary levels) work on
  the operands converted to their common kind: an unsigned result wraps at the width of the kind, a
  signed result is exact or the error that names it.
\<close>

theorem integer_arithmetic_on_words:
  assumes "has_kind (PInt i) a" "has_kind (PInt j) b"
  shows "let k = common_integer_kind a b in
    numeric_binary (NumV (PInt i) (Some a)) (NumV (PInt j) (Some b)) label (lift_number f g) =
      integer_result label k (f (word_value k i) (word_value k j))"
proof -
  have "is_integer_kind (common_integer_kind a b)"
    using assms by (intro common_integer_kind_integer) simp_all
  then show ?thesis
    by (simp add: numeric_binary_def operands_word [OF assms] Let_def lift_number_def normalized_word)
qed

lemma integer_arithmetic_on_words_witness:
  "numeric_binary (NumV (PInt (-1)) (Some KInt32)) (NumV (PInt 2) (Some KUInt32)) ''c'' (lift_number (+) float_add)
     = Inr (NumV (PInt 1) (Some KUInt32)) \<and>
   numeric_binary (NumV (PInt 2147483647) (Some KInt32)) (NumV (PInt 1) (Some KInt32)) ''c'' (lift_number (+) float_add)
     = Inl (value_error ''c'' (ResultOutOfRange 2147483648 KInt32))"
proof -
  have "has_kind (PInt (-1)) KInt32" "has_kind (PInt 2) KUInt32" "has_kind (PInt 2147483647) KInt32"
    "has_kind (PInt 1) KInt32" by simp_all
  from integer_arithmetic_on_words [OF this(1,2), of "''c''" "(+)" float_add]
    integer_arithmetic_on_words [OF this(3,4), of "''c''" "(+)" float_add]
  show ?thesis by (simp add: Let_def common_integer_kind_def integer_kind_def integer_result_def
      signed_of_int signed_take_bit_eq_take_bit_shift take_bit_eq_mod uint_word_of_int)
qed

lemma truncating_sdiv: "truncating_integer_divide i j = i sdiv j"
  by (auto simp: truncating_integer_divide_def signed_divide_int_def Let_def sgn_if)

lemma truncating_smod: "i - truncating_integer_divide i j * j = i smod j"
  by (simp add: truncating_sdiv minus_sdiv_mult_eq_smod)

lemma sdiv_unsigned: "0 \<le> i \<Longrightarrow> 0 \<le> j \<Longrightarrow> i sdiv j = i div j" for i j :: int
  by (simp add: signed_divide_int_def sgn_if)

lemma smod_unsigned: "0 \<le> i \<Longrightarrow> 0 \<le> j \<Longrightarrow> i smod j = i mod j" for i j :: int
  by (simp only: minus_sdiv_mult_eq_smod [symmetric] sdiv_unsigned minus_div_mult_eq_mod)

lemma unsigned_nonneg: "has_kind (PInt i) k \<Longrightarrow> \<not> kind_signed k \<Longrightarrow> 0 \<le> i"
  by (auto dest!: integer_kind_cases)

lemma signed_bounds:
  "is_integer_kind k \<Longrightarrow> kind_signed k \<Longrightarrow> \<exists>m\<ge>2. integer_range k = (- m, m - 1)"
  by (auto dest!: integer_kind_cases)

lemma sdiv_in_range:
  assumes "has_kind (PInt l) k" "has_kind (PInt r) k" "r \<noteq> 0"
    and no: "kind_signed k \<Longrightarrow> \<not> (l = fst (integer_range k) \<and> r = -1)"
  shows "has_kind (PInt (l sdiv r)) k" and "has_kind (PInt (l smod r)) k"
proof -
  have k: "is_integer_kind k" using assms(1) by simp
  show "has_kind (PInt (l sdiv r)) k"
  proof (cases "kind_signed k")
    case True
    then obtain m where m: "m \<ge> 2" "integer_range k = (- m, m - 1)" using signed_bounds [OF k] by blast
    then have l: "- m \<le> l" "l < m" using assms(1) by simp_all
    have "- m \<le> l sdiv r \<and> l sdiv r < m"
    proof (cases "\<bar>r\<bar> = 1")
      case True
      then have "r = 1 \<or> r = -1" by arith
      then show ?thesis using l no m \<open>kind_signed k\<close> by (auto simp: signed_divide_int_def abs_mult_sgn sgn_mult_abs)
    next
      case False
      with assms(3) have "\<bar>l\<bar> div \<bar>r\<bar> \<le> \<bar>l\<bar> div 2" by (intro zdiv_mono2) auto
      moreover have "\<bar>l sdiv r\<bar> \<le> \<bar>l\<bar> div \<bar>r\<bar>"
        by (simp add: signed_divide_int_def abs_mult sgn_if pos_imp_zdiv_nonneg_iff)
      moreover have "\<bar>l\<bar> \<le> m" using l by arith
      ultimately show ?thesis using m(1) by linarith
    qed
    with k m show ?thesis by simp
  next
    case False
    then have "0 \<le> l" "0 \<le> r" using unsigned_nonneg assms(1,2) by blast+
    moreover from this have "0 \<le> l div r" "l div r \<le> l"
      using assms(3) zdiv_mono2 [of l 1 r] by (simp_all add: pos_imp_zdiv_nonneg_iff)
    moreover have "fst (integer_range k) = 0" using False k by (auto dest!: integer_kind_cases)
    ultimately show ?thesis using assms(1) k by (simp add: sdiv_unsigned)
  qed
  have "- \<bar>r\<bar> < l smod r \<and> l smod r < \<bar>r\<bar> \<and> (0 \<le> l \<and> 0 \<le> r \<longrightarrow> 0 \<le> l smod r)"
    using smod_int_range [of r l] assms(3) by (auto simp: smod_unsigned)
  with assms(1,2) k show "has_kind (PInt (l smod r)) k"
    using unsigned_nonneg [OF assms(1)] unsigned_nonneg [OF assms(2)]
    by (auto dest!: integer_kind_cases)
qed

text \<open>
  C27: division and remainder of integers are those of C++: they truncate towards zero in the common
  kind of the operands; a zero divisor is an error, and so is the one quotient that does not fit, the
  least signed value by minus one, for the remainder too. Every other quotient and remainder is in
  the range of the kind, so the code's later range check never fails.
\<close>

theorem integer_division_on_words:
  assumes "has_kind (PInt i) a" "has_kind (PInt j) b"
  shows "let lhs = NumV (PInt i) (Some a); rhs = NumV (PInt j) (Some b); k = common_integer_kind a b;
      l = word_value k i; r = word_value k j;
      overflow = (kind_signed k \<and> l = fst (integer_range k) \<and> r = -1) in
    divide_values True lhs rhs label =
      (if r = 0 then Inl (value_error label DivisionByZero)
       else if overflow then Inl (value_error label (DivisionOutOfRange k))
       else Inr (NumV (PInt (l sdiv r)) (Some k))) \<and>
    modulo_values True lhs rhs label =
      (if r = 0 then Inl (value_error label ModuloByZero)
       else if overflow then Inl (value_error label (DivisionOutOfRange k))
       else Inr (NumV (PInt (l smod r)) (Some k)))"
proof -
  define k where "k = common_integer_kind a b"
  define l where "l = word_value k i"
  define r where "r = word_value k j"
  have k: "is_integer_kind k" using assms unfolding k_def by (intro common_integer_kind_integer) simp_all
  have kinds: "has_kind (PInt l) k" "has_kind (PInt r) k" using k by (simp_all only: l_def r_def word_value_kind)
  have un: "truncating_integer_divide l r = l div r" "l - truncating_integer_divide l r * r = l mod r"
    if "\<not> kind_signed k"
    using unsigned_nonneg [OF kinds(1) that] unsigned_nonneg [OF kinds(2) that]
    by (simp_all only: truncating_sdiv sdiv_unsigned minus_div_mult_eq_mod)
  have ok: "integer_result label k (truncating_integer_divide l r) = Inr (NumV (PInt (l sdiv r)) (Some k))"
    "integer_result label k (l - truncating_integer_divide l r * r) = Inr (NumV (PInt (l smod r)) (Some k))"
    if "r \<noteq> 0" "\<not> (kind_signed k \<and> l = fst (integer_range k) \<and> r = -1)"
    using sdiv_in_range [OF kinds that(1)] that(2) word_value_id
    by (auto simp: integer_result_def truncating_sdiv minus_sdiv_mult_eq_smod simp del: has_kind.simps)
  have sel: "(if kind_signed k then truncating_integer_divide l r else l div r) = truncating_integer_divide l r"
    "(if kind_signed k then l - truncating_integer_divide l r * r else l mod r) = l - truncating_integer_divide l r * r"
    using un by simp_all
  note ops = operands_word [OF assms, folded k_def, folded l_def r_def]
  have div: "divide_values True (NumV (PInt i) (Some a)) (NumV (PInt j) (Some b)) label =
      (if r = 0 then Inl (value_error label DivisionByZero)
       else if kind_signed k \<and> l = fst (integer_range k) \<and> r = -1 then Inl (value_error label (DivisionOutOfRange k))
       else integer_result label k (truncating_integer_divide l r))"
    using k not_both [OF k]
    by (simp add: divide_values_def ops kind_info Let_def signed_division_overflows_def sel normalized_word)
  have mod: "modulo_values True (NumV (PInt i) (Some a)) (NumV (PInt j) (Some b)) label =
      (if r = 0 then Inl (value_error label ModuloByZero)
       else if kind_signed k \<and> l = fst (integer_range k) \<and> r = -1 then Inl (value_error label (DivisionOutOfRange k))
       else integer_result label k (l - truncating_integer_divide l r * r))"
    using k not_both [OF k]
    by (simp add: modulo_values_def ops kind_info Let_def signed_division_overflows_def sel normalized_word)
  show ?thesis unfolding Let_def k_def [symmetric] l_def [symmetric] r_def [symmetric] div mod
    using ok by simp
qed

lemma integer_division_on_words_witness:
  "divide_values True (NumV (PInt (-7)) (Some KInt32)) (NumV (PInt 2) (Some KInt32)) ''c''
     = Inr (NumV (PInt (-3)) (Some KInt32)) \<and>
   modulo_values True (NumV (PInt (-7)) (Some KInt32)) (NumV (PInt 2) (Some KInt32)) ''c''
     = Inr (NumV (PInt (-1)) (Some KInt32))"
proof -
  have "has_kind (PInt (-7)) KInt32" "has_kind (PInt 2) KInt32" by simp_all
  from integer_division_on_words [OF this, of "''c''"] show ?thesis
    by (simp add: Let_def common_integer_kind_def signed_of_int signed_take_bit_eq_take_bit_shift
        take_bit_eq_mod signed_divide_int_def smod_int_alt_def)
qed

section \<open>Conversion rank\<close>

fun conversion_rank :: "kind \<Rightarrow> nat" where
  \<comment> \<open>the order of the usual arithmetic conversions\<close>
  "conversion_rank KInt32 = 0" | "conversion_rank KUInt32 = 1" | "conversion_rank KInt64 = 2"
| "conversion_rank KUInt64 = 3" | "conversion_rank KFloat = 4" | "conversion_rank KDouble = 5"
| "conversion_rank KBool = 6" | "conversion_rank KString = 7"

lemma common_integer_rank:
  "is_integer_kind a \<Longrightarrow> is_integer_kind b \<Longrightarrow>
     common_integer_kind a b = (if conversion_rank a \<le> conversion_rank b then b else a)"
  by (auto dest!: integer_kind_cases simp: common_integer_kind_def integer_kind_def)

lemma foldl_common:
  "is_integer_kind a \<Longrightarrow> \<forall>k\<in>set ks. is_integer_kind k \<Longrightarrow>
     foldl common_integer_kind a ks \<in> insert a (set ks) \<and>
     (\<forall>k\<in>insert a (set ks). conversion_rank k \<le> conversion_rank (foldl common_integer_kind a ks))"
proof (induction ks arbitrary: a)
  case (Cons b ks)
  define c where "c = common_integer_kind a b"
  have c: "is_integer_kind c" "c = a \<or> c = b" "conversion_rank a \<le> conversion_rank c" "conversion_rank b \<le> conversion_rank c"
    using Cons.prems by (auto simp: c_def common_integer_rank)
  with Cons.IH [OF c(1)] Cons.prems show ?case by (auto simp: c_def)
qed simp

lemma numeric_kind_rank: "is_numeric_kind k \<Longrightarrow> conversion_rank k \<le> 5 \<and> (conversion_rank k = 5 \<longleftrightarrow> k = KDouble)
    \<and> (conversion_rank k = 4 \<longleftrightarrow> k = KFloat) \<and> (is_integer_kind k \<longleftrightarrow> conversion_rank k < 4)"
  by (auto simp: is_numeric_kind_def is_float_kind_def dest!: integer_kind_cases)

text \<open>
  C30: the kind of an operation on several numbers is the greatest in the order int32, uint32, int64,
  uint64, float, double: it is the kind of one of them, and no other has a greater rank. So it does
  not depend on the order of the operands, as in the usual arithmetic conversions of C++.
\<close>

theorem common_kind_is_greatest:
  assumes "ks \<noteq> []" and "\<forall>k\<in>set ks. is_numeric_kind k"
  shows "common_numeric_kind ks \<in> set ks
    \<and> (\<forall>k\<in>set ks. conversion_rank k \<le> conversion_rank (common_numeric_kind ks))"
proof -
  consider "KDouble \<in> set ks" | "KDouble \<notin> set ks" "KFloat \<in> set ks" | "KDouble \<notin> set ks" "KFloat \<notin> set ks"
    by blast
  then show ?thesis
  proof cases
    case 3
    have "\<forall>k\<in>set ks. is_integer_kind k"
      using assms(2) 3 by (auto simp: is_numeric_kind_def is_float_kind_def)
    with assms(1) foldl_common [of "hd ks" "tl ks"] 3 show ?thesis
      by (cases ks) (auto simp: common_numeric_kind_def List.member_iff)
  next
    case 2
    have "conversion_rank k \<le> 4" if "k \<in> set ks" for k
      using numeric_kind_rank [of k] assms(2) 2(1) that by (cases "k = KDouble") auto
    with 2 show ?thesis by (simp add: common_numeric_kind_def List.member_iff)
  qed (use assms numeric_kind_rank in \<open>auto simp: common_numeric_kind_def List.member_iff\<close>)
qed

lemma common_kind_is_greatest_witness:
  "common_numeric_kind [KUInt32, KInt64, KInt32] \<in> {KUInt32, KInt64, KInt32} \<and>
   common_numeric_kind [KUInt32, KInt64, KInt32] = KInt64"
  using common_kind_is_greatest [of "[KUInt32, KInt64, KInt32]"]
  by (auto simp: is_numeric_kind_def)

section \<open>Integers as binary32\<close>

lemma floor_log2_int:
  assumes "0 < n"
  shows "floor_log2 n 1 = int (bit_length n) - 1"
proof (rule pow2_between_unique [OF floor_log2_bounds [of n 1]])
  have pos: "0 < bit_length n" using assms bit_length_le_iff [of n 0] by auto
  then have "(2::int) ^ bit_length n = 2 * 2 ^ (bit_length n - 1)" by (cases "bit_length n") simp_all
  then have b: "2 ^ (bit_length n - 1) \<le> n" "n < 2 ^ bit_length n"
    using bit_length_bounds [OF assms] by simp_all
  define k where "k = bit_length n - 1"
  have 1: "real_of_int (2 ^ k) \<le> real_of_int n" "real_of_int n < real_of_int (2 ^ Suc k)"
    using b pos unfolding k_def by (simp_all only: of_int_le_iff of_int_less_iff Suc_diff_1)
  have k: "int (bit_length n) - 1 = int k" "int k + 1 = int (Suc k)" using pos by (simp_all add: k_def)
  show "2 powi (int (bit_length n) - 1) \<le> ratio n 1" "ratio n 1 < 2 powi (int (bit_length n) - 1 + 1)"
    using 1 unfolding k ratio_def power_int_of_nat by (simp_all only: of_int_power of_int_numeral of_int_1 div_by_1)
qed (use assms in simp_all)

lemma pack_exact:
  assumes m: "0 < m" "m \<le> 2 ^ 24" and top: "int (bit_length m) + int s \<le> 128"
    and v: "0 < n" "real_of_int n * 2 powi f = real_of_int m * 2 powi int s"
  shows "round_dyadic 32 neg n f = normalize neg m (int s)"
proof (cases "m < 2 ^ 24")
  case True
  with m top v show ?thesis by (intro round_dyadic_exact) (simp_all add: format_defs)
next
  case False
  with m have m': "m = 2 * 2 ^ 23" by simp
  have bl: "bit_length m = Suc (bit_length (2 ^ 23))" unfolding m' by (rule bit_length_double) simp
  have "real_of_int m * 2 powi int s = (2 ^ 23) * 2 powi (int s + 1)"
    unfolding m' by (simp add: powi_add2 del: power_int_of_nat)
  then have "(2 ^ 23 :: int) * 2 powi (int s + 1) = real_of_int n * 2 powi f" using v by simp
  then have "round_dyadic 32 neg n f = normalize neg (2 ^ 23) (int s + 1)"
    using top bl v(1) by (intro round_dyadic_exact) (simp_all add: format_defs del: power_int_of_nat)
  also have "\<dots> = normalize neg m (int s)" unfolding m' by (rule normalize_double [symmetric]) simp
  finally show ?thesis .
qed

lemma pack_integer:
  assumes m: "0 < m" "m \<le> 2 ^ 24"
  shows "(let x = round_float 64 neg (m * 2 ^ s) 1 in if is_finite x then pack_f32 x else None) =
    (if int (bit_length m) + int s \<le> 128 then Some (normalize neg m (int s)) else None)"
proof (cases "int (bit_length m) + int s \<le> 1024")
  case True
  have x: "round_float 64 neg (m * 2 ^ s) 1 = normalize neg m (int s)"
    using m True by (intro round_float_exact) (simp_all add: format_defs ratio_def)
  note nb = normalize_bounded [of m 24 "int s" neg, OF m _ _ True]
  obtain n f where nf: "normalize neg m (int s) = FFin neg n f"
    using nb(3,4) by (cases "normalize neg m (int s)") auto
  have v: "real_of_int n * 2 powi f = real_of_int m * 2 powi int s" using nb(2) nf by simp
  have "0 \<le> n" using nb(1) nf by simp
  moreover have "0 < real_of_int m * 2 powi int s" using m by simp
  ultimately have n: "0 < n" using v by (cases "n = 0") auto
  show ?thesis
  proof (cases "int (bit_length m) + int s \<le> 128")
    case small: True
    have "round_dyadic 32 neg n f = normalize neg m (int s)" by (rule pack_exact [OF m small n v])
    with small nf show ?thesis by (simp add: x Let_def)
  next
    case big: False
    let ?n = "fst (dyadic n f)" and ?d = "snd (dyadic n f)"
    have pos: "0 < ?n" "0 < ?d" using dyadic_ratio(2,3) n by auto
    have R: "0 < m * 2 ^ s" using m by simp
    have "floor_log2 ?n ?d = floor_log2 (m * 2 ^ s) 1"
      using pos R v by (intro floor_log2_cong) (simp_all add: dyadic_ratio(1), simp add: ratio_def)
    then have "format_max 32 < floor_log2 ?n ?d"
      using big m by (simp add: floor_log2_int [OF R] bit_length_shift format_defs)
    then have "\<not> is_finite (round_float 32 neg ?n ?d)"
      using overflow_high(1) [of 32 ?n ?d] pos by (simp add: round_float_finite_iff)
    then show ?thesis using big nf by (simp add: x round_dyadic_def case_prod_beta Let_def)
  qed
next
  case False
  have R: "0 < m * 2 ^ s" using m by simp
  have "format_max 64 < floor_log2 (m * 2 ^ s) 1"
    using False m by (simp add: floor_log2_int [OF R] bit_length_shift format_defs)
  then have "\<not> is_finite (round_float 64 neg (m * 2 ^ s) 1)"
    using overflow_high(1) [of 64 "m * 2 ^ s" 1] R by (simp add: round_float_finite_iff)
  with False show ?thesis by (simp add: Let_def)
qed

text \<open>The significand of the code: the integer in units of its \<open>shift\<close>, ties to even.\<close>

lemma shifted_significand:
  fixes n :: int
  assumes "0 < s"
  shows "(if n AND (2 ^ s - 1) > 2 ^ (s - 1) \<or> (n AND (2 ^ s - 1) = 2 ^ (s - 1) \<and> drop_bit s n AND 1 \<noteq> 0)
          then drop_bit s n + 1 else drop_bit s n) = round_half_even n (2 ^ s)"
proof -
  have two: "(2::int) ^ s = 2 * 2 ^ (s - 1)" using assms by (simp add: power_eq_if)
  have odd: "drop_bit s n AND 1 \<noteq> 0 \<longleftrightarrow> odd (n div 2 ^ s)"
    by (simp add: drop_bit_eq_div and_one_eq odd_iff_mod_2_eq_one)
  show ?thesis unfolding odd unfolding round_half_even_def Let_def mask_mod drop_bit_eq_div
    by (simp add: two)
qed

lemma float_neg_round: "float_neg (round_float width neg num den) = round_float width (\<not> neg) num den"
  by (simp add: round_float_def Let_def normalize_def)

lemma integer_input:
  assumes "i \<noteq> 0"
  defines "n \<equiv> \<bar>i\<bar>"
  defines "s \<equiv> nat (int (bit_length \<bar>i\<bar>) - 24)"
  shows "round_integer_to_f32_input i = round_float 64 (i < 0) (round_half_even n (2 ^ s) * 2 ^ s) 1"
proof (cases "int (bit_length n) - 24 \<le> 0")
  case True
  then show ?thesis
    by (simp add: round_integer_to_f32_input_def float_of_int_def n_def s_def Let_def round_half_even_def)
next
  case False
  define m where "m = round_half_even n (2 ^ s)"
  have s: "0 < s" "int (bit_length n) - 24 = int s" "nat (int s - 1) = s - 1"
    using False by (simp_all add: s_def n_def nat_diff_distrib)
  have m: "0 \<le> m" by (simp add: m_def n_def round_half_even_nonneg)
  have r: "(case if m = 2 ^ 24 then (drop_bit 1 m, int s + 1) else (m, int s) of (t, k) \<Rightarrow> push_bit (nat k) t) = m * 2 ^ s"
    by (simp add: push_bit_eq_mult drop_bit_eq_div nat_add_distrib)
  have "round_integer_to_f32_input i =
     (if i < 0 then float_neg (float_of_int (m * 2 ^ s)) else float_of_int (m * 2 ^ s))"
    using False r unfolding round_integer_to_f32_input_def Let_def n_def [symmetric] s(2,3)
      nat_int shifted_significand [OF s(1)] m_def [symmetric]
    by (simp add: split_beta)
  moreover have "0 \<le> m * 2 ^ s" using m by simp
  ultimately show ?thesis unfolding m_def [symmetric]
    by (simp add: float_of_int_def float_neg_round abs_of_nonneg)
qed

text \<open>
  C31: an integer becomes binary32 by one rounding, to the nearest with ties to even, although Python
  has only binary64 to carry it: the result is the correctly rounded value, or the error when that
  value is not finite, for integers of any size. (Rounding to binary64 first would round twice.)
\<close>

theorem integer_to_f32_rounds_once:
  "round_f32 err (PInt i) =
     (let r = round_float 32 (i < 0) \<bar>i\<bar> 1 in if is_finite r then Inr r else Inl err)"
proof (cases "i = 0")
  case True
  then show ?thesis by (simp add: round_f32_def round_integer_to_f32_input_def float_of_int_def
      round_float_def round_dyadic_def dyadic_def lowest_def Let_def)
next
  case False
  define n where "n = \<bar>i\<bar>"
  define s where "s = nat (int (bit_length n) - 24)"
  define m where "m = round_half_even n (2 ^ s)"
  have n: "0 < n" using False by (simp add: n_def)
  have x: "round_integer_to_f32_input i = round_float 64 (i < 0) (m * 2 ^ s) 1"
    using integer_input [OF False] by (simp add: n_def s_def m_def)
  have target: "round_float 32 (i < 0) n 1 =
      (if int (bit_length m) + int s \<le> 128 then normalize (i < 0) m (int s) else FInf (i < 0))
    \<and> 0 < m \<and> m \<le> 2 ^ 24"
  proof (cases "s = 0")
    case True
    then have small: "bit_length n \<le> 24" and m: "m = n" by (simp_all add: s_def m_def round_half_even_def)
    then have "n < 2 ^ 24" using n by (simp add: bit_length_le_iff)
    with small n True m show ?thesis
      by (auto simp: format_defs ratio_def intro!: round_float_exact)
  next
    case big: False
    then have e: "quantum 32 n 1 = int s" using n by (simp add: quantum_def floor_log2_int s_def format_defs)
    have m: "round_scaled n 1 (- quantum 32 n 1) = m" using big by (simp add: e round_scaled_def scale_def m_def)
    have "m \<le> 2 ^ 24" using round_scaled_upper(1) [OF n, of 1 32] by (simp add: m format_precision_def)
    moreover have "0 < m"
    proof -
      have "2 ^ (bit_length n - 1) \<le> n" using floor_log2_bounds(1) [OF n, of 1] n bit_length_le_iff [of n 0]
        by (simp add: floor_log2_int ratio_def power_int_def nat_diff_distrib split: if_splits)
      moreover have "(2::int) ^ s \<le> 2 ^ (bit_length n - 1)" by (rule power_increasing) (simp_all add: s_def)
      ultimately have "(2::int) ^ s \<le> n" by linarith
      then have "1 \<le> real_of_int n / real_of_int (2 ^ s)"
        by (simp add: le_divide_eq del: of_int_power)
      then have "1 \<le> m" unfolding m_def by (intro round_half_even_ge) simp_all
      then show ?thesis by simp
    qed
    ultimately show ?thesis using n m e by (simp add: round_float_def overflows_def format_defs Let_def)
  qed
  have fin: "is_finite (normalize (i < 0) m (int s))" if "int (bit_length m) + int s \<le> 128"
    using target that by (intro normalize_bounded(4) [of m 24]) simp_all
  have p: "(let x = round_integer_to_f32_input i in if is_finite x then pack_f32 x else None) =
    (if int (bit_length m) + int s \<le> 128 then Some (normalize (i < 0) m (int s)) else None)"
    unfolding x using target by (intro pack_integer) simp_all
  have split: "round_f32 err (PInt i) =
      (case (let x = round_integer_to_f32_input i in if is_finite x then pack_f32 x else None) of
         None \<Rightarrow> Inl err | Some y \<Rightarrow> if is_finite y then Inr y else Inl err)"
    by (simp add: round_f32_def Let_def)
  show ?thesis unfolding split p n_def [symmetric] using target fin by (simp add: Let_def)
qed

end
