(* ===== verification/ModelTypes.thy ===== *)
theory ModelTypes
  imports ExprFunctions Names
begin

text \<open>
  The objects of the built model in \<^verbatim>\<open>src/protocyte/model.py\<close>. A reference to a message or an enum is
  its full name, the key under which the model's tables hold it; the chain of a message's parents is
  the list of their full names, the innermost first. A constant carries its identity
  (\<^verbatim>\<open>id(constant)\<close>), the place where it was declared; what resolution writes into constants and
  fields (\<^verbatim>\<open>value\<close>, \<^verbatim>\<open>array_max\<close>) is kept in the state of the resolver. Documentation and the
  spellings that naming allocates are not part of these records.
\<close>

datatype const_id = FileConstant string nat | MessageConstant string nat

record ConstantModel =
  const_id :: const_id
  const_name :: string
  const_cpp_name :: string
  const_full_name :: string
  const_kind :: kind
  const_literal :: "pyvalue option"
  const_expr :: "string option"

record EnumValueModel =
  value_name :: string
  value_cpp_name :: string
  value_number_of :: int
  value_deprecated :: bool

record EnumModel =
  enum_name :: string
  enum_cpp_name :: string
  enum_full_name :: string
  enum_file_name :: string
  enum_package :: string
  enum_values :: "EnumValueModel list"
  enum_closed :: bool
  enum_deprecated :: bool
  enum_parent :: "string option"

definition max_number :: "EnumModel \<Rightarrow> int" where
  "max_number e = fold max (map value_number_of (tl (enum_values e))) (value_number_of (hd (enum_values e)))"

definition min_number :: "EnumModel \<Rightarrow> int" where
  "min_number e = fold min (map value_number_of (tl (enum_values e))) (value_number_of (hd (enum_values e)))"

definition generates_arraysize :: "EnumModel \<Rightarrow> bool" where
  "generates_arraysize e = (max_number e \<noteq> 2 ^ 31 - 1)"

datatype field_kind = ScalarField | StringField | BytesField | EnumField | MessageField | MapField

datatype FieldModel = FieldModel
  (field_name: string) (field_cpp_name: string) (field_number: int) (proto_type: int) (field_label_of: int)
  (field_file_name: string) (repeated: bool) (proto3_optional: bool) (oneof_index: "int option")
  (oneof_name: "string option") (packed: bool) (field_deprecated: bool) (type_name: string)
  (field_kind: field_kind) (cpp_type: string) (field_message_type: "string option")
  (field_enum_type: "string option") (map_key: "FieldModel option") (map_value: "FieldModel option")
  (array_max: "int option") (array_expr: "string option") (array_fixed: bool)
  (explicit_presence: bool) (required: bool) (default_cpp: "string option")
  (default_byte_size: "int option") (enum_closed_of: bool)

definition has_explicit_presence :: "FieldModel \<Rightarrow> bool" where
  "has_explicit_presence f =
     (\<not> repeated f \<and> (explicit_presence f \<or> oneof_name f \<noteq> None \<or> field_kind f = MessageField))"

definition array_enabled :: "FieldModel \<Rightarrow> bool" where
  "array_enabled f = (array_max f \<noteq> None \<or> array_expr f \<noteq> None)"

definition repeated_map :: "FieldModel \<Rightarrow> bool" where
  "repeated_map f = (field_kind f = MapField)"

definition fixed_bytes :: "FieldModel \<Rightarrow> bool" where
  "fixed_bytes f = (field_kind f = BytesField \<and> \<not> repeated f \<and> array_enabled f \<and> array_fixed f)"

definition dynamic_bytes :: "FieldModel \<Rightarrow> bool" where
  "dynamic_bytes f = (field_kind f = BytesField \<and> \<not> repeated f \<and> array_enabled f \<and> \<not> array_fixed f)"

definition repeated_array :: "FieldModel \<Rightarrow> bool" where
  "repeated_array f = (repeated f \<and> array_enabled f \<and> \<not> repeated_map f)"

record OneofModel =
  oneof_model_name :: string
  oneof_cpp_name :: string
  oneof_fields :: "FieldModel list"

record MessageModel =
  message_name :: string
  message_cpp_name :: string
  message_full_name :: string
  message_file_name :: string
  message_package :: string
  message_parents :: "string list"
  message_descriptor :: message_data
  is_map_entry :: bool
  message_deprecated :: bool
  message_fields :: "FieldModel list"
  message_oneofs :: "OneofModel list"
  message_constants :: "ConstantModel list"

datatype message_tree = MessageTree (tree_message: MessageModel) (nested_enums: "EnumModel list")
  (nested_messages: "message_tree list")

record FileModel =
  model_file_name :: string
  model_package :: string
  model_syntax :: string
  model_constants :: "ConstantModel list"
  model_messages :: "message_tree list"
  model_enums :: "EnumModel list"

fun walk_tree :: "message_tree \<Rightarrow> MessageModel list" where
  "walk_tree (MessageTree m es ts) = m # concat (map walk_tree ts)"

definition walk_messages :: "message_tree list \<Rightarrow> MessageModel list" where
  "walk_messages ts = concat (map walk_tree ts)"

end
