(* ===== verification/Constants.thy ===== *)
theory Constants
  imports ExprParser ModelTypes
begin

text \<open>
  Constants and array bounds: \<^verbatim>\<open>_build_raw_constants\<close>, \<^verbatim>\<open>_resolve_constants_and_arrays\<close> and the
  C++ spelling of values, from \<^verbatim>\<open>src/protocyte/model.py\<close>. The resolver evaluates constants on
  demand and keeps what it has found in a state: which constants are being visited or done, their
  values, their dependency depth, and the stack of the greatest child depth of each open constant.
  The depth of the open constants is bounded by 32, so the argument \<open>n\<close> of \<open>resolve_at\<close> is what
  remains of it: \<^verbatim>\<open>active_dependency_depth\<close> is \<open>32 - n\<close>.
\<close>

definition MAX_CONSTANT_DEPENDENCY_DEPTH :: nat where "MAX_CONSTANT_DEPENDENCY_DEPTH = 32"

abbreviation constant_error :: "string \<Rightarrow> constant_issue \<Rightarrow> expr_error" where
  "constant_error label i \<equiv> Labelled label (ConstantIssue i)"

section \<open>Building constants\<close>

datatype raw_constant_error =
  EmptyConstantName string
| NotOneTypedValue string

definition constant_full_name :: "string \<Rightarrow> string \<Rightarrow> string" where
  "constant_full_name owner name = (if owner \<noteq> [] then owner @ ''.'' @ name else name)"

definition build_raw_constants ::
  "(nat \<Rightarrow> const_id) \<Rightarrow> string \<Rightarrow> pyvalue RawConstantOption list \<Rightarrow> raw_constant_error + ConstantModel list" where
  "build_raw_constants ident owner raws =
     rmap (\<lambda>(i, raw).
       if raw_name raw = [] then Inl (EmptyConstantName owner)
       else case raw_kind raw of
         None \<Rightarrow> Inl (NotOneTypedValue (owner @ ''.'' @ raw_name raw))
       | Some k \<Rightarrow>
           if (raw_literal raw = None) = (raw_expr raw = None)
           then Inl (NotOneTypedValue (owner @ ''.'' @ raw_name raw))
           else Inr \<lparr>const_id = ident i, const_name = raw_name raw, const_cpp_name = cpp_identifier (raw_name raw),
                  const_full_name = constant_full_name owner (raw_name raw), const_kind = k,
                  const_literal = raw_literal raw, const_expr = raw_expr raw\<rparr>)
       (zip [0..<length raws] raws)"

fun first_repeated_constant :: "string list \<Rightarrow> ConstantModel list \<Rightarrow> ConstantModel option" where
  "first_repeated_constant seen [] = None"
| "first_repeated_constant seen (c # cs) =
     (if List.member seen (const_name c) then Some c
      else first_repeated_constant (const_name c # seen) cs)"

definition validate_constant_collisions :: "ConstantModel list \<Rightarrow> string + unit" where
  \<comment> \<open>of a message, and of a package in one file: the full name of a constant that is redefined\<close>
  "validate_constant_collisions cs =
     (case first_repeated_constant [] cs of None \<Rightarrow> Inr () | Some c \<Rightarrow> Inl (const_full_name c))"

section \<open>The spelling of values in C++\<close>

fun cpp_constant_type :: "kind \<Rightarrow> string" where
  "cpp_constant_type KBool = ''bool''"
| "cpp_constant_type KInt32 = ''::protocyte::i32''"
| "cpp_constant_type KInt64 = ''::protocyte::i64''"
| "cpp_constant_type KUInt32 = ''::protocyte::u32''"
| "cpp_constant_type KUInt64 = ''::protocyte::u64''"
| "cpp_constant_type KFloat = ''::protocyte::f32''"
| "cpp_constant_type KDouble = ''::protocyte::f64''"
| "cpp_constant_type KString = ''::protocyte::StringView''"

definition ascii_escape :: "char \<Rightarrow> string option" where
  \<comment> \<open>the bytes that stay in an ordinary chunk\<close>
  "ascii_escape b =
     (if byte_of b = 92 then Some (replicate 2 (char_of (92 :: nat)))
      else if byte_of b = 34 then Some [char_of (92 :: nat), char_of (34 :: nat)]
      else if byte_of b = 10 then Some [char_of (92 :: nat), CHR ''n'']
      else if byte_of b = 13 then Some [char_of (92 :: nat), CHR ''r'']
      else if byte_of b = 9 then Some [char_of (92 :: nat), CHR ''t'']
      else if 32 \<le> byte_of b \<and> byte_of b < 127 then Some [b]
      else None)"

definition quoted :: "string \<Rightarrow> string" where
  "quoted s = char_of (34 :: nat) # s @ [char_of (34 :: nat)]"

definition flush_ascii :: "string \<Rightarrow> string" where
  "flush_ascii chunk = (if chunk = [] then [] else quoted chunk)"

fun literal_parts :: "string \<Rightarrow> string \<Rightarrow> string" where
  \<comment> \<open>the loop of \<^verbatim>\<open>_cpp_string_literal\<close>: the open chunk and the bytes that are left\<close>
  "literal_parts chunk [] = flush_ascii chunk"
| "literal_parts chunk (b # bs) =
     (case ascii_escape b of
        Some e \<Rightarrow> literal_parts (chunk @ e) bs
      | None \<Rightarrow> flush_ascii chunk @ quoted (char_of (92 :: nat) # CHR ''x'' # hex_byte hex_lower b) @ literal_parts [] bs)"

definition cpp_string_literal :: "string \<Rightarrow> string" where
  "cpp_string_literal bytes = (let parts = literal_parts [] bytes in if parts = [] then quoted [] else parts)"

definition cpp_constant_value :: "kind \<Rightarrow> pyvalue \<Rightarrow> expr_error + string" where
  "cpp_constant_value k v =
     (case (k, v) of
        (KBool, PyBool b) \<Rightarrow> Inr (if b then ''true'' else ''false'')
      | (KInt32, PyNum (PInt i)) \<Rightarrow> Inr (int_text i)
      | (KInt64, PyNum (PInt i)) \<Rightarrow>
          Inr (if i = - (2 ^ 63) then ''(-9223372036854775807ll - 1ll)'' else int_text i @ ''ll'')
      | (KUInt32, PyNum (PInt i)) \<Rightarrow> Inr (int_text i @ ''u'')
      | (KUInt64, PyNum (PInt i)) \<Rightarrow> Inr (int_text i @ ''ull'')
      | (KFloat, PyNum (PFloat x)) \<Rightarrow> Inr (float_text 9 x @ ''f'')
      | (KDouble, PyNum (PFloat x)) \<Rightarrow> Inr (float_text 17 x)
      | (KString, PyStr s) \<Rightarrow>
          if list_all valid_utf8_char (utf8_chars s)
          then Inr (cpp_string_literal s @ '', '' @ int_text (int (length s)) @ ''u'')
          else Inl (Unlabelled (ParseIssue InvalidUtf8))
      | _ \<Rightarrow> Inl Uncaught)"

section \<open>The tables and the state of the resolver\<close>

datatype const_state = Visiting | Done

record resolver_state =
  states :: "const_id \<Rightarrow> const_state option"
  found :: "const_id \<Rightarrow> pyvalue option"
  spellings :: "const_id \<Rightarrow> string option"
  depths :: "const_id \<Rightarrow> nat option"
  child_depths :: "nat list"
  maxima :: "(string \<times> string) \<Rightarrow> int option"

definition initial_state :: resolver_state where
  "initial_state = \<lparr>states = (\<lambda>_. None), found = (\<lambda>_. None), spellings = (\<lambda>_. None), depths = (\<lambda>_. None),
     child_depths = [], maxima = (\<lambda>_. None)\<rparr>"

type_synonym constants = "(string, ConstantModel) dict"

record const_env =
  cdecimal :: decimal_context
  cunicode :: unicode_data
  cmessages :: "(string, MessageModel) dict"
  by_message :: "(string, constants) dict"
  by_package :: "(string, constants) dict"

definition add_constants :: "constants \<Rightarrow> ConstantModel list \<Rightarrow> constants" where
  "add_constants d cs = fold (\<lambda>c d. dict_set d (const_name c) c) cs d"

definition constants_by_message :: "(string, MessageModel) dict \<Rightarrow> (string, constants) dict" where
  "constants_by_message messages =
     fold (\<lambda>(_, m) d. dict_set d (message_full_name m) (add_constants [] (message_constants m))) messages []"

definition constants_by_package :: "(string, FileModel) dict \<Rightarrow> (string, constants) dict" where
  "constants_by_package files =
     fold (\<lambda>(_, f) d. dict_set d (model_package f)
       (add_constants (dict_get d (model_package f)) (model_constants f))) files []"

definition lookup_table :: "(string, constants) dict \<Rightarrow> string \<Rightarrow> string \<Rightarrow> ConstantModel option" where
  "lookup_table tables scope name = map_of (dict_get tables scope) name"

section \<open>Finding a constant\<close>

definition constant_value :: "ConstantModel \<Rightarrow> resolver_state \<Rightarrow> expr_error + typed_value" where
  \<comment> \<open>\<^verbatim>\<open>_TypedValue(constant.family, constant.value, numeric_kind)\<close>\<close>
  "constant_value c s =
     (case found s (const_id c) of
        Some (PyBool b) \<Rightarrow> Inr (BoolV b)
      | Some (PyStr t) \<Rightarrow> Inr (StringV t)
      | Some (PyNum n) \<Rightarrow> Inr (NumV n (constant_numeric_kind (const_kind c)))
      | None \<Rightarrow> Inl Uncaught)"

definition scope_of :: "string list \<Rightarrow> string" where
  "scope_of parts = join ''.'' (butlast parts)"

datatype scope =
  MessageScope "string list" string \<comment> \<open>a message and its parents, the innermost first, and their package\<close>
| PackageScope string

definition message_scope :: "MessageModel \<Rightarrow> scope" where
  "message_scope m = MessageScope (message_full_name m # message_parents m) (message_package m)"

definition find_message_constant ::
  "const_env \<Rightarrow> string \<Rightarrow> string \<Rightarrow> string \<Rightarrow> (MessageModel \<times> ConstantModel option) option" where
  "find_message_constant E owner_package sc name =
     (case map_of (cmessages E) sc of
        Some target \<Rightarrow> Some (target, lookup_table (by_message E) (message_full_name target) name)
      | None \<Rightarrow>
          let relative_scope = (if owner_package \<noteq> [] then owner_package @ ''.'' @ sc else sc) in
          if relative_scope \<noteq> sc then
            (case map_of (cmessages E) relative_scope of
               Some target \<Rightarrow> Some (target, lookup_table (by_message E) (message_full_name target) name)
             | None \<Rightarrow> None)
          else None)"

fun find_enclosing :: "const_env \<Rightarrow> string list \<Rightarrow> string \<Rightarrow> (string list \<times> ConstantModel) option" where
  \<comment> \<open>the loop over \<^verbatim>\<open>current.parent\<close>\<close>
  "find_enclosing E [] name = None"
| "find_enclosing E (current # parents) name =
     (case lookup_table (by_message E) current name of
        Some c \<Rightarrow> Some (current # parents, c)
      | None \<Rightarrow> find_enclosing E parents name)"

definition find_constant ::
  "const_env \<Rightarrow> string list \<Rightarrow> string \<Rightarrow> string \<Rightarrow> expr_error + scope option \<times> ConstantModel" where
  \<comment> \<open>\<open>None\<close> is the code's missing target message: the constant belongs to a package\<close>
  "find_constant E owner owner_package name =
     (let label = hd owner in
      if List.member name CHR ''.'' then
        let parts = split_on CHR ''.'' name; package_name = scope_of parts; last_part = last parts in
        (case lookup_table (by_package E) package_name last_part of
           Some c \<Rightarrow> Inr (None, c)
         | None \<Rightarrow>
             (case find_message_constant E owner_package package_name last_part of
                None \<Rightarrow> Inl (constant_error label (UnknownScope package_name))
              | Some (_, None) \<Rightarrow> Inl (constant_error label (UnknownConstant name))
              | Some (target, Some c) \<Rightarrow> Inr (Some (message_scope target), c)))
      else
        (case find_enclosing E owner name of
           Some (current, c) \<Rightarrow> Inr (Some (MessageScope current owner_package), c)
         | None \<Rightarrow>
             (case lookup_table (by_package E) owner_package name of
                Some c \<Rightarrow> Inr (None, c)
              | None \<Rightarrow> Inl (constant_error label (UnknownConstant name)))))"

definition find_package_constant :: "const_env \<Rightarrow> string \<Rightarrow> string \<Rightarrow> expr_error + string \<times> ConstantModel" where
  "find_package_constant E pkg name =
     (let (target_package, local_name) =
        (if List.member name CHR ''.'' then (scope_of (split_on CHR ''.'' name), last (split_on CHR ''.'' name))
         else (pkg, name)) in
      case lookup_table (by_package E) target_package local_name of
        Some c \<Rightarrow> Inr (target_package, c)
      | None \<Rightarrow> Inl (constant_error (if pkg = [] then ''<root>'' else pkg) (UnknownPackageConstant name)))"

section \<open>Resolving\<close>

definition find_in_scope :: "const_env \<Rightarrow> scope \<Rightarrow> string \<Rightarrow> expr_error + scope \<times> ConstantModel" where
  \<comment> \<open>a message that finds a constant of a package asks its own package for it again\<close>
  "find_in_scope E sc name =
     (case sc of
        PackageScope pkg \<Rightarrow> rbind (find_package_constant E pkg name) (\<lambda>(p, c). Inr (PackageScope p, c))
      | MessageScope owner pkg \<Rightarrow>
          rbind (find_constant E owner pkg name) (\<lambda>(target, c).
            case target of
              Some sc \<Rightarrow> Inr (sc, c)
            | None \<Rightarrow> rbind (find_package_constant E pkg name)
                (\<lambda>(p, c). Inr (PackageScope p, c))))"

definition record_constant_dependency :: "ConstantModel \<Rightarrow> resolver_state \<Rightarrow> expr_error + resolver_state" where
  "record_constant_dependency c s =
     (case child_depths s of
        [] \<Rightarrow> Inr s
      | d # ds \<Rightarrow>
          (case depths s (const_id c) of
             None \<Rightarrow> Inl Uncaught
           | Some k \<Rightarrow> Inr (s\<lparr>child_depths := max d k # ds\<rparr>)))"

type_synonym resolve = "scope \<Rightarrow> ConstantModel \<Rightarrow> resolver_state \<Rightarrow> expr_error + resolver_state"

definition lookup_constant ::
  "const_env \<Rightarrow> resolve \<Rightarrow> scope \<Rightarrow> string \<Rightarrow> resolver_state \<Rightarrow> expr_error + typed_value \<times> resolver_state" where
  \<comment> \<open>\<^verbatim>\<open>lookup_constant\<close> of a message and \<^verbatim>\<open>lookup_package_constant\<close>\<close>
  "lookup_constant E resolve sc name s =
     rbind (find_in_scope E sc name) (\<lambda>(target, c).
     rbind (resolve target c s) (\<lambda>s.
     rbind (constant_value c s) (\<lambda>v.
     rbind (record_constant_dependency c s) (\<lambda>s. Inr (v, s)))))"

definition expr_env :: "const_env \<Rightarrow> resolve \<Rightarrow> scope \<Rightarrow> string \<Rightarrow> resolver_state parser_env" where
  "expr_env E resolve sc label =
     \<lparr>pdecimal = cdecimal E, punicode = cunicode E, plabel = label,
      presolve = lookup_constant E resolve sc\<rparr>"

definition evaluate_constant ::
  "const_env \<Rightarrow> resolve \<Rightarrow> scope \<Rightarrow> ConstantModel \<Rightarrow> resolver_state \<Rightarrow> expr_error + pyvalue \<times> resolver_state" where
  \<comment> \<open>the value of a constant, before its dependency depth is checked\<close>
  "evaluate_constant E resolve sc c s =
     (case const_literal c of
        Some literal \<Rightarrow>
          rbind (coerce_literal (const_kind c) literal (const_full_name c)) (\<lambda>v. Inr (v, s))
      | None \<Rightarrow>
          (case const_expr c of
             None \<Rightarrow> Inl Uncaught
           | Some expr \<Rightarrow>
               rbind (evaluate_expression (expr_env E resolve sc (const_full_name c)) expr s) (\<lambda>(parsed, s).
               rbind (coerce_expression_value (const_kind c) parsed (const_full_name c)) (\<lambda>v. Inr (v, s)))))"

definition finish_constant :: "ConstantModel \<Rightarrow> pyvalue \<Rightarrow> resolver_state \<Rightarrow> expr_error + resolver_state" where
  "finish_constant c v s =
     (let depth = hd (child_depths s) + 1 in
      if depth > MAX_CONSTANT_DEPENDENCY_DEPTH then Inl (constant_error (const_full_name c) DependencyTooDeep)
      else rbind (cpp_constant_value (const_kind c) v) (\<lambda>spelling.
        Inr (s\<lparr>states := (states s)(const_id c \<mapsto> Done), found := (found s)(const_id c \<mapsto> v),
               spellings := (spellings s)(const_id c \<mapsto> spelling), depths := (depths s)(const_id c \<mapsto> depth),
               child_depths := tl (child_depths s)\<rparr>)))"

fun resolve_at :: "const_env \<Rightarrow> nat \<Rightarrow> resolve" where
  \<comment> \<open>\<^verbatim>\<open>resolve_constant\<close> and \<^verbatim>\<open>resolve_package_constant\<close>\<close>
  "resolve_at E n sc c s =
     (case states s (const_id c) of
        Some Visiting \<Rightarrow> Inl (constant_error (const_full_name c) ConstantCycle)
      | Some Done \<Rightarrow> Inr s
      | None \<Rightarrow>
          (case n of
             0 \<Rightarrow> Inl (constant_error (const_full_name c) DependencyTooDeep)
           | Suc m \<Rightarrow>
               rbind (evaluate_constant E (resolve_at E m) sc c
                 (s\<lparr>states := (states s)(const_id c \<mapsto> Visiting), child_depths := 0 # child_depths s\<rparr>)) (\<lambda>(v, s).
                 finish_constant c v s)))"

declare resolve_at.simps [simp del]

section \<open>All constants and arrays\<close>

definition validate_array_default_byte_size ::
  "string \<Rightarrow> int \<Rightarrow> int \<Rightarrow> bool \<Rightarrow> expr_error + unit" where
  "validate_array_default_byte_size label default_size maximum fixed =
     (if fixed \<and> default_size \<noteq> maximum then Inl (constant_error label DefaultSizeMismatch)
      else if \<not> fixed \<and> default_size > maximum then Inl (constant_error label DefaultSizeExceeds)
      else Inr ())"

definition resolve_array ::
  "const_env \<Rightarrow> MessageModel \<Rightarrow> FieldModel \<Rightarrow> resolver_state \<Rightarrow> expr_error + resolver_state" where
  "resolve_array E m f s =
     (case array_expr f of
        None \<Rightarrow> Inr s
      | Some expr \<Rightarrow>
          let label = message_full_name m @ ''.'' @ field_name f in
          rbind (evaluate_expression
            (expr_env E (resolve_at E MAX_CONSTANT_DEPENDENCY_DEPTH) (message_scope m) label) expr s) (\<lambda>(v, s).
          rbind (coerce_expression_value KUInt32 v label) (\<lambda>numeric.
          case numeric of
            PyNum (PInt i) \<Rightarrow>
              if i \<le> 0 then Inl (constant_error label ArrayNotPositive)
              else
                let s = s\<lparr>maxima := (maxima s)((message_full_name m, field_name f) \<mapsto> i)\<rparr> in
                (case default_byte_size f of
                   None \<Rightarrow> Inr s
                 | Some size_of \<Rightarrow>
                     rbind (validate_array_default_byte_size label size_of i (array_fixed f)) (\<lambda>_. Inr s))
          | _ \<Rightarrow> Inl (constant_error label ArrayNotPositive))))"

definition resolve_message :: "const_env \<Rightarrow> MessageModel \<Rightarrow> resolver_state \<Rightarrow> expr_error + resolver_state" where
  "resolve_message E m s =
     (if is_map_entry m then Inr s
      else rbind (rfold (\<lambda>c. resolve_at E MAX_CONSTANT_DEPENDENCY_DEPTH (message_scope m) c) (message_constants m) s)
        (rfold (resolve_array E m) (message_fields m)))"

definition resolver_env ::
  "decimal_context \<Rightarrow> unicode_data \<Rightarrow> (string, FileModel) dict \<Rightarrow> (string, MessageModel) dict \<Rightarrow> const_env" where
  "resolver_env ctx u files messages =
     \<lparr>cdecimal = ctx, cunicode = u, cmessages = messages, by_message = constants_by_message messages,
      by_package = constants_by_package files\<rparr>"

definition resolve_constants_and_arrays ::
  "decimal_context \<Rightarrow> unicode_data \<Rightarrow> (string, FileModel) dict \<Rightarrow> (string, MessageModel) dict
   \<Rightarrow> expr_error + resolver_state" where
  "resolve_constants_and_arrays ctx u files messages =
     (let E = resolver_env ctx u files messages in
      rbind (rfold (\<lambda>(pkg, cs). rfold (\<lambda>(_, c). resolve_at E MAX_CONSTANT_DEPENDENCY_DEPTH (PackageScope pkg) c) cs)
        (by_package E) initial_state)
        (rfold (\<lambda>(_, m). resolve_message E m) messages))"

end
