(* ===== verification/ExprSim.thy ===== *)
theory ExprSim
  imports ExprSound
begin

text \<open>
  Refinement of the evaluator in its resolver: when every answer of one resolver is the answer of
  another in its state \<open>u\<close>, an evaluation that succeeds with the first succeeds with the second and
  gives the same value. \<open>ok\<close> is the invariant of the first resolver; \<open>K\<close> is read backwards: what
  holds after a step held before it. The constants of the model are shown to have the value of
  their expression in this way.
\<close>

definition refines :: "('s \<Rightarrow> bool) \<Rightarrow> ('s \<Rightarrow> bool) \<Rightarrow> 't \<Rightarrow> 's parser \<Rightarrow> 't parser \<Rightarrow> bool" where
  "refines ok K u p q \<longleftrightarrow> consumes ok p \<and> (\<forall>ev ts s v ts' t.
     ok s \<longrightarrow> p ev ts s = Inr (v, ts', t) \<longrightarrow> K t \<longrightarrow> K s \<and> q ev ts u = Inr (v, ts', u))"

lemma refinesI:
  assumes "consumes ok p"
    and "\<And>ev ts s v ts' t. ok s \<Longrightarrow> p ev ts s = Inr (v, ts', t) \<Longrightarrow> K t \<Longrightarrow> K s \<and> q ev ts u = Inr (v, ts', u)"
  shows "refines ok K u p q"
  using assms by (simp add: refines_def)

lemma refines_consumes: "refines ok K u p q \<Longrightarrow> consumes ok p"
  by (simp add: refines_def)

lemma refines_step:
  assumes "refines ok K u p q" "ok s" "p ev ts s = Inr (v, ts', t)"
  shows "ok t" and "K t \<Longrightarrow> K s" and "K t \<Longrightarrow> q ev ts u = Inr (v, ts', u)"
  using assms consumesD [of ok p s ts ev] unfolding refines_def by auto

lemma binary_loop_refines:
  assumes sim: "refines ok K u p q"
  shows "ok s \<Longrightarrow> binary_loop p sel fuel v ev ts s = Inr (w, ts', t) \<Longrightarrow> K t \<Longrightarrow>
     K s \<and> binary_loop q sel fuel v ev ts u = Inr (w, ts', u)"
proof (induction fuel arbitrary: v ts s)
  case (Suc n)
  show ?case
  proof (cases "sel (snd (peek ts)) v ev")
    case (Some r)
    with Suc.prems(2) obtain e comb rhs ts1 s1 x where r: "r = Inr (e, comb)"
      and p: "p e (tl ts) s = Inr (rhs, ts1, s1)" and x: "comb rhs = Inr x"
      and loop: "binary_loop p sel n x ev ts1 s1 = Inr (w, ts', t)"
      by auto
    note step = refines_step [OF sim Suc.prems(1) p]
    from Suc.IH [OF step(1) loop Suc.prems(3)] step Some r x show ?thesis by simp
  qed (use Suc.prems in simp)
qed simp

lemma parse_level_refines:
  assumes sim: "refines ok K u p q" and sel: "good_select sel"
  shows "refines ok K u (parse_level p sel) (parse_level q sel)"
proof (rule refinesI)
  show "consumes ok (parse_level p sel)" by (intro parse_level_consumes refines_consumes [OF sim] sel)
  fix ev ts s v ts' t
  assume s: "ok s" and "parse_level p sel ev ts s = Inr (v, ts', t)" and t: "K t"
  then obtain x ts1 s1 where p: "p ev ts s = Inr (x, ts1, s1)"
    and loop: "binary_loop p sel (Suc (length ts1)) x ev ts1 s1 = Inr (v, ts', t)"
    unfolding parse_level_def by auto
  note step = refines_step [OF sim s p]
  from binary_loop_refines [OF sim step(1) loop t] step
  show "K s \<and> parse_level q sel ev ts u = Inr (v, ts', u)" unfolding parse_level_def by simp
qed

lemma parse_args_refines:
  assumes sim: "refines ok K u p q"
  shows "ok s \<Longrightarrow> parse_args label p fuel ev ts s = Inr (args, ts', t) \<Longrightarrow> K t \<Longrightarrow>
     K s \<and> parse_args label q fuel ev ts u = Inr (args, ts', u)"
proof (induction fuel arbitrary: ts s args)
  case (Suc n)
  from Suc.prems(2) obtain v ts1 s1 where p: "p ev ts s = Inr (v, ts1, s1)"
    and rest: "(if matches '')'' ts1 then Inr ([v], tl ts1, s1)
        else rbind (expect_token label '','' ts1) (\<lambda>ts. rbind (parse_args label p n ev ts s1)
          (\<lambda>(args, ts, s). Inr (v # args, ts, s)))) = Inr (args, ts', t)"
    by auto
  note step = refines_step [OF sim Suc.prems(1) p]
  show ?case
  proof (cases "matches '')'' ts1")
    case True
    with rest Suc.prems(3) have "K s1" by simp
    from step(2,3) [OF this] True rest show ?thesis by simp
  next
    case False
    with rest obtain ts2 as where e: "expect_token label '','' ts1 = Inr ts2"
      and a: "parse_args label p n ev ts2 s1 = Inr (as, ts', t)" and args: "args = v # as"
      by auto
    from Suc.IH [OF step(1) a Suc.prems(3)] step False e args show ?thesis by simp
  qed
qed simp

locale expr_refines = name_resolver env ok
  for env :: "'s parser_env" and ok :: "'s \<Rightarrow> bool" +
  fixes env' :: "'t parser_env" and K :: "'s \<Rightarrow> bool" and u :: 't
  assumes same: "pdecimal env' = pdecimal env" "punicode env' = punicode env" "plabel env' = plabel env"
    and resolve: "ok s \<Longrightarrow> presolve env n s = Inr (v, t) \<Longrightarrow> K t \<Longrightarrow> K s \<and> presolve env' n u = Inr (v, u)"
begin

lemma or_refines: "refines ok K u p q \<Longrightarrow> refines ok K u (parse_or env p) (parse_or env' q)"
  unfolding parse_or_def parse_and_def parse_bitwise_or_def parse_bitwise_xor_def parse_bitwise_and_def
    parse_equality_def parse_compare_def parse_shift_def parse_add_def parse_mul_def same
  by (intro parse_level_refines or_select_good and_select_good bitwise_select_good equality_select_good
      compare_select_good shift_select_good add_select_good mul_select_good)

lemma call_refines:
  assumes sim: "refines ok K u p q" and s: "ok s" and K: "K t"
    and call: "rbind (if matches '')'' ts1 then Inr ([], tl ts1, s)
        else parse_args label p fuel ev ts1 s) (\<lambda>(args, ts, s).
      rbind (evaluate_function (pdecimal env) name args label ev) (\<lambda>v. Inr (v, ts, s))) = Inr (v, ts', t)"
  shows "K s \<and> rbind (if matches '')'' ts1 then Inr ([], tl ts1, u)
        else parse_args label q fuel ev ts1 u) (\<lambda>(args, ts, s).
      rbind (evaluate_function (pdecimal env) name args label ev) (\<lambda>v. Inr (v, ts, s))) = Inr (v, ts', u)"
proof (cases "matches '')'' ts1")
  case False
  with call obtain args where a: "parse_args label p fuel ev ts1 s = Inr (args, ts', t)"
    and f: "evaluate_function (pdecimal env) name args label ev = Inr v" by auto
  from parse_args_refines [OF sim s a K] False f show ?thesis by simp
qed (use call K in auto)

lemma ident_refines:
  assumes call: "rbind (presolve env n s) (\<lambda>(v, s). rbind (if_evaluated ev v) (\<lambda>v. Inr (v, ts1, s))) = Inr (v, ts', t)"
    and s: "ok s" and K: "K t"
  shows "K s \<and> rbind (presolve env' n u) (\<lambda>(v, s). rbind (if_evaluated ev v) (\<lambda>v. Inr (v, ts1, s))) = Inr (v, ts', u)"
proof -
  from call obtain x where x: "presolve env n s = Inr (x, t)" "if_evaluated ev x = Inr v" and ts: "ts1 = ts'" by auto
  from resolve [OF s x(1) K] x(2) ts show ?thesis by simp
qed

lemma primary_refines:
  assumes sim: "refines ok K u p q"
  shows "refines ok K u (parse_primary env p) (parse_primary env' q)"
proof (rule refinesI)
  show "consumes ok (parse_primary env p)" by (intro primary_consumes refines_consumes [OF sim])
  fix ev ts s v ts' t
  assume s: "ok s" and run: "parse_primary env p ev ts s = Inr (v, ts', t)" and K: "K t"
  obtain ty tok where pk: "peek ts = (ty, tok)" by (cases "peek ts")
  note unf = parse_primary_def pk Let_def prod.case same
  have paren: "K s \<and> (if matches ''('' ts then rbind (q ev (tl ts) u) (\<lambda>(v, ts, s).
            rbind (expect_token (plabel env) '')'' ts) (\<lambda>ts. Inr (v, ts, s)))
       else Inl (Labelled (plabel env) (ParseIssue (UnexpectedToken tok)))) = Inr (v, ts', u)"
    if "(if matches ''('' ts then rbind (p ev (tl ts) s) (\<lambda>(v, ts, s).
            rbind (expect_token (plabel env) '')'' ts) (\<lambda>ts. Inr (v, ts, s)))
       else Inl (Labelled (plabel env) (ParseIssue (UnexpectedToken tok)))) = Inr (v, ts', t)"
  proof -
    from that obtain ts1 where m: "matches ''('' ts" and b: "p ev (tl ts) s = Inr (v, ts1, t)"
      and e: "expect_token (plabel env) '')'' ts1 = Inr ts'" by (auto split: if_splits)
    from refines_step [OF sim s b] K m e show ?thesis by simp
  qed
  show "K s \<and> parse_primary env' q ev ts u = Inr (v, ts', u)"
  proof (cases ty)
    case NUMBER
    with run K show ?thesis by (auto simp: unf)
  next
    case STRING
    with run K show ?thesis by (auto simp: unf)
  next
    case IDENT
    consider "tok = ''true''" | "tok = ''false''" | "tok \<noteq> ''true''" "tok \<noteq> ''false''" "matches ''('' (tl ts)"
      | "tok \<noteq> ''true''" "tok \<noteq> ''false''" "\<not> matches ''('' (tl ts)" by blast
    then show ?thesis
    proof cases
      case 3
      with run have "rbind (if matches '')'' (tl (tl ts)) then Inr ([], tl (tl (tl ts)), s)
          else parse_args (plabel env) p (Suc (length ts)) ev (tl (tl ts)) s) (\<lambda>(args, ts, s).
          rbind (evaluate_function (pdecimal env) tok args (plabel env) ev) (\<lambda>v. Inr (v, ts, s))) = Inr (v, ts', t)"
        unfolding unf IDENT by (simp del: parse_args.simps)
      from call_refines [OF sim s K this] 3 show ?thesis unfolding unf IDENT by (simp del: parse_args.simps)
    next
      case 4
      with run have "rbind (presolve env tok s) (\<lambda>(v, s). rbind (if_evaluated ev v) (\<lambda>v. Inr (v, tl ts, s))) = Inr (v, ts', t)"
        unfolding unf IDENT by simp
      from ident_refines [OF this s K] 4 show ?thesis unfolding unf IDENT by simp
    qed (use run K IDENT in \<open>auto simp: unf\<close>)
  qed (use run paren in \<open>simp_all add: unf\<close>)
qed

lemma map_value_refines:
  assumes sim: "refines ok K u p q" and s: "ok s" and K: "K t"
    and run: "map_value f (p ev ts s) = Inr (v, ts', t)"
  shows "K s \<and> map_value f (q ev ts u) = Inr (v, ts', u)"
proof -
  from run obtain x where p: "p ev ts s = Inr (x, ts', t)" and f: "f x = Inr v" by (auto simp: map_value_def)
  from refines_step [OF sim s p] K f show ?thesis by (simp add: map_value_def)
qed

lemma unary_refines:
  assumes sim: "refines ok K u p q" "refines ok K u po qo"
  shows "refines ok K u (parse_unary env p po) (parse_unary env' q qo)"
proof (rule refinesI)
  show "consumes ok (parse_unary env p po)" by (intro unary_consumes refines_consumes [OF sim(1)] refines_consumes [OF sim(2)])
  fix ev ts s v ts' t
  assume s: "ok s" and run: "parse_unary env p po ev ts s = Inr (v, ts', t)" and K: "K t"
  note step = map_value_refines [OF sim(1) s K]
  have prim: "K s \<and> parse_primary env' qo ev ts u = Inr (v, ts', u)"
    if "parse_primary env po ev ts s = Inr (v, ts', t)"
    using refines_step(2,3) [OF primary_refines [OF sim(2)] s that K] by blast
  show "K s \<and> parse_unary env' q qo ev ts u = Inr (v, ts', u)"
    using run step prim unfolding parse_unary_def Let_def same by (simp only: split: if_splits) blast+
qed

lemma unary_at_refines: "refines ok K u (unary_at env n) (unary_at env' n)"
proof (induction n)
  case 0
  have deep: "refines ok K u (too_deep env) (too_deep env')"
    by (rule refinesI) (simp_all add: too_deep_def consumes_def)
  have "unary_at env 0 = parse_unary env (too_deep env) (too_deep env)"
    "unary_at env' 0 = parse_unary env' (too_deep env') (too_deep env')" by (intro ext; simp)+
  then show ?case using unary_refines [OF deep deep] by simp
next
  case (Suc n)
  have "unary_at env (Suc n) = parse_unary env (unary_at env n) (parse_or env (unary_at env n))"
    "unary_at env' (Suc n) = parse_unary env' (unary_at env' n) (parse_or env' (unary_at env' n))"
    by (intro ext; simp)+
  then show ?case using unary_refines [OF Suc or_refines [OF Suc]] by simp
qed

lemma evaluate_refines:
  assumes s: "ok s" and run: "evaluate_expression env t s = Inr (v, t')" and K: "K t'"
  shows "evaluate_expression env' t u = Inr (v, u)"
proof -
  from run obtain ts ts' where tok: "tokenize (punicode env) (plabel env) t = Inr ts"
    and p: "parse_or env (unary_at env MAX_EXPRESSION_NESTING) True ts s = Inr (v, ts', t')"
    and e: "fst (peek ts') = EOF"
    by (auto simp: evaluate_expression_def parse_tokens_def split: if_splits)
  from refines_step(3) [OF or_refines [OF unary_at_refines] s p K] tok e show ?thesis
    by (simp add: evaluate_expression_def parse_tokens_def same)
qed

end

end
