(* ===== verification/ConstantsSpec.thy ===== *)
theory ConstantsSpec
  imports Constants ExprSim
begin

text \<open>
  What the resolver guarantees. The tables find only declared constants; resolution is total, keeps
  every value in the range of its kind, and never changes a constant it has finished. Each finished
  constant satisfies its definition: evaluated again in the final state, with only the constants of
  smaller depth to consult, its literal or expression gives its value. So no value rests on a cycle.
\<close>

section \<open>Declared constants\<close>

definition declares :: "(string, FileModel) dict \<Rightarrow> (string, MessageModel) dict \<Rightarrow> scope \<Rightarrow> ConstantModel \<Rightarrow> bool" where
  "declares files messages sc c \<longleftrightarrow>
     (\<exists>(k, m)\<in>set messages. sc = message_scope m \<and> c \<in> set (message_constants m)) \<or>
     (\<exists>(k, f)\<in>set files. sc = PackageScope (model_package f) \<and> c \<in> set (model_constants f))"

definition valid_scope :: "(string, MessageModel) dict \<Rightarrow> scope \<Rightarrow> bool" where
  "valid_scope messages sc = (case sc of
      PackageScope _ \<Rightarrow> True | MessageScope _ _ \<Rightarrow> \<exists>(k, m)\<in>set messages. sc = message_scope m)"

definition constant_ok :: "ConstantModel \<Rightarrow> bool" where
  \<comment> \<open>a constant has a literal or an expression; a literal that is a float is in normal form\<close>
  "constant_ok c = (case const_literal c of
      None \<Rightarrow> const_expr c \<noteq> None
    | Some (PyNum (PFloat x)) \<Rightarrow> wf_float x
    | Some _ \<Rightarrow> True)"

definition well_formed :: "(string, FileModel) dict \<Rightarrow> (string, MessageModel) dict \<Rightarrow> bool" where
  "well_formed files messages \<longleftrightarrow>
     distinct (map fst messages) \<and>
     (\<forall>(k, m)\<in>set messages. message_full_name m = k) \<and>
     (\<forall>(k, m)\<in>set messages. case message_parents m of [] \<Rightarrow> True
        | p # ps \<Rightarrow> (\<exists>m'. (p, m') \<in> set messages \<and> message_parents m' = ps \<and> message_package m' = message_package m)) \<and>
     (\<forall>sc c sc' c'. declares files messages sc c \<longrightarrow> declares files messages sc' c' \<longrightarrow> const_id c = const_id c'
        \<longrightarrow> sc = sc' \<and> c = c') \<and>
     (\<forall>sc c. declares files messages sc c \<longrightarrow> constant_ok c)"

lemma spelling_ensures: "value_of_kind k v \<Longrightarrow> ensures (\<lambda>_. True) (cpp_constant_value k v)"
proof (cases v)
  case (PyNum n)
  assume "value_of_kind k v"
  with PyNum show ?thesis
    by (cases n) (auto simp: cpp_constant_value_def dest!: integer_kind_cases)
qed (auto simp: cpp_constant_value_def split: kind.split)

lemma declares_valid: "declares files messages sc c \<Longrightarrow> valid_scope messages sc"
  unfolding declares_def valid_scope_def by (cases sc) (auto simp: message_scope_def)

lemma message_declares: "(k, m) \<in> set messages \<Longrightarrow> c \<in> set (message_constants m) \<Longrightarrow>
    declares files messages (message_scope m) c"
  by (auto simp: declares_def)

lemma add_constants_lookup:
  "map_of (add_constants d cs) n = Some c \<Longrightarrow> c \<in> set cs \<or> map_of d n = Some c"
proof (induction cs arbitrary: d)
  case (Cons x xs)
  then show ?case by (auto simp: add_constants_def split: if_splits dest!: meta_spec [of _ "dict_set d (const_name x) x"])
qed (simp add: add_constants_def)

lemma dict_get_set: "dict_get (dict_set d k v) k' = (if k' = k then v else dict_get d k')"
  by (simp add: dict_get_def)

lemma by_message_lookup:
  assumes "lookup_table (constants_by_message messages) scope n = Some c"
  shows "\<exists>(k, m)\<in>set messages. message_full_name m = scope \<and> c \<in> set (message_constants m)"
proof -
  have "lookup_table (fold (\<lambda>(_, m) d. dict_set d (message_full_name m) (add_constants [] (message_constants m))) ms d) scope n
      = Some c \<Longrightarrow> lookup_table d scope n = Some c \<or>
        (\<exists>(k, m)\<in>set ms. message_full_name m = scope \<and> c \<in> set (message_constants m))" for ms d
  proof (induction ms arbitrary: d)
    case (Cons x ms)
    obtain k m where x: "x = (k, m)" by (cases x)
    let ?d = "dict_set d (message_full_name m) (add_constants [] (message_constants m))"
    from Cons.IH [of ?d] Cons.prems have "lookup_table ?d scope n = Some c \<or>
        (\<exists>(k, m)\<in>set ms. message_full_name m = scope \<and> c \<in> set (message_constants m))" by (simp add: x)
    moreover have "lookup_table ?d scope n = Some c \<Longrightarrow> lookup_table d scope n = Some c
        \<or> message_full_name m = scope \<and> c \<in> set (message_constants m)"
      using add_constants_lookup [of "[]" "message_constants m" n c]
      by (auto simp: lookup_table_def dict_get_set split: if_splits)
    ultimately show ?case by (auto simp: x)
  qed simp
  from this [of messages "[]"] assms show ?thesis by (simp add: constants_by_message_def lookup_table_def dict_get_def)
qed

lemma by_package_lookup:
  assumes "lookup_table (constants_by_package files) pkg n = Some c"
  shows "\<exists>(k, f)\<in>set files. model_package f = pkg \<and> c \<in> set (model_constants f)"
proof -
  have "lookup_table (fold (\<lambda>(_, f) d. dict_set d (model_package f)
       (add_constants (dict_get d (model_package f)) (model_constants f))) fs d) pkg n
      = Some c \<Longrightarrow> lookup_table d pkg n = Some c \<or>
        (\<exists>(k, f)\<in>set fs. model_package f = pkg \<and> c \<in> set (model_constants f))" for fs d
  proof (induction fs arbitrary: d)
    case (Cons x fs)
    obtain k f where x: "x = (k, f)" by (cases x)
    let ?d = "dict_set d (model_package f) (add_constants (dict_get d (model_package f)) (model_constants f))"
    from Cons.IH [of ?d] Cons.prems have "lookup_table ?d pkg n = Some c \<or>
        (\<exists>(k, f)\<in>set fs. model_package f = pkg \<and> c \<in> set (model_constants f))" by (simp add: x)
    moreover have "lookup_table ?d pkg n = Some c \<Longrightarrow> lookup_table d pkg n = Some c
        \<or> model_package f = pkg \<and> c \<in> set (model_constants f)"
      using add_constants_lookup [of "dict_get d (model_package f)" "model_constants f" n c]
      by (auto simp: lookup_table_def dict_get_set split: if_splits)
    ultimately show ?case by (auto simp: x)
  qed simp
  from this [of files "[]"] assms show ?thesis by (simp add: constants_by_package_def lookup_table_def dict_get_def)
qed

section \<open>Found constants are declared\<close>

lemma env_simps [simp]:
  "cdecimal (resolver_env ctx u files messages) = ctx" "cunicode (resolver_env ctx u files messages) = u"
  "cmessages (resolver_env ctx u files messages) = messages"
  "by_message (resolver_env ctx u files messages) = constants_by_message messages"
  "by_package (resolver_env ctx u files messages) = constants_by_package files"
  by (simp_all add: resolver_env_def)

lemma package_declares:
  "lookup_table (constants_by_package files) pkg n = Some c \<Longrightarrow> declares files messages (PackageScope pkg) c"
  by (drule by_package_lookup) (auto simp: declares_def split: prod.splits)

lemma find_package_declared:
  "find_package_constant (resolver_env ctx u files messages) pkg name = Inr (p, c) \<Longrightarrow>
     declares files messages (PackageScope p) c"
  by (auto simp: find_package_constant_def intro: package_declares split: option.splits if_splits)

lemma find_package_error:
  "find_package_constant (resolver_env ctx u files messages) pkg name = Inl e \<Longrightarrow> e \<noteq> OutOfFuel \<and> e \<noteq> Uncaught"
  by (auto simp: find_package_constant_def split: option.splits if_splits)

lemma unique_message:
  assumes "well_formed files messages" "(k, m) \<in> set messages" "(k', m') \<in> set messages"
    and "message_full_name m = message_full_name m'"
  shows "m = m'"
proof -
  have "k = message_full_name m" "k' = message_full_name m'" "distinct (map fst messages)"
    using assms(1-3) unfolding well_formed_def by auto
  with assms show ?thesis by (metis map_of_eq_Some_iff option.inject)
qed

lemma find_enclosing_declared:
  assumes wf: "well_formed files messages"
  shows "find_enclosing (resolver_env ctx u files messages) chain name = Some (current, c) \<Longrightarrow>
     (\<exists>(k, m)\<in>set messages. chain = message_full_name m # message_parents m \<and> message_package m = pkg) \<Longrightarrow>
     declares files messages (MessageScope current pkg) c"
proof (induction chain)
  case (Cons x xs)
  then obtain k m where m: "(k, m) \<in> set messages" "x = message_full_name m" "xs = message_parents m"
    "message_package m = pkg" by auto
  show ?case
  proof (cases "lookup_table (constants_by_message messages) x name")
    case None
    with Cons.prems have f: "find_enclosing (resolver_env ctx u files messages) xs name = Some (current, c)" by simp
    then obtain p ps where xs: "xs = p # ps" by (cases xs) auto
    have "\<exists>m'. (p, m') \<in> set messages \<and> message_parents m' = ps \<and> message_package m' = pkg"
      using wf m xs unfolding well_formed_def by (fastforce split: list.splits)
    then obtain m' where m': "(p, m') \<in> set messages" "message_parents m' = ps" "message_package m' = pkg" by blast
    moreover have "message_full_name m' = p" using wf m'(1) unfolding well_formed_def by auto
    ultimately show ?thesis using xs by (intro Cons.IH [OF f]) auto
  next
    case (Some c')
    with Cons.prems have c: "current = x # xs" "c = c'" by auto
    obtain k' m' where m': "(k', m') \<in> set messages" "message_full_name m' = x" "c \<in> set (message_constants m')"
      using by_message_lookup [OF Some] c by auto
    have "m' = m" using unique_message [OF wf m'(1) m(1)] m' m by simp
    with message_declares [OF m(1)] m' m c show ?thesis by (simp add: message_scope_def)
  qed
qed simp

lemma find_message_declared:
  assumes wf: "well_formed files messages"
    and f: "find_message_constant (resolver_env ctx u files messages) pkg sc name = Some (target, Some c)"
  shows "declares files messages (message_scope target) c"
proof -
  obtain k where t: "(k, target) \<in> set messages"
    and c: "lookup_table (constants_by_message messages) (message_full_name target) name = Some c"
    using f by (auto simp: find_message_constant_def Let_def split: option.splits if_splits dest!: map_of_SomeD)
  from by_message_lookup [OF c] obtain k' m where m: "(k', m) \<in> set messages"
    "message_full_name m = message_full_name target" "c \<in> set (message_constants m)" by auto
  with unique_message [OF wf m(1) t] message_declares [OF t] show ?thesis by simp
qed

lemma find_in_scope_ensures:
  assumes wf: "well_formed files messages" and sc: "valid_scope messages sc"
  shows "ensures (\<lambda>(target, c). declares files messages target c)
     (find_in_scope (resolver_env ctx u files messages) sc name)"
proof (cases sc)
  case (PackageScope pkg)
  show ?thesis
    by (cases "find_package_constant (resolver_env ctx u files messages) pkg name")
      (auto simp: find_in_scope_def PackageScope dest: find_package_declared find_package_error)
next
  case (MessageScope chain pkg)
  let ?E = "resolver_env ctx u files messages"
  have chain: "\<exists>(k, m)\<in>set messages. chain = message_full_name m # message_parents m \<and> message_package m = pkg"
    using sc by (auto simp: valid_scope_def MessageScope message_scope_def)
  have pk: "ensures (\<lambda>(target, c). declares files messages target c)
      (rbind (find_package_constant ?E pkg name) (\<lambda>(p, c). Inr (PackageScope p, c)))"
    by (cases "find_package_constant ?E pkg name") (auto dest: find_package_declared find_package_error)
  have "ensures (\<lambda>(target, c). \<forall>t. target = Some t \<longrightarrow> declares files messages t c) (find_constant ?E chain pkg name)"
    by (auto simp: find_constant_def Let_def split: option.splits
        intro: find_enclosing_declared [OF wf _ chain] find_message_declared [OF wf])
  then show ?thesis unfolding find_in_scope_def MessageScope scope.case
    by (rule ensures_rbind) (use pk in \<open>auto split: option.splits\<close>)
qed

section \<open>The invariant of the resolver\<close>

definition extends :: "resolver_state \<Rightarrow> resolver_state \<Rightarrow> bool" where
  \<comment> \<open>what is known stays as it is\<close>
  "extends s t \<longleftrightarrow> maxima t = maxima s \<and> (\<forall>i. states s i \<noteq> None \<longrightarrow>
     states t i = states s i \<and> found t i = found s i \<and> depths t i = depths s i)"

definition frame :: "resolver_state \<Rightarrow> resolver_state \<Rightarrow> bool" where
  \<comment> \<open>an evaluation only raises the greatest child depth of the innermost open constant\<close>
  "frame s t \<longleftrightarrow> extends s t \<and> (case child_depths s of [] \<Rightarrow> child_depths t = []
     | d # ds \<Rightarrow> (\<exists>d'\<ge>d. child_depths t = d' # ds))"

definition typed_state :: "(string, FileModel) dict \<Rightarrow> (string, MessageModel) dict \<Rightarrow> resolver_state \<Rightarrow> bool" where
  "typed_state files messages s \<longleftrightarrow> (\<forall>sc c. declares files messages sc c \<longrightarrow> states s (const_id c) = Some Done \<longrightarrow>
     (\<exists>v d. found s (const_id c) = Some v \<and> value_of_kind (const_kind c) v \<and> depths s (const_id c) = Some d
        \<and> 0 < d \<and> d \<le> MAX_CONSTANT_DEPENDENCY_DEPTH))"

definition consult :: "resolver_state \<Rightarrow> nat \<Rightarrow> resolve" where
  \<comment> \<open>a resolver that only answers for finished constants of a depth up to \<open>D\<close>\<close>
  "consult S D sc c s =
     (case depths S (const_id c) of None \<Rightarrow> Inl Uncaught | Some d \<Rightarrow> if d \<le> D then Inr s else Inl Uncaught)"

definition satisfies_definition :: "const_env \<Rightarrow> resolver_state \<Rightarrow> scope \<Rightarrow> ConstantModel \<Rightarrow> bool" where
  "satisfies_definition E S sc c \<longleftrightarrow> (\<exists>d v. depths S (const_id c) = Some d \<and> found S (const_id c) = Some v \<and>
     evaluate_constant E (consult S (d - 1)) sc c S = Inr (v, S))"

definition below :: "resolver_state \<Rightarrow> resolver_state \<Rightarrow> bool" where
  "below S s \<longleftrightarrow> (\<forall>i. states s i = Some Done \<longrightarrow> found S i = found s i \<and> depths S i = depths s i)"

definition grounded :: "const_env \<Rightarrow> (string, FileModel) dict \<Rightarrow> (string, MessageModel) dict \<Rightarrow> resolver_state \<Rightarrow> bool" where
  \<comment> \<open>in every final state above this one, the constants finished so far satisfy their definitions\<close>
  "grounded E files messages s \<longleftrightarrow> (\<forall>S. child_depths S = [] \<longrightarrow> below S s \<longrightarrow>
     (\<forall>sc c. declares files messages sc c \<longrightarrow> states s (const_id c) = Some Done \<longrightarrow> satisfies_definition E S sc c))"

definition state_ok ::
  "decimal_context \<Rightarrow> unicode_data \<Rightarrow> (string, FileModel) dict \<Rightarrow> (string, MessageModel) dict \<Rightarrow> resolver_state \<Rightarrow> bool" where
  "state_ok ctx u files messages s \<longleftrightarrow> well_formed files messages \<and> sane_unicode u \<and> typed_state files messages s
     \<and> grounded (resolver_env ctx u files messages) files messages s"

definition lookup_ok where
  "lookup_ok ctx u files messages sc s0 s \<longleftrightarrow>
     state_ok ctx u files messages s \<and> valid_scope messages sc \<and> frame s0 s"

lemma extends_refl [simp]: "extends s s"
  by (simp add: extends_def)

lemma extends_trans: "extends s t \<Longrightarrow> extends t r \<Longrightarrow> extends s r"
  by (auto simp: extends_def)

lemma extends_done: "extends s t \<Longrightarrow> states s i = Some Done \<Longrightarrow>
    states t i = Some Done \<and> found t i = found s i \<and> depths t i = depths s i"
  by (auto simp: extends_def)

lemma frame_refl [simp]: "frame s s"
  by (simp add: frame_def split: list.splits)

lemma frame_trans: "frame s t \<Longrightarrow> frame t r \<Longrightarrow> frame s r"
  unfolding frame_def by (auto intro: extends_trans split: list.splits intro: order_trans)

lemma below_extends: "extends s t \<Longrightarrow> below S t \<Longrightarrow> below S s"
  unfolding below_def by (metis extends_done)

lemma done_states_ok:
  assumes "state_ok ctx u files messages s"
    and "\<And>i. states t i = Some Done \<longleftrightarrow> states s i = Some Done" "found t = found s" "depths t = depths s"
  shows "state_ok ctx u files messages t"
  using assms by (simp add: state_ok_def typed_state_def grounded_def below_def)

lemma state_ok_declared:
  assumes "state_ok ctx u files messages s" "declares files messages sc c" "states s (const_id c) = Some Done"
  obtains v d where "found s (const_id c) = Some v" "value_of_kind (const_kind c) v"
    "depths s (const_id c) = Some d" "0 < d" "d \<le> MAX_CONSTANT_DEPENDENCY_DEPTH"
  using assms unfolding state_ok_def typed_state_def by blast

lemma constant_value_typed:
  assumes "found s (const_id c) = Some v" "value_of_kind (const_kind c) v"
  shows "\<exists>w. constant_value c s = Inr w \<and> well_typed w"
proof (cases v)
  case (PyNum n)
  with assms(2) have "has_kind n (const_kind c)" by simp
  with assms(1) PyNum show ?thesis
    by (auto simp: constant_value_def constant_numeric_kind_def dest: has_kind_numeric intro: has_kind_read)
qed (use assms in \<open>simp_all add: constant_value_def\<close>)

section \<open>One resolver calls the next\<close>

locale constant_resolver =
  fixes ctx :: decimal_context and u :: unicode_data
    and files :: "(string, FileModel) dict" and messages :: "(string, MessageModel) dict"
    and resolve :: resolve
  assumes resolves: "declares files messages sc c \<Longrightarrow> state_ok ctx u files messages s \<Longrightarrow>
    ensures (\<lambda>t. state_ok ctx u files messages t \<and> extends s t \<and> child_depths t = child_depths s
       \<and> states t (const_id c) = Some Done) (resolve sc c s)"
begin

lemma lookup_ensures:
  assumes "lookup_ok ctx u files messages sc s0 s"
  shows "ensures (\<lambda>(v, t). well_typed v \<and> lookup_ok ctx u files messages sc s0 t)
    (lookup_constant (resolver_env ctx u files messages) resolve sc name s)"
proof -
  let ?E = "resolver_env ctx u files messages"
  have ok: "state_ok ctx u files messages s" and valid: "valid_scope messages sc" and fr: "frame s0 s"
    using assms by (simp_all add: lookup_ok_def)
  have wf: "well_formed files messages" using ok by (simp add: state_ok_def)
  show ?thesis unfolding lookup_constant_def
  proof (rule ensures_rbind [OF find_in_scope_ensures [OF wf valid]], clarify)
    fix target c assume dec: "declares files messages target c"
    show "ensures (\<lambda>(v, t). well_typed v \<and> lookup_ok ctx u files messages sc s0 t)
      (rbind (resolve target c s) (\<lambda>s. rbind (constant_value c s) (\<lambda>v.
         rbind (record_constant_dependency c s) (\<lambda>s. Inr (v, s)))))"
    proof (rule ensures_rbind [OF resolves [OF dec ok]], clarify)
      fix t assume t: "state_ok ctx u files messages t" "extends s t" "child_depths t = child_depths s"
        "states t (const_id c) = Some Done"
      obtain v d where v: "found t (const_id c) = Some v" "value_of_kind (const_kind c) v" "depths t (const_id c) = Some d"
        by (rule state_ok_declared [OF t(1) dec t(4)])
      from constant_value_typed [OF v(1,2)] obtain w where w: "constant_value c t = Inr w" "well_typed w" by blast
      have "\<exists>r. record_constant_dependency c t = Inr r \<and> frame s r \<and> state_ok ctx u files messages r"
      proof (cases "child_depths t")
        case Nil
        then show ?thesis using t by (simp add: record_constant_dependency_def frame_def)
      next
        case (Cons a as)
        have "extends s (t\<lparr>child_depths := max a d # as\<rparr>)" using t(2) by (simp add: extends_def)
        moreover have "state_ok ctx u files messages (t\<lparr>child_depths := max a d # as\<rparr>)"
          by (rule done_states_ok [OF t(1)]) simp_all
        ultimately show ?thesis using Cons t(3) v(3)
          by (auto simp: record_constant_dependency_def frame_def)
      qed
      then obtain r where r: "record_constant_dependency c t = Inr r" "frame s r" "state_ok ctx u files messages r"
        by blast
      from w r valid frame_trans [OF fr r(2)] show "ensures (\<lambda>(v, t). well_typed v \<and> lookup_ok ctx u files messages sc s0 t)
         (rbind (constant_value c t) (\<lambda>v. rbind (record_constant_dependency c t) (\<lambda>s. Inr (v, s))))"
        by (simp add: lookup_ok_def)
    qed
  qed
qed

sublocale lookup: name_resolver "expr_env (resolver_env ctx u files messages) resolve sc label"
  "lookup_ok ctx u files messages sc s0" for sc label s0
  by unfold_locales (simp_all add: expr_env_def lookup_ensures, simp add: lookup_ok_def state_ok_def)

lemma lookup_consults:
  assumes ok: "lookup_ok ctx u files messages sc s0 s"
    and run: "lookup_constant (resolver_env ctx u files messages) resolve sc name s = Inr (v, t)"
    and S: "child_depths S = []" "below S t" "child_depths t = d # ds" "d \<le> D"
  shows "below S s \<and> (\<exists>d'. child_depths s = d' # ds \<and> d' \<le> D)
    \<and> lookup_constant (resolver_env ctx u files messages) (consult S D) sc name S = Inr (v, S)"
proof -
  let ?E = "resolver_env ctx u files messages"
  from run obtain target c t1 where f: "find_in_scope ?E sc name = Inr (target, c)" and r: "resolve target c s = Inr t1"
    and v: "constant_value c t1 = Inr v" and rec: "record_constant_dependency c t1 = Inr t"
    by (auto simp: lookup_constant_def)
  have sok: "state_ok ctx u files messages s" and valid: "valid_scope messages sc" using ok by (simp_all add: lookup_ok_def)
  then have wf: "well_formed files messages" by (simp add: state_ok_def)
  have dec: "declares files messages target c"
    using find_in_scope_ensures [OF wf valid, of ctx u name] f by simp
  have t1: "extends s t1" "child_depths t1 = child_depths s" "states t1 (const_id c) = Some Done"
    using resolves [OF dec sok] r by simp_all
  from rec S(3) obtain a k where a: "child_depths t1 = a # ds" "depths t1 (const_id c) = Some k" "d = max a k"
    and t: "t = t1\<lparr>child_depths := d # ds\<rparr>"
    by (auto simp: record_constant_dependency_def split: list.splits option.splits)
  have bt: "below S t1" using S(2) t by (simp add: below_def)
  then have S': "found S (const_id c) = found t1 (const_id c)" "depths S (const_id c) = Some k"
    using t1(3) a(2) by (auto simp: below_def)
  have "lookup_constant ?E (consult S D) sc name S = Inr (v, S)"
    using f v S S' a by (simp add: lookup_constant_def consult_def constant_value_def record_constant_dependency_def)
  with below_extends [OF t1(1) bt] a t1(2) S(4) show ?thesis by auto
qed

sublocale consulting: expr_refines "expr_env (resolver_env ctx u files messages) resolve sc label"
  "lookup_ok ctx u files messages sc s0" "expr_env (resolver_env ctx u files messages) (consult S D) sc label"
  "\<lambda>t. child_depths S = [] \<and> below S t \<and> (\<exists>d ds. child_depths t = d # ds \<and> d \<le> D)" S
  for sc label s0 S D
  by unfold_locales (simp_all add: expr_env_def, blast dest: lookup_consults)

lemma evaluate_ensures:
  assumes dec: "declares files messages sc c" and ok: "state_ok ctx u files messages s"
  shows "ensures (\<lambda>(v, t). value_of_kind (const_kind c) v \<and> state_ok ctx u files messages t \<and> frame s t)
     (evaluate_constant (resolver_env ctx u files messages) resolve sc c s)"
proof -
  have c: "constant_ok c" using dec ok unfolding state_ok_def well_formed_def by blast
  have l: "lookup_ok ctx u files messages sc s s"
    using ok declares_valid [OF dec] by (simp add: lookup_ok_def)
  show ?thesis
  proof (cases "const_literal c")
    case (Some literal)
    have "wf_float x" if "literal = PyNum (PFloat x)" for x using c Some that by (simp add: constant_ok_def)
    then have "ensures (value_of_kind (const_kind c)) (coerce_literal (const_kind c) literal (const_full_name c))"
      by (rule coerce_literal_ensures)
    then show ?thesis unfolding evaluate_constant_def Some option.case
      by (rule ensures_rbind) (use ok in simp)
  next
    case None
    with c obtain e where e: "const_expr c = Some e" by (auto simp: constant_ok_def)
    show ?thesis unfolding evaluate_constant_def None e option.case
    proof (rule ensures_rbind [OF lookup.evaluate_ensures [OF l]], clarify)
      fix parsed t assume w: "well_typed parsed" and t: "lookup_ok ctx u files messages sc s t"
      show "ensures (\<lambda>(v, t). value_of_kind (const_kind c) v \<and> state_ok ctx u files messages t \<and> frame s t)
        (rbind (coerce_expression_value (const_kind c) parsed (const_full_name c)) (\<lambda>v. Inr (v, t)))"
        by (rule ensures_rbind [OF coerce_expression_ensures [OF w]]) (use t in \<open>simp add: lookup_ok_def\<close>)
    qed
  qed
qed

lemma evaluate_consults:
  assumes dec: "declares files messages sc c" and ok: "state_ok ctx u files messages s"
    and run: "evaluate_constant (resolver_env ctx u files messages) resolve sc c s = Inr (v, t)"
    and S: "child_depths S = []" "below S t" "child_depths t = d # ds" "d \<le> D"
  shows "evaluate_constant (resolver_env ctx u files messages) (consult S D) sc c S = Inr (v, S)"
proof (cases "const_literal c")
  case None
  have l: "lookup_ok ctx u files messages sc s s"
    using ok declares_valid [OF dec] by (simp add: lookup_ok_def)
  from run None obtain e parsed where e: "const_expr c = Some e"
    and p: "evaluate_expression (expr_env (resolver_env ctx u files messages) resolve sc (const_full_name c)) e s
       = Inr (parsed, t)"
    and v: "coerce_expression_value (const_kind c) parsed (const_full_name c) = Inr v"
    by (auto simp: evaluate_constant_def split: option.splits)
  have "evaluate_expression (expr_env (resolver_env ctx u files messages) (consult S D) sc (const_full_name c)) e S
     = Inr (parsed, S)"
    using consulting.evaluate_refines [OF l p, of S D] S by blast
  with None e v show ?thesis by (simp add: evaluate_constant_def)
qed (use run in \<open>auto simp: evaluate_constant_def\<close>)

lemma resolve_step:
  assumes dec: "declares files messages sc c" and ok: "state_ok ctx u files messages s"
    and new: "states s (const_id c) = None"
  shows "ensures (\<lambda>t. state_ok ctx u files messages t \<and> extends s t \<and> child_depths t = child_depths s
       \<and> states t (const_id c) = Some Done)
    (rbind (evaluate_constant (resolver_env ctx u files messages) resolve sc c
       (s\<lparr>states := (states s)(const_id c \<mapsto> Visiting), child_depths := 0 # child_depths s\<rparr>)) (\<lambda>(v, s).
       finish_constant c v s))"
proof -
  let ?E = "resolver_env ctx u files messages"
  let ?s = "s\<lparr>states := (states s)(const_id c \<mapsto> Visiting), child_depths := 0 # child_depths s\<rparr>"
  have wf: "well_formed files messages" using ok by (simp add: state_ok_def)
  have same: "sc' = sc \<and> c' = c" if "declares files messages sc' c'" "const_id c' = const_id c" for sc' c'
    using wf that dec unfolding well_formed_def by blast
  have ok': "state_ok ctx u files messages ?s"
    by (rule done_states_ok [OF ok]) (use new in auto)
  show ?thesis
  proof (rule ensures_rbind [OF evaluate_ensures [OF dec ok']], clarify)
    fix v t
    assume run: "evaluate_constant ?E resolve sc c ?s = Inr (v, t)" and v: "value_of_kind (const_kind c) v"
      and t: "state_ok ctx u files messages t" and fr: "frame ?s t"
    from fr obtain d where d: "child_depths t = d # child_depths s" by (auto simp: frame_def)
    have vis: "states t (const_id c) = Some Visiting" and ext: "extends ?s t"
      using fr by (auto simp: frame_def extends_def)
    show "ensures (\<lambda>t. state_ok ctx u files messages t \<and> extends s t \<and> child_depths t = child_depths s
        \<and> states t (const_id c) = Some Done) (finish_constant c v t)"
    proof (cases "d + 1 > MAX_CONSTANT_DEPENDENCY_DEPTH")
      case False
      have spell: "ensures (\<lambda>_. True) (cpp_constant_value (const_kind c) v)"
        using v by (rule spelling_ensures)
      show ?thesis unfolding finish_constant_def Let_def d list.sel
      proof (simp only: False if_False, rule ensures_rbind [OF spell])
        fix w
        let ?t = "t\<lparr>states := (states t)(const_id c \<mapsto> Done), found := (found t)(const_id c \<mapsto> v),
          spellings := (spellings t)(const_id c \<mapsto> w), depths := (depths t)(const_id c \<mapsto> d + 1),
          child_depths := child_depths s\<rparr>"
        have typed: "typed_state files messages ?t"
          using t v False same unfolding state_ok_def typed_state_def by auto
        have "grounded ?E files messages ?t"
          unfolding grounded_def
        proof (intro allI impI)
          fix S sc' c'
          assume S: "child_depths S = []" and b: "below S ?t" and dec': "declares files messages sc' c'"
            and dn: "states ?t (const_id c') = Some Done"
          have bt: "below S t" using b vis unfolding below_def by (auto split: if_splits)
          show "satisfies_definition ?E S sc' c'"
          proof (cases "const_id c' = const_id c")
            case True
            have "found S (const_id c) = Some v" "depths S (const_id c) = Some (d + 1)"
              using b by (auto simp: below_def)
            with evaluate_consults [OF dec ok' run S bt d, of d] same [OF dec' True] show ?thesis
              by (simp add: satisfies_definition_def)
          next
            case False
            with dn have "states t (const_id c') = Some Done" by simp
            with t S bt dec' show ?thesis unfolding state_ok_def grounded_def by blast
          qed
        qed
        moreover have "extends s ?t"
          using ext new unfolding extends_def by (auto split: if_splits)
        ultimately show "ensures (\<lambda>t. state_ok ctx u files messages t \<and> extends s t \<and> child_depths t = child_depths s
            \<and> states t (const_id c) = Some Done) (Inr ?t)"
          using typed t by (simp add: state_ok_def)
      qed
    qed (simp add: finish_constant_def d)
  qed
qed

end

lemma resolve_at_resolver:
  "constant_resolver ctx u files messages (resolve_at (resolver_env ctx u files messages) n)"
proof (induction n)
  case 0
  show ?case
  proof
    fix sc c s assume "declares files messages sc c" "state_ok ctx u files messages s"
    then show "ensures (\<lambda>t. state_ok ctx u files messages t \<and> extends s t \<and> child_depths t = child_depths s
       \<and> states t (const_id c) = Some Done) (resolve_at (resolver_env ctx u files messages) 0 sc c s)"
      by (subst resolve_at.simps) (auto split: option.split const_state.split)
  qed
next
  case (Suc n)
  show ?case
  proof
    fix sc c s assume "declares files messages sc c" "state_ok ctx u files messages s"
    then show "ensures (\<lambda>t. state_ok ctx u files messages t \<and> extends s t \<and> child_depths t = child_depths s
       \<and> states t (const_id c) = Some Done) (resolve_at (resolver_env ctx u files messages) (Suc n) sc c s)"
      using constant_resolver.resolve_step [OF Suc, of sc c s]
      by (subst resolve_at.simps) (auto split: option.split const_state.split)
  qed
qed

interpretation resolver: constant_resolver ctx u files messages "resolve_at (resolver_env ctx u files messages) n"
  for ctx u files messages n
  by (rule resolve_at_resolver)

section \<open>All constants and arrays\<close>

lemma add_constants_distinct: "distinct (map fst d) \<Longrightarrow> distinct (map fst (add_constants d cs))"
  by (induction cs arbitrary: d) (simp_all add: add_constants_def distinct_dict_set)

definition table_ok :: "(string, constants) dict \<Rightarrow> bool" where
  "table_ok d \<longleftrightarrow> distinct (map fst d) \<and> (\<forall>(p, cs)\<in>set d. distinct (map fst cs))"

lemma table_ok_set:
  assumes "table_ok d"
  shows "table_ok (dict_set d p (add_constants (dict_get d p) cs))"
proof -
  have "distinct (map fst (dict_get d p))"
    using assms by (auto simp: table_ok_def dict_get_def split: option.split dest!: map_of_SomeD)
  then have "distinct (map fst (add_constants (dict_get d p) cs))" by (rule add_constants_distinct)
  with assms show ?thesis unfolding table_ok_def
    using set_dict_set [of d p "add_constants (dict_get d p) cs"] by (auto simp: distinct_dict_set)
qed

lemma by_package_ok: "table_ok (constants_by_package files)"
proof -
  have "table_ok d \<Longrightarrow> table_ok (fold (\<lambda>(_, f) d. dict_set d (model_package f)
       (add_constants (dict_get d (model_package f)) (model_constants f))) files d)" for d
    by (induction files arbitrary: d) (auto intro: table_ok_set)
  from this [of "[]"] show ?thesis unfolding constants_by_package_def by (simp add: table_ok_def)
qed

lemma by_package_entry:
  assumes "(pkg, cs) \<in> set (constants_by_package files)" "(n, c) \<in> set cs"
  shows "lookup_table (constants_by_package files) pkg n = Some c"
proof -
  have "distinct (map fst (constants_by_package files))" "distinct (map fst cs)"
    using by_package_ok [of files] assms(1) by (auto simp: table_ok_def)
  with assms show ?thesis by (simp add: lookup_table_def dict_get_def map_of_eq_Some_iff)
qed

lemma lookup_entry:
  assumes "lookup_table d pkg n = Some c"
  shows "\<exists>cs. (pkg, cs) \<in> set d \<and> (n, c) \<in> set cs"
  using assms by (auto simp: lookup_table_def dict_get_def split: option.splits dest!: map_of_SomeD)

lemma ensures_rfold:
  assumes step: "\<And>x s. x \<in> set xs \<Longrightarrow> I s \<Longrightarrow> ensures (\<lambda>t. I t \<and> R s t \<and> Q x t) (f x s)"
    and R: "\<And>s. R s s" "\<And>s t r. R s t \<Longrightarrow> R t r \<Longrightarrow> R s r" and Q: "\<And>x s t. Q x s \<Longrightarrow> R s t \<Longrightarrow> Q x t"
  shows "I s \<Longrightarrow> ensures (\<lambda>t. I t \<and> R s t \<and> (\<forall>x\<in>set xs. Q x t)) (rfold f xs s)"
  using step
proof (induction xs arbitrary: s)
  case (Cons x xs)
  have "ensures (\<lambda>t. I t \<and> R s t \<and> Q x t) (f x s)" using Cons.prems by simp
  then show ?case unfolding rfold.simps
  proof (rule ensures_rbind)
    fix t assume t: "I t \<and> R s t \<and> Q x t"
    have "ensures (\<lambda>r. I r \<and> R t r \<and> (\<forall>x\<in>set xs. Q x r)) (rfold f xs t)"
      using Cons.prems(2) t by (intro Cons.IH) auto
    then show "ensures (\<lambda>r. I r \<and> R s r \<and> (\<forall>x\<in>set (x # xs). Q x r)) (rfold f xs t)"
      by (rule ensures_mono) (use t R(2) Q in auto)
  qed
qed (use R in simp)

definition run_ok :: "decimal_context \<Rightarrow> unicode_data \<Rightarrow> (string, FileModel) dict \<Rightarrow> (string, MessageModel) dict
    \<Rightarrow> resolver_state \<Rightarrow> bool" where
  "run_ok ctx u files messages s \<longleftrightarrow> state_ok ctx u files messages s \<and> child_depths s = [] \<and>
     (\<forall>k i. maxima s k = Some i \<longrightarrow> 0 < i \<and> i < 2 ^ 32)"

definition grows :: "resolver_state \<Rightarrow> resolver_state \<Rightarrow> bool" where
  "grows s t \<longleftrightarrow> (\<forall>i. states s i = Some Done \<longrightarrow> states t i = Some Done) \<and>
     (\<forall>k. maxima s k \<noteq> None \<longrightarrow> maxima t k \<noteq> None)"

definition array_done :: "MessageModel \<Rightarrow> FieldModel \<Rightarrow> resolver_state \<Rightarrow> bool" where
  "array_done m f s \<longleftrightarrow> (array_expr f \<noteq> None \<longrightarrow> maxima s (message_full_name m, field_name f) \<noteq> None)"

lemma grows_refl: "grows s s" and grows_trans: "grows s t \<Longrightarrow> grows t r \<Longrightarrow> grows s r"
  by (auto simp: grows_def)

lemma extends_grows: "extends s t \<Longrightarrow> grows s t"
  by (auto simp: extends_def grows_def)

lemma run_ok_extends:
  "run_ok ctx u files messages s \<Longrightarrow> state_ok ctx u files messages t \<Longrightarrow> extends s t \<Longrightarrow>
     child_depths t = child_depths s \<Longrightarrow> run_ok ctx u files messages t"
  by (simp add: run_ok_def extends_def)

lemma resolve_run_ensures:
  assumes "declares files messages sc c" "run_ok ctx u files messages s"
  shows "ensures (\<lambda>t. run_ok ctx u files messages t \<and> grows s t \<and> states t (const_id c) = Some Done)
    (resolve_at (resolver_env ctx u files messages) n sc c s)"
proof (rule ensures_mono [OF resolver.resolves [OF assms(1)]])
  show "state_ok ctx u files messages s" using assms(2) by (simp add: run_ok_def)
qed (use assms(2) extends_grows run_ok_extends in blast)

lemma resolve_array_ensures:
  assumes m: "(k, m) \<in> set messages" and s: "run_ok ctx u files messages s"
  shows "ensures (\<lambda>t. run_ok ctx u files messages t \<and> grows s t \<and> array_done m f t)
    (resolve_array (resolver_env ctx u files messages) m f s)"
proof (cases "array_expr f")
  case None
  with s show ?thesis by (simp add: resolve_array_def array_done_def grows_refl)
next
  case (Some expr)
  define label where "label = message_full_name m @ ''.'' @ field_name f"
  have l: "lookup_ok ctx u files messages (message_scope m) s s"
    using s m by (auto simp: lookup_ok_def run_ok_def valid_scope_def message_scope_def)
  show ?thesis unfolding resolve_array_def Some option.case Let_def label_def [symmetric]
  proof (rule ensures_rbind [OF resolver.lookup.evaluate_ensures [OF l]], clarify)
    fix v t assume v: "well_typed v" and t: "lookup_ok ctx u files messages (message_scope m) s t"
    have ext: "extends s t" and run: "run_ok ctx u files messages t"
      using t s by (auto simp: lookup_ok_def frame_def run_ok_def extends_def)
    show "ensures (\<lambda>t. run_ok ctx u files messages t \<and> grows s t \<and> array_done m f t)
      (rbind (coerce_expression_value KUInt32 v label) (\<lambda>numeric. case numeric of
            PyNum (PInt i) \<Rightarrow>
              if i \<le> 0 then Inl (constant_error label ArrayNotPositive)
              else (case default_byte_size f of
                   None \<Rightarrow> Inr (t\<lparr>maxima := (maxima t)((message_full_name m, field_name f) \<mapsto> i)\<rparr>)
                 | Some size_of \<Rightarrow>
                     rbind (validate_array_default_byte_size label size_of i (array_fixed f))
                       (\<lambda>_. Inr (t\<lparr>maxima := (maxima t)((message_full_name m, field_name f) \<mapsto> i)\<rparr>)))
          | _ \<Rightarrow> Inl (constant_error label ArrayNotPositive)))"
    proof (rule ensures_rbind [OF coerce_expression_ensures [OF v]])
      fix numeric assume n: "value_of_kind KUInt32 numeric"
      have "\<exists>i. numeric = PyNum (PInt i) \<and> 0 \<le> i \<and> i < 2 ^ 32"
      proof (cases numeric)
        case (PyNum x)
        with n show ?thesis by (cases x) auto
      qed (use n in auto)
      then obtain i where i: "numeric = PyNum (PInt i)" "0 \<le> i" "i < 2 ^ 32" by blast
      let ?t = "t\<lparr>maxima := (maxima t)((message_full_name m, field_name f) \<mapsto> i)\<rparr>"
      have "state_ok ctx u files messages ?t"
        by (rule done_states_ok [of _ _ _ _ t]) (use run in \<open>simp_all add: run_ok_def\<close>)
      then have "i > 0 \<Longrightarrow> run_ok ctx u files messages ?t \<and> grows s ?t \<and> array_done m f ?t"
        using run i extends_grows [OF ext] by (auto simp: run_ok_def grows_def array_done_def)
      then show "ensures (\<lambda>t. run_ok ctx u files messages t \<and> grows s t \<and> array_done m f t)
       (case numeric of PyNum (PInt i) \<Rightarrow>
              if i \<le> 0 then Inl (constant_error label ArrayNotPositive)
              else (case default_byte_size f of
                   None \<Rightarrow> Inr (t\<lparr>maxima := (maxima t)((message_full_name m, field_name f) \<mapsto> i)\<rparr>)
                 | Some size_of \<Rightarrow>
                     rbind (validate_array_default_byte_size label size_of i (array_fixed f))
                       (\<lambda>_. Inr (t\<lparr>maxima := (maxima t)((message_full_name m, field_name f) \<mapsto> i)\<rparr>)))
          | _ \<Rightarrow> Inl (constant_error label ArrayNotPositive))"
        unfolding i(1) by (cases "default_byte_size f") (auto simp: validate_array_default_byte_size_def)
    qed
  qed
qed

lemma grows_done: "states s i = Some Done \<Longrightarrow> grows s t \<Longrightarrow> states t i = Some Done"
  by (simp add: grows_def)

lemma grows_array: "array_done m f s \<Longrightarrow> grows s t \<Longrightarrow> array_done m f t"
  by (simp add: grows_def array_done_def)

definition message_done :: "MessageModel \<Rightarrow> resolver_state \<Rightarrow> bool" where
  "message_done m s \<longleftrightarrow> is_map_entry m \<or>
     (\<forall>c\<in>set (message_constants m). states s (const_id c) = Some Done) \<and>
     (\<forall>f\<in>set (message_fields m). array_done m f s)"

lemma resolve_message_ensures:
  assumes m: "(k, m) \<in> set messages" and s: "run_ok ctx u files messages s"
  shows "ensures (\<lambda>t. run_ok ctx u files messages t \<and> grows s t \<and> message_done m t)
    (resolve_message (resolver_env ctx u files messages) m s)"
proof (cases "is_map_entry m")
  case True
  with s show ?thesis by (simp add: resolve_message_def message_done_def grows_refl)
next
  case False
  have "ensures (\<lambda>t. run_ok ctx u files messages t \<and> grows s t \<and> (\<forall>c\<in>set (message_constants m). states t (const_id c) = Some Done))
    (rfold (\<lambda>c. resolve_at (resolver_env ctx u files messages) MAX_CONSTANT_DEPENDENCY_DEPTH (message_scope m) c)
      (message_constants m) s)"
    by (rule ensures_rfold [where Q = "\<lambda>c t. states t (const_id c) = Some Done", OF _ grows_refl grows_trans grows_done])
      (auto intro!: resolve_run_ensures message_declares [OF m] s)
  then show ?thesis unfolding resolve_message_def if_not_P [OF False]
  proof (rule ensures_rbind)
    fix t assume t: "run_ok ctx u files messages t \<and> grows s t \<and>
      (\<forall>c\<in>set (message_constants m). states t (const_id c) = Some Done)"
    have "ensures (\<lambda>r. run_ok ctx u files messages r \<and> grows t r \<and> (\<forall>f\<in>set (message_fields m). array_done m f r))
      (rfold (resolve_array (resolver_env ctx u files messages) m) (message_fields m) t)"
      by (rule ensures_rfold [where Q = "array_done m", OF _ grows_refl grows_trans grows_array])
        (auto intro!: resolve_array_ensures [OF m] conjunct1 [OF t])
    then show "ensures (\<lambda>r. run_ok ctx u files messages r \<and> grows s r \<and> message_done m r)
      (rfold (resolve_array (resolver_env ctx u files messages) m) (message_fields m) t)"
      by (rule ensures_mono) (use t grows_trans grows_done in \<open>unfold message_done_def, blast\<close>)
  qed
qed

lemma message_done_grows: "message_done m s \<Longrightarrow> grows s t \<Longrightarrow> message_done m t"
  unfolding message_done_def using grows_done grows_array by blast

lemma initial_ok:
  "well_formed files messages \<Longrightarrow> sane_unicode u \<Longrightarrow> run_ok ctx u files messages initial_state"
  by (simp add: run_ok_def state_ok_def typed_state_def grounded_def initial_state_def)

lemma resolution_ensures:
  assumes wf: "well_formed files messages" and u: "sane_unicode u"
  shows "ensures (\<lambda>S. run_ok ctx u files messages S \<and>
      (\<forall>pkg n c. lookup_table (constants_by_package files) pkg n = Some c \<longrightarrow> states S (const_id c) = Some Done) \<and>
      (\<forall>(k, m)\<in>set messages. message_done m S)) (resolve_constants_and_arrays ctx u files messages)"
proof -
  let ?E = "resolver_env ctx u files messages"
  let ?tables = "constants_by_package files"
  define Q where "Q = (\<lambda>(x :: string \<times> constants) (t :: resolver_state).
     \<forall>y\<in>set (snd x). states t (const_id (snd y)) = Some Done)"
  have step: "ensures (\<lambda>t. run_ok ctx u files messages t \<and> grows s t \<and> Q (pkg, cs) t)
      (rfold (\<lambda>(_, c). resolve_at ?E MAX_CONSTANT_DEPENDENCY_DEPTH (PackageScope pkg) c) cs s)"
    if "(pkg, cs) \<in> set ?tables" "run_ok ctx u files messages s" for pkg cs s
    unfolding Q_def snd_conv
    by (rule ensures_rfold [where Q = "\<lambda>y t. states t (const_id (snd y)) = Some Done" and R = grows])
      (use that in \<open>auto intro!: resolve_run_ensures package_declares by_package_entry grows_refl
        intro: grows_trans grows_done\<close>)
  have "ensures (\<lambda>t. run_ok ctx u files messages t \<and> grows initial_state t \<and> (\<forall>x\<in>set ?tables. Q x t))
     (rfold (\<lambda>(pkg, cs). rfold (\<lambda>(_, c). resolve_at ?E MAX_CONSTANT_DEPENDENCY_DEPTH (PackageScope pkg) c) cs)
        ?tables initial_state)"
    by (rule ensures_rfold [OF _ grows_refl grows_trans])
      (use step initial_ok [OF wf u] in \<open>auto simp: Q_def intro: grows_done\<close>)
  then show ?thesis unfolding resolve_constants_and_arrays_def Let_def env_simps
  proof (rule ensures_rbind)
    fix t assume t: "run_ok ctx u files messages t \<and> grows initial_state t \<and> (\<forall>x\<in>set ?tables. Q x t)"
    have pk: "states t (const_id c) = Some Done" if "lookup_table ?tables pkg n = Some c" for pkg n c
      using lookup_entry [OF that] t by (fastforce simp: Q_def)
    have "ensures (\<lambda>S. run_ok ctx u files messages S \<and> grows t S \<and> (\<forall>x\<in>set messages. message_done (snd x) S))
      (rfold (\<lambda>(_, m). resolve_message ?E m) messages t)"
      by (rule ensures_rfold [OF _ grows_refl grows_trans])
        (use t in \<open>auto intro!: resolve_message_ensures intro: message_done_grows\<close>)
    then show "ensures (\<lambda>S. run_ok ctx u files messages S \<and>
      (\<forall>pkg n c. lookup_table ?tables pkg n = Some c \<longrightarrow> states S (const_id c) = Some Done) \<and>
      (\<forall>(k, m)\<in>set messages. message_done m S)) (rfold (\<lambda>(_, m). resolve_message ?E m) messages t)"
      by (rule ensures_mono) (auto dest!: pk intro: grows_done)
  qed
qed

section \<open>Properties\<close>

definition resolved :: "resolver_state \<Rightarrow> ConstantModel \<Rightarrow> bool" where
  \<comment> \<open>finished, with a value in the range of its kind and a depth within the limit\<close>
  "resolved S c \<longleftrightarrow> states S (const_id c) = Some Done \<and>
     (case (found S (const_id c), depths S (const_id c)) of
        (Some v, Some d) \<Rightarrow> value_of_kind (const_kind c) v \<and> 0 < d \<and> d \<le> MAX_CONSTANT_DEPENDENCY_DEPTH
      | _ \<Rightarrow> False)"

lemma state_ok_resolved:
  "state_ok ctx u files messages S \<Longrightarrow> declares files messages sc c \<Longrightarrow> states S (const_id c) = Some Done \<Longrightarrow> resolved S c"
  unfolding state_ok_def typed_state_def resolved_def by fastforce

definition example_constant :: "const_id \<Rightarrow> string \<Rightarrow> kind \<Rightarrow> string \<Rightarrow> ConstantModel" where
  "example_constant i n k e = \<lparr>const_id = i, const_name = n, const_cpp_name = n, const_full_name = ''p.'' @ n,
     const_kind = k, const_literal = None, const_expr = Some e\<rparr>"

definition example_files :: "(string, FileModel) dict" where
  "example_files = [(''f'', \<lparr>model_file_name = ''f'', model_package = ''p'', model_syntax = ''proto3'',
     model_constants = [example_constant (FileConstant ''f'' 0) ''A'' KUInt32 ''B + 1'',
       example_constant (FileConstant ''f'' 1) ''B'' KInt32 ''7''],
     model_messages = [], model_enums = []\<rparr>)]"

definition example_messages :: "(string, MessageModel) dict" where
  "example_messages = [(''p.M'', \<lparr>message_name = ''M'', message_cpp_name = ''M'', message_full_name = ''p.M'',
     message_file_name = ''f'', message_package = ''p'', message_parents = [],
     message_descriptor = msg_data (plain_message ''M'' []), is_map_entry = False, message_deprecated = False,
     message_fields = [], message_oneofs = [],
     message_constants = [example_constant (MessageConstant ''p.M'' 0) ''C'' KInt64 ''p.A * 2'']\<rparr>)]"

definition ascii_only :: unicode_data where
  \<comment> \<open>tables that know no character outside ASCII\<close>
  "ascii_only = \<lparr>uspace = (\<lambda>_. False), udigit = (\<lambda>_. False), ualpha = (\<lambda>_. False), ualnum = (\<lambda>_. False),
     unumber = (\<lambda>_. None), uname = (\<lambda>_. None)\<rparr>"

definition no_decimals :: decimal_context where
  "no_decimals = \<lparr>dsqrt = (\<lambda>_. None), dexp = (\<lambda>_. None), dln = (\<lambda>_. None), dlog10 = (\<lambda>_. None),
     dmul = (\<lambda>_ _. None), ddiv = (\<lambda>_ _. None)\<rparr>"

lemma example_declares: "declares example_files example_messages sc c \<longleftrightarrow>
    sc = MessageScope [''p.M''] ''p'' \<and> c = example_constant (MessageConstant ''p.M'' 0) ''C'' KInt64 ''p.A * 2'' \<or>
    sc = PackageScope ''p'' \<and> (c = example_constant (FileConstant ''f'' 0) ''A'' KUInt32 ''B + 1''
      \<or> c = example_constant (FileConstant ''f'' 1) ''B'' KInt32 ''7'')"
  by (auto simp: declares_def example_files_def example_messages_def message_scope_def)

lemma example_well_formed: "well_formed example_files example_messages"
proof -
  have "constant_ok (example_constant i n k e)" for i n k e
    by (simp add: constant_ok_def example_constant_def)
  then show ?thesis unfolding well_formed_def example_declares
    by (auto simp: example_messages_def example_constant_def)
qed

lemma example_unicode: "sane_unicode ascii_only"
  by (simp add: sane_unicode_def ascii_only_def)

lemma example_values:
  "case resolve_constants_and_arrays no_decimals ascii_only example_files example_messages of
     Inl _ \<Rightarrow> False
   | Inr S \<Rightarrow> found S (FileConstant ''f'' 0) = Some (PyNum (PInt 8)) \<and>
       found S (MessageConstant ''p.M'' 0) = Some (PyNum (PInt 16)) \<and>
       states S (MessageConstant ''p.M'' 0) = Some Done \<and> depths S (MessageConstant ''p.M'' 0) = Some 3"
  by code_simp

text \<open>
  C24: resolving constants and array bounds always ends in one of the program's own errors (never in
  an exception that no handler turns into a message, and the bounds of the model are never reached)
  or in a state where every constant that a package table holds and every constant of a message has a
  value in the range of the kind it declares, found within 32 nested dependencies, and every field
  with an array expression has a positive bound below \<open>2 ^ 32\<close>.
\<close>

theorem resolution_total_and_typed:
  assumes "well_formed files messages" and "sane_unicode u"
  shows "case resolve_constants_and_arrays ctx u files messages of
      Inl e \<Rightarrow> e \<noteq> OutOfFuel \<and> e \<noteq> Uncaught
    | Inr S \<Rightarrow>
        (\<forall>pkg n c. lookup_table (constants_by_package files) pkg n = Some c \<longrightarrow> resolved S c) \<and>
        (\<forall>(k, m)\<in>set messages. is_map_entry m \<or>
           (\<forall>c\<in>set (message_constants m). resolved S c) \<and>
           (\<forall>f\<in>set (message_fields m). array_expr f = None \<or>
              (\<exists>i. maxima S (message_full_name m, field_name f) = Some i \<and> 0 < i \<and> i < 2 ^ 32)))"
proof (cases "resolve_constants_and_arrays ctx u files messages")
  case (Inl e)
  then show ?thesis using resolution_ensures [OF assms, of ctx] by simp
next
  case (Inr S)
  then have S: "run_ok ctx u files messages S" "state_ok ctx u files messages S"
    and pk: "lookup_table (constants_by_package files) pkg n = Some c \<Longrightarrow> states S (const_id c) = Some Done"
    and ms: "\<forall>(k, m)\<in>set messages. message_done m S" for pkg n c
    using resolution_ensures [OF assms, of ctx] by (auto simp: run_ok_def)
  have p: "resolved S c" if "lookup_table (constants_by_package files) pkg n = Some c" for pkg n c
    by (rule state_ok_resolved [OF S(2) package_declares [OF that] pk [OF that]])
  have arr: "array_expr f = None \<or> (\<exists>i. maxima S (message_full_name m, field_name f) = Some i \<and> 0 < i \<and> i < 2 ^ 32)"
    if "array_done m f S" for m f
    using that S(1) unfolding array_done_def run_ok_def by blast
  have m: "is_map_entry m \<or> (\<forall>c\<in>set (message_constants m). resolved S c) \<and>
      (\<forall>f\<in>set (message_fields m). array_expr f = None \<or>
        (\<exists>i. maxima S (message_full_name m, field_name f) = Some i \<and> 0 < i \<and> i < 2 ^ 32))"
    if km: "(k, m) \<in> set messages" for k m
  proof -
    have "message_done m S" using ms km by blast
    then show ?thesis unfolding message_done_def
      using state_ok_resolved [OF S(2) message_declares [OF km]] arr by blast
  qed
  show ?thesis unfolding Inr sum.case using p m by blast
qed

lemma resolution_total_and_typed_witness:
  "case resolve_constants_and_arrays no_decimals ascii_only example_files example_messages of
     Inl e \<Rightarrow> False
   | Inr S \<Rightarrow> resolved S (example_constant (MessageConstant ''p.M'' 0) ''C'' KInt64 ''p.A * 2'')"
  using resolution_total_and_typed [OF example_well_formed example_unicode, of no_decimals] example_values
  by (auto simp: example_messages_def split: sum.splits)

text \<open>
  C23: every finished constant satisfies its own definition: if its literal or expression is evaluated
  again in the final state, and only finished constants of smaller depth may be consulted, the result
  is the value it has. So the values are given by recursion on the depth, and none depends on itself,
  whatever order the resolver visited the constants in.
\<close>

theorem constants_satisfy_their_definitions:
  assumes "well_formed files messages" and "sane_unicode u"
    and "resolve_constants_and_arrays ctx u files messages = Inr S"
    and "declares files messages sc c" and "states S (const_id c) = Some Done"
  shows "\<exists>d v. depths S (const_id c) = Some d \<and> found S (const_id c) = Some v \<and>
     evaluate_constant (resolver_env ctx u files messages) (consult S (d - 1)) sc c S = Inr (v, S)"
proof -
  have "run_ok ctx u files messages S" using resolution_ensures [OF assms(1,2), of ctx] assms(3) by simp
  then have "satisfies_definition (resolver_env ctx u files messages) S sc c"
    using assms(4,5) unfolding run_ok_def state_ok_def grounded_def below_def by blast
  then show ?thesis unfolding satisfies_definition_def .
qed

lemma constants_satisfy_their_definitions_witness:
  "case resolve_constants_and_arrays no_decimals ascii_only example_files example_messages of
     Inl e \<Rightarrow> False
   | Inr S \<Rightarrow> evaluate_constant (resolver_env no_decimals ascii_only example_files example_messages) (consult S 2)
       (MessageScope [''p.M''] ''p'') (example_constant (MessageConstant ''p.M'' 0) ''C'' KInt64 ''p.A * 2'') S
       = Inr (PyNum (PInt 16), S)"
proof (cases "resolve_constants_and_arrays no_decimals ascii_only example_files example_messages")
  case (Inr S)
  let ?c = "example_constant (MessageConstant ''p.M'' 0) ''C'' KInt64 ''p.A * 2''"
  have id: "const_id ?c = MessageConstant ''p.M'' 0" by (simp add: example_constant_def)
  have d: "states S (const_id ?c) = Some Done" "found S (const_id ?c) = Some (PyNum (PInt 16))"
    "depths S (const_id ?c) = Some 3" using example_values Inr by (simp_all add: id)
  have dec: "declares example_files example_messages (MessageScope [''p.M''] ''p'') ?c"
    by (simp add: example_declares)
  show ?thesis
    using constants_satisfy_their_definitions [OF example_well_formed example_unicode Inr dec d(1)] Inr d by simp
qed (use example_values in simp)

end
