(* ===== verification/CppLiterals.thy ===== *)
theory CppLiterals
  imports Constants
begin

text \<open>
  The string literals the generator writes, read back as a C++ compiler reads them: adjacent literals
  are joined, and a hexadecimal escape takes every hexadecimal digit that follows it. That is why the
  code closes a literal after each escape.
\<close>

abbreviation backslash :: char where "backslash \<equiv> char_of (92 :: nat)"
abbreviation quote :: char where "quote \<equiv> char_of (34 :: nat)"

definition hex_value :: "char \<Rightarrow> nat option" where
  "hex_value c = (let n = byte_of c in
     if 48 \<le> n \<and> n \<le> 57 then Some (n - 48)
     else if 97 \<le> n \<and> n \<le> 102 then Some (n - 87)
     else if 65 \<le> n \<and> n \<le> 70 then Some (n - 55) else None)"

definition is_hex :: "char \<Rightarrow> bool" where
  "is_hex c = (hex_value c \<noteq> None)"

definition hex_number :: "string \<Rightarrow> nat" where
  "hex_number ds = foldl (\<lambda>a c. 16 * a + (case hex_value c of None \<Rightarrow> 0 | Some v \<Rightarrow> v)) 0 ds"

definition simple_escape :: "char \<Rightarrow> char option" where
  "simple_escape c = map_of [(backslash, backslash), (quote, quote), (CHR ''n'', char_of (10 :: nat)),
     (CHR ''r'', char_of (13 :: nat)), (CHR ''t'', char_of (9 :: nat))] c"

function read_literals :: "bool \<Rightarrow> string \<Rightarrow> string option" where
  \<comment> \<open>the bytes of adjacent string literals; the flag says whether a literal is open\<close>
  "read_literals False [] = Some []"
| "read_literals False (c # cs) = (if c = quote then read_literals True cs else None)"
| "read_literals True [] = None"
| "read_literals True (c # cs) =
     (if c = quote then read_literals False cs
      else if c = char_of (10 :: nat) then None
      else if c \<noteq> backslash then map_option ((#) c) (read_literals True cs)
      else case cs of
        [] \<Rightarrow> None
      | e # rest \<Rightarrow>
          if e = CHR ''x'' then
            let ds = takeWhile is_hex rest in
            if ds = [] \<or> hex_number ds > 255 then None
            else map_option ((#) (char_of (hex_number ds))) (read_literals True (dropWhile is_hex rest))
          else case simple_escape e of
            None \<Rightarrow> None
          | Some b \<Rightarrow> map_option ((#) b) (read_literals True rest))"
  by pat_completeness auto
termination
  by (relation "measure (\<lambda>(_, s). length s)") (auto simp: less_Suc_eq_le length_dropWhile_le le_SucI)

section \<open>Reading back\<close>

lemma byte_of_char_of [simp]: "n < 256 \<Longrightarrow> byte_of (char_of n) = n" for n :: nat
  by (simp add: byte_of_def)

lemma char_of_byte [simp]: "char_of (byte_of c) = c"
  by (simp add: byte_of_def)

lemma char_eq_byte: "c = char_of n \<longleftrightarrow> byte_of c = n" if "n < 256" for n :: nat
  using that by (metis byte_of_char_of char_of_byte)

lemma byte_char: "byte_of c = n \<Longrightarrow> c = char_of n"
  by (metis char_of_byte)

lemma hex_lower_value: "n < 16 \<Longrightarrow> hex_value (hex_lower n) = Some n"
proof -
  assume "n < 16"
  then have "n \<in> set [0..<16]" by simp
  moreover have "\<forall>n\<in>set [0..<16]. hex_value (hex_lower n) = Some n" by code_simp
  ultimately show ?thesis by blast
qed

lemma read_hex_byte:
  "read_literals True (backslash # CHR ''x'' # hex_byte hex_lower b @ quote # rest) = map_option ((#) b) (read_literals False rest)"
proof -
  have b: "byte_of b div 16 < 16" "byte_of b mod 16 < 16" using byte_of_less [of b] by simp_all
  have q: "\<not> is_hex quote" by (simp add: is_hex_def hex_value_def)
  have "byte_of b div 16 * 16 + byte_of b mod 16 = byte_of b" by simp
  then have v: "hex_number (hex_byte hex_lower b) = byte_of b"
    using b by (simp add: hex_number_def hex_byte_def hex_lower_value)
  have "takeWhile is_hex (hex_byte hex_lower b @ quote # rest) = hex_byte hex_lower b"
    "dropWhile is_hex (hex_byte hex_lower b @ quote # rest) = quote # rest"
    using b q by (simp_all add: hex_byte_def is_hex_def hex_lower_value)
  moreover have "hex_byte hex_lower b \<noteq> []" "\<not> 255 < byte_of b"
    using byte_of_less [of b] by (simp add: hex_byte_def, linarith)
  ultimately show ?thesis using v by (simp add: Let_def)
qed

lemma escape_letters:
  "backslash \<noteq> CHR ''x''" "quote \<noteq> CHR ''x''" "CHR ''n'' \<noteq> quote" "CHR ''n'' \<noteq> backslash"
  "CHR ''r'' \<noteq> quote" "CHR ''r'' \<noteq> backslash" "CHR ''t'' \<noteq> quote" "CHR ''t'' \<noteq> backslash"
  by code_simp+

lemma read_escape:
  assumes "ascii_escape b = Some e"
  shows "read_literals True (e @ rest) = map_option ((#) b) (read_literals True rest)" and "e \<noteq> []"
proof -
  consider "b = backslash" | "b = quote" | "b = char_of (10 :: nat)" | "b = char_of (13 :: nat)"
    | "b = char_of (9 :: nat)"
    | "e = [b]" "byte_of b \<noteq> 92" "byte_of b \<noteq> 34" "32 \<le> byte_of b"
    using assms by (auto simp: ascii_escape_def char_eq_byte split: if_splits)
  then show "read_literals True (e @ rest) = map_option ((#) b) (read_literals True rest)"
  proof cases
    case 6
    then have "b \<noteq> quote" "b \<noteq> backslash" "b \<noteq> char_of (10 :: nat)" by (auto simp: char_eq_byte)
    with 6 show ?thesis by simp
  qed (use assms in \<open>auto simp: ascii_escape_def simple_escape_def numeral_2_eq_2 escape_letters\<close>)
  show "e \<noteq> []" using assms by (auto simp: ascii_escape_def split: if_splits)
qed

lemma map_option_append_Nil [simp]: "map_option ((@) []) x = x"
  by (cases x) simp_all

lemma read_chunk:
  assumes "\<forall>b\<in>set bs. ascii_escape b \<noteq> None"
  shows "read_literals True (concat (map (\<lambda>b. the (ascii_escape b)) bs) @ rest) = map_option ((@) bs) (read_literals True rest)"
  using assms
proof (induction bs)
  case (Cons b bs)
  then obtain e where e: "ascii_escape b = Some e" by auto
  from Cons read_escape(1) [OF e] show ?case by (simp add: e option.map_comp comp_def)
qed simp

lemma read_flush:
  assumes "\<forall>b\<in>set pre. ascii_escape b \<noteq> None"
  shows "read_literals False (flush_ascii (concat (map (\<lambda>b. the (ascii_escape b)) pre)) @ rest) =
     map_option ((@) pre) (read_literals False rest)"
proof (cases pre)
  case Nil
  then show ?thesis by (simp add: flush_ascii_def)
next
  case (Cons b bs)
  then obtain e where e: "ascii_escape b = Some e" using assms by auto
  have "concat (map (\<lambda>b. the (ascii_escape b)) pre) \<noteq> []" using Cons e read_escape(2) [OF e] by simp
  then show ?thesis unfolding flush_ascii_def
    using read_chunk [OF assms, of "quote # rest"] by (simp only: if_not_P) (simp add: quoted_def)
qed

lemma read_parts:
  assumes "\<forall>b\<in>set pre. ascii_escape b \<noteq> None"
  shows "read_literals False (literal_parts (concat (map (\<lambda>b. the (ascii_escape b)) pre)) bytes) = Some (pre @ bytes)"
  using assms
proof (induction bytes arbitrary: pre)
  case Nil
  then show ?case using read_flush [OF Nil, of "[]"] by (simp add: comp_def)
next
  case (Cons b bytes)
  show ?case
  proof (cases "ascii_escape b")
    case (Some e)
    then show ?thesis using Cons.IH [of "pre @ [b]"] Cons.prems by simp
  next
    case None
    have "read_literals False (literal_parts [] bytes) = Some bytes" using Cons.IH [of "[]"] by simp
    moreover have "read_literals False (quoted (backslash # CHR ''x'' # hex_byte hex_lower b) @ r) =
        map_option ((#) b) (read_literals False r)" for r
      using read_hex_byte [of b r] by (simp add: quoted_def del: read_literals.simps(4))
    ultimately show ?thesis using None by (simp add: read_flush [OF Cons.prems])
  qed
qed

section \<open>Properties\<close>

text \<open>
  C25: the C++ literal of a byte string denotes exactly those bytes: a compiler that joins adjacent
  literals and reads hexadecimal escapes as far as they go gets them back, for every byte string,
  quotes, backslashes, control bytes, bytes above 127 and the empty string included.
\<close>

theorem cpp_string_literal_reads_back: "read_literals False (cpp_string_literal bytes) = Some bytes"
proof (cases "literal_parts [] bytes = []")
  case True
  then have "bytes = []" using read_parts [of "[]" bytes] by simp
  with True show ?thesis by (simp add: cpp_string_literal_def quoted_def)
next
  case False
  then show ?thesis using read_parts [of "[]" bytes] by (simp add: cpp_string_literal_def Let_def)
qed

end
