(* ===== verification/Defaults.thy ===== *)
theory Defaults
  imports Constants Validation
begin

text \<open>
  Default values of fields, from \<^verbatim>\<open>_field_default_cpp\<close> and its helpers in
  \<^verbatim>\<open>src/protocyte/model.py\<close>: the checks on where a default may stand, and its spelling in C++ for
  each kind of field. Decoding of escaped bytes (\<^verbatim>\<open>text_encoding.CUnescape\<close> of protobuf) and the
  digits outside ASCII that \<^verbatim>\<open>int\<close> accepts are parameters. The exponent limit of \<^verbatim>\<open>Decimal\<close> needs
  no model: it rejects only numbers that the range checks after it reject with the same message.
\<close>

datatype field_issue =
  ExtensionField | GroupField | OneofOutside int nat | UnsupportedType int | UnresolvedType string string
| FixedWithoutBound | BoundTwice | ArrayOnMap | ArrayOnScalar | ArrayMaxNotPositive | ArrayExprEmpty
| DefaultInProto3 | DefaultOnRepeated | DefaultOnMessage | UnknownEnumDefault string
| InvalidBytesDefault string | InvalidBoolDefault string | InvalidFloatingDefault string
| InvalidIntegerDefault string
| MapEntryTooShort \<comment> \<open>the \<^verbatim>\<open>IndexError\<close> of a map entry without two fields\<close>
| MapEntryRecursion \<comment> \<open>the \<^verbatim>\<open>RecursionError\<close> of a map entry that contains itself\<close>

datatype field_error =
  FieldError string field_issue
| FieldOptionError option_error
| FieldExprError expr_error

record default_env =
  cunescape :: "string \<Rightarrow> string option"
  uint_text :: "string \<Rightarrow> int option"

section \<open>Types of scalar fields\<close>

definition SCALAR_CPP_TYPES :: "(int, string) dict" where
  "SCALAR_CPP_TYPES =
     [(TYPE_DOUBLE, ''double''), (TYPE_FLOAT, ''float''), (TYPE_INT32, ''int32_t''), (TYPE_INT64, ''int64_t''),
      (TYPE_UINT32, ''uint32_t''), (TYPE_UINT64, ''uint64_t''), (TYPE_SINT32, ''int32_t''),
      (TYPE_SINT64, ''int64_t''), (TYPE_FIXED32, ''uint32_t''), (TYPE_FIXED64, ''uint64_t''),
      (TYPE_SFIXED32, ''int32_t''), (TYPE_SFIXED64, ''int64_t''), (TYPE_BOOL, ''bool'')]"

definition PACKABLE_TYPES :: "int list" where
  "PACKABLE_TYPES = map fst SCALAR_CPP_TYPES @ [TYPE_ENUM]"

definition INTEGER_CONSTANT_KINDS :: "(int, kind) dict" where
  "INTEGER_CONSTANT_KINDS =
     [(TYPE_INT32, KInt32), (TYPE_SINT32, KInt32), (TYPE_SFIXED32, KInt32), (TYPE_INT64, KInt64),
      (TYPE_SINT64, KInt64), (TYPE_SFIXED64, KInt64), (TYPE_UINT32, KUInt32), (TYPE_FIXED32, KUInt32),
      (TYPE_UINT64, KUInt64), (TYPE_FIXED64, KUInt64)]"

section \<open>Integers\<close>

fun digits_underscores :: "string \<Rightarrow> bool" where
  \<comment> \<open>decimal digits, with single underscores between them\<close>
  "digits_underscores [] = False"
| "digits_underscores [c] = is_digit_ascii c"
| "digits_underscores (c # d # cs) =
     (is_digit_ascii c \<and> digits_underscores (if d = CHR ''_'' then cs else d # cs))"

definition strip_ascii :: "string \<Rightarrow> string" where
  "strip_ascii s = (let sp = (\<lambda>b. in_bytes 9 b 13 \<or> in_bytes 28 b 32) in
     rev (dropWhile sp (rev (dropWhile sp s))))"

definition python_int :: "default_env \<Rightarrow> string \<Rightarrow> int option" where
  \<comment> \<open>\<^verbatim>\<open>int(value, 10)\<close>, \<open>None\<close> for \<^verbatim>\<open>ValueError\<close>; Python refuses more than 4300 digits\<close>
  "python_int env s =
     (if list_ex (\<lambda>c. byte_of c \<ge> 128) s then uint_text env s
      else
        let t = strip_ascii s; neg = startswith t ''-'';
            body = (if neg \<or> startswith t ''+'' then tl t else t); digits = filter is_digit_ascii body in
        if digits_underscores body \<and> length digits \<le> 4300
        then Some (if neg then - digits_value 10 digits else digits_value 10 digits) else None)"

definition integer_default_cpp :: "default_env \<Rightarrow> string \<Rightarrow> kind \<Rightarrow> string \<Rightarrow> field_error + string" where
  "integer_default_cpp env v k label =
     (case python_int env v of
        None \<Rightarrow> Inl (FieldError label (InvalidIntegerDefault v))
      | Some numeric \<Rightarrow>
          lift_error FieldExprError (rbind (coerce_integer k numeric label) (\<lambda>i.
            cpp_constant_value k (PyNum (PInt i)))))"

section \<open>Floating-point numbers\<close>

definition MAX_FLOATING_DEFAULT_TEXT_LENGTH :: nat where "MAX_FLOATING_DEFAULT_TEXT_LENGTH = 62"

definition rational_floor_log2 :: "int \<Rightarrow> int \<Rightarrow> int" where
  "rational_floor_log2 numerator denominator =
     (let exponent = int (bit_length numerator) - int (bit_length denominator) in
      if exponent \<ge> 0 then
        (if numerator < push_bit (nat exponent) denominator then exponent - 1 else exponent)
      else if push_bit (nat (- exponent)) numerator < denominator then exponent - 1 else exponent)"

definition round_ratio_to_integer :: "int \<Rightarrow> int \<Rightarrow> int \<Rightarrow> int" where
  "round_ratio_to_integer numerator denominator binary_shift =
     (let (numerator, denominator) =
        (if binary_shift \<ge> 0 then (push_bit (nat binary_shift) numerator, denominator)
         else (numerator, push_bit (nat (- binary_shift)) denominator));
        quotient = numerator div denominator; remainder = numerator mod denominator;
        doubled_remainder = push_bit 1 remainder in
      if doubled_remainder > denominator \<or> (doubled_remainder = denominator \<and> quotient AND 1 \<noteq> 0)
      then quotient + 1 else quotient)"

definition f32_from_bits :: "int \<Rightarrow> pyfloat" where
  "f32_from_bits bits = binary_float_from_bits bits 32"

definition decimal_ratio :: "int \<Rightarrow> int \<Rightarrow> int \<times> int" where
  \<comment> \<open>\<^verbatim>\<open>as_integer_ratio\<close> of \<open>coefficient * 10 ^ exponent\<close>\<close>
  "decimal_ratio coefficient exponent =
     (if 0 \<le> exponent then (coefficient * 10 ^ nat exponent, 1)
      else let d = 10 ^ nat (- exponent); g = gcd coefficient d in (coefficient div g, d div g))"

definition adjusted :: "int \<Rightarrow> int \<Rightarrow> int" where
  \<comment> \<open>\<^verbatim>\<open>Decimal.adjusted\<close>\<close>
  "adjusted coefficient exponent = exponent + int (length (digits_of coefficient)) - 1"

definition protobuf_f32 :: "bool \<Rightarrow> int \<Rightarrow> int \<Rightarrow> field_error \<Rightarrow> field_error + pyfloat" where
  \<comment> \<open>of the decimal \<open>coefficient * 10 ^ decimal_exponent\<close> with a sign\<close>
  "protobuf_f32 neg coefficient decimal_exponent invalid =
     (let sign_bit = (if neg then 2 ^ 31 else 0) in
      if coefficient = 0 then Inr (f32_from_bits sign_bit)
      else if adjusted coefficient decimal_exponent < -38 \<or> adjusted coefficient decimal_exponent > 38
      then Inl invalid
      else
        let (numerator, denominator) = decimal_ratio coefficient decimal_exponent;
            exponent = rational_floor_log2 numerator denominator;
            finish = (\<lambda>exponent significand.
              Inr (f32_from_bits (sign_bit OR push_bit 23 (exponent + 127) OR (significand - push_bit 23 1)))) in
        if exponent < -126 then
          let significand = round_ratio_to_integer numerator denominator 149 in
          if significand < push_bit 23 1 then Inl invalid else finish (-126) significand
        else if exponent > 127 then Inl invalid
        else
          let significand = round_ratio_to_integer numerator denominator (23 - exponent) in
          if significand = push_bit 24 1 then
            if exponent + 1 > 127 then Inl invalid else finish (exponent + 1) (drop_bit 1 significand)
          else finish exponent significand)"

section \<open>The text of a floating-point default\<close>

definition lower_ascii :: "string \<Rightarrow> string" where
  "lower_ascii = map (\<lambda>c. if is_upper_ascii c then char_of (byte_of c + 32) else c)"

datatype floating_text = Infinity bool | Nan | Finite bool string string int \<comment> \<open>sign, whole and fraction digits, exponent\<close>

definition split_sign :: "string \<Rightarrow> bool \<times> string" where
  "split_sign s = (if startswith s ''-'' then (True, tl s) else if startswith s ''+'' then (False, tl s) else (False, s))"

definition exponent_text :: "string \<Rightarrow> int option" where
  \<comment> \<open>\<^verbatim>\<open>(?:[eE][+-]?[0-9]+)?\<close> to the end of the text\<close>
  "exponent_text s =
     (if s = [] then Some 0
      else if hd s = CHR ''e'' \<or> hd s = CHR ''E'' then
        (let (neg, ds) = split_sign (tl s) in
         if ds \<noteq> [] \<and> list_all is_digit_ascii ds
         then Some (if neg then - digits_value 10 ds else digits_value 10 ds) else None)
      else None)"

definition finite_text :: "string \<Rightarrow> (bool \<times> string \<times> string \<times> int) option" where
  \<comment> \<open>\<^verbatim>\<open>_FINITE_FLOATING_DEFAULT_RE.fullmatch\<close>\<close>
  "finite_text s =
     (let (neg, body) = split_sign s; whole = takeWhile is_digit_ascii body;
          rest = dropWhile is_digit_ascii body; point = startswith rest ''.'';
          fraction = (if point then takeWhile is_digit_ascii (tl rest) else []);
          tail = (if point then dropWhile is_digit_ascii (tl rest) else rest) in
      if whole = [] \<and> fraction = [] then None
      else map_option (\<lambda>e. (neg, whole, fraction, e)) (exponent_text tail))"

definition nonfinite_text :: "string \<Rightarrow> floating_text option" where
  \<comment> \<open>\<^verbatim>\<open>_NONFINITE_FLOATING_DEFAULT_RE.fullmatch\<close>\<close>
  "nonfinite_text s =
     (let (neg, body) = split_sign s; low = lower_ascii body in
      if low = ''inf'' \<or> low = ''infinity'' then Some (Infinity neg)
      else if low = ''nan'' then Some Nan
      else if startswith low ''nan('' \<and> last low = CHR '')''
         \<and> list_all (\<lambda>c. is_alpha_ascii c \<or> is_digit_ascii c \<or> c = CHR ''_'') (butlast (drop 4 low)) \<and> length low > 4
      then Some Nan else None)"

definition MIN_NORMAL_F64 :: pyfloat where
  "MIN_NORMAL_F64 = normalize False 1 (-1022)"

definition parse_protobuf_floating_default :: "string \<Rightarrow> bool \<Rightarrow> string \<Rightarrow> field_error + pyfloat" where
  \<comment> \<open>\<open>single\<close> for \<^verbatim>\<open>TYPE_FLOAT\<close>\<close>
  "parse_protobuf_floating_default v single label =
     (let invalid = FieldError label (InvalidFloatingDefault v) in
      if length (utf8_chars v) > MAX_FLOATING_DEFAULT_TEXT_LENGTH then Inl invalid
      else case nonfinite_text v of
        Some (Infinity neg) \<Rightarrow> Inr (FInf neg)
      | Some _ \<Rightarrow> Inr FNan
      | None \<Rightarrow>
          (case finite_text v of
             None \<Rightarrow> Inl invalid
           | Some (neg, whole, fraction, e) \<Rightarrow>
               let coefficient = digits_value 10 (whole @ fraction);
                   exponent = e - int (length fraction) in
               if coefficient = 0 then
                 Inr (if single then f32_from_bits (if neg then 2 ^ 31 else 0) else float_zero neg)
               else if single then protobuf_f32 neg coefficient exponent invalid
               else
                 let (n, d) = decimal_ratio coefficient exponent; numeric = round_float 64 neg n d in
                 if \<not> is_finite numeric \<or> number_less (PFloat (float_abs numeric)) (PFloat MIN_NORMAL_F64)
                 then Inl invalid else Inr numeric))"

definition floating_default_cpp :: "string \<Rightarrow> string \<Rightarrow> string \<Rightarrow> field_error + string" where
  "floating_default_cpp v cpp_type_name label =
     (let single = (cpp_type_name = ''::protocyte::f32'');
          limits = ''::std::numeric_limits<'' @ cpp_type_name @ ''>::'' in
      rbind (parse_protobuf_floating_default v single label) (\<lambda>numeric.
        case numeric of
          FInf neg \<Rightarrow> Inr (if neg then ''-'' @ limits @ ''infinity()'' else limits @ ''infinity()'')
        | FNan \<Rightarrow> Inr (limits @ ''quiet_NaN()'')
        | FFin _ _ _ \<Rightarrow>
            lift_error FieldExprError (cpp_constant_value (if single then KFloat else KDouble) (PyNum (PFloat numeric)))))"

section \<open>Defaults of fields\<close>

definition decode_bytes_default :: "default_env \<Rightarrow> string \<Rightarrow> string \<Rightarrow> field_error + string" where
  "decode_bytes_default env label v =
     (case cunescape env v of None \<Rightarrow> Inl (FieldError label (InvalidBytesDefault v)) | Some b \<Rightarrow> Inr b)"

fun enum_default :: "EnumValueModel list \<Rightarrow> string \<Rightarrow> string option" where
  "enum_default [] v = None"
| "enum_default (e # es) v = (if value_name e = v then Some (int_text (value_number_of e)) else enum_default es v)"

definition field_default_cpp ::
  "default_env \<Rightarrow> string \<Rightarrow> string \<Rightarrow> FieldDescriptorProto \<Rightarrow> field_kind \<Rightarrow> EnumModel option
   \<Rightarrow> field_error + string option" where
  "field_default_cpp env syntax_name owner proto kind enum_type_of =
     (let label = owner @ ''.'' @ fname proto in
      case fdefault_value proto of
        None \<Rightarrow>
          Inr (case enum_type_of of
             Some e \<Rightarrow>
               if syntax_name = ''proto2'' \<and> kind = EnumField \<and> enum_values e \<noteq> []
                  \<and> field_label proto \<noteq> LABEL_REPEATED
               then Some (int_text (value_number_of (hd (enum_values e)))) else None
           | None \<Rightarrow> None)
      | Some v \<Rightarrow>
          if syntax_name = ''proto3'' then Inl (FieldError label DefaultInProto3)
          else if field_label proto = LABEL_REPEATED then Inl (FieldError label DefaultOnRepeated)
          else if kind = MessageField \<or> kind = MapField then Inl (FieldError label DefaultOnMessage)
          else if kind = EnumField then
            (case enum_type_of of
               None \<Rightarrow> Inr None
             | Some e \<Rightarrow>
                 (case enum_default (enum_values e) v of
                    None \<Rightarrow> Inl (FieldError label (UnknownEnumDefault v))
                  | Some t \<Rightarrow> Inr (Some t)))
          else if kind = StringField then
            rbind (lift_error FieldExprError (cpp_constant_value KString (PyStr v))) (\<lambda>t.
              Inr (Some (''::protocyte::StringView {'' @ t @ ''}'')))
          else if kind = BytesField then
            rbind (decode_bytes_default env label v) (\<lambda>encoded.
              Inr (Some (''::protocyte::Span<const ::protocyte::u8> {reinterpret_cast<const ::protocyte::u8*>(''
                @ cpp_string_literal encoded @ ''), '' @ int_text (int (length encoded)) @ ''u}'')))
          else if field_type proto = TYPE_BOOL then
            (if v = ''true'' \<or> v = ''false'' then Inr (Some v)
             else Inl (FieldError label (InvalidBoolDefault v)))
          else if field_type proto = TYPE_FLOAT then
            rbind (floating_default_cpp v ''::protocyte::f32'' label) (\<lambda>t. Inr (Some t))
          else if field_type proto = TYPE_DOUBLE then
            rbind (floating_default_cpp v ''::protocyte::f64'' label) (\<lambda>t. Inr (Some t))
          else
            (case map_of INTEGER_CONSTANT_KINDS (field_type proto) of
               Some k \<Rightarrow> rbind (integer_default_cpp env v k label) (\<lambda>t. Inr (Some t))
             | None \<Rightarrow>
                 Inr (if map_of SCALAR_CPP_TYPES (field_type proto) \<noteq> None then Some v else None)))"

definition field_default_byte_size ::
  "default_env \<Rightarrow> string \<Rightarrow> FieldDescriptorProto \<Rightarrow> field_kind \<Rightarrow> field_error + int option" where
  "field_default_byte_size env owner proto kind =
     (case fdefault_value proto of
        Some v \<Rightarrow>
          if kind = BytesField then
            rbind (decode_bytes_default env (owner @ ''.'' @ fname proto) v) (\<lambda>b. Inr (Some (int (length b))))
          else Inr None
      | None \<Rightarrow> Inr None)"

end
