(* ===== verification/DefaultsSpec.thy ===== *)
theory DefaultsSpec
  imports Defaults DetMath
begin

unbundle bit_operations_syntax

text \<open>
  The single rounding of a floating-point default: the bit construction of \<^verbatim>\<open>_protobuf_f32\<close> and
  \<^verbatim>\<open>float(Decimal)\<close> both give the IEEE rounding of the exact decimal, and exactly the texts whose
  rounding is infinite or below the least normal number are refused.
\<close>

section \<open>Binary32 from a ratio\<close>

lemma rational_floor_log2_eq: "rational_floor_log2 n d = floor_log2 n d"
  by (simp add: rational_floor_log2_def floor_log2_def scale_def push_bit_eq_mult Let_def)

lemma round_ratio_to_integer_eq: "round_ratio_to_integer n d s = round_scaled n d s"
  by (simp add: round_ratio_to_integer_def round_scaled_def round_half_even_def scale_def push_bit_eq_mult
      Let_def and_one_eq odd_iff_mod_2_eq_one mult.commute)

lemma f32_finish:
  assumes "-126 \<le> x" "x \<le> 127" "2 ^ 23 \<le> m" "m < 2 ^ 24"
  shows "f32_from_bits ((if neg then 2 ^ 31 else 0) OR push_bit 23 (x + 127) OR (m - push_bit 23 1))
    = normalize neg m (x - 23)"
proof -
  have f: "BINARY_FORMATS 32 = (24, -126, 127, 127, 8, 23)" by (simp add: BINARY_FORMATS_def)
  have s: "(if neg then 2 ^ 31 else 0) = push_bit (nat (32 - 1)) (if neg then 1 else 0 :: int)"
    by (simp add: push_bit_eq_mult)
  have "push_bit 23 (1::int) = 2 ^ 23" by (simp add: push_bit_eq_mult)
  with assms have "f32_from_bits ((if neg then 2 ^ 31 else 0) OR push_bit 23 (x + 127) OR (m - push_bit 23 1))
    = decode_parts 32 neg (x + 127) (m - 2 ^ 23)"
    unfolding f32_from_bits_def s by (simp only: or.assoc) (rule decode_pattern [OF _ f]; simp)
  also have "\<dots> = normalize neg (2 ^ 23 + (m - 2 ^ 23)) (x + 127 - 127 - int 23)"
    using assms by (intro decode_normal [OF f]) simp_all
  finally show ?thesis by simp
qed

lemma f32_sign: "f32_from_bits (if neg then 2 ^ 31 else 0) = normalize neg 0 0"
  using decode_sign [of 32 neg] by (simp add: f32_from_bits_def push_bit_eq_mult split: if_splits)

definition normal_or :: "int \<Rightarrow> 'e \<Rightarrow> pyfloat \<Rightarrow> 'e + pyfloat" where
  \<comment> \<open>the number, unless it is infinite or below the normal numbers of its format\<close>
  "normal_or width e r =
     (if is_finite r \<and> 2 powi format_min width \<le> magnitude r then Inr r else Inl e)"

definition ratio_f32 :: "bool \<Rightarrow> int \<Rightarrow> int \<Rightarrow> 'e \<Rightarrow> 'e + pyfloat" where
  \<comment> \<open>\<open>protobuf_f32\<close> after its early range check, over exact operations\<close>
  "ratio_f32 neg n d invalid =
     (let x = floor_log2 n d in
      if x < -126 then
        let m = round_scaled n d 149 in if m < 2 ^ 23 then Inl invalid else Inr (normalize neg (2 ^ 23) (-149))
      else if x > 127 then Inl invalid
      else
        let m = round_scaled n d (23 - x) in
        if m = 2 ^ 24 then if x + 1 > 127 then Inl invalid else Inr (normalize neg (2 ^ 23) (x + 1 - 23))
        else Inr (normalize neg m (x - 23)))"

lemma ratio_f32_subnormal:
  assumes pos: "0 < n" "0 < d" and x: "floor_log2 n d < -126"
  shows "ratio_f32 neg n d e = normal_or 32 e (round_float 32 neg n d)"
proof -
  let ?m = "round_scaled n d 149"
  have sub: "?m \<le> 2 ^ 23" and q: "quantum 32 n d = -149"
    using subnormal_significand [OF pos, of 32] x by (simp_all add: format_defs)
  have low: "\<not> overflows 32 ?m (-149)" using overflow_low(1) [of 32, OF _ pos] x q by (simp add: format_defs)
  have r: "round_float 32 neg n d = normalize neg ?m (-149)" using pos low q by (simp add: round_float_def)
  have "0 \<le> ?m" using round_scaled_upper(2) [OF pos, of 32] q by simp
  then consider "?m = 0" | "0 < ?m" by linarith
  then have v: "magnitude (normalize neg ?m (-149)) = real_of_int ?m * 2 powi (-149) \<and> is_finite (normalize neg ?m (-149))"
  proof cases
    case 2
    have "int (bit_length ?m) \<le> 1000"
      using bit_length_le_iff [of ?m 24] 2 sub by simp
    with 2 sub show ?thesis using normalize_bounded [of ?m 23 "-149" neg] by simp
  qed simp
  have p: "(2::real) powi (-126) = 2 ^ 23 * 2 powi (-149)"
    using powi_add2 [of 23 "-149"] by simp
  have "(0::real) < 2 powi (-149)" by simp
  then have "2 powi (-126) \<le> real_of_int ?m * 2 powi (-149) \<longleftrightarrow> real_of_int (2 ^ 23) \<le> real_of_int ?m"
    unfolding p of_int_power of_int_numeral by (rule mult_le_cancel_right_pos)
  then have big: "2 powi (-126) \<le> real_of_int ?m * 2 powi (-149) \<longleftrightarrow> 2 ^ 23 \<le> ?m" by (simp only: of_int_le_iff)
  have "normal_or 32 e (round_float 32 neg n d)
      = (if 2 ^ 23 \<le> ?m then Inr (normalize neg ?m (-149)) else Inl e)"
    using v big by (simp only: normal_or_def r) (simp add: format_min_def)
  moreover have "?m = 2 ^ 23" if "2 ^ 23 \<le> ?m" using sub that by simp
  ultimately show ?thesis
    unfolding ratio_f32_def Let_def if_P [OF x] by (simp only: not_le [symmetric] if_not_P split: if_splits) auto
qed

lemma ratio_f32_normal:
  assumes pos: "0 < n" "0 < d" and x: "-126 \<le> floor_log2 n d" "floor_log2 n d \<le> 127"
  shows "ratio_f32 neg n d e = normal_or 32 e (round_float 32 neg n d)"
proof -
  let ?x = "floor_log2 n d" let ?m = "round_scaled n d (23 - ?x)"
  have m: "2 ^ 23 \<le> ?m" and q: "quantum 32 n d = ?x - 23"
    using normal_significand [OF pos, of 32] x by (simp_all add: format_defs)
  have up: "?m \<le> 2 ^ 24" using round_scaled_upper(1) [OF pos, of 32] q by (simp add: format_defs)
  have r: "round_float 32 neg n d = (if overflows 32 ?m (?x - 23) then FInf neg else normalize neg ?m (?x - 23))"
    using pos q by (simp add: round_float_def Let_def)
  have len: "bit_length ?m = (if ?m = 2 ^ 24 then 25 else 24)"
    using bit_length_pow2 [of 24] bit_length_between [of 23 ?m] m up by (cases "?m = 2 ^ 24") simp_all
  then have ov: "overflows 32 ?m (?x - 23) \<longleftrightarrow> ?m = 2 ^ 24 \<and> 127 < ?x + 1"
    using x by (auto simp: overflows_def format_defs)
  have v: "magnitude (normalize neg ?m (?x - 23)) = real_of_int ?m * 2 powi (?x - 23)
      \<and> is_finite (normalize neg ?m (?x - 23))"
    using normalize_bounded [of ?m 24 "?x - 23" neg] m up len x by auto
  have "(2::real) powi (-126) \<le> 2 powi (23 + (?x - 23))" using x by (intro pow2_mono) simp
  also have "\<dots> = real_of_int (2 ^ 23) * 2 powi (?x - 23)" by (simp only: powi_add2) simp
  also have "\<dots> \<le> real_of_int ?m * 2 powi (?x - 23)" using m by (intro mult_right_mono) (simp_all only: of_int_le_iff, simp)
  finally have big: "(2::real) powi (-126) \<le> real_of_int ?m * 2 powi (?x - 23)" .
  show ?thesis
  proof (cases "?m = 2 ^ 24")
    case True
    have "normalize neg (2 * 2 ^ 23) (?x - 23) = normalize neg (2 ^ 23) (?x - 23 + 1)"
      by (rule normalize_double) simp
    then have "normalize neg ?m (?x - 23) = normalize neg (2 ^ 23) (?x + 1 - 23)" using True by (simp add: algebra_simps)
    with True v big x ov show ?thesis
      by (simp add: ratio_f32_def normal_or_def r format_defs Let_def)
  next
    case False
    with v big x ov show ?thesis
      by (simp add: ratio_f32_def normal_or_def r format_defs Let_def)
  qed
qed

lemma ratio_f32_high:
  assumes pos: "0 < n" "0 < d" and x: "127 < floor_log2 n d"
  shows "ratio_f32 neg n d e = normal_or 32 e (round_float 32 neg n d)"
proof -
  have "\<not> is_finite (round_float 32 neg n d)"
    using overflow_high(1) [of 32, OF _ pos] x by (simp add: round_float_finite_iff [OF pos] format_defs)
  with x show ?thesis by (simp add: ratio_f32_def normal_or_def Let_def)
qed

lemma ratio_f32_eq:
  assumes "0 < n" "0 < d"
  shows "ratio_f32 neg n d e = normal_or 32 e (round_float 32 neg n d)"
  using ratio_f32_subnormal [OF assms] ratio_f32_normal [OF assms] ratio_f32_high [OF assms] by (meson not_le)

section \<open>The decimal exponent\<close>

lemma digits_of_length:
  "0 < c \<Longrightarrow> 10 ^ (length (digits_of c) - 1) \<le> c \<and> c < 10 ^ length (digits_of c) \<and> digits_of c \<noteq> []"
proof (induction c rule: digits_of.induct)
  case (1 c)
  show ?case
  proof (cases "c < 10")
    case True
    with 1 show ?thesis by (simp add: digits_of.simps [of c])
  next
    case False
    let ?q = "c div 10" and ?k = "length (digits_of (c div 10))"
    have q: "10 ^ (?k - 1) \<le> ?q" "?q < 10 ^ ?k" "digits_of ?q \<noteq> []" using 1 False by auto
    then have "0 < ?k" by simp
    then have "(10::int) ^ ?k = 10 * 10 ^ (?k - 1)" by (simp add: power_eq_if)
    moreover have "10 * ?q \<le> c" "c < 10 * ?q + 10"
      using div_mult_mod_eq [of c 10] pos_mod_bound [of 10 c] pos_mod_sign [of 10 c] by linarith+
    moreover have "?q + 1 \<le> 10 ^ ?k" using q(2) by simp
    ultimately have "10 ^ ?k \<le> c \<and> c < 10 * 10 ^ ?k" using q(1) by linarith
    with False show ?thesis by (simp add: digits_of.simps [of c])
  qed
qed

definition decimal_real :: "int \<Rightarrow> int \<Rightarrow> real" where
  "decimal_real c e = real_of_int c * 10 powi e"

lemma powi_add10: "(10::real) powi (a + b) = 10 powi a * 10 powi b"
  by (simp add: power_int_add)

lemma adjusted_bounds:
  assumes "0 < c"
  shows "10 powi (adjusted c e) \<le> decimal_real c e" and "decimal_real c e < 10 powi (adjusted c e + 1)"
proof -
  let ?k = "length (digits_of c)"
  have c: "10 ^ (?k - 1) \<le> c" "c < 10 ^ ?k" "0 < ?k" using digits_of_length [OF assms] by auto
  have pos: "(0::real) < 10 powi e" by simp
  have "real_of_int (10 ^ (?k - 1)) \<le> real_of_int c" using c(1) by (simp only: of_int_le_iff)
  then have "10 powi int (?k - 1) * 10 powi e \<le> decimal_real c e"
    unfolding decimal_real_def using pos by (intro mult_right_mono) (simp_all add: power_int_of_nat)
  moreover have "int (?k - 1) + e = adjusted c e" using c(3) by (simp add: adjusted_def of_nat_diff Suc_le_eq del: length_greater_0_conv)
  ultimately show "10 powi (adjusted c e) \<le> decimal_real c e" by (simp only: powi_add10 [symmetric])
  have "real_of_int c < real_of_int (10 ^ ?k)" using c(2) by (simp only: of_int_less_iff)
  then have "decimal_real c e < 10 powi int ?k * 10 powi e"
    unfolding decimal_real_def using pos by (intro mult_strict_right_mono) (simp_all add: power_int_of_nat)
  moreover have "int ?k + e = adjusted c e + 1" by (simp add: adjusted_def)
  ultimately show "decimal_real c e < 10 powi (adjusted c e + 1)" by (simp only: powi_add10 [symmetric])
qed

lemma powi_minus_nat: "(x::real) powi (- int k) = inverse (x ^ k)"
  by (simp only: power_int_minus power_int_of_nat)

lemma decimal_ratio_value:
  assumes "0 \<le> c"
  shows "ratio (fst (decimal_ratio c e)) (snd (decimal_ratio c e)) = decimal_real c e"
    and "0 < snd (decimal_ratio c e)" and "0 < c \<Longrightarrow> 0 < fst (decimal_ratio c e)"
proof -
  have "ratio (fst (decimal_ratio c e)) (snd (decimal_ratio c e)) = decimal_real c e
    \<and> 0 < snd (decimal_ratio c e) \<and> (0 < c \<longrightarrow> 0 < fst (decimal_ratio c e))"
  proof (cases "0 \<le> e")
    case True
    then show ?thesis by (simp add: decimal_ratio_def decimal_real_def ratio_def power_int_def)
  next
    case False
    have r: "decimal_ratio c e = lowest c (10 ^ nat (- e))"
      using False by (simp add: decimal_ratio_def lowest_def Let_def)
    have "real_of_int c / 10 ^ nat (- e) = decimal_real c e"
      using False powi_minus_nat [of 10 "nat (- e)"] by (simp add: decimal_real_def divide_inverse)
    then show ?thesis using lowest_ratio [of "10 ^ nat (- e)" c] by (simp add: r ratio_def)
  qed
  then show "ratio (fst (decimal_ratio c e)) (snd (decimal_ratio c e)) = decimal_real c e"
    and "0 < snd (decimal_ratio c e)" and "0 < c \<Longrightarrow> 0 < fst (decimal_ratio c e)" by simp_all
qed

lemma ratio_f32_tiny:
  assumes pos: "0 < n" "0 < d" and v: "ratio n d < 10 powi (-38)"
  shows "ratio_f32 neg n d e = Inl e"
proof -
  have t: "(10::real) powi (-38) = inverse (10 ^ 38)" "(2::real) powi (-126) = inverse (2 ^ 126)"
    "(2::real) powi 149 = 2 ^ 149"
    using powi_minus_nat [of 10 38] powi_minus_nat [of 2 126] power_int_of_nat [of 2 149]
    by (simp_all only: of_nat_numeral)
  have x: "floor_log2 n d < -126"
  proof (rule ccontr)
    assume "\<not> ?thesis"
    then have "(2::real) powi (-126) \<le> 2 powi (floor_log2 n d)" by (intro pow2_mono) simp
    then show False using floor_log2_bounds(1) [OF pos] v t by simp
  qed
  have near: "is_nearest (ratio n d * 2 powi 149) (round_scaled n d 149)" by (rule round_scaled_nearest) fact
  have "ratio n d * 2 powi 149 \<le> 10 powi (-38) * 2 powi 149" using v by (intro mult_right_mono) simp_all
  also have "\<dots> \<le> real_of_int 8000000" by (simp add: t)
  finally have "round_scaled n d 149 \<le> 8000000" by (rule nearest_bounds(1) [OF near])
  then show ?thesis by (simp add: ratio_f32_def x Let_def)
qed

lemma ratio_f32_huge:
  assumes pos: "0 < n" "0 < d" and v: "10 powi 39 \<le> ratio n d"
  shows "ratio_f32 neg n d e = Inl e"
proof -
  have t: "(10::real) powi 39 = 10 ^ 39" "(2::real) powi 128 = 2 ^ 128" by (simp_all add: power_int_def)
  have "127 < floor_log2 n d"
  proof (rule ccontr)
    assume "\<not> ?thesis"
    then have "(2::real) powi (floor_log2 n d + 1) \<le> 2 powi 128" by (intro pow2_mono) simp
    then show False using floor_log2_bounds(2) [OF pos] v t by simp
  qed
  then show ?thesis by (simp add: ratio_f32_def Let_def)
qed

lemma protobuf_f32_ratio:
  assumes "0 < c"
  shows "protobuf_f32 neg c k e = (case decimal_ratio c k of (n, d) \<Rightarrow> ratio_f32 neg n d e)"
proof -
  obtain n d where nd: "decimal_ratio c k = (n, d)" by (cases "decimal_ratio c k")
  have pos: "0 < n" "0 < d" and v: "ratio n d = decimal_real c k"
    using decimal_ratio_value [of c k] assms nd by auto
  have p: "push_bit 23 (1::int) = 2 ^ 23" "push_bit 24 (1::int) = 2 ^ 24" "drop_bit 1 (2 ^ 24 :: int) = 2 ^ 23"
    by (simp_all add: push_bit_eq_mult drop_bit_eq_div)
  let ?x = "floor_log2 n d"
  show ?thesis
  proof (cases "adjusted c k < -38 \<or> adjusted c k > 38")
    case True
    then have "ratio_f32 neg n d e = Inl e"
    proof
      assume "adjusted c k < -38"
      then have "(10::real) powi (adjusted c k + 1) \<le> 10 powi (-38)" by (intro power_int_increasing) simp_all
      with adjusted_bounds(2) [OF assms, of k] v show ?thesis by (intro ratio_f32_tiny [OF pos]) simp
    next
      assume "adjusted c k > 38"
      then have "(10::real) powi 39 \<le> 10 powi (adjusted c k)" by (intro power_int_increasing) simp_all
      with adjusted_bounds(1) [OF assms, of k] v show ?thesis by (intro ratio_f32_huge [OF pos]) simp
    qed
    with True assms nd show ?thesis by (simp add: protobuf_f32_def)
  next
    case False
    consider "?x < -126" | "127 < ?x" | "-126 \<le> ?x" "?x \<le> 127" by linarith
    then show ?thesis
    proof cases
      case 1
      let ?m = "round_scaled n d 149"
      have sub: "?m \<le> 2 ^ 23" using subnormal_significand [OF pos, of 32] 1 by (simp add: format_defs)
      have "protobuf_f32 neg c k e = (if ?m < 2 ^ 23 then Inl e
          else Inr (f32_from_bits ((if neg then 2 ^ 31 else 0) OR push_bit 23 (-126 + 127) OR (?m - push_bit 23 1))))"
        using assms False 1 unfolding protobuf_f32_def Let_def nd rational_floor_log2_eq round_ratio_to_integer_eq p(1)
        by simp
      also have "\<dots> = (if ?m < 2 ^ 23 then Inl e else Inr (normalize neg (2 ^ 23) (-126 - 23)))"
      proof (cases "?m < 2 ^ 23")
        case False
        then have "?m = 2 ^ 23" using sub by linarith
        moreover note f32_finish [of "-126" "2 ^ 23" neg]
        ultimately show ?thesis by (simp only: if_False) simp
      qed simp
      finally show ?thesis using 1 nd by (simp add: ratio_f32_def)
    next
      case 2
      with assms False nd show ?thesis
        by (simp add: protobuf_f32_def ratio_f32_def rational_floor_log2_eq)
    next
      case 3
      let ?m = "round_scaled n d (23 - ?x)"
      have q: "2 ^ 23 \<le> ?m" "quantum 32 n d = ?x - 23"
        using normal_significand [OF pos, of 32] 3 by (simp_all add: format_defs)
      have up: "?m \<le> 2 ^ 24" using round_scaled_upper(1) [OF pos, of 32] q by (simp add: format_defs)
      let ?f = "\<lambda>x m. f32_from_bits ((if neg then 2 ^ 31 else 0) OR push_bit 23 (x + 127) OR (m - push_bit 23 1))"
      have "protobuf_f32 neg c k e =
          (if ?m = 2 ^ 24 then if ?x + 1 > 127 then Inl e else Inr (?f (?x + 1) (drop_bit 1 ?m)) else Inr (?f ?x ?m))"
        using assms False 3 unfolding protobuf_f32_def Let_def nd rational_floor_log2_eq round_ratio_to_integer_eq p(2)
        by (simp add: not_less)
      moreover have "?f ?x ?m = normalize neg ?m (?x - 23)" if "?m \<noteq> 2 ^ 24"
        using that 3 q up by (intro f32_finish) auto
      moreover have "?f (?x + 1) (2 ^ 23) = normalize neg (2 ^ 23) (?x + 1 - 23)" if "\<not> ?x + 1 > 127"
        using that 3 by (intro f32_finish) auto
      ultimately show ?thesis using 3 p(3) by (simp add: nd ratio_f32_def Let_def)
    qed
  qed
qed

section \<open>Binary64\<close>

lemma min_normal_value: "number_ratio (PFloat MIN_NORMAL_F64) = Some (dyadic (2 ^ 52) (-1074))"
proof -
  have m: "MIN_NORMAL_F64 = FFin False (2 ^ 52) (-1074)"
    by (simp add: MIN_NORMAL_F64_def normalize_def bit_length.simps [of 1] shift_int_def)
  show ?thesis unfolding m number_ratio.simps PyFloat.signed_def by (simp only: if_False case_prod_eta prod.case_eq_if prod.collapse)
qed

lemma abs_below_normal:
  assumes "is_finite r"
  shows "number_less (PFloat (float_abs r)) (PFloat MIN_NORMAL_F64) \<longleftrightarrow> magnitude r < 2 powi (-1022)"
proof -
  obtain s m e where r: "r = FFin s m e" using assms by (cases r) auto
  obtain a b where ab: "dyadic m e = (a, b)" by (cases "dyadic m e")
  obtain c d where cd: "dyadic (2 ^ 52) (-1074) = (c, d)" by (cases "dyadic (2 ^ 52) (-1074)")
  have v: "ratio a b = magnitude r" "0 < b" "ratio c d = real_of_int (2 ^ 52) * 2 powi (-1074)" "0 < d"
    using dyadic_ratio(1,2) [of m e] dyadic_ratio(1,2) [of "2 ^ 52" "-1074"] ab cd r by auto
  have "real_of_int (2 ^ 52) * 2 powi (-1074) = (2::real) powi (-1022)" using powi_add2 [of 52 "-1074"] by simp
  with v have cdv: "ratio c d = 2 powi (-1022)" by (simp only:)
  have "number_less (PFloat (float_abs r)) (PFloat MIN_NORMAL_F64) \<longleftrightarrow> a * d < c * b"
    unfolding number_less_def min_normal_value cd by (simp add: r ab PyFloat.signed_def)
  also have "\<dots> \<longleftrightarrow> real_of_int (a * d) < real_of_int (c * b)" by (simp only: of_int_less_iff)
  also have "\<dots> \<longleftrightarrow> ratio a b < ratio c d" using v(2,4) by (simp add: ratio_def divide_less_eq less_divide_eq ac_simps)
  finally show ?thesis using v(1) cdv by simp
qed

section \<open>Property\<close>

text \<open>
  C32: A finite default in text rounds once. Whatever the exact value of its decimal text, written
  as any ratio of positive integers, the parsed default is the IEEE rounding (nearest, ties to even)
  of that ratio to binary32 or binary64, and it is refused exactly when that rounding is infinite or
  below the least normal number; the early range test on the decimal exponent never decides otherwise.
\<close>

theorem floating_default_rounds_once:
  assumes "length (utf8_chars v) \<le> MAX_FLOATING_DEFAULT_TEXT_LENGTH" and "nonfinite_text v = None"
    and "finite_text v = Some (neg, whole, fraction, e)" and "0 < n" "0 < d"
    and exact: "ratio n d = decimal_real (digits_value 10 (whole @ fraction)) (e - int (length fraction))"
  shows "parse_protobuf_floating_default v single label =
    normal_or (if single then 32 else 64) (FieldError label (InvalidFloatingDefault v))
      (round_float (if single then 32 else 64) neg n d)"
proof -
  let ?c = "digits_value 10 (whole @ fraction)" and ?k = "e - int (length fraction)"
    and ?err = "FieldError label (InvalidFloatingDefault v)"
  obtain a b where ab: "decimal_ratio ?c ?k = (a, b)" by (cases "decimal_ratio ?c ?k")
  have "0 < decimal_real ?c ?k" using ratio_pos [OF assms(4,5)] exact by simp
  moreover have "(0::real) < 10 powi ?k" by simp
  ultimately have "0 < real_of_int ?c" unfolding decimal_real_def by (rule zero_less_mult_pos2)
  then have c: "0 < ?c" by (simp only: of_int_0_less_iff)
  then have pos: "0 < a" "0 < b" and same: "ratio a b = ratio n d"
    using decimal_ratio_value [of ?c ?k] ab exact by auto
  have cong: "round_float w neg a b = round_float w neg n d" for w
    by (rule round_float_cong [OF pos assms(4,5) same])
  have parsed: "parse_protobuf_floating_default v single label =
      (if single then protobuf_f32 neg ?c ?k ?err
       else let r = round_float 64 neg a b in
         if \<not> is_finite r \<or> number_less (PFloat (float_abs r)) (PFloat MIN_NORMAL_F64) then Inl ?err else Inr r)"
    using assms(1-3) c ab by (simp add: parse_protobuf_floating_default_def not_less)
  show ?thesis
  proof (cases single)
    case True
    then have "parse_protobuf_floating_default v single label = ratio_f32 neg a b ?err"
      unfolding parsed by (simp add: protobuf_f32_ratio [OF c] ab)
    with True show ?thesis by (simp add: ratio_f32_eq [OF pos] cong)
  next
    case False
    then show ?thesis using abs_below_normal [of "round_float 64 neg n d"]     unfolding parsed by (auto simp: cong normal_or_def format_min_def Let_def not_less)
  qed
qed

lemma floating_default_rounds_once_witness:
  \<comment> \<open>the text is halfway between two binary32 numbers\<close>
  "parse_protobuf_floating_default ''-16777217'' True ''M.f'' = Inr (FFin True (2 ^ 52) (-28))"
proof -
  have "digits_value 10 ''16777217'' = 16777217" by code_simp
  then have "ratio 16777217 1 = decimal_real (digits_value 10 (''16777217'' @ '''')) (0 - int (length ''''))"
    by (simp add: ratio_def decimal_real_def)
  moreover have "finite_text ''-16777217'' = Some (True, ''16777217'', '''', 0)" by code_simp
  moreover have "nonfinite_text ''-16777217'' = None" by code_simp
  moreover have "length (utf8_chars ''-16777217'') \<le> MAX_FLOATING_DEFAULT_TEXT_LENGTH" by code_simp
  ultimately have "parse_protobuf_floating_default ''-16777217'' True ''M.f'' =
      normal_or 32 (FieldError ''M.f'' (InvalidFloatingDefault ''-16777217'')) (round_float 32 True 16777217 1)"
    using floating_default_rounds_once [of "''-16777217''" True "''16777217''" "''''" 0 16777217 1 True] by simp
  moreover have "round_float 32 True 16777217 1 = FFin True (2 ^ 52) (-28)" by code_simp
  moreover have "(2::real) powi (-126) \<le> 2 powi 24" by (rule pow2_mono) simp
  moreover have "(2::real) powi 52 * 2 powi (-28) = 2 powi 24" by (simp only: flip: powi_add2) simp
  ultimately show ?thesis by (simp add: normal_or_def format_min_def del: power_int_minus_one_minus)
qed

end
