(* ===== verification/Build.thy ===== *)
theory Build
  imports Defaults
begin

text \<open>
  Building the objects of the model from descriptors: \<^verbatim>\<open>_build_enum\<close>, \<^verbatim>\<open>_build_message_skeleton\<close>,
  \<^verbatim>\<open>_register_message_tree\<close>, \<^verbatim>\<open>_build_field\<close> and \<^verbatim>\<open>_fill_message_details\<close> of
  \<^verbatim>\<open>src/protocyte/model.py\<close>. The source first builds skeletons, registers them, and then fills the
  same objects in place; here the tables of skeletons are what fields are resolved against, and
  filling returns new trees. Decoded option payloads are a parameter, by the place of the descriptor
  they belong to.
\<close>

record build_env =
  bunicode :: unicode_data
  benv :: default_env
  str_of :: "pyvalue \<Rightarrow> string"
  file_payloads :: "string \<Rightarrow> (string + pyvalue ConstantPayload list) option"
  message_payloads :: "string \<Rightarrow> (string + pyvalue ConstantPayload list) option"
  array_payload :: "string \<Rightarrow> nat \<Rightarrow> (string + ArrayPayload option) option"

datatype build_error =
  FieldFailure field_error
| OptionFailure option_error
| RawConstantFailure raw_constant_error
| ConstantRedefined string
| MissingFile string

section \<open>Enums\<close>

definition join_cpp_type_identifiers :: "string \<Rightarrow> string \<Rightarrow> string" where
  "join_cpp_type_identifiers parent child =
     (let separator = (if endswith parent ''_'' then [] else ''_'') in parent @ separator @ child)"

definition scoped_cpp_name :: "string option \<Rightarrow> string \<Rightarrow> string" where
  "scoped_cpp_name parent_cpp_name name =
     (case parent_cpp_name of
        None \<Rightarrow> cpp_identifier name
      | Some p \<Rightarrow> join_cpp_type_identifiers p (cpp_identifier name))"

definition build_enum_value :: "EnumValueDescriptorProto \<Rightarrow> EnumValueModel" where
  "build_enum_value v =
     \<lparr>value_name = evname v, value_cpp_name = cpp_identifier (evname v), value_number_of = value_number v,
      value_deprecated = evdeprecated v\<rparr>"

definition build_enum ::
  "FileDescriptorProto \<Rightarrow> EnumDescriptorProto \<Rightarrow> (string \<times> string) option \<Rightarrow> string \<Rightarrow> EnumModel" where
  \<comment> \<open>the parent by its C++ name and its full name\<close>
  "build_enum file e parent path =
     \<lparr>enum_name = ename e, enum_cpp_name = scoped_cpp_name (map_option fst parent) (ename e),
      enum_full_name = proto_full_name file path, enum_file_name = file_name file,
      enum_package = package file, enum_values = map build_enum_value (evalues e),
      enum_closed = (file_syntax file = ''proto2''), enum_deprecated = edeprecated e,
      enum_parent = map_option snd parent\<rparr>"

section \<open>Message skeletons\<close>

definition message_skeleton ::
  "FileDescriptorProto \<Rightarrow> message_data \<Rightarrow> MessageModel option \<Rightarrow> string \<Rightarrow> MessageModel" where
  "message_skeleton file m parent path =
     \<lparr>message_name = mname m,
      message_cpp_name = scoped_cpp_name (map_option message_cpp_name parent) (mname m),
      message_full_name = proto_full_name file path, message_file_name = file_name file,
      message_package = package file,
      message_parents = (case parent of None \<Rightarrow> [] | Some p \<Rightarrow> message_full_name p # message_parents p),
      message_descriptor = m, is_map_entry = mmap_entry m, message_deprecated = mdeprecated m,
      message_fields = [], message_oneofs = [], message_constants = []\<rparr>"

fun build_message_skeleton ::
  "FileDescriptorProto \<Rightarrow> MessageModel option \<Rightarrow> string \<Rightarrow> DescriptorProto \<Rightarrow> message_tree" where
  "build_message_skeleton file parent path (Message m nested) =
     (let model = message_skeleton file m parent path in
      MessageTree model
        (map (\<lambda>e. build_enum file e (Some (message_cpp_name model, message_full_name model)) (path @ ''.'' @ ename e))
           (menums m))
        (map (\<lambda>n. build_message_skeleton file (Some model) (path @ ''.'' @ msg_name n) n) nested))"

type_synonym message_table = "(string, MessageModel) dict"
type_synonym enum_table = "(string, EnumModel) dict"

definition register_enums :: "EnumModel list \<Rightarrow> enum_table \<Rightarrow> enum_table" where
  "register_enums es d = fold (\<lambda>e d. dict_set d (enum_full_name e) e) es d"

fun register_message_tree :: "message_tree \<Rightarrow> message_table \<times> enum_table \<Rightarrow> message_table \<times> enum_table" where
  "register_message_tree (MessageTree m es ts) tables =
     fold register_message_tree ts
       (dict_set (fst tables) (message_full_name m) m, register_enums es (snd tables))"

section \<open>Fields\<close>

definition is_packed :: "FieldDescriptorProto \<Rightarrow> string \<Rightarrow> bool" where
  "is_packed f syn =
     (if field_label f \<noteq> LABEL_REPEATED then False
      else if field_type f \<notin> set PACKABLE_TYPES then False
      else case fpacked f of Some b \<Rightarrow> b | None \<Rightarrow> syn = ''proto3'')"

definition resolve_type ::
  "(string, 'a) dict \<Rightarrow> string \<Rightarrow> string \<Rightarrow> string \<Rightarrow> field_error + 'a" where
  "resolve_type table name label expected =
     (case map_of table name of Some x \<Rightarrow> Inr x | None \<Rightarrow> Inl (FieldError label (UnresolvedType expected name)))"

definition field_oneof_name :: "string \<Rightarrow> message_data \<Rightarrow> FieldDescriptorProto \<Rightarrow> field_error + string option" where
  "field_oneof_name label owner f =
     (case foneof_index f of
        None \<Rightarrow> Inr None
      | Some i \<Rightarrow>
          if i < 0 \<or> int (length (moneofs owner)) \<le> i
          then Inl (FieldError label (OneofOutside i (length (moneofs owner))))
          else Inr (if fproto3_optional f then None else Some (moneofs owner ! nat i)))"

definition explicit_field_presence :: "string \<Rightarrow> FieldDescriptorProto \<Rightarrow> bool" where
  "explicit_field_presence syn f =
     (fproto3_optional f \<or> field_label f = LABEL_REQUIRED
      \<or> (syn = ''proto2'' \<and> field_label f = LABEL_OPTIONAL \<and> foneof_index f = None))"

record field_shape =
  shape_kind :: field_kind
  shape_cpp_type :: string
  shape_message :: "MessageModel option"
  shape_enum :: "EnumModel option"
  shape_map :: "(FieldModel \<times> FieldModel) option"

abbreviation plain_shape :: "field_kind \<Rightarrow> string \<Rightarrow> field_shape" where
  "plain_shape k cpp \<equiv> \<lparr>shape_kind = k, shape_cpp_type = cpp, shape_message = None, shape_enum = None, shape_map = None\<rparr>"

definition field_shape_of ::
  "(MessageModel \<Rightarrow> field_error + FieldModel \<times> FieldModel) \<Rightarrow> message_table \<Rightarrow> enum_table \<Rightarrow> string
   \<Rightarrow> FieldDescriptorProto \<Rightarrow> field_error + field_shape" where
  \<comment> \<open>the kind, the C++ type and the referenced objects; \<open>entry\<close> builds the fields of a map entry\<close>
  "field_shape_of entry messages enums label f =
     (let t = field_type f; name = strip_type_name (ftype_name f) in
      if t = TYPE_STRING then Inr (plain_shape StringField ''typename Config::String'')
      else if t = TYPE_BYTES then Inr (plain_shape BytesField ''typename Config::Bytes'')
      else if t = TYPE_ENUM then
        rbind (resolve_type enums name label ''enum'') (\<lambda>e.
          Inr ((plain_shape EnumField ''int32_t'')\<lparr>shape_enum := Some e\<rparr>))
      else if t = TYPE_MESSAGE then
        rbind (resolve_type messages name label ''message'') (\<lambda>m.
          if field_label f = LABEL_REPEATED \<and> is_map_entry m then
            rbind (entry m) (\<lambda>(k, v).
              Inr ((plain_shape MapField
                     (''typename Config::template Map<'' @ cpp_type k @ '', '' @ cpp_type v @ ''>''))
                   \<lparr>shape_message := Some m, shape_map := Some (k, v)\<rparr>))
          else Inr ((plain_shape MessageField [])\<lparr>shape_message := Some m\<rparr>))
      else (case map_of SCALAR_CPP_TYPES t of
          None \<Rightarrow> Inl (FieldError label (UnsupportedType t))
        | Some cpp \<Rightarrow> Inr (plain_shape ScalarField cpp)))"

definition blank_text :: "unicode_data \<Rightarrow> string \<Rightarrow> bool" where
  \<comment> \<open>\<^verbatim>\<open>not text.strip()\<close>\<close>
  "blank_text u s = list_all (isspace u) (utf8_chars s)"

definition check_array_option ::
  "unicode_data \<Rightarrow> string \<Rightarrow> bool \<Rightarrow> field_kind \<Rightarrow> int option \<Rightarrow> int option \<Rightarrow> string option \<Rightarrow> bool \<Rightarrow> field_error + unit" where
  "check_array_option u label is_repeated kind default_size maximum expr fixed =
     (if fixed \<and> maximum = None \<and> expr = None then Inl (FieldError label FixedWithoutBound)
      else if maximum \<noteq> None \<and> expr \<noteq> None then Inl (FieldError label BoundTwice)
      else if maximum = None \<and> expr = None then Inr ()
      else if kind = MapField then Inl (FieldError label ArrayOnMap)
      else if kind \<noteq> BytesField \<and> \<not> is_repeated then Inl (FieldError label ArrayOnScalar)
      else if (case maximum of Some n \<Rightarrow> n \<le> 0 | None \<Rightarrow> False) then Inl (FieldError label ArrayMaxNotPositive)
      else if (case expr of Some e \<Rightarrow> blank_text u e | None \<Rightarrow> False) then Inl (FieldError label ArrayExprEmpty)
      else case (maximum, default_size) of
          (Some n, Some d) \<Rightarrow> lift_error FieldExprError (validate_array_default_byte_size label d n fixed)
        | _ \<Rightarrow> Inr ())"

fun build_field ::
  "nat \<Rightarrow> build_env \<Rightarrow> string \<Rightarrow> message_table \<Rightarrow> enum_table \<Rightarrow> MessageModel \<Rightarrow> nat \<Rightarrow> FieldDescriptorProto
   \<Rightarrow> field_error + FieldModel" where
  \<comment> \<open>the first argument bounds the nesting of map entries\<close>
  "build_field 0 env syn messages enums owner index f =
     Inl (FieldError (message_full_name owner @ ''.'' @ fname f) MapEntryRecursion)"
| "build_field (Suc n) env syn messages enums owner index f =
     (let label = message_full_name owner @ ''.'' @ fname f; is_repeated = (field_label f = LABEL_REPEATED);
          entry = (\<lambda>m. case mfields (message_descriptor m) of
             k # v # _ \<Rightarrow>
               rbind (build_field n env syn messages enums m 0 k) (\<lambda>map_key.
               rbind (build_field n env syn messages enums m 1 v) (\<lambda>map_value. Inr (map_key, map_value)))
           | _ \<Rightarrow> Inl (FieldError label MapEntryTooShort)) in
      if fextendee f \<noteq> [] then Inl (FieldError label ExtensionField)
      else if field_type f = TYPE_GROUP then Inl (FieldError label GroupField)
      else
        rbind (field_oneof_name label (message_descriptor owner) f) (\<lambda>oneof.
        rbind (lift_error FieldOptionError (field_array (array_payload env (message_full_name owner) index) label))
          (\<lambda>(maximum, expr, fixed).
        rbind (field_shape_of entry messages enums label f) (\<lambda>shape.
        rbind (field_default_cpp (benv env) syn (message_full_name owner) f (shape_kind shape) (shape_enum shape))
          (\<lambda>default.
        rbind (field_default_byte_size (benv env) (message_full_name owner) f (shape_kind shape)) (\<lambda>default_size.
        rbind (check_array_option (bunicode env) label is_repeated (shape_kind shape) default_size maximum expr fixed)
          (\<lambda>_.
          Inr (FieldModel (fname f) (cpp_derivable_identifier (fname f)) (fnumber f) (field_type f) (field_label f)
            (message_file_name owner) is_repeated (explicit_field_presence syn f) (foneof_index f) oneof
            (is_packed f syn) (fdeprecated f) (strip_type_name (ftype_name f)) (shape_kind shape)
            (shape_cpp_type shape) (map_option message_full_name (shape_message shape))
            (map_option enum_full_name (shape_enum shape)) (map_option fst (shape_map shape))
            (map_option snd (shape_map shape)) maximum expr fixed (explicit_field_presence syn f)
            (field_label f = LABEL_REQUIRED) default default_size
            (shape_kind shape = EnumField \<and> (case shape_enum shape of Some e \<Rightarrow> enum_closed e | None \<Rightarrow> False))))))))))"

declare build_field.simps [simp del]

definition MAP_ENTRY_DEPTH :: nat where
  \<comment> \<open>a field, and the fields of its entry; the fields of a valid entry are not maps themselves\<close>
  "MAP_ENTRY_DEPTH = 2"

section \<open>Constants\<close>

definition build_constants :: "build_env \<Rightarrow> string \<Rightarrow> build_error + ConstantModel list" where
  "build_constants env full_name =
     rbind (lift_error OptionFailure
       (constant_options (str_of env) (message_payloads env full_name) full_name CONSTANT_OPTION_NAME)) (\<lambda>raws.
       lift_error RawConstantFailure (build_raw_constants (MessageConstant full_name) full_name raws))"

definition build_file_constants :: "build_env \<Rightarrow> FileDescriptorProto \<Rightarrow> build_error + ConstantModel list" where
  "build_file_constants env file =
     (let owner = (if package file \<noteq> [] then package file else file_name file) in
      rbind (lift_error OptionFailure
        (constant_options (str_of env) (file_payloads env (file_name file)) owner PACKAGE_CONSTANT_OPTION_NAME)) (\<lambda>raws.
        lift_error RawConstantFailure (build_raw_constants (FileConstant (file_name file)) owner raws)))"

definition cpp_package_key :: "string \<Rightarrow> string list" where
  "cpp_package_key pkg = (if pkg = [] then [] else map cpp_identifier (split_on CHR ''.'' pkg))"

definition package_constant_step ::
  "FileModel \<Rightarrow> (string list, string list) dict \<Rightarrow> build_error + (string list, string list) dict" where
  "package_constant_step f seen =
     (let key = cpp_package_key (model_package f) in
      rbind (rfold (\<lambda>c names.
          if List.member names (const_name c) then Inl (ConstantRedefined (const_full_name c))
          else Inr (const_name c # names)) (model_constants f) (dict_get seen key)) (\<lambda>names.
        Inr (dict_set seen key names)))"

definition validate_package_constant_namespace :: "(string, FileModel) dict \<Rightarrow> build_error + unit" where
  "validate_package_constant_namespace files =
     rbind (rfold (\<lambda>(_, f). package_constant_step f) files []) (\<lambda>_. Inr ())"

section \<open>Filling messages\<close>

definition build_oneofs :: "string list \<Rightarrow> FieldModel list \<Rightarrow> OneofModel list" where
  \<comment> \<open>the declared oneofs in order, with their members, without those that have none\<close>
  "build_oneofs names members =
     filter (\<lambda>o'. oneof_fields o' \<noteq> [])
       (map (\<lambda>(i, name). \<lparr>oneof_model_name = name, oneof_cpp_name = cpp_pascal_identifier name,
           oneof_fields = filter (\<lambda>f. oneof_index f = Some (int i) \<and> oneof_name f \<noteq> None) members\<rparr>)
         (List.enumerate 0 names))"

definition fill_message ::
  "build_env \<Rightarrow> (string, string) dict \<Rightarrow> message_table \<Rightarrow> enum_table \<Rightarrow> MessageModel \<Rightarrow> build_error + MessageModel" where
  \<comment> \<open>\<^verbatim>\<open>_fill_message_details\<close>; the dictionary holds the syntax of every file\<close>
  "fill_message env syntaxes messages enums m =
     rbind (build_constants env (message_full_name m)) (\<lambda>constants.
     case map_of syntaxes (message_file_name m) of
       None \<Rightarrow> Inl (MissingFile (message_file_name m))
     | Some syn \<Rightarrow>
         rbind (lift_error FieldFailure
           (rmap (\<lambda>(i, f). build_field MAP_ENTRY_DEPTH env syn messages enums m i f)
             (List.enumerate 0 (mfields (message_descriptor m))))) (\<lambda>members.
         rbind (lift_error ConstantRedefined (validate_constant_collisions constants)) (\<lambda>_.
           Inr (m\<lparr>message_fields := members, message_oneofs := build_oneofs (moneofs (message_descriptor m)) members,
                  message_constants := constants\<rparr>))))"

lemma rmap_cong [fundef_cong]:
  assumes "xs = ys" and "\<And>x. x \<in> set ys \<Longrightarrow> f x = g x"
  shows "rmap f xs = rmap g ys"
proof -
  from assms(2) have "rmap f ys = rmap g ys" by (induction ys) auto
  with assms(1) show ?thesis by simp
qed

fun fill_tree ::
  "(MessageModel \<Rightarrow> build_error + MessageModel) \<Rightarrow> message_tree \<Rightarrow> build_error + message_tree" where
  "fill_tree fill (MessageTree m es ts) =
     rbind (fill m) (\<lambda>m'. rbind (rmap (fill_tree fill) ts) (\<lambda>ts'. Inr (MessageTree m' es ts')))"

section \<open>Files\<close>

record built =
  built_files :: "(string, FileModel) dict"
  built_messages :: message_table
  built_enums :: enum_table

definition build_file_skeleton ::
  "build_env \<Rightarrow> FileDescriptorProto \<Rightarrow> built \<Rightarrow> build_error + built" where
  \<comment> \<open>one round of the loop over the files of the request\<close>
  "build_file_skeleton env file b =
     (let enums = map (\<lambda>e. build_enum file e None (ename e)) (enum_type file);
          trees = map (\<lambda>m. build_message_skeleton file None (msg_name m) m) (message_type file);
          (messages, enum_table) =
            fold register_message_tree trees (built_messages b, register_enums enums (built_enums b)) in
      rbind (build_file_constants env file) (\<lambda>constants.
      rbind (lift_error ConstantRedefined (validate_constant_collisions constants)) (\<lambda>_.
        Inr \<lparr>built_files = dict_set (built_files b) (file_name file)
               \<lparr>model_file_name = file_name file, model_package = package file, model_syntax = file_syntax file,
                model_constants = constants, model_messages = trees, model_enums = enums\<rparr>,
             built_messages = messages, built_enums = enum_table\<rparr>)))"

definition fill_file ::
  "(MessageModel \<Rightarrow> build_error + MessageModel) \<Rightarrow> FileModel \<Rightarrow> build_error + FileModel" where
  "fill_file fill f = rbind (rmap (fill_tree fill) (model_messages f)) (\<lambda>ts. Inr (f\<lparr>model_messages := ts\<rparr>))"

definition refresh_messages :: "(string, FileModel) dict \<Rightarrow> message_table" where
  \<comment> \<open>the table of the filled messages, registered in the order of the skeletons\<close>
  "refresh_messages files =
     fold (\<lambda>m d. dict_set d (message_full_name m) m)
       (concat (map (\<lambda>(_, f). walk_messages (model_messages f)) files)) []"

definition build_objects :: "build_env \<Rightarrow> FileDescriptorProto list \<Rightarrow> build_error + built" where
  "build_objects env proto_files =
     rbind (rfold (build_file_skeleton env) proto_files \<lparr>built_files = [], built_messages = [], built_enums = []\<rparr>) (\<lambda>b.
     let fill = fill_message env (map (\<lambda>(n, f). (n, model_syntax f)) (built_files b)) (built_messages b) (built_enums b) in
     rbind (rmap (\<lambda>(n, f). rbind (fill_file fill f) (\<lambda>f'. Inr (n, f'))) (built_files b)) (\<lambda>files.
       Inr \<lparr>built_files = files, built_messages = refresh_messages files, built_enums = built_enums b\<rparr>))"

end
