(* ===== verification/Boxes.thy ===== *)
theory Boxes
  imports Build
begin

text \<open>
  What the built model derives from its references: the headers a file includes
  (\<^verbatim>\<open>_field_dependencies\<close>, \<^verbatim>\<open>_compute_file_dependencies\<close>), the closure of the generated headers
  (\<^verbatim>\<open>DescriptorModel.generated_header_files\<close>), and the fields that are boxed because their message
  contains itself (\<^verbatim>\<open>_mark_recursive_boxes\<close>, \<^verbatim>\<open>_can_reach\<close>), all of \<^verbatim>\<open>src/protocyte/model.py\<close>.
\<close>

section \<open>Included headers\<close>

fun field_dependencies :: "message_table \<Rightarrow> enum_table \<Rightarrow> FieldModel \<Rightarrow> string list" where
  "field_dependencies messages enums (FieldModel nm cpp nr ty lab fl rep opt oi on pk dep tn k ct mt et mk mv mx ex fx ep rq df ds cl) =
     (case mt of None \<Rightarrow> []
      | Some n \<Rightarrow> (case map_of messages n of None \<Rightarrow> []
          | Some m \<Rightarrow> if \<not> is_map_entry m then [message_file_name m] else []))
     @ (case et of None \<Rightarrow> []
        | Some n \<Rightarrow> (case map_of enums n of None \<Rightarrow> [] | Some e \<Rightarrow> [enum_file_name e]))
     @ (case mk of None \<Rightarrow> [] | Some f \<Rightarrow> field_dependencies messages enums f)
     @ (case mv of None \<Rightarrow> [] | Some f \<Rightarrow> field_dependencies messages enums f)"

definition file_dependencies :: "built \<Rightarrow> string \<Rightarrow> string list" where
  \<comment> \<open>the other files a file's fields refer to, in the order in which they are met\<close>
  "file_dependencies b name =
     (case map_of (built_files b) name of
        None \<Rightarrow> []
      | Some f \<Rightarrow>
          filter (\<lambda>d. d \<noteq> name)
            (concat (map (\<lambda>m. concat (map (field_dependencies (built_messages b) (built_enums b)) (message_fields m)))
               (walk_messages (model_messages f)))))"

definition compute_file_dependencies :: "built \<Rightarrow> string list \<Rightarrow> (string, string set) dict" where
  \<comment> \<open>\<^verbatim>\<open>file_model.dependencies\<close> of the files to generate\<close>
  "compute_file_dependencies b file_to_generate =
     fold (\<lambda>n d. dict_set d n (set (file_dependencies b n))) file_to_generate []"

section \<open>The closure of the generated headers\<close>

text \<open>Only the files of the model have dependencies.\<close>

interpretation header_graph: finite_successors "fst ` set (built_files b)" "file_dependencies b" for b :: built
  by unfold_locales (simp_all add: file_dependencies_def map_of_eq_None_iff [THEN iffD2])

function header_loop :: "built \<Rightarrow> string list \<Rightarrow> string set \<Rightarrow> string + string set" where
  \<comment> \<open>\<^verbatim>\<open>pending\<close> with its end first; the error is the \<^verbatim>\<open>KeyError\<close> of a file the model lacks\<close>
  "header_loop b [] included = Inr included"
| "header_loop b (name # pending) included =
     (if name \<in> included then header_loop b pending included
      else if map_of (built_files b) name = None then Inl name
      else header_loop b (rev (file_dependencies b name) @ pending) (insert name included))"
  by pat_completeness auto
termination
proof (relation "{((b', p', i'), (b, p, i)). b' = b \<and> ((p', i'), (p, i)) \<in> header_graph.work_order b}")
  show "wf {((b' :: built, p', i'), (b, p, i)). b' = b \<and> ((p', i'), (p, i)) \<in> header_graph.work_order b}"
    unfolding header_graph.work_order_def
    by (rule wf_subset [OF wf_measures [of "[\<lambda>(b, p, i). card (fst ` set (built_files b) - i), \<lambda>(b, p, i). length p]"]])
      auto
qed (use header_graph.work_order_skip header_graph.work_order_visit in auto)

definition generated_header_files :: "built \<Rightarrow> string list \<Rightarrow> string + string list" where
  \<comment> \<open>the names, in the order of the model's files\<close>
  "generated_header_files b file_to_generate =
     rbind (header_loop b (rev file_to_generate) {}) (\<lambda>included.
       Inr (filter (\<lambda>n. n \<in> included) (map fst (built_files b))))"

section \<open>Boxed fields\<close>

definition direct_message_field :: "FieldModel \<Rightarrow> string option" where
  "direct_message_field f = (if field_kind f = MessageField \<and> \<not> repeated f then field_message_type f else None)"

definition array_message_field :: "FieldModel \<Rightarrow> string option" where
  \<comment> \<open>\<^verbatim>\<open>_storage_type\<close>: a repeated field with a bound is a \<^verbatim>\<open>::protocyte::Array\<close> inside the class. The search
      for boxes does not look at these fields. A bound given as an expression is a number by then.\<close>
  "array_message_field f = (if field_kind f = MessageField \<and> repeated_array f then field_message_type f else None)"

definition direct_successors :: "MessageModel \<Rightarrow> string list" where
  "direct_successors m = (if is_map_entry m then [] else List.map_filter direct_message_field (message_fields m))"

definition message_graph :: "message_table \<Rightarrow> (string, string list) dict" where
  "message_graph messages = map (\<lambda>(n, m). (n, direct_successors m)) messages"

definition direct_fields :: "message_table \<Rightarrow> (string \<times> nat \<times> string) list" where
  \<comment> \<open>owner, position of the field, target\<close>
  "direct_fields messages =
     concat (map (\<lambda>(n, m). if is_map_entry m then [] else
       List.map_filter (\<lambda>(i, f). map_option (\<lambda>t. (message_full_name m, i, t)) (direct_message_field f))
         (List.enumerate 0 (message_fields m))) messages)"

function can_reach :: "(string, string list) dict \<Rightarrow> string \<Rightarrow> string list \<Rightarrow> string set \<Rightarrow> bool" where
  \<comment> \<open>the loop of \<^verbatim>\<open>_can_reach\<close>, the stack with its end first\<close>
  "can_reach graph goal [] seen = False"
| "can_reach graph goal (current # stack) seen =
     (if current = goal then True
      else if current \<in> seen then can_reach graph goal stack seen
      else can_reach graph goal (rev (dict_get graph current) @ stack) (insert current seen))"
  by pat_completeness auto
termination
proof (relation "{((g', t', p', i'), (g, t, p, i)). g' = g \<and> ((p', i'), (p, i)) \<in> dict_graph.work_order g}")
  show "wf {((g' :: (string, string list) dict, t' :: string, p', i'), (g, t, p, i)). g' = g \<and> ((p', i'), (p, i)) \<in> dict_graph.work_order g}"
    unfolding dict_graph.work_order_def
    by (rule wf_subset [OF wf_measures [of "[\<lambda>(g, t, p, i). card (fst ` set g - i), \<lambda>(g, t, p, i). length p]"]]) auto
qed (use dict_graph.work_order_skip dict_graph.work_order_visit in auto)

definition mark_recursive_boxes :: "message_table \<Rightarrow> (string \<times> nat) list" where
  \<comment> \<open>the fields whose \<^verbatim>\<open>recursive_box\<close> is set\<close>
  "mark_recursive_boxes messages =
     (let graph = message_graph messages in
      map (\<lambda>(owner, i, target). (owner, i))
        (filter (\<lambda>(owner, i, target). can_reach graph owner [target] {}) (direct_fields messages)))"

end
