(* ===== verification/BuildSpec.thy ===== *)
theory BuildSpec
  imports Build ConstantsSpec
begin

text \<open>
  What building establishes. Messages of one file form a tree whose chains of parents stay in the
  package (\<open>linked\<close>); constants are identified by the place of their declaration. So the built
  tables satisfy the assumption of constant resolution, \<open>well_formed\<close>. The second part states what
  the checks on fields leave: \<open>field_ok\<close>.
\<close>

section \<open>Constants\<close>

definition literal_ok :: "pyvalue option \<Rightarrow> bool" where
  "literal_ok l = (case l of Some (PyNum (PFloat x)) \<Rightarrow> wf_float x | _ \<Rightarrow> True)"

definition payload_ok :: "(string + pyvalue ConstantPayload list) option \<Rightarrow> bool" where
  \<comment> \<open>a decoded float is a float\<close>
  "payload_ok p = (case p of Some (Inr items) \<Rightarrow> \<forall>item\<in>set items. literal_ok (map_option snd (cvalue item)) | _ \<Rightarrow> True)"

definition payloads_ok :: "build_env \<Rightarrow> bool" where
  "payloads_ok env \<longleftrightarrow> (\<forall>n. payload_ok (file_payloads env n) \<and> payload_ok (message_payloads env n))"

definition placed :: "(nat \<Rightarrow> const_id) \<Rightarrow> ConstantModel list \<Rightarrow> bool" where
  "placed ident cs \<longleftrightarrow> (\<forall>i<length cs. const_id (cs ! i) = ident i \<and> constant_ok (cs ! i))"

lemma constant_option_ok:
  assumes "constant_option str item = Inr raw" and "literal_ok (map_option snd (cvalue item))"
  shows "literal_ok (raw_literal raw)"
  using assms by (auto simp: constant_option_def literal_ok_def split: option.splits prod.splits if_splits)

lemma constant_options_ok:
  assumes "constant_options str p label name = Inr raws" and "payload_ok p" and "raw \<in> set raws"
  shows "literal_ok (raw_literal raw)"
proof -
  consider "p = None" | e where "p = Some (Inl e)" | items where "p = Some (Inr items)"
    by (cases p; cases "the p") auto
  then show ?thesis
  proof cases
    case 3
    with assms(1) have "list_all2 (\<lambda>item raw. constant_option str item = Inr raw) items raws"
      by (simp add: constant_options_def rmap_Inr_iff)
    with assms(3) obtain item where "item \<in> set items" "constant_option str item = Inr raw"
      unfolding list_all2_conv_all_nth by (metis in_set_conv_nth)
    with 3 assms(2) show ?thesis by (intro constant_option_ok) (auto simp: payload_ok_def)
  qed (use assms in \<open>simp_all add: constant_options_def\<close>)
qed

lemma raw_constants_placed:
  assumes b: "build_raw_constants ident owner raws = Inr cs" and l: "\<forall>raw\<in>set raws. literal_ok (raw_literal raw)"
  shows "placed ident cs"
  unfolding placed_def
proof (intro allI impI)
  fix i assume i: "i < length cs"
  from b have "list_all2 (\<lambda>(i, raw) c.
      const_id c = ident i \<and> const_literal c = raw_literal raw \<and> const_expr c = raw_expr raw
      \<and> (raw_literal raw = None) \<noteq> (raw_expr raw = None)) (zip [0..<length raws] raws) cs"
    unfolding build_raw_constants_def rmap_Inr_iff
    by (rule list_all2_mono) (auto split: if_splits option.splits)
  then have n: "length cs = length raws" and c: "const_id (cs ! i) = ident i" "const_literal (cs ! i) = raw_literal (raws ! i)"
    "const_expr (cs ! i) = raw_expr (raws ! i)" "(raw_literal (raws ! i) = None) \<noteq> (raw_expr (raws ! i) = None)"
    using i by (auto simp: list_all2_conv_all_nth)
  then have "literal_ok (const_literal (cs ! i))" using l i by simp
  with c show "const_id (cs ! i) = ident i \<and> constant_ok (cs ! i)"
    by (auto simp: constant_ok_def literal_ok_def split: option.splits pyvalue.splits number.splits)
qed

lemma lift_error_bind: "rbind (lift_error g m) f = Inr x \<longleftrightarrow> (\<exists>y. m = Inr y \<and> f y = Inr x)"
  by (cases m) auto

lemma message_constants_placed:
  assumes "build_constants env name = Inr cs" and "payloads_ok env"
  shows "placed (MessageConstant name) cs"
  using assms constant_options_ok [of "str_of env" "message_payloads env name"]
  by (auto simp: build_constants_def lift_error_bind payloads_ok_def intro!: raw_constants_placed)

lemma file_constants_placed:
  assumes "build_file_constants env file = Inr cs" and "payloads_ok env"
  shows "placed (FileConstant (file_name file)) cs"
  using assms constant_options_ok [of "str_of env" "file_payloads env (file_name file)"]
  by (auto simp: build_file_constants_def Let_def lift_error_bind payloads_ok_def intro!: raw_constants_placed)

section \<open>Trees\<close>

fun linked :: "string list \<Rightarrow> string \<Rightarrow> message_tree \<Rightarrow> bool" where
  "linked parents pkg (MessageTree m es ts) =
     (message_parents m = parents \<and> message_package m = pkg
      \<and> list_all (linked (message_full_name m # parents) pkg) ts)"

lemma linked_skeleton:
  "linked (case parent of None \<Rightarrow> [] | Some p \<Rightarrow> message_full_name p # message_parents p) (package f)
     (build_message_skeleton f parent path d)"
proof (induction f parent path d rule: build_message_skeleton.induct)
  case (1 f parent path m nested)
  then show ?case by (auto simp: Let_def message_skeleton_def list_all_iff)
qed

lemma skeleton_names:
  "map message_full_name (walk_tree (build_message_skeleton f parent path d))
   = map (\<lambda>(_, p, _). proto_full_name f p) (walk_message f path up d)"
proof (induction f parent path d arbitrary: up rule: build_message_skeleton.induct)
  case (1 f parent path m nested)
  then show ?case by (simp add: Let_def message_skeleton_def map_concat comp_def cong: map_cong)
qed

lemma skeleton_file_name:
  "m \<in> set (walk_tree (build_message_skeleton fd parent path d)) \<Longrightarrow> message_file_name m = file_name fd"
  by (induction fd parent path d rule: build_message_skeleton.induct) (auto simp: Let_def message_skeleton_def)

definition same_place :: "MessageModel \<Rightarrow> MessageModel \<Rightarrow> bool" where
  "same_place m m' \<longleftrightarrow> message_full_name m' = message_full_name m \<and> message_parents m' = message_parents m
     \<and> message_package m' = message_package m \<and> message_file_name m' = message_file_name m
     \<and> message_descriptor m' = message_descriptor m \<and> is_map_entry m' = is_map_entry m"

lemma fill_tree_walk:
  "fill_tree fill t = Inr t' \<Longrightarrow> list_all2 (\<lambda>m m'. fill m = Inr m') (walk_tree t) (walk_tree t')"
proof (induction t arbitrary: t' rule: walk_tree.induct)
  case (1 m es ts)
  then obtain m' ts' where m': "fill m = Inr m'" and ts': "list_all2 (\<lambda>t t'. fill_tree fill t = Inr t') ts ts'"
    and t': "t' = MessageTree m' es ts'" by (auto simp: rmap_Inr_iff)
  have "list_all2 (\<lambda>t t'. list_all2 (\<lambda>m m'. fill m = Inr m') (walk_tree t) (walk_tree t')) ts ts'"
    using ts' 1 by (auto simp: list_all2_conv_all_nth)
  then have "list_all2 (\<lambda>m m'. fill m = Inr m') (concat (map walk_tree ts)) (concat (map walk_tree ts'))"
    by (induction ts ts' rule: list_all2_induct) (auto intro: list_all2_appendI)
  with m' t' show ?case by simp
qed

lemma fill_tree_linked:
  assumes "\<And>m m'. fill m = Inr m' \<Longrightarrow> same_place m m'"
  shows "fill_tree fill t = Inr t' \<Longrightarrow> linked ps pkg t \<Longrightarrow> linked ps pkg t'"
proof (induction ps pkg t arbitrary: t' rule: linked.induct)
  case (1 ps pkg m es ts)
  then obtain m' ts' where m': "fill m = Inr m'" and ts': "list_all2 (\<lambda>t t'. fill_tree fill t = Inr t') ts ts'"
    and t': "t' = MessageTree m' es ts'" by (auto simp: rmap_Inr_iff)
  have "same_place m m'" using m' by (rule assms)
  moreover have "list_all (linked (message_full_name m # ps) pkg) ts'"
    unfolding list_all_length
  proof (intro allI impI)
    fix n assume n: "n < length ts'"
    have l: "length ts = length ts'" and f: "fill_tree fill (ts ! n) = Inr (ts' ! n)"
      using ts' n by (auto simp: list_all2_conv_all_nth)
    then have "ts ! n \<in> set ts" using n by simp
    moreover have "linked (message_full_name m # ps) pkg (ts ! n)" using 1(3) n l by (auto simp: list_all_length)
    ultimately show "linked (message_full_name m # ps) pkg (ts' ! n)" using 1(1) f by blast
  qed
  ultimately show ?case using 1(3) t' by (simp add: same_place_def)
qed

lemma linked_parent:
  "linked ps pkg t \<Longrightarrow> m \<in> set (walk_tree t) \<Longrightarrow> message_package m = pkg
     \<and> (message_parents m = ps
        \<or> (\<exists>p\<in>set (walk_tree t). message_package p = pkg \<and> message_parents m = message_full_name p # message_parents p))"
proof (induction ps pkg t rule: linked.induct)
  case (1 ps pkg m' es ts)
  show ?case
  proof (cases "m = m'")
    case False
    with 1 obtain t where t: "t \<in> set ts" "m \<in> set (walk_tree t)" by auto
    then have "linked (message_full_name m' # ps) pkg t" using 1 by (auto simp: list_all_iff)
    from 1(1) [OF t(1) this t(2)] t(1) 1(2) show ?thesis by fastforce
  qed (use 1 in simp)
qed

section \<open>Files\<close>

definition skeleton_file :: "FileDescriptorProto \<Rightarrow> ConstantModel list \<Rightarrow> FileModel" where
  "skeleton_file fd cs =
     \<lparr>model_file_name = file_name fd, model_package = package fd, model_syntax = file_syntax fd,
      model_constants = cs,
      model_messages = map (\<lambda>m. build_message_skeleton fd None (msg_name m) m) (message_type fd),
      model_enums = map (\<lambda>e. build_enum fd e None (ename e)) (enum_type fd)\<rparr>"

definition skeletons :: "build_env \<Rightarrow> FileDescriptorProto list \<Rightarrow> (string, FileModel) dict \<Rightarrow> bool" where
  "skeletons env fds files \<longleftrightarrow> list_all2 (\<lambda>fd (n, f). n = file_name fd
     \<and> (\<exists>cs. build_file_constants env fd = Inr cs \<and> f = skeleton_file fd cs)) fds files"

lemma build_skeletons:
  "rfold (build_file_skeleton env) fds b = Inr b' \<Longrightarrow> distinct (map fst (built_files b) @ map file_name fds) \<Longrightarrow>
   \<exists>files. built_files b' = built_files b @ files \<and> skeletons env fds files"
proof (induction fds arbitrary: b)
  case (Cons fd fds)
  from Cons.prems(1) obtain b1 where s: "build_file_skeleton env fd b = Inr b1"
    and r: "rfold (build_file_skeleton env) fds b1 = Inr b'" by auto
  have fresh: "file_name fd \<notin> fst ` set (built_files b)" using Cons.prems(2) by auto
  from s obtain cs where cs: "build_file_constants env fd = Inr cs"
    and b1: "built_files b1 = built_files b @ [(file_name fd, skeleton_file fd cs)]"
    by (auto simp: build_file_skeleton_def Let_def lift_error_bind skeleton_file_def dict_set_fresh [OF fresh]
        split: prod.splits)
  have "distinct (map fst (built_files b1) @ map file_name fds)" using Cons.prems(2) by (auto simp: b1)
  from Cons.IH [OF r this] obtain files where "built_files b' = built_files b1 @ files" "skeletons env fds files" by blast
  with cs b1 show ?case by (intro exI [of _ "(file_name fd, skeleton_file fd cs) # files"]) (auto simp: skeletons_def)
qed (simp add: skeletons_def)

definition filled ::
  "build_env \<Rightarrow> (MessageModel \<Rightarrow> build_error + MessageModel) \<Rightarrow> FileDescriptorProto \<Rightarrow> string \<times> FileModel \<Rightarrow> bool" where
  "filled env fill fd nf \<longleftrightarrow> fst nf = file_name fd \<and> model_file_name (snd nf) = file_name fd
     \<and> model_package (snd nf) = package fd \<and> model_syntax (snd nf) = file_syntax fd
     \<and> build_file_constants env fd = Inr (model_constants (snd nf))
     \<and> list_all2 (\<lambda>d t. fill_tree fill (build_message_skeleton fd None (msg_name d) d) = Inr t)
         (message_type fd) (model_messages (snd nf))"

lemma fill_skeletons:
  assumes "skeletons env fds files"
    and "rmap (\<lambda>(n, f). rbind (fill_file fill f) (\<lambda>f'. Inr (n, f'))) files = Inr files'"
  shows "list_all2 (filled env fill) fds files'"
proof -
  have n: "length fds = length files" "length files = length files'"
    using assms by (auto simp: skeletons_def rmap_Inr_iff list_all2_conv_all_nth)
  have "filled env fill (fds ! i) (files' ! i)" if i: "i < length fds" for i
  proof -
    obtain m f where mf: "files ! i = (m, f)" by (cases "files ! i")
    then obtain cs where m: "m = file_name (fds ! i)" and cs: "build_file_constants env (fds ! i) = Inr cs"
      and f: "f = skeleton_file (fds ! i) cs"
      using assms(1) i by (auto simp: skeletons_def list_all2_conv_all_nth)
    obtain f' where f': "fill_file fill f = Inr f'" and r: "files' ! i = (m, f')"
    proof -
      have "(case files ! i of (n, f) \<Rightarrow> rbind (fill_file fill f) (\<lambda>f'. Inr (n, f'))) = Inr (files' ! i)"
        using assms(2) i n by (auto simp: rmap_Inr_iff list_all2_conv_all_nth)
      then show thesis using that mf by auto
    qed
    from f' obtain ts where ts: "rmap (fill_tree fill) (model_messages f) = Inr ts" and f'': "f' = f\<lparr>model_messages := ts\<rparr>"
      by (auto simp: fill_file_def)
    have "list_all2 (\<lambda>t t'. fill_tree fill t = Inr t')
        (map (\<lambda>d. build_message_skeleton (fds ! i) None (msg_name d) d) (message_type (fds ! i))) ts"
      using ts by (simp add: f skeleton_file_def rmap_Inr_iff)
    then have "list_all2 (\<lambda>d t. fill_tree fill (build_message_skeleton (fds ! i) None (msg_name d) d) = Inr t)
        (message_type (fds ! i)) ts" by (simp add: list_all2_map1)
    then show ?thesis using m cs f r f'' by (simp add: filled_def skeleton_file_def)
  qed
  then show ?thesis using n by (simp add: list_all2_conv_all_nth)
qed

definition file_messages :: "(string, FileModel) dict \<Rightarrow> MessageModel list" where
  "file_messages files = concat (map (\<lambda>(_, f). walk_messages (model_messages f)) files)"

definition declared_full_names :: "FileDescriptorProto list \<Rightarrow> string list" where
  \<comment> \<open>of all messages, with repetitions\<close>
  "declared_full_names fds =
     concat (map (\<lambda>fd. map (\<lambda>(_, p, _). proto_full_name fd p) (walk_descriptor_messages fd)) fds)"

lemma dict_of_list:
  "distinct (map key xs) \<Longrightarrow> set (map fst d) \<inter> set (map key xs) = {} \<Longrightarrow>
   fold (\<lambda>x d. dict_set d (key x) x) xs d = d @ map (\<lambda>x. (key x, x)) xs"
proof (induction xs arbitrary: d)
  case (Cons x xs)
  have "key x \<notin> fst ` set d" using Cons.prems(2) by auto
  then have "dict_set d (key x) x = d @ [(key x, x)]" by (rule dict_set_fresh)
  with Cons show ?case by simp
qed simp

lemma concat_all2:
  "list_all2 (\<lambda>d t. P t = Q d) ds ts \<Longrightarrow> concat (map P ts) = concat (map Q ds)"
  by (induction ds ts rule: list_all2_induct) simp_all

lemma filled_names:
  assumes place: "\<And>m m'. fill m = Inr m' \<Longrightarrow> same_place m m'" and f: "filled env fill fd nf"
  shows "map message_full_name (walk_messages (model_messages (snd nf)))
    = map (\<lambda>(_, p, _). proto_full_name fd p) (walk_descriptor_messages fd)"
proof -
  have "list_all2 (\<lambda>d t. map message_full_name (walk_tree t)
      = map (\<lambda>(_, p, _). proto_full_name fd p) (walk_message fd (msg_name d) None d))
      (message_type fd) (model_messages (snd nf))"
    using f unfolding filled_def
  proof (elim conjE list_all2_mono)
    fix d t
    assume t: "fill_tree fill (build_message_skeleton fd None (msg_name d) d) = Inr t"
    have "map message_full_name (walk_tree t)
        = map message_full_name (walk_tree (build_message_skeleton fd None (msg_name d) d))"
      using fill_tree_walk [OF t] by (auto simp: list_all2_conv_all_nth same_place_def intro!: nth_equalityI dest!: place)
    then show "map message_full_name (walk_tree t)
        = map (\<lambda>(_, p, _). proto_full_name fd p) (walk_message fd (msg_name d) None d)"
      by (simp only: skeleton_names [of fd None "msg_name d" d None])
  qed
  then show ?thesis unfolding walk_messages_def walk_descriptor_messages_def map_concat map_map comp_def
    by (rule concat_all2)
qed

section \<open>The built tables are well formed\<close>

abbreviation fill_of :: "build_env \<Rightarrow> built \<Rightarrow> MessageModel \<Rightarrow> build_error + MessageModel" where
  "fill_of env b \<equiv> fill_message env (map (\<lambda>(n, f). (n, model_syntax f)) (built_files b)) (built_messages b) (built_enums b)"

lemma fill_message_place: "fill_message env syntaxes mt et m = Inr m' \<Longrightarrow> same_place m m'"
  by (auto simp: fill_message_def lift_error_bind same_place_def split: option.splits)

lemma fill_message_constants:
  "fill_message env syntaxes mt et m = Inr m' \<Longrightarrow> build_constants env (message_full_name m') = Inr (message_constants m')"
  by (auto simp: fill_message_def lift_error_bind split: option.splits)

lemma build_objects_filled:
  assumes "build_objects env fds = Inr b" and "distinct (map file_name fds)"
  obtains b0 where "list_all2 (filled env (fill_of env b0)) fds (built_files b)"
    and "skeletons env fds (built_files b0)" and "built_messages b = refresh_messages (built_files b)"
    and "built_enums b = built_enums b0"
    and "rfold (build_file_skeleton env) fds \<lparr>built_files = [], built_messages = [], built_enums = []\<rparr> = Inr b0"
proof -
  from assms(1) obtain b0 files where
    s: "rfold (build_file_skeleton env) fds \<lparr>built_files = [], built_messages = [], built_enums = []\<rparr> = Inr b0"
    and r: "rmap (\<lambda>(n, f). rbind (fill_file (fill_of env b0) f) (\<lambda>f'. Inr (n, f'))) (built_files b0) = Inr files"
    and b: "b = \<lparr>built_files = files, built_messages = refresh_messages files, built_enums = built_enums b0\<rparr>"
    by (auto simp: build_objects_def Let_def)
  have sk: "skeletons env fds (built_files b0)" using build_skeletons [OF s] assms(2) by simp
  show thesis by (rule that [of b0]) (use fill_skeletons [OF sk r] sk b s in simp_all)
qed

lemma filled_message:
  assumes f: "list_all2 (filled env (fill_of env b0)) fds files" and m: "m \<in> set (file_messages files)"
  obtains i where "i < length fds" and "m \<in> set (walk_messages (model_messages (snd (files ! i))))"
    and "message_package m = package (fds ! i)"
    and "message_parents m = [] \<or> (\<exists>p\<in>set (walk_messages (model_messages (snd (files ! i)))).
          message_package p = package (fds ! i) \<and> message_parents m = message_full_name p # message_parents p)"
    and "build_constants env (message_full_name m) = Inr (message_constants m)"
proof -
  have len: "length fds = length files" using f by (rule list_all2_lengthD)
  from m obtain i where i: "i < length files" and mi: "m \<in> set (walk_messages (model_messages (snd (files ! i))))"
    by (auto simp: file_messages_def in_set_conv_nth split: prod.splits) (metis snd_conv in_set_conv_nth)
  let ?fd = "fds ! i" and ?ts = "model_messages (snd (files ! i))"
  have fi: "filled env (fill_of env b0) ?fd (files ! i)" using f i by (simp add: list_all2_conv_all_nth)
  from mi obtain t where t: "t \<in> set ?ts" and mt: "m \<in> set (walk_tree t)" by (auto simp: walk_messages_def)
  then obtain d where d: "fill_tree (fill_of env b0) (build_message_skeleton ?fd None (msg_name d) d) = Inr t"
    using fi by (auto simp: filled_def list_all2_conv_all_nth in_set_conv_nth)
  have lk: "linked [] (package ?fd) (build_message_skeleton ?fd None (msg_name d) d)"
    using linked_skeleton [of None ?fd] by simp
  have l: "linked [] (package ?fd) t"
    by (rule fill_tree_linked [OF _ d lk]) (rule fill_message_place)
  have w: "set (walk_tree t) \<subseteq> set (walk_messages ?ts)" using t by (auto simp: walk_messages_def)
  from fill_tree_walk [OF d] mt obtain m0 where "fill_of env b0 m0 = Inr m"
    by (auto simp: list_all2_conv_all_nth in_set_conv_nth)
  then have "build_constants env (message_full_name m) = Inr (message_constants m)" by (rule fill_message_constants)
  with linked_parent [OF l mt] w show thesis
    using that [of i] i mi len by (metis subsetD)
qed

lemma all2_right: "list_all2 P xs ys \<Longrightarrow> y \<in> set ys \<Longrightarrow> \<exists>x\<in>set xs. P x y"
  by (induction xs ys rule: list_all2_induct) auto

lemma filled_message_file:
  assumes f: "list_all2 (filled env (fill_of env b0)) fds files" and m: "m \<in> set (file_messages files)"
  shows "message_file_name m \<in> set (map file_name fds)"
proof -
  from m obtain nf t where nf: "nf \<in> set files" and t: "t \<in> set (model_messages (snd nf))" "m \<in> set (walk_tree t)"
    by (force simp: file_messages_def walk_messages_def)
  from all2_right [OF f nf] obtain fd where fd: "fd \<in> set fds" "filled env (fill_of env b0) fd nf" by blast
  then obtain d where d: "fill_tree (fill_of env b0) (build_message_skeleton fd None (msg_name d) d) = Inr t"
    using all2_right [OF _ t(1)] unfolding filled_def by blast
  from all2_right [OF fill_tree_walk [OF d] t(2)] obtain m0 where
    "m0 \<in> set (walk_tree (build_message_skeleton fd None (msg_name d) d))" "fill_of env b0 m0 = Inr m" by blast
  then have "message_file_name m = file_name fd"
    using fill_message_place [of _ _ _ _ m0 m] skeleton_file_name by (auto simp: same_place_def)
  with fd(1) show ?thesis by simp
qed

lemma placed_unique:
  assumes "placed ident cs" "inj ident" "c \<in> set cs" "c' \<in> set cs" "const_id c = const_id c'"
  shows "c = c'"
proof -
  from assms(3,4) obtain i j where "c = cs ! i" "i < length cs" "c' = cs ! j" "j < length cs"
    by (metis in_set_conv_nth)
  with assms(1,5) have "ident i = ident j" by (simp add: placed_def)
  then have "i = j" by (rule injD [OF assms(2)])
  with \<open>c = cs ! i\<close> \<open>c' = cs ! j\<close> show ?thesis by simp
qed

lemma placed_member: "placed ident cs \<Longrightarrow> c \<in> set cs \<Longrightarrow> constant_ok c \<and> (\<exists>i. const_id c = ident i)"
  by (auto simp: placed_def in_set_conv_nth)

lemma inj_idents: "inj (MessageConstant n)" "inj (FileConstant n)"
  by (simp_all add: inj_def)

lemma filled_full_names:
  assumes "list_all2 (filled env (fill_of env b0)) fds files"
  shows "map message_full_name (file_messages files) = declared_full_names fds"
proof -
  have "list_all2 (\<lambda>fd nf. map message_full_name (walk_messages (model_messages (snd nf)))
      = map (\<lambda>(_, p, _). proto_full_name fd p) (walk_descriptor_messages fd)) fds files"
    using assms by (rule list_all2_mono) (rule filled_names [OF fill_message_place])
  then show ?thesis
    unfolding file_messages_def declared_full_names_def map_concat map_map comp_def
    by (auto dest!: concat_all2 simp: case_prod_beta)
qed

lemma built_message_table:
  assumes "list_all2 (filled env (fill_of env b0)) fds files" and "distinct (declared_full_names fds)"
  shows "refresh_messages files = map (\<lambda>m. (message_full_name m, m)) (file_messages files)"
    and "distinct (map message_full_name (file_messages files))"
proof -
  from filled_full_names [OF assms(1)] assms(2) show d: "distinct (map message_full_name (file_messages files))" by simp
  show "refresh_messages files = map (\<lambda>m. (message_full_name m, m)) (file_messages files)"
    unfolding refresh_messages_def file_messages_def [symmetric] using dict_of_list [OF d, of "[]"] by simp
qed

lemma build_objects_well_formed:
  assumes b: "build_objects env fds = Inr b" and files: "distinct (map file_name fds)"
    and names: "distinct (declared_full_names fds)" and payloads: "payloads_ok env"
  shows "well_formed (built_files b) (built_messages b)"
proof -
  from build_objects_filled [OF b files] obtain b0 where
    f: "list_all2 (filled env (fill_of env b0)) fds (built_files b)" and mt: "built_messages b = refresh_messages (built_files b)"
    by metis
  let ?ms = "file_messages (built_files b)"
  note table = built_message_table [OF f names]
  have mset: "(k, m) \<in> set (built_messages b) \<longleftrightarrow> m \<in> set ?ms \<and> k = message_full_name m" for k m
    unfolding mt table(1) by auto
  have uniq: "m = m'" if "m \<in> set ?ms" "m' \<in> set ?ms" "message_full_name m = message_full_name m'" for m m'
    using that table(2) by (auto simp: distinct_map dest: inj_onD)
  have mc: "placed (MessageConstant (message_full_name m)) (message_constants m)" if "m \<in> set ?ms" for m
    using filled_message [OF f that] message_constants_placed payloads by metis
  have fc: "placed (FileConstant (model_file_name (snd nf))) (model_constants (snd nf)) \<and> fst nf = model_file_name (snd nf)"
    if nf: "nf \<in> set (built_files b)" for nf
  proof -
    from nf f obtain fd where "filled env (fill_of env b0) fd nf" by (auto simp: list_all2_conv_all_nth in_set_conv_nth)
    then show ?thesis using file_constants_placed payloads by (auto simp: filled_def)
  qed
  have keys: "map fst (built_files b) = map file_name fds"
    using f by (auto simp: list_all2_conv_all_nth filled_def intro!: nth_equalityI)
  have funiq: "nf = nf'" if "nf \<in> set (built_files b)" "nf' \<in> set (built_files b)" "fst nf = fst nf'" for nf nf'
    using that files keys by (metis distinct_map inj_onD)
  show ?thesis unfolding well_formed_def
  proof (intro conjI)
    show "distinct (map fst (built_messages b))" using table(2) by (simp add: mt table(1) comp_def)
    show "\<forall>(k, m)\<in>set (built_messages b). message_full_name m = k" by (auto simp: mset)
    show "\<forall>(k, m)\<in>set (built_messages b). case message_parents m of [] \<Rightarrow> True
        | p # ps \<Rightarrow> \<exists>m'. (p, m') \<in> set (built_messages b) \<and> message_parents m' = ps \<and> message_package m' = message_package m"
    proof (clarsimp simp: mset split: list.splits)
      fix m p ps assume m: "m \<in> set ?ms" and ps: "message_parents m = p # ps"
      from filled_message [OF f m] obtain i where i: "i < length fds" "message_package m = package (fds ! i)"
        and par: "\<exists>q\<in>set (walk_messages (model_messages (snd (built_files b ! i)))).
          message_package q = package (fds ! i) \<and> message_parents m = message_full_name q # message_parents q"
        using ps by (metis list.distinct(1))
      then obtain q where q: "q \<in> set (walk_messages (model_messages (snd (built_files b ! i))))"
        "message_package q = message_package m" "p = message_full_name q" "ps = message_parents q"
        using ps i by auto
      moreover have "i < length (built_files b)" using i(1) f by (simp add: list_all2_lengthD)
      ultimately have "q \<in> set ?ms" unfolding file_messages_def
        by (auto simp: case_prod_beta intro!: bexI [of _ "built_files b ! i"])
      with q show "\<exists>m'. m' \<in> set ?ms \<and> p = message_full_name m' \<and> message_parents m' = ps
          \<and> message_package m' = message_package m" by metis
    qed
    show "\<forall>sc c. declares (built_files b) (built_messages b) sc c \<longrightarrow> constant_ok c"
      unfolding declares_def using mc fc placed_member by (fastforce simp: mset)
    show "\<forall>sc c sc' c'. declares (built_files b) (built_messages b) sc c \<longrightarrow>
        declares (built_files b) (built_messages b) sc' c' \<longrightarrow> const_id c = const_id c' \<longrightarrow> sc = sc' \<and> c = c'"
    proof (intro allI impI)
      fix sc c sc' c'
      assume d: "declares (built_files b) (built_messages b) sc c" "declares (built_files b) (built_messages b) sc' c'"
        and id: "const_id c = const_id c'"
      have mid: "\<exists>i. const_id c = MessageConstant (message_full_name m) i" if "m \<in> set ?ms" "c \<in> set (message_constants m)" for m c
        using placed_member [OF mc [OF that(1)] that(2)] by simp
      have fid: "\<exists>i. const_id c = FileConstant (fst nf) i" if "nf \<in> set (built_files b)" "c \<in> set (model_constants (snd nf))" for nf c
        using placed_member [of _ _ c] fc [OF that(1)] that(2) by metis
      have cases: "(\<exists>m\<in>set ?ms. sc = message_scope m \<and> c \<in> set (message_constants m))
          \<or> (\<exists>nf\<in>set (built_files b). sc = PackageScope (model_package (snd nf)) \<and> c \<in> set (model_constants (snd nf)))"
        if "declares (built_files b) (built_messages b) sc c" for sc c
        using that unfolding declares_def by (force simp: mset)
      from cases [OF d(1)] cases [OF d(2)] show "sc = sc' \<and> c = c'"
      proof (elim disjE bexE conjE)
        fix m m' assume m: "m \<in> set ?ms" "m' \<in> set ?ms" "sc = message_scope m" "sc' = message_scope m'"
          and c: "c \<in> set (message_constants m)" "c' \<in> set (message_constants m')"
        then have "m = m'" using mid [OF m(1) c(1)] mid [OF m(2) c(2)] id uniq by auto
        with m c id show ?thesis using placed_unique [OF mc [OF m(1)] inj_idents(1)] by blast
      next
        fix nf nf' assume n: "nf \<in> set (built_files b)" "nf' \<in> set (built_files b)"
          "sc = PackageScope (model_package (snd nf))" "sc' = PackageScope (model_package (snd nf'))"
          and c: "c \<in> set (model_constants (snd nf))" "c' \<in> set (model_constants (snd nf'))"
        then have "nf = nf'" using fid [OF n(1) c(1)] fid [OF n(2) c(2)] id funiq [OF n(1,2)] by auto
        with n c id show ?thesis using placed_unique [OF fc [OF n(1), THEN conjunct1] inj_idents(2)] by blast
      qed (use mid fid id in fastforce)+
    qed
  qed
qed

end
