(* ===== verification/FieldSpec.thy ===== *)
theory FieldSpec
  imports BuildSpec ValidationSpec
begin

text \<open>
  What the checks on fields leave: every field of a built message satisfies \<open>field_model_ok\<close>, and a
  request whose descriptors were accepted is either refused with one of the program's own errors or
  built. \<open>yields good P m\<close> says that an error of \<open>m\<close> is good and a result satisfies \<open>P\<close>.
\<close>

definition yields :: "('e \<Rightarrow> bool) \<Rightarrow> ('a \<Rightarrow> bool) \<Rightarrow> 'e + 'a \<Rightarrow> bool" where
  "yields good P m = (case m of Inl e \<Rightarrow> good e | Inr x \<Rightarrow> P x)"

lemma yields_simps [simp]: "yields good P (Inl e) = good e" "yields good P (Inr x) = P x"
  by (simp_all add: yields_def)

lemma yields_rbind:
  assumes "yields good (\<lambda>_. True) m" and "\<And>x. m = Inr x \<Longrightarrow> yields good P (f x)"
  shows "yields good P (rbind m f)"
  using assms by (cases m) auto

lemma yields_mono: "yields good P m \<Longrightarrow> (\<And>x. m = Inr x \<Longrightarrow> P x \<Longrightarrow> Q x) \<Longrightarrow> yields good Q m"
  by (cases m) auto

lemma yields_lift: "yields (\<lambda>e. good (g e)) P m \<Longrightarrow> yields good P (lift_error g m)"
  by (cases m) auto

lemma yields_rmap:
  "(\<And>x. x \<in> set xs \<Longrightarrow> yields good P (f x)) \<Longrightarrow> yields good (list_all P) (rmap f xs)"
proof (induction xs)
  case (Cons x xs)
  have x: "yields good P (f x)" using Cons.prems by simp
  have xs: "yields good (list_all P) (rmap f xs)" using Cons by simp
  show ?case using x xs by (cases "f x"; cases "rmap f xs") auto
qed simp

lemma yields_rfold:
  assumes "\<And>x s. x \<in> set xs \<Longrightarrow> I s \<Longrightarrow> yields good I (f x s)" and "I s"
  shows "yields good I (rfold f xs s)"
  using assms
proof (induction xs arbitrary: s)
  case (Cons x xs)
  then have "yields good I (f x s)" by simp
  with Cons show ?case by (cases "f x s") auto
qed simp

section \<open>Errors of the program\<close>

fun program_field_error :: "field_error \<Rightarrow> bool" where
  "program_field_error (FieldError _ i) = (i \<noteq> MapEntryTooShort \<and> i \<noteq> MapEntryRecursion)"
| "program_field_error (FieldExprError e) = (e \<noteq> OutOfFuel \<and> e \<noteq> Uncaught)"
| "program_field_error (FieldOptionError _) = True"

fun program_error :: "build_error \<Rightarrow> bool" where
  "program_error (FieldFailure e) = program_field_error e"
| "program_error (MissingFile _) = False"
| "program_error _ = True"

section \<open>Fields\<close>

definition array_model_ok :: "FieldModel \<Rightarrow> bool" where
  \<comment> \<open>a bound stands on bytes or repeated fields, once, is positive, and admits the default\<close>
  "array_model_ok f \<longleftrightarrow>
     (array_fixed f \<longrightarrow> array_enabled f) \<and> (array_max f = None \<or> array_expr f = None) \<and>
     (array_enabled f \<longrightarrow> field_kind f \<noteq> MapField \<and> (field_kind f = BytesField \<or> repeated f)) \<and>
     (\<forall>n. array_max f = Some n \<longrightarrow> 0 < n \<and>
        (\<forall>d. default_byte_size f = Some d \<longrightarrow> (if array_fixed f then d = n else d \<le> n)))"

definition default_model_ok :: "string \<Rightarrow> FieldModel \<Rightarrow> bool" where
  "default_model_ok syn f \<longleftrightarrow>
     (default_cpp f \<noteq> None \<longrightarrow> syn \<noteq> ''proto3'' \<and> \<not> repeated f \<and> field_kind f \<notin> {MessageField, MapField}) \<and>
     (default_byte_size f \<noteq> None \<longrightarrow> field_kind f = BytesField \<and> default_cpp f \<noteq> None)"

definition packed_model_ok :: "FieldModel \<Rightarrow> bool" where
  "packed_model_ok f \<longleftrightarrow> (packed f \<longrightarrow> repeated f \<and> field_kind f \<in> {ScalarField, EnumField})"

definition types_model_ok :: "string set \<Rightarrow> string set \<Rightarrow> FieldModel \<Rightarrow> bool" where
  \<comment> \<open>references resolve and belong to the kinds that have them\<close>
  "types_model_ok messages enums f \<longleftrightarrow>
     (field_kind f \<in> {MessageField, MapField} \<longleftrightarrow> field_message_type f \<noteq> None) \<and>
     (field_kind f = EnumField \<longleftrightarrow> field_enum_type f \<noteq> None) \<and>
     (field_kind f = MapField \<longleftrightarrow> map_key f \<noteq> None) \<and> (map_key f = None \<longleftrightarrow> map_value f = None) \<and>
     (field_kind f = MapField \<longrightarrow> repeated f) \<and>
     (\<forall>n. field_message_type f = Some n \<longrightarrow> n \<in> messages) \<and> (\<forall>n. field_enum_type f = Some n \<longrightarrow> n \<in> enums)"

definition flat_model_ok :: "string \<Rightarrow> string set \<Rightarrow> string set \<Rightarrow> FieldModel \<Rightarrow> bool" where
  "flat_model_ok syn messages enums f \<longleftrightarrow>
     array_model_ok f \<and> default_model_ok syn f \<and> packed_model_ok f \<and> types_model_ok messages enums f"

definition field_model_ok :: "string \<Rightarrow> string set \<Rightarrow> string set \<Rightarrow> FieldModel \<Rightarrow> bool" where
  \<comment> \<open>the key and the value of a map are single fields and no maps\<close>
  "field_model_ok syn messages enums f \<longleftrightarrow> flat_model_ok syn messages enums f \<and>
     (\<forall>k v. map_key f = Some k \<longrightarrow> map_value f = Some v \<longrightarrow>
        flat_model_ok syn messages enums k \<and> flat_model_ok syn messages enums v \<and>
        \<not> repeated k \<and> \<not> repeated v)"

lemma cpp_string_ok: "yields program_field_error (\<lambda>_. True) (lift_error FieldExprError (cpp_constant_value KString (PyStr v)))"
  by (auto simp: cpp_constant_value_def)

lemma integer_default_ok:
  assumes "map_of INTEGER_CONSTANT_KINDS t = Some k"
  shows "yields program_field_error (\<lambda>_. True) (integer_default_cpp env v k label)"
proof -
  have "k = KInt32 \<or> k = KInt64 \<or> k = KUInt32 \<or> k = KUInt64"
    using map_of_SomeD [OF assms] by (auto simp: INTEGER_CONSTANT_KINDS_def)
  then show ?thesis
    by (elim disjE) (auto simp: integer_default_cpp_def coerce_integer_def cpp_constant_value_def split: option.split)
qed

lemma floating_parse_ok: "yields program_field_error (\<lambda>_. True) (parse_protobuf_floating_default v single label)"
proof -
  have "yields program_field_error (\<lambda>_. True) (protobuf_f32 neg c e (FieldError label (InvalidFloatingDefault v)))" for neg c e
    by (simp add: protobuf_f32_def Let_def split: prod.split)
  then show ?thesis
    unfolding parse_protobuf_floating_default_def Let_def
    by (simp split: option.split floating_text.split prod.split)
qed

lemma floating_default_ok: "yields program_field_error (\<lambda>_. True) (floating_default_cpp v t label)"
  unfolding floating_default_cpp_def Let_def
  by (rule yields_rbind [OF floating_parse_ok]) (simp add: cpp_constant_value_def split: pyfloat.split)

lemma bytes_default_ok: "yields program_field_error (\<lambda>_. True) (decode_bytes_default env label v)"
  by (simp add: decode_bytes_default_def split: option.split)

lemma yields_if:
  "(b \<Longrightarrow> yields good P m) \<Longrightarrow> (\<not> b \<Longrightarrow> yields good P n) \<Longrightarrow> yields good P (if b then m else n)"
  by simp

lemma yields_some: "yields good (\<lambda>_. True) m \<Longrightarrow> yields good (\<lambda>_. True) (rbind m (\<lambda>t. Inr (Some (g t))))"
  by (rule yields_rbind) simp_all

lemma enum_default_ok:
  "yields program_field_error (\<lambda>_. True) (case e of None \<Rightarrow> Inr None
     | Some e \<Rightarrow> (case enum_default (enum_values e) v of None \<Rightarrow> Inl (FieldError label (UnknownEnumDefault v)) | Some t \<Rightarrow> Inr (Some t)))"
  by (simp split: option.split)

lemma scalar_default_ok:
  "yields program_field_error (\<lambda>_. True) (case map_of INTEGER_CONSTANT_KINDS t of
       Some k \<Rightarrow> rbind (integer_default_cpp env v k label) (\<lambda>t. Inr (Some t))
     | None \<Rightarrow> Inr (if map_of SCALAR_CPP_TYPES t \<noteq> None then Some v else None))"
  by (cases "map_of INTEGER_CONSTANT_KINDS t") (auto intro: yields_some integer_default_ok)

lemma field_default_errors: "yields program_field_error (\<lambda>_. True) (field_default_cpp env syn owner f kind e)"
proof (cases "fdefault_value f")
  case None
  then show ?thesis by (simp add: field_default_cpp_def)
next
  case (Some v)
  show ?thesis
    unfolding field_default_cpp_def Let_def Some option.case
    by (intro yields_if yields_some cpp_string_ok bytes_default_ok floating_default_ok enum_default_ok scalar_default_ok)
      simp_all
qed

lemma field_default_ok:
  assumes "field_default_cpp env syn owner f kind e = Inr (Some t)"
  shows "syn \<noteq> ''proto3'' \<and> field_label f \<noteq> LABEL_REPEATED \<and> kind \<notin> {MessageField, MapField}"
proof (cases "fdefault_value f")
  case None
  with assms show ?thesis by (auto simp: field_default_cpp_def split: option.splits if_splits)
next
  case (Some v)
  have "Inl x \<noteq> Inr y" for x :: field_error and y :: "string option" by simp
  with assms Some show ?thesis
    unfolding field_default_cpp_def Let_def by (simp only: option.case) (metis insert_iff empty_iff)
qed

lemma field_default_size_ok:
  "yields program_field_error (\<lambda>d. d \<noteq> None \<longrightarrow> kind = BytesField \<and> fdefault_value f \<noteq> None)
     (field_default_byte_size env owner f kind)"
  unfolding field_default_byte_size_def
  by (auto split: option.split intro!: yields_rbind bytes_default_ok)

lemma bytes_default_given:
  assumes "field_default_cpp env syn owner f BytesField e = Inr d" "fdefault_value f \<noteq> None"
  shows "d \<noteq> None"
proof -
  obtain v where v: "fdefault_value f = Some v" using assms(2) by auto
  show ?thesis using assms(1) v
    by (auto simp: field_default_cpp_def Let_def split: if_splits)
qed

section \<open>The shape of a field\<close>

definition table_names :: "(string, MessageModel) dict \<Rightarrow> bool" where
  "table_names messages \<longleftrightarrow> (\<forall>k m. map_of messages k = Some m \<longrightarrow> message_full_name m = k)"

definition enum_table_names :: "(string, EnumModel) dict \<Rightarrow> bool" where
  "enum_table_names enums \<longleftrightarrow> (\<forall>k e. map_of enums k = Some e \<longrightarrow> enum_full_name e = k)"

definition entries_ok :: "(string, MessageModel) dict \<Rightarrow> bool" where
  \<comment> \<open>the fields of a map entry are a key and a value, both single\<close>
  "entries_ok messages \<longleftrightarrow> (\<forall>k m. map_of messages k = Some m \<longrightarrow> is_map_entry m \<longrightarrow>
     (\<exists>key val. mfields (message_descriptor m) = [key, val] \<and> field_label key = LABEL_OPTIONAL \<and> field_label val = LABEL_OPTIONAL))"

definition shape_ok :: "(FieldModel \<Rightarrow> bool) \<Rightarrow> message_table \<Rightarrow> enum_table \<Rightarrow> FieldDescriptorProto \<Rightarrow> field_shape \<Rightarrow> bool" where
  "shape_ok Q messages enums f s \<longleftrightarrow>
     (\<forall>k v. shape_map s = Some (k, v) \<longrightarrow> Q k \<and> Q v) \<and>
     (shape_kind s \<in> {MessageField, MapField} \<longleftrightarrow> shape_message s \<noteq> None) \<and>
     (shape_kind s = EnumField \<longleftrightarrow> shape_enum s \<noteq> None) \<and>
     (shape_kind s = MapField \<longleftrightarrow> shape_map s \<noteq> None) \<and>
     (shape_kind s = MapField \<longrightarrow> field_label f = LABEL_REPEATED) \<and>
     (field_type f \<in> set PACKABLE_TYPES \<longrightarrow> shape_kind s \<in> {ScalarField, EnumField}) \<and>
     (\<forall>m. shape_message s = Some m \<longrightarrow> (\<exists>k. map_of messages k = Some m)) \<and>
     (\<forall>e. shape_enum s = Some e \<longrightarrow> (\<exists>k. map_of enums k = Some e))"

lemma shape_refs:
  "shape_ok Q messages enums f s \<Longrightarrow> shape_message s = Some m \<Longrightarrow> \<exists>k. map_of messages k = Some m"
  "shape_ok Q messages enums f s \<Longrightarrow> shape_enum s = Some e \<Longrightarrow> \<exists>k. map_of enums k = Some e"
  by (simp_all add: shape_ok_def)

lemma resolve_type_yields:
  "yields program_field_error (\<lambda>x. map_of table name = Some x) (resolve_type table name label expected)"
  by (simp add: resolve_type_def split: option.split)

lemma packable_types: "field_type f \<in> set PACKABLE_TYPES \<Longrightarrow>
    field_type f \<noteq> TYPE_STRING \<and> field_type f \<noteq> TYPE_BYTES \<and> field_type f \<noteq> TYPE_MESSAGE"
  by (auto simp: PACKABLE_TYPES_def SCALAR_CPP_TYPES_def type_defs)

lemma yields_use: "yields good P m \<Longrightarrow> m = Inr x \<Longrightarrow> P x"
  by simp

lemma yields_weaken: "yields good P m \<Longrightarrow> yields good (\<lambda>_. True) m"
  by (cases m) auto

lemma field_shape_yields:
  assumes entry: "\<And>m k. field_label f = LABEL_REPEATED \<Longrightarrow> map_of messages k = Some m \<Longrightarrow> is_map_entry m \<Longrightarrow>
      yields program_field_error (\<lambda>(k, v). Q k \<and> Q v) (entry m)"
  shows "yields program_field_error (shape_ok Q messages enums f) (field_shape_of entry messages enums label f)"
proof -
  let ?t = "field_type f" and ?name = "strip_type_name (ftype_name f)"
  have enum: "yields program_field_error (shape_ok Q messages enums f)
      (rbind (resolve_type enums ?name label ''enum'') (\<lambda>e. Inr ((plain_shape EnumField ''int32_t'')\<lparr>shape_enum := Some e\<rparr>)))"
    by (rule yields_rbind [OF yields_weaken [OF resolve_type_yields]], drule yields_use [OF resolve_type_yields])
      (auto simp: shape_ok_def)
  have message: "yields program_field_error (shape_ok Q messages enums f)
      (rbind (resolve_type messages ?name label ''message'') (\<lambda>m.
          if field_label f = LABEL_REPEATED \<and> is_map_entry m then
            rbind (entry m) (\<lambda>(k, v).
              Inr ((plain_shape MapField
                     (''typename Config::template Map<'' @ cpp_type k @ '', '' @ cpp_type v @ ''>''))
                   \<lparr>shape_message := Some m, shape_map := Some (k, v)\<rparr>))
          else Inr ((plain_shape MessageField [])\<lparr>shape_message := Some m\<rparr>)))" if "?t = TYPE_MESSAGE"
  proof (rule yields_rbind [OF yields_weaken [OF resolve_type_yields]], drule yields_use [OF resolve_type_yields],
      rule yields_if)
    have np: "?t \<notin> set PACKABLE_TYPES" using that packable_types by blast
    fix m assume m: "map_of messages ?name = Some m"
    show "yields program_field_error (shape_ok Q messages enums f) (rbind (entry m) (\<lambda>(k, v).
              Inr ((plain_shape MapField
                     (''typename Config::template Map<'' @ cpp_type k @ '', '' @ cpp_type v @ ''>''))
                   \<lparr>shape_message := Some m, shape_map := Some (k, v)\<rparr>)))"
      if "field_label f = LABEL_REPEATED \<and> is_map_entry m"
    proof (rule yields_rbind)
      note e = entry [OF conjunct1 [OF that] m conjunct2 [OF that]]
      show "yields program_field_error (\<lambda>_. True) (entry m)" using e by (rule yields_weaken)
      fix kv assume "entry m = Inr kv"
      with e have "case kv of (k, v) \<Rightarrow> Q k \<and> Q v" by simp
      then show "yields program_field_error (shape_ok Q messages enums f) (case kv of (k, v) \<Rightarrow>
          Inr ((plain_shape MapField (''typename Config::template Map<'' @ cpp_type k @ '', '' @ cpp_type v @ ''>''))
            \<lparr>shape_message := Some m, shape_map := Some (k, v)\<rparr>))"
        using that m np by (auto simp: shape_ok_def)
    qed
    show "yields program_field_error (shape_ok Q messages enums f) (Inr ((plain_shape MessageField [])\<lparr>shape_message := Some m\<rparr>))"
      if "\<not> (field_label f = LABEL_REPEATED \<and> is_map_entry m)"
      using m np by (auto simp: shape_ok_def)
  qed
  have scalar: "yields program_field_error (shape_ok Q messages enums f)
      (case map_of SCALAR_CPP_TYPES ?t of None \<Rightarrow> Inl (FieldError label (UnsupportedType ?t))
        | Some cpp \<Rightarrow> Inr (plain_shape ScalarField cpp))"
    by (auto simp: shape_ok_def split: option.split)
  have text_like: "yields program_field_error (shape_ok Q messages enums f) (Inr (plain_shape k cpp))"
    if "?t \<notin> set PACKABLE_TYPES" "k = StringField \<or> k = BytesField" for k cpp
    using that by (auto simp: shape_ok_def)
  show ?thesis unfolding field_shape_of_def Let_def
  proof (intro yields_if)
    show "yields program_field_error (shape_ok Q messages enums f) (Inr (plain_shape StringField ''typename Config::String''))"
      if "?t = TYPE_STRING" using that packable_types by (intro text_like) blast+
    show "yields program_field_error (shape_ok Q messages enums f) (Inr (plain_shape BytesField ''typename Config::Bytes''))"
      if "?t = TYPE_BYTES" using that packable_types by (intro text_like) blast+
  qed (use enum message scalar in blast)+
qed

lemma field_array_ok: "yields program_field_error (\<lambda>_. True) (lift_error FieldOptionError (field_array p label))"
  by (auto simp: field_array_def split: option.split sum.split)

lemma oneof_name_ok: "yields program_field_error (\<lambda>_. True) (field_oneof_name label owner f)"
  by (auto simp: field_oneof_name_def split: option.split)

lemma default_byte_size_check:
  "yields program_field_error (\<lambda>_. if fixed then d = n else d \<le> n)
     (lift_error FieldExprError (validate_array_default_byte_size label d n fixed))"
  by (simp add: validate_array_default_byte_size_def)

definition array_option_ok :: "bool \<Rightarrow> field_kind \<Rightarrow> int option \<Rightarrow> int option \<Rightarrow> string option \<Rightarrow> bool \<Rightarrow> bool" where
  "array_option_ok rep kind size_of maximum expr fixed \<longleftrightarrow>
     (fixed \<longrightarrow> maximum \<noteq> None \<or> expr \<noteq> None) \<and> (maximum = None \<or> expr = None) \<and>
     (maximum \<noteq> None \<or> expr \<noteq> None \<longrightarrow> kind \<noteq> MapField \<and> (kind = BytesField \<or> rep)) \<and>
     (\<forall>n. maximum = Some n \<longrightarrow> 0 < n \<and> (\<forall>d. size_of = Some d \<longrightarrow> (if fixed then d = n else d \<le> n)))"

lemma check_array_yields:
  "yields program_field_error (\<lambda>_. array_option_ok rep kind size_of maximum expr fixed)
     (check_array_option u label rep kind size_of maximum expr fixed)"
proof (cases "maximum = None \<and> expr = None \<or> (maximum \<noteq> None \<and> expr \<noteq> None)")
  case True
  then show ?thesis by (auto simp: check_array_option_def array_option_ok_def)
next
  case False
  then show ?thesis
    by (cases maximum; cases size_of)
      (auto simp: check_array_option_def array_option_ok_def not_le validate_array_default_byte_size_def split: option.split)
qed

lemma yields_rbind3:
  assumes "yields good (\<lambda>_. True) m" and "\<And>a b c. m = Inr (a, b, c) \<Longrightarrow> yields good P (f a b c)"
  shows "yields good P (rbind m (\<lambda>(a, b, c). f a b c))"
  using assms by (intro yields_rbind) auto

definition with_entry :: "(FieldModel \<Rightarrow> bool) \<Rightarrow> string \<Rightarrow> string set \<Rightarrow> string set \<Rightarrow> FieldModel \<Rightarrow> bool" where
  "with_entry Q syn messages enums f \<longleftrightarrow> flat_model_ok syn messages enums f \<and>
     (\<forall>k v. map_key f = Some k \<longrightarrow> map_value f = Some v \<longrightarrow> Q k \<and> Q v)"

lemma flat_model_final:
  assumes names: "table_names messages" "enum_table_names enums"
    and shape: "shape_ok Q messages enums f s"
    and default: "field_default_cpp de syn owner f (shape_kind s) (shape_enum s) = Inr d"
    and size_of: "field_default_byte_size de owner f (shape_kind s) = Inr z"
    and arr: "array_option_ok (field_label f = LABEL_REPEATED) (shape_kind s) z maximum expr fixed"
  shows "with_entry Q syn (dom (map_of messages)) (dom (map_of enums))
    (FieldModel nm cpp nr ty lab fl (field_label f = LABEL_REPEATED) ep oi on (is_packed f syn) dep tn (shape_kind s)
       ct (map_option message_full_name (shape_message s)) (map_option enum_full_name (shape_enum s))
       (map_option fst (shape_map s)) (map_option snd (shape_map s)) maximum expr fixed ep' req d z cl)"
    (is "with_entry _ _ _ _ ?f")
proof -
  have "array_model_ok ?f"
    using arr unfolding array_model_ok_def array_option_ok_def array_enabled_def FieldModel.sel by blast
  moreover have "default_model_ok syn ?f"
  proof -
    have "d \<noteq> None \<longrightarrow> syn \<noteq> ''proto3'' \<and> field_label f \<noteq> LABEL_REPEATED \<and> shape_kind s \<notin> {MessageField, MapField}"
      using field_default_ok default by blast
    moreover have z: "z \<noteq> None \<longrightarrow> shape_kind s = BytesField \<and> fdefault_value f \<noteq> None"
      using yields_use [OF field_default_size_ok size_of] .
    moreover have "z \<noteq> None \<longrightarrow> d \<noteq> None" using z bytes_default_given default by metis
    ultimately show ?thesis unfolding default_model_ok_def FieldModel.sel by blast
  qed
  moreover have "packed_model_ok ?f"
    using shape unfolding packed_model_ok_def shape_ok_def is_packed_def FieldModel.sel by (auto split: if_splits)
  moreover have "types_model_ok (dom (map_of messages)) (dom (map_of enums)) ?f"
  proof -
    have "message_full_name m \<in> dom (map_of messages)" if "shape_message s = Some m" for m
      using shape_refs(1) [OF shape that] names(1) by (auto simp: table_names_def)
    moreover have "enum_full_name e \<in> dom (map_of enums)" if "shape_enum s = Some e" for e
      using shape_refs(2) [OF shape that] names(2) by (auto simp: enum_table_names_def)
    ultimately show ?thesis using shape unfolding types_model_ok_def shape_ok_def FieldModel.sel
      by (cases "shape_message s"; cases "shape_enum s"; cases "shape_map s") auto
  qed
  moreover have "\<forall>k v. map_key ?f = Some k \<longrightarrow> map_value ?f = Some v \<longrightarrow> Q k \<and> Q v"
    using shape unfolding shape_ok_def FieldModel.sel by auto
  ultimately show ?thesis unfolding with_entry_def flat_model_ok_def by blast
qed

lemma lift_error_Inl [simp]: "lift_error g m = Inl e \<longleftrightarrow> (\<exists>x. m = Inl x \<and> e = g x)"
  by (cases m) auto

lemma yields_any: "yields (\<lambda>_. True) (\<lambda>_. True) m"
  by (cases m) auto

lemma build_field_repeated:
  assumes "build_field (Suc n) env syn messages enums owner index f = Inr fm"
  shows "repeated fm \<longleftrightarrow> field_label f = LABEL_REPEATED"
proof -
  have "yields (\<lambda>_. True) (\<lambda>fm. repeated fm \<longleftrightarrow> field_label f = LABEL_REPEATED)
      (build_field (Suc n) env syn messages enums owner index f)"
    unfolding build_field.simps Let_def
    by (rule yields_if, simp, rule yields_if, simp, rule yields_rbind [OF yields_any], rule yields_rbind3 [OF yields_any],
        rule yields_rbind [OF yields_any], rule yields_rbind [OF yields_any], rule yields_rbind [OF yields_any],
        rule yields_rbind [OF yields_any]) simp
  with assms show ?thesis by simp
qed

lemma build_field_yields:
  assumes names: "table_names messages" "enum_table_names enums" and entries: "entries_ok messages"
    and entry_fields: "\<And>m k i f'. field_label f = LABEL_REPEATED \<Longrightarrow> map_of messages k = Some m \<Longrightarrow> is_map_entry m \<Longrightarrow>
      field_label f' = LABEL_OPTIONAL \<Longrightarrow>
      yields program_field_error Q (build_field n env syn messages enums m i f')"
  shows "yields program_field_error (with_entry Q syn (dom (map_of messages)) (dom (map_of enums)))
     (build_field (Suc n) env syn messages enums owner index f)"
proof -
  have entry: "yields program_field_error (\<lambda>(k, v). Q k \<and> Q v)
      (case mfields (message_descriptor m) of
         k # v # _ \<Rightarrow>
           rbind (build_field n env syn messages enums m 0 k) (\<lambda>map_key.
           rbind (build_field n env syn messages enums m 1 v) (\<lambda>map_value. Inr (map_key, map_value)))
       | _ \<Rightarrow> Inl (FieldError label MapEntryTooShort))"
    if m: "field_label f = LABEL_REPEATED" "map_of messages k = Some m" "is_map_entry m" for m k label
  proof -
    obtain key val where kv: "mfields (message_descriptor m) = [key, val]" "field_label key = LABEL_OPTIONAL"
      "field_label val = LABEL_OPTIONAL" using entries m unfolding entries_ok_def by blast
    show ?thesis unfolding kv(1) list.case
      using entry_fields [OF m kv(2), of 0] entry_fields [OF m kv(3), of 1]
      by (intro yields_rbind) (auto intro: yields_weaken)
  qed
  have shape: "yields program_field_error (shape_ok Q messages enums f) (field_shape_of (\<lambda>m.
      case mfields (message_descriptor m) of
         k # v # _ \<Rightarrow>
           rbind (build_field n env syn messages enums m 0 k) (\<lambda>map_key.
           rbind (build_field n env syn messages enums m 1 v) (\<lambda>map_value. Inr (map_key, map_value)))
       | _ \<Rightarrow> Inl (FieldError label MapEntryTooShort)) messages enums label f)" for label
    by (rule field_shape_yields) (rule entry)
  show ?thesis unfolding build_field.simps Let_def
    apply (rule yields_if, simp)
    apply (rule yields_if, simp)
    apply (rule yields_rbind [OF oneof_name_ok])
    apply (rule yields_rbind3 [OF field_array_ok])
    apply (rule yields_rbind [OF yields_weaken [OF shape]])
    apply (drule yields_use [OF shape])
    apply (rule yields_rbind [OF field_default_errors])
    apply (rule yields_rbind [OF yields_weaken [OF field_default_size_ok]])
    apply (rule yields_rbind [OF yields_weaken [OF check_array_yields]])
    apply (drule yields_use [OF check_array_yields])
    apply (simp only: yields_simps)
    apply (rule flat_model_final [OF names])
       apply assumption+
    done
qed

lemma build_field_single:
  assumes "table_names messages" "enum_table_names enums" "entries_ok messages" "field_label f \<noteq> LABEL_REPEATED"
  shows "yields program_field_error (\<lambda>fm. flat_model_ok syn (dom (map_of messages)) (dom (map_of enums)) fm \<and> \<not> repeated fm)
     (build_field 1 env syn messages enums owner index f)"
proof -
  have "yields program_field_error (with_entry (\<lambda>_. True) syn (dom (map_of messages)) (dom (map_of enums)))
      (build_field (Suc 0) env syn messages enums owner index f)"
    by (rule build_field_yields) (use assms in auto)
  then show ?thesis unfolding One_nat_def
  proof (rule yields_mono)
    fix fm assume b: "build_field (Suc 0) env syn messages enums owner index f = Inr fm"
      and "with_entry (\<lambda>_. True) syn (dom (map_of messages)) (dom (map_of enums)) fm"
    moreover from b have "repeated fm \<longleftrightarrow> field_label f = LABEL_REPEATED" by (rule build_field_repeated)
    ultimately show "flat_model_ok syn (dom (map_of messages)) (dom (map_of enums)) fm \<and> \<not> repeated fm"
      using assms(4) by (simp add: with_entry_def)
  qed
qed

lemma build_field_ok:
  assumes "table_names messages" "enum_table_names enums" "entries_ok messages"
  shows "yields program_field_error (field_model_ok syn (dom (map_of messages)) (dom (map_of enums)))
     (build_field MAP_ENTRY_DEPTH env syn messages enums owner index f)"
proof -
  have "yields program_field_error (with_entry
        (\<lambda>fm. flat_model_ok syn (dom (map_of messages)) (dom (map_of enums)) fm \<and> \<not> repeated fm) syn
        (dom (map_of messages)) (dom (map_of enums)))
      (build_field (Suc (Suc 0)) env syn messages enums owner index f)"
  proof (rule build_field_yields [OF assms])
    fix m i f' assume "field_label f' = LABEL_OPTIONAL"
    then have "field_label f' \<noteq> LABEL_REPEATED" by (simp add: label_defs)
    then show "yields program_field_error
        (\<lambda>fm. flat_model_ok syn (dom (map_of messages)) (dom (map_of enums)) fm \<and> \<not> repeated fm)
        (build_field (Suc 0) env syn messages enums m i f')"
      using build_field_single [OF assms, unfolded One_nat_def] by blast
  qed
  then show ?thesis unfolding MAP_ENTRY_DEPTH_def numeral_2_eq_2
    by (rule yields_mono) (auto simp: with_entry_def field_model_ok_def)
qed

end
