(* ===== verification/BuildTotal.thy ===== *)
theory BuildTotal
  imports FieldSpec
begin

text \<open>
  Building a whole request: the tables of skeletons satisfy what the construction of fields assumes
  when the descriptors were accepted, and the errors are the program's own.
\<close>

section \<open>The tables of skeletons\<close>

definition skeleton_ok :: "FileDescriptorProto \<Rightarrow> MessageModel \<Rightarrow> bool" where
  "skeleton_ok fd m \<longleftrightarrow> message_file_name m = file_name fd \<and>
     (is_map_entry m \<longrightarrow> (\<exists>key val. mfields (message_descriptor m) = [key, val]
        \<and> field_label key = LABEL_OPTIONAL \<and> field_label val = LABEL_OPTIONAL))"

lemma skeleton_walk:
  "m \<in> set (walk_tree (build_message_skeleton fd parent path d)) \<Longrightarrow>
   message_file_name m = file_name fd \<and> (\<exists>d' p par. (d', p, par) \<in> set (walk_message fd path up d)
      \<and> message_descriptor m = msg_data d' \<and> is_map_entry m = mmap_entry (msg_data d')
      \<and> message_full_name m = proto_full_name fd p)"
proof (induction fd parent path d arbitrary: up rule: build_message_skeleton.induct)
  case (1 fd parent path mm nested)
  let ?model = "message_skeleton fd mm parent path"
  show ?case
  proof (cases "m = ?model")
    case True
    then show ?thesis
      by (auto simp: message_skeleton_def intro!: exI [of _ "Message mm nested"] exI [of _ path] exI [of _ up])
  next
    case False
    with 1(2) obtain n where n: "n \<in> set nested"
      "m \<in> set (walk_tree (build_message_skeleton fd (Some ?model) (path @ ''.'' @ msg_name n) n))"
      by (auto simp: Let_def)
    have "set (walk_message fd (path @ ''.'' @ msg_name n) (Some (proto_full_name fd path)) n)
        \<subseteq> set (walk_message fd path up (Message mm nested))" using n(1) by auto
    with 1(1) [OF refl n, of "Some (proto_full_name fd path)"] show ?thesis by blast
  qed
qed

lemma skeleton_message_ok:
  assumes "file_descriptors_ok fd" and "d \<in> set (message_type fd)"
    and "m \<in> set (walk_tree (build_message_skeleton fd None (msg_name d) d))"
  shows "skeleton_ok fd m \<and> message_full_name m \<in> set (map (\<lambda>(_, p, _). proto_full_name fd p) (walk_descriptor_messages fd))"
proof -
  from skeleton_walk [OF assms(3), of None] obtain d' p par where
    w: "(d', p, par) \<in> set (walk_message fd (msg_name d) None d)" and f: "message_file_name m = file_name fd"
    and m: "message_descriptor m = msg_data d'" "is_map_entry m = mmap_entry (msg_data d')"
      "message_full_name m = proto_full_name fd p" by blast
  then have wd: "(d', p, par) \<in> set (walk_descriptor_messages fd)"
    using assms(2) by (auto simp: walk_descriptor_messages_def)
  then have "walked_ok fd (d', p, par)" using assms(1) by (auto simp: file_descriptors_ok_def)
  then show ?thesis using f m wd
    by (auto simp: skeleton_ok_def walked_ok_def map_entry_ok_def Let_def intro!: image_eqI [of _ _ "(d', p, par)"])
qed

definition registered :: "FileDescriptorProto list \<Rightarrow> MessageModel \<Rightarrow> bool" where
  "registered fds m \<longleftrightarrow> (\<exists>fd. skeleton_ok fd m) \<and> message_full_name m \<in> set (declared_full_names fds)"

definition enum_registered :: "FileDescriptorProto list \<Rightarrow> string \<Rightarrow> EnumModel \<Rightarrow> bool" where
  "enum_registered fds k e \<longleftrightarrow> enum_full_name e = k \<and> enum_file_name e \<in> set (map file_name fds)"

fun tree_enums :: "message_tree \<Rightarrow> EnumModel list" where
  "tree_enums (MessageTree m es ts) = es @ concat (map tree_enums ts)"

lemma skeleton_enums:
  "e \<in> set (tree_enums (build_message_skeleton fd parent path d)) \<Longrightarrow> enum_file_name e = file_name fd"
  by (induction fd parent path d rule: build_message_skeleton.induct) (auto simp: Let_def build_enum_def)

definition tables_ok :: "FileDescriptorProto list \<Rightarrow> message_table \<times> enum_table \<Rightarrow> bool" where
  "tables_ok fds tabs \<longleftrightarrow>
     (\<forall>(k, m)\<in>set (fst tabs). message_full_name m = k \<and> registered fds m) \<and>
     (\<forall>(k, e)\<in>set (snd tabs). enum_registered fds k e)"

lemma register_enums_ok:
  "\<forall>(k, e)\<in>set d. enum_registered fds k e \<Longrightarrow> \<forall>e\<in>set es. enum_file_name e \<in> set (map file_name fds) \<Longrightarrow>
   \<forall>(k, e)\<in>set (register_enums es d). enum_registered fds k e"
proof (induction es arbitrary: d)
  case (Cons x es)
  have "enum_registered fds (enum_full_name x) x" using Cons.prems(2) by (simp add: enum_registered_def)
  then have "\<forall>(k, e)\<in>set (dict_set d (enum_full_name x) x). enum_registered fds k e"
    using Cons.prems(1) set_dict_set [of d "enum_full_name x" x] by blast
  with Cons.IH Cons.prems(2) show ?case by (simp add: register_enums_def)
qed (simp add: register_enums_def)

definition tree_ok :: "FileDescriptorProto list \<Rightarrow> message_tree \<Rightarrow> bool" where
  "tree_ok fds t \<longleftrightarrow> (\<forall>m\<in>set (walk_tree t). registered fds m)
     \<and> (\<forall>e\<in>set (tree_enums t). enum_file_name e \<in> set (map file_name fds))"

lemma register_tree_ok:
  "tree_ok fds t \<Longrightarrow> tables_ok fds tabs \<Longrightarrow> tables_ok fds (register_message_tree t tabs)"
proof (induction t tabs rule: register_message_tree.induct)
  case (1 m es ts tabs)
  have "registered fds m" using "1.prems"(1) by (simp add: tree_ok_def)
  moreover have "\<forall>(k, e)\<in>set (register_enums es (snd tabs)). enum_registered fds k e"
    using "1.prems" by (intro register_enums_ok) (simp_all add: tables_ok_def tree_ok_def)
  ultimately have start: "tables_ok fds (dict_set (fst tabs) (message_full_name m) m, register_enums es (snd tabs))"
    using "1.prems"(2) set_dict_set [of "fst tabs" "message_full_name m" m]
    unfolding tables_ok_def fst_conv snd_conv by blast
  have "tables_ok fds (fold register_message_tree us tabs')"
    if "set us \<subseteq> set ts" "tables_ok fds tabs'" for us tabs'
    using that
  proof (induction us arbitrary: tabs')
    case (Cons u us)
    have "tables_ok fds (register_message_tree u tabs')"
    proof (rule "1.IH")
      show u: "u \<in> set ts" and "tables_ok fds tabs'" using Cons.prems by simp_all
      show "tree_ok fds u" using "1.prems"(1) u unfolding tree_ok_def by auto
    qed
    with Cons.IH Cons.prems(1) show ?case by simp
  qed simp
  from this [OF subset_refl start] show ?case by simp
qed

lemma register_trees_ok:
  "\<forall>t\<in>set ts. tree_ok fds t \<Longrightarrow> tables_ok fds tabs \<Longrightarrow> tables_ok fds (fold register_message_tree ts tabs)"
  by (induction ts arbitrary: tabs) (simp_all add: register_tree_ok)

lemma set_concat_map: "x \<in> set (concat (map f xs)) \<longleftrightarrow> (\<exists>y\<in>set xs. x \<in> set (f y))"
  by auto

lemma skeleton_tables_ok:
  assumes ok: "\<forall>fd\<in>set fds. file_descriptors_ok fd"
    and run: "rfold (build_file_skeleton env) fds \<lparr>built_files = [], built_messages = [], built_enums = []\<rparr> = Inr b0"
  shows "tables_ok fds (built_messages b0, built_enums b0)"
proof (rule rfold_invariant [OF run, where I = "\<lambda>b. tables_ok fds (built_messages b, built_enums b)"])
  fix fd b b'
  assume fd: "fd \<in> set fds" and I: "tables_ok fds (built_messages b, built_enums b)" and s: "build_file_skeleton env fd b = Inr b'"
  let ?ts = "map (\<lambda>m. build_message_skeleton fd None (msg_name m) m) (message_type fd)"
    and ?es = "map (\<lambda>e. build_enum fd e None (ename e)) (enum_type fd)"
  have "(built_messages b', built_enums b') = fold register_message_tree ?ts (built_messages b, register_enums ?es (built_enums b))"
    using s by (auto simp: build_file_skeleton_def Let_def lift_error_bind split: prod.splits)
  moreover have "tables_ok fds (fold register_message_tree ?ts (built_messages b, register_enums ?es (built_enums b)))"
  proof (rule register_trees_ok)
    have "\<forall>(k, e)\<in>set (register_enums ?es (built_enums b)). enum_registered fds k e"
      by (rule register_enums_ok) (use I fd in \<open>auto simp: tables_ok_def build_enum_def\<close>)
    then show "tables_ok fds (built_messages b, register_enums ?es (built_enums b))"
      using I by (simp add: tables_ok_def)
    have names: "set (map (\<lambda>(_, p, _). proto_full_name fd p) (walk_descriptor_messages fd)) \<subseteq> set (declared_full_names fds)"
    proof
      fix x assume "x \<in> set (map (\<lambda>(_, p, _). proto_full_name fd p) (walk_descriptor_messages fd))"
      then show "x \<in> set (declared_full_names fds)"
        unfolding declared_full_names_def set_concat_map using fd by (rule bexI)
    qed
    show "\<forall>t\<in>set ?ts. tree_ok fds t"
    proof
      fix t assume "t \<in> set ?ts"
      then obtain d where d: "d \<in> set (message_type fd)" "t = build_message_skeleton fd None (msg_name d) d" by auto
      have "registered fds m" if "m \<in> set (walk_tree t)" for m
        using skeleton_message_ok [OF bspec [OF ok fd] d(1)] that names unfolding registered_def d(2) by blast
      then show "tree_ok fds t" using skeleton_enums [of _ fd None "msg_name d" d] fd
        by (auto simp: tree_ok_def d(2))
    qed
  qed
  ultimately show "tables_ok fds (built_messages b', built_enums b')" by simp
qed (simp add: tables_ok_def)

lemma tables_ok_fields:
  assumes "tables_ok fds (messages, enums)"
  shows "table_names messages" "enum_table_names enums" "entries_ok messages"
    and "dom (map_of messages) \<subseteq> set (declared_full_names fds)"
proof -
  have m: "message_full_name m = k \<and> registered fds m"
    if "map_of messages k = Some m" for k m using map_of_SomeD [OF that] assms by (fastforce simp: tables_ok_def)
  have e: "enum_full_name e = k" if "map_of enums k = Some e" for k e
    using map_of_SomeD [OF that] assms by (fastforce simp: tables_ok_def enum_registered_def)
  show "table_names messages" "enum_table_names enums" "dom (map_of messages) \<subseteq> set (declared_full_names fds)"
    using m e by (auto simp: table_names_def enum_table_names_def registered_def)
  show "entries_ok messages" unfolding entries_ok_def using m by (metis skeleton_ok_def registered_def)
qed

section \<open>Filling\<close>

lemma fill_tree_yields:
  "(\<And>m. m \<in> set (walk_tree t) \<Longrightarrow> yields good P (fill m)) \<Longrightarrow>
   yields good (\<lambda>t'. \<forall>m\<in>set (walk_tree t'). P m) (fill_tree fill t)"
proof (induction t rule: walk_tree.induct)
  case (1 m es ts)
  have m: "yields good P (fill m)" using "1.prems" by simp
  have ts: "yields good (list_all (\<lambda>t'. \<forall>m\<in>set (walk_tree t'). P m)) (rmap (fill_tree fill) ts)"
    by (rule yields_rmap) (use 1 in auto)
  show ?case unfolding fill_tree.simps
    by (rule yields_rbind [OF yields_weaken [OF m]], drule yields_use [OF m],
        rule yields_rbind [OF yields_weaken [OF ts]], drule yields_use [OF ts]) (auto simp: list_all_iff)
qed

lemma build_constants_errors:
  "yields program_error (\<lambda>_. True) (build_constants env n)" "yields program_error (\<lambda>_. True) (build_file_constants env fd)"
  unfolding build_constants_def build_file_constants_def Let_def
  by (rule yields_rbind; rule yields_lift, simp add: yields_def split: sum.split)+

lemma collision_errors: "yields program_error (\<lambda>_. True) (lift_error ConstantRedefined m)"
  by (rule yields_lift) (simp add: yields_def split: sum.split)

lemma fill_message_yields:
  assumes "tables_ok fds (messages, enums)" and "map_of syntaxes (message_file_name m) = Some syn"
  shows "yields program_error
     (\<lambda>m'. list_all (field_model_ok syn (dom (map_of messages)) (dom (map_of enums))) (message_fields m'))
     (fill_message env syntaxes messages enums m)"
proof -
  note tables = tables_ok_fields [OF assms(1)]
  have members: "yields program_error (list_all (field_model_ok syn (dom (map_of messages)) (dom (map_of enums))))
     (lift_error FieldFailure
           (rmap (\<lambda>(i, f). build_field MAP_ENTRY_DEPTH env syn messages enums m i f)
             (List.enumerate 0 (mfields (message_descriptor m)))))"
    by (rule yields_lift, simp, rule yields_rmap) (auto intro: build_field_ok [OF tables(1-3)])
  show ?thesis unfolding fill_message_def assms(2) option.case
    by (rule yields_rbind [OF build_constants_errors(1)], rule yields_rbind [OF yields_weaken [OF members]],
        drule yields_use [OF members], rule yields_rbind [OF collision_errors]) simp
qed

lemma build_skeletons_errors: "yields program_error (\<lambda>_. True) (rfold (build_file_skeleton env) fds b)"
proof (rule yields_rfold)
  show "yields program_error (\<lambda>_. True) (build_file_skeleton env fd b)" for fd b
    unfolding build_file_skeleton_def Let_def case_prod_beta
    by (rule yields_rbind [OF build_constants_errors(2)], rule yields_rbind [OF collision_errors]) simp
qed simp

section \<open>The whole request\<close>

lemma refresh_keys: "dom (map_of (refresh_messages files)) = message_full_name ` set (file_messages files)"
proof -
  have "fst ` set (fold (\<lambda>m d. dict_set d (message_full_name m) m) ms d) = message_full_name ` set ms \<union> fst ` set d" for ms d
    by (induction ms arbitrary: d) (auto simp: dom_dict_set)
  from this [of "file_messages files" "[]"] show ?thesis
    unfolding refresh_messages_def file_messages_def [symmetric] dom_map_of_conv_image_fst by simp
qed

definition fields_ok :: "string set \<Rightarrow> string set \<Rightarrow> string \<times> FileModel \<Rightarrow> bool" where
  "fields_ok messages enums nf \<longleftrightarrow> (\<forall>m\<in>set (walk_messages (model_messages (snd nf))).
     list_all (field_model_ok (model_syntax (snd nf)) messages enums) (message_fields m))"

lemma fill_files_yields:
  assumes sk: "skeletons env fds (built_files b0)" and files: "distinct (map file_name fds)"
    and ok: "\<forall>fd\<in>set fds. file_descriptors_ok fd"
    and tables: "tables_ok fds (built_messages b0, built_enums b0)"
  shows "yields program_error (list_all (fields_ok (dom (map_of (built_messages b0))) (dom (map_of (built_enums b0)))))
    (rmap (\<lambda>(n, f). rbind (fill_file (fill_of env b0) f) (\<lambda>f'. Inr (n, f'))) (built_files b0))"
proof (rule yields_rmap, clarify)
  fix n f assume nf: "(n, f) \<in> set (built_files b0)"
  then obtain fd cs where fd: "fd \<in> set fds" "n = file_name fd" "f = skeleton_file fd cs"
    using sk by (fastforce simp: skeletons_def list_all2_conv_all_nth in_set_conv_nth)
  have "map fst (built_files b0) = map file_name fds"
    using sk by (auto simp: skeletons_def list_all2_conv_all_nth intro!: nth_equalityI)
  then have "distinct (map fst (map (\<lambda>(n, f). (n, model_syntax f)) (built_files b0)))"
    using files by (simp add: comp_def case_prod_beta)
  moreover have "(n, model_syntax f) \<in> set (map (\<lambda>(n, f). (n, model_syntax f)) (built_files b0))"
    using nf by force
  ultimately have syn: "map_of (map (\<lambda>(n, f). (n, model_syntax f)) (built_files b0)) n = Some (model_syntax f)"
    by (rule map_of_is_SomeI)
  let ?P = "\<lambda>m'. list_all (field_model_ok (model_syntax f) (dom (map_of (built_messages b0))) (dom (map_of (built_enums b0))))
      (message_fields m')"
  have tree: "yields program_error (\<lambda>t'. \<forall>m\<in>set (walk_tree t'). ?P m) (fill_tree (fill_of env b0) t)"
    if t: "t \<in> set (model_messages f)" for t
  proof (rule fill_tree_yields, rule fill_message_yields [OF tables])
    fix m assume m: "m \<in> set (walk_tree t)"
    from t obtain d where d: "d \<in> set (message_type fd)" "t = build_message_skeleton fd None (msg_name d) d"
      by (auto simp: fd skeleton_file_def)
    have "skeleton_ok fd m" using skeleton_message_ok [OF bspec [OF ok fd(1)] d(1)] m d(2) by blast
    then show "map_of (map (\<lambda>(n, f). (n, model_syntax f)) (built_files b0)) (message_file_name m) = Some (model_syntax f)"
      using syn fd by (simp add: skeleton_ok_def)
  qed
  have trees: "yields program_error (list_all (\<lambda>t'. \<forall>m\<in>set (walk_tree t'). ?P m))
      (rmap (fill_tree (fill_of env b0)) (model_messages f))"
    by (rule yields_rmap) (rule tree)
  have filled: "yields program_error (\<lambda>f'. fields_ok (dom (map_of (built_messages b0))) (dom (map_of (built_enums b0))) (n, f'))
      (fill_file (fill_of env b0) f)"
    unfolding fill_file_def
    by (rule yields_rbind [OF yields_weaken [OF trees]], drule yields_use [OF trees])
      (auto simp: fields_ok_def walk_messages_def list_all_iff)
  show "yields program_error (fields_ok (dom (map_of (built_messages b0))) (dom (map_of (built_enums b0))))
      (rbind (fill_file (fill_of env b0) f) (\<lambda>f'. Inr (n, f')))"
    by (rule yields_rbind [OF yields_weaken [OF filled]], drule yields_use [OF filled]) simp
qed

lemma flat_model_mono: "flat_model_ok syn M E f \<Longrightarrow> M \<subseteq> M' \<Longrightarrow> flat_model_ok syn M' E f"
  by (auto simp: flat_model_ok_def types_model_ok_def)

lemma field_model_mono: "field_model_ok syn M E f \<Longrightarrow> M \<subseteq> M' \<Longrightarrow> field_model_ok syn M' E f"
  unfolding field_model_ok_def using flat_model_mono by blast

lemma build_objects_yields:
  assumes "validate_descriptor_invariants fds = Inr ()" and files: "distinct (map file_name fds)"
  shows "yields program_error
     (\<lambda>b. \<forall>nf\<in>set (built_files b). fields_ok (dom (map_of (built_messages b))) (dom (map_of (built_enums b))) nf)
     (build_objects env fds)"
proof -
  let ?start = "\<lparr>built_files = [], built_messages = [], built_enums = []\<rparr>"
  have ok: "\<forall>fd\<in>set fds. file_descriptors_ok fd" using assms(1) by (simp add: descriptor_invariants_iff)
  show ?thesis unfolding build_objects_def Let_def
  proof (rule yields_rbind [OF build_skeletons_errors])
    fix b0 assume run: "rfold (build_file_skeleton env) fds ?start = Inr b0"
    have sk: "skeletons env fds (built_files b0)" using build_skeletons [OF run] files by simp
    have tables: "tables_ok fds (built_messages b0, built_enums b0)" by (rule skeleton_tables_ok [OF ok run])
    note fill = fill_files_yields [OF sk files ok tables]
    show "yields program_error
       (\<lambda>b. \<forall>nf\<in>set (built_files b). fields_ok (dom (map_of (built_messages b))) (dom (map_of (built_enums b))) nf)
       (rbind (rmap (\<lambda>(n, f). rbind (fill_file (fill_of env b0) f) (\<lambda>f'. Inr (n, f'))) (built_files b0)) (\<lambda>files.
         Inr \<lparr>built_files = files, built_messages = refresh_messages files, built_enums = built_enums b0\<rparr>))"
    proof (rule yields_rbind [OF yields_weaken [OF fill]])
      fix files assume r: "rmap (\<lambda>(n, f). rbind (fill_file (fill_of env b0) f) (\<lambda>f'. Inr (n, f'))) (built_files b0) = Inr files"
      have "dom (map_of (refresh_messages files)) = set (declared_full_names fds)"
        using filled_full_names [OF fill_skeletons [OF sk r]] refresh_keys [of files] by (metis image_set)
      then have sub: "dom (map_of (built_messages b0)) \<subseteq> dom (map_of (refresh_messages files))"
        using tables_ok_fields(4) [OF tables] by simp
      have "fields_ok (dom (map_of (refresh_messages files))) (dom (map_of (built_enums b0))) nf" if "nf \<in> set files" for nf
        using yields_use [OF fill r] that field_model_mono [OF _ sub] by (auto simp: list_all_iff fields_ok_def)
      then show "yields program_error
       (\<lambda>b. \<forall>nf\<in>set (built_files b). fields_ok (dom (map_of (built_messages b))) (dom (map_of (built_enums b))) nf)
         (Inr \<lparr>built_files = files, built_messages = refresh_messages files, built_enums = built_enums b0\<rparr>)" by simp
    qed
  qed
qed

section \<open>The property\<close>

definition plain_env :: build_env where
  \<comment> \<open>a request without options\<close>
  "plain_env = \<lparr>bunicode = ascii_only, benv = \<lparr>cunescape = (\<lambda>_. None), uint_text = (\<lambda>_. None)\<rparr>,
     str_of = (\<lambda>_. []), file_payloads = (\<lambda>_. None), message_payloads = (\<lambda>_. None), array_payload = (\<lambda>_ _. None)\<rparr>"

definition map_request :: "FileDescriptorProto list" where
  \<comment> \<open>a message with a map of strings to messages of its own type\<close>
  "map_request = [plain_file ''a'' []
     [case plain_message ''M'' [(plain_field ''items'' 1 TYPE_MESSAGE)
            \<lparr>flabel := Some LABEL_REPEATED, ftype_name := ''.p.M.ItemsEntry''\<rparr>] of
        Message d _ \<Rightarrow> Message d
          [case plain_message ''ItemsEntry'' [plain_field ''key'' 1 TYPE_STRING,
              (plain_field ''value'' 2 TYPE_MESSAGE)\<lparr>ftype_name := ''.p.M''\<rparr>] of
             Message e _ \<Rightarrow> Message (e\<lparr>mmap_entry := True\<rparr>) []]]]"

text \<open>
  C35: A request whose descriptors were accepted is refused with one of the program's own errors (never
  by indexing a map entry that is too short, by unbounded recursion on map entries, or by a failed
  dictionary lookup) or built; and then the fields of every message are consistent: their types refer
  to registered messages and enums, array bounds and defaults only stand where the kind allows them,
  and only numeric repeated fields are packed.
\<close>

theorem built_fields_are_consistent:
  assumes "validate_descriptor_invariants fds = Inr ()" and "distinct (map file_name fds)"
  shows "case build_objects env fds of
      Inl e \<Rightarrow> program_error e
    | Inr b \<Rightarrow> (\<forall>(n, f)\<in>set (built_files b). \<forall>m\<in>set (walk_messages (model_messages f)).
        list_all (field_model_ok (model_syntax f) (dom (map_of (built_messages b))) (dom (map_of (built_enums b))))
          (message_fields m))"
  using build_objects_yields [OF assms, of env]
  by (cases "build_objects env fds") (simp_all add: fields_ok_def case_prod_beta)

lemma built_fields_are_consistent_witness:
  "\<exists>b f m. build_objects plain_env map_request = Inr b \<and> (''a'', f) \<in> set (built_files b)
     \<and> m \<in> set (walk_messages (model_messages f)) \<and> map field_kind (message_fields m) = [MapField]
     \<and> list_all (field_model_ok (model_syntax f) (dom (map_of (built_messages b))) (dom (map_of (built_enums b))))
         (message_fields m)"
proof -
  have run: "case build_objects plain_env map_request of Inl _ \<Rightarrow> False
    | Inr b \<Rightarrow> list_ex (\<lambda>(n, f). n = ''a'' \<and> list_ex (\<lambda>m. map field_kind (message_fields m) = [MapField])
        (walk_messages (model_messages f))) (built_files b)" by code_simp
  then obtain b f m where b: "build_objects plain_env map_request = Inr b" and f: "(''a'', f) \<in> set (built_files b)"
    and m: "m \<in> set (walk_messages (model_messages f))" "map field_kind (message_fields m) = [MapField]"
    by (auto simp: list_ex_iff split: sum.splits)
  have v: "validate_descriptor_invariants map_request = Inr ()" by code_simp
  have "distinct (map file_name map_request)" by (simp add: map_request_def)
  from built_fields_are_consistent [OF v this, of plain_env] f m(1)
  have "list_all (field_model_ok (model_syntax f) (dom (map_of (built_messages b))) (dom (map_of (built_enums b))))
         (message_fields m)" unfolding b sum.case by blast
  with b f m show ?thesis by (intro exI conjI)
qed

end
