(* ===== verification/BoxesSpec.thy ===== *)
theory BoxesSpec
  imports Boxes BuildTotal
begin

text \<open>
  The two graph searches find exactly what is reachable. Boxing breaks exactly the cycles of single
  fields; a cycle of containment by value that is left runs through a bounded repeated field.
\<close>

section \<open>Reachability\<close>

lemma reach_baseD: "a \<in> R \<Longrightarrow> a \<in> reach succ R"
  using reach_base by (rule subsetD)

lemma reach_stepD: "a \<in> reach succ R \<Longrightarrow> set (succ a) \<subseteq> reach succ R"
  by (rule subsetI) (rule reach_step)

lemma reach_insert_visit: "reach succ (set (succ x) \<union> R) \<subseteq> reach succ (insert x R)"
proof (rule reach_least)
  have "x \<in> reach succ (insert x R)" by (rule reach_baseD) simp
  then have "set (succ x) \<subseteq> reach succ (insert x R)" by (rule reach_stepD)
  moreover have "R \<subseteq> reach succ (insert x R)" using reach_baseD [of _ "insert x R" succ] by auto
  ultimately show "set (succ x) \<union> R \<subseteq> reach succ (insert x R)" by simp
qed (rule reach_stepD)

lemma reach_insert_eq: "reach succ (insert x R) = insert x (reach succ (set (succ x) \<union> R))"
proof
  let ?S = "insert x (reach succ (set (succ x) \<union> R))"
  have base: "set (succ x) \<union> R \<subseteq> ?S" using reach_base [of "set (succ x) \<union> R" succ] by (rule subset_insertI2)
  show "reach succ (insert x R) \<subseteq> ?S"
  proof (rule reach_least)
    show "insert x R \<subseteq> ?S" using base by simp
    show "set (succ a) \<subseteq> ?S" if "a \<in> ?S" for a
    proof (cases "a = x")
      case True
      then show ?thesis using base by simp
    next
      case False
      then have "a \<in> reach succ (set (succ x) \<union> R)" using that by simp
      from reach_stepD [OF this] show ?thesis by (rule subset_insertI2)
    qed
  qed
  show "?S \<subseteq> reach succ (insert x R)" using reach_insert_visit [of succ x R] reach_baseD [of x "insert x R" succ] by simp
qed

lemma reach_seen:
  assumes "\<forall>a\<in>seen. set (succ a) \<subseteq> seen \<union> R" and "x \<in> seen"
  shows "seen \<union> reach succ (insert x R) = seen \<union> reach succ R"
proof
  have "reach succ (insert x R) \<subseteq> seen \<union> reach succ R"
  proof (rule reach_least)
    show "insert x R \<subseteq> seen \<union> reach succ R" using assms(2) reach_base [of R succ] by auto
    show "set (succ a) \<subseteq> seen \<union> reach succ R" if "a \<in> seen \<union> reach succ R" for a
    proof (cases "a \<in> seen")
      case True
      then show ?thesis using assms(1) reach_base [of R succ] by auto
    next
      case False
      then show ?thesis using that reach_stepD [of a succ R] by auto
    qed
  qed
  then show "seen \<union> reach succ (insert x R) \<subseteq> seen \<union> reach succ R" by simp
  have "reach succ R \<subseteq> reach succ (insert x R)" by (rule reach_mono) (rule subset_insertI)
  then show "seen \<union> reach succ R \<subseteq> seen \<union> reach succ (insert x R)" by auto
qed

lemma can_reach_iff:
  "\<forall>a\<in>seen. set (dict_get graph a) \<subseteq> seen \<union> set stack \<Longrightarrow> goal \<notin> seen \<Longrightarrow>
   can_reach graph goal stack seen \<longleftrightarrow> goal \<in> reach (dict_get graph) (set stack)"
proof (induction graph goal stack seen rule: can_reach.induct)
  case (1 graph goal seen)
  then show ?case by (simp add: reach_def)
next
  case (2 graph goal current stack seen)
  have base: "current \<in> reach (dict_get graph) (insert current (set stack))" by (rule reach_baseD) simp
  show ?case
  proof (cases "current = goal")
    case True
    then show ?thesis using base by simp
  next
    case False
    show ?thesis
    proof (cases "current \<in> seen")
      case True
      have inv: "\<forall>a\<in>seen. set (dict_get graph a) \<subseteq> seen \<union> set stack" using "2.prems"(1) True by auto
      have "goal \<in> reach (dict_get graph) (insert current (set stack)) \<longleftrightarrow> goal \<in> reach (dict_get graph) (set stack)"
        using reach_seen [OF inv True] "2.prems"(2) by auto
      then show ?thesis using "2.IH"(1) [OF False True inv "2.prems"(2)] False True by simp
    next
      case False
      note new = False
      have "can_reach graph goal (rev (dict_get graph current) @ stack) (insert current seen) \<longleftrightarrow>
          goal \<in> reach (dict_get graph) (set (rev (dict_get graph current) @ stack))"
        using "2.prems" \<open>current \<noteq> goal\<close> by (intro "2.IH"(2) [OF \<open>current \<noteq> goal\<close> new]) auto
      then show ?thesis using \<open>current \<noteq> goal\<close> new
        by (simp add: reach_insert_eq [of "dict_get graph" current])
    qed
  qed
qed

lemma can_reach_start: "can_reach graph goal [start] {} \<longleftrightarrow> (start, goal) \<in> (edge_set (dict_get graph))\<^sup>*"
  using can_reach_iff [of "{}" graph "[start]" goal] by (simp add: reach_def)

lemma header_loop_result:
  "\<forall>a\<in>included. set (file_dependencies b a) \<subseteq> included \<union> set pending \<Longrightarrow>
   case header_loop b pending included of
     Inl x \<Rightarrow> x \<in> reach (file_dependencies b) (set pending) \<and> x \<notin> fst ` set (built_files b)
   | Inr S \<Rightarrow> S = included \<union> reach (file_dependencies b) (set pending)
       \<and> (included \<subseteq> fst ` set (built_files b) \<longrightarrow> S \<subseteq> fst ` set (built_files b))"
proof (induction b pending included rule: header_loop.induct)
  case (1 b included)
  then show ?case by (simp add: reach_def)
next
  case (2 b name pending included)
  let ?R = "reach (file_dependencies b)"
  have base: "name \<in> ?R (insert name (set pending))" by (rule reach_baseD) simp
  consider "name \<in> included" | "name \<notin> included" "map_of (built_files b) name = None"
    | "name \<notin> included" "map_of (built_files b) name \<noteq> None" by blast
  then show ?case
  proof cases
    case 1
    have inv: "\<forall>a\<in>included. set (file_dependencies b a) \<subseteq> included \<union> set pending" using "2.prems" 1 by auto
    note same = reach_seen [OF inv 1]
    have mono: "?R (set pending) \<subseteq> ?R (insert name (set pending))" by (rule reach_mono) (rule subset_insertI)
    show ?thesis
    proof (cases "header_loop b pending included")
      case (Inl x)
      then show ?thesis using "2.IH"(1) [OF 1 inv] 1 mono by auto
    next
      case (Inr S)
      then show ?thesis using "2.IH"(1) [OF 1 inv] 1 same by (auto simp: Inr)
    qed
  next
    case 2
    then show ?thesis using base by (simp add: map_of_eq_None_iff)
  next
    case 3
    have inv: "\<forall>a\<in>insert name included. set (file_dependencies b a) \<subseteq> insert name included \<union> set (rev (file_dependencies b name) @ pending)"
      using "2.prems" by auto
    have key: "name \<in> fst ` set (built_files b)" using 3(2) by (simp add: map_of_eq_None_iff)
    have step: "header_loop b (name # pending) included
        = header_loop b (rev (file_dependencies b name) @ pending) (insert name included)" using 3 by (simp del: not_None_eq)
    have eq: "?R (set (name # pending)) = insert name (?R (set (rev (file_dependencies b name) @ pending)))"
      using reach_insert_eq [of "file_dependencies b" name "set pending"] by simp
    show ?thesis unfolding step eq
    proof (cases "header_loop b (rev (file_dependencies b name) @ pending) (insert name included)")
      case (Inl x)
      then show "case header_loop b (rev (file_dependencies b name) @ pending) (insert name included) of
          Inl x \<Rightarrow> x \<in> insert name (?R (set (rev (file_dependencies b name) @ pending))) \<and> x \<notin> fst ` set (built_files b)
        | Inr S \<Rightarrow> S = included \<union> insert name (?R (set (rev (file_dependencies b name) @ pending)))
            \<and> (included \<subseteq> fst ` set (built_files b) \<longrightarrow> S \<subseteq> fst ` set (built_files b))"
        using "2.IH"(2) [OF 3 inv] by simp
    next
      case (Inr S)
      then show "case header_loop b (rev (file_dependencies b name) @ pending) (insert name included) of
          Inl x \<Rightarrow> x \<in> insert name (?R (set (rev (file_dependencies b name) @ pending))) \<and> x \<notin> fst ` set (built_files b)
        | Inr S \<Rightarrow> S = included \<union> insert name (?R (set (rev (file_dependencies b name) @ pending)))
            \<and> (included \<subseteq> fst ` set (built_files b) \<longrightarrow> S \<subseteq> fst ` set (built_files b))"
        using "2.IH"(2) [OF 3 inv] key by (auto simp: Inr)
    qed
  qed
qed

lemma generated_headers_result:
  assumes "reach (file_dependencies b) (set targets) \<subseteq> fst ` set (built_files b)"
  shows "generated_header_files b targets
    = Inr (filter (\<lambda>n. n \<in> reach (file_dependencies b) (set targets)) (map fst (built_files b)))"
proof (cases "header_loop b (rev targets) {}")
  case (Inl x)
  then show ?thesis using header_loop_result [of "{}" b "rev targets"] assms by auto
next
  case (Inr S)
  then show ?thesis using header_loop_result [of "{}" b "rev targets"] by (simp add: generated_header_files_def)
qed

section \<open>Boxes\<close>

definition single_containment :: "message_table \<Rightarrow> (string \<times> nat) set \<Rightarrow> (string \<times> string) set" where
  \<comment> \<open>a message to the message of a single field held in it: one that is not boxed\<close>
  "single_containment messages boxed = {(owner, target). \<exists>i. (owner, i, target) \<in> set (direct_fields messages) \<and> (owner, i) \<notin> boxed}"

definition array_containment :: "message_table \<Rightarrow> (string \<times> string) set" where
  \<comment> \<open>a message to the message of a bounded repeated field, whose elements are stored in it\<close>
  "array_containment messages = {(owner, target). \<exists>(k, m)\<in>set messages. \<not> is_map_entry m \<and> owner = message_full_name m
     \<and> (\<exists>f\<in>set (message_fields m). array_message_field f = Some target)}"

definition contains_by_value :: "message_table \<Rightarrow> (string \<times> nat) set \<Rightarrow> (string \<times> string) set" where
  \<comment> \<open>all storage of messages inside the class of a message; vectors, maps and boxes are elsewhere\<close>
  "contains_by_value messages boxed = single_containment messages boxed \<union> array_containment messages"

lemma direct_fields_iff:
  "(o', i, t) \<in> set (direct_fields messages) \<longleftrightarrow>
     (\<exists>k m. (k, m) \<in> set messages \<and> \<not> is_map_entry m \<and> o' = message_full_name m \<and> i < length (message_fields m)
        \<and> direct_message_field (message_fields m ! i) = Some t)"
proof -
  have "(o', i, t) \<in> set (List.map_filter (\<lambda>(i, f). map_option (\<lambda>t. (message_full_name m, i, t)) (direct_message_field f))
         (List.enumerate 0 (message_fields m)))
     \<longleftrightarrow> o' = message_full_name m \<and> i < length (message_fields m) \<and> direct_message_field (message_fields m ! i) = Some t" for m
    by (auto simp: map_filter_set in_set_enumerate_eq intro!: bexI [of _ "(i, message_fields m ! i)"])
  then show ?thesis by (auto simp: direct_fields_def split: if_splits)
qed

lemma direct_successors_iff:
  "t \<in> set (direct_successors m) \<longleftrightarrow>
     (\<exists>i<length (message_fields m). \<not> is_map_entry m \<and> direct_message_field (message_fields m ! i) = Some t)"
proof (cases "is_map_entry m")
  case False
  have "(\<exists>x\<in>set xs. g x = Some t) \<longleftrightarrow> (\<exists>i<length xs. g (xs ! i) = Some t)" for g :: "'z \<Rightarrow> string option" and xs
    by (metis in_set_conv_nth)
  with False show ?thesis by (simp add: direct_successors_def map_filter_set)
qed (simp add: direct_successors_def)

lemma message_graph_get: "map_of (message_graph messages) k = map_option direct_successors (map_of messages k)"
  unfolding message_graph_def by (induction messages) auto

lemma graph_edges:
  assumes "table_names messages" and "distinct (map fst messages)"
  shows "edge_set (dict_get (message_graph messages)) = single_containment messages {}"
proof -
  have "t \<in> set (dict_get (message_graph messages) k) \<longleftrightarrow> (\<exists>i. (k, i, t) \<in> set (direct_fields messages))" for k t
  proof -
    have "t \<in> set (dict_get (message_graph messages) k) \<longleftrightarrow> (\<exists>m. map_of messages k = Some m \<and> t \<in> set (direct_successors m))"
      by (cases "map_of messages k") (simp_all add: dict_get_def message_graph_get)
    also have "\<dots> \<longleftrightarrow> (\<exists>m. (k, m) \<in> set messages \<and> t \<in> set (direct_successors m))"
      using assms(2) by simp
    also have "\<dots> \<longleftrightarrow> (\<exists>i. (k, i, t) \<in> set (direct_fields messages))"
    proof -
      have "message_full_name m = k'" if "(k', m) \<in> set messages" for k' m
        using assms that by (simp add: table_names_def)
      then show ?thesis unfolding direct_fields_iff direct_successors_iff by metis
    qed
    finally show ?thesis .
  qed
  then show ?thesis by (auto simp: edge_set_def single_containment_def)
qed

lemma box_iff:
  assumes "table_names messages" and "distinct (map fst messages)"
    and "(owner, i, target) \<in> set (direct_fields messages)"
  shows "(owner, i) \<in> set (mark_recursive_boxes messages) \<longleftrightarrow> (target, owner) \<in> (single_containment messages {})\<^sup>*"
proof -
  have uniq: "t = target" if "(owner, i, t) \<in> set (direct_fields messages)" for t
  proof -
    have key: "map_of messages (message_full_name m) = Some m" if "(k, m) \<in> set messages" for k m
      using that assms(1,2) by (simp add: table_names_def)
    from that obtain k m where m: "(k, m) \<in> set messages" "owner = message_full_name m"
      "direct_message_field (message_fields m ! i) = Some t" unfolding direct_fields_iff by auto
    from assms(3) obtain k' m' where m': "(k', m') \<in> set messages" "owner = message_full_name m'"
      "direct_message_field (message_fields m' ! i) = Some target" unfolding direct_fields_iff by auto
    have "m = m'" using key [OF m(1)] key [OF m'(1)] m(2) m'(2) by simp
    with m(3) m'(3) show ?thesis by simp
  qed
  have "(owner, i) \<in> set (mark_recursive_boxes messages) \<longleftrightarrow>
      (\<exists>t. (owner, i, t) \<in> set (direct_fields messages) \<and> can_reach (message_graph messages) owner [t] {})"
    by (force simp: mark_recursive_boxes_def Let_def)
  also have "\<dots> \<longleftrightarrow> can_reach (message_graph messages) owner [target] {}"
    using assms(3) uniq by metis
  finally show ?thesis by (simp only: can_reach_start graph_edges [OF assms(1,2)])
qed

lemma unboxed_acyclic:
  assumes "table_names messages" and "distinct (map fst messages)"
  shows "acyclic (single_containment messages (set (mark_recursive_boxes messages)))"
proof (rule acyclicI, rule allI, rule notI)
  let ?E = "single_containment messages {}" and ?U = "single_containment messages (set (mark_recursive_boxes messages))"
  fix x assume "(x, x) \<in> ?U\<^sup>+"
  then obtain y where xy: "(x, y) \<in> ?U" and yx: "(y, x) \<in> ?U\<^sup>*" by (meson tranclD)
  from xy obtain i where i: "(x, i, y) \<in> set (direct_fields messages)" "(x, i) \<notin> set (mark_recursive_boxes messages)"
    by (auto simp: single_containment_def)
  have "?U \<subseteq> ?E" by (auto simp: single_containment_def)
  then have "(y, x) \<in> ?E\<^sup>*" using yx rtrancl_mono by blast
  then show False using box_iff [OF assms i(1)] i(2) by blast
qed

lemma cycle_through:
  assumes "(x, y) \<in> (U \<union> A)\<^sup>+" and "(x, y) \<notin> U\<^sup>+"
  shows "\<exists>(a, b)\<in>A. (x, a) \<in> (U \<union> A)\<^sup>* \<and> (b, y) \<in> (U \<union> A)\<^sup>*"
  using assms
proof (induction rule: trancl_induct)
  case (base y)
  then show ?case by blast
next
  case (step y z)
  show ?case
  proof (cases "(y, z) \<in> A")
    case True
    then show ?thesis using trancl_into_rtrancl [OF step.hyps(1)] by blast
  next
    case False
    then have "(x, y) \<notin> U\<^sup>+" using step.hyps(2) step.prems by (blast intro: trancl_into_trancl)
    then show ?thesis using step.IH step.hyps(2) by (blast intro: rtrancl_into_rtrancl)
  qed
qed

lemma acyclic_iff_array_cycle:
  assumes "acyclic U"
  shows "acyclic (U \<union> A) \<longleftrightarrow> \<not> (\<exists>(a, b)\<in>A. (b, a) \<in> (U \<union> A)\<^sup>*)"
proof
  assume acyclic: "acyclic (U \<union> A)"
  show "\<not> (\<exists>(a, b)\<in>A. (b, a) \<in> (U \<union> A)\<^sup>*)"
  proof
    assume "\<exists>(a, b)\<in>A. (b, a) \<in> (U \<union> A)\<^sup>*"
    then obtain a b where "(a, b) \<in> U \<union> A" "(b, a) \<in> (U \<union> A)\<^sup>*" by blast
    then have "(a, a) \<in> (U \<union> A)\<^sup>+" by (rule rtrancl_into_trancl2)
    with acyclic show False by (simp add: acyclic_def)
  qed
next
  assume none: "\<not> (\<exists>(a, b)\<in>A. (b, a) \<in> (U \<union> A)\<^sup>*)"
  show "acyclic (U \<union> A)"
  proof (rule acyclicI, rule allI, rule notI)
    fix x assume "(x, x) \<in> (U \<union> A)\<^sup>+"
    moreover have "(x, x) \<notin> U\<^sup>+" using assms by (simp add: acyclic_def)
    ultimately obtain a b where ab: "(a, b) \<in> A" and "(x, a) \<in> (U \<union> A)\<^sup>*" "(b, x) \<in> (U \<union> A)\<^sup>*"
      using cycle_through [of x x U A] by auto
    then have "(b, a) \<in> (U \<union> A)\<^sup>*" by (metis rtrancl_trans)
    with ab none show False by blast
  qed
qed

section \<open>Built models\<close>

lemma built_table_names:
  assumes "build_objects env fds = Inr b"
  shows "table_names (built_messages b)" and "distinct (map fst (built_messages b))"
proof -
  let ?reg = "\<lambda>m d. dict_set d (message_full_name m) (m :: MessageModel)"
  have names: "\<forall>(k, m)\<in>set d. message_full_name m = k \<Longrightarrow> \<forall>(k, m)\<in>set (fold ?reg ms d). message_full_name m = k" for ms d
  proof (induction ms arbitrary: d)
    case (Cons m ms)
    have "\<forall>(k, m)\<in>set (dict_set d (message_full_name m) m). message_full_name m = k"
      using Cons.prems set_dict_set [of d "message_full_name m" m] by auto
    from Cons.IH [OF this] show ?case by simp
  qed simp
  have keys: "distinct (map fst d) \<Longrightarrow> distinct (map fst (fold ?reg ms d))" for ms d
    by (induction ms arbitrary: d) (simp_all add: distinct_dict_set)
  obtain ms where ms: "built_messages b = fold ?reg ms []"
    using assms by (auto simp: build_objects_def Let_def refresh_messages_def)
  show "table_names (built_messages b)"
    using names [of "[]" ms] by (auto simp: ms table_names_def dest!: map_of_SomeD)
  show "distinct (map fst (built_messages b))" using keys [of "[]" ms] by (simp add: ms)
qed

lemma field_dependencies_files:
  assumes "\<forall>m\<in>ran (map_of messages). message_file_name m \<in> F" and "\<forall>e\<in>ran (map_of enums). enum_file_name e \<in> F"
  shows "set (field_dependencies messages enums f) \<subseteq> F"
  using assms
proof (induction messages enums f rule: field_dependencies.induct)
  case (1 messages enums nm cpp nr ty lab fl rep opt oi on pk dep tn k ct mt et mk mv)
  have m: "message_file_name m \<in> F" if "map_of messages n = Some m" for n m using 1(3) that by (auto simp: ran_def)
  have e: "enum_file_name e \<in> F" if "map_of enums n = Some e" for n e using 1(4) that by (auto simp: ran_def)
  show ?case using 1 m e by (auto split: option.splits if_splits)
qed

lemma file_dependencies_files:
  assumes ok: "validate_descriptor_invariants fds = Inr ()" and files: "distinct (map file_name fds)"
    and b: "build_objects env fds = Inr b"
  shows "map fst (built_files b) = map file_name fds" and "set (file_dependencies b n) \<subseteq> set (map file_name fds)"
proof -
  have fok: "\<forall>fd\<in>set fds. file_descriptors_ok fd" using ok by (simp add: descriptor_invariants_iff)
  from build_objects_filled [OF b files] obtain b0 where
    f: "list_all2 (filled env (fill_of env b0)) fds (built_files b)" and mt: "built_messages b = refresh_messages (built_files b)"
    and et: "built_enums b = built_enums b0"
    and run: "rfold (build_file_skeleton env) fds \<lparr>built_files = [], built_messages = [], built_enums = []\<rparr> = Inr b0"
    by metis
  show keys: "map fst (built_files b) = map file_name fds"
    using f by (auto simp: list_all2_conv_all_nth filled_def intro!: nth_equalityI)
  have "message_file_name m \<in> set (map file_name fds)" if "m \<in> set (file_messages (built_files b))" for m
    using filled_message_file [OF f that] by auto
  moreover have "m \<in> set (file_messages (built_files b))" if "map_of (built_messages b) k = Some m" for k m
  proof -
    have "snd ` set (fold (\<lambda>m d. dict_set d (message_full_name m) m) ms d) \<subseteq> set ms \<union> snd ` set d" for ms d
    proof (induction ms arbitrary: d)
      case (Cons m ms)
      have "snd ` set (dict_set d (message_full_name m) m) \<subseteq> insert m (snd ` set d)"
        using set_dict_set [of d "message_full_name m" m] by auto
      with Cons.IH [of "dict_set d (message_full_name m) m"] show ?case by auto
    qed simp
    from this [of "file_messages (built_files b)" "[]"] map_of_SomeD [OF that] show ?thesis
      by (force simp: mt refresh_messages_def file_messages_def [symmetric])
  qed
  moreover have "enum_file_name e \<in> set (map file_name fds)" if "map_of (built_enums b) k = Some e" for k e
    using skeleton_tables_ok [OF fok run] map_of_SomeD [OF that] by (fastforce simp: et tables_ok_def enum_registered_def)
  ultimately have "set (field_dependencies (built_messages b) (built_enums b) g) \<subseteq> set (map file_name fds)" for g
    by (intro field_dependencies_files) (auto simp: ran_def)
  then show "set (file_dependencies b n) \<subseteq> set (map file_name fds)"
    by (auto simp: file_dependencies_def split: option.splits)
qed

section \<open>Properties\<close>

definition node_request :: "FileDescriptorProto list" where
  \<comment> \<open>a list node that holds another node and a message of a second file\<close>
  "node_request = [plain_file ''a'' [''b'']
     [plain_message ''Node'' [(plain_field ''next'' 1 TYPE_MESSAGE)\<lparr>ftype_name := ''.p.Node''\<rparr>,
        (plain_field ''leaf'' 2 TYPE_MESSAGE)\<lparr>ftype_name := ''.p.Leaf''\<rparr>]],
     plain_file ''b'' [] [plain_message ''Leaf'' []], plain_file ''c'' [] []]"

text \<open>
  C33: For a request whose descriptors were accepted, the header search never meets a file the model
  lacks, and the files it yields are, in the order of the request, exactly those reachable from the
  files to generate along the references of their fields.
\<close>

theorem generated_headers_are_the_closure:
  assumes "validate_descriptor_invariants fds = Inr ()" and "distinct (map file_name fds)"
    and "build_objects env fds = Inr b" and "set targets \<subseteq> set (map file_name fds)"
  shows "generated_header_files b targets
    = Inr (filter (\<lambda>n. n \<in> reach (file_dependencies b) (set targets)) (map file_name fds))"
proof -
  note deps = file_dependencies_files [OF assms(1-3)]
  have "reach (file_dependencies b) (set targets) \<subseteq> set (map file_name fds)"
    by (rule reach_least [OF assms(4)]) (rule deps(2))
  then show ?thesis using generated_headers_result [of b targets] deps(1) by (metis image_set)
qed

lemma generated_headers_are_the_closure_witness:
  "case build_objects plain_env node_request of Inl _ \<Rightarrow> False
   | Inr b \<Rightarrow> generated_header_files b [''a''] = Inr [''a'', ''b'']
       \<and> filter (\<lambda>n. n \<in> reach (file_dependencies b) {''a''}) [''a'', ''b'', ''c''] = [''a'', ''b'']"
proof (cases "build_objects plain_env node_request")
  case (Inl e)
  have "\<not> (case build_objects plain_env node_request of Inl _ \<Rightarrow> True | Inr _ \<Rightarrow> False)" by code_simp
  then show ?thesis using Inl by simp
next
  case (Inr b)
  have v: "validate_descriptor_invariants node_request = Inr ()" by code_simp
  have n: "map file_name node_request = [''a'', ''b'', ''c'']" by (simp add: node_request_def plain_file_def)
  have "case build_objects plain_env node_request of Inl _ \<Rightarrow> False
    | Inr b \<Rightarrow> generated_header_files b [''a''] = Inr [''a'', ''b'']" by code_simp
  then show ?thesis using generated_headers_are_the_closure [OF v _ Inr, of "[''a'']"] n Inr by simp
qed

definition array_env :: build_env where
  \<comment> \<open>every field has the option \<^verbatim>\<open>protocyte.array\<close> with a bound of two\<close>
  "array_env = plain_env\<lparr>array_payload := (\<lambda>_ _. Some (Inr (Some \<lparr>pmax = Some 2, pexpr = None, pfixed = False\<rparr>)))\<rparr>"

definition array_node_request :: "FileDescriptorProto list" where
  \<comment> \<open>a node with an array of two nodes\<close>
  "array_node_request = [plain_file ''a'' []
     [plain_message ''Node'' [(plain_field ''kids'' 1 TYPE_MESSAGE)\<lparr>flabel := Some LABEL_REPEATED, ftype_name := ''.p.Node''\<rparr>]]]"

text \<open>
  The generator accepts a message that holds an array of itself, and boxes nothing: the class it prints
  would have to contain itself.
\<close>

lemma array_cycle_accepted:
  "validate_descriptor_invariants array_node_request = Inr ()
   \<and> (case build_objects array_env array_node_request of Inl _ \<Rightarrow> False
      | Inr b \<Rightarrow> mark_recursive_boxes (built_messages b) = []
          \<and> \<not> acyclic (contains_by_value (built_messages b) (set (mark_recursive_boxes (built_messages b)))))"
proof (cases "build_objects array_env array_node_request")
  case (Inl e)
  have "\<not> (case build_objects array_env array_node_request of Inl _ \<Rightarrow> True | Inr _ \<Rightarrow> False)" by code_simp
  then show ?thesis using Inl by simp
next
  case (Inr b)
  have valid: "validate_descriptor_invariants array_node_request = Inr ()" by code_simp
  have "case build_objects array_env array_node_request of Inl _ \<Rightarrow> False
    | Inr b \<Rightarrow> mark_recursive_boxes (built_messages b) = []
        \<and> map (\<lambda>(k, m). (is_map_entry m, message_full_name m, map array_message_field (message_fields m))) (built_messages b)
          = [(False, ''p.Node'', [Some ''p.Node''])]" by code_simp
  then have boxes: "mark_recursive_boxes (built_messages b) = []"
    and table: "map (\<lambda>(k, m). (is_map_entry m, message_full_name m, map array_message_field (message_fields m))) (built_messages b)
      = [(False, ''p.Node'', [Some ''p.Node''])]" using Inr by simp_all
  from table obtain k m where m: "built_messages b = [(k, m)]" "\<not> is_map_entry m" "message_full_name m = ''p.Node''"
    "map array_message_field (message_fields m) = [Some ''p.Node'']" by auto
  then have "(''p.Node'', ''p.Node'') \<in> array_containment (built_messages b)" by (auto simp: array_containment_def)
  then have "(''p.Node'', ''p.Node'') \<in> contains_by_value (built_messages b) {}" by (simp add: contains_by_value_def)
  then show ?thesis using valid boxes Inr by (auto simp: acyclic_def)
qed

text \<open>
  C34: Exactly the single message fields that lie on a cycle of single fields are boxed: those whose
  message type holds, through single fields and in any number of steps, the message that declares the
  field. Counting all that is stored inside a class, bounded repeated fields included, no message then
  contains itself by value, exactly if no bounded repeated field lies on a cycle of such storage. The
  code does not look at bounded repeated fields and accepts such a cycle (\<open>array_cycle_accepted\<close>);
  without one every generated class has a finite size.
\<close>

theorem boxes_break_exactly_the_cycles:
  assumes "build_objects env fds = Inr b"
  shows "(\<forall>(owner, i, target)\<in>set (direct_fields (built_messages b)).
         (owner, i) \<in> set (mark_recursive_boxes (built_messages b))
           \<longleftrightarrow> (target, owner) \<in> (single_containment (built_messages b) {})\<^sup>*)
    \<and> (acyclic (contains_by_value (built_messages b) (set (mark_recursive_boxes (built_messages b))))
        \<longleftrightarrow> \<not> (\<exists>(owner, target)\<in>array_containment (built_messages b).
              (target, owner) \<in> (contains_by_value (built_messages b) (set (mark_recursive_boxes (built_messages b))))\<^sup>*))"
  using box_iff [OF built_table_names [OF assms]]
    acyclic_iff_array_cycle [OF unboxed_acyclic [OF built_table_names [OF assms]], of "array_containment (built_messages b)"]
  unfolding contains_by_value_def by blast

lemma boxes_break_exactly_the_cycles_witness:
  "case build_objects plain_env node_request of Inl _ \<Rightarrow> False
   | Inr b \<Rightarrow> mark_recursive_boxes (built_messages b) = [(''p.Node'', 0)]
       \<and> acyclic (contains_by_value (built_messages b) {(''p.Node'', 0)})
       \<and> (''p.Leaf'', ''p.Node'') \<notin> (single_containment (built_messages b) {})\<^sup>*"
proof (cases "build_objects plain_env node_request")
  case (Inl e)
  have "\<not> (case build_objects plain_env node_request of Inl _ \<Rightarrow> True | Inr _ \<Rightarrow> False)" by code_simp
  then show ?thesis using Inl by simp
next
  case (Inr b)
  have "case build_objects plain_env node_request of Inl _ \<Rightarrow> False
    | Inr b \<Rightarrow> mark_recursive_boxes (built_messages b) = [(''p.Node'', 0)]
        \<and> (''p.Node'', 1, ''p.Leaf'') \<in> set (direct_fields (built_messages b))
        \<and> list_all (\<lambda>(k, m). list_all (\<lambda>f. array_message_field f = None) (message_fields m)) (built_messages b)" by code_simp
  then have facts: "mark_recursive_boxes (built_messages b) = [(''p.Node'', 0)]"
    "(''p.Node'', 1, ''p.Leaf'') \<in> set (direct_fields (built_messages b))"
    "list_all (\<lambda>(k, m). list_all (\<lambda>f. array_message_field f = None) (message_fields m)) (built_messages b)" using Inr by simp_all
  from facts(3) have "array_containment (built_messages b) = {}" by (force simp: array_containment_def list_all_iff)
  then show ?thesis using boxes_break_exactly_the_cycles [OF Inr] Inr facts(1,2) by auto
qed

end
