(* ===== verification/MessageNames.thy ===== *)
theory MessageNames
  imports NameScopes ModelTypes
begin

text \<open>
  The C++ names inside a generated message class, from \<^verbatim>\<open>_MESSAGE_PUBLIC_FUNCTIONS\<close> to
  \<^verbatim>\<open>_assign_field_internal_cpp_names_from_model\<close> in \<^verbatim>\<open>src/protocyte/model.py\<close>. The dictionaries
  \<^verbatim>\<open>emitted_names\<close> of the objects are one association list of assignments, the latest first; an
  object is given by its name, which is unique in a valid message, and the fields' \<^verbatim>\<open>cpp_name\<close> after
  allocation is the entry \<^verbatim>\<open>number\<close> that receives the same value. \<^const>\<open>None\<close> is a search for a name
  that does not return.
\<close>

section \<open>Names that members need\<close>

definition MESSAGE_PUBLIC_FUNCTIONS :: "(string \<times> string) list" where
  "MESSAGE_PUBLIC_FUNCTIONS = [
     (''create'', ''fn/1/static''), (''context'', ''fn/0/const''), (''unknown_fields'', ''fn/0/const''),
     (''unknown_field_count'', ''fn/0/const''), (''unknown_field_bytes'', ''fn/0/const''),
     (''clear_unknown_fields'', ''fn/0''), (''mutable_unknown_fields'', ''fn/0''), (''copy_from'', ''fn/1''),
     (''clone'', ''fn/0/const''), (''parse'', ''fn/2/static''), (''merge_from'', ''fn/1''),
     (''merge_fields_from'', ''fn/1''), (''serialize'', ''fn/1/const''), (''encoded_size'', ''fn/0/const''),
     (''validate'', ''fn/0/const'')]"

definition member_of_kind :: "CppNameKind \<Rightarrow> EmittedNameMember" where
  "member_of_kind k = plain_member\<lparr>mkind := k\<rparr>"

definition suffix_member :: "string \<Rightarrow> CppNameKind \<Rightarrow> string option \<Rightarrow> EmittedNameMember" where
  "suffix_member s k sig = plain_member\<lparr>suffix := Some s, mkind := k, msignature := sig\<rparr>"

definition enum_helper_name_members :: "EnumModel \<Rightarrow> (string \<times> EmittedNameMember) list" where
  "enum_helper_name_members e =
     [(''min'', suffix_member ''MIN'' CONSTANT None), (''max'', suffix_member ''MAX'' CONSTANT None)]
     @ (if generates_arraysize e then [(''arraysize'', suffix_member ''ARRAYSIZE'' CONSTANT None)] else [])
     @ [(''is_valid'', suffix_member ''is_valid'' PUBLIC_FUNCTION (Some ''fn/1'')),
        (''name'', suffix_member ''name'' PUBLIC_FUNCTION (Some ''fn/1'')),
        (''parse'', suffix_member ''parse'' PUBLIC_FUNCTION (Some ''fn/2'')),
        (''descriptor'', suffix_member ''descriptor'' PUBLIC_FUNCTION (Some ''fn/0''))]"

definition MESSAGE_PRIVATE_FUNCTIONS :: "string list" where
  "MESSAGE_PRIVATE_FUNCTIONS = [''copy_from_in_place_'', ''reset_for_reuse_'', ''merge_field_from_'', ''destroy_at_'']"

definition FIELD_IMPLEMENTATION_NAME_TEMPLATES :: "(string \<times> string) list" where
  "FIELD_IMPLEMENTATION_NAME_TEMPLATES = [
     (''ensured'', ''ensured_{name}''), (''entry'', ''{name}_entry''), (''value'', ''{name}_value''),
     (''packed_values'', ''packed_{name}_values''), (''packed_unknown_fields'', ''packed_{name}_unknown_fields''),
     (''packed_reserve'', ''packed_reserve_{name}''), (''merged_unknown_fields'', ''merged_{name}_unknown_fields''),
     (''committed'', ''{name}_committed''), (''parse_entry'', ''parse_{name}_entry''),
     (''staged_entry'', ''staged_{name}_entry''), (''decoded_raw'', ''decoded_{name}_raw''),
     (''decoded'', ''decoded_{name}''), (''accepted'', ''{name}_accepted''), (''packed_size'', ''packed_size_{name}''),
     (''packed_value'', ''packed_value_{name}''), (''field_size'', ''field_size_{name}'')]"

definition accessor :: "string \<Rightarrow> string \<Rightarrow> EmittedNameMember" where
  "accessor t sig = plain_member\<lparr>template := t, mkind := FIELD_ACCESSOR, msignature := Some sig\<rparr>"

definition field_public_name_members :: "FieldModel \<Rightarrow> (string \<times> EmittedNameMember) list" where
  "field_public_name_members f =
     (let has_member = (''has'', accessor ''has_{name}'' ''fn/0/const'');
          ensure = (''ensure'', accessor ''ensure_{name}'' ''fn/0'');
          mutable = (''mutable'', accessor ''mutable_{name}'' ''fn/0'');
          setter = (''setter'', accessor ''set_{name}'' ''fn/1'');
          resize_overwrite = (''resize_overwrite'', accessor ''resize_{name}_for_overwrite'' ''fn/1'');
          raws = [(''raw_accessor'', accessor ''{name}_raw'' ''fn/0/const''), (''raw_setter'', accessor ''set_{name}_raw'' ''fn/1'')];
          presence = (if proto3_optional f then [has_member] else []) in
      (''accessor'', accessor ''{name}'' ''fn/0/const'') #
      (if oneof_name f \<noteq> None then
         has_member #
         (if field_kind f = MessageField then [ensure]
          else if field_kind f = EnumField then raws @ [setter]
          else [setter])
       else
         (''clear'', accessor ''clear_{name}'' ''fn/0'') #
         (if repeated f \<or> field_kind f = MapField then [mutable]
          else if field_kind f = MessageField then [has_member, ensure]
          else if fixed_bytes f then [has_member, mutable, resize_overwrite, setter]
          else if field_kind f = BytesField \<and> array_enabled f then
            [(''size'', accessor ''{name}_size'' ''fn/0/const''), (''max_size'', accessor ''{name}_max_size'' ''fn/0/const''),
             (''resize'', accessor ''resize_{name}'' ''fn/1''), resize_overwrite, mutable, setter] @ presence
          else if field_kind f = StringField \<or> field_kind f = BytesField then [mutable, setter] @ presence
          else if field_kind f = EnumField then raws @ [setter] @ presence
          else [setter] @ presence)))"

definition name_request :: "string \<Rightarrow> string \<Rightarrow> EmittedNameMember list \<Rightarrow> EmittedNameRequest" where
  \<comment> \<open>the dataclass defaults\<close>
  "name_request ow pref ms =
     \<lparr>rowner = ow, preferred = pref, members = ms, hash_fallback = False, priority = 100\<rparr>"

section \<open>Assigned names\<close>

datatype named =
  NamedMessage | NamedField string | NamedMapKey named | NamedMapValue named
| NamedEnum string | NamedNested string | NamedConstant string | NamedOneof string

type_synonym emitted = "((named \<times> string) \<times> string) list"

datatype naming_error =
  ScopeFailure name_error
| OwnerMissing string \<comment> \<open>the \<^verbatim>\<open>KeyError\<close> of \<^verbatim>\<open>allocated[owner]\<close>\<close>
| EmittedMissing named string \<comment> \<open>the \<^verbatim>\<open>KeyError\<close> of \<^verbatim>\<open>emitted_names[key]\<close>\<close>
| MissingAllocated string "string list" \<comment> \<open>the \<^verbatim>\<open>AssertionError\<close>\<close>

type_synonym 'a naming = "(naming_error + 'a) option"

definition nbind :: "'a naming \<Rightarrow> ('a \<Rightarrow> 'b naming) \<Rightarrow> 'b naming" where
  "nbind m f = (case m of None \<Rightarrow> None | Some (Inl e) \<Rightarrow> Some (Inl e) | Some (Inr x) \<Rightarrow> f x)"

fun nfold :: "('a \<Rightarrow> 's \<Rightarrow> 's naming) \<Rightarrow> 'a list \<Rightarrow> 's \<Rightarrow> 's naming" where
  "nfold f [] s = Some (Inr s)"
| "nfold f (x # xs) s = nbind (f x s) (nfold f xs)"

definition reserve_names :: "(string \<times> EmittedNameUse) list \<Rightarrow> EmittedNameScope \<Rightarrow> naming_error + EmittedNameScope" where
  "reserve_names rs sc = lift_error ScopeFailure (rfold (\<lambda>(n, u) sc. reserve sc n u) rs sc)"

definition allocate_names ::
  "EmittedNameScope \<Rightarrow> EmittedNameRequest list \<Rightarrow> (EmittedNameScope \<times> (string \<rightharpoonup> string)) naming" where
  "allocate_names sc rs = map_option (lift_error ScopeFailure) (allocate sc rs)"

definition allocated_name :: "(string \<rightharpoonup> string) \<Rightarrow> string \<Rightarrow> naming_error + string" where
  "allocated_name al ow = (case al ow of None \<Rightarrow> Inl (OwnerMissing ow) | Some n \<Rightarrow> Inr n)"

definition emit :: "named \<Rightarrow> (string \<times> string) list \<Rightarrow> emitted \<Rightarrow> emitted" where
  "emit x kvs d = rev (map (\<lambda>(k, v). ((x, k), v)) kvs) @ d"

definition emitted_name :: "emitted \<Rightarrow> named \<Rightarrow> string \<Rightarrow> naming_error + string" where
  "emitted_name d x k = (case map_of d (x, k) of None \<Rightarrow> Inl (EmittedMissing x k) | Some n \<Rightarrow> Inr n)"

definition render_members :: "string \<Rightarrow> (string \<times> EmittedNameMember) list \<Rightarrow> naming_error + (string \<times> string) list" where
  "render_members stem ms = rmap (\<lambda>(k, m). rbind (lift_error ScopeFailure (render m stem)) (\<lambda>n. Inr (k, n))) ms"

definition full_field :: "MessageModel \<Rightarrow> FieldModel \<Rightarrow> string" where
  "full_field m f = message_full_name m @ ''.'' @ field_name f"

section \<open>The members of the class\<close>

definition class_reservations :: "MessageModel \<Rightarrow> (string \<times> EmittedNameUse) list" where
  "class_reservations m =
     (let full = message_full_name m in
      [(message_cpp_name m, \<lparr>uowner = full @ '':injected-class-name'', ukind = CppNameKind.TYPE, usignature = None\<rparr>),
       (''Context'', \<lparr>uowner = full @ '':context-alias'', ukind = TYPE_ALIAS, usignature = None\<rparr>)]
      @ (if message_fields m \<noteq> []
         then [(''FieldNumber'', \<lparr>uowner = full @ '':field-number-type'', ukind = CppNameKind.TYPE, usignature = None\<rparr>)] else [])
      @ map (\<lambda>(n, sig). (n, \<lparr>uowner = full @ '':public:'' @ n, ukind = PUBLIC_FUNCTION, usignature = Some sig\<rparr>))
          MESSAGE_PUBLIC_FUNCTIONS)"

definition reserved_emitted :: "MessageModel \<Rightarrow> (string \<times> string) list" where
  "reserved_emitted m =
     [(''context_alias'', ''Context'')]
     @ (if message_fields m \<noteq> [] then [(''field_number_type'', ''FieldNumber'')] else [])
     @ map (\<lambda>(n, _). (n, n)) MESSAGE_PUBLIC_FUNCTIONS"

definition class_messages :: "message_tree list \<Rightarrow> MessageModel list" where
  \<comment> \<open>the nested messages that become classes\<close>
  "class_messages ts = filter (\<lambda>n. \<not> is_map_entry n) (map tree_message ts)"

definition enum_owner :: "EnumModel \<Rightarrow> string" where "enum_owner e = ''nested-enum:'' @ enum_full_name e"
definition nested_owner :: "MessageModel \<Rightarrow> string" where "nested_owner n = ''nested-message:'' @ message_full_name n"
definition constant_owner :: "ConstantModel \<Rightarrow> string" where "constant_owner c = ''constant:'' @ const_full_name c"
definition field_owner :: "MessageModel \<Rightarrow> FieldModel \<Rightarrow> string" where "field_owner m f = ''field:'' @ full_field m f"

definition enum_request :: "EnumModel \<Rightarrow> EmittedNameRequest" where
  "enum_request e = (name_request (enum_owner e) (cpp_identifier (enum_name e))
     (member_of_kind TYPE_ALIAS # map snd (enum_helper_name_members e)))\<lparr>priority := 20\<rparr>"

definition nested_request :: "MessageModel \<Rightarrow> EmittedNameRequest" where
  "nested_request n = (name_request (nested_owner n) (cpp_identifier (message_name n)) [member_of_kind TYPE_ALIAS])\<lparr>priority := 20\<rparr>"

definition constant_request :: "ConstantModel \<Rightarrow> EmittedNameRequest" where
  "constant_request c = (name_request (constant_owner c) (const_cpp_name c) [member_of_kind CONSTANT])\<lparr>priority := 30\<rparr>"

definition field_request :: "MessageModel \<Rightarrow> FieldModel \<Rightarrow> EmittedNameRequest" where
  "field_request m f = (name_request (field_owner m f) (field_cpp_name f) (map snd (field_public_name_members f)))\<lparr>priority := 10\<rparr>"

definition class_requests :: "message_tree \<Rightarrow> EmittedNameRequest list" where
  "class_requests t =
     (let m = tree_message t in
      map enum_request (nested_enums t) @ map nested_request (class_messages (nested_messages t))
      @ map constant_request (message_constants m) @ map (field_request m) (message_fields m))"

definition name_enum :: "(string \<rightharpoonup> string) \<Rightarrow> EnumModel \<Rightarrow> emitted \<Rightarrow> naming_error + emitted" where
  "name_enum al e d =
     rbind (allocated_name al (enum_owner e)) (\<lambda>stem.
     rbind (render_members stem (enum_helper_name_members e)) (\<lambda>helpers.
       Inr (emit (NamedEnum (enum_full_name e)) ((''alias'', stem) # helpers) d)))"

definition name_nested :: "(string \<rightharpoonup> string) \<Rightarrow> MessageModel \<Rightarrow> emitted \<Rightarrow> naming_error + emitted" where
  "name_nested al n d =
     rbind (allocated_name al (nested_owner n)) (\<lambda>stem. Inr (emit (NamedNested (message_full_name n)) [(''alias'', stem)] d))"

definition name_constant :: "(string \<rightharpoonup> string) \<Rightarrow> ConstantModel \<Rightarrow> emitted \<Rightarrow> naming_error + emitted" where
  "name_constant al c d =
     rbind (allocated_name al (constant_owner c)) (\<lambda>stem. Inr (emit (NamedConstant (const_full_name c)) [(''declaration'', stem)] d))"

definition name_field :: "(string \<rightharpoonup> string) \<Rightarrow> MessageModel \<Rightarrow> FieldModel \<Rightarrow> emitted \<Rightarrow> naming_error + emitted" where
  "name_field al m f d =
     rbind (allocated_name al (field_owner m f)) (\<lambda>stem.
     rbind (render_members stem (field_public_name_members f)) (\<lambda>accessors.
       Inr (emit (NamedField (field_name f)) (accessors @ [(''number'', stem)]) d)))"

definition assign_class_names :: "(string \<rightharpoonup> string) \<Rightarrow> message_tree \<Rightarrow> emitted \<Rightarrow> naming_error + emitted" where
  "assign_class_names al t d =
     (let m = tree_message t in
      rbind (rfold (name_enum al) (nested_enums t) d) (\<lambda>d.
      rbind (rfold (name_nested al) (class_messages (nested_messages t)) d) (\<lambda>d.
      rbind (rfold (name_constant al) (message_constants m) d) (rfold (name_field al m) (message_fields m)))))"

section \<open>Template parameters of aliases\<close>

definition allocate_alias_template_parameter :: "string \<Rightarrow> string \<Rightarrow> string \<Rightarrow> string naming" where
  "allocate_alias_template_parameter lab alias pref =
     (let ow = lab @ '':parameter'' in
      nbind (Some (reserve_names [(alias, \<lparr>uowner = lab @ '':alias'', ukind = TYPE_ALIAS, usignature = None\<rparr>)] (new_scope lab)))
        (\<lambda>sc. nbind (allocate_names sc [name_request ow pref [member_of_kind IMPLEMENTATION]])
          (\<lambda>(_, al). Some (allocated_name al ow))))"

definition allocate_nested_alias_template_names :: "message_tree \<Rightarrow> emitted \<Rightarrow> emitted naming" where
  "allocate_nested_alias_template_names t =
     nfold (\<lambda>n d.
       nbind (Some (emitted_name d (NamedNested (message_full_name n)) ''alias'')) (\<lambda>alias.
       nbind (allocate_alias_template_parameter (''nested-alias-template:'' @ message_full_name n) alias ''NestedConfig'')
         (\<lambda>config. Some (Inr (emit (NamedNested (message_full_name n)) [(''alias_config'', config)] d)))))
     (class_messages (nested_messages t))"

section \<open>Oneofs\<close>

definition field_stem :: "emitted \<Rightarrow> FieldModel \<Rightarrow> naming_error + string" where
  \<comment> \<open>\<^verbatim>\<open>item.cpp_name\<close> once the accessors are named\<close>
  "field_stem d f = emitted_name d (NamedField (field_name f)) ''number''"

definition full_oneof :: "MessageModel \<Rightarrow> OneofModel \<Rightarrow> string" where
  "full_oneof m g = message_full_name m @ ''.'' @ oneof_model_name g"

definition case_owner :: "MessageModel \<Rightarrow> OneofModel \<Rightarrow> string" where "case_owner m g = ''oneof-case-type:'' @ full_oneof m g"
definition api_owner :: "MessageModel \<Rightarrow> OneofModel \<Rightarrow> string" where "api_owner m g = ''oneof-api:'' @ full_oneof m g"
definition value_owner :: "MessageModel \<Rightarrow> FieldModel \<Rightarrow> string" where "value_owner m f = ''oneof-value:'' @ full_field m f"

definition oneof_requests :: "MessageModel \<Rightarrow> OneofModel \<Rightarrow> EmittedNameRequest list" where
  "oneof_requests m g =
     [name_request (case_owner m g) (oneof_cpp_name g @ ''Case'') [member_of_kind ONEOF_CASE_TYPE],
      name_request (api_owner m g) (cpp_derivable_identifier (oneof_model_name g))
        [plain_member\<lparr>template := ''{name}_case'', mkind := PUBLIC_FUNCTION, msignature := Some ''fn/0/const''\<rparr>,
         plain_member\<lparr>template := ''clear_{name}'', mkind := PUBLIC_FUNCTION, msignature := Some ''fn/0''\<rparr>]]"

definition allocate_for_fields ::
  "EmittedNameScope \<Rightarrow> (FieldModel \<Rightarrow> string \<Rightarrow> EmittedNameRequest) \<Rightarrow> (FieldModel \<Rightarrow> string) \<Rightarrow> string \<Rightarrow> FieldModel list
   \<Rightarrow> emitted \<Rightarrow> emitted naming" where
  \<comment> \<open>one name for every field of a oneof, in a scope of its own\<close>
  "allocate_for_fields sc request ow key fs d =
     nbind (Some (rmap (\<lambda>f. rbind (field_stem d f) (\<lambda>stem. Inr (request f stem))) fs)) (\<lambda>requests.
     nbind (allocate_names sc requests) (\<lambda>(_, al).
       Some (rfold (\<lambda>f d. rbind (allocated_name al (ow f)) (\<lambda>n. Inr (emit (NamedField (field_name f)) [(key, n)] d))) fs d)))"

definition allocate_oneof_cases :: "MessageModel \<Rightarrow> OneofModel \<Rightarrow> emitted \<Rightarrow> emitted naming" where
  "allocate_oneof_cases m g d =
     nbind (Some (reserve_names [(''none'', \<lparr>uowner = full_oneof m g @ '':none'', ukind = ONEOF_CASE_VALUE, usignature = None\<rparr>)]
       (new_scope (''oneof-case:'' @ full_oneof m g)))) (\<lambda>sc.
       allocate_for_fields sc (\<lambda>f stem. name_request (value_owner m f) stem [member_of_kind ONEOF_CASE_VALUE]) (value_owner m)
         ''oneof_case'' (oneof_fields g) d)"

definition name_oneof :: "(string \<rightharpoonup> string) \<Rightarrow> MessageModel \<Rightarrow> OneofModel \<Rightarrow> emitted \<Rightarrow> naming_error + emitted" where
  "name_oneof al m g d =
     rbind (allocated_name al (case_owner m g)) (\<lambda>case_type.
     rbind (allocated_name al (api_owner m g)) (\<lambda>stem.
       Inr (emit (NamedOneof (oneof_model_name g))
         [(''case_type'', case_type), (''case_accessor'', stem @ ''_case''), (''clear'', ''clear_'' @ stem)] d)))"

definition allocate_message_oneof_names :: "EmittedNameScope \<Rightarrow> MessageModel \<Rightarrow> emitted \<Rightarrow> (EmittedNameScope \<times> emitted) naming" where
  "allocate_message_oneof_names sc m d =
     nbind (allocate_names sc (concat (map (oneof_requests m) (message_oneofs m)))) (\<lambda>(sc, al).
     nbind (nfold (\<lambda>g d. nbind (Some (name_oneof al m g d)) (allocate_oneof_cases m g)) (message_oneofs m) d) (\<lambda>d.
       Some (Inr (sc, d))))"

section \<open>Private members\<close>

definition private_owner :: "MessageModel \<Rightarrow> string \<Rightarrow> string" where
  "private_owner m s = ''private:'' @ message_full_name m @ '':'' @ s"

definition function_owner :: "MessageModel \<Rightarrow> string \<Rightarrow> string" where "function_owner m n = private_owner m (''function:'' @ n)"
definition storage_owner :: "MessageModel \<Rightarrow> FieldModel \<Rightarrow> string" where
  "storage_owner m f = private_owner m (''field:'' @ field_name f @ '':storage'')"
definition presence_owner :: "MessageModel \<Rightarrow> FieldModel \<Rightarrow> string" where
  "presence_owner m f = private_owner m (''field:'' @ field_name f @ '':presence'')"
definition oneof_owner :: "MessageModel \<Rightarrow> OneofModel \<Rightarrow> string \<Rightarrow> string" where
  "oneof_owner m g s = private_owner m (''oneof:'' @ oneof_model_name g @ '':'' @ s)"

definition private_functions :: "MessageModel \<Rightarrow> string list" where
  "private_functions m = filter (\<lambda>n. n \<noteq> ''destroy_at_'' \<or> message_oneofs m \<noteq> []) MESSAGE_PRIVATE_FUNCTIONS"

definition has_presence_storage :: "FieldModel \<Rightarrow> bool" where
  "has_presence_storage f = (has_explicit_presence f \<and> field_kind f \<noteq> MessageField)"

definition storage_requests :: "MessageModel \<Rightarrow> emitted \<Rightarrow> FieldModel \<Rightarrow> naming_error + EmittedNameRequest list" where
  "storage_requests m d f =
     (if oneof_name f \<noteq> None then Inr []
      else rbind (field_stem d f) (\<lambda>stem.
        Inr (name_request (storage_owner m f) (stem @ ''_'') [member_of_kind PRIVATE_STORAGE]
          # (if has_presence_storage f
             then [name_request (presence_owner m f) (''has_'' @ stem @ ''_'') [member_of_kind PRIVATE_STORAGE]] else []))))"

definition oneof_storage_requests :: "MessageModel \<Rightarrow> OneofModel \<Rightarrow> EmittedNameRequest list" where
  "oneof_storage_requests m g =
     (let lower = cpp_derivable_identifier (oneof_model_name g) in
      [name_request (oneof_owner m g ''case'') (lower @ ''_case_'') [member_of_kind PRIVATE_STORAGE],
       name_request (oneof_owner m g ''type'') (oneof_cpp_name g @ ''Storage'') [member_of_kind CppNameKind.TYPE],
       name_request (oneof_owner m g ''storage'') (lower @ ''_'') [member_of_kind PRIVATE_STORAGE]])"

definition private_requests :: "MessageModel \<Rightarrow> emitted \<Rightarrow> naming_error + EmittedNameRequest list" where
  "private_requests m d =
     rbind (rmap (storage_requests m d) (message_fields m)) (\<lambda>storages.
       Inr ([name_request (private_owner m ''context-storage'') ''ctx_'' [member_of_kind PRIVATE_STORAGE],
             name_request (private_owner m ''unknown-storage'') ''unknown_fields_'' [member_of_kind PRIVATE_STORAGE]]
         @ map (\<lambda>n. name_request (function_owner m n) n [plain_member\<lparr>msignature := Some (''private:'' @ n)\<rparr>]) (private_functions m)
         @ concat storages @ concat (map (oneof_storage_requests m) (message_oneofs m))))"

definition name_message_storage :: "(string \<rightharpoonup> string) \<Rightarrow> MessageModel \<Rightarrow> emitted \<Rightarrow> naming_error + emitted" where
  "name_message_storage al m d =
     rbind (allocated_name al (private_owner m ''context-storage'')) (\<lambda>context.
     rbind (allocated_name al (private_owner m ''unknown-storage'')) (\<lambda>unknown.
     rfold (\<lambda>n d. case al (function_owner m n) of None \<Rightarrow> Inr d | Some v \<Rightarrow> Inr (emit NamedMessage [(n, v)] d))
       MESSAGE_PRIVATE_FUNCTIONS
       (emit NamedMessage [(''context_storage'', context), (''unknown_storage'', unknown)] d)))"

definition name_field_storage :: "(string \<rightharpoonup> string) \<Rightarrow> MessageModel \<Rightarrow> FieldModel \<Rightarrow> emitted \<Rightarrow> naming_error + emitted" where
  "name_field_storage al m f d =
     (if oneof_name f \<noteq> None then Inr d
      else rbind (allocated_name al (storage_owner m f)) (\<lambda>n.
        Inr (emit (NamedField (field_name f))
          ((''storage'', n) # (case al (presence_owner m f) of None \<Rightarrow> [] | Some p \<Rightarrow> [(''presence_storage'', p)])) d)))"

definition union_owner :: "MessageModel \<Rightarrow> FieldModel \<Rightarrow> string" where "union_owner m f = ''oneof-storage:'' @ full_field m f"

definition share_oneof_names :: "OneofModel \<Rightarrow> FieldModel \<Rightarrow> emitted \<Rightarrow> naming_error + emitted" where
  "share_oneof_names g f d =
     (let x = NamedOneof (oneof_model_name g) in
      rbind (emitted_name d x ''case_type'') (\<lambda>case_type.
      rbind (emitted_name d x ''case_storage'') (\<lambda>case_storage.
      rbind (emitted_name d x ''storage'') (\<lambda>container.
      rbind (emitted_name d x ''clear'') (\<lambda>clear.
        Inr (emit (NamedField (field_name f))
          [(''oneof_case_type'', case_type), (''oneof_case_storage'', case_storage), (''oneof_container'', container),
           (''oneof_clear'', clear)] d))))))"

definition name_oneof_storage :: "(string \<rightharpoonup> string) \<Rightarrow> MessageModel \<Rightarrow> OneofModel \<Rightarrow> emitted \<Rightarrow> emitted naming" where
  "name_oneof_storage al m g d =
     nbind (Some (rmap (\<lambda>s. allocated_name al (oneof_owner m g s)) [''case'', ''type'', ''storage''])) (\<lambda>ns.
     nbind (allocate_for_fields (new_scope (''oneof-storage:'' @ full_oneof m g))
         (\<lambda>f stem. name_request (union_owner m f) (stem @ ''_'') [member_of_kind PRIVATE_STORAGE]) (union_owner m)
         ''oneof_storage'' (oneof_fields g)
         (emit (NamedOneof (oneof_model_name g)) (zip [''case_storage'', ''storage_type'', ''storage''] ns) d)) (\<lambda>d.
       Some (rfold (share_oneof_names g) (oneof_fields g) d)))"

fun assign_message_private_names_to_field :: "MessageModel \<Rightarrow> named \<Rightarrow> FieldModel \<Rightarrow> emitted \<Rightarrow> naming_error + emitted" where
  "assign_message_private_names_to_field m x
     (FieldModel nm cpp nr ty lab fl rep opt oi on pk dep tn k ct mt et mk mv mx ex fx ep rq df ds cl) d =
     rbind (emitted_name d NamedMessage ''context_storage'') (\<lambda>context.
     rbind (emitted_name d NamedMessage ''unknown_storage'') (\<lambda>unknown.
     let functions = List.map_filter (\<lambda>n. map_option (Pair n) (map_of d (NamedMessage, n))) MESSAGE_PRIVATE_FUNCTIONS;
         d1 = emit x ([(''context_storage'', context), (''unknown_storage'', unknown)] @ functions) d in
     rbind (case mk of None \<Rightarrow> Inr d1 | Some f \<Rightarrow> assign_message_private_names_to_field m (NamedMapKey x) f d1) (\<lambda>d2.
       case mv of None \<Rightarrow> Inr d2 | Some f \<Rightarrow> assign_message_private_names_to_field m (NamedMapValue x) f d2)))"

definition allocate_message_private_names :: "EmittedNameScope \<Rightarrow> MessageModel \<Rightarrow> emitted \<Rightarrow> (EmittedNameScope \<times> emitted) naming" where
  "allocate_message_private_names sc m d =
     nbind (Some (private_requests m d)) (\<lambda>requests.
     nbind (allocate_names sc requests) (\<lambda>(sc, al).
     nbind (Some (name_message_storage al m d)) (\<lambda>d.
     nbind (Some (rfold (name_field_storage al m) (message_fields m) d)) (\<lambda>d.
     nbind (nfold (name_oneof_storage al m) (message_oneofs m) d) (\<lambda>d.
     nbind (Some (rfold (\<lambda>f. assign_message_private_names_to_field m (NamedField (field_name f)) f) (message_fields m) d)) (\<lambda>d.
       Some (Inr (sc, d))))))))"

section \<open>Names of the implementation\<close>

definition put_scope :: "string \<Rightarrow> EmittedNameScope \<Rightarrow> EmittedNameAllocator \<Rightarrow> EmittedNameAllocator" where
  "put_scope lab sc a = a\<lparr>scopes := (scopes a)(lab \<mapsto> sc)\<rparr>"

definition implementation_members :: "EmittedNameMember list" where
  "implementation_members = map (\<lambda>(_, t). plain_member\<lparr>template := t\<rparr>) FIELD_IMPLEMENTATION_NAME_TEMPLATES"

definition implementation_names :: "string \<Rightarrow> (string \<times> string) list" where
  "implementation_names stem = map (\<lambda>(k, t). (''implementation:'' @ k, format_name t stem)) FIELD_IMPLEMENTATION_NAME_TEMPLATES"

definition implementation_owner :: "MessageModel \<Rightarrow> FieldModel \<Rightarrow> string" where
  "implementation_owner m f = ''implementation:'' @ full_field m f"

definition allocate_map_member_implementation_names ::
  "MessageModel \<Rightarrow> FieldModel \<Rightarrow> named \<Rightarrow> FieldModel \<Rightarrow> EmittedNameAllocator \<times> emitted \<Rightarrow> (EmittedNameAllocator \<times> emitted) naming" where
  "allocate_map_member_implementation_names m map_field x map_member = (\<lambda>(a, d).
     (let ow = implementation_owner m map_field @ ''.'' @ field_name map_member; (a, sc) = scope_of a ow in
      nbind (allocate_names sc [name_request ow (cpp_emitted_derivable_identifier (field_cpp_name map_member))
          (implementation_members @ [plain_member\<lparr>template := ''{name}_''\<rparr>])]) (\<lambda>(sc, al).
      nbind (Some (allocated_name al ow)) (\<lambda>stem.
        Some (Inr (put_scope ow sc a, emit x (implementation_names stem @ [(''storage'', stem @ ''_'')]) d))))))"

definition name_implementation ::
  "(string \<rightharpoonup> string) \<Rightarrow> MessageModel \<Rightarrow> FieldModel \<Rightarrow> EmittedNameAllocator \<times> emitted \<Rightarrow> (EmittedNameAllocator \<times> emitted) naming" where
  "name_implementation al m f = (\<lambda>(a, d).
     nbind (Some (allocated_name al (implementation_owner m f))) (\<lambda>stem.
     let x = NamedField (field_name f); d = emit x (implementation_names stem) d in
     nbind (case map_key f of None \<Rightarrow> Some (Inr (a, d))
       | Some k \<Rightarrow> allocate_map_member_implementation_names m f (NamedMapKey x) k (a, d)) (\<lambda>s.
     case map_value f of None \<Rightarrow> Some (Inr s)
       | Some v \<Rightarrow> allocate_map_member_implementation_names m f (NamedMapValue x) v s)))"

definition implementation_request :: "MessageModel \<Rightarrow> emitted \<Rightarrow> FieldModel \<Rightarrow> naming_error + EmittedNameRequest" where
  "implementation_request m d f =
     rbind (field_stem d f) (\<lambda>stem.
       Inr (name_request (implementation_owner m f) (cpp_emitted_derivable_identifier stem) implementation_members))"

definition allocate_message_implementation_names ::
  "EmittedNameAllocator \<Rightarrow> MessageModel \<Rightarrow> emitted \<Rightarrow> (EmittedNameAllocator \<times> emitted) naming" where
  "allocate_message_implementation_names a m d =
     (let lab = ''implementation:'' @ message_full_name m; (a, sc) = scope_of a lab in
      nbind (Some (rmap (implementation_request m d) (message_fields m))) (\<lambda>requests.
      nbind (allocate_names sc requests) (\<lambda>(sc, al).
        nfold (name_implementation al m) (message_fields m) (put_scope lab sc a, d))))"

section \<open>Template parameters\<close>

record template_names =
  config_cpp_name :: string
  reader_cpp_name :: string
  writer_cpp_name :: string
  value_parameter_cpp_name :: string
  generic_cpp_name :: string

definition template_owner :: "MessageModel \<Rightarrow> string \<Rightarrow> string" where
  "template_owner m p = ''template:'' @ message_full_name m @ '':'' @ p"

fun assign_internal_names :: "template_names \<Rightarrow> named \<Rightarrow> FieldModel \<Rightarrow> (named \<times> template_names) list" where
  \<comment> \<open>the copies in a field and in the members of its map\<close>
  "assign_internal_names ns x
     (FieldModel nm cpp nr ty lab fl rep opt oi on pk dep tn k ct mt et mk mv mx ex fx ep rq df ds cl) =
     (x, ns) # (case mk of None \<Rightarrow> [] | Some f \<Rightarrow> assign_internal_names ns (NamedMapKey x) f)
     @ (case mv of None \<Rightarrow> [] | Some f \<Rightarrow> assign_internal_names ns (NamedMapValue x) f)"

definition allocate_message_template_names ::
  "EmittedNameScope \<Rightarrow> MessageModel \<Rightarrow> (EmittedNameScope \<times> (named \<times> template_names) list) naming" where
  "allocate_message_template_names sc m =
     nbind (allocate_names sc (map (\<lambda>p. name_request (template_owner m p) p [member_of_kind IMPLEMENTATION])
       [''Config'', ''Reader'', ''Writer'', ''Value'', ''T''])) (\<lambda>(sc, al).
     nbind (Some (allocated_name al (template_owner m ''Config''))) (\<lambda>config.
     nbind (Some (allocated_name al (template_owner m ''Reader''))) (\<lambda>reader.
     nbind (Some (allocated_name al (template_owner m ''Writer''))) (\<lambda>writer.
     nbind (Some (allocated_name al (template_owner m ''Value''))) (\<lambda>value.
     nbind (Some (allocated_name al (template_owner m ''T''))) (\<lambda>generic.
       let ns = \<lparr>config_cpp_name = config, reader_cpp_name = reader, writer_cpp_name = writer,
                 value_parameter_cpp_name = value, generic_cpp_name = generic\<rparr> in
       Some (Inr (sc, (NamedMessage, ns)
         # concat (map (\<lambda>f. assign_internal_names ns (NamedField (field_name f)) f) (message_fields m))))))))))"

section \<open>The final check\<close>

definition require_emitted_names :: "string \<Rightarrow> emitted \<Rightarrow> named \<Rightarrow> string list \<Rightarrow> naming_error + unit" where
  "require_emitted_names ow d x keys =
     (let missing = sort (remdups (filter (\<lambda>k. map_of d (x, k) = None) keys)) in
      raise_if (missing \<noteq> []) (MissingAllocated ow missing))"

definition private_names :: "MessageModel \<Rightarrow> string list" where
  "private_names m = [''context_storage'', ''unknown_storage''] @ private_functions m"

definition implementation_keys :: "string list" where
  "implementation_keys = map (\<lambda>(k, _). ''implementation:'' @ k) FIELD_IMPLEMENTATION_NAME_TEMPLATES"

definition required_field_names :: "MessageModel \<Rightarrow> FieldModel \<Rightarrow> string list" where
  "required_field_names m f =
     ''number'' # map fst (field_public_name_members f) @ private_names m @ implementation_keys
     @ (if oneof_name f \<noteq> None
        then [''oneof_case'', ''oneof_storage'', ''oneof_case_type'', ''oneof_case_storage'', ''oneof_container'', ''oneof_clear'']
        else ''storage'' # (if has_presence_storage f then [''presence_storage''] else []))"

definition require_field_names :: "MessageModel \<Rightarrow> emitted \<Rightarrow> FieldModel \<Rightarrow> naming_error + unit" where
  "require_field_names m d f =
     (let x = NamedField (field_name f);
          require_member = (\<lambda>y k. require_emitted_names (full_field m f @ ''.'' @ field_name k) d y
            (private_names m @ implementation_keys @ [''storage''])) in
      rbind (require_emitted_names (full_field m f) d x (required_field_names m f)) (\<lambda>_.
      rbind (case map_key f of None \<Rightarrow> Inr () | Some k \<Rightarrow> require_member (NamedMapKey x) k) (\<lambda>_.
        case map_value f of None \<Rightarrow> Inr () | Some v \<Rightarrow> require_member (NamedMapValue x) v)))"

definition validate_message_cpp_name_allocations :: "message_tree \<Rightarrow> emitted \<Rightarrow> naming_error + unit" where
  "validate_message_cpp_name_allocations t d =
     (let m = tree_message t in
      rbind (require_emitted_names (message_full_name m) d NamedMessage
        (''context_alias'' # private_names m @ map fst MESSAGE_PUBLIC_FUNCTIONS
         @ (if message_fields m \<noteq> [] then [''field_number_type''] else []))) (\<lambda>_.
      rbind (each (\<lambda>e. require_emitted_names (enum_full_name e) d (NamedEnum (enum_full_name e))
        (''alias'' # map fst (enum_helper_name_members e))) (nested_enums t)) (\<lambda>_.
      rbind (each (\<lambda>n. require_emitted_names (message_full_name n) d (NamedNested (message_full_name n))
        [''alias'', ''alias_config'']) (class_messages (nested_messages t))) (\<lambda>_.
      rbind (each (require_field_names m d) (message_fields m)) (\<lambda>_.
        each (\<lambda>g. require_emitted_names (full_oneof m g) d (NamedOneof (oneof_model_name g))
          [''case_type'', ''case_accessor'', ''clear'', ''case_storage'', ''storage_type'', ''storage'']) (message_oneofs m))))))"

section \<open>Messages and files\<close>

record message_naming =
  class_scope :: EmittedNameScope
  class_names :: emitted
  class_parameters :: "(named \<times> template_names) list"

definition allocate_message_class_names ::
  "message_tree \<Rightarrow> EmittedNameAllocator \<Rightarrow> (EmittedNameAllocator \<times> message_naming) naming" where
  "allocate_message_class_names t a =
     (let m = tree_message t; lab = ''message:'' @ message_full_name m; (a, sc) = scope_of a lab in
      nbind (Some (reserve_names (class_reservations m) sc)) (\<lambda>sc.
      nbind (allocate_names sc (class_requests t)) (\<lambda>(sc, al).
      nbind (Some (assign_class_names al t (emit NamedMessage (reserved_emitted m) []))) (\<lambda>d.
      nbind (allocate_nested_alias_template_names t d) (\<lambda>d.
      nbind (allocate_message_oneof_names sc m d) (\<lambda>(sc, d).
      nbind (allocate_message_private_names sc m d) (\<lambda>(sc, d).
      nbind (allocate_message_implementation_names a m d) (\<lambda>(a, d).
      nbind (allocate_message_template_names sc m) (\<lambda>(sc, ns).
      nbind (Some (validate_message_cpp_name_allocations t d)) (\<lambda>_.
        Some (Inr (put_scope lab sc a, \<lparr>class_scope = sc, class_names = d, class_parameters = ns\<rparr>))))))))))))"

fun subtrees :: "message_tree \<Rightarrow> message_tree list" where
  "subtrees (MessageTree m es ts) = MessageTree m es ts # concat (map subtrees ts)"

definition class_trees :: "FileModel list \<Rightarrow> message_tree list" where
  "class_trees files =
     filter (\<lambda>t. \<not> is_map_entry (tree_message t)) (concat (map (\<lambda>f. concat (map subtrees (model_messages f))) files))"

definition allocate_message_cpp_names :: "FileModel list \<Rightarrow> (string \<times> message_naming) list naming" where
  \<comment> \<open>the names of every class, by the full name of its message\<close>
  "allocate_message_cpp_names files =
     nbind (nfold (\<lambda>t (a, ns). nbind (allocate_message_class_names t a) (\<lambda>(a, n).
         Some (Inr (a, ns @ [(message_full_name (tree_message t), n)]))))
       (class_trees files) (\<lparr>scopes = Map.empty\<rparr>, [])) (\<lambda>(_, ns). Some (Inr ns))"

end
