(* ===== verification/MessageNamesSpec.thy ===== *)
theory MessageNamesSpec
  imports MessageNames
begin

text \<open>
  What the naming of classes guarantees: \<open>returns P m\<close> says that the search \<open>m\<close> ends without an
  exception in a result with \<open>P\<close>, \<open>gives\<close> the same for steps that do not search, and
  \<open>adds K d d'\<close> that an assignment of names only grew, by at least the keys of \<open>K\<close>, and holds portable
  identifiers only.
\<close>

section \<open>Results of the naming steps\<close>

definition returns :: "('a \<Rightarrow> bool) \<Rightarrow> 'a naming \<Rightarrow> bool" where
  "returns P m \<longleftrightarrow> (\<exists>x. m = Some (Inr x) \<and> P x)"

definition gives :: "('a \<Rightarrow> bool) \<Rightarrow> naming_error + 'a \<Rightarrow> bool" where
  "gives P m \<longleftrightarrow> (\<exists>x. m = Inr x \<and> P x)"

lemma returns_simps [simp]: "returns P (Some m) = gives P m" "gives P (Inr x) = P x" "\<not> gives P (Inl e)"
  by (auto simp: returns_def gives_def)

lemma returns_nbind: "returns P m \<Longrightarrow> (\<And>x. P x \<Longrightarrow> returns Q (f x)) \<Longrightarrow> returns Q (nbind m f)"
  by (auto simp: returns_def nbind_def)

lemma gives_rbind: "gives P m \<Longrightarrow> (\<And>x. P x \<Longrightarrow> gives Q (f x)) \<Longrightarrow> gives Q (rbind m f)"
  by (auto simp: gives_def)

lemma returns_mono: "returns P m \<Longrightarrow> (\<And>x. P x \<Longrightarrow> Q x) \<Longrightarrow> returns Q m"
  by (auto simp: returns_def)

lemma gives_mono: "gives P m \<Longrightarrow> (\<And>x. P x \<Longrightarrow> Q x) \<Longrightarrow> gives Q m"
  by (auto simp: gives_def)

lemma gives_rmap:
  "(\<And>x. x \<in> set xs \<Longrightarrow> gives (P x) (f x)) \<Longrightarrow> gives (list_all2 P xs) (rmap f xs)"
proof (induction xs)
  case (Cons x xs)
  then have "gives (P x) (f x)" "gives (list_all2 P xs) (rmap f xs)" by simp_all
  then show ?case by (auto simp: gives_def)
qed simp

lemma nfold_rfold: "nfold (\<lambda>x s. Some (f x s)) xs s = Some (rfold f xs s)"
proof (induction xs arbitrary: s)
  case (Cons x xs)
  then show ?case by (cases "f x s") (simp_all add: nbind_def)
qed simp

section \<open>Growing assignments\<close>

definition assigned :: "emitted \<Rightarrow> (named \<times> string) set" where
  "assigned d = fst ` set d"

definition valid_names :: "emitted \<Rightarrow> bool" where
  "valid_names d \<longleftrightarrow> (\<forall>v\<in>snd ` set d. is_portable_identifier v)"

definition adds :: "(named \<times> string) set \<Rightarrow> emitted \<Rightarrow> emitted \<Rightarrow> bool" where
  "adds K d d' \<longleftrightarrow> valid_names d' \<and> assigned d \<union> K \<subseteq> assigned d'"

lemma adds_emit:
  "valid_names d \<Longrightarrow> (\<And>v. v \<in> snd ` set kvs \<Longrightarrow> is_portable_identifier v) \<Longrightarrow>
   adds (Pair x ` fst ` set kvs) d (emit x kvs d)"
  by (force simp: adds_def emit_def valid_names_def assigned_def)

lemma adds_refl: "valid_names d \<Longrightarrow> adds {} d d"
  by (simp add: adds_def)

lemma adds_trans: "adds K d d' \<Longrightarrow> adds L d' d'' \<Longrightarrow> adds (K \<union> L) d d''"
  by (auto simp: adds_def)

lemma adds_weaken: "adds K d d' \<Longrightarrow> L \<subseteq> K \<Longrightarrow> adds L d d'"
  by (auto simp: adds_def)

lemma adds_base: "adds K d d' \<Longrightarrow> D \<subseteq> assigned d \<Longrightarrow> valid_names d' \<and> D \<subseteq> assigned d'"
  by (auto simp: adds_def)

lemma nfold_adds:
  assumes "valid_names d" and "D \<subseteq> assigned d"
    and "\<And>x d. x \<in> set xs \<Longrightarrow> valid_names d \<Longrightarrow> D \<subseteq> assigned d \<Longrightarrow> returns (adds (N x) d) (f x d)"
  shows "returns (adds (\<Union>x\<in>set xs. N x) d) (nfold f xs d)"
  using assms
proof (induction xs arbitrary: d)
  case (Cons x xs)
  have "returns (adds (N x) d) (f x d)" using Cons.prems by simp
  then show ?case unfolding nfold.simps
  proof (rule returns_nbind)
    fix d' assume d': "adds (N x) d d'"
    then have "returns (adds (\<Union>x\<in>set xs. N x) d') (nfold f xs d')"
      using adds_base [OF d' Cons.prems(2)] Cons.IH Cons.prems(3) by simp
    then show "returns (adds (\<Union>x\<in>set (x # xs). N x) d) (nfold f xs d')"
      by (rule returns_mono) (use adds_trans [OF d'] in simp)
  qed
qed (simp add: adds_refl)

lemma rfold_adds:
  assumes "valid_names d" and "D \<subseteq> assigned d"
    and "\<And>x d. x \<in> set xs \<Longrightarrow> valid_names d \<Longrightarrow> D \<subseteq> assigned d \<Longrightarrow> gives (adds (N x) d) (f x d)"
  shows "gives (adds (\<Union>x\<in>set xs. N x) d) (rfold f xs d)"
  using nfold_adds [OF assms(1,2), of xs N "\<lambda>x s. Some (f x s)"] assms(3) by (simp add: nfold_rfold)

lemma emitted_name_gives:
  assumes "valid_names d" and "(x, k) \<in> assigned d"
  shows "gives is_portable_identifier (emitted_name d x k)"
proof -
  from assms(2) obtain v where "map_of d (x, k) = Some v"
    by (auto simp: assigned_def map_of_eq_None_iff [symmetric] domD dom_map_of_conv_image_fst [symmetric])
  moreover from this have "is_portable_identifier v"
    using assms(1) map_of_SomeD by (fastforce simp: valid_names_def)
  ultimately show ?thesis by (simp add: emitted_name_def)
qed

section \<open>Allocated names\<close>

definition fits :: "EmittedNameRequest \<Rightarrow> string \<Rightarrow> bool" where
  "fits r s \<longleftrightarrow> (\<forall>m\<in>set (members r). \<exists>n. render m s = Inr n \<and> is_portable_identifier n)"

definition answers :: "EmittedNameRequest list \<Rightarrow> (string \<rightharpoonup> string) \<Rightarrow> bool" where
  "answers rs al \<longleftrightarrow> (\<forall>r\<in>set rs. al (rowner r) \<noteq> None)
     \<and> (\<forall>ow s. al ow = Some s \<longrightarrow> (\<exists>r\<in>set rs. rowner r = ow \<and> fits r s))"

lemma can_add_all_portable:
  "can_add_all sc ren st \<Longrightarrow> p \<in> set ren \<Longrightarrow> is_portable_identifier (fst p)"
proof (induction ren arbitrary: st)
  case (Cons q ren)
  show ?case
  proof (cases "p = q")
    case True
    with Cons.prems(1) show ?thesis by (cases q) (simp add: can_add_iff)
  next
    case False
    with Cons.prems have "p \<in> set ren" "can_add_all sc ren (st(fst q := st (fst q) @ [snd q]))"
      by (cases q; simp)+
    with Cons.IH show ?thesis by blast
  qed
qed simp

lemma all2_left: "list_all2 P xs ys \<Longrightarrow> x \<in> set xs \<Longrightarrow> \<exists>y\<in>set ys. P x y"
  by (induction rule: list_all2_induct) auto

lemma found_fits:
  assumes "find_candidate sc r 0 = Some (Inr (s, ren))"
  shows "fits r s"
  unfolding fits_def
proof
  fix m assume m: "m \<in> set (members r)"
  have l: "list_all2 (\<lambda>m p. rbind (render m s) (\<lambda>n. Inr (n, member_use (rowner r) m)) = Inr p) (members r) ren"
    using find_candidate_Some(2) [OF assms] by (simp add: render_request_def rmap_Inr_iff)
  from all2_left [OF l m] obtain p where p: "p \<in> set ren" "rbind (render m s) (\<lambda>n. Inr (n, member_use (rowner r) m)) = Inr p"
    by (rule bexE)
  then obtain n where n: "render m s = Inr n" "p = (n, member_use (rowner r) m)" by auto
  have "is_portable_identifier (fst p)"
    by (rule can_add_all_portable [OF find_candidate_Some(3) [OF assms] p(1)])
  with n show "\<exists>n. render m s = Inr n \<and> is_portable_identifier n" by simp
qed

lemma allocate_loop_answers:
  "allocate_loop rs sc al = Some (Inr (sc', al')) \<Longrightarrow> answers done al \<Longrightarrow> answers (done @ rs) al'"
proof (induction rs arbitrary: sc al "done")
  case (Cons r rs)
  then obtain s ren where f: "find_candidate sc r 0 = Some (Inr (s, ren))"
    and rest: "allocate_loop rs (register_all ren sc) (al(rowner r \<mapsto> s)) = Some (Inr (sc', al'))"
    by (auto split: option.splits sum.splits)
  have "answers (done @ [r]) (al(rowner r \<mapsto> s))"
    using Cons.prems(2) found_fits [OF f] by (auto simp: answers_def)
  from Cons.IH [OF rest this] show ?case by simp
qed simp

lemma allocate_returns:
  assumes "scope_ok sc" and "\<forall>r\<in>set rs. request_ok r"
  shows "returns (\<lambda>(sc', al). scope_ok sc' \<and> answers rs al) (allocate_names sc rs)"
proof -
  obtain sc' al where run: "allocate_loop (sort_key request_key rs) sc Map.empty = Some (Inr (sc', al))"
    using allocate_loop_returns [OF assms(1), of "sort_key request_key rs" Map.empty] assms(2) by auto
  have "answers (sort_key request_key rs) al"
    using allocate_loop_answers [OF run, of "[]"] by (simp add: answers_def)
  then have "answers rs al" by (simp add: answers_def)
  with run allocate_loop_ok [OF run assms(1)] show ?thesis
    by (simp add: allocate_names_def allocate_def)
qed

section \<open>Requests that are answered\<close>

lemma portable_text_left: "portable_text (s @ t) \<Longrightarrow> s \<noteq> [] \<Longrightarrow> portable_text s"
  by (auto simp: portable_text_def is_cpp_identifier_def no_double_append split: list.splits)

lemma portable_text_parts:
  assumes "portable_text s"
  shows "s \<noteq> []" and "list_all ident_char s" and "no_double s" and "hd s \<noteq> CHR ''_''"
  using assms by (auto simp: portable_text_def is_cpp_identifier_def ident_char_def ident_start_def
      startswith_def split: list.splits)

lemma stem_of_text:
  assumes "portable_text s"
  shows "portable_text (allocation_base s)"
proof -
  let ?b = "rstrip_char (CHR ''_'') s"
  obtain n where s: "s = ?b @ replicate n (CHR ''_'')" using rstrip_char_prefix [of s "CHR ''_''"] by blast
  have b: "?b \<noteq> []"
  proof
    assume "?b = []"
    with s have "s = replicate n (CHR ''_'')" by simp
    then show False using portable_text_parts(1,4) [OF assms] by (cases n) auto
  qed
  have "portable_text ?b" by (rule portable_text_left [OF _ b, of "replicate n (CHR ''_'')"]) (use s assms in simp)
  then show ?thesis using b by (simp add: allocation_base_def)
qed

lemma stem_underscore: "allocation_base (s @ ''_'') = allocation_base s"
  by (simp add: allocation_base_def rstrip_char_def)

lemma portable_text_join:
  assumes "portable_text p" and "portable_text s"
  shows "portable_text (p @ s)"
  by (rule portable_text_append [OF assms(1)]) (use portable_text_parts [OF assms(2)] in auto)

lemma identifier_text: "is_portable_identifier s \<Longrightarrow> portable_text s"
  by (simp add: is_portable_identifier_alt)

lemma small_texts:
  "portable_text ''has_''" "portable_text ''protocyte''" "portable_text ''Case''" "portable_text ''Storage''"
  "portable_text ''case_''" "portable_text ''_case_'' \<longleftrightarrow> False" "portable_text ''NestedConfig''" "portable_text ''ctx_''" "portable_text ''unknown_fields_''"
  unfolding portable_text_def no_double_def by code_simp+

lemma emitted_derivable_text: "portable_text s \<Longrightarrow> portable_text (cpp_emitted_derivable_identifier s)"
  using portable_text_join small_texts(2) by (simp add: cpp_emitted_derivable_identifier_def CPP_DERIVABLE_IDENTIFIER_SUFFIX_def)

lemma upper_first:
  assumes "ident_start c"
  shows "ident_start (upper_ascii c) \<and> (upper_ascii c = CHR ''_'' \<longrightarrow> c = CHR ''_'')"
proof (cases "is_lower_ascii c")
  case True
  then have "(of_char c :: nat) \<in> set [97 ..< 123]"
    unfolding set_upt atLeastLessThan_iff by (simp add: is_lower_ascii_def less_eq_char_def)
  moreover have "list_all (\<lambda>n. ident_start (char_of (n - 32)) \<and> char_of (n - 32) \<noteq> CHR ''_'') [97 ..< 123 :: nat]" by code_simp
  ultimately have "ident_start (char_of (of_char c - (32 :: nat))) \<and> char_of (of_char c - (32 :: nat)) \<noteq> CHR ''_''"
    unfolding list_all_iff by blast
  with True show ?thesis by (simp add: upper_ascii_def byte_of_def)
next
  case False
  then show ?thesis using assms by (simp add: upper_ascii_def)
qed

lemma pascal_text: "portable_text (cpp_pascal_identifier n)"
proof -
  obtain c r where i: "cpp_identifier n = c # r" "portable_text (c # r)"
    using identifier_text [OF cpp_identifier_portable [of n]] portable_text_parts(1)
    by (cases "cpp_identifier n") auto
  then have "ident_start c" "c \<noteq> CHR ''_''" by (auto simp: portable_text_def is_cpp_identifier_def startswith_def)
  with i show ?thesis
    using upper_first [of c] by (auto simp: cpp_pascal_identifier_def portable_text_def is_cpp_identifier_def
        startswith_def no_double_Cons)
qed

definition shape_key :: "EmittedNameMember \<Rightarrow> string option" where
  "shape_key m = map_option (\<lambda>(a, b). sort (a @ b)) (shape m)"

definition members_ok :: "EmittedNameMember list \<Rightarrow> bool" where
  "members_ok ms \<longleftrightarrow> list_all (\<lambda>m. case shape m of None \<Rightarrow> False | Some ab \<Rightarrow> shape_ok ab) ms
     \<and> sorted_wrt (\<lambda>m n. shape_key m \<noteq> shape_key n \<or> overloads (member_use [] m) (member_use [] n)) ms"

lemma implementation_members_ok: "members_ok (implementation_members @ [plain_member\<lparr>template := ''{name}_''\<rparr>])"
  unfolding members_ok_def shape_ok_def portable_text_def no_double_def by code_simp

lemma member_rel_sym:
  "shape_key m \<noteq> shape_key n \<or> overloads (member_use [] m) (member_use [] n) \<Longrightarrow>
   shape_key n \<noteq> shape_key m \<or> overloads (member_use [] n) (member_use [] m)"
  using overloads_sym by metis

lemma members_ok_subset:
  assumes all: "members_ok all" and ms: "distinct ms" "set ms \<subseteq> set all"
  shows "members_ok ms"
proof -
  let ?R = "\<lambda>m n. shape_key m \<noteq> shape_key n \<or> overloads (member_use [] m) (member_use [] n)"
  have pair: "?R m n" if "m \<in> set all" "n \<in> set all" "m \<noteq> n" for m n
  proof -
    from that obtain i j where "i < length all" "j < length all" "m = all ! i" "n = all ! j" "i \<noteq> j"
      by (metis in_set_conv_nth)
    moreover have "sorted_wrt ?R all" using all by (simp add: members_ok_def)
    ultimately show ?thesis using member_rel_sym unfolding sorted_wrt_iff_nth_less by (metis linorder_neqE_nat)
  qed
  have "sorted_wrt ?R ms" using ms
  proof (induction ms)
    case (Cons m ms)
    then show ?case using pair by (simp add: subset_iff) metis
  qed simp
  then show ?thesis using all ms(2) by (auto simp: members_ok_def list_all_iff)
qed

definition all_accessors :: "EmittedNameMember list" where
  "all_accessors = [accessor ''{name}'' ''fn/0/const'', accessor ''has_{name}'' ''fn/0/const'', accessor ''ensure_{name}'' ''fn/0'',
     accessor ''mutable_{name}'' ''fn/0'', accessor ''set_{name}'' ''fn/1'', accessor ''resize_{name}_for_overwrite'' ''fn/1'',
     accessor ''{name}_raw'' ''fn/0/const'', accessor ''set_{name}_raw'' ''fn/1'', accessor ''clear_{name}'' ''fn/0'',
     accessor ''{name}_size'' ''fn/0/const'', accessor ''{name}_max_size'' ''fn/0/const'', accessor ''resize_{name}'' ''fn/1'']"

lemma all_accessors_ok: "members_ok all_accessors"
  unfolding members_ok_def shape_ok_def portable_text_def no_double_def by code_simp

lemma accessor_eq: "accessor t s = accessor t' s' \<longleftrightarrow> t = t' \<and> s = s'"
  by (auto simp: accessor_def plain_member_def)

lemma field_members_ok: "members_ok (map snd (field_public_name_members f))"
  by (rule members_ok_subset [OF all_accessors_ok])
    (auto simp: field_public_name_members_def all_accessors_def Let_def accessor_eq)

lemma enum_members_ok: "members_ok (member_of_kind TYPE_ALIAS # map snd (enum_helper_name_members e))"
proof -
  let ?with = "[suffix_member ''MIN'' CONSTANT None, suffix_member ''MAX'' CONSTANT None, suffix_member ''ARRAYSIZE'' CONSTANT None,
     suffix_member ''is_valid'' PUBLIC_FUNCTION (Some ''fn/1''), suffix_member ''name'' PUBLIC_FUNCTION (Some ''fn/1''),
     suffix_member ''parse'' PUBLIC_FUNCTION (Some ''fn/2''), suffix_member ''descriptor'' PUBLIC_FUNCTION (Some ''fn/0'')]"
  have all: "members_ok (member_of_kind TYPE_ALIAS # ?with)"
    unfolding members_ok_def shape_ok_def portable_text_def no_double_def by code_simp
  show ?thesis
    by (rule members_ok_subset [OF all])
      (auto simp: enum_helper_name_members_def suffix_member_def member_of_kind_def plain_member_def)
qed

lemma single_member_ok: "members_ok [member_of_kind k]" "members_ok [plain_member\<lparr>msignature := s\<rparr>]"
  by (simp_all add: members_ok_def member_of_kind_def plain_member_def shape_def startswith_def shape_ok_def no_double_def)

lemma oneof_members_ok:
  "members_ok [plain_member\<lparr>template := ''{name}_case'', mkind := PUBLIC_FUNCTION, msignature := Some ''fn/0/const''\<rparr>,
     plain_member\<lparr>template := ''clear_{name}'', mkind := PUBLIC_FUNCTION, msignature := Some ''fn/0''\<rparr>]"
  unfolding members_ok_def shape_ok_def portable_text_def no_double_def by code_simp

lemma sort_mset: "mset xs = mset ys \<Longrightarrow> sort xs = sort ys" for xs ys :: string
  using properties_for_sort [of "sort ys" xs] by simp

lemma request_okI:
  assumes "portable_text (allocation_base (preferred r))" and "members_ok (members r)"
  shows "request_ok r"
proof -
  have "sorted_wrt separable (members r)"
  proof (rule sorted_wrt_mono_rel)
    show "sorted_wrt (\<lambda>m n. shape_key m \<noteq> shape_key n \<or> overloads (member_use [] m) (member_use [] n)) (members r)"
      using assms(2) by (simp add: members_ok_def)
    fix m n assume mn: "m \<in> set (members r)" "n \<in> set (members r)"
      and "shape_key m \<noteq> shape_key n \<or> overloads (member_use [] m) (member_use [] n)"
    moreover have "shape m \<noteq> None" "shape n \<noteq> None"
      using assms(2) mn by (auto simp: members_ok_def list_all_iff split: option.splits)
    ultimately show "separable m n"
      using sort_mset by (auto simp: separable_def shape_key_def)
  qed
  with assms show ?thesis by (simp add: request_ok_def members_ok_def)
qed

lemma name_request_simps [simp]:
  "rowner (name_request ow p ms) = ow" "preferred (name_request ow p ms) = p" "members (name_request ow p ms) = ms"
  by (simp_all add: name_request_def)

lemma plain_request_ok: "portable_text (allocation_base p) \<Longrightarrow> request_ok (name_request ow p [member_of_kind k])"
  by (rule request_okI) (simp_all add: single_member_ok)

lemma plain_fits: "fits (name_request ow p [member_of_kind k]) s \<longleftrightarrow> is_portable_identifier s"
  by (simp add: fits_def member_of_kind_def plain_member_def render_def startswith_def)

text \<open>What building leaves: portable spellings, distinct names, and members of oneofs that are fields.\<close>

definition named_ok :: "message_tree \<Rightarrow> bool" where
  "named_ok t \<longleftrightarrow>
     distinct (map enum_full_name (nested_enums t)) \<and> distinct (map field_name (message_fields (tree_message t))) \<and>
     (\<forall>c\<in>set (message_constants (tree_message t)). is_portable_identifier (const_cpp_name c)) \<and>
     (\<forall>f\<in>set (message_fields (tree_message t)). is_portable_identifier (field_cpp_name f)
        \<and> (\<forall>k. map_key f = Some k \<or> map_value f = Some k \<longrightarrow> is_portable_identifier (field_cpp_name k))
        \<and> (oneof_name f \<noteq> None \<longrightarrow>
            (\<exists>g\<in>set (message_oneofs (tree_message t)). field_name f \<in> field_name ` set (oneof_fields g)))) \<and>
     (\<forall>g\<in>set (message_oneofs (tree_message t)). oneof_cpp_name g = cpp_pascal_identifier (oneof_model_name g)
        \<and> field_name ` set (oneof_fields g) \<subseteq> field_name ` set (message_fields (tree_message t)))"

lemma named_okD:
  assumes "named_ok t"
  shows "distinct (map enum_full_name (nested_enums t))" and "distinct (map field_name (message_fields (tree_message t)))"
    and "c \<in> set (message_constants (tree_message t)) \<Longrightarrow> is_portable_identifier (const_cpp_name c)"
    and "f \<in> set (message_fields (tree_message t)) \<Longrightarrow> is_portable_identifier (field_cpp_name f)"
    and "f \<in> set (message_fields (tree_message t)) \<Longrightarrow> map_key f = Some k \<Longrightarrow> is_portable_identifier (field_cpp_name k)"
    and "f \<in> set (message_fields (tree_message t)) \<Longrightarrow> map_value f = Some k \<Longrightarrow> is_portable_identifier (field_cpp_name k)"
    and "f \<in> set (message_fields (tree_message t)) \<Longrightarrow> oneof_name f \<noteq> None \<Longrightarrow>
      \<exists>g\<in>set (message_oneofs (tree_message t)). field_name f \<in> field_name ` set (oneof_fields g)"
    and "g \<in> set (message_oneofs (tree_message t)) \<Longrightarrow> oneof_cpp_name g = cpp_pascal_identifier (oneof_model_name g)"
    and "g \<in> set (message_oneofs (tree_message t)) \<Longrightarrow> f \<in> set (oneof_fields g) \<Longrightarrow>
      field_name f \<in> field_name ` set (message_fields (tree_message t))"
  using assms unfolding named_ok_def by blast+

lemma class_requests_ok:
  assumes "named_ok t" and "r \<in> set (class_requests t)"
  shows "request_ok r"
proof (rule request_okI)
  note ok = named_okD [OF assms(1)]
  from assms(2) have "is_portable_identifier (preferred r)"
    using ok(3,4) cpp_identifier_portable
    by (auto simp: class_requests_def Let_def enum_request_def nested_request_def constant_request_def field_request_def)
  then show "portable_text (allocation_base (preferred r))" by (rule stem_of_text [OF identifier_text])
  from assms(2) show "members_ok (members r)"
    using enum_members_ok field_members_ok single_member_ok(1)
    by (auto simp: class_requests_def Let_def enum_request_def nested_request_def constant_request_def field_request_def)
qed

section \<open>Members of the class\<close>

lemma owner_simps [simp]:
  "rowner (enum_request e) = enum_owner e" "rowner (nested_request n) = nested_owner n"
  "rowner (constant_request c) = constant_owner c" "rowner (field_request m f) = field_owner m f"
  by (simp_all add: enum_request_def nested_request_def constant_request_def field_request_def)

lemma owners_apart [simp]:
  "enum_owner e \<noteq> nested_owner n" "enum_owner e \<noteq> constant_owner c" "enum_owner e \<noteq> field_owner m f"
  "nested_owner n \<noteq> enum_owner e" "nested_owner n \<noteq> constant_owner c" "nested_owner n \<noteq> field_owner m f"
  "constant_owner c \<noteq> enum_owner e" "constant_owner c \<noteq> nested_owner n" "constant_owner c \<noteq> field_owner m f"
  "field_owner m f \<noteq> enum_owner e" "field_owner m f \<noteq> nested_owner n" "field_owner m f \<noteq> constant_owner c"
  by (simp_all add: enum_owner_def nested_owner_def constant_owner_def field_owner_def)

lemma class_request_cases:
  assumes "r \<in> set (class_requests t)"
  obtains (an_enum) e where "e \<in> set (nested_enums t)" "r = enum_request e"
  | (a_message) n where "r = nested_request n"
  | (a_constant) c where "r = constant_request c"
  | (a_field) f where "f \<in> set (message_fields (tree_message t))" "r = field_request (tree_message t) f"
  using assms by (auto simp: class_requests_def Let_def)

lemma answersD:
  assumes "answers rs al" and "r \<in> set rs"
  obtains s r' where "al (rowner r) = Some s" and "r' \<in> set rs" and "rowner r' = rowner r" and "fits r' s"
  using assms unfolding answers_def by blast

lemma enum_answer:
  assumes "named_ok t" and "answers (class_requests t) al" and "e \<in> set (nested_enums t)"
  shows "\<exists>s. al (enum_owner e) = Some s \<and> fits (enum_request e) s"
proof -
  have "enum_request e \<in> set (class_requests t)" using assms(3) by (simp add: class_requests_def Let_def)
  from answersD [OF assms(2) this] obtain s r' where s: "al (enum_owner e) = Some s"
    and r': "r' \<in> set (class_requests t)" "rowner r' = enum_owner e" "fits r' s" by auto
  from r'(1) show ?thesis
  proof (cases rule: class_request_cases)
    case (an_enum e')
    then have "e' = e" using r'(2) named_okD(1) [OF assms(1)] assms(3)
      by (simp add: enum_owner_def distinct_map inj_on_def)
    then show ?thesis using s r'(3) an_enum(2) by blast
  qed (use r'(2) in auto)
qed

lemma field_answer:
  assumes "named_ok t" and "answers (class_requests t) al" and "f \<in> set (message_fields (tree_message t))"
  shows "\<exists>s. al (field_owner (tree_message t) f) = Some s \<and> fits (field_request (tree_message t) f) s"
proof -
  have "field_request (tree_message t) f \<in> set (class_requests t)" using assms(3) by (simp add: class_requests_def Let_def)
  from answersD [OF assms(2) this] obtain s r' where s: "al (field_owner (tree_message t) f) = Some s"
    and r': "r' \<in> set (class_requests t)" "rowner r' = field_owner (tree_message t) f" "fits r' s" by auto
  from r'(1) show ?thesis
  proof (cases rule: class_request_cases)
    case (a_field f')
    then have "f' = f" using r'(2) named_okD(2) [OF assms(1)] assms(3)
      by (simp add: field_owner_def full_field_def distinct_map inj_on_def)
    then show ?thesis using s r'(3) a_field(2) by blast
  qed (use r'(2) in auto)
qed

lemma plain_answer:
  assumes "answers (class_requests t) al"
  shows "n \<in> set (class_messages (nested_messages t)) \<Longrightarrow> \<exists>s. al (nested_owner n) = Some s \<and> is_portable_identifier s"
    and "c \<in> set (message_constants (tree_message t)) \<Longrightarrow> \<exists>s. al (constant_owner c) = Some s \<and> is_portable_identifier s"
proof -
  assume "n \<in> set (class_messages (nested_messages t))"
  then have "nested_request n \<in> set (class_requests t)" by (simp add: class_requests_def Let_def)
  from answersD [OF assms this] obtain s r' where s: "al (nested_owner n) = Some s"
    and r': "r' \<in> set (class_requests t)" "rowner r' = nested_owner n" "fits r' s" by auto
  from r'(1) show "\<exists>s. al (nested_owner n) = Some s \<and> is_portable_identifier s"
    by (cases rule: class_request_cases) (use r'(2,3) s in \<open>auto simp: nested_request_def fits_def member_of_kind_def plain_member_def render_def startswith_def\<close>)
next
  assume "c \<in> set (message_constants (tree_message t))"
  then have "constant_request c \<in> set (class_requests t)" by (simp add: class_requests_def Let_def)
  from answersD [OF assms this] obtain s r' where s: "al (constant_owner c) = Some s"
    and r': "r' \<in> set (class_requests t)" "rowner r' = constant_owner c" "fits r' s" by auto
  from r'(1) show "\<exists>s. al (constant_owner c) = Some s \<and> is_portable_identifier s"
    by (cases rule: class_request_cases) (use r'(2,3) s in \<open>auto simp: constant_request_def fits_def member_of_kind_def plain_member_def render_def startswith_def\<close>)
qed

end
