(* ===== verification/ClassNames.thy ===== *)
theory ClassNames
  imports MessageNamesSpec
begin

text \<open>
  The steps that name the members of a class, each shown to end, to assign all the keys its part of
  the final check asks for, and to assign portable identifiers only.
\<close>

section \<open>Members of the class\<close>

lemma render_members_gives:
  assumes "\<And>m. m \<in> snd ` set ms \<Longrightarrow> \<exists>n. render m s = Inr n \<and> is_portable_identifier n"
  shows "gives (\<lambda>kvs. fst ` set kvs = fst ` set ms \<and> (\<forall>v\<in>snd ` set kvs. is_portable_identifier v)) (render_members s ms)"
  using assms unfolding render_members_def
proof (induction ms)
  case (Cons km ms)
  obtain n where n: "render (snd km) s = Inr n" "is_portable_identifier n" using Cons.prems [of "snd km"] by auto
  have head: "gives (\<lambda>p. p = (fst km, n)) (case km of (k, m) \<Rightarrow> rbind (lift_error ScopeFailure (render m s)) (\<lambda>n. Inr (k, n)))"
    using n(1) by (simp add: case_prod_beta)
  have "gives (\<lambda>kvs. fst ` set kvs = fst ` set ms \<and> (\<forall>v\<in>snd ` set kvs. is_portable_identifier v))
      (rmap (\<lambda>(k, m). rbind (lift_error ScopeFailure (render m s)) (\<lambda>n. Inr (k, n))) ms)"
    using Cons by simp
  with head n(2) show ?case unfolding gives_def by auto
qed simp

lemma fits_member: "fits r s \<Longrightarrow> m \<in> set (members r) \<Longrightarrow> \<exists>n. render m s = Inr n \<and> is_portable_identifier n"
  by (simp add: fits_def)

lemma render_plain: "render (member_of_kind k) s = Inr s" "render (accessor ''{name}'' sig) s = Inr s"
  by (simp_all add: member_of_kind_def accessor_def plain_member_def render_def startswith_def)

definition enum_keys :: "EnumModel \<Rightarrow> (named \<times> string) set" where
  "enum_keys e = Pair (NamedEnum (enum_full_name e)) ` insert ''alias'' (fst ` set (enum_helper_name_members e))"

definition field_keys :: "FieldModel \<Rightarrow> (named \<times> string) set" where
  "field_keys f = Pair (NamedField (field_name f)) ` insert ''number'' (fst ` set (field_public_name_members f))"

definition class_keys :: "message_tree \<Rightarrow> (named \<times> string) set" where
  "class_keys t = (\<Union>e\<in>set (nested_enums t). enum_keys e)
     \<union> (\<Union>n\<in>set (class_messages (nested_messages t)). {(NamedNested (message_full_name n), ''alias'')})
     \<union> (\<Union>f\<in>set (message_fields (tree_message t)). field_keys f)"

lemma name_enum_gives:
  assumes "valid_names d" and "al (enum_owner e) = Some s" and fit: "fits (enum_request e) s"
  shows "gives (adds (enum_keys e) d) (name_enum al e d)"
proof -
  have s: "is_portable_identifier s"
    using fits_member [OF fit, of "member_of_kind TYPE_ALIAS"] by (simp add: enum_request_def render_plain)
  have helpers: "gives (\<lambda>kvs. fst ` set kvs = fst ` set (enum_helper_name_members e) \<and> (\<forall>v\<in>snd ` set kvs. is_portable_identifier v))
      (render_members s (enum_helper_name_members e))"
    by (rule render_members_gives, rule fits_member [OF fit]) (auto simp: enum_request_def)
  show ?thesis unfolding name_enum_def allocated_name_def assms(2) option.case rbind.simps
  proof (rule gives_rbind [OF helpers])
    fix kvs assume k: "fst ` set kvs = fst ` set (enum_helper_name_members e) \<and> (\<forall>v\<in>snd ` set kvs. is_portable_identifier v)"
    have "adds (Pair (NamedEnum (enum_full_name e)) ` fst ` set ((''alias'', s) # kvs)) d
        (emit (NamedEnum (enum_full_name e)) ((''alias'', s) # kvs) d)"
      by (rule adds_emit [OF assms(1)]) (use s k in auto)
    then show "gives (adds (enum_keys e) d) (Inr (emit (NamedEnum (enum_full_name e)) ((''alias'', s) # kvs) d))"
      using k by (simp add: enum_keys_def)
  qed
qed

lemma name_field_gives:
  assumes "valid_names d" and "al (field_owner m f) = Some s" and fit: "fits (field_request m f) s"
  shows "gives (adds (field_keys f) d) (name_field al m f d)"
proof -
  have "accessor ''{name}'' ''fn/0/const'' \<in> set (members (field_request m f))"
    by (simp add: field_request_def field_public_name_members_def Let_def)
  from fits_member [OF fit this] have s: "is_portable_identifier s" by (simp add: render_plain)
  have accessors: "gives (\<lambda>kvs. fst ` set kvs = fst ` set (field_public_name_members f) \<and> (\<forall>v\<in>snd ` set kvs. is_portable_identifier v))
      (render_members s (field_public_name_members f))"
    by (rule render_members_gives, rule fits_member [OF fit]) (auto simp: field_request_def)
  show ?thesis unfolding name_field_def allocated_name_def assms(2) option.case rbind.simps
  proof (rule gives_rbind [OF accessors])
    fix kvs assume k: "fst ` set kvs = fst ` set (field_public_name_members f) \<and> (\<forall>v\<in>snd ` set kvs. is_portable_identifier v)"
    have "adds (Pair (NamedField (field_name f)) ` fst ` set (kvs @ [(''number'', s)])) d
        (emit (NamedField (field_name f)) (kvs @ [(''number'', s)]) d)"
      by (rule adds_emit [OF assms(1)]) (use s k in auto)
    then show "gives (adds (field_keys f) d) (Inr (emit (NamedField (field_name f)) (kvs @ [(''number'', s)]) d))"
      using k by (simp add: field_keys_def image_Un insert_commute)
  qed
qed

lemma emit_one: "valid_names d \<Longrightarrow> is_portable_identifier v \<Longrightarrow> adds {(x, k)} d (emit x [(k, v)] d)"
  using adds_emit [of d "[(k, v)]" x] by simp

lemma assign_class_gives:
  assumes ok: "named_ok t" and al: "answers (class_requests t) al" and d: "valid_names d"
  shows "gives (adds (class_keys t) d) (assign_class_names al t d)"
  unfolding assign_class_names_def Let_def
proof (rule gives_rbind)
  show "gives (adds (\<Union>e\<in>set (nested_enums t). enum_keys e) d) (rfold (name_enum al) (nested_enums t) d)"
    by (rule rfold_adds [OF d, of "{}"]) (use enum_answer [OF ok al] name_enum_gives in blast)+
  fix d1 assume d1: "adds (\<Union>e\<in>set (nested_enums t). enum_keys e) d d1"
  let ?ns = "class_messages (nested_messages t)" and ?fs = "message_fields (tree_message t)"
  have v1: "valid_names d1" using d1 by (simp add: adds_def)
  show "gives (adds (class_keys t) d) (rbind (rfold (name_nested al) ?ns d1) (\<lambda>d.
      rbind (rfold (name_constant al) (message_constants (tree_message t)) d) (rfold (name_field al (tree_message t)) ?fs)))"
  proof (rule gives_rbind)
    show "gives (adds (\<Union>n\<in>set ?ns. {(NamedNested (message_full_name n), ''alias'')}) d1) (rfold (name_nested al) ?ns d1)"
    proof (rule rfold_adds [OF v1, of "{}"])
      fix n d assume "n \<in> set ?ns" "valid_names d"
      then show "gives (adds {(NamedNested (message_full_name n), ''alias'')} d) (name_nested al n d)"
        using plain_answer(1) [OF al] emit_one by (fastforce simp: name_nested_def allocated_name_def)
    qed simp
    fix d2 assume d2: "adds (\<Union>n\<in>set ?ns. {(NamedNested (message_full_name n), ''alias'')}) d1 d2"
    then have v2: "valid_names d2" by (simp add: adds_def)
    show "gives (adds (class_keys t) d) (rbind (rfold (name_constant al) (message_constants (tree_message t)) d2)
        (rfold (name_field al (tree_message t)) ?fs))"
    proof (rule gives_rbind)
      show "gives (adds (\<Union>c\<in>set (message_constants (tree_message t)). {(NamedConstant (const_full_name c), ''declaration'')}) d2)
        (rfold (name_constant al) (message_constants (tree_message t)) d2)"
      proof (rule rfold_adds [OF v2, of "{}"])
        fix c d assume "c \<in> set (message_constants (tree_message t))" "valid_names d"
        then show "gives (adds {(NamedConstant (const_full_name c), ''declaration'')} d) (name_constant al c d)"
          using plain_answer(2) [OF al] emit_one by (fastforce simp: name_constant_def allocated_name_def)
      qed simp
      fix d3 assume d3: "adds (\<Union>c\<in>set (message_constants (tree_message t)). {(NamedConstant (const_full_name c), ''declaration'')}) d2 d3"
      then have v3: "valid_names d3" by (simp add: adds_def)
      have "gives (adds (\<Union>f\<in>set ?fs. field_keys f) d3) (rfold (name_field al (tree_message t)) ?fs d3)"
        by (rule rfold_adds [OF v3, of "{}"]) (use field_answer [OF ok al] name_field_gives in blast)+
      then show "gives (adds (class_keys t) d) (rfold (name_field al (tree_message t)) ?fs d3)"
      proof (rule gives_mono)
        fix d4 assume d4: "adds (\<Union>f\<in>set ?fs. field_keys f) d3 d4"
        show "adds (class_keys t) d d4"
          by (rule adds_weaken [OF adds_trans [OF adds_trans [OF adds_trans [OF d1 d2] d3] d4]])
            (auto simp: class_keys_def)
      qed
    qed
  qed
qed

section \<open>Plain names\<close>

definition plain_request :: "EmittedNameRequest \<Rightarrow> bool" where
  "plain_request r \<longleftrightarrow> (\<exists>m. members r = [m] \<and> (\<forall>s. render m s = Inr s))"

lemma plain_requests [simp]:
  "plain_request (name_request ow p [member_of_kind k])" "plain_request (name_request ow p [plain_member\<lparr>msignature := s\<rparr>])"
  by (simp_all add: plain_request_def member_of_kind_def plain_member_def render_def startswith_def)

lemma plain_request_fits: "plain_request r \<Longrightarrow> fits r s \<Longrightarrow> is_portable_identifier s"
  by (auto simp: plain_request_def fits_def)

lemma plain_answer_gives:
  assumes "answers rs al" and "ow \<in> rowner ` set rs" and "\<And>r. r \<in> set rs \<Longrightarrow> rowner r = ow \<Longrightarrow> plain_request r"
  shows "gives is_portable_identifier (allocated_name al ow)"
proof -
  from assms(2) obtain r where "r \<in> set rs" "rowner r = ow" by blast
  with answersD [OF assms(1), of r] obtain s r' where "al ow = Some s" "r' \<in> set rs" "rowner r' = ow" "fits r' s" by metis
  then have "is_portable_identifier s" using plain_request_fits assms(3) by blast
  with \<open>al ow = Some s\<close> show ?thesis by (simp add: allocated_name_def)
qed

lemma plain_answers_gives:
  assumes "answers rs al" and "ow \<in> rowner ` set rs" and "\<And>r. r \<in> set rs \<Longrightarrow> plain_request r"
  shows "gives is_portable_identifier (allocated_name al ow)"
  using plain_answer_gives [OF assms(1,2)] assms(3) by blast

lemma reserve_one_gives:
  "is_portable_identifier n \<Longrightarrow> gives scope_ok (reserve_names [(n, u)] (new_scope l))"
  using add_use_ok [OF new_scope_ok, of l n u]
  by (simp add: reserve_names_def reserve_def can_add_iff new_scope_def gives_def)

lemma alias_parameter_returns:
  assumes "is_portable_identifier alias" and "portable_text (allocation_base pref)"
  shows "returns is_portable_identifier (allocate_alias_template_parameter lab alias pref)"
  unfolding allocate_alias_template_parameter_def Let_def
proof (rule returns_nbind)
  show "returns scope_ok (Some (reserve_names [(alias, \<lparr>uowner = lab @ '':alias'', ukind = TYPE_ALIAS, usignature = None\<rparr>)] (new_scope lab)))"
    using reserve_one_gives [OF assms(1)] by simp
  fix sc assume sc: "scope_ok sc"
  let ?rs = "[name_request (lab @ '':parameter'') pref [member_of_kind IMPLEMENTATION]]"
  show "returns is_portable_identifier (nbind (allocate_names sc ?rs) (\<lambda>(_, al). Some (allocated_name al (lab @ '':parameter''))))"
  proof (rule returns_nbind)
    show "returns (\<lambda>(sc', al). scope_ok sc' \<and> answers ?rs al) (allocate_names sc ?rs)"
      by (rule allocate_returns [OF sc]) (simp add: plain_request_ok assms(2))
    show "returns is_portable_identifier (case p of (_, al) \<Rightarrow> Some (allocated_name al (lab @ '':parameter'')))"
      if "case p of (sc', al) \<Rightarrow> scope_ok sc' \<and> answers ?rs al" for p
      using that plain_answers_gives [of ?rs "snd p"] by (auto split: prod.splits)
  qed
qed

definition alias_keys :: "message_tree \<Rightarrow> (named \<times> string) set" where
  "alias_keys t = (\<Union>n\<in>set (class_messages (nested_messages t)). {(NamedNested (message_full_name n), ''alias_config'')})"

lemma alias_names_returns:
  assumes d: "valid_names d" and base: "class_keys t \<subseteq> assigned d"
  shows "returns (adds (alias_keys t) d) (allocate_nested_alias_template_names t d)"
  unfolding allocate_nested_alias_template_names_def alias_keys_def
proof (rule nfold_adds [OF d base])
  fix n d' assume n: "n \<in> set (class_messages (nested_messages t))" and d': "valid_names d'" "class_keys t \<subseteq> assigned d'"
  let ?x = "NamedNested (message_full_name n)"
  have "(?x, ''alias'') \<in> assigned d'" using n d'(2) by (auto simp: class_keys_def)
  from emitted_name_gives [OF d'(1) this]
  have aliased: "returns is_portable_identifier (Some (emitted_name d' ?x ''alias''))" by simp
  show "returns (adds {(?x, ''alias_config'')} d') (nbind (Some (emitted_name d' ?x ''alias'')) (\<lambda>alias.
       nbind (allocate_alias_template_parameter (''nested-alias-template:'' @ message_full_name n) alias ''NestedConfig'')
         (\<lambda>config. Some (Inr (emit ?x [(''alias_config'', config)] d')))))"
    by (rule returns_nbind [OF aliased], rule returns_nbind, rule alias_parameter_returns, assumption)
      (simp_all add: stem_of_text [OF small_texts(7)] emit_one [OF d'(1)])
qed

section \<open>Names for the fields of a oneof\<close>

lemma field_stems_give:
  assumes "valid_names d" and "\<And>f. f \<in> set fs \<Longrightarrow> (NamedField (field_name f), ''number'') \<in> assigned d"
  shows "gives (list_all2 (\<lambda>f r. \<exists>stem. is_portable_identifier stem \<and> r = request f stem) fs)
    (rmap (\<lambda>f. rbind (field_stem d f) (\<lambda>stem. Inr (request f stem))) fs)"
proof (rule gives_rmap)
  fix f assume "f \<in> set fs"
  then have "gives is_portable_identifier (field_stem d f)"
    unfolding field_stem_def using assms by (intro emitted_name_gives)
  then show "gives (\<lambda>r. \<exists>stem. is_portable_identifier stem \<and> r = request f stem) (rbind (field_stem d f) (\<lambda>stem. Inr (request f stem)))"
    by (rule gives_rbind) auto
qed

lemma all2_owners:
  "list_all2 (\<lambda>f r. \<exists>stem. P stem \<and> r = request f stem) fs rs \<Longrightarrow> (\<And>f stem. rowner (request f stem) = ow f) \<Longrightarrow>
   rowner ` set rs = ow ` set fs"
  by (induction rule: list_all2_induct) auto

lemma all2_requests:
  "list_all2 (\<lambda>f r. \<exists>stem. P stem \<and> r = request f stem) fs rs \<Longrightarrow> r \<in> set rs \<Longrightarrow>
   \<exists>f\<in>set fs. \<exists>stem. P stem \<and> r = request f stem"
  by (induction rule: list_all2_induct) auto

lemma field_allocation_returns:
  assumes sc: "scope_ok sc" and d: "valid_names d"
    and nums: "\<And>f. f \<in> set fs \<Longrightarrow> (NamedField (field_name f), ''number'') \<in> assigned d"
    and ow: "\<And>f stem. rowner (request f stem) = ow f" and plain: "\<And>f stem. plain_request (request f stem)"
    and ok: "\<And>f stem. is_portable_identifier stem \<Longrightarrow> request_ok (request f stem)"
  shows "returns (adds (\<Union>f\<in>set fs. {(NamedField (field_name f), key)}) d) (allocate_for_fields sc request ow key fs d)"
  unfolding allocate_for_fields_def
proof (rule returns_nbind)
  let ?all2 = "list_all2 (\<lambda>f r. \<exists>stem. is_portable_identifier stem \<and> r = request f stem) fs"
  show "returns ?all2 (Some (rmap (\<lambda>f. rbind (field_stem d f) (\<lambda>stem. Inr (request f stem))) fs))"
    using field_stems_give [OF d nums] by simp
  fix rs assume rs: "?all2 rs"
  show "returns (adds (\<Union>f\<in>set fs. {(NamedField (field_name f), key)}) d) (nbind (allocate_names sc rs) (\<lambda>(_, al).
       Some (rfold (\<lambda>f d. rbind (allocated_name al (ow f)) (\<lambda>n. Inr (emit (NamedField (field_name f)) [(key, n)] d))) fs d)))"
  proof (rule returns_nbind)
    show "returns (\<lambda>(sc', al). scope_ok sc' \<and> answers rs al) (allocate_names sc rs)"
      by (rule allocate_returns [OF sc]) (use all2_requests [OF rs] ok in blast)
    fix p assume "case p of (sc', al) \<Rightarrow> scope_ok sc' \<and> answers rs al"
    then obtain sc' al where p: "p = (sc', al)" and al: "answers rs al" by auto
    have name: "gives is_portable_identifier (allocated_name al (ow f))" if "f \<in> set fs" for f
      by (rule plain_answers_gives [OF al]) (use all2_owners [OF rs ow] all2_requests [OF rs] plain that in blast)+
    have "gives (adds (\<Union>f\<in>set fs. {(NamedField (field_name f), key)}) d)
        (rfold (\<lambda>f d. rbind (allocated_name al (ow f)) (\<lambda>n. Inr (emit (NamedField (field_name f)) [(key, n)] d))) fs d)"
      by (rule rfold_adds [OF d, of "{}"], simp, rule gives_rbind, erule name) (simp add: emit_one)
    then show "returns (adds (\<Union>f\<in>set fs. {(NamedField (field_name f), key)}) d) (case p of (_, al) \<Rightarrow>
       Some (rfold (\<lambda>f d. rbind (allocated_name al (ow f)) (\<lambda>n. Inr (emit (NamedField (field_name f)) [(key, n)] d))) fs d))"
      by (simp add: p)
  qed
qed

section \<open>Oneofs\<close>

definition oneof_keys :: "MessageModel \<Rightarrow> (named \<times> string) set" where
  "oneof_keys m = (\<Union>g\<in>set (message_oneofs m).
     Pair (NamedOneof (oneof_model_name g)) ` {''case_type'', ''case_accessor'', ''clear''}
     \<union> (\<Union>f\<in>set (oneof_fields g). {(NamedField (field_name f), ''oneof_case'')}))"

lemma derivable_text: "portable_text (cpp_derivable_identifier n)"
  using emitted_derivable_text identifier_text [OF cpp_identifier_portable] by (simp add: cpp_derivable_identifier_def)

lemma oneof_requests_ok:
  assumes "oneof_cpp_name g = cpp_pascal_identifier (oneof_model_name g)" and "r \<in> set (oneof_requests m g)"
  shows "request_ok r"
proof (rule request_okI)
  have "portable_text (preferred r)"
    using assms portable_text_join [OF pascal_text small_texts(3)] derivable_text by (auto simp: oneof_requests_def)
  then show "portable_text (allocation_base (preferred r))" by (rule stem_of_text)
  show "members_ok (members r)" using assms(2) single_member_ok oneof_members_ok by (auto simp: oneof_requests_def)
qed

lemma name_oneof_gives:
  assumes al: "answers (concat (map (oneof_requests m) gs)) al" and g: "g \<in> set gs" and d: "valid_names d"
  shows "gives (adds (Pair (NamedOneof (oneof_model_name g)) ` {''case_type'', ''case_accessor'', ''clear''}) d) (name_oneof al m g d)"
proof -
  let ?rs = "concat (map (oneof_requests m) gs)"
  have apart: "case_owner m g \<noteq> api_owner m g'" "api_owner m g' \<noteq> case_owner m g" for g g'
    by (simp_all add: case_owner_def api_owner_def)
  have "rowner ` set ?rs = (\<Union>g\<in>set gs. {case_owner m g, api_owner m g})" by (auto simp: oneof_requests_def image_UN)
  then have "case_owner m g \<in> rowner ` set ?rs" using g by blast
  then have c: "gives is_portable_identifier (allocated_name al (case_owner m g))"
    by (rule plain_answer_gives [OF al]) (auto simp: oneof_requests_def apart)
  have "name_request (api_owner m g) (cpp_derivable_identifier (oneof_model_name g))
        [plain_member\<lparr>template := ''{name}_case'', mkind := PUBLIC_FUNCTION, msignature := Some ''fn/0/const''\<rparr>,
         plain_member\<lparr>template := ''clear_{name}'', mkind := PUBLIC_FUNCTION, msignature := Some ''fn/0''\<rparr>] \<in> set ?rs"
    using g by (auto simp: oneof_requests_def)
  from answersD [OF al this] obtain s r' where s: "al (api_owner m g) = Some s"
    and r': "r' \<in> set ?rs" "rowner r' = api_owner m g" "fits r' s" by auto
  from r'(1,2) apart [of _ g] have "members r' =
        [plain_member\<lparr>template := ''{name}_case'', mkind := PUBLIC_FUNCTION, msignature := Some ''fn/0/const''\<rparr>,
         plain_member\<lparr>template := ''clear_{name}'', mkind := PUBLIC_FUNCTION, msignature := Some ''fn/0''\<rparr>]"
    by (auto simp: oneof_requests_def)
  with r'(3) have p: "is_portable_identifier (s @ ''_case'')" "is_portable_identifier (''clear_'' @ s)"
    by (simp_all add: fits_def plain_member_def render_def startswith_def)
  show ?thesis unfolding name_oneof_def
  proof (rule gives_rbind [OF c])
    fix ct assume "is_portable_identifier ct"
    then have "adds (Pair (NamedOneof (oneof_model_name g)) ` fst ` set [(''case_type'', ct), (''case_accessor'', s @ ''_case''), (''clear'', ''clear_'' @ s)]) d
        (emit (NamedOneof (oneof_model_name g)) [(''case_type'', ct), (''case_accessor'', s @ ''_case''), (''clear'', ''clear_'' @ s)] d)"
      by (intro adds_emit [OF d]) (use p in auto)
    then show "gives (adds (Pair (NamedOneof (oneof_model_name g)) ` {''case_type'', ''case_accessor'', ''clear''}) d)
       (rbind (allocated_name al (api_owner m g)) (\<lambda>stem. Inr (emit (NamedOneof (oneof_model_name g))
         [(''case_type'', ct), (''case_accessor'', stem @ ''_case''), (''clear'', ''clear_'' @ stem)] d)))"
      by (simp add: allocated_name_def s)
  qed
qed

lemma none_portable: "is_portable_identifier ''none''"
  by code_simp

lemma oneof_cases_return:
  assumes "valid_names d" and "\<And>f. f \<in> set (oneof_fields g) \<Longrightarrow> (NamedField (field_name f), ''number'') \<in> assigned d"
  shows "returns (adds (\<Union>f\<in>set (oneof_fields g). {(NamedField (field_name f), ''oneof_case'')}) d) (allocate_oneof_cases m g d)"
  unfolding allocate_oneof_cases_def
proof (rule returns_nbind)
  show "returns scope_ok (Some (reserve_names [(''none'', \<lparr>uowner = full_oneof m g @ '':none'', ukind = ONEOF_CASE_VALUE, usignature = None\<rparr>)]
       (new_scope (''oneof-case:'' @ full_oneof m g))))"
    using reserve_one_gives [OF none_portable] by simp
qed (rule field_allocation_returns; simp add: assms plain_request_ok stem_of_text identifier_text)

definition number_keys :: "MessageModel \<Rightarrow> (named \<times> string) set" where
  "number_keys m = (\<lambda>f. (NamedField (field_name f), ''number'')) ` set (message_fields m)"

lemma oneof_number:
  assumes "named_ok t" and "g \<in> set (message_oneofs (tree_message t))" and "f \<in> set (oneof_fields g)"
  shows "(NamedField (field_name f), ''number'') \<in> number_keys (tree_message t)"
  using named_okD(9) [OF assms] by (auto simp: number_keys_def)

lemma oneof_names_return:
  assumes ok: "named_ok t" and sc: "scope_ok sc" and d: "valid_names d" and base: "number_keys (tree_message t) \<subseteq> assigned d"
  shows "returns (\<lambda>(sc', d'). scope_ok sc' \<and> adds (oneof_keys (tree_message t)) d d') (allocate_message_oneof_names sc (tree_message t) d)"
  unfolding allocate_message_oneof_names_def
proof (rule returns_nbind)
  let ?m = "tree_message t"
  let ?rs = "concat (map (oneof_requests ?m) (message_oneofs ?m))"
  show "returns (\<lambda>(sc', al). scope_ok sc' \<and> answers ?rs al) (allocate_names sc ?rs)"
    by (rule allocate_returns [OF sc]) (use oneof_requests_ok named_okD(8) [OF ok] in auto)
  fix p assume "case p of (sc', al) \<Rightarrow> scope_ok sc' \<and> answers ?rs al"
  then obtain sc' al where p: "p = (sc', al)" and sc': "scope_ok sc'" and al: "answers ?rs al" by auto
  have "returns (adds (oneof_keys ?m) d) (nfold (\<lambda>g d. nbind (Some (name_oneof al ?m g d)) (allocate_oneof_cases ?m g)) (message_oneofs ?m) d)"
    unfolding oneof_keys_def
  proof (rule nfold_adds [OF d base])
    fix g d' assume g: "g \<in> set (message_oneofs ?m)" and d': "valid_names d'" "number_keys ?m \<subseteq> assigned d'"
    let ?O = "Pair (NamedOneof (oneof_model_name g)) ` {''case_type'', ''case_accessor'', ''clear''}"
    show "returns (adds (?O \<union> (\<Union>f\<in>set (oneof_fields g). {(NamedField (field_name f), ''oneof_case'')})) d')
        (nbind (Some (name_oneof al ?m g d')) (allocate_oneof_cases ?m g))"
    proof (rule returns_nbind)
      show "returns (adds ?O d') (Some (name_oneof al ?m g d'))" using name_oneof_gives [OF al g d'(1)] by simp
      fix d1 assume d1: "adds ?O d' d1"
      have "returns (adds (\<Union>f\<in>set (oneof_fields g). {(NamedField (field_name f), ''oneof_case'')}) d1) (allocate_oneof_cases ?m g d1)"
        by (rule oneof_cases_return) (use adds_base [OF d1 d'(2)] oneof_number [OF ok g] in blast)+
      then show "returns (adds (?O \<union> (\<Union>f\<in>set (oneof_fields g). {(NamedField (field_name f), ''oneof_case'')})) d') (allocate_oneof_cases ?m g d1)"
        by (rule returns_mono) (rule adds_trans [OF d1])
    qed
  qed
  then show "returns (\<lambda>(sc', d'). scope_ok sc' \<and> adds (oneof_keys ?m) d d') (case p of (sc, al) \<Rightarrow>
     nbind (nfold (\<lambda>g d. nbind (Some (name_oneof al ?m g d)) (allocate_oneof_cases ?m g)) (message_oneofs ?m) d) (\<lambda>d. Some (Inr (sc, d))))"
    unfolding p prod.case by (rule returns_nbind) (simp add: sc')
qed

section \<open>Private members\<close>

definition private_requests_of :: "MessageModel \<Rightarrow> EmittedNameRequest list \<Rightarrow> bool" where
  \<comment> \<open>what the list of private requests holds\<close>
  "private_requests_of m rs \<longleftrightarrow> (\<forall>r\<in>set rs. plain_request r \<and> request_ok r) \<and>
     {private_owner m ''context-storage'', private_owner m ''unknown-storage''} \<union> function_owner m ` set (private_functions m)
     \<union> (\<Union>f\<in>{f\<in>set (message_fields m). oneof_name f = None}.
          insert (storage_owner m f) (if has_presence_storage f then {presence_owner m f} else {}))
     \<union> (\<Union>g\<in>set (message_oneofs m). oneof_owner m g ` {''case'', ''type'', ''storage''}) \<subseteq> rowner ` set rs"

lemma private_function_stem:
  assumes "n \<in> set MESSAGE_PRIVATE_FUNCTIONS"
  shows "portable_text n"
proof -
  have "list_all portable_text MESSAGE_PRIVATE_FUNCTIONS" unfolding portable_text_def no_double_def by code_simp
  with assms show ?thesis by (simp add: list_all_iff)
qed

lemma stem_of_portable: "is_portable_identifier s \<Longrightarrow> portable_text (allocation_base s)"
  by (rule stem_of_text [OF identifier_text])

lemma has_stem: "is_portable_identifier s \<Longrightarrow> portable_text (allocation_base (''has_'' @ s @ ''_''))"
  using stem_of_text [OF portable_text_join [OF small_texts(1) identifier_text]] stem_underscore [of "''has_'' @ s"] by simp

lemma storage_requests_give:
  assumes "valid_names d" and "(NamedField (field_name f), ''number'') \<in> assigned d"
  shows "gives (\<lambda>rs. (\<forall>r\<in>set rs. plain_request r \<and> request_ok r) \<and>
      (oneof_name f = None \<longrightarrow> insert (storage_owner m f) (if has_presence_storage f then {presence_owner m f} else {}) \<subseteq> rowner ` set rs))
    (storage_requests m d f)"
proof (cases "oneof_name f = None")
  case True
  have "gives is_portable_identifier (field_stem d f)" unfolding field_stem_def by (rule emitted_name_gives [OF assms])
  then obtain s where "field_stem d f = Inr s" "is_portable_identifier s" by (auto simp: gives_def)
  with True show ?thesis
    using plain_request_ok [OF has_stem, of s "presence_owner m f" PRIVATE_STORAGE]
    by (simp add: storage_requests_def plain_request_ok stem_underscore stem_of_portable)
qed (simp add: storage_requests_def)

lemma derivable_last: "last (cpp_derivable_identifier n) \<noteq> CHR ''_''"
proof (cases "endswith (cpp_identifier n) ''_''")
  case True
  then show ?thesis
    by (simp add: cpp_derivable_identifier_def cpp_emitted_derivable_identifier_def CPP_DERIVABLE_IDENTIFIER_SUFFIX_def)
next
  case False
  have "cpp_identifier n \<noteq> []" using portable_text_parts(1) [OF identifier_text [OF cpp_identifier_portable]] .
  then have "cpp_identifier n = butlast (cpp_identifier n) @ [last (cpp_identifier n)]" by simp
  with False have "last (cpp_identifier n) \<noteq> CHR ''_''" unfolding endswith_iff by metis
  with False show ?thesis by (simp add: cpp_derivable_identifier_def cpp_emitted_derivable_identifier_def)
qed

lemma case_text: "list_all ident_char ''_case_''" "no_double ''_case_''"
  unfolding no_double_def by code_simp+

lemma oneof_storage_ok:
  assumes "oneof_cpp_name g = cpp_pascal_identifier (oneof_model_name g)" and "r \<in> set (oneof_storage_requests m g)"
  shows "plain_request r \<and> request_ok r"
proof -
  have stems: "portable_text (allocation_base (cpp_derivable_identifier n @ ''_case_''))"
    "portable_text (allocation_base (cpp_pascal_identifier n @ ''Storage''))"
    "portable_text (allocation_base (cpp_derivable_identifier n @ ''_''))" for n
  proof -
    have "portable_text (cpp_derivable_identifier n @ ''_case_'')"
      by (rule portable_text_append [OF derivable_text case_text]) (simp add: derivable_last)
    then show "portable_text (allocation_base (cpp_derivable_identifier n @ ''_case_''))" by (rule stem_of_text)
    show "portable_text (allocation_base (cpp_pascal_identifier n @ ''Storage''))"
      by (rule stem_of_text [OF portable_text_join [OF pascal_text small_texts(4)]])
    show "portable_text (allocation_base (cpp_derivable_identifier n @ ''_''))"
      by (simp add: stem_underscore stem_of_text [OF derivable_text])
  qed
  with assms show ?thesis by (auto simp: oneof_storage_requests_def Let_def intro!: plain_request_ok)
qed

lemma private_requests_give:
  assumes ok: "named_ok t" and d: "valid_names d" and base: "number_keys (tree_message t) \<subseteq> assigned d"
  shows "gives (private_requests_of (tree_message t)) (private_requests (tree_message t) d)"
  unfolding private_requests_def
proof (rule gives_rbind)
  let ?m = "tree_message t"
  let ?P = "\<lambda>f rs. (\<forall>r\<in>set rs. plain_request r \<and> request_ok r) \<and>
      (oneof_name f = None \<longrightarrow> insert (storage_owner ?m f) (if has_presence_storage f then {presence_owner ?m f} else {}) \<subseteq> rowner ` set rs)"
  show "gives (list_all2 ?P (message_fields ?m)) (rmap (storage_requests ?m d) (message_fields ?m))"
    by (rule gives_rmap, rule storage_requests_give [OF d]) (use base in \<open>auto simp: number_keys_def\<close>)
  fix rss assume rss: "list_all2 ?P (message_fields ?m) rss"
  have plain: "plain_request r \<and> request_ok r" if "r \<in> set (concat rss)" for r
    using rss that by (induction rule: list_all2_induct) auto
  have owners: "(\<Union>f\<in>{f\<in>set fs. oneof_name f = None}. insert (storage_owner ?m f) (if has_presence_storage f then {presence_owner ?m f} else {}))
      \<subseteq> rowner ` set (concat rss)" if "list_all2 ?P fs rss" for fs rss
    using that
  proof (induction rule: list_all2_induct)
    case (Cons f fs rs rss)
    have "{f'\<in>set (f # fs). oneof_name f' = None} \<subseteq> {f'. f' = f \<and> oneof_name f = None} \<union> {f'\<in>set fs. oneof_name f' = None}" by auto
    then show ?case using Cons by (cases "oneof_name f = None") (auto simp: image_Un)
  qed simp
  let ?c = "name_request (private_owner ?m ''context-storage'') ''ctx_'' [member_of_kind PRIVATE_STORAGE]"
    and ?u = "name_request (private_owner ?m ''unknown-storage'') ''unknown_fields_'' [member_of_kind PRIVATE_STORAGE]"
    and ?f = "\<lambda>n. name_request (function_owner ?m n) n [plain_member\<lparr>msignature := Some (''private:'' @ n)\<rparr>]"
  have f: "request_ok (?f n)" if "n \<in> set (private_functions ?m)" for n
    by (rule request_okI) (use that private_function_stem in \<open>simp_all add: single_member_ok stem_of_text private_functions_def\<close>)
  have cu: "request_ok ?c" "request_ok ?u"
    by (rule plain_request_ok, rule stem_of_text, rule small_texts)+
  have g: "plain_request r \<and> request_ok r" if "r \<in> set (concat (map (oneof_storage_requests ?m) (message_oneofs ?m)))" for r
    using that oneof_storage_ok named_okD(8) [OF ok] by auto
  have gown: "(\<Union>g\<in>set (message_oneofs ?m). oneof_owner ?m g ` {''case'', ''type'', ''storage''})
      \<subseteq> rowner ` set (concat (map (oneof_storage_requests ?m) (message_oneofs ?m)))"
    by (auto simp: oneof_storage_requests_def Let_def image_UN)
  have "private_requests_of ?m ([?c, ?u] @ map ?f (private_functions ?m) @ concat rss @ concat (map (oneof_storage_requests ?m) (message_oneofs ?m)))"
    unfolding private_requests_of_def
  proof (intro conjI)
    show "\<forall>r\<in>set ([?c, ?u] @ map ?f (private_functions ?m) @ concat rss @ concat (map (oneof_storage_requests ?m) (message_oneofs ?m))).
        plain_request r \<and> request_ok r"
      using cu f plain g unfolding set_append by (auto simp del: set_concat)
    show "{private_owner ?m ''context-storage'', private_owner ?m ''unknown-storage''} \<union> function_owner ?m ` set (private_functions ?m)
     \<union> (\<Union>f\<in>{f\<in>set (message_fields ?m). oneof_name f = None}.
          insert (storage_owner ?m f) (if has_presence_storage f then {presence_owner ?m f} else {}))
     \<union> (\<Union>g\<in>set (message_oneofs ?m). oneof_owner ?m g ` {''case'', ''type'', ''storage''})
     \<subseteq> rowner ` set ([?c, ?u] @ map ?f (private_functions ?m) @ concat rss @ concat (map (oneof_storage_requests ?m) (message_oneofs ?m)))"
      using owners [OF rss] gown unfolding set_append image_Un by (intro Un_mono Un_least) (auto simp: image_image simp del: set_concat)
  qed
  then show "gives (private_requests_of ?m) (Inr ([?c, ?u] @ map ?f (private_functions ?m) @ concat rss @ concat (map (oneof_storage_requests ?m) (message_oneofs ?m))))"
    by simp
qed

section \<open>Private storage\<close>

definition private_keys :: "named \<Rightarrow> MessageModel \<Rightarrow> (named \<times> string) set" where
  "private_keys x m = Pair x ` set (private_names m)"

lemma private_answers_give:
  assumes "private_requests_of m rs" and "answers rs al"
  shows "ow \<in> rowner ` set rs \<Longrightarrow> gives is_portable_identifier (allocated_name al ow)"
    and "al ow = Some v \<Longrightarrow> is_portable_identifier v"
proof -
  have plain: "plain_request r" if "r \<in> set rs" for r using assms(1) that by (simp add: private_requests_of_def)
  show "ow \<in> rowner ` set rs \<Longrightarrow> gives is_portable_identifier (allocated_name al ow)"
    using plain_answers_gives [OF assms(2)] plain by blast
  show "al ow = Some v \<Longrightarrow> is_portable_identifier v"
    using assms(2) plain plain_request_fits unfolding answers_def by blast
qed

lemma private_owners:
  assumes "private_requests_of m rs"
  shows "private_owner m ''context-storage'' \<in> rowner ` set rs" and "private_owner m ''unknown-storage'' \<in> rowner ` set rs"
    and "n \<in> set (private_functions m) \<Longrightarrow> function_owner m n \<in> rowner ` set rs"
    and "f \<in> set (message_fields m) \<Longrightarrow> oneof_name f = None \<Longrightarrow> storage_owner m f \<in> rowner ` set rs"
    and "f \<in> set (message_fields m) \<Longrightarrow> oneof_name f = None \<Longrightarrow> has_presence_storage f \<Longrightarrow> presence_owner m f \<in> rowner ` set rs"
    and "g \<in> set (message_oneofs m) \<Longrightarrow> s \<in> {''case'', ''type'', ''storage''} \<Longrightarrow> oneof_owner m g s \<in> rowner ` set rs"
proof -
  note sub = subsetD [OF assms [unfolded private_requests_of_def, THEN conjunct2]]
  show "private_owner m ''context-storage'' \<in> rowner ` set rs" "private_owner m ''unknown-storage'' \<in> rowner ` set rs"
    by (rule sub, simp)+
  show "n \<in> set (private_functions m) \<Longrightarrow> function_owner m n \<in> rowner ` set rs" by (rule sub) simp
  show "f \<in> set (message_fields m) \<Longrightarrow> oneof_name f = None \<Longrightarrow> storage_owner m f \<in> rowner ` set rs"
    by (rule sub, rule UnI1, rule UnI2, rule UN_I [of f]) simp_all
  show "f \<in> set (message_fields m) \<Longrightarrow> oneof_name f = None \<Longrightarrow> has_presence_storage f \<Longrightarrow> presence_owner m f \<in> rowner ` set rs"
    by (rule sub, rule UnI1, rule UnI2, rule UN_I [of f]) simp_all
  show "g \<in> set (message_oneofs m) \<Longrightarrow> s \<in> {''case'', ''type'', ''storage''} \<Longrightarrow> oneof_owner m g s \<in> rowner ` set rs"
    by (rule sub, rule UnI2, rule UN_I [of g]) blast+
qed

lemma allocated_some: "gives P (allocated_name al ow) \<Longrightarrow> \<exists>v. al ow = Some v"
  by (auto simp: gives_def allocated_name_def split: option.splits)

lemma message_storage_gives:
  assumes rs: "private_requests_of m rs" and al: "answers rs al" and d: "valid_names d"
  shows "gives (adds (private_keys NamedMessage m) d) (name_message_storage al m d)"
  unfolding name_message_storage_def
proof (rule gives_rbind [OF private_answers_give(1) [OF rs al private_owners(1) [OF rs]]],
    rule gives_rbind [OF private_answers_give(1) [OF rs al private_owners(2) [OF rs]]])
  fix c u assume cu: "is_portable_identifier c" "is_portable_identifier u"
  let ?d = "emit NamedMessage [(''context_storage'', c), (''unknown_storage'', u)] d"
  let ?N = "\<lambda>n. if n \<in> set (private_functions m) then {(NamedMessage, n)} else {}"
  have e: "adds (Pair NamedMessage ` fst ` set [(''context_storage'', c), (''unknown_storage'', u)]) d ?d"
    by (rule adds_emit [OF d]) (use cu in auto)
  then have v: "valid_names ?d" by (simp add: adds_def)
  have "gives (adds (\<Union>n\<in>set MESSAGE_PRIVATE_FUNCTIONS. ?N n) ?d)
      (rfold (\<lambda>n d. case al (function_owner m n) of None \<Rightarrow> Inr d | Some v \<Rightarrow> Inr (emit NamedMessage [(n, v)] d)) MESSAGE_PRIVATE_FUNCTIONS ?d)"
  proof (rule rfold_adds [OF v, of "{}"])
    fix n d' assume d': "valid_names d'"
    show "gives (adds (?N n) d') (case al (function_owner m n) of None \<Rightarrow> Inr d' | Some v \<Rightarrow> Inr (emit NamedMessage [(n, v)] d'))"
    proof (cases "al (function_owner m n)")
      case None
      then have "n \<notin> set (private_functions m)"
        using allocated_some [OF private_answers_give(1) [OF rs al private_owners(3) [OF rs]]] by force
      then show ?thesis by (simp add: None adds_refl [OF d'])
    next
      case (Some w)
      have "adds {(NamedMessage, n)} d' (emit NamedMessage [(n, w)] d')"
        by (rule emit_one [OF d' private_answers_give(2) [OF rs al Some]])
      then show ?thesis by (auto simp: Some elim: adds_weaken)
    qed
  qed simp
  then show "gives (adds (private_keys NamedMessage m) d)
      (rfold (\<lambda>n d. case al (function_owner m n) of None \<Rightarrow> Inr d | Some v \<Rightarrow> Inr (emit NamedMessage [(n, v)] d)) MESSAGE_PRIVATE_FUNCTIONS ?d)"
  proof (rule gives_mono)
    fix d2 assume d2: "adds (\<Union>n\<in>set MESSAGE_PRIVATE_FUNCTIONS. ?N n) ?d d2"
    show "adds (private_keys NamedMessage m) d d2"
      by (rule adds_weaken [OF adds_trans [OF e d2]]) (auto simp: private_keys_def private_names_def private_functions_def)
  qed
qed

definition storage_keys :: "FieldModel \<Rightarrow> (named \<times> string) set" where
  "storage_keys f = Pair (NamedField (field_name f)) `
     (if oneof_name f \<noteq> None then {} else insert ''storage'' (if has_presence_storage f then {''presence_storage''} else {}))"

lemma field_storage_gives:
  assumes rs: "private_requests_of m rs" and al: "answers rs al" and d: "valid_names d" and f: "f \<in> set (message_fields m)"
  shows "gives (adds (storage_keys f) d) (name_field_storage al m f d)"
proof (cases "oneof_name f = None")
  case True
  let ?p = "case al (presence_owner m f) of None \<Rightarrow> [] | Some p \<Rightarrow> [(''presence_storage'', p)]"
  have p: "\<forall>v\<in>snd ` set ?p. is_portable_identifier v"
    using private_answers_give(2) [OF rs al] by (auto split: option.splits)
  have pk: "has_presence_storage f \<Longrightarrow> ''presence_storage'' \<in> fst ` set ?p"
    using allocated_some [OF private_answers_give(1) [OF rs al private_owners(5) [OF rs f True]]] by auto
  have "gives (adds (storage_keys f) d) (rbind (allocated_name al (storage_owner m f)) (\<lambda>n.
        Inr (emit (NamedField (field_name f)) ((''storage'', n) # ?p) d)))"
  proof (rule gives_rbind [OF private_answers_give(1) [OF rs al private_owners(4) [OF rs f True]]])
    fix n assume "is_portable_identifier n"
    then have "adds (Pair (NamedField (field_name f)) ` fst ` set ((''storage'', n) # ?p)) d (emit (NamedField (field_name f)) ((''storage'', n) # ?p) d)"
      by (intro adds_emit [OF d]) (use p in auto)
    then show "gives (adds (storage_keys f) d) (Inr (emit (NamedField (field_name f)) ((''storage'', n) # ?p) d))"
      using pk True by (auto simp: storage_keys_def elim!: adds_weaken)
  qed
  then show ?thesis using True by (simp add: name_field_storage_def)
qed (simp add: name_field_storage_def storage_keys_def adds_refl [OF d])

lemma union_names_return:
  assumes "valid_names d" and "\<And>f. f \<in> set (oneof_fields g) \<Longrightarrow> (NamedField (field_name f), ''number'') \<in> assigned d"
  shows "returns (adds (\<Union>f\<in>set (oneof_fields g). {(NamedField (field_name f), ''oneof_storage'')}) d)
    (allocate_for_fields (new_scope (''oneof-storage:'' @ full_oneof m g))
         (\<lambda>f stem. name_request (union_owner m f) (stem @ ''_'') [member_of_kind PRIVATE_STORAGE]) (union_owner m)
         ''oneof_storage'' (oneof_fields g) d)"
  by (rule field_allocation_returns) (simp_all add: assms new_scope_ok plain_request_ok stem_underscore stem_of_portable)

abbreviation shared_keys :: "string set" where
  "shared_keys \<equiv> {''oneof_case_type'', ''oneof_case_storage'', ''oneof_container'', ''oneof_clear''}"

lemma share_names_give:
  assumes d: "valid_names d" and base: "Pair (NamedOneof (oneof_model_name g)) ` {''case_type'', ''case_storage'', ''storage'', ''clear''} \<subseteq> assigned d"
  shows "gives (adds (Pair (NamedField (field_name f)) ` shared_keys) d) (share_oneof_names g f d)"
proof -
  have read: "gives is_portable_identifier (emitted_name d (NamedOneof (oneof_model_name g)) k)"
    if "k \<in> {''case_type'', ''case_storage'', ''storage'', ''clear''}" for k
    by (rule emitted_name_gives [OF d]) (use base that in blast)
  show ?thesis unfolding share_oneof_names_def Let_def
  proof (rule gives_rbind [OF read], simp, rule gives_rbind [OF read], simp, rule gives_rbind [OF read], simp,
      rule gives_rbind [OF read], simp)
    fix a b c e assume p: "is_portable_identifier a" "is_portable_identifier b" "is_portable_identifier c" "is_portable_identifier e"
    let ?kvs = "[(''oneof_case_type'', a), (''oneof_case_storage'', b), (''oneof_container'', c), (''oneof_clear'', e)]"
    have "adds (Pair (NamedField (field_name f)) ` fst ` set ?kvs) d (emit (NamedField (field_name f)) ?kvs d)"
      by (rule adds_emit [OF d]) (use p in auto)
    then show "gives (adds (Pair (NamedField (field_name f)) ` shared_keys) d) (Inr (emit (NamedField (field_name f)) ?kvs d))"
      by simp
  qed
qed

definition oneof_storage_keys :: "OneofModel \<Rightarrow> (named \<times> string) set" where
  "oneof_storage_keys g = Pair (NamedOneof (oneof_model_name g)) ` {''case_storage'', ''storage_type'', ''storage''}
     \<union> (\<Union>f\<in>set (oneof_fields g). {(NamedField (field_name f), ''oneof_storage'')})
     \<union> (\<Union>f\<in>set (oneof_fields g). Pair (NamedField (field_name f)) ` shared_keys)"

lemma oneof_storage_returns:
  assumes rs: "private_requests_of m rs" and al: "answers rs al" and d: "valid_names d" and g: "g \<in> set (message_oneofs m)"
    and base: "Pair (NamedOneof (oneof_model_name g)) ` {''case_type'', ''clear''} \<subseteq> assigned d"
    and nums: "\<And>f. f \<in> set (oneof_fields g) \<Longrightarrow> (NamedField (field_name f), ''number'') \<in> assigned d"
  shows "returns (adds (oneof_storage_keys g) d) (name_oneof_storage al m g d)"
  unfolding name_oneof_storage_def
proof (rule returns_nbind)
  let ?x = "NamedOneof (oneof_model_name g)"
  let ?all = "list_all2 (\<lambda>s. is_portable_identifier) [''case'', ''type'', ''storage'']"
  have "gives ?all (rmap (\<lambda>s. allocated_name al (oneof_owner m g s)) [''case'', ''type'', ''storage''])"
    by (rule gives_rmap, rule private_answers_give(1) [OF rs al], rule private_owners(6) [OF rs g]) simp
  then show "returns ?all (Some (rmap (\<lambda>s. allocated_name al (oneof_owner m g s)) [''case'', ''type'', ''storage'']))" by simp
  fix ns assume "?all ns"
  then obtain a b c where ns: "ns = [a, b, c]" and p: "is_portable_identifier a" "is_portable_identifier b" "is_portable_identifier c"
    by (auto simp: list_all2_Cons1)
  let ?d = "emit ?x (zip [''case_storage'', ''storage_type'', ''storage''] ns) d"
  have e: "adds (Pair ?x ` {''case_storage'', ''storage_type'', ''storage''}) d ?d"
  proof -
    have "adds (Pair ?x ` fst ` set (zip [''case_storage'', ''storage_type'', ''storage''] ns)) d ?d"
      by (rule adds_emit [OF d]) (use p ns in auto)
    then show ?thesis by (simp add: ns)
  qed
  then have d': "valid_names ?d" by (simp add: adds_def)
  have nums': "(NamedField (field_name f), ''number'') \<in> assigned ?d" if "f \<in> set (oneof_fields g)" for f
    using nums [OF that] e by (auto simp: adds_def)
  show "returns (adds (oneof_storage_keys g) d) (nbind (allocate_for_fields (new_scope (''oneof-storage:'' @ full_oneof m g))
         (\<lambda>f stem. name_request (union_owner m f) (stem @ ''_'') [member_of_kind PRIVATE_STORAGE]) (union_owner m)
         ''oneof_storage'' (oneof_fields g) ?d) (\<lambda>d. Some (rfold (share_oneof_names g) (oneof_fields g) d)))"
  proof (rule returns_nbind [OF union_names_return [OF d' nums']], assumption)
    fix d2 assume d2: "adds (\<Union>f\<in>set (oneof_fields g). {(NamedField (field_name f), ''oneof_storage'')}) ?d d2"
    have b2: "Pair ?x ` {''case_type'', ''case_storage'', ''storage'', ''clear''} \<subseteq> assigned d2" "valid_names d2"
      using base e d2 by (auto simp: adds_def)
    have "gives (adds (\<Union>f\<in>set (oneof_fields g). Pair (NamedField (field_name f)) ` shared_keys) d2)
        (rfold (share_oneof_names g) (oneof_fields g) d2)"
      by (rule rfold_adds [OF b2(2,1)]) (rule share_names_give)
    then show "returns (adds (oneof_storage_keys g) d) (Some (rfold (share_oneof_names g) (oneof_fields g) d2))"
      unfolding returns_simps
    proof (rule gives_mono)
      fix d3 assume d3: "adds (\<Union>f\<in>set (oneof_fields g). Pair (NamedField (field_name f)) ` shared_keys) d2 d3"
      show "adds (oneof_storage_keys g) d d3"
        unfolding oneof_storage_keys_def by (rule adds_trans [OF adds_trans [OF e d2] d3])
    qed
  qed
qed

section \<open>Private names of fields\<close>

fun private_field_keys :: "MessageModel \<Rightarrow> named \<Rightarrow> FieldModel \<Rightarrow> (named \<times> string) set" where
  "private_field_keys m x
     (FieldModel nm cpp nr ty lab fl rep opt oi on pk dep tn k ct mt et mk mv mx ex fx ep rq df ds cl) =
     private_keys x m \<union> (case mk of None \<Rightarrow> {} | Some f \<Rightarrow> private_field_keys m (NamedMapKey x) f)
     \<union> (case mv of None \<Rightarrow> {} | Some f \<Rightarrow> private_field_keys m (NamedMapValue x) f)"

lemma private_field_keys_parts:
  "private_keys x m \<subseteq> private_field_keys m x f"
  "map_key f = Some k \<Longrightarrow> private_keys (NamedMapKey x) m \<subseteq> private_field_keys m x f"
  "map_value f = Some k \<Longrightarrow> private_keys (NamedMapValue x) m \<subseteq> private_field_keys m x f"
proof -
  show base: "private_keys x m \<subseteq> private_field_keys m x f" for x f by (cases f) auto
  show "map_key f = Some k \<Longrightarrow> private_keys (NamedMapKey x) m \<subseteq> private_field_keys m x f"
    "map_value f = Some k \<Longrightarrow> private_keys (NamedMapValue x) m \<subseteq> private_field_keys m x f"
    using base by (cases f; auto)+
qed

lemma private_to_field_gives:
  "valid_names d \<Longrightarrow> private_keys NamedMessage m \<subseteq> assigned d \<Longrightarrow>
   gives (adds (private_field_keys m x f) d) (assign_message_private_names_to_field m x f d)"
proof (induction f arbitrary: x d)
  case (FieldModel nm cpp nr ty lab fl rep opt oi on pk dep tn k ct mt et mk mv mx ex fx ep rq df ds cl)
  note d = FieldModel.prems
  let ?functions = "List.map_filter (\<lambda>n. map_option (Pair n) (map_of d (NamedMessage, n))) MESSAGE_PRIVATE_FUNCTIONS"
  have read: "gives is_portable_identifier (emitted_name d NamedMessage k)" if "k \<in> {''context_storage'', ''unknown_storage''}" for k
    by (rule emitted_name_gives [OF d(1)]) (use d(2) that in \<open>auto simp: private_keys_def private_names_def\<close>)
  have portable: "is_portable_identifier v" if "v \<in> snd ` set ?functions" for v
    using that d(1) map_of_SomeD by (fastforce simp: map_filter_set valid_names_def)
  have given: "n \<in> fst ` set ?functions" if n: "n \<in> set (private_functions m)" for n
  proof -
    have "(NamedMessage, n) \<in> assigned d" using d(2) n by (auto simp: private_keys_def private_names_def)
    then obtain v where "map_of d (NamedMessage, n) = Some v"
      unfolding assigned_def dom_map_of_conv_image_fst [symmetric] by blast
    moreover have "n \<in> set MESSAGE_PRIVATE_FUNCTIONS" using n by (simp add: private_functions_def)
    ultimately have "(n, v) \<in> set ?functions" by (auto simp: map_filter_set)
    then show ?thesis by force
  qed
  show ?case unfolding assign_message_private_names_to_field.simps Let_def
  proof (rule gives_rbind [OF read], simp, rule gives_rbind [OF read], simp)
    fix c u assume cu: "is_portable_identifier c" "is_portable_identifier u"
    let ?kvs = "[(''context_storage'', c), (''unknown_storage'', u)] @ ?functions"
    have "adds (Pair x ` fst ` set ?kvs) d (emit x ?kvs d)"
      by (rule adds_emit [OF d(1)]) (use cu portable in auto)
    then have d1: "adds (private_keys x m) d (emit x ?kvs d)"
      by (rule adds_weaken) (use given in \<open>auto simp: private_keys_def private_names_def image_Un\<close>)
    have k: "gives (adds (case mk of None \<Rightarrow> {} | Some f \<Rightarrow> private_field_keys m (NamedMapKey x) f) (emit x ?kvs d))
        (case mk of None \<Rightarrow> Inr (emit x ?kvs d)
          | Some f \<Rightarrow> assign_message_private_names_to_field m (NamedMapKey x) f (emit x ?kvs d))"
      using adds_base [OF d1 d(2)] FieldModel.IH(1) by (cases mk) (auto simp: adds_refl)
    show "gives (adds (private_field_keys m x (FieldModel nm cpp nr ty lab fl rep opt oi on pk dep tn k ct mt et mk mv mx ex fx ep rq df ds cl)) d)
       (rbind (case mk of None \<Rightarrow> Inr (emit x ?kvs d) | Some f \<Rightarrow> assign_message_private_names_to_field m (NamedMapKey x) f (emit x ?kvs d))
         (\<lambda>d2. case mv of None \<Rightarrow> Inr d2 | Some f \<Rightarrow> assign_message_private_names_to_field m (NamedMapValue x) f d2))"
    proof (rule gives_rbind [OF k])
      fix d2 assume d2: "adds (case mk of None \<Rightarrow> {} | Some f \<Rightarrow> private_field_keys m (NamedMapKey x) f) (emit x ?kvs d) d2"
      note d12 = adds_trans [OF d1 d2]
      have "gives (adds (case mv of None \<Rightarrow> {} | Some f \<Rightarrow> private_field_keys m (NamedMapValue x) f) d2)
          (case mv of None \<Rightarrow> Inr d2 | Some f \<Rightarrow> assign_message_private_names_to_field m (NamedMapValue x) f d2)"
        using adds_base [OF d12 d(2)] FieldModel.IH(2) by (cases mv) (auto simp: adds_refl)
      then show "gives (adds (private_field_keys m x (FieldModel nm cpp nr ty lab fl rep opt oi on pk dep tn k ct mt et mk mv mx ex fx ep rq df ds cl)) d)
          (case mv of None \<Rightarrow> Inr d2 | Some f \<Rightarrow> assign_message_private_names_to_field m (NamedMapValue x) f d2)"
        by (rule gives_mono) (simp add: adds_trans [OF d12])
    qed
  qed
qed

end
