(* ===== verification/ClassPhases.thy ===== *)
theory ClassPhases
  imports ClassNames
begin

text \<open>
  The phases of the naming of a class: private members, implementation names with their own scopes,
  template parameters, and the reservations a class starts with.
\<close>

section \<open>The private phase\<close>

definition private_phase_keys :: "MessageModel \<Rightarrow> (named \<times> string) set" where
  "private_phase_keys m = private_keys NamedMessage m \<union> (\<Union>f\<in>set (message_fields m). storage_keys f)
     \<union> (\<Union>g\<in>set (message_oneofs m). oneof_storage_keys g)
     \<union> (\<Union>f\<in>set (message_fields m). private_field_keys m (NamedField (field_name f)) f)"

lemma private_names_return:
  assumes ok: "named_ok t" and sc: "scope_ok sc" and d: "valid_names d"
    and base: "number_keys (tree_message t) \<union> oneof_keys (tree_message t) \<subseteq> assigned d"
  shows "returns (\<lambda>(sc', d'). scope_ok sc' \<and> adds (private_phase_keys (tree_message t)) d d')
    (allocate_message_private_names sc (tree_message t) d)"
  unfolding allocate_message_private_names_def
proof (rule returns_nbind)
  let ?m = "tree_message t"
  show "returns (private_requests_of ?m) (Some (private_requests ?m d))"
    using private_requests_give [OF ok d] base by simp
  fix rs assume rs: "private_requests_of ?m rs"
  let ?rest = "\<lambda>sc al. nbind (Some (name_message_storage al ?m d)) (\<lambda>d.
     nbind (Some (rfold (name_field_storage al ?m) (message_fields ?m) d)) (\<lambda>d.
     nbind (nfold (name_oneof_storage al ?m) (message_oneofs ?m) d) (\<lambda>d.
     nbind (Some (rfold (\<lambda>f. assign_message_private_names_to_field ?m (NamedField (field_name f)) f) (message_fields ?m) d)) (\<lambda>d.
       Some (Inr (sc, d))))))"
  have rest: "returns (\<lambda>(sc', d'). scope_ok sc' \<and> adds (private_phase_keys ?m) d d') (?rest sc' al)"
    if sc': "scope_ok sc'" and al: "answers rs al" for sc' :: EmittedNameScope and al
  proof (rule returns_nbind)
    show "returns (adds (private_keys NamedMessage ?m) d) (Some (name_message_storage al ?m d))"
      using message_storage_gives [OF rs al d] by simp
    fix d1 assume d1: "adds (private_keys NamedMessage ?m) d d1"
    have v1: "valid_names d1" using d1 by (simp add: adds_def)
    show "returns (\<lambda>(sc', d'). scope_ok sc' \<and> adds (private_phase_keys ?m) d d')
       (nbind (Some (rfold (name_field_storage al ?m) (message_fields ?m) d1)) (\<lambda>d.
        nbind (nfold (name_oneof_storage al ?m) (message_oneofs ?m) d) (\<lambda>d.
        nbind (Some (rfold (\<lambda>f. assign_message_private_names_to_field ?m (NamedField (field_name f)) f) (message_fields ?m) d)) (\<lambda>d.
          Some (Inr (sc', d))))))"
    proof (rule returns_nbind)
      show "returns (adds (\<Union>f\<in>set (message_fields ?m). storage_keys f) d1) (Some (rfold (name_field_storage al ?m) (message_fields ?m) d1))"
        unfolding returns_simps by (rule rfold_adds [OF v1, of "{}"], simp, rule field_storage_gives [OF rs al])
      fix d2 assume d2: "adds (\<Union>f\<in>set (message_fields ?m). storage_keys f) d1 d2"
      note d12 = adds_trans [OF d1 d2]
      note v2 = adds_base [OF d12 base]
      show "returns (\<lambda>(sc', d'). scope_ok sc' \<and> adds (private_phase_keys ?m) d d')
        (nbind (nfold (name_oneof_storage al ?m) (message_oneofs ?m) d2) (\<lambda>d.
         nbind (Some (rfold (\<lambda>f. assign_message_private_names_to_field ?m (NamedField (field_name f)) f) (message_fields ?m) d)) (\<lambda>d.
           Some (Inr (sc', d)))))"
      proof (rule returns_nbind)
        show "returns (adds (\<Union>g\<in>set (message_oneofs ?m). oneof_storage_keys g) d2) (nfold (name_oneof_storage al ?m) (message_oneofs ?m) d2)"
        proof (rule nfold_adds [OF v2 [THEN conjunct1] v2 [THEN conjunct2]], rule oneof_storage_returns [OF rs al])
          fix g d' assume g: "g \<in> set (message_oneofs ?m)" and d': "valid_names d'"
            "number_keys ?m \<union> oneof_keys ?m \<subseteq> assigned d'"
          show "valid_names d'" "g \<in> set (message_oneofs ?m)" by fact+
          show "Pair (NamedOneof (oneof_model_name g)) ` {''case_type'', ''clear''} \<subseteq> assigned d'"
            using g d'(2) unfolding oneof_keys_def by blast
          show "(NamedField (field_name f), ''number'') \<in> assigned d'" if "f \<in> set (oneof_fields g)" for f
            using oneof_number [OF ok g that] d'(2) by blast
        qed
        fix d3 assume d3: "adds (\<Union>g\<in>set (message_oneofs ?m). oneof_storage_keys g) d2 d3"
        note d123 = adds_trans [OF d12 d3]
        have v3: "valid_names d3" "private_keys NamedMessage ?m \<subseteq> assigned d3"
          using d123 unfolding adds_def by blast+
        have "returns (adds (\<Union>f\<in>set (message_fields ?m). private_field_keys ?m (NamedField (field_name f)) f) d3)
            (Some (rfold (\<lambda>f. assign_message_private_names_to_field ?m (NamedField (field_name f)) f) (message_fields ?m) d3))"
          unfolding returns_simps by (rule rfold_adds [OF v3]) (rule private_to_field_gives)
        then show "returns (\<lambda>(sc', d'). scope_ok sc' \<and> adds (private_phase_keys ?m) d d')
          (nbind (Some (rfold (\<lambda>f. assign_message_private_names_to_field ?m (NamedField (field_name f)) f) (message_fields ?m) d3)) (\<lambda>d.
             Some (Inr (sc', d))))"
          by (rule returns_nbind) (simp add: sc' private_phase_keys_def adds_trans [OF d123])
      qed
    qed
  qed
  show "returns (\<lambda>(sc', d'). scope_ok sc' \<and> adds (private_phase_keys ?m) d d') (nbind (allocate_names sc rs) (\<lambda>(sc, al). ?rest sc al))"
  proof (rule returns_nbind)
    show "returns (\<lambda>(sc', al). scope_ok sc' \<and> answers rs al) (allocate_names sc rs)"
      by (rule allocate_returns [OF sc]) (use rs in \<open>simp add: private_requests_of_def\<close>)
    show "returns (\<lambda>(sc', d'). scope_ok sc' \<and> adds (private_phase_keys ?m) d d') (case p of (sc, al) \<Rightarrow> ?rest sc al)"
      if "case p of (sc', al) \<Rightarrow> scope_ok sc' \<and> answers rs al" for p
      using that rest by (cases p) simp
  qed
qed

section \<open>Implementation names\<close>

definition allocator_ok :: "EmittedNameAllocator \<Rightarrow> bool" where
  "allocator_ok a \<longleftrightarrow> (\<forall>sc\<in>ran (scopes a). scope_ok sc)"

definition implementation_only :: "EmittedNameAllocator \<Rightarrow> EmittedNameAllocator \<Rightarrow> bool" where
  \<comment> \<open>only scopes of implementation names changed\<close>
  "implementation_only a a' \<longleftrightarrow> allocator_ok a' \<and>
     (\<forall>l. \<not> startswith l ''implementation:'' \<longrightarrow> scopes a' l = scopes a l)"

lemma implementation_only_trans: "implementation_only a b \<Longrightarrow> implementation_only b c \<Longrightarrow> implementation_only a c"
  by (simp add: implementation_only_def)

lemma scope_of_ok: "allocator_ok a \<Longrightarrow> scope_ok (snd (scope_of a l)) \<and> allocator_ok (fst (scope_of a l))"
  by (auto simp: scope_of_def allocator_ok_def new_scope_ok ran_def split: option.splits)

lemma put_scope_ok: "allocator_ok a \<Longrightarrow> scope_ok sc \<Longrightarrow> allocator_ok (put_scope l sc a)"
  by (auto simp: put_scope_def allocator_ok_def ran_def)

lemma put_implementation:
  "allocator_ok a \<Longrightarrow> scope_ok sc \<Longrightarrow> startswith l ''implementation:'' \<Longrightarrow> implementation_only a (put_scope l sc (fst (scope_of a l)))"
  using put_scope_ok scope_of_ok
  by (fastforce simp: implementation_only_def put_scope_def scope_of_def split: option.splits)

definition implementation_key_set :: "named \<Rightarrow> (named \<times> string) set" where
  "implementation_key_set x = Pair x ` set implementation_keys"

lemma implementation_names_adds:
  assumes d: "valid_names d" and fit: "\<And>t. t \<in> snd ` set FIELD_IMPLEMENTATION_NAME_TEMPLATES \<Longrightarrow>
      \<exists>n. render (plain_member\<lparr>template := t\<rparr>) s = Inr n \<and> is_portable_identifier n"
    and rest: "\<And>v. v \<in> snd ` set kvs \<Longrightarrow> is_portable_identifier v"
  shows "adds (implementation_key_set x \<union> Pair x ` fst ` set kvs) d (emit x (implementation_names s @ kvs) d)"
proof -
  have "is_portable_identifier (format_name t s)" if "t \<in> snd ` set FIELD_IMPLEMENTATION_NAME_TEMPLATES" for t
    using fit [OF that] by (simp add: render_def plain_member_def)
  then have "is_portable_identifier v" if "v \<in> snd ` set (implementation_names s @ kvs)" for v
    using that rest by (force simp: implementation_names_def)
  then have "adds (Pair x ` fst ` set (implementation_names s @ kvs)) d (emit x (implementation_names s @ kvs) d)"
    by (rule adds_emit [OF d])
  moreover have "Pair x ` fst ` set (implementation_names s @ kvs) = implementation_key_set x \<union> Pair x ` fst ` set kvs"
    by (simp add: implementation_names_def implementation_key_set_def implementation_keys_def image_Un image_image case_prod_beta)
  ultimately show ?thesis by simp
qed

lemma implementation_member_in:
  "t \<in> snd ` set FIELD_IMPLEMENTATION_NAME_TEMPLATES \<Longrightarrow> plain_member\<lparr>template := t\<rparr> \<in> set implementation_members"
  by (force simp: implementation_members_def)

lemma implementation_members_only_ok: "members_ok implementation_members"
  using implementation_members_ok by (auto simp: members_ok_def sorted_wrt_append)

definition map_member_keys :: "named \<Rightarrow> (named \<times> string) set" where
  "map_member_keys x = implementation_key_set x \<union> {(x, ''storage'')}"

lemma map_member_returns:
  assumes a: "allocator_ok a" and d: "valid_names d" and k: "is_portable_identifier (field_cpp_name k)"
  shows "returns (\<lambda>(a', d'). implementation_only a a' \<and> adds (map_member_keys x) d d')
    (allocate_map_member_implementation_names m f x k (a, d))"
proof -
  define ow where "ow = implementation_owner m f @ ''.'' @ field_name k"
  let ?r = "name_request ow (cpp_emitted_derivable_identifier (field_cpp_name k)) (implementation_members @ [plain_member\<lparr>template := ''{name}_''\<rparr>])"
  obtain a1 sc where s: "scope_of a ow = (a1, sc)" by fastforce
  have sc: "scope_ok sc" using scope_of_ok [OF a, of ow] by (simp add: s)
  have lab: "startswith ow ''implementation:''" by (simp add: ow_def implementation_owner_def startswith_def)
  have ok: "request_ok ?r"
    by (rule request_okI) (simp_all add: implementation_members_ok stem_of_text emitted_derivable_text identifier_text k)
  show ?thesis unfolding allocate_map_member_implementation_names_def Let_def ow_def [symmetric] s prod.case
  proof (rule returns_nbind)
    show "returns (\<lambda>(sc', al). scope_ok sc' \<and> answers [?r] al) (allocate_names sc [?r])"
      by (rule allocate_returns [OF sc]) (simp add: ok)
    fix p assume "case p of (sc', al) \<Rightarrow> scope_ok sc' \<and> answers [?r] al"
    then obtain sc' al where p: "p = (sc', al)" and sc': "scope_ok sc'" and all: "answers [?r] al" by (cases p) simp
    obtain stem where al: "al ow = Some stem" and fit: "fits ?r stem"
    proof (rule answersD [OF all, of ?r])
      fix s r' assume "al (rowner ?r) = Some s" "r' \<in> set [?r]" "fits r' s"
      then show thesis using that [of s] by simp
    qed simp
    have last: "is_portable_identifier (stem @ ''_'')"
      using fits_member [OF fit, of "plain_member\<lparr>template := ''{name}_''\<rparr>"] by (simp add: render_def plain_member_def startswith_def)
    have "adds (implementation_key_set x \<union> Pair x ` fst ` set [(''storage'', stem @ ''_'')]) d
        (emit x (implementation_names stem @ [(''storage'', stem @ ''_'')]) d)"
    proof (rule implementation_names_adds [OF d])
      show "\<exists>n. render (plain_member\<lparr>template := t\<rparr>) stem = Inr n \<and> is_portable_identifier n"
        if "t \<in> snd ` set FIELD_IMPLEMENTATION_NAME_TEMPLATES" for t
        by (rule fits_member [OF fit]) (simp add: implementation_member_in [OF that])
      show "is_portable_identifier v" if "v \<in> snd ` set [(''storage'', stem @ ''_'')]" for v
        using that last by simp
    qed
    moreover have "implementation_only a (put_scope ow sc' a1)" using put_implementation [OF a sc' lab] by (simp add: s)
    ultimately show "returns (\<lambda>(a', d'). implementation_only a a' \<and> adds (map_member_keys x) d d')
        (case p of (sc, al) \<Rightarrow> nbind (Some (allocated_name al ow)) (\<lambda>stem.
          Some (Inr (put_scope ow sc a1, emit x (implementation_names stem @ [(''storage'', stem @ ''_'')]) d))))"
      by (simp add: p allocated_name_def al nbind_def map_member_keys_def)
  qed
qed

definition implementation_field_keys :: "FieldModel \<Rightarrow> (named \<times> string) set" where
  "implementation_field_keys f = (let x = NamedField (field_name f) in
     implementation_key_set x \<union> (if map_key f = None then {} else map_member_keys (NamedMapKey x))
     \<union> (if map_value f = None then {} else map_member_keys (NamedMapValue x)))"

definition phase_ok :: "(named \<times> string) set \<Rightarrow> EmittedNameAllocator \<times> emitted \<Rightarrow> EmittedNameAllocator \<times> emitted \<Rightarrow> bool" where
  "phase_ok K s s' \<longleftrightarrow> implementation_only (fst s) (fst s') \<and> adds K (snd s) (snd s')"

lemma phase_ok_refl: "allocator_ok (fst s) \<Longrightarrow> valid_names (snd s) \<Longrightarrow> phase_ok {} s s"
  by (simp add: phase_ok_def implementation_only_def adds_refl)

lemma phase_ok_trans: "phase_ok K s s' \<Longrightarrow> phase_ok L s' s'' \<Longrightarrow> phase_ok (K \<union> L) s s''"
  by (auto simp: phase_ok_def intro: implementation_only_trans adds_trans)

lemma phase_ok_state: "phase_ok K s s' \<Longrightarrow> allocator_ok (fst s') \<and> valid_names (snd s')"
  by (simp add: phase_ok_def implementation_only_def adds_def)

lemma nfold_phase:
  assumes "allocator_ok (fst s)" and "valid_names (snd s)"
    and "\<And>x s. x \<in> set xs \<Longrightarrow> allocator_ok (fst s) \<Longrightarrow> valid_names (snd s) \<Longrightarrow> returns (phase_ok (N x) s) (f x s)"
  shows "returns (phase_ok (\<Union>x\<in>set xs. N x) s) (nfold f xs s)"
  using assms
proof (induction xs arbitrary: s)
  case (Cons x xs)
  have "returns (phase_ok (N x) s) (f x s)" using Cons.prems by simp
  then show ?case unfolding nfold.simps
  proof (rule returns_nbind)
    fix s' assume s': "phase_ok (N x) s s'"
    then have "returns (phase_ok (\<Union>x\<in>set xs. N x) s') (nfold f xs s')"
      using phase_ok_state [OF s'] Cons.IH Cons.prems(3) by simp
    then show "returns (phase_ok (\<Union>x\<in>set (x # xs). N x) s) (nfold f xs s')"
      by (rule returns_mono) (use phase_ok_trans [OF s'] in simp)
  qed
qed (simp add: phase_ok_refl)

lemma map_member_phase:
  assumes "allocator_ok (fst s)" and "valid_names (snd s)"
    and "\<And>k. o' = Some k \<Longrightarrow> is_portable_identifier (field_cpp_name k)"
  shows "returns (phase_ok (if o' = None then {} else map_member_keys x) s)
    (case o' of None \<Rightarrow> Some (Inr s) | Some k \<Rightarrow> allocate_map_member_implementation_names m f x k s)"
proof (cases o')
  case None
  then show ?thesis by (simp add: phase_ok_refl assms)
next
  case (Some k)
  have "returns (\<lambda>(a', d'). implementation_only (fst s) a' \<and> adds (map_member_keys x) (snd s) d')
      (allocate_map_member_implementation_names m f x k (fst s, snd s))"
    by (rule map_member_returns [OF assms(1,2) assms(3) [OF Some]])
  then have "returns (phase_ok (map_member_keys x) s) (allocate_map_member_implementation_names m f x k (fst s, snd s))"
    by (rule returns_mono) (auto simp: phase_ok_def)
  then show ?thesis by (simp add: Some)
qed

definition implementation_requests_of :: "MessageModel \<Rightarrow> EmittedNameRequest list \<Rightarrow> bool" where
  "implementation_requests_of m rs \<longleftrightarrow> rowner ` set rs = implementation_owner m ` set (message_fields m)
     \<and> (\<forall>r\<in>set rs. members r = implementation_members \<and> request_ok r)"

lemma implementation_requests_give:
  assumes "valid_names d" and "number_keys m \<subseteq> assigned d"
  shows "gives (implementation_requests_of m) (rmap (implementation_request m d) (message_fields m))"
proof -
  let ?request = "\<lambda>f stem. name_request (implementation_owner m f) (cpp_emitted_derivable_identifier stem) implementation_members"
  have "gives (list_all2 (\<lambda>f r. \<exists>stem. is_portable_identifier stem \<and> r = ?request f stem) (message_fields m))
      (rmap (implementation_request m d) (message_fields m))"
    unfolding implementation_request_def by (rule field_stems_give [OF assms(1)]) (use assms(2) in \<open>auto simp: number_keys_def\<close>)
  then show ?thesis
  proof (rule gives_mono)
    fix rs assume rs: "list_all2 (\<lambda>f r. \<exists>stem. is_portable_identifier stem \<and> r = ?request f stem) (message_fields m) rs"
    have "members r = implementation_members \<and> request_ok r" if "r \<in> set rs" for r
    proof -
      from all2_requests [OF rs that] obtain f stem where r: "is_portable_identifier stem" "r = ?request f stem" by blast
      have "request_ok r" unfolding r(2)
        by (rule request_okI) (simp_all add: implementation_members_only_ok stem_of_text emitted_derivable_text identifier_text r(1))
      then show ?thesis by (simp add: r(2))
    qed
    then show "implementation_requests_of m rs"
      using all2_owners [OF rs, of "implementation_owner m"] by (simp add: implementation_requests_of_def)
  qed
qed

lemma name_implementation_returns:
  assumes ok: "named_ok t" and f: "f \<in> set (message_fields (tree_message t))"
    and rs: "implementation_requests_of (tree_message t) rs" and al: "answers rs al"
    and s: "allocator_ok (fst s)" "valid_names (snd s)"
  shows "returns (phase_ok (implementation_field_keys f) s) (name_implementation al (tree_message t) f s)"
proof -
  let ?m = "tree_message t" and ?x = "NamedField (field_name f)"
  have "implementation_owner ?m f \<in> rowner ` set rs" using rs f by (simp add: implementation_requests_of_def)
  then obtain r where r: "r \<in> set rs" "rowner r = implementation_owner ?m f" by auto
  obtain stem r' where stem: "al (implementation_owner ?m f) = Some stem" and r': "r' \<in> set rs" "fits r' stem"
    by (rule answersD [OF al r(1)]) (simp add: r(2))
  have fit: "\<exists>n. render (plain_member\<lparr>template := t\<rparr>) stem = Inr n \<and> is_portable_identifier n"
    if "t \<in> snd ` set FIELD_IMPLEMENTATION_NAME_TEMPLATES" for t
    by (rule fits_member [OF r'(2)]) (use rs r'(1) implementation_member_in [OF that] in \<open>simp add: implementation_requests_of_def\<close>)
  obtain a d where ad: "s = (a, d)" by (cases s)
  let ?d = "emit ?x (implementation_names stem) d"
  have d1: "phase_ok (implementation_key_set ?x) s (a, ?d)"
    using implementation_names_adds [OF s(2) fit, of "[]" ?x] s(1)
    by (simp add: ad phase_ok_def implementation_only_def)
  note st1 = phase_ok_state [OF d1]
  show ?thesis unfolding name_implementation_def ad prod.case stem allocated_name_def option.case nbind_def [of "Some (Inr _)"] Let_def sum.case
    unfolding ad [symmetric]
  proof (rule returns_nbind [OF map_member_phase [of "(a, ?d)" "map_key f" "NamedMapKey ?x" ?m f]])
    show "allocator_ok (fst (a, ?d))" "valid_names (snd (a, ?d))" using st1 by simp_all
    show "is_portable_identifier (field_cpp_name k)" if "map_key f = Some k" for k by (rule named_okD(5) [OF ok f that])
    fix s2 assume s2: "phase_ok (if map_key f = None then {} else map_member_keys (NamedMapKey ?x)) (a, ?d) s2"
    note d12 = phase_ok_trans [OF d1 s2]
    have "returns (phase_ok (if map_value f = None then {} else map_member_keys (NamedMapValue ?x)) s2)
        (case map_value f of None \<Rightarrow> Some (Inr s2) | Some v \<Rightarrow> allocate_map_member_implementation_names ?m f (NamedMapValue ?x) v s2)"
      by (rule map_member_phase) (use phase_ok_state [OF d12] named_okD(6) [OF ok f] in simp_all)
    then show "returns (phase_ok (implementation_field_keys f) s)
        (case map_value f of None \<Rightarrow> Some (Inr s2) | Some v \<Rightarrow> allocate_map_member_implementation_names ?m f (NamedMapValue ?x) v s2)"
      by (rule returns_mono) (simp add: implementation_field_keys_def Let_def phase_ok_trans [OF d12])
  qed
qed

definition implementation_phase_keys :: "MessageModel \<Rightarrow> (named \<times> string) set" where
  "implementation_phase_keys m = (\<Union>f\<in>set (message_fields m). implementation_field_keys f)"

lemma implementation_names_return:
  assumes ok: "named_ok t" and a: "allocator_ok a" and d: "valid_names d" and base: "number_keys (tree_message t) \<subseteq> assigned d"
  shows "returns (phase_ok (implementation_phase_keys (tree_message t)) (a, d)) (allocate_message_implementation_names a (tree_message t) d)"
proof -
  let ?m = "tree_message t"
  define lab where "lab = ''implementation:'' @ message_full_name ?m"
  obtain a1 sc where s: "scope_of a lab = (a1, sc)" by fastforce
  have sc: "scope_ok sc" using scope_of_ok [OF a, of lab] by (simp add: s)
  have lab: "startswith lab ''implementation:''" by (simp add: lab_def startswith_def)
  show ?thesis unfolding allocate_message_implementation_names_def Let_def lab_def [symmetric] s prod.case
  proof (rule returns_nbind)
    show "returns (implementation_requests_of ?m) (Some (rmap (implementation_request ?m d) (message_fields ?m)))"
      using implementation_requests_give [OF d base] by simp
    fix rs assume rs: "implementation_requests_of ?m rs"
    show "returns (phase_ok (implementation_phase_keys ?m) (a, d)) (nbind (allocate_names sc rs) (\<lambda>(sc, al).
        nfold (name_implementation al ?m) (message_fields ?m) (put_scope lab sc a1, d)))"
    proof (rule returns_nbind)
      show "returns (\<lambda>(sc', al). scope_ok sc' \<and> answers rs al) (allocate_names sc rs)"
        by (rule allocate_returns [OF sc]) (use rs in \<open>simp add: implementation_requests_of_def\<close>)
      fix p assume "case p of (sc', al) \<Rightarrow> scope_ok sc' \<and> answers rs al"
      then obtain sc' al where p: "p = (sc', al)" and sc': "scope_ok sc'" and al: "answers rs al" by (cases p) simp
      have start: "phase_ok {} (a, d) (put_scope lab sc' a1, d)"
        using put_implementation [OF a sc' lab] by (simp add: s phase_ok_def adds_refl [OF d])
      have "returns (phase_ok (implementation_phase_keys ?m) (put_scope lab sc' a1, d))
          (nfold (name_implementation al ?m) (message_fields ?m) (put_scope lab sc' a1, d))"
        unfolding implementation_phase_keys_def
        by (rule nfold_phase) (use phase_ok_state [OF start] name_implementation_returns [OF ok _ rs al] in simp_all)
      then show "returns (phase_ok (implementation_phase_keys ?m) (a, d)) (case p of (sc, al) \<Rightarrow>
          nfold (name_implementation al ?m) (message_fields ?m) (put_scope lab sc a1, d))"
        unfolding p prod.case by (rule returns_mono) (use phase_ok_trans [OF start] in simp)
    qed
  qed
qed

section \<open>Template parameters\<close>

definition valid_parameters :: "template_names \<Rightarrow> bool" where
  "valid_parameters ns \<longleftrightarrow> is_portable_identifier (config_cpp_name ns) \<and> is_portable_identifier (reader_cpp_name ns)
     \<and> is_portable_identifier (writer_cpp_name ns) \<and> is_portable_identifier (value_parameter_cpp_name ns)
     \<and> is_portable_identifier (generic_cpp_name ns)"

lemma assigned_parameters: "(x, n) \<in> set (assign_internal_names ns y f) \<Longrightarrow> n = ns"
proof (induction f arbitrary: y)
  case (FieldModel nm cpp nr ty lab fl rep opt oi on pk dep tn k ct mt et mk mv mx ex fx ep rq df ds cl)
  then show ?case by (cases mk; cases mv) auto
qed

lemma template_stems: "\<forall>p\<in>set [''Config'', ''Reader'', ''Writer'', ''Value'', ''T'']. portable_text p"
proof -
  have "list_all portable_text [''Config'', ''Reader'', ''Writer'', ''Value'', ''T'']"
    unfolding portable_text_def no_double_def by code_simp
  then show ?thesis unfolding list_all_iff .
qed

lemma template_names_return:
  assumes sc: "scope_ok sc"
  shows "returns (\<lambda>(sc', ns). scope_ok sc' \<and> (\<forall>(x, n)\<in>set ns. valid_parameters n)) (allocate_message_template_names sc m)"
  unfolding allocate_message_template_names_def
proof (rule returns_nbind)
  let ?rs = "map (\<lambda>p. name_request (template_owner m p) p [member_of_kind IMPLEMENTATION]) [''Config'', ''Reader'', ''Writer'', ''Value'', ''T'']"
  show "returns (\<lambda>(sc', al). scope_ok sc' \<and> answers ?rs al) (allocate_names sc ?rs)"
    by (rule allocate_returns [OF sc]) (use template_stems in \<open>auto intro!: plain_request_ok stem_of_text\<close>)
  fix p assume "case p of (sc', al) \<Rightarrow> scope_ok sc' \<and> answers ?rs al"
  then obtain sc' al where p: "p = (sc', al)" and sc': "scope_ok sc'" and al: "answers ?rs al" by (cases p) simp
  have name: "returns is_portable_identifier (Some (allocated_name al (template_owner m q)))"
    if "q \<in> {''Config'', ''Reader'', ''Writer'', ''Value'', ''T''}" for q
    unfolding returns_simps by (rule plain_answers_gives [OF al]) (use that in auto)
  show "returns (\<lambda>(sc', ns). scope_ok sc' \<and> (\<forall>(x, n)\<in>set ns. valid_parameters n)) (case p of (sc, al) \<Rightarrow>
     nbind (Some (allocated_name al (template_owner m ''Config''))) (\<lambda>config.
     nbind (Some (allocated_name al (template_owner m ''Reader''))) (\<lambda>reader.
     nbind (Some (allocated_name al (template_owner m ''Writer''))) (\<lambda>writer.
     nbind (Some (allocated_name al (template_owner m ''Value''))) (\<lambda>value.
     nbind (Some (allocated_name al (template_owner m ''T''))) (\<lambda>generic.
       let ns = \<lparr>config_cpp_name = config, reader_cpp_name = reader, writer_cpp_name = writer,
                 value_parameter_cpp_name = value, generic_cpp_name = generic\<rparr> in
       Some (Inr (sc, (NamedMessage, ns)
         # concat (map (\<lambda>f. assign_internal_names ns (NamedField (field_name f)) f) (message_fields m))))))))))"
    unfolding p prod.case Let_def
    by (rule returns_nbind [OF name], simp, rule returns_nbind [OF name], simp, rule returns_nbind [OF name], simp,
        rule returns_nbind [OF name], simp, rule returns_nbind [OF name], simp)
      (auto simp: sc' valid_parameters_def dest!: assigned_parameters)
qed

section \<open>The reserved names\<close>

lemma reserve_fresh:
  assumes "distinct (map fst rs)" and "\<forall>n\<in>fst ` set rs. is_portable_identifier n \<and> uses sc n = []" and "scope_ok sc"
  shows "\<exists>sc'. rfold (\<lambda>(n, u) sc. reserve sc n u) rs sc = Inr sc' \<and> scope_ok sc'"
  using assms
proof (induction rs arbitrary: sc)
  case (Cons p rs)
  obtain n u where p: "p = (n, u)" by (cases p)
  have add: "can_add sc n u []" using Cons.prems(2) by (simp add: p can_add_iff)
  then have r: "reserve sc n u = Inr (add_use n u sc)" using Cons.prems(2) by (simp add: p reserve_def)
  have "\<exists>sc'. rfold (\<lambda>(n, u) sc. reserve sc n u) rs (add_use n u sc) = Inr sc' \<and> scope_ok sc'"
    by (rule Cons.IH) (use Cons.prems add_use_ok [OF Cons.prems(3) add] in \<open>auto simp: p uses_add_use\<close>)
  then show ?case by (simp add: p r)
qed simp

lemma reserve_keeps: "reserve sc n u = Inr sc' \<Longrightarrow> set (uses sc m) \<subseteq> set (uses sc' m) \<and> u \<in> set (uses sc' n)"
  by (auto simp: reserve_def uses_add_use split: if_splits list.splits)

lemma reserved_uses:
  "rfold (\<lambda>(n, u) sc. reserve sc n u) rs sc = Inr sc' \<Longrightarrow> scope_ok sc \<Longrightarrow>
   scope_ok sc' \<and> set (uses sc m) \<subseteq> set (uses sc' m) \<and> (\<forall>(n, u)\<in>set rs. u \<in> set (uses sc' n))"
proof (induction rs arbitrary: sc m)
  case (Cons p rs)
  obtain n u where p: "p = (n, u)" by (cases p)
  from Cons.prems obtain s1 where s1: "reserve sc n u = Inr s1" "rfold (\<lambda>(n, u) sc. reserve sc n u) rs s1 = Inr sc'"
    by (auto simp: p)
  have ok: "scope_ok s1" by (rule reserve_ok [OF Cons.prems(2) s1(1)])
  have "u \<in> set (uses sc' n)"
    using Cons.IH [OF s1(2) ok, of n] reserve_keeps [OF s1(1), of n] by blast
  then show ?case using Cons.IH [OF s1(2) ok, of m] reserve_keeps [OF s1(1), of m] by (auto simp: p)
qed simp

end
