(* ===== verification/ClassNaming.thy ===== *)
theory ClassNaming
  imports ClassPhases
begin

text \<open>
  Naming every class of a model: the final check of the allocated names always passes, the naming of a
  class ends, and it fails exactly when the class has the name of one of its own members.
\<close>

lemma require_gives: "Pair x ` set keys \<subseteq> assigned d \<Longrightarrow> require_emitted_names ow d x keys = Inr ()"
proof -
  assume "Pair x ` set keys \<subseteq> assigned d"
  then have "map_of d (x, k) \<noteq> None" if "k \<in> set keys" for k
    using that unfolding assigned_def map_of_eq_None_iff by blast
  then have "filter (\<lambda>k. map_of d (x, k) = None) keys = []" by (simp add: filter_empty_conv)
  then show ?thesis by (simp add: require_emitted_names_def raise_if_def)
qed

definition all_keys :: "message_tree \<Rightarrow> (named \<times> string) set" where
  "all_keys t = (let m = tree_message t in
     Pair NamedMessage ` fst ` set (reserved_emitted m) \<union> class_keys t \<union> alias_keys t \<union> oneof_keys m
     \<union> private_phase_keys m \<union> implementation_phase_keys m)"

lemma all_keysD:
  assumes "all_keys t \<subseteq> K"
  shows "Pair NamedMessage ` fst ` set (reserved_emitted (tree_message t)) \<subseteq> K" and "class_keys t \<subseteq> K" and "alias_keys t \<subseteq> K"
    and "oneof_keys (tree_message t) \<subseteq> K" and "private_phase_keys (tree_message t) \<subseteq> K"
    and "implementation_phase_keys (tree_message t) \<subseteq> K"
  using assms by (auto simp: all_keys_def Let_def)

lemma private_phase_parts:
  assumes "private_phase_keys m \<subseteq> K"
  shows "private_keys NamedMessage m \<subseteq> K" and "f \<in> set (message_fields m) \<Longrightarrow> storage_keys f \<subseteq> K"
    and "g \<in> set (message_oneofs m) \<Longrightarrow> oneof_storage_keys g \<subseteq> K"
    and "f \<in> set (message_fields m) \<Longrightarrow> private_field_keys m (NamedField (field_name f)) f \<subseteq> K"
  using assms unfolding private_phase_keys_def by blast+

lemma oneof_storage_parts:
  assumes "oneof_storage_keys g \<subseteq> K" and "f \<in> set (oneof_fields g)" and "field_name f = n"
  shows "(NamedField n, ''oneof_storage'') \<in> K" and "Pair (NamedField n) ` shared_keys \<subseteq> K"
proof -
  show "(NamedField n, ''oneof_storage'') \<in> K"
    by (rule subsetD [OF assms(1)], unfold oneof_storage_keys_def, rule UnI1, rule UnI2, rule UN_I [OF assms(2)])
      (simp add: assms(3))
  have "Pair (NamedField n) ` shared_keys \<subseteq> oneof_storage_keys g"
    unfolding oneof_storage_keys_def
    using UN_upper [OF assms(2), of "\<lambda>f. Pair (NamedField (field_name f)) ` shared_keys"] unfolding assms(3) by (rule le_supI2)
  then show "Pair (NamedField n) ` shared_keys \<subseteq> K" using assms(1) by (rule subset_trans)
qed

lemma field_names_complete:
  assumes ok: "named_ok t" and f: "f \<in> set (message_fields (tree_message t))" and K: "all_keys t \<subseteq> K"
  shows "Pair (NamedField (field_name f)) ` set (required_field_names (tree_message t) f) \<subseteq> K"
proof -
  let ?x = "NamedField (field_name f)" and ?m = "tree_message t"
  note parts = all_keysD [OF K]
  note priv = private_phase_parts [OF parts(5)]
  have a: "field_keys f \<subseteq> K" using parts(2) f unfolding class_keys_def by blast
  have b: "private_keys ?x ?m \<subseteq> K" using priv(4) [OF f] private_field_keys_parts(1) by blast
  have c: "implementation_key_set ?x \<subseteq> K"
    using parts(6) f unfolding implementation_phase_keys_def implementation_field_keys_def Let_def by blast
  have d: "storage_keys f \<subseteq> K" by (rule priv(2) [OF f])
  have e: "(?x, ''oneof_case'') \<in> K \<and> (?x, ''oneof_storage'') \<in> K \<and> Pair ?x ` shared_keys \<subseteq> K" if "oneof_name f \<noteq> None"
  proof -
    from named_okD(7) [OF ok f that] obtain g where g: "g \<in> set (message_oneofs ?m)" "field_name f \<in> field_name ` set (oneof_fields g)"
      by (rule bexE)
    then obtain f' where f': "f' \<in> set (oneof_fields g)" "field_name f' = field_name f" by auto
    have "(NamedField (field_name f'), ''oneof_case'') \<in> K" using parts(4) g(1) f'(1) unfolding oneof_keys_def by blast
    then show ?thesis using oneof_storage_parts [OF priv(3) [OF g(1)] f'] f'(2) by simp
  qed
  have all: "Pair ?x ` set (required_field_names ?m f) = field_keys f \<union> private_keys ?x ?m \<union> implementation_key_set ?x
     \<union> (if oneof_name f \<noteq> None then insert (?x, ''oneof_case'') (insert (?x, ''oneof_storage'') (Pair ?x ` shared_keys)) else storage_keys f)"
    by (simp add: required_field_names_def field_keys_def private_keys_def implementation_key_set_def storage_keys_def image_Un image_insert Un_ac)
  show ?thesis unfolding all using a b c d e by (intro Un_least) simp_all
qed

lemma map_member_complete:
  assumes f: "f \<in> set (message_fields (tree_message t))" and K: "all_keys t \<subseteq> K"
  shows "map_key f = Some k \<Longrightarrow> Pair (NamedMapKey (NamedField (field_name f))) `
      set (private_names (tree_message t) @ implementation_keys @ [''storage'']) \<subseteq> K"
    and "map_value f = Some k \<Longrightarrow> Pair (NamedMapValue (NamedField (field_name f))) `
      set (private_names (tree_message t) @ implementation_keys @ [''storage'']) \<subseteq> K"
proof -
  let ?x = "NamedField (field_name f)" and ?m = "tree_message t"
  note parts = all_keysD [OF K]
  note priv = private_phase_parts(4) [OF parts(5) f]
  have c: "implementation_field_keys f \<subseteq> K" using parts(6) f unfolding implementation_phase_keys_def by blast
  have split: "Pair y ` set (private_names ?m @ implementation_keys @ [''storage'']) = private_keys y ?m \<union> map_member_keys y" for y
    by (simp add: private_keys_def map_member_keys_def implementation_key_set_def image_Un)
  show "Pair (NamedMapKey ?x) ` set (private_names ?m @ implementation_keys @ [''storage'']) \<subseteq> K" if "map_key f = Some k"
  proof -
    have "map_member_keys (NamedMapKey ?x) \<subseteq> K" using c that unfolding implementation_field_keys_def Let_def by auto
    then show ?thesis unfolding split using priv private_field_keys_parts(2) [OF that, of ?x ?m] by blast
  qed
  show "Pair (NamedMapValue ?x) ` set (private_names ?m @ implementation_keys @ [''storage'']) \<subseteq> K" if "map_value f = Some k"
  proof -
    have "map_member_keys (NamedMapValue ?x) \<subseteq> K" using c that unfolding implementation_field_keys_def Let_def by auto
    then show ?thesis unfolding split using priv private_field_keys_parts(3) [OF that, of ?x ?m] by blast
  qed
qed

lemma validation_passes:
  assumes ok: "named_ok t" and K: "all_keys t \<subseteq> assigned d"
  shows "validate_message_cpp_name_allocations t d = Inr ()"
proof -
  let ?m = "tree_message t"
  note parts = all_keysD [OF K]
  note priv = private_phase_parts [OF parts(5)]
  have m: "require_emitted_names (message_full_name ?m) d NamedMessage
        (''context_alias'' # private_names ?m @ map fst MESSAGE_PUBLIC_FUNCTIONS
         @ (if message_fields ?m \<noteq> [] then [''field_number_type''] else [])) = Inr ()"
  proof (rule require_gives)
    have "Pair NamedMessage ` set (''context_alias'' # private_names ?m @ map fst MESSAGE_PUBLIC_FUNCTIONS
         @ (if message_fields ?m \<noteq> [] then [''field_number_type''] else []))
       = private_keys NamedMessage ?m \<union> Pair NamedMessage ` fst ` set (reserved_emitted ?m)"
      by (cases "message_fields ?m = []")
        (simp_all add: private_keys_def reserved_emitted_def image_Un image_image case_prod_beta Un_ac insert_commute)
    then show "Pair NamedMessage ` set (''context_alias'' # private_names ?m @ map fst MESSAGE_PUBLIC_FUNCTIONS
         @ (if message_fields ?m \<noteq> [] then [''field_number_type''] else [])) \<subseteq> assigned d"
      using priv(1) parts(1) by simp
  qed
  have e: "require_emitted_names ow d (NamedEnum (enum_full_name e)) (''alias'' # map fst (enum_helper_name_members e)) = Inr ()"
    if "e \<in> set (nested_enums t)" for e ow
  proof (rule require_gives)
    have "enum_keys e \<subseteq> assigned d" using parts(2) that unfolding class_keys_def by blast
    then show "Pair (NamedEnum (enum_full_name e)) ` set (''alias'' # map fst (enum_helper_name_members e)) \<subseteq> assigned d"
      by (simp add: enum_keys_def)
  qed
  have n: "require_emitted_names ow d (NamedNested (message_full_name n)) [''alias'', ''alias_config''] = Inr ()"
    if "n \<in> set (class_messages (nested_messages t))" for n ow
    by (rule require_gives) (use parts(2,3) that in \<open>auto simp: class_keys_def alias_keys_def\<close>)
  have f: "require_field_names ?m d f = Inr ()" if "f \<in> set (message_fields ?m)" for f
  proof -
    have x: "require_emitted_names ow d (NamedField (field_name f)) (required_field_names ?m f) = Inr ()" for ow
      by (rule require_gives [OF field_names_complete [OF ok that K]])
    have k: "map_key f = Some k \<Longrightarrow> require_emitted_names ow d (NamedMapKey (NamedField (field_name f)))
        (private_names ?m @ implementation_keys @ [''storage'']) = Inr ()" for k ow
      by (rule require_gives [OF map_member_complete(1) [OF that K]])
    have v: "map_value f = Some k \<Longrightarrow> require_emitted_names ow d (NamedMapValue (NamedField (field_name f)))
        (private_names ?m @ implementation_keys @ [''storage'']) = Inr ()" for k ow
      by (rule require_gives [OF map_member_complete(2) [OF that K]])
    show ?thesis unfolding require_field_names_def Let_def x rbind.simps
      by (cases "map_key f"; cases "map_value f") (simp_all only: option.case rbind.simps k v)
  qed
  have g: "require_emitted_names ow d (NamedOneof (oneof_model_name g))
      [''case_type'', ''case_accessor'', ''clear'', ''case_storage'', ''storage_type'', ''storage''] = Inr ()"
    if "g \<in> set (message_oneofs ?m)" for g ow
  proof (rule require_gives)
    have "Pair (NamedOneof (oneof_model_name g)) ` {''case_type'', ''case_accessor'', ''clear''} \<subseteq> assigned d"
      using parts(4) that unfolding oneof_keys_def by blast
    moreover have "Pair (NamedOneof (oneof_model_name g)) ` {''case_storage'', ''storage_type'', ''storage''} \<subseteq> assigned d"
      using priv(3) [OF that] unfolding oneof_storage_keys_def by blast
    ultimately show "Pair (NamedOneof (oneof_model_name g)) `
        set [''case_type'', ''case_accessor'', ''clear'', ''case_storage'', ''storage_type'', ''storage''] \<subseteq> assigned d" by simp
  qed
  show ?thesis unfolding validate_message_cpp_name_allocations_def Let_def m rbind.simps
    using e n f g by (simp del: rbind.simps add: each_ok [THEN iffD2] rbind.simps(2))
qed

section \<open>The names of a class\<close>

definition reserved_member_names :: "MessageModel \<Rightarrow> string list" where
  \<comment> \<open>the names every class declares itself\<close>
  "reserved_member_names m =
     ''Context'' # (if message_fields m \<noteq> [] then [''FieldNumber''] else []) @ map fst MESSAGE_PUBLIC_FUNCTIONS"

lemma reservation_names: "map fst (class_reservations m) = message_cpp_name m # reserved_member_names m"
  by (simp add: class_reservations_def reserved_member_names_def Let_def comp_def case_prod_beta)

lemma reserved_facts:
  "distinct (reserved_member_names m)" "n \<in> set (reserved_member_names m) \<Longrightarrow> is_portable_identifier n"
proof -
  let ?all = "''Context'' # ''FieldNumber'' # map fst MESSAGE_PUBLIC_FUNCTIONS"
  have d: "distinct ?all" by code_simp
  have p: "list_all is_portable_identifier ?all" by code_simp
  show "distinct (reserved_member_names m)" using d by (auto simp: reserved_member_names_def)
  have "set (reserved_member_names m) \<subseteq> set ?all" by (auto simp: reserved_member_names_def)
  then show "n \<in> set (reserved_member_names m) \<Longrightarrow> is_portable_identifier n" using p unfolding list_all_iff by blast
qed

lemma reserve_class_gives:
  assumes "is_portable_identifier (message_cpp_name m)" and "message_cpp_name m \<notin> set (reserved_member_names m)"
  shows "gives scope_ok (reserve_names (class_reservations m) (new_scope l))"
proof -
  have names: "fst ` set (class_reservations m) = insert (message_cpp_name m) (set (reserved_member_names m))"
    using arg_cong [OF reservation_names [of m], of set] by simp
  have "\<exists>sc'. rfold (\<lambda>(n, u) sc. reserve sc n u) (class_reservations m) (new_scope l) = Inr sc' \<and> scope_ok sc'"
  proof (rule reserve_fresh)
    show "distinct (map fst (class_reservations m))" unfolding reservation_names using assms(2) reserved_facts(1) by simp
    show "\<forall>n\<in>fst ` set (class_reservations m). is_portable_identifier n \<and> uses (new_scope l) n = []"
      unfolding names using assms(1) reserved_facts(2) by (simp add: new_scope_def)
  qed (rule new_scope_ok)
  then show ?thesis by (auto simp: reserve_names_def gives_def)
qed

lemma rfold_error: "rfold f xs s = Inl e \<Longrightarrow> \<exists>x\<in>set xs. \<exists>s'. f x s' = Inl e"
  by (induction xs arbitrary: s) (auto simp: rbind_Inl_iff)

lemma reserve_conflict: "reserve sc n u = Inl e \<Longrightarrow> is_portable_identifier n \<Longrightarrow> \<exists>l o1 o2. e = NameConflict l n o1 o2"
  by (auto simp: reserve_def can_add_iff split: if_splits list.splits)

lemma reserve_class_fails:
  assumes "is_portable_identifier (message_cpp_name m)" and "message_cpp_name m \<in> set (reserved_member_names m)"
  shows "\<exists>l n o1 o2. reserve_names (class_reservations m) (new_scope lab) = Inl (ScopeFailure (NameConflict l n o1 o2))"
proof (cases "rfold (\<lambda>(n, u) sc. reserve sc n u) (class_reservations m) (new_scope lab)")
  case (Inl e)
  from rfold_error [OF Inl] obtain n u s where "(n, u) \<in> set (class_reservations m)" "reserve s n u = Inl e" by auto
  moreover from this(1) have "n \<in> set (map fst (class_reservations m))" by force
  then have "is_portable_identifier n" unfolding reservation_names using assms(1) reserved_facts(2) by auto
  ultimately show ?thesis using reserve_conflict Inl by (fastforce simp: reserve_names_def)
next
  case (Inr sc)
  let ?c = "\<lparr>uowner = message_full_name m @ '':injected-class-name'', ukind = CppNameKind.TYPE, usignature = None\<rparr>"
  note kept = reserved_uses [OF Inr new_scope_ok]
  have rs: "class_reservations m = (message_cpp_name m, ?c) # tl (class_reservations m)"
    by (simp add: class_reservations_def Let_def)
  have "message_cpp_name m \<in> set (map fst (tl (class_reservations m)))"
    using assms(2) reservation_names [of m] by (simp add: map_tl)
  then obtain u where u: "(message_cpp_name m, u) \<in> set (tl (class_reservations m))" by auto
  then have ne: "u \<noteq> ?c" by (auto simp: class_reservations_def Let_def split: if_splits)
  have "(message_cpp_name m, ?c) \<in> set (class_reservations m)" "(message_cpp_name m, u) \<in> set (class_reservations m)"
    using u rs by (metis list.set_intros)+
  then have "?c \<in> set (uses sc (message_cpp_name m))" "u \<in> set (uses sc (message_cpp_name m))"
    using kept [of "message_cpp_name m"] by auto
  then obtain i j where "i < length (uses sc (message_cpp_name m))" "j < length (uses sc (message_cpp_name m))"
    "uses sc (message_cpp_name m) ! i = ?c" "uses sc (message_cpp_name m) ! j = u" "i \<noteq> j"
    using ne by (metis in_set_conv_nth)
  moreover have "compatible (uses sc (message_cpp_name m))" using kept [of "[]"] by (simp add: scope_ok_def)
  ultimately have "overloads ?c u" using compatible_pair by metis
  then show ?thesis by (simp add: overloads_def)
qed

definition valid_naming :: "message_naming \<Rightarrow> bool" where
  "valid_naming n \<longleftrightarrow> scope_ok (class_scope n) \<and> valid_names (class_names n) \<and> (\<forall>(x, p)\<in>set (class_parameters n). valid_parameters p)"

lemma reserved_emitted_valid: "valid_names (emit NamedMessage (reserved_emitted m) [])"
proof -
  have "map snd (reserved_emitted m) = reserved_member_names m"
    by (simp add: reserved_emitted_def reserved_member_names_def comp_def case_prod_beta)
  then have "snd ` set (reserved_emitted m) = set (reserved_member_names m)" by (metis set_map)
  then show ?thesis using reserved_facts(2) by (force simp: valid_names_def emit_def)
qed

definition class_phase :: "string \<Rightarrow> EmittedNameAllocator \<Rightarrow> EmittedNameAllocator \<Rightarrow> bool" where
  "class_phase lab a a' \<longleftrightarrow> allocator_ok a' \<and> (\<forall>l. \<not> startswith l ''implementation:'' \<longrightarrow> l \<noteq> lab \<longrightarrow> scopes a' l = scopes a l)"

lemma adds_after: "adds K d d' \<Longrightarrow> D \<subseteq> assigned d \<Longrightarrow> valid_names d' \<and> D \<union> K \<subseteq> assigned d'"
  by (auto simp: adds_def)

lemma number_in_class: "number_keys (tree_message t) \<subseteq> class_keys t"
  by (auto simp: number_keys_def class_keys_def field_keys_def)

lemma returns_nbind2:
  "returns (\<lambda>(x, y). P x y) m \<Longrightarrow> (\<And>x y. P x y \<Longrightarrow> returns Q (f x y)) \<Longrightarrow> returns Q (nbind m (\<lambda>(x, y). f x y))"
  by (erule returns_nbind) auto

lemma returns_adds:
  "returns (adds K d) m \<Longrightarrow> D \<subseteq> assigned d \<Longrightarrow> returns (\<lambda>d'. valid_names d' \<and> D \<union> K \<subseteq> assigned d') m"
  by (erule returns_mono) (rule adds_after)

lemma returns_adds2:
  "returns (\<lambda>(x, d'). P x \<and> adds K d d') m \<Longrightarrow> D \<subseteq> assigned d \<Longrightarrow>
   returns (\<lambda>(x, d'). P x \<and> valid_names d' \<and> D \<union> K \<subseteq> assigned d') m"
  by (erule returns_mono) (clarify, drule adds_after, assumption, simp)

lemma class_names_return:
  assumes ok: "named_ok t" and cpp: "is_portable_identifier (message_cpp_name (tree_message t))"
    and free: "message_cpp_name (tree_message t) \<notin> set (reserved_member_names (tree_message t))"
    and a: "allocator_ok a" and fresh: "scopes a (''message:'' @ message_full_name (tree_message t)) = None"
  shows "returns (\<lambda>(a', n). class_phase (''message:'' @ message_full_name (tree_message t)) a a' \<and> valid_naming n)
    (allocate_message_class_names t a)"
proof -
  let ?m = "tree_message t"
  define lab where "lab = ''message:'' @ message_full_name ?m"
  have lab: "\<not> startswith lab ''implementation:''" by (simp add: lab_def startswith_def)
  obtain a1 where s: "scope_of a lab = (a1, new_scope lab)" and a1: "a1 = a\<lparr>scopes := (scopes a)(lab \<mapsto> new_scope lab)\<rparr>"
    using fresh by (simp add: scope_of_def lab_def)
  have a1_ok: "allocator_ok a1" using scope_of_ok [OF a, of lab] by (simp add: s)
  let ?d0 = "emit NamedMessage (reserved_emitted ?m) []"
  let ?K0 = "Pair NamedMessage ` fst ` set (reserved_emitted ?m)"
  let ?K1 = "?K0 \<union> class_keys t" let ?K2 = "?K1 \<union> alias_keys t" let ?K3 = "?K2 \<union> oneof_keys ?m"
  let ?K4 = "?K3 \<union> private_phase_keys ?m" let ?K5 = "?K4 \<union> implementation_phase_keys ?m"
  have d0: "valid_names ?d0" "?K0 \<subseteq> assigned ?d0"
    using reserved_emitted_valid by (force simp: emit_def assigned_def)+
  have reserved: "returns scope_ok (Some (reserve_names (class_reservations ?m) (new_scope lab)))"
    using reserve_class_gives [OF cpp free] by simp
  have requests: "returns (\<lambda>(sc', al). scope_ok sc' \<and> answers (class_requests t) al) (allocate_names sc (class_requests t))"
    if "scope_ok sc" for sc by (rule allocate_returns [OF that]) (use class_requests_ok [OF ok] in blast)
  have class_members: "returns (\<lambda>d. valid_names d \<and> ?K1 \<subseteq> assigned d) (Some (assign_class_names al t ?d0))"
    if "answers (class_requests t) al" for al
    by (rule returns_adds [OF _ d0(2)]) (use assign_class_gives [OF ok that d0(1)] in simp)
  have aliases: "returns (\<lambda>d. valid_names d \<and> ?K2 \<subseteq> assigned d) (allocate_nested_alias_template_names t d)"
    if "valid_names d \<and> ?K1 \<subseteq> assigned d" for d
    by (rule returns_adds [OF alias_names_returns]) (use that in auto)
  have oneofs: "returns (\<lambda>(sc', d'). scope_ok sc' \<and> valid_names d' \<and> ?K3 \<subseteq> assigned d') (allocate_message_oneof_names sc ?m d)"
    if "scope_ok sc" "valid_names d \<and> ?K2 \<subseteq> assigned d" for sc d
    by (rule returns_adds2 [OF oneof_names_return [OF ok that(1)]]) (use that(2) number_in_class [of t] in blast)+
  have privates: "returns (\<lambda>(sc', d'). scope_ok sc' \<and> valid_names d' \<and> ?K4 \<subseteq> assigned d') (allocate_message_private_names sc ?m d)"
    if "scope_ok sc \<and> valid_names d \<and> ?K3 \<subseteq> assigned d" for sc d
    by (rule returns_adds2 [OF private_names_return [OF ok]]) (use that number_in_class [of t] in blast)+
  have implementation: "returns (\<lambda>(a', d'). implementation_only a1 a' \<and> valid_names d' \<and> ?K5 \<subseteq> assigned d')
      (allocate_message_implementation_names a1 ?m d)" if d: "valid_names d" "?K4 \<subseteq> assigned d" for d
  proof -
    have "returns (\<lambda>(a', d'). implementation_only a1 a' \<and> adds (implementation_phase_keys ?m) d d')
        (allocate_message_implementation_names a1 ?m d)"
      by (rule returns_mono [OF implementation_names_return [OF ok a1_ok d(1)]])
        (use d(2) number_in_class [of t] in \<open>auto simp: phase_ok_def\<close>)
    then show ?thesis by (rule returns_adds2 [OF _ d(2)])
  qed
  have checked: "returns (\<lambda>_. True) (Some (validate_message_cpp_name_allocations t d))" if "?K5 \<subseteq> assigned d" for d
    by (subst validation_passes [OF ok]) (use that in \<open>auto simp: all_keys_def Let_def\<close>)
  have final: "class_phase lab a (put_scope lab sc a2)" if "implementation_only a1 a2" "scope_ok sc" for sc a2
    using that put_scope_ok a1 by (auto simp: class_phase_def implementation_only_def put_scope_def)
  have "returns (\<lambda>(a', n). class_phase lab a a' \<and> valid_naming n) (allocate_message_class_names t a)"
    unfolding allocate_message_class_names_def Let_def lab_def [symmetric] s prod.case
    apply (rule returns_nbind [OF reserved], rule returns_nbind2 [OF requests], assumption)
    apply (rule returns_nbind [OF class_members], erule conjunct2, rule returns_nbind [OF aliases], assumption)
    apply (rule returns_nbind2 [OF oneofs], erule conjunct1, assumption, rule returns_nbind2 [OF privates], assumption)
    apply (rule returns_nbind2 [OF implementation], simp, simp, rule returns_nbind2 [OF template_names_return], erule conjunct1)
    apply (rule returns_nbind [OF checked], simp)
    apply (simp add: final valid_naming_def)
    done
  then show ?thesis by (simp add: lab_def)
qed

section \<open>All classes\<close>

definition nameable :: "FileModel list \<Rightarrow> bool" where
  \<comment> \<open>what building and the allocation of namespace names leave\<close>
  "nameable files \<longleftrightarrow> distinct (map (\<lambda>t. message_full_name (tree_message t)) (class_trees files)) \<and>
     (\<forall>t\<in>set (class_trees files). named_ok t \<and> is_portable_identifier (message_cpp_name (tree_message t)))"

definition shadows_member :: "message_tree \<Rightarrow> bool" where
  "shadows_member t \<longleftrightarrow> message_cpp_name (tree_message t) \<in> set (reserved_member_names (tree_message t))"

lemma class_names_fail:
  assumes "is_portable_identifier (message_cpp_name (tree_message t))" and "shadows_member t"
    and "scopes a (''message:'' @ message_full_name (tree_message t)) = None"
  shows "\<exists>l n o1 o2. allocate_message_class_names t a = Some (Inl (ScopeFailure (NameConflict l n o1 o2)))"
proof -
  let ?lab = "''message:'' @ message_full_name (tree_message t)"
  obtain l n o1 o2 where "reserve_names (class_reservations (tree_message t)) (new_scope ?lab) = Inl (ScopeFailure (NameConflict l n o1 o2))"
    using reserve_class_fails [OF assms(1)] assms(2) unfolding shadows_member_def by blast
  then have "allocate_message_class_names t a = Some (Inl (ScopeFailure (NameConflict l n o1 o2)))"
    unfolding allocate_message_class_names_def Let_def scope_of_def assms(3) option.case prod.case by (simp add: nbind_def)
  then show ?thesis by blast
qed

definition name_step :: "message_tree \<Rightarrow> EmittedNameAllocator \<times> (string \<times> message_naming) list \<Rightarrow>
    (EmittedNameAllocator \<times> (string \<times> message_naming) list) naming" where
  "name_step t = (\<lambda>(a, ns). nbind (allocate_message_class_names t a) (\<lambda>(a, n).
     Some (Inr (a, ns @ [(message_full_name (tree_message t), n)]))))"

lemma name_trees:
  assumes "distinct (map (\<lambda>t. message_full_name (tree_message t)) ts)"
    and "\<forall>t\<in>set ts. named_ok t \<and> is_portable_identifier (message_cpp_name (tree_message t))"
    and "allocator_ok a" and "\<forall>t\<in>set ts. scopes a (''message:'' @ message_full_name (tree_message t)) = None"
  shows "if \<exists>t\<in>set ts. shadows_member t
    then \<exists>l n o1 o2. nfold name_step ts (a, ns) = Some (Inl (ScopeFailure (NameConflict l n o1 o2)))
    else \<exists>a' ns'. nfold name_step ts (a, ns) = Some (Inr (a', ns @ ns')) \<and>
      map fst ns' = map (\<lambda>t. message_full_name (tree_message t)) ts \<and> (\<forall>n\<in>snd ` set ns'. valid_naming n)"
  using assms
proof (induction ts arbitrary: a ns)
  case (Cons t ts)
  let ?lab = "''message:'' @ message_full_name (tree_message t)"
  have t: "named_ok t" "is_portable_identifier (message_cpp_name (tree_message t))" "scopes a ?lab = None"
    using Cons.prems by simp_all
  show ?case
  proof (cases "shadows_member t")
    case True
    from class_names_fail [OF t(2) True t(3)] obtain l n o1 o2
      where "allocate_message_class_names t a = Some (Inl (ScopeFailure (NameConflict l n o1 o2)))" by blast
    then show ?thesis using True by (simp add: name_step_def nbind_def)
  next
    case False
    have "returns (\<lambda>(a', n). class_phase ?lab a a' \<and> valid_naming n) (allocate_message_class_names t a)"
      by (rule class_names_return [OF t(1,2) _ Cons.prems(3) t(3)]) (use False in \<open>simp add: shadows_member_def\<close>)
    then obtain a1 n where run: "allocate_message_class_names t a = Some (Inr (a1, n))"
      and a1: "class_phase ?lab a a1" and n: "valid_naming n" by (auto simp: returns_def)
    have step: "nfold name_step (t # ts) (a, ns) = nfold name_step ts (a1, ns @ [(message_full_name (tree_message t), n)])"
      by (simp add: name_step_def run nbind_def)
    have "scopes a1 (''message:'' @ message_full_name (tree_message t')) = None" if "t' \<in> set ts" for t'
    proof -
      have "message_full_name (tree_message t') \<noteq> message_full_name (tree_message t)" using Cons.prems(1) imageI [OF that] unfolding list.map distinct.simps set_map by metis
      moreover have "\<not> startswith (''message:'' @ message_full_name (tree_message t')) ''implementation:''"
        by (simp add: startswith_def)
      ultimately show ?thesis using a1 Cons.prems(4) that unfolding class_phase_def by (metis list.set_intros(2) same_append_eq)
    qed
    moreover have "allocator_ok a1" using a1 by (simp add: class_phase_def)
    ultimately have IH: "if \<exists>t\<in>set ts. shadows_member t
      then \<exists>l n' o1 o2. nfold name_step ts (a1, ns @ [(message_full_name (tree_message t), n)]) = Some (Inl (ScopeFailure (NameConflict l n' o1 o2)))
      else \<exists>a' ns'. nfold name_step ts (a1, ns @ [(message_full_name (tree_message t), n)])
          = Some (Inr (a', (ns @ [(message_full_name (tree_message t), n)]) @ ns')) \<and>
        map fst ns' = map (\<lambda>t. message_full_name (tree_message t)) ts \<and> (\<forall>n\<in>snd ` set ns'. valid_naming n)"
      by (intro Cons.IH) (use Cons.prems in simp_all)
    show ?thesis
    proof (cases "\<exists>t\<in>set ts. shadows_member t")
      case True
      then show ?thesis using IH unfolding step by simp
    next
      case none: False
      then obtain a' ns' where "nfold name_step ts (a1, ns @ [(message_full_name (tree_message t), n)])
          = Some (Inr (a', (ns @ [(message_full_name (tree_message t), n)]) @ ns'))"
        "map fst ns' = map (\<lambda>t. message_full_name (tree_message t)) ts" "\<forall>n\<in>snd ` set ns'. valid_naming n"
        using IH by auto
      then have "nfold name_step (t # ts) (a, ns) = Some (Inr (a', ns @ (message_full_name (tree_message t), n) # ns')) \<and>
          map fst ((message_full_name (tree_message t), n) # ns') = map (\<lambda>t. message_full_name (tree_message t)) (t # ts) \<and>
          (\<forall>n\<in>snd ` set ((message_full_name (tree_message t), n) # ns'). valid_naming n)"
        unfolding step using n by simp
      moreover have "\<not> (\<exists>t\<in>set (t # ts). shadows_member t)" using False none by simp
      ultimately show ?thesis by metis
    qed
  qed
qed simp

definition item_tree :: "string \<Rightarrow> message_tree" where
  \<comment> \<open>an empty message\<close>
  "item_tree n = MessageTree \<lparr>message_name = n, message_cpp_name = n, message_full_name = n, message_file_name = ''a'', message_package = [],
     message_parents = [], message_descriptor = msg_data (plain_message n []), is_map_entry = False, message_deprecated = False,
     message_fields = [], message_oneofs = [], message_constants = []\<rparr> [] []"

definition item_file :: "string list \<Rightarrow> FileModel" where
  "item_file ns = \<lparr>model_file_name = ''a'', model_package = [], model_syntax = ''proto3'', model_constants = [],
     model_messages = map item_tree ns, model_enums = []\<rparr>"

text \<open>
  C36: Naming the classes of a model always ends: the search through the infinite streams of candidate
  spellings succeeds for every member of every class, no lookup of an allocated name fails, and the
  final check finds every name it asks for. The names are portable identifiers, and those of one class
  scope do not collide. It fails only, and then always, with the conflict of a reservation: when a
  class bears the name of a member that every class declares, such as \<^verbatim>\<open>Context\<close> or \<^verbatim>\<open>create\<close>.
\<close>

theorem class_naming_ends:
  assumes "nameable files"
  shows "if \<exists>t\<in>set (class_trees files). message_cpp_name (tree_message t) \<in> set (reserved_member_names (tree_message t))
    then \<exists>l n o1 o2. allocate_message_cpp_names files = Some (Inl (ScopeFailure (NameConflict l n o1 o2)))
    else \<exists>ns. allocate_message_cpp_names files = Some (Inr ns)
      \<and> map fst ns = map (\<lambda>t. message_full_name (tree_message t)) (class_trees files)
      \<and> (\<forall>n\<in>snd ` set ns. scope_ok (class_scope n) \<and> (\<forall>v\<in>snd ` set (class_names n). is_portable_identifier v)
          \<and> (\<forall>p\<in>snd ` set (class_parameters n). valid_parameters p))"
proof -
  have all: "allocate_message_cpp_names files
      = nbind (nfold name_step (class_trees files) (\<lparr>scopes = Map.empty\<rparr>, [])) (\<lambda>(_, ns). Some (Inr ns))"
    unfolding allocate_message_cpp_names_def name_step_def [abs_def] by (rule refl)
  have start: "allocator_ok \<lparr>scopes = Map.empty\<rparr>" by (simp add: allocator_ok_def)
  note run = name_trees [OF _ _ start, of "class_trees files" "[]", unfolded shadows_member_def]
  show ?thesis
  proof (cases "\<exists>t\<in>set (class_trees files). message_cpp_name (tree_message t) \<in> set (reserved_member_names (tree_message t))")
    case True
    then show ?thesis using run assms unfolding all nameable_def by (auto simp: nbind_def)
  next
    case False
    then obtain a' ns where "nfold name_step (class_trees files) (\<lparr>scopes = Map.empty\<rparr>, []) = Some (Inr (a', ns))"
      "map fst ns = map (\<lambda>t. message_full_name (tree_message t)) (class_trees files)" "\<forall>n\<in>snd ` set ns. valid_naming n"
      using run assms unfolding nameable_def by auto
    then show ?thesis using False unfolding all by (force simp: nbind_def valid_naming_def valid_names_def)
  qed
qed


lemma item_nameable:
  assumes "distinct ns" and "\<forall>n\<in>set ns. is_portable_identifier n"
  shows "nameable [item_file ns]" and "class_trees [item_file ns] = map item_tree ns"
proof -
  have "concat (map subtrees (map item_tree ns)) = map item_tree ns"
    by (induction ns) (simp_all add: item_tree_def)
  then show trees: "class_trees [item_file ns] = map item_tree ns"
    by (simp add: class_trees_def item_file_def filter_map comp_def item_tree_def)
  show "nameable [item_file ns]"
    unfolding nameable_def trees using assms by (auto simp: item_tree_def named_ok_def comp_def)
qed

lemma class_naming_ends_witness:
  "(\<exists>ns. allocate_message_cpp_names [item_file [''Item'', ''Order'']] = Some (Inr ns) \<and> map fst ns = [''Item'', ''Order''])
   \<and> (\<exists>l n o1 o2. allocate_message_cpp_names [item_file [''Item'', ''Context'']] = Some (Inl (ScopeFailure (NameConflict l n o1 o2))))"
proof
  have p: "is_portable_identifier ''Item''" "is_portable_identifier ''Order''" "is_portable_identifier ''Context''" by code_simp+
  have good: "distinct [''Item'', ''Order'']" "\<forall>n\<in>set [''Item'', ''Order'']. is_portable_identifier n"
    and bad: "distinct [''Item'', ''Context'']" "\<forall>n\<in>set [''Item'', ''Context'']. is_portable_identifier n" using p by simp_all
  have r: "\<not> (\<exists>t\<in>set (map item_tree [''Item'', ''Order'']). message_cpp_name (tree_message t) \<in> set (reserved_member_names (tree_message t)))"
    by (simp add: item_tree_def reserved_member_names_def MESSAGE_PUBLIC_FUNCTIONS_def)
  show "\<exists>ns. allocate_message_cpp_names [item_file [''Item'', ''Order'']] = Some (Inr ns) \<and> map fst ns = [''Item'', ''Order'']"
    using class_naming_ends [OF item_nameable(1) [OF good]] r unfolding item_nameable(2) [OF good] if_not_P [OF r]
    by (auto simp: item_tree_def)
  have "\<exists>t\<in>set (map item_tree [''Item'', ''Context'']). message_cpp_name (tree_message t) \<in> set (reserved_member_names (tree_message t))"
    by (simp add: item_tree_def reserved_member_names_def)
  then show "\<exists>l n o1 o2. allocate_message_cpp_names [item_file [''Item'', ''Context'']] = Some (Inl (ScopeFailure (NameConflict l n o1 o2)))"
    using class_naming_ends [OF item_nameable(1) [OF bad]] unfolding item_nameable(2) [OF bad] by (simp only: if_P)
qed

end
