(* ===== verification/OutputPlan.thy ===== *)
theory OutputPlan
  imports Graph Sha256
begin

text \<open>
  Plans of the output coordinator (\<^verbatim>\<open>src/cmake/ProtocyteOutputCoordinator.py\<close>): the generated paths of
  the targets of a build, their checks and their digest. The casefolding of characters outside ASCII,
  which is a Unicode table of Python, is the parameter \<open>u\<close>. Paths are those of a POSIX host and
  already resolved: their directories are no symbolic links.
\<close>

section \<open>Errors\<close>

datatype plan_error =
    Malformed_plan
  | Staging_overlaps_root
  | Unexpected_staging
  | Repeated_target_metadata
  | Targets_do_not_match_outputs
  | Plan_identity_malformed
  | Unknown_target
  | Plan_does_not_match_claim
  | Plan_not_current
  | Staging_root_mismatch
  | No_outputs_for_target

datatype claim_error =
    Unreadable
  | Malformed
  | Claim_of_other_root
  | Claim_of_other_build
  | Claim_token_mismatch
  | Reset_mismatch

datatype output_error =
    Unsafe_generated_path
  | Path_contains_link
  | Non_directory_ancestor
  | Output_escapes_root
  | Staged_output_unsafe
  | Output_absent
  | Output_unsafe
  | Output_not_owned
  | Changed_outside
  | Retired_became_unsafe
  | Retired_was_modified
  | Temporary_unsafe
  | Temporary_mismatch
  | Unowned_generated_output

datatype pending_error =
    Several_pending
  | Unsafe_transaction
  | Payload_changed
  | Pending_malformed
  | Pending_bad_generation
  | Committed_conflict
  | Pending_repeats_path
  | Pending_bad_hash
  | Pending_bad_target
  | Pending_omits_prior
  | Pending_conflicts_prior
  | Pending_not_in_plan
  | Pending_snapshot_mismatch
  | Pending_not_next

datatype retirement_error =
    Unexpected_payload
  | Retires_planned
  | Bad_transfer
  | Transfer_changed_identity
  | Changes_target
  | Several_destinations
  | Unexpected_transfer
  | Bad_payload_name
  | Payload_missing

datatype coordinator_error =
    Plan_error plan_error string
  | Claim_error claim_error string
  | Output_error output_error string
  | Pending_error pending_error string
  | Retirement_error retirement_error string
  | Os_error string \<comment> \<open>an \<^verbatim>\<open>OSError\<close> the code does not turn into its own error\<close>
  | Index_error

section \<open>Text\<close>

definition lower_ascii :: "char \<Rightarrow> char" where
  "lower_ascii c = (if is_upper_ascii c then char_of (byte_of c + 32) else c)"

definition casefold_char :: "(string \<Rightarrow> string) \<Rightarrow> string \<Rightarrow> string" where
  "casefold_char u ch = (case ch of [c] \<Rightarrow> [lower_ascii c] | _ \<Rightarrow> u ch)"

definition casefold :: "(string \<Rightarrow> string) \<Rightarrow> string \<Rightarrow> string" where
  "casefold u s = concat (map (casefold_char u) (utf8_chars s))"

definition forward_slashes :: "string \<Rightarrow> string" where
  \<comment> \<open>\<^verbatim>\<open>s.replace("\", "/")\<close>\<close>
  "forward_slashes s = map (\<lambda>c. if byte_of c = 92 then CHR ''/'' else c) s"

definition is_sha256 :: "string \<Rightarrow> bool" where
  "is_sha256 v = (length v = 64 \<and> list_all (\<lambda>c. List.member ''0123456789abcdef'' c) v)"

lemma sha256_hex_is_sha256 [simp]: "is_sha256 (sha256_hex m)"
  using sha_hex.digest_length [of m] sha_hex.digest_char [of _ m]
  unfolding is_sha256_def list_all_iff by (simp del: set_simps)

section \<open>Canonical JSON\<close>

datatype json = JString string | JInt int | JArray "json list" | JObject "(string \<times> json) list"

definition utf8_value :: "string \<Rightarrow> int" where
  "utf8_value ch =
     (case map (int \<circ> byte_of) ch of
        [a] \<Rightarrow> a
      | [a, b] \<Rightarrow> (a mod 32) * 64 + b mod 64
      | [a, b, c] \<Rightarrow> ((a mod 16) * 64 + b mod 64) * 64 + c mod 64
      | a # b # c # d # _ \<Rightarrow> (((a mod 8) * 64 + b mod 64) * 64 + c mod 64) * 64 + d mod 64
      | [] \<Rightarrow> 0)"

definition json_hex :: "int \<Rightarrow> string" where
  \<comment> \<open>\<^verbatim>\<open>\uXXXX\<close>\<close>
  "json_hex n = [char_of (92::nat), CHR ''u''] @
     map (\<lambda>k. hex_lower (nat (n div 16 ^ k mod 16))) [3, 2, 1, 0]"

definition json_char :: "string \<Rightarrow> string" where
  "json_char ch = (let n = utf8_value ch; back = char_of (92::nat) in
     if n = 34 then [back, CHR 0x22]
     else if n = 92 then [back, back]
     else if n = 10 then [back, CHR ''n'']
     else if n = 13 then [back, CHR ''r'']
     else if n = 9 then [back, CHR ''t'']
     else if n = 12 then [back, CHR ''f'']
     else if n = 8 then [back, CHR ''b'']
     else if 32 \<le> n \<and> n < 127 then ch
     else if n < 65536 then json_hex n
     else json_hex (55296 + (n - 65536) div 1024) @ json_hex (56320 + (n - 65536) mod 1024))"

definition json_string :: "string \<Rightarrow> string" where
  "json_string s = [CHR 0x22] @ concat (map json_char (utf8_chars s)) @ [CHR 0x22]"

fun json_text :: "json \<Rightarrow> string" where
  "json_text (JString s) = json_string s"
| "json_text (JInt n) = dec_of_int n"
| "json_text (JArray vs) = ''['' @ join '','' (map json_text vs) @ '']''"
| "json_text (JObject fs) = ''{'' @ join '',''
     (map snd (sort_key fst (map (\<lambda>(k, v). (k, json_string k @ '':'' @ json_text v)) fs))) @ ''}''"

definition canonical_json :: "json \<Rightarrow> string" where
  "canonical_json v = json_text v @ [char_of (10::nat)]"

section \<open>Generated paths\<close>

definition path_parts :: "string \<Rightarrow> string list" where
  \<comment> \<open>the parts of a relative \<^verbatim>\<open>PurePosixPath\<close>\<close>
  "path_parts s = filter (\<lambda>p. p \<noteq> [] \<and> p \<noteq> ''.'') (split_on CHR ''/'' s)"

definition GENERATED_SUFFIXES :: "string list" where
  "GENERATED_SUFFIXES = [''.protocyte.cpp'', ''.protocyte.hpp'', ''/runtime.hpp'']"

definition generated_looking :: "(string \<Rightarrow> string) \<Rightarrow> string \<Rightarrow> bool" where
  "generated_looking u s = list_ex (endswith (casefold u s)) GENERATED_SUFFIXES"

definition validate_relative_path :: "(string \<Rightarrow> string) \<Rightarrow> string \<Rightarrow> coordinator_error + string" where
  "validate_relative_path u v =
     (let v' = forward_slashes v; parts = path_parts v' in
      if v' = [] \<or> startswith v' ''/'' \<or> List.member parts ''..'' then Inl (Output_error Unsafe_generated_path v')
      else if parts = [] then Inl Index_error
      else if casefold u (hd parts) = ''.protocyte'' \<or> \<not> generated_looking u v'
      then Inl (Output_error Unsafe_generated_path v')
      else Inr (join ''/'' parts))"

section \<open>Plans\<close>

record plan_output =
  output_target :: string
  output_relative :: string

record plan_target =
  target_identity :: string
  target_staging :: string

record plan =
  plan_root :: string
  plan_build_root :: string
  plan_build_id :: string
  plan_targets :: "plan_target list"
  plan_outputs :: "plan_output list"

definition plan_payload :: "plan \<Rightarrow> json" where
  "plan_payload p = JObject [
     (''build_id'', JString (plan_build_id p)),
     (''build_root'', JString (plan_build_root p)),
     (''outputs'', JArray (map (\<lambda>x. JObject [(''path'', JString (output_relative x)),
        (''target'', JString (output_target x))]) (plan_outputs p))),
     (''root'', JString (plan_root p)),
     (''targets'', JArray (map (\<lambda>t. JObject [(''id'', JString (target_identity t)),
        (''staging'', JString (target_staging t))]) (plan_targets p))),
     (''version'', JInt 1)]"

definition plan_digest :: "plan \<Rightarrow> string" where
  "plan_digest p = sha256_hex (canonical_json (plan_payload p))"

definition portable_identity :: "(string \<Rightarrow> string) \<Rightarrow> string \<Rightarrow> string" where
  "portable_identity u path = casefold u (forward_slashes path)"

definition path_key :: "(string \<Rightarrow> string) \<Rightarrow> string \<Rightarrow> string" where
  "path_key u path = sha256_hex (portable_identity u path)"

definition parent_path :: "string \<Rightarrow> string" where
  \<comment> \<open>\<^verbatim>\<open>path.parent\<close> of a normalized absolute path\<close>
  "parent_path p = (let d = before_last CHR ''/'' p in if d = [] then ''/'' else d)"

definition child_path :: "string \<Rightarrow> string \<Rightarrow> string" where
  "child_path d n = (if d = ''/'' then ''/'' @ n else d @ ''/'' @ n)"

definition projected_contains :: "(string \<Rightarrow> string) \<Rightarrow> string \<Rightarrow> string \<Rightarrow> bool" where
  "projected_contains u parent child =
     (let p = rstrip_char CHR ''/'' (portable_identity u parent);
          c = rstrip_char CHR ''/'' (portable_identity u child)
      in c = p \<or> startswith c (p @ ''/''))"

definition paths_overlap :: "(string \<Rightarrow> string) \<Rightarrow> string \<Rightarrow> string \<Rightarrow> bool" where
  "paths_overlap u a b = (projected_contains u a b \<or> projected_contains u b a)"

definition staging_path :: "string \<Rightarrow> string \<Rightarrow> string" where
  "staging_path root identity = child_path (parent_path root) (''.protocyte-generation-staging-'' @ identity)"

definition validate_staging_path ::
    "(string \<Rightarrow> string) \<Rightarrow> string \<Rightarrow> string \<Rightarrow> string \<Rightarrow> coordinator_error + string" where
  "validate_staging_path u root identity path =
     (if path \<noteq> staging_path root identity then Inl (Plan_error Unexpected_staging path)
      else if paths_overlap u root path then Inl (Plan_error Staging_overlaps_root path)
      else Inr path)"

definition validate_plan_targets ::
    "(string \<Rightarrow> string) \<Rightarrow> plan_target list \<Rightarrow> plan_output list \<Rightarrow> coordinator_error + unit" where
  "validate_plan_targets u targets outs =
     (let ids = map target_identity targets; stagings = map (casefold u \<circ> target_staging) targets in
      if \<not> distinct ids \<or> \<not> distinct stagings then Inl (Plan_error Repeated_target_metadata [])
      else if set ids \<noteq> output_target ` set outs then Inl (Plan_error Targets_do_not_match_outputs [])
      else Inr ())"

definition check_output :: "(string \<Rightarrow> string) \<Rightarrow> plan_output \<Rightarrow> coordinator_error + plan_output" where
  "check_output u x =
     (if \<not> is_sha256 (output_target x) then Inl (Plan_error Malformed_plan [])
      else rbind (validate_relative_path u (output_relative x)) (\<lambda>r. Inr (x\<lparr>output_relative := r\<rparr>)))"

definition check_target :: "(string \<Rightarrow> string) \<Rightarrow> string \<Rightarrow> plan_target \<Rightarrow> coordinator_error + plan_target" where
  "check_target u root t =
     (if \<not> is_sha256 (target_identity t) then Inl (Plan_error Malformed_plan [])
      else rbind (validate_staging_path u root (target_identity t) (target_staging t))
        (\<lambda>p. Inr (t\<lparr>target_staging := p\<rparr>)))"

definition from_payload :: "(string \<Rightarrow> string) \<Rightarrow> plan \<Rightarrow> string \<Rightarrow> coordinator_error + plan" where
  \<comment> \<open>\<^verbatim>\<open>Plan.from_payload\<close> of a recorded plan and its recorded digest\<close>
  "from_payload u p digest =
     rbind (rmap (check_output u) (plan_outputs p)) (\<lambda>outs.
     rbind (rmap (check_target u (plan_root p)) (plan_targets p)) (\<lambda>targets.
     rbind (validate_plan_targets u targets outs) (\<lambda>_.
     let q = p\<lparr>plan_build_id := path_key u (plan_build_root p),
         plan_targets := sort_key target_identity targets,
         plan_outputs := sort_key (\<lambda>x. (output_relative x, output_target x)) outs\<rparr>
     in if plan_build_id p \<noteq> plan_build_id q \<or> digest \<noteq> plan_digest q then Inl (Plan_error Plan_identity_malformed [])
        else Inr q)))"

definition staging_for_target :: "plan \<Rightarrow> string \<Rightarrow> coordinator_error + string" where
  "staging_for_target p identity =
     (case filter (\<lambda>t. target_identity t = identity) (plan_targets p) of
        [] \<Rightarrow> Inl (Plan_error Unknown_target identity) | t # _ \<Rightarrow> Inr (target_staging t))"

definition plan_ok :: "(string \<Rightarrow> string) \<Rightarrow> plan \<Rightarrow> bool" where
  \<comment> \<open>what reading a plan leaves: recording it and reading it back changes nothing\<close>
  "plan_ok u p \<longleftrightarrow> from_payload u p (plan_digest p) = Inr p \<and> distinct (map output_relative (plan_outputs p))
     \<and> list_all (\<lambda>x. check_output u x = Inr x) (plan_outputs p)"

lemma guards_Inr:
  "(if a then Inl x else if b then Inl y else if c then Inl z else Inr v) = Inr w \<Longrightarrow> \<not> b \<and> v = w"
  by (simp split: if_split_asm)

lemma validate_relative_pathD:
  assumes "validate_relative_path u v = Inr r"
  shows "path_parts r \<noteq> []" and "join ''/'' (path_parts r) = r" and "path_parts r = path_parts (forward_slashes v)"
proof -
  let ?ps = "path_parts (forward_slashes v)"
  have r: "r = join ''/'' ?ps" and ne: "?ps \<noteq> []"
    using guards_Inr [OF assms [unfolded validate_relative_path_def Let_def]] by simp_all
  have sep: "\<forall>w\<in>set ?ps. CHR ''/'' \<notin> set w"
    using split_on_no_sep unfolding path_parts_def by fastforce
  have split: "split_on CHR ''/'' r = ?ps"
    unfolding r by (rule split_on_join) (use ne sep in auto)
  show "path_parts r = ?ps"
    unfolding path_parts_def [of r] split by (simp add: path_parts_def)
  with r ne show "path_parts r \<noteq> []" and "join ''/'' (path_parts r) = r" by simp_all
qed

lemma path_parts_inj:
  assumes "validate_relative_path u a = Inr a" and "validate_relative_path u b = Inr b"
    and "path_parts a = path_parts b"
  shows "a = b"
  by (rule trans [OF validate_relative_pathD(2) [OF assms(1), symmetric]])
    (subst assms(3), rule validate_relative_pathD(2) [OF assms(2)])

lemma check_output_same:
  assumes "check_output u x = Inr x"
  shows "validate_relative_path u (output_relative x) = Inr (output_relative x)" and "is_sha256 (output_target x)"
proof -
  from assms obtain r where r: "validate_relative_path u (output_relative x) = Inr r" "x = x\<lparr>output_relative := r\<rparr>"
    and t: "is_sha256 (output_target x)"
    unfolding check_output_def by (auto split: if_split_asm)
  have "output_relative x = r" by (subst r(2)) simp
  with r(1) t show "validate_relative_path u (output_relative x) = Inr (output_relative x)" and "is_sha256 (output_target x)"
    by simp_all
qed

end
