(* ===== verification/Durable.thy ===== *)
theory Durable
  imports Prelude
begin

text \<open>
  Programs whose effects survive a crash. An action takes a durable state to the list of the states
  it passes through, one after each operation the file system makes durable, and to its result. A
  crash leaves any of these states behind. \<open>crash_safe P m C Q\<close> is the triple of a crash logic: from
  \<open>P\<close> every state a crash may leave satisfies \<open>C\<close>, and without a crash \<open>m\<close> returns and \<open>Q\<close> holds.
\<close>

type_synonym ('s, 'e, 'a) action = "'s \<Rightarrow> 's list \<times> ('e + 'a)"

definition outcome :: "('s, 'e, 'a) action \<Rightarrow> 's \<Rightarrow> 'e + 'a" where
  "outcome m s = snd (m s)"

definition passes :: "('s, 'e, 'a) action \<Rightarrow> 's \<Rightarrow> 's list" where
  "passes m s = fst (m s)"

definition end_state :: "('s, 'e, 'a) action \<Rightarrow> 's \<Rightarrow> 's" where
  "end_state m s = last (s # passes m s)"

definition act_return :: "'a \<Rightarrow> ('s, 'e, 'a) action" where
  "act_return x s = ([], Inr x)"

definition observe :: "('s \<Rightarrow> 'e + 'a) \<Rightarrow> ('s, 'e, 'a) action" where
  "observe f s = ([], f s)"

definition durable :: "('s \<Rightarrow> 's) \<Rightarrow> ('s, 'e, unit) action" where
  "durable f s = ([f s], Inr ())"

definition act_bind :: "('s, 'e, 'a) action \<Rightarrow> ('a \<Rightarrow> ('s, 'e, 'b) action) \<Rightarrow> ('s, 'e, 'b) action" where
  "act_bind m f s =
     (case outcome m s of
        Inl e \<Rightarrow> (passes m s, Inl e)
      | Inr x \<Rightarrow> (passes m s @ passes (f x) (end_state m s), outcome (f x) (end_state m s)))"

fun act_each :: "('a \<Rightarrow> ('s, 'e, unit) action) \<Rightarrow> 'a list \<Rightarrow> ('s, 'e, unit) action" where
  "act_each f [] = act_return ()"
| "act_each f (x # xs) = act_bind (f x) (\<lambda>_. act_each f xs)"

definition act_when :: "bool \<Rightarrow> ('s, 'e, unit) action \<Rightarrow> ('s, 'e, unit) action" where
  "act_when b m = (if b then m else act_return ())"

fun act_fold :: "('a \<Rightarrow> 'b \<Rightarrow> ('s, 'e, 'b) action) \<Rightarrow> 'a list \<Rightarrow> 'b \<Rightarrow> ('s, 'e, 'b) action" where
  "act_fold f [] b = act_return b"
| "act_fold f (x # xs) b = act_bind (f x b) (act_fold f xs)"

definition act_on_error :: "('s, 'e, 'a) action \<Rightarrow> ('s, 'e, unit) action \<Rightarrow> ('s, 'e, 'a) action" where
  \<comment> \<open>\<^verbatim>\<open>try: m except: cleanup; raise\<close>, with the errors of the cleanup suppressed\<close>
  "act_on_error m c s = (passes m s @
     (case outcome m s of Inl e \<Rightarrow> passes c (end_state m s) | Inr x \<Rightarrow> []), outcome m s)"

lemma act_results [simp]:
  "outcome (act_return x) s = Inr x" "passes (act_return x) s = []" "end_state (act_return x) s = s"
  "outcome (observe g) s = g s" "passes (observe g) s = []" "end_state (observe g) s = s"
  "outcome (durable f) s = Inr ()" "passes (durable f) s = [f s]" "end_state (durable f) s = f s"
  by (simp_all add: outcome_def passes_def end_state_def act_return_def observe_def durable_def)

lemma outcome_bind: "outcome (act_bind m f) s = rbind (outcome m s) (\<lambda>x. outcome (f x) (end_state m s))"
  by (simp add: outcome_def [of "act_bind m f"] act_bind_def split: sum.split)

lemma passes_bind: "passes (act_bind m f) s =
    passes m s @ (case outcome m s of Inl e \<Rightarrow> [] | Inr x \<Rightarrow> passes (f x) (end_state m s))"
  by (simp add: passes_def [of "act_bind m f"] act_bind_def split: sum.split)

lemma end_state_bind: "end_state (act_bind m f) s =
    (case outcome m s of Inl e \<Rightarrow> end_state m s | Inr x \<Rightarrow> end_state (f x) (end_state m s))"
  by (simp add: end_state_def passes_bind split: sum.split)

lemma on_error_results:
  "outcome (act_on_error m c) s = outcome m s"
  "passes (act_on_error m c) s = passes m s @
     (case outcome m s of Inl e \<Rightarrow> passes c (end_state m s) | Inr x \<Rightarrow> [])"
  "end_state (act_on_error m c) s = (case outcome m s of Inl e \<Rightarrow> end_state c (end_state m s) | Inr x \<Rightarrow> end_state m s)"
  by (simp_all add: outcome_def [of "act_on_error m c"] passes_def [of "act_on_error m c"] end_state_def
      act_on_error_def split: sum.split)

section \<open>Crash triples\<close>

definition crash_safe ::
    "('s \<Rightarrow> bool) \<Rightarrow> ('s, 'e, 'a) action \<Rightarrow> ('s \<Rightarrow> bool) \<Rightarrow> ('a \<Rightarrow> 's \<Rightarrow> bool) \<Rightarrow> bool" where
  "crash_safe P m C Q \<longleftrightarrow> (\<forall>s. P s \<longrightarrow> (\<forall>u\<in>set (passes m s). C u)
     \<and> (\<exists>x. outcome m s = Inr x \<and> Q x (end_state m s)))"

lemma crash_safeI:
  assumes "\<And>s u. P s \<Longrightarrow> u \<in> set (passes m s) \<Longrightarrow> C u"
    and "\<And>s. P s \<Longrightarrow> \<exists>x. outcome m s = Inr x \<and> Q x (end_state m s)"
  shows "crash_safe P m C Q"
  using assms unfolding crash_safe_def by blast

lemma crash_safeD:
  assumes "crash_safe P m C Q" and "P s"
  shows "u \<in> set (passes m s) \<Longrightarrow> C u" and "\<exists>x. outcome m s = Inr x \<and> Q x (end_state m s)"
  using assms unfolding crash_safe_def by blast+

lemma crash_safe_weaken:
  assumes "crash_safe P m C Q" and "\<And>s. P' s \<Longrightarrow> P s" and "\<And>s. C s \<Longrightarrow> C' s"
    and "\<And>x s. Q x s \<Longrightarrow> Q' x s"
  shows "crash_safe P' m C' Q'"
  using assms unfolding crash_safe_def by blast

lemma crash_safe_vacuous: "(\<And>s. \<not> P s) \<Longrightarrow> crash_safe P m C Q"
  unfolding crash_safe_def by blast

lemma crash_safe_disj:
  "crash_safe P m C Q \<Longrightarrow> crash_safe P' m C Q \<Longrightarrow> crash_safe (\<lambda>s. P s \<or> P' s) m C Q"
  unfolding crash_safe_def by blast

lemma crash_safe_return: "(\<And>s. P s \<Longrightarrow> Q x s) \<Longrightarrow> crash_safe P (act_return x) C Q"
  unfolding crash_safe_def by simp

lemma crash_safe_observe:
  "(\<And>s. P s \<Longrightarrow> \<exists>x. g s = Inr x \<and> Q x s) \<Longrightarrow> crash_safe P (observe g) C Q"
  unfolding crash_safe_def by simp

lemma crash_safe_durable:
  "(\<And>s. P s \<Longrightarrow> C (f s)) \<Longrightarrow> (\<And>s. P s \<Longrightarrow> Q () (f s)) \<Longrightarrow> crash_safe P (durable f) C Q"
  unfolding crash_safe_def by simp

lemma crash_safe_bind:
  assumes m: "crash_safe P m C R" and f: "\<And>x. crash_safe (R x) (f x) C Q"
  shows "crash_safe P (act_bind m f) C Q"
proof (rule crash_safeI)
  fix s u
  assume P: "P s" and u: "u \<in> set (passes (act_bind m f) s)"
  from crash_safeD(2) [OF m P] obtain x where x: "outcome m s = Inr x" "R x (end_state m s)" by blast
  from u consider "u \<in> set (passes m s)" | "u \<in> set (passes (f x) (end_state m s))"
    by (auto simp: passes_bind x)
  then show "C u"
    by cases (rule crash_safeD(1) [OF m P], assumption, rule crash_safeD(1) [OF f x(2)])
next
  fix s
  assume P: "P s"
  from crash_safeD(2) [OF m P] obtain x where x: "outcome m s = Inr x" "R x (end_state m s)" by blast
  with crash_safeD(2) [OF f x(2)] show "\<exists>y. outcome (act_bind m f) s = Inr y \<and> Q y (end_state (act_bind m f) s)"
    by (simp add: outcome_bind end_state_bind)
qed

lemma crash_safe_each:
  assumes "\<And>k. k < length xs \<Longrightarrow> crash_safe (I k) (f (xs ! k)) C (\<lambda>_. I (Suc k))"
  shows "crash_safe (I 0) (act_each f xs) C (\<lambda>_. I (length xs))"
  using assms
proof (induction xs arbitrary: I)
  case Nil
  show ?case by (simp add: crash_safe_return)
next
  case (Cons x xs)
  have "crash_safe (I 0) (f x) C (\<lambda>_. I (Suc 0))" using Cons.prems [of 0] by simp
  moreover have "crash_safe (I (Suc 0)) (act_each f xs) C (\<lambda>_. I (Suc (length xs)))"
    using Cons.IH [of "\<lambda>k. I (Suc k)"] Cons.prems by fastforce
  ultimately show ?case by (auto intro: crash_safe_bind)
qed

lemma crash_safe_each_const:
  assumes "\<And>x. x \<in> set xs \<Longrightarrow> crash_safe I (f x) C (\<lambda>_. I)"
  shows "crash_safe I (act_each f xs) C (\<lambda>_. I)"
  using crash_safe_each [of xs "\<lambda>_. I" f C] assms by simp

lemma crash_safe_when:
  assumes "b \<Longrightarrow> crash_safe P m C Q" and "\<And>s. \<not> b \<Longrightarrow> P s \<Longrightarrow> Q () s"
  shows "crash_safe P (act_when b m) C Q"
  using assms by (cases b) (auto simp: act_when_def intro: crash_safe_return)

section \<open>Properties of every step\<close>

definition steps_ok :: "('s \<Rightarrow> 's \<Rightarrow> bool) \<Rightarrow> 's \<Rightarrow> 's list \<Rightarrow> bool" where
  \<comment> \<open>\<open>R\<close> relates each state of the run to the next\<close>
  "steps_ok R s us \<longleftrightarrow> list_all2 R (butlast (s # us)) us"

lemma steps_ok_Nil [simp]: "steps_ok R s []"
  by (simp add: steps_ok_def)

lemma steps_ok_Cons [simp]: "steps_ok R s (u # us) \<longleftrightarrow> R s u \<and> steps_ok R u us"
  by (simp add: steps_ok_def)

lemma steps_ok_append: "steps_ok R s (us @ vs) \<longleftrightarrow> steps_ok R s us \<and> steps_ok R (last (s # us)) vs"
  by (induction us arbitrary: s) auto

lemma steps_ok_bind:
  assumes "steps_ok R s (passes m s)"
    and "\<And>x. outcome m s = Inr x \<Longrightarrow> steps_ok R (end_state m s) (passes (f x) (end_state m s))"
  shows "steps_ok R s (passes (act_bind m f) s)"
  using assms by (auto simp: passes_bind steps_ok_append end_state_def split: sum.split)

definition step_safe ::
    "('s \<Rightarrow> 's \<Rightarrow> bool) \<Rightarrow> ('s \<Rightarrow> bool) \<Rightarrow> ('s, 'e, 'a) action \<Rightarrow> ('a \<Rightarrow> 's \<Rightarrow> bool) \<Rightarrow> bool" where
  \<comment> \<open>every step from a state of \<open>P\<close> satisfies \<open>R\<close>, and \<open>Q\<close> holds if \<open>m\<close> returns\<close>
  "step_safe R P m Q \<longleftrightarrow> (\<forall>s. P s \<longrightarrow> steps_ok R s (passes m s)
     \<and> (\<forall>x. outcome m s = Inr x \<longrightarrow> Q x (end_state m s)))"

lemma step_safeI:
  assumes "\<And>s. P s \<Longrightarrow> steps_ok R s (passes m s)"
    and "\<And>s x. P s \<Longrightarrow> outcome m s = Inr x \<Longrightarrow> Q x (end_state m s)"
  shows "step_safe R P m Q"
  using assms unfolding step_safe_def by blast

lemma step_safeD:
  assumes "step_safe R P m Q" and "P s"
  shows "steps_ok R s (passes m s)" and "outcome m s = Inr x \<Longrightarrow> Q x (end_state m s)"
  using assms unfolding step_safe_def by blast+

lemma step_safe_weaken:
  assumes "step_safe R P m Q" and "\<And>s. P' s \<Longrightarrow> P s" and "\<And>x s. Q x s \<Longrightarrow> Q' x s"
  shows "step_safe R P' m Q'"
  using assms unfolding step_safe_def by blast

lemma step_safe_return: "(\<And>s. P s \<Longrightarrow> Q x s) \<Longrightarrow> step_safe R P (act_return x) Q"
  unfolding step_safe_def by simp

lemma step_safe_observe: "(\<And>s x. P s \<Longrightarrow> g s = Inr x \<Longrightarrow> Q x s) \<Longrightarrow> step_safe R P (observe g) Q"
  unfolding step_safe_def by simp

lemma step_safe_fail: "step_safe R P (observe (\<lambda>s. Inl (e s))) Q"
  unfolding step_safe_def by simp

lemma step_safe_durable:
  "(\<And>s. P s \<Longrightarrow> R s (f s)) \<Longrightarrow> (\<And>s. P s \<Longrightarrow> Q () (f s)) \<Longrightarrow> step_safe R P (durable f) Q"
  unfolding step_safe_def by simp

lemma step_safe_bind:
  assumes m: "step_safe R P m Q'" and f: "\<And>x. step_safe R (Q' x) (f x) Q"
  shows "step_safe R P (act_bind m f) Q"
proof (rule step_safeI)
  fix s assume P: "P s"
  show "steps_ok R s (passes (act_bind m f) s)"
    by (rule steps_ok_bind) (use step_safeD(1) [OF m P] step_safeD(1) [OF f step_safeD(2) [OF m P]] in blast)+
  fix x assume "outcome (act_bind m f) s = Inr x"
  then obtain y where "outcome m s = Inr y" and "outcome (f y) (end_state m s) = Inr x"
    by (auto simp: outcome_bind)
  then show "Q x (end_state (act_bind m f) s)"
    using step_safeD(2) [OF f step_safeD(2) [OF m P]] by (simp add: end_state_bind)
qed

lemma step_safe_each:
  assumes "\<And>x. x \<in> set xs \<Longrightarrow> step_safe R I (f x) (\<lambda>_. I)"
  shows "step_safe R I (act_each f xs) (\<lambda>_. I)"
  using assms
proof (induction xs)
  case Nil
  show ?case by (simp add: step_safe_return)
next
  case (Cons x xs)
  show ?case unfolding act_each.simps
    by (rule step_safe_bind [where Q' = "\<lambda>_. I"]) (use Cons in simp_all)
qed

lemma step_safe_fold:
  assumes "\<And>x b. x \<in> set xs \<Longrightarrow> step_safe R I (f x b) (\<lambda>_. I)"
  shows "step_safe R I (act_fold f xs b) (\<lambda>_. I)"
  using assms
proof (induction xs arbitrary: b)
  case Nil
  show ?case by (simp add: step_safe_return)
next
  case (Cons x xs)
  show ?case unfolding act_fold.simps
    by (rule step_safe_bind [where Q' = "\<lambda>_. I"]) (use Cons in simp_all)
qed

lemma step_safe_fold_upto:
  assumes "\<And>k b. k < length xs \<Longrightarrow> step_safe R (I k b) (f (xs ! k) b) (I (Suc k))"
  shows "step_safe R (I 0 b) (act_fold f xs b) (I (length xs))"
  using assms
proof (induction xs arbitrary: I b)
  case Nil
  show ?case by (simp add: step_safe_return)
next
  case (Cons x xs)
  have "step_safe R (I 0 b) (f x b) (I (Suc 0))" using Cons.prems [of 0] by simp
  moreover have "step_safe R (I (Suc 0) y) (act_fold f xs y) (I (Suc (length xs)))" for y
    using Cons.IH [of "\<lambda>k. I (Suc k)"] Cons.prems by fastforce
  ultimately show ?case by (auto intro: step_safe_bind)
qed

lemma step_safe_when:
  assumes "b \<Longrightarrow> step_safe R P m Q" and "\<And>s. \<not> b \<Longrightarrow> P s \<Longrightarrow> Q () s"
  shows "step_safe R P (act_when b m) Q"
  using assms by (cases b) (auto simp: act_when_def intro: step_safe_return)

lemma step_safe_on_error:
  assumes "step_safe R P m Q" and "step_safe R (\<lambda>_. True) c (\<lambda>_ _. True)"
  shows "step_safe R P (act_on_error m c) Q"
proof (rule step_safeI)
  fix s assume P: "P s"
  have "steps_ok R (end_state m s) (passes c (end_state m s))" by (rule step_safeD(1) [OF assms(2)]) simp
  then show "steps_ok R s (passes (act_on_error m c) s)"
    using step_safeD(1) [OF assms(1) P]
    by (cases "outcome m s") (simp_all add: on_error_results steps_ok_append end_state_def)
  fix x assume "outcome (act_on_error m c) s = Inr x"
  then show "Q x (end_state (act_on_error m c) s)"
    using step_safeD(2) [OF assms(1) P] by (simp add: on_error_results)
qed

lemma step_safe_vacuous: "(\<And>s. \<not> P s) \<Longrightarrow> step_safe R P m Q"
  unfolding step_safe_def by blast

lemma steps_ok_all: "steps_ok (\<lambda>_. C) s us \<longleftrightarrow> (\<forall>u\<in>set us. C u)"
  by (induction us arbitrary: s) auto

lemma crash_safe_steps: "crash_safe P m C Q \<Longrightarrow> step_safe (\<lambda>_. C) P m Q"
  unfolding step_safe_def crash_safe_def steps_ok_all by fastforce

lemma end_state_visited: "end_state m s \<in> set (s # passes m s)"
  unfolding end_state_def by (metis last_in_set list.distinct(1))

lemma step_safe_cleanup:
  assumes m: "step_safe (\<lambda>_. C) P m Q" and c: "step_safe (\<lambda>_. C) C c (\<lambda>_ _. True)" and start: "\<And>s. P s \<Longrightarrow> C s"
  shows "step_safe (\<lambda>_. C) P (act_on_error m c) Q"
proof (rule step_safeI)
  fix s assume P: "P s"
  have "C (end_state m s)"
    using end_state_visited [of m s] step_safeD(1) [OF m P] start [OF P] by (auto simp: steps_ok_all)
  then show "steps_ok (\<lambda>_. C) s (passes (act_on_error m c) s)"
    using step_safeD(1) [OF m P] step_safeD(1) [OF c]
    by (auto simp: on_error_results steps_ok_all split: sum.split)
  fix x assume "outcome (act_on_error m c) s = Inr x"
  then show "Q x (end_state (act_on_error m c) s)"
    using step_safeD(2) [OF m P] by (simp add: on_error_results)
qed

lemma step_safe_passes: "step_safe R (\<lambda>_. True) m Q \<Longrightarrow> steps_ok R s (passes m s)"
  by (rule step_safeD(1)) simp_all

section \<open>Recovery\<close>

inductive interrupted :: "('s, 'e, 'a) action \<Rightarrow> 's \<Rightarrow> 's \<Rightarrow> bool" for run where
  \<comment> \<open>the states that runs of \<open>run\<close>, each cut short by a crash, lead to\<close>
  started: "interrupted run s s"
| crashed: "interrupted run s t \<Longrightarrow> u \<in> set (passes run t) \<Longrightarrow> interrupted run s u"

inductive_cases interruptedE: "interrupted run s t"

locale recovery =
  fixes run :: "('s, 'e, 'a) action" and crashed_ok :: "'s \<Rightarrow> bool" and repaired :: "'s \<Rightarrow> bool"
  assumes crash_closed: "crashed_ok s \<Longrightarrow> u \<in> set (passes run s) \<Longrightarrow> crashed_ok u"
    and repairs: "crashed_ok s \<Longrightarrow> \<exists>x. outcome run s = Inr x \<and> repaired (end_state run s)"
begin

lemma interrupted_ok: "interrupted run s t \<Longrightarrow> crashed_ok s \<Longrightarrow> crashed_ok t"
  by (induction rule: interrupted.induct) (auto intro: crash_closed)

lemma interrupted_repaired:
  "interrupted run s t \<Longrightarrow> crashed_ok s \<Longrightarrow> \<exists>x. outcome run t = Inr x \<and> repaired (end_state run t)"
  by (rule repairs) (rule interrupted_ok)

end

lemma recoveryI: "crash_safe C run C (\<lambda>_. Q) \<Longrightarrow> recovery run C Q"
  by unfold_locales (blast dest: crash_safeD)+

end
