(* ===== verification/OutputStore.thy ===== *)
theory OutputStore
  imports OutputPlan Durable "HOL-Library.Sublist"
begin

text \<open>
  The durable state of the output coordinator and its primitive operations on generated files. A tree
  maps the parts of a path below a root to what is there, on a file system that distinguishes
  spellings; the root itself is a directory. Each JSON document of the coordinator is a value of its
  record, and replacing one (\<^verbatim>\<open>_atomic_write\<close>) is a single durable step.
\<close>

section \<open>Trees\<close>

datatype node = Regular "int \<times> int" string \<comment> \<open>device and inode, content\<close> | Link | Directory | Other

type_synonym tree = "(string list, node) dict"

definition node_at :: "tree \<Rightarrow> string list \<Rightarrow> node option" where
  "node_at t p = (if p = [] then Some Directory else map_of t p)"

definition lexists :: "tree \<Rightarrow> string list \<Rightarrow> bool" where
  "lexists t p = (node_at t p \<noteq> None)"

definition set_node :: "tree \<Rightarrow> string list \<Rightarrow> node \<Rightarrow> tree" where
  "set_node t p n = (if p = [] then t else dict_set t p n)"

definition remove_node :: "tree \<Rightarrow> string list \<Rightarrow> tree" where
  "remove_node t p = filter (\<lambda>q. fst q \<noteq> p) t"

lemma node_at_set: "p \<noteq> [] \<Longrightarrow> node_at (set_node t p n) q = (if q = p then Some n else node_at t q)"
  by (simp add: node_at_def set_node_def)

lemma set_node_root [simp]: "set_node t [] n = t"
  by (simp add: set_node_def)

lemma node_at_set_any: "node_at (set_node t p n) q = (if q = p \<and> p \<noteq> [] then Some n else node_at t q)"
  by (cases "p = []") (simp_all add: node_at_set)

lemma map_of_filter_key: "map_of (filter (\<lambda>q. fst q \<noteq> k) d) j = (if j = k then None else map_of d j)"
  by (induction d) auto

lemma node_at_remove: "p \<noteq> [] \<Longrightarrow> node_at (remove_node t p) q = (if q = p then None else node_at t q)"
  by (simp add: node_at_def remove_node_def map_of_filter_key)

definition existing_part :: "tree \<Rightarrow> string list \<Rightarrow> string list" where
  \<comment> \<open>the nearest existing ancestor, which may be the path itself\<close>
  "existing_part t p = last (filter (lexists t) (prefixes p))"

definition output_path :: "tree \<Rightarrow> string \<Rightarrow> coordinator_error + string list" where
  "output_path t relative =
     (let p = path_parts relative; q = existing_part t p in
      if list_ex (\<lambda>r. node_at t r = Some Link) (prefixes q) then Inl (Output_error Path_contains_link relative)
      else if node_at t q \<noteq> Some Directory
              \<and> \<not> (q = p \<and> (case node_at t q of Some (Regular _ _) \<Rightarrow> True | _ \<Rightarrow> False))
      then Inl (Output_error Non_directory_ancestor relative)
      else if p = [] then Inl (Output_error Output_escapes_root relative)
      else Inr p)"

definition existing_file_identity :: "tree \<Rightarrow> string list \<Rightarrow> (int \<times> int) option" where
  "existing_file_identity t p = (case node_at t p of Some (Regular i _) \<Rightarrow> Some i | _ \<Rightarrow> None)"

definition require_observed_state ::
    "tree \<Rightarrow> string list \<Rightarrow> string option \<Rightarrow> bool \<Rightarrow> coordinator_error + unit" where
  "require_observed_state t p expected allow_absent =
     (case node_at t p of
        None \<Rightarrow> raise_if (\<not> allow_absent) (Output_error Output_absent (join ''/'' p))
      | Some (Regular _ b) \<Rightarrow> raise_if (expected \<noteq> Some (sha256_hex b)) (Output_error Output_not_owned (join ''/'' p))
      | Some _ \<Rightarrow> Inl (Output_error Output_unsafe (join ''/'' p)))"

section \<open>Two spellings of one file\<close>

definition children :: "tree \<Rightarrow> string list \<Rightarrow> string list" where
  \<comment> \<open>the names in a directory\<close>
  "children t d = remdups (List.map_filter
     (\<lambda>(p, _). if startswith p d \<and> length d < length p then Some (p ! length d) else None) t)"

fun scan_spelling ::
    "(string \<Rightarrow> string) \<Rightarrow> tree \<Rightarrow> string list \<Rightarrow> string list \<Rightarrow> bool" where
  \<comment> \<open>each part of the path names one entry of its directory, whatever the spelling\<close>
  "scan_spelling u t current [] = True"
| "scan_spelling u t current (part # parts) =
     (node_at t current = Some Directory \<and>
      (case filter (\<lambda>n. casefold u n = casefold u part) (children t current) of
         [n] \<Rightarrow> scan_spelling u t (current @ [n]) parts
       | _ \<Rightarrow> False))"

definition same_file :: "tree \<Rightarrow> string list \<Rightarrow> string list \<Rightarrow> bool" where
  \<comment> \<open>\<^verbatim>\<open>os.path.samefile\<close>, which raises \<^verbatim>\<open>OSError\<close> for a missing file\<close>
  "same_file t a b = (case (node_at t a, node_at t b) of
     (Some (Regular i _), Some (Regular j _)) \<Rightarrow> i = j
   | (Some _, Some _) \<Rightarrow> a = b
   | _ \<Rightarrow> False)"

definition case_spelling_alias ::
    "(string \<Rightarrow> string) \<Rightarrow> tree \<Rightarrow> string \<Rightarrow> string \<Rightarrow> coordinator_error + bool" where
  "case_spelling_alias u t first second =
     (let a = path_parts first; b = path_parts second in
      if a = b \<or> map (casefold u) a \<noteq> map (casefold u) b then Inr False
      else if \<not> scan_spelling u t [] a then Inr False
      else rbind (output_path t first) (\<lambda>p. rbind (output_path t second) (\<lambda>q. Inr (same_file t p q))))"

section \<open>The documents of the coordinator\<close>

record snapshot_entry =
  entry_sha256 :: string
  entry_target :: string

type_synonym entries = "(string, snapshot_entry) dict"

record snapshot =
  snapshot_token :: string
  snapshot_entries :: entries
  snapshot_generation :: int

record transfer =
  transfer_device :: int
  transfer_inode :: int
  transfer_path :: string

record pending_entry =
  pe_after :: "string option"
  pe_before :: "string option"
  pe_path :: string
  pe_payload :: "string option"
  pe_target :: string
  pe_transfer :: "transfer option"

record pending =
  base_generation :: int
  pending_entries :: "pending_entry list"
  pending_id :: string
  new_snapshot :: snapshot
  pending_plan :: plan
  pending_plan_digest :: string

record claim =
  claim_build_id :: string
  claim_build_root :: string
  claim_root :: string
  claim_root_key :: string
  claim_token :: string

record reset_intent =
  intent_token :: string
  intent_entries :: entries
  intent_staging :: "(string \<times> string) list"

record transaction =
  payloads :: "(string, string) dict"
  pending_json :: "pending option"

record store =
  outputs :: tree
  stagings :: "(string, tree) dict"
  claim_json :: "claim option"
  plan_json :: "(plan \<times> string) option"
  snapshot_json :: "snapshot option"
  transactions :: "(string, transaction) dict"
  reset_json :: "reset_intent option"

record host =
  casefold_of :: "string \<Rightarrow> string" \<comment> \<open>of a character outside ASCII\<close>
  new_identity :: "int \<times> int" \<comment> \<open>device and inode of a file the coordinator creates\<close>
  scan_order :: "string list \<Rightarrow> string list" \<comment> \<open>the order in which a directory lists its entries\<close>

type_synonym 'a coordinator = "(store, coordinator_error, 'a) action"

definition sorted_entries :: "entries \<Rightarrow> entries" where
  "sorted_entries d = sort_key fst d"

definition without :: "('k, 'v) dict \<Rightarrow> 'k \<Rightarrow> ('k, 'v) dict" where
  "without d k = filter (\<lambda>q. fst q \<noteq> k) d"

definition snapshot_entry_for_path ::
    "host \<Rightarrow> tree \<Rightarrow> entries \<Rightarrow> string \<Rightarrow> coordinator_error + (string \<times> snapshot_entry) option" where
  "snapshot_entry_for_path h t es relative =
     (case map_of es relative of
        Some e \<Rightarrow> Inr (Some (relative, e))
      | None \<Rightarrow> rfold (\<lambda>(r, e) found.
            if found \<noteq> None then Inr found
            else rbind (case_spelling_alias (casefold_of h) t relative r)
              (\<lambda>b. Inr (if b then Some (r, e) else None))) es None)"

section \<open>Durable operations on files\<close>

definition set_output :: "string list \<Rightarrow> node \<Rightarrow> unit coordinator" where
  "set_output p n = durable (\<lambda>s. s\<lparr>outputs := set_node (outputs s) p n\<rparr>)"

definition unlink_output :: "string list \<Rightarrow> unit coordinator" where
  "unlink_output p = durable (\<lambda>s. s\<lparr>outputs := remove_node (outputs s) p\<rparr>)"

definition make_directory :: "string list \<Rightarrow> unit coordinator" where
  "make_directory d = act_bind (observe (\<lambda>s. Inr (lexists (outputs s) d)))
     (\<lambda>present. act_when (\<not> present) (set_output d Directory))"

definition durable_mkdir :: "string list \<Rightarrow> unit coordinator" where
  \<comment> \<open>below the output root: the path must be projectable, then missing ancestors are created\<close>
  "durable_mkdir d = act_bind
     (observe (\<lambda>s. case node_at (outputs s) (existing_part (outputs s) d) of
        Some Directory \<Rightarrow>
          raise_if (list_ex (\<lambda>r. node_at (outputs s) r = Some Link) (prefixes (existing_part (outputs s) d)))
            (Output_error Path_contains_link (join ''/'' d))
      | _ \<Rightarrow> Inl (Output_error Non_directory_ancestor (join ''/'' d))))
     (\<lambda>_. act_each make_directory (prefixes d))"

definition temporary_name :: "string list \<Rightarrow> string \<Rightarrow> nat \<Rightarrow> string list" where
  "temporary_name p tid i = butlast p @
     [''.'' @ last p @ ''.protocyte-'' @ tid @ ''-'' @ dec_of_nat i @ ''.tmp'']"

definition content_of :: "node option \<Rightarrow> string option" where
  "content_of n = (case n of Some (Regular _ b) \<Rightarrow> Some b | _ \<Rightarrow> None)"

definition replace_output :: "string list \<Rightarrow> string list \<Rightarrow> unit coordinator" where
  \<comment> \<open>\<^verbatim>\<open>os.replace(temporary, destination)\<close>\<close>
  "replace_output temp p = act_bind
     (observe (\<lambda>s. if node_at (outputs s) p = Some Directory then Inl (Os_error (join ''/'' p))
        else case node_at (outputs s) temp of None \<Rightarrow> Inl (Os_error (join ''/'' temp)) | Some n \<Rightarrow> Inr n))
     (\<lambda>n. durable (\<lambda>s. s\<lparr>outputs := set_node (remove_node (outputs s) temp) p n\<rparr>))"

definition write_temporary :: "host \<Rightarrow> string list \<Rightarrow> string \<Rightarrow> unit coordinator" where
  \<comment> \<open>a new file; a crash may leave it empty\<close>
  "write_temporary h temp b = act_bind (set_output temp (Regular (new_identity h) []))
     (\<lambda>_. set_output temp (Regular (new_identity h) b))"

definition install_file :: "host \<Rightarrow> string list \<Rightarrow> string \<Rightarrow> string \<Rightarrow> string \<Rightarrow> nat \<Rightarrow> unit coordinator" where
  "install_file h p payload after tid i = (let temp = temporary_name p tid i in
     act_bind (observe (\<lambda>s. Inr (node_at (outputs s) temp))) (\<lambda>left.
     if left \<noteq> None \<and> content_of left = None
     then observe (\<lambda>_. Inl (Output_error Temporary_unsafe (join ''/'' temp)))
     else
       act_bind (act_when (left \<noteq> None) (unlink_output temp)) (\<lambda>_.
       act_bind (write_temporary h temp payload) (\<lambda>_.
       if sha256_hex payload \<noteq> after then observe (\<lambda>_. Inl (Output_error Temporary_mismatch (join ''/'' temp)))
       else replace_output temp p))))"

definition publish_one ::
    "host \<Rightarrow> string list \<Rightarrow> string \<Rightarrow> string option \<Rightarrow> string \<Rightarrow> string \<Rightarrow> nat \<Rightarrow> unit coordinator" where
  \<comment> \<open>\<open>payload\<close> is the content of the payload file; \<open>output_path\<close> has refused links before\<close>
  "publish_one h p payload before after tid i =
     act_bind (durable_mkdir (butlast p)) (\<lambda>_.
     act_bind (observe (\<lambda>s. Inr (node_at (outputs s) p))) (\<lambda>found.
     let observed = map_option sha256_hex (content_of found) in
     if found \<noteq> None \<and> observed = Some after then act_return ()
     else if found \<noteq> None \<and> observed \<noteq> before then observe (\<lambda>_. Inl (Output_error Changed_outside (join ''/'' p)))
     else install_file h p payload after tid i))"

definition delete_if_state :: "string list \<Rightarrow> string option \<Rightarrow> unit coordinator" where
  "delete_if_state p before = act_bind (observe (\<lambda>s. Inr (node_at (outputs s) p))) (\<lambda>found.
     case found of
       None \<Rightarrow> act_return ()
     | Some (Regular _ b) \<Rightarrow>
         if before \<noteq> Some (sha256_hex b) then observe (\<lambda>_. Inl (Output_error Retired_was_modified (join ''/'' p)))
         else unlink_output p
     | Some _ \<Rightarrow> observe (\<lambda>_. Inl (Output_error Retired_became_unsafe (join ''/'' p))))"

section \<open>Transaction directories\<close>

definition update_transaction :: "string \<Rightarrow> (transaction \<Rightarrow> transaction) \<Rightarrow> unit coordinator" where
  "update_transaction tid f = durable (\<lambda>s. case map_of (transactions s) tid of
     None \<Rightarrow> s | Some td \<Rightarrow> s\<lparr>transactions := dict_set (transactions s) tid (f td)\<rparr>)"

definition transaction_items :: "transaction \<Rightarrow> string list" where
  "transaction_items td = (if pending_json td = None then [] else [''pending.json'']) @ map fst (payloads td)"

definition remove_item :: "string \<Rightarrow> string \<Rightarrow> unit coordinator" where
  "remove_item tid n = update_transaction tid (\<lambda>td. if n = ''pending.json'' then td\<lparr>pending_json := None\<rparr>
     else td\<lparr>payloads := without (payloads td) n\<rparr>)"

definition remove_transaction :: "host \<Rightarrow> string \<Rightarrow> unit coordinator" where
  \<comment> \<open>\<^verbatim>\<open>_durable_rmtree\<close>: the entries in the order the directory lists them, then the directory\<close>
  "remove_transaction h tid = act_bind (observe (\<lambda>s. Inr (map_of (transactions s) tid))) (\<lambda>found.
     case found of
       None \<Rightarrow> act_return ()
     | Some td \<Rightarrow> act_bind (act_each (remove_item tid) (scan_order h (transaction_items td)))
         (\<lambda>_. durable (\<lambda>s. s\<lparr>transactions := without (transactions s) tid\<rparr>)))"

end
