(* ===== verification/OutputTransactions.thy ===== *)
theory OutputTransactions
  imports OutputStore
begin

text \<open>
  Claims, snapshots and transactions of one output root, from \<^verbatim>\<open>OutputCoordinator\<close>: the checks of
  recorded documents, the write-ahead transaction with its recovery, publication, retirement,
  reconciliation and reset. Locks are held for the whole of an operation, so operations of the
  coordinator never interleave; the random names \<^verbatim>\<open>secrets.token_hex\<close> yields are arguments.
\<close>

section \<open>Recorded documents\<close>

definition sha_entry :: "snapshot_entry \<Rightarrow> bool" where
  "sha_entry e = (is_sha256 (entry_sha256 e) \<and> is_sha256 (entry_target e))"

definition check_entries :: "host \<Rightarrow> entries \<Rightarrow> claim_error \<Rightarrow> coordinator_error + unit" where
  "check_entries h es err = each (\<lambda>(r, e). rbind (validate_relative_path (casefold_of h) r)
     (\<lambda>_. raise_if (\<not> sha_entry e) (Claim_error err r))) es"

definition validate_snapshot :: "host \<Rightarrow> claim \<Rightarrow> snapshot \<Rightarrow> coordinator_error + unit" where
  "validate_snapshot h c n =
     (if snapshot_token n \<noteq> claim_token c \<or> snapshot_generation n < 0 then Inl (Claim_error Malformed ''snapshot'')
      else check_entries h (snapshot_entries n) Malformed)"

definition check_claim :: "host \<Rightarrow> claim \<Rightarrow> coordinator_error + unit" where
  \<comment> \<open>\<^verbatim>\<open>_validate_claim_shape\<close> and \<^verbatim>\<open>_claim_paths\<close>\<close>
  "check_claim h c =
     raise_if (\<not> is_sha256 (claim_build_id c) \<or> \<not> is_sha256 (claim_root_key c) \<or> \<not> is_sha256 (claim_token c)
         \<or> claim_root_key c \<noteq> path_key (casefold_of h) (claim_root c)
         \<or> claim_build_id c \<noteq> path_key (casefold_of h) (claim_build_root c))
       (Claim_error Malformed ''claim'')"

definition load_claim :: "host \<Rightarrow> plan \<Rightarrow> claim coordinator" where
  "load_claim h p = observe (\<lambda>s. case claim_json s of
     None \<Rightarrow> Inl (Claim_error Unreadable ''claim'')
   | Some c \<Rightarrow> rbind (check_claim h c) (\<lambda>_.
       if claim_root_key c \<noteq> path_key (casefold_of h) (plan_root p) \<or> claim_root c \<noteq> plan_root p
       then Inl (Claim_error Claim_of_other_root (plan_root p))
       else if claim_build_id c \<noteq> plan_build_id p \<or> claim_build_root c \<noteq> plan_build_root p
       then Inl (Claim_error Claim_of_other_build (plan_root p))
       else Inr c))"

definition require_plan_claim_binding :: "host \<Rightarrow> plan \<Rightarrow> claim \<Rightarrow> coordinator_error + unit" where
  "require_plan_claim_binding h p c =
     rbind (raise_if (claim_root_key c \<noteq> path_key (casefold_of h) (claim_root c)
         \<or> claim_build_id c \<noteq> path_key (casefold_of h) (claim_build_root c)) (Claim_error Malformed ''claim'')) (\<lambda>_.
       raise_if (claim_root_key c \<noteq> path_key (casefold_of h) (plan_root p) \<or> claim_build_id c \<noteq> plan_build_id p
         \<or> claim_root c \<noteq> plan_root p \<or> claim_build_root c \<noteq> plan_build_root p)
       (Plan_error Plan_does_not_match_claim (plan_root p)))"

definition load_snapshot :: "host \<Rightarrow> claim \<Rightarrow> snapshot coordinator" where
  "load_snapshot h c = observe (\<lambda>s. case snapshot_json s of
     None \<Rightarrow> Inl (Claim_error Unreadable ''snapshot'')
   | Some n \<Rightarrow> rbind (validate_snapshot h c n) (\<lambda>_. Inr n))"

definition load_recorded_plan :: "host \<Rightarrow> claim \<Rightarrow> plan option coordinator" where
  "load_recorded_plan h c = observe (\<lambda>s. case plan_json s of
     None \<Rightarrow> Inr None
   | Some (p, digest) \<Rightarrow> rbind (from_payload (casefold_of h) p digest) (\<lambda>q.
       rbind (require_plan_claim_binding h q c) (\<lambda>_. Inr (Some q))))"

definition require_current_plan :: "host \<Rightarrow> plan \<Rightarrow> claim \<Rightarrow> unit coordinator" where
  "require_current_plan h p c = act_bind (load_recorded_plan h c) (\<lambda>current.
     observe (\<lambda>_. raise_if (map_option plan_digest current \<noteq> Some (plan_digest p))
       (Plan_error Plan_not_current (plan_root p))))"

section \<open>Checking a pending transaction\<close>

record checked_entry =
  ce_destination :: "string list"
  ce_before :: "string option"
  ce_after :: "string option"
  ce_payload :: "string option"
  ce_transfer :: "(string list \<times> (int \<times> int) \<times> string option) option"

record check_state =
  expected_entries :: entries
  seen_paths :: "string list"
  checked_entries :: "checked_entry list"

definition planned_target :: "plan \<Rightarrow> string \<Rightarrow> string option" where
  "planned_target p r = map_of (rev (map (\<lambda>x. (output_relative x, output_target x)) (plan_outputs p))) r"

definition planned_spelling :: "host \<Rightarrow> plan \<Rightarrow> string \<Rightarrow> string option" where
  "planned_spelling h p r = map_of (rev (map (\<lambda>x. (casefold (casefold_of h) (output_relative x), output_relative x))
     (plan_outputs p))) (casefold (casefold_of h) r)"

definition check_prior ::
    "pending_entry \<Rightarrow> (string \<times> snapshot_entry) option \<Rightarrow> coordinator_error + unit" where
  "check_prior e previous = (case pe_before e of
     None \<Rightarrow> raise_if (previous \<noteq> None) (Pending_error Pending_omits_prior (pe_path e))
   | Some before \<Rightarrow> raise_if (map_option (entry_sha256 \<circ> snd) previous \<noteq> Some before)
       (Pending_error Pending_conflicts_prior (pe_path e)))"

definition check_planned_retirement :: "host \<Rightarrow> tree \<Rightarrow> plan \<Rightarrow> string \<Rightarrow> coordinator_error + unit" where
  "check_planned_retirement h t p r = (case planned_spelling h p r of
     None \<Rightarrow> Inr ()
   | Some m \<Rightarrow> rbind (if m = r then Inr True else case_spelling_alias (casefold_of h) t r m)
       (\<lambda>b. raise_if b (Retirement_error Retires_planned r)))"

definition check_transfer ::
    "host \<Rightarrow> tree \<Rightarrow> plan \<Rightarrow> pending_entry \<Rightarrow> (string \<times> snapshot_entry) option \<Rightarrow> entries \<Rightarrow> transfer
     \<Rightarrow> coordinator_error + entries \<times> (string list \<times> (int \<times> int) \<times> string option)" where
  "check_transfer h t p e previous es x =
     rbind (validate_relative_path (casefold_of h) (transfer_path x)) (\<lambda>r.
     if previous = None \<or> map_of es r \<noteq> None \<or> transfer_device x < 0 \<or> transfer_inode x < 0
        \<or> planned_target p r \<noteq> Some (pe_target e)
     then Inl (Retirement_error Bad_transfer r)
     else rbind (output_path t r) (\<lambda>d.
       let identity = (transfer_device x, transfer_inode x) in
       if existing_file_identity t d \<noteq> Some identity then Inl (Retirement_error Transfer_changed_identity r)
       else rbind (require_observed_state t d (pe_before e) False) (\<lambda>_.
         Inr (dict_set es r \<lparr>entry_sha256 = (case pe_before e of None \<Rightarrow> [] | Some b \<Rightarrow> b), entry_target = pe_target e\<rparr>,
           d, identity, pe_before e))))"

definition check_retirement ::
    "host \<Rightarrow> tree \<Rightarrow> plan \<Rightarrow> pending_entry \<Rightarrow> string \<Rightarrow> string list \<Rightarrow> (string \<times> snapshot_entry) option \<Rightarrow> entries
     \<Rightarrow> coordinator_error + entries \<times> checked_entry" where
  "check_retirement h t p e r d previous es =
     (if pe_payload e \<noteq> None then Inl (Retirement_error Unexpected_payload r)
      else rbind (check_planned_retirement h t p r) (\<lambda>_.
        case pe_transfer e of
          Some x \<Rightarrow> rbind (check_transfer h t p e previous es x) (\<lambda>(es', x').
            Inr (es', \<lparr>ce_destination = d, ce_before = pe_before e, ce_after = None, ce_payload = None,
              ce_transfer = Some x'\<rparr>))
        | None \<Rightarrow>
            if previous \<noteq> None \<and> map_option (entry_target \<circ> snd) previous \<noteq> Some (pe_target e)
            then Inl (Retirement_error Changes_target r)
            else Inr (es, \<lparr>ce_destination = d, ce_before = pe_before e, ce_after = None, ce_payload = None,
              ce_transfer = None\<rparr>)))"

definition payload_name :: "nat \<Rightarrow> string" where
  \<comment> \<open>\<^verbatim>\<open>f"{index:08d}.payload"\<close>\<close>
  "payload_name i = (let d = dec_of_nat i in replicate (8 - length d) CHR ''0'' @ d @ ''.payload'')"

definition check_publication ::
    "plan \<Rightarrow> transaction \<Rightarrow> nat \<Rightarrow> pending_entry \<Rightarrow> string \<Rightarrow> string list \<Rightarrow> string \<Rightarrow> entries
     \<Rightarrow> coordinator_error + entries \<times> checked_entry" where
  "check_publication p td i e r d after es =
     (if pe_transfer e \<noteq> None then Inl (Retirement_error Unexpected_transfer r)
      else if planned_target p r \<noteq> Some (pe_target e) then Inl (Pending_error Pending_not_in_plan r)
      else if \<not> is_sha256 after \<or> pe_payload e = None then Inl (Pending_error Pending_bad_hash r)
      else if pe_payload e \<noteq> Some (payload_name i) then Inl (Retirement_error Bad_payload_name r)
      else if map_option sha256_hex (map_of (payloads td) (payload_name i)) \<noteq> Some after
      then Inl (Retirement_error Payload_missing r)
      else Inr (dict_set es r \<lparr>entry_sha256 = after, entry_target = pe_target e\<rparr>,
        \<lparr>ce_destination = d, ce_before = pe_before e, ce_after = Some after, ce_payload = pe_payload e,
          ce_transfer = None\<rparr>))"

definition check_entry ::
    "host \<Rightarrow> tree \<Rightarrow> plan \<Rightarrow> transaction \<Rightarrow> nat \<times> pending_entry \<Rightarrow> check_state \<Rightarrow> coordinator_error + check_state" where
  "check_entry h t p td ie k =
     (case ie of (i, e) \<Rightarrow>
      rbind (validate_relative_path (casefold_of h) (pe_path e)) (\<lambda>r.
      if List.member (seen_paths k) r then Inl (Pending_error Pending_repeats_path r)
      else rbind (output_path t r) (\<lambda>d.
      if \<not> pred_option is_sha256 (pe_before e) then Inl (Pending_error Pending_bad_hash r)
      else if \<not> is_sha256 (pe_target e) then Inl (Pending_error Pending_bad_target r)
      else rbind (snapshot_entry_for_path h t (expected_entries k) r) (\<lambda>previous.
      rbind (check_prior e previous) (\<lambda>_.
      let es = (case previous of None \<Rightarrow> expected_entries k | Some (q, _) \<Rightarrow> without (expected_entries k) q) in
      rbind (case pe_after e of
          None \<Rightarrow> check_retirement h t p e r d previous es
        | Some after \<Rightarrow> check_publication p td i e r d after es) (\<lambda>(es', c).
      Inr \<lparr>expected_entries = es', seen_paths = r # seen_paths k,
        checked_entries = checked_entries k @ [c]\<rparr>))))))"

definition same_snapshot :: "snapshot \<Rightarrow> snapshot \<Rightarrow> bool" where
  "same_snapshot a b = (snapshot_token a = snapshot_token b \<and> snapshot_generation a = snapshot_generation b
     \<and> sorted_entries (snapshot_entries a) = sorted_entries (snapshot_entries b))"

section \<open>Applying and recovering a transaction\<close>

definition apply_entry :: "host \<Rightarrow> string \<Rightarrow> nat \<times> checked_entry \<Rightarrow> unit coordinator" where
  "apply_entry h tid ic = (case ic of (i, c) \<Rightarrow>
     (case ce_after c of
        None \<Rightarrow> act_bind
          (observe (\<lambda>s. case ce_transfer c of
             None \<Rightarrow> Inr ()
           | Some (d, identity, hash) \<Rightarrow>
               if existing_file_identity (outputs s) d \<noteq> Some identity
               then Inl (Retirement_error Transfer_changed_identity (join ''/'' d))
               else require_observed_state (outputs s) d hash False))
          (\<lambda>_. delete_if_state (ce_destination c) (ce_before c))
      | Some after \<Rightarrow> act_bind
          (observe (\<lambda>s. case map_of (transactions s) tid of
             None \<Rightarrow> Inl (Os_error tid)
           | Some td \<Rightarrow> (case ce_payload c of
               None \<Rightarrow> Inl (Os_error tid)
             | Some n \<Rightarrow> (case map_of (payloads td) n of None \<Rightarrow> Inl (Os_error n) | Some b \<Rightarrow> Inr b))))
          (\<lambda>b. publish_one h (ce_destination c) b (ce_before c) after tid i)))"

definition check_pending :: "host \<Rightarrow> plan \<Rightarrow> claim \<Rightarrow> pending \<Rightarrow> string \<Rightarrow> coordinator_error + unit" where
  "check_pending h p c w tid =
     (if pending_id w \<noteq> tid \<or> pending_plan w \<noteq> p \<or> pending_plan_digest w \<noteq> plan_digest p \<or> base_generation w < 0
      then Inl (Pending_error Pending_malformed tid) else Inr ())"

definition check_replacement :: "host \<Rightarrow> claim \<Rightarrow> pending \<Rightarrow> coordinator_error + unit" where
  "check_replacement h c w =
     rbind (validate_snapshot h c (new_snapshot w)) (\<lambda>_.
     raise_if (snapshot_generation (new_snapshot w) \<noteq> base_generation w + 1)
       (Pending_error Pending_bad_generation []))"

definition check_pending_entries ::
    "host \<Rightarrow> plan \<Rightarrow> snapshot \<Rightarrow> pending \<Rightarrow> string \<Rightarrow> store \<Rightarrow> coordinator_error + checked_entry list" where
  "check_pending_entries h p n w tid s =
     rbind (rfold (check_entry h (outputs s) p (case map_of (transactions s) tid of
           None \<Rightarrow> \<lparr>payloads = [], pending_json = None\<rparr> | Some td \<Rightarrow> td))
         (List.enumerate 0 (pending_entries w))
         \<lparr>expected_entries = snapshot_entries n, seen_paths = [], checked_entries = []\<rparr>) (\<lambda>k.
     if sorted_entries (snapshot_entries (new_snapshot w)) \<noteq> sorted_entries (expected_entries k)
     then Inl (Pending_error Pending_snapshot_mismatch tid)
     else if snapshot_generation n \<noteq> base_generation w then Inl (Pending_error Pending_not_next tid)
     else Inr (checked_entries k))"

definition write_snapshot :: "snapshot \<Rightarrow> unit coordinator" where
  "write_snapshot n = durable (\<lambda>s. s\<lparr>snapshot_json := Some n\<rparr>)"

definition apply_pending :: "host \<Rightarrow> plan \<Rightarrow> claim \<Rightarrow> pending \<Rightarrow> string \<Rightarrow> unit coordinator" where
  "apply_pending h p c w tid =
     act_bind (observe (\<lambda>_. check_pending h p c w tid)) (\<lambda>_.
     act_bind (load_snapshot h c) (\<lambda>n.
     act_bind (observe (\<lambda>_. check_replacement h c w)) (\<lambda>_.
     if snapshot_generation n = snapshot_generation (new_snapshot w) then
       (if \<not> same_snapshot n (new_snapshot w) then observe (\<lambda>_. Inl (Pending_error Committed_conflict tid))
        else remove_transaction h tid)
     else
       act_bind (observe (check_pending_entries h p n w tid)) (\<lambda>cs.
       act_bind (act_each (apply_entry h tid) (List.enumerate 0 cs)) (\<lambda>_.
       act_bind (write_snapshot (new_snapshot w)) (\<lambda>_.
       remove_transaction h tid))))))"

definition pending_transactions :: "store \<Rightarrow> (string \<times> pending) list" where
  "pending_transactions s = List.map_filter
     (\<lambda>(tid, td). map_option (\<lambda>w. (tid, w)) (pending_json td)) (transactions s)"

definition find_pending :: "store \<Rightarrow> coordinator_error + (string \<times> pending) option" where
  "find_pending s =
     (if \<not> list_all is_sha256 (map fst (transactions s)) then Inl (Pending_error Unsafe_transaction [])
      else case pending_transactions s of
        [] \<Rightarrow> Inr None
      | [w] \<Rightarrow> Inr (Some w)
      | _ \<Rightarrow> Inl (Pending_error Several_pending []))"

definition recover_pending :: "host \<Rightarrow> claim \<Rightarrow> string \<Rightarrow> pending \<Rightarrow> unit coordinator" where
  "recover_pending h c tid w =
     act_bind (observe (\<lambda>_. rbind (from_payload (casefold_of h) (pending_plan w) (pending_plan_digest w)) (\<lambda>q.
       rbind (require_plan_claim_binding h q c) (\<lambda>_. Inr q))))
     (\<lambda>q. apply_pending h q c w tid)"

definition recover :: "host \<Rightarrow> claim \<Rightarrow> unit coordinator" where
  "recover h c = act_bind (observe (\<lambda>s. rbind (find_pending s) (\<lambda>w. Inr (w, map fst (transactions s))))) (\<lambda>(w, tids).
     act_bind (case w of None \<Rightarrow> act_return () | Some (tid, w') \<Rightarrow> recover_pending h c tid w') (\<lambda>_.
     act_each (remove_transaction h) tids))"

end
