(* ===== verification/OutputOperations.thy ===== *)
theory OutputOperations
  imports OutputTransactions
begin

text \<open>
  The operations of \<^verbatim>\<open>OutputCoordinator\<close> that a build calls: \<open>publish\<close>, \<open>reconcile\<close> for one root with the
  retirement of outputs the plan no longer has, \<open>validate\<close> and \<open>reset\<close>.
\<close>

section \<open>Publication\<close>

definition create_transaction :: "string \<Rightarrow> unit coordinator" where
  "create_transaction tid = durable (\<lambda>s. case map_of (transactions s) tid of
     None \<Rightarrow> s\<lparr>transactions := dict_set (transactions s) tid \<lparr>payloads = [], pending_json = None\<rparr>\<rparr>
   | Some _ \<Rightarrow> s)"

definition write_payload :: "string \<Rightarrow> string \<Rightarrow> string \<Rightarrow> unit coordinator" where
  \<comment> \<open>a new file; a crash may leave it empty\<close>
  "write_payload tid n b =
     act_bind (observe (\<lambda>s. raise_if (case map_of (transactions s) tid of None \<Rightarrow> True
         | Some td \<Rightarrow> map_of (payloads td) n \<noteq> None) (Os_error n))) (\<lambda>_.
     act_bind (update_transaction tid (\<lambda>td. td\<lparr>payloads := dict_set (payloads td) n []\<rparr>)) (\<lambda>_.
     update_transaction tid (\<lambda>td. td\<lparr>payloads := dict_set (payloads td) n b\<rparr>)))"

definition write_pending :: "string \<Rightarrow> pending \<Rightarrow> unit coordinator" where
  "write_pending tid w = update_transaction tid (\<lambda>td. td\<lparr>pending_json := Some w\<rparr>)"

definition staged_content :: "store \<Rightarrow> string \<Rightarrow> string \<Rightarrow> coordinator_error + string" where
  \<comment> \<open>the staged file of an output; \<open>stagings\<close> holds the \<^verbatim>\<open>generated\<close> directory of each staging directory\<close>
  "staged_content s staging r =
     (let t = (case map_of (stagings s) staging of None \<Rightarrow> [] | Some t \<Rightarrow> t) in
      rbind (output_path t r) (\<lambda>p. case content_of (node_at t p) of
         None \<Rightarrow> Inl (Output_error Staged_output_unsafe r) | Some b \<Rightarrow> Inr b))"

definition stage_output ::
    "host \<Rightarrow> snapshot \<Rightarrow> string \<Rightarrow> string \<Rightarrow> string \<Rightarrow> nat \<times> plan_output \<Rightarrow> entries \<times> pending_entry list
     \<Rightarrow> (entries \<times> pending_entry list) coordinator" where
  "stage_output h n staging target tid ix acc = (case ix of (i, x) \<Rightarrow> (case acc of (es, ws) \<Rightarrow>
     let r = output_relative x in
     act_bind (observe (\<lambda>s. rbind (output_path (outputs s) r) (\<lambda>d.
       rbind (staged_content s staging r) (\<lambda>b.
       rbind (snapshot_entry_for_path h (outputs s) (snapshot_entries n) r) (\<lambda>previous.
       rbind (require_observed_state (outputs s) d (map_option (entry_sha256 \<circ> snd) previous) True) (\<lambda>_.
       Inr (b, previous))))))) (\<lambda>(b, previous).
     let after = sha256_hex b;
         es' = (case previous of Some (q, _) \<Rightarrow> if q \<noteq> r then without es q else es | None \<Rightarrow> es) in
     act_bind (write_payload tid (payload_name i) b) (\<lambda>_.
     act_bind (observe (\<lambda>s. raise_if
         (map_option sha256_hex (case map_of (transactions s) tid of None \<Rightarrow> None
            | Some td \<Rightarrow> map_of (payloads td) (payload_name i)) \<noteq> Some after)
         (Pending_error Payload_changed r))) (\<lambda>_.
     act_return (dict_set es' r \<lparr>entry_sha256 = after, entry_target = target\<rparr>,
       ws @ [\<lparr>pe_after = Some after, pe_before = map_option (entry_sha256 \<circ> snd) previous, pe_path = r,
         pe_payload = Some (payload_name i), pe_target = target, pe_transfer = None\<rparr>]))))))"

definition target_outputs :: "plan \<Rightarrow> string \<Rightarrow> plan_output list" where
  "target_outputs p target = filter (\<lambda>x. output_target x = target) (plan_outputs p)"

definition next_snapshot :: "claim \<Rightarrow> snapshot \<Rightarrow> entries \<Rightarrow> snapshot" where
  "next_snapshot c n es = \<lparr>snapshot_token = claim_token c, snapshot_entries = sorted_entries es,
     snapshot_generation = snapshot_generation n + 1\<rparr>"

definition transaction_of ::
    "plan \<Rightarrow> claim \<Rightarrow> snapshot \<Rightarrow> string \<Rightarrow> entries \<Rightarrow> pending_entry list \<Rightarrow> pending" where
  "transaction_of p c n tid es ws = \<lparr>base_generation = snapshot_generation n, pending_entries = ws,
     pending_id = tid, new_snapshot = next_snapshot c n es, pending_plan = p,
     pending_plan_digest = plan_digest p\<rparr>"

definition discard_unless_pending :: "host \<Rightarrow> string \<Rightarrow> unit coordinator" where
  "discard_unless_pending h tid = act_bind
     (observe (\<lambda>s. Inr (case map_of (transactions s) tid of None \<Rightarrow> None | Some td \<Rightarrow> pending_json td)))
     (\<lambda>w. act_when (w = None) (remove_transaction h tid))"

definition publish_transaction ::
    "host \<Rightarrow> plan \<Rightarrow> claim \<Rightarrow> snapshot \<Rightarrow> string \<Rightarrow> string \<Rightarrow> string \<Rightarrow> entries coordinator" where
  "publish_transaction h p c n staging target tid =
     act_bind (act_fold (stage_output h n staging target tid) (List.enumerate 0 (target_outputs p target))
       (snapshot_entries n, [])) (\<lambda>(es, ws).
     act_bind (write_pending tid (transaction_of p c n tid es ws)) (\<lambda>_.
     act_bind (apply_pending h p c (transaction_of p c n tid es ws) tid) (\<lambda>_.
     act_return es)))"

definition check_published :: "store \<Rightarrow> entries \<Rightarrow> plan_output \<Rightarrow> coordinator_error + unit" where
  "check_published s es x = rbind (output_path (outputs s) (output_relative x)) (\<lambda>d.
     require_observed_state (outputs s) d (map_option entry_sha256 (map_of es (output_relative x))) False)"

definition publish_outputs ::
    "host \<Rightarrow> plan \<Rightarrow> claim \<Rightarrow> string \<Rightarrow> string \<Rightarrow> string \<Rightarrow> unit coordinator" where
  "publish_outputs h p c staging target tid =
     act_bind (load_snapshot h c) (\<lambda>n.
     if target_outputs p target = [] then observe (\<lambda>_. Inl (Plan_error No_outputs_for_target target))
     else act_bind (create_transaction tid) (\<lambda>_.
       act_bind (act_on_error (publish_transaction h p c n staging target tid) (discard_unless_pending h tid)) (\<lambda>es.
       observe (\<lambda>s. each (check_published s es) (target_outputs p target)))))"

definition publish :: "host \<Rightarrow> plan \<Rightarrow> string \<Rightarrow> string \<Rightarrow> string \<Rightarrow> unit coordinator" where
  "publish h p target staging tid =
     act_bind (observe (\<lambda>_. raise_if (\<not> is_sha256 target) (Plan_error Unknown_target target))) (\<lambda>_.
     act_bind (load_claim h p) (\<lambda>c.
     act_bind (recover h c) (\<lambda>_.
     act_bind (require_current_plan h p c) (\<lambda>_.
     act_bind (observe (\<lambda>_. rbind (staging_for_target p target) (\<lambda>d.
       raise_if (staging \<noteq> d) (Plan_error Staging_root_mismatch staging)))) (\<lambda>_.
     publish_outputs h p c staging target tid)))))"

definition validate :: "host \<Rightarrow> plan \<Rightarrow> unit coordinator" where
  "validate h p = act_bind (load_claim h p) (\<lambda>c.
     act_bind (recover h c) (\<lambda>_. require_current_plan h p c))"

section \<open>Retirement\<close>

record retirement =
  claimed_destinations :: "string list"
  remaining_entries :: entries
  retired_entries :: "pending_entry list"

definition retirement_transfer ::
    "tree \<Rightarrow> plan \<Rightarrow> entries \<Rightarrow> (int \<times> int) option \<Rightarrow> string \<Rightarrow> coordinator_error + string option" where
  \<comment> \<open>the desired output that is a hard link of the retired one, if there is just one\<close>
  "retirement_transfer t p es identity r = (case identity of
     None \<Rightarrow> Inr None
   | Some i \<Rightarrow>
       (case filter (\<lambda>q. existing_file_identity t (path_parts q) = Some i \<and> map_of es q = None)
               (map output_relative (plan_outputs p)) of
          [] \<Rightarrow> Inr None
        | [q] \<Rightarrow> Inr (Some q)
        | _ \<Rightarrow> Inl (Retirement_error Several_destinations r)))"

definition retired_identity :: "tree \<Rightarrow> string list \<Rightarrow> string \<Rightarrow> (int \<times> int) option option" where
  \<comment> \<open>\<open>None\<close>: something else is there and stays; \<open>Some None\<close>: nothing is there\<close>
  "retired_identity t d hash = (case node_at t d of
     None \<Rightarrow> Some None
   | Some (Regular i b) \<Rightarrow> if sha256_hex b = hash then Some (Some i) else None
   | Some _ \<Rightarrow> None)"

definition retire_entry ::
    "host \<Rightarrow> tree \<Rightarrow> plan \<Rightarrow> entries \<Rightarrow> string \<times> snapshot_entry \<Rightarrow> retirement \<Rightarrow> coordinator_error + retirement" where
  "retire_entry h t p es re k = (case re of (r, e) \<Rightarrow>
     if List.member (map output_relative (plan_outputs p)) r then Inr k
     else rbind (case planned_spelling h p r of None \<Rightarrow> Inr False | Some m \<Rightarrow> case_spelling_alias (casefold_of h) t r m) (\<lambda>aliased.
       if aliased then Inr k
       else rbind (output_path t r) (\<lambda>d.
         case retired_identity t d (entry_sha256 e) of
           None \<Rightarrow> Inr k
         | Some identity \<Rightarrow> rbind (retirement_transfer t p es identity r) (\<lambda>q.
             let q' = (case q of Some d' \<Rightarrow> if List.member (claimed_destinations k) d' then None else Some d' | None \<Rightarrow> None);
                 target = (case q' of None \<Rightarrow> entry_target e
                   | Some d' \<Rightarrow> (case planned_target p d' of None \<Rightarrow> [] | Some x \<Rightarrow> x));
                 transfer = (case (q', identity) of (Some d', Some i) \<Rightarrow>
                     Some \<lparr>transfer_device = fst i, transfer_inode = snd i, transfer_path = d'\<rparr> | _ \<Rightarrow> None);
                 rest = without (remaining_entries k) r
             in Inr \<lparr>claimed_destinations = (case q' of None \<Rightarrow> [] | Some d' \<Rightarrow> [d']) @ claimed_destinations k,
                  remaining_entries = (case q' of None \<Rightarrow> rest
                    | Some d' \<Rightarrow> dict_set rest d' \<lparr>entry_sha256 = entry_sha256 e, entry_target = target\<rparr>),
                  retired_entries = retired_entries k @
                    [\<lparr>pe_after = None, pe_before = Some (entry_sha256 e), pe_path = r, pe_payload = None,
                      pe_target = target, pe_transfer = transfer\<rparr>]\<rparr>))))"

definition retire_unplanned :: "host \<Rightarrow> plan \<Rightarrow> claim \<Rightarrow> snapshot \<Rightarrow> string \<Rightarrow> snapshot coordinator" where
  "retire_unplanned h p c n tid =
     act_bind (observe (\<lambda>s. rbind (each (\<lambda>x. rbind (output_path (outputs s) (output_relative x)) (\<lambda>_. Inr ()))
         (plan_outputs p)) (\<lambda>_.
       rfold (retire_entry h (outputs s) p (snapshot_entries n)) (snapshot_entries n)
         \<lparr>claimed_destinations = [], remaining_entries = snapshot_entries n, retired_entries = []\<rparr>))) (\<lambda>k.
     if retired_entries k = [] then act_return n
     else let w = transaction_of p c n tid (remaining_entries k) (retired_entries k) in
       act_bind (create_transaction tid) (\<lambda>_.
       act_bind (write_pending tid w) (\<lambda>_.
       act_bind (apply_pending h p c w tid) (\<lambda>_.
       act_return (new_snapshot w)))))"

definition remove_staging :: "string \<Rightarrow> unit coordinator" where
  "remove_staging d = durable (\<lambda>s. s\<lparr>stagings := without (stagings s) d\<rparr>)"

definition retire_staging :: "plan option \<Rightarrow> plan \<Rightarrow> unit coordinator" where
  "retire_staging previous current = (case previous of
     None \<Rightarrow> act_return ()
   | Some q \<Rightarrow> act_each (\<lambda>t. act_when (target_identity t \<notin> target_identity ` set (plan_targets current))
       (remove_staging (target_staging t))) (plan_targets q))"

definition write_plan :: "plan \<Rightarrow> unit coordinator" where
  "write_plan p = durable (\<lambda>s. s\<lparr>plan_json := Some (p, plan_digest p)\<rparr>)"

definition reconcile_locked :: "host \<Rightarrow> plan \<Rightarrow> string \<Rightarrow> string coordinator" where
  "reconcile_locked h p tid =
     act_bind (load_claim h p) (\<lambda>c.
     act_bind (recover h c) (\<lambda>_.
     act_bind (load_recorded_plan h c) (\<lambda>previous.
     act_bind (load_snapshot h c) (\<lambda>n.
     act_bind (retire_unplanned h p c n tid) (\<lambda>_.
     act_bind (retire_staging previous p) (\<lambda>_.
     act_bind (write_plan p) (\<lambda>_.
     act_return (claim_token c))))))))"

definition initialize_claim :: "host \<Rightarrow> plan \<Rightarrow> string \<Rightarrow> unit coordinator" where
  \<comment> \<open>the claim is published last; unclaimed data of an earlier attempt is discarded before\<close>
  "initialize_claim h p token =
     act_bind (durable (\<lambda>s. s\<lparr>plan_json := None, snapshot_json := None, transactions := [], reset_json := None\<rparr>)) (\<lambda>_.
     act_bind (write_snapshot \<lparr>snapshot_token = token, snapshot_entries = [], snapshot_generation = 0\<rparr>) (\<lambda>_.
     durable (\<lambda>s. s\<lparr>claim_json := Some \<lparr>claim_build_id = plan_build_id p, claim_build_root = plan_build_root p,
       claim_root = plan_root p, claim_root_key = path_key (casefold_of h) (plan_root p), claim_token = token\<rparr>\<rparr>)))"

definition reconcile :: "host \<Rightarrow> plan \<Rightarrow> string \<Rightarrow> string \<Rightarrow> string coordinator" where
  "reconcile h p token tid =
     act_bind (observe (\<lambda>s. Inr (claim_json s))) (\<lambda>existing.
     act_bind (if existing = None then initialize_claim h p token
       else act_bind (load_claim h p) (\<lambda>c. act_bind (recover h c) (\<lambda>_. act_bind (load_snapshot h c) (\<lambda>_.
         act_bind (load_recorded_plan h c) (\<lambda>_. act_return ()))))) (\<lambda>_.
     reconcile_locked h p tid))"

section \<open>Reset\<close>

definition is_snapshot_ancestor :: "tree \<Rightarrow> entries \<Rightarrow> string list \<Rightarrow> bool" where
  "is_snapshot_ancestor t es d = list_ex (\<lambda>(r, _). strict_prefix d (path_parts r) \<and> node_at t d = Some Directory) es"

definition check_inventory_node :: "host \<Rightarrow> tree \<Rightarrow> entries \<Rightarrow> string list \<times> node \<Rightarrow> coordinator_error + unit" where
  "check_inventory_node h t es dn = (case dn of (d, x) \<Rightarrow>
     let r = join ''/'' d; unowned = Inl (Output_error Unowned_generated_output r) in
     if \<not> generated_looking (casefold_of h) r then Inr ()
     else case x of
       Regular _ _ \<Rightarrow> rbind (snapshot_entry_for_path h t es r) (\<lambda>known. if known = None then unowned else Inr ())
     | Directory \<Rightarrow> if is_snapshot_ancestor t es d then Inr () else unowned
     | _ \<Rightarrow> unowned)"

definition validate_reset_inventory :: "host \<Rightarrow> tree \<Rightarrow> entries \<Rightarrow> coordinator_error + unit" where
  "validate_reset_inventory h t es =
     rbind (each (\<lambda>(r, e). rbind (output_path t r) (\<lambda>d. require_observed_state t d (Some (entry_sha256 e)) True)) es)
       (\<lambda>_. each (check_inventory_node h t es) t)"

definition check_staging_list :: "host \<Rightarrow> string \<Rightarrow> (string \<times> string) list \<Rightarrow> coordinator_error + unit" where
  "check_staging_list h root ts =
     rbind (raise_if (\<not> list_all (is_sha256 \<circ> fst) ts \<or> \<not> distinct (map fst ts)) (Claim_error Malformed ''reset'')) (\<lambda>_.
       each (\<lambda>(i, d). rbind (validate_staging_path (casefold_of h) root i d) (\<lambda>_. Inr ())) ts)"

definition load_reset_intent ::
    "host \<Rightarrow> string \<Rightarrow> claim \<Rightarrow> entries \<Rightarrow> (string \<times> string) list \<Rightarrow> reset_intent \<Rightarrow> coordinator_error + reset_intent" where
  "load_reset_intent h root c es staging x =
     rbind (raise_if (intent_token x \<noteq> claim_token c) (Claim_error Malformed ''reset'')) (\<lambda>_.
     rbind (check_entries h (intent_entries x) Malformed) (\<lambda>_.
     rbind (check_staging_list h root (intent_staging x)) (\<lambda>_.
     if sorted_entries (intent_entries x) \<noteq> sorted_entries es \<or> intent_staging x \<noteq> staging
     then Inl (Claim_error Reset_mismatch ''reset'') else Inr x)))"

definition write_reset :: "reset_intent \<Rightarrow> unit coordinator" where
  "write_reset x = durable (\<lambda>s. s\<lparr>reset_json := Some x\<rparr>)"

definition release_claim :: "host \<Rightarrow> unit coordinator" where
  "release_claim h =
     act_bind (observe (\<lambda>s. Inr (map fst (transactions s)))) (\<lambda>tids.
     act_bind (act_each (remove_transaction h) tids) (\<lambda>_.
     act_bind (durable (\<lambda>s. s\<lparr>claim_json := None\<rparr>)) (\<lambda>_.
     act_bind (durable (\<lambda>s. s\<lparr>plan_json := None\<rparr>)) (\<lambda>_.
     act_bind (durable (\<lambda>s. s\<lparr>snapshot_json := None\<rparr>)) (\<lambda>_.
     durable (\<lambda>s. s\<lparr>reset_json := None\<rparr>))))))"

definition delete_reset_output :: "string \<times> snapshot_entry \<Rightarrow> unit coordinator" where
  "delete_reset_output re = (case re of (r, e) \<Rightarrow>
     act_bind (observe (\<lambda>s. output_path (outputs s) r)) (\<lambda>d. delete_if_state d (Some (entry_sha256 e))))"

definition reset_start ::
    "host \<Rightarrow> plan \<Rightarrow> claim \<Rightarrow> entries \<Rightarrow> (string \<times> string) list \<Rightarrow> reset_intent coordinator" where
  "reset_start h p c es staging = act_bind (observe (\<lambda>s. Inr (reset_json s))) (\<lambda>found.
     case found of
       Some x \<Rightarrow> observe (\<lambda>_. load_reset_intent h (plan_root p) c es staging x)
     | None \<Rightarrow>
         act_bind (observe (\<lambda>s. validate_reset_inventory h (outputs s) es)) (\<lambda>_.
         let x = \<lparr>intent_token = claim_token c, intent_entries = es, intent_staging = staging\<rparr> in
         act_bind (write_reset x) (\<lambda>_. act_return x)))"

definition reset :: "host \<Rightarrow> plan \<Rightarrow> string \<Rightarrow> unit coordinator" where
  "reset h p token =
     act_bind (load_claim h p) (\<lambda>c.
     act_bind (observe (\<lambda>s. rbind (raise_if (claim_token c \<noteq> token) (Claim_error Claim_token_mismatch token))
       (\<lambda>_. Inr (reset_json s)))) (\<lambda>started.
     act_bind (act_when (started = None) (recover h c)) (\<lambda>_.
     act_bind (load_snapshot h c) (\<lambda>n.
     act_bind (load_recorded_plan h c) (\<lambda>recorded.
     let staging = (case recorded of None \<Rightarrow> []
       | Some q \<Rightarrow> map (\<lambda>t. (target_identity t, target_staging t)) (plan_targets q)) in
     act_bind (reset_start h p c (snapshot_entries n) staging) (\<lambda>x.
     act_bind (act_each delete_reset_output (intent_entries x)) (\<lambda>_.
     act_bind (act_each (remove_staging \<circ> snd) (intent_staging x)) (\<lambda>_.
     release_claim h))))))))"

end
