(* ===== verification/OutputSafety.thy ===== *)
theory OutputSafety
  imports OutputOperations
begin

text \<open>
  No operation of the coordinator destroys bytes it does not own: each durable step that changes a
  file of the output tree creates it, or replaces or removes a regular file whose digest the
  committed snapshot records for that path, or a temporary file of a transaction. Nothing is assumed of
  the state. A pending transaction found on the disk may list a path that it takes over from a retired
  output (its hard link): \<open>taken_over\<close>.
\<close>

section \<open>Two existing names are never one file\<close>

lemma children_of_node:
  assumes "node_at t (d @ n # r) \<noteq> None"
  shows "n \<in> set (children t d)"
proof -
  from assms obtain x where "(d @ n # r, x) \<in> set t"
    by (auto simp: node_at_def dest: map_of_SomeD)
  moreover have "(case (d @ n # r, x) of (p, _) \<Rightarrow>
      if startswith p d \<and> length d < length p then Some (p ! length d) else None) = Some n"
    by (simp add: nth_append)
  ultimately show ?thesis unfolding children_def set_remdups map_filter_set by blast
qed

lemma scan_spelling_exact:
  assumes "scan_spelling u t d a" and "map (casefold u) a = map (casefold u) b"
    and "node_at t (d @ a) \<noteq> None" and "node_at t (d @ b) \<noteq> None"
  shows "a = b"
  using assms
proof (induction a arbitrary: d b)
  case (Cons x a)
  then obtain y c where b: "b = y # c" by (cases b) auto
  let ?ms = "filter (\<lambda>n. casefold u n = casefold u x) (children t d)"
  from Cons.prems(1) obtain n where ms: "?ms = [n]" and scan: "scan_spelling u t (d @ [n]) a"
    by (auto split: list.splits)
  have "x \<in> set ?ms" using children_of_node Cons.prems(3) by fastforce
  moreover have "y \<in> set ?ms" using children_of_node [of t d y c] Cons.prems(2,4) by (simp add: b)
  ultimately have xy: "x = n" "y = n" unfolding ms by simp_all
  have "map (casefold u) a = map (casefold u) c" using Cons.prems(2) by (simp add: b)
  moreover have "node_at t ((d @ [n]) @ a) \<noteq> None" using Cons.prems(3) by (simp add: xy)
  moreover have "node_at t ((d @ [n]) @ c) \<noteq> None" using Cons.prems(4) by (simp add: b xy)
  ultimately have "a = c" by (rule Cons.IH [OF scan])
  then show ?case by (simp add: b xy)
qed simp

lemma output_path_parts: "output_path t r = Inr p \<Longrightarrow> p = path_parts r \<and> p \<noteq> []"
  unfolding output_path_def Let_def by (simp split: if_split_asm)

lemma same_file_exists: "same_file t a b \<Longrightarrow> node_at t a \<noteq> None \<and> node_at t b \<noteq> None"
  unfolding same_file_def by (simp split: option.split_asm node.split_asm)

lemma no_spelling_alias: "case_spelling_alias u t r q \<noteq> Inr True"
proof
  let ?a = "path_parts r" and ?b = "path_parts q"
  assume "case_spelling_alias u t r q = Inr True"
  then have ne: "?a \<noteq> ?b" and eq: "map (casefold u) ?a = map (casefold u) ?b" and sc: "scan_spelling u t [] ?a"
    and st: "rbind (output_path t r) (\<lambda>p. rbind (output_path t q) (\<lambda>q. Inr (same_file t p q))) = Inr True"
    unfolding case_spelling_alias_def Let_def by (simp_all split: if_split_asm)
  from st obtain p p' where "output_path t r = Inr p" "output_path t q = Inr p'" "same_file t p p'" by auto
  then have "node_at t ?a \<noteq> None" "node_at t ?b \<noteq> None"
    using same_file_exists output_path_parts by metis+
  then show False using scan_spelling_exact [OF sc eq] ne by simp
qed

lemma snapshot_entry_exact:
  assumes "snapshot_entry_for_path h t es r = Inr previous"
  shows "previous = map_option (Pair r) (map_of es r)"
proof (cases "map_of es r")
  case None
  let ?f = "\<lambda>(q, e) found. if found \<noteq> None then Inr found
    else rbind (case_spelling_alias (casefold_of h) t r q) (\<lambda>b. Inr (if b then Some (q, e) else None))"
  have "rfold ?f ds None = Inr x \<Longrightarrow> x = None" for ds x
    by (induction ds) (auto simp: no_spelling_alias split: if_split_asm)
  with assms None show ?thesis by (simp add: snapshot_entry_for_path_def)
next
  case (Some e)
  with assms show ?thesis by (simp add: snapshot_entry_for_path_def)
qed

section \<open>Steps that lose nothing\<close>

definition entry_parts :: "pending_entry \<Rightarrow> string list" where
  "entry_parts e = path_parts (forward_slashes (pe_path e))"

definition transfer_parts :: "transfer \<Rightarrow> string list" where
  "transfer_parts x = path_parts (forward_slashes (transfer_path x))"

definition recorded_at :: "snapshot \<Rightarrow> string list \<Rightarrow> string \<Rightarrow> bool" where
  \<comment> \<open>the snapshot has an entry for this very path, with this digest\<close>
  "recorded_at n p hash \<longleftrightarrow> (\<exists>(r, e)\<in>set (snapshot_entries n). path_parts r = p \<and> entry_sha256 e = hash)"

definition taken_over :: "snapshot \<Rightarrow> pending \<Rightarrow> string list \<Rightarrow> string \<Rightarrow> bool" where
  \<comment> \<open>the transaction transfers a digest to the path, and one of its own paths has it recorded\<close>
  "taken_over n w p hash \<longleftrightarrow>
     (\<exists>e\<in>set (pending_entries w). \<exists>x. pe_transfer e = Some x \<and> transfer_parts x = p \<and> pe_before e = Some hash)
     \<and> (\<exists>e\<in>set (pending_entries w). recorded_at n (entry_parts e) hash)"

definition may_change :: "snapshot \<Rightarrow> pending \<Rightarrow> string list \<Rightarrow> string \<Rightarrow> bool" where
  \<comment> \<open>a file taken over may be changed only by an entry of the same transaction for its path\<close>
  "may_change n w p hash \<longleftrightarrow> recorded_at n p hash
     \<or> taken_over n w p hash \<and> (\<exists>e\<in>set (pending_entries w). entry_parts e = p \<and> pe_before e = Some hash)"

definition pending_at :: "string \<Rightarrow> pending \<Rightarrow> store \<Rightarrow> bool" where
  "pending_at tid w s \<longleftrightarrow> (\<exists>td. (tid, td) \<in> set (transactions s) \<and> pending_json td = Some w)"

definition owned :: "store \<Rightarrow> string list \<Rightarrow> string \<Rightarrow> bool" where
  "owned s p hash \<longleftrightarrow> (\<exists>n. snapshot_json s = Some n
     \<and> (recorded_at n p hash \<or> (\<exists>tid w. pending_at tid w s \<and> may_change n w p hash)))"

definition transaction_temporary :: "store \<Rightarrow> string list \<Rightarrow> bool" where
  "transaction_temporary s p \<longleftrightarrow> (\<exists>q tid i. map_of (transactions s) tid \<noteq> None \<and> p = temporary_name q tid i)"

definition loses_nothing :: "store \<Rightarrow> store \<Rightarrow> bool" where
  "loses_nothing s t \<longleftrightarrow> (\<forall>p. node_at (outputs t) p = node_at (outputs s) p \<or> node_at (outputs s) p = None
     \<or> (\<exists>i b. node_at (outputs s) p = Some (Regular i b)
          \<and> (owned s p (sha256_hex b) \<or> transaction_temporary s p)))"

abbreviation careful :: "(store \<Rightarrow> bool) \<Rightarrow> 'a coordinator \<Rightarrow> ('a \<Rightarrow> store \<Rightarrow> bool) \<Rightarrow> bool" where
  "careful \<equiv> step_safe loses_nothing"

text \<open>\<open>keeps I m\<close>: the steps of \<open>m\<close> lose nothing and it leaves \<open>I\<close> true.\<close>

abbreviation keeps :: "(store \<Rightarrow> bool) \<Rightarrow> 'a coordinator \<Rightarrow> bool" where
  "keeps I m \<equiv> careful I m (\<lambda>_. I)"

abbreviation always_careful :: "'a coordinator \<Rightarrow> bool" where
  "always_careful m \<equiv> keeps (\<lambda>_. True) m"

definition present :: "string \<Rightarrow> store \<Rightarrow> bool" where
  "present tid s \<longleftrightarrow> map_of (transactions s) tid \<noteq> None"

lemma loses_nothing_same: "outputs t = outputs s \<Longrightarrow> loses_nothing s t"
  by (simp add: loses_nothing_def)

lemma keeps_durable:
  assumes "\<And>s. outputs (f s) = outputs s" and "\<And>s. I s \<Longrightarrow> I (f s)"
  shows "keeps I (durable f)"
  by (rule step_safe_durable) (simp_all add: loses_nothing_same assms)

lemma keeps_observe: "keeps I (observe g)"
  by (rule step_safe_observe) simp

lemma keeps_bind: "keeps I m \<Longrightarrow> (\<And>x. keeps I (f x)) \<Longrightarrow> keeps I (act_bind m f)"
  by (rule step_safe_bind)

lemma keeps_return: "keeps I (act_return x)"
  by (rule step_safe_return) simp

lemma keeps_each: "(\<And>x. keeps I (f x)) \<Longrightarrow> keeps I (act_each f xs)"
  by (rule step_safe_each)

lemma keeps_fold: "(\<And>x b. keeps I (f x b)) \<Longrightarrow> keeps I (act_fold f xs b)"
  by (rule step_safe_fold)

lemma keeps_when: "keeps I m \<Longrightarrow> keeps I (act_when b m)"
  by (rule step_safe_when) simp_all

lemmas keeps_intros = keeps_bind keeps_observe keeps_return keeps_each keeps_fold keeps_when

lemma keeps_update_transaction: "always_careful (update_transaction tid f)" "keeps (present k) (update_transaction tid f)"
  unfolding update_transaction_def
  by (rule keeps_durable; simp add: present_def split: option.split)+

lemma careful_remove_transaction: "always_careful (remove_transaction h tid)"
proof -
  have item: "always_careful (remove_item tid n)" for n
    unfolding remove_item_def by (rule keeps_update_transaction)
  have drop: "always_careful (durable (\<lambda>s. s\<lparr>transactions := without (transactions s) tid\<rparr>))"
    by (rule keeps_durable) simp_all
  have "always_careful (case found of None \<Rightarrow> act_return () | Some td \<Rightarrow>
      act_bind (act_each (remove_item tid) (scan_order h (transaction_items td)))
        (\<lambda>_. durable (\<lambda>s. s\<lparr>transactions := without (transactions s) tid\<rparr>)))" for found
    by (cases found) (simp_all add: keeps_intros item drop)
  then show ?thesis unfolding remove_transaction_def by (intro keeps_intros)
qed

section \<open>Publishing one file\<close>

definition entry_place_ok :: "store \<Rightarrow> string list \<Rightarrow> bool" where
  "entry_place_ok s d \<longleftrightarrow> d \<noteq> [] \<and> (case node_at (outputs s) d of Some Link \<Rightarrow> False | Some Other \<Rightarrow> False | _ \<Rightarrow> True)"

definition applying :: "string \<Rightarrow> pending \<Rightarrow> snapshot \<Rightarrow> checked_entry list \<Rightarrow> store \<Rightarrow> bool" where
  \<comment> \<open>the transaction \<open>tid\<close> is pending with \<open>w\<close>, \<open>n\<close> is committed, and no destination is a link\<close>
  "applying tid w n cs s \<longleftrightarrow> pending_at tid w s \<and> snapshot_json s = Some n
     \<and> (\<forall>c\<in>set cs. entry_place_ok s (ce_destination c))"

definition grants :: "snapshot \<Rightarrow> pending \<Rightarrow> string list \<Rightarrow> string option \<Rightarrow> bool" where
  "grants n w p before = pred_option (may_change n w p) before"

lemma owned_applying: "applying tid w n cs s \<Longrightarrow> grants n w p (Some x) \<Longrightarrow> owned s p x"
  unfolding applying_def owned_def grants_def option.pred_inject by blast

lemma pending_present: "pending_at tid w s \<Longrightarrow> map_of (transactions s) tid \<noteq> None"
  unfolding pending_at_def map_of_eq_None_iff by force

lemma temporary_applying: "applying tid w n cs s \<Longrightarrow> transaction_temporary s (temporary_name p tid i)"
  unfolding applying_def transaction_temporary_def using pending_present by blast

lemma applying_set:
  assumes "applying tid w n cs s" and "case x of Regular _ _ \<Rightarrow> True | Directory \<Rightarrow> True | _ \<Rightarrow> False"
  shows "applying tid w n cs (s\<lparr>outputs := set_node (outputs s) p x\<rparr>)"
proof -
  have "entry_place_ok (s\<lparr>outputs := set_node (outputs s) p x\<rparr>) d" if "entry_place_ok s d" for d
    using that assms(2) unfolding entry_place_ok_def
    by (simp add: node_at_set_any split: node.split_asm)
  with assms(1) show ?thesis by (simp add: applying_def pending_at_def)
qed

lemma applying_remove:
  assumes "applying tid w n cs s"
  shows "applying tid w n cs (s\<lparr>outputs := remove_node (outputs s) p\<rparr>)"
proof -
  have "node_at (remove_node t p) q = node_at t q \<or> node_at (remove_node t p) q = None" for t q
    by (simp add: node_at_def remove_node_def map_of_filter_key)
  then have "entry_place_ok (s\<lparr>outputs := remove_node (outputs s) p\<rparr>) d" if "entry_place_ok s d" for d
    using that unfolding entry_place_ok_def by (metis (mono_tags, lifting) option.simps(4) store.select_convs(1)
        store.surjective store.update_convs(1))
  with assms show ?thesis by (simp add: applying_def pending_at_def)
qed

lemma careful_make_directory: "careful (applying tid w n cs) (make_directory d) (\<lambda>_. applying tid w n cs)"
  unfolding make_directory_def
proof (rule step_safe_bind [where Q' = "\<lambda>b s. applying tid w n cs s \<and> b = lexists (outputs s) d"])
  fix b
  show "careful (\<lambda>s. applying tid w n cs s \<and> b = lexists (outputs s) d) (act_when (\<not> b) (set_output d Directory))
      (\<lambda>_. applying tid w n cs)"
    unfolding set_output_def
  proof (intro step_safe_when step_safe_durable)
    fix s assume b: "\<not> b" and s: "applying tid w n cs s \<and> b = lexists (outputs s) d"
    then show "loses_nothing s (s\<lparr>outputs := set_node (outputs s) d Directory\<rparr>)"
      by (simp add: loses_nothing_def lexists_def node_at_set_any)
    show "applying tid w n cs (s\<lparr>outputs := set_node (outputs s) d Directory\<rparr>)"
      by (rule applying_set) (use s in simp_all)
  qed simp
qed (rule step_safe_observe, simp)

lemma careful_durable_mkdir: "careful (applying tid w n cs) (durable_mkdir d) (\<lambda>_. applying tid w n cs)"
  unfolding durable_mkdir_def
  by (rule step_safe_bind [where Q' = "\<lambda>_. applying tid w n cs"])
    (simp_all add: step_safe_observe step_safe_each careful_make_directory)

text \<open>A step that writes or removes a temporary file of the transaction.\<close>

lemma careful_temporary:
  fixes tid p i defines "temp \<equiv> temporary_name p tid i"
  assumes s: "applying tid w n cs s" and at: "node_at (outputs s) temp = None \<or> content_of (node_at (outputs s) temp) \<noteq> None"
  shows "loses_nothing s (s\<lparr>outputs := set_node (outputs s) temp x\<rparr>)"
    and "loses_nothing s (s\<lparr>outputs := remove_node (outputs s) temp\<rparr>)"
proof -
  have temp: "temp \<noteq> []" by (simp add: temp_def temporary_name_def)
  have "transaction_temporary s temp" unfolding temp_def by (rule temporary_applying [OF s])
  moreover have "node_at (outputs s) temp = None \<or> (\<exists>i b. node_at (outputs s) temp = Some (Regular i b))"
    using at by (auto simp: content_of_def split: option.split_asm node.split_asm)
  ultimately show "loses_nothing s (s\<lparr>outputs := set_node (outputs s) temp x\<rparr>)"
    and "loses_nothing s (s\<lparr>outputs := remove_node (outputs s) temp\<rparr>)"
    unfolding loses_nothing_def by (auto simp: node_at_set_any node_at_remove temp)
qed

lemma temporary_neq: "p \<noteq> [] \<Longrightarrow> temporary_name p tid i \<noteq> p"
proof
  assume "p \<noteq> []" and "temporary_name p tid i = p"
  then have "length (last (temporary_name p tid i)) = length (last p)" by simp
  then show False by (simp add: temporary_name_def)
qed

lemma careful_write_temporary:
  assumes p: "p \<noteq> []" and temp: "temp = temporary_name p tid i"
  shows "careful (\<lambda>s. applying tid w n cs s \<and> found = node_at (outputs s) p \<and> node_at (outputs s) temp = None)
    (write_temporary h temp b)
    (\<lambda>_ s. applying tid w n cs s \<and> found = node_at (outputs s) p \<and> content_of (node_at (outputs s) temp) \<noteq> None)"
proof -
  have ne: "temp \<noteq> []" "temp \<noteq> p" using temporary_neq [OF p] by (auto simp: temp temporary_name_def)
  have set: "careful (\<lambda>s. applying tid w n cs s \<and> found = node_at (outputs s) p
        \<and> (node_at (outputs s) temp = None \<or> content_of (node_at (outputs s) temp) \<noteq> None))
      (set_output temp (Regular j x))
      (\<lambda>_ s. applying tid w n cs s \<and> found = node_at (outputs s) p \<and> content_of (node_at (outputs s) temp) \<noteq> None)" for j x
    unfolding set_output_def
  proof (rule step_safe_durable)
    fix s
    assume s: "applying tid w n cs s \<and> found = node_at (outputs s) p
        \<and> (node_at (outputs s) temp = None \<or> content_of (node_at (outputs s) temp) \<noteq> None)"
    show "loses_nothing s (s\<lparr>outputs := set_node (outputs s) temp (Regular j x)\<rparr>)"
      using careful_temporary(1) [of tid w n cs s p i "Regular j x"] s by (simp add: temp)
    show "applying tid w n cs (s\<lparr>outputs := set_node (outputs s) temp (Regular j x)\<rparr>)
        \<and> found = node_at (outputs (s\<lparr>outputs := set_node (outputs s) temp (Regular j x)\<rparr>)) p
        \<and> content_of (node_at (outputs (s\<lparr>outputs := set_node (outputs s) temp (Regular j x)\<rparr>)) temp) \<noteq> None"
      using s ne applying_set [of tid w n cs s "Regular j x" temp] by (simp add: node_at_set content_of_def)
  qed
  show ?thesis unfolding write_temporary_def
    by (rule step_safe_bind [OF step_safe_weaken [OF set] step_safe_weaken [OF set]]) simp_all
qed

lemma careful_replace:
  assumes c: "c \<in> set cs" and rec: "grants n w (ce_destination c) before"
    and owned: "found = None \<or> map_option sha256_hex (content_of found) = before"
    and temp: "temp = temporary_name (ce_destination c) tid i"
  shows "careful (\<lambda>s. applying tid w n cs s \<and> found = node_at (outputs s) (ce_destination c)
      \<and> content_of (node_at (outputs s) temp) \<noteq> None)
    (replace_output temp (ce_destination c)) (\<lambda>_. applying tid w n cs)"
  unfolding replace_output_def
proof (rule step_safe_bind [where Q' = "\<lambda>x s. applying tid w n cs s \<and> found = node_at (outputs s) (ce_destination c)
    \<and> found \<noteq> Some Directory \<and> node_at (outputs s) temp = Some x \<and> content_of (Some x) \<noteq> None"])
  show "careful (\<lambda>s. applying tid w n cs s \<and> found = node_at (outputs s) (ce_destination c)
      \<and> content_of (node_at (outputs s) temp) \<noteq> None)
    (observe (\<lambda>s. if node_at (outputs s) (ce_destination c) = Some Directory
        then Inl (Os_error (join ''/'' (ce_destination c)))
        else case node_at (outputs s) temp of None \<Rightarrow> Inl (Os_error (join ''/'' temp)) | Some n \<Rightarrow> Inr n))
    (\<lambda>x s. applying tid w n cs s \<and> found = node_at (outputs s) (ce_destination c)
      \<and> found \<noteq> Some Directory \<and> node_at (outputs s) temp = Some x \<and> content_of (Some x) \<noteq> None)"
    by (rule step_safe_observe) (simp split: if_split_asm option.split_asm)
next
  fix x
  show "careful (\<lambda>s. applying tid w n cs s \<and> found = node_at (outputs s) (ce_destination c)
      \<and> found \<noteq> Some Directory \<and> node_at (outputs s) temp = Some x \<and> content_of (Some x) \<noteq> None)
    (durable (\<lambda>s. s\<lparr>outputs := set_node (remove_node (outputs s) temp) (ce_destination c) x\<rparr>))
    (\<lambda>_. applying tid w n cs)"
  proof (rule step_safe_durable)
    fix s
    let ?d = "ce_destination c"
    assume s: "applying tid w n cs s \<and> found = node_at (outputs s) ?d \<and> found \<noteq> Some Directory
      \<and> node_at (outputs s) temp = Some x \<and> content_of (Some x) \<noteq> None"
    then have place: "entry_place_ok s ?d" using c by (simp add: applying_def)
    have d: "?d \<noteq> []" using place by (simp add: entry_place_ok_def)
    have ne: "temp \<noteq> []" "temp \<noteq> ?d" using temporary_neq [OF d] by (auto simp: temp temporary_name_def)
    obtain j b where x: "x = Regular j b" using s by (auto simp: content_of_def split: node.split_asm)
    have temporary: "transaction_temporary s temp" unfolding temp using temporary_applying s by blast
    have old: "found = None \<or> (\<exists>i b. found = Some (Regular i b) \<and> owned s ?d (sha256_hex b))"
    proof (cases found)
      case (Some y)
      have "case found of Some Link \<Rightarrow> False | Some Other \<Rightarrow> False | _ \<Rightarrow> True"
        using place s by (simp add: entry_place_ok_def)
      moreover have "found \<noteq> Some Directory" using s by blast
      ultimately obtain i b where y: "y = Regular i b" unfolding Some by (cases y) auto
      with owned Some have "before = Some (sha256_hex b)" by (simp add: content_of_def)
      then have "owned s ?d (sha256_hex b)" using owned_applying s rec by blast
      with y Some show ?thesis by simp
    qed simp
    show "loses_nothing s (s\<lparr>outputs := set_node (remove_node (outputs s) temp) ?d x\<rparr>)"
      unfolding loses_nothing_def
    proof
      fix p
      show "node_at (outputs (s\<lparr>outputs := set_node (remove_node (outputs s) temp) ?d x\<rparr>)) p = node_at (outputs s) p
          \<or> node_at (outputs s) p = None \<or> (\<exists>i b. node_at (outputs s) p = Some (Regular i b)
            \<and> (owned s p (sha256_hex b) \<or> transaction_temporary s p))"
      proof (cases "p = ?d")
        case True
        with old s show ?thesis by auto
      next
        case False
        with s ne temporary x d show ?thesis by (simp add: node_at_set node_at_remove)
      qed
    qed
    have "applying tid w n cs (s\<lparr>outputs := set_node (outputs (s\<lparr>outputs := remove_node (outputs s) temp\<rparr>)) ?d x,
        stagings := stagings s\<rparr>)"
      using applying_set [OF applying_remove, of tid w n cs s x temp ?d] s x by simp
    then show "applying tid w n cs (s\<lparr>outputs := set_node (remove_node (outputs s) temp) ?d x\<rparr>)" by simp
  qed
qed

lemma careful_clear_temporary:
  assumes p: "p \<noteq> []" and temp: "temp = temporary_name p tid i" and reg: "\<not> (left \<noteq> None \<and> content_of left = None)"
  shows "careful (\<lambda>s. applying tid w n cs s \<and> found = node_at (outputs s) p \<and> left = node_at (outputs s) temp)
    (act_when (left \<noteq> None) (unlink_output temp))
    (\<lambda>_ s. applying tid w n cs s \<and> found = node_at (outputs s) p \<and> node_at (outputs s) temp = None)"
    (is "careful ?P _ (\<lambda>_. ?Q)")
proof (rule step_safe_when)
  have ne: "temp \<noteq> []" "temp \<noteq> p" using temporary_neq [OF p] by (auto simp: temp temporary_name_def)
  show "careful ?P (unlink_output temp) (\<lambda>_. ?Q)" unfolding unlink_output_def
  proof (rule step_safe_durable)
    fix s assume s: "?P s"
    with reg have "node_at (outputs s) temp = None \<or> content_of (node_at (outputs s) temp) \<noteq> None" by auto
    then show "loses_nothing s (s\<lparr>outputs := remove_node (outputs s) temp\<rparr>)"
      using careful_temporary(2) s unfolding temp by blast
    show "?Q (s\<lparr>outputs := remove_node (outputs s) temp\<rparr>)"
      using s ne applying_remove [of tid w n cs s temp] by (simp add: node_at_remove)
  qed
qed simp

lemma careful_install_file:
  assumes c: "c \<in> set cs" and d: "ce_destination c \<noteq> []" and rec: "grants n w (ce_destination c) before"
    and owned: "found = None \<or> map_option sha256_hex (content_of found) = before"
  shows "careful (\<lambda>s. applying tid w n cs s \<and> found = node_at (outputs s) (ce_destination c))
    (install_file h (ce_destination c) b after tid i) (\<lambda>_. applying tid w n cs)"
proof -
  let ?I = "applying tid w n cs"
  let ?d = "ce_destination c" and ?t = "temporary_name (ce_destination c) tid i"
  let ?rest = "\<lambda>left. if left \<noteq> None \<and> content_of left = None
     then observe (\<lambda>_. Inl (Output_error Temporary_unsafe (join ''/'' ?t)))
     else act_bind (act_when (left \<noteq> None) (unlink_output ?t)) (\<lambda>_.
       act_bind (write_temporary h ?t b) (\<lambda>_.
       if sha256_hex b \<noteq> after then observe (\<lambda>_. Inl (Output_error Temporary_mismatch (join ''/'' ?t)))
       else replace_output ?t ?d))"
  have replace: "careful (\<lambda>s. ?I s \<and> found = node_at (outputs s) ?d \<and> content_of (node_at (outputs s) ?t) \<noteq> None)
      (if bad then observe (\<lambda>_. Inl e) else replace_output ?t ?d) (\<lambda>_. ?I)" for bad e
    using careful_replace [OF c rec owned refl] step_safe_fail by (cases bad) auto
  have "careful (\<lambda>s. ?I s \<and> found = node_at (outputs s) ?d \<and> left = node_at (outputs s) ?t) (?rest left) (\<lambda>_. ?I)" for left
  proof (cases "left \<noteq> None \<and> content_of left = None")
    case True
    show ?thesis unfolding if_P [OF True] by (rule step_safe_fail)
  next
    case False
    show ?thesis unfolding if_not_P [OF False]
      by (rule step_safe_bind [OF careful_clear_temporary [OF d refl False]
            step_safe_bind [OF careful_write_temporary [OF d refl] replace]])
  qed
  then show ?thesis unfolding install_file_def Let_def
    by (rule step_safe_bind [OF step_safe_observe, rotated]) simp
qed

lemma careful_publish_one:
  assumes c: "c \<in> set cs" and rec: "grants n w (ce_destination c) before"
  shows "careful (applying tid w n cs) (publish_one h (ce_destination c) b before after tid i) (\<lambda>_. applying tid w n cs)"
    (is "careful ?I _ _")
proof (cases "ce_destination c = []")
  case True
  with c have "\<not> ?I s" for s by (auto simp: applying_def entry_place_ok_def)
  then show ?thesis by (simp add: step_safe_def)
next
  case False
  let ?P = "\<lambda>found s. ?I s \<and> found = node_at (outputs s) (ce_destination c)"
  have body: "careful (?P found) (if skip then act_return () else if bad then observe (\<lambda>_. Inl e)
      else install_file h (ce_destination c) b after tid i) (\<lambda>_. ?I)"
    if "\<not> bad \<Longrightarrow> found = None \<or> map_option sha256_hex (content_of found) = before" for found skip bad e
  proof -
    have "careful (?P found) (act_return ()) (\<lambda>_. ?I)" by (rule step_safe_return) simp
    with careful_install_file [OF c False rec that] step_safe_fail show ?thesis
      by (cases skip; cases bad) auto
  qed
  have "careful ?I (observe (\<lambda>s. Inr (node_at (outputs s) (ce_destination c)))) ?P"
    by (rule step_safe_observe) simp
  then show ?thesis unfolding publish_one_def Let_def
    by (rule step_safe_bind [OF careful_durable_mkdir step_safe_bind [OF _ body]]) blast
qed

section \<open>Deleting one file\<close>

lemma careful_delete:
  assumes "\<And>s. P s \<Longrightarrow> pred_option (owned s p) before"
  shows "careful P (delete_if_state p before) (\<lambda>_ _. True)"
  unfolding delete_if_state_def
proof (rule step_safe_bind [where Q' = "\<lambda>found s. P s \<and> found = node_at (outputs s) p"])
  show "careful P (observe (\<lambda>s. Inr (node_at (outputs s) p))) (\<lambda>found s. P s \<and> found = node_at (outputs s) p)"
    by (rule step_safe_observe) simp
next
  fix found
  have delete: "careful (\<lambda>s. P s \<and> Some (Regular i b) = node_at (outputs s) p) (unlink_output p) (\<lambda>_ _. True)"
    if "before = Some (sha256_hex b)" for i b
    unfolding unlink_output_def
  proof (rule step_safe_durable)
    fix s assume s: "P s \<and> Some (Regular i b) = node_at (outputs s) p"
    then have "owned s p (sha256_hex b)" using assms [of s] that by simp
    moreover have "p \<noteq> []" using s by (auto simp: node_at_def)
    moreover have "node_at (outputs s) p = Some (Regular i b)" using s by simp
    ultimately show "loses_nothing s (s\<lparr>outputs := remove_node (outputs s) p\<rparr>)"
      by (auto simp: loses_nothing_def node_at_remove)
  qed simp
  show "careful (\<lambda>s. P s \<and> found = node_at (outputs s) p) (case found of None \<Rightarrow> act_return ()
      | Some (Regular _ b) \<Rightarrow> if before \<noteq> Some (sha256_hex b)
          then observe (\<lambda>_. Inl (Output_error Retired_was_modified (join ''/'' p))) else unlink_output p
      | Some _ \<Rightarrow> observe (\<lambda>_. Inl (Output_error Retired_became_unsafe (join ''/'' p)))) (\<lambda>_ _. True)"
    by (simp add: step_safe_return step_safe_fail delete split: option.split node.split)
qed

lemma keeps_delete:
  assumes closed: "\<And>s. I s \<Longrightarrow> I (s\<lparr>outputs := remove_node (outputs s) p\<rparr>)"
    and before: "\<And>s. I s \<Longrightarrow> pred_option (owned s p) before"
  shows "keeps I (delete_if_state p before)"
proof (rule step_safeI)
  fix s x
  assume s: "I s" and "outcome (delete_if_state p before) s = Inr x"
  then have "end_state (delete_if_state p before) s = s
      \<or> end_state (delete_if_state p before) s = s\<lparr>outputs := remove_node (outputs s) p\<rparr>"
    by (auto simp: delete_if_state_def outcome_bind end_state_bind unlink_output_def
        split: option.split_asm node.split_asm if_split_asm)
  then show "I (end_state (delete_if_state p before) s)" using s closed by metis
qed (rule step_safeD(1) [OF careful_delete], rule before)

section \<open>Applying a transaction\<close>

definition grantable :: "snapshot \<Rightarrow> pending \<Rightarrow> string list \<Rightarrow> string \<Rightarrow> bool" where
  "grantable n w p hash \<longleftrightarrow> recorded_at n p hash \<or> taken_over n w p hash"

definition entry_recorded :: "snapshot \<Rightarrow> pending \<Rightarrow> string list \<Rightarrow> entries \<Rightarrow> bool" where
  \<comment> \<open>an expected entry is committed or taken over, or an earlier entry of the transaction wrote it\<close>
  "entry_recorded n w seen es \<longleftrightarrow>
     (\<forall>r e. map_of es r = Some e \<longrightarrow> r \<notin> set seen \<longrightarrow> grantable n w (path_parts r) (entry_sha256 e))"

lemma grantable_entry:
  assumes "e \<in> set (pending_entries w)" and "pred_option (grantable n w (entry_parts e)) (pe_before e)"
  shows "grants n w (entry_parts e) (pe_before e)"
  using assms unfolding grants_def may_change_def grantable_def by (cases "pe_before e") auto

lemma grantable_transfer:
  assumes "e \<in> set (pending_entries w)" and "pe_transfer e = Some x" and "pe_before e = Some hash"
    and "grantable n w (entry_parts e) hash"
  shows "grantable n w (transfer_parts x) hash"
  using assms unfolding grantable_def taken_over_def by blast

definition checked_ok :: "tree \<Rightarrow> snapshot \<Rightarrow> pending \<Rightarrow> checked_entry \<Rightarrow> bool" where
  "checked_ok t n w c \<longleftrightarrow> grants n w (ce_destination c) (ce_before c) \<and> ce_destination c \<noteq> []
     \<and> node_at t (ce_destination c) \<notin> {Some Link, Some Other}"

lemma existing_part_self: "node_at t p \<noteq> None \<Longrightarrow> existing_part t p = p"
proof (cases p rule: rev_cases)
  case (snoc q x)
  assume "node_at t p \<noteq> None"
  then show ?thesis by (simp add: existing_part_def snoc lexists_def)
qed (simp add: existing_part_def lexists_def node_at_def)

lemma output_path_place:
  assumes "output_path t r = Inr p"
  shows "node_at t p \<notin> {Some Link, Some Other}"
proof
  assume bad: "node_at t p \<in> {Some Link, Some Other}"
  then have "existing_part t p = p" using existing_part_self by force
  moreover have "p = path_parts r" using output_path_parts [OF assms] by simp
  ultimately show False using assms bad unfolding output_path_def Let_def
    by (auto split: if_split_asm option.split_asm node.split_asm)
qed

lemma without_map_of: "map_of (without d k) j = (if j = k then None else map_of d j)"
  by (simp add: without_def map_of_filter_key)

lemma entry_recorded_without: "entry_recorded n w seen es \<Longrightarrow> entry_recorded n w seen (without es q)"
  by (simp add: entry_recorded_def without_map_of)

lemma entry_recorded_mono: "entry_recorded n w seen es \<Longrightarrow> set seen \<subseteq> set seen' \<Longrightarrow> entry_recorded n w seen' es"
  unfolding entry_recorded_def by blast

lemma entry_recorded_set:
  "entry_recorded n w seen es \<Longrightarrow> r \<in> set seen \<or> grantable n w (path_parts r) (entry_sha256 e)
     \<Longrightarrow> entry_recorded n w seen (dict_set es r e)"
  unfolding entry_recorded_def by auto

lemma check_transfer_expected:
  assumes "check_transfer h t p e previous es x = Inr (es', y)" and "entry_recorded n w seen es"
    and "e \<in> set (pending_entries w)" and "pe_transfer e = Some x"
    and "pe_before e = Some hash" and "grantable n w (entry_parts e) hash"
  shows "entry_recorded n w seen es'"
proof -
  from assms(1) obtain r where r: "validate_relative_path (casefold_of h) (transfer_path x) = Inr r"
    and es': "es' = dict_set es r
      \<lparr>entry_sha256 = (case pe_before e of None \<Rightarrow> [] | Some b \<Rightarrow> b), entry_target = pe_target e\<rparr>"
    unfolding check_transfer_def Let_def by (auto split: if_split_asm)
  have "path_parts r = transfer_parts x" using validate_relative_pathD(3) [OF r] by (simp add: transfer_parts_def)
  with grantable_transfer [OF assms(3-6)] have "grantable n w (path_parts r) hash" by simp
  then show ?thesis unfolding es' assms(5) by (intro entry_recorded_set [OF assms(2)]) simp
qed

lemma check_prior_before:
  assumes "check_prior e previous = Inr ()"
  shows "pe_before e = map_option (entry_sha256 \<circ> snd) previous"
  using assms by (cases "pe_before e"; cases previous) (auto simp: check_prior_def)

lemma check_retirement_ok:
  assumes "check_retirement h t p e r d previous es = Inr (es', c)" and "entry_recorded n w seen es"
    and "e \<in> set (pending_entries w)" and "pred_option (grantable n w (entry_parts e)) (pe_before e)"
    and "pe_before e = map_option (entry_sha256 \<circ> snd) previous"
  shows "entry_recorded n w seen es' \<and> ce_before c = pe_before e \<and> ce_destination c = d"
proof (cases "pe_transfer e")
  case None
  with assms(1,2) show ?thesis by (auto simp: check_retirement_def split: if_split_asm)
next
  case (Some x)
  with assms(1) obtain y where t: "check_transfer h t p e previous es x = Inr (es', y)"
    and c: "ce_before c = pe_before e" "ce_destination c = d"
    by (auto simp: check_retirement_def split: if_split_asm)
  have "previous \<noteq> None" using t by (auto simp: check_transfer_def split: if_split_asm)
  with assms(5) obtain hash where before: "pe_before e = Some hash" by auto
  with assms(4) have "grantable n w (entry_parts e) hash" by simp
  from check_transfer_expected [OF t assms(2,3) Some before this] c show ?thesis by simp
qed

lemma check_publication_ok:
  assumes "check_publication p td i e r d after es = Inr (es', c)" and "entry_recorded n w seen es"
  shows "entry_recorded n w (r # seen) es' \<and> ce_before c = pe_before e \<and> ce_destination c = d"
proof -
  have "es' = dict_set es r \<lparr>entry_sha256 = after, entry_target = pe_target e\<rparr>"
    and c: "ce_before c = pe_before e \<and> ce_destination c = d"
    using assms(1) by (auto simp: check_publication_def split: if_split_asm)
  moreover have "entry_recorded n w (r # seen) es" using assms(2) by (rule entry_recorded_mono) auto
  ultimately show ?thesis by (auto intro: entry_recorded_set)
qed

definition check_state_ok :: "tree \<Rightarrow> snapshot \<Rightarrow> pending \<Rightarrow> check_state \<Rightarrow> bool" where
  "check_state_ok t n w k \<longleftrightarrow> entry_recorded n w (seen_paths k) (expected_entries k)
     \<and> list_all (checked_ok t n w) (checked_entries k)"

lemma check_entry_ok:
  assumes "check_entry h t p td ie k = Inr k'" and "snd ie \<in> set (pending_entries w)" and "check_state_ok t n w k"
  shows "check_state_ok t n w k'"
proof -
  obtain i e where ie: "ie = (i, e)" by (cases ie)
  from assms(1) obtain r d previous es' c where valid: "validate_relative_path (casefold_of h) (pe_path e) = Inr r"
    and r: "r \<notin> set (seen_paths k)" and d: "output_path t r = Inr d"
    and previous: "snapshot_entry_for_path h t (expected_entries k) r = Inr previous"
    and prior: "check_prior e previous = Inr ()"
    and step: "(case pe_after e of
        None \<Rightarrow> check_retirement h t p e r d previous
          (case previous of None \<Rightarrow> expected_entries k | Some (q, _) \<Rightarrow> without (expected_entries k) q)
      | Some after \<Rightarrow> check_publication p td i e r d after
          (case previous of None \<Rightarrow> expected_entries k | Some (q, _) \<Rightarrow> without (expected_entries k) q)) = Inr (es', c)"
    and k': "k' = \<lparr>expected_entries = es', seen_paths = r # seen_paths k, checked_entries = checked_entries k @ [c]\<rparr>"
    unfolding check_entry_def ie Let_def by (auto split: if_split_asm)
  have rec: "entry_recorded n w (seen_paths k) (expected_entries k)" and old: "list_all (checked_ok t n w) (checked_entries k)"
    using assms(3) by (simp_all add: check_state_ok_def)
  have mem: "e \<in> set (pending_entries w)" using assms(2) by (simp add: ie)
  have parts: "path_parts r = entry_parts e" using validate_relative_pathD(3) [OF valid] by (simp add: entry_parts_def)
  have before: "pe_before e = map_option (entry_sha256 \<circ> snd) previous" using prior by (rule check_prior_before)
  have "previous = map_option (Pair r) (map_of (expected_entries k) r)" using previous by (rule snapshot_entry_exact)
  with rec r before have rb: "pred_option (grantable n w (entry_parts e)) (pe_before e)"
    by (cases "map_of (expected_entries k) r") (simp_all add: entry_recorded_def flip: parts)
  let ?es = "case previous of None \<Rightarrow> expected_entries k | Some (q, _) \<Rightarrow> without (expected_entries k) q"
  have es: "entry_recorded n w (seen_paths k) ?es"
    using rec by (auto simp: entry_recorded_without split: option.split)
  have "entry_recorded n w (r # seen_paths k) es' \<and> ce_before c = pe_before e \<and> ce_destination c = d"
  proof (cases "pe_after e")
    case None
    with step have "check_retirement h t p e r d previous ?es = Inr (es', c)" by simp
    from check_retirement_ok [OF this es mem rb before] show ?thesis by (auto intro: entry_recorded_mono)
  next
    case (Some after)
    with step have "check_publication p td i e r d after ?es = Inr (es', c)" by simp
    from check_publication_ok [OF this es] show ?thesis .
  qed
  moreover have "d \<noteq> []" "d = entry_parts e" "node_at t d \<notin> {Some Link, Some Other}"
    using output_path_parts [OF d] output_path_place [OF d] parts by blast+
  ultimately show ?thesis using old grantable_entry [OF mem rb] by (simp add: check_state_ok_def checked_ok_def k')
qed

lemma check_entries_ok:
  assumes "rfold (check_entry h t p td) ies k = Inr k'" and "\<And>ie. ie \<in> set ies \<Longrightarrow> snd ie \<in> set (pending_entries w)"
    and "check_state_ok t n w k"
  shows "check_state_ok t n w k'"
  using assms
proof (induction ies arbitrary: k)
  case (Cons ie ies)
  from Cons.prems(1) obtain j where j: "check_entry h t p td ie k = Inr j" and rest: "rfold (check_entry h t p td) ies j = Inr k'"
    by auto
  have "check_state_ok t n w j" by (rule check_entry_ok [OF j _ Cons.prems(3)]) (simp add: Cons.prems(2))
  from Cons.IH [OF rest _ this] Cons.prems(2) show ?case by simp
qed simp

lemma check_pending_entries_ok:
  assumes "check_pending_entries h p n w tid s = Inr cs"
  shows "list_all (checked_ok (outputs s) n w) cs"
proof -
  from assms obtain td k where run: "rfold (check_entry h (outputs s) p td) (List.enumerate 0 (pending_entries w))
      \<lparr>expected_entries = snapshot_entries n, seen_paths = [], checked_entries = []\<rparr> = Inr k" and cs: "cs = checked_entries k"
    unfolding check_pending_entries_def by (auto split: if_split_asm)
  have "check_state_ok (outputs s) n w k"
  proof (rule check_entries_ok [OF run])
    show "snd ie \<in> set (pending_entries w)" if "ie \<in> set (List.enumerate 0 (pending_entries w))" for ie
      using imageI [OF that, of snd] by (simp flip: set_map)
    have "recorded_at n (path_parts r) (entry_sha256 e)" if "map_of (snapshot_entries n) r = Some e" for r e
      using map_of_SomeD [OF that] unfolding recorded_at_def by blast
    then show "check_state_ok (outputs s) n w
        \<lparr>expected_entries = snapshot_entries n, seen_paths = [], checked_entries = []\<rparr>"
      by (simp add: check_state_ok_def entry_recorded_def grantable_def)
  qed
  with cs show ?thesis by (simp add: check_state_ok_def)
qed

lemma careful_apply_entry:
  assumes c: "c \<in> set cs" and rec: "grants n w (ce_destination c) (ce_before c)"
  shows "careful (applying tid w n cs) (apply_entry h tid (i, c)) (\<lambda>_. applying tid w n cs)"
proof (cases "ce_after c")
  case None
  have "careful (applying tid w n cs) (delete_if_state (ce_destination c) (ce_before c)) (\<lambda>_. applying tid w n cs)"
  proof (rule keeps_delete)
    fix s assume s: "applying tid w n cs s"
    show "pred_option (owned s (ce_destination c)) (ce_before c)"
      using owned_applying [OF s] rec by (cases "ce_before c") simp_all
  qed (rule applying_remove)
  then show ?thesis unfolding apply_entry_def prod.case None option.case
    by (rule step_safe_bind [OF step_safe_observe, rotated]) simp
next
  case (Some after)
  show ?thesis unfolding apply_entry_def prod.case Some option.case
    by (rule step_safe_bind [OF step_safe_observe careful_publish_one [OF c rec]])
qed

lemma careful_apply_entries:
  assumes "list_all (checked_ok (outputs s) n w) cs" and "snapshot_json s = Some n" and "pending_at tid w s"
  shows "applying tid w n cs s"
    and "careful (applying tid w n cs) (act_each (apply_entry h tid) (List.enumerate 0 cs)) (\<lambda>_. applying tid w n cs)"
proof -
  show "applying tid w n cs s"
    using assms unfolding applying_def entry_place_ok_def checked_ok_def list_all_iff
    by (auto split: option.split node.split)
  show "careful (applying tid w n cs) (act_each (apply_entry h tid) (List.enumerate 0 cs)) (\<lambda>_. applying tid w n cs)"
  proof (rule step_safe_each)
    fix ic assume mem: "ic \<in> set (List.enumerate 0 cs)"
    obtain i c where ic: "ic = (i, c)" by (cases ic)
    have c: "c \<in> set cs" using mem by (auto simp: ic in_set_enumerate_eq)
    then have "grants n w (ce_destination c) (ce_before c)" using assms(1) by (simp add: list_all_iff checked_ok_def)
    then show "careful (applying tid w n cs) (apply_entry h tid ic) (\<lambda>_. applying tid w n cs)"
      unfolding ic by (rule careful_apply_entry [OF c])
  qed
qed

lemma careful_apply_pending:
  "careful (pending_at tid w) (apply_pending h p c w tid) (\<lambda>_ _. True)"
proof -
  let ?N = "\<lambda>n s. pending_at tid w s \<and> snapshot_json s = Some n"
  have claim: "careful (pending_at tid w) (load_snapshot h c) ?N" unfolding load_snapshot_def
    by (rule step_safe_observe) (auto split: option.split_asm)
  have commit: "careful I (write_snapshot m) (\<lambda>_ _. True)" for I m
    unfolding write_snapshot_def by (rule step_safe_durable) (simp_all add: loses_nothing_same)
  note remove = careful_remove_transaction [of h tid]
  have applied: "careful (?N n) (act_bind (observe (check_pending_entries h p n w tid)) (\<lambda>cs.
       act_bind (act_each (apply_entry h tid) (List.enumerate 0 cs)) (\<lambda>_.
       act_bind (write_snapshot (new_snapshot w)) (\<lambda>_. remove_transaction h tid)))) (\<lambda>_ _. True)" for n
  proof (rule step_safe_bind [where Q' = "\<lambda>cs s. ?N n s \<and> list_all (checked_ok (outputs s) n w) cs"])
    show "careful (?N n) (observe (check_pending_entries h p n w tid))
        (\<lambda>cs s. ?N n s \<and> list_all (checked_ok (outputs s) n w) cs)"
      by (rule step_safe_observe) (simp add: check_pending_entries_ok)
  next
    fix cs
    have "careful (\<lambda>s. ?N n s \<and> list_all (checked_ok (outputs s) n w) cs)
        (act_each (apply_entry h tid) (List.enumerate 0 cs)) (\<lambda>_ _. True)"
    proof (rule step_safeI)
      fix s assume s: "?N n s \<and> list_all (checked_ok (outputs s) n w) cs"
      then have "list_all (checked_ok (outputs s) n w) cs" "snapshot_json s = Some n" "pending_at tid w s"
        by simp_all
      note entries = careful_apply_entries [OF this]
      show "steps_ok loses_nothing s (passes (act_each (apply_entry h tid) (List.enumerate 0 cs)) s)"
        by (rule step_safeD(1) [OF entries(2) entries(1)])
    qed simp
    then show "careful (\<lambda>s. ?N n s \<and> list_all (checked_ok (outputs s) n w) cs)
        (act_bind (act_each (apply_entry h tid) (List.enumerate 0 cs)) (\<lambda>_.
         act_bind (write_snapshot (new_snapshot w)) (\<lambda>_. remove_transaction h tid))) (\<lambda>_ _. True)"
      by (rule step_safe_bind [OF _ step_safe_bind [OF commit remove]])
  qed
  have fail: "careful I (observe (\<lambda>_. Inl e)) (\<lambda>_ _. True)" for I e by (rule step_safe_fail)
  have removed: "careful I (remove_transaction h tid) (\<lambda>_ _. True)" for I
    by (rule step_safe_weaken [OF remove]) simp_all
  have branch: "careful (?N n) (if committed then (if conflict then observe (\<lambda>_. Inl e) else remove_transaction h tid)
      else act_bind (observe (check_pending_entries h p n w tid)) (\<lambda>cs.
       act_bind (act_each (apply_entry h tid) (List.enumerate 0 cs)) (\<lambda>_.
       act_bind (write_snapshot (new_snapshot w)) (\<lambda>_. remove_transaction h tid)))) (\<lambda>_ _. True)"
    for n committed conflict e
    using applied fail removed by (cases committed; cases conflict) auto
  show ?thesis unfolding apply_pending_def
    by (rule step_safe_bind [OF keeps_observe step_safe_bind [OF claim step_safe_bind [OF keeps_observe branch]]])
qed

section \<open>The operations\<close>

lemma find_pending_present:
  assumes "find_pending s = Inr (Some (tid, w))"
  shows "pending_at tid w s"
proof -
  from assms have "(tid, w) \<in> set (pending_transactions s)"
    unfolding find_pending_def by (auto split: if_split_asm list.split_asm)
  then show ?thesis unfolding pending_transactions_def map_filter_set pending_at_def by auto
qed

lemma careful_recover: "always_careful (recover h c)"
proof -
  have pending: "careful (pending_at tid w) (recover_pending h c tid w) (\<lambda>_ _. True)" for tid w
    unfolding recover_pending_def by (rule step_safe_bind [OF keeps_observe careful_apply_pending])
  have rest: "careful (\<lambda>s. \<forall>tid w'. w = Some (tid, w') \<longrightarrow> pending_at tid w' s)
      (act_bind (case w of None \<Rightarrow> act_return () | Some (tid, w') \<Rightarrow> recover_pending h c tid w')
        (\<lambda>_. act_each (remove_transaction h) tids)) (\<lambda>_ _. True)" for w tids
  proof (rule step_safe_bind [where Q' = "\<lambda>_ _. True"])
    show "careful (\<lambda>s. \<forall>tid w'. w = Some (tid, w') \<longrightarrow> pending_at tid w' s)
        (case w of None \<Rightarrow> act_return () | Some (tid, w') \<Rightarrow> recover_pending h c tid w') (\<lambda>_ _. True)"
    proof (cases w)
      case (Some tw)
      then show ?thesis
        by (cases tw) (simp add: step_safe_weaken [OF pending])
    qed (simp add: step_safe_return)
  qed (rule keeps_each [OF careful_remove_transaction])
  show ?thesis unfolding recover_def
  proof (rule step_safe_bind [where Q' = "\<lambda>(w, tids) s. \<forall>tid w'. w = Some (tid, w') \<longrightarrow> pending_at tid w' s"])
    show "careful (\<lambda>_. True) (observe (\<lambda>s. rbind (find_pending s) (\<lambda>w. Inr (w, map fst (transactions s)))))
        (\<lambda>(w, tids) s. \<forall>tid w'. w = Some (tid, w') \<longrightarrow> pending_at tid w' s)"
      by (rule step_safe_observe) (auto dest: find_pending_present)
  next
    fix x
    show "careful (case x of (w, tids) \<Rightarrow> \<lambda>s. \<forall>tid w'. w = Some (tid, w') \<longrightarrow> pending_at tid w' s)
        (case x of (w, tids) \<Rightarrow> act_bind
           (case w of None \<Rightarrow> act_return () | Some (tid, w') \<Rightarrow> recover_pending h c tid w')
           (\<lambda>_. act_each (remove_transaction h) tids)) (\<lambda>_ _. True)"
      by (cases x) (simp only: prod.case rest)
  qed
qed

lemma careful_create_transaction: "careful I (create_transaction tid) (\<lambda>_. present tid)"
  unfolding create_transaction_def
  by (rule step_safe_durable) (simp_all add: loses_nothing_same present_def split: option.split)

lemma careful_write_pending: "careful (present tid) (write_pending tid w) (\<lambda>_. pending_at tid w)"
  unfolding write_pending_def update_transaction_def
proof (rule step_safe_durable)
  fix s :: store
  let ?f = "\<lambda>s. case map_of (transactions s) tid of None \<Rightarrow> s
    | Some td \<Rightarrow> s\<lparr>transactions := dict_set (transactions s) tid (td\<lparr>pending_json := Some w\<rparr>)\<rparr>"
  assume "present tid s"
  then obtain td where td: "map_of (transactions s) tid = Some td" by (auto simp: present_def)
  then show "loses_nothing s (?f s)" by (simp add: loses_nothing_same)
  have "map_of (dict_set (transactions s) tid (td\<lparr>pending_json := Some w\<rparr>)) tid = Some (td\<lparr>pending_json := Some w\<rparr>)" by simp
  from map_of_SomeD [OF this] show "pending_at tid w (?f s)" using td by (auto simp: pending_at_def)
qed

lemma careful_publish_transaction:
  "careful (present tid) (publish_transaction h p c n staging target tid) (\<lambda>_ _. True)"
proof -
  have payload: "keeps (present tid) (write_payload tid m b)" for m b
    unfolding write_payload_def by (intro keeps_intros keeps_update_transaction)
  have "keeps (present tid) (stage_output h n staging target tid (i, x) (es, ws))" for i x es ws
    unfolding stage_output_def prod.case Let_def
    by (intro keeps_bind keeps_observe) (simp add: case_prod_unfold keeps_intros payload)
  then have stage: "keeps (present tid) (stage_output h n staging target tid ix acc)" for ix acc
    by (cases ix; cases acc) simp
  have "careful (present tid) (act_bind (write_pending tid w) (\<lambda>_. act_bind (apply_pending h p c w tid)
      (\<lambda>_. act_return es))) (\<lambda>_ _. True)" for w and es :: entries
    by (rule step_safe_bind [OF careful_write_pending step_safe_bind [OF careful_apply_pending keeps_return]])
  then show ?thesis unfolding publish_transaction_def
    by (intro step_safe_bind [OF keeps_fold [OF stage]]) (simp add: case_prod_unfold)
qed

lemma careful_publish_outputs: "always_careful (publish_outputs h p c staging target tid)"
proof -
  have discard: "always_careful (discard_unless_pending h tid)"
    unfolding discard_unless_pending_def by (intro keeps_intros careful_remove_transaction)
  have "always_careful (act_bind (create_transaction tid) (\<lambda>_.
      act_bind (act_on_error (publish_transaction h p c n staging target tid) (discard_unless_pending h tid)) (\<lambda>es.
      observe (\<lambda>s. each (check_published s es) (target_outputs p target)))))" for n
    by (rule step_safe_bind [OF careful_create_transaction
          step_safe_bind [OF step_safe_on_error [OF careful_publish_transaction discard] keeps_observe]])
  then show ?thesis unfolding publish_outputs_def load_snapshot_def
    by (intro keeps_bind keeps_observe) (simp add: keeps_observe)
qed

lemma careful_load: "always_careful (load_claim h p)" "always_careful (load_snapshot h c)"
    "always_careful (load_recorded_plan h c)" "always_careful (require_current_plan h p c)"
  unfolding require_current_plan_def load_claim_def load_snapshot_def load_recorded_plan_def
  by (intro keeps_intros)+

lemma careful_publish: "always_careful (publish h p target staging tid)"
  unfolding publish_def by (intro keeps_bind keeps_observe careful_load careful_recover careful_publish_outputs)

lemma careful_validate: "always_careful (validate h p)"
  unfolding validate_def by (intro keeps_bind careful_load careful_recover)

lemma careful_retire_unplanned: "always_careful (retire_unplanned h p c n tid)"
proof -
  have "always_careful (act_bind (create_transaction tid) (\<lambda>_. act_bind (write_pending tid w) (\<lambda>_.
      act_bind (apply_pending h p c w tid) (\<lambda>_. act_return m))))" for w and m :: snapshot
    by (rule step_safe_bind [OF careful_create_transaction step_safe_bind [OF careful_write_pending
          step_safe_bind [OF careful_apply_pending keeps_return]]])
  then show ?thesis unfolding retire_unplanned_def Let_def
    by (intro keeps_bind keeps_observe) (simp add: keeps_return)
qed

lemma careful_staging: "always_careful (remove_staging d)" "always_careful (retire_staging q p)"
proof -
  show remove: "always_careful (remove_staging d)" for d
    unfolding remove_staging_def by (rule keeps_durable) simp_all
  show "always_careful (retire_staging q p)"
    unfolding retire_staging_def by (cases q) (simp_all add: keeps_intros remove)
qed

lemma careful_reconcile: "always_careful (reconcile h p token tid)"
proof -
  have plan: "always_careful (write_plan p)" unfolding write_plan_def by (rule keeps_durable) simp_all
  have locked: "always_careful (reconcile_locked h p tid)" unfolding reconcile_locked_def
    by (intro keeps_bind keeps_return careful_load careful_recover careful_retire_unplanned careful_staging plan)
  have init: "always_careful (initialize_claim h p token)" unfolding initialize_claim_def write_snapshot_def
    by (intro keeps_bind keeps_durable) simp_all
  have "always_careful (if b then initialize_claim h p token else act_bind (load_claim h p) (\<lambda>c.
      act_bind (recover h c) (\<lambda>_. act_bind (load_snapshot h c) (\<lambda>_.
        act_bind (load_recorded_plan h c) (\<lambda>_. act_return ())))))" for b
    using init by (cases b) (simp_all add: keeps_bind keeps_return careful_load careful_recover)
  then show ?thesis unfolding reconcile_def by (intro keeps_bind keeps_observe locked)
qed

lemma sorted_entries_set: "set (sorted_entries d) = set d"
  by (simp add: sorted_entries_def)

definition intent_recorded :: "snapshot \<Rightarrow> reset_intent \<Rightarrow> bool" where
  "intent_recorded n x \<longleftrightarrow> set (intent_entries x) = set (snapshot_entries n)"

lemma careful_reset_start:
  "careful (\<lambda>s. snapshot_json s = Some n) (reset_start h p c (snapshot_entries n) staging)
     (\<lambda>x s. snapshot_json s = Some n \<and> intent_recorded n x)"
proof -
  let ?I = "\<lambda>s. snapshot_json s = Some n"
  have load: "intent_recorded n y" if "load_reset_intent h root c (snapshot_entries n) staging x = Inr y" for root x y
  proof -
    from that have "y = x" and "sorted_entries (intent_entries x) = sorted_entries (snapshot_entries n)"
      unfolding load_reset_intent_def by (auto split: if_split_asm)
    then have "set (sorted_entries (intent_entries y)) = set (sorted_entries (snapshot_entries n))" by simp
    then show ?thesis unfolding intent_recorded_def sorted_entries_set .
  qed
  have start: "careful ?I (act_bind (write_reset x) (\<lambda>_. act_return x)) (\<lambda>x s. ?I s \<and> intent_recorded n x)"
    if "intent_recorded n x" for x
  proof (rule step_safe_bind [where Q' = "\<lambda>_. ?I"])
    show "careful ?I (write_reset x) (\<lambda>_. ?I)" unfolding write_reset_def by (rule keeps_durable) simp_all
  qed (rule step_safe_return, simp add: that)
  show ?thesis unfolding reset_start_def Let_def
  proof (rule step_safe_bind [OF keeps_observe])
    fix found
    show "careful ?I (case found of
        Some x \<Rightarrow> observe (\<lambda>_. load_reset_intent h (plan_root p) c (snapshot_entries n) staging x)
      | None \<Rightarrow> act_bind (observe (\<lambda>s. validate_reset_inventory h (outputs s) (snapshot_entries n))) (\<lambda>_.
          act_bind (write_reset \<lparr>intent_token = claim_token c, intent_entries = snapshot_entries n, intent_staging = staging\<rparr>)
            (\<lambda>_. act_return \<lparr>intent_token = claim_token c, intent_entries = snapshot_entries n, intent_staging = staging\<rparr>)))
      (\<lambda>x s. ?I s \<and> intent_recorded n x)"
    proof (cases found)
      case None
      show ?thesis unfolding None option.case
        by (rule step_safe_bind [OF keeps_observe]) (rule start, simp add: intent_recorded_def)
    next
      case (Some x)
      show ?thesis unfolding Some option.case by (rule step_safe_observe) (simp add: load)
    qed
  qed
qed

lemma keeps_delete_reset_output:
  assumes "re \<in> set (snapshot_entries n)"
  shows "keeps (\<lambda>s. snapshot_json s = Some n) (delete_reset_output re)"
proof -
  obtain r e where re: "re = (r, e)" by (cases re)
  let ?I = "\<lambda>s. snapshot_json s = Some n"
  have delete: "keeps ?I (delete_if_state (path_parts r) (Some (entry_sha256 e)))"
  proof (rule keeps_delete)
    fix s :: store assume "snapshot_json s = Some n"
    moreover have "recorded_at n (path_parts r) (entry_sha256 e)" using assms unfolding recorded_at_def re by blast
    ultimately show "pred_option (owned s (path_parts r)) (Some (entry_sha256 e))" by (simp add: owned_def)
  qed simp
  have "careful (\<lambda>s. ?I s \<and> d = path_parts r) (delete_if_state d (Some (entry_sha256 e))) (\<lambda>_. ?I)" for d
  proof (cases "d = path_parts r")
    case True
    with delete show ?thesis by simp
  qed (simp add: step_safe_def)
  moreover have "careful ?I (observe (\<lambda>s. output_path (outputs s) r)) (\<lambda>d s. ?I s \<and> d = path_parts r)"
    by (rule step_safe_observe) (simp add: output_path_parts)
  ultimately show ?thesis unfolding delete_reset_output_def re prod.case by (intro step_safe_bind)
qed

lemma careful_release_claim: "always_careful (release_claim h)"
  unfolding release_claim_def
  by (intro keeps_bind keeps_observe keeps_each careful_remove_transaction keeps_durable) simp_all

lemma careful_reset: "always_careful (reset h p token)"
proof -
  let ?I = "\<lambda>n s. snapshot_json s = Some n"
  have snapshot: "careful (\<lambda>_. True) (load_snapshot h c) ?I" for c
    unfolding load_snapshot_def by (rule step_safe_observe) (auto split: option.split_asm)
  have recorded: "keeps (?I n) (load_recorded_plan h c)" for n c
    unfolding load_recorded_plan_def by (rule keeps_observe)
  have each: "careful (\<lambda>s. ?I n s \<and> intent_recorded n x) (act_each delete_reset_output (intent_entries x)) (\<lambda>_ _. True)" for n x
  proof (cases "intent_recorded n x")
    case True
    have "keeps (?I n) (act_each delete_reset_output (intent_entries x))"
      by (rule step_safe_each) (use True keeps_delete_reset_output in \<open>simp add: intent_recorded_def\<close>)
    then show ?thesis by (rule step_safe_weaken) simp_all
  qed (simp add: step_safe_def)
  have finish: "always_careful (act_bind (act_each (remove_staging \<circ> snd) ts) (\<lambda>_. release_claim h))" for ts :: "(string \<times> string) list"
    by (intro keeps_bind keeps_each careful_release_claim) (simp add: careful_staging)
  have loaded: "careful (?I n) (act_bind (load_recorded_plan h c) (\<lambda>recorded.
      let staging = (case recorded of None \<Rightarrow> []
        | Some q \<Rightarrow> map (\<lambda>t. (target_identity t, target_staging t)) (plan_targets q)) in
      act_bind (reset_start h p c (snapshot_entries n) staging) (\<lambda>x.
      act_bind (act_each delete_reset_output (intent_entries x)) (\<lambda>_.
      act_bind (act_each (remove_staging \<circ> snd) (intent_staging x)) (\<lambda>_. release_claim h))))) (\<lambda>_ _. True)" for n c
    unfolding Let_def
    by (rule step_safe_bind [OF recorded step_safe_bind [OF careful_reset_start step_safe_bind [OF each finish]]])
  show ?thesis unfolding reset_def
    by (intro keeps_bind keeps_observe careful_load keeps_when careful_recover step_safe_bind [OF snapshot loaded])
qed

text \<open>
  C38: No operation of the output coordinator destroys bytes it does not own. Whatever is in the output
  tree and in the coordinator's records, and wherever a crash stops the operation: a file changes in a
  durable step only if it did not exist, or is a regular file for whose own path the committed snapshot
  has an entry with the digest of its bytes, or is a temporary file of a transaction. The one other case
  is a pending document that transfers a retired output, recorded with that digest, to a path and then
  lists this path itself with that digest; \<open>publish\<close> writes no transfers, and \<open>reconcile\<close> transfers only to
  paths of the plan and lists only paths the plan does not have. Links, directories and files a user put there or
  modified are never touched.
\<close>

theorem operations_lose_nothing:
  "steps_ok loses_nothing s (passes (publish h p target staging tid) s)
   \<and> steps_ok loses_nothing s (passes (validate h p) s)
   \<and> steps_ok loses_nothing s (passes (reconcile h p token tid) s)
   \<and> steps_ok loses_nothing s (passes (reset h p token) s)"
  using step_safe_passes [OF careful_publish] step_safe_passes [OF careful_validate]
    step_safe_passes [OF careful_reconcile] step_safe_passes [OF careful_reset] by blast

end
