(* ===== verification/OutputCrash.thy ===== *)
theory OutputCrash
  imports OutputSafety
begin

text \<open>
  The states a publication passes through. A \<open>publication\<close> fixes the operation, the state it starts
  from and the staged bytes; \<open>good\<close> says what is assumed of them. \<open>under_way\<close> are the output trees that a
  crash may leave: each destination has its old or its new file, missing parents may have been made,
  and temporary files of the transaction may be left beside destinations not yet written.
\<close>

record publication =
  pub_host :: host
  pub_plan :: plan
  pub_claim :: claim
  pub_target :: string
  pub_staging :: string
  pub_token :: string
  pub_start :: store
  pub_snapshot :: snapshot
  pub_contents :: "string list"

definition outs :: "publication \<Rightarrow> plan_output list" where
  "outs G = target_outputs (pub_plan G) (pub_target G)"

definition relative_of :: "publication \<Rightarrow> nat \<Rightarrow> string" where
  "relative_of G i = output_relative (outs G ! i)"

definition destination :: "publication \<Rightarrow> nat \<Rightarrow> string list" where
  "destination G i = path_parts (relative_of G i)"

definition temporary_of :: "publication \<Rightarrow> nat \<Rightarrow> string list" where
  "temporary_of G i = temporary_name (destination G i) (pub_token G) i"

definition content_after :: "publication \<Rightarrow> nat \<Rightarrow> string" where
  "content_after G i = pub_contents G ! i"

definition hash_after :: "publication \<Rightarrow> nat \<Rightarrow> string" where
  "hash_after G i = sha256_hex (content_after G i)"

definition hash_before :: "publication \<Rightarrow> nat \<Rightarrow> string option" where
  "hash_before G i = map_option entry_sha256 (map_of (snapshot_entries (pub_snapshot G)) (relative_of G i))"

definition plain_tree :: "tree \<Rightarrow> bool" where
  \<comment> \<open>regular files and directories only, and every parent is a directory\<close>
  "plain_tree t = list_all (\<lambda>(q, x). q \<noteq> [] \<and> (case x of Regular _ _ \<Rightarrow> True | Directory \<Rightarrow> True | _ \<Rightarrow> False)
     \<and> node_at t (butlast q) = Some Directory) t"

definition mentions :: "string \<Rightarrow> string list \<Rightarrow> bool" where
  "mentions tid q = list_ex (occurs_in tid) q"

definition apart :: "plan_output list \<Rightarrow> bool" where
  \<comment> \<open>no output is a directory of another one\<close>
  "apart xs = list_all (\<lambda>x. list_all (\<lambda>y.
     \<not> strict_prefix (path_parts (output_relative x)) (path_parts (output_relative y))) xs) xs"

definition publishable :: "host \<Rightarrow> plan \<Rightarrow> claim \<Rightarrow> string \<Rightarrow> string \<Rightarrow> string \<Rightarrow> store \<Rightarrow> bool" where
  \<comment> \<open>the plan was read, the claim is the build's, no transaction is open, the snapshot is the one of the
    claim, the output root holds regular files and directories only, no output is a directory of
    another, and the random token is new\<close>
  "publishable h p c target staging tid s \<longleftrightarrow>
     plan_ok (casefold_of h) p \<and> outcome (load_claim h p) s = Inr c \<and> transactions s = []
     \<and> (case snapshot_json s of None \<Rightarrow> False
         | Some n \<Rightarrow> validate_snapshot h c n = Inr () \<and> distinct (map fst (snapshot_entries n)))
     \<and> is_sha256 target
     \<and> plain_tree (outputs s) \<and> apart (target_outputs p target) \<and> is_sha256 tid
     \<and> list_all (\<lambda>(q, _). \<not> mentions tid q) (outputs s)
     \<and> list_all (\<lambda>x. \<not> mentions tid (path_parts (output_relative x))) (plan_outputs p)"

definition good :: "publication \<Rightarrow> bool" where
  "good G \<longleftrightarrow>
     publishable (pub_host G) (pub_plan G) (pub_claim G) (pub_target G) (pub_staging G) (pub_token G) (pub_start G)
     \<and> snapshot_json (pub_start G) = Some (pub_snapshot G)
     \<and> rmap (\<lambda>x. staged_content (pub_start G) (pub_staging G) (output_relative x)) (outs G) = Inr (pub_contents G)
     \<and> (\<forall>i<length (outs G). output_path (outputs (pub_start G)) (relative_of G i) = Inr (destination G i)
          \<and> require_observed_state (outputs (pub_start G)) (destination G i) (hash_before G i) True = Inr ())"

section \<open>Plain trees\<close>

lemma plain_treeD:
  assumes "plain_tree t"
  shows "node_at t q \<noteq> Some Link" "node_at t q \<noteq> Some Other"
    and "node_at t (q @ [x]) \<noteq> None \<Longrightarrow> node_at t q = Some Directory"
proof -
  have entry: "q \<noteq> [] \<and> (case x of Regular _ _ \<Rightarrow> True | Directory \<Rightarrow> True | _ \<Rightarrow> False)
      \<and> node_at t (butlast q) = Some Directory" if "map_of t q = Some x" for q x
    using assms map_of_SomeD [OF that] by (auto simp: plain_tree_def list_all_iff)
  show "node_at t q \<noteq> Some Link" "node_at t q \<noteq> Some Other"
    using entry [of q Link] entry [of q Other] by (auto simp: node_at_def)
  show "node_at t q = Some Directory" if "node_at t (q @ [x]) \<noteq> None"
    using that entry [of "q @ [x]"] by (auto simp: node_at_def)
qed

lemma plain_tree_prefix:
  assumes "plain_tree t" and "node_at t (e @ r) \<noteq> None" and "r \<noteq> []"
  shows "node_at t e = Some Directory"
  using assms(2,3)
proof (induction r rule: rev_induct)
  case (snoc x r)
  have "node_at t (e @ r) = Some Directory"
    by (rule plain_treeD(3) [OF assms(1), of _ x]) (use snoc.prems in simp)
  with snoc.IH show ?case by (cases r) auto
qed simp

definition no_links :: "tree \<Rightarrow> bool" where
  "no_links t \<longleftrightarrow> (\<forall>q. node_at t q \<noteq> Some Link \<and> node_at t q \<noteq> Some Other)"

lemma no_linksD: "no_links t \<Longrightarrow> node_at t q \<noteq> Some Link" "no_links t \<Longrightarrow> node_at t q \<noteq> Some Other"
  by (simp_all add: no_links_def)

lemma plain_no_links: "plain_tree t \<Longrightarrow> no_links t"
  by (simp add: no_links_def plain_treeD)

text \<open>On a tree without links the search for another spelling raises no error.\<close>

lemma scan_spelling_strict_prefix:
  assumes "scan_spelling u t d a" and "map (casefold u) a = map (casefold u) (e @ y # z)"
    and "node_at t (d @ e) \<noteq> None"
  shows "node_at t (d @ e) = Some Directory"
  using assms
proof (induction e arbitrary: d a)
  case Nil
  then show ?case by (cases a) auto
next
  case (Cons x e)
  then obtain v a' where a: "a = v # a'" by (cases a) auto
  let ?ms = "filter (\<lambda>n. casefold u n = casefold u v) (children t d)"
  from Cons.prems(1) obtain n where ms: "?ms = [n]" and scan: "scan_spelling u t (d @ [n]) a'"
    by (auto simp: a split: list.splits)
  have "x \<in> set ?ms" using children_of_node [of t d x e] Cons.prems(2,3) by (simp add: a)
  then have x: "x = n" unfolding ms by simp
  have "node_at t ((d @ [n]) @ e) = Some Directory"
    by (rule Cons.IH [OF scan]) (use Cons.prems in \<open>simp_all add: a x\<close>)
  then show ?case by (simp add: x)
qed

lemma existing_part_props:
  shows "prefix (existing_part t p) p" and "node_at t (existing_part t p) \<noteq> None"
    and "prefix e p \<Longrightarrow> node_at t e \<noteq> None \<Longrightarrow> length e \<le> length (existing_part t p)"
proof -
  let ?es = "filter (lexists t) (prefixes p)"
  have ne: "?es \<noteq> []" by (auto simp: filter_empty_conv lexists_def node_at_def intro!: bexI [of _ "[]"])
  then have "last ?es \<in> set ?es" by (rule last_in_set)
  then show "prefix (existing_part t p) p" and "node_at t (existing_part t p) \<noteq> None"
    by (simp_all add: existing_part_def lexists_def)
  assume e: "prefix e p" "node_at t e \<noteq> None"
  have sorted: "sorted (map length (prefixes q))" for q :: "string list"
    by (induction q rule: rev_induct) (simp_all add: sorted_append le_SucI [OF prefix_length_le])
  have es: "?es = butlast ?es @ [last ?es]" using ne by simp
  have "sorted (map length ?es)" using sorted_filter [OF sorted] by simp
  then have "sorted (map length (butlast ?es @ [last ?es]))" by (simp only: es [symmetric])
  then have last: "length f \<le> length (last ?es)" if "f \<in> set (butlast ?es)" for f
    using that by (simp add: sorted_append)
  have "e \<in> set ?es" using e by (simp add: lexists_def)
  then have "e \<in> set (butlast ?es @ [last ?es])" by (simp only: es [symmetric])
  then show "length e \<le> length (existing_part t p)" unfolding existing_part_def using last by auto
qed

lemma output_path_plain:
  assumes plain: "no_links t" and ne: "path_parts r \<noteq> []"
    and dirs: "\<And>e. strict_prefix e (path_parts r) \<Longrightarrow> node_at t e \<noteq> None \<Longrightarrow> node_at t e = Some Directory"
  shows "output_path t r = Inr (path_parts r)"
proof -
  let ?p = "path_parts r" let ?q = "existing_part t ?p"
  have "\<not> list_ex (\<lambda>e. node_at t e = Some Link) (prefixes ?q)"
    using no_linksD(1) [OF plain] by (simp add: list_ex_iff)
  moreover have "node_at t ?q = Some Directory \<or> ?q = ?p \<and> (\<exists>i b. node_at t ?q = Some (Regular i b))"
  proof (cases "?q = ?p")
    case True
    obtain x where "node_at t ?q = Some x" using existing_part_props(2) [of t ?p] by auto
    with True no_linksD [OF plain, of ?q] show ?thesis by (cases x) auto
  next
    case False
    then show ?thesis using dirs [of ?q] existing_part_props(1,2) [of t ?p] by (simp add: strict_prefix_def)
  qed
  ultimately show ?thesis using ne unfolding output_path_def Let_def by auto
qed

lemma no_alias_error:
  assumes "no_links t"
  shows "case_spelling_alias u t r q = Inr False"
proof (cases "path_parts r = path_parts q \<or> map (casefold u) (path_parts r) \<noteq> map (casefold u) (path_parts q)
    \<or> \<not> scan_spelling u t [] (path_parts r)")
  case True
  then show ?thesis by (auto simp: case_spelling_alias_def Let_def)
next
  case False
  then have ne: "path_parts r \<noteq> path_parts q" and eq: "map (casefold u) (path_parts r) = map (casefold u) (path_parts q)"
    and scan: "scan_spelling u t [] (path_parts r)" by simp_all
  have nonempty: "path_parts r \<noteq> []" "path_parts q \<noteq> []" using ne eq by auto
  have "output_path t x = Inr (path_parts x)" if "map (casefold u) (path_parts r) = map (casefold u) (path_parts x)" "path_parts x \<noteq> []" for x
  proof (rule output_path_plain [OF assms that(2)])
    fix e assume sp: "strict_prefix e (path_parts x)" and e: "node_at t e \<noteq> None"
    obtain y z where "path_parts x = e @ y # z" by (rule strict_prefixE' [OF sp])
    then show "node_at t e = Some Directory"
      using scan_spelling_strict_prefix [OF scan, of e y z] that(1) e by simp
  qed
  then have "case_spelling_alias u t r q = Inr (same_file t (path_parts r) (path_parts q))"
    using ne eq scan nonempty by (simp add: case_spelling_alias_def Let_def)
  with no_spelling_alias [of u t r q] show ?thesis by auto
qed

lemma snapshot_entry_plain:
  assumes "no_links t"
  shows "snapshot_entry_for_path h t es r = Inr (map_option (Pair r) (map_of es r))"
proof -
  have "rfold (\<lambda>(q, e) found. if found \<noteq> None then Inr found
      else rbind (case_spelling_alias (casefold_of h) t r q) (\<lambda>b. Inr (if b then Some (q, e) else None))) ds None = Inr None" for ds
    by (induction ds) (auto simp: no_alias_error [OF assms])
  then show ?thesis unfolding snapshot_entry_for_path_def by (cases "map_of es r") simp_all
qed

section \<open>Names of a good publication\<close>

lemma good_plan:
  assumes "good G"
  shows "from_payload (casefold_of (pub_host G)) (pub_plan G) (plan_digest (pub_plan G)) = Inr (pub_plan G)"
    and "distinct (map output_relative (plan_outputs (pub_plan G)))"
    and "x \<in> set (plan_outputs (pub_plan G)) \<Longrightarrow>
      validate_relative_path (casefold_of (pub_host G)) (output_relative x) = Inr (output_relative x)"
  using assms check_output_same(1) by (auto simp: good_def publishable_def plan_ok_def list_all_iff)

lemma outs_nth: "i < length (outs G) \<Longrightarrow> outs G ! i \<in> set (plan_outputs (pub_plan G)) \<and> output_target (outs G ! i) = pub_target G"
  using nth_mem [of i "outs G"] by (simp add: outs_def target_outputs_def)

lemma distinct_relative:
  assumes "good G"
  shows "distinct (map output_relative (outs G))"
  using good_plan(2) [OF assms] unfolding outs_def target_outputs_def by (rule distinct_map_filter)

lemma relative_valid:
  "good G \<Longrightarrow> i < length (outs G) \<Longrightarrow>
     validate_relative_path (casefold_of (pub_host G)) (relative_of G i) = Inr (relative_of G i)"
  unfolding relative_of_def using outs_nth good_plan(3) by blast

lemma relative_inj:
  assumes "good G" and "i < length (outs G)" and "j < length (outs G)" and "relative_of G i = relative_of G j"
  shows "i = j"
  using assms distinct_relative [OF assms(1)] by (simp add: relative_of_def distinct_conv_nth) blast

lemma destination_inj:
  assumes "good G" and "i < length (outs G)" and "j < length (outs G)" and "destination G i = destination G j"
  shows "i = j"
proof (rule relative_inj [OF assms(1-3)])
  show "relative_of G i = relative_of G j"
    by (rule path_parts_inj [OF relative_valid relative_valid])
      (use assms in \<open>simp_all add: destination_def\<close>)
qed

lemma destination_nonempty: "good G \<Longrightarrow> i < length (outs G) \<Longrightarrow> destination G i \<noteq> []"
  unfolding destination_def by (rule validate_relative_pathD(1) [OF relative_valid])

lemma destination_fresh:
  assumes "good G" and "i < length (outs G)"
  shows "\<not> mentions (pub_token G) (destination G i)"
  using assms outs_nth [OF assms(2)]
  by (auto simp: good_def publishable_def list_all_iff destination_def relative_of_def)

lemma fresh_prefix: "\<not> mentions tid q \<Longrightarrow> strict_prefix e q \<Longrightarrow> \<not> mentions tid e"
  by (auto simp: mentions_def list_ex_iff dest: prefix_order.less_imp_le set_mono_prefix)

lemma temporary_mentions: "mentions (pub_token G) (temporary_of G i)"
proof -
  have "occurs_in tid (a @ tid @ b)" for a tid b :: string by (auto simp: occurs_in_iff)
  from this [of "pub_token G" "''.'' @ last (destination G i) @ ''.protocyte-''" "''-'' @ dec_of_nat i @ ''.tmp''"]
  show ?thesis by (simp add: mentions_def temporary_of_def temporary_name_def)
qed

lemma temporary_apart:
  assumes "good G" and "i < length (outs G)"
  shows "destination G i \<noteq> temporary_of G j" and "strict_prefix e (destination G i) \<Longrightarrow> e \<noteq> temporary_of G j"
  using temporary_mentions [of G j] destination_fresh [OF assms] fresh_prefix by auto

lemma temporary_nonempty: "temporary_of G j \<noteq> []"
  by (simp add: temporary_of_def temporary_name_def)

lemma temporary_absent:
  assumes "good G"
  shows "node_at (outputs (pub_start G)) (temporary_of G i) = None"
proof (rule ccontr)
  assume "node_at (outputs (pub_start G)) (temporary_of G i) \<noteq> None"
  then obtain x where "(temporary_of G i, x) \<in> set (outputs (pub_start G))"
    by (auto simp: node_at_def temporary_of_def temporary_name_def dest: map_of_SomeD)
  with assms have "\<not> mentions (pub_token G) (temporary_of G i)"
    by (auto simp: good_def publishable_def list_all_iff)
  with temporary_mentions show False by simp
qed

lemma append_dash_inj:
  assumes "a @ [c] @ x = b @ [c] @ y" and "c \<notin> set x" and "c \<notin> set y"
  shows "a = b \<and> x = y"
proof -
  from assms(1) have "rev x @ [c] @ rev a = rev y @ [c] @ rev b" by (metis append.assoc rev_append rev_rev_ident rev_singleton_conv)
  moreover have "takeWhile (\<lambda>d. d \<noteq> c) (rev x @ [c] @ rev a) = rev x" using assms(2) by (subst takeWhile_append2) auto
  moreover have "takeWhile (\<lambda>d. d \<noteq> c) (rev y @ [c] @ rev b) = rev y" using assms(3) by (subst takeWhile_append2) auto
  ultimately have "rev x = rev y" by metis
  with assms(1) show ?thesis by simp
qed

lemma temporary_inj:
  assumes "temporary_of G i = temporary_of G j"
  shows "i = j"
proof -
  have dash: "CHR ''-'' \<notin> set (dec_of_nat n @ ''.tmp'')" for n
    using dec_of_nat_set [of n] by auto
  let ?n = "\<lambda>i. ''.'' @ last (destination G i) @ ''.protocyte-'' @ pub_token G"
  from assms have "?n i @ [CHR ''-''] @ (dec_of_nat i @ ''.tmp'') = ?n j @ [CHR ''-''] @ (dec_of_nat j @ ''.tmp'')"
    by (simp add: temporary_of_def temporary_name_def)
  from append_dash_inj [OF this dash dash] have "dec_of_nat i = dec_of_nat j" by simp
  then show ?thesis by (rule dec_of_nat_inj)
qed

lemma destinations_apart:
  assumes "good G" and "i < length (outs G)" and "j < length (outs G)"
  shows "\<not> strict_prefix (destination G i) (destination G j)"
  using assms nth_mem [of i "outs G"] nth_mem [of j "outs G"]
  by (auto simp: good_def publishable_def apart_def list_all_iff outs_def destination_def relative_of_def)

lemma start_parents:
  assumes G: "good G" and i: "i < length (outs G)" and e: "strict_prefix e (destination G i)"
    and ex: "node_at (outputs (pub_start G)) e \<noteq> None"
  shows "node_at (outputs (pub_start G)) e = Some Directory"
proof -
  let ?t = "outputs (pub_start G)" and ?d = "destination G i"
  let ?q = "existing_part ?t ?d"
  have plain: "plain_tree ?t" using G by (simp add: good_def publishable_def)
  have path: "output_path ?t (relative_of G i) = Inr ?d" using G i by (simp add: good_def)
  show ?thesis
  proof (cases "e = ?q")
    case True
    with e have "?q \<noteq> ?d" by (auto simp: strict_prefix_def)
    with path show ?thesis unfolding True output_path_def Let_def destination_def [symmetric]
      by (simp split: if_split_asm)
  next
    case False
    have "prefix e ?q"
    proof -
      have "length e \<le> length ?q" using existing_part_props(3) e ex by (simp add: strict_prefix_def)
      then show ?thesis using existing_part_props(1) [of ?t ?d] e
        by (metis prefix_length_prefix strict_prefix_def)
    qed
    with False obtain r where "?q = e @ r" "r \<noteq> []" by (auto simp: prefix_def)
    with existing_part_props(2) [of ?t ?d] plain_tree_prefix [OF plain, of e r] show ?thesis by simp
  qed
qed

lemma start_destination:
  assumes "good G" and "i < length (outs G)" and "node_at (outputs (pub_start G)) (destination G i) = Some x"
  shows "\<exists>j b. x = Regular j b \<and> hash_before G i = Some (sha256_hex b)"
  using assms by (auto simp: good_def require_observed_state_def split: node.split_asm)

section \<open>Trees of a publication under way\<close>

definition has_hash :: "tree \<Rightarrow> string list \<Rightarrow> string \<Rightarrow> bool" where
  "has_hash t q x \<longleftrightarrow> map_option sha256_hex (content_of (node_at t q)) = Some x"

definition written_node :: "publication \<Rightarrow> string list \<Rightarrow> node option \<Rightarrow> bool" where
  \<comment> \<open>what the publication may have put at a path\<close>
  "written_node G q x \<longleftrightarrow>
     (\<exists>i<length (outs G). q = destination G i \<and> (\<exists>j. x = Some (Regular j (content_after G i))))
     \<or> (\<exists>i<length (outs G). q = temporary_of G i \<and> (\<exists>j b. x = Some (Regular j b)))
     \<or> (node_at (outputs (pub_start G)) q = None \<and> x = Some Directory
          \<and> (\<exists>i<length (outs G). strict_prefix q (destination G i)))"

definition under_way :: "publication \<Rightarrow> tree \<Rightarrow> bool" where
  "under_way G t \<longleftrightarrow>
     (\<forall>q. node_at t q = node_at (outputs (pub_start G)) q \<or> written_node G q (node_at t q))
     \<and> (\<forall>i<length (outs G). node_at t (temporary_of G i) \<noteq> None \<longrightarrow> \<not> has_hash t (destination G i) (hash_after G i))"

lemma under_way_start: "good G \<Longrightarrow> under_way G (outputs (pub_start G))"
  by (simp add: under_way_def temporary_absent)

lemma under_way_node:
  "under_way G t \<Longrightarrow> node_at t q = node_at (outputs (pub_start G)) q \<or> written_node G q (node_at t q)"
  by (simp add: under_way_def)

lemma under_way_links:
  assumes "good G" and "under_way G t"
  shows "no_links t"
proof -
  have "no_links (outputs (pub_start G))"
    using assms(1) by (simp add: good_def publishable_def plain_no_links)
  then show ?thesis using under_way_node [OF assms(2)] unfolding no_links_def written_node_def
    by (metis node.distinct(1,3,5,7,9,11) option.inject)
qed

lemma under_way_parents:
  assumes G: "good G" and t: "under_way G t" and i: "i < length (outs G)" and e: "strict_prefix e (destination G i)"
    and ex: "node_at t e \<noteq> None"
  shows "node_at t e = Some Directory"
  using under_way_node [OF t, of e]
proof
  assume "node_at t e = node_at (outputs (pub_start G)) e"
  with start_parents [OF G i e] ex show ?thesis by simp
next
  assume "written_node G e (node_at t e)"
  then show ?thesis unfolding written_node_def
    using destinations_apart [OF G _ i] temporary_apart(2) [OF G i e] e by metis
qed

lemma under_way_destination:
  assumes G: "good G" and t: "under_way G t" and i: "i < length (outs G)" and x: "node_at t (destination G i) = Some x"
  shows "\<exists>j b. x = Regular j b \<and> (hash_before G i = Some (sha256_hex b) \<or> b = content_after G i)"
  using under_way_node [OF t, of "destination G i"]
proof
  assume "node_at t (destination G i) = node_at (outputs (pub_start G)) (destination G i)"
  with start_destination [OF G i] x show ?thesis by auto
next
  assume "written_node G (destination G i) (node_at t (destination G i))"
  then consider j where "j < length (outs G)" "destination G i = destination G j"
      "\<exists>k. node_at t (destination G i) = Some (Regular k (content_after G j))"
    | j where "destination G i = temporary_of G j"
    | j where "j < length (outs G)" "strict_prefix (destination G i) (destination G j)"
    unfolding written_node_def by blast
  then show ?thesis
  proof cases
    case 1
    with destination_inj [OF G i 1(1)] x show ?thesis by auto
  next
    case 2
    with temporary_apart(1) [OF G i] show ?thesis by blast
  next
    case 3
    with destinations_apart [OF G i 3(1)] show ?thesis by blast
  qed
qed

lemma under_way_temporary:
  assumes G: "good G" and t: "under_way G t" and x: "node_at t (temporary_of G i) = Some x"
  shows "\<exists>j b. x = Regular j b"
proof -
  have "written_node G (temporary_of G i) (Some x)"
    using under_way_node [OF t, of "temporary_of G i"] temporary_absent [OF G, of i] x by auto
  then show ?thesis unfolding written_node_def
    using temporary_apart(1,2) [OF G] by (metis option.inject)
qed

lemma under_way_output_path:
  assumes G: "good G" and t: "under_way G t" and i: "i < length (outs G)"
  shows "output_path t (relative_of G i) = Inr (destination G i)"
  unfolding destination_def
  by (rule output_path_plain [OF under_way_links [OF G t]])
    (use destination_nonempty [OF G i] under_way_parents [OF G t i] in \<open>simp_all add: destination_def\<close>)

lemma has_hash_set:
  "p \<noteq> [] \<Longrightarrow> has_hash (set_node t p x) q y \<longleftrightarrow>
     (if q = p then map_option sha256_hex (content_of (Some x)) = Some y else has_hash t q y)"
  by (simp add: has_hash_def node_at_set)

lemma has_hash_remove: "p \<noteq> [] \<Longrightarrow> q \<noteq> p \<Longrightarrow> has_hash (remove_node t p) q y \<longleftrightarrow> has_hash t q y"
  by (simp add: has_hash_def node_at_remove)

lemma under_wayI:
  assumes t: "under_way G t" and other: "\<And>q. q \<noteq> p \<Longrightarrow> node_at t' q = node_at t q"
    and at: "node_at t' p = node_at (outputs (pub_start G)) p \<or> written_node G p (node_at t' p)"
    and temp: "\<And>i. i < length (outs G) \<Longrightarrow> node_at t' (temporary_of G i) \<noteq> None \<Longrightarrow> has_hash t' (destination G i) (hash_after G i) \<Longrightarrow> False"
  shows "under_way G t'"
  unfolding under_way_def
proof (intro conjI allI impI notI)
  fix q show "node_at t' q = node_at (outputs (pub_start G)) q \<or> written_node G q (node_at t' q)"
    using at other [of q] under_way_node [OF t, of q] by (cases "q = p") auto
qed (rule temp)

lemma temporary_unfinished:
  "under_way G t \<Longrightarrow> i < length (outs G) \<Longrightarrow> node_at t (temporary_of G i) \<noteq> None \<Longrightarrow> \<not> has_hash t (destination G i) (hash_after G i)"
  by (simp add: under_way_def)

lemma under_way_mkdir:
  assumes G: "good G" and t: "under_way G t" and i: "i < length (outs G)" and e: "strict_prefix e (destination G i)" "e \<noteq> []"
    and absent: "node_at t e = None"
  shows "under_way G (set_node t e Directory)"
    and "j < length (outs G) \<Longrightarrow> has_hash (set_node t e Directory) (destination G j) x \<longleftrightarrow> has_hash t (destination G j) x"
proof -
  have ne: "destination G j \<noteq> e" if "j < length (outs G)" for j
    using destinations_apart [OF G that i] e(1) by auto
  show same: "has_hash (set_node t e Directory) (destination G j) x \<longleftrightarrow> has_hash t (destination G j) x"
    if "j < length (outs G)" for j x
    using ne [OF that] e(2) by (simp add: has_hash_set)
  have "node_at (outputs (pub_start G)) e = None"
    using under_way_node [OF t, of e] absent by (auto simp: written_node_def)
  with e i have "written_node G e (Some Directory)" unfolding written_node_def by blast
  then show "under_way G (set_node t e Directory)"
  proof (intro under_wayI [OF t, where p = e])
    fix j assume j: "j < length (outs G)" "node_at (set_node t e Directory) (temporary_of G j) \<noteq> None"
      "has_hash (set_node t e Directory) (destination G j) (hash_after G j)"
    have "temporary_of G j \<noteq> e" using temporary_apart(2) [OF G i e(1)] by blast
    with j temporary_unfinished [OF t j(1)] same e(2) show False by (simp add: node_at_set)
  qed (simp_all add: node_at_set e(2))
qed

lemma under_way_write_temporary:
  assumes G: "good G" and t: "under_way G t" and i: "i < length (outs G)"
    and unfinished: "\<not> has_hash t (destination G i) (hash_after G i)"
  shows "under_way G (set_node t (temporary_of G i) (Regular j b))"
    and "k < length (outs G) \<Longrightarrow>
      has_hash (set_node t (temporary_of G i) (Regular j b)) (destination G k) x \<longleftrightarrow> has_hash t (destination G k) x"
proof -
  note ne = temporary_nonempty [of G i]
  show same: "has_hash (set_node t (temporary_of G i) (Regular j b)) (destination G k) x \<longleftrightarrow> has_hash t (destination G k) x"
    if "k < length (outs G)" for k x
    using temporary_apart(1) [OF G that] ne by (simp add: has_hash_set)
  have "written_node G (temporary_of G i) (Some (Regular j b))" unfolding written_node_def using i by blast
  then show "under_way G (set_node t (temporary_of G i) (Regular j b))"
  proof (intro under_wayI [OF t, where p = "temporary_of G i"])
    fix k assume k: "k < length (outs G)" "node_at (set_node t (temporary_of G i) (Regular j b)) (temporary_of G k) \<noteq> None"
      "has_hash (set_node t (temporary_of G i) (Regular j b)) (destination G k) (hash_after G k)"
    show False
    proof (cases "k = i")
      case True
      with k unfinished same [OF i] show False by simp
    next
      case False
      then have "temporary_of G k \<noteq> temporary_of G i" using temporary_inj by blast
      with k temporary_unfinished [OF t k(1)] same [OF k(1)] ne show False by (simp add: node_at_set)
    qed
  qed (simp_all add: node_at_set ne)
qed

lemma under_way_remove_temporary:
  assumes G: "good G" and t: "under_way G t"
  shows "under_way G (remove_node t (temporary_of G i))"
    and "k < length (outs G) \<Longrightarrow>
      has_hash (remove_node t (temporary_of G i)) (destination G k) x \<longleftrightarrow> has_hash t (destination G k) x"
proof -
  note ne = temporary_nonempty [of G i]
  show same: "has_hash (remove_node t (temporary_of G i)) (destination G k) x \<longleftrightarrow> has_hash t (destination G k) x"
    if "k < length (outs G)" for k x
    using temporary_apart(1) [OF G that] ne by (simp add: has_hash_remove)
  show "under_way G (remove_node t (temporary_of G i))"
  proof (rule under_wayI [OF t, where p = "temporary_of G i"])
    fix k assume k: "k < length (outs G)" "node_at (remove_node t (temporary_of G i)) (temporary_of G k) \<noteq> None"
      "has_hash (remove_node t (temporary_of G i)) (destination G k) (hash_after G k)"
    then have "node_at t (temporary_of G k) \<noteq> None" by (simp add: node_at_remove ne split: if_split_asm)
    with k temporary_unfinished [OF t k(1)] same [OF k(1)] show False by simp
  qed (simp_all add: node_at_remove ne temporary_absent [OF G])
qed

lemma under_way_replace:
  assumes G: "good G" and t: "under_way G t" and i: "i < length (outs G)"
  shows "under_way G (set_node (remove_node t (temporary_of G i)) (destination G i) (Regular j (content_after G i)))"
    (is "under_way G ?t'")
    and "has_hash (set_node (remove_node t (temporary_of G i)) (destination G i) (Regular j (content_after G i)))
      (destination G i) (hash_after G i)"
    and "k < length (outs G) \<Longrightarrow> has_hash t (destination G k) (hash_after G k) \<Longrightarrow>
      has_hash (set_node (remove_node t (temporary_of G i)) (destination G i) (Regular j (content_after G i)))
        (destination G k) (hash_after G k)"
proof -
  let ?r = "remove_node t (temporary_of G i)"
  note d = destination_nonempty [OF G i]
  note r = under_way_remove_temporary [OF G t, where i = i]
  show new: "has_hash ?t' (destination G i) (hash_after G i)"
    by (simp add: has_hash_set d content_of_def hash_after_def)
  have other: "has_hash ?t' (destination G k) x \<longleftrightarrow> has_hash t (destination G k) x" if "k < length (outs G)" "k \<noteq> i" for k x
  proof -
    have "destination G k \<noteq> destination G i" using destination_inj [OF G that(1) i] that(2) by blast
    then show ?thesis by (simp add: has_hash_set d r(2) [OF that(1)])
  qed
  show "has_hash ?t' (destination G k) (hash_after G k)" if "k < length (outs G)" "has_hash t (destination G k) (hash_after G k)"
    using new other that by (cases "k = i") simp_all
  have "written_node G (destination G i) (Some (Regular j (content_after G i)))" unfolding written_node_def using i by blast
  then show "under_way G ?t'"
  proof (intro under_wayI [OF r(1), where p = "destination G i"])
    fix k assume k: "k < length (outs G)" "node_at ?t' (temporary_of G k) \<noteq> None" "has_hash ?t' (destination G k) (hash_after G k)"
    have "temporary_of G k \<noteq> destination G i" using temporary_apart(1) [OF G i, of k] by simp
    with k(2) have at: "temporary_of G k \<noteq> temporary_of G i" "node_at t (temporary_of G k) \<noteq> None"
      by (simp_all add: node_at_set d node_at_remove temporary_nonempty split: if_split_asm)
    then have "k \<noteq> i" by blast
    with k other temporary_unfinished [OF t k(1) at(2)] show False by simp
  qed (simp_all add: node_at_set d)
qed

end
