(* ===== verification/OutputRecovery.thy ===== *)
theory OutputRecovery
  imports OutputCrash
begin

text \<open>
  Publication is atomic. A crash leaves a publication in one of three phases: not yet decided, decided
  by its pending document, or committed by its new snapshot. Recovery is safe from each of them, may
  itself be cut short any number of times, and ends with all of the outputs published or none.
\<close>

section \<open>The phases of a publication\<close>

definition planned_pending :: "publication \<Rightarrow> entries \<Rightarrow> pending" where
  "planned_pending G es = transaction_of (pub_plan G) (pub_claim G) (pub_snapshot G) (pub_token G) es
     (map (\<lambda>i. \<lparr>pe_after = Some (hash_after G i), pe_before = hash_before G i, pe_path = relative_of G i,
        pe_payload = Some (payload_name i), pe_target = pub_target G, pe_transfer = None\<rparr>) [0..<length (outs G)])"

definition new_entry :: "publication \<Rightarrow> nat \<Rightarrow> snapshot_entry" where
  "new_entry G i = \<lparr>entry_sha256 = hash_after G i, entry_target = pub_target G\<rparr>"

fun entries_after :: "publication \<Rightarrow> nat \<Rightarrow> entries" where
  "entries_after G 0 = snapshot_entries (pub_snapshot G)"
| "entries_after G (Suc k) = dict_set (entries_after G k) (relative_of G k) (new_entry G k)"

abbreviation final_entries :: "publication \<Rightarrow> entries" where
  "final_entries G \<equiv> entries_after G (length (outs G))"

abbreviation decided_pending :: "publication \<Rightarrow> pending" where
  "decided_pending G \<equiv> planned_pending G (final_entries G)"

definition full_payloads :: "publication \<Rightarrow> (string, string) dict \<Rightarrow> bool" where
  "full_payloads G ps \<longleftrightarrow> (\<forall>i<length (outs G). map_of ps (payload_name i) = Some (content_after G i))"

definition undecided :: "publication \<Rightarrow> store \<Rightarrow> bool" where
  "undecided G s \<longleftrightarrow> (\<exists>T. s = (pub_start G)\<lparr>transactions := T\<rparr>
     \<and> (T = [] \<or> (\<exists>td. T = [(pub_token G, td)] \<and> pending_json td = None)))"

definition decided :: "publication \<Rightarrow> store \<Rightarrow> bool" where
  "decided G s \<longleftrightarrow> (\<exists>t td. s = (pub_start G)\<lparr>outputs := t, transactions := [(pub_token G, td)]\<rparr>
     \<and> pending_json td = Some (decided_pending G) \<and> full_payloads G (payloads td) \<and> under_way G t)"

definition written :: "publication \<Rightarrow> nat \<Rightarrow> tree \<Rightarrow> bool" where
  "written G k t \<longleftrightarrow> (\<forall>i<k. has_hash t (destination G i) (hash_after G i))"

definition decided_upto :: "publication \<Rightarrow> nat \<Rightarrow> store \<Rightarrow> bool" where
  "decided_upto G k s \<longleftrightarrow> decided G s \<and> written G k (outputs s)"

definition committed :: "publication \<Rightarrow> store \<Rightarrow> bool" where
  "committed G s \<longleftrightarrow> (\<exists>t T. s = (pub_start G)\<lparr>outputs := t, snapshot_json := Some (new_snapshot (decided_pending G)),
       transactions := T\<rparr>
     \<and> under_way G t \<and> written G (length (outs G)) t
     \<and> (T = [] \<or> (\<exists>td. T = [(pub_token G, td)] \<and> (pending_json td = None \<or> pending_json td = Some (decided_pending G)))))"

definition start_ok :: "publication \<Rightarrow> bool" where
  "start_ok G \<longleftrightarrow> publishable (pub_host G) (pub_plan G) (pub_claim G) (pub_target G) (pub_staging G) (pub_token G) (pub_start G)
     \<and> snapshot_json (pub_start G) = Some (pub_snapshot G)
     \<and> pub_contents G = map (\<lambda>x. case staged_content (pub_start G) (pub_staging G) (output_relative x) of
          Inr b \<Rightarrow> b | Inl _ \<Rightarrow> []) (outs G)"

definition survivable :: "publication \<Rightarrow> store \<Rightarrow> bool" where
  "survivable G s \<longleftrightarrow> start_ok G \<and> (undecided G s \<or> good G \<and> (decided G s \<or> committed G s))"

definition all_or_nothing :: "publication \<Rightarrow> store \<Rightarrow> bool" where
  "all_or_nothing G s \<longleftrightarrow> transactions s = [] \<and> (undecided G s \<or> good G \<and> committed G s)"

lemma decided_outputs: "decided G s \<Longrightarrow> under_way G (outputs s)"
  by (auto simp: decided_def)

lemma decided_update:
  assumes "decided G s" and "under_way G t"
  shows "decided G (s\<lparr>outputs := t\<rparr>)"
proof -
  from assms(1) obtain t0 td where s: "s = (pub_start G)\<lparr>outputs := t0, transactions := [(pub_token G, td)]\<rparr>"
    and td: "pending_json td = Some (decided_pending G)" "full_payloads G (payloads td)"
    by (auto simp: decided_def)
  have "s\<lparr>outputs := t\<rparr> = (pub_start G)\<lparr>outputs := t, transactions := [(pub_token G, td)]\<rparr>" by (simp add: s)
  with td assms(2) show ?thesis unfolding decided_def by blast
qed

lemma decided_upto_update:
  "decided_upto G k s \<Longrightarrow> under_way G t \<Longrightarrow> written G k t \<Longrightarrow> decided_upto G k (s\<lparr>outputs := t\<rparr>)"
  by (simp add: decided_upto_def decided_update)

lemma good_start:
  assumes "good G"
  shows "validate_snapshot (pub_host G) (pub_claim G) (pub_snapshot G) = Inr ()"
    and "distinct (map fst (snapshot_entries (pub_snapshot G)))"
    and "outcome (load_claim (pub_host G) (pub_plan G)) (pub_start G) = Inr (pub_claim G)"
    and "is_sha256 (pub_token G)" and "transactions (pub_start G) = []"
    and "snapshot_json (pub_start G) = Some (pub_snapshot G)" and "is_sha256 (pub_target G)"
  using assms by (auto simp: good_def publishable_def)

section \<open>Installing one file\<close>

lemma safe_make_directory:
  assumes G: "good G" and k: "k < length (outs G)" and e: "strict_prefix e (destination G k)"
  shows "crash_safe (decided_upto G k) (make_directory e) (decided G) (\<lambda>_. decided_upto G k)"
  unfolding make_directory_def
proof (rule crash_safe_bind [where R = "\<lambda>b s. decided_upto G k s \<and> b = lexists (outputs s) e"])
  fix b
  have step: "decided_upto G k (s\<lparr>outputs := set_node (outputs s) e Directory\<rparr>)"
    if "decided_upto G k s" "\<not> lexists (outputs s) e" for s
  proof -
    have t: "under_way G (outputs s)" and w: "written G k (outputs s)"
      using that(1) decided_outputs by (simp_all add: decided_upto_def)
    have "node_at (outputs s) e = None" "e \<noteq> []" using that(2) by (auto simp: lexists_def node_at_def)
    note mk = under_way_mkdir [OF G t k e this(2,1)]
    show ?thesis by (rule decided_upto_update [OF that(1) mk(1)]) (use w mk(2) k in \<open>simp add: written_def\<close>)
  qed
  show "crash_safe (\<lambda>s. decided_upto G k s \<and> b = lexists (outputs s) e) (act_when (\<not> b) (set_output e Directory))
      (decided G) (\<lambda>_. decided_upto G k)"
    unfolding set_output_def
    by (intro crash_safe_when crash_safe_durable) (use step in \<open>auto simp: decided_upto_def\<close>)
qed (rule crash_safe_observe, simp)

lemma safe_durable_mkdir:
  assumes G: "good G" and k: "k < length (outs G)"
  shows "crash_safe (decided_upto G k) (durable_mkdir (butlast (destination G k))) (decided G) (\<lambda>_. decided_upto G k)"
  unfolding durable_mkdir_def
proof (rule crash_safe_bind [where R = "\<lambda>_. decided_upto G k"])
  let ?d = "butlast (destination G k)"
  have below: "strict_prefix e (destination G k)" if "prefix e ?d" for e
  proof -
    have "destination G k = ?d @ [last (destination G k)]" using destination_nonempty [OF G k] by simp
    then have "prefix ?d (destination G k)" by (metis prefixI)
    moreover have "length e < length (destination G k)"
    proof -
      have "0 < length (destination G k)" using destination_nonempty [OF G k] by simp
      moreover have "length e \<le> length (destination G k) - 1" using prefix_length_le [OF that] by simp
      ultimately show ?thesis by linarith
    qed
    ultimately show ?thesis using that prefix_order.trans unfolding strict_prefix_def by blast
  qed
  show "crash_safe (decided_upto G k) (act_each make_directory (prefixes ?d)) (decided G) (\<lambda>_. decided_upto G k)"
    by (rule crash_safe_each_const) (use safe_make_directory [OF G k below] in simp)
  let ?e = "\<lambda>s. existing_part (outputs s) ?d"
  show "crash_safe (decided_upto G k) (observe (\<lambda>s. case node_at (outputs s) (?e s) of
        Some Directory \<Rightarrow> raise_if (list_ex (\<lambda>r. node_at (outputs s) r = Some Link) (prefixes (?e s)))
          (Output_error Path_contains_link (join ''/'' ?d))
      | _ \<Rightarrow> Inl (Output_error Non_directory_ancestor (join ''/'' ?d)))) (decided G) (\<lambda>_. decided_upto G k)"
  proof (rule crash_safe_observe)
    fix s assume s: "decided_upto G k s"
    then have t: "under_way G (outputs s)" using decided_outputs by (simp add: decided_upto_def)
    have "node_at (outputs s) (?e s) = Some Directory"
      by (rule under_way_parents [OF G t k below]) (rule existing_part_props)+
    moreover have "\<not> list_ex (\<lambda>r. node_at (outputs s) r = Some Link) (prefixes (?e s))"
      using no_linksD(1) [OF under_way_links [OF G t]] by (simp add: list_ex_iff)
    ultimately show "\<exists>x. (case node_at (outputs s) (?e s) of
        Some Directory \<Rightarrow> raise_if (list_ex (\<lambda>r. node_at (outputs s) r = Some Link) (prefixes (?e s)))
          (Output_error Path_contains_link (join ''/'' ?d))
      | _ \<Rightarrow> Inl (Output_error Non_directory_ancestor (join ''/'' ?d))) = Inr x \<and> decided_upto G k s"
      using s by (simp add: raise_if_def)
  qed
qed

definition unfinished :: "publication \<Rightarrow> nat \<Rightarrow> store \<Rightarrow> bool" where
  "unfinished G k s \<longleftrightarrow> decided_upto G k s \<and> \<not> has_hash (outputs s) (destination G k) (hash_after G k)"

lemma unfinished_write:
  assumes G: "good G" and k: "k < length (outs G)" and s: "unfinished G k s"
  shows "unfinished G k (s\<lparr>outputs := set_node (outputs s) (temporary_of G k) (Regular j b)\<rparr>)"
    and "unfinished G k (s\<lparr>outputs := remove_node (outputs s) (temporary_of G k)\<rparr>)"
proof -
  have t: "under_way G (outputs s)" and w: "written G k (outputs s)" and d: "decided_upto G k s"
    and u: "\<not> has_hash (outputs s) (destination G k) (hash_after G k)"
    using s decided_outputs by (simp_all add: unfinished_def decided_upto_def)
  note wr = under_way_write_temporary [OF G t k u] and rm = under_way_remove_temporary [OF G t, where i = k]
  show "unfinished G k (s\<lparr>outputs := set_node (outputs s) (temporary_of G k) (Regular j b)\<rparr>)"
    unfolding unfinished_def
    by (intro conjI decided_upto_update [OF d wr(1)]) (use w u wr(2) k in \<open>simp_all add: written_def\<close>)
  show "unfinished G k (s\<lparr>outputs := remove_node (outputs s) (temporary_of G k)\<rparr>)"
    unfolding unfinished_def
    by (intro conjI decided_upto_update [OF d rm(1)]) (use w u rm(2) k in \<open>simp_all add: written_def\<close>)
qed

lemma unfinished_decided: "unfinished G k s \<Longrightarrow> decided G s"
  by (simp add: unfinished_def decided_upto_def)

lemma safe_set_temporary:
  assumes G: "good G" and k: "k < length (outs G)"
  shows "crash_safe (unfinished G k) (set_output (temporary_of G k) (Regular j b)) (decided G)
    (\<lambda>_ s. unfinished G k s \<and> node_at (outputs s) (temporary_of G k) = Some (Regular j b))"
  unfolding set_output_def
proof (rule crash_safe_durable)
  fix s assume s: "unfinished G k s"
  let ?s = "s\<lparr>outputs := set_node (outputs s) (temporary_of G k) (Regular j b)\<rparr>"
  have u: "unfinished G k ?s" by (rule unfinished_write(1) [OF G k s])
  then show "decided G ?s" by (rule unfinished_decided)
  show "unfinished G k ?s \<and> node_at (outputs ?s) (temporary_of G k) = Some (Regular j b)"
    using u by (simp add: node_at_set temporary_nonempty)
qed

lemma safe_write_temporary:
  assumes G: "good G" and k: "k < length (outs G)"
  shows "crash_safe (unfinished G k) (write_temporary h (temporary_of G k) b) (decided G)
    (\<lambda>_ s. unfinished G k s \<and> node_at (outputs s) (temporary_of G k) = Some (Regular (new_identity h) b))"
  unfolding write_temporary_def
  by (rule crash_safe_bind [OF crash_safe_weaken [OF safe_set_temporary [OF G k]] safe_set_temporary [OF G k]])
    simp_all

lemma safe_replace:
  assumes G: "good G" and k: "k < length (outs G)"
  shows "crash_safe (\<lambda>s. unfinished G k s \<and> node_at (outputs s) (temporary_of G k) = Some (Regular j (content_after G k)))
    (replace_output (temporary_of G k) (destination G k)) (decided G) (\<lambda>_. decided_upto G (Suc k))"
    (is "crash_safe ?P _ _ _")
  unfolding replace_output_def
proof (rule crash_safe_bind [where R = "\<lambda>x s. ?P s \<and> x = Regular j (content_after G k)"])
  show "crash_safe ?P (observe (\<lambda>s. if node_at (outputs s) (destination G k) = Some Directory
        then Inl (Os_error (join ''/'' (destination G k)))
        else case node_at (outputs s) (temporary_of G k) of
          None \<Rightarrow> Inl (Os_error (join ''/'' (temporary_of G k))) | Some n \<Rightarrow> Inr n))
      (decided G) (\<lambda>x s. ?P s \<and> x = Regular j (content_after G k))"
  proof (rule crash_safe_observe)
    fix s assume s: "?P s"
    then have "under_way G (outputs s)" using unfinished_decided decided_outputs by blast
    from under_way_destination [OF G this k, of Directory]
    have "node_at (outputs s) (destination G k) \<noteq> Some Directory" by auto
    with s show "\<exists>x. (if node_at (outputs s) (destination G k) = Some Directory
        then Inl (Os_error (join ''/'' (destination G k)))
        else case node_at (outputs s) (temporary_of G k) of
          None \<Rightarrow> Inl (Os_error (join ''/'' (temporary_of G k))) | Some n \<Rightarrow> Inr n) = Inr x
        \<and> ?P s \<and> x = Regular j (content_after G k)" by simp
  qed
next
  fix x
  have step: "decided_upto G (Suc k) (s\<lparr>outputs := set_node (remove_node (outputs s) (temporary_of G k)) (destination G k) x\<rparr>)"
    if s: "?P s \<and> x = Regular j (content_after G k)" for s
  proof -
    have d: "decided G s" and w: "written G k (outputs s)" and t: "under_way G (outputs s)"
      using s unfinished_decided decided_outputs by (auto simp: unfinished_def decided_upto_def)
    note r = under_way_replace [OF G t k, where j = j]
    have "written G (Suc k) (set_node (remove_node (outputs s) (temporary_of G k)) (destination G k) (Regular j (content_after G k)))"
      unfolding written_def
    proof (intro allI impI)
      fix i assume "i < Suc k"
      then consider "i = k" | "i < k" by linarith
      then show "has_hash (set_node (remove_node (outputs s) (temporary_of G k)) (destination G k) (Regular j (content_after G k)))
          (destination G i) (hash_after G i)"
        by cases (use r(2,3) w k in \<open>simp_all add: written_def\<close>)
    qed
    with decided_update [OF d r(1)] s show ?thesis by (simp add: decided_upto_def)
  qed
  show "crash_safe (\<lambda>s. ?P s \<and> x = Regular j (content_after G k))
      (durable (\<lambda>s. s\<lparr>outputs := set_node (remove_node (outputs s) (temporary_of G k)) (destination G k) x\<rparr>))
      (decided G) (\<lambda>_. decided_upto G (Suc k))"
    by (rule crash_safe_durable) (use step in \<open>auto simp: decided_upto_def\<close>)
qed

lemma safe_clear_temporary:
  assumes G: "good G" and k: "k < length (outs G)"
  shows "crash_safe (unfinished G k) (act_when b (unlink_output (temporary_of G k))) (decided G) (\<lambda>_. unfinished G k)"
  unfolding unlink_output_def
  using unfinished_write(2) [OF G k] unfinished_decided
  by (intro crash_safe_when crash_safe_durable) blast+

lemma safe_install_file:
  assumes G: "good G" and k: "k < length (outs G)"
  shows "crash_safe (unfinished G k) (install_file h (destination G k) (content_after G k) (hash_after G k) (pub_token G) k)
    (decided G) (\<lambda>_. decided_upto G (Suc k))"
proof -
  let ?t = "temporary_of G k" and ?d = "destination G k"
  let ?rest = "\<lambda>left. if left \<noteq> None \<and> content_of left = None
     then observe (\<lambda>_. Inl (Output_error Temporary_unsafe (join ''/'' ?t)))
     else act_bind (act_when (left \<noteq> None) (unlink_output ?t)) (\<lambda>_.
       act_bind (write_temporary h ?t (content_after G k)) (\<lambda>_.
       if sha256_hex (content_after G k) \<noteq> hash_after G k
       then observe (\<lambda>_. Inl (Output_error Temporary_mismatch (join ''/'' ?t)))
       else replace_output ?t ?d))"
  have hash: "(if sha256_hex (content_after G k) \<noteq> hash_after G k then m else m') = m'" for m m' :: "unit coordinator"
    by (simp add: hash_after_def)
  have "crash_safe (\<lambda>s. unfinished G k s \<and> left = node_at (outputs s) ?t) (?rest left) (decided G)
      (\<lambda>_. decided_upto G (Suc k))" for left
  proof (cases "left \<noteq> None \<and> content_of left = None")
    case True
    have "\<not> (unfinished G k s \<and> left = node_at (outputs s) ?t)" for s
    proof
      assume s: "unfinished G k s \<and> left = node_at (outputs s) ?t"
      then have t: "under_way G (outputs s)" using unfinished_decided decided_outputs by blast
      from True obtain x where x: "left = Some x" by blast
      with s under_way_temporary [OF G t, of k x] obtain j b where "x = Regular j b" by auto
      with True x show False by (simp add: content_of_def)
    qed
    then show ?thesis by (rule crash_safe_vacuous)
  next
    case False
    have "crash_safe (unfinished G k) (act_bind (act_when (left \<noteq> None) (unlink_output ?t)) (\<lambda>_.
       act_bind (write_temporary h ?t (content_after G k)) (\<lambda>_. replace_output ?t ?d)))
       (decided G) (\<lambda>_. decided_upto G (Suc k))"
      by (rule crash_safe_bind [OF safe_clear_temporary [OF G k]
            crash_safe_bind [OF safe_write_temporary [OF G k] safe_replace [OF G k]]])
    then show ?thesis unfolding if_not_P [OF False] hash by (rule crash_safe_weaken) simp_all
  qed
  then show ?thesis unfolding install_file_def Let_def temporary_of_def [symmetric]
    by (rule crash_safe_bind [OF crash_safe_observe, rotated]) simp
qed

lemma safe_publish_one:
  assumes G: "good G" and k: "k < length (outs G)"
  shows "crash_safe (decided_upto G k)
    (publish_one h (destination G k) (content_after G k) (hash_before G k) (hash_after G k) (pub_token G) k)
    (decided G) (\<lambda>_. decided_upto G (Suc k))"
proof -
  let ?P = "\<lambda>found s. decided_upto G k s \<and> found = node_at (outputs s) (destination G k)"
  let ?skip = "\<lambda>found. found \<noteq> None \<and> map_option sha256_hex (content_of found) = Some (hash_after G k)"
  let ?bad = "\<lambda>found. found \<noteq> None \<and> map_option sha256_hex (content_of found) \<noteq> hash_before G k"
  let ?m = "install_file h (destination G k) (content_after G k) (hash_after G k) (pub_token G) k"
  have body: "crash_safe (?P found) (if ?skip found then act_return ()
      else if ?bad found then observe (\<lambda>_. Inl e) else ?m) (decided G) (\<lambda>_. decided_upto G (Suc k))" for found e
  proof (cases "?skip found")
    case True
    have "decided_upto G (Suc k) s" if "?P found s" for s
      using True that by (auto simp: decided_upto_def written_def has_hash_def less_Suc_eq)
    then show ?thesis unfolding if_P [OF True] by (rule crash_safe_return)
  next
    case noskip: False
    show ?thesis
    proof (cases "?bad found")
      case True
      have "\<not> ?P found s" for s
      proof
        assume s: "?P found s"
        then have t: "under_way G (outputs s)" using decided_outputs by (simp add: decided_upto_def)
        from True obtain x where x: "found = Some x" by blast
        with s under_way_destination [OF G t k, of x] obtain j b where b: "x = Regular j b"
          and "hash_before G k = Some (sha256_hex b) \<or> b = content_after G k" by auto
        with True noskip x show False by (simp add: content_of_def hash_after_def)
      qed
      then show ?thesis by (rule crash_safe_vacuous)
    next
      case False
      have "unfinished G k s" if "?P found s" for s
        using that noskip by (auto simp: unfinished_def has_hash_def content_of_def)
      then show ?thesis unfolding if_not_P [OF noskip] if_not_P [OF False]
        by (rule crash_safe_weaken [OF safe_install_file [OF G k]])
    qed
  qed
  have "crash_safe (decided_upto G k) (observe (\<lambda>s. Inr (node_at (outputs s) (destination G k)))) (decided G) ?P"
    by (rule crash_safe_observe) simp
  then show ?thesis unfolding publish_one_def Let_def
    by (rule crash_safe_bind [OF safe_durable_mkdir [OF G k] crash_safe_bind [OF _ body]])
qed

section \<open>Checking the pending document\<close>

lemma entries_after_new:
  assumes G: "good G" and "k \<le> length (outs G)" and "i < k"
  shows "map_of (entries_after G k) (relative_of G i) = Some (new_entry G i)"
  using assms(2,3)
proof (induction k)
  case (Suc k)
  then show ?case using relative_inj [OF G, of i k] by (cases "i = k") auto
qed simp

lemma entries_after_old:
  "(\<And>i. i < k \<Longrightarrow> r \<noteq> relative_of G i) \<Longrightarrow> map_of (entries_after G k) r = map_of (snapshot_entries (pub_snapshot G)) r"
  by (induction k) simp_all

lemma entries_after_distinct:
  "distinct (map fst (snapshot_entries (pub_snapshot G))) \<Longrightarrow> distinct (map fst (entries_after G k))"
  by (induction k) (simp_all add: distinct_dict_set)

fun expected_after :: "publication \<Rightarrow> nat \<Rightarrow> entries" where
  \<comment> \<open>the entries the check expects after \<open>k\<close> entries of the document\<close>
  "expected_after G 0 = snapshot_entries (pub_snapshot G)"
| "expected_after G (Suc k) = dict_set
     (case map_option (Pair (relative_of G k)) (map_of (expected_after G k) (relative_of G k)) of
        None \<Rightarrow> expected_after G k | Some (q, _) \<Rightarrow> without (expected_after G k) q)
     (relative_of G k) (new_entry G k)"

lemma expected_after_map_of: "map_of (expected_after G k) = map_of (entries_after G k)"
proof (induction k)
  case (Suc k)
  then show ?case
    by (cases "map_of (entries_after G k) (relative_of G k)") (auto simp: without_map_of)
qed simp

lemma distinct_without: "distinct (map fst d) \<Longrightarrow> distinct (map fst (without d k))"
  unfolding without_def by (rule distinct_map_filter)

lemma expected_after_distinct:
  "distinct (map fst (snapshot_entries (pub_snapshot G))) \<Longrightarrow> distinct (map fst (expected_after G k))"
  by (induction k) (auto simp: distinct_dict_set distinct_without split: option.split)

lemma sorted_entries_eqI:
  assumes "distinct (map fst a)" and "distinct (map fst b)" and "map_of a = map_of b"
  shows "sorted_entries a = sorted_entries b"
proof -
  have set: "set a = set b"
  proof -
    have "x \<in> set a \<longleftrightarrow> x \<in> set b" for x
      using map_of_eq_Some_iff [OF assms(1), of "fst x" "snd x"] map_of_eq_Some_iff [OF assms(2), of "fst x" "snd x"] assms(3)
      by simp
    then show ?thesis by blast
  qed
  have "map fst (sorted_entries a) = map fst (sorted_entries b)"
  proof (rule sorted_distinct_set_unique)
    show "distinct (map fst (sorted_entries a))" "distinct (map fst (sorted_entries b))"
      using assms(1,2) by (simp_all add: sorted_entries_def distinct_map)
    show "set (map fst (sorted_entries a)) = set (map fst (sorted_entries b))"
      by (simp add: sorted_entries_def set)
  qed (simp_all add: sorted_entries_def)
  moreover have "inj_on fst (set (sorted_entries a) \<union> set (sorted_entries b))"
    using assms(1) by (simp add: sorted_entries_def set [symmetric] distinct_map)
  ultimately show ?thesis by (simp add: inj_on_map_eq_map)
qed

definition checked_of :: "publication \<Rightarrow> nat \<Rightarrow> checked_entry" where
  "checked_of G i = \<lparr>ce_destination = destination G i, ce_before = hash_before G i, ce_after = Some (hash_after G i),
     ce_payload = Some (payload_name i), ce_transfer = None\<rparr>"

definition document_entry :: "publication \<Rightarrow> nat \<Rightarrow> pending_entry" where
  "document_entry G i = \<lparr>pe_after = Some (hash_after G i), pe_before = hash_before G i, pe_path = relative_of G i,
     pe_payload = Some (payload_name i), pe_target = pub_target G, pe_transfer = None\<rparr>"

lemma pending_entries_planned: "pending_entries (planned_pending G es) = map (document_entry G) [0..<length (outs G)]"
  by (simp add: planned_pending_def transaction_of_def document_entry_def)

lemma planned_target_of:
  assumes "good G" and "i < length (outs G)"
  shows "planned_target (pub_plan G) (relative_of G i) = Some (pub_target G)"
proof -
  let ?xs = "map (\<lambda>x. (output_relative x, output_target x)) (plan_outputs (pub_plan G))"
  have "(relative_of G i, pub_target G) \<in> set ?xs"
    using outs_nth [OF assms(2)] by (force simp: relative_of_def)
  moreover have "distinct (map fst (rev ?xs))"
    unfolding rev_map [symmetric] distinct_rev using good_plan(2) [OF assms(1)] by (simp add: comp_def)
  ultimately show ?thesis unfolding planned_target_def by (intro map_of_is_SomeI) (simp_all only: set_rev)
qed

lemma hash_before_sha:
  assumes G: "good G"
  shows "pred_option is_sha256 (hash_before G i)"
proof -
  have "validate_snapshot (pub_host G) (pub_claim G) (pub_snapshot G) = Inr ()"
    by (rule good_start(1) [OF G])
  then have "list_all (\<lambda>(r, e). sha_entry e) (snapshot_entries (pub_snapshot G))"
    by (auto simp: validate_snapshot_def check_entries_def list_all_iff split: if_split_asm)
  then show ?thesis
    by (auto simp: hash_before_def list_all_iff sha_entry_def pred_option_def dest: map_of_SomeD)
qed

lemma check_entry_decided:
  assumes G: "good G" and k: "k < length (outs G)" and t: "under_way G t" and td: "full_payloads G (payloads td)"
  shows "check_entry (pub_host G) t (pub_plan G) td (k, document_entry G k)
      \<lparr>expected_entries = expected_after G k, seen_paths = rev (map (relative_of G) [0..<k]),
        checked_entries = map (checked_of G) [0..<k]\<rparr>
    = Inr \<lparr>expected_entries = expected_after G (Suc k), seen_paths = rev (map (relative_of G) [0..<Suc k]),
        checked_entries = map (checked_of G) [0..<Suc k]\<rparr>"
proof -
  let ?r = "relative_of G k"
  let ?previous = "map_option (Pair ?r) (map_of (expected_after G k) ?r)"
  have ne: "relative_of G i \<noteq> ?r" if "i < k" for i
  proof
    assume "relative_of G i = ?r"
    with relative_inj [OF G less_trans [OF that k] k] that show False by simp
  qed
  have seen: "?r \<notin> set (rev (map (relative_of G) [0..<k]))"
  proof
    assume "?r \<in> set (rev (map (relative_of G) [0..<k]))"
    then obtain i where "i < k" "relative_of G i = ?r" by auto
    with ne show False by blast
  qed
  have old: "map_of (expected_after G k) ?r = map_of (snapshot_entries (pub_snapshot G)) ?r"
    unfolding expected_after_map_of by (rule entries_after_old, rule not_sym, rule ne)
  have prior: "check_prior (document_entry G k) ?previous = Inr ()"
    unfolding old by (cases "map_of (snapshot_entries (pub_snapshot G)) ?r")
      (simp_all add: check_prior_def document_entry_def hash_before_def raise_if_def)
  have path: "output_path t ?r = Inr (destination G k)" by (rule under_way_output_path [OF G t k])
  have entry: "snapshot_entry_for_path (pub_host G) t (expected_after G k) ?r = Inr ?previous"
    by (rule snapshot_entry_plain [OF under_way_links [OF G t]])
  have target: "is_sha256 (pub_target G)" by (rule good_start(7) [OF G])
  have publication: "check_publication (pub_plan G) td k (document_entry G k) ?r (destination G k) (hash_after G k) es
      = Inr (dict_set es ?r (new_entry G k), checked_of G k)" for es
    using planned_target_of [OF G k] td k
    by (simp add: check_publication_def document_entry_def full_payloads_def hash_after_def checked_of_def new_entry_def)
  define e where "e = document_entry G k"
  have e: "pe_path e = ?r" "pe_before e = hash_before G k" "pe_target e = pub_target G" "pe_after e = Some (hash_after G k)"
    by (simp_all add: e_def document_entry_def)
  define st where "st = \<lparr>expected_entries = expected_after G k, seen_paths = rev (map (relative_of G) [0..<k]),
      checked_entries = map (checked_of G) [0..<k]\<rparr>"
  have conditions: "List.member (seen_paths st) ?r = False"
      "(\<not> pred_option is_sha256 (hash_before G k)) = False" "(\<not> is_sha256 (pub_target G)) = False"
    using seen hash_before_sha [OF G, of k] target by (simp_all add: st_def)
  have "check_entry (pub_host G) t (pub_plan G) td (k, e) st
    = Inr \<lparr>expected_entries = expected_after G (Suc k), seen_paths = ?r # seen_paths st,
        checked_entries = checked_entries st @ [checked_of G k]\<rparr>"
    by (simp only: check_entry_def prod.case e relative_valid [OF G k] rbind.simps conditions if_False path
        Let_def option.case publication [folded e_def] expected_after.simps)
      (simp add: st_def entry prior [folded e_def] split: option.split)
  then show ?thesis by (simp add: e_def st_def)
qed

section \<open>Applying the pending document\<close>

lemma enumerate_map_upt: "List.enumerate 0 (map f [0..<n]) = map (\<lambda>i. (i, f i)) [0..<n]"
  by (rule nth_equalityI) (simp_all add: nth_enumerate_eq)

lemma check_entries_decided:
  assumes G: "good G" and t: "under_way G t" and td: "full_payloads G (payloads td)" and "k \<le> length (outs G)"
  shows "rfold (check_entry (pub_host G) t (pub_plan G) td) (map (\<lambda>i. (i, document_entry G i)) [0..<k])
      \<lparr>expected_entries = expected_after G 0, seen_paths = [], checked_entries = []\<rparr>
    = Inr \<lparr>expected_entries = expected_after G k, seen_paths = rev (map (relative_of G) [0..<k]),
        checked_entries = map (checked_of G) [0..<k]\<rparr>"
  using assms(4)
proof (induction k)
  case (Suc k)
  then show ?case
    using check_entry_decided [OF G _ t td, of k] by (simp add: rfold_append)
qed simp

lemma check_pending_decided:
  assumes G: "good G" and t: "under_way G (outputs s)" and tx: "transactions s = [(pub_token G, td)]"
    and td: "full_payloads G (payloads td)"
  shows "check_pending_entries (pub_host G) (pub_plan G) (pub_snapshot G) (decided_pending G) (pub_token G) s
    = Inr (map (checked_of G) [0..<length (outs G)])"
proof -
  have "sorted_entries (final_entries G) = sorted_entries (expected_after G (length (outs G)))"
    by (rule sorted_entries_eqI)
      (simp_all add: entries_after_distinct expected_after_distinct good_start(2) [OF G] expected_after_map_of)
  moreover have "sorted_entries (sorted_entries es) = sorted_entries es" for es
    unfolding sorted_entries_def by (rule sort_key_id_if_sorted) simp
  moreover have "snapshot_entries (new_snapshot (decided_pending G)) = sorted_entries (final_entries G)"
    and "base_generation (decided_pending G) = snapshot_generation (pub_snapshot G)"
    by (simp_all add: planned_pending_def transaction_of_def next_snapshot_def)
  ultimately show ?thesis
    using check_entries_decided [OF G t td le_refl]
    by (simp add: check_pending_entries_def pending_entries_planned enumerate_map_upt tx)
qed

lemma valid_final_entries:
  assumes G: "good G" and "k \<le> length (outs G)"
  shows "check_entries (pub_host G) (entries_after G k) err = Inr ()"
  using assms(2)
proof (induction k)
  case 0
  show ?case using good_start(1) [OF G]
    by (auto simp: validate_snapshot_def check_entries_def split: if_split_asm)
next
  case (Suc k)
  have entry: "sha_entry (new_entry G k)"
    using good_start(7) [OF G] by (simp add: sha_entry_def new_entry_def hash_after_def)
  have "(\<lambda>(r, e). rbind (validate_relative_path (casefold_of (pub_host G)) r)
      (\<lambda>_. raise_if (\<not> sha_entry e) (Claim_error err r))) (relative_of G k, new_entry G k) = Inr ()"
    using relative_valid [OF G, of k] entry Suc.prems by simp
  with Suc set_dict_set [of "entries_after G k" "relative_of G k" "new_entry G k"] show ?case
    unfolding check_entries_def each_ok by auto
qed

lemma valid_new_snapshot:
  assumes G: "good G"
  shows "check_replacement (pub_host G) (pub_claim G) (decided_pending G) = Inr ()"
proof -
  have "snapshot_generation (pub_snapshot G) \<ge> 0"
    using good_start(1) [OF G] by (auto simp: validate_snapshot_def split: if_split_asm)
  moreover have "check_entries (pub_host G) (sorted_entries (final_entries G)) err = Inr ()" for err
    using valid_final_entries [OF G le_refl] unfolding check_entries_def each_ok sorted_entries_set .
  ultimately show ?thesis
    by (simp add: check_replacement_def validate_snapshot_def planned_pending_def transaction_of_def next_snapshot_def raise_if_def)
qed

lemma decided_committed:
  assumes "decided_upto G (length (outs G)) s"
  shows "committed G (s\<lparr>snapshot_json := Some (new_snapshot (decided_pending G))\<rparr>)"
proof -
  from assms obtain t td where s: "s = (pub_start G)\<lparr>outputs := t, transactions := [(pub_token G, td)]\<rparr>"
    and td: "pending_json td = Some (decided_pending G)" and t: "under_way G t"
    and w: "written G (length (outs G)) t"
    by (auto simp: decided_upto_def decided_def)
  have "s\<lparr>snapshot_json := Some (new_snapshot (decided_pending G))\<rparr> = (pub_start G)\<lparr>outputs := t,
      snapshot_json := Some (new_snapshot (decided_pending G)), transactions := [(pub_token G, td)]\<rparr>" by (simp add: s)
  with td t w show ?thesis unfolding committed_def by blast
qed

text \<open>Removing the transaction directory keeps either phase.\<close>

definition removable :: "publication \<Rightarrow> (store \<Rightarrow> bool) \<Rightarrow> bool" where
  "removable G I \<longleftrightarrow> (\<forall>s. I s \<longrightarrow> transactions s = [] \<or> (\<exists>td. transactions s = [(pub_token G, td)]))
     \<and> (\<forall>s td f. I s \<longrightarrow> transactions s = [(pub_token G, td)] \<longrightarrow> pending_json (f td) \<in> {None, pending_json td}
          \<longrightarrow> I (s\<lparr>transactions := [(pub_token G, f td)]\<rparr>))
     \<and> (\<forall>s. I s \<longrightarrow> I (s\<lparr>transactions := []\<rparr>))"

lemma removableD:
  assumes "removable G I" and "I s"
  shows "transactions s = [] \<or> (\<exists>td. transactions s = [(pub_token G, td)])"
    and "transactions s = [(pub_token G, td)] \<Longrightarrow> pending_json (f td) \<in> {None, pending_json td} \<Longrightarrow>
      I (s\<lparr>transactions := [(pub_token G, f td)]\<rparr>)"
    and "I (s\<lparr>transactions := []\<rparr>)"
  using assms unfolding removable_def by blast+

lemma safe_remove_transaction:
  assumes I: "removable G I"
  shows "crash_safe I (remove_transaction h (pub_token G)) I (\<lambda>_ s. I s \<and> transactions s = [])"
proof -
  let ?tid = "pub_token G"
  have item: "crash_safe I (remove_item ?tid n) I (\<lambda>_. I)" for n
  proof -
    have step: "I (case map_of (transactions s) ?tid of None \<Rightarrow> s
        | Some td \<Rightarrow> s\<lparr>transactions := dict_set (transactions s) ?tid (if n = ''pending.json''
            then td\<lparr>pending_json := None\<rparr> else td\<lparr>payloads := without (payloads td) n\<rparr>)\<rparr>)" if s: "I s" for s
      using removableD(1) [OF I s]
    proof (elim disjE exE)
      fix td assume tx: "transactions s = [(?tid, td)]"
      have "I (s\<lparr>transactions := [(?tid, if n = ''pending.json'' then td\<lparr>pending_json := None\<rparr>
          else td\<lparr>payloads := without (payloads td) n\<rparr>)]\<rparr>)"
        using removableD(2) [OF I s tx, where f = "\<lambda>td. if n = ''pending.json'' then td\<lparr>pending_json := None\<rparr>
          else td\<lparr>payloads := without (payloads td) n\<rparr>"] by simp
      then show ?thesis by (simp add: tx)
    qed (simp add: s)
    show ?thesis unfolding remove_item_def update_transaction_def
      by (rule crash_safe_durable) (use step in blast)+
  qed
  have last: "I (s\<lparr>transactions := without (transactions s) ?tid\<rparr>) \<and> without (transactions s) ?tid = []" if s: "I s" for s
    using removableD(1) [OF I s] removableD(3) [OF I s] s by (auto simp: without_def)
  have drop: "crash_safe I (durable (\<lambda>s. s\<lparr>transactions := without (transactions s) ?tid\<rparr>)) I
      (\<lambda>_ s. I s \<and> transactions s = [])"
    by (rule crash_safe_durable) (use last removableD(3) [OF I] in simp_all)
  have some: "crash_safe I (act_bind (act_each (remove_item ?tid) xs)
      (\<lambda>_. durable (\<lambda>s. s\<lparr>transactions := without (transactions s) ?tid\<rparr>))) I (\<lambda>_ s. I s \<and> transactions s = [])" for xs
    by (rule crash_safe_bind [OF crash_safe_each_const [OF item] drop])
  have none: "crash_safe (\<lambda>s. I s \<and> None = map_of (transactions s) ?tid) (act_return ()) I (\<lambda>_ s. I s \<and> transactions s = [])"
    by (rule crash_safe_return) (use removableD(1) [OF I] in force)
  have "crash_safe (\<lambda>s. I s \<and> found = map_of (transactions s) ?tid) (case found of None \<Rightarrow> act_return ()
      | Some td \<Rightarrow> act_bind (act_each (remove_item ?tid) (scan_order h (transaction_items td)))
         (\<lambda>_. durable (\<lambda>s. s\<lparr>transactions := without (transactions s) ?tid\<rparr>))) I (\<lambda>_ s. I s \<and> transactions s = [])" for found
  proof (cases found)
    case (Some td)
    show ?thesis unfolding Some option.case by (rule crash_safe_weaken [OF some]) simp_all
  qed (simp add: none)
  then show ?thesis unfolding remove_transaction_def
    by (rule crash_safe_bind [OF crash_safe_observe, rotated]) simp
qed

lemma safe_apply_entry:
  assumes G: "good G" and k: "k < length (outs G)"
  shows "crash_safe (decided_upto G k) (apply_entry h (pub_token G) (k, checked_of G k)) (decided G)
    (\<lambda>_. decided_upto G (Suc k))"
proof -
  have found: "(case map_of (transactions s) (pub_token G) of None \<Rightarrow> Inl (Os_error (pub_token G))
      | Some td \<Rightarrow> (case ce_payload (checked_of G k) of None \<Rightarrow> Inl (Os_error (pub_token G))
        | Some n \<Rightarrow> (case map_of (payloads td) n of None \<Rightarrow> Inl (Os_error n) | Some b \<Rightarrow> Inr b))) = Inr (content_after G k)"
    if "decided_upto G k s" for s
    using that k by (auto simp: decided_upto_def decided_def full_payloads_def checked_of_def)
  have c: "ce_after (checked_of G k) = Some (hash_after G k)" "ce_destination (checked_of G k) = destination G k"
      "ce_before (checked_of G k) = hash_before G k" by (simp_all add: checked_of_def)
  have body: "crash_safe (\<lambda>s. decided_upto G k s \<and> b = content_after G k)
      (publish_one h (destination G k) b (hash_before G k) (hash_after G k) (pub_token G) k) (decided G)
      (\<lambda>_. decided_upto G (Suc k))" for b
    using safe_publish_one [OF G k] by (cases "b = content_after G k") (simp_all add: crash_safe_vacuous)
  show ?thesis unfolding apply_entry_def prod.case c option.case
    by (rule crash_safe_bind [OF crash_safe_observe body]) (use found in simp)
qed

lemma safe_apply_entries:
  assumes G: "good G"
  shows "crash_safe (decided G) (act_each (apply_entry h (pub_token G)) (List.enumerate 0 (map (checked_of G) [0..<length (outs G)])))
    (decided G) (\<lambda>_. decided_upto G (length (outs G)))"
proof -
  have "crash_safe (decided_upto G 0)
      (act_each (apply_entry h (pub_token G)) (map (\<lambda>i. (i, checked_of G i)) [0..<length (outs G)]))
      (decided G) (\<lambda>_. decided_upto G (length (map (\<lambda>i. (i, checked_of G i)) [0..<length (outs G)])))"
    by (rule crash_safe_each) (simp add: safe_apply_entry [OF G])
  then show ?thesis unfolding enumerate_map_upt
    by (rule crash_safe_weaken) (simp_all add: decided_upto_def written_def)
qed

lemma committed_removable: "removable G (committed G)"
  unfolding removable_def
proof (intro conjI allI impI)
  fix s assume s: "committed G s"
  then show "transactions s = [] \<or> (\<exists>td. transactions s = [(pub_token G, td)])" by (auto simp: committed_def)
  obtain t T where "s = (pub_start G)\<lparr>outputs := t, snapshot_json := Some (new_snapshot (decided_pending G)), transactions := T\<rparr>"
    and t: "under_way G t" "written G (length (outs G)) t" using s by (auto simp: committed_def)
  then have "s\<lparr>transactions := []\<rparr> = (pub_start G)\<lparr>outputs := t,
      snapshot_json := Some (new_snapshot (decided_pending G)), transactions := []\<rparr>" by simp
  with t show "committed G (s\<lparr>transactions := []\<rparr>)" unfolding committed_def by blast
next
  fix s td and f :: "transaction \<Rightarrow> transaction"
  assume s: "committed G s" and tx: "transactions s = [(pub_token G, td)]" and f: "pending_json (f td) \<in> {None, pending_json td}"
  from s tx obtain t where st: "s = (pub_start G)\<lparr>outputs := t, snapshot_json := Some (new_snapshot (decided_pending G)),
      transactions := [(pub_token G, td)]\<rparr>" and t: "under_way G t" "written G (length (outs G)) t"
    and td: "pending_json td = None \<or> pending_json td = Some (decided_pending G)"
    by (auto simp: committed_def)
  have "s\<lparr>transactions := [(pub_token G, f td)]\<rparr> = (pub_start G)\<lparr>outputs := t,
      snapshot_json := Some (new_snapshot (decided_pending G)), transactions := [(pub_token G, f td)]\<rparr>" by (simp add: st)
  moreover have "pending_json (f td) = None \<or> pending_json (f td) = Some (decided_pending G)" using f td by auto
  ultimately show "committed G (s\<lparr>transactions := [(pub_token G, f td)]\<rparr>)" using t unfolding committed_def by blast
qed

lemma undecided_removable: "removable G (undecided G)"
  unfolding removable_def
proof (intro conjI allI impI)
  fix s assume s: "undecided G s"
  then show "transactions s = [] \<or> (\<exists>td. transactions s = [(pub_token G, td)])" by (auto simp: undecided_def)
  show "undecided G (s\<lparr>transactions := []\<rparr>)" using s by (auto simp: undecided_def)
next
  fix s td and f :: "transaction \<Rightarrow> transaction"
  assume s: "undecided G s" and tx: "transactions s = [(pub_token G, td)]" and f: "pending_json (f td) \<in> {None, pending_json td}"
  from s tx have st: "s = (pub_start G)\<lparr>transactions := [(pub_token G, td)]\<rparr>" and "pending_json td = None"
    by (auto simp: undecided_def)
  with f have "pending_json (f td) = None" by simp
  with st show "undecided G (s\<lparr>transactions := [(pub_token G, f td)]\<rparr>)" by (auto simp: undecided_def)
qed

lemma safe_load_snapshot:
  assumes "\<And>s. P s \<Longrightarrow> snapshot_json s = Some n" and "validate_snapshot h c n = Inr ()"
  shows "crash_safe P (load_snapshot h c) C (\<lambda>m s. P s \<and> m = n)"
  unfolding load_snapshot_def by (rule crash_safe_observe) (use assms in auto)

lemma check_pending_ok:
  assumes G: "good G"
  shows "check_pending (pub_host G) (pub_plan G) (pub_claim G) (decided_pending G) (pub_token G) = Inr ()"
proof -
  have "snapshot_generation (pub_snapshot G) \<ge> 0"
    using good_start(1) [OF G] by (auto simp: validate_snapshot_def split: if_split_asm)
  then show ?thesis by (simp add: check_pending_def planned_pending_def transaction_of_def)
qed

abbreviation apply_decided :: "publication \<Rightarrow> unit coordinator" where
  "apply_decided G \<equiv> apply_pending (pub_host G) (pub_plan G) (pub_claim G) (decided_pending G) (pub_token G)"

lemma safe_apply_decided:
  assumes G: "good G"
  shows "crash_safe (decided G) (apply_decided G) (\<lambda>s. decided G s \<or> committed G s)
    (\<lambda>_ s. committed G s \<and> transactions s = [])"
proof -
  let ?h = "pub_host G" and ?p = "pub_plan G" and ?c = "pub_claim G" and ?w = "decided_pending G" and ?tid = "pub_token G"
  let ?C = "\<lambda>s. decided G s \<or> committed G s" and ?Q = "\<lambda>_ s. committed G s \<and> transactions s = []"
  let ?cs = "map (checked_of G) [0..<length (outs G)]"
  have gen: "snapshot_generation (new_snapshot ?w) \<noteq> snapshot_generation (pub_snapshot G)"
    by (simp add: planned_pending_def transaction_of_def next_snapshot_def)
  have commit: "crash_safe (decided_upto G (length (outs G))) (write_snapshot (new_snapshot ?w)) ?C (\<lambda>_. committed G)"
    unfolding write_snapshot_def by (rule crash_safe_durable) (simp_all add: decided_committed)
  have remove: "crash_safe (committed G) (remove_transaction ?h ?tid) ?C ?Q"
    by (rule crash_safe_weaken [OF safe_remove_transaction [OF committed_removable]]) simp_all
  have entries: "crash_safe (\<lambda>s. decided G s \<and> cs = ?cs) (act_each (apply_entry ?h ?tid) (List.enumerate 0 cs)) ?C
      (\<lambda>_. decided_upto G (length (outs G)))" for cs
    using safe_apply_entries [OF G] by (cases "cs = ?cs") (auto intro: crash_safe_weaken crash_safe_vacuous)
  have checked: "crash_safe (decided G) (observe (check_pending_entries ?h ?p (pub_snapshot G) ?w ?tid)) ?C
      (\<lambda>cs s. decided G s \<and> cs = ?cs)"
  proof (rule crash_safe_observe)
    fix s assume s: "decided G s"
    then obtain td where "transactions s = [(?tid, td)]" "full_payloads G (payloads td)" by (auto simp: decided_def)
    from check_pending_decided [OF G decided_outputs [OF s] this] s
    show "\<exists>cs. check_pending_entries ?h ?p (pub_snapshot G) ?w ?tid s = Inr cs \<and> decided G s \<and> cs = ?cs" by simp
  qed
  have branch: "crash_safe (\<lambda>s. decided G s \<and> n = pub_snapshot G)
      (act_bind (observe (\<lambda>_. check_replacement ?h ?c ?w)) (\<lambda>_.
       if snapshot_generation n = snapshot_generation (new_snapshot ?w) then
         (if \<not> same_snapshot n (new_snapshot ?w) then observe (\<lambda>_. Inl (Pending_error Committed_conflict ?tid))
          else remove_transaction ?h ?tid)
       else act_bind (observe (check_pending_entries ?h ?p n ?w ?tid)) (\<lambda>cs.
         act_bind (act_each (apply_entry ?h ?tid) (List.enumerate 0 cs)) (\<lambda>_.
         act_bind (write_snapshot (new_snapshot ?w)) (\<lambda>_. remove_transaction ?h ?tid))))) ?C ?Q" for n
  proof (cases "n = pub_snapshot G")
    case True
    have "crash_safe (decided G) (act_bind (observe (\<lambda>_. check_replacement ?h ?c ?w)) (\<lambda>_.
       act_bind (observe (check_pending_entries ?h ?p (pub_snapshot G) ?w ?tid)) (\<lambda>cs.
         act_bind (act_each (apply_entry ?h ?tid) (List.enumerate 0 cs)) (\<lambda>_.
         act_bind (write_snapshot (new_snapshot ?w)) (\<lambda>_. remove_transaction ?h ?tid))))) ?C ?Q"
      by (rule crash_safe_bind [OF crash_safe_observe crash_safe_bind [OF checked crash_safe_bind [OF entries
            crash_safe_bind [OF commit remove]]]])
        (simp add: valid_new_snapshot [OF G])
    then show ?thesis unfolding True using gen by simp
  qed (simp add: crash_safe_vacuous)
  have snapshot: "snapshot_json s = Some (pub_snapshot G)" if "decided G s" for s
    using that good_start(6) [OF G] by (auto simp: decided_def)
  show ?thesis unfolding apply_pending_def
    by (rule crash_safe_bind [OF crash_safe_observe
          crash_safe_bind [OF safe_load_snapshot [OF snapshot good_start(1) [OF G]] branch]])
      (simp_all add: check_pending_ok [OF G])
qed

section \<open>Recovery\<close>

lemma safe_remove_all:
  assumes I: "removable G I" and tids: "tids = [] \<or> tids = [pub_token G]"
  shows "crash_safe (\<lambda>s. I s \<and> (tids = [] \<longrightarrow> transactions s = [])) (act_each (remove_transaction h) tids) I
    (\<lambda>_ s. I s \<and> transactions s = [])"
  using tids
proof
  assume t: "tids = []"
  show ?thesis unfolding t act_each.simps by (rule crash_safe_return) simp
next
  assume t: "tids = [pub_token G]"
  have "crash_safe I (act_bind (remove_transaction h (pub_token G)) (\<lambda>_. act_return ())) I (\<lambda>_ s. I s \<and> transactions s = [])"
    by (rule crash_safe_bind [OF safe_remove_transaction [OF I]]) (rule crash_safe_return)
  then show ?thesis unfolding t act_each.simps by (rule crash_safe_weaken) simp_all
qed

lemma safe_recover_nothing:
  assumes I: "removable G I" and sha: "is_sha256 (pub_token G)"
    and none: "\<And>s. P s \<Longrightarrow> I s \<and> pending_transactions s = []"
  shows "crash_safe P (recover h c) I (\<lambda>_ s. I s \<and> transactions s = [])"
proof -
  let ?R = "\<lambda>(w, tids) s. w = None \<and> I s \<and> (tids = [] \<or> tids = [pub_token G]) \<and> (tids = [] \<longrightarrow> transactions s = [])"
  have look: "crash_safe P (observe (\<lambda>s. rbind (find_pending s) (\<lambda>w. Inr (w, map fst (transactions s))))) I ?R"
  proof (rule crash_safe_observe)
    fix s assume "P s"
    with none have s: "I s" "pending_transactions s = []" by blast+
    from removableD(1) [OF I s(1)]
    have "find_pending s = Inr None" "map fst (transactions s) = [] \<or> map fst (transactions s) = [pub_token G]"
      "map fst (transactions s) = [] \<longrightarrow> transactions s = []"
      using sha s(2) by (auto simp: find_pending_def)
    with s(1) show "\<exists>x. rbind (find_pending s) (\<lambda>w. Inr (w, map fst (transactions s))) = Inr x \<and> ?R x s" by simp
  qed
  have rest: "crash_safe (?R x) (case x of (w, tids) \<Rightarrow>
      act_bind (case w of None \<Rightarrow> act_return () | Some (tid, w') \<Rightarrow> recover_pending h c tid w')
        (\<lambda>_. act_each (remove_transaction h) tids)) I (\<lambda>_ s. I s \<and> transactions s = [])" for x
  proof -
    obtain w tids where x: "x = (w, tids)" by (cases x)
    show ?thesis
    proof (cases "w = None \<and> (tids = [] \<or> tids = [pub_token G])")
      case True
      then have w: "w = None" and tids: "tids = [] \<or> tids = [pub_token G]" by blast+
      have "crash_safe (?R x) (act_return ()) I (\<lambda>_ s. I s \<and> (tids = [] \<longrightarrow> transactions s = []))"
        by (rule crash_safe_return) (simp add: x)
      then show ?thesis unfolding x prod.case w option.case
        by (rule crash_safe_bind [OF _ safe_remove_all [OF I tids]])
    qed (rule crash_safe_vacuous, auto simp: x)
  qed
  show ?thesis unfolding recover_def by (rule crash_safe_bind [OF look rest])
qed

lemma safe_recover_pending:
  assumes I: "removable G I" and sha: "is_sha256 (pub_token G)"
    and some: "\<And>s. P s \<Longrightarrow> \<exists>td. transactions s = [(pub_token G, td)] \<and> pending_json td = Some w"
    and pending: "crash_safe P (recover_pending h c (pub_token G) w) C (\<lambda>_ s. I s \<and> transactions s = [])"
    and weaker: "\<And>s. I s \<Longrightarrow> C s"
  shows "crash_safe P (recover h c) C (\<lambda>_ s. I s \<and> transactions s = [])"
proof -
  let ?x = "(Some (pub_token G, w), [pub_token G])"
  have look: "crash_safe P (observe (\<lambda>s. rbind (find_pending s) (\<lambda>w. Inr (w, map fst (transactions s))))) C (\<lambda>x s. x = ?x \<and> P s)"
  proof (rule crash_safe_observe)
    fix s assume s: "P s"
    with some obtain td where "transactions s = [(pub_token G, td)]" "pending_json td = Some w" by blast
    then have "find_pending s = Inr (Some (pub_token G, w))" "map fst (transactions s) = [pub_token G]"
      using sha by (simp_all add: find_pending_def pending_transactions_def List.map_filter_simps)
    with s show "\<exists>x. rbind (find_pending s) (\<lambda>w. Inr (w, map fst (transactions s))) = Inr x \<and> x = ?x \<and> P s" by simp
  qed
  have each: "crash_safe (\<lambda>s. I s \<and> transactions s = []) (act_each (remove_transaction h) [pub_token G]) C
      (\<lambda>_ s. I s \<and> transactions s = [])"
    by (rule crash_safe_weaken [OF safe_remove_all [OF I, of "[pub_token G]"]]) (simp_all add: weaker)
  have rest: "crash_safe (\<lambda>s. x = ?x \<and> P s) (case x of (w, tids) \<Rightarrow>
      act_bind (case w of None \<Rightarrow> act_return () | Some (tid, w') \<Rightarrow> recover_pending h c tid w')
        (\<lambda>_. act_each (remove_transaction h) tids)) C (\<lambda>_ s. I s \<and> transactions s = [])" for x
  proof (cases "x = ?x")
    case True
    have "crash_safe P (act_bind (recover_pending h c (pub_token G) w) (\<lambda>_. act_each (remove_transaction h) [pub_token G])) C
        (\<lambda>_ s. I s \<and> transactions s = [])"
      by (rule crash_safe_bind [OF pending each])
    then show ?thesis unfolding True prod.case option.case by (rule crash_safe_weaken) simp_all
  qed (rule crash_safe_vacuous, simp)
  show ?thesis unfolding recover_def by (rule crash_safe_bind [OF look rest])
qed

lemma claim_binding:
  assumes "outcome (load_claim h p) s = Inr c"
  shows "require_plan_claim_binding h p c = Inr ()"
  using assms by (auto simp: load_claim_def require_plan_claim_binding_def check_claim_def raise_if_def
      split: option.split_asm if_split_asm)

lemma safe_recover_decided_pending:
  assumes G: "good G" and run: "crash_safe P (apply_decided G) C Q"
  shows "crash_safe P (recover_pending (pub_host G) (pub_claim G) (pub_token G) (decided_pending G)) C Q"
proof -
  have "pending_plan (decided_pending G) = pub_plan G" "pending_plan_digest (decided_pending G) = plan_digest (pub_plan G)"
    by (simp_all add: planned_pending_def transaction_of_def)
  then have plan: "rbind (from_payload (casefold_of (pub_host G)) (pending_plan (decided_pending G)) (pending_plan_digest (decided_pending G)))
      (\<lambda>q. rbind (require_plan_claim_binding (pub_host G) q (pub_claim G)) (\<lambda>_. Inr q)) = Inr (pub_plan G)"
    using good_plan(1) [OF G] claim_binding [OF good_start(3) [OF G]] by simp
  have "crash_safe (\<lambda>s. P s \<and> q = pub_plan G)
      (apply_pending (pub_host G) q (pub_claim G) (decided_pending G) (pub_token G)) C Q" for q
    using run by (cases "q = pub_plan G") (simp_all add: crash_safe_vacuous)
  then show ?thesis unfolding recover_pending_def plan
    by (rule crash_safe_bind [OF crash_safe_observe, rotated]) simp
qed

lemma safe_apply_committed:
  assumes G: "good G"
  shows "crash_safe (committed G) (apply_decided G) (committed G) (\<lambda>_ s. committed G s \<and> transactions s = [])"
proof -
  let ?w = "decided_pending G"
  have snapshot: "snapshot_json s = Some (new_snapshot ?w)" if "committed G s" for s
    using that by (auto simp: committed_def)
  have valid: "validate_snapshot (pub_host G) (pub_claim G) (new_snapshot ?w) = Inr ()"
    using valid_new_snapshot [OF G] by (simp add: check_replacement_def)
  have branch: "crash_safe (\<lambda>s. committed G s \<and> n = new_snapshot ?w)
      (act_bind (observe (\<lambda>_. check_replacement (pub_host G) (pub_claim G) ?w)) (\<lambda>_.
       if snapshot_generation n = snapshot_generation (new_snapshot ?w) then
         (if \<not> same_snapshot n (new_snapshot ?w) then observe (\<lambda>_. Inl (Pending_error Committed_conflict (pub_token G)))
          else remove_transaction (pub_host G) (pub_token G))
       else m n)) (committed G) (\<lambda>_ s. committed G s \<and> transactions s = [])" for n and m :: "snapshot \<Rightarrow> unit coordinator"
  proof (cases "n = new_snapshot ?w")
    case True
    have "crash_safe (committed G) (act_bind (observe (\<lambda>_. check_replacement (pub_host G) (pub_claim G) ?w))
        (\<lambda>_. remove_transaction (pub_host G) (pub_token G))) (committed G) (\<lambda>_ s. committed G s \<and> transactions s = [])"
      by (rule crash_safe_bind [OF crash_safe_observe safe_remove_transaction [OF committed_removable]])
        (simp add: valid_new_snapshot [OF G])
    then show ?thesis unfolding True by (simp add: same_snapshot_def)
  qed (simp add: crash_safe_vacuous)
  show ?thesis unfolding apply_pending_def
    by (rule crash_safe_bind [OF crash_safe_observe
          crash_safe_bind [OF safe_load_snapshot [OF snapshot valid] branch]])
      (simp_all add: check_pending_ok [OF G])
qed

lemma recover_undecided:
  assumes "is_sha256 (pub_token G)"
  shows "crash_safe (undecided G) (recover h c) (undecided G) (\<lambda>_ s. undecided G s \<and> transactions s = [])"
  by (rule safe_recover_nothing [OF undecided_removable assms])
    (auto simp: undecided_def pending_transactions_def List.map_filter_simps)

lemma recover_decided:
  assumes G: "good G"
  shows "crash_safe (decided G) (recover (pub_host G) (pub_claim G)) (\<lambda>s. decided G s \<or> committed G s)
    (\<lambda>_ s. committed G s \<and> transactions s = [])"
  by (rule safe_recover_pending [OF committed_removable good_start(4) [OF G] _
        safe_recover_decided_pending [OF G safe_apply_decided [OF G]]])
    (auto simp: decided_def)

lemma recover_committed:
  assumes G: "good G"
  shows "crash_safe (committed G) (recover (pub_host G) (pub_claim G)) (committed G)
    (\<lambda>_ s. committed G s \<and> transactions s = [])"
proof -
  let ?pending = "\<lambda>s. \<exists>td. transactions s = [(pub_token G, td)] \<and> pending_json td = Some (decided_pending G)"
  have "crash_safe (\<lambda>s. committed G s \<and> ?pending s) (recover (pub_host G) (pub_claim G)) (committed G)
      (\<lambda>_ s. committed G s \<and> transactions s = [])"
    by (rule safe_recover_pending [OF committed_removable good_start(4) [OF G] _
          crash_safe_weaken [OF safe_recover_decided_pending [OF G safe_apply_committed [OF G]]]]) auto
  moreover have "crash_safe (\<lambda>s. committed G s \<and> \<not> ?pending s) (recover (pub_host G) (pub_claim G)) (committed G)
      (\<lambda>_ s. committed G s \<and> transactions s = [])"
    by (rule safe_recover_nothing [OF committed_removable good_start(4) [OF G]])
      (auto simp: committed_def pending_transactions_def List.map_filter_simps)
  ultimately show ?thesis
    by (rule crash_safe_weaken [OF crash_safe_disj]) blast+
qed

lemma safe_recover:
  "crash_safe (survivable G) (recover (pub_host G) (pub_claim G)) (survivable G) (\<lambda>_. all_or_nothing G)"
proof (cases "start_ok G")
  case True
  then have sha: "is_sha256 (pub_token G)" by (simp add: start_ok_def publishable_def)
  let ?m = "recover (pub_host G) (pub_claim G)"
  have "crash_safe (undecided G) ?m (survivable G) (\<lambda>_. all_or_nothing G)"
    by (rule crash_safe_weaken [OF recover_undecided [OF sha]]) (use True in \<open>auto simp: survivable_def all_or_nothing_def\<close>)
  moreover have "crash_safe (\<lambda>s. good G \<and> decided G s) ?m (survivable G) (\<lambda>_. all_or_nothing G)"
  proof (cases "good G")
    case G: True
    show ?thesis by (rule crash_safe_weaken [OF recover_decided [OF G]]) (use True G in \<open>auto simp: survivable_def all_or_nothing_def\<close>)
  qed (simp add: crash_safe_vacuous)
  moreover have "crash_safe (\<lambda>s. good G \<and> committed G s) ?m (survivable G) (\<lambda>_. all_or_nothing G)"
  proof (cases "good G")
    case G: True
    show ?thesis by (rule crash_safe_weaken [OF recover_committed [OF G]]) (use True G in \<open>auto simp: survivable_def all_or_nothing_def\<close>)
  qed (simp add: crash_safe_vacuous)
  ultimately show ?thesis
    by (rule crash_safe_weaken [OF crash_safe_disj [OF _ crash_safe_disj]]) (auto simp: survivable_def)
qed (rule crash_safe_vacuous, simp add: survivable_def)

interpretation coordinator_recovery:
  recovery "recover (pub_host G) (pub_claim G)" "survivable G" "all_or_nothing G" for G
  by (rule recoveryI) (rule safe_recover)

section \<open>The run of a publication\<close>

abbreviation survives :: "publication \<Rightarrow> (store \<Rightarrow> bool) \<Rightarrow> 'a coordinator \<Rightarrow> ('a \<Rightarrow> store \<Rightarrow> bool) \<Rightarrow> bool" where
  \<comment> \<open>from \<open>P\<close>, a crash of \<open>m\<close> leaves a survivable state, and \<open>Q\<close> holds if \<open>m\<close> returns\<close>
  "survives G \<equiv> step_safe (\<lambda>_. survivable G)"

definition staged_upto :: "publication \<Rightarrow> nat \<Rightarrow> entries \<times> pending_entry list \<Rightarrow> store \<Rightarrow> bool" where
  \<comment> \<open>the first \<open>k\<close> outputs are staged\<close>
  "staged_upto G k acc s \<longleftrightarrow> start_ok G
     \<and> (\<exists>td. s = (pub_start G)\<lparr>transactions := [(pub_token G, td)]\<rparr> \<and> pending_json td = None
          \<and> (\<forall>i<k. map_of (payloads td) (payload_name i) = Some (content_after G i)))
     \<and> acc = (entries_after G k, map (document_entry G) [0..<k])
     \<and> (\<forall>i<k. staged_content (pub_start G) (pub_staging G) (relative_of G i) = Inr (content_after G i)
          \<and> output_path (outputs (pub_start G)) (relative_of G i) = Inr (destination G i)
          \<and> require_observed_state (outputs (pub_start G)) (destination G i) (hash_before G i) True = Inr ())"

lemma survives_payload:
  assumes G: "start_ok G"
  shows "survives G (\<lambda>s. \<exists>td. s = (pub_start G)\<lparr>transactions := [(pub_token G, td)]\<rparr> \<and> pending_json td = None
        \<and> (\<forall>i<k. map_of (payloads td) (payload_name i) = Some (content_after G i)))
     (write_payload (pub_token G) (payload_name k) b)
     (\<lambda>_ s. \<exists>td. s = (pub_start G)\<lparr>transactions := [(pub_token G, td)]\<rparr> \<and> pending_json td = None
        \<and> (\<forall>i<k. map_of (payloads td) (payload_name i) = Some (content_after G i))
        \<and> map_of (payloads td) (payload_name k) = Some b)"
    (is "survives G (?P (\<lambda>_. True)) _ (\<lambda>_. ?Q)")
proof -
  let ?tid = "pub_token G" and ?n = "payload_name k"
  let ?S = "\<lambda>A s. \<exists>td. s = (pub_start G)\<lparr>transactions := [(?tid, td)]\<rparr> \<and> pending_json td = None
      \<and> (\<forall>i<k. map_of (payloads td) (payload_name i) = Some (content_after G i) \<and> payload_name i \<noteq> ?n) \<and> A (map_of (payloads td) ?n)"
  have set: "survives G (?S A) (update_transaction ?tid (\<lambda>td. td\<lparr>payloads := dict_set (payloads td) ?n x\<rparr>))
      (\<lambda>_. ?S (\<lambda>v. v = Some x))" for A x
    unfolding update_transaction_def
  proof (rule step_safe_durable)
    fix s assume "?S A s"
    then obtain td where s: "s = (pub_start G)\<lparr>transactions := [(?tid, td)]\<rparr>" and td: "pending_json td = None"
      and old: "\<forall>i<k. map_of (payloads td) (payload_name i) = Some (content_after G i) \<and> payload_name i \<noteq> ?n" by blast
    let ?td = "td\<lparr>payloads := dict_set (payloads td) ?n x\<rparr>"
    have s': "(case map_of (transactions s) ?tid of None \<Rightarrow> s
        | Some td \<Rightarrow> s\<lparr>transactions := dict_set (transactions s) ?tid (td\<lparr>payloads := dict_set (payloads td) ?n x\<rparr>)\<rparr>)
      = (pub_start G)\<lparr>transactions := [(?tid, ?td)]\<rparr>" by (simp add: s)
    have "undecided G ((pub_start G)\<lparr>transactions := [(?tid, ?td)]\<rparr>)"
      unfolding undecided_def using td by (intro exI [of _ "[(?tid, ?td)]"]) simp
    then show "survivable G (case map_of (transactions s) ?tid of None \<Rightarrow> s
        | Some td \<Rightarrow> s\<lparr>transactions := dict_set (transactions s) ?tid (td\<lparr>payloads := dict_set (payloads td) ?n x\<rparr>)\<rparr>)"
      unfolding s' using G by (simp add: survivable_def)
    show "?S (\<lambda>v. v = Some x) (case map_of (transactions s) ?tid of None \<Rightarrow> s
        | Some td \<Rightarrow> s\<lparr>transactions := dict_set (transactions s) ?tid (td\<lparr>payloads := dict_set (payloads td) ?n x\<rparr>)\<rparr>)"
      unfolding s' using td old by (intro exI [of _ ?td]) simp
  qed
  have guard: "survives G (?P (\<lambda>_. True)) (observe (\<lambda>s. raise_if (case map_of (transactions s) ?tid of None \<Rightarrow> True
         | Some td \<Rightarrow> map_of (payloads td) ?n \<noteq> None) (Os_error ?n))) (\<lambda>_. ?S (\<lambda>_. True))"
  proof (rule step_safe_observe)
    fix s and x :: unit assume "?P (\<lambda>_. True) s" and free: "raise_if (case map_of (transactions s) ?tid of None \<Rightarrow> True
         | Some td \<Rightarrow> map_of (payloads td) ?n \<noteq> None) (Os_error ?n) = Inr x"
    then obtain td where s: "s = (pub_start G)\<lparr>transactions := [(?tid, td)]\<rparr>" and td: "pending_json td = None"
      and old: "\<forall>i<k. map_of (payloads td) (payload_name i) = Some (content_after G i)" by blast
    have "map_of (payloads td) ?n = None" using free by (simp add: s)
    with old have "\<forall>i<k. map_of (payloads td) (payload_name i) = Some (content_after G i) \<and> payload_name i \<noteq> ?n" by auto
    with s td show "?S (\<lambda>_. True) s" by blast
  qed
  have first: "survives G (?S (\<lambda>_. True)) (update_transaction ?tid (\<lambda>td. td\<lparr>payloads := dict_set (payloads td) ?n []\<rparr>))
      (\<lambda>_. ?S (\<lambda>_. True))" by (rule step_safe_weaken [OF set [of "\<lambda>_. True"]]) blast+
  have second: "survives G (?S (\<lambda>_. True)) (update_transaction ?tid (\<lambda>td. td\<lparr>payloads := dict_set (payloads td) ?n b\<rparr>))
      (\<lambda>_. ?Q)" by (rule step_safe_weaken [OF set [of "\<lambda>_. True"]]) blast+
  show ?thesis unfolding write_payload_def
    by (rule step_safe_bind [OF guard step_safe_bind [OF first second]])
qed

lemma survives_stage_output:
  assumes k: "k < length (outs G)"
  shows "survives G (staged_upto G k acc)
    (stage_output (pub_host G) (pub_snapshot G) (pub_staging G) (pub_target G) (pub_token G) (k, outs G ! k) acc)
    (staged_upto G (Suc k))"
proof -
  obtain es ws where acc: "acc = (es, ws)" by (cases acc)
  have es: "es = entries_after G k" and ws: "ws = map (document_entry G) [0..<k]"
    if "staged_upto G k acc s" for s using that by (simp_all add: staged_upto_def acc)
  let ?r = "relative_of G k" and ?s0 = "pub_start G" and ?n = "pub_snapshot G" and ?h = "pub_host G"
  let ?P = "\<lambda>s. \<exists>td. s = ?s0\<lparr>transactions := [(pub_token G, td)]\<rparr> \<and> pending_json td = None
        \<and> (\<forall>i<k. map_of (payloads td) (payload_name i) = Some (content_after G i))"
  let ?previous = "map_option (Pair ?r) (map_of (snapshot_entries ?n) ?r)"
  let ?facts = "start_ok G \<and> acc = (entries_after G k, map (document_entry G) [0..<k])
     \<and> (\<forall>i<Suc k. staged_content ?s0 (pub_staging G) (relative_of G i) = Inr (content_after G i)
          \<and> output_path (outputs ?s0) (relative_of G i) = Inr (destination G i)
          \<and> require_observed_state (outputs ?s0) (destination G i) (hash_before G i) True = Inr ())"
  have look: "survives G (staged_upto G k acc) (observe (\<lambda>s. rbind (output_path (outputs s) ?r) (\<lambda>d.
       rbind (staged_content s (pub_staging G) ?r) (\<lambda>b.
       rbind (snapshot_entry_for_path ?h (outputs s) (snapshot_entries ?n) ?r) (\<lambda>previous.
       rbind (require_observed_state (outputs s) d (map_option (entry_sha256 \<circ> snd) previous) True) (\<lambda>_.
       Inr (b, previous)))))))
     (\<lambda>x s. ?P s \<and> ?facts \<and> x = (content_after G k, ?previous))"
  proof (rule step_safe_observe)
    fix s x
    assume s: "staged_upto G k acc s" and run: "rbind (output_path (outputs s) ?r) (\<lambda>d.
       rbind (staged_content s (pub_staging G) ?r) (\<lambda>b.
       rbind (snapshot_entry_for_path ?h (outputs s) (snapshot_entries ?n) ?r) (\<lambda>previous.
       rbind (require_observed_state (outputs s) d (map_option (entry_sha256 \<circ> snd) previous) True) (\<lambda>_.
       Inr (b, previous))))) = Inr x"
    from s have P: "?P s" and start: "start_ok G" and same: "outputs s = outputs ?s0" "stagings s = stagings ?s0"
      by (auto simp: staged_upto_def)
    from run obtain d b previous where d: "output_path (outputs s) ?r = Inr d"
      and b: "staged_content s (pub_staging G) ?r = Inr b"
      and previous: "snapshot_entry_for_path ?h (outputs s) (snapshot_entries ?n) ?r = Inr previous"
      and observed: "require_observed_state (outputs s) d (map_option (entry_sha256 \<circ> snd) previous) True = Inr ()"
      and x: "x = (b, previous)" by auto
    have d': "d = destination G k" using output_path_parts [OF d] by (simp add: destination_def)
    have p': "previous = ?previous" using snapshot_entry_exact [OF previous] .
    have hash: "map_option (entry_sha256 \<circ> snd) previous = hash_before G k"
      unfolding p' hash_before_def by (cases "map_of (snapshot_entries ?n) ?r") simp_all
    have b0: "staged_content ?s0 (pub_staging G) ?r = Inr b" using b by (simp add: staged_content_def same)
    have b': "b = content_after G k"
      using start k b0 by (simp add: start_ok_def content_after_def relative_of_def)
    show "?P s \<and> ?facts \<and> x = (content_after G k, ?previous)"
      using P s d [unfolded d' same] observed [unfolded hash d' same] b0 unfolding staged_upto_def x b' p' less_Suc_eq by auto
  qed
  have rest: "survives G (\<lambda>s. ?P s \<and> ?facts \<and> x = (content_after G k, ?previous))
     (case x of (b, previous) \<Rightarrow>
       let after = sha256_hex b;
           es' = (case previous of Some (q, _) \<Rightarrow> if q \<noteq> ?r then without es q else es | None \<Rightarrow> es) in
       act_bind (write_payload (pub_token G) (payload_name k) b) (\<lambda>_.
       act_bind (observe (\<lambda>s. raise_if
           (map_option sha256_hex (case map_of (transactions s) (pub_token G) of None \<Rightarrow> None
              | Some td \<Rightarrow> map_of (payloads td) (payload_name k)) \<noteq> Some after)
           (Pending_error Payload_changed ?r))) (\<lambda>_.
       act_return (dict_set es' ?r \<lparr>entry_sha256 = after, entry_target = pub_target G\<rparr>,
         ws @ [\<lparr>pe_after = Some after, pe_before = map_option (entry_sha256 \<circ> snd) previous, pe_path = ?r,
           pe_payload = Some (payload_name k), pe_target = pub_target G, pe_transfer = None\<rparr>]))))
     (staged_upto G (Suc k))" for x
  proof (cases "?facts \<and> x = (content_after G k, ?previous)")
    case True
    then have facts: ?facts and x: "x = (content_after G k, ?previous)" by blast+
    have "staged_upto G (Suc k) (dict_set es ?r \<lparr>entry_sha256 = hash_after G k, entry_target = pub_target G\<rparr>,
        ws @ [\<lparr>pe_after = Some (hash_after G k), pe_before = hash_before G k, pe_path = ?r,
           pe_payload = Some (payload_name k), pe_target = pub_target G, pe_transfer = None\<rparr>]) s"
      if "\<exists>td. s = ?s0\<lparr>transactions := [(pub_token G, td)]\<rparr> \<and> pending_json td = None
        \<and> (\<forall>i<k. map_of (payloads td) (payload_name i) = Some (content_after G i))
        \<and> map_of (payloads td) (payload_name k) = Some (content_after G k)" for s
      using that facts unfolding staged_upto_def
      by (auto simp: acc less_Suc_eq new_entry_def document_entry_def)
    moreover have "(case ?previous of Some (q, _) \<Rightarrow> if q \<noteq> ?r then without es q else es | None \<Rightarrow> es) = es"
      by (cases "map_of (snapshot_entries ?n) ?r") simp_all
    moreover have "map_option (entry_sha256 \<circ> snd) ?previous = hash_before G k"
      unfolding hash_before_def by (cases "map_of (snapshot_entries ?n) ?r") simp_all
    moreover note payload = survives_payload [of G k "content_after G k"]
    ultimately show ?thesis using facts unfolding x prod.case Let_def hash_after_def [symmetric]
      by (intro step_safe_bind [OF step_safe_weaken [OF payload] step_safe_bind [OF step_safe_observe step_safe_return]]) simp_all
  qed (rule step_safe_vacuous, blast)
  show ?thesis unfolding stage_output_def prod.case acc Let_def
    using step_safe_bind [OF look rest] unfolding acc Let_def relative_of_def by simp
qed

lemma staged_good:
  assumes s: "staged_upto G (length (outs G)) acc s"
  shows "good G"
proof -
  have staged: "staged_content (pub_start G) (pub_staging G) (relative_of G i) = Inr (content_after G i)"
    if "i < length (outs G)" for i using s that by (simp add: staged_upto_def)
  have len: "length (pub_contents G) = length (outs G)" using s by (simp add: staged_upto_def start_ok_def)
  have "rmap (\<lambda>x. staged_content (pub_start G) (pub_staging G) (output_relative x)) (outs G) = Inr (pub_contents G)"
    unfolding rmap_Inr_iff list_all2_conv_all_nth using staged len by (simp add: relative_of_def content_after_def)
  then show ?thesis using s by (simp add: good_def staged_upto_def start_ok_def)
qed

lemma survives_write_pending:
  assumes G: "good G"
  shows "survives G (staged_upto G (length (outs G)) (es, ws))
    (write_pending (pub_token G) (transaction_of (pub_plan G) (pub_claim G) (pub_snapshot G) (pub_token G) es ws))
    (\<lambda>_ s. decided G s \<and> es = final_entries G
       \<and> transaction_of (pub_plan G) (pub_claim G) (pub_snapshot G) (pub_token G) es ws = decided_pending G)"
  unfolding write_pending_def update_transaction_def
proof (rule step_safe_durable)
  let ?w = "transaction_of (pub_plan G) (pub_claim G) (pub_snapshot G) (pub_token G) es ws"
  fix s assume s: "staged_upto G (length (outs G)) (es, ws) s"
  then obtain td where st: "s = (pub_start G)\<lparr>transactions := [(pub_token G, td)]\<rparr>"
    and td: "full_payloads G (payloads td)" and es: "es = final_entries G" and start: "start_ok G"
    and ws: "ws = map (document_entry G) [0..<length (outs G)]"
    by (auto simp: staged_upto_def full_payloads_def)
  have w: "?w = decided_pending G" unfolding es ws planned_pending_def document_entry_def ..
  let ?td = "td\<lparr>pending_json := Some ?w\<rparr>"
  have s': "(case map_of (transactions s) (pub_token G) of None \<Rightarrow> s
      | Some td \<Rightarrow> s\<lparr>transactions := dict_set (transactions s) (pub_token G) (td\<lparr>pending_json := Some ?w\<rparr>)\<rparr>)
    = (pub_start G)\<lparr>outputs := outputs (pub_start G), transactions := [(pub_token G, ?td)]\<rparr>" by (simp add: st)
  have d: "decided G ((pub_start G)\<lparr>outputs := outputs (pub_start G), transactions := [(pub_token G, ?td)]\<rparr>)"
    unfolding decided_def
    by (rule exI [of _ "outputs (pub_start G)"], rule exI [of _ ?td]) (simp add: w td under_way_start [OF G])
  show "survivable G (case map_of (transactions s) (pub_token G) of None \<Rightarrow> s
      | Some td \<Rightarrow> s\<lparr>transactions := dict_set (transactions s) (pub_token G) (td\<lparr>pending_json := Some ?w\<rparr>)\<rparr>)"
    unfolding s' using d start G by (simp add: survivable_def)
  show "decided G (case map_of (transactions s) (pub_token G) of None \<Rightarrow> s
      | Some td \<Rightarrow> s\<lparr>transactions := dict_set (transactions s) (pub_token G) (td\<lparr>pending_json := Some ?w\<rparr>)\<rparr>)
      \<and> es = final_entries G \<and> ?w = decided_pending G"
    unfolding s' using d es w by blast
qed

definition published :: "publication \<Rightarrow> store \<Rightarrow> bool" where
  "published G s \<longleftrightarrow> good G \<and> committed G s \<and> transactions s = []"

lemma survives_publish_transaction:
  assumes start: "start_ok G"
  shows "survives G (staged_upto G 0 (snapshot_entries (pub_snapshot G), []))
    (publish_transaction (pub_host G) (pub_plan G) (pub_claim G) (pub_snapshot G) (pub_staging G) (pub_target G) (pub_token G))
    (\<lambda>_. published G)"
proof -
  let ?stage = "stage_output (pub_host G) (pub_snapshot G) (pub_staging G) (pub_target G) (pub_token G)"
  let ?w = "transaction_of (pub_plan G) (pub_claim G) (pub_snapshot G) (pub_token G)"
  let ?N = "length (outs G)"
  have "survives G (staged_upto G 0 (snapshot_entries (pub_snapshot G), []))
      (act_fold ?stage (List.enumerate 0 (outs G)) (snapshot_entries (pub_snapshot G), []))
      (staged_upto G (length (List.enumerate 0 (outs G))))"
    by (rule step_safe_fold_upto) (simp add: nth_enumerate_eq survives_stage_output)
  then have stage: "survives G (staged_upto G 0 (snapshot_entries (pub_snapshot G), []))
      (act_fold ?stage (List.enumerate 0 (target_outputs (pub_plan G) (pub_target G))) (snapshot_entries (pub_snapshot G), []))
      (staged_upto G ?N)" by (simp add: outs_def)
  have rest: "survives G (staged_upto G ?N acc) (case acc of (es, ws) \<Rightarrow>
      act_bind (write_pending (pub_token G) (?w es ws)) (\<lambda>_.
      act_bind (apply_pending (pub_host G) (pub_plan G) (pub_claim G) (?w es ws) (pub_token G)) (\<lambda>_.
      act_return es))) (\<lambda>_. published G)" for acc
  proof (cases "good G")
    case G: True
    obtain es ws where acc: "acc = (es, ws)" by (cases acc)
    have run: "survives G (\<lambda>s. decided G s \<and> es = final_entries G \<and> w = decided_pending G)
        (apply_pending (pub_host G) (pub_plan G) (pub_claim G) w (pub_token G)) (\<lambda>_. published G)" for w
    proof (cases "w = decided_pending G")
      case True
      have "crash_safe (decided G) (apply_decided G) (survivable G) (\<lambda>_. published G)"
        by (rule crash_safe_weaken [OF safe_apply_decided [OF G]])
          (use G start in \<open>auto simp: survivable_def published_def\<close>)
      from crash_safe_steps [OF this] show ?thesis unfolding True by (rule step_safe_weaken) simp_all
    qed (simp add: step_safe_vacuous)
    have "survives G (published G) (act_return es) (\<lambda>_. published G)" by (rule step_safe_return)
    then show ?thesis unfolding acc prod.case
      by (rule step_safe_bind [OF survives_write_pending [OF G] step_safe_bind [OF run]])
  next
    case False
    then show ?thesis using staged_good by (intro step_safe_vacuous) blast
  qed
  show ?thesis unfolding publish_transaction_def by (rule step_safe_bind [OF stage rest])
qed

lemma survives_discard: "survives G (survivable G) (discard_unless_pending h (pub_token G)) (\<lambda>_ _. True)"
proof -
  let ?look = "\<lambda>s. case map_of (transactions s) (pub_token G) of None \<Rightarrow> None | Some td \<Rightarrow> pending_json td"
  have remove: "survives G (\<lambda>s. survivable G s \<and> ?look s = None) (remove_transaction h (pub_token G)) (\<lambda>_ _. True)"
  proof (cases "start_ok G")
    case True
    have "crash_safe (undecided G) (remove_transaction h (pub_token G)) (survivable G) (\<lambda>_ _. True)"
      by (rule crash_safe_weaken [OF safe_remove_transaction [OF undecided_removable]]) (use True in \<open>simp_all add: survivable_def\<close>)
    moreover have "crash_safe (\<lambda>s. good G \<and> committed G s) (remove_transaction h (pub_token G)) (survivable G) (\<lambda>_ _. True)"
    proof (cases "good G")
      case G: True
      show ?thesis
        by (rule crash_safe_weaken [OF safe_remove_transaction [OF committed_removable]]) (use True G in \<open>simp_all add: survivable_def\<close>)
    qed (simp add: crash_safe_vacuous)
    ultimately have "crash_safe (\<lambda>s. undecided G s \<or> good G \<and> committed G s) (remove_transaction h (pub_token G)) (survivable G) (\<lambda>_ _. True)"
      by (rule crash_safe_disj)
    from crash_safe_steps [OF this] show ?thesis
      by (rule step_safe_weaken) (auto simp: survivable_def decided_def)
  qed (rule step_safe_vacuous, simp add: survivable_def)
  show ?thesis unfolding discard_unless_pending_def
  proof (rule step_safe_bind [where Q' = "\<lambda>w s. survivable G s \<and> ?look s = w"])
    fix w
    show "survives G (\<lambda>s. survivable G s \<and> ?look s = w) (act_when (w = None) (remove_transaction h (pub_token G))) (\<lambda>_ _. True)"
      by (rule step_safe_when) (use remove in simp_all)
  qed (rule step_safe_observe, simp)
qed

lemma survives_publish_outputs:
  assumes start: "start_ok G"
  shows "survives G (\<lambda>s. s = pub_start G)
    (publish_outputs (pub_host G) (pub_plan G) (pub_claim G) (pub_staging G) (pub_target G) (pub_token G)) (\<lambda>_. published G)"
proof -
  let ?n = "pub_snapshot G" and ?S = "staged_upto G 0 (snapshot_entries (pub_snapshot G), [])"
  have tx: "transactions (pub_start G) = []" using start by (simp add: start_ok_def publishable_def)
  have look: "survives G (\<lambda>s. s = pub_start G) (load_snapshot h c) (\<lambda>n s. s = pub_start G \<and> n = ?n)" for h c
    unfolding load_snapshot_def by (rule step_safe_observe) (use start in \<open>simp add: start_ok_def\<close>)
  have create: "survives G (\<lambda>s. s = pub_start G) (create_transaction (pub_token G)) (\<lambda>_. ?S)"
    unfolding create_transaction_def
  proof (rule step_safe_durable)
    fix s assume s: "s = pub_start G"
    let ?s = "(pub_start G)\<lparr>transactions := [(pub_token G, \<lparr>payloads = [], pending_json = None\<rparr>)]\<rparr>"
    have s': "(case map_of (transactions s) (pub_token G) of
        None \<Rightarrow> s\<lparr>transactions := dict_set (transactions s) (pub_token G) \<lparr>payloads = [], pending_json = None\<rparr>\<rparr> | Some _ \<Rightarrow> s) = ?s"
      by (simp add: s tx)
    have "undecided G ?s" unfolding undecided_def
      by (rule exI [of _ "[(pub_token G, \<lparr>payloads = [], pending_json = None\<rparr>)]"]) simp
    then show "survivable G (case map_of (transactions s) (pub_token G) of
        None \<Rightarrow> s\<lparr>transactions := dict_set (transactions s) (pub_token G) \<lparr>payloads = [], pending_json = None\<rparr>\<rparr> | Some _ \<Rightarrow> s)"
      unfolding s' using start by (simp add: survivable_def)
    have "?S ?s" unfolding staged_upto_def using start
      by (intro conjI exI [of _ "\<lparr>payloads = [], pending_json = None\<rparr>"]) simp_all
    then show "?S (case map_of (transactions s) (pub_token G) of
        None \<Rightarrow> s\<lparr>transactions := dict_set (transactions s) (pub_token G) \<lparr>payloads = [], pending_json = None\<rparr>\<rparr> | Some _ \<Rightarrow> s)"
      unfolding s' .
  qed
  have "survivable G s" if "?S s" for s
    using that by (auto simp: staged_upto_def survivable_def undecided_def)
  note guarded = step_safe_cleanup [OF survives_publish_transaction [OF start] survives_discard this]
  have check: "survives G (published G) (observe g) (\<lambda>_. published G)" for g :: "store \<Rightarrow> coordinator_error + unit"
    by (rule step_safe_observe)
  have fail: "survives G P (observe (\<lambda>_. Inl e)) Q" for P e and Q :: "unit \<Rightarrow> store \<Rightarrow> bool" by (rule step_safe_fail)
  have body: "survives G (\<lambda>s. s = pub_start G \<and> n = ?n)
      (if none then observe (\<lambda>_. Inl e) else act_bind (create_transaction (pub_token G)) (\<lambda>_.
        act_bind (act_on_error (publish_transaction (pub_host G) (pub_plan G) (pub_claim G) n (pub_staging G) (pub_target G) (pub_token G))
          (discard_unless_pending (pub_host G) (pub_token G))) (\<lambda>es.
        observe (\<lambda>s. each (check_published s es) (target_outputs (pub_plan G) (pub_target G)))))) (\<lambda>_. published G)" for none e n
  proof (cases "n = ?n \<and> \<not> none")
    case True
    have "survives G (\<lambda>s. s = pub_start G) (act_bind (create_transaction (pub_token G)) (\<lambda>_.
        act_bind (act_on_error (publish_transaction (pub_host G) (pub_plan G) (pub_claim G) ?n (pub_staging G) (pub_target G) (pub_token G))
          (discard_unless_pending (pub_host G) (pub_token G))) (\<lambda>es.
        observe (\<lambda>s. each (check_published s es) (target_outputs (pub_plan G) (pub_target G)))))) (\<lambda>_. published G)"
      by (rule step_safe_bind [OF create step_safe_bind [OF guarded check]])
    with True show ?thesis by simp
  next
    case False
    then show ?thesis using fail by (cases none) (simp_all add: step_safe_vacuous)
  qed
  show ?thesis unfolding publish_outputs_def by (rule step_safe_bind [OF look body])
qed

lemma survives_publish:
  assumes start: "start_ok G"
  shows "survives G (\<lambda>s. s = pub_start G)
    (publish (pub_host G) (pub_plan G) (pub_target G) (pub_staging G) (pub_token G)) (\<lambda>_. published G)"
proof -
  let ?I = "\<lambda>s. s = pub_start G"
  have tx: "transactions (pub_start G) = []" and claim: "outcome (load_claim (pub_host G) (pub_plan G)) (pub_start G) = Inr (pub_claim G)"
    using start by (simp_all add: start_ok_def publishable_def)
  have obs: "survives G ?I (observe g) (\<lambda>_. ?I)" for g :: "store \<Rightarrow> coordinator_error + 'a" by (rule step_safe_observe)
  have load: "survives G ?I (load_claim (pub_host G) (pub_plan G)) (\<lambda>c s. ?I s \<and> c = pub_claim G)"
    using claim unfolding load_claim_def by (intro step_safe_observe) simp
  have recover: "survives G ?I (recover h c) (\<lambda>_. ?I)" for h c
  proof (rule step_safeI)
    fix s assume s: "?I s"
    have idle: "passes (recover h c) s = []"
      by (simp add: recover_def passes_bind outcome_bind find_pending_def pending_transactions_def s tx
          List.map_filter_simps split: sum.split)
    show "steps_ok (\<lambda>_. survivable G) s (passes (recover h c) s)" by (simp add: idle)
    show "?I (end_state (recover h c) s)" unfolding end_state_def idle using s by simp
  qed
  have current: "survives G ?I (require_current_plan h p c) (\<lambda>_. ?I)" for h p c
    unfolding require_current_plan_def load_recorded_plan_def by (rule step_safe_bind [OF obs obs])
  have rest: "survives G (\<lambda>s. ?I s \<and> c = pub_claim G) (act_bind (recover (pub_host G) c) (\<lambda>_.
     act_bind (require_current_plan (pub_host G) (pub_plan G) c) (\<lambda>_.
     act_bind (observe (\<lambda>_. rbind (staging_for_target (pub_plan G) (pub_target G)) (\<lambda>d.
       raise_if (pub_staging G \<noteq> d) (Plan_error Staging_root_mismatch (pub_staging G))))) (\<lambda>_.
     publish_outputs (pub_host G) (pub_plan G) c (pub_staging G) (pub_target G) (pub_token G))))) (\<lambda>_. published G)" for c
  proof (cases "c = pub_claim G")
    case True
    show ?thesis unfolding True
      by (rule step_safe_weaken [OF step_safe_bind [OF recover step_safe_bind [OF current
              step_safe_bind [OF obs survives_publish_outputs [OF start]]]]]) simp_all
  qed (simp add: step_safe_vacuous)
  show ?thesis unfolding publish_def by (rule step_safe_bind [OF obs step_safe_bind [OF load rest]])
qed

section \<open>All outputs or none\<close>

definition all_published :: "plan \<Rightarrow> string \<Rightarrow> string \<Rightarrow> store \<Rightarrow> store \<Rightarrow> bool" where
  \<comment> \<open>the committed snapshot is the next one and records the new outputs of the target; each of them has
    the digest of its staged file; and besides them only missing parent directories were made\<close>
  "all_published p target staging s t \<longleftrightarrow>
     (\<exists>n n'. snapshot_json s = Some n \<and> snapshot_json t = Some n' \<and> snapshot_generation n' = snapshot_generation n + 1
        \<and> (\<forall>x\<in>set (target_outputs p target). \<exists>b. staged_content s staging (output_relative x) = Inr b
             \<and> map_of (snapshot_entries n') (output_relative x) = Some \<lparr>entry_sha256 = sha256_hex b, entry_target = target\<rparr>
             \<and> has_hash (outputs t) (path_parts (output_relative x)) (sha256_hex b))
        \<and> (\<forall>r. r \<notin> output_relative ` set (target_outputs p target) \<longrightarrow>
             map_of (snapshot_entries n') r = map_of (snapshot_entries n) r))
     \<and> (\<forall>q. q \<notin> (path_parts \<circ> output_relative) ` set (target_outputs p target) \<longrightarrow>
          node_at (outputs t) q = node_at (outputs s) q
          \<or> node_at (outputs s) q = None \<and> node_at (outputs t) q = Some Directory
            \<and> (\<exists>x\<in>set (target_outputs p target). strict_prefix q (path_parts (output_relative x))))"

lemma outs_index: "x \<in> set (outs G) \<longleftrightarrow> (\<exists>i<length (outs G). x = outs G ! i)"
  by (auto simp: in_set_conv_nth)

lemma map_of_sorted_entries: "distinct (map fst d) \<Longrightarrow> map_of (sorted_entries d) = map_of d"
proof
  fix k assume d: "distinct (map fst d)"
  then have "distinct (map fst (sorted_entries d))" by (simp add: sorted_entries_def distinct_map)
  then have "map_of (sorted_entries d) k = Some v \<longleftrightarrow> map_of d k = Some v" for v
    using d by (simp add: map_of_eq_Some_iff sorted_entries_set)
  then show "map_of (sorted_entries d) k = map_of d k" by (metis not_None_eq)
qed

lemma published_all:
  assumes "published G s"
  shows "all_published (pub_plan G) (pub_target G) (pub_staging G) (pub_start G) s"
proof -
  from assms have G: "good G" by (simp add: published_def)
  from assms obtain t where s: "outputs s = t" "snapshot_json s = Some (new_snapshot (decided_pending G))"
    and t: "under_way G t" and w: "written G (length (outs G)) t"
    by (auto simp: published_def committed_def)
  let ?n' = "new_snapshot (decided_pending G)" and ?N = "length (outs G)"
  have gen: "snapshot_generation ?n' = snapshot_generation (pub_snapshot G) + 1"
    and entries: "map_of (snapshot_entries ?n') = map_of (final_entries G)"
    using map_of_sorted_entries [OF entries_after_distinct [OF good_start(2) [OF G]]]
    by (simp_all add: planned_pending_def transaction_of_def next_snapshot_def)
  have staged: "staged_content (pub_start G) (pub_staging G) (relative_of G i) = Inr (content_after G i)" if "i < ?N" for i
    using G that unfolding good_def rmap_Inr_iff list_all2_conv_all_nth by (simp add: relative_of_def content_after_def)
  have new: "\<exists>b. staged_content (pub_start G) (pub_staging G) (output_relative x) = Inr b
      \<and> map_of (snapshot_entries ?n') (output_relative x) = Some \<lparr>entry_sha256 = sha256_hex b, entry_target = pub_target G\<rparr>
      \<and> has_hash t (path_parts (output_relative x)) (sha256_hex b)" if "x \<in> set (outs G)" for x
  proof -
    from that obtain i where i: "i < ?N" and x: "x = outs G ! i" unfolding outs_index by blast
    have "has_hash t (destination G i) (hash_after G i)" using w i by (simp add: written_def)
    moreover have "map_of (snapshot_entries ?n') (relative_of G i) = Some (new_entry G i)"
      unfolding entries by (rule entries_after_new [OF G le_refl i])
    ultimately show ?thesis using staged [OF i]
      by (intro exI [of _ "content_after G i"]) (simp add: x destination_def relative_of_def hash_after_def new_entry_def)
  qed
  have old: "map_of (snapshot_entries ?n') r = map_of (snapshot_entries (pub_snapshot G)) r"
    if "r \<notin> output_relative ` set (outs G)" for r
    unfolding entries by (rule entries_after_old) (use that in \<open>auto simp: relative_of_def\<close>)
  have rest: "node_at t q = node_at (outputs (pub_start G)) q \<or> node_at (outputs (pub_start G)) q = None \<and> node_at t q = Some Directory
      \<and> (\<exists>x\<in>set (outs G). strict_prefix q (path_parts (output_relative x)))"
    if q: "q \<notin> (path_parts \<circ> output_relative) ` set (outs G)" for q
    using under_way_node [OF t, of q]
  proof
    assume "written_node G q (node_at t q)"
    moreover have "q \<noteq> destination G i" if "i < ?N" for i
      using q that by (auto simp: destination_def relative_of_def)
    moreover have "\<not> (q = temporary_of G i \<and> (\<exists>j b. node_at t q = Some (Regular j b)))" if "i < ?N" for i
      using temporary_unfinished [OF t that] w that by (auto simp: written_def)
    ultimately have "node_at (outputs (pub_start G)) q = None" "node_at t q = Some Directory"
      "\<exists>i<?N. strict_prefix q (destination G i)" unfolding written_node_def by blast+
    then show ?thesis using nth_mem by (fastforce simp: destination_def relative_of_def)
  qed simp
  show ?thesis unfolding all_published_def outs_def [symmetric] s
    using good_start(6) [OF G] gen new old rest by blast
qed

definition publication_of :: "host \<Rightarrow> plan \<Rightarrow> claim \<Rightarrow> string \<Rightarrow> string \<Rightarrow> string \<Rightarrow> store \<Rightarrow> publication" where
  "publication_of h p c target staging tid s = \<lparr>pub_host = h, pub_plan = p, pub_claim = c, pub_target = target,
     pub_staging = staging, pub_token = tid, pub_start = s, pub_snapshot = the (snapshot_json s),
     pub_contents = map (\<lambda>x. case staged_content s staging (output_relative x) of Inr b \<Rightarrow> b | Inl _ \<Rightarrow> [])
       (target_outputs p target)\<rparr>"

lemma publication_start_ok: "publishable h p c target staging tid s \<Longrightarrow> start_ok (publication_of h p c target staging tid s)"
  unfolding start_ok_def publication_of_def outs_def by (auto simp: publishable_def split: option.split_asm)

text \<open>
  C37: Publication is atomic and durable. Let the publication of a target crash after any of its durable
  steps, and let the recoveries that follow crash too, any number of times and at any step. The next
  recovery that is not interrupted succeeds, and the durable state is then either exactly the one
  before the publication, or the one after it: the next snapshot is committed, it records every output
  of the target, each of these has the digest of its staged file, and of everything else only missing
  parent directories were made. A publication that returns has published all of them.
\<close>

theorem publication_is_atomic:
  assumes ok: "publishable h p c target staging tid s"
    and crash: "crash \<in> set (s # passes (publish h p target staging tid) s)"
    and recoveries: "interrupted (recover h c) crash d"
  shows "outcome (recover h c) d = Inr ()
    \<and> (end_state (recover h c) d = s \<or> all_published p target staging s (end_state (recover h c) d))
    \<and> (outcome (publish h p target staging tid) s = Inr () \<longrightarrow>
        all_published p target staging s (end_state (publish h p target staging tid) s))"
proof -
  define G where "G = publication_of h p c target staging tid s"
  have G: "pub_host G = h" "pub_plan G = p" "pub_claim G = c" "pub_target G = target" "pub_staging G = staging"
    "pub_token G = tid" "pub_start G = s" by (simp_all add: G_def publication_of_def)
  have start: "start_ok G" unfolding G_def by (rule publication_start_ok [OF ok])
  note run = survives_publish [OF start, unfolded G]
  have same: "s = s\<lparr>transactions := []\<rparr>" using ok by (cases s) (simp add: publishable_def)
  then have "undecided G s" unfolding undecided_def G by blast
  then have "survivable G s" using start by (simp add: survivable_def)
  with crash step_safeD(1) [OF run refl] have "survivable G crash" by (auto simp: steps_ok_all)
  then obtain x where fine: "outcome (recover h c) d = Inr x" and ended: "all_or_nothing G (end_state (recover h c) d)"
    using coordinator_recovery.interrupted_repaired [of G crash d, unfolded G] recoveries by blast
  have "end_state (recover h c) d = s \<or> all_published p target staging s (end_state (recover h c) d)"
  proof (cases "undecided G (end_state (recover h c) d)")
    case True
    with ended have "end_state (recover h c) d = s\<lparr>transactions := []\<rparr>"
      unfolding all_or_nothing_def undecided_def G by auto
    then show ?thesis using same by simp
  next
    case False
    with ended have "published G (end_state (recover h c) d)" by (simp add: all_or_nothing_def published_def)
    from published_all [OF this] show ?thesis unfolding G by simp
  qed
  moreover have "all_published p target staging s (end_state (publish h p target staging tid) s)"
    if "outcome (publish h p target staging tid) s = Inr ()"
    using published_all [OF step_safeD(2) [OF run refl that]] unfolding G .
  ultimately show ?thesis using fine by simp
qed

definition plain_host :: host where
  "plain_host = \<lparr>casefold_of = id, new_identity = (7, 9), scan_order = rev\<rparr>"

definition example_target :: string where
  "example_target = replicate 64 CHR ''a''"

definition example_token :: string where
  "example_token = replicate 64 CHR ''b''"

definition example_staging :: string where
  "example_staging = staging_path ''/w/out'' example_target"

definition example_plan :: plan where
  "example_plan = \<lparr>plan_root = ''/w/out'', plan_build_root = ''/w/build'', plan_build_id = path_key id ''/w/build'',
     plan_targets = [\<lparr>target_identity = example_target, target_staging = example_staging\<rparr>],
     plan_outputs = [\<lparr>output_target = example_target, output_relative = ''a/x.protocyte.hpp''\<rparr>]\<rparr>"

definition example_claim :: claim where
  "example_claim = \<lparr>claim_build_id = path_key id ''/w/build'', claim_build_root = ''/w/build'', claim_root = ''/w/out'',
     claim_root_key = path_key id ''/w/out'', claim_token = sha256_hex ''claim''\<rparr>"

definition example_store :: store where
  \<comment> \<open>nothing is published yet and one file is staged\<close>
  "example_store = \<lparr>outputs = [],
     stagings = [(example_staging, [([''a''], Directory), ([''a'', ''x.protocyte.hpp''], Regular (1, 2) ''hello'')])],
     claim_json = Some example_claim, plan_json = Some (example_plan, plan_digest example_plan),
     snapshot_json = Some \<lparr>snapshot_token = claim_token example_claim, snapshot_entries = [], snapshot_generation = 0\<rparr>,
     transactions = [], reset_json = None\<rparr>"

lemma example_checks:
  "is_sha256 example_target" "is_sha256 example_token" "validate_relative_path id ''a/x.protocyte.hpp'' = Inr ''a/x.protocyte.hpp''"
  "validate_staging_path id ''/w/out'' example_target example_staging = Inr example_staging"
  "\<not> mentions example_token [''a'', ''x.protocyte.hpp'']" "path_parts ''a/x.protocyte.hpp'' = [''a'', ''x.protocyte.hpp'']"
  by code_simp+

lemma example_plan_ok: "plan_ok id example_plan"
  by (simp add: plan_ok_def from_payload_def example_plan_def check_output_def check_target_def example_checks
      validate_plan_targets_def Let_def)

lemma path_key_is_sha256: "is_sha256 (path_key u p)"
  by (simp add: path_key_def)

lemma example_publishable:
  "publishable plain_host example_plan example_claim example_target example_staging example_token example_store"
proof -
  have claim: "outcome (load_claim plain_host example_plan) example_store = Inr example_claim"
    by (simp add: load_claim_def example_store_def example_claim_def example_plan_def check_claim_def plain_host_def
        path_key_is_sha256)
  have "validate_snapshot plain_host example_claim \<lparr>snapshot_token = claim_token example_claim,
      snapshot_entries = [], snapshot_generation = 0\<rparr> = Inr ()"
    by (simp add: validate_snapshot_def check_entries_def)
  then show ?thesis
    using claim example_plan_ok
    by (simp add: publishable_def example_checks plain_host_def)
      (simp add: example_store_def plain_tree_def apart_def target_outputs_def example_plan_def example_checks)
qed

theorem publication_is_atomic_witness:
  "(let d = end_state (publish plain_host example_plan example_target example_staging example_token) example_store;
        e = end_state (recover plain_host example_claim) d
    in outcome (recover plain_host example_claim) d = Inr ()
       \<and> (e = example_store \<or> all_published example_plan example_target example_staging example_store e))"
  unfolding Let_def
  using publication_is_atomic [OF example_publishable end_state_visited interrupted.started] by blast

end
