(* ===== verification/Namespaces.thy ===== *)
theory Namespaces
  imports MessageNames Graph
begin

text \<open>
  The C++ namespaces of the generated headers. \<^verbatim>\<open>_allocate_namespace_cpp_names\<close> of \<^verbatim>\<open>model.py\<close> names
  the types and constants of each file; \<^verbatim>\<open>_allocate_cpp_namespaces\<close> of \<^verbatim>\<open>cpp.py\<close> spells the namespace of each
  package, and \<^verbatim>\<open>_validate_generated_cpp_names\<close> refuses declarations of different headers that C++ could
  not hold in one program. Names that were allocated are the maps of a \<open>namespace_names\<close>, and
  \<open>named_file\<close> writes them into a file as the code does. The namespace of a file is its entry in a dictionary.
\<close>

section \<open>Names of the declarations of a file\<close>

fun split_colons :: "string \<Rightarrow> string list" where
  \<comment> \<open>\<^verbatim>\<open>s.split("::")\<close>\<close>
  "split_colons [] = [[]]"
| "split_colons [c] = [[c]]"
| "split_colons (c # d # s) =
     (if c = CHR '':'' \<and> d = CHR '':'' then [] # split_colons s
      else (case split_colons (d # s) of [] \<Rightarrow> [[c]] | p # ps \<Rightarrow> (c # p) # ps))"

definition cpp_package_key :: "string \<Rightarrow> string list" where
  "cpp_package_key pkg = (if pkg = [] then [] else map cpp_identifier (split_on CHR ''.'' pkg))"

definition cpp_symbol_scope_key :: "string \<Rightarrow> string option \<Rightarrow> string list" where
  "cpp_symbol_scope_key pkg nsp =
     (case nsp of None \<Rightarrow> [] | Some p \<Rightarrow> if p = [] then [] else split_colons p) @ cpp_package_key pkg"

definition type_request :: "string \<Rightarrow> string \<Rightarrow> EmittedNameMember list \<Rightarrow> EmittedNameRequest" where
  "type_request full pref ms = (name_request (''type:'' @ full) pref (member_of_kind CppNameKind.TYPE # ms))\<lparr>hash_fallback := True\<rparr>"

definition enum_type_request :: "EnumModel \<Rightarrow> EmittedNameMember list \<Rightarrow> EmittedNameRequest" where
  "enum_type_request e ms = type_request (enum_full_name e) (enum_cpp_name e) ms"

definition file_trees :: "FileModel \<Rightarrow> message_tree list" where
  \<comment> \<open>\<^verbatim>\<open>_walk_messages(file_model.messages)\<close>, each message with its nested enums\<close>
  "file_trees f = concat (map subtrees (model_messages f))"

definition constant_name_request :: "ConstantModel \<Rightarrow> EmittedNameRequest" where
  "constant_name_request c = name_request (constant_owner c) (const_cpp_name c) [member_of_kind CONSTANT]"

definition file_requests :: "FileModel \<Rightarrow> EmittedNameRequest list" where
  "file_requests f =
     map (\<lambda>e. enum_type_request e (map snd (enum_helper_name_members e))) (model_enums f)
     @ concat (map (\<lambda>t.
         (if is_map_entry (tree_message t) then []
          else [type_request (message_full_name (tree_message t)) (message_cpp_name (tree_message t)) []])
         @ map (\<lambda>e. enum_type_request e []) (nested_enums t)) (file_trees f))
     @ map constant_name_request (model_constants f)"

definition group_requests ::
    "string option \<Rightarrow> (string, FileModel) dict \<Rightarrow> (string list, (string, EmittedNameRequest list) dict) dict" where
  "group_requests nsp files = fold (\<lambda>(_, f) d.
     let key = cpp_symbol_scope_key (model_package f) nsp; g = dict_get d key in
     dict_set d key (dict_set g (model_file_name f) (dict_get g (model_file_name f) @ file_requests f))) files []"

record namespace_names =
  declared_names :: "string \<rightharpoonup> string" \<comment> \<open>by the owner of a type or constant\<close>
  value_names :: "string \<rightharpoonup> string" \<comment> \<open>by the owner of an enum value\<close>

definition runtime_reservations :: "(string \<times> EmittedNameUse) list" where
  "runtime_reservations = map (\<lambda>n. (n, \<lparr>uowner = ''runtime:'' @ n, ukind = CppNameKind.TYPE, usignature = None\<rparr>))
     (sort PROTOCYTE_RUNTIME_CPP_SYMBOLS)"

definition file_reservations :: "string list \<Rightarrow> string \<Rightarrow> (string \<times> EmittedNameUse) list" where
  "file_reservations key file_nm =
     (''protocyte_reflection'', \<lparr>uowner = ''namespace:'' @ file_nm @ '':reflection'', ukind = NAMESPACE, usignature = None\<rparr>)
     # (if key = [''protocyte''] then runtime_reservations else [])"

definition scope_text :: "string list \<Rightarrow> string" where
  \<comment> \<open>\<^verbatim>\<open>'::'.join(parts) or '<global>'\<close>\<close>
  "scope_text parts = (if parts = [] then ''<global>'' else join ''::'' parts)"

definition name_file_declarations ::
    "string list \<Rightarrow> string \<times> EmittedNameRequest list \<Rightarrow> namespace_names \<Rightarrow> namespace_names naming" where
  \<comment> \<open>the label is new for each file, so the scope is\<close>
  "name_file_declarations key fr ns = (case fr of (file_nm, rs) \<Rightarrow>
     nbind (Some (reserve_names (file_reservations key file_nm)
       (new_scope (''namespace:'' @ scope_text key @ '':file:'' @ file_nm)))) (\<lambda>sc.
     nbind (allocate_names sc rs) (\<lambda>(_, al).
     Some (Inr (ns\<lparr>declared_names := declared_names ns ++ al\<rparr>)))))"

definition value_owner :: "EnumModel \<Rightarrow> EnumValueModel \<Rightarrow> string" where
  "value_owner e v = ''enum-value:'' @ enum_full_name e @ ''.'' @ value_name v"

definition name_enum_values :: "EnumModel \<Rightarrow> namespace_names \<Rightarrow> namespace_names naming" where
  "name_enum_values e ns =
     nbind (allocate_names (new_scope (''enum:'' @ enum_full_name e))
       (map (\<lambda>v. name_request (value_owner e v) (value_cpp_name v) [member_of_kind ENUM_VALUE]) (enum_values e))) (\<lambda>(_, al).
     Some (rbind (each (\<lambda>v. rbind (allocated_name al (value_owner e v)) (\<lambda>_. Inr ())) (enum_values e))
       (\<lambda>_. Inr (ns\<lparr>value_names := value_names ns ++ al\<rparr>))))"

definition allocate_namespace_cpp_names ::
    "(string, FileModel) dict \<Rightarrow> EnumModel list \<Rightarrow> string option \<Rightarrow> namespace_names naming" where
  "allocate_namespace_cpp_names files enums nsp =
     nbind (nfold (\<lambda>(key, package_files). nfold (name_file_declarations key) package_files)
       (group_requests nsp files) \<lparr>declared_names = Map.empty, value_names = Map.empty\<rparr>)
     (nfold name_enum_values enums)"

definition name_or :: "(string \<rightharpoonup> string) \<Rightarrow> string \<Rightarrow> string \<Rightarrow> string" where
  "name_or al ow d = (case al ow of None \<Rightarrow> d | Some n \<Rightarrow> n)"

definition named_enum :: "namespace_names \<Rightarrow> EnumModel \<Rightarrow> EnumModel" where
  "named_enum ns e = e\<lparr>enum_cpp_name := name_or (declared_names ns) (''type:'' @ enum_full_name e) (enum_cpp_name e),
     enum_values := map (\<lambda>v. v\<lparr>value_cpp_name := name_or (value_names ns) (value_owner e v) (value_cpp_name v)\<rparr>) (enum_values e)\<rparr>"

fun named_tree :: "namespace_names \<Rightarrow> message_tree \<Rightarrow> message_tree" where
  "named_tree ns (MessageTree m es ts) = MessageTree
     (m\<lparr>message_cpp_name := name_or (declared_names ns) (''type:'' @ message_full_name m) (message_cpp_name m)\<rparr>)
     (map (named_enum ns) es) (map (named_tree ns) ts)"

definition named_file :: "namespace_names \<Rightarrow> FileModel \<Rightarrow> FileModel" where
  "named_file ns f = f\<lparr>model_enums := map (named_enum ns) (model_enums f),
     model_messages := map (named_tree ns) (model_messages f),
     model_constants := map (\<lambda>c. c\<lparr>const_cpp_name := name_or (declared_names ns) (constant_owner c) (const_cpp_name c)\<rparr>)
       (model_constants f)\<rparr>"

section \<open>The namespaces of the packages\<close>

datatype namespace_node = NamespaceNode
  (raw_parts: "string list") (node_files: "string list") (node_children: "(string \<times> namespace_node) list")

fun add_file :: "string list \<Rightarrow> string \<Rightarrow> namespace_node \<Rightarrow> namespace_node" where
  "add_file [] f (NamespaceNode raw fs ch) = NamespaceNode raw (fs @ [f]) ch"
| "add_file (p # ps) f (NamespaceNode raw fs ch) = NamespaceNode raw fs
     (dict_set ch p (add_file ps f (case map_of ch p of None \<Rightarrow> NamespaceNode (raw @ [p]) [] [] | Some c \<Rightarrow> c)))"

datatype scope_error =
  Naming_failed naming_error
| Namespace_twice string string \<comment> \<open>the owner, and the one that has the spelling already\<close>
| Namespace_hits_symbol string "string list" \<comment> \<open>owner of the namespace, its name\<close>
| Symbol_hits_namespace string string "string list" \<comment> \<open>kind, owner, name\<close>
| Symbol_twice string string "string list"
| Missing_namespace string \<comment> \<open>the \<^verbatim>\<open>AssertionError\<close>\<close>

type_synonym 'a scoping = "(scope_error + 'a) option"

definition sbind :: "'a scoping \<Rightarrow> ('a \<Rightarrow> 'b scoping) \<Rightarrow> 'b scoping" where
  "sbind m f = (case m of None \<Rightarrow> None | Some (Inl e) \<Rightarrow> Some (Inl e) | Some (Inr x) \<Rightarrow> f x)"

definition namespace_owner :: "string list \<Rightarrow> string" where
  "namespace_owner raw = ''namespace:'' @ join ''.'' raw"

definition component_name :: "string list \<Rightarrow> string list \<Rightarrow> string \<Rightarrow> string naming" where
  \<comment> \<open>the spelling of one namespace below \<open>emitted_parts\<close>\<close>
  "component_name emitted_parts raw raw_spelling =
     nbind (Some (reserve_names (if emitted_parts = [''protocyte''] then runtime_reservations else [])
       (new_scope (''namespace-component:'' @ scope_text emitted_parts @ '':'' @ raw_spelling)))) (\<lambda>sc.
     nbind (allocate_names sc
       [(name_request (namespace_owner raw) raw_spelling [member_of_kind NAMESPACE])\<lparr>hash_fallback := True\<rparr>]) (\<lambda>(_, al).
     Some (allocated_name al (namespace_owner raw))))"

fun name_children :: "string list \<Rightarrow> (string \<times> string list) list \<Rightarrow> (string, string) dict \<Rightarrow> (string, string) dict
    \<Rightarrow> ((string, string) dict) scoping" where
  \<comment> \<open>raw names of the children with their raw parts; \<open>taken\<close> maps a spelling to its owner\<close>
  "name_children emitted_parts [] allocated taken = Some (Inr allocated)"
| "name_children emitted_parts ((raw_spelling, raw) # cs) allocated taken =
     sbind (map_option (lift_error Naming_failed) (component_name emitted_parts raw raw_spelling)) (\<lambda>emitted.
     case map_of taken emitted of
       Some ow \<Rightarrow> Some (Inl (Namespace_twice (namespace_owner raw) ow))
     | None \<Rightarrow> name_children emitted_parts cs (dict_set allocated raw_spelling emitted)
         (dict_set taken emitted (namespace_owner raw)))"

fun allocate_node :: "namespace_node \<Rightarrow> string list \<Rightarrow> (string, string list) dict scoping"
  and allocate_nodes :: "(string \<times> namespace_node) list \<Rightarrow> (string, string) dict \<Rightarrow> string list
    \<Rightarrow> (string, string list) dict scoping" where
  \<comment> \<open>the files with their namespaces\<close>
  "allocate_node (NamespaceNode raw fs ch) emitted_parts =
     sbind (name_children emitted_parts (map (\<lambda>(n, c). (n, raw_parts c)) (sort_key fst ch)) [] []) (\<lambda>allocated.
     sbind (allocate_nodes ch allocated emitted_parts) (\<lambda>d.
     Some (Inr (d @ map (\<lambda>f. (f, emitted_parts)) fs))))"
| "allocate_nodes [] allocated emitted_parts = Some (Inr [])"
| "allocate_nodes ((n, c) # cs) allocated emitted_parts =
     sbind (allocate_node c (emitted_parts @ [case map_of allocated n of None \<Rightarrow> n | Some e \<Rightarrow> e])) (\<lambda>d.
     sbind (allocate_nodes cs allocated emitted_parts) (\<lambda>e. Some (Inr (d @ e))))"

definition namespace_tree :: "FileModel list \<Rightarrow> string option \<Rightarrow> namespace_node" where
  "namespace_tree files nsp = fold (\<lambda>f. add_file (cpp_symbol_scope_key (model_package f) nsp) (model_file_name f))
     files (NamespaceNode [] [] [])"

definition allocate_cpp_namespaces :: "FileModel list \<Rightarrow> string option \<Rightarrow> (string, string list) dict scoping" where
  "allocate_cpp_namespaces files nsp = allocate_node (namespace_tree files nsp) []"

end
