(* ===== verification/CppScopes.thy ===== *)
theory CppScopes
  imports Namespaces
begin

text \<open>
  What \<^verbatim>\<open>cpp.py\<close> declares in the C++ namespaces of the generated headers, and the two checks that refuse
  declarations C++ could not hold side by side: \<^verbatim>\<open>_validate_generated_reflection_symbols\<close> with a
  dictionary per namespace, and \<^verbatim>\<open>_validate_generated_namespace_scopes\<close> with a tree of namespaces.
  Files are those of \<open>generated_header_files\<close> with their allocated names, \<open>d\<close> holds their namespaces.
\<close>

section \<open>Declarations of a header\<close>

definition cpp_suffix_identifier :: "string \<Rightarrow> string \<Rightarrow> string" where
  "cpp_suffix_identifier ident sfx = (if endswith ident ''_'' then ident @ sfx @ ''_'' else ident @ ''_'' @ sfx)"

definition namespace_parts :: "(string, string list) dict \<Rightarrow> FileModel \<Rightarrow> scope_error + string list" where
  "namespace_parts d f = (case map_of d (model_file_name f) of
     None \<Rightarrow> Inl (Missing_namespace (model_file_name f)) | Some ps \<Rightarrow> Inr ps)"

definition file_generated_cpp_symbols :: "FileModel \<Rightarrow> (string \<times> string) list" where
  \<comment> \<open>full names and C++ names of the types\<close>
  "file_generated_cpp_symbols f =
     map (\<lambda>e. (enum_full_name e, enum_cpp_name e)) (model_enums f)
     @ concat (map (\<lambda>t. if is_map_entry (tree_message t) then []
         else (message_full_name (tree_message t), message_cpp_name (tree_message t))
           # map (\<lambda>e. (enum_full_name e, enum_cpp_name e)) (nested_enums t)) (file_trees f))"

definition helper_names :: "EnumModel \<Rightarrow> (string \<times> string) list" where
  \<comment> \<open>the \<^verbatim>\<open>emitted_names\<close> of the helpers of an enum outside messages\<close>
  "helper_names e = List.map_filter (\<lambda>(k, m). case render m (enum_cpp_name e) of Inl _ \<Rightarrow> None | Inr n \<Rightarrow> Some (k, n))
     (enum_helper_name_members e)"

definition enum_public_symbols :: "EnumModel \<Rightarrow> string list" where
  "enum_public_symbols e = List.map_filter (map_of (helper_names e))
     [''min'', ''max'', ''arraysize'', ''is_valid'', ''name'', ''parse'', ''descriptor'']"

definition file_enums :: "FileModel \<Rightarrow> EnumModel list" where
  "file_enums f = model_enums f
     @ concat (map nested_enums (filter (\<lambda>t. \<not> is_map_entry (tree_message t)) (file_trees f)))"

definition reflection_name :: "MessageModel \<Rightarrow> string" where
  "reflection_name m = cpp_suffix_identifier (message_cpp_name m) ''fields''"

definition file_reflection_symbols :: "FileModel \<Rightarrow> (string \<times> string) list" where
  "file_reflection_symbols f =
     map (\<lambda>t. (message_full_name (tree_message t), reflection_name (tree_message t)))
       (filter (\<lambda>t. \<not> is_map_entry (tree_message t)) (file_trees f))
     @ concat (map (\<lambda>e. [(enum_full_name e, cpp_suffix_identifier (enum_cpp_name e) ''enum_values''),
         (enum_full_name e, cpp_suffix_identifier (enum_cpp_name e) ''enum'')]) (file_enums f))"

definition file_declarations :: "FileModel \<Rightarrow> (string \<times> string \<times> string) list" where
  \<comment> \<open>kind, owner and name of what the namespace of a file declares\<close>
  "file_declarations f =
     map (\<lambda>(full, n). (''type'', full, n)) (file_generated_cpp_symbols f)
     @ map (\<lambda>c. (''package constant'', const_full_name c, const_cpp_name c)) (model_constants f)
     @ concat (map (\<lambda>e. map (\<lambda>n. (''enum helper'', enum_full_name e, n)) (enum_public_symbols e)) (model_enums f))"

definition reflection_declarations :: "FileModel \<Rightarrow> (string \<times> string \<times> string) list" where
  "reflection_declarations f = map (\<lambda>(ow, n). (''reflection symbol'', ow, n)) (file_reflection_symbols f)"

section \<open>The tree of namespaces\<close>

datatype scope_node = ScopeNode (scope_parts: "string list") (scope_owner: string)
  (scope_children: "(string \<times> scope_node) list") (scope_symbols: "(string \<times> string \<times> string) list")

fun in_namespace :: "string list \<Rightarrow> string \<Rightarrow> (scope_node \<Rightarrow> scope_error + scope_node) \<Rightarrow> scope_node
    \<Rightarrow> scope_error + scope_node" where
  \<comment> \<open>\<^verbatim>\<open>namespace(parts, owner=owner)\<close>, and what is then done to the namespace it returns\<close>
  "in_namespace [] ow f t = f t"
| "in_namespace (p # ps) ow f (ScopeNode parts o' ch sy) =
     (case map_of sy p of
        Some _ \<Rightarrow> Inl (Namespace_hits_symbol ow (parts @ [p]))
      | None \<Rightarrow> rbind (in_namespace ps ow f (case map_of ch p of None \<Rightarrow> ScopeNode (parts @ [p]) ow [] [] | Some c \<Rightarrow> c))
          (\<lambda>c. Inr (ScopeNode parts o' (dict_set ch p c) sy)))"

definition add_symbol :: "string \<times> string \<times> string \<Rightarrow> scope_node \<Rightarrow> scope_error + scope_node" where
  "add_symbol x t = (case x of (knd, ow, n) \<Rightarrow> (case t of ScopeNode parts o' ch sy \<Rightarrow>
     (case map_of ch n of
        Some c \<Rightarrow> Inl (Symbol_hits_namespace knd ow (scope_parts c))
      | None \<Rightarrow> (case map_of sy n of
          Some _ \<Rightarrow> Inl (Symbol_twice knd ow (parts @ [n]))
        | None \<Rightarrow> Inr (ScopeNode parts o' ch (dict_set sy n (knd, ow)))))))"

definition generated_namespace_owner :: "FileModel \<Rightarrow> string" where
  \<comment> \<open>of the text only what identifies the file\<close>
  "generated_namespace_owner f = ''descriptor file '' @ model_file_name f @ '' package '' @ model_package f"

definition register_namespace :: "(string, string list) dict \<Rightarrow> FileModel \<Rightarrow> scope_node \<Rightarrow> scope_error + scope_node" where
  "register_namespace d f t = rbind (namespace_parts d f) (\<lambda>ps. in_namespace ps (generated_namespace_owner f) Inr t)"

definition declare_file :: "(string, string list) dict \<Rightarrow> FileModel \<Rightarrow> scope_node \<Rightarrow> scope_error + scope_node" where
  "declare_file d f t = rbind (namespace_parts d f) (\<lambda>ps.
     in_namespace ps (generated_namespace_owner f) (rfold add_symbol (file_declarations f)) t)"

definition declare_reflection :: "(string, string list) dict \<Rightarrow> FileModel \<Rightarrow> scope_node \<Rightarrow> scope_error + scope_node" where
  "declare_reflection d f t = (if file_reflection_symbols f = [] then Inr t
     else rbind (namespace_parts d f) (\<lambda>ps. in_namespace (ps @ [''protocyte_reflection''])
       (''descriptor file '' @ model_file_name f @ '' generated reflection API'')
       (rfold add_symbol (reflection_declarations f)) t))"

definition validate_generated_namespace_scopes :: "FileModel list \<Rightarrow> (string, string list) dict \<Rightarrow> scope_error + unit" where
  "validate_generated_namespace_scopes files d =
     rbind (rfold (register_namespace d) files (ScopeNode [] [] [] [])) (\<lambda>t.
     rbind (rfold (declare_file d) files t) (\<lambda>t.
     rbind (rfold (declare_reflection d) files t) (\<lambda>_. Inr ())))"

section \<open>The dictionaries of names\<close>

record scope_owners =
  type_owners :: "(string list, (string \<times> string) list) dict"
  constant_owners :: "(string list, (string \<times> string) list) dict"
  reflection_owners :: "(string list, (string \<times> string) list) dict"

definition owned :: "(string list, (string \<times> string) list) dict \<Rightarrow> string list \<Rightarrow> string \<Rightarrow> bool" where
  "owned d ps n = (map_of (dict_get d ps) n \<noteq> None)"

definition own :: "(string list, (string \<times> string) list) dict \<Rightarrow> string list \<Rightarrow> string \<Rightarrow> string
    \<Rightarrow> (string list, (string \<times> string) list) dict" where
  "own d ps n ow = dict_set d ps (dict_set (dict_get d ps) n ow)"

definition register_constant :: "string list \<Rightarrow> ConstantModel \<Rightarrow> scope_owners \<Rightarrow> scope_error + scope_owners" where
  "register_constant ps c k = (let n = const_cpp_name c; ow = const_full_name c in
     if owned (type_owners k) ps n \<or> owned (constant_owners k) ps n then Inl (Symbol_twice ''package constant'' ow (ps @ [n]))
     else Inr (k\<lparr>constant_owners := own (constant_owners k) ps n ow\<rparr>))"

definition register_type :: "string list \<Rightarrow> string \<times> string \<Rightarrow> scope_owners \<Rightarrow> scope_error + scope_owners" where
  "register_type ps x k = (case x of (ow, n) \<Rightarrow>
     if owned (type_owners k) ps n \<or> owned (constant_owners k) ps n then Inl (Symbol_twice ''type'' ow (ps @ [n]))
     else Inr (k\<lparr>type_owners := own (type_owners k) ps n ow\<rparr>))"

definition registered_types :: "FileModel \<Rightarrow> (string \<times> string) list" where
  \<comment> \<open>this check also meets the enums inside map entries\<close>
  "registered_types f =
     map (\<lambda>e. (enum_full_name e, enum_cpp_name e)) (model_enums f)
     @ concat (map (\<lambda>t. (if is_map_entry (tree_message t) then []
           else [(message_full_name (tree_message t), message_cpp_name (tree_message t))])
         @ map (\<lambda>e. (enum_full_name e, enum_cpp_name e)) (nested_enums t)) (file_trees f))"

definition register_file :: "(string, string list) dict \<Rightarrow> FileModel \<Rightarrow> scope_owners \<Rightarrow> scope_error + scope_owners" where
  "register_file d f k = rbind (namespace_parts d f) (\<lambda>ps.
     rbind (rfold (register_constant ps) (model_constants f) k) (rfold (register_type ps) (registered_types f)))"

definition register_reflection_symbol :: "string list \<Rightarrow> string \<times> string \<Rightarrow> scope_owners \<Rightarrow> scope_error + scope_owners" where
  "register_reflection_symbol ps x k = (case x of (ow, n) \<Rightarrow>
     if owned (reflection_owners k) ps n \<or> owned (type_owners k) ps n \<or> owned (constant_owners k) ps n
     then Inl (Symbol_twice ''reflection symbol'' ow (ps @ [n]))
     else Inr (k\<lparr>reflection_owners := own (reflection_owners k) ps n ow\<rparr>))"

definition register_reflection :: "(string, string list) dict \<Rightarrow> FileModel \<Rightarrow> scope_owners \<Rightarrow> scope_error + scope_owners" where
  "register_reflection d f k = (if file_reflection_symbols f = [] then Inr k
     else rbind (namespace_parts d f) (\<lambda>ps.
       rfold (register_reflection_symbol (ps @ [''protocyte_reflection''])) (file_reflection_symbols f) k))"

definition validate_generated_reflection_symbols :: "FileModel list \<Rightarrow> (string, string list) dict \<Rightarrow> scope_error + unit" where
  "validate_generated_reflection_symbols files d =
     rbind (rfold (register_file d) files \<lparr>type_owners = [], constant_owners = [], reflection_owners = []\<rparr>) (\<lambda>k.
     rbind (rfold (register_reflection d) files k) (\<lambda>k.
     each (\<lambda>(ps, _). raise_if (owned (type_owners k) (butlast ps) ''protocyte_reflection'')
       (Namespace_hits_symbol ''protocyte_reflection'' ps)) (reflection_owners k)))"

definition validate_generated_cpp_names :: "FileModel list \<Rightarrow> string option \<Rightarrow> (string, string list) dict scoping" where
  "validate_generated_cpp_names files nsp = sbind (allocate_cpp_namespaces files nsp) (\<lambda>d.
     Some (rbind (validate_generated_reflection_symbols files d) (\<lambda>_.
       rbind (validate_generated_namespace_scopes files d) (\<lambda>_. Inr d))))"

end
