(* ===== verification/NamespacesSpec.thy ===== *)
theory NamespacesSpec
  imports Namespaces ClassPhases
begin

text \<open>
  The spelling of a C++ namespace is a function of its package alone: \<open>spelling\<close> spells a package part by
  part, without the other packages of a request. \<open>allocate_cpp_namespaces\<close> gives exactly these spellings,
  so headers generated by different runs agree, and refuses packages whose spellings coincide.
\<close>

section \<open>One component\<close>

lemma component_plain:
  assumes "is_portable_identifier sp" and "em \<noteq> [''protocyte'']"
  shows "component_name em raw sp = Some (Inr sp)"
proof -
  let ?r = "(name_request (namespace_owner raw) sp [member_of_kind NAMESPACE])\<lparr>hash_fallback := True\<rparr>"
  let ?sc = "new_scope (''namespace-component:'' @ scope_text em @ '':'' @ sp)"
  have first: "allocation_candidate sp ow hf 0 = sp" for ow hf
    by (simp add: allocation_candidate_def Let_def first_candidates_def)
  have f: "find_candidate ?sc ?r 0 = Some (Inr (sp, [(sp, \<lparr>uowner = namespace_owner raw, ukind = NAMESPACE, usignature = None\<rparr>)]))"
    by (subst find_candidate.simps)
      (simp add: name_request_def first render_request_def render_def member_of_kind_def plain_member_def startswith_def
        member_use_def can_add_def assms new_scope_def Let_def)
  have "rowner ?r = namespace_owner raw" by (simp add: name_request_def)
  then show ?thesis using assms(2) f
    by (simp add: component_name_def reserve_names_def nbind_def allocate_names_def allocate_def allocated_name_def)
qed

section \<open>Spelling a package\<close>

definition component :: "string list \<Rightarrow> string list \<Rightarrow> string \<Rightarrow> string" where
  "component em raw sp = (case component_name em raw sp of Some (Inr e) \<Rightarrow> e | _ \<Rightarrow> sp)"

fun spelling :: "string list \<Rightarrow> string list \<Rightarrow> string list \<Rightarrow> string list" where
  "spelling em raw [] = []"
| "spelling em raw (n # q) = (let e = component em (raw @ [n]) n in e # spelling (em @ [e]) (raw @ [n]) q)"

lemma name_children_gives:
  "name_children em cs al tk = Some (Inr al') \<Longrightarrow> distinct (map fst cs) \<Longrightarrow>
     (\<forall>n. n \<notin> fst ` set cs \<longrightarrow> map_of al' n = map_of al n)
     \<and> (\<forall>(n, raw)\<in>set cs. map_of al' n = Some (component em raw n) \<and> map_of tk (component em raw n) = None)
     \<and> inj_on (\<lambda>(n, raw). component em raw n) (set cs)"
proof (induction cs arbitrary: al tk)
  case (Cons c cs)
  obtain n raw where c: "c = (n, raw)" by (cases c)
  from Cons.prems(1) obtain e where e: "component_name em raw n = Some (Inr e)" and free: "map_of tk e = None"
    and rest: "name_children em cs (dict_set al n e) (dict_set tk e (namespace_owner raw)) = Some (Inr al')"
    unfolding c by (auto simp: sbind_def split: option.splits sum.splits elim!: lift_error.elims)
  have comp: "component em raw n = e" using e by (simp add: component_def)
  note IH = Cons.IH [OF rest] Cons.prems(2)
  have "n \<notin> fst ` set cs" using Cons.prems(2) by (simp add: c)
  with IH have own: "map_of al' n = Some e" by simp
  have apart: "component em raw' n' \<noteq> e" if "(n', raw') \<in> set cs" for n' raw' using IH that by fastforce
  show ?case using IH own comp free apart unfolding c by (fastforce simp: inj_on_def)
qed simp

section \<open>The tree of packages\<close>

fun sub_namespace :: "namespace_node \<Rightarrow> string list \<Rightarrow> namespace_node option" where
  "sub_namespace t [] = Some t"
| "sub_namespace (NamespaceNode raw fs ch) (p # ps) = (case map_of ch p of None \<Rightarrow> None | Some c \<Rightarrow> sub_namespace c ps)"

definition files_at :: "namespace_node \<Rightarrow> string list \<Rightarrow> string list" where
  "files_at t q = (case sub_namespace t q of None \<Rightarrow> [] | Some c \<Rightarrow> node_files c)"

fun tree_ok :: "namespace_node \<Rightarrow> bool" where
  "tree_ok (NamespaceNode raw fs ch) \<longleftrightarrow> distinct (map fst ch)
     \<and> (\<forall>(n, c)\<in>set ch. tree_ok c \<and> raw_parts c = raw @ [n])"

lemma tree_ok_child: "tree_ok (NamespaceNode raw fs ch) \<Longrightarrow> map_of ch p = Some c \<Longrightarrow> tree_ok c \<and> raw_parts c = raw @ [p]"
  by (auto dest: map_of_SomeD)

lemma tree_ok_set_child:
  assumes "tree_ok (NamespaceNode raw fs ch)" and "tree_ok c" and "raw_parts c = raw @ [p]"
  shows "tree_ok (NamespaceNode raw fs (dict_set ch p c))"
proof -
  have "set (dict_set ch p c) \<subseteq> insert (p, c) (set ch)" by (rule set_dict_set)
  with assms show ?thesis by (auto simp: distinct_dict_set)
qed

lemma add_file_tree: "tree_ok t \<Longrightarrow> tree_ok (add_file ps f t) \<and> raw_parts (add_file ps f t) = raw_parts t"
proof (induction ps f t rule: add_file.induct)
  case (2 p ps f raw fs ch)
  let ?c = "case map_of ch p of None \<Rightarrow> NamespaceNode (raw @ [p]) [] [] | Some c \<Rightarrow> c"
  have "tree_ok ?c \<and> raw_parts ?c = raw @ [p]"
    using tree_ok_child [OF "2.prems"] by (cases "map_of ch p") simp_all
  then have "tree_ok (add_file ps f ?c) \<and> raw_parts (add_file ps f ?c) = raw @ [p]" using "2.IH" by simp
  then show ?case unfolding add_file.simps by (intro conjI tree_ok_set_child [OF "2.prems"]) simp_all
qed simp

lemma sub_fresh: "sub_namespace (NamespaceNode raw [] []) q = (if q = [] then Some (NamespaceNode raw [] []) else None)"
  by (cases q) simp_all

lemma add_file_files: "files_at (add_file ps f t) q = files_at t q @ (if q = ps then [f] else [])"
proof (induction ps f t arbitrary: q rule: add_file.induct)
  case (1 f raw fs ch)
  show ?case by (cases q) (simp_all add: files_at_def)
next
  case (2 p ps f raw fs ch)
  let ?c = "case map_of ch p of None \<Rightarrow> NamespaceNode (raw @ [p]) [] [] | Some c \<Rightarrow> c"
  show ?case
  proof (cases q)
    case (Cons a r)
    show ?thesis
    proof (cases "a = p")
      case True
      have "files_at ?c r = files_at (NamespaceNode raw fs ch) (p # r)"
        by (cases "map_of ch p") (simp_all add: files_at_def sub_fresh)
      then show ?thesis using "2.IH" [of r] by (simp add: Cons True files_at_def)
    qed (simp add: Cons files_at_def)
  qed (simp add: files_at_def)
qed

lemma namespace_tree_files:
  "files_at (namespace_tree files nsp) q
     = map model_file_name (filter (\<lambda>f. cpp_symbol_scope_key (model_package f) nsp = q) files)"
  "tree_ok (namespace_tree files nsp) \<and> raw_parts (namespace_tree files nsp) = []"
proof -
  have "files_at (fold (\<lambda>f. add_file (cpp_symbol_scope_key (model_package f) nsp) (model_file_name f)) files t) q
      = files_at t q @ map model_file_name (filter (\<lambda>f. cpp_symbol_scope_key (model_package f) nsp = q) files)" for t
    by (induction files arbitrary: t) (auto simp: add_file_files)
  then show "files_at (namespace_tree files nsp) q
     = map model_file_name (filter (\<lambda>f. cpp_symbol_scope_key (model_package f) nsp = q) files)"
    unfolding namespace_tree_def by (simp add: files_at_def sub_fresh)
  have "tree_ok t \<Longrightarrow> tree_ok (fold (\<lambda>f. add_file (cpp_symbol_scope_key (model_package f) nsp) (model_file_name f)) files t)
      \<and> raw_parts (fold (\<lambda>f. add_file (cpp_symbol_scope_key (model_package f) nsp) (model_file_name f)) files t) = raw_parts t" for t
    by (induction files arbitrary: t) (simp_all add: add_file_tree)
  from this [of "NamespaceNode [] [] []"] show "tree_ok (namespace_tree files nsp) \<and> raw_parts (namespace_tree files nsp) = []"
    unfolding namespace_tree_def by simp
qed

section \<open>Allocated namespaces\<close>

definition spelled_files :: "string list \<Rightarrow> namespace_node \<Rightarrow> (string \<times> string list) set" where
  "spelled_files em t = {(f, em @ spelling em (raw_parts t) q) | f q. f \<in> set (files_at t q)}"

definition spelled_apart :: "string list \<Rightarrow> namespace_node \<Rightarrow> bool" where
  "spelled_apart em t \<longleftrightarrow> inj_on (spelling em (raw_parts t)) {q. sub_namespace t q \<noteq> None}"

lemma sub_cases:
  "sub_namespace (NamespaceNode raw fs ch) q = Some x \<longleftrightarrow>
     q = [] \<and> x = NamespaceNode raw fs ch \<or> (\<exists>n r c. q = n # r \<and> map_of ch n = Some c \<and> sub_namespace c r = Some x)"
  by (cases q) (auto split: option.splits)

lemma spelled_node:
  assumes ok: "tree_ok (NamespaceNode raw fs ch)"
  shows "spelled_files em (NamespaceNode raw fs ch) = (\<lambda>f. (f, em)) ` set fs
    \<union> (\<Union>(n, c)\<in>set ch. spelled_files (em @ [component em (raw @ [n]) n]) c)"
proof -
  have child: "map_of ch n = Some c \<longleftrightarrow> (n, c) \<in> set ch" for n c using ok by (simp add: map_of_eq_Some_iff)
  have raw: "raw_parts c = raw @ [n]" if "(n, c) \<in> set ch" for n c using ok that by auto
  show ?thesis
  proof (intro set_eqI iffI)
    fix x assume "x \<in> spelled_files em (NamespaceNode raw fs ch)"
    then obtain f q where x: "x = (f, em @ spelling em raw q)" and f: "f \<in> set (files_at (NamespaceNode raw fs ch) q)"
      by (auto simp: spelled_files_def)
    show "x \<in> (\<lambda>f. (f, em)) ` set fs \<union> (\<Union>(n, c)\<in>set ch. spelled_files (em @ [component em (raw @ [n]) n]) c)"
    proof (cases q)
      case Nil
      then show ?thesis using x f by (simp add: files_at_def)
    next
      case (Cons n r)
      with f obtain c where c: "map_of ch n = Some c" "f \<in> set (files_at c r)"
        by (auto simp: files_at_def split: option.splits)
      have "x \<in> spelled_files (em @ [component em (raw @ [n]) n]) c"
        unfolding spelled_files_def x Cons raw [OF child [THEN iffD1, OF c(1)]] using c(2) by (auto simp: Let_def)
      then show ?thesis using c(1) child by blast
    qed
  next
    fix x assume "x \<in> (\<lambda>f. (f, em)) ` set fs \<union> (\<Union>(n, c)\<in>set ch. spelled_files (em @ [component em (raw @ [n]) n]) c)"
    then consider f where "x = (f, em)" "f \<in> set fs"
      | n c where "(n, c) \<in> set ch" "x \<in> spelled_files (em @ [component em (raw @ [n]) n]) c" by blast
    then show "x \<in> spelled_files em (NamespaceNode raw fs ch)"
    proof cases
      case 1
      then have "f \<in> set (files_at (NamespaceNode raw fs ch) [])" by (simp add: files_at_def)
      with 1(1) show ?thesis unfolding spelled_files_def by (auto intro!: exI [of _ "[]"])
    next
      case 2
      then obtain f r where x: "x = (f, (em @ [component em (raw @ [n]) n]) @ spelling (em @ [component em (raw @ [n]) n]) (raw @ [n]) r)"
        and f: "f \<in> set (files_at c r)" by (auto simp: spelled_files_def raw [OF 2(1)])
      have "f \<in> set (files_at (NamespaceNode raw fs ch) (n # r))" using f child [THEN iffD2, OF 2(1)] by (simp add: files_at_def)
      moreover have "x = (f, em @ spelling em raw (n # r))" using x by (simp add: Let_def)
      ultimately show ?thesis unfolding spelled_files_def by (simp only: namespace_node.sel) blast
    qed
  qed
qed

lemma apart_node:
  assumes ok: "tree_ok (NamespaceNode raw fs ch)"
    and own: "inj_on (\<lambda>n. component em (raw @ [n]) n) (fst ` set ch)"
    and children: "\<And>n c. (n, c) \<in> set ch \<Longrightarrow> spelled_apart (em @ [component em (raw @ [n]) n]) c"
  shows "spelled_apart em (NamespaceNode raw fs ch)"
  unfolding spelled_apart_def
proof (rule inj_onI)
  fix q q' assume q: "q \<in> {q. sub_namespace (NamespaceNode raw fs ch) q \<noteq> None}" "q' \<in> {q. sub_namespace (NamespaceNode raw fs ch) q \<noteq> None}"
    and eq: "spelling em (raw_parts (NamespaceNode raw fs ch)) q = spelling em (raw_parts (NamespaceNode raw fs ch)) q'"
  show "q = q'"
  proof (cases q)
    case Nil
    with eq show ?thesis by (cases q') (simp_all add: Let_def)
  next
    case (Cons n r)
    with eq obtain n' r' where q': "q' = n' # r'" by (cases q') (simp_all add: Let_def)
    from q Cons q' obtain c c' where c: "map_of ch n = Some c" "sub_namespace c r \<noteq> None"
      and c': "map_of ch n' = Some c'" "sub_namespace c' r' \<noteq> None" by (auto split: option.splits)
    have n: "(n, c) \<in> set ch" "(n', c') \<in> set ch" using c(1) c'(1) by (auto dest: map_of_SomeD)
    have heads: "component em (raw @ [n]) n = component em (raw @ [n']) n'" using eq Cons q' by (simp add: Let_def)
    have nn: "n = n'" by (rule inj_onD [OF own heads]) (use n in force)+
    then have cc: "c = c'" using c c' by simp
    have raw: "raw_parts c = raw @ [n]" using ok n(1) by auto
    have "spelling (em @ [component em (raw @ [n]) n]) (raw_parts c) r = spelling (em @ [component em (raw @ [n]) n]) (raw_parts c) r'"
      using eq Cons q' nn raw by (simp add: Let_def)
    from inj_onD [OF children [OF n(1), unfolded spelled_apart_def] this] c c' cc have "r = r'" by simp
    then show ?thesis using Cons q' nn by simp
  qed
qed

lemma sbind_Inr: "sbind m f = Some (Inr y) \<longleftrightarrow> (\<exists>x. m = Some (Inr x) \<and> f x = Some (Inr y))"
  by (auto simp: sbind_def split: option.splits sum.splits)

lemma allocated_children:
  assumes ok: "tree_ok (NamespaceNode raw fs ch)"
    and run: "name_children em (map (\<lambda>(n, c). (n, raw_parts c)) (sort_key fst ch)) [] [] = Some (Inr al)"
  shows "(n, c) \<in> set ch \<Longrightarrow> map_of al n = Some (component em (raw @ [n]) n)"
    and "inj_on (\<lambda>n. component em (raw @ [n]) n) (fst ` set ch)"
proof -
  let ?cs = "map (\<lambda>(n, c). (n, raw_parts c)) (sort_key fst ch)"
  have raws: "raw_parts c = raw @ [n]" if "(n, c) \<in> set ch" for n c using ok that by auto
  have names: "map fst ?cs = map fst (sort_key fst ch)" by (simp add: comp_def case_prod_unfold)
  have "distinct (map fst ch)" using ok by simp
  then have "distinct (map fst ?cs)" unfolding names by (metis mset_map mset_sort mset_eq_imp_distinct_iff)
  note gives = name_children_gives [OF run this]
  have mem: "(n, raw @ [n]) \<in> set ?cs" if "(n, c) \<in> set ch" for n c
    using that raws [OF that] by force
  show "(n, c) \<in> set ch \<Longrightarrow> map_of al n = Some (component em (raw @ [n]) n)"
    using gives mem by blast
  show "inj_on (\<lambda>n. component em (raw @ [n]) n) (fst ` set ch)"
  proof (rule inj_onI)
    fix n n' assume n: "n \<in> fst ` set ch" "n' \<in> fst ` set ch" and eq: "component em (raw @ [n]) n = component em (raw @ [n']) n'"
    then have "(n, raw @ [n]) \<in> set ?cs" "(n', raw @ [n']) \<in> set ?cs" using mem by auto
    with gives eq have "(n, raw @ [n]) = (n', raw @ [n'])" unfolding inj_on_def by fastforce
    then show "n = n'" by simp
  qed
qed

lemma allocate_spells:
  "allocate_node t em = Some (Inr d) \<Longrightarrow> tree_ok t \<Longrightarrow> set d = spelled_files em t \<and> spelled_apart em t"
  "allocate_nodes cs al em = Some (Inr d) \<Longrightarrow> \<forall>(n, c)\<in>set cs. tree_ok c \<and> map_of al n = Some (g n) \<Longrightarrow>
     set d = (\<Union>(n, c)\<in>set cs. spelled_files (em @ [g n]) c) \<and> (\<forall>(n, c)\<in>set cs. spelled_apart (em @ [g n]) c)"
proof (induction t em and cs al em arbitrary: d and d g rule: allocate_node_allocate_nodes.induct)
  case (1 raw fs ch em)
  from "1.prems"(1) obtain al d' where al: "name_children em (map (\<lambda>(n, c). (n, raw_parts c)) (sort_key fst ch)) [] [] = Some (Inr al)"
    and d': "allocate_nodes ch al em = Some (Inr d')" and d: "d = d' @ map (\<lambda>f. (f, em)) fs"
    by (auto simp: sbind_Inr)
  note named = allocated_children [OF "1.prems"(2) al]
  have "\<forall>(n, c)\<in>set ch. tree_ok c \<and> map_of al n = Some (component em (raw @ [n]) n)"
    using "1.prems"(2) named(1) by auto
  from "1.IH" [OF d' this] have IH: "set d' = (\<Union>(n, c)\<in>set ch. spelled_files (em @ [component em (raw @ [n]) n]) c)"
    "\<forall>(n, c)\<in>set ch. spelled_apart (em @ [component em (raw @ [n]) n]) c" by simp_all
  have "set d = spelled_files em (NamespaceNode raw fs ch)"
    unfolding spelled_node [OF "1.prems"(2)] d set_append IH(1) by auto
  moreover have "spelled_apart em (NamespaceNode raw fs ch)"
    by (rule apart_node [OF "1.prems"(2) named(2)]) (use IH(2) in blast)
  ultimately show ?case ..
next
  case (3 n c cs al em)
  from "3.prems" have n: "map_of al n = Some (g n)" "tree_ok c" by simp_all
  with "3.prems"(1) obtain d1 d2 where d1: "allocate_node c (em @ [g n]) = Some (Inr d1)"
    and d2: "allocate_nodes cs al em = Some (Inr d2)" and d: "d = d1 @ d2" by (auto simp: sbind_Inr)
  have "set d1 = spelled_files (em @ [g n]) c \<and> spelled_apart (em @ [g n]) c"
    using "3.IH"(1) [of d1] d1 n by simp
  moreover have "set d2 = (\<Union>(n, c)\<in>set cs. spelled_files (em @ [g n]) c) \<and> (\<forall>(n, c)\<in>set cs. spelled_apart (em @ [g n]) c)"
    using "3.IH"(2) [OF d2, of g] "3.prems"(2) by simp
  ultimately show ?case by (simp add: d)
qed simp

section \<open>The namespaces of a request\<close>

abbreviation file_key :: "string option \<Rightarrow> FileModel \<Rightarrow> string list" where
  "file_key nsp f \<equiv> cpp_symbol_scope_key (model_package f) nsp"

lemma add_file_sub: "sub_namespace (add_file ps f t) q \<noteq> None \<longleftrightarrow> sub_namespace t q \<noteq> None \<or> prefix q ps"
proof (induction ps f t arbitrary: q rule: add_file.induct)
  case (1 f raw fs ch)
  show ?case by (cases q) simp_all
next
  case (2 p ps f raw fs ch)
  let ?c = "case map_of ch p of None \<Rightarrow> NamespaceNode (raw @ [p]) [] [] | Some c \<Rightarrow> c"
  show ?case
  proof (cases q)
    case (Cons a r)
    show ?thesis
    proof (cases "a = p")
      case True
      have "sub_namespace ?c r \<noteq> None \<longleftrightarrow> r = [] \<or> sub_namespace (NamespaceNode raw fs ch) (p # r) \<noteq> None"
        by (cases "map_of ch p") (auto simp: sub_fresh)
      then have "sub_namespace (add_file ps f ?c) r \<noteq> None
          \<longleftrightarrow> sub_namespace (NamespaceNode raw fs ch) (p # r) \<noteq> None \<or> prefix r ps"
        unfolding "2.IH" by auto
      then show ?thesis by (simp add: Cons True)
    qed (simp add: Cons)
  qed simp
qed

lemma namespace_tree_sub:
  "sub_namespace (namespace_tree files nsp) q \<noteq> None \<longleftrightarrow> q = [] \<or> (\<exists>f\<in>set files. prefix q (file_key nsp f))"
proof -
  have "sub_namespace (fold (\<lambda>f. add_file (file_key nsp f) (model_file_name f)) files t) q \<noteq> None
      \<longleftrightarrow> sub_namespace t q \<noteq> None \<or> (\<exists>f\<in>set files. prefix q (file_key nsp f))" for t
  proof (induction files arbitrary: t)
    case (Cons f files)
    show ?case using Cons [of "add_file (file_key nsp f) (model_file_name f) t"]
      add_file_sub [of "file_key nsp f" "model_file_name f" t q] by auto
  qed simp
  then show ?thesis unfolding namespace_tree_def by (simp add: sub_fresh)
qed

lemma namespaces_spelled:
  assumes names: "distinct (map model_file_name files)" and run: "allocate_cpp_namespaces files nsp = Some (Inr d)"
  shows "f \<in> set files \<Longrightarrow> map_of d (model_file_name f) = Some (spelling [] [] (file_key nsp f))"
    and "inj_on (spelling [] []) (file_key nsp ` set files)"
proof -
  let ?t = "namespace_tree files nsp"
  from allocate_spells(1) [OF run [unfolded allocate_cpp_namespaces_def]] namespace_tree_files(2)
  have d: "set d = spelled_files [] ?t" and apart: "spelled_apart [] ?t" by blast+
  have raw: "raw_parts ?t = []" using namespace_tree_files(2) by blast
  show "inj_on (spelling [] []) (file_key nsp ` set files)"
    using apart unfolding spelled_apart_def raw by (rule inj_on_subset) (auto simp: namespace_tree_sub simp del: not_None_eq)
  show "map_of d (model_file_name f) = Some (spelling [] [] (file_key nsp f))" if f: "f \<in> set files"
  proof -
    have "model_file_name f \<in> set (files_at ?t (file_key nsp f))" using f by (simp add: namespace_tree_files(1))
    then have "(model_file_name f, spelling [] [] (file_key nsp f)) \<in> set d" unfolding d spelled_files_def raw by auto
    then obtain ps where ps: "map_of d (model_file_name f) = Some ps" by (meson weak_map_of_SomeI)
    then have "(model_file_name f, ps) \<in> spelled_files [] ?t" using d map_of_SomeD by metis
    then obtain q where q: "model_file_name f \<in> set (files_at ?t q)" and p: "ps = spelling [] [] q"
      unfolding spelled_files_def raw by auto
    from q obtain g where "g \<in> set files" "model_file_name g = model_file_name f" "file_key nsp g = q"
      by (auto simp: namespace_tree_files(1))
    moreover from this f names have "g = f" by (meson distinct_map inj_on_eq_iff)
    ultimately show ?thesis using ps p by simp
  qed
qed

section \<open>Packages that need no other spelling\<close>

definition plain_path :: "string list \<Rightarrow> bool" where
  \<comment> \<open>portable parts, and not inside the namespace of the runtime\<close>
  "plain_path q \<longleftrightarrow> list_all is_portable_identifier q \<and> (q \<noteq> [] \<longrightarrow> hd q \<noteq> ''protocyte'')"

lemma plain_component: "plain_path (em @ [n]) \<Longrightarrow> component_name em raw n = Some (Inr n)"
  by (rule component_plain) (auto simp: plain_path_def)

lemma plain_spelling: "plain_path (em @ q) \<Longrightarrow> spelling em raw q = q"
proof (induction q arbitrary: em raw)
  case (Cons n q)
  have "plain_path (em @ [n])" using Cons.prems by (cases em) (auto simp: plain_path_def)
  then have "component em (raw @ [n]) n = n" by (simp add: component_def plain_component)
  then show ?case using Cons by (simp add: Let_def)
qed simp

lemma plain_children:
  assumes "\<forall>n\<in>fst ` set cs. plain_path (em @ [n]) \<and> map_of tk n = None" and "distinct (map fst cs)"
  shows "\<exists>al'. name_children em cs al tk = Some (Inr al')"
  using assms
proof (induction cs arbitrary: al tk)
  case (Cons c cs)
  obtain n raw where c: "c = (n, raw)" by (cases c)
  have "component_name em raw n = Some (Inr n)" by (rule plain_component) (use Cons.prems(1) in \<open>simp add: c\<close>)
  moreover have "\<exists>al'. name_children em cs (dict_set al n n) (dict_set tk n (namespace_owner raw)) = Some (Inr al')"
    by (rule Cons.IH) (use Cons.prems in \<open>auto simp: c\<close>)
  ultimately show ?case using Cons.prems(1) by (simp add: c sbind_def)
qed simp

lemma plain_nodes:
  "tree_ok t \<Longrightarrow> raw_parts t = em \<Longrightarrow> \<forall>q. sub_namespace t q \<noteq> None \<longrightarrow> plain_path (em @ q) \<Longrightarrow>
     \<exists>d. allocate_node t em = Some (Inr d)"
  "\<forall>(n, c)\<in>set cs. tree_ok c \<and> raw_parts c = em @ [n] \<and> map_of al n = Some n
      \<and> (\<forall>q. sub_namespace c q \<noteq> None \<longrightarrow> plain_path (em @ n # q)) \<Longrightarrow>
     \<exists>d. allocate_nodes cs al em = Some (Inr d)"
proof (induction t em and cs al em rule: allocate_node_allocate_nodes.induct)
  case (1 raw fs ch em)
  have raw: "raw = em" using "1.prems"(2) by simp
  have sub: "plain_path (em @ n # q)" if "(n, c) \<in> set ch" "sub_namespace c q \<noteq> None" for n c q
  proof -
    have "map_of ch n = Some c" using "1.prems"(1) that(1) by (simp add: map_of_eq_Some_iff)
    with that(2) have "sub_namespace (NamespaceNode raw fs ch) (n # q) \<noteq> None" by simp
    with "1.prems"(3) show ?thesis by blast
  qed
  have first: "plain_path (em @ [n])" if "n \<in> fst ` set ch" for n
    using that sub [of n _ "[]"] by auto
  let ?cs = "map (\<lambda>(n, c). (n, raw_parts c)) (sort_key fst ch)"
  have names: "map fst ?cs = map fst (sort_key fst ch)" by (simp add: comp_def case_prod_unfold)
  have "distinct (map fst ch)" using "1.prems"(1) by simp
  then have dist: "distinct (map fst ?cs)" unfolding names by (metis mset_map mset_sort mset_eq_imp_distinct_iff)
  have "fst ` set ?cs = fst ` set ch" by (force simp: image_iff)
  then have "\<forall>n\<in>fst ` set ?cs. plain_path (em @ [n]) \<and> map_of [] n = (None :: string option)" using first by simp
  from plain_children [OF this dist] obtain al where al: "name_children em ?cs [] [] = Some (Inr al)" by blast
  have "\<forall>(n, c)\<in>set ch. tree_ok c \<and> raw_parts c = em @ [n] \<and> map_of al n = Some n
      \<and> (\<forall>q. sub_namespace c q \<noteq> None \<longrightarrow> plain_path (em @ n # q))"
  proof clarify
    fix n c assume n: "(n, c) \<in> set ch"
    have "component em (raw @ [n]) n = n" using first n by (force simp: component_def plain_component)
    then have "map_of al n = Some n" using allocated_children(1) [OF "1.prems"(1) al n] by simp
    then show "tree_ok c \<and> raw_parts c = em @ [n] \<and> map_of al n = Some n
      \<and> (\<forall>q. sub_namespace c q \<noteq> None \<longrightarrow> plain_path (em @ n # q))"
      using sub [OF n] "1.prems"(1) n raw by auto
  qed
  from "1.IH" [OF this] obtain d where "allocate_nodes ch al em = Some (Inr d)" by blast
  then show ?case by (simp add: al sbind_def)
next
  case (3 n c cs al em)
  from "3.prems" have n: "map_of al n = Some n" "tree_ok c" "raw_parts c = em @ [n]"
    "\<forall>q. sub_namespace c q \<noteq> None \<longrightarrow> plain_path ((em @ [n]) @ q)" by simp_all
  have "\<exists>d. allocate_node c (em @ [n]) = Some (Inr d)" using "3.IH"(1) n by simp
  moreover have "\<exists>d. allocate_nodes cs al em = Some (Inr d)" using "3.IH"(2) "3.prems" by simp
  ultimately show ?case using n(1) by (auto simp: sbind_def)
qed simp

lemma plain_namespaces:
  assumes "\<forall>f\<in>set files. plain_path (file_key nsp f)"
  shows "\<exists>d. allocate_cpp_namespaces files nsp = Some (Inr d)"
  unfolding allocate_cpp_namespaces_def
proof (rule plain_nodes(1))
  show "tree_ok (namespace_tree files nsp)" "raw_parts (namespace_tree files nsp) = []" using namespace_tree_files(2) by blast+
  have "plain_path q" if "prefix q k" "plain_path k" for q k
    using that by (auto simp: plain_path_def prefix_def)
  then show "\<forall>q. sub_namespace (namespace_tree files nsp) q \<noteq> None \<longrightarrow> plain_path ([] @ q)"
    using assms by (auto simp: namespace_tree_sub plain_path_def simp del: not_None_eq)
qed

end
