(* ===== verification/CppScopesSpec.thy ===== *)
theory CppScopesSpec
  imports CppScopes NamespacesSpec ClassNaming "HOL-Library.Multiset"
begin

text \<open>
  The checks of \<open>CppScopes\<close> decide one question: does every declaration of the generated headers have a
  qualified name of its own, which is not the name of a namespace? The tree of namespaces is abstracted
  to the set of its namespaces and the set of its symbols.
\<close>

section \<open>What a tree of namespaces holds\<close>

fun is_ns :: "scope_node \<Rightarrow> string list \<Rightarrow> bool" where
  "is_ns t [] = True"
| "is_ns (ScopeNode parts ow ch sy) (p # ps) = (case map_of ch p of None \<Rightarrow> False | Some c \<Rightarrow> is_ns c ps)"

fun has_symbol :: "scope_node \<Rightarrow> string list \<Rightarrow> bool" where
  "has_symbol t [] = False"
| "has_symbol (ScopeNode parts ow ch sy) (p # ps) =
     (if ps = [] then map_of sy p \<noteq> None else (case map_of ch p of None \<Rightarrow> False | Some c \<Rightarrow> has_symbol c ps))"

lemma is_ns_fresh: "is_ns (ScopeNode parts ow [] sy) q \<longleftrightarrow> q = []"
  by (cases q) simp_all

lemma has_symbol_fresh: "\<not> has_symbol (ScopeNode parts ow [] []) q"
  by (cases q) simp_all

abbreviation names_of :: "(string \<times> string \<times> string) list \<Rightarrow> string list" where
  "names_of xs \<equiv> map (\<lambda>x. snd (snd x)) xs"

lemma add_symbol_ok:
  "(\<exists>t'. add_symbol x t = Inr t') \<longleftrightarrow> \<not> has_symbol t [snd (snd x)] \<and> \<not> is_ns t [snd (snd x)]"
  by (cases x, cases t) (auto simp: add_symbol_def split: option.splits)

lemma add_symbol_adds:
  "add_symbol x t = Inr t' \<Longrightarrow> is_ns t' q = is_ns t q \<and> has_symbol t' q = (has_symbol t q \<or> q = [snd (snd x)])"
  by (cases x, cases t, cases q) (auto simp: add_symbol_def split: option.splits if_splits)

lemma names_Cons:
  "distinct (names_of (x # xs)) \<longleftrightarrow> snd (snd x) \<notin> set (names_of xs) \<and> distinct (names_of xs)"
  "set (names_of (x # xs)) = insert (snd (snd x)) (set (names_of xs))"
  by simp_all

lemma add_symbols_ok:
  "(\<exists>t'. rfold add_symbol xs t = Inr t') \<longleftrightarrow>
     distinct (names_of xs) \<and> (\<forall>n\<in>set (names_of xs). \<not> has_symbol t [n] \<and> \<not> is_ns t [n])"
proof (induction xs arbitrary: t)
  case (Cons x xs)
  show ?case
  proof (cases "add_symbol x t")
    case (Inl e)
    then have "\<not> (\<exists>t'. add_symbol x t = Inr t')" by simp
    with Inl show ?thesis unfolding add_symbol_ok by auto
  next
    case (Inr t1)
    then have "\<exists>t'. add_symbol x t = Inr t'" by blast
    then have free: "\<not> has_symbol t [snd (snd x)]" "\<not> is_ns t [snd (snd x)]" by (simp_all add: add_symbol_ok)
    have "(\<exists>t'. rfold add_symbol (x # xs) t = Inr t') \<longleftrightarrow> (\<exists>t'. rfold add_symbol xs t1 = Inr t')" by (simp add: Inr)
    also have "\<dots> \<longleftrightarrow> distinct (names_of xs)
        \<and> (\<forall>n\<in>set (names_of xs). \<not> (has_symbol t [n] \<or> [n] = [snd (snd x)]) \<and> \<not> is_ns t [n])"
      unfolding Cons.IH using add_symbol_adds [OF Inr] by presburger
    also have "\<dots> \<longleftrightarrow> distinct (names_of (x # xs))
        \<and> (\<forall>n\<in>set (names_of (x # xs)). \<not> has_symbol t [n] \<and> \<not> is_ns t [n])"
      unfolding names_Cons using free by blast
    finally show ?thesis .
  qed
qed simp

lemma add_symbols_adds:
  "rfold add_symbol xs t = Inr t' \<Longrightarrow>
     is_ns t' q = is_ns t q \<and> has_symbol t' q = (has_symbol t q \<or> (\<exists>n\<in>set (names_of xs). q = [n]))"
proof (induction xs arbitrary: t)
  case (Cons x xs)
  then obtain t1 where 1: "add_symbol x t = Inr t1" "rfold add_symbol xs t1 = Inr t'" by auto
  show ?case using Cons.IH [OF 1(2)] add_symbol_adds [OF 1(1), of q] by auto
qed simp

section \<open>Declaring in a namespace\<close>

abbreviation declare_in :: "string list \<Rightarrow> string \<Rightarrow> (string \<times> string \<times> string) list \<Rightarrow> scope_node \<Rightarrow> scope_error + scope_node" where
  "declare_in ps ow xs \<equiv> in_namespace ps ow (rfold add_symbol xs)"

lemma child_symbol:
  "has_symbol (case map_of ch p of None \<Rightarrow> ScopeNode (parts @ [p]) ow [] [] | Some c \<Rightarrow> c) q
     \<longleftrightarrow> q \<noteq> [] \<and> has_symbol (ScopeNode parts o' ch sy) (p # q)"
  by (cases "map_of ch p"; cases q) (simp_all add: has_symbol_fresh)

lemma child_ns:
  "is_ns (case map_of ch p of None \<Rightarrow> ScopeNode (parts @ [p]) ow [] [] | Some c \<Rightarrow> c) q
     \<longleftrightarrow> q = [] \<or> is_ns (ScopeNode parts o' ch sy) (p # q)"
  by (cases "map_of ch p"; cases q) (simp_all add: is_ns_fresh)

lemma declare_in_ok:
  "(\<exists>t'. declare_in ps ow xs t = Inr t') \<longleftrightarrow>
     (\<forall>q. prefix q ps \<longrightarrow> \<not> has_symbol t q)
     \<and> distinct (names_of xs) \<and> (\<forall>n\<in>set (names_of xs). \<not> has_symbol t (ps @ [n]) \<and> \<not> is_ns t (ps @ [n]))"
proof (induction ps arbitrary: t)
  case Nil
  show ?case using add_symbols_ok [of xs t] by simp
next
  case (Cons p ps)
  obtain parts o' ch sy where t: "t = ScopeNode parts o' ch sy" by (cases t)
  let ?c = "case map_of ch p of None \<Rightarrow> ScopeNode (parts @ [p]) ow [] [] | Some c \<Rightarrow> c"
  have syms: "has_symbol ?c q \<longleftrightarrow> q \<noteq> [] \<and> has_symbol t (p # q)" for q unfolding t by (rule child_symbol)
  have nss: "is_ns ?c q \<longleftrightarrow> q = [] \<or> is_ns t (p # q)" for q unfolding t by (rule child_ns)
  have p: "map_of sy p = None \<longleftrightarrow> \<not> has_symbol t [p]" by (simp add: t del: not_None_eq)
  have "(\<exists>t'. declare_in (p # ps) ow xs t = Inr t') \<longleftrightarrow> \<not> has_symbol t [p] \<and> (\<exists>c. declare_in ps ow xs ?c = Inr c)"
    unfolding p [symmetric] unfolding t in_namespace.simps(2) by (cases "map_of sy p") auto
  also have "\<dots> \<longleftrightarrow> \<not> has_symbol t [p] \<and> (\<forall>q. prefix q ps \<longrightarrow> q \<noteq> [] \<longrightarrow> \<not> has_symbol t (p # q))
     \<and> distinct (names_of xs) \<and> (\<forall>n\<in>set (names_of xs). \<not> has_symbol t (p # ps @ [n]) \<and> \<not> is_ns t (p # ps @ [n]))"
    unfolding Cons.IH syms nss by auto
  finally have split: "(\<exists>t'. declare_in (p # ps) ow xs t = Inr t') \<longleftrightarrow> \<not> has_symbol t [p]
     \<and> (\<forall>q. prefix q ps \<longrightarrow> q \<noteq> [] \<longrightarrow> \<not> has_symbol t (p # q))
     \<and> distinct (names_of xs) \<and> (\<forall>n\<in>set (names_of xs). \<not> has_symbol t (p # ps @ [n]) \<and> \<not> is_ns t (p # ps @ [n]))" .
  have "(\<forall>q. prefix q (p # ps) \<longrightarrow> \<not> has_symbol t q)
      \<longleftrightarrow> \<not> has_symbol t [p] \<and> (\<forall>q. prefix q ps \<longrightarrow> q \<noteq> [] \<longrightarrow> \<not> has_symbol t (p # q))"
    by (auto simp: prefix_Cons)
  with split show ?case by simp
qed

lemma declare_in_adds:
  "declare_in ps ow xs t = Inr t' \<Longrightarrow>
     (is_ns t' q \<longleftrightarrow> is_ns t q \<or> prefix q ps)
     \<and> (has_symbol t' q \<longleftrightarrow> has_symbol t q \<or> (\<exists>n\<in>set (names_of xs). q = ps @ [n]))"
proof (induction ps arbitrary: t t' q)
  case Nil
  then show ?case using add_symbols_adds [of xs t t' q] by (cases q) auto
next
  case (Cons p ps)
  obtain parts o' ch sy where t: "t = ScopeNode parts o' ch sy" by (cases t)
  let ?c = "case map_of ch p of None \<Rightarrow> ScopeNode (parts @ [p]) ow [] [] | Some c \<Rightarrow> c"
  from Cons.prems obtain c where c: "declare_in ps ow xs ?c = Inr c" and t': "t' = ScopeNode parts o' (dict_set ch p c) sy"
    unfolding t in_namespace.simps(2) by (auto split: option.splits)
  have syms: "has_symbol ?c q \<longleftrightarrow> q \<noteq> [] \<and> has_symbol t (p # q)" for q unfolding t by (rule child_symbol)
  have nss: "is_ns ?c q \<longleftrightarrow> q = [] \<or> is_ns t (p # q)" for q unfolding t by (rule child_ns)
  show ?case
  proof (cases q)
    case Nil
    then show ?thesis by simp
  next
    case (Cons a r)
    show ?thesis
    proof (cases "a = p")
      case True
      note IH = Cons.IH [OF c, of r, unfolded syms nss]
      have "is_ns t' q \<longleftrightarrow> is_ns c r" and "has_symbol t' q \<longleftrightarrow> (if r = [] then has_symbol t [p] else has_symbol c r)"
        unfolding t' Cons True by (simp_all add: t)
      then show ?thesis using IH True Cons by (cases "r = []") auto
    next
      case False
      then have "is_ns t' q = is_ns t q" "has_symbol t' q = has_symbol t q" unfolding t' Cons by (simp_all add: t)
      with False Cons show ?thesis by simp
    qed
  qed
qed

section \<open>Many headers\<close>

type_synonym group = "string list \<times> string \<times> (string \<times> string \<times> string) list"

definition declare_group :: "group \<Rightarrow> scope_node \<Rightarrow> scope_error + scope_node" where
  "declare_group g t = (case g of (ps, ow, xs) \<Rightarrow> declare_in ps ow xs t)"

definition group_paths :: "group \<Rightarrow> string list list" where
  "group_paths g = (case g of (ps, ow, xs) \<Rightarrow> map (\<lambda>n. ps @ [n]) (names_of xs))"

definition all_paths :: "group list \<Rightarrow> string list list" where
  "all_paths gs = concat (map group_paths gs)"

definition opened :: "group list \<Rightarrow> string list set" where
  "opened gs = {q. \<exists>g\<in>set gs. prefix q (fst g)}"

lemma group_ok:
  "(\<exists>t'. declare_group g t = Inr t') \<longleftrightarrow>
     distinct (group_paths g) \<and> (\<forall>x\<in>set (group_paths g). \<not> has_symbol t x \<and> \<not> is_ns t x)
     \<and> (\<forall>q. prefix q (fst g) \<longrightarrow> \<not> has_symbol t q)"
proof -
  obtain ps ow xs where g: "g = (ps, ow, xs)" by (cases g) auto
  have d: "distinct (map (\<lambda>n. ps @ [n]) (names_of xs)) \<longleftrightarrow> distinct (names_of xs)"
    unfolding distinct_map [of "\<lambda>n. ps @ [n]"] by (auto intro: inj_onI)
  have "set (map (\<lambda>n. ps @ [n]) (names_of xs)) = (\<lambda>n. ps @ [n]) ` set (names_of xs)" by (rule set_map)
  then show ?thesis using d declare_in_ok [of ps ow xs t]
    unfolding g declare_group_def group_paths_def by (simp only: prod.case fst_conv ball_simps) blast
qed

lemma group_adds:
  assumes "declare_group g t = Inr t'"
  shows "is_ns t' q \<longleftrightarrow> is_ns t q \<or> prefix q (fst g)"
    and "has_symbol t' q \<longleftrightarrow> has_symbol t q \<or> q \<in> set (group_paths g)"
proof -
  obtain ps ow xs where g: "g = (ps, ow, xs)" by (cases g) auto
  note * = declare_in_adds [of ps ow xs t t' q]
  show "is_ns t' q \<longleftrightarrow> is_ns t q \<or> prefix q (fst g)"
    and "has_symbol t' q \<longleftrightarrow> has_symbol t q \<or> q \<in> set (group_paths g)"
    using assms * unfolding g declare_group_def group_paths_def by auto
qed

lemma groups_ok:
  "(\<exists>t'. rfold declare_group gs t = Inr t') \<longleftrightarrow>
     distinct (all_paths gs) \<and> (\<forall>x\<in>set (all_paths gs). \<not> has_symbol t x \<and> \<not> is_ns t x \<and> x \<notin> opened gs)
     \<and> (\<forall>q\<in>opened gs. \<not> has_symbol t q)"
proof (induction gs arbitrary: t)
  case Nil
  show ?case by (simp add: all_paths_def opened_def)
next
  case (Cons g gs)
  have paths: "distinct (all_paths (g # gs)) \<longleftrightarrow> distinct (group_paths g) \<and> distinct (all_paths gs)
      \<and> set (group_paths g) \<inter> set (all_paths gs) = {}"
    and paths_set: "set (all_paths (g # gs)) = set (group_paths g) \<union> set (all_paths gs)"
    and op: "opened (g # gs) = {q. prefix q (fst g)} \<union> opened gs"
    by (auto simp: all_paths_def opened_def)
  have own: "x \<notin> {q. prefix q (fst g)}" if "x \<in> set (group_paths g)" for x
    using that by (cases g) (auto simp: group_paths_def dest: prefix_length_le)
  show ?case
  proof (cases "declare_group g t")
    case (Inl e)
    then have "\<not> (\<exists>t'. declare_group g t = Inr t')" by simp
    moreover have "\<not> (\<exists>t'. rfold declare_group (g # gs) t = Inr t')" using Inl by simp
    ultimately show ?thesis unfolding group_ok paths paths_set op by blast
  next
    case (Inr t1)
    then have "\<exists>t'. declare_group g t = Inr t'" by blast
    note free = this [unfolded group_ok]
    have "(\<exists>t'. rfold declare_group (g # gs) t = Inr t') \<longleftrightarrow> (\<exists>t'. rfold declare_group gs t1 = Inr t')" by (simp add: Inr)
    also have "\<dots> \<longleftrightarrow> distinct (all_paths gs)
        \<and> (\<forall>x\<in>set (all_paths gs). \<not> (has_symbol t x \<or> x \<in> set (group_paths g)) \<and> \<not> (is_ns t x \<or> prefix x (fst g)) \<and> x \<notin> opened gs)
        \<and> (\<forall>q\<in>opened gs. \<not> (has_symbol t q \<or> q \<in> set (group_paths g)))"
      unfolding Cons.IH group_adds [OF Inr] ..
    finally show ?thesis unfolding paths paths_set op using free own by blast
  qed
qed

section \<open>What the headers declare\<close>

definition placed :: "(string, string list) dict \<Rightarrow> FileModel \<Rightarrow> string list" where
  "placed d f = (case map_of d (model_file_name f) of None \<Rightarrow> [] | Some ps \<Rightarrow> ps)"

definition reflection_place :: "(string, string list) dict \<Rightarrow> FileModel \<Rightarrow> string list" where
  "reflection_place d f = placed d f @ [''protocyte_reflection'']"

definition declared_paths :: "(string, string list) dict \<Rightarrow> FileModel list \<Rightarrow> string list list" where
  \<comment> \<open>the qualified name of every declaration, as often as it is declared\<close>
  "declared_paths d files =
     concat (map (\<lambda>f. map (\<lambda>n. placed d f @ [n]) (names_of (file_declarations f))) files)
     @ concat (map (\<lambda>f. map (\<lambda>n. reflection_place d f @ [n]) (map snd (file_reflection_symbols f))) files)"

definition opened_namespaces :: "(string, string list) dict \<Rightarrow> FileModel list \<Rightarrow> string list set" where
  "opened_namespaces d files = {q. \<exists>f\<in>set files. prefix q (placed d f)
     \<or> file_reflection_symbols f \<noteq> [] \<and> prefix q (reflection_place d f)}"

definition declarations_apart :: "(string, string list) dict \<Rightarrow> FileModel list \<Rightarrow> bool" where
  "declarations_apart d files \<longleftrightarrow>
     distinct (declared_paths d files) \<and> set (declared_paths d files) \<inter> opened_namespaces d files = {}"

definition has_place :: "(string, string list) dict \<Rightarrow> FileModel \<Rightarrow> bool" where
  "has_place d f \<longleftrightarrow> map_of d (model_file_name f) \<noteq> None"

lemma placed_parts: "has_place d f \<Longrightarrow> namespace_parts d f = Inr (placed d f)"
  by (auto simp: has_place_def namespace_parts_def placed_def)

definition namespace_group :: "(string, string list) dict \<Rightarrow> FileModel \<Rightarrow> group" where
  "namespace_group d f = (placed d f, generated_namespace_owner f, [])"

definition file_group :: "(string, string list) dict \<Rightarrow> FileModel \<Rightarrow> group" where
  "file_group d f = (placed d f, generated_namespace_owner f, file_declarations f)"

definition reflection_group :: "(string, string list) dict \<Rightarrow> FileModel \<Rightarrow> group" where
  "reflection_group d f = (reflection_place d f,
     ''descriptor file '' @ model_file_name f @ '' generated reflection API'', reflection_declarations f)"

definition header_groups :: "(string, string list) dict \<Rightarrow> FileModel list \<Rightarrow> group list" where
  "header_groups d files = map (namespace_group d) files @ map (file_group d) files
     @ map (reflection_group d) (filter (\<lambda>f. file_reflection_symbols f \<noteq> []) files)"

lemma in_namespace_Inr: "in_namespace ps ow Inr t = declare_in ps ow [] t"
proof -
  have "Inr = rfold add_symbol []" by (rule ext) simp
  then show ?thesis by simp
qed

lemma rfold_cong_map:
  "(\<And>x t. x \<in> set xs \<Longrightarrow> f x t = h (g x) t) \<Longrightarrow> rfold f xs t = rfold h (map g xs) t"
  by (induction xs arbitrary: t) (simp_all cong: rbind_cong)

lemma rfold_skip:
  "(\<And>x t. x \<in> set xs \<Longrightarrow> \<not> P x \<Longrightarrow> f x t = Inr t) \<Longrightarrow> rfold f xs t = rfold f (filter P xs) t"
  by (induction xs arbitrary: t) (simp_all cong: rbind_cong)

lemma scopes_as_groups:
  assumes "\<forall>f\<in>set files. has_place d f"
  shows "validate_generated_namespace_scopes files d =
    rbind (rfold declare_group (header_groups d files) (ScopeNode [] [] [] [])) (\<lambda>_. Inr ())"
proof -
  have place: "namespace_parts d f = Inr (placed d f)" if "f \<in> set files" for f
    using assms that by (simp add: placed_parts)
  have 1: "rfold (register_namespace d) files t = rfold declare_group (map (namespace_group d) files) t" for t
    by (rule rfold_cong_map) (simp add: register_namespace_def place namespace_group_def declare_group_def in_namespace_Inr)
  have 2: "rfold (declare_file d) files t = rfold declare_group (map (file_group d) files) t" for t
    by (rule rfold_cong_map) (simp add: declare_file_def place file_group_def declare_group_def)
  have "rfold (declare_reflection d) files t
      = rfold (declare_reflection d) (filter (\<lambda>f. file_reflection_symbols f \<noteq> []) files) t" for t
    by (rule rfold_skip) (simp add: declare_reflection_def)
  also have "\<dots> t = rfold declare_group (map (reflection_group d) (filter (\<lambda>f. file_reflection_symbols f \<noteq> []) files)) t" for t
    by (rule rfold_cong_map)
      (simp add: declare_reflection_def place reflection_group_def declare_group_def reflection_place_def)
  finally have 3: "rfold (declare_reflection d) files t
      = rfold declare_group (map (reflection_group d) (filter (\<lambda>f. file_reflection_symbols f \<noteq> []) files)) t" for t .
  show ?thesis unfolding validate_generated_namespace_scopes_def header_groups_def rfold_append 1 2 3 rbind_assoc by simp
qed

lemma concat_map_filter_empty: "(\<And>x. x \<in> set xs \<Longrightarrow> \<not> P x \<Longrightarrow> g x = []) \<Longrightarrow> concat (map g (filter P xs)) = concat (map g xs)"
  by (induction xs) auto

lemma header_paths: "all_paths (header_groups d files) = declared_paths d files"
proof -
  have "concat (map (\<lambda>f. group_paths (reflection_group d f)) (filter (\<lambda>f. file_reflection_symbols f \<noteq> []) files))
      = concat (map (\<lambda>f. group_paths (reflection_group d f)) files)"
    by (rule concat_map_filter_empty) (simp add: group_paths_def reflection_group_def reflection_declarations_def)
  moreover have "group_paths (reflection_group d f) = map (\<lambda>n. reflection_place d f @ [n]) (map snd (file_reflection_symbols f))" for f
    by (simp add: group_paths_def reflection_group_def reflection_declarations_def comp_def case_prod_unfold)
  moreover have "group_paths (file_group d f) = map (\<lambda>n. placed d f @ [n]) (names_of (file_declarations f))" for f
    by (simp add: group_paths_def file_group_def)
  moreover have "group_paths (namespace_group d f) = []" for f
    by (simp add: group_paths_def namespace_group_def)
  ultimately show ?thesis unfolding all_paths_def header_groups_def declared_paths_def by (simp add: comp_def)
qed

lemma header_opened: "opened (header_groups d files) = opened_namespaces d files"
proof -
  have places: "fst (namespace_group d f) = placed d f" "fst (file_group d f) = placed d f"
    "fst (reflection_group d f) = reflection_place d f" for f
    by (simp_all add: namespace_group_def file_group_def reflection_group_def)
  have "opened (header_groups d files) = {q. \<exists>p\<in>fst ` set (header_groups d files). prefix q p}"
    by (simp add: opened_def)
  also have "fst ` set (header_groups d files) = placed d ` set files
      \<union> reflection_place d ` {f \<in> set files. file_reflection_symbols f \<noteq> []}"
    unfolding header_groups_def by (simp add: image_Un image_image places)
  finally show ?thesis unfolding opened_namespaces_def by (elim ssubst) blast
qed

lemma scopes_decide:
  assumes "\<forall>f\<in>set files. has_place d f"
  shows "validate_generated_namespace_scopes files d = Inr () \<longleftrightarrow> declarations_apart d files"
proof -
  have empty: "\<not> has_symbol (ScopeNode [] [] [] []) q" for q by (rule has_symbol_fresh)
  have nonempty: "x \<noteq> []" if "x \<in> set (declared_paths d files)" for x
    using that by (auto simp: declared_paths_def)
  have "validate_generated_namespace_scopes files d = Inr ()
      \<longleftrightarrow> (\<exists>t'. rfold declare_group (header_groups d files) (ScopeNode [] [] [] []) = Inr t')"
    unfolding scopes_as_groups [OF assms] by simp
  also have "\<dots> \<longleftrightarrow> declarations_apart d files"
    unfolding groups_ok header_paths header_opened declarations_apart_def is_ns_fresh
    using empty nonempty by blast
  finally show ?thesis .
qed

section \<open>The dictionaries refuse nothing more\<close>

lemma rfold_fresh:
  assumes step: "\<And>x k A. x \<in> set xs \<Longrightarrow> I A k \<Longrightarrow> distinct (g x) \<Longrightarrow> set (g x) \<inter> A = {} \<Longrightarrow>
      \<exists>k'. f x k = Inr k' \<and> I (A \<union> set (g x)) k'"
    and "I A k" and "distinct (concat (map g xs))" and "set (concat (map g xs)) \<inter> A = {}"
  shows "\<exists>k'. rfold f xs k = Inr k' \<and> I (A \<union> set (concat (map g xs))) k'"
  using assms
proof (induction xs arbitrary: A k)
  case (Cons x xs)
  have "distinct (g x)" "set (g x) \<inter> A = {}" using Cons.prems(3,4) by auto
  then obtain k1 where k1: "f x k = Inr k1" "I (A \<union> set (g x)) k1" using Cons.prems(1,2) by (meson list.set_intros(1))
  have "distinct (concat (map g xs))" "set (concat (map g xs)) \<inter> (A \<union> set (g x)) = {}" using Cons.prems(3,4) by auto
  from Cons.IH [OF _ k1(2) this] Cons.prems(1)
  obtain k' where "rfold f xs k1 = Inr k'" "I (A \<union> set (g x) \<union> set (concat (map g xs))) k'" by auto
  then show ?case using k1(1) by (auto simp: Un_assoc)
qed simp

lemma owned_own: "owned (own d ps n ow) qs m \<longleftrightarrow> qs = ps \<and> m = n \<or> owned d qs m"
  by (simp add: owned_def own_def dict_get_def)

definition owners_within :: "string list set \<Rightarrow> scope_owners \<Rightarrow> bool" where
  "owners_within A k \<longleftrightarrow> reflection_owners k = []
     \<and> (\<forall>ps n. owned (type_owners k) ps n \<or> owned (constant_owners k) ps n \<longrightarrow> ps @ [n] \<in> A)"

lemma within_type:
  assumes "owners_within A k" and "ps @ [snd x] \<notin> A"
  shows "\<exists>k'. register_type ps x k = Inr k' \<and> owners_within (insert (ps @ [snd x]) A) k'"
proof -
  obtain ow n where x: "x = (ow, n)" by (cases x)
  from assms have free: "\<not> owned (type_owners k) ps n" "\<not> owned (constant_owners k) ps n"
    unfolding x owners_within_def by auto
  then show ?thesis using assms(1) unfolding x register_type_def by (simp add: owners_within_def owned_own)
qed

lemma within_constant:
  assumes "owners_within A k" and "ps @ [const_cpp_name c] \<notin> A"
  shows "\<exists>k'. register_constant ps c k = Inr k' \<and> owners_within (insert (ps @ [const_cpp_name c]) A) k'"
proof -
  from assms have free: "\<not> owned (type_owners k) ps (const_cpp_name c)" "\<not> owned (constant_owners k) ps (const_cpp_name c)"
    unfolding owners_within_def by auto
  then show ?thesis using assms(1) unfolding register_constant_def Let_def by (simp add: owners_within_def owned_own)
qed

definition registered_paths :: "(string, string list) dict \<Rightarrow> FileModel \<Rightarrow> string list list" where
  "registered_paths d f = map (\<lambda>c. placed d f @ [const_cpp_name c]) (model_constants f)
     @ map (\<lambda>x. placed d f @ [snd x]) (registered_types f)"

lemma within_file:
  assumes place: "has_place d f" and ok: "owners_within A k" and dist: "distinct (registered_paths d f)"
    and fresh: "set (registered_paths d f) \<inter> A = {}"
  shows "\<exists>k'. register_file d f k = Inr k' \<and> owners_within (A \<union> set (registered_paths d f)) k'"
proof -
  let ?p = "placed d f"
  let ?cs = "map (\<lambda>c. ?p @ [const_cpp_name c]) (model_constants f)"
  let ?ts = "map (\<lambda>x. ?p @ [snd x]) (registered_types f)"
  have c: "concat (map (\<lambda>c. [?p @ [const_cpp_name c]]) (model_constants f)) = ?cs"
    and t: "concat (map (\<lambda>x. [?p @ [snd x]]) (registered_types f)) = ?ts" by (simp_all add: comp_def)
  have 1: "\<exists>k'. rfold (register_constant ?p) (model_constants f) k = Inr k' \<and> owners_within (A \<union> set ?cs) k'"
    unfolding c [symmetric]
  proof (rule rfold_fresh [where I = owners_within])
    show "owners_within A k" by (rule ok)
    show "distinct (concat (map (\<lambda>c. [?p @ [const_cpp_name c]]) (model_constants f)))"
      "set (concat (map (\<lambda>c. [?p @ [const_cpp_name c]]) (model_constants f))) \<inter> A = {}"
      unfolding c using dist fresh unfolding registered_paths_def distinct_append set_append by blast+
    show "\<exists>k'. register_constant ?p c k = Inr k' \<and> owners_within (A \<union> set [?p @ [const_cpp_name c]]) k'"
      if "owners_within A k" "set [?p @ [const_cpp_name c]] \<inter> A = {}" for c k A
      using within_constant [OF that(1)] that(2) by simp
  qed
  then obtain k1 where k1: "rfold (register_constant ?p) (model_constants f) k = Inr k1" "owners_within (A \<union> set ?cs) k1" by blast
  have "\<exists>k'. rfold (register_type ?p) (registered_types f) k1 = Inr k' \<and> owners_within (A \<union> set ?cs \<union> set ?ts) k'"
    unfolding t [symmetric]
  proof (rule rfold_fresh [where I = owners_within])
    show "owners_within (A \<union> set ?cs) k1" by (rule k1(2))
    show "distinct (concat (map (\<lambda>x. [?p @ [snd x]]) (registered_types f)))"
      "set (concat (map (\<lambda>x. [?p @ [snd x]]) (registered_types f))) \<inter> (A \<union> set ?cs) = {}"
      unfolding t using dist fresh unfolding registered_paths_def distinct_append set_append by blast+
    show "\<exists>k'. register_type ?p x k = Inr k' \<and> owners_within (A \<union> set [?p @ [snd x]]) k'"
      if "owners_within A k" "set [?p @ [snd x]] \<inter> A = {}" for x k A
      using within_type [OF that(1)] that(2) by simp
  qed
  then show ?thesis using k1(1) by (simp add: register_file_def placed_parts [OF place] registered_paths_def Un_assoc)
qed

definition owners_apart :: "string list set \<Rightarrow> string list set \<Rightarrow> scope_owners \<Rightarrow> bool" where
  "owners_apart places A k \<longleftrightarrow> fst ` set (reflection_owners k) \<subseteq> places
     \<and> (\<forall>ps n. owned (type_owners k) ps n \<or> owned (constant_owners k) ps n \<or> owned (reflection_owners k) ps n \<longrightarrow> ps @ [n] \<in> A)"

lemma owners_within_apart: "owners_within A k \<Longrightarrow> owners_apart places A k"
  by (auto simp: owners_within_def owners_apart_def owned_def dict_get_def)

lemma apart_reflection:
  assumes "owners_apart places A k" and "ps @ [snd x] \<notin> A" and "ps \<in> places"
  shows "\<exists>k'. register_reflection_symbol ps x k = Inr k' \<and> owners_apart places (insert (ps @ [snd x]) A) k'"
proof -
  obtain ow n where x: "x = (ow, n)" by (cases x)
  from assms have free: "\<not> owned (type_owners k) ps n" "\<not> owned (constant_owners k) ps n" "\<not> owned (reflection_owners k) ps n"
    unfolding x owners_apart_def by auto
  have "fst ` set (own (reflection_owners k) ps n ow) \<subseteq> places"
    using assms unfolding owners_apart_def own_def by (simp add: dom_dict_set)
  then show ?thesis using assms(1) free unfolding x register_reflection_symbol_def by (simp add: owners_apart_def owned_own)
qed

definition reflection_paths :: "(string, string list) dict \<Rightarrow> FileModel \<Rightarrow> string list list" where
  "reflection_paths d f = map (\<lambda>n. reflection_place d f @ [n]) (map snd (file_reflection_symbols f))"

lemma apart_file:
  assumes place: "has_place d f" and ok: "owners_apart places A k" and dist: "distinct (reflection_paths d f)"
    and fresh: "set (reflection_paths d f) \<inter> A = {}"
    and open_place: "file_reflection_symbols f \<noteq> [] \<Longrightarrow> reflection_place d f \<in> places"
  shows "\<exists>k'. register_reflection d f k = Inr k' \<and> owners_apart places (A \<union> set (reflection_paths d f)) k'"
proof (cases "file_reflection_symbols f = []")
  case True
  then show ?thesis using ok by (simp add: register_reflection_def reflection_paths_def)
next
  case False
  let ?p = "reflection_place d f"
  have t: "concat (map (\<lambda>x. [?p @ [snd x]]) (file_reflection_symbols f)) = reflection_paths d f"
    by (simp add: comp_def reflection_paths_def)
  have "\<exists>k'. rfold (register_reflection_symbol ?p) (file_reflection_symbols f) k = Inr k'
      \<and> owners_apart places (A \<union> set (reflection_paths d f)) k'"
    unfolding t [symmetric]
  proof (rule rfold_fresh [where I = "owners_apart places"])
    show "owners_apart places A k" by (rule ok)
    show "distinct (concat (map (\<lambda>x. [?p @ [snd x]]) (file_reflection_symbols f)))"
      "set (concat (map (\<lambda>x. [?p @ [snd x]]) (file_reflection_symbols f))) \<inter> A = {}"
      unfolding t by (rule dist, rule fresh)
    show "\<exists>k'. register_reflection_symbol ?p x k = Inr k' \<and> owners_apart places (A \<union> set [?p @ [snd x]]) k'"
      if "owners_apart places A k" "set [?p @ [snd x]] \<inter> A = {}" for x k A
      using apart_reflection [OF that(1) _ open_place [OF False]] that(2) by simp
  qed
  then show ?thesis using False by (simp add: register_reflection_def placed_parts [OF place] reflection_place_def)
qed

definition entries_hold_no_enums :: "FileModel list \<Rightarrow> bool" where
  \<comment> \<open>the messages a map field stands for have a key and a value only\<close>
  "entries_hold_no_enums files \<longleftrightarrow>
     list_all (\<lambda>f. list_all (\<lambda>t. is_map_entry (tree_message t) \<longrightarrow> nested_enums t = []) (file_trees f)) files"

lemma registered_are_generated:
  assumes "list_all (\<lambda>t. is_map_entry (tree_message t) \<longrightarrow> nested_enums t = []) (file_trees f)"
  shows "registered_types f = file_generated_cpp_symbols f"
proof -
  have "map (\<lambda>t. (if is_map_entry (tree_message t) then []
           else [(message_full_name (tree_message t), message_cpp_name (tree_message t))])
         @ map (\<lambda>e. (enum_full_name e, enum_cpp_name e)) (nested_enums t)) (file_trees f)
    = map (\<lambda>t. if is_map_entry (tree_message t) then []
         else (message_full_name (tree_message t), message_cpp_name (tree_message t))
           # map (\<lambda>e. (enum_full_name e, enum_cpp_name e)) (nested_enums t)) (file_trees f)"
    by (rule map_cong [OF refl]) (use assms in \<open>auto simp: list_all_iff\<close>)
  then show ?thesis unfolding registered_types_def file_generated_cpp_symbols_def by (rule arg_cong)
qed

lemma distinct_of_submset: "mset ys \<subseteq># mset xs \<Longrightarrow> distinct xs \<Longrightarrow> distinct ys"
proof -
  assume sub: "mset ys \<subseteq># mset xs" and d: "distinct xs"
  have "count (mset ys) a \<le> 1" for a
    using mset_subset_eq_count [OF sub, of a] d [unfolded distinct_count_atmost_1] by (metis le_trans order.refl zero_le)
  then show ?thesis unfolding distinct_count_atmost_1
    by (metis count_mset_0_iff le_0_eq le_SucE One_nat_def)
qed

lemma concat_submset:
  "(\<And>x. x \<in> set xs \<Longrightarrow> mset (g x) \<subseteq># mset (h x)) \<Longrightarrow> mset (concat (map g xs)) \<subseteq># mset (concat (map h xs))"
proof (induction xs)
  case (Cons x xs)
  then have "mset (g x) \<subseteq># mset (h x)" "mset (concat (map g xs)) \<subseteq># mset (concat (map h xs))" by simp_all
  then show ?case by (simp add: subset_mset.add_mono)
qed simp

lemma registered_submset:
  assumes "list_all (\<lambda>t. is_map_entry (tree_message t) \<longrightarrow> nested_enums t = []) (file_trees f)"
  shows "mset (registered_paths d f) \<subseteq># mset (map (\<lambda>n. placed d f @ [n]) (names_of (file_declarations f)))"
proof -
  let ?g = "\<lambda>n. placed d f @ [n]"
  have "map ?g (names_of (file_declarations f)) =
      map (\<lambda>x. ?g (snd x)) (file_generated_cpp_symbols f) @ map (\<lambda>c. ?g (const_cpp_name c)) (model_constants f)
      @ map ?g (names_of (concat (map (\<lambda>e. map (\<lambda>n. (''enum helper'', enum_full_name e, n)) (enum_public_symbols e)) (model_enums f))))"
    unfolding file_declarations_def by (simp add: comp_def case_prod_unfold)
  then show ?thesis unfolding registered_paths_def registered_are_generated [OF assms] by simp
qed

lemma disjointD: "A \<inter> B = {} \<Longrightarrow> x \<in> A \<Longrightarrow> x \<in> B \<Longrightarrow> False"
  by blast

lemma reflection_check_passes:
  assumes places: "\<forall>f\<in>set files. has_place d f" and entries: "entries_hold_no_enums files"
    and ok: "declarations_apart d files"
  shows "validate_generated_reflection_symbols files d = Inr ()"
proof -
  let ?decl = "\<lambda>f. map (\<lambda>n. placed d f @ [n]) (names_of (file_declarations f))"
  let ?R = "concat (map (registered_paths d) files)" and ?S = "concat (map (reflection_paths d) files)"
  let ?places = "{reflection_place d f | f. f \<in> set files \<and> file_reflection_symbols f \<noteq> []}"
  have all: "declared_paths d files = concat (map ?decl files) @ ?S"
    unfolding declared_paths_def reflection_paths_def ..
  from ok have dist: "distinct (concat (map ?decl files) @ ?S)" and apart: "set (concat (map ?decl files) @ ?S) \<inter> opened_namespaces d files = {}"
    unfolding declarations_apart_def all by blast+
  have sub: "mset ?R \<subseteq># mset (concat (map ?decl files))"
    by (rule concat_submset, rule registered_submset) (use entries in \<open>auto simp: entries_hold_no_enums_def list_all_iff\<close>)
  have R: "set ?R \<subseteq> set (concat (map ?decl files))" by (rule set_mset_mono [OF sub, unfolded set_mset_mset])
  have distR: "distinct ?R" by (rule distinct_of_submset [OF sub]) (rule dist [unfolded distinct_append, THEN conjunct1])
  have "\<exists>k'. rfold (register_file d) files \<lparr>type_owners = [], constant_owners = [], reflection_owners = []\<rparr> = Inr k'
      \<and> owners_within ({} \<union> set ?R) k'"
  proof (rule rfold_fresh [where I = owners_within])
    show "owners_within {} \<lparr>type_owners = [], constant_owners = [], reflection_owners = []\<rparr>"
      by (simp add: owners_within_def owned_def dict_get_def)
  qed (use places distR within_file in auto)
  then obtain k1 where k1: "rfold (register_file d) files \<lparr>type_owners = [], constant_owners = [], reflection_owners = []\<rparr> = Inr k1"
    "owners_within (set ?R) k1" by auto
  have "\<exists>k'. rfold (register_reflection d) files k1 = Inr k' \<and> owners_apart ?places (set ?R \<union> set ?S) k'"
  proof (rule rfold_fresh [where I = "owners_apart ?places"])
    show "owners_apart ?places (set ?R) k1" by (rule owners_within_apart [OF k1(2)])
    show "distinct ?S" using dist by simp
    show "set ?S \<inter> set ?R = {}" using dist R by auto
    show "\<exists>k'. register_reflection d f k = Inr k' \<and> owners_apart ?places (A \<union> set (reflection_paths d f)) k'"
      if "f \<in> set files" "owners_apart ?places A k" "distinct (reflection_paths d f)" "set (reflection_paths d f) \<inter> A = {}" for f k A
      by (rule apart_file [OF _ that(2-4)]) (use places that(1) in auto)
  qed
  then obtain k2 where k2: "rfold (register_reflection d) files k1 = Inr k2" "owners_apart ?places (set ?R \<union> set ?S) k2" by blast
  have "\<not> owned (type_owners k2) (butlast ps) ''protocyte_reflection''" if "(ps, x) \<in> set (reflection_owners k2)" for ps x
  proof
    assume "owned (type_owners k2) (butlast ps) ''protocyte_reflection''"
    then have "butlast ps @ [''protocyte_reflection''] \<in> set ?R \<union> set ?S" using k2(2) unfolding owners_apart_def by blast
    then have here: "butlast ps @ [''protocyte_reflection''] \<in> set (concat (map ?decl files) @ ?S)" using R unfolding set_append by blast
    have "ps \<in> ?places" using k2(2) that unfolding owners_apart_def by (force simp only: image_subset_iff fst_conv)
    then obtain f where f: "f \<in> set files" "file_reflection_symbols f \<noteq> []" "ps = reflection_place d f" by blast
    then have opened: "ps \<in> opened_namespaces d files" unfolding opened_namespaces_def by blast
    have same: "butlast ps @ [''protocyte_reflection''] = ps" using f(3) by (simp add: reflection_place_def)
    from disjointD [OF apart here [unfolded same] opened] show False .
  qed
  then have "each (\<lambda>(ps, _). raise_if (owned (type_owners k2) (butlast ps) ''protocyte_reflection'')
       (Namespace_hits_symbol ''protocyte_reflection'' ps)) (reflection_owners k2) = Inr ()"
    by (auto simp: raise_if_def)
  then show ?thesis unfolding validate_generated_reflection_symbols_def by (simp add: k1(1) k2(1))
qed

section \<open>Headers that can be included together\<close>

lemma all_placed:
  assumes "distinct (map model_file_name files)" and "allocate_cpp_namespaces files nsp = Some (Inr d)" and "f \<in> set files"
  shows "has_place d f" and "placed d f = spelling [] [] (file_key nsp f)"
  using namespaces_spelled(1) [OF assms] by (simp_all add: has_place_def placed_def)

lemma cpp_names_decided:
  assumes "distinct (map model_file_name files)" and "entries_hold_no_enums files"
    and "allocate_cpp_namespaces files nsp = Some (Inr d)"
  shows "validate_generated_cpp_names files nsp = Some (Inr d) \<longleftrightarrow> declarations_apart d files"
proof -
  have places: "\<forall>f\<in>set files. has_place d f" using all_placed(1) [OF assms(1,3)] by blast
  note decide = scopes_decide [OF places]
  show ?thesis
  proof (cases "declarations_apart d files")
    case True
    then have "validate_generated_namespace_scopes files d = Inr ()" using decide by blast
    with True reflection_check_passes [OF places assms(2) True] assms(3) show ?thesis
      by (simp add: validate_generated_cpp_names_def sbind_def)
  next
    case False
    then have "validate_generated_namespace_scopes files d \<noteq> Inr ()" using decide by blast
    with False assms(3) show ?thesis by (simp add: validate_generated_cpp_names_def sbind_def)
  qed
qed

text \<open>
  C39: The generated headers of a request can be included in one program. The check of their C++ names
  accepts exactly the requests in which every declaration (type, constant, enum helper, reflection
  symbol) has a qualified name of its own, and none has the name of a namespace that is opened. The
  namespace of a header is spelled from its package alone, so separate runs agree on it, and different
  packages get different namespaces; outside the namespace of the runtime it is the package itself, and
  spelling never fails.
\<close>

theorem generated_declarations_are_apart:
  assumes "distinct (map model_file_name files)" and "entries_hold_no_enums files"
  shows "(validate_generated_cpp_names files nsp = Some (Inr d) \<longleftrightarrow>
        allocate_cpp_namespaces files nsp = Some (Inr d) \<and> declarations_apart d files)
    \<and> (allocate_cpp_namespaces files nsp = Some (Inr d) \<longrightarrow>
        (\<forall>f\<in>set files. placed d f = spelling [] [] (file_key nsp f)) \<and> inj_on (spelling [] []) (file_key nsp ` set files))
    \<and> ((\<forall>f\<in>set files. plain_path (file_key nsp f)) \<longrightarrow>
        (\<exists>d. allocate_cpp_namespaces files nsp = Some (Inr d) \<and> (\<forall>f\<in>set files. placed d f = file_key nsp f)))"
proof (intro conjI impI)
  have "allocate_cpp_namespaces files nsp = Some (Inr d)" if "validate_generated_cpp_names files nsp = Some (Inr d)"
    using that by (auto simp: validate_generated_cpp_names_def sbind_Inr)
  then show "validate_generated_cpp_names files nsp = Some (Inr d) \<longleftrightarrow>
      allocate_cpp_namespaces files nsp = Some (Inr d) \<and> declarations_apart d files"
    using cpp_names_decided [OF assms] by blast
next
  assume "allocate_cpp_namespaces files nsp = Some (Inr d)"
  then show "\<forall>f\<in>set files. placed d f = spelling [] [] (file_key nsp f)" "inj_on (spelling [] []) (file_key nsp ` set files)"
    using all_placed(2) [OF assms(1)] namespaces_spelled(2) [OF assms(1)] by blast+
next
  assume plain: "\<forall>f\<in>set files. plain_path (file_key nsp f)"
  from plain_namespaces [OF this] obtain d where d: "allocate_cpp_namespaces files nsp = Some (Inr d)" by blast
  moreover have "placed d f = file_key nsp f" if "f \<in> set files" for f
    using all_placed(2) [OF assms(1) d that] plain_spelling [of "[]" "file_key nsp f" "[]"] plain that by simp
  ultimately show "\<exists>d. allocate_cpp_namespaces files nsp = Some (Inr d) \<and> (\<forall>f\<in>set files. placed d f = file_key nsp f)" by blast
qed

definition two_files :: "string \<Rightarrow> FileModel list" where
  \<comment> \<open>the package \<open>a.b\<close>, and the package \<open>a\<close> with a message of the given name\<close>
  "two_files n = [(item_file [''Item'', ''Order''])\<lparr>model_file_name := ''x'', model_package := ''a.b''\<rparr>,
     (item_file [n])\<lparr>model_file_name := ''y'', model_package := ''a''\<rparr>]"

lemma two_files_shape:
  obtains f g where "two_files n = [f, g]" "model_file_name f \<noteq> model_file_name g" "entries_hold_no_enums [f, g]"
    "file_key None f = [''a'', ''b'']" "file_key None g = [''a'']"
    "names_of (file_declarations f) = [''Item'', ''Order'']" "names_of (file_declarations g) = [n]"
    "map snd (file_reflection_symbols f) = [''Item_fields'', ''Order_fields'']"
    "map snd (file_reflection_symbols g) = [cpp_suffix_identifier n ''fields'']"
proof
  let ?f = "(item_file [''Item'', ''Order''])\<lparr>model_file_name := ''x'', model_package := ''a.b''\<rparr>"
  let ?g = "(item_file [n])\<lparr>model_file_name := ''y'', model_package := ''a''\<rparr>"
  show "two_files n = [?f, ?g]" by (simp add: two_files_def)
  show "model_file_name ?f \<noteq> model_file_name ?g" by simp
  show "entries_hold_no_enums [?f, ?g]"
    by (simp add: entries_hold_no_enums_def file_trees_def item_file_def item_tree_def)
  have "cpp_package_key ''a.b'' = [''a'', ''b'']" "cpp_package_key ''a'' = [''a'']" by code_simp+
  then show "file_key None ?f = [''a'', ''b'']" "file_key None ?g = [''a'']" by (simp_all add: cpp_symbol_scope_key_def)
  show "names_of (file_declarations ?f) = [''Item'', ''Order'']" "names_of (file_declarations ?g) = [n]"
    by (simp_all add: file_declarations_def file_generated_cpp_symbols_def file_trees_def item_file_def item_tree_def)
  have "cpp_suffix_identifier ''Item'' ''fields'' = ''Item_fields''" "cpp_suffix_identifier ''Order'' ''fields'' = ''Order_fields''"
    by code_simp+
  then show "map snd (file_reflection_symbols ?f) = [''Item_fields'', ''Order_fields'']"
    "map snd (file_reflection_symbols ?g) = [cpp_suffix_identifier n ''fields'']"
    by (simp_all add: file_reflection_symbols_def file_enums_def file_trees_def item_file_def item_tree_def reflection_name_def)
qed

lemma two_files_apart:
  assumes places: "\<forall>f\<in>set (two_files n). placed d f = file_key None f"
  shows "declarations_apart d (two_files n) \<longleftrightarrow> n \<notin> {''b'', ''protocyte_reflection''}"
proof -
  obtain f g where fg: "two_files n = [f, g]" "file_key None f = [''a'', ''b'']" "file_key None g = [''a'']"
    and decls: "names_of (file_declarations f) = [''Item'', ''Order'']" "names_of (file_declarations g) = [n]"
    and refls: "map snd (file_reflection_symbols f) = [''Item_fields'', ''Order_fields'']"
      "map snd (file_reflection_symbols g) = [cpp_suffix_identifier n ''fields'']"
    by (rule two_files_shape)
  have at: "placed d f = [''a'', ''b'']" "placed d g = [''a'']" using places fg by simp_all
  have some: "file_reflection_symbols f \<noteq> []" "file_reflection_symbols g \<noteq> []" using refls by auto
  have paths: "declared_paths d (two_files n) = [[''a'', ''b'', ''Item''], [''a'', ''b'', ''Order''], [''a'', n],
      [''a'', ''b'', ''protocyte_reflection'', ''Item_fields''], [''a'', ''b'', ''protocyte_reflection'', ''Order_fields''],
      [''a'', ''protocyte_reflection'', cpp_suffix_identifier n ''fields'']]"
    unfolding declared_paths_def fg(1) reflection_place_def by (simp add: decls refls at del: map_map)
  have opened: "opened_namespaces d (two_files n)
      = {q. prefix q [''a'', ''b'', ''protocyte_reflection''] \<or> prefix q [''a'', ''protocyte_reflection'']}"
    unfolding opened_namespaces_def fg(1) reflection_place_def using some by (auto simp: at prefix_Cons)
  show ?thesis unfolding declarations_apart_def paths opened by (auto simp: prefix_Cons)
qed

lemma generated_declarations_are_apart_witness:
  "(\<exists>d. validate_generated_cpp_names (two_files ''Item'') None = Some (Inr d)) \<and>
   \<not> (\<exists>d. validate_generated_cpp_names (two_files ''b'') None = Some (Inr d))"
proof -
  have ok: "distinct (map model_file_name (two_files n))" "entries_hold_no_enums (two_files n)"
    "\<forall>f\<in>set (two_files n). plain_path (file_key None f)" for n
  proof -
    obtain f g where fg: "two_files n = [f, g]" "model_file_name f \<noteq> model_file_name g" "entries_hold_no_enums [f, g]"
      "file_key None f = [''a'', ''b'']" "file_key None g = [''a'']" by (rule two_files_shape)
    have "plain_path [''a'', ''b'']" "plain_path [''a'']" by code_simp+
    with fg show "distinct (map model_file_name (two_files n))" "entries_hold_no_enums (two_files n)"
      "\<forall>f\<in>set (two_files n). plain_path (file_key None f)" by simp_all
  qed
  have run: "(\<exists>d. validate_generated_cpp_names (two_files n) None = Some (Inr d)) \<longleftrightarrow> n \<notin> {''b'', ''protocyte_reflection''}" for n
  proof -
    from generated_declarations_are_apart [OF ok(1,2) [of n], of None] ok(3) [of n]
    obtain d where d: "allocate_cpp_namespaces (two_files n) None = Some (Inr d)"
      "\<forall>f\<in>set (two_files n). placed d f = file_key None f" by blast
    have "(\<exists>d. validate_generated_cpp_names (two_files n) None = Some (Inr d)) \<longleftrightarrow> declarations_apart d (two_files n)"
      using generated_declarations_are_apart [OF ok(1,2) [of n], of None] d(1) by auto
    then show ?thesis unfolding two_files_apart [OF d(2)] .
  qed
  show ?thesis unfolding run by simp
qed

end
