(* ===== verification/Bytes.thy ===== *)
theory Bytes
  imports Prelude
begin

text \<open>
  Hexadecimal digits and UTF-8, as Python's \<^verbatim>\<open>bytes.fromhex\<close> and \<^verbatim>\<open>bytes.decode("utf-8")\<close> read them.
\<close>

section \<open>Digits\<close>

definition is_hex_digit :: "char \<Rightarrow> bool" where
  "is_hex_digit c = List.member ''0123456789abcdefABCDEF'' c"

definition digit_value :: "char \<Rightarrow> nat" where
  "digit_value c = (let n = byte_of c in if n < 58 then n - 48 else if n < 91 then n - 55 else n - 87)"

definition number_of :: "nat \<Rightarrow> string \<Rightarrow> nat" where
  \<comment> \<open>\<^verbatim>\<open>int(digits, base)\<close>\<close>
  "number_of base ds = foldl (\<lambda>n c. n * base + digit_value c) 0 ds"

definition is_ascii_space :: "char \<Rightarrow> bool" where
  "is_ascii_space c = (List.member [9, 10, 11, 12, 13, 32] (byte_of c))"

fun fromhex :: "string \<Rightarrow> string option" where
  \<comment> \<open>\<^verbatim>\<open>bytes.fromhex\<close>, which skips white space between bytes; \<open>None\<close> for \<^verbatim>\<open>ValueError\<close>\<close>
  "fromhex [] = Some []"
| "fromhex [c] = (if is_ascii_space c then Some [] else None)"
| "fromhex (c # d # s) =
     (if is_ascii_space c then fromhex (d # s)
      else if is_hex_digit c \<and> is_hex_digit d then map_option ((#) (char_of (digit_value c * 16 + digit_value d))) (fromhex s)
      else None)"

section \<open>UTF-8\<close>

fun valid_utf8 :: "string \<Rightarrow> bool" where
  \<comment> \<open>what \<^verbatim>\<open>bytes.decode("utf-8")\<close> accepts\<close>
  "valid_utf8 [] = True"
| "valid_utf8 (a # s) =
     (let n = byte_of a in
      if n < 0x80 then valid_utf8 s
      else (case s of
        b # s1 \<Rightarrow>
          (let m = byte_of b in
           if 0xC2 \<le> n \<and> n < 0xE0 then is_continuation b \<and> valid_utf8 s1
           else (case s1 of
             c # s2 \<Rightarrow>
               if 0xE0 \<le> n \<and> n < 0xF0 then
                 is_continuation b \<and> is_continuation c \<and> \<not> (n = 0xE0 \<and> m < 0xA0) \<and> \<not> (n = 0xED \<and> 0xA0 \<le> m) \<and> valid_utf8 s2
               else (case s2 of
                 d # s3 \<Rightarrow> 0xF0 \<le> n \<and> n < 0xF5 \<and> is_continuation b \<and> is_continuation c \<and> is_continuation d
                   \<and> \<not> (n = 0xF0 \<and> m < 0x90) \<and> \<not> (n = 0xF4 \<and> 0x90 \<le> m) \<and> valid_utf8 s3
               | [] \<Rightarrow> False)
           | [] \<Rightarrow> False))
      | [] \<Rightarrow> False))"

section \<open>Digits are read back\<close>

lemma hex_digits_small:
  "list_all (\<lambda>n. digit_value (hex_lower n) = n \<and> is_hex_digit (hex_lower n) \<and> \<not> is_ascii_space (hex_lower n)) [0..<16]"
  by code_simp

lemma hex_digit_value:
  assumes "n < 16"
  shows "digit_value (hex_lower n) = n" and "is_hex_digit (hex_lower n)" and "\<not> is_ascii_space (hex_lower n)"
  using hex_digits_small assms by (auto simp: list_all_iff)

lemma char_of_byte_of: "char_of (byte_of c) = c"
  by (simp add: byte_of_def)

lemma fromhex_hex_of: "fromhex (hex_of s) = Some s"
proof (induction s)
  case (Cons c s)
  have "byte_of c mod 16 < 16" by simp
  note d = hex_digit_value [OF byte_div16, of c] hex_digit_value [OF this]
  show ?case by (simp add: hex_of_Cons hex_byte_def d Cons char_of_byte_of)
qed simp

end
