(* ===== verification/ImportScanner.thy ===== *)
theory ImportScanner
  imports Graph Bytes
begin

text \<open>
  \<^verbatim>\<open>src/protocyte/import_scanner.py\<close>: the scan of \<^verbatim>\<open>.proto\<close> sources that tells CMake which files a build
  depends on, without running the protobuf compiler. Positions in a source are the text that is left
  from them. The file system is a dictionary of its regular files, the host a \<open>platform\<close>, whose
  \<open>normalized\<close> is Windows' \<^verbatim>\<open>os.path.normpath\<close>.
\<close>

section \<open>String literals\<close>

definition is_identifier_start :: "char \<Rightarrow> bool" where
  "is_identifier_start c = (c = CHR ''_'' \<or> is_alpha_ascii c)"

definition is_identifier_continue :: "char \<Rightarrow> bool" where
  "is_identifier_continue c = (is_identifier_start c \<or> is_digit_ascii c)"

definition is_octal_digit :: "char \<Rightarrow> bool" where
  "is_octal_digit c = (48 \<le> byte_of c \<and> byte_of c \<le> 55)"

definition backslash :: char where
  "backslash = CHR 0x5C"

definition hex_digits :: "nat \<Rightarrow> nat \<Rightarrow> string" where
  \<comment> \<open>the last digits of a number, \<^verbatim>\<open>f"{n:0wx}"\<close> for a number that fits\<close>
  "hex_digits w n = map (\<lambda>k. hex_lower (n div 16 ^ k mod 16)) (rev [0..<w])"

definition encode_unicode_point :: "nat \<Rightarrow> string" where
  "encode_unicode_point n =
     (if n \<le> 0x7F then [char_of n]
      else if n \<le> 0x7FF then [char_of (0xC0 + n div 64), char_of (0x80 + n mod 64)]
      else if n \<le> 0xFFFF then [char_of (0xE0 + n div 4096), char_of (0x80 + n div 64 mod 64), char_of (0x80 + n mod 64)]
      else if n \<le> 0x10FFFF then [char_of (0xF0 + n div 262144), char_of (0x80 + n div 4096 mod 64),
        char_of (0x80 + n div 64 mod 64), char_of (0x80 + n mod 64)]
      else [backslash, CHR ''U''] @ hex_digits 8 n)"

definition low_surrogate :: "string \<Rightarrow> nat option" where
  \<comment> \<open>the value of a low surrogate the text starts with\<close>
  "low_surrogate s =
     (let ds = take 4 (drop 2 s) in
      if startswith s [backslash, CHR ''u''] \<and> length ds = 4 \<and> list_all is_hex_digit ds
         \<and> 0xDC00 \<le> number_of 16 ds \<and> number_of 16 ds < 0xE000
      then Some (number_of 16 ds) else None)"

definition decode_unicode_escape :: "char \<Rightarrow> string \<Rightarrow> (string \<times> string) option" where
  \<comment> \<open>of the letter and what follows it: the text that is left and the bytes\<close>
  "decode_unicode_escape letter s =
     (let width = (if letter = CHR ''u'' then 4 else 8); ds = take width s; rest = drop width s; n = number_of 16 ds in
      if length ds < width \<or> \<not> list_all is_hex_digit ds then None
      else (case (if 0xD800 \<le> n \<and> n < 0xDC00 then low_surrogate rest else None) of
          Some trail \<Rightarrow> Some (drop 6 rest, encode_unicode_point (0x10000 + (n - 0xD800) * 1024 + trail - 0xDC00))
        | None \<Rightarrow> Some (rest, encode_unicode_point n)))"

definition simple_escape :: "char \<Rightarrow> char" where
  "simple_escape e = (case map_of [(CHR ''a'', 7), (CHR ''b'', 8), (CHR ''f'', 12), (CHR ''n'', 10), (CHR ''r'', 13),
     (CHR ''t'', 9), (CHR ''v'', 11 :: nat)] e of None \<Rightarrow> e | Some n \<Rightarrow> char_of n)"

lemma decode_unicode_shorter: "decode_unicode_escape l s = Some (rest, b) \<Longrightarrow> length rest \<le> length s"
  by (auto simp: decode_unicode_escape_def Let_def split: if_splits option.splits)

function decode_string :: "char \<Rightarrow> bool \<Rightarrow> string \<Rightarrow> string \<Rightarrow> string \<times> string option" where
  \<comment> \<open>after the opening quote: the text that is left, and the bytes of a literal that is closed\<close>
  "decode_string quote capture [] v = ([], None)"
| "decode_string quote capture (c # s) v =
     (if c = backslash then
        (case s of
           [] \<Rightarrow> ([], None)
         | e # t \<Rightarrow>
             if \<not> capture then decode_string quote capture t v
             else if e = CHR ''x'' \<or> e = CHR ''X'' then
               (let ds = takeWhile is_hex_digit (take 2 t) in
                if ds = [] then decode_string quote capture t (v @ [e])
                else decode_string quote capture (drop (length ds) t) (v @ [char_of (number_of 16 ds mod 256)]))
             else if e = CHR ''u'' \<or> e = CHR ''U'' then
               (case decode_unicode_escape e t of
                  None \<Rightarrow> decode_string quote capture t (v @ [e])
                | Some (rest, b) \<Rightarrow> decode_string quote capture rest (v @ b))
             else if is_octal_digit e then
               (let ds = takeWhile is_octal_digit (take 2 t) in
                decode_string quote capture (drop (length ds) t) (v @ [char_of (number_of 8 (e # ds) mod 256)]))
             else decode_string quote capture t (v @ [simple_escape e]))
      else if c = quote then (s, Some v)
      else decode_string quote capture s (if capture then v @ [c] else v))"
  by pat_completeness auto
termination
  by (relation "measure (\<lambda>(q, k, s, v). length s)") (auto simp: less_Suc_eq_le dest: decode_unicode_shorter)

lemma decode_string_shorter: "length (fst (decode_string q k s v)) \<le> length s"
proof (induction "length s" arbitrary: s v rule: less_induct)
  case less
  show ?case
  proof (cases s)
    case (Cons c s')
    have short: "length (fst (decode_string q k r w)) \<le> length s" if "length r \<le> length s'" for r w
      using less [of r w] that by (simp add: Cons)
    show ?thesis
    proof (cases "c = backslash \<and> s' \<noteq> []")
      case False
      then show ?thesis using short [of s'] by (auto simp: Cons)
    next
      case True
      then obtain e t where s': "s' = e # t" by (cases s') auto
      have tail: "length (fst (decode_string q k (drop n t) w)) \<le> length s" for n w by (rule short) (simp add: s')
      have whole: "length (fst (decode_string q k t w)) \<le> length s" for w by (rule short) (simp add: s')
      have uni: "length (fst (decode_string q k r w)) \<le> length s" if "decode_unicode_escape e t = Some (r, b)" for r b w
        by (rule short) (use decode_unicode_shorter [OF that] s' in simp)
      show ?thesis unfolding Cons s' decode_string.simps(2) if_P [OF conjunct1 [OF True]] list.case
        using tail whole uni unfolding Cons s' by (cases k) (simp_all add: Let_def split: option.split)
    qed
  qed simp
qed

section \<open>Import statements\<close>

datatype expectation = NoExpectation | QualifierOrString | StringOnly | AdjacentStringOrEnd

definition newline :: char where
  "newline = char_of (10 :: nat)"

definition is_blank :: "char \<Rightarrow> bool" where
  "is_blank c = List.member [32, 9, 13, 10, 11, 12] (byte_of c)"

fun after_comment :: "string \<Rightarrow> string" where
  \<comment> \<open>the text after the first \<open>*/\<close>\<close>
  "after_comment [] = []"
| "after_comment (c # s) = (if startswith (c # s) ''*/'' then drop 2 (c # s) else after_comment s)"

lemma after_comment_shorter: "length (after_comment s) \<le> length s"
  by (induction s rule: after_comment.induct) auto

definition read_identifier :: "string \<Rightarrow> expectation \<Rightarrow> string \<Rightarrow> expectation \<times> string" where
  \<comment> \<open>the new expectation and import name\<close>
  "read_identifier ident ex name =
     (if ex = NoExpectation \<and> ident = ''import'' then (QualifierOrString, [])
      else if ex = QualifierOrString \<and> List.member [''option'', ''public'', ''weak''] ident then (StringOnly, name)
      else (NoExpectation, []))"

function import_names_from :: "string \<Rightarrow> expectation \<Rightarrow> string \<Rightarrow> string list \<Rightarrow> string list" where
  "import_names_from [] ex name found = found"
| "import_names_from (c # s) ex name found =
     (if c = CHR ''/'' \<and> startswith s ''/'' then import_names_from (dropWhile (\<lambda>x. x \<noteq> newline) (drop 1 s)) ex name found
      else if c = CHR ''/'' \<and> startswith s ''*'' then import_names_from (after_comment (drop 1 s)) ex name found
      else if is_identifier_start c then
        (let (ex', name') = read_identifier (c # takeWhile is_identifier_continue s) ex name
         in import_names_from (dropWhile is_identifier_continue s) ex' name' found)
      else if c = CHR 0x22 \<or> c = CHR 0x27 then
        (let (rest, v) = decode_string c (ex \<noteq> NoExpectation) s [] in
         (case v of
            Some b \<Rightarrow> if ex \<noteq> NoExpectation then import_names_from rest AdjacentStringOrEnd (name @ b) found
              else import_names_from rest NoExpectation [] found
          | None \<Rightarrow> import_names_from rest NoExpectation [] found))
      else if is_blank c then import_names_from s ex name found
      else if c = CHR '';'' then
        import_names_from s NoExpectation [] (if ex = AdjacentStringOrEnd then found @ [name] else found)
      else import_names_from s NoExpectation [] found)"
  by pat_completeness auto
termination
proof (relation "measure (\<lambda>(s, ex, name, found). length s)")
  show "((dropWhile (\<lambda>x. x \<noteq> newline) (drop 1 s), ex, name, found), (c # s, ex, name, found))
      \<in> measure (\<lambda>(s, ex, name, found). length s)" for c s and ex :: expectation and name :: string and found :: "string list"
    using length_dropWhile_le [of "\<lambda>x. x \<noteq> newline" "drop 1 s"] by simp
  show "((after_comment (drop 1 s), ex, name, found), (c # s, ex, name, found))
      \<in> measure (\<lambda>(s, ex, name, found). length s)" for c s and ex :: expectation and name :: string and found :: "string list"
    using after_comment_shorter [of "drop 1 s"] by simp
  show "((dropWhile is_identifier_continue s, ex', name', found), (c # s, ex, name, found))
      \<in> measure (\<lambda>(s, ex, name, found). length s)"
    for c s and ex ex' :: expectation and name name' :: string and found :: "string list"
    using length_dropWhile_le [of is_identifier_continue s] by simp
qed (auto simp: less_Suc_eq_le, (metis decode_string_shorter fst_conv)+)

definition import_names :: "string \<Rightarrow> string list" where
  "import_names data = import_names_from data NoExpectation [] []"

section \<open>Virtual paths\<close>

record platform =
  windows :: bool
  cygwin :: bool
  normalized :: "string \<Rightarrow> string"

definition to_slashes :: "string \<Rightarrow> string" where
  "to_slashes p = map (\<lambda>c. if c = backslash then CHR ''/'' else c) p"

definition canonicalize_virtual_path :: "platform \<Rightarrow> string \<Rightarrow> string" where
  "canonicalize_virtual_path w p =
     (let p' = (if windows w then
                  (if startswith p [backslash, backslash] then [backslash, backslash] @ to_slashes (drop 2 p) else to_slashes p)
                else p)
      in join ''/'' ((if startswith p' ''/'' then [[]] else [])
           @ filter (\<lambda>q. q \<noteq> [] \<and> q \<noteq> ''.'') (split_on CHR ''/'' p')
           @ (if endswith p' ''/'' then [[]] else [])))"

definition is_windows_absolute_path :: "platform \<Rightarrow> string \<Rightarrow> bool" where
  "is_windows_absolute_path w p =
     ((windows w \<or> cygwin w) \<and> (case p of
        a # b # c # r \<Rightarrow> b = CHR '':'' \<and> is_alpha_ascii a \<and> (c = CHR ''/'' \<or> c = backslash) \<and> \<not> List.member (c # r) CHR '':''
      | _ \<Rightarrow> False))"

definition is_canonical_virtual_path :: "platform \<Rightarrow> string \<Rightarrow> bool" where
  "is_canonical_virtual_path w p =
     (p \<noteq> [] \<and> \<not> endswith p ''/'' \<and> p = canonicalize_virtual_path w p \<and> \<not> List.member (split_on CHR ''/'' p) ''..''
      \<and> \<not> startswith p ''/'' \<and> \<not> is_windows_absolute_path w p)"

definition is_masked_windows_parent_path :: "platform \<Rightarrow> string \<Rightarrow> bool" where
  "is_masked_windows_parent_path w p =
     (windows w \<and> startswith p [backslash, backslash] \<and> List.member [''.'', ''..''] (first_part CHR ''/'' (drop 2 p)))"

definition map_virtual_path :: "platform \<Rightarrow> string \<Rightarrow> string \<Rightarrow> string" where
  "map_virtual_path w root p =
     (let has_separator = endswith root ''/'' \<or> windows w \<and> endswith root [backslash];
          candidate = root @ (if has_separator then [] else ''/'') @ p
      in if windows w then to_slashes (normalized w candidate) else candidate)"

section \<open>The closure of a set of sources\<close>

type_synonym import_edge = "string \<times> string option \<times> string list"

datatype scan_error = Unsafe_virtual_import_path | No_such_source string

definition PROTOC_OPTIONS_IMPORT :: string where
  "PROTOC_OPTIONS_IMPORT = ''protocyte/options.proto''"

definition PROTOBUF_IMPORT_PREFIX :: string where
  "PROTOBUF_IMPORT_PREFIX = ''google/protobuf/''"

definition is_protobuf_import :: "string \<Rightarrow> bool" where
  "is_protobuf_import n = (n = PROTOC_OPTIONS_IMPORT \<or> startswith n PROTOBUF_IMPORT_PREFIX)"

definition resolve_import :: "platform \<Rightarrow> (string, string) dict \<Rightarrow> string list \<Rightarrow> string \<Rightarrow> import_edge" where
  "resolve_import w files roots name =
     (let candidates = map (\<lambda>r. map_virtual_path w r name) roots in
      (name, (case filter (\<lambda>c. map_of files c \<noteq> None) candidates of [] \<Rightarrow> None | c # _ \<Rightarrow> Some c), candidates))"

record import_scan =
  requires_protobuf :: bool
  edges_found :: "import_edge list"
  sources_found :: "string list" \<comment> \<open>to append to the pending sources\<close>

definition scan_import :: "platform \<Rightarrow> (string, string) dict \<Rightarrow> string list \<Rightarrow> string \<Rightarrow> import_scan \<Rightarrow> scan_error + import_scan" where
  "scan_import w files roots name k =
     (if is_masked_windows_parent_path w name then Inl Unsafe_virtual_import_path
      else if \<not> is_canonical_virtual_path w name then Inr k
      else let k' = (if is_protobuf_import name then k\<lparr>requires_protobuf := True\<rparr> else k) in
        if List.member name (char_of (0 :: nat)) \<or> \<not> valid_utf8 name then Inr k'
        else let e = resolve_import w files roots name in
          Inr (k'\<lparr>edges_found := edges_found k' @ [e],
            sources_found := sources_found k' @ (case fst (snd e) of None \<Rightarrow> [] | Some c \<Rightarrow> [c])\<rparr>))"

definition scan_source :: "platform \<Rightarrow> (string, string) dict \<Rightarrow> string list \<Rightarrow> string \<Rightarrow> scan_error + import_scan" where
  "scan_source w files roots f = (case map_of files f of
     None \<Rightarrow> Inl (No_such_source f)
   | Some data \<Rightarrow> rfold (scan_import w files roots) (import_names data)
       \<lparr>requires_protobuf = False, edges_found = [], sources_found = []\<rparr>)"

definition source_successors :: "platform \<Rightarrow> (string, string) dict \<Rightarrow> string list \<Rightarrow> string \<Rightarrow> string list" where
  "source_successors w files roots f = (case scan_source w files roots f of Inl _ \<Rightarrow> [] | Inr k \<Rightarrow> sources_found k)"

interpretation source_graph: finite_successors "fst ` set files" "source_successors w files roots"
  for w files roots
  by unfold_locales (simp_all add: source_successors_def scan_source_def map_of_eq_None_iff [THEN iffD2])

function closure_loop :: "platform \<Rightarrow> (string, string) dict \<Rightarrow> string list \<Rightarrow> string list \<Rightarrow> string set
    \<Rightarrow> bool \<times> string list \<times> import_edge list \<Rightarrow> scan_error + bool \<times> string list \<times> import_edge list" where
  "closure_loop w files roots [] seen result = Inr result"
| "closure_loop w files roots (f # pending) seen result =
     (if f \<in> seen then closure_loop w files roots pending seen result
      else (case scan_source w files roots f of
          Inl e \<Rightarrow> Inl e
        | Inr k \<Rightarrow> (case result of (flag, closure, edges) \<Rightarrow>
            closure_loop w files roots (pending @ sources_found k) (insert f seen)
              (flag \<or> requires_protobuf k, closure @ [f], edges @ edges_found k))))"
  by pat_completeness auto
termination
proof (relation "{((w', g', r', p', i', x'), (w, g, r, p, i, x)). w' = w \<and> g' = g \<and> r' = r \<and> ((p', i'), (p, i)) \<in> source_graph.work_order g}")
  show "wf {((w' :: platform, g' :: (string, string) dict, r' :: string list, p', i', x' :: bool \<times> string list \<times> import_edge list), (w, g, r, p, i, x :: bool \<times> string list \<times> import_edge list)).
      w' = w \<and> g' = g \<and> r' = r \<and> ((p', i'), (p, i)) \<in> source_graph.work_order g}"
    unfolding source_graph.work_order_def
    by (rule wf_subset [OF wf_measures [of "[\<lambda>(w, g, r, p, i, x). card (fst ` set g - i), \<lambda>(w, g, r, p, i, x). length p]"]]) auto
  show "((w, files, roots, pending, seen, result), (w, files, roots, f # pending, seen, result))
      \<in> {((w', g', r', p', i', x'), (w, g, r, p, i, x)). w' = w \<and> g' = g \<and> r' = r \<and> ((p', i'), (p, i)) \<in> source_graph.work_order g}"
    for w files roots f pending seen and result :: "bool \<times> string list \<times> import_edge list"
    by (simp add: source_graph.work_order_skip)
  show "((w, files, roots, pending @ sources_found k, insert f seen, x'), (w, files, roots, f # pending, seen, result))
      \<in> {((w', g', r', p', i', x'), (w, g, r, p, i, x)). w' = w \<and> g' = g \<and> r' = r \<and> ((p', i'), (p, i)) \<in> source_graph.work_order g}"
    if "f \<notin> seen" "scan_source w files roots f = Inr k"
    for w files roots f pending seen k and x' result :: "bool \<times> string list \<times> import_edge list"
  proof -
    have "((pending @ source_successors w files roots f, insert f seen), (f # pending, seen)) \<in> source_graph.work_order files"
      using that(1) by (rule source_graph.work_order_visit(2))
    then show ?thesis using that(2) by (simp add: source_successors_def)
  qed
qed

definition scan_source_closure_trace :: "platform \<Rightarrow> (string, string) dict \<Rightarrow> string list \<Rightarrow> string list
    \<Rightarrow> scan_error + bool \<times> string list \<times> import_edge list" where
  "scan_source_closure_trace w files sources roots = closure_loop w files roots sources {} (False, [], [])"

definition source_closure_requires_protobuf_imports :: "platform \<Rightarrow> (string, string) dict \<Rightarrow> string list \<Rightarrow> string list \<Rightarrow> scan_error + bool" where
  "source_closure_requires_protobuf_imports w files sources roots =
     rbind (scan_source_closure_trace w files sources roots) (\<lambda>(flag, _). Inr flag)"

section \<open>Patterns for CMake\<close>

definition cmake_glob_pattern :: "string \<Rightarrow> string option" where
  "cmake_glob_pattern p =
     (if list_ex (\<lambda>c. c = CHR 0x22 \<or> c = backslash \<or> byte_of c < 32 \<or> byte_of c = 127) p then None
      else Some (concat (map (\<lambda>c. if List.member ''[]*?$'' c then [CHR ''['', c, CHR '']''] else [c]) p)))"

end
