(* ===== verification/ImportScannerSpec.thy ===== *)
theory ImportScannerSpec
  imports ImportScanner
begin

text \<open>
  What the import scanner finds. A source is printed from its statements, with any white space and
  comments between tokens and any of the spellings the language has for the bytes of a string; the
  scanner reads back the imports. The closure of a set of sources is then reachability along imports.
\<close>

section \<open>Sources\<close>

datatype piece = Plain char | Octal char | Hex char | Escaped char | CodePoint nat

fun piece_ok :: "char \<Rightarrow> piece \<Rightarrow> bool" where
  "piece_ok q (Plain c) = (c \<noteq> q \<and> c \<noteq> backslash)"
| "piece_ok q (Octal c) = True"
| "piece_ok q (Hex c) = True"
| "piece_ok q (Escaped e) = (e \<notin> {CHR ''x'', CHR ''X'', CHR ''u'', CHR ''U''} \<and> \<not> is_octal_digit e)"
| "piece_ok q (CodePoint n) = (n < 0xD800 \<or> 0xE000 \<le> n \<and> n < 0x10000)"

fun piece_text :: "piece \<Rightarrow> string" where
  "piece_text (Plain c) = [c]"
| "piece_text (Octal c) = [backslash, hex_lower (byte_of c div 64), hex_lower (byte_of c div 8 mod 8), hex_lower (byte_of c mod 8)]"
| "piece_text (Hex c) = [backslash, CHR ''x'', hex_lower (byte_of c div 16), hex_lower (byte_of c mod 16)]"
| "piece_text (Escaped e) = [backslash, e]"
| "piece_text (CodePoint n) = [backslash, CHR ''u''] @ hex_digits 4 n"

fun piece_bytes :: "piece \<Rightarrow> string" where
  "piece_bytes (Plain c) = [c]"
| "piece_bytes (Octal c) = [c]"
| "piece_bytes (Hex c) = [c]"
| "piece_bytes (Escaped e) = [simple_escape e]"
| "piece_bytes (CodePoint n) = encode_unicode_point n"

datatype trivia = Blank char | LineComment string | BlockComment string

fun trivia_ok :: "trivia \<Rightarrow> bool" where
  "trivia_ok (Blank c) = is_blank c"
| "trivia_ok (LineComment s) = (newline \<notin> set s)"
| "trivia_ok (BlockComment s) = (\<not> occurs_in ''*/'' s)"

fun trivia_text :: "trivia \<Rightarrow> string" where
  "trivia_text (Blank c) = [c]"
| "trivia_text (LineComment s) = ''//'' @ s @ [newline]"
| "trivia_text (BlockComment s) = ''/*'' @ s @ ''*/''"

datatype token = Word string | Literal char "piece list" | Punct char

fun token_ok :: "token \<Rightarrow> bool" where
  "token_ok (Word w) = (w \<noteq> [] \<and> is_identifier_start (hd w) \<and> list_all is_identifier_continue w)"
| "token_ok (Literal q ps) = ((q = CHR 0x22 \<or> q = CHR 0x27) \<and> list_all (piece_ok q) ps)"
| "token_ok (Punct c) = (\<not> is_identifier_start c \<and> c \<noteq> CHR 0x22 \<and> c \<noteq> CHR 0x27 \<and> \<not> is_blank c \<and> c \<noteq> CHR ''/'')"

fun token_text :: "token \<Rightarrow> string" where
  "token_text (Word w) = w"
| "token_text (Literal q ps) = q # concat (map piece_text ps) @ [q]"
| "token_text (Punct c) = [c]"

datatype statement = ImportStatement "string option" "(char \<times> piece list) list" | ImportAsName char | Other token

fun statement_tokens :: "statement \<Rightarrow> token list" where
  "statement_tokens (ImportStatement m ls) = Word ''import'' # (case m of None \<Rightarrow> [] | Some w \<Rightarrow> [Word w])
     @ map (\<lambda>(q, ps). Literal q ps) ls @ [Punct CHR '';'']"
| "statement_tokens (ImportAsName c) = [Word ''import'', Punct c]"
| "statement_tokens (Other t) = [t]"

fun statement_ok :: "statement \<Rightarrow> bool" where
  "statement_ok (ImportStatement m ls) = (m \<in> {None, Some ''option'', Some ''public'', Some ''weak''} \<and> ls \<noteq> []
     \<and> (\<forall>(q, ps)\<in>set ls. token_ok (Literal q ps)))"
| "statement_ok (ImportAsName c) = token_ok (Punct c)"
| "statement_ok (Other t) = (token_ok t \<and> t \<noteq> Word ''import'')"

definition imported :: "(char \<times> piece list) list \<Rightarrow> string" where
  "imported ls = concat (map (\<lambda>(q, ps). concat (map piece_bytes ps)) ls)"

definition statement_imports :: "statement \<Rightarrow> string list" where
  "statement_imports st = (case st of ImportStatement m ls \<Rightarrow> [imported ls] | _ \<Rightarrow> [])"

record proto_source =
  leading :: "trivia list"
  statements :: "statement list"
  gaps :: "trivia list list" \<comment> \<open>after each token\<close>

definition source_tokens :: "proto_source \<Rightarrow> token list" where
  "source_tokens p = concat (map statement_tokens (statements p))"

definition source_ok :: "proto_source \<Rightarrow> bool" where
  \<comment> \<open>words are followed by something that separates them\<close>
  "source_ok p \<longleftrightarrow> list_all statement_ok (statements p) \<and> list_all trivia_ok (leading p)
     \<and> list_all2 (\<lambda>t g. list_all trivia_ok g \<and> (case t of Word _ \<Rightarrow> g \<noteq> [] | _ \<Rightarrow> True)) (source_tokens p) (gaps p)"

definition gap_text :: "trivia list \<Rightarrow> string" where
  "gap_text g = concat (map trivia_text g)"

definition source_text :: "proto_source \<Rightarrow> string" where
  "source_text p = gap_text (leading p) @ concat (map (\<lambda>(t, g). token_text t @ gap_text g) (zip (source_tokens p) (gaps p)))"

definition source_imports :: "proto_source \<Rightarrow> string list" where
  "source_imports p = concat (map statement_imports (statements p))"

section \<open>String literals are read back\<close>

lemma small_digits:
  "list_all (\<lambda>n. digit_value (hex_lower n) = n \<and> is_hex_digit (hex_lower n) \<and> hex_lower n \<noteq> backslash
     \<and> hex_lower n \<noteq> CHR 0x22 \<and> hex_lower n \<noteq> CHR 0x27) [0..<16]"
  "list_all (\<lambda>n. is_octal_digit (hex_lower n) \<and> hex_lower n \<notin> {CHR ''x'', CHR ''X'', CHR ''u'', CHR ''U''}) [0..<8]"
  by code_simp+

lemma hex_digit_facts:
  assumes "n < 16"
  shows "digit_value (hex_lower n) = n" and "is_hex_digit (hex_lower n)" and "hex_lower n \<noteq> backslash"
    and "hex_lower n \<noteq> CHR 0x22" and "hex_lower n \<noteq> CHR 0x27"
  using small_digits(1) assms by (auto simp: list_all_iff)

lemma octal_digit_facts:
  assumes "n < 8"
  shows "is_octal_digit (hex_lower n)" and "hex_lower n \<notin> {CHR ''x'', CHR ''X'', CHR ''u'', CHR ''U''}"
  using small_digits(2) assms by (auto simp: list_all_iff)

lemma number_of_digits:
  "a < 16 \<Longrightarrow> b < 16 \<Longrightarrow> number_of k [hex_lower a, hex_lower b] = a * k + b"
  "a < 16 \<Longrightarrow> b < 16 \<Longrightarrow> c < 16 \<Longrightarrow> number_of k [hex_lower a, hex_lower b, hex_lower c] = (a * k + b) * k + c"
  "a < 16 \<Longrightarrow> b < 16 \<Longrightarrow> c < 16 \<Longrightarrow> d < 16 \<Longrightarrow>
     number_of k [hex_lower a, hex_lower b, hex_lower c, hex_lower d] = ((a * k + b) * k + c) * k + d"
  by (simp_all add: number_of_def hex_digit_facts)

lemma byte_small: "byte_of c < 256"
  by (simp add: byte_of_def)

lemma small_parts: "n < 256 \<Longrightarrow> n div 64 < 8 \<and> n div 16 < (16 :: nat)"
  by (simp add: div_less_iff_less_mult)

lemma digit_step: "n div (k * b) * b + n div k mod b = n div (k :: nat)"
  by (simp add: div_mult2_eq)

lemma octal_digits_value: "(n div 64 * 8 + n div 8 mod 8) * 8 + n mod 8 = (n::nat)"
  using digit_step [of n 8 8] by simp

lemma decode_octal:
  "decode_string q True (piece_text (Octal c) @ r) v = decode_string q True r (v @ [c])"
proof -
  let ?n = "byte_of c"
  have small: "?n div 64 < 8" "?n div 8 mod 8 < 8" "?n mod 8 < 8" using small_parts [OF byte_small, of c] by simp_all
  note facts = octal_digit_facts [OF small(1)] octal_digit_facts [OF small(2)] octal_digit_facts [OF small(3)]
  have "number_of 8 [hex_lower (?n div 64), hex_lower (?n div 8 mod 8), hex_lower (?n mod 8)] = ?n"
    using small octal_digits_value [of ?n] by (simp add: number_of_digits)
  then show ?thesis using facts byte_small [of c] by (simp add: Let_def char_of_byte_of)
qed

lemma decode_hex:
  "decode_string q True (piece_text (Hex c) @ r) v = decode_string q True r (v @ [c])"
proof -
  let ?n = "byte_of c"
  have small: "?n div 16 < 16" "?n mod 16 < 16" using small_parts [OF byte_small, of c] by simp_all
  have "number_of 16 [hex_lower (?n div 16), hex_lower (?n mod 16)] = ?n" using small by (simp add: number_of_digits)
  then show ?thesis using hex_digit_facts(2) [OF small(1)] hex_digit_facts(2) [OF small(2)] byte_small [of c]
    by (simp add: Let_def char_of_byte_of)
qed

lemma four_digits: "hex_digits 4 n = [hex_lower (n div 4096 mod 16), hex_lower (n div 256 mod 16), hex_lower (n div 16 mod 16), hex_lower (n mod 16)]"
proof -
  have "rev [0..<4] = [3, 2, 1, 0 :: nat]" by code_simp
  then show ?thesis by (simp add: hex_digits_def)
qed

lemma code_point_value: "n < 65536 \<Longrightarrow> ((n div 4096 mod 16 * 16 + n div 256 mod 16) * 16 + n div 16 mod 16) * 16 + n mod 16 = (n::nat)"
proof -
  assume "n < 65536"
  then have "n div 4096 < 16" by (simp add: div_less_iff_less_mult)
  then have 1: "n div 4096 mod 16 * 16 + n div 256 mod 16 = n div 256" using digit_step [of n 256 16] by simp
  have 2: "n div 256 * 16 + n div 16 mod 16 = n div 16" using digit_step [of n 16 16] by simp
  show ?thesis by (simp only: 1 2 div_mult_mod_eq)
qed

lemma decode_code_point:
  assumes "piece_ok q (CodePoint n)"
  shows "decode_string q True (piece_text (CodePoint n) @ r) v = decode_string q True r (v @ encode_unicode_point n)"
proof -
  let ?ds = "hex_digits 4 n"
  have n: "n < 65536" "\<not> (0xD800 \<le> n \<and> n < 0xDC00)" using assms by auto
  have ds: "length ?ds = 4" "list_all is_hex_digit ?ds" by (simp_all add: four_digits hex_digit_facts(2))
  have parts: "take 4 (?ds @ r) = ?ds" "drop 4 (?ds @ r) = r" using ds(1) by simp_all
  have value_n: "number_of 16 ?ds = n" unfolding four_digits
    by (rule trans [OF number_of_digits(3) code_point_value [OF n(1)]]) simp_all
  have not_high: "(0xD800 \<le> n \<and> n < 0xDC00) = False" using n(2) by simp
  have "decode_unicode_escape (CHR ''u'') (?ds @ r) = Some (r, encode_unicode_point n)"
    unfolding decode_unicode_escape_def Let_def if_P [OF refl] parts value_n not_high using ds by simp
  then show ?thesis by simp
qed

lemma decode_piece:
  assumes "piece_ok q p" and "q = CHR 0x22 \<or> q = CHR 0x27"
  shows "decode_string q True (piece_text p @ r) v = decode_string q True r (v @ piece_bytes p)"
proof (cases p)
  case (Plain c)
  then show ?thesis using assms by simp
next
  case (Octal c)
  then show ?thesis using decode_octal by simp
next
  case (Hex c)
  then show ?thesis using decode_hex by simp
next
  case (Escaped e)
  then show ?thesis using assms(1) by simp
next
  case (CodePoint n)
  then show ?thesis using decode_code_point assms(1) by simp
qed

lemma skip_piece:
  assumes "piece_ok q p" and "q = CHR 0x22 \<or> q = CHR 0x27"
  shows "decode_string q False (piece_text p @ r) v = decode_string q False r v"
proof -
  have digit: "decode_string q False (hex_lower n # s) v = decode_string q False s v" if "n < 16" for n s
    using hex_digit_facts(3-5) [OF that] assms(2) by (auto simp: decode_string.simps(2))
  have skip: "decode_string q False (backslash # e # s) v = decode_string q False s v" for e s by simp
  show ?thesis
  proof (cases p)
    case (Octal c)
    have "byte_of c div 8 mod 8 < 16" "byte_of c mod 8 < 16" by (simp_all add: less_le_trans [OF mod_less_divisor])
    then show ?thesis by (simp add: Octal digit skip del: decode_string.simps)
  next
    case (Hex c)
    have "byte_of c div 16 < 16" "byte_of c mod 16 < 16" using small_parts [OF byte_small, of c] by simp_all
    then show ?thesis by (simp add: Hex digit skip del: decode_string.simps)
  next
    case (CodePoint n)
    then show ?thesis by (simp add: four_digits digit skip del: decode_string.simps)
  qed (use assms in auto)
qed

lemma decode_literal:
  assumes "q = CHR 0x22 \<or> q = CHR 0x27" and "list_all (piece_ok q) ps"
  shows "decode_string q k (concat (map piece_text ps) @ q # r) v
    = (r, Some (v @ (if k then concat (map piece_bytes ps) else [])))"
  using assms(2)
proof (induction ps arbitrary: v)
  case Nil
  then show ?case using assms(1) by (auto simp: backslash_def)
next
  case (Cons p ps)
  then show ?case using decode_piece [OF _ assms(1), of p] skip_piece [OF _ assms(1), of p] by (cases k) simp_all
qed

section \<open>Tokens are read one by one\<close>

type_synonym scan_state = "expectation \<times> string \<times> string list"

abbreviation scan_from :: "string \<Rightarrow> scan_state \<Rightarrow> string list" where
  "scan_from s st \<equiv> (case st of (ex, name, found) \<Rightarrow> import_names_from s ex name found)"

definition read_token :: "token \<Rightarrow> scan_state \<Rightarrow> scan_state" where
  "read_token t st = (case st of (ex, name, found) \<Rightarrow> (case t of
     Word w \<Rightarrow> (case read_identifier w ex name of (ex', name') \<Rightarrow> (ex', name', found))
   | Literal q ps \<Rightarrow> if ex \<noteq> NoExpectation then (AdjacentStringOrEnd, name @ concat (map piece_bytes ps), found)
       else (NoExpectation, [], found)
   | Punct c \<Rightarrow> (NoExpectation, [], if c = CHR '';'' \<and> ex = AdjacentStringOrEnd then found @ [name] else found)))"

lemma slash_facts: "\<not> is_identifier_start (CHR ''/'')" "\<not> is_blank (CHR ''/'')" "\<not> is_identifier_continue (CHR ''/'')"
  by code_simp+

lemma blank_facts:
  assumes "is_blank c"
  shows "\<not> is_identifier_continue c" and "c \<noteq> CHR ''/''" and "c \<noteq> CHR 0x22" and "c \<noteq> CHR 0x27" and "c \<noteq> CHR '';''"
proof -
  have "list_all (\<lambda>n. let c = char_of n in \<not> is_identifier_continue c \<and> c \<noteq> CHR ''/'' \<and> c \<noteq> CHR 0x22 \<and> c \<noteq> CHR 0x27
      \<and> c \<noteq> CHR '';'') [32, 9, 13, 10, 11, 12 :: nat]" by code_simp
  moreover have "byte_of c \<in> set [32, 9, 13, 10, 11, 12]" using assms by (simp add: is_blank_def)
  ultimately show "\<not> is_identifier_continue c" and "c \<noteq> CHR ''/''" and "c \<noteq> CHR 0x22" and "c \<noteq> CHR 0x27" and "c \<noteq> CHR '';''"
    unfolding list_all_iff Let_def using char_of_byte_of [of c] by metis+
qed

lemma start_continues: "is_identifier_start c \<Longrightarrow> is_identifier_continue c"
  by (simp add: is_identifier_continue_def)

lemma after_comment_end: "\<not> occurs_in ''*/'' s \<Longrightarrow> after_comment (s @ ''*/'' @ r) = r"
proof (induction s)
  case (Cons c s)
  have "\<not> startswith (c # s @ ''*/'' @ r) ''*/''"
  proof
    assume "startswith (c # s @ ''*/'' @ r) ''*/''"
    then have c: "c = CHR ''*''" "startswith (s @ ''*/'' @ r) ''/''" by (simp_all add: startswith_def)
    from c(2) have "startswith s ''/''" by (cases s) (simp_all add: startswith_def)
    with c(1) Cons.prems show False by (cases s) (simp_all add: startswith_def)
  qed
  then show ?case using Cons by simp
qed (simp add: startswith_def)

lemma read_trivia:
  assumes "trivia_ok t"
  shows "import_names_from (trivia_text t @ r) ex name found = import_names_from r ex name found"
proof (cases t)
  case (Blank c)
  then have c: "is_blank c" using assms by simp
  note facts = blank_facts [OF c]
  have "\<not> is_identifier_start c" using facts(1) start_continues by blast
  with facts c show ?thesis by (simp add: Blank)
next
  case (LineComment s)
  have "dropWhile (\<lambda>x. x \<noteq> newline) (s @ newline # r) = newline # r"
  proof -
    have "newline \<notin> set s" using assms LineComment by simp
    then have "x \<noteq> newline" if "x \<in> set s" for x using that by blast
    then show ?thesis by (simp add: dropWhile_append2)
  qed
  moreover have "import_names_from (newline # r) ex name found = import_names_from r ex name found"
  proof -
    have "newline \<noteq> CHR ''/''" "\<not> is_identifier_start newline" "newline \<noteq> CHR 0x22" "newline \<noteq> CHR 0x27" "is_blank newline"
      by code_simp+
    then show ?thesis by simp
  qed
  ultimately show ?thesis by (simp add: LineComment startswith_def)
next
  case (BlockComment s)
  then have "after_comment (s @ ''*/'' @ r) = r" using assms after_comment_end by simp
  then show ?thesis by (simp add: BlockComment startswith_def)
qed

lemma read_gap:
  "list_all trivia_ok g \<Longrightarrow> import_names_from (gap_text g @ r) ex name found = import_names_from r ex name found"
  by (induction g) (simp_all add: gap_text_def read_trivia del: import_names_from.simps)

lemma gap_starts:
  assumes "list_all trivia_ok g" and "g \<noteq> []"
  shows "\<exists>c s. gap_text g = c # s \<and> \<not> is_identifier_continue c"
proof -
  obtain t g' where g: "g = t # g'" using assms(2) by (cases g) auto
  show ?thesis using assms(1) slash_facts(3) blank_facts(1) by (cases t) (auto simp: g gap_text_def)
qed

lemma read_spaced_token:
  assumes ok: "token_ok t" and g: "list_all trivia_ok g" and sep: "case t of Word _ \<Rightarrow> g \<noteq> [] | _ \<Rightarrow> True"
  shows "scan_from (token_text t @ gap_text g @ r) st = scan_from r (read_token t st)"
proof -
  obtain ex name found where st: "st = (ex, name, found)" by (cases st)
  have gap: "import_names_from (gap_text g @ r) ex' name' found' = import_names_from r ex' name' found'" for ex' name' found'
    by (rule read_gap [OF g])
  show ?thesis
  proof (cases t)
    case (Word w)
    then obtain c s where w: "w = c # s" and c: "is_identifier_start c" "list_all is_identifier_continue s"
      using ok by (cases w) auto
    obtain d u where d: "gap_text g = d # u" "\<not> is_identifier_continue d" using gap_starts [OF g] sep Word by auto
    have "takeWhile is_identifier_continue (s @ gap_text g @ r) = s" "dropWhile is_identifier_continue (s @ gap_text g @ r) = gap_text g @ r"
      using c(2) d by (simp_all add: takeWhile_append2 dropWhile_append2 list_all_iff)
    moreover have "c \<noteq> CHR ''/''" using c(1) slash_facts(1) by auto
    ultimately have "import_names_from (w @ gap_text g @ r) ex name found
        = (let (ex', name') = read_identifier w ex name in import_names_from (gap_text g @ r) ex' name' found)"
      unfolding w append_Cons import_names_from.simps(2) using c(1) by simp
    then show ?thesis unfolding st Word by (simp add: read_token_def gap split: prod.split)
  next
    case (Literal q ps)
    then have q: "q = CHR 0x22 \<or> q = CHR 0x27" and ps: "list_all (piece_ok q) ps" using ok by auto
    have not: "q \<noteq> CHR ''/''" "\<not> is_identifier_start q"
      using q by (auto simp: is_identifier_start_def is_alpha_ascii_def is_upper_ascii_def is_lower_ascii_def byte_of_def)
    have "import_names_from (token_text t @ gap_text g @ r) ex name found
        = (case decode_string q (ex \<noteq> NoExpectation) (concat (map piece_text ps) @ q # gap_text g @ r) [] of
             (rest, v) \<Rightarrow> (case v of
               Some b \<Rightarrow> if ex \<noteq> NoExpectation then import_names_from rest AdjacentStringOrEnd (name @ b) found
                 else import_names_from rest NoExpectation [] found
             | None \<Rightarrow> import_names_from rest NoExpectation [] found))"
      using not q by (auto simp: Literal)
    also have "\<dots> = (if ex \<noteq> NoExpectation then import_names_from (gap_text g @ r) AdjacentStringOrEnd (name @ concat (map piece_bytes ps)) found
        else import_names_from (gap_text g @ r) NoExpectation [] found)"
      unfolding decode_literal [OF q ps] by simp
    finally show ?thesis unfolding st Literal by (simp add: read_token_def gap)
  next
    case (Punct c)
    then have c: "\<not> is_identifier_start c" "c \<noteq> CHR 0x22" "c \<noteq> CHR 0x27" "\<not> is_blank c" "c \<noteq> CHR ''/''" using ok by auto
    have "import_names_from (token_text t @ gap_text g @ r) ex name found
        = (if c = CHR '';'' then import_names_from (gap_text g @ r) NoExpectation [] (if ex = AdjacentStringOrEnd then found @ [name] else found)
           else import_names_from (gap_text g @ r) NoExpectation [] found)"
      using c by (simp add: Punct)
    then show ?thesis unfolding st Punct by (simp add: read_token_def gap)
  qed
qed

lemma read_tokens:
  "list_all token_ok ts \<Longrightarrow> list_all2 (\<lambda>t g. list_all trivia_ok g \<and> (case t of Word _ \<Rightarrow> g \<noteq> [] | _ \<Rightarrow> True)) ts gs \<Longrightarrow>
   scan_from (concat (map (\<lambda>(t, g). token_text t @ gap_text g) (zip ts gs)) @ r) st = scan_from r (fold read_token ts st)"
proof (induction ts arbitrary: gs st)
  case (Cons t ts)
  from Cons.prems(2) obtain g gs' where gs: "gs = g # gs'" and g: "list_all trivia_ok g" "case t of Word _ \<Rightarrow> g \<noteq> [] | _ \<Rightarrow> True"
    and rest: "list_all2 (\<lambda>t g. list_all trivia_ok g \<and> (case t of Word _ \<Rightarrow> g \<noteq> [] | _ \<Rightarrow> True)) ts gs'"
    by (auto simp: list_all2_Cons1)
  have t: "token_ok t" "list_all token_ok ts" using Cons.prems(1) by simp_all
  show ?case unfolding gs using read_spaced_token [OF t(1) g] Cons.IH [OF t(2) rest] by simp
qed simp

lemma read_list: "length ls > 0 \<Longrightarrow> ex \<noteq> NoExpectation \<Longrightarrow>
   fold read_token (map (\<lambda>(q, ps). Literal q ps) ls) (ex, name, found) = (AdjacentStringOrEnd, name @ imported ls, found)"
proof (induction ls arbitrary: ex name)
  case (Cons l ls)
  obtain q ps where l: "l = (q, ps)" by (cases l)
  show ?case
  proof (cases ls)
    case Nil
    then show ?thesis using Cons.prems by (simp add: l read_token_def imported_def)
  next
    case (Cons l' ls')
    then have "length ls > 0" by simp
    from Cons.IH [OF this, of AdjacentStringOrEnd] show ?thesis using Cons.prems(2)
      by (simp add: l read_token_def imported_def)
  qed
qed simp

lemma read_statement:
  assumes "statement_ok st"
  shows "fold read_token (statement_tokens st) (NoExpectation, [], found) = (NoExpectation, [], found @ statement_imports st)"
proof (cases st)
  case (ImportStatement m ls)
  have ls: "length ls > 0" and m: "m \<in> {None, Some ''option'', Some ''public'', Some ''weak''}" using assms ImportStatement by simp_all
  have "\<exists>ex. ex \<noteq> NoExpectation \<and> fold read_token (Word ''import'' # (case m of None \<Rightarrow> [] | Some w \<Rightarrow> [Word w])) (NoExpectation, [], found)
      = (ex, [], found)"
    using m by (auto simp: read_token_def read_identifier_def)
  then obtain ex where ex: "ex \<noteq> NoExpectation" "fold read_token (Word ''import'' # (case m of None \<Rightarrow> [] | Some w \<Rightarrow> [Word w]))
      (NoExpectation, [], found) = (ex, [], found)" by blast
  have "fold read_token (statement_tokens st) (NoExpectation, [], found)
      = read_token (Punct CHR '';'') (fold read_token (map (\<lambda>(q, ps). Literal q ps) ls)
          (fold read_token (Word ''import'' # (case m of None \<Rightarrow> [] | Some w \<Rightarrow> [Word w])) (NoExpectation, [], found)))"
    by (simp add: ImportStatement)
  also have "\<dots> = (NoExpectation, [], found @ [imported ls])" unfolding ex(2) read_list [OF ls ex(1)] by (simp add: read_token_def)
  finally show ?thesis by (simp add: ImportStatement statement_imports_def)
next
  case (ImportAsName c)
  then show ?thesis by (simp add: statement_imports_def read_token_def read_identifier_def)
next
  case (Other t)
  then show ?thesis using assms by (cases t) (simp_all add: statement_imports_def read_token_def read_identifier_def)
qed

lemma read_statements:
  "list_all statement_ok sts \<Longrightarrow> fold read_token (concat (map statement_tokens sts)) (NoExpectation, [], found)
     = (NoExpectation, [], found @ concat (map statement_imports sts))"
  by (induction sts arbitrary: found) (simp_all add: read_statement)

lemma statement_tokens_ok: "statement_ok st \<Longrightarrow> list_all token_ok (statement_tokens st)"
proof -
  have words: "list_all (\<lambda>w. token_ok (Word w)) [''import'', ''option'', ''public'', ''weak'']" by code_simp
  have semicolon: "token_ok (Punct CHR '';'')" by code_simp
  assume "statement_ok st"
  then show ?thesis using words semicolon by (cases st) (auto simp: list_all_iff simp del: token_ok.simps)
qed

theorem import_names_of_source:
  assumes "source_ok p"
  shows "import_names (source_text p) = source_imports p"
proof -
  have tokens: "list_all token_ok (source_tokens p)"
    using assms statement_tokens_ok by (auto simp: source_ok_def source_tokens_def list_all_iff)
  have "import_names (source_text p) = scan_from (concat (map (\<lambda>(t, g). token_text t @ gap_text g) (zip (source_tokens p) (gaps p))) @ [])
      (NoExpectation, [], [])"
    unfolding import_names_def source_text_def using assms by (simp add: source_ok_def read_gap)
  also have "\<dots> = scan_from [] (fold read_token (source_tokens p) (NoExpectation, [], []))"
    using assms by (intro read_tokens [OF tokens]) (simp add: source_ok_def)
  also have "\<dots> = source_imports p"
    using assms by (simp add: source_tokens_def source_ok_def read_statements source_imports_def)
  finally show ?thesis .
qed

section \<open>Reachable sources\<close>

type_synonym library = "(string \<times> proto_source) list"

definition rendered :: "library \<Rightarrow> (string, string) dict" where
  "rendered l = map (\<lambda>(f, p). (f, source_text p)) l"

definition imports_of :: "library \<Rightarrow> string \<Rightarrow> string list" where
  "imports_of l f = (case map_of l f of None \<Rightarrow> [] | Some p \<Rightarrow> source_imports p)"

definition followed :: "platform \<Rightarrow> string \<Rightarrow> bool" where
  \<comment> \<open>the imports that are looked up below the import roots\<close>
  "followed w n \<longleftrightarrow> is_canonical_virtual_path w n \<and> char_of (0 :: nat) \<notin> set n \<and> valid_utf8 n"

definition imported_file :: "platform \<Rightarrow> library \<Rightarrow> string list \<Rightarrow> string \<Rightarrow> string option" where
  \<comment> \<open>the first import root that has the file\<close>
  "imported_file w l roots n = find (\<lambda>c. c \<in> fst ` set l) (map (\<lambda>r. map_virtual_path w r n) roots)"

definition imported_files :: "platform \<Rightarrow> library \<Rightarrow> string list \<Rightarrow> string \<Rightarrow> string list" where
  "imported_files w l roots f =
     concat (map (\<lambda>n. case imported_file w l roots n of None \<Rightarrow> [] | Some c \<Rightarrow> [c]) (filter (followed w) (imports_of l f)))"

definition unsafe :: "platform \<Rightarrow> library \<Rightarrow> string \<Rightarrow> bool" where
  "unsafe w l f \<longleftrightarrow> (\<exists>n\<in>set (imports_of l f). is_masked_windows_parent_path w n)"

definition imports_protobuf :: "platform \<Rightarrow> library \<Rightarrow> string \<Rightarrow> bool" where
  "imports_protobuf w l f \<longleftrightarrow> (\<exists>n\<in>set (imports_of l f). is_canonical_virtual_path w n \<and> is_protobuf_import n)"

definition import_edges :: "platform \<Rightarrow> library \<Rightarrow> string list \<Rightarrow> string \<Rightarrow> import_edge list" where
  "import_edges w l roots f =
     map (\<lambda>n. (n, imported_file w l roots n, map (\<lambda>r. map_virtual_path w r n) roots)) (filter (followed w) (imports_of l f))"

lemma map_of_rendered: "map_of (rendered l) f = map_option source_text (map_of l f)"
  by (induction l) (auto simp: rendered_def)

lemma first_filtered: "(case filter P xs of [] \<Rightarrow> None | c # _ \<Rightarrow> Some c) = find P xs"
  by (induction xs) auto

lemma resolve_rendered:
  "resolve_import w (rendered l) roots n = (n, imported_file w l roots n, map (\<lambda>r. map_virtual_path w r n) roots)"
proof -
  have "(map_of (rendered l) c \<noteq> None) = (c \<in> fst ` set l)" for c
    by (simp add: map_of_rendered map_of_eq_None_iff)
  then show ?thesis unfolding resolve_import_def Let_def first_filtered by (simp add: imported_file_def)
qed

lemma scan_one:
  "scan_import w (rendered l) roots n k =
     (if is_masked_windows_parent_path w n then Inl Unsafe_virtual_import_path
      else Inr \<lparr>requires_protobuf = requires_protobuf k \<or> is_canonical_virtual_path w n \<and> is_protobuf_import n,
        edges_found = edges_found k @ (if followed w n then [(n, imported_file w l roots n, map (\<lambda>r. map_virtual_path w r n) roots)] else []),
        sources_found = sources_found k @ (if followed w n then (case imported_file w l roots n of None \<Rightarrow> [] | Some c \<Rightarrow> [c]) else [])\<rparr>)"
proof -
  consider "is_masked_windows_parent_path w n" | "\<not> is_masked_windows_parent_path w n" "\<not> is_canonical_virtual_path w n"
    | "\<not> is_masked_windows_parent_path w n" "is_canonical_virtual_path w n" by blast
  then show ?thesis
  proof cases
    case 3
    have followed: "followed w n = (\<not> (List.member n (char_of (0 :: nat)) \<or> \<not> valid_utf8 n))"
      using 3(2) by (auto simp: followed_def)
    show ?thesis unfolding scan_import_def resolve_rendered followed using 3
      by (cases k; cases "is_protobuf_import n") (simp_all add: Let_def)
  qed (simp_all add: scan_import_def followed_def)
qed

lemma scan_imports:
  "rfold (scan_import w (rendered l) roots) ns k =
     (if \<exists>n\<in>set ns. is_masked_windows_parent_path w n then Inl Unsafe_virtual_import_path
      else Inr \<lparr>requires_protobuf = requires_protobuf k \<or> (\<exists>n\<in>set ns. is_canonical_virtual_path w n \<and> is_protobuf_import n),
        edges_found = edges_found k @ map (\<lambda>n. (n, imported_file w l roots n, map (\<lambda>r. map_virtual_path w r n) roots)) (filter (followed w) ns),
        sources_found = sources_found k @ concat (map (\<lambda>n. case imported_file w l roots n of None \<Rightarrow> [] | Some c \<Rightarrow> [c]) (filter (followed w) ns))\<rparr>)"
  by (induction ns arbitrary: k) (simp_all add: scan_one)

lemma scan_rendered:
  assumes "list_all (source_ok \<circ> snd) l" and "f \<in> fst ` set l"
  shows "scan_source w (rendered l) roots f =
     (if unsafe w l f then Inl Unsafe_virtual_import_path
      else Inr \<lparr>requires_protobuf = imports_protobuf w l f, edges_found = import_edges w l roots f,
        sources_found = imported_files w l roots f\<rparr>)"
proof -
  obtain p where p: "map_of l f = Some p" using assms(2) by (metis map_of_eq_None_iff not_Some_eq)
  have "source_ok p" using map_of_SomeD [OF p] assms(1) by (auto simp: list_all_iff)
  then show ?thesis using p
    by (simp add: scan_source_def map_of_rendered import_names_of_source scan_imports unsafe_def imports_protobuf_def
        import_edges_def imported_files_def imports_of_def)
qed

lemma imported_files_exist: "set (imported_files w l roots f) \<subseteq> fst ` set l"
  by (auto simp: imported_files_def imported_file_def find_Some_iff2 split: option.splits)

abbreviation reachable_sources :: "platform \<Rightarrow> library \<Rightarrow> string list \<Rightarrow> string list \<Rightarrow> string set" where
  "reachable_sources w l roots sources \<equiv> reach (imported_files w l roots) (set sources)"

definition searched :: "platform \<Rightarrow> library \<Rightarrow> string list \<Rightarrow> string list \<Rightarrow> string list \<Rightarrow> string set
    \<Rightarrow> bool \<times> string list \<times> import_edge list \<Rightarrow> bool" where
  \<comment> \<open>what holds whenever the search takes the next pending source\<close>
  "searched w l roots sources pending seen result = (case result of (flag, closure, edges) \<Rightarrow>
     distinct closure \<and> set closure = seen \<and> set sources \<subseteq> seen \<union> set pending
     \<and> seen \<union> set pending \<subseteq> reachable_sources w l roots sources \<and> set pending \<subseteq> fst ` set l
     \<and> (\<forall>f\<in>seen. \<not> unsafe w l f \<and> set (imported_files w l roots f) \<subseteq> seen \<union> set pending)
     \<and> flag = (\<exists>f\<in>seen. imports_protobuf w l f) \<and> edges = concat (map (import_edges w l roots) closure))"

lemma searched_skip:
  "searched w l roots sources (f # pending) seen result \<Longrightarrow> f \<in> seen \<Longrightarrow> searched w l roots sources pending seen result"
  by (auto simp: searched_def split: prod.splits)

lemma searched_visit:
  assumes "searched w l roots sources (f # pending) seen (flag, closure, edges)" and "f \<notin> seen" and "\<not> unsafe w l f"
  shows "searched w l roots sources (pending @ imported_files w l roots f) (insert f seen)
    (flag \<or> imports_protobuf w l f, closure @ [f], edges @ import_edges w l roots f)"
proof -
  note old = assms(1) [unfolded searched_def prod.case]
  let ?R = "reachable_sources w l roots sources"
  have f: "f \<in> ?R" using old by simp
  have "set (imported_files w l roots f) \<subseteq> ?R" using reach_step [OF f] by blast
  then have inside: "insert f seen \<union> set (pending @ imported_files w l roots f) \<subseteq> ?R" using old by auto
  have keys: "set (pending @ imported_files w l roots f) \<subseteq> fst ` set l" using old imported_files_exist by auto
  have closed: "\<forall>g\<in>insert f seen. \<not> unsafe w l g
      \<and> set (imported_files w l roots g) \<subseteq> insert f seen \<union> set (pending @ imported_files w l roots f)"
    using old assms(3) by auto
  show ?thesis unfolding searched_def prod.case
    by (intro conjI inside keys closed) (use old assms(2) in auto)
qed

lemma closure_loop_searches:
  assumes "list_all (source_ok \<circ> snd) l" and "searched w l roots sources pending seen result"
  shows "(closure_loop w (rendered l) roots pending seen result = Inl Unsafe_virtual_import_path
        \<and> (\<exists>f\<in>reachable_sources w l roots sources. unsafe w l f))
    \<or> (\<exists>seen' result'. closure_loop w (rendered l) roots pending seen result = Inr result'
        \<and> searched w l roots sources [] seen' result')"
  using assms(2)
proof (induction w "rendered l" roots pending seen result rule: closure_loop.induct)
  case (2 w roots f pending seen result)
  obtain flag closure edges where result: "result = (flag, closure, edges)" by (cases result)
  show ?case
  proof (cases "f \<in> seen")
    case True
    then show ?thesis using 2(1) [OF True] searched_skip [OF 2(3) True] by simp
  next
    case False
    have f: "f \<in> fst ` set l" "f \<in> reachable_sources w l roots sources"
      using 2(3) by (auto simp: searched_def split: prod.splits)
    note scan = scan_rendered [OF assms(1) f(1), of w roots]
    show ?thesis
    proof (cases "unsafe w l f")
      case True
      then show ?thesis using False f(2) by (auto simp: scan)
    next
      case safe: False
      note visit = 2(2) [OF False scan [unfolded if_not_P [OF safe]] result [symmetric] refl, simplified]
      show ?thesis using visit searched_visit [OF 2(3) [unfolded result] False safe] False safe
        by (simp add: scan result)
    qed
  qed
qed auto

text \<open>
  C40: The scan of a set of sources finds the sources reachable by imports. Each file of the library is printed
  from its statements: any white space and comments between tokens, any qualifier of an import, its string
  written in several literals and with any escapes. The scan stops, with the error for unsafe paths, exactly if
  some reachable source imports a Windows path that hides its parent component. Otherwise it returns each
  reachable source once, the import edges of each in order with the file the first import root has, and a flag
  that is set exactly if some reachable source imports the generator's options or a Protobuf file.
\<close>

theorem source_closure_is_reachability:
  assumes "list_all (source_ok \<circ> snd) l" and "set sources \<subseteq> fst ` set l"
  shows "case scan_source_closure_trace w (rendered l) sources roots of
      Inl e \<Rightarrow> e = Unsafe_virtual_import_path \<and> (\<exists>f\<in>reachable_sources w l roots sources. unsafe w l f)
    | Inr (flag, closure, edges) \<Rightarrow>
        \<not> (\<exists>f\<in>reachable_sources w l roots sources. unsafe w l f)
        \<and> distinct closure \<and> set closure = reachable_sources w l roots sources
        \<and> flag = (\<exists>f\<in>reachable_sources w l roots sources. imports_protobuf w l f)
        \<and> edges = concat (map (import_edges w l roots) closure)"
proof -
  let ?R = "reachable_sources w l roots sources"
  have start: "searched w l roots sources sources {} (False, [], [])"
    using assms(2) reach_base [of "set sources" "imported_files w l roots"] by (simp add: searched_def)
  from closure_loop_searches [OF assms(1) start] show ?thesis
  proof (elim disjE conjE exE)
    fix seen result
    assume loop: "closure_loop w (rendered l) roots sources {} (False, [], []) = Inr result"
      and found: "searched w l roots sources [] seen result"
    obtain flag closure edges where result: "result = (flag, closure, edges)" by (cases result)
    note found = found [unfolded searched_def result prod.case, simplified]
    have "seen = ?R" by (rule reach_eqI) (use found in auto)
    then show ?thesis using loop found by (auto simp: scan_source_closure_trace_def result)
  qed (simp add: scan_source_closure_trace_def)
qed

definition unix_host :: platform where
  "unix_host = \<lparr>windows = False, cygwin = False, normalized = id\<rparr>"

definition example_sources :: library where
  \<comment> \<open>the first is \<^verbatim>\<open>// c<newline>import public "s/" "\x62";import'protocyte/options.proto' ;import"gone";message {}\<close>\<close>
  "example_sources =
     [(''r/a'', \<lparr>leading = [LineComment ''c''],
        statements = [ImportStatement (Some ''public'') [(CHR 0x22, map Plain ''s/''), (CHR 0x22, [Hex (CHR ''b'')])],
          ImportStatement None [(CHR 0x27, map Plain ''protocyte/options.proto'')],
          ImportStatement None [(CHR 0x22, map Plain ''gone'')],
          Other (Word ''message''), Other (Punct (CHR ''{'')), Other (Punct (CHR ''}''))],
        gaps = [[Blank CHR '' ''], [BlockComment ''*''], [], [], [], [Blank newline], [Blank CHR '' ''], [],
          [LineComment ''import''], [], [], [Blank CHR '' ''], [], []]\<rparr>),
      (''q/s/b'', \<lparr>leading = [], statements = [ImportStatement None [(CHR 0x22, [Plain CHR ''a''])]],
        gaps = [[Blank newline], [], []]\<rparr>),
      (''r/c'', \<lparr>leading = [], statements = [], gaps = []\<rparr>)]"

lemma example_sources_ok: "list_all (source_ok \<circ> snd) example_sources"
  by code_simp

lemma example_scan:
  "scan_source_closure_trace unix_host (rendered example_sources) [''r/a''] [''q'', ''r'']
     = Inr (True, [''r/a'', ''q/s/b''],
         [(''s/b'', Some ''q/s/b'', [''q/s/b'', ''r/s/b'']),
          (''protocyte/options.proto'', None, [''q/protocyte/options.proto'', ''r/protocyte/options.proto'']),
          (''gone'', None, [''q/gone'', ''r/gone'']),
          (''a'', Some ''r/a'', [''q/a'', ''r/a''])])"
  by code_simp

theorem source_closure_is_reachability_witness:
  "reachable_sources unix_host example_sources [''q'', ''r''] [''r/a''] = {''r/a'', ''q/s/b''}"
proof -
  have "set [''r/a''] \<subseteq> fst ` set example_sources" by (simp add: example_sources_def)
  from source_closure_is_reachability [OF example_sources_ok this, of unix_host "[''q'', ''r'']", unfolded example_scan]
  show ?thesis by simp
qed

end
