(* ===== verification/Parameters.thy ===== *)
theory Parameters
  imports Defaults Namespaces Bytes Paths
begin

text \<open>
  \<^verbatim>\<open>src/protocyte/parameters.py\<close>: the parameter text of the plugin, \<^verbatim>\<open>key=value\<close> pairs between commas,
  given as such or in hexadecimal, and the options it stands for. The classification of white space
  outside ASCII and the readers of numbers (\<^verbatim>\<open>Decimal\<close>, \<^verbatim>\<open>float\<close>, digits outside ASCII of \<^verbatim>\<open>int\<close>) are
  parameters. A timeout that is given as a value is a float.
\<close>

section \<open>Errors and numbers\<close>

datatype parameter_error =
  Prefix_empty string | Prefix_not_relative string | Prefix_control string | Prefix_segment string
| Prefix_whitespace string | Prefix_unsafe string
| Namespace_not_normalized | Namespace_control | Namespace_not_portable
| Macro_invalid
| Format_invalid | Clang_format_empty | Clang_format_config_empty | Format_off_conflict
| Timeout_invalid | Timeout_empty
| Path_budget_small | Directory_budget_negative
| Path_budget_text | Path_budget_empty | Directory_budget_text | Directory_budget_empty
| Parameter_name_empty string | Parameter_duplicate string | Parameter_without_value string
| Parameters_unknown "string list"
| Runtime_prefix_conflict | Runtime_invalid | Comments_invalid
| Transport_not_alone | Transport_hex | Transport_utf8

datatype decimal_number = DecimalFinite bool nat int | DecimalInfinite bool | DecimalNan bool

fun decimal_finite :: "decimal_number \<Rightarrow> bool" where
  "decimal_finite (DecimalFinite neg m e) = True"
| "decimal_finite _ = False"

fun decimal_signed :: "decimal_number \<Rightarrow> bool" where
  "decimal_signed (DecimalFinite neg m e) = neg"
| "decimal_signed (DecimalInfinite neg) = neg"
| "decimal_signed (DecimalNan neg) = neg"

fun decimal_zero :: "decimal_number \<Rightarrow> bool" where
  "decimal_zero (DecimalFinite neg m e) = (m = 0)"
| "decimal_zero _ = False"

fun float_sign :: "pyfloat \<Rightarrow> int" where
  \<comment> \<open>how a finite float compares with zero\<close>
  "float_sign (FFin neg m e) = (if m = 0 then 0 else if neg then -1 else 1)"
| "float_sign (FInf neg) = (if neg then -1 else 1)"
| "float_sign FNan = 0"

record parameter_env =
  unicode :: unicode_data
  integers :: default_env
  to_decimal :: "string \<Rightarrow> decimal_number option"
  to_float :: "string \<Rightarrow> pyfloat option"

definition parse_formatter_timeout_seconds :: "parameter_env \<Rightarrow> string \<Rightarrow> parameter_error + pyfloat option" where
  "parse_formatter_timeout_seconds env raw =
     (case to_decimal env raw of
        None \<Rightarrow> Inl Timeout_invalid
      | Some d \<Rightarrow>
          if \<not> decimal_finite d \<or> decimal_signed d then Inl Timeout_invalid
          else if decimal_zero d then Inr None
          else (case to_float env raw of
              None \<Rightarrow> Inl Timeout_invalid
            | Some t \<Rightarrow> if \<not> is_finite t \<or> float_sign t \<le> 0 then Inl Timeout_invalid else Inr (Some t)))"

section \<open>Text\<close>

definition py_strip :: "unicode_data \<Rightarrow> string \<Rightarrow> string" where
  \<comment> \<open>\<^verbatim>\<open>s.strip()\<close>\<close>
  "py_strip u s = concat (rev (dropWhile (isspace u) (rev (dropWhile (isspace u) (utf8_chars s)))))"

definition control_free :: "string \<Rightarrow> bool" where
  "control_free s = list_all (\<lambda>c. 32 \<le> byte_of c \<and> byte_of c \<noteq> 127) s"

definition validate_namespace_prefix :: "unicode_data \<Rightarrow> string \<Rightarrow> parameter_error + unit" where
  "validate_namespace_prefix u v =
     (if v = [] then Inr ()
      else let components = split_colons v in
        if list_ex (\<lambda>c. c = [] \<or> c \<noteq> py_strip u c \<or> List.member c CHR '':'') components then Inl Namespace_not_normalized
        else if \<not> control_free v then Inl Namespace_control
        else if list_ex (\<lambda>c. \<not> is_cpp_identifier c \<or> List.member CPP_KEYWORDS c \<or> startswith c ''_'' \<or> occurs_in ''__'' c) components
        then Inl Namespace_not_portable
        else Inr ())"

definition REFLECTION_API_PREFIX :: string where
  "REFLECTION_API_PREFIX = ''PROTOCYTE_REFLECTION_API_''"

definition is_reflection_api_macro :: "string \<Rightarrow> bool" where
  \<comment> \<open>the regular expression \<^verbatim>\<open>_REFLECTION_API_MACRO\<close>, matched in full\<close>
  "is_reflection_api_macro v =
     (let digits = drop (length REFLECTION_API_PREFIX) v in
      startswith v REFLECTION_API_PREFIX \<and> length digits = 64 \<and> list_all (List.member ''0123456789ABCDEF'') digits)"

definition validate_reflection_api_macro :: "string \<Rightarrow> parameter_error + unit" where
  "validate_reflection_api_macro v = raise_if (\<not> is_reflection_api_macro v) Macro_invalid"

definition INVALID_VIRTUAL_PATH_CHARACTERS :: string where
  "INVALID_VIRTUAL_PATH_CHARACTERS = [CHR ''<'', CHR ''>'', CHR '':'', CHR 0x22, CHR 0x5C, CHR ''|'', CHR ''?'', CHR ''*'', CHR '';'']"

definition validate_virtual_directory_prefix :: "unicode_data \<Rightarrow> string \<Rightarrow> string \<Rightarrow> parameter_error + unit" where
  \<comment> \<open>the code returns the text it was given; \<open>param\<close> is only for the message\<close>
  "validate_virtual_directory_prefix u v param =
     (if v = [] then Inl (Prefix_empty param)
      else if startswith v ''/'' \<or> List.member v CHR '':'' then Inl (Prefix_not_relative param)
      else if List.member v CHR 0x5C then Inl (Prefix_not_relative param)
      else if \<not> control_free v then Inl (Prefix_control param)
      else let segments = split_on CHR ''/'' v in
        if list_ex (\<lambda>s. List.member [[], ''.'', ''..''] s) segments then Inl (Prefix_segment param)
        else if list_ex (\<lambda>s. s \<noteq> py_strip u s) segments then Inl (Prefix_whitespace param)
        else if list_ex (\<lambda>s. list_ex (List.member INVALID_VIRTUAL_PATH_CHARACTERS) s \<or> endswith s ''.''
            \<or> List.member WINDOWS_RESERVED_PATH_NAMES (device_stem s)) segments
        then Inl (Prefix_unsafe param)
        else Inr ())"

section \<open>Options\<close>

record GeneratorOptions =
  emit_runtime :: bool
  runtime_prefix :: string
  include_prefix :: string
  namespace_prefix :: string
  reflection_api_macro :: "string option"
  emit_comments :: bool
  format_mode :: string
  clang_format :: "string option"
  clang_format_config :: "string option"
  formatter_timeout :: "pyfloat option"
  generated_path_max_bytes :: "int option"
  generated_directory_max_bytes :: "int option"

definition FORMAT_MODES :: "string list" where
  "FORMAT_MODES = [''auto'', ''off'', ''required'']"

definition post_init :: "unicode_data \<Rightarrow> GeneratorOptions \<Rightarrow> parameter_error + GeneratorOptions" where
  \<comment> \<open>\<^verbatim>\<open>GeneratorOptions.__post_init__\<close>\<close>
  "post_init u o1 =
     rbind (validate_namespace_prefix u (namespace_prefix o1)) (\<lambda>_.
     rbind (case reflection_api_macro o1 of None \<Rightarrow> Inr () | Some m \<Rightarrow> validate_reflection_api_macro m) (\<lambda>_.
     rbind (validate_virtual_directory_prefix u (runtime_prefix o1) ''runtime prefix'') (\<lambda>_.
     rbind (if include_prefix o1 \<noteq> [] then validate_virtual_directory_prefix u (include_prefix o1) ''include prefix'' else Inr ()) (\<lambda>_.
     rbind (raise_if (\<not> List.member FORMAT_MODES (format_mode o1)) Format_invalid) (\<lambda>_.
     rbind (raise_if (clang_format o1 = Some []) Clang_format_empty) (\<lambda>_.
     rbind (raise_if (clang_format_config o1 = Some []) Clang_format_config_empty) (\<lambda>_.
     rbind (case formatter_timeout o1 of
         None \<Rightarrow> Inr o1
       | Some t \<Rightarrow>
           if \<not> is_finite t \<or> float_sign t < 0 then Inl Timeout_invalid
           else Inr (if float_sign t = 0 then o1\<lparr>formatter_timeout := None\<rparr> else o1)) (\<lambda>o2.
     rbind (raise_if (case generated_path_max_bytes o1 of None \<Rightarrow> False | Some n \<Rightarrow> n < MIN_HASHED_GENERATED_FILE_PATH_BYTES)
       Path_budget_small) (\<lambda>_.
     rbind (raise_if (case generated_directory_max_bytes o1 of None \<Rightarrow> False | Some n \<Rightarrow> n < 0) Directory_budget_negative) (\<lambda>_.
     rbind (raise_if (format_mode o1 = ''off'' \<and> (clang_format o1 \<noteq> None \<or> clang_format_config o1 \<noteq> None)) Format_off_conflict) (\<lambda>_.
     Inr o2)))))))))))"

definition formatting_required :: "GeneratorOptions \<Rightarrow> bool" where
  "formatting_required o1 =
     (format_mode o1 = ''required'' \<or> clang_format o1 \<noteq> None \<or> clang_format_config o1 \<noteq> None)"

section \<open>The transport of the parameter\<close>

definition TRANSPORT_NAME :: string where
  "TRANSPORT_NAME = ''_protocyte_options_hex''"

definition split_pair :: "string \<Rightarrow> string \<times> string" where
  \<comment> \<open>\<^verbatim>\<open>s.split("=", 1)\<close> of a text that has the character\<close>
  "split_pair s = (first_part CHR ''='' s, drop 1 (dropWhile (\<lambda>c. c \<noteq> CHR ''='') s))"

definition decode_hex_transport_parameter :: "string \<Rightarrow> parameter_error + string" where
  "decode_hex_transport_parameter encoded =
     (case fromhex encoded of
        None \<Rightarrow> Inl Transport_hex
      | Some decoded \<Rightarrow> if valid_utf8 decoded then Inr decoded else Inl Transport_utf8)"

definition decode_transport_parameter :: "unicode_data \<Rightarrow> string \<Rightarrow> parameter_error + string" where
  "decode_transport_parameter u p =
     (let parts = filter (\<lambda>s. s \<noteq> []) (map (py_strip u) (split_on CHR '','' p));
          transport_parts = filter (\<lambda>s. first_part CHR ''='' s = TRANSPORT_NAME) parts
      in case transport_parts of
           [] \<Rightarrow> Inr p
         | t # _ \<Rightarrow>
             if length transport_parts \<noteq> 1 \<or> length parts \<noteq> 1 then Inl Transport_not_alone
             else if \<not> List.member t CHR ''='' then Inl (Parameter_without_value t)
             else decode_hex_transport_parameter (snd (split_pair t)))"

section \<open>Parameters\<close>

definition prefix_parameter :: "string \<Rightarrow> string \<Rightarrow> string option" where
  \<comment> \<open>the values in which white space is an error\<close>
  "prefix_parameter k v =
     (if k = ''runtime'' \<and> startswith v ''emit:'' then Some ''runtime prefix''
      else if k = ''runtime_prefix'' then Some ''runtime prefix''
      else if k = ''include_prefix'' then Some ''include prefix''
      else if k = ''namespace_prefix'' then Some ''namespace prefix''
      else if k = ''_protocyte_reflection_api_macro'' then Some ''internal reflection API macro''
      else None)"

definition parse_part :: "unicode_data \<Rightarrow> string \<Rightarrow> string \<Rightarrow> (string, string) dict \<Rightarrow> parameter_error + (string, string) dict" where
  "parse_part u p raw_part vs =
     (let part = py_strip u raw_part in
      if part = [] then Inr vs
      else if \<not> List.member part CHR ''='' then Inl (Parameter_without_value part)
      else
        let (raw_key, raw_value) = split_pair raw_part; k = py_strip u raw_key; v = py_strip u raw_value in
        if k = [] then Inl (Parameter_name_empty p)
        else if map_of vs k \<noteq> None then Inl (Parameter_duplicate k)
        else rbind (case prefix_parameter k v of
            None \<Rightarrow> Inr ()
          | Some q \<Rightarrow>
              if \<not> control_free raw_value then Inl (Prefix_control q)
              else raise_if (raw_value \<noteq> v) (Prefix_whitespace q))
          (\<lambda>_. Inr (dict_set vs k v)))"

definition PARAMETER_NAMES :: "string list" where
  "PARAMETER_NAMES =
     [''runtime'', ''runtime_prefix'', ''include_prefix'', ''namespace_prefix'', ''comments'', ''format'',
      ''clang_format'', ''clang_format_config'', ''formatter_timeout_seconds'', ''_protocyte_reflection_api_macro'',
      ''_protocyte_generated_path_max_bytes'', ''_protocyte_generated_directory_max_bytes'']"

definition get_default :: "(string, string) dict \<Rightarrow> string \<Rightarrow> string \<Rightarrow> string" where
  "get_default vs k d = (case map_of vs k of None \<Rightarrow> d | Some v \<Rightarrow> v)"

definition runtime_choice :: "(string, string) dict \<Rightarrow> parameter_error + bool \<times> string" where
  \<comment> \<open>\<^verbatim>\<open>emit_runtime\<close> and \<^verbatim>\<open>runtime_prefix\<close>\<close>
  "runtime_choice vs =
     (let runtime = get_default vs ''runtime'' ''omit''; rp = get_default vs ''runtime_prefix'' ''protocyte/runtime'' in
      if startswith runtime ''emit:'' then
        (let suff = drop 5 runtime in
         if suff = [] then Inl (Prefix_empty ''runtime prefix'')
         else if map_of vs ''runtime_prefix'' \<noteq> None \<and> rp \<noteq> suff then Inl Runtime_prefix_conflict
         else Inr (True, suff))
      else if runtime = ''emit'' then Inr (True, rp)
      else if runtime = ''omit'' then Inr (False, rp)
      else Inl Runtime_invalid)"

definition budget_choice :: "parameter_env \<Rightarrow> string option \<Rightarrow> parameter_error \<Rightarrow> parameter_error \<Rightarrow> parameter_error + int option" where
  \<comment> \<open>one of the two budgets: absent, empty, or read by \<^verbatim>\<open>int\<close>\<close>
  "budget_choice env raw bad_text no_text =
     (case raw of
        None \<Rightarrow> Inr None
      | Some v \<Rightarrow> if v = [] then Inl no_text
          else (case python_int (integers env) v of None \<Rightarrow> Inl bad_text | Some n \<Rightarrow> Inr (Some n)))"

definition DEFAULT_FORMATTER_TIMEOUT_SECONDS :: pyfloat where
  "DEFAULT_FORMATTER_TIMEOUT_SECONDS = FFin False 8444249301319680 (-47)" \<comment> \<open>60.0\<close>

definition options_of :: "parameter_env \<Rightarrow> (string, string) dict \<Rightarrow> parameter_error + GeneratorOptions" where
  \<comment> \<open>\<^verbatim>\<open>parse_parameter\<close> from \<^verbatim>\<open>runtime = values.get(...)\<close> on\<close>
  "options_of env vs =
     (let u = unicode env; cf = map_of vs ''clang_format''; cfc = map_of vs ''clang_format_config'';
          comments = get_default vs ''comments'' ''on''; mode = get_default vs ''format'' ''auto'';
          ip = get_default vs ''include_prefix'' []
      in
      rbind (runtime_choice vs) (\<lambda>(er, rp).
      rbind (raise_if (\<not> List.member [''on'', ''off''] comments) Comments_invalid) (\<lambda>_.
      rbind (validate_virtual_directory_prefix u rp ''runtime prefix'') (\<lambda>_.
      rbind (if map_of vs ''include_prefix'' \<noteq> None then validate_virtual_directory_prefix u ip ''include prefix'' else Inr ()) (\<lambda>_.
      rbind (raise_if (\<not> List.member FORMAT_MODES mode) Format_invalid) (\<lambda>_.
      rbind (raise_if (cf = Some []) Clang_format_empty) (\<lambda>_.
      rbind (raise_if (cfc = Some []) Clang_format_config_empty) (\<lambda>_.
      rbind (raise_if (mode = ''off'' \<and> (cf \<noteq> None \<or> cfc \<noteq> None)) Format_off_conflict) (\<lambda>_.
      rbind (case map_of vs ''formatter_timeout_seconds'' of
          None \<Rightarrow> Inr (Some DEFAULT_FORMATTER_TIMEOUT_SECONDS)
        | Some t \<Rightarrow> if t = [] then Inl Timeout_empty else parse_formatter_timeout_seconds env t) (\<lambda>timeout.
      rbind (budget_choice env (map_of vs ''_protocyte_generated_path_max_bytes'') Path_budget_text Path_budget_empty) (\<lambda>pb.
      rbind (budget_choice env (map_of vs ''_protocyte_generated_directory_max_bytes'') Directory_budget_text Directory_budget_empty) (\<lambda>db.
      post_init u
        \<lparr>emit_runtime = er, runtime_prefix = rp, include_prefix = ip, namespace_prefix = get_default vs ''namespace_prefix'' [],
          reflection_api_macro = map_of vs ''_protocyte_reflection_api_macro'', emit_comments = (comments = ''on''),
          format_mode = (if cf \<noteq> None \<or> cfc \<noteq> None then ''required'' else mode), clang_format = cf, clang_format_config = cfc,
          formatter_timeout = timeout, generated_path_max_bytes = pb, generated_directory_max_bytes = db\<rparr>))))))))))))"

definition parse_parameter :: "parameter_env \<Rightarrow> string \<Rightarrow> parameter_error + GeneratorOptions" where
  "parse_parameter env raw =
     rbind (decode_transport_parameter (unicode env) raw) (\<lambda>p.
     rbind (if p = [] then Inr [] else rfold (parse_part (unicode env) p) (split_on CHR '','' p) []) (\<lambda>vs.
     let unknown = filter (\<lambda>k. \<not> List.member PARAMETER_NAMES k) (map fst vs) in
     if unknown \<noteq> [] then Inl (Parameters_unknown (sort unknown)) else options_of env vs))"

end
