(* ===== verification/ParametersSpec.thy ===== *)
theory ParametersSpec
  imports Parameters "HOL-Library.Multiset"
begin

text \<open>
  What the parameters of the plugin say. Options that satisfy \<open>valid_options\<close> are written as settings;
  the parser returns exactly these options from any order of the settings, with any white space around
  names and values and with empty parts, as plain text or in hexadecimal; and it returns nothing else.
\<close>

section \<open>Stripping\<close>

abbreviation starts_whole :: "string \<Rightarrow> bool" where
  \<comment> \<open>the text does not start inside a character\<close>
  "starts_whole s \<equiv> s = [] \<or> \<not> is_continuation (hd s)"

lemma utf8_chars_append: "starts_whole b \<Longrightarrow> utf8_chars (a @ b) = utf8_chars a @ utf8_chars b"
proof (induction a rule: utf8_chars.induct)
  case (2 c s)
  show ?case
  proof (cases "list_all is_continuation s")
    case True
    then have "takeWhile is_continuation (s @ b) = s" "dropWhile is_continuation (s @ b) = b"
      "takeWhile is_continuation s = s" "dropWhile is_continuation s = []"
      using 2(2) by (cases b; simp add: list_all_iff takeWhile_append2 dropWhile_append2 takeWhile_eq_all_conv)+
    then show ?thesis by (simp only: append_Cons utf8_chars.simps append_Nil)
  next
    case False
    then obtain x where "x \<in> set s" "\<not> is_continuation x" by (auto simp: list_all_iff)
    then have "takeWhile is_continuation (s @ b) = takeWhile is_continuation s"
      "dropWhile is_continuation (s @ b) = dropWhile is_continuation s @ b"
      by (simp_all add: takeWhile_append1 dropWhile_append1)
    then show ?thesis using 2 by simp
  qed
qed simp

lemma utf8_chars_whole: "list_all (\<lambda>c. \<not> is_continuation c) s \<Longrightarrow> utf8_chars s = map (\<lambda>c. [c]) s"
proof (induction s)
  case (Cons c s)
  then have "utf8_chars ([c] @ s) = utf8_chars [c] @ utf8_chars s" by (intro utf8_chars_append) (cases s; simp)
  then show ?case using Cons by simp
qed simp

lemma ascii_space_facts:
  assumes "is_ascii_space c"
  shows "isspace u [c]" and "\<not> is_continuation c" and "c \<noteq> CHR '',''" and "c \<noteq> CHR ''=''" and "\<not> ident_char c"
proof -
  have "list_all (\<lambda>n. let c = char_of n in in_bytes 9 c 13 \<or> in_bytes 28 c 32) [9, 10, 11, 12, 13, 32 :: nat]"
    "list_all (\<lambda>n. let c = char_of n in \<not> is_continuation c \<and> c \<noteq> CHR '','' \<and> c \<noteq> CHR ''='' \<and> \<not> ident_char c \<and> byte_of c < 128)
       [9, 10, 11, 12, 13, 32 :: nat]" by code_simp+
  moreover have "byte_of c \<in> set [9, 10, 11, 12, 13, 32]" using assms by (simp add: is_ascii_space_def)
  ultimately have "in_bytes 9 c 13 \<or> in_bytes 28 c 32"
    "\<not> is_continuation c \<and> c \<noteq> CHR '','' \<and> c \<noteq> CHR ''='' \<and> \<not> ident_char c \<and> byte_of c < 128"
    unfolding list_all_iff Let_def using char_of_byte_of [of c] by metis+
  then show "isspace u [c]" and "\<not> is_continuation c" and "c \<noteq> CHR '',''" and "c \<noteq> CHR ''=''" and "\<not> ident_char c"
    by (simp_all add: isspace_def ascii_char_def)
qed

lemma ident_char_byte:
  assumes "ident_char c"
  shows "48 \<le> byte_of c \<and> byte_of c \<le> 57 \<or> 65 \<le> byte_of c \<and> byte_of c \<le> 90 \<or> byte_of c = 95 \<or> 97 \<le> byte_of c \<and> byte_of c \<le> 122"
proof -
  have order: "x \<le> y \<longleftrightarrow> byte_of x \<le> byte_of y" for x y by (simp add: less_eq_char_def byte_of_def)
  have bytes: "byte_of CHR ''A'' = 65" "byte_of CHR ''Z'' = 90" "byte_of CHR ''a'' = 97" "byte_of CHR ''z'' = 122"
    "byte_of CHR ''0'' = 48" "byte_of CHR ''9'' = 57" by code_simp+
  have "byte_of CHR ''_'' = 95" by code_simp
  then have "c = CHR ''_'' \<Longrightarrow> byte_of c = 95" by simp
  then show ?thesis using assms
    unfolding ident_char_def is_alpha_ascii_def is_upper_ascii_def is_lower_ascii_def is_digit_ascii_def order bytes by blast
qed

lemma ident_char_facts:
  assumes "ident_char c"
  shows "\<not> isspace u [c]" and "\<not> is_continuation c" and "c \<noteq> CHR '',''" and "c \<noteq> CHR ''=''" and "c \<noteq> CHR '':''"
    and "32 \<le> byte_of c" and "byte_of c \<noteq> 127"
proof -
  have bytes: "byte_of CHR '','' = 44" "byte_of CHR ''='' = 61" "byte_of CHR '':'' = 58" by code_simp+
  note b = ident_char_byte [OF assms]
  have "byte_of c < 128" "\<not> (in_bytes 9 c 13 \<or> in_bytes 28 c 32)" using b unfolding in_bytes_def by linarith+
  then show "\<not> isspace u [c]" by (simp add: isspace_def ascii_char_def)
  show "\<not> is_continuation c" using b unfolding is_continuation_def by linarith
  show "c \<noteq> CHR '',''" "c \<noteq> CHR ''=''" "c \<noteq> CHR '':''" using b bytes by fastforce+
  show "32 \<le> byte_of c" "byte_of c \<noteq> 127" using b by linarith+
qed

lemma dropWhile_all: "list_all P xs \<Longrightarrow> dropWhile P (xs @ ys) = dropWhile P ys"
  by (simp add: list_all_iff dropWhile_append2)

lemma strip_pad:
  assumes l: "list_all is_ascii_space l" and r: "list_all is_ascii_space r" and x: "starts_whole x"
  shows "py_strip u (l @ x @ r) = py_strip u x"
proof -
  have whole: "utf8_chars s = map (\<lambda>c. [c]) s" if "list_all is_ascii_space s" for s
    using that ascii_space_facts(2) by (intro utf8_chars_whole) (simp add: list_all_iff)
  have spaces: "list_all (isspace u) (map (\<lambda>c. [c]) s)" if "list_all is_ascii_space s" for s
    using that ascii_space_facts(1) by (simp add: list_all_iff)
  have start_r: "starts_whole r" using r ascii_space_facts(2) by (cases r) auto
  have start_xr: "starts_whole (x @ r)" using x start_r by (cases x) auto
  have chars: "utf8_chars (l @ x @ r) = map (\<lambda>c. [c]) l @ utf8_chars x @ map (\<lambda>c. [c]) r"
    unfolding utf8_chars_append [OF start_xr] utf8_chars_append [OF start_r] whole [OF l] whole [OF r] by simp
  let ?r = "map (\<lambda>c. [c]) r"
  have rev_r: "list_all (isspace u) (rev ?r)" using spaces [OF r] by simp
  have "dropWhile (isspace u) (rev (dropWhile (isspace u) (utf8_chars x @ ?r)))
      = dropWhile (isspace u) (rev (dropWhile (isspace u) (utf8_chars x)))"
  proof (cases "dropWhile (isspace u) (utf8_chars x) = []")
    case True
    have "dropWhile (isspace u) ?r = []" using spaces [OF r] by (simp only: dropWhile_eq_Nil_conv list_all_iff)
    moreover have "list_all (isspace u) (utf8_chars x)" using True by (simp only: dropWhile_eq_Nil_conv list_all_iff)
    ultimately have "dropWhile (isspace u) (utf8_chars x @ ?r) = []" by (simp only: dropWhile_all)
    then show ?thesis by (simp only: True)
  next
    case False
    then obtain y where "y \<in> set (utf8_chars x)" "\<not> isspace u y" by (auto simp: dropWhile_eq_Nil_conv)
    then have "dropWhile (isspace u) (utf8_chars x @ ?r) = dropWhile (isspace u) (utf8_chars x) @ ?r" by (rule dropWhile_append1)
    then show ?thesis by (simp only: rev_append dropWhile_all [OF rev_r])
  qed
  then show ?thesis unfolding py_strip_def chars dropWhile_all [OF spaces [OF l]] by simp
qed

lemma strip_ident:
  assumes "list_all ident_char s"
  shows "py_strip u s = s"
proof -
  have chars: "utf8_chars s = map (\<lambda>c. [c]) s" using assms ident_char_facts(2) by (intro utf8_chars_whole) (simp add: list_all_iff)
  have none: "dropWhile (isspace u) (map (\<lambda>c. [c]) t) = map (\<lambda>c. [c]) t" if "list_all ident_char t" for t
    using that ident_char_facts(1) by (cases t) simp_all
  have "list_all ident_char (rev s)" using assms by simp
  from none [OF this] show ?thesis unfolding py_strip_def chars none [OF assms] by (simp add: rev_map)
qed

definition rstrip_text :: "unicode_data \<Rightarrow> string \<Rightarrow> string" where
  "rstrip_text u s = concat (rev (dropWhile (isspace u) (rev (utf8_chars s))))"

lemma equals_facts: "\<not> is_continuation CHR ''=''" "\<not> isspace u ''=''"
proof -
  show "\<not> is_continuation CHR ''=''" by code_simp
  have "\<not> (in_bytes 9 CHR ''='' 13 \<or> in_bytes 28 CHR ''='' 32)" "byte_of CHR ''='' < 128" by code_simp+
  then show "\<not> isspace u ''=''" by (simp add: isspace_def ascii_char_def)
qed

lemma strip_setting:
  assumes k: "k \<noteq> []" "list_all ident_char k" and l: "list_all is_ascii_space l" and m: "list_all is_ascii_space m"
    and b: "starts_whole b"
  shows "py_strip u (l @ k @ m @ CHR ''='' # b) = k @ m @ CHR ''='' # rstrip_text u b"
proof -
  let ?A = "map (\<lambda>c. [c]) (k @ m)" and ?B = "utf8_chars b"
  have "starts_whole (k @ m @ CHR ''='' # b)" using k ident_char_facts(2) by (cases k) auto
  from strip_pad [OF l _ this, of "[]"] have pad: "py_strip u (l @ k @ m @ CHR ''='' # b) = py_strip u (k @ m @ CHR ''='' # b)" by simp
  have "list_all (\<lambda>c. \<not> is_continuation c) (k @ m)" using k m ident_char_facts(2) ascii_space_facts(2) by (auto simp: list_all_iff)
  then have km: "utf8_chars (k @ m) = ?A" by (rule utf8_chars_whole)
  have eq: "utf8_chars (''='' @ b) = [''=''] @ ?B" unfolding utf8_chars_append [OF b] by simp
  have "utf8_chars ((k @ m) @ ''='' @ b) = utf8_chars (k @ m) @ utf8_chars (''='' @ b)"
    by (rule utf8_chars_append) (simp add: equals_facts)
  then have chars: "utf8_chars (k @ m @ CHR ''='' # b) = ?A @ ''='' # ?B" unfolding km eq by simp
  have front: "dropWhile (isspace u) (?A @ ''='' # ?B) = ?A @ ''='' # ?B"
    using k ident_char_facts(1) by (cases k) simp_all
  have "dropWhile (isspace u) (rev ?B @ ''='' # rev ?A) = dropWhile (isspace u) (rev ?B) @ ''='' # rev ?A"
    using equals_facts(2) by (simp add: dropWhile_append)
  then show ?thesis unfolding pad unfolding py_strip_def chars front rstrip_text_def by (simp add: rev_map)
qed

section \<open>Numbers\<close>

lemma digit_char_value:
  assumes "n < 10"
  shows "ExprTokens.digit_value (digit_char n) = int n" and "is_digit_ascii (digit_char n)"
proof -
  have "list_all (\<lambda>n. ExprTokens.digit_value (digit_char n) = int n \<and> is_digit_ascii (digit_char n)) [0..<10]" by code_simp
  then show "ExprTokens.digit_value (digit_char n) = int n" and "is_digit_ascii (digit_char n)"
    using assms by (auto simp: list_all_iff)
qed

lemma decimal_digits: "list_all is_digit_ascii (dec_of_nat n) \<and> digits_value 10 (dec_of_nat n) = int n"
proof (induction n rule: dec_of_nat.induct)
  case (1 n)
  show ?case
  proof (cases "n < 10")
    case True
    then show ?thesis using digit_char_value [of n] by (simp add: dec_of_nat.simps [of n] digits_value_def)
  next
    case False
    have "n mod 10 < 10" by simp
    note digit = digit_char_value [OF this]
    have split: "dec_of_nat n = dec_of_nat (n div 10) @ [digit_char (n mod 10)]" using False by (subst dec_of_nat.simps) simp
    have "digits_value 10 (dec_of_nat n) = 10 * digits_value 10 (dec_of_nat (n div 10)) + int (n mod 10)"
      by (simp only: split digits_value_def foldl_append foldl_Cons foldl_Nil digit(1))
    also have "\<dots> = int n" using 1 [OF False] by presburger
    finally show ?thesis using 1 [OF False] digit(2) by (simp only: split list_all_append list.pred_inject simp_thms)
  qed
qed

lemma plain_digits: "s \<noteq> [] \<Longrightarrow> list_all is_digit_ascii s \<Longrightarrow> digits_underscores s"
proof (induction s rule: digits_underscores.induct)
  case (3 c d cs)
  have "d \<noteq> CHR ''_''" using 3(3) underscore_not_alnum [of d] by auto
  then show ?case using 3 by simp
qed simp_all

lemma digit_facts:
  assumes "is_digit_ascii c"
  shows "ident_char c" and "\<not> (in_bytes 9 c 13 \<or> in_bytes 28 c 32)" and "byte_of c < 128" and "c \<noteq> CHR ''-''" and "c \<noteq> CHR ''+''"
proof -
  show id: "ident_char c" using assms by (simp add: ident_char_def)
  have bytes: "byte_of CHR ''-'' = 45" "byte_of CHR ''+'' = 43" by code_simp+
  note b = ident_char_byte [OF id]
  show "\<not> (in_bytes 9 c 13 \<or> in_bytes 28 c 32)" "byte_of c < 128" using b unfolding in_bytes_def by linarith+
  show "c \<noteq> CHR ''-''" "c \<noteq> CHR ''+''" using b bytes by fastforce+
qed

lemma python_int_decimal:
  assumes "0 \<le> i" and "length (dec_of_int i) \<le> 4300"
  shows "python_int env (dec_of_int i) = Some i"
proof -
  let ?s = "dec_of_nat (nat i)"
  have s: "dec_of_int i = ?s" using assms(1) by (simp add: dec_of_int_def)
  note digits = decimal_digits [of "nat i"]
  have ascii: "\<not> list_ex (\<lambda>c. byte_of c \<ge> 128) ?s" using digits digit_facts(3) by (fastforce simp: list_all_iff list_ex_iff)
  have no_space: "dropWhile (\<lambda>b. in_bytes 9 b 13 \<or> in_bytes 28 b 32) t = t" if "list_all is_digit_ascii t" for t
    using that digit_facts(2) by (cases t) simp_all
  have "list_all is_digit_ascii (rev ?s)" using digits by simp
  then have strip: "strip_ascii ?s = ?s" using no_space digits by (simp add: strip_ascii_def)
  have "hd ?s \<in> set ?s" by simp
  then have "is_digit_ascii (hd ?s)" using digits by (simp add: list_all_iff)
  from digit_facts(4,5) [OF this] have sign: "\<not> startswith ?s ''-''" "\<not> startswith ?s ''+''"
    by (cases ?s; simp add: startswith_def)+
  have all: "filter is_digit_ascii ?s = ?s" using digits by (simp add: list_all_iff filter_id_conv)
  show ?thesis
    unfolding s python_int_def if_not_P [OF ascii] Let_def strip using assms digits sign all
    by (simp add: s plain_digits)
qed

section \<open>Valid options\<close>

definition stripped :: "unicode_data \<Rightarrow> string \<Rightarrow> bool" where
  "stripped u s \<longleftrightarrow> py_strip u s = s"

definition portable_directory :: "unicode_data \<Rightarrow> string \<Rightarrow> bool" where
  "portable_directory u v \<longleftrightarrow> control_free v \<and>
     (\<forall>s\<in>set (split_on CHR ''/'' v). s \<notin> {[], ''.'', ''..''} \<and> stripped u s
        \<and> set s \<inter> set INVALID_VIRTUAL_PATH_CHARACTERS = {} \<and> \<not> endswith s ''.''
        \<and> device_stem s \<notin> set WINDOWS_RESERVED_PATH_NAMES)"

definition namespace_text :: "string \<Rightarrow> bool" where
  "namespace_text v \<longleftrightarrow> v = [] \<or> list_all is_portable_identifier (split_colons v)"

definition valid_options :: "unicode_data \<Rightarrow> GeneratorOptions \<Rightarrow> bool" where
  "valid_options u p \<longleftrightarrow>
     namespace_text (namespace_prefix p)
     \<and> (case reflection_api_macro p of None \<Rightarrow> True | Some m \<Rightarrow> is_reflection_api_macro m)
     \<and> portable_directory u (runtime_prefix p)
     \<and> (include_prefix p = [] \<or> portable_directory u (include_prefix p))
     \<and> format_mode p \<in> {''auto'', ''off'', ''required''}
     \<and> (format_mode p = ''required'' \<or> clang_format p = None \<and> clang_format_config p = None)
     \<and> clang_format p \<noteq> Some [] \<and> clang_format_config p \<noteq> Some []
     \<and> (case formatter_timeout p of None \<Rightarrow> True | Some t \<Rightarrow> is_finite t \<and> 0 < float_sign t)
     \<and> (case generated_path_max_bytes p of None \<Rightarrow> True | Some n \<Rightarrow> MIN_HASHED_GENERATED_FILE_PATH_BYTES \<le> n)
     \<and> (case generated_directory_max_bytes p of None \<Rightarrow> True | Some n \<Rightarrow> 0 \<le> n)"

lemma split_slash_member: "c \<in> set v \<Longrightarrow> c \<noteq> CHR ''/'' \<Longrightarrow> \<exists>s\<in>set (split_on CHR ''/'' v). c \<in> set s"
proof (induction v)
  case (Cons x v)
  then show ?case by (cases "split_on CHR ''/'' v") auto
qed simp

lemma validate_directory_iff: "validate_virtual_directory_prefix u v q = Inr () \<longleftrightarrow> portable_directory u v"
proof (cases "v = [] \<or> startswith v ''/'' \<or> CHR '':'' \<in> set v \<or> CHR 0x5C \<in> set v")
  case True
  then consider "v = []" | r where "v = CHR ''/'' # r" | "CHR '':'' \<in> set v" | "CHR 0x5C \<in> set v"
    by (auto simp: startswith_iff)
  then have "\<not> portable_directory u v"
  proof cases
    case 3
    then obtain s where "s \<in> set (split_on CHR ''/'' v)" "CHR '':'' \<in> set s" using split_slash_member by fastforce
    then show ?thesis by (auto simp: portable_directory_def INVALID_VIRTUAL_PATH_CHARACTERS_def)
  next
    case 4
    then obtain s where "s \<in> set (split_on CHR ''/'' v)" "CHR 0x5C \<in> set s" using split_slash_member by fastforce
    then show ?thesis by (auto simp: portable_directory_def INVALID_VIRTUAL_PATH_CHARACTERS_def)
  qed (simp_all add: portable_directory_def)
  with True show ?thesis by (auto simp: validate_virtual_directory_prefix_def)
next
  case False
  have if_Inl: "(if b then Inl e else m) = Inr x \<longleftrightarrow> \<not> b \<and> m = Inr x" for b x and e :: 'e and m :: "'e + 'x" by simp
  have characters: "list_ex (List.member INVALID_VIRTUAL_PATH_CHARACTERS) s \<longleftrightarrow> set s \<inter> set INVALID_VIRTUAL_PATH_CHARACTERS \<noteq> {}" for s
    by (auto simp: list_ex_iff)
  have special: "List.member [[], ''.'', ''..''] s \<longleftrightarrow> s \<in> {[], ''.'', ''..''}" for s by auto
  have strip: "s \<noteq> py_strip u s \<longleftrightarrow> \<not> stripped u s" for s by (auto simp: stripped_def)
  have parts: "\<not> v = []" "\<not> (startswith v ''/'' \<or> List.member v CHR '':'')" "\<not> List.member v CHR 0x5C" using False by simp_all
  show ?thesis
    unfolding validate_virtual_directory_prefix_def portable_directory_def Let_def characters list_ex_iff special strip
      if_not_P [OF parts(1)] if_not_P [OF parts(2)] if_not_P [OF parts(3)] if_Inl List.member_iff
    using False unfolding list.set by blast
qed

lemma split_colons_chars: "set v \<subseteq> insert CHR '':'' (\<Union>c\<in>set (split_colons v). set c)"
proof (induction v rule: split_colons.induct)
  case (3 c d s)
  show ?case
  proof (cases "c = CHR '':'' \<and> d = CHR '':''")
    case True
    then show ?thesis using 3(1) by auto
  next
    case False
    then show ?thesis using 3(2) [OF False] by (cases "split_colons (d # s)") auto
  qed
qed simp_all

lemma portable_ident: "is_portable_identifier c \<Longrightarrow> c \<noteq> [] \<and> list_all ident_char c"
  by (cases c) (auto simp: is_portable_identifier_def is_cpp_identifier_def ident_char_def ident_start_def)

lemma validate_namespace_iff: "validate_namespace_prefix u v = Inr () \<longleftrightarrow> namespace_text v"
proof (cases "list_all is_portable_identifier (split_colons v)")
  case True
  then have ident: "c \<noteq> [] \<and> list_all ident_char c" if "c \<in> set (split_colons v)" for c
    using that portable_ident [of c] by (simp add: list_all_iff)
  then have plain: "\<not> list_ex (\<lambda>c. c = [] \<or> c \<noteq> py_strip u c \<or> List.member c CHR '':'') (split_colons v)"
    using strip_ident ident_char_facts(5) by (fastforce simp: list_ex_iff list_all_iff)
  have "32 \<le> byte_of CHR '':'' \<and> byte_of CHR '':'' \<noteq> 127" by code_simp
  then have control: "control_free v"
    using split_colons_chars [of v] ident ident_char_facts(6,7) by (fastforce simp: control_free_def list_all_iff)
  have "\<not> list_ex (\<lambda>c. \<not> is_cpp_identifier c \<or> List.member CPP_KEYWORDS c \<or> startswith c ''_'' \<or> occurs_in ''__'' c) (split_colons v)"
    using True by (simp add: list_ex_iff list_all_iff is_portable_identifier_def)
  then show ?thesis using plain control True by (simp add: validate_namespace_prefix_def namespace_text_def Let_def)
next
  case False
  then have "list_ex (\<lambda>c. \<not> is_cpp_identifier c \<or> List.member CPP_KEYWORDS c \<or> startswith c ''_'' \<or> occurs_in ''__'' c) (split_colons v)"
    by (auto simp: list_ex_iff list_all_iff is_portable_identifier_def)
  then show ?thesis using False by (simp add: validate_namespace_prefix_def namespace_text_def Let_def)
qed

lemma post_init_valid: "valid_options u p \<Longrightarrow> post_init u p = Inr p"
proof -
  assume valid: "valid_options u p"
  have a: "validate_namespace_prefix u (namespace_prefix p) = Inr ()"
    using valid by (simp only: validate_namespace_iff valid_options_def)
  have b: "(case reflection_api_macro p of None \<Rightarrow> Inr () | Some m \<Rightarrow> validate_reflection_api_macro m) = Inr ()"
    using valid by (simp add: valid_options_def validate_reflection_api_macro_def split: option.splits)
  have c: "validate_virtual_directory_prefix u (runtime_prefix p) q = Inr ()" for q
    using valid by (simp only: validate_directory_iff valid_options_def)
  have d: "(if include_prefix p \<noteq> [] then validate_virtual_directory_prefix u (include_prefix p) q else Inr ()) = Inr ()" for q
    using valid by (auto simp: validate_directory_iff valid_options_def)
  have e: "raise_if (\<not> List.member FORMAT_MODES (format_mode p)) x = Inr ()" for x
    using valid by (auto simp: valid_options_def FORMAT_MODES_def)
  have f: "raise_if (clang_format p = Some []) x = Inr ()" "raise_if (clang_format_config p = Some []) x = Inr ()" for x
    using valid by (simp_all add: valid_options_def)
  have g: "(case formatter_timeout p of None \<Rightarrow> Inr p | Some t \<Rightarrow> if \<not> is_finite t \<or> float_sign t < 0 then Inl x
      else Inr (if float_sign t = 0 then p\<lparr>formatter_timeout := None\<rparr> else p)) = Inr p" for x :: parameter_error
    using valid by (cases "formatter_timeout p") (simp_all add: valid_options_def)
  have h: "raise_if (case generated_path_max_bytes p of None \<Rightarrow> False | Some n \<Rightarrow> n < MIN_HASHED_GENERATED_FILE_PATH_BYTES) x = Inr ()"
    "raise_if (case generated_directory_max_bytes p of None \<Rightarrow> False | Some n \<Rightarrow> n < 0) x = Inr ()" for x
    using valid by (simp_all add: valid_options_def split: option.splits)
  have i: "raise_if (format_mode p = ''off'' \<and> (clang_format p \<noteq> None \<or> clang_format_config p \<noteq> None)) x = Inr ()" for x
    using valid by (auto simp: valid_options_def)
  show ?thesis unfolding post_init_def a b c d e f g h i rbind.simps ..
qed

section \<open>Settings\<close>

definition opt_setting :: "string \<Rightarrow> string option \<Rightarrow> (string \<times> string) list" where
  "opt_setting k v = (case v of None \<Rightarrow> [] | Some x \<Rightarrow> [(k, x)])"

definition settings_of :: "string \<Rightarrow> GeneratorOptions \<Rightarrow> (string \<times> string) list" where
  \<comment> \<open>\<open>t\<close> is the text of the timeout\<close>
  "settings_of t p =
     [(''runtime'', if emit_runtime p then ''emit'' else ''omit''), (''runtime_prefix'', runtime_prefix p),
      (''comments'', if emit_comments p then ''on'' else ''off''), (''format'', format_mode p),
      (''formatter_timeout_seconds'', t), (''namespace_prefix'', namespace_prefix p)]
     @ opt_setting ''include_prefix'' (if include_prefix p = [] then None else Some (include_prefix p))
     @ opt_setting ''_protocyte_reflection_api_macro'' (reflection_api_macro p)
     @ opt_setting ''clang_format'' (clang_format p) @ opt_setting ''clang_format_config'' (clang_format_config p)
     @ opt_setting ''_protocyte_generated_path_max_bytes'' (map_option dec_of_int (generated_path_max_bytes p))
     @ opt_setting ''_protocyte_generated_directory_max_bytes'' (map_option dec_of_int (generated_directory_max_bytes p))"

record spacing =
  before_name :: string
  after_name :: string
  before_value :: string
  after_value :: string

datatype parameter_item = BlankPart string | Setting spacing string string

fun item_text :: "parameter_item \<Rightarrow> string" where
  "item_text (BlankPart s) = s"
| "item_text (Setting w k v) = before_name w @ k @ after_name w @ CHR ''='' # before_value w @ v @ after_value w"

fun item_ok :: "unicode_data \<Rightarrow> parameter_item \<Rightarrow> bool" where
  "item_ok u (BlankPart s) = list_all is_ascii_space s"
| "item_ok u (Setting w k v) =
     (list_all is_ascii_space (before_name w) \<and> list_all is_ascii_space (after_name w)
      \<and> list_all is_ascii_space (before_value w) \<and> list_all is_ascii_space (after_value w)
      \<and> List.member PARAMETER_NAMES k \<and> stripped u v \<and> CHR '','' \<notin> set v \<and> starts_whole v
      \<and> (prefix_parameter k v = None \<or> before_value w = [] \<and> after_value w = [] \<and> control_free v))"

fun item_settings :: "parameter_item \<Rightarrow> (string \<times> string) list" where
  "item_settings (BlankPart s) = []"
| "item_settings (Setting w k v) = [(k, v)]"

definition parameter_text :: "parameter_item list \<Rightarrow> string" where
  "parameter_text items = join '','' (map item_text items)"

definition settings_in :: "parameter_item list \<Rightarrow> (string \<times> string) list" where
  "settings_in items = concat (map item_settings items)"

section \<open>Parts\<close>

lemma parameter_names_ident: "list_all (\<lambda>k. k \<noteq> [] \<and> list_all ident_char k \<and> k \<noteq> TRANSPORT_NAME) PARAMETER_NAMES"
  by code_simp

lemma parameter_name_facts:
  assumes "List.member PARAMETER_NAMES k"
  shows "k \<noteq> []" and "list_all ident_char k" and "k \<noteq> TRANSPORT_NAME"
  using parameter_names_ident assms by (auto simp: list_all_iff)

lemma strip_blank: "list_all is_ascii_space s \<Longrightarrow> py_strip u s = []"
  using strip_pad [of s "[]" "[]" u] by (simp add: py_strip_def)

lemma not_in_spaces: "list_all is_ascii_space s \<Longrightarrow> CHR '','' \<notin> set s \<and> CHR ''='' \<notin> set s"
  using ascii_space_facts(3,4) by (fastforce simp: list_all_iff)

lemma not_in_ident: "list_all ident_char s \<Longrightarrow> CHR '','' \<notin> set s \<and> CHR ''='' \<notin> set s"
  using ident_char_facts(3,4) by (fastforce simp: list_all_iff)

lemma space_start: "list_all is_ascii_space s \<Longrightarrow> starts_whole s"
  using ascii_space_facts(2) by (cases s) auto

lemma value_start:
  assumes "list_all is_ascii_space a" and "list_all is_ascii_space b" and "starts_whole v"
  shows "starts_whole (a @ v @ b)"
  using assms space_start [OF assms(1)] space_start [OF assms(2)] by (cases a; cases v) auto

lemma split_pair_setting:
  assumes "CHR ''='' \<notin> set a"
  shows "split_pair (a @ CHR ''='' # b) = (a, b)"
proof -
  have a: "x \<noteq> CHR ''=''" if "x \<in> set a" for x using assms that by blast
  have "first_part CHR ''='' (a @ CHR ''='' # b) = a" using a by (simp add: first_part_def takeWhile_append2)
  moreover have "dropWhile (\<lambda>c. c \<noteq> CHR ''='') (a @ CHR ''='' # b) = CHR ''='' # b"
    using assms by (subst dropWhile_append2) auto
  ultimately show ?thesis by (simp add: split_pair_def)
qed

lemma setting_part:
  assumes "item_ok u (Setting w k v)"
  shows "py_strip u (item_text (Setting w k v)) = k @ after_name w @ CHR ''='' # rstrip_text u (before_value w @ v @ after_value w)"
    and "split_pair (item_text (Setting w k v)) = (before_name w @ k @ after_name w, before_value w @ v @ after_value w)"
    and "py_strip u (before_name w @ k @ after_name w) = k"
    and "py_strip u (before_value w @ v @ after_value w) = v"
    and "CHR '','' \<notin> set (item_text (Setting w k v))"
proof -
  have sp: "list_all is_ascii_space (before_name w)" "list_all is_ascii_space (after_name w)"
      "list_all is_ascii_space (before_value w)" "list_all is_ascii_space (after_value w)"
    and k: "List.member PARAMETER_NAMES k" and v: "stripped u v" "CHR '','' \<notin> set v" "starts_whole v"
    using assms by simp_all
  note name = parameter_name_facts(1,2) [OF k]
  show "py_strip u (item_text (Setting w k v)) = k @ after_name w @ CHR ''='' # rstrip_text u (before_value w @ v @ after_value w)"
    unfolding item_text.simps by (rule strip_setting [OF name sp(1,2) value_start [OF sp(3,4) v(3)]])
  show "split_pair (item_text (Setting w k v)) = (before_name w @ k @ after_name w, before_value w @ v @ after_value w)"
    using split_pair_setting [of "before_name w @ k @ after_name w" "before_value w @ v @ after_value w"]
      not_in_spaces [OF sp(1)] not_in_spaces [OF sp(2)] not_in_ident [OF name(2)] by simp
  have "starts_whole k" using name ident_char_facts(2) by (cases k) auto
  from strip_pad [OF sp(1,2) this] show "py_strip u (before_name w @ k @ after_name w) = k" by (simp add: strip_ident [OF name(2)])
  from strip_pad [OF sp(3,4) v(3)] v(1) show "py_strip u (before_value w @ v @ after_value w) = v" by (simp add: stripped_def)
  show "CHR '','' \<notin> set (item_text (Setting w k v))"
    using not_in_spaces [OF sp(1)] not_in_spaces [OF sp(2)] not_in_spaces [OF sp(3)] not_in_spaces [OF sp(4)]
      not_in_ident [OF name(2)] v(2) by simp
qed

lemma parse_item:
  assumes "item_ok u i" and "fst ` set (item_settings i) \<inter> fst ` set vs = {}"
  shows "parse_part u p (item_text i) vs = Inr (vs @ item_settings i)"
proof (cases i)
  case (BlankPart s)
  then show ?thesis using assms(1) by (simp add: parse_part_def strip_blank)
next
  case (Setting w k v)
  note part = setting_part [OF assms(1) [unfolded Setting]]
  have fresh: "k \<notin> fst ` set vs" using assms(2) by (simp add: Setting)
  then have none: "map_of vs k = None" by (simp add: map_of_eq_None_iff)
  have nonempty: "py_strip u (item_text i) \<noteq> []" "List.member (py_strip u (item_text i)) CHR ''=''"
    unfolding Setting part(1) by simp_all
  have name: "k \<noteq> []" using assms(1) parameter_name_facts(1) by (simp add: Setting)
  have checked: "(case prefix_parameter k v of None \<Rightarrow> Inr ()
      | Some q \<Rightarrow> if \<not> control_free (before_value w @ v @ after_value w) then Inl (Prefix_control q)
          else raise_if (before_value w @ v @ after_value w \<noteq> v) (Prefix_whitespace q)) = Inr ()"
    using assms(1) by (cases "prefix_parameter k v") (simp_all add: Setting)
  have equals: "\<not> (\<not> List.member (py_strip u (item_text i)) CHR ''='')" using nonempty(2) by simp
  show ?thesis
    unfolding parse_part_def Let_def if_not_P [OF nonempty(1)] if_not_P [OF equals] unfolding Setting part(2) prod.case part(3,4)
      if_not_P [OF name] checked by (simp add: none dict_set_fresh [OF fresh])
qed

lemma parse_items:
  assumes "list_all (item_ok u) items" and "distinct (map fst (vs @ settings_in items))"
  shows "rfold (parse_part u p) (map item_text items) vs = Inr (vs @ settings_in items)"
  using assms
proof (induction items arbitrary: vs)
  case (Cons i items)
  have "fst ` set (item_settings i) \<inter> fst ` set vs = {}" using Cons.prems(2) by (auto simp: settings_in_def)
  from parse_item [OF _ this] Cons.prems(1) have "parse_part u p (item_text i) vs = Inr (vs @ item_settings i)" by simp
  moreover have "rfold (parse_part u p) (map item_text items) (vs @ item_settings i) = Inr ((vs @ item_settings i) @ settings_in items)"
    by (rule Cons.IH) (use Cons.prems in \<open>simp_all add: settings_in_def\<close>)
  ultimately show ?case by (simp add: settings_in_def)
qed (simp add: settings_in_def)

lemma split_parameter_text:
  assumes "list_all (item_ok u) items" and "items \<noteq> []"
  shows "split_on CHR '','' (parameter_text items) = map item_text items"
  unfolding parameter_text_def
proof (rule split_on_join)
  have "CHR '','' \<notin> set (item_text i)" if "item_ok u i" for i
    using that setting_part(5) not_in_spaces by (cases i) (simp_all del: item_text.simps(2))
  then show "\<forall>w\<in>set (map item_text items). CHR '','' \<notin> set w" using assms(1) by (simp add: list_all_iff)
qed (use assms(2) in simp)

lemma plain_transport:
  assumes "list_all (item_ok u) items" and "items \<noteq> []"
  shows "decode_transport_parameter u (parameter_text items) = Inr (parameter_text items)"
proof -
  have "\<not> (py_strip u (item_text i) \<noteq> [] \<and> first_part CHR ''='' (py_strip u (item_text i)) = TRANSPORT_NAME)" if "item_ok u i" for i
  proof (cases i)
    case (BlankPart s)
    then show ?thesis using that by (simp add: strip_blank)
  next
    case (Setting w k v)
    have k: "List.member PARAMETER_NAMES k" and sp: "list_all is_ascii_space (after_name w)" using that by (simp_all add: Setting)
    note name = parameter_name_facts [OF k]
    have "first_part CHR ''='' (k @ after_name w @ CHR ''='' # b) = k @ after_name w" for b
      using split_pair_setting [of "k @ after_name w" b] not_in_spaces [OF sp] not_in_ident [OF name(2)] by (simp add: split_pair_def)
    moreover have "k @ after_name w \<noteq> TRANSPORT_NAME"
    proof
      assume eq: "k @ after_name w = TRANSPORT_NAME"
      have "list_all ident_char TRANSPORT_NAME" by code_simp
      then have "list_all ident_char (after_name w)" by (simp flip: eq)
      with sp have "after_name w = []" using ascii_space_facts(5) by (cases "after_name w") auto
      with eq name(3) show False by simp
    qed
    ultimately show ?thesis unfolding Setting setting_part(1) [OF that [unfolded Setting]] by simp
  qed
  then have "filter (\<lambda>s. first_part CHR ''='' s = TRANSPORT_NAME) (filter (\<lambda>s. s \<noteq> []) (map (py_strip u) (map item_text items))) = []"
    using assms(1) by (auto simp: filter_empty_conv list_all_iff)
  then show ?thesis unfolding decode_transport_parameter_def Let_def split_parameter_text [OF assms] by simp
qed

lemma hex_transport:
  assumes "valid_utf8 p"
  shows "decode_transport_parameter u (TRANSPORT_NAME @ CHR ''='' # hex_of p) = Inr p"
proof -
  let ?t = "TRANSPORT_NAME @ CHR ''='' # hex_of p"
  have "list_all ident_char TRANSPORT_NAME" and ne: "TRANSPORT_NAME \<noteq> []" by code_simp+
  note name = this
  have "list_all ident_char ''0123456789abcdef''" by code_simp
  then have hex: "list_all ident_char (hex_of p)" using hex_of_set [of p] by (auto simp: list_all_iff)
  have start: "starts_whole (hex_of p)" using hex ident_char_facts(2) by (cases "hex_of p") auto
  have none: "dropWhile (isspace u) (map (\<lambda>c. [c]) s) = map (\<lambda>c. [c]) s" if "list_all ident_char s" for s
    using that ident_char_facts(1) by (cases s) simp_all
  have chars: "utf8_chars (hex_of p) = map (\<lambda>c. [c]) (hex_of p)"
    using hex ident_char_facts(2) by (intro utf8_chars_whole) (simp add: list_all_iff)
  have "list_all ident_char (rev (hex_of p))" using hex by simp
  from none [OF this] have "rstrip_text u (hex_of p) = hex_of p" unfolding rstrip_text_def chars by (simp add: rev_map)
  with strip_setting [of TRANSPORT_NAME "[]" "[]" "hex_of p" u] name start have strip: "py_strip u ?t = ?t" by simp
  have no_comma: "CHR '','' \<notin> set ?t" using not_in_ident [OF name(1)] not_in_ident [OF hex] by simp
  have pair: "split_pair ?t = (TRANSPORT_NAME, hex_of p)" by (rule split_pair_setting) (use not_in_ident [OF name(1)] in blast)
  then have first: "first_part CHR ''='' ?t = TRANSPORT_NAME" by (simp add: split_pair_def)
  show ?thesis
    unfolding decode_transport_parameter_def Let_def split_on_no_occ [OF no_comma] list.map strip
    by (simp add: first pair decode_hex_transport_parameter_def fromhex_hex_of assms)
qed

section \<open>Options are read back\<close>

lemma known_settings: "(k, v) \<in> set (settings_in items) \<Longrightarrow> list_all (item_ok u) items \<Longrightarrow> List.member PARAMETER_NAMES k"
proof -
  assume "(k, v) \<in> set (settings_in items)" and ok: "list_all (item_ok u) items"
  then obtain i where i: "i \<in> set items" "(k, v) \<in> set (item_settings i)" by (auto simp: settings_in_def)
  have "item_ok u i" using ok i(1) unfolding list_all_iff by blast
  then show ?thesis using i(2) by (cases i) simp_all
qed

lemma options_of_cong: "map_of vs = map_of vs' \<Longrightarrow> options_of env vs = options_of env vs'"
proof -
  assume same: "map_of vs = map_of vs'"
  show ?thesis unfolding options_of_def runtime_choice_def get_default_def same by (rule refl)
qed

lemma opt_setting_facts:
  "map_of (opt_setting k v) j = (if j = k then v else None)" "distinct (map fst (opt_setting k v))"
  "x \<in> fst ` set (opt_setting k v) \<Longrightarrow> x = k"
  by (cases v; simp add: opt_setting_def)+

lemma distinct_settings: "distinct (map fst (settings_of t p))"
  unfolding settings_of_def by (auto simp: opt_setting_facts(2) dest!: opt_setting_facts(3) simp del: map_map)

lemma map_of_mset:
  assumes "mset xs = mset ys" and "distinct (map fst ys)"
  shows "map_of xs = map_of ys" and "distinct (map fst xs)"
proof -
  have "mset (map fst xs) = mset (map fst ys)" unfolding mset_map assms(1) by (rule refl)
  then show distinct: "distinct (map fst xs)" by (simp only: assms(2) mset_eq_imp_distinct_iff)
  show "map_of xs = map_of ys"
    by (rule map_of_inject_set [OF distinct assms(2), THEN iffD2, OF mset_eq_setD [OF assms(1)]])
qed

lemma settings_lookup:
  "map_of (settings_of t p) ''runtime'' = Some (if emit_runtime p then ''emit'' else ''omit'')"
  "map_of (settings_of t p) ''runtime_prefix'' = Some (runtime_prefix p)"
  "map_of (settings_of t p) ''comments'' = Some (if emit_comments p then ''on'' else ''off'')"
  "map_of (settings_of t p) ''format'' = Some (format_mode p)"
  "map_of (settings_of t p) ''formatter_timeout_seconds'' = Some t"
  "map_of (settings_of t p) ''namespace_prefix'' = Some (namespace_prefix p)"
  "map_of (settings_of t p) ''include_prefix'' = (if include_prefix p = [] then None else Some (include_prefix p))"
  "map_of (settings_of t p) ''_protocyte_reflection_api_macro'' = reflection_api_macro p"
  "map_of (settings_of t p) ''clang_format'' = clang_format p"
  "map_of (settings_of t p) ''clang_format_config'' = clang_format_config p"
  "map_of (settings_of t p) ''_protocyte_generated_path_max_bytes'' = map_option dec_of_int (generated_path_max_bytes p)"
  "map_of (settings_of t p) ''_protocyte_generated_directory_max_bytes'' = map_option dec_of_int (generated_directory_max_bytes p)"
  by (simp_all add: settings_of_def opt_setting_facts(1) map_add_def split: option.split)

definition expressible :: "parameter_env \<Rightarrow> string \<Rightarrow> GeneratorOptions \<Rightarrow> bool" where
  \<comment> \<open>the text of the timeout is read as the timeout, and the budgets are not too long for \<^verbatim>\<open>int\<close>\<close>
  "expressible env t p \<longleftrightarrow> t \<noteq> [] \<and> parse_formatter_timeout_seconds env t = Inr (formatter_timeout p)
     \<and> pred_option (\<lambda>n. length (dec_of_int n) \<le> 4300) (generated_path_max_bytes p)
     \<and> pred_option (\<lambda>n. length (dec_of_int n) \<le> 4300) (generated_directory_max_bytes p)"

lemma dec_of_int_nonempty: "dec_of_int i \<noteq> []"
  by (simp add: dec_of_int_def)

lemma budget_read:
  assumes "pred_option (\<lambda>n. length (dec_of_int n) \<le> 4300) b" and "pred_option (\<lambda>n. 0 \<le> n) b"
  shows "budget_choice env (map_option dec_of_int b) x y = Inr b"
  using assms by (cases b) (simp_all add: budget_choice_def dec_of_int_nonempty python_int_decimal)

lemma options_of_settings:
  assumes valid: "valid_options (unicode env) p" and spelled: "expressible env t p"
  shows "options_of env (settings_of t p) = Inr p"
proof -
  note look = settings_lookup [of t p]
  let ?vs = "settings_of t p"
  have default: "get_default ?vs ''comments'' d = (if emit_comments p then ''on'' else ''off'')"
    "get_default ?vs ''format'' d = format_mode p" "get_default ?vs ''include_prefix'' [] = include_prefix p"
    "get_default ?vs ''namespace_prefix'' d = namespace_prefix p" for d
    by (simp_all add: get_default_def look)
  have runtime: "runtime_choice ?vs = Inr (emit_runtime p, runtime_prefix p)"
    by (cases "emit_runtime p") (simp_all add: runtime_choice_def get_default_def look startswith_def)
  have comments: "raise_if (\<not> List.member [''on'', ''off''] (if emit_comments p then ''on'' else ''off'')) x = Inr ()" for x by simp
  have directory: "validate_virtual_directory_prefix (unicode env) (runtime_prefix p) q = Inr ()" for q
    using valid by (simp only: validate_directory_iff valid_options_def)
  have "include_prefix p = [] \<or> portable_directory (unicode env) (include_prefix p)" using valid by (simp only: valid_options_def)
  then have inclusion: "(if map_of ?vs ''include_prefix'' \<noteq> None then validate_virtual_directory_prefix (unicode env) (include_prefix p) q else Inr ())
      = Inr ()" for q by (auto simp: look validate_directory_iff)
  have mode: "raise_if (\<not> List.member FORMAT_MODES (format_mode p)) x = Inr ()" for x
    using valid by (auto simp: valid_options_def FORMAT_MODES_def)
  have formatter: "raise_if (clang_format p = Some []) x = Inr ()" "raise_if (clang_format_config p = Some []) x = Inr ()"
    "raise_if (format_mode p = ''off'' \<and> (clang_format p \<noteq> None \<or> clang_format_config p \<noteq> None)) x = Inr ()"
    "(if clang_format p \<noteq> None \<or> clang_format_config p \<noteq> None then ''required'' else format_mode p) = format_mode p" for x
    using valid by (auto simp: valid_options_def)
  have timeout: "(case Some t of None \<Rightarrow> Inr (Some DEFAULT_FORMATTER_TIMEOUT_SECONDS)
      | Some t \<Rightarrow> if t = [] then Inl Timeout_empty else parse_formatter_timeout_seconds env t) = Inr (formatter_timeout p)"
    using spelled by (simp add: expressible_def)
  have "(0 :: int) \<le> MIN_HASHED_GENERATED_FILE_PATH_BYTES" by code_simp
  then have "pred_option (\<lambda>n. 0 \<le> n) (generated_path_max_bytes p)" "pred_option (\<lambda>n. 0 \<le> n) (generated_directory_max_bytes p)"
    using valid by (auto simp: valid_options_def split: option.splits)
  note budgets = budget_read [OF _ this(1), of env] budget_read [OF _ this(2), of env]
  have budget: "budget_choice env (map_option dec_of_int (generated_path_max_bytes p)) x y = Inr (generated_path_max_bytes p)"
    "budget_choice env (map_option dec_of_int (generated_directory_max_bytes p)) x y = Inr (generated_directory_max_bytes p)" for x y
    using spelled by (simp_all add: expressible_def budgets)
  have flag: "((if emit_comments p then ''on'' else ''off'') = ''on'') = emit_comments p" by simp
  show ?thesis
    unfolding options_of_def Let_def default runtime rbind.simps prod.case comments directory inclusion look(5,8-12) mode formatter timeout budget flag
    using post_init_valid [OF valid] by (cases p) simp
qed

text \<open>
  The parser reads valid options back from any text of their settings: in any order, with white space and
  empty parts, plain or in hexadecimal.
\<close>

theorem parameters_read_back:
  assumes "valid_options (unicode env) p" and "expressible env t p"
    and "list_all (item_ok (unicode env)) items" and "mset (settings_in items) = mset (settings_of t p)"
    and "valid_utf8 (parameter_text items)"
  shows "parse_parameter env (parameter_text items) = Inr p
    \<and> parse_parameter env (TRANSPORT_NAME @ CHR ''='' # hex_of (parameter_text items)) = Inr p"
proof -
  let ?u = "unicode env" and ?p = "parameter_text items" and ?vs = "settings_in items"
  have "settings_of t p \<noteq> []" by (simp add: settings_of_def)
  then have ne: "items \<noteq> []" using assms(4) by (auto simp: settings_in_def)
  note same = map_of_mset [OF assms(4) distinct_settings]
  have "rfold (parse_part ?u q) (map item_text items) [] = Inr ?vs" for q
    using parse_items [OF assms(3), of "[]" q] same(2) by simp
  then have parts: "rfold (parse_part ?u q) (split_on CHR '','' ?p) [] = Inr ?vs" for q
    unfolding split_parameter_text [OF assms(3) ne] .
  have "rfold (parse_part ?u q) (split_on CHR '','' []) [] = Inr []" for q by (simp add: parse_part_def py_strip_def)
  with parts have all: "(if ?p = [] then Inr [] else rfold (parse_part ?u ?p) (split_on CHR '','' ?p) []) = Inr ?vs"
    by (metis sum.inject(2))
  have "List.member PARAMETER_NAMES k" if "k \<in> set (map fst ?vs)" for k
    using that known_settings [OF _ assms(3)] by auto
  then have known: "\<not> filter (\<lambda>k. \<not> List.member PARAMETER_NAMES k) (map fst ?vs) \<noteq> []" by (simp only: filter_empty_conv) blast
  have "options_of env ?vs = Inr p"
    using options_of_cong [OF same(1)] options_of_settings [OF assms(1,2)] by simp
  then have read: "rbind (Inr ?p) (\<lambda>p. rbind (if p = [] then Inr [] else rfold (parse_part ?u p) (split_on CHR '','' p) []) (\<lambda>vs.
     let unknown = filter (\<lambda>k. \<not> List.member PARAMETER_NAMES k) (map fst vs) in
     if unknown \<noteq> [] then Inl (Parameters_unknown (sort unknown)) else options_of env vs)) = Inr p"
    unfolding rbind.simps all Let_def if_not_P [OF known] .
  show ?thesis
    unfolding parse_parameter_def plain_transport [OF assms(3) ne] hex_transport [OF assms(5)]
    by (intro conjI read)
qed

text \<open>Conversely, whatever the parser returns is valid.\<close>

lemma post_init_result:
  assumes "post_init u p = Inr q" and "format_mode p = ''required'' \<or> clang_format p = None \<and> clang_format_config p = None"
  shows "valid_options u q"
proof -
  from assms(1) have ns: "namespace_text (namespace_prefix p)"
    and macro: "(case reflection_api_macro p of None \<Rightarrow> Inr () | Some m \<Rightarrow> validate_reflection_api_macro m) = Inr ()"
    and rp: "portable_directory u (runtime_prefix p)"
    and ip: "include_prefix p = [] \<or> portable_directory u (include_prefix p)"
    and mode: "List.member FORMAT_MODES (format_mode p)"
    and formatter: "clang_format p \<noteq> Some []" "clang_format_config p \<noteq> Some []"
    and timeout: "(case formatter_timeout p of None \<Rightarrow> Inr p | Some t \<Rightarrow> if \<not> is_finite t \<or> float_sign t < 0 then Inl Timeout_invalid
         else Inr (if float_sign t = 0 then p\<lparr>formatter_timeout := None\<rparr> else p)) = Inr q"
    and path: "\<not> (case generated_path_max_bytes p of None \<Rightarrow> False | Some n \<Rightarrow> n < MIN_HASHED_GENERATED_FILE_PATH_BYTES)"
    and dir: "\<not> (case generated_directory_max_bytes p of None \<Rightarrow> False | Some n \<Rightarrow> n < 0)"
    unfolding post_init_def rbind_Inr_iff raise_if_ok by (auto simp: validate_namespace_iff validate_directory_iff split: if_split_asm)
  have q: "q = p \<and> (case formatter_timeout p of None \<Rightarrow> True | Some t \<Rightarrow> is_finite t \<and> 0 < float_sign t)
      \<or> q = p\<lparr>formatter_timeout := None\<rparr>"
    using timeout by (cases "formatter_timeout p") (auto split: if_split_asm)
  have macro': "case reflection_api_macro p of None \<Rightarrow> True | Some m \<Rightarrow> is_reflection_api_macro m"
    using macro by (cases "reflection_api_macro p") (simp_all add: validate_reflection_api_macro_def)
  have mode': "format_mode p \<in> {''auto'', ''off'', ''required''}" using mode by (simp add: FORMAT_MODES_def)
  have path': "case generated_path_max_bytes p of None \<Rightarrow> True | Some n \<Rightarrow> MIN_HASHED_GENERATED_FILE_PATH_BYTES \<le> n"
    and dir': "case generated_directory_max_bytes p of None \<Rightarrow> True | Some n \<Rightarrow> 0 \<le> n"
    using path dir by (auto split: option.splits)
  from q show ?thesis
  proof (elim disjE conjE)
    assume q: "q = p" and t: "case formatter_timeout p of None \<Rightarrow> True | Some t \<Rightarrow> is_finite t \<and> 0 < float_sign t"
    show ?thesis unfolding valid_options_def q by (intro conjI ns macro' rp ip mode' assms(2) formatter t path' dir')
  next
    assume q: "q = p\<lparr>formatter_timeout := None\<rparr>"
    show ?thesis unfolding valid_options_def q using ns macro' rp ip mode' assms(2) formatter path' dir' by simp
  qed
qed

theorem accepted_parameters_valid:
  assumes "parse_parameter env raw = Inr p"
  shows "valid_options (unicode env) p"
proof -
  from assms obtain vs where "options_of env vs = Inr p"
    unfolding parse_parameter_def by (auto simp: Let_def split: if_split_asm)
  then obtain q where "post_init (unicode env) q = Inr p"
    and "format_mode q = ''required'' \<or> clang_format q = None \<and> clang_format_config q = None"
    unfolding options_of_def Let_def by (auto split: if_split_asm)
  then show ?thesis by (rule post_init_result)
qed

end
