(* ===== verification/Spec2Isabelle.thy ===== *)
theory Spec2Isabelle
  imports NameScopes Paths Capabilities Policy ValidationSpec ExprSpec ConstantsSpec CppLiterals DefaultsSpec BoxesSpec ClassNaming
    OutputSafety OutputRecovery CppScopesSpec ImportScannerSpec ParametersSpec
begin

text \<open>
  Protocyte is a plugin of the protobuf compiler: it reads a \<^verbatim>\<open>CodeGeneratorRequest\<close> (descriptors of
  \<^verbatim>\<open>.proto\<close> files) and writes C++ headers and sources for targets without a heap or an operating
  system. This development models the part of it that decides: whether a request is accepted, which
  files, types, constants, bounds, defaults and names the generated code has. The plugin is Python
  under \<^verbatim>\<open>src/src/protocyte\<close>, and its theories follow its modules. A second program, the output coordinator
  \<^verbatim>\<open>src/cmake/ProtocyteOutputCoordinator.py\<close>, moves what a build generated into the source tree of the user.

  \<^bold>\<open>How the program works.\<close> \<^verbatim>\<open>plugin.py\<close> checks the limits of the operator on the request and decodes its
  parameter. \<^verbatim>\<open>descriptor_set.py\<close> and the first half of \<^verbatim>\<open>model.py\<close> index the files, search their imports
  and type references, and refuse what the generator cannot express. \<^verbatim>\<open>model.py\<close> then checks every
  declaration, builds the objects of the model, decodes custom options, names everything, evaluates
  constant expressions and array bounds, parses default values, and finally computes the headers a file
  includes and the fields that have to be boxed. \<^verbatim>\<open>names.py\<close> and \<^verbatim>\<open>paths.py\<close> provide C++ names and the
  paths of generated files; \<^verbatim>\<open>_deterministic_math.py\<close> the floating-point functions of the constant
  expressions. \<^verbatim>\<open>cpp.py\<close> prints the model.

  \<^bold>\<open>Vocabulary.\<close> \<open>Prelude\<close>: strings are byte strings in UTF-8, an exception is the left value of a sum,
  \<open>rbind\<close>, \<open>rfold\<close>, \<open>each\<close>, \<open>rmap\<close> are sequencing and loops whose body may raise. \<open>Graph\<close>: Python's
  dictionaries in insertion order, and the locale \<open>finite_successors\<close> of the graph searches, whose
  termination order and closure lemmas every search instantiates. \<open>Naming\<close> inside \<open>NameScopes\<close> and its
  clients: a value of type \<^typ>\<open>'a option\<close> outside a sum is a search that may not return; that it
  returns is proved, never assumed.

  \<^bold>\<open>Theories and code.\<close>
  \<^item> \<open>Names\<close>, \<open>NameScopes\<close>: \<^verbatim>\<open>names.py\<close>. Escaping of schema names (\<open>cpp_identifier\<close> and its relatives) is
    portable and injective; \<open>EmittedNameScope\<close> with \<open>reserve\<close> and \<open>allocate\<close>: invariant of the scopes,
    what an allocation returns, and that its unbounded search ends.
  \<^item> \<open>Sha256\<close>, \<open>Paths\<close>: \<^verbatim>\<open>paths.py\<close>. The digest is the library's, written out from FIPS 180-4. Components are
    portable, the escaping is injective, budgets are respected and canonical.
  \<^item> \<open>Descriptors\<close>: the messages of \<^verbatim>\<open>descriptor.proto\<close> the generator reads, as records and a datatype for
    nested messages. \<open>Validation\<close>, \<open>Ranges\<close>, \<open>FieldSpec\<close>, \<open>ValidationSpec\<close>: the validators of
    \<^verbatim>\<open>model.py\<close> on messages, enums, fields, oneofs, reserved and extension ranges, with the reference
    definitions they implement.
  \<^item> \<open>ImportGraph\<close>, \<open>TypeCycles\<close>, \<open>CustomOptions\<close>, \<open>Capabilities\<close>: the searches of \<^verbatim>\<open>model.py\<close> and
    \<^verbatim>\<open>descriptor_set.py\<close> over imports and references, each shown equal to reachability.
  \<^item> \<open>Policy\<close>: \<^verbatim>\<open>GeneratorPolicy\<close> of \<^verbatim>\<open>plugin.py\<close>, against recursive totals of the request.
  \<^item> \<open>OptionsSchema\<close>: \<^verbatim>\<open>protocyte/options.proto\<close> as \<^verbatim>\<open>model.py\<close> requires it.
  \<^item> \<open>Rounding\<close>, \<open>PyFloat\<close>, \<open>DetMath\<close>, \<open>DetMathSpec\<close>: Python's floats in a normal form and
    \<^verbatim>\<open>_deterministic_math.py\<close>: rounding is IEEE rounding, powers within the exact budget are correctly rounded.
  \<^item> \<open>ExprValues\<close>, \<open>ExprTokens\<close>, \<open>ExprFunctions\<close>, \<open>ExprParser\<close>: the evaluator \<^verbatim>\<open>_ExprParser\<close> of constant
    expressions. \<open>ExprTyping\<close>, \<open>ExprSafety\<close>, \<open>ExprTotal\<close>, \<open>ExprSound\<close>: typing and totality, in the
    locale \<open>name_resolver\<close> for whatever resolves names; \<open>ExprSpec\<close>: its operators are those of machine
    words; \<open>ExprSim\<close>: evaluation is monotone in the resolver.
  \<^item> \<open>Constants\<close>, \<open>ConstantsSpec\<close>: package and message constants and array bounds, the depth-limited
    resolver with its cache: total, in range, and every finished constant satisfies its definition.
  \<^item> \<open>CppLiterals\<close>: string literals, read back as a compiler does.
  \<^item> \<open>Defaults\<close>, \<open>DefaultsSpec\<close>: field defaults; a decimal text rounds once.
  \<^item> \<open>ModelTypes\<close>, \<open>Build\<close>, \<open>BuildSpec\<close>, \<open>BuildTotal\<close>: the objects of the model and their construction; an
    accepted request is built or refused with the program's own errors, and its fields are consistent.
  \<^item> \<open>Boxes\<close>, \<open>BoxesSpec\<close>: included headers are the closure of references; boxed fields are exactly those
    on a cycle of single fields. The code overlooks bounded repeated fields, which are stored in the class too:
    \<open>array_cycle_accepted\<close> is a message that would contain itself.
  \<^item> \<open>MessageNames\<close>, \<open>MessageNamesSpec\<close>, \<open>ClassNames\<close>, \<open>ClassPhases\<close>, \<open>ClassNaming\<close>: the names inside a
    generated class, and that naming always ends.
  \<^item> \<open>Namespaces\<close>, \<open>CppScopes\<close>: the names of the declarations of a file (\<^verbatim>\<open>model.py\<close>), the namespaces of the
    packages and the checks of \<^verbatim>\<open>cpp.py\<close> on what all headers declare in them, with trees of namespaces as the
    code has them. \<open>NamespacesSpec\<close>: a namespace is spelled from its package alone. \<open>CppScopesSpec\<close>: the checks
    accept exactly the requests in which no two declarations clash.
  \<^item> \<open>Bytes\<close>: hexadecimal and UTF-8. \<open>Parameters\<close>, \<open>ParametersSpec\<close>: \<^verbatim>\<open>parameters.py\<close>. Valid options are read
    back from any order and spacing of their settings, plain or in hexadecimal, and nothing else is accepted.
  \<^item> \<open>ImportScanner\<close>: \<^verbatim>\<open>import_scanner.py\<close>, a separate process that tells CMake which sources a build
    depends on by scanning their text. Its file system is a dictionary of regular files, its host the record
    \<open>platform\<close>. \<open>ImportScannerSpec\<close>: the imports of a printed source are read back, and the closure of a set
    of sources is reachability along them.
  \<^item> \<open>Durable\<close>: programs whose effects survive a crash, as the list of durable states they pass through;
    triples for crash safety, and the locale \<open>recovery\<close> for any number of interrupted recoveries.
  \<^item> \<open>OutputPlan\<close>, \<open>OutputStore\<close>, \<open>OutputTransactions\<close>, \<open>OutputOperations\<close>:
    \<^verbatim>\<open>src/cmake/ProtocyteOutputCoordinator.py\<close>, which publishes staged outputs into a source tree the user
    also writes. \<open>store\<close> is what it keeps on disk for one output root; \<open>publish\<close>, \<open>validate\<close>, \<open>reconcile\<close>
    and \<open>reset\<close> are its operations with all their checks. \<open>OutputSafety\<close>: no step destroys bytes the
    coordinator does not own: a file is owned through the entry of the snapshot for its own path. \<open>OutputCrash\<close>, \<open>OutputRecovery\<close>: a publication is atomic across crashes.

  \<^bold>\<open>Bounds and fuel.\<close> The nesting of expressions and of constant dependencies is limited to 32 by the code
  itself, so the recursion of the model is on that limit. Loops of the parser carry as fuel the number of
  tokens, and each round consumes one; \<open>ExprSound\<close> shows the fuel never ends first. Graph searches
  are total functions: a step either consumes the work list or adds a node of a finite graph. Map entries
  nest at most twice (\<open>MAP_ENTRY_DEPTH\<close>), which the validators guarantee.

  \<^bold>\<open>Parameters.\<close> The decoding of option payloads and the resolution of descriptor pools belong to the
  protobuf library, the classification of non-ASCII characters to Python's Unicode tables, general
  decimal powers to the \<^verbatim>\<open>decimal\<close> module: they are arguments of the definitions that use them, with the laws
  used as hypotheses (such as \<open>sane_unicode\<close>: the character of a name is never a numeral).

  \<^bold>\<open>Not modelled.\<close> Python's recursion limit and the handler of \<^verbatim>\<open>RecursionError\<close>; the text
  \<^verbatim>\<open>_TypedValue.cpp_expr\<close>, which no output uses; source comments copied to the output; the printing of C++
  in \<^verbatim>\<open>cpp.py\<close>; process handling and files (\<^verbatim>\<open>main.py\<close>, \<^verbatim>\<open>_formatter_supervisor.py\<close>, the
  release scripts, the debugger extension, the managed Python environment of the CMake package), which
  are I/O around operating-system services. Of the coordinator: the locks, which make its operations
  exclusive; links above the output root; the checks between the roots of different builds; the reading
  of plan files. Of the import scanner: the watch list for CMake (links, inodes and times of files), the text of
  its request and answer. Not reached: \<^verbatim>\<open>dependency_file.py\<close>.
\<close>

end
